(* ===== verification/S4_Prelude.thy ===== *)
theory S4_Prelude
  imports Main "HOL-Library.Word" "HOL-Library.Monad_Syntax"
begin

text \<open>
  Shared vocabulary of the development: the integer types of \<^verbatim>\<open>include/issd_types.h\<close>, the
  fact collections the component proofs use, and the list and arithmetic lemmas about ring
  buffers, which occur in five places of the firmware (the container library, the kernel's
  message queues, the kernel's callback queues, the NAND operation pool and the NVMe pending
  completion queue).
\<close>

section \<open>Machine integers\<close>

type_synonym u8 = "8 word"
type_synonym u16 = "16 word"
type_synonym u32 = "32 word"
type_synonym u64 = "64 word"

section \<open>Fact collections\<close>

named_theorems fw_defs \<open>definitions of straight-line firmware code, for unfolding\<close>
named_theorems fw_frame \<open>what an operation leaves unchanged\<close>
named_theorems geom \<open>the NAND geometry macros\<close>

section \<open>Options\<close>

lemma bind_SomeE:
  assumes "Option.bind m f = Some y"
  obtains x where "m = Some x" and "f x = Some y"
  using assms by (cases m) auto

lemma assert_bind [simp]:
  "((if P then Some () else None) \<bind> f = Some y) \<longleftrightarrow> P \<and> f () = Some y"
  by simp

section \<open>Array updates\<close>

lemma in_set_updD: "x \<in> set (xs[i := y]) \<Longrightarrow> x = y \<or> x \<in> set xs"
  using set_update_subset_insert [of xs i y] by auto

lemma map_upd_same: "f y = f (xs ! i) \<Longrightarrow> map f (xs[i := y]) = map f xs"
  by (cases "i < length xs") (simp_all add: map_update list_update_beyond, metis list_update_id nth_map)

section \<open>Ring buffers\<close>

text \<open>
  \<open>ring_list xs n h t\<close> is the queue held by an array \<open>xs\<close> of \<open>n\<close> slots with read index \<open>h\<close>
  and write index \<open>t\<close>; one slot is always left unused, so \<open>h = t\<close> means empty.
\<close>

definition ring_len :: "nat \<Rightarrow> nat \<Rightarrow> nat \<Rightarrow> nat" where
  "ring_len n h t = (t + n - h) mod n"

definition ring_list :: "'a list \<Rightarrow> nat \<Rightarrow> nat \<Rightarrow> nat \<Rightarrow> 'a list" where
  "ring_list xs n h t = map (\<lambda>i. xs ! ((h + i) mod n)) [0..<ring_len n h t]"

lemma length_ring_list [simp]: "length (ring_list xs n h t) = ring_len n h t"
  by (simp add: ring_list_def)

lemma ring_len_cases:
  assumes "h < n" "t < n"
  shows "ring_len n h t = (if h \<le> t then t - h else n + t - h)"
proof (cases "h \<le> t")
  case True
  then have "t + n - h = (t - h) + n" by simp
  then have "ring_len n h t = (t - h) mod n" by (simp add: ring_len_def)
  with True assms show ?thesis by simp
next
  case False
  with assms show ?thesis by (simp add: ring_len_def add.commute)
qed

lemma ring_succ: "t < n \<Longrightarrow> Suc t mod n = (if Suc t = n then 0 else Suc t)"
  by (cases "Suc t = n") auto

lemma ring_len_0: "h < n \<Longrightarrow> t < n \<Longrightarrow> ring_len n h t = 0 \<longleftrightarrow> h = t"
  by (auto simp: ring_len_cases)

lemma ring_len_less: "0 < n \<Longrightarrow> ring_len n h t < n"
  by (simp add: ring_len_def)

lemma ring_list_empty: "h < n \<Longrightarrow> t < n \<Longrightarrow> ring_list xs n h t = [] \<longleftrightarrow> h = t"
  using ring_len_0 [of h n t] by (metis length_0_conv length_ring_list)

lemma ring_len_enq:
  assumes "h < n" "t < n" "h \<noteq> (t + 1) mod n"
  shows "ring_len n h ((t + 1) mod n) = Suc (ring_len n h t)"
proof -
  have "0 < n" using assms by simp
  then have lt: "(t + 1) mod n < n" by simp
  show ?thesis
    using assms lt by (auto simp: ring_len_cases ring_succ split: if_splits)
qed

lemma ring_len_full:
  assumes "h < n" "t < n"
  shows "h = (t + 1) mod n \<longleftrightarrow> ring_len n h t = n - 1"
  using assms by (auto simp: ring_len_cases ring_succ split: if_splits)

lemma ring_last:
  assumes "h < n" "t < n"
  shows "(h + ring_len n h t) mod n = t"
  using assms by (auto simp: ring_len_cases)

lemma ring_slot_neq:
  assumes "h < n" "t < n" "i < ring_len n h t"
  shows "(h + i) mod n \<noteq> t"
proof (cases "h \<le> t")
  case True
  with assms show ?thesis by (simp add: ring_len_cases)
next
  case False
  show ?thesis
  proof (cases "h + i < n")
    case True
    with False show ?thesis by simp
  next
    case ge: False
    with False assms have i: "i < n + t - h" by (simp add: ring_len_cases)
    from ge assms i have "(h + i) mod n = h + i - n"
      by (simp add: mod_if)
    with ge i False show ?thesis by linarith
  qed
qed

lemma ring_list_enq:
  assumes "h < n" "t < n" "length xs = n" "h \<noteq> (t + 1) mod n"
  shows "ring_list (xs[t := x]) n h ((t + 1) mod n) = ring_list xs n h t @ [x]"
proof -
  have neq: "t \<noteq> (h + i) mod n" if "i < ring_len n h t" for i
    using ring_slot_neq [OF assms(1,2) that] by simp
  have "map (\<lambda>i. xs[t := x] ! ((h + i) mod n)) [0..<ring_len n h t] = ring_list xs n h t"
    unfolding ring_list_def by (rule map_cong [OF refl]) (simp add: neq)
  moreover have "xs[t := x] ! ((h + ring_len n h t) mod n) = x"
    using assms ring_last [OF assms(1,2)] by simp
  ultimately show ?thesis
    using ring_len_enq [OF assms(1,2,4)] by (simp add: ring_list_def)
qed

lemma ring_len_deq:
  assumes "h < n" "t < n" "h \<noteq> t"
  shows "ring_len n h t = Suc (ring_len n ((h + 1) mod n) t)"
proof -
  have "0 < n" using assms by simp
  then have "(h + 1) mod n < n" by simp
  then show ?thesis
    using assms by (auto simp: ring_len_cases ring_succ split: if_splits)
qed

lemma ring_list_deq:
  assumes "h < n" "t < n" "h \<noteq> t"
  shows "ring_list xs n h t = xs ! h # ring_list xs n ((h + 1) mod n) t"
proof -
  have "ring_list xs n h t
      = xs ! h # map (\<lambda>i. xs ! ((h + Suc i) mod n)) [0..<ring_len n ((h + 1) mod n) t]"
    using assms ring_len_deq [OF assms] by (simp add: ring_list_def map_upt_Suc del: upt_Suc)
  moreover have "(h + Suc i) mod n = ((h + 1) mod n + i) mod n" for i
    by (simp add: mod_add_left_eq)
  ultimately show ?thesis by (simp add: ring_list_def)
qed

lemmas ring_facts = ring_list_enq ring_list_deq ring_list_empty ring_len_full ring_len_less

end
