(* ===== verification/Containers.thy ===== *)
theory Containers
  imports S4_Prelude
begin

text \<open>
  The container and memory helpers of the firmware: the circular queue \<open>queue_t\<close>
  (\<^verbatim>\<open>util.h\<close>, \<^verbatim>\<open>util.containers.c\<close>), the byte and word copy loops (\<^verbatim>\<open>util.memcp.c\<close>) and the
  string helpers \<open>_strnlen\<close> and \<open>strpadcpy\<close> (\<^verbatim>\<open>util.uart_print.c\<close>). The locale
  \<open>bounded_fifo\<close> is the contract every bounded queue of the firmware is proved against.
\<close>

unbundle bit_operations_syntax

section \<open>The circular queue\<close>

text \<open>
  \<open>int tail, head, size\<close> are only ever \<open>0\<close>, an array size or a value reduced modulo \<open>size\<close>, so
  they are natural numbers here; \<open>objs\<close> is the array the queue points to.
\<close>

record 'a queue_t =
  q_tail :: nat
  q_head :: nat
  q_size :: nat
  q_objs :: "'a list"

definition DEFINE_CIRCULAR_QUEUE :: "'a list \<Rightarrow> 'a queue_t" where
  "DEFINE_CIRCULAR_QUEUE items =
     \<lparr>q_tail = 0, q_head = 0, q_size = length items, q_objs = items\<rparr>"

definition enQueue :: "'a queue_t \<Rightarrow> 'a \<Rightarrow> 'a option \<times> 'a queue_t" where
  "enQueue queue item_ptr =
     (if q_head queue = (q_tail queue + 1) mod q_size queue then (None, queue)
      else (Some item_ptr,
            queue\<lparr>q_objs := (q_objs queue)[q_tail queue := item_ptr],
                  q_tail := (q_tail queue + 1) mod q_size queue\<rparr>))"

definition deQueue :: "'a queue_t \<Rightarrow> 'a option \<times> 'a queue_t" where
  "deQueue queue =
     (if q_head queue = q_tail queue then (None, queue)
      else (Some (q_objs queue ! q_head queue),
            queue\<lparr>q_head := (q_head queue + 1) mod q_size queue\<rparr>))"

section \<open>The contract of a bounded FIFO queue\<close>

datatype 'a fifo_op = Enq 'a | Deq

text \<open>
  \<open>fifo_run enq deq ops q\<close> performs a sequence of operations and returns the items that were
  accepted, the items that were delivered and the final queue.
\<close>

fun fifo_run ::
  "('q \<Rightarrow> 'a \<Rightarrow> bool \<times> 'q) \<Rightarrow> ('q \<Rightarrow> 'a option \<times> 'q) \<Rightarrow> 'a fifo_op list \<Rightarrow> 'q \<Rightarrow> 'a list \<times> 'a list \<times> 'q"
where
  "fifo_run enq deq [] q = ([], [], q)"
| "fifo_run enq deq (Enq x # ops) q =
     (let (ok, q1) = enq q x; (acc, del, q2) = fifo_run enq deq ops q1
      in (if ok then x # acc else acc, del, q2))"
| "fifo_run enq deq (Deq # ops) q =
     (let (r, q1) = deq q; (acc, del, q2) = fifo_run enq deq ops q1
      in (acc, (case r of None \<Rightarrow> del | Some x \<Rightarrow> x # del), q2))"

locale bounded_fifo =
  fixes invar :: "'q \<Rightarrow> bool"
    and contents :: "'q \<Rightarrow> 'a list"
    and capacity :: "'q \<Rightarrow> nat"
    and enq :: "'q \<Rightarrow> 'a \<Rightarrow> bool \<times> 'q"
    and deq :: "'q \<Rightarrow> 'a option \<times> 'q"
  assumes contents_le: "invar q \<Longrightarrow> length (contents q) \<le> capacity q"
    and enq_full: "invar q \<Longrightarrow> length (contents q) = capacity q \<Longrightarrow> enq q x = (False, q)"
    and enq_room: "invar q \<Longrightarrow> length (contents q) < capacity q \<Longrightarrow>
      \<exists>q'. enq q x = (True, q') \<and> invar q' \<and> contents q' = contents q @ [x] \<and> capacity q' = capacity q"
    and deq_empty: "invar q \<Longrightarrow> contents q = [] \<Longrightarrow> deq q = (None, q)"
    and deq_head: "invar q \<Longrightarrow> contents q = x # xs \<Longrightarrow>
      \<exists>q'. deq q = (Some x, q') \<and> invar q' \<and> contents q' = xs \<and> capacity q' = capacity q"
begin

lemma enq_cases:
  assumes "invar q" and "enq q x = (ok, q')"
  shows "invar q' \<and> capacity q' = capacity q \<and>
    contents q' = contents q @ (if ok then [x] else []) \<and> (ok \<longleftrightarrow> length (contents q) < capacity q)"
proof (cases "length (contents q) < capacity q")
  case True
  with enq_room [OF assms(1) True, of x] assms(2) show ?thesis by auto
next
  case False
  with contents_le [OF assms(1)] have "length (contents q) = capacity q" by simp
  with enq_full [OF assms(1) this, of x] assms show ?thesis by auto
qed

lemma deq_cases:
  assumes "invar q" and "deq q = (r, q')"
  shows "invar q' \<and> capacity q' = capacity q \<and>
    contents q = (case r of None \<Rightarrow> [] | Some x \<Rightarrow> [x]) @ contents q'"
proof (cases "contents q")
  case Nil
  with deq_empty [OF assms(1) Nil] assms show ?thesis by auto
next
  case (Cons x xs)
  with deq_head [OF assms(1) Cons] assms(2) show ?thesis by auto
qed

text \<open>No item is lost, duplicated or reordered by any sequence of operations.\<close>

lemma run_fifo:
  assumes "invar q" and "fifo_run enq deq ops q = (acc, del, q')"
  shows "invar q' \<and> capacity q' = capacity q \<and> contents q @ acc = del @ contents q'"
  using assms
proof (induction ops arbitrary: q acc del q')
  case Nil
  then show ?case by simp
next
  case (Cons op ops)
  show ?case
  proof (cases op)
    case (Enq x)
    obtain ok q1 where q1: "enq q x = (ok, q1)" by fastforce
    obtain acc1 del1 q2 where r: "fifo_run enq deq ops q1 = (acc1, del1, q2)"
      by (metis prod_cases3)
    from enq_cases [OF Cons.prems(1) q1] Cons.IH [OF _ r] Cons.prems(2) q1 r Enq
    show ?thesis by (auto split: if_splits)
  next
    case Deq
    obtain x q1 where q1: "deq q = (x, q1)" by fastforce
    obtain acc1 del1 q2 where r: "fifo_run enq deq ops q1 = (acc1, del1, q2)"
      by (metis prod_cases3)
    from deq_cases [OF Cons.prems(1) q1] Cons.IH [OF _ r] Cons.prems(2) q1 r Deq
    show ?thesis by (auto split: option.splits)
  qed
qed

text \<open>A queue that starts empty delivers a prefix of what it accepted, in order.\<close>

lemma run_from_empty:
  assumes "invar q" "contents q = []" "fifo_run enq deq ops q = (acc, del, q')"
  shows "acc = del @ contents q' \<and> length acc \<le> length del + capacity q"
  using run_fifo [OF assms(1,3)] contents_le [of q'] assms(2) by simp

end

section \<open>Ring buffers are bounded FIFO queues\<close>

text \<open>
  Every bounded queue of the firmware is a ring buffer: a read index, a write index, a slot array
  and a modulus. A provider only shows how its two operations move these; the FIFO contract then
  follows once and for all.
\<close>

locale ring_queue =
  fixes rd :: "'q \<Rightarrow> nat"
    and wr :: "'q \<Rightarrow> nat"
    and slots :: "'q \<Rightarrow> 'a list"
    and modulus :: "'q \<Rightarrow> nat"
    and enq :: "'q \<Rightarrow> 'a \<Rightarrow> bool \<times> 'q"
    and deq :: "'q \<Rightarrow> 'a option \<times> 'q"
  assumes enq_when_full: "rd q = (wr q + 1) mod modulus q \<Longrightarrow> enq q x = (False, q)"
    and enq_store: "rd q \<noteq> (wr q + 1) mod modulus q \<Longrightarrow>
      \<exists>q'. enq q x = (True, q') \<and> rd q' = rd q \<and> wr q' = (wr q + 1) mod modulus q \<and>
        slots q' = (slots q)[wr q := x] \<and> modulus q' = modulus q"
    and deq_when_empty: "rd q = wr q \<Longrightarrow> deq q = (None, q)"
    and deq_take: "rd q \<noteq> wr q \<Longrightarrow>
      \<exists>q'. deq q = (Some (slots q ! rd q), q') \<and> rd q' = (rd q + 1) mod modulus q \<and> wr q' = wr q \<and>
        slots q' = slots q \<and> modulus q' = modulus q"

sublocale ring_queue \<subseteq> bounded_fifo
  "\<lambda>q. wr q < modulus q \<and> rd q < modulus q \<and> length (slots q) = modulus q"
  "\<lambda>q. ring_list (slots q) (modulus q) (rd q) (wr q)" "\<lambda>q. modulus q - 1" enq deq
proof
  fix q x xs
  assume "wr q < modulus q \<and> rd q < modulus q \<and> length (slots q) = modulus q"
  then have lt: "rd q < modulus q" "wr q < modulus q" and len: "length (slots q) = modulus q"
    by auto
  let ?items = "\<lambda>q. ring_list (slots q) (modulus q) (rd q) (wr q)"
  note full = ring_len_full [OF lt]
  show "length (?items q) \<le> modulus q - 1"
    using ring_len_less [of "modulus q" "rd q" "wr q"] lt by simp
  show "enq q x = (False, q)" if "length (?items q) = modulus q - 1"
    using that full enq_when_full by simp
  show "\<exists>q'. enq q x = (True, q') \<and> (wr q' < modulus q' \<and> rd q' < modulus q' \<and> length (slots q') = modulus q')
      \<and> ?items q' = ?items q @ [x] \<and> modulus q' - 1 = modulus q - 1"
    if "length (?items q) < modulus q - 1"
  proof -
    from that full have ne: "rd q \<noteq> (wr q + 1) mod modulus q" by auto
    from enq_store [OF ne, of x] ring_list_enq [OF lt len ne, of x] lt len show ?thesis by auto
  qed
  show "deq q = (None, q)" if "?items q = []"
    using that lt deq_when_empty by (simp add: ring_list_empty)
  show "\<exists>q'. deq q = (Some x, q') \<and> (wr q' < modulus q' \<and> rd q' < modulus q' \<and> length (slots q') = modulus q')
      \<and> ?items q' = xs \<and> modulus q' - 1 = modulus q - 1" if "?items q = x # xs"
  proof -
    from that lt have ne: "rd q \<noteq> wr q" using ring_list_empty [OF lt, of "slots q"] by auto
    from that ring_list_deq [OF lt ne, of "slots q"] deq_take [OF ne] lt len show ?thesis by auto
  qed
qed

section \<open>The circular queue is a bounded FIFO queue\<close>

definition queue_inv :: "'a queue_t \<Rightarrow> bool" where
  "queue_inv q \<longleftrightarrow> q_tail q < q_size q \<and> q_head q < q_size q \<and> length (q_objs q) = q_size q"

definition queue_items :: "'a queue_t \<Rightarrow> 'a list" where
  "queue_items q = ring_list (q_objs q) (q_size q) (q_head q) (q_tail q)"

definition enQueue_ok :: "'a queue_t \<Rightarrow> 'a \<Rightarrow> bool \<times> 'a queue_t" where
  "enQueue_ok q x = (fst (enQueue q x) \<noteq> None, snd (enQueue q x))"

interpretation cq: ring_queue q_head q_tail q_objs q_size enQueue_ok deQueue
  rewrites "\<And>q. (q_tail q < q_size q \<and> q_head q < q_size q \<and> length (q_objs q) = q_size q) = queue_inv q"
    and "\<And>q. ring_list (q_objs q) (q_size q) (q_head q) (q_tail q) = queue_items q"
proof -
  show "ring_queue q_head q_tail q_objs q_size enQueue_ok deQueue"
    by unfold_locales (auto simp: enQueue_ok_def enQueue_def deQueue_def)
qed (simp_all add: queue_inv_def queue_items_def)

lemma queue_inv_define [simp]: "items \<noteq> [] \<Longrightarrow> queue_inv (DEFINE_CIRCULAR_QUEUE items)"
  by (simp add: queue_inv_def DEFINE_CIRCULAR_QUEUE_def)

lemma queue_items_define [simp]: "items \<noteq> [] \<Longrightarrow> queue_items (DEFINE_CIRCULAR_QUEUE items) = []"
  by (simp add: queue_items_def DEFINE_CIRCULAR_QUEUE_def ring_list_empty)

lemma enQueue_inv: "queue_inv q \<Longrightarrow> queue_inv (snd (enQueue q x))"
  using cq.enq_cases [of q x "fst (enQueue_ok q x)" "snd (enQueue_ok q x)"]
  by (simp add: enQueue_ok_def)

lemma deQueue_inv: "queue_inv q \<Longrightarrow> queue_inv (snd (deQueue q))"
  using cq.deq_cases [of q "fst (deQueue q)" "snd (deQueue q)"] by simp

lemma enQueue_size [simp]: "q_size (snd (enQueue q x)) = q_size q"
  by (simp add: enQueue_def)

lemma deQueue_size [simp]: "q_size (snd (deQueue q)) = q_size q"
  by (simp add: deQueue_def)

lemma enQueue_items:
  "queue_inv q \<Longrightarrow> queue_items (snd (enQueue q x))
     = queue_items q @ (if fst (enQueue q x) = None then [] else [x])"
  using cq.enq_cases [of q x "fst (enQueue_ok q x)" "snd (enQueue_ok q x)"]
  by (auto simp: enQueue_ok_def)

lemma enQueue_accepts:
  "queue_inv q \<Longrightarrow> fst (enQueue q x) \<noteq> None \<longleftrightarrow> length (queue_items q) < q_size q - 1"
  using cq.enq_cases [of q x "fst (enQueue_ok q x)" "snd (enQueue_ok q x)"]
  by (auto simp: enQueue_ok_def)

lemma deQueue_items:
  "queue_inv q \<Longrightarrow> queue_items q
     = (case fst (deQueue q) of None \<Rightarrow> [] | Some x \<Rightarrow> [x]) @ queue_items (snd (deQueue q))"
  using cq.deq_cases [of q "fst (deQueue q)" "snd (deQueue q)"] by simp

section \<open>Memory helpers\<close>

text \<open>
  SSD memory is a map from byte addresses to bytes. Each loop of \<^verbatim>\<open>util.memcp.c\<close> writes one
  element per iteration, in ascending order; with overlapping ranges the order is visible.
\<close>

type_synonym mem = "nat \<Rightarrow> u8"

definition byte_of :: "u32 \<Rightarrow> nat \<Rightarrow> u8" where
  "byte_of w k = ucast (drop_bit (8 * k) w)"

definition load32 :: "mem \<Rightarrow> nat \<Rightarrow> u32" where
  "load32 m a = ucast (m a) OR push_bit 8 (ucast (m (a + 1)))
     OR push_bit 16 (ucast (m (a + 2))) OR push_bit 24 (ucast (m (a + 3)))"

definition store32 :: "mem \<Rightarrow> nat \<Rightarrow> u32 \<Rightarrow> mem" where
  "store32 m a w = m(a := byte_of w 0, a + 1 := byte_of w 1, a + 2 := byte_of w 2, a + 3 := byte_of w 3)"

definition memset32 :: "mem \<Rightarrow> nat \<Rightarrow> u32 \<Rightarrow> nat \<Rightarrow> mem" where
  "memset32 m ptr value count = fold (\<lambda>ix m. store32 m (ptr + 4 * ix) value) [0..<count] m"

definition memset8 :: "mem \<Rightarrow> nat \<Rightarrow> u8 \<Rightarrow> nat \<Rightarrow> mem" where
  "memset8 m ptr value count = fold (\<lambda>ix m. m(ptr + ix := value)) [0..<count] m"

definition memcpy_sysbitw :: "mem \<Rightarrow> nat \<Rightarrow> nat \<Rightarrow> nat \<Rightarrow> mem" where
  "memcpy_sysbitw m dst src count =
     fold (\<lambda>ix m. store32 m (dst + 4 * ix) (load32 m (src + 4 * ix))) [0..<count] m"

definition memcpy8 :: "mem \<Rightarrow> nat \<Rightarrow> nat \<Rightarrow> nat \<Rightarrow> mem" where
  "memcpy8 m dst src count = fold (\<lambda>ix m. m(dst + ix := m (src + ix))) [0..<count] m"

text \<open>\<open>_strnlen\<close> and \<open>strpadcpy\<close>: the string ends at its first zero byte or at \<open>max_len\<close>.\<close>

fun strnlen_from :: "mem \<Rightarrow> nat \<Rightarrow> nat \<Rightarrow> nat \<Rightarrow> nat" where
  "strnlen_from m s i 0 = i"
| "strnlen_from m s i (Suc k) = (if m (s + i) = 0 then i else strnlen_from m s (Suc i) k)"

definition strnlen :: "mem \<Rightarrow> nat \<Rightarrow> nat \<Rightarrow> nat" where
  "strnlen m s max_len = strnlen_from m s 0 max_len"

definition strpadcpy :: "mem \<Rightarrow> nat \<Rightarrow> nat \<Rightarrow> nat \<Rightarrow> u8 \<Rightarrow> mem" where
  "strpadcpy m buf buf_size str pad =
     (let len = strnlen m str buf_size
      in memset8 (memcpy8 m buf str len) (buf + len) pad (buf_size - len))"

lemma memset8_apply:
  "memset8 m ptr v n a = (if ptr \<le> a \<and> a < ptr + n then v else m a)"
  unfolding memset8_def by (induction n) auto

lemma memcpy8_apply:
  assumes "dst \<le> src \<or> src + n \<le> dst"
  shows "memcpy8 m dst src n a = (if dst \<le> a \<and> a < dst + n then m (src + (a - dst)) else m a)"
  using assms unfolding memcpy8_def by (induction n arbitrary: a) auto

lemma byte_load32:
  "byte_of (load32 m a) 0 = m a" "byte_of (load32 m a) 1 = m (a + 1)"
  "byte_of (load32 m a) 2 = m (a + 2)" "byte_of (load32 m a) 3 = m (a + 3)"
  by (simp_all add: byte_of_def load32_def bit_eq_iff bit_simps)
    (auto dest: bit_imp_le_length)

lemma store32_apply:
  "store32 m a w x = (if a \<le> x \<and> x < a + 4 then byte_of w (x - a) else m x)"
  by (auto simp: store32_def numeral_eq_Suc less_Suc_eq)

lemma byte_load32_at: "k < 4 \<Longrightarrow> byte_of (load32 m a) k = m (a + k)"
  using byte_load32 [of m a] by (auto simp: numeral_eq_Suc less_Suc_eq)

lemma memset32_apply:
  "memset32 m ptr v n a = (if ptr \<le> a \<and> a < ptr + 4 * n then byte_of v ((a - ptr) mod 4) else m a)"
  unfolding memset32_def
proof (induction n)
  case (Suc n)
  show ?case
  proof (cases "ptr + 4 * n \<le> a \<and> a < ptr + 4 * n + 4")
    case True
    then obtain k where k: "a = ptr + 4 * n + k" "k < 4"
      by (metis add_less_cancel_left le_iff_add)
    then have "(a - ptr) mod 4 = a - (ptr + 4 * n)" by simp
    with Suc True show ?thesis by (simp add: store32_apply)
  next
    case False
    with Suc show ?thesis by (auto simp: store32_apply)
  qed
qed auto

lemma memcpy_sysbitw_apply:
  assumes "dst + 4 * n \<le> src \<or> src + 4 * n \<le> dst"
  shows "memcpy_sysbitw m dst src n a
    = (if dst \<le> a \<and> a < dst + 4 * n then m (src + (a - dst)) else m a)"
  using assms
proof (induction n arbitrary: a)
  case 0
  then show ?case by (auto simp: memcpy_sysbitw_def)
next
  case (Suc n)
  then have dj: "dst + 4 * n \<le> src \<or> src + 4 * n \<le> dst" by auto
  have step: "memcpy_sysbitw m dst src (Suc n) = store32 (memcpy_sysbitw m dst src n) (dst + 4 * n)
      (load32 (memcpy_sysbitw m dst src n) (src + 4 * n))"
    by (simp add: memcpy_sysbitw_def)
  have src: "memcpy_sysbitw m dst src n (src + 4 * n + k) = m (src + 4 * n + k)" if "k < 4" for k
    using Suc.IH [OF dj] Suc.prems that by auto
  show ?case
  proof (cases "dst + 4 * n \<le> a \<and> a < dst + 4 * n + 4")
    case True
    then have "a - (dst + 4 * n) < 4" by linarith
    from True have "src + 4 * n + (a - (dst + 4 * n)) = src + (a - dst)" by simp
    with True byte_load32_at [OF \<open>a - (dst + 4 * n) < 4\<close>] src [OF \<open>a - (dst + 4 * n) < 4\<close>]
    show ?thesis by (simp add: step store32_apply)
  next
    case False
    with Suc.IH [OF dj, of a] show ?thesis by (auto simp: step store32_apply)
  qed
qed

end
