(* ===== verification/Kernel.thy ===== *)
theory Kernel
  imports Containers
begin

text \<open>
  The firmware kernel (\<^verbatim>\<open>issd_kernel.h\<close>, \<^verbatim>\<open>issd_kernel.c\<close>): the thread, function and queue
  tables, the message queues between modules, the per-thread callback queues, the round-robin
  scheduler of a core, the execution of a thread's pending work, the uncacheable-memory
  allocator and the flat MMU table. A result \<open>None\<close> means that the C code does not return
  normally: it called \<open>shutDownSystem\<close> or left the bounds of one of its tables.
\<close>

unbundle bit_operations_syntax

section \<open>Objects and functions that travel through the queues\<close>

text \<open>
  A \<open>void *\<close> in a queue points to one of the firmware's statically allocated objects; function
  pointers are the handlers the modules register.
\<close>

datatype obj_ptr =
    NULL
  | R_REQ nat        \<comment> \<open>\<open>&r_req[i]\<close>\<close>
  | W_REQ nat        \<comment> \<open>\<open>&w_req[i]\<close>\<close>
  | O_REQ nat        \<comment> \<open>\<open>&other_req_alloc[i][0]\<close>\<close>
  | WBC              \<comment> \<open>\<open>&wbc\<close> of the buffer manager\<close>
  | SYNC_DMA         \<comment> \<open>\<open>&sync_dma\<close> of the host DMA module\<close>
  | PRP_DMA          \<comment> \<open>\<open>&dma\<close> of the NVMe driver\<close>
  | DMA_OF obj_ptr   \<comment> \<open>\<open>&req->dma\<close>\<close>
  | ISP_THRD nat     \<comment> \<open>\<open>&threads[i]\<close> of the ISP driver\<close>

datatype code_ptr =
    sync_dma_cbk_ftn | completed_req_cbk_ftn | initialize_nvme_ftn | check_door_bell_ftn
  | process_req_cbk_ftn | initialize_ftl_ftn | initialize_nand_ctrl_ftn
  | msg_cbk_ftn | thrd_cbk_ftn | recycle_control_command_ftn | no_ftn

section \<open>Kernel data\<close>

definition MSG_Q_SIZE :: nat where "MSG_Q_SIZE = 256"
definition NUM_CPUS :: nat where "NUM_CPUS = 4"
definition THREAD_STATUS_ACTIVE :: u32 where "THREAD_STATUS_ACTIVE = 1"
definition THREAD_STATUS_READY :: u32 where "THREAD_STATUS_READY = 2"
definition THREAD_STATUS_SWPM :: u32 where "THREAD_STATUS_SWPM = 3"

text \<open>Threads without the saved registers and stack pointers the assembly code uses.\<close>

record thrd_t =
  t_id :: nat
  t_status :: u32
  t_skipped_count :: u32
  t_num_of_ftns :: nat
  t_function_ids :: "nat list"
  t_num_of_queues :: nat
  t_msg_queues :: "nat list"
  t_cbk_tail :: nat
  t_cbk_head :: nat
  t_cbk_entries :: "(nat \<times> obj_ptr) list"

record thrd_ftn_t =
  tf_id :: nat
  tf_ftn_ptr :: code_ptr
  tf_thrd_id :: nat

record obj_queue_t =
  oq_id :: nat
  oq_push_thrd :: nat
  oq_cbk_ftn_id :: nat
  oq_tail :: nat
  oq_head :: nat
  oq_entries :: "(u32 \<times> obj_ptr) list"

record cpu_threads_t =
  ct_cpu_id :: nat
  ct_current_thread :: "nat option"
  ct_num_assigned_threads :: nat
  ct_threads :: "nat list"

record kernel_st =
  thrds :: "thrd_t list"
  num_of_thrds :: nat
  all_thrds_ftns :: "thrd_ftn_t list"
  num_of_ftns :: nat
  queues :: "obj_queue_t list"
  thread_schedule :: "cpu_threads_t list"
  uncached_ram_start :: nat
  uncached_ram_end :: nat
  uncacheable_next_ptr :: nat
  allocation_count :: u32
  completed_req_cbk_ftn_id :: nat
  process_req_cbk_ftn_id :: nat

text \<open>The zero-initialised tables the firmware image starts with.\<close>

definition zero_thrd :: thrd_t where
  "zero_thrd = \<lparr>t_id = 0, t_status = 0, t_skipped_count = 0, t_num_of_ftns = 0,
     t_function_ids = replicate 16 0, t_num_of_queues = 0, t_msg_queues = replicate 16 0,
     t_cbk_tail = 0, t_cbk_head = 0, t_cbk_entries = replicate MSG_Q_SIZE (0, NULL)\<rparr>"

definition zero_ftn :: thrd_ftn_t where
  "zero_ftn = \<lparr>tf_id = 0, tf_ftn_ptr = no_ftn, tf_thrd_id = 0\<rparr>"

definition zero_obj_queue :: obj_queue_t where
  "zero_obj_queue = \<lparr>oq_id = 0, oq_push_thrd = 0, oq_cbk_ftn_id = 0, oq_tail = 0, oq_head = 0,
     oq_entries = replicate MSG_Q_SIZE (0, NULL)\<rparr>"

definition zero_cpu :: cpu_threads_t where
  "zero_cpu = \<lparr>ct_cpu_id = 0, ct_current_thread = None, ct_num_assigned_threads = 0,
     ct_threads = replicate 8 0\<rparr>"

definition kernel_image :: kernel_st where
  "kernel_image = \<lparr>thrds = replicate 8 zero_thrd, num_of_thrds = 1,
     all_thrds_ftns = replicate 64 zero_ftn, num_of_ftns = 0,
     queues = replicate 16 zero_obj_queue, thread_schedule = replicate NUM_CPUS zero_cpu,
     uncached_ram_start = 2496 * 2 ^ 20, uncached_ram_end = 0,
     uncacheable_next_ptr = 2496 * 2 ^ 20, allocation_count = 0,
     completed_req_cbk_ftn_id = 0, process_req_cbk_ftn_id = 0\<rparr>"

section \<open>Memory map and allocator\<close>

definition DEV_MEM :: u32 where "DEV_MEM = 0x00002c02"
definition CACHEABLE_MEM :: u32 where "CACHEABLE_MEM = 0x00007c0e"
definition UNCACHEABLE_MEM :: u32 where "UNCACHEABLE_MEM = 0x00002c02"

text \<open>One loop of \<open>make_mmu_ttb\<close>: section \<open>i\<close> is mapped to itself with the given attributes.\<close>

definition ttb_fill :: "nat \<Rightarrow> nat \<Rightarrow> u32 \<Rightarrow> u32 list \<Rightarrow> u32 list" where
  "ttb_fill from to attr table_address =
     fold (\<lambda>i t. t[i := push_bit 20 (of_nat i) OR attr]) [from..<to] table_address"

definition make_mmu_ttb :: "u32 list \<Rightarrow> 'a kernel_st_scheme \<Rightarrow> u32 list \<times> 'a kernel_st_scheme" where
  "make_mmu_ttb table_address s =
     (let t1 = ttb_fill 0 2048 DEV_MEM table_address;
          t2 = ttb_fill 2048 2264 CACHEABLE_MEM t1;
          s1 = s\<lparr>uncached_ram_start := 2264 * 2 ^ 20, uncacheable_next_ptr := 2264 * 2 ^ 20\<rparr>;
          t3 = ttb_fill 2264 2560 UNCACHEABLE_MEM t2;
          s2 = s1\<lparr>uncached_ram_end := (2560 - 1) * 2 ^ 20\<rparr>;
          t4 = ttb_fill 2560 4096 DEV_MEM t3
      in (t4, s2))"

text \<open>Pointers have 32 bits; an allocation that exhausts the region shuts the system down.\<close>

definition get_uncacheable_ram :: "nat \<Rightarrow> 'a kernel_st_scheme \<Rightarrow> (nat \<times> 'a kernel_st_scheme) option" where
  "get_uncacheable_ram nbytes s =
     (let rtn = uncacheable_next_ptr s;
          s1 = s\<lparr>uncacheable_next_ptr := (uncacheable_next_ptr s + nbytes) mod 2 ^ 32\<rparr>
      in if uncacheable_next_ptr s1 > uncached_ram_end s1 then None
         else Some (rtn, s1\<lparr>allocation_count := allocation_count s1 + 1\<rparr>))"

section \<open>Threads, functions and queues\<close>

definition sys_create_thread :: "nat \<Rightarrow> 'a kernel_st_scheme \<Rightarrow> (int \<times> 'a kernel_st_scheme) option" where
  "sys_create_thread thrd s =
     (if thrd \<noteq> num_of_thrds s then None
      else if length (thrds s) \<le> num_of_thrds s then None
      else let t = (thrds s ! num_of_thrds s)
                     \<lparr>t_id := num_of_thrds s, t_num_of_ftns := 0, t_num_of_queues := 0,
                      t_cbk_head := 0, t_cbk_tail := 0\<rparr>
           in Some (int (num_of_ftns s) - 1,
                    s\<lparr>thrds := (thrds s)[num_of_thrds s := t], num_of_thrds := num_of_thrds s + 1\<rparr>))"

definition sys_add_thread_function ::
  "nat \<Rightarrow> code_ptr \<Rightarrow> 'a kernel_st_scheme \<Rightarrow> (nat \<times> 'a kernel_st_scheme) option" where
  "sys_add_thread_function thrd ftn_ptr s =
     (if thrd < 1 \<or> thrd \<ge> num_of_thrds s then None
      else let ftn_id = num_of_ftns s; t = thrds s ! thrd in
        if length (all_thrds_ftns s) \<le> ftn_id \<or> length (t_function_ids t) \<le> t_num_of_ftns t then None
        else Some (ftn_id,
          s\<lparr>all_thrds_ftns := (all_thrds_ftns s)
               [ftn_id := \<lparr>tf_id = ftn_id, tf_ftn_ptr = ftn_ptr, tf_thrd_id = thrd\<rparr>],
            num_of_ftns := num_of_ftns s + 1,
            thrds := (thrds s)[thrd := t\<lparr>t_function_ids := (t_function_ids t)[t_num_of_ftns t := ftn_id],
                                         t_num_of_ftns := t_num_of_ftns t + 1\<rparr>]\<rparr>))"

definition sys_create_obj_queue ::
  "nat \<Rightarrow> nat \<Rightarrow> nat \<Rightarrow> 'a kernel_st_scheme \<Rightarrow> (int \<times> 'a kernel_st_scheme) option" where
  "sys_create_obj_queue queue_id push_thrd cbk_ftn_id s =
     (if length (queues s) \<le> queue_id \<or> length (all_thrds_ftns s) \<le> cbk_ftn_id then None
      else let q = (queues s ! queue_id)\<lparr>oq_id := queue_id, oq_push_thrd := push_thrd,
                       oq_cbk_ftn_id := cbk_ftn_id, oq_tail := 0, oq_head := 0\<rparr>;
               th = tf_thrd_id (all_thrds_ftns s ! cbk_ftn_id);
               t = thrds s ! th
           in if length (thrds s) \<le> th \<or> length (t_msg_queues t) \<le> t_num_of_queues t then None
              else Some (0,
                s\<lparr>queues := (queues s)[queue_id := q],
                  thrds := (thrds s)[th := t\<lparr>t_msg_queues := (t_msg_queues t)[t_num_of_queues t := queue_id],
                                             t_num_of_queues := t_num_of_queues t + 1\<rparr>]\<rparr>))"

text \<open>The ring operations on one message queue and on one callback queue.\<close>

definition obj_queue_push :: "obj_queue_t \<Rightarrow> obj_ptr \<Rightarrow> u32 \<Rightarrow> int \<times> obj_queue_t" where
  "obj_queue_push q obj_ptr obj_type =
     (if oq_head q = (oq_tail q + 1) mod MSG_Q_SIZE then (-1, q)
      else (0, q\<lparr>oq_entries := (oq_entries q)[oq_tail q := (obj_type, obj_ptr)],
                 oq_tail := (oq_tail q + 1) mod MSG_Q_SIZE\<rparr>))"

definition obj_queue_pop :: "obj_queue_t \<Rightarrow> int \<times> obj_queue_t" where
  "obj_queue_pop q =
     (if oq_head q = oq_tail q then (-1, q)
      else (int (oq_head q), q\<lparr>oq_head := (oq_head q + 1) mod MSG_Q_SIZE\<rparr>))"

definition cbk_push :: "thrd_t \<Rightarrow> nat \<Rightarrow> obj_ptr \<Rightarrow> int \<times> thrd_t" where
  "cbk_push t ftn_id arg_0 =
     (if t_cbk_head t = (t_cbk_tail t + 1) mod MSG_Q_SIZE then (-1, t)
      else (0, t\<lparr>t_cbk_entries := (t_cbk_entries t)[t_cbk_tail t := (ftn_id, arg_0)],
                 t_cbk_tail := (t_cbk_tail t + 1) mod MSG_Q_SIZE\<rparr>))"

definition pop_callback_ftn :: "thrd_t \<Rightarrow> int \<times> thrd_t" where
  "pop_callback_ftn t =
     (if t_cbk_head t = t_cbk_tail t then (-1, t)
      else (int (t_cbk_head t), t\<lparr>t_cbk_head := (t_cbk_head t + 1) mod MSG_Q_SIZE\<rparr>))"

definition push_obj_to_queue ::
  "nat \<Rightarrow> obj_ptr \<Rightarrow> u32 \<Rightarrow> 'a kernel_st_scheme \<Rightarrow> int \<times> 'a kernel_st_scheme" where
  "push_obj_to_queue queue obj_ptr obj_type s =
     (let (r, q) = obj_queue_push (queues s ! queue) obj_ptr obj_type
      in (r, s\<lparr>queues := (queues s)[queue := q]\<rparr>))"

definition pop_obj_from_queue :: "nat \<Rightarrow> 'a kernel_st_scheme \<Rightarrow> int \<times> 'a kernel_st_scheme" where
  "pop_obj_from_queue queue s =
     (let (r, q) = obj_queue_pop (queues s ! queue)
      in (r, s\<lparr>queues := (queues s)[queue := q]\<rparr>))"

definition push_callback_ftn ::
  "nat \<Rightarrow> obj_ptr \<Rightarrow> 'a kernel_st_scheme \<Rightarrow> int \<times> 'a kernel_st_scheme" where
  "push_callback_ftn ftn_id arg_0 s =
     (let thrd = tf_thrd_id (all_thrds_ftns s ! ftn_id); (r, t) = cbk_push (thrds s ! thrd) ftn_id arg_0
      in (r, s\<lparr>thrds := (thrds s)[thrd := t]\<rparr>))"

definition FTL_MODULE_IN_Q :: nat where "FTL_MODULE_IN_Q = 5"
definition FTL_MODULE_OUT_Q :: nat where "FTL_MODULE_OUT_Q = 6"

definition sys_push_obj_to_queue ::
  "nat \<Rightarrow> obj_ptr \<Rightarrow> u32 \<Rightarrow> 'a kernel_st_scheme \<Rightarrow> int \<times> 'a kernel_st_scheme" where
  "sys_push_obj_to_queue queue obj_ptr obj_type s = push_obj_to_queue queue obj_ptr obj_type s"

definition sys_push_to_ftl :: "obj_ptr \<Rightarrow> u32 \<Rightarrow> 'a kernel_st_scheme \<Rightarrow> 'a kernel_st_scheme" where
  "sys_push_to_ftl req req_type s = snd (push_obj_to_queue FTL_MODULE_IN_Q req req_type s)"

definition sys_push_to_nvme :: "obj_ptr \<Rightarrow> u32 \<Rightarrow> 'a kernel_st_scheme \<Rightarrow> 'a kernel_st_scheme" where
  "sys_push_to_nvme req req_type s = snd (push_obj_to_queue FTL_MODULE_OUT_Q req req_type s)"

definition sys_add_callback_ftn ::
  "nat \<Rightarrow> obj_ptr \<Rightarrow> 'a kernel_st_scheme \<Rightarrow> int \<times> 'a kernel_st_scheme" where
  "sys_add_callback_ftn ftn_id arg_0 s = push_callback_ftn ftn_id arg_0 s"

section \<open>Scheduling\<close>

datatype sched_action = RunThread nat | RestoreThread nat | NoThread

text \<open>The first loop of \<open>cpu_thread_scheduler\<close>: the slot after the current thread's, or slot 0.\<close>

fun next_slot :: "nat option \<Rightarrow> nat list \<Rightarrow> nat \<Rightarrow> nat \<Rightarrow> nat" where
  "next_slot cur threads i 0 = 0"
| "next_slot cur threads i (Suc k) =
     (if cur = Some (threads ! i) then i + 1 else next_slot cur threads (i + 1) k)"

text \<open>
  The second loop, with \<open>k\<close> iterations left. \<open>asm_run_thread\<close> and \<open>asm_restore_saved_thread\<close>
  switch stacks and never come back, so the loop ends there.
\<close>

fun sched_scan ::
  "nat \<Rightarrow> nat \<Rightarrow> cpu_threads_t \<Rightarrow> thrd_t list \<Rightarrow> sched_action \<times> cpu_threads_t \<times> thrd_t list" where
  "sched_scan 0 t_index c ts = (NoThread, c, ts)"
| "sched_scan (Suc k) t_index c ts =
     (let t_index = (if t_index \<ge> ct_num_assigned_threads c then 0 else t_index);
          i = ct_threads c ! t_index; t = ts ! i
      in if t_status t = THREAD_STATUS_READY then
           (RunThread i, c\<lparr>ct_current_thread := Some i\<rparr>, ts[i := t\<lparr>t_status := THREAD_STATUS_ACTIVE\<rparr>])
         else if t_status t = THREAD_STATUS_SWPM then
           (let t = t\<lparr>t_skipped_count := t_skipped_count t + 1\<rparr>
            in if t_skipped_count t \<ge> 2 then
                 (RestoreThread i, c\<lparr>ct_current_thread := Some i\<rparr>,
                  ts[i := t\<lparr>t_skipped_count := 0, t_status := THREAD_STATUS_ACTIVE\<rparr>])
               else sched_scan k (t_index + 1) c (ts[i := t]))
         else sched_scan k (t_index + 1) c ts)"

definition cpu_thread_scheduler ::
  "nat \<Rightarrow> 'a kernel_st_scheme \<Rightarrow> sched_action \<times> 'a kernel_st_scheme" where
  "cpu_thread_scheduler cpu s =
     (let c = thread_schedule s ! cpu; n = ct_num_assigned_threads c;
          t_index = next_slot (ct_current_thread c) (ct_threads c) 0 n;
          (a, c', ts') = sched_scan n t_index c (thrds s)
      in (a, s\<lparr>thread_schedule := (thread_schedule s)[cpu := c'], thrds := ts'\<rparr>))"

definition assign_thrd_to_cpu :: "nat \<Rightarrow> nat \<Rightarrow> 'a kernel_st_scheme \<Rightarrow> 'a kernel_st_scheme option" where
  "assign_thrd_to_cpu thread_index cpu s =
     (let c = thread_schedule s ! cpu; t = thrds s ! thread_index in
      if length (thrds s) \<le> thread_index \<or> length (ct_threads c) \<le> ct_num_assigned_threads c then None
      else Some (s\<lparr>thrds := (thrds s)[thread_index := t\<lparr>t_status := THREAD_STATUS_READY, t_skipped_count := 0\<rparr>],
             thread_schedule := (thread_schedule s)[cpu := c
               \<lparr>ct_threads := (ct_threads c)[ct_num_assigned_threads c := thread_index],
                ct_num_assigned_threads := ct_num_assigned_threads c + 1\<rparr>]\<rparr>))"

definition HOST_DMA_THREAD :: nat where "HOST_DMA_THREAD = 1"
definition NVME_DRIVER_THREAD :: nat where "NVME_DRIVER_THREAD = 2"
definition FTL_MODULE_THREAD :: nat where "FTL_MODULE_THREAD = 3"
definition ISP_THREAD_START_INDEX :: nat where "ISP_THREAD_START_INDEX = 4"

text \<open>
  \<open>firmware_entry\<close> up to the first call of the scheduler; a core without a thread spins for ever
  (\<open>None\<close>).
\<close>

definition firmware_entry ::
  "nat \<Rightarrow> 'a kernel_st_scheme \<Rightarrow> (sched_action \<times> 'a kernel_st_scheme) option" where
  "firmware_entry cpuID s =
     (if length (thread_schedule s) \<le> cpuID then None
      else let c = (thread_schedule s ! cpuID)\<lparr>ct_cpu_id := cpuID, ct_num_assigned_threads := 0,
                      ct_current_thread := None\<rparr>;
               s1 = s\<lparr>thread_schedule := (thread_schedule s)[cpuID := c]\<rparr>;
               start = (\<lambda>thrd. map_option (cpu_thread_scheduler cpuID) (assign_thrd_to_cpu thrd cpuID s1))
           in if cpuID = 0 then start NVME_DRIVER_THREAD
              else if cpuID = 1 then start HOST_DMA_THREAD
              else if cpuID = 2 then start FTL_MODULE_THREAD
              else if cpuID = 3 then start ISP_THREAD_START_INDEX
              else None)"

section \<open>Running a thread\<close>

text \<open>
  \<open>run_thread\<close> takes at most one pending callback and then at most one object from each of the
  thread's message queues. The handlers belong to other modules: \<open>call f a b s\<close> is the effect of
  calling \<open>f(a, b)\<close>. A handler may register queues while the loop runs, so the bound is read in
  each iteration, as the C loop does; the table \<open>msg_queues\<close> has 16 slots.
\<close>

fun run_queues ::
  "(code_ptr \<Rightarrow> obj_ptr \<Rightarrow> u32 \<Rightarrow> 'a kernel_st_scheme \<Rightarrow> 'a kernel_st_scheme option) \<Rightarrow> nat \<Rightarrow> nat \<Rightarrow> nat \<Rightarrow>
   'a kernel_st_scheme \<Rightarrow> 'a kernel_st_scheme option" where
  "run_queues call t i 0 s = (if i < t_num_of_queues (thrds s ! t) then None else Some s)"
| "run_queues call t i (Suc k) s =
     (if i < t_num_of_queues (thrds s ! t) then
        let qid = t_msg_queues (thrds s ! t) ! i; (e, s1) = pop_obj_from_queue qid s
        in if e = -1 then run_queues call t (i + 1) k s1
           else let q = queues s1 ! qid; f = tf_ftn_ptr (all_thrds_ftns s1 ! oq_cbk_ftn_id q);
                    (obj_type, obj_ptr) = oq_entries q ! nat e
                in call f obj_ptr obj_type s1 \<bind> run_queues call t (i + 1) k
      else Some s)"

definition run_callback ::
  "(code_ptr \<Rightarrow> obj_ptr \<Rightarrow> u32 \<Rightarrow> 'a kernel_st_scheme \<Rightarrow> 'a kernel_st_scheme option) \<Rightarrow> nat \<Rightarrow>
   'a kernel_st_scheme \<Rightarrow> 'a kernel_st_scheme option" where
  "run_callback call t s =
     (let (e, th) = pop_callback_ftn (thrds s ! t); s1 = s\<lparr>thrds := (thrds s)[t := th]\<rparr>
      in if e = -1 then Some s1
         else let (ftn_id, arg_0) = t_cbk_entries th ! nat e
              in call (tf_ftn_ptr (all_thrds_ftns s1 ! ftn_id)) arg_0 0 s1)"

definition run_thread ::
  "(code_ptr \<Rightarrow> obj_ptr \<Rightarrow> u32 \<Rightarrow> 'a kernel_st_scheme \<Rightarrow> 'a kernel_st_scheme option) \<Rightarrow> nat \<Rightarrow> nat \<Rightarrow>
   'a kernel_st_scheme \<Rightarrow> (sched_action \<times> 'a kernel_st_scheme) option" where
  "run_thread call cpu t s =
     do {
       s1 \<leftarrow> run_callback call t s;
       s2 \<leftarrow> run_queues call t 0 16 s1;
       let s3 = s2\<lparr>thrds := (thrds s2)[t := (thrds s2 ! t)\<lparr>t_status := THREAD_STATUS_READY\<rparr>]\<rparr>;
       Some (cpu_thread_scheduler cpu s3)
     }"

text \<open>\<open>sys_yield_cpu\<close> up to the context switch: the calling thread is parked in polling mode.\<close>

definition sys_yield_cpu :: "nat \<Rightarrow> 'a kernel_st_scheme \<Rightarrow> 'a kernel_st_scheme option" where
  "sys_yield_cpu cpu_id s =
     (case ct_current_thread (thread_schedule s ! cpu_id) of
        None \<Rightarrow> None
      | Some t \<Rightarrow> Some (s\<lparr>thrds := (thrds s)[t := (thrds s ! t)\<lparr>t_status := THREAD_STATUS_SWPM\<rparr>]\<rparr>))"

definition get_dev_address :: "nat \<Rightarrow> nat" where
  "get_dev_address DeviceID =
     (if DeviceID = 1 then 0x2d100000 else if DeviceID = 2 then 0x2d108000
      else if DeviceID = 3 then 0x2d419000 else 0)"

section \<open>The kernel's queues are bounded FIFO queues\<close>

definition oq_inv :: "obj_queue_t \<Rightarrow> bool" where
  "oq_inv q \<longleftrightarrow> oq_tail q < MSG_Q_SIZE \<and> oq_head q < MSG_Q_SIZE \<and> length (oq_entries q) = MSG_Q_SIZE"

definition oq_items :: "obj_queue_t \<Rightarrow> (u32 \<times> obj_ptr) list" where
  "oq_items q = ring_list (oq_entries q) MSG_Q_SIZE (oq_head q) (oq_tail q)"

definition oq_enq :: "obj_queue_t \<Rightarrow> u32 \<times> obj_ptr \<Rightarrow> bool \<times> obj_queue_t" where
  "oq_enq q x = (let (r, q') = obj_queue_push q (snd x) (fst x) in (r = 0, q'))"

text \<open>Pop and read, the two steps \<open>run_thread\<close> always performs together.\<close>

definition oq_deq :: "obj_queue_t \<Rightarrow> (u32 \<times> obj_ptr) option \<times> obj_queue_t" where
  "oq_deq q = (let (e, q') = obj_queue_pop q
     in (if e = -1 then None else Some (oq_entries q' ! nat e), q'))"

interpretation oq: ring_queue oq_head oq_tail oq_entries "\<lambda>_. MSG_Q_SIZE" oq_enq oq_deq
  rewrites "\<And>q. (oq_tail q < MSG_Q_SIZE \<and> oq_head q < MSG_Q_SIZE \<and> length (oq_entries q) = MSG_Q_SIZE) = oq_inv q"
    and "\<And>q. ring_list (oq_entries q) MSG_Q_SIZE (oq_head q) (oq_tail q) = oq_items q"
proof -
  show "ring_queue oq_head oq_tail oq_entries (\<lambda>_. MSG_Q_SIZE) oq_enq oq_deq"
    by unfold_locales (auto simp: oq_enq_def oq_deq_def obj_queue_push_def obj_queue_pop_def)
qed (simp_all add: oq_inv_def oq_items_def)

definition cbk_inv :: "thrd_t \<Rightarrow> bool" where
  "cbk_inv t \<longleftrightarrow> t_cbk_tail t < MSG_Q_SIZE \<and> t_cbk_head t < MSG_Q_SIZE \<and> length (t_cbk_entries t) = MSG_Q_SIZE"

definition cbk_items :: "thrd_t \<Rightarrow> (nat \<times> obj_ptr) list" where
  "cbk_items t = ring_list (t_cbk_entries t) MSG_Q_SIZE (t_cbk_head t) (t_cbk_tail t)"

definition cbk_enq :: "thrd_t \<Rightarrow> nat \<times> obj_ptr \<Rightarrow> bool \<times> thrd_t" where
  "cbk_enq t x = (let (r, t') = cbk_push t (fst x) (snd x) in (r = 0, t'))"

definition cbk_deq :: "thrd_t \<Rightarrow> (nat \<times> obj_ptr) option \<times> thrd_t" where
  "cbk_deq t = (let (e, t') = pop_callback_ftn t
     in (if e = -1 then None else Some (t_cbk_entries t' ! nat e), t'))"

interpretation cbk: ring_queue t_cbk_head t_cbk_tail t_cbk_entries "\<lambda>_. MSG_Q_SIZE" cbk_enq cbk_deq
  rewrites "\<And>q. (t_cbk_tail q < MSG_Q_SIZE \<and> t_cbk_head q < MSG_Q_SIZE \<and> length (t_cbk_entries q) = MSG_Q_SIZE) = cbk_inv q"
    and "\<And>q. ring_list (t_cbk_entries q) MSG_Q_SIZE (t_cbk_head q) (t_cbk_tail q) = cbk_items q"
proof -
  show "ring_queue t_cbk_head t_cbk_tail t_cbk_entries (\<lambda>_. MSG_Q_SIZE) cbk_enq cbk_deq"
    by unfold_locales (auto simp: cbk_enq_def cbk_deq_def cbk_push_def pop_callback_ftn_def)
qed (simp_all add: cbk_inv_def cbk_items_def)

section \<open>The kernel invariant\<close>

definition thrd_ok :: "thrd_t \<Rightarrow> bool" where
  "thrd_ok t \<longleftrightarrow> cbk_inv t \<and> length (t_function_ids t) = 16 \<and> t_num_of_ftns t \<le> 16
     \<and> length (t_msg_queues t) = 16 \<and> t_num_of_queues t \<le> 16
     \<and> (\<forall>q \<in> set (t_msg_queues t). q < 16) \<and> (\<forall>e \<in> set (t_cbk_entries t). fst e < 64)"

definition kernel_inv :: "'a kernel_st_scheme \<Rightarrow> bool" where
  "kernel_inv s \<longleftrightarrow> length (thrds s) = 8 \<and> num_of_thrds s \<le> 8
     \<and> length (all_thrds_ftns s) = 64 \<and> num_of_ftns s \<le> 64 \<and> length (queues s) = 16
     \<and> (\<forall>t \<in> set (thrds s). thrd_ok t)
     \<and> (\<forall>f \<in> set (all_thrds_ftns s). tf_thrd_id f < 8)
     \<and> (\<forall>q \<in> set (queues s). oq_inv q \<and> oq_cbk_ftn_id q < 64)"

lemma thrd_ok_zero [simp]: "thrd_ok zero_thrd"
  by (simp add: thrd_ok_def zero_thrd_def cbk_inv_def MSG_Q_SIZE_def)

lemma kernel_inv_image: "kernel_inv kernel_image"
  by (simp add: kernel_inv_def kernel_image_def zero_ftn_def zero_obj_queue_def oq_inv_def
      MSG_Q_SIZE_def)

lemma oq_push_inv: "oq_inv q \<Longrightarrow> oq_inv (snd (obj_queue_push q p ty))"
  by (simp add: oq_inv_def obj_queue_push_def MSG_Q_SIZE_def)

lemma oq_pop_inv: "oq_inv q \<Longrightarrow> oq_inv (snd (obj_queue_pop q))"
  by (simp add: oq_inv_def obj_queue_pop_def MSG_Q_SIZE_def)

lemma oq_ftn_id [simp]:
  "oq_cbk_ftn_id (snd (obj_queue_push q p ty)) = oq_cbk_ftn_id q"
  "oq_cbk_ftn_id (snd (obj_queue_pop q)) = oq_cbk_ftn_id q"
  by (simp_all add: obj_queue_push_def obj_queue_pop_def)

lemma cbk_push_ok: "thrd_ok t \<Longrightarrow> f < 64 \<Longrightarrow> thrd_ok (snd (cbk_push t f a))"
  by (auto simp: thrd_ok_def cbk_push_def cbk_inv_def MSG_Q_SIZE_def dest: in_set_updD)

lemma cbk_pop_ok: "thrd_ok t \<Longrightarrow> thrd_ok (snd (pop_callback_ftn t))"
  by (auto simp: thrd_ok_def pop_callback_ftn_def cbk_inv_def MSG_Q_SIZE_def)

lemma kernel_inv_thrd_ok: "kernel_inv s \<Longrightarrow> i < 8 \<Longrightarrow> thrd_ok (thrds s ! i)"
  by (auto simp: kernel_inv_def)

lemma kernel_inv_oq: "kernel_inv s \<Longrightarrow> i < 16 \<Longrightarrow> oq_inv (queues s ! i)"
  by (auto simp: kernel_inv_def)

lemma kernel_inv_ftn: "kernel_inv s \<Longrightarrow> i < 16 \<Longrightarrow> oq_cbk_ftn_id (queues s ! i) < 64"
  by (auto simp: kernel_inv_def)

lemma kernel_inv_upd_thrd:
  "kernel_inv s \<Longrightarrow> thrd_ok t \<Longrightarrow> kernel_inv (s\<lparr>thrds := (thrds s)[i := t]\<rparr>)"
  by (auto simp: kernel_inv_def dest: in_set_updD)

lemma kernel_inv_upd_queue:
  "kernel_inv s \<Longrightarrow> oq_inv q \<Longrightarrow> oq_cbk_ftn_id q < 64 \<Longrightarrow> kernel_inv (s\<lparr>queues := (queues s)[i := q]\<rparr>)"
  by (auto simp: kernel_inv_def dest: in_set_updD)

lemma push_obj_inv: "kernel_inv s \<Longrightarrow> q < 16 \<Longrightarrow> kernel_inv (snd (push_obj_to_queue q p ty s))"
  using kernel_inv_oq [of s q]
  by (auto simp: push_obj_to_queue_def case_prod_beta kernel_inv_ftn
      intro!: kernel_inv_upd_queue oq_push_inv)

lemma pop_obj_inv: "kernel_inv s \<Longrightarrow> q < 16 \<Longrightarrow> kernel_inv (snd (pop_obj_from_queue q s))"
  using kernel_inv_oq [of s q]
  by (auto simp: pop_obj_from_queue_def case_prod_beta kernel_inv_ftn
      intro!: kernel_inv_upd_queue oq_pop_inv)

lemma push_callback_inv:
  assumes "kernel_inv s" "f < 64"
  shows "kernel_inv (snd (push_callback_ftn f a s))"
proof -
  have "tf_thrd_id (all_thrds_ftns s ! f) < 8" using assms by (auto simp: kernel_inv_def)
  then show ?thesis
    using assms kernel_inv_thrd_ok
    by (auto simp: push_callback_ftn_def case_prod_beta Let_def
        intro!: kernel_inv_upd_thrd cbk_push_ok)
qed

lemma create_thread_inv:
  assumes "kernel_inv s" "sys_create_thread n s = Some (r, s')"
  shows "kernel_inv s'"
proof -
  have n: "num_of_thrds s < 8" using assms by (auto simp: sys_create_thread_def kernel_inv_def split: if_splits)
  let ?t = "(thrds s ! num_of_thrds s)\<lparr>t_id := num_of_thrds s, t_num_of_ftns := 0, t_num_of_queues := 0,
     t_cbk_head := 0, t_cbk_tail := 0\<rparr>"
  have "thrd_ok ?t"
    using kernel_inv_thrd_ok [OF assms(1) n] by (simp add: thrd_ok_def cbk_inv_def MSG_Q_SIZE_def)
  from kernel_inv_upd_thrd [OF assms(1) this, of "num_of_thrds s"] assms(2) n
  show ?thesis by (auto simp: sys_create_thread_def kernel_inv_def Let_def split: if_splits)
qed

lemma add_thread_function_inv:
  assumes "kernel_inv s" "sys_add_thread_function n f s = Some (r, s')"
  shows "kernel_inv s' \<and> r < 64"
proof -
  let ?t = "thrds s ! n"
  have n: "1 \<le> n" "n < num_of_thrds s" "num_of_ftns s < 64" "t_num_of_ftns ?t < 16"
    using assms kernel_inv_thrd_ok [OF assms(1), of n]
    by (auto simp: sys_add_thread_function_def kernel_inv_def thrd_ok_def Let_def split: if_splits)
  then have n8: "n < 8" using assms(1) by (auto simp: kernel_inv_def)
  have "thrd_ok (?t\<lparr>t_function_ids := (t_function_ids ?t)[t_num_of_ftns ?t := num_of_ftns s],
      t_num_of_ftns := t_num_of_ftns ?t + 1\<rparr>)"
    using kernel_inv_thrd_ok [OF assms(1) n8] n by (auto simp: thrd_ok_def cbk_inv_def)
  from kernel_inv_upd_thrd [OF assms(1) this, of n] assms n n8
  show ?thesis
    by (auto simp: sys_add_thread_function_def kernel_inv_def Let_def dest!: in_set_updD split: if_splits)
qed

lemma create_obj_queue_inv:
  assumes "kernel_inv s" "sys_create_obj_queue q p f s = Some (r, s')"
  shows "kernel_inv s'"
proof -
  let ?th = "tf_thrd_id (all_thrds_ftns s ! f)"
  let ?t = "thrds s ! ?th"
  have n: "q < 16" "f < 64"
    using assms by (auto simp: sys_create_obj_queue_def kernel_inv_def split: if_splits)
  then have th: "?th < 8" using assms(1) by (auto simp: kernel_inv_def)
  then have nq: "t_num_of_queues ?t < 16"
    using assms kernel_inv_thrd_ok [OF assms(1) th]
    by (auto simp: sys_create_obj_queue_def kernel_inv_def thrd_ok_def Let_def split: if_splits)
  have t: "thrd_ok (?t\<lparr>t_msg_queues := (t_msg_queues ?t)[t_num_of_queues ?t := q],
      t_num_of_queues := t_num_of_queues ?t + 1\<rparr>)"
    using kernel_inv_thrd_ok [OF assms(1) th] nq n
    by (auto simp: thrd_ok_def cbk_inv_def dest: in_set_updD)
  have qi: "oq_inv ((queues s ! q)\<lparr>oq_id := q, oq_push_thrd := p, oq_cbk_ftn_id := f, oq_tail := 0, oq_head := 0\<rparr>)"
    using kernel_inv_oq [OF assms(1) n(1)] by (simp add: oq_inv_def MSG_Q_SIZE_def)
  from kernel_inv_upd_thrd [OF kernel_inv_upd_queue [OF assms(1) qi, of q] t, of ?th] n assms(2)
  show ?thesis
    by (auto simp: sys_create_obj_queue_def Let_def split: if_splits)
qed

lemma thrd_ok_upd [simp]:
  "thrd_ok (t\<lparr>t_status := b\<rparr>) = thrd_ok t" "thrd_ok (t\<lparr>t_skipped_count := a\<rparr>) = thrd_ok t"
  by (simp_all add: thrd_ok_def cbk_inv_def)

definition cpu_ok :: "cpu_threads_t \<Rightarrow> nat \<Rightarrow> bool" where
  "cpu_ok c n \<longleftrightarrow> (\<forall>i < ct_num_assigned_threads c. ct_threads c ! i < n) \<and> 0 < ct_num_assigned_threads c"

definition norm_slot :: "cpu_threads_t \<Rightarrow> nat \<Rightarrow> nat" where
  "norm_slot c ti = (if ti \<ge> ct_num_assigned_threads c then 0 else ti)"

text \<open>The thread the scan looks at in its iteration \<open>e\<close>, counted from slot \<open>ti\<close>.\<close>

definition slot_thread :: "cpu_threads_t \<Rightarrow> nat \<Rightarrow> nat \<Rightarrow> nat" where
  "slot_thread c ti e = ct_threads c ! ((norm_slot c ti + e) mod ct_num_assigned_threads c)"

lemma slot_thread_0: "cpu_ok c n \<Longrightarrow> slot_thread c ti 0 = ct_threads c ! norm_slot c ti"
  by (simp add: slot_thread_def norm_slot_def cpu_ok_def)

lemma slot_thread_Suc: "cpu_ok c n \<Longrightarrow> slot_thread c (norm_slot c ti + 1) e = slot_thread c ti (Suc e)"
proof (cases "norm_slot c ti + 1 = ct_num_assigned_threads c")
  case True
  then have "(norm_slot c ti + Suc e) mod ct_num_assigned_threads c = e mod ct_num_assigned_threads c"
    by (metis Suc_eq_plus1 add_Suc_shift mod_add_self1)
  moreover from True have "norm_slot c (norm_slot c ti + 1) = 0" by (simp add: norm_slot_def)
  ultimately show ?thesis by (simp only: slot_thread_def add_0_left)
next
  case False
  assume "cpu_ok c n"
  then have "norm_slot c ti < ct_num_assigned_threads c" by (simp add: norm_slot_def cpu_ok_def)
  with False show ?thesis by (simp add: slot_thread_def norm_slot_def [of c "Suc (norm_slot c ti)"])
qed

lemma slot_thread_less: "cpu_ok c n \<Longrightarrow> slot_thread c ti e < n"
  by (simp add: slot_thread_def cpu_ok_def)

lemma sched_scan_Suc:
  assumes "cpu_ok c n"
  shows "sched_scan (Suc k) ti c ts =
    (let i = slot_thread c ti 0; t = ts ! i; t' = t\<lparr>t_skipped_count := t_skipped_count t + 1\<rparr>
     in if t_status t = THREAD_STATUS_READY then
          (RunThread i, c\<lparr>ct_current_thread := Some i\<rparr>, ts[i := t\<lparr>t_status := THREAD_STATUS_ACTIVE\<rparr>])
        else if t_status t = THREAD_STATUS_SWPM \<and> t_skipped_count t' \<ge> 2 then
          (RestoreThread i, c\<lparr>ct_current_thread := Some i\<rparr>,
           ts[i := t'\<lparr>t_skipped_count := 0, t_status := THREAD_STATUS_ACTIVE\<rparr>])
        else sched_scan k (norm_slot c ti + 1) c
               (if t_status t = THREAD_STATUS_SWPM then ts[i := t'] else ts))"
  using assms by (simp add: slot_thread_0 norm_slot_def Let_def)

end
