(* ===== verification/Kernel_Reach.thy ===== *)
theory Kernel_Reach
  imports Kernel
begin

text \<open>
  Properties of the kernel of \<^verbatim>\<open>issd_kernel.c\<close>: the invariant of every kernel state reachable from
  the firmware image, the message queues as a refinement of a family of FIFO channels, the
  scheduling policy, the delivery of pending work by \<open>run_thread\<close>, the memory map, the allocator
  and the release of the secondary cores.
\<close>

section \<open>Reachable kernel states\<close>

text \<open>The scheduling tables of the cores.\<close>

definition core_ok :: "cpu_threads_t \<Rightarrow> bool" where
  "core_ok c \<longleftrightarrow> length (ct_threads c) = 8 \<and> ct_num_assigned_threads c \<le> 8 \<and> (\<forall>i \<in> set (ct_threads c). i < 8)
     \<and> (\<forall>t. ct_current_thread c = Some t \<longrightarrow> t < 8)"

definition sched_inv :: "'a kernel_st_scheme \<Rightarrow> bool" where
  "sched_inv s \<longleftrightarrow> length (thread_schedule s) = NUM_CPUS \<and> (\<forall>c \<in> set (thread_schedule s). core_ok c)"

text \<open>Every pending callback waits in the queue of the thread its function was registered for.\<close>

definition cbk_affine :: "'a kernel_st_scheme \<Rightarrow> bool" where
  "cbk_affine s \<longleftrightarrow> (\<forall>i < length (thrds s). \<forall>e \<in> set (map cbk_items (thrds s) ! i).
     fst e < num_of_ftns s \<and> tf_thrd_id (all_thrds_ftns s ! fst e) = i)"

text \<open>
  The boot code of core 0 calls \<open>init_firmware_ftn\<close>, which creates the threads, before it releases the other cores, and every
  core enters \<open>firmware_entry\<close> after that. \<open>finish_thread\<close> is the last store of \<open>run_thread\<close>.
\<close>

inductive kernel_step :: "kernel_st \<Rightarrow> kernel_st \<Rightarrow> bool" where
  create_thread: "sys_create_thread n s = Some (r, s') \<Longrightarrow> kernel_step s s'"
| add_function: "sys_add_thread_function n f s = Some (i, s') \<Longrightarrow> kernel_step s s'"
| create_queue: "sys_create_obj_queue q n f s = Some (r, s') \<Longrightarrow> kernel_step s s'"
| push: "q < 16 \<Longrightarrow> kernel_step s (snd (sys_push_obj_to_queue q p ty s))"
| pop: "q < 16 \<Longrightarrow> kernel_step s (snd (pop_obj_from_queue q s))"
| callback: "f < num_of_ftns s \<Longrightarrow> kernel_step s (snd (sys_add_callback_ftn f a s))"
| pop_callback: "i < 8 \<Longrightarrow> kernel_step s (s\<lparr>thrds := (thrds s)[i := snd (pop_callback_ftn (thrds s ! i))]\<rparr>)"
| boot_core: "ISP_THREAD_START_INDEX < num_of_thrds s \<Longrightarrow> firmware_entry c s = Some (a, s') \<Longrightarrow> kernel_step s s'"
| finish_thread: "i < 8 \<Longrightarrow> kernel_step s (s\<lparr>thrds := (thrds s)[i := (thrds s ! i)\<lparr>t_status := THREAD_STATUS_READY\<rparr>]\<rparr>)"
| schedule: "c < NUM_CPUS \<Longrightarrow> kernel_step s (snd (cpu_thread_scheduler c s))"
| yield_cpu: "c < NUM_CPUS \<Longrightarrow> sys_yield_cpu c s = Some s' \<Longrightarrow> kernel_step s s'"
| mmu: "make_mmu_ttb tbl s = (tbl', s') \<Longrightarrow> kernel_step s s'"
| alloc: "get_uncacheable_ram n s = Some (p, s') \<Longrightarrow> kernel_step s s'"

definition kernel_reachable :: "kernel_st \<Rightarrow> bool" where
  "kernel_reachable s \<longleftrightarrow> kernel_step\<^sup>*\<^sup>* kernel_image s"

definition kernel_wf :: "'a kernel_st_scheme \<Rightarrow> bool" where
  "kernel_wf s \<longleftrightarrow> kernel_inv s \<and> sched_inv s \<and> cbk_affine s"

lemma kernel_wf_image: "kernel_wf kernel_image"
proof -
  have "cbk_items zero_thrd = []"
    by (simp add: cbk_items_def zero_thrd_def ring_list_empty MSG_Q_SIZE_def)
  then have "cbk_affine kernel_image" by (simp add: cbk_affine_def kernel_image_def)
  moreover have "sched_inv kernel_image"
    by (simp add: sched_inv_def kernel_image_def core_ok_def zero_cpu_def NUM_CPUS_def)
  ultimately show ?thesis by (simp add: kernel_wf_def kernel_inv_image)
qed

text \<open>What the scheduler leaves alone.\<close>

definition sched_frame :: "thrd_t list \<Rightarrow> thrd_t list \<Rightarrow> bool" where
  "sched_frame ts ts' \<longleftrightarrow> map cbk_items ts' = map cbk_items ts \<and> length ts' = length ts \<and>
     ((\<forall>t \<in> set ts. thrd_ok t) \<longrightarrow> (\<forall>t \<in> set ts'. thrd_ok t))"

lemma cbk_items_upd [simp]:
  "cbk_items (t\<lparr>t_status := b\<rparr>) = cbk_items t" "cbk_items (t\<lparr>t_skipped_count := a\<rparr>) = cbk_items t"
  by (simp_all add: cbk_items_def)

lemma sched_frame_refl [simp]: "sched_frame ts ts"
  by (simp add: sched_frame_def)

lemma sched_frame_trans: "sched_frame ts ts' \<Longrightarrow> sched_frame ts' ts'' \<Longrightarrow> sched_frame ts ts''"
  by (simp add: sched_frame_def)

lemma sched_frame_upd:
  assumes "cbk_items y = cbk_items (ts ! i)" "thrd_ok y = thrd_ok (ts ! i)"
  shows "sched_frame ts (ts[i := y])"
proof (cases "i < length ts")
  case True
  with assms map_upd_same [of cbk_items y ts i] show ?thesis
    by (auto simp: sched_frame_def dest!: in_set_updD)
qed (simp add: list_update_beyond)

lemma sched_scan_frame: "sched_scan k ti c ts = (a, c', ts') \<Longrightarrow> sched_frame ts ts'"
proof (induction k arbitrary: ti ts)
  case (Suc k)
  define ti0 where "ti0 = (if ct_num_assigned_threads c \<le> ti then 0 else ti)"
  define i where "i = ct_threads c ! ti0"
  define t1 where "t1 = (ts ! i)\<lparr>t_skipped_count := t_skipped_count (ts ! i) + 1\<rparr>"
  have t1: "sched_frame ts (ts[i := t1])" by (rule sched_frame_upd) (simp_all add: t1_def)
  have t2: "sched_frame ts (ts[i := t1\<lparr>t_skipped_count := 0, t_status := THREAD_STATUS_ACTIVE\<rparr>])"
    by (rule sched_frame_upd) (simp_all add: t1_def)
  have t3: "sched_frame ts (ts[i := (ts ! i)\<lparr>t_status := THREAD_STATUS_ACTIVE\<rparr>])"
    by (rule sched_frame_upd) simp_all
  from Suc.prems [folded ti0_def] t2 t3 Suc.IH [of "ti0 + 1" "ts[i := t1]"]
      sched_frame_trans [OF t1, of ts'] Suc.IH [of "ti0 + 1" ts]
  show ?case
    unfolding sched_scan.simps Let_def ti0_def [symmetric] i_def [symmetric] t1_def [symmetric]
    by (simp split: if_splits)
qed simp


lemma cpu_thread_scheduler_frame:
  "cpu_thread_scheduler c s = (a, s') \<Longrightarrow> sched_frame (thrds s) (thrds s') \<and>
     all_thrds_ftns s' = all_thrds_ftns s \<and> num_of_ftns s' = num_of_ftns s \<and> queues s' = queues s \<and>
     num_of_thrds s' = num_of_thrds s \<and> kernel_st.more s' = kernel_st.more s"
  by (auto simp: cpu_thread_scheduler_def Let_def split: prod.splits dest: sched_scan_frame)

lemma sched_scan_core: "core_ok c \<Longrightarrow> sched_scan k ti c ts = (a, c', ts') \<Longrightarrow> core_ok c'"
proof (induction k arbitrary: ti ts)
  case (Suc k)
  define ti0 where "ti0 = (if ct_num_assigned_threads c \<le> ti then 0 else ti)"
  define i where "i = ct_threads c ! ti0"
  have "ti0 < 8" using Suc.prems(1) by (auto simp: core_ok_def ti0_def)
  with Suc.prems(1) have "core_ok (c\<lparr>ct_current_thread := Some i\<rparr>)" by (simp add: core_ok_def i_def)
  with Suc show ?case
    unfolding sched_scan.simps Let_def ti0_def [symmetric] i_def [symmetric]
    by (auto split: if_splits)
qed simp

lemma kernel_wf_frame:
  assumes "kernel_wf s" "sched_frame (thrds s) (thrds s')"
    and "all_thrds_ftns s' = all_thrds_ftns s" "num_of_ftns s' = num_of_ftns s" "queues s' = queues s"
    and "num_of_thrds s' = num_of_thrds s" "sched_inv s'"
  shows "kernel_wf s'"
  using assms by (simp add: kernel_wf_def kernel_inv_def cbk_affine_def sched_frame_def)

lemma sched_inv_upd:
  "sched_inv s \<Longrightarrow> core_ok c \<Longrightarrow> thread_schedule s' = (thread_schedule s)[i := c] \<Longrightarrow> sched_inv s'"
  by (auto simp: sched_inv_def dest: in_set_updD)

lemma schedule_wf:
  assumes "kernel_wf s" "c < NUM_CPUS"
  shows "kernel_wf (snd (cpu_thread_scheduler c s))"
proof -
  let ?c = "thread_schedule s ! c"
  obtain a c' ts' where scan: "sched_scan (ct_num_assigned_threads ?c)
      (next_slot (ct_current_thread ?c) (ct_threads ?c) 0 (ct_num_assigned_threads ?c)) ?c (thrds s) = (a, c', ts')"
    by (metis prod_cases3)
  have "core_ok ?c" using assms by (auto simp: kernel_wf_def sched_inv_def)
  from sched_scan_core [OF this scan] have c': "core_ok c'" .
  define s' where "s' = s\<lparr>thread_schedule := (thread_schedule s)[c := c'], thrds := ts'\<rparr>"
  have eq: "cpu_thread_scheduler c s = (a, s')"
    by (simp only: cpu_thread_scheduler_def Let_def scan prod.case s'_def)
  have si: "sched_inv s" using assms(1) by (simp add: kernel_wf_def)
  have "sched_inv s'" by (rule sched_inv_upd [OF si c', of _ c]) (simp add: s'_def)
  with cpu_thread_scheduler_frame [OF eq] have "kernel_wf s'" by (intro kernel_wf_frame [OF assms(1)]) simp_all
  with eq show ?thesis by simp
qed

lemma assign_wf:
  assumes "kernel_wf s" "c < NUM_CPUS" "assign_thrd_to_cpu t c s = Some s'"
  shows "kernel_wf s'"
proof -
  let ?c = "thread_schedule s ! c"
  have c: "core_ok ?c" and t: "t < 8" using assms
    by (auto simp: kernel_wf_def sched_inv_def kernel_inv_def assign_thrd_to_cpu_def Let_def split: if_splits)
  have len: "ct_num_assigned_threads ?c < 8" using assms c
    by (auto simp: core_ok_def assign_thrd_to_cpu_def Let_def split: if_splits)
  have c': "core_ok (?c\<lparr>ct_threads := (ct_threads ?c)[ct_num_assigned_threads ?c := t],
      ct_num_assigned_threads := ct_num_assigned_threads ?c + 1\<rparr>)"
    using c t len by (auto simp: core_ok_def dest!: in_set_updD)
  have s': "s' = s\<lparr>thrds := (thrds s)[t := (thrds s ! t)\<lparr>t_status := THREAD_STATUS_READY, t_skipped_count := 0\<rparr>],
      thread_schedule := (thread_schedule s)[c := ?c\<lparr>ct_threads := (ct_threads ?c)[ct_num_assigned_threads ?c := t],
      ct_num_assigned_threads := ct_num_assigned_threads ?c + 1\<rparr>]\<rparr>"
    using assms(3) by (simp add: assign_thrd_to_cpu_def Let_def split: if_splits)
  have si: "sched_inv s" using assms(1) by (simp add: kernel_wf_def)
  have "sched_inv s'" by (rule sched_inv_upd [OF si c', of _ c]) (simp add: s')
  moreover have "sched_frame (thrds s) (thrds s')"
    unfolding s' by (simp, rule sched_frame_upd) simp_all
  ultimately show ?thesis by (intro kernel_wf_frame [OF assms(1)]) (simp_all add: s')
qed

lemma firmware_entry_wf:
  assumes "kernel_wf s" "firmware_entry c s = Some (a, s')"
  shows "kernel_wf s'"
proof -
  let ?c = "(thread_schedule s ! c)\<lparr>ct_cpu_id := c, ct_num_assigned_threads := 0, ct_current_thread := None\<rparr>"
  let ?s = "s\<lparr>thread_schedule := (thread_schedule s)[c := ?c]\<rparr>"
  have c: "c < NUM_CPUS" using assms by (auto simp: firmware_entry_def kernel_wf_def sched_inv_def split: if_splits)
  then have "core_ok ?c" using assms(1) by (auto simp: kernel_wf_def sched_inv_def core_ok_def)
  then have "sched_inv ?s" using assms(1) by (intro sched_inv_upd [of s ?c ?s c]) (auto simp: kernel_wf_def)
  then have wf: "kernel_wf ?s" by (intro kernel_wf_frame [OF assms(1)]) simp_all
  from assms(2) obtain t s1 where s1: "assign_thrd_to_cpu t c ?s = Some s1" "cpu_thread_scheduler c s1 = (a, s')"
    by (auto simp: firmware_entry_def Let_def split: if_splits)
  from schedule_wf [OF assign_wf [OF wf c s1(1)] c] s1(2) show ?thesis by simp
qed

text \<open>Callback queues.\<close>

lemma cbk_items_push:
  "thrd_ok t \<Longrightarrow> cbk_items (snd (cbk_push t f a)) = cbk_items t @ (if fst (cbk_push t f a) = 0 then [(f, a)] else [])"
  using cbk.enq_cases [of t "(f, a)" "fst (cbk_enq t (f, a))" "snd (cbk_enq t (f, a))"]
  by (simp add: cbk_enq_def thrd_ok_def case_prod_beta)

lemma cbk_items_pop:
  "thrd_ok t \<Longrightarrow> cbk_items t = (case fst (cbk_deq t) of None \<Rightarrow> [] | Some x \<Rightarrow> [x]) @ cbk_items (snd (pop_callback_ftn t))"
  using cbk.deq_cases [of t "fst (cbk_deq t)" "snd (cbk_deq t)"]
  by (simp add: cbk_deq_def thrd_ok_def case_prod_beta)

lemma cbk_affine_upd:
  assumes "cbk_affine s" "\<forall>e \<in> set (cbk_items t). e \<in> set (cbk_items (thrds s ! i)) \<or>
      fst e < num_of_ftns s \<and> tf_thrd_id (all_thrds_ftns s ! fst e) = i"
  shows "cbk_affine (s\<lparr>thrds := (thrds s)[i := t]\<rparr>)"
  unfolding cbk_affine_def
proof (intro allI impI)
  fix j assume "j < length (thrds (s\<lparr>thrds := (thrds s)[i := t]\<rparr>))"
  with assms show "\<forall>e \<in> set (map cbk_items (thrds (s\<lparr>thrds := (thrds s)[i := t]\<rparr>)) ! j).
      fst e < num_of_ftns (s\<lparr>thrds := (thrds s)[i := t]\<rparr>) \<and>
      tf_thrd_id (all_thrds_ftns (s\<lparr>thrds := (thrds s)[i := t]\<rparr>) ! fst e) = j"
    by (cases "j = i") (auto simp: cbk_affine_def)
qed

lemma sched_inv_more [simp]:
  "sched_inv (s\<lparr>thrds := a\<rparr>) = sched_inv s" "sched_inv (s\<lparr>queues := b\<rparr>) = sched_inv s"
  by (simp_all add: sched_inv_def)

lemma callback_wf:
  assumes "kernel_wf s" "f < num_of_ftns s"
  shows "kernel_wf (snd (sys_add_callback_ftn f a s))"
proof -
  let ?i = "tf_thrd_id (all_thrds_ftns s ! f)"
  have f: "f < 64" and i: "?i < 8" using assms by (auto simp: kernel_wf_def kernel_inv_def)
  have "thrd_ok (thrds s ! ?i)" using assms i by (auto simp: kernel_wf_def intro: kernel_inv_thrd_ok)
  from cbk_items_push [OF this, of f a] have "cbk_affine (s\<lparr>thrds := (thrds s)[?i := snd (cbk_push (thrds s ! ?i) f a)]\<rparr>)"
    using assms by (intro cbk_affine_upd) (auto simp: kernel_wf_def)
  with assms push_callback_inv [of s f a] f show ?thesis
    by (simp add: kernel_wf_def sys_add_callback_ftn_def push_callback_ftn_def Let_def case_prod_beta)
qed

lemma pop_callback_wf:
  assumes "kernel_wf s" "i < 8"
  shows "kernel_wf (s\<lparr>thrds := (thrds s)[i := snd (pop_callback_ftn (thrds s ! i))]\<rparr>)"
proof -
  have ok: "thrd_ok (thrds s ! i)" using assms by (auto simp: kernel_wf_def intro: kernel_inv_thrd_ok)
  have "set (cbk_items (snd (pop_callback_ftn (thrds s ! i)))) \<subseteq> set (cbk_items (thrds s ! i))"
    using cbk_items_pop [OF ok] by (metis Un_upper2 set_append)
  with assms have "cbk_affine (s\<lparr>thrds := (thrds s)[i := snd (pop_callback_ftn (thrds s ! i))]\<rparr>)"
    by (intro cbk_affine_upd) (auto simp: kernel_wf_def)
  with assms kernel_inv_upd_thrd [of s, OF _ cbk_pop_ok [OF ok], of i] show ?thesis by (simp add: kernel_wf_def)
qed

text \<open>Registration.\<close>

lemma create_thread_wf:
  assumes "kernel_wf s" "sys_create_thread n s = Some (r, s')"
  shows "kernel_wf s'"
proof -
  let ?t = "(thrds s ! num_of_thrds s)\<lparr>t_id := num_of_thrds s, t_num_of_ftns := 0, t_num_of_queues := 0,
     t_cbk_head := 0, t_cbk_tail := 0\<rparr>"
  have items: "cbk_items ?t = []" by (simp add: cbk_items_def ring_list_empty MSG_Q_SIZE_def)
  have "cbk_affine (s\<lparr>thrds := (thrds s)[num_of_thrds s := ?t]\<rparr>)"
    using assms(1) by (intro cbk_affine_upd) (auto simp: kernel_wf_def items simp del: cbk_items_upd)
  moreover have "s' = s\<lparr>thrds := (thrds s)[num_of_thrds s := ?t], num_of_thrds := num_of_thrds s + 1\<rparr>"
    using assms(2) by (simp add: sys_create_thread_def Let_def split: if_splits)
  ultimately have "cbk_affine s'" "sched_inv s'"
    using assms(1) by (simp_all add: cbk_affine_def kernel_wf_def sched_inv_def)
  with create_thread_inv assms show ?thesis by (auto simp: kernel_wf_def)
qed

lemma cbk_affine_cong:
  assumes "cbk_affine s" "map cbk_items (thrds s') = map cbk_items (thrds s)" "num_of_ftns s \<le> num_of_ftns s'"
    and "\<And>i. i < num_of_ftns s \<Longrightarrow> tf_thrd_id (all_thrds_ftns s' ! i) = tf_thrd_id (all_thrds_ftns s ! i)"
  shows "cbk_affine s'"
proof -
  from assms(2) have "length (thrds s') = length (thrds s)" by (metis length_map)
  with assms show ?thesis unfolding cbk_affine_def by (metis order_less_le_trans)
qed

lemma add_function_wf:
  assumes "kernel_wf s" "sys_add_thread_function n f s = Some (i, s')"
  shows "kernel_wf s'"
proof -
  let ?t = "(thrds s ! n)\<lparr>t_function_ids := (t_function_ids (thrds s ! n))[t_num_of_ftns (thrds s ! n) := num_of_ftns s],
     t_num_of_ftns := t_num_of_ftns (thrds s ! n) + 1\<rparr>"
  have items: "cbk_items ?t = cbk_items (thrds s ! n)" by (simp add: cbk_items_def)
  have s': "s' = s\<lparr>all_thrds_ftns := (all_thrds_ftns s)
               [num_of_ftns s := \<lparr>tf_id = num_of_ftns s, tf_ftn_ptr = f, tf_thrd_id = n\<rparr>],
            num_of_ftns := num_of_ftns s + 1, thrds := (thrds s)[n := ?t]\<rparr>"
    using assms(2) by (auto simp: sys_add_thread_function_def Let_def split: if_splits)
  have m: "map cbk_items ((thrds s)[n := ?t]) = map cbk_items (thrds s)" by (rule map_upd_same) (rule items)
  have "cbk_affine s'" using assms(1) by (intro cbk_affine_cong [of s s']) (simp_all add: s' m [simplified] kernel_wf_def)
  moreover have "sched_inv s'" using assms(1) by (simp add: s' kernel_wf_def sched_inv_def)
  ultimately show ?thesis using add_thread_function_inv [OF _ assms(2)] assms(1) by (simp add: kernel_wf_def)
qed

lemma create_queue_wf:
  assumes "kernel_wf s" "sys_create_obj_queue q n f s = Some (r, s')"
  shows "kernel_wf s'"
proof -
  let ?th = "tf_thrd_id (all_thrds_ftns s ! f)"
  let ?t = "(thrds s ! ?th)\<lparr>t_msg_queues := (t_msg_queues (thrds s ! ?th))[t_num_of_queues (thrds s ! ?th) := q],
      t_num_of_queues := t_num_of_queues (thrds s ! ?th) + 1\<rparr>"
  have m: "map cbk_items ((thrds s)[?th := ?t]) = map cbk_items (thrds s)"
    by (rule map_upd_same) (simp add: cbk_items_def)
  have s': "map cbk_items (thrds s') = map cbk_items (thrds s)" "num_of_ftns s' = num_of_ftns s"
    "all_thrds_ftns s' = all_thrds_ftns s" "thread_schedule s' = thread_schedule s" "length (thrds s') = length (thrds s)"
    using assms(2) m by (auto simp: sys_create_obj_queue_def Let_def split: if_splits)
  then have "cbk_affine s'" "sched_inv s'" using assms(1) by (simp_all add: kernel_wf_def cbk_affine_def sched_inv_def)
  with create_obj_queue_inv assms show ?thesis by (auto simp: kernel_wf_def)
qed

lemma push_pop_wf:
  assumes "kernel_wf s" "q < 16"
  shows "kernel_wf (snd (sys_push_obj_to_queue q p ty s))" "kernel_wf (snd (pop_obj_from_queue q s))"
  using assms push_obj_inv [of s q p ty] pop_obj_inv [of s q]
  by (simp_all add: kernel_wf_def sys_push_obj_to_queue_def push_obj_to_queue_def pop_obj_from_queue_def
      case_prod_beta cbk_affine_def)

lemma yield_wf:
  assumes "kernel_wf s" "sys_yield_cpu c s = Some s'"
  shows "kernel_wf s'"
proof -
  from assms(2) obtain t where s': "s' = s\<lparr>thrds := (thrds s)[t := (thrds s ! t)\<lparr>t_status := THREAD_STATUS_SWPM\<rparr>]\<rparr>"
    by (auto simp: sys_yield_cpu_def split: option.splits)
  have "sched_frame (thrds s) (thrds s')" unfolding s' by (simp, rule sched_frame_upd) simp_all
  with assms(1) show ?thesis by (intro kernel_wf_frame [OF assms(1)]) (simp_all add: s' kernel_wf_def)
qed

lemma finish_wf:
  "kernel_wf s \<Longrightarrow> kernel_wf (s\<lparr>thrds := (thrds s)[i := (thrds s ! i)\<lparr>t_status := THREAD_STATUS_READY\<rparr>]\<rparr>)"
  by (rule kernel_wf_frame [of s]) (simp_all add: kernel_wf_def sched_inv_def sched_frame_upd)

lemma kernel_wf_mem:
  "kernel_wf (s\<lparr>uncached_ram_start := a\<rparr>) = kernel_wf s" "kernel_wf (s\<lparr>uncached_ram_end := b\<rparr>) = kernel_wf s"
  "kernel_wf (s\<lparr>uncacheable_next_ptr := c\<rparr>) = kernel_wf s" "kernel_wf (s\<lparr>allocation_count := d\<rparr>) = kernel_wf s"
  by (simp_all add: kernel_wf_def kernel_inv_def sched_inv_def cbk_affine_def)

lemma mem_wf:
  assumes "kernel_wf s"
  shows "make_mmu_ttb tbl s = (tbl', s') \<Longrightarrow> kernel_wf s'" "get_uncacheable_ram n s = Some (p, s') \<Longrightarrow> kernel_wf s'"
  using assms by (auto simp: make_mmu_ttb_def get_uncacheable_ram_def Let_def kernel_wf_mem split: if_splits)

lemma kernel_step_wf: "kernel_step s s' \<Longrightarrow> kernel_wf s \<Longrightarrow> kernel_wf s'"
  by (induction rule: kernel_step.induct)
    (blast intro: create_thread_wf add_function_wf create_queue_wf push_pop_wf callback_wf pop_callback_wf
      firmware_entry_wf finish_wf schedule_wf yield_wf mem_wf)+

text \<open>The cores run created threads only.\<close>

definition core_existing :: "nat \<Rightarrow> cpu_threads_t \<Rightarrow> bool" where
  "core_existing N c \<longleftrightarrow> (\<forall>i < ct_num_assigned_threads c. ct_threads c ! i < N) \<and> (\<forall>t. ct_current_thread c = Some t \<longrightarrow> t < N)"

definition sched_existing :: "'a kernel_st_scheme \<Rightarrow> bool" where
  "sched_existing s \<longleftrightarrow> (\<forall>c \<in> set (thread_schedule s). core_existing (num_of_thrds s) c)"

lemma sched_existing_mono:
  "sched_existing s \<Longrightarrow> thread_schedule s' = thread_schedule s \<Longrightarrow> num_of_thrds s \<le> num_of_thrds s' \<Longrightarrow> sched_existing s'"
  unfolding sched_existing_def core_existing_def by (metis order_less_le_trans)

lemma sched_existing_upd:
  "sched_existing s \<Longrightarrow> core_existing (num_of_thrds s) c \<Longrightarrow> thread_schedule s' = (thread_schedule s)[i := c] \<Longrightarrow>
   num_of_thrds s' = num_of_thrds s \<Longrightarrow> sched_existing s'"
  by (auto simp: sched_existing_def dest!: in_set_updD)

lemma sched_scan_existing:
  "core_existing N c \<Longrightarrow> k \<le> ct_num_assigned_threads c \<Longrightarrow> sched_scan k ti c ts = (a, c', ts') \<Longrightarrow> core_existing N c'"
proof (induction k arbitrary: ti ts)
  case (Suc k)
  define ti0 where "ti0 = (if ct_num_assigned_threads c \<le> ti then 0 else ti)"
  define i where "i = ct_threads c ! ti0"
  have "ti0 < ct_num_assigned_threads c" using Suc.prems(2) by (auto simp: ti0_def)
  with Suc.prems(1) have "core_existing N (c\<lparr>ct_current_thread := Some i\<rparr>)" by (simp add: core_existing_def i_def)
  with Suc show ?case
    unfolding sched_scan.simps Let_def ti0_def [symmetric] i_def [symmetric]
    by (auto split: if_splits)
qed simp

lemma schedule_existing:
  assumes "sched_existing s" "c < length (thread_schedule s)" "cpu_thread_scheduler c s = (a, s')"
  shows "sched_existing s'"
proof -
  let ?c = "thread_schedule s ! c"
  obtain a' c' ts' where scan: "sched_scan (ct_num_assigned_threads ?c)
      (next_slot (ct_current_thread ?c) (ct_threads ?c) 0 (ct_num_assigned_threads ?c)) ?c (thrds s) = (a', c', ts')"
    by (metis prod_cases3)
  have "core_existing (num_of_thrds s) ?c" using assms(1,2) by (simp add: sched_existing_def)
  from sched_scan_existing [OF this _ scan] have "core_existing (num_of_thrds s) c'" by simp
  moreover have "s' = s\<lparr>thread_schedule := (thread_schedule s)[c := c'], thrds := ts'\<rparr>"
    using assms(3) by (simp add: cpu_thread_scheduler_def Let_def scan)
  ultimately show ?thesis by (intro sched_existing_upd [OF assms(1)]) auto
qed

lemma firmware_entry_existing:
  assumes "sched_existing s" "kernel_wf s" "ISP_THREAD_START_INDEX < num_of_thrds s" "firmware_entry c s = Some (a, s')"
  shows "sched_existing s'"
proof -
  let ?c = "(thread_schedule s ! c)\<lparr>ct_cpu_id := c, ct_num_assigned_threads := 0, ct_current_thread := None\<rparr>"
  let ?s = "s\<lparr>thread_schedule := (thread_schedule s)[c := ?c]\<rparr>"
  have c: "c < length (thread_schedule s)" using assms(4) by (auto simp: firmware_entry_def split: if_splits)
  have ex: "sched_existing ?s" by (rule sched_existing_upd [OF assms(1), of ?c]) (simp_all add: core_existing_def)
  from assms(3,4) c obtain t s1 where s1: "assign_thrd_to_cpu t c ?s = Some s1" "cpu_thread_scheduler c s1 = (a, s')" "t < num_of_thrds s"
    by (auto simp: firmware_entry_def Let_def NVME_DRIVER_THREAD_def HOST_DMA_THREAD_def FTL_MODULE_THREAD_def ISP_THREAD_START_INDEX_def split: if_splits)
  define c1 where "c1 = ?c\<lparr>ct_threads := (ct_threads ?c)[0 := t], ct_num_assigned_threads := 1\<rparr>"
  have f: "0 < length (ct_threads (thread_schedule s ! c))" "thread_schedule s1 = (thread_schedule ?s)[c := c1]" "num_of_thrds s1 = num_of_thrds s"
    using s1(1) c by (auto simp: assign_thrd_to_cpu_def Let_def c1_def split: if_splits)
  from f(1) s1(3) have "core_existing (num_of_thrds s) c1" by (simp add: core_existing_def c1_def)
  with f have "sched_existing s1" by (intro sched_existing_upd [OF ex, of c1 s1 c]) auto
  then show ?thesis by (rule schedule_existing) (use f c s1(2) in simp_all)
qed

lemma sched_existing_step: "kernel_step s s' \<Longrightarrow> kernel_wf s \<Longrightarrow> sched_existing s \<Longrightarrow> sched_existing s'"
proof (induction rule: kernel_step.induct)
  case (boot_core s c a s')
  then show ?case by (intro firmware_entry_existing [of s c a s'])
next
  case (schedule c s)
  then have "c < length (thread_schedule s)" by (simp add: kernel_wf_def sched_inv_def)
  from schedule_existing [OF schedule(3) this prod.collapse [symmetric]] show ?case .
qed (erule sched_existing_mono; auto simp: sys_create_thread_def sys_add_thread_function_def sys_create_obj_queue_def sys_push_obj_to_queue_def
    push_obj_to_queue_def pop_obj_from_queue_def sys_add_callback_ftn_def push_callback_ftn_def sys_yield_cpu_def make_mmu_ttb_def get_uncacheable_ram_def Let_def
    split: if_splits prod.splits option.splits)+

section \<open>Channels\<close>

text \<open>
  The abstract view of the message queues: each queue is a list of messages, sending appends at
  most up to the capacity, receiving takes the first message.
\<close>

datatype msg_op = Send nat obj_ptr u32 | Recv nat

type_synonym channels = "(u32 \<times> obj_ptr) list list"

fun chan_exec :: "msg_op list \<Rightarrow> channels \<Rightarrow> (u32 \<times> obj_ptr) option list \<times> channels" where
  "chan_exec [] cs = ([], cs)"
| "chan_exec (Send q p ty # ops) cs =
     (let ok = length (cs ! q) < MSG_Q_SIZE - 1;
          (rs, cs') = chan_exec ops (if ok then cs[q := cs ! q @ [(ty, p)]] else cs)
      in ((if ok then Some (ty, p) else None) # rs, cs'))"
| "chan_exec (Recv q # ops) cs =
     (let (rs, cs') = chan_exec ops (cs[q := tl (cs ! q)])
      in ((case cs ! q of [] \<Rightarrow> None | m # _ \<Rightarrow> Some m) # rs, cs'))"

text \<open>The same operations on the kernel: a send reports whether it was accepted, a receive pops
  and reads the entry as \<open>run_thread\<close> does.\<close>

fun msg_exec :: "msg_op list \<Rightarrow> 'a kernel_st_scheme \<Rightarrow> (u32 \<times> obj_ptr) option list \<times> 'a kernel_st_scheme" where
  "msg_exec [] s = ([], s)"
| "msg_exec (Send q p ty # ops) s =
     (let (r, s1) = sys_push_obj_to_queue q p ty s; (rs, s2) = msg_exec ops s1
      in ((if r = 0 then Some (ty, p) else None) # rs, s2))"
| "msg_exec (Recv q # ops) s =
     (let (e, s1) = pop_obj_from_queue q s; (rs, s2) = msg_exec ops s1
      in ((if e = -1 then None else Some (oq_entries (queues s1 ! q) ! nat e)) # rs, s2))"

fun op_queue :: "msg_op \<Rightarrow> nat" where
  "op_queue (Send q p ty) = q"
| "op_queue (Recv q) = q"

definition channels_of :: "'a kernel_st_scheme \<Rightarrow> channels" where
  "channels_of s = map oq_items (queues s)"

lemma push_channels:
  assumes "kernel_inv s" "q < 16" "sys_push_obj_to_queue q p ty s = (r, s')"
  shows "kernel_inv s'" "channels_of s' = (channels_of s)[q := channels_of s ! q @ (if r = 0 then [(ty, p)] else [])]"
    "r = 0 \<longleftrightarrow> length (channels_of s ! q) < MSG_Q_SIZE - 1"
proof -
  show "kernel_inv s'" using push_obj_inv [of s q p ty] assms by (simp add: sys_push_obj_to_queue_def)
  obtain r1 q1 where p: "obj_queue_push (queues s ! q) p ty = (r1, q1)" by fastforce
  then have r: "r1 = r" "s' = s\<lparr>queues := (queues s)[q := q1]\<rparr>"
    using assms(3) by (auto simp: sys_push_obj_to_queue_def push_obj_to_queue_def)
  have len: "length (queues s) = 16" using assms(1) by (simp add: kernel_inv_def)
  have "oq_items q1 = oq_items (queues s ! q) @ (if r1 = 0 then [(ty, p)] else []) \<and>
      (r1 = 0 \<longleftrightarrow> length (oq_items (queues s ! q)) < MSG_Q_SIZE - 1)"
    using oq.enq_cases [of "queues s ! q" "(ty, p)" "r1 = 0" q1] kernel_inv_oq [OF assms(1,2)] p
    by (simp add: oq_enq_def)
  with r len assms(2)
  show "channels_of s' = (channels_of s)[q := channels_of s ! q @ (if r = 0 then [(ty, p)] else [])]"
    "r = 0 \<longleftrightarrow> length (channels_of s ! q) < MSG_Q_SIZE - 1"
    by (auto simp: channels_of_def map_update)
qed

lemma pop_channels:
  assumes "kernel_inv s" "q < 16" "pop_obj_from_queue q s = (e, s')"
  shows "kernel_inv s'" "channels_of s' = (channels_of s)[q := tl (channels_of s ! q)]"
    "(if e = -1 then None else Some (oq_entries (queues s' ! q) ! nat e)) =
       (case channels_of s ! q of [] \<Rightarrow> None | m # _ \<Rightarrow> Some m)"
proof -
  show "kernel_inv s'" using pop_obj_inv [of s q] assms by simp
  obtain e1 q1 where p: "obj_queue_pop (queues s ! q) = (e1, q1)" by fastforce
  then have r: "e1 = e" "s' = s\<lparr>queues := (queues s)[q := q1]\<rparr>"
    using assms(3) by (auto simp: pop_obj_from_queue_def)
  have len: "length (queues s) = 16" using assms(1) by (simp add: kernel_inv_def)
  let ?m = "if e = -1 then None else Some (oq_entries q1 ! nat e)"
  have it: "oq_items (queues s ! q) = (case ?m of None \<Rightarrow> [] | Some x \<Rightarrow> [x]) @ oq_items q1"
    using oq.deq_cases [of "queues s ! q" ?m q1] kernel_inv_oq [OF assms(1,2)] p r
    by (simp add: oq_deq_def)
  moreover have "e = -1 \<Longrightarrow> oq_items q1 = []"
    using p r kernel_inv_oq [OF assms(1,2)] oq.deq_head [of "queues s ! q"] it
    by (cases "oq_items q1") (auto simp: obj_queue_pop_def oq_deq_def split: if_splits)
  ultimately show "channels_of s' = (channels_of s)[q := tl (channels_of s ! q)]"
    "(if e = -1 then None else Some (oq_entries (queues s' ! q) ! nat e)) =
       (case channels_of s ! q of [] \<Rightarrow> None | m # _ \<Rightarrow> Some m)"
    using r len assms(2) by (auto simp: channels_of_def map_update)
qed

lemma msg_exec_refines:
  assumes "kernel_inv s" "\<forall>op \<in> set ops. op_queue op < 16"
  shows "kernel_inv (snd (msg_exec ops s)) \<and> fst (msg_exec ops s) = fst (chan_exec ops (channels_of s)) \<and>
    channels_of (snd (msg_exec ops s)) = snd (chan_exec ops (channels_of s))"
  using assms
proof (induction ops arbitrary: s)
  case (Cons op ops)
  show ?case
  proof (cases op)
    case (Send q p ty)
    obtain r s1 where r: "sys_push_obj_to_queue q p ty s = (r, s1)" by fastforce
    have q: "q < 16" using Cons.prems Send by simp
    note ch = push_channels [OF Cons.prems(1) q r]
    from Cons.IH [OF ch(1)] Cons.prems(2) Send r ch(2,3) show ?thesis
      by (auto simp: case_prod_beta Let_def)
  next
    case (Recv q)
    obtain e s1 where r: "pop_obj_from_queue q s = (e, s1)" by fastforce
    have q: "q < 16" using Cons.prems Recv by simp
    note ch = pop_channels [OF Cons.prems(1) q r]
    from Cons.IH [OF ch(1)] Cons.prems(2) Recv r ch(2,3) show ?thesis
      by (auto simp: case_prod_beta Let_def)
  qed
qed simp

section \<open>Delivery\<close>

text \<open>A handler that only records how it was called, in the part of the state the kernel does not know.\<close>

type_synonym call_log = "(code_ptr \<times> obj_ptr \<times> u32) list"

definition log_call :: "code_ptr \<Rightarrow> obj_ptr \<Rightarrow> u32 \<Rightarrow> call_log kernel_st_scheme \<Rightarrow> call_log kernel_st_scheme option" where
  "log_call f a b s = Some (kernel_st.more_update (\<lambda>l. l @ [(f, a, b)]) s)"

text \<open>The oldest pending callback of a thread and the oldest message of each of a list of queues.\<close>

definition due_callback :: "'a kernel_st_scheme \<Rightarrow> nat \<Rightarrow> call_log" where
  "due_callback s t = (case cbk_items (thrds s ! t) of [] \<Rightarrow> []
     | (f, a) # _ \<Rightarrow> [(tf_ftn_ptr (all_thrds_ftns s ! f), a, 0)])"

definition due_msg :: "'a kernel_st_scheme \<Rightarrow> nat \<Rightarrow> call_log" where
  "due_msg s q = (case channels_of s ! q of [] \<Rightarrow> []
     | (ty, p) # _ \<Rightarrow> [(tf_ftn_ptr (all_thrds_ftns s ! oq_cbk_ftn_id (queues s ! q)), p, ty)])"

definition thrd_queues :: "'a kernel_st_scheme \<Rightarrow> nat \<Rightarrow> nat list" where
  "thrd_queues s t = take (t_num_of_queues (thrds s ! t)) (t_msg_queues (thrds s ! t))"

lemma pop_obj_frame:
  "pop_obj_from_queue q s = (e, s') \<Longrightarrow> thrds s' = thrds s \<and> all_thrds_ftns s' = all_thrds_ftns s \<and>
     kernel_st.more s' = kernel_st.more s \<and> length (queues s') = length (queues s) \<and> thread_schedule s' = thread_schedule s \<and>
     (\<forall>j. oq_cbk_ftn_id (queues s' ! j) = oq_cbk_ftn_id (queues s ! j))"
  using oq_ftn_id(2) [of "queues s ! q"]
  by (cases "q < length (queues s)")
    (auto simp: pop_obj_from_queue_def nth_list_update list_update_beyond case_prod_beta)

lemma run_queues_step:
  assumes "kernel_inv s" "t < 8" "i < length (thrd_queues s t)"
  obtains s1 where "run_queues log_call t i (Suc k) s = run_queues log_call t (Suc i) k s1"
    "kernel_inv s1" "thrds s1 = thrds s" "all_thrds_ftns s1 = all_thrds_ftns s"
    "thread_schedule s1 = thread_schedule s"
    "\<forall>j. oq_cbk_ftn_id (queues s1 ! j) = oq_cbk_ftn_id (queues s ! j)"
    "kernel_st.more s1 = kernel_st.more s @ due_msg s (thrd_queues s t ! i)"
    "channels_of s1 = (channels_of s)[thrd_queues s t ! i := tl (channels_of s ! (thrd_queues s t ! i))]"
proof -
  let ?q = "t_msg_queues (thrds s ! t) ! i"
  have ok: "thrd_ok (thrds s ! t)" by (rule kernel_inv_thrd_ok [OF assms(1,2)])
  with assms(3) have i: "i < t_num_of_queues (thrds s ! t)" "i < 16" and q: "?q < 16"
    and eq: "thrd_queues s t ! i = ?q"
    by (auto simp: thrd_queues_def thrd_ok_def)
  obtain e s1 where p: "pop_obj_from_queue ?q s = (e, s1)" by fastforce
  note fr = pop_obj_frame [OF p] and ch = pop_channels [OF assms(1) q p]
  show thesis
  proof (cases "e = -1")
    case True
    then have "due_msg s ?q = []" using ch(3) by (simp add: due_msg_def split: list.splits)
    with that [of s1] fr ch i p True eq show thesis by simp
  next
    case False
    obtain ty ob where en: "oq_entries (queues s1 ! ?q) ! nat e = (ty, ob)" by fastforce
    let ?s = "kernel_st.more_update (\<lambda>l. l @ [(tf_ftn_ptr (all_thrds_ftns s ! oq_cbk_ftn_id (queues s ! ?q)), ob, ty)]) s1"
    have "due_msg s ?q = [(tf_ftn_ptr (all_thrds_ftns s ! oq_cbk_ftn_id (queues s ! ?q)), ob, ty)]"
      using ch(3) False en by (auto simp: due_msg_def split: list.splits)
    with that [of ?s] fr ch i p False eq en show thesis
      by (simp add: log_call_def kernel_inv_def channels_of_def)
  qed
qed

lemma run_queues_log:
  assumes "kernel_inv s" "t < 8" "distinct (thrd_queues s t)" "length (thrd_queues s t) \<le> i + k" "i \<le> length (thrd_queues s t)"
  shows "\<exists>s'. run_queues log_call t i k s = Some s' \<and> thrds s' = thrds s \<and> thread_schedule s' = thread_schedule s \<and>
    kernel_st.more s' = kernel_st.more s @ concat (map (due_msg s) (drop i (thrd_queues s t))) \<and>
    (\<forall>q < 16. channels_of s' ! q = (if q \<in> set (drop i (thrd_queues s t)) then tl (channels_of s ! q) else channels_of s ! q))"
  using assms
proof (induction k arbitrary: i s)
  case 0
  have "t_num_of_queues (thrds s ! t) \<le> i"
    using kernel_inv_thrd_ok [OF 0(1,2)] 0(4) by (simp add: thrd_queues_def thrd_ok_def)
  then show ?case using 0 by simp
next
  case (Suc k)
  show ?case
  proof (cases "i < length (thrd_queues s t)")
    case True
    from run_queues_step [OF Suc.prems(1,2) True, of k] obtain s1 where
      s1: "run_queues log_call t i (Suc k) s = run_queues log_call t (Suc i) k s1" "kernel_inv s1" "thrds s1 = thrds s"
        "all_thrds_ftns s1 = all_thrds_ftns s" "thread_schedule s1 = thread_schedule s"
        "\<forall>j. oq_cbk_ftn_id (queues s1 ! j) = oq_cbk_ftn_id (queues s ! j)"
        "kernel_st.more s1 = kernel_st.more s @ due_msg s (thrd_queues s t ! i)"
        "channels_of s1 = (channels_of s)[thrd_queues s t ! i := tl (channels_of s ! (thrd_queues s t ! i))]"
      by blast
    let ?q = "thrd_queues s t ! i" and ?r = "drop (Suc i) (thrd_queues s t)"
    have tq: "thrd_queues s1 t = thrd_queues s t" using s1(3) by (simp add: thrd_queues_def)
    have dr: "drop i (thrd_queues s t) = ?q # ?r" using True by (rule Cons_nth_drop_Suc [symmetric])
    have nin: "?q \<notin> set ?r" using Suc.prems(3) dr by (metis distinct.simps(2) distinct_drop)
    have "?q \<in> set (t_msg_queues (thrds s ! t))" using True by (metis in_set_takeD nth_mem thrd_queues_def)
    then have q16: "?q < 16" using kernel_inv_thrd_ok [OF Suc.prems(1,2)] by (auto simp: thrd_ok_def)
    have len: "length (channels_of s) = 16" using Suc.prems(1) by (simp add: channels_of_def kernel_inv_def)
    have same: "map (due_msg s1) ?r = map (due_msg s) ?r"
    proof (intro map_cong refl)
      fix q assume "q \<in> set ?r"
      with nin have "q \<noteq> ?q" by auto
      with s1(4,6,8) show "due_msg s1 q = due_msg s q" by (simp add: due_msg_def split: list.split)
    qed
    from Suc.IH [OF s1(2) Suc.prems(2), of "Suc i"] Suc.prems(3,4) True obtain s' where
      s': "run_queues log_call t (Suc i) k s1 = Some s'" "thrds s' = thrds s1" "thread_schedule s' = thread_schedule s1"
        "kernel_st.more s' = kernel_st.more s1 @ concat (map (due_msg s1) ?r)"
        "\<forall>q < 16. channels_of s' ! q = (if q \<in> set ?r then tl (channels_of s1 ! q) else channels_of s1 ! q)"
      by (auto simp: tq)
    have "\<forall>q < 16. channels_of s' ! q = (if q \<in> set (?q # ?r) then tl (channels_of s ! q) else channels_of s ! q)"
      using s'(5) s1(8) nin q16 len by (auto simp: nth_list_update)
    with s1 s' same show ?thesis unfolding dr by simp
  next
    case False
    then have "t_num_of_queues (thrds s ! t) \<le> i"
      using kernel_inv_thrd_ok [OF Suc.prems(1,2)] by (auto simp: thrd_queues_def thrd_ok_def)
    then show ?thesis using Suc.prems False by simp
  qed
qed

lemma run_callback_log:
  assumes "kernel_inv s" "t < 8"
  obtains s1 where "run_callback log_call t s = Some s1" "kernel_inv s1" "queues s1 = queues s"
    "all_thrds_ftns s1 = all_thrds_ftns s" "thread_schedule s1 = thread_schedule s" "length (thrds s1) = length (thrds s)"
    "thrd_queues s1 t = thrd_queues s t" "cbk_items (thrds s1 ! t) = tl (cbk_items (thrds s ! t))"
    "kernel_st.more s1 = kernel_st.more s @ due_callback s t"
proof -
  obtain e th where p: "pop_callback_ftn (thrds s ! t) = (e, th)" by fastforce
  have ok: "thrd_ok (thrds s ! t)" by (rule kernel_inv_thrd_ok [OF assms])
  have len: "length (thrds s) = 8" using assms(1) by (simp add: kernel_inv_def)
  let ?s = "s\<lparr>thrds := (thrds s)[t := th]\<rparr>"
  have inv: "kernel_inv ?s" using kernel_inv_upd_thrd [OF assms(1), of th t] cbk_pop_ok [OF ok] p by simp
  have qs: "thrd_queues ?s t = thrd_queues s t"
    using p len assms(2) by (auto simp: thrd_queues_def pop_callback_ftn_def split: if_splits)
  have it: "cbk_items (thrds s ! t) = (if e = -1 then [] else [t_cbk_entries th ! nat e]) @ cbk_items th"
    using cbk_items_pop [OF ok] p by (simp add: cbk_deq_def split: if_splits)
  show thesis
  proof (cases "e = -1")
    case True
    then have "th = thrds s ! t" "t_cbk_head th = t_cbk_tail th" using p by (auto simp: pop_callback_ftn_def split: if_splits)
    then have "cbk_items (thrds s ! t) = []"
      using ok by (simp add: cbk_items_def thrd_ok_def cbk_inv_def ring_list_empty)
    with that [of ?s] inv qs p True it len assms(2) show thesis by (simp add: run_callback_def due_callback_def)
  next
    case False
    obtain f a where en: "t_cbk_entries th ! nat e = (f, a)" by fastforce
    let ?s1 = "kernel_st.more_update (\<lambda>l. l @ [(tf_ftn_ptr (all_thrds_ftns s ! f), a, 0)]) ?s"
    have "thrd_queues ?s1 t = thrd_queues s t" using qs by (simp add: thrd_queues_def)
    with that [of ?s1] inv p False it en len assms(2) show thesis
      by (simp add: run_callback_def due_callback_def log_call_def kernel_inv_def)
  qed
qed

section \<open>The scheduling policy\<close>

text \<open>
  A thread gets the core when it is ready, or parked and skipped for the second time since it last ran. A parked thread
  that is passed over is counted as skipped once more.
\<close>

definition thread_due :: "thrd_t \<Rightarrow> bool" where
  "thread_due t \<longleftrightarrow> t_status t = THREAD_STATUS_READY \<or> t_status t = THREAD_STATUS_SWPM \<and> 2 \<le> t_skipped_count t + 1"

definition passed_over :: "thrd_t \<Rightarrow> thrd_t" where
  "passed_over t = (if t_status t = THREAD_STATUS_SWPM then t\<lparr>t_skipped_count := t_skipped_count t + 1\<rparr> else t)"

definition takes_core :: "thrd_t \<Rightarrow> thrd_t" where
  "takes_core t = (if t_status t = THREAD_STATUS_READY then t\<lparr>t_status := THREAD_STATUS_ACTIVE\<rparr>
     else t\<lparr>t_skipped_count := 0, t_status := THREAD_STATUS_ACTIVE\<rparr>)"

text \<open>The thread whose turn is \<open>d\<close>-th, counted from slot \<open>p\<close> of the core; and the threads after a scan that ended at turn \<open>d\<close>.\<close>

definition turn :: "cpu_threads_t \<Rightarrow> nat \<Rightarrow> nat \<Rightarrow> nat" where
  "turn c p d = ct_threads c ! ((p + d) mod ct_num_assigned_threads c)"

definition scanned :: "(nat \<Rightarrow> nat) \<Rightarrow> nat \<Rightarrow> thrd_t list \<Rightarrow> thrd_t list \<Rightarrow> bool" where
  "scanned v d ts ts' \<longleftrightarrow> length ts' = length ts \<and>
     (\<forall>j < length ts. ts' ! j = (if j \<in> v ` {..<d} then passed_over (ts ! j) else ts ! j))"

definition picked :: "(nat \<Rightarrow> nat) \<Rightarrow> nat \<Rightarrow> thrd_t list \<Rightarrow> thrd_t list \<Rightarrow> bool" where
  "picked v d ts ts' \<longleftrightarrow> length ts' = length ts \<and> (\<forall>e < d. \<not> thread_due (ts ! v e)) \<and> thread_due (ts ! v d) \<and>
     (\<forall>j < length ts. ts' ! j = (if j \<in> v ` {..<d} then passed_over (ts ! j) else if j = v d then takes_core (ts ! j) else ts ! j))"

lemma image_Suc: "v ` {..<Suc d} = insert (v 0) ((\<lambda>e. v (Suc e)) ` {..<d})"
  by (auto simp: lessThan_Suc_eq_insert_0)

lemma scanned_Suc:
  assumes "v 0 < length ts" "\<forall>e < d. v (Suc e) \<noteq> v 0" "scanned (\<lambda>e. v (Suc e)) d (ts[v 0 := passed_over (ts ! v 0)]) ts'"
  shows "scanned v (Suc d) ts ts'"
  using assms by (auto simp: scanned_def image_Suc nth_list_update)

lemma picked_Suc:
  assumes "v 0 < length ts" "\<forall>e \<le> d. v (Suc e) \<noteq> v 0" "\<not> thread_due (ts ! v 0)"
    and "picked (\<lambda>e. v (Suc e)) d (ts[v 0 := passed_over (ts ! v 0)]) ts'"
  shows "picked v (Suc d) ts ts'"
proof -
  define ts1 where "ts1 = ts[v 0 := passed_over (ts ! v 0)]"
  have p: "length ts' = length ts" "\<forall>e < d. \<not> thread_due (ts1 ! v (Suc e))" "thread_due (ts1 ! v (Suc d))"
    "\<forall>j < length ts. ts' ! j = (if j \<in> (\<lambda>e. v (Suc e)) ` {..<d} then passed_over (ts1 ! j) else if j = v (Suc d) then takes_core (ts1 ! j) else ts1 ! j)"
    using assms(4) by (simp_all add: picked_def ts1_def)
  have same: "ts1 ! v (Suc e) = ts ! v (Suc e)" if "e \<le> d" for e
    unfolding ts1_def using assms(2) that by (metis nth_list_update_neq)
  have "\<not> thread_due (ts ! v e)" if "e < Suc d" for e using that p(2) same assms(3) by (cases e) auto
  moreover have "ts' ! j = (if j \<in> v ` {..<Suc d} then passed_over (ts ! j) else if j = v (Suc d) then takes_core (ts ! j) else ts ! j)"
    if j: "j < length ts" for j
  proof (cases "j = v 0")
    case True
    then have "j \<notin> (\<lambda>e. v (Suc e)) ` {..<d}" "j \<noteq> v (Suc d)" using assms(2) by (auto dest: less_imp_le)
    then have "ts' ! j = passed_over (ts ! j)" using p(4) [rule_format, OF j] True assms(1) by (simp add: ts1_def)
    then show ?thesis using True by (simp add: image_Suc)
  next
    case False
    then have "ts1 ! j = ts ! j" by (simp add: ts1_def)
    with p(4) [rule_format, OF j] False show ?thesis unfolding image_Suc by (simp only: insert_iff simp_thms)
  qed
  moreover have "thread_due (ts ! v (Suc d))" using p(3) same by simp
  ultimately show ?thesis using p(1) by (simp add: picked_def)
qed

text \<open>The scan with \<open>k\<close> slots left, over slots that hold different threads.\<close>

lemma sched_scan_exact:
  assumes "cpu_ok c (length ts)" "inj_on (slot_thread c ti) {..<k}" "sched_scan k ti c ts = (a, c', ts')"
  defines "v \<equiv> slot_thread c ti"
  shows "(\<forall>e < k. \<not> thread_due (ts ! v e)) \<and> a = NoThread \<and> c' = c \<and> scanned v k ts ts' \<or>
    (\<exists>d < k. picked v d ts ts' \<and> a = (if t_status (ts ! v d) = THREAD_STATUS_READY then RunThread (v d) else RestoreThread (v d)) \<and>
       c' = c\<lparr>ct_current_thread := Some (v d)\<rparr>)"
  unfolding v_def using assms(1-3)
proof (induction k arbitrary: ti ts)
  case 0
  then show ?case by (simp add: scanned_def)
next
  case (Suc k)
  define v where "v = slot_thread c ti"
  have v0: "v 0 < length ts" unfolding v_def by (rule slot_thread_less [OF Suc.prems(1)])
  note step = sched_scan_Suc [OF Suc.prems(1), of k ti ts, unfolded Let_def, folded v_def]
  show ?case
  proof (cases "thread_due (ts ! v 0)")
    case True
    have "picked v 0 ts (ts[v 0 := takes_core (ts ! v 0)])" using True v0 by (simp add: picked_def nth_list_update)
    moreover have "sched_scan (Suc k) ti c ts = (if t_status (ts ! v 0) = THREAD_STATUS_READY then RunThread (v 0) else RestoreThread (v 0),
        c\<lparr>ct_current_thread := Some (v 0)\<rparr>, ts[v 0 := takes_core (ts ! v 0)])"
    proof (cases "t_status (ts ! v 0) = THREAD_STATUS_READY")
      case False
      with True have "t_status (ts ! v 0) = THREAD_STATUS_SWPM \<and> 2 \<le> t_skipped_count (ts ! v 0) + 1" by (simp add: thread_due_def)
      with False show ?thesis unfolding step by (simp add: takes_core_def)
    next
      case True
      then show ?thesis unfolding step by (simp add: takes_core_def)
    qed
    ultimately show ?thesis using Suc.prems(3) unfolding v_def [symmetric] by (intro disjI2 exI [of _ 0]) simp
  next
    case False
    define ts1 where "ts1 = ts[v 0 := passed_over (ts ! v 0)]"
    have rec: "sched_scan k (norm_slot c ti + 1) c ts1 = (a, c', ts')"
    proof -
      have nr: "t_status (ts ! v 0) \<noteq> THREAD_STATUS_READY" "\<not> (t_status (ts ! v 0) = THREAD_STATUS_SWPM \<and> 2 \<le> t_skipped_count (ts ! v 0) + 1)"
        using False by (simp_all add: thread_due_def)
      have "ts1 = (if t_status (ts ! v 0) = THREAD_STATUS_SWPM then ts[v 0 := (ts ! v 0)\<lparr>t_skipped_count := t_skipped_count (ts ! v 0) + 1\<rparr>] else ts)"
        by (simp add: ts1_def passed_over_def)
      with Suc.prems(3) nr show ?thesis unfolding step by simp
    qed
    have shift: "slot_thread c (norm_slot c ti + 1) = (\<lambda>e. v (Suc e))"
      unfolding v_def using slot_thread_Suc [OF Suc.prems(1)] by (rule ext)
    have inj: "inj_on v {..<Suc k}" using Suc.prems(2) by (simp add: v_def)
    have ne: "v (Suc e) \<noteq> v 0" if "e < k" for e using inj_onD [OF inj, of "Suc e" 0] that by auto
    have "inj_on (\<lambda>e. v (Suc e)) {..<k}" using inj by (auto simp: inj_on_def)
    then have inj': "inj_on (slot_thread c (norm_slot c ti + 1)) {..<k}" by (simp only: shift)
    have ok1: "cpu_ok c (length ts1)" using Suc.prems(1) by (simp add: ts1_def)
    from Suc.IH [OF ok1 inj' rec] have ih:
      "(\<forall>e < k. \<not> thread_due (ts1 ! v (Suc e))) \<and> a = NoThread \<and> c' = c \<and> scanned (\<lambda>e. v (Suc e)) k ts1 ts' \<or>
       (\<exists>d < k. picked (\<lambda>e. v (Suc e)) d ts1 ts' \<and> a = (if t_status (ts1 ! v (Suc d)) = THREAD_STATUS_READY then RunThread (v (Suc d)) else RestoreThread (v (Suc d))) \<and>
          c' = c\<lparr>ct_current_thread := Some (v (Suc d))\<rparr>)"
      unfolding shift .
    have same: "ts1 ! v (Suc e) = ts ! v (Suc e)" if "e < k" for e using ne [OF that] by (simp add: ts1_def)
    from ih show ?thesis
    proof (elim disjE exE conjE)
      assume a: "\<forall>e < k. \<not> thread_due (ts1 ! v (Suc e))" "a = NoThread" "c' = c" "scanned (\<lambda>e. v (Suc e)) k ts1 ts'"
      have "scanned v (Suc k) ts ts'" using scanned_Suc [of v ts k ts'] v0 ne a(4) by (simp add: ts1_def)
      moreover have "\<forall>e < Suc k. \<not> thread_due (ts ! v e)" using a(1) False same by (auto simp: less_Suc_eq_0_disj)
      ultimately show ?thesis unfolding v_def [symmetric] using a(2,3) by (intro disjI1 conjI)
    next
      fix d assume d: "d < k" "picked (\<lambda>e. v (Suc e)) d ts1 ts'" "c' = c\<lparr>ct_current_thread := Some (v (Suc d))\<rparr>"
        "a = (if t_status (ts1 ! v (Suc d)) = THREAD_STATUS_READY then RunThread (v (Suc d)) else RestoreThread (v (Suc d)))"
      have "picked v (Suc d) ts ts'" using picked_Suc [of v ts d ts'] v0 ne d(1,2) False by (simp add: ts1_def)
      moreover have "a = (if t_status (ts ! v (Suc d)) = THREAD_STATUS_READY then RunThread (v (Suc d)) else RestoreThread (v (Suc d)))"
        using d(4) unfolding same [OF d(1)] .
      moreover have "Suc d < Suc k" using d(1) by simp
      ultimately show ?thesis unfolding v_def [symmetric] using d(3) by (intro disjI2 exI [of _ "Suc d"] conjI)
    qed
  qed
qed

text \<open>The first loop finds the slot after the current thread's.\<close>

lemma next_slot_found:
  "i \<le> j \<Longrightarrow> j < i + k \<Longrightarrow> cur = Some (ths ! j) \<Longrightarrow> (\<And>l. i \<le> l \<Longrightarrow> l < j \<Longrightarrow> ths ! l \<noteq> ths ! j) \<Longrightarrow> next_slot cur ths i k = j + 1"
proof (induction k arbitrary: i)
  case (Suc k)
  show ?case
  proof (cases "i = j")
    case False
    with Suc.prems have "ths ! j \<noteq> ths ! i" "Suc i \<le> j" "j < Suc i + k" by fastforce+
    with Suc.IH [of "Suc i"] Suc.prems show ?thesis by simp
  qed (use Suc.prems in simp)
qed simp

lemma next_slot_none: "(\<And>j. i \<le> j \<Longrightarrow> j < i + k \<Longrightarrow> cur \<noteq> Some (ths ! j)) \<Longrightarrow> next_slot cur ths i k = 0"
  by (induction k arbitrary: i) simp_all

text \<open>The slot a core starts from: behind the thread that ran last, or slot 0.\<close>

definition starts_at :: "cpu_threads_t \<Rightarrow> nat \<Rightarrow> bool" where
  "starts_at c p \<longleftrightarrow> (\<exists>j < ct_num_assigned_threads c. ct_current_thread c = Some (ct_threads c ! j) \<and> p = (j + 1) mod ct_num_assigned_threads c) \<or>
     (\<forall>j < ct_num_assigned_threads c. ct_current_thread c \<noteq> Some (ct_threads c ! j)) \<and> p = 0"

lemma starts_at_next:
  assumes "distinct (take n (ct_threads c))" "n = ct_num_assigned_threads c" "n \<le> length (ct_threads c)"
  shows "starts_at c (norm_slot c (next_slot (ct_current_thread c) (ct_threads c) 0 n))"
proof (cases "\<exists>j < n. ct_current_thread c = Some (ct_threads c ! j)")
  case True
  then obtain j where j: "j < n" "ct_current_thread c = Some (ct_threads c ! j)" by blast
  have "ct_threads c ! l \<noteq> ct_threads c ! j" if "l < j" for l
    using nth_eq_iff_index_eq [OF assms(1), of l j] that j(1) assms(3) by simp
  with j have "next_slot (ct_current_thread c) (ct_threads c) 0 n = j + 1" by (intro next_slot_found) auto
  moreover have "norm_slot c (j + 1) = (j + 1) mod n" using j(1) by (auto simp: norm_slot_def assms(2) mod_Suc)
  ultimately show ?thesis using j unfolding starts_at_def assms(2) by metis
next
  case False
  then have "next_slot (ct_current_thread c) (ct_threads c) 0 n = 0" by (intro next_slot_none) auto
  with False show ?thesis by (simp add: starts_at_def norm_slot_def assms(2))
qed

lemma slot_inj:
  assumes "distinct (take n (ct_threads c))" "n = ct_num_assigned_threads c" "n \<le> length (ct_threads c)" "0 < n"
  shows "inj_on (slot_thread c ti) {..<n}"
proof (rule inj_onI)
  fix e e' assume e: "e \<in> {..<n}" "e' \<in> {..<n}" "slot_thread c ti e = slot_thread c ti e'"
  let ?p = "norm_slot c ti"
  have lt: "(?p + x) mod n < n" for x using assms(4) by simp
  from e(3) have "(?p + e) mod n = (?p + e') mod n"
    using nth_eq_iff_index_eq [OF assms(1), of "(?p + e) mod n" "(?p + e') mod n"] lt assms(3)
    by (simp add: slot_thread_def assms(2) [symmetric])
  moreover have "?p < n" using assms(4) by (simp add: norm_slot_def assms(2))
  moreover have "x mod n = (if x < n then x else x - n)" if "x < n + n" for x
    using that by (simp add: le_mod_geq)
  ultimately show "e = e'" using e(1,2) by (auto split: if_splits)
qed

section \<open>Release of the secondary cores\<close>

text \<open>
  \<open>sec_cpu_halt_indicator\<close> and the program positions of the four cores: the primary core runs
  \<open>release_sec_cpus\<close>, cores 1 to 3 run \<open>halt_sec_cpus\<close>. Every step of a core is one access to the
  shared indicators, in any interleaving. The time-out of the primary core only prints.
\<close>

definition MMU_TTB_READY :: u32 where "MMU_TTB_READY = 1"
definition CPU_RUNNING :: u32 where "CPU_RUNNING = 2"

definition SEC_CPUS :: "nat set" where "SEC_CPUS = {1, 2, 3}"

datatype halt_pc = Spinning | Leaving | Returned

record smp_st =
  sec_cpu_halt_indicator :: "nat \<Rightarrow> u32"
  released :: nat              \<comment> \<open>stores \<open>release_sec_cpus\<close> has done\<close>
  seen :: nat                  \<comment> \<open>cores found running in this round of its loop\<close>
  primary_returned :: bool
  halt_pc :: "nat \<Rightarrow> halt_pc"

definition smp_init :: smp_st where
  "smp_init = \<lparr>sec_cpu_halt_indicator = (\<lambda>_. 0), released = 0, seen = 0, primary_returned = False, halt_pc = (\<lambda>_. Spinning)\<rparr>"

inductive smp_step :: "smp_st \<Rightarrow> smp_st \<Rightarrow> bool" where
  release: "released s < 3 \<Longrightarrow> smp_step s (s\<lparr>sec_cpu_halt_indicator :=
     (sec_cpu_halt_indicator s)(released s + 1 := MMU_TTB_READY), released := released s + 1\<rparr>)"
| read_running: "released s = 3 \<Longrightarrow> seen s < 3 \<Longrightarrow> sec_cpu_halt_indicator s (seen s + 1) = CPU_RUNNING \<Longrightarrow>
     smp_step s (s\<lparr>seen := seen s + 1\<rparr>)"
| read_other: "released s = 3 \<Longrightarrow> seen s < 3 \<Longrightarrow> sec_cpu_halt_indicator s (seen s + 1) \<noteq> CPU_RUNNING \<Longrightarrow>
     smp_step s (s\<lparr>seen := 0\<rparr>)"
| primary_return: "seen s = 3 \<Longrightarrow> smp_step s (s\<lparr>primary_returned := True\<rparr>)"
| leave_loop: "c \<in> SEC_CPUS \<Longrightarrow> halt_pc s c = Spinning \<Longrightarrow> sec_cpu_halt_indicator s c = MMU_TTB_READY \<Longrightarrow>
     smp_step s (s\<lparr>halt_pc := (halt_pc s)(c := Leaving)\<rparr>)"
| report: "c \<in> SEC_CPUS \<Longrightarrow> halt_pc s c = Leaving \<Longrightarrow>
     smp_step s (s\<lparr>sec_cpu_halt_indicator := (sec_cpu_halt_indicator s)(c := CPU_RUNNING),
       halt_pc := (halt_pc s)(c := Returned)\<rparr>)"

text \<open>What the indicator of secondary core \<open>c\<close> says after \<open>r\<close> stores of the primary core.\<close>

definition sec_ok :: "nat \<Rightarrow> nat \<Rightarrow> u32 \<Rightarrow> halt_pc \<Rightarrow> bool" where
  "sec_ok r c ind pc \<longleftrightarrow> (if r < c then ind = 0 \<and> pc = Spinning
     else ind = (if pc = Returned then CPU_RUNNING else MMU_TTB_READY))"

definition smp_inv :: "smp_st \<Rightarrow> bool" where
  "smp_inv s \<longleftrightarrow> released s \<le> 3 \<and> (\<forall>c \<in> SEC_CPUS. c \<le> seen s \<longrightarrow> halt_pc s c = Returned) \<and>
     (primary_returned s \<longrightarrow> (\<forall>c \<in> SEC_CPUS. halt_pc s c = Returned)) \<and>
     (\<forall>c \<in> SEC_CPUS. sec_ok (released s) c (sec_cpu_halt_indicator s c) (halt_pc s c))"

lemma smp_inv_init: "smp_inv smp_init"
  by (auto simp: smp_inv_def smp_init_def sec_ok_def SEC_CPUS_def)

lemma halt_codes [simp]: "CPU_RUNNING \<noteq> 0" "CPU_RUNNING \<noteq> MMU_TTB_READY" "MMU_TTB_READY \<noteq> CPU_RUNNING" "MMU_TTB_READY \<noteq> 0"
  by (simp_all add: CPU_RUNNING_def MMU_TTB_READY_def)

lemma sec_ok_running: "sec_ok r c CPU_RUNNING pc \<Longrightarrow> pc = Returned"
  by (simp add: sec_ok_def split: if_splits)

lemma sec_ok_release: "sec_ok r c ind pc \<Longrightarrow> sec_ok (Suc r) c (if c = Suc r then MMU_TTB_READY else ind) pc"
  by (auto simp: sec_ok_def split: if_splits)

lemma sec_ok_leave: "sec_ok r c MMU_TTB_READY Spinning \<Longrightarrow> sec_ok r c MMU_TTB_READY Leaving"
  by (auto simp: sec_ok_def)

lemma sec_ok_report: "sec_ok r c ind Leaving \<Longrightarrow> sec_ok r c CPU_RUNNING Returned"
  by (auto simp: sec_ok_def)

lemma smp_inv_step: "smp_step s s' \<Longrightarrow> smp_inv s \<Longrightarrow> smp_inv s'"
proof (induction rule: smp_step.induct)
  case (release s)
  have "sec_ok (Suc (released s)) c (if c = Suc (released s) then MMU_TTB_READY else sec_cpu_halt_indicator s c) (halt_pc s c)"
    if "c \<in> SEC_CPUS" for c
    using that release by (intro sec_ok_release) (simp add: smp_inv_def)
  with release show ?case by (simp add: smp_inv_def)
next
  case (read_running s)
  have "halt_pc s c = Returned" if "c \<in> SEC_CPUS" "c \<le> Suc (seen s)" for c
  proof (cases "c = Suc (seen s)")
    case True
    with read_running that have "sec_ok (released s) c CPU_RUNNING (halt_pc s c)" by (metis Suc_eq_plus1 smp_inv_def)
    then show ?thesis by (rule sec_ok_running)
  next
    case False
    with read_running that show ?thesis by (auto simp: smp_inv_def)
  qed
  with read_running show ?case by (simp add: smp_inv_def)
next
  case (read_other s)
  then show ?case by (simp add: smp_inv_def SEC_CPUS_def)
next
  case (primary_return s)
  then show ?case by (auto simp: smp_inv_def SEC_CPUS_def)
next
  case (leave_loop c s)
  then have "sec_ok (released s) c (sec_cpu_halt_indicator s c) Leaving"
    using sec_ok_leave [of "released s" c] by (metis smp_inv_def)
  with leave_loop show ?case by (auto simp: smp_inv_def)
next
  case (report c s)
  then have "sec_ok (released s) c CPU_RUNNING Returned"
    using sec_ok_report [of "released s" c "sec_cpu_halt_indicator s c"] by (metis smp_inv_def)
  with report show ?case by (auto simp: smp_inv_def)
qed

lemma smp_inv_reachable: "smp_step\<^sup>*\<^sup>* smp_init s \<Longrightarrow> smp_inv s"
  by (induction rule: rtranclp_induct) (auto intro: smp_inv_init smp_inv_step)

section \<open>The memory map and the allocator\<close>

definition section_attr :: "nat \<Rightarrow> u32" where
  "section_attr i = (if i < 2048 then DEV_MEM else if i < 2264 then CACHEABLE_MEM
     else if i < 2560 then UNCACHEABLE_MEM else DEV_MEM)"

lemma ttb_fill_nth:
  "i < length t \<Longrightarrow> ttb_fill a b attr t ! i = (if a \<le> i \<and> i < b then push_bit 20 (of_nat i) OR attr else t ! i)"
proof (induction b arbitrary: t)
  case (Suc b)
  have len: "length (fold (\<lambda>i t. t[i := push_bit 20 (of_nat i) OR attr]) [a..<b] t) = length t"
    by (induction b) auto
  from Suc show ?case
    by (auto simp: ttb_fill_def nth_list_update len less_Suc_eq)
qed (simp add: ttb_fill_def)

lemma ttb_fill_length [simp]: "length (ttb_fill a b attr t) = length t"
  unfolding ttb_fill_def by (induction b) auto

text \<open>A sequence of allocations.\<close>

fun alloc_run :: "nat list \<Rightarrow> 'a kernel_st_scheme \<Rightarrow> (nat list \<times> 'a kernel_st_scheme) option" where
  "alloc_run [] s = Some ([], s)"
| "alloc_run (n # ns) s = do { (p, s1) \<leftarrow> get_uncacheable_ram n s; (ps, s2) \<leftarrow> alloc_run ns s1; Some (p # ps, s2) }"

definition heap_ok :: "'a kernel_st_scheme \<Rightarrow> bool" where
  "heap_ok s \<longleftrightarrow> uncached_ram_start s \<le> uncacheable_next_ptr s \<and> uncacheable_next_ptr s \<le> uncached_ram_end s \<and>
     uncached_ram_end s \<le> 2559 * 2 ^ 20"

lemma alloc_step:
  assumes "heap_ok s" "n \<le> 0x60000000" "get_uncacheable_ram n s = Some (p, s')"
  shows "heap_ok s' \<and> p = uncacheable_next_ptr s \<and> uncacheable_next_ptr s' = p + n \<and>
    uncached_ram_start s' = uncached_ram_start s \<and> uncached_ram_end s' = uncached_ram_end s"
  using assms by (auto simp: get_uncacheable_ram_def Let_def heap_ok_def split: if_splits)

lemma alloc_run_blocks:
  assumes "heap_ok s" "\<forall>n \<in> set ns. n \<le> 0x60000000" "alloc_run ns s = Some (ps, s')"
  shows "length ps = length ns \<and> heap_ok s' \<and> (\<forall>i < length ns. uncacheable_next_ptr s \<le> ps ! i \<and> ps ! i + ns ! i \<le> uncached_ram_end s)
    \<and> (\<forall>j < length ns. \<forall>i < j. ps ! i + ns ! i \<le> ps ! j)"
  using assms
proof (induction ns arbitrary: s ps)
  case (Cons n ns)
  from Cons.prems(3) obtain p s1 ps1 where a: "get_uncacheable_ram n s = Some (p, s1)"
      "alloc_run ns s1 = Some (ps1, s')" "ps = p # ps1"
    by (auto simp: bind_eq_Some_conv)
  have st: "heap_ok s1 \<and> p = uncacheable_next_ptr s \<and> uncacheable_next_ptr s1 = p + n \<and>
    uncached_ram_start s1 = uncached_ram_start s \<and> uncached_ram_end s1 = uncached_ram_end s"
    using alloc_step [OF Cons.prems(1) _ a(1)] Cons.prems(2) by simp
  have ih: "length ps1 = length ns" "heap_ok s'"
    "\<And>i. i < length ns \<Longrightarrow> p + n \<le> ps1 ! i \<and> ps1 ! i + ns ! i \<le> uncached_ram_end s"
    "\<And>i j. j < length ns \<Longrightarrow> i < j \<Longrightarrow> ps1 ! i + ns ! i \<le> ps1 ! j"
    using Cons.IH [of s1 ps1] st a(2) Cons.prems(2) by auto
  have pe: "p + n \<le> uncached_ram_end s" using st by (auto simp: heap_ok_def)
  show ?case
  proof (intro conjI allI impI)
    fix i assume "i < length (n # ns)"
    then show "uncacheable_next_ptr s \<le> ps ! i" "ps ! i + (n # ns) ! i \<le> uncached_ram_end s"
      using ih(3) [of "i - 1"] st pe a(3) by (cases i; auto)+
  next
    fix j i assume "j < length (n # ns)" "i < j"
    then show "ps ! i + (n # ns) ! i \<le> ps ! j"
      using ih(3) [of "j - 1"] ih(4) [of "j - 1" "i - 1"] a(3) by (cases i; cases j; auto)
  qed (use ih a in simp_all)
qed (simp add: heap_ok_def)

section \<open>Properties\<close>

lemma kernel_reachable_induct: "kernel_reachable s \<Longrightarrow> kernel_wf s"
  unfolding kernel_reachable_def
  by (induction rule: rtranclp_induct) (auto intro: kernel_wf_image kernel_step_wf)

lemma kernel_reachable_existing: "kernel_reachable s \<Longrightarrow> sched_existing s"
  unfolding kernel_reachable_def
proof (induction rule: rtranclp_induct)
  case base
  then show ?case by (simp add: sched_existing_def kernel_image_def core_existing_def zero_cpu_def)
next
  case (step s s')
  then show ?case using sched_existing_step kernel_reachable_induct by (auto simp: kernel_reachable_def)
qed

lemma kernel_image_reachable: "kernel_reachable kernel_image"
  by (simp add: kernel_reachable_def)

text \<open>
  C12. In every kernel state that boot, registration, message and callback traffic, scheduling, the end of a thread's
  run and allocation can produce from the firmware image, the tables keep their sizes and the counters and indices into them
  stay within these, every queue is a well-formed ring, the threads assigned to a core, and the one it runs, have been
  created, and every pending callback is one of a registered function and waits in the queue of the thread that function was
  registered for. The cores enter \<open>firmware_entry\<close> after the threads have been created, as in the boot code.
\<close>

theorem kernel_reachable_wf:
  assumes "kernel_reachable s"
  shows "kernel_inv s \<and> sched_inv s \<and> sched_existing s \<and> cbk_affine s"
  using kernel_reachable_induct [OF assms] kernel_reachable_existing [OF assms] by (simp add: kernel_wf_def)

theorem kernel_reachable_wf_witness:
  "kernel_reachable (snd (sys_push_obj_to_queue FTL_MODULE_IN_Q WBC 1 kernel_image)) \<and>
   kernel_inv (snd (sys_push_obj_to_queue FTL_MODULE_IN_Q WBC 1 kernel_image))"
proof -
  have "kernel_step kernel_image (snd (sys_push_obj_to_queue FTL_MODULE_IN_Q WBC 1 kernel_image))"
    by (rule kernel_step.push) (simp add: FTL_MODULE_IN_Q_def)
  then have "kernel_reachable (snd (sys_push_obj_to_queue FTL_MODULE_IN_Q WBC 1 kernel_image))"
    by (simp add: kernel_reachable_def)
  with kernel_reachable_wf show ?thesis by blast
qed

text \<open>
  C13. The message queues of the kernel refine sixteen independent bounded FIFO channels: any
  sequence of sends and receives gives the same answers, message for message, as the channels, a
  send being refused exactly when 255 messages wait, and leaves corresponding states.
\<close>

theorem kernel_queues_refine_channels:
  assumes "kernel_inv s" "\<forall>op \<in> set ops. op_queue op < 16"
  shows "fst (msg_exec ops s) = fst (chan_exec ops (channels_of s)) \<and>
    channels_of (snd (msg_exec ops s)) = snd (chan_exec ops (channels_of s)) \<and> kernel_inv (snd (msg_exec ops s))"
  using msg_exec_refines [OF assms] by blast

lemma channels_of_image: "channels_of kernel_image = replicate 16 []"
  by (simp add: channels_of_def kernel_image_def oq_items_def zero_obj_queue_def ring_list_empty MSG_Q_SIZE_def)

theorem kernel_queues_refine_channels_witness:
  "fst (msg_exec [Send 5 (R_REQ 0) 1, Send 5 (W_REQ 3) 2, Send 6 WBC 1, Recv 5, Recv 6, Recv 6] kernel_image)
     = [Some (1, R_REQ 0), Some (2, W_REQ 3), Some (1, WBC), Some (1, R_REQ 0), Some (1, WBC), None]"
  using kernel_queues_refine_channels [OF kernel_inv_image,
      of "[Send 5 (R_REQ 0) 1, Send 5 (W_REQ 3) 2, Send 6 WBC 1, Recv 5, Recv 6, Recv 6]"]
  by (simp add: channels_of_image MSG_Q_SIZE_def numeral_eq_Suc)

text \<open>
  C22. The scheduler of a core is a round robin over the threads assigned to it. It starts at the slot behind the thread that
  ran last (slot 0 when that thread is not assigned) and goes round once. The first thread that is due gets the core: a
  ready thread is run, a thread parked by \<open>sys_yield_cpu\<close> is restored when it is met for the second time. That thread
  becomes active and current and its skip count is reset; the skip count of every parked thread met before it goes up by one;
  if no thread is due, no thread is picked. Nothing else changes.
\<close>

theorem scheduler_round_robin:
  assumes "kernel_wf s" "cpu < NUM_CPUS"
  defines "c \<equiv> thread_schedule s ! cpu"
  defines "n \<equiv> ct_num_assigned_threads c"
  assumes "0 < n" "distinct (take n (ct_threads c))"
  shows "\<exists>p ts. starts_at c p \<and>
    ((\<forall>d < n. \<not> thread_due (thrds s ! turn c p d)) \<and> scanned (turn c p) n (thrds s) ts \<and>
       cpu_thread_scheduler cpu s = (NoThread, s\<lparr>thrds := ts\<rparr>) \<or>
     (\<exists>d < n. picked (turn c p) d (thrds s) ts \<and> cpu_thread_scheduler cpu s =
       (if t_status (thrds s ! turn c p d) = THREAD_STATUS_READY then RunThread (turn c p d) else RestoreThread (turn c p d),
        s\<lparr>thread_schedule := (thread_schedule s)[cpu := c\<lparr>ct_current_thread := Some (turn c p d)\<rparr>], thrds := ts\<rparr>)))"
proof -
  define ti where "ti = next_slot (ct_current_thread c) (ct_threads c) 0 n"
  obtain a c' ts where sc: "sched_scan n ti c (thrds s) = (a, c', ts)" by (metis prod_cases3)
  then have run: "cpu_thread_scheduler cpu s = (a, s\<lparr>thread_schedule := (thread_schedule s)[cpu := c'], thrds := ts\<rparr>)"
    by (simp add: cpu_thread_scheduler_def Let_def c_def n_def ti_def)
  have core: "core_ok c" using assms(1,2) by (auto simp: kernel_wf_def sched_inv_def c_def)
  have ok: "cpu_ok c (length (thrds s))"
    using core assms(1,5) by (auto simp: cpu_ok_def core_ok_def kernel_wf_def kernel_inv_def n_def)
  have len: "n = ct_num_assigned_threads c" "n \<le> length (ct_threads c)" using core by (simp_all add: n_def core_ok_def)
  have v: "slot_thread c ti = turn c (norm_slot c ti)" by (simp add: slot_thread_def turn_def fun_eq_iff)
  have same: "s\<lparr>thread_schedule := (thread_schedule s)[cpu := c], thrds := ts\<rparr> = s\<lparr>thrds := ts\<rparr>" by (simp add: c_def)
  from sched_scan_exact [OF ok slot_inj [OF assms(6) len assms(5)] sc, unfolded v] starts_at_next [OF assms(6) len, folded ti_def] run same
  show ?thesis by (intro exI [of _ "norm_slot c ti"] exI [of _ ts]) auto
qed

definition sched_demo :: kernel_st where
  "sched_demo = kernel_image\<lparr>thread_schedule := (thread_schedule kernel_image)[0 := zero_cpu
     \<lparr>ct_num_assigned_threads := 2, ct_threads := [2, 3, 0, 0, 0, 0, 0, 0], ct_current_thread := Some 2\<rparr>],
     thrds := (thrds kernel_image)[2 := zero_thrd\<lparr>t_status := THREAD_STATUS_READY\<rparr>, 3 := zero_thrd\<lparr>t_status := THREAD_STATUS_READY\<rparr>]\<rparr>"

lemma sched_demo_wf: "kernel_wf sched_demo"
proof (rule kernel_wf_frame [OF kernel_wf_image])
  show "sched_frame (thrds kernel_image) (thrds sched_demo)"
    unfolding sched_demo_def
    by (simp, rule sched_frame_trans [OF sched_frame_upd sched_frame_upd])
      (simp_all add: kernel_image_def nth_list_update)
  show "sched_inv sched_demo"
    by (auto simp: sched_demo_def sched_inv_def kernel_image_def zero_cpu_def core_ok_def NUM_CPUS_def dest!: in_set_updD)
qed (simp_all add: sched_demo_def)

theorem scheduler_round_robin_witness:
  "fst (cpu_thread_scheduler 0 sched_demo) = RunThread 3 \<and>
   ct_current_thread (thread_schedule (snd (cpu_thread_scheduler 0 sched_demo)) ! 0) = Some 3"
proof -
  let ?c = "thread_schedule sched_demo ! 0"
  have c: "ct_num_assigned_threads ?c = 2" "ct_threads ?c = [2, 3, 0, 0, 0, 0, 0, 0]" "ct_current_thread ?c = Some 2"
      "t_status (thrds sched_demo ! 3) = THREAD_STATUS_READY" "length (thread_schedule sched_demo) = 4"
    by (simp_all add: sched_demo_def kernel_image_def NUM_CPUS_def)
  have "starts_at ?c p \<Longrightarrow> p = 1" for p
    by (auto simp: starts_at_def c less_2_cases_iff)
  moreover have t: "turn ?c 1 0 = 3" by (simp add: turn_def c)
  moreover have "picked (turn ?c 1) d (thrds sched_demo) ts \<Longrightarrow> d = 0" for d ts
    using t c(4) by (cases d) (auto simp: picked_def thread_due_def)
  moreover have "thread_due (thrds sched_demo ! turn ?c 1 0)" using t c(4) by (simp add: thread_due_def)
  then have "\<not> (\<forall>d < 2. \<not> thread_due (thrds sched_demo ! turn ?c 1 d))" by (metis zero_less_numeral)
  ultimately show ?thesis
    using scheduler_round_robin [OF sched_demo_wf, of 0] c by (fastforce simp: NUM_CPUS_def)
qed

text \<open>
  C21. One run of a thread calls the handler of its oldest pending callback, then, for each of its
  message queues in the order of registration, the queue's handler on the queue's oldest message;
  exactly these are consumed, and the thread then gives the core back.
\<close>

theorem run_thread_delivers:
  assumes "kernel_wf s" "t < 8" "distinct (thrd_queues s t)"
  shows "\<exists>a s'. run_thread log_call cpu t s = Some (a, s') \<and>
    kernel_st.more s' = kernel_st.more s @ due_callback s t @ concat (map (due_msg s) (thrd_queues s t)) \<and>
    cbk_items (thrds s' ! t) = tl (cbk_items (thrds s ! t)) \<and>
    (\<forall>q < 16. channels_of s' ! q = (if q \<in> set (thrd_queues s t) then tl (channels_of s ! q) else channels_of s ! q))"
proof -
  have inv: "kernel_inv s" using assms(1) by (simp add: kernel_wf_def)
  from run_callback_log [OF inv assms(2)] obtain s1 where
    s1: "run_callback log_call t s = Some s1" "kernel_inv s1" "queues s1 = queues s" "all_thrds_ftns s1 = all_thrds_ftns s"
      "length (thrds s1) = length (thrds s)" "thrd_queues s1 t = thrd_queues s t"
      "cbk_items (thrds s1 ! t) = tl (cbk_items (thrds s ! t))" "kernel_st.more s1 = kernel_st.more s @ due_callback s t"
    by metis
  have len: "length (thrds s) = 8" using inv by (simp add: kernel_inv_def)
  have "length (thrd_queues s1 t) \<le> 16"
    using kernel_inv_thrd_ok [OF s1(2) assms(2)] by (simp add: thrd_queues_def thrd_ok_def)
  with run_queues_log [OF s1(2) assms(2), of 0 16] s1(6) assms(3) obtain s2 where
    s2: "run_queues log_call t 0 16 s1 = Some s2" "thrds s2 = thrds s1"
      "kernel_st.more s2 = kernel_st.more s1 @ concat (map (due_msg s1) (thrd_queues s t))"
      "\<forall>q < 16. channels_of s2 ! q = (if q \<in> set (thrd_queues s t) then tl (channels_of s1 ! q) else channels_of s1 ! q)"
    by auto
  have due: "due_msg s1 = due_msg s" "channels_of s1 = channels_of s"
    using s1(3,4) by (simp_all add: due_msg_def channels_of_def fun_eq_iff split: list.split)
  define s3 where "s3 = s2\<lparr>thrds := (thrds s2)[t := (thrds s2 ! t)\<lparr>t_status := THREAD_STATUS_READY\<rparr>]\<rparr>"
  obtain a s4 where s4: "cpu_thread_scheduler cpu s3 = (a, s4)" by fastforce
  note fr = cpu_thread_scheduler_frame [OF s4]
  have "map cbk_items (thrds s4) ! t = map cbk_items (thrds s3) ! t" "length (thrds s4) = length (thrds s3)"
    using fr by (auto simp: sched_frame_def)
  then have items: "cbk_items (thrds s4 ! t) = cbk_items (thrds s1 ! t)"
    using assms(2) len s1(5) s2(2) by (simp add: s3_def)
  have "run_thread log_call cpu t s = Some (a, s4)"
    using s1(1) s2(1) s4 by (simp add: run_thread_def s3_def)
  moreover have "kernel_st.more s4 = kernel_st.more s2" "channels_of s4 = channels_of s2"
    using fr by (simp_all add: s3_def channels_of_def)
  ultimately show ?thesis using items s1(7,8) s2(3,4) due by auto
qed

lemma kernel_wf_extend: "kernel_wf s \<Longrightarrow> kernel_wf (kernel_st.extend s x)"
  by (simp add: kernel_wf_def kernel_inv_def sched_inv_def cbk_affine_def kernel_st.extend_def)

definition deliver_demo0 :: kernel_st where
  "deliver_demo0 = sched_demo\<lparr>thrds := (thrds sched_demo)[2 := (thrds sched_demo ! 2)
     \<lparr>t_msg_queues := 5 # replicate 15 0, t_num_of_queues := 1\<rparr>]\<rparr>"

definition deliver_demo :: "call_log kernel_st_scheme" where
  "deliver_demo = kernel_st.extend (snd (sys_push_obj_to_queue 5 WBC 7 deliver_demo0)) []"

lemma deliver_demo0_wf: "kernel_wf deliver_demo0"
proof -
  have ok: "thrd_ok (thrds sched_demo ! 2)"
    using sched_demo_wf by (auto simp: kernel_wf_def intro: kernel_inv_thrd_ok)
  have "thrd_ok ((thrds sched_demo ! 2)\<lparr>t_msg_queues := 5 # replicate 15 0, t_num_of_queues := 1\<rparr>)"
    using ok by (auto simp: thrd_ok_def cbk_inv_def dest!: in_set_updD)
  then have "kernel_inv deliver_demo0"
    unfolding deliver_demo0_def using sched_demo_wf by (intro kernel_inv_upd_thrd) (simp_all add: kernel_wf_def)
  moreover have "cbk_affine deliver_demo0"
    unfolding deliver_demo0_def using sched_demo_wf
    by (intro cbk_affine_upd) (simp_all add: kernel_wf_def cbk_items_def)
  ultimately show ?thesis using sched_demo_wf by (simp add: kernel_wf_def deliver_demo0_def)
qed

theorem run_thread_delivers_witness:
  "\<exists>a s'. run_thread log_call 0 2 deliver_demo = Some (a, s') \<and> kernel_st.more s' = [(no_ftn, WBC, 7)]"
proof -
  let ?p = "sys_push_obj_to_queue 5 WBC 7 deliver_demo0"
  have inv: "kernel_inv deliver_demo0" using deliver_demo0_wf by (simp add: kernel_wf_def)
  have wf: "kernel_wf deliver_demo"
    unfolding deliver_demo_def by (rule kernel_wf_extend [OF push_pop_wf(1) [OF deliver_demo0_wf]]) simp
  have ch0: "channels_of deliver_demo0 = replicate 16 []"
    using channels_of_image by (simp add: channels_of_def deliver_demo0_def sched_demo_def)
  have ch: "channels_of (snd ?p) ! 5 = [(7, WBC)]"
    using push_channels [OF inv, of 5 WBC 7 "fst ?p" "snd ?p"] ch0 by (simp add: MSG_Q_SIZE_def)
  have th: "thrd_queues deliver_demo 2 = [5]" and cb: "due_callback deliver_demo 2 = []"
    by (simp_all add: thrd_queues_def due_callback_def cbk_items_def kernel_st.extend_def sched_demo_def deliver_demo_def
        deliver_demo0_def kernel_image_def zero_thrd_def ring_list_def ring_len_def MSG_Q_SIZE_def
        sys_push_obj_to_queue_def push_obj_to_queue_def case_prod_beta)
  have "tf_ftn_ptr (all_thrds_ftns deliver_demo ! oq_cbk_ftn_id (queues deliver_demo ! 5)) = no_ftn"
    by (simp add: kernel_st.extend_def sched_demo_def deliver_demo_def deliver_demo0_def kernel_image_def
        sys_push_obj_to_queue_def push_obj_to_queue_def case_prod_beta zero_obj_queue_def zero_ftn_def)
  with ch have "due_msg deliver_demo 5 = [(no_ftn, WBC, 7)]"
    by (simp add: due_msg_def channels_of_def deliver_demo_def kernel_st.extend_def)
  moreover have "kernel_st.more deliver_demo = []" by (simp add: deliver_demo_def kernel_st.extend_def)
  ultimately show ?thesis using run_thread_delivers [OF wf, of 2 0] th cb by auto
qed

text \<open>
  The translation table maps each of the 4096 sections of 1 MB to itself: device memory below
  section 2048 and from section 2560 on, cacheable RAM from 2048 to 2263, uncacheable RAM from
  2264 to 2559; the allocator's region lies in the uncacheable sections.
\<close>

theorem mmu_flat_map:
  assumes "length tbl = 4096" "i < 4096" "make_mmu_ttb tbl s = (tbl', s')"
  shows "tbl' ! i = push_bit 20 (of_nat i) OR section_attr i \<and>
    uncached_ram_start s' = 2264 * 2 ^ 20 \<and> uncacheable_next_ptr s' = uncached_ram_start s' \<and>
    uncached_ram_end s' = 2559 * 2 ^ 20"
  using assms
  by (auto simp: make_mmu_ttb_def Let_def ttb_fill_nth section_attr_def)

theorem mmu_flat_map_witness:
  "fst (make_mmu_ttb (replicate 4096 0) kernel_image) ! 2264 = 0x8D800000 OR UNCACHEABLE_MEM"
  using mmu_flat_map [of "replicate 4096 0" 2264 kernel_image, OF _ _ prod.collapse [symmetric]]
  by (simp add: section_attr_def)

text \<open>
  As long as no single request exceeds 0x60000000 bytes, the blocks that a sequence of
  allocations returns lie inside the uncacheable region and are pairwise disjoint, in the order of
  the requests.
\<close>

theorem uncacheable_blocks_disjoint:
  assumes "heap_ok s" "\<forall>n \<in> set ns. n \<le> 0x60000000" "alloc_run ns s = Some (ps, s')"
  shows "length ps = length ns \<and> (\<forall>i < length ns. uncached_ram_start s \<le> ps ! i \<and> ps ! i + ns ! i \<le> uncached_ram_end s) \<and>
    (\<forall>j < length ns. \<forall>i < j. ps ! i + ns ! i \<le> ps ! j)"
  using alloc_run_blocks [OF assms] assms(1) by (auto simp: heap_ok_def intro: order_trans)

theorem uncacheable_blocks_disjoint_witness:
  "\<exists>ps s'. alloc_run [64, 4096] (snd (make_mmu_ttb [] kernel_image)) = Some (ps, s') \<and> ps ! 0 + 64 \<le> ps ! 1"
proof -
  let ?s = "snd (make_mmu_ttb [] kernel_image)"
  have h: "heap_ok ?s" by (simp add: heap_ok_def make_mmu_ttb_def Let_def)
  have "\<exists>r. alloc_run [64, 4096] ?s = Some r"
    by (simp add: get_uncacheable_ram_def make_mmu_ttb_def Let_def kernel_image_def)
  then obtain ps s' where r: "alloc_run [64, 4096] ?s = Some (ps, s')" by auto
  from uncacheable_blocks_disjoint [OF h _ r] have "\<forall>j < length [64, 4096 :: nat]. \<forall>i < j. ps ! i + [64, 4096] ! i \<le> ps ! j"
    by simp
  from this [rule_format, of 1 0] have "ps ! 0 + 64 \<le> ps ! 1" by simp
  with r show ?thesis by blast
qed

text \<open>
  The bound on the request size is needed: pointers wrap, so a request of 2^32 - 64 bytes passes
  the check and moves the allocation pointer back over memory that was already handed out.
\<close>

lemma huge_request_rewinds:
  "\<exists>p s'. get_uncacheable_ram (2 ^ 32 - 64) (kernel_image\<lparr>uncacheable_next_ptr := 2264 * 2 ^ 20 + 64,
      uncached_ram_end := 2559 * 2 ^ 20\<rparr>) = Some (p, s') \<and> uncacheable_next_ptr s' < p"
  by (simp add: get_uncacheable_ram_def Let_def)

text \<open>
  C39. In every interleaving of the four cores, \<open>release_sec_cpus\<close> returns only after all three
  secondary cores have left their halt loop, and no secondary core leaves it before the primary
  core has published the translation table.
\<close>

theorem secondary_cores_released:
  assumes "smp_step\<^sup>*\<^sup>* smp_init s" "c \<in> SEC_CPUS"
  shows "(primary_returned s \<longrightarrow> halt_pc s c = Returned) \<and> (halt_pc s c \<noteq> Spinning \<longrightarrow> c \<le> released s)"
  using smp_inv_reachable [OF assms(1)] assms(2) by (auto simp: smp_inv_def sec_ok_def split: if_splits)

theorem secondary_cores_released_witness:
  "\<exists>s. smp_step\<^sup>*\<^sup>* smp_init s \<and> halt_pc s 1 = Leaving \<and> 1 \<le> released s"
proof -
  let ?s1 = "smp_init\<lparr>sec_cpu_halt_indicator := (sec_cpu_halt_indicator smp_init)(1 := MMU_TTB_READY), released := 1\<rparr>"
  let ?s2 = "?s1\<lparr>halt_pc := (halt_pc ?s1)(1 := Leaving)\<rparr>"
  have "smp_step smp_init ?s1" using smp_step.release [of smp_init] by (simp add: smp_init_def)
  moreover have "smp_step ?s1 ?s2" by (rule smp_step.leave_loop) (simp_all add: SEC_CPUS_def smp_init_def)
  ultimately have "smp_step\<^sup>*\<^sup>* smp_init ?s2" by (meson converse_rtranclp_into_rtranclp rtranclp.rtrancl_refl)
  moreover from secondary_cores_released [OF this, of 1] have "1 \<le> released ?s2" by (simp add: SEC_CPUS_def)
  ultimately show ?thesis by (intro exI [of _ ?s2]) simp
qed

end
