(* ===== verification/Nvme_Types.thy ===== *)
theory Nvme_Types
  imports Containers
begin

text \<open>
  The command formats of \<^verbatim>\<open>include/nvmeDataStructures.h\<close>: the 64-byte submission command with the
  views the driver casts it to, the 16-byte completion command, their layout in memory, and the
  bit fields of the controller registers. A packed C structure is a record of its fields; a cast
  between two command structures is a function on the shared record, because all of them lay
  their fields over the same sixteen double words.
\<close>

unbundle bit_operations_syntax

section \<open>Little-endian access\<close>

definition load16 :: "mem \<Rightarrow> nat \<Rightarrow> u16" where
  "load16 m a = ucast (m a) OR push_bit 8 (ucast (m (a + 1)))"

definition load64 :: "mem \<Rightarrow> nat \<Rightarrow> u64" where
  "load64 m a = ucast (load32 m a) OR push_bit 32 (ucast (load32 m (a + 4)))"

definition store16 :: "mem \<Rightarrow> nat \<Rightarrow> u16 \<Rightarrow> mem" where
  "store16 m a w = m(a := ucast w, a + 1 := ucast (drop_bit 8 w))"

definition store64 :: "mem \<Rightarrow> nat \<Rightarrow> u64 \<Rightarrow> mem" where
  "store64 m a w = store32 (store32 m a (ucast w)) (a + 4) (ucast (drop_bit 32 w))"

text \<open>The low and the high half of a double word (\<open>words.w0\<close>, \<open>words.w1\<close>).\<close>

definition lo16 :: "u32 \<Rightarrow> u16" where "lo16 w = ucast w"
definition hi16 :: "u32 \<Rightarrow> u16" where "hi16 w = ucast (drop_bit 16 w)"

section \<open>Submission commands\<close>

record NvmeSCmd =
  opcode :: u8
  fuse :: u8
  cid :: u16
  nsid :: u32
  resv1 :: u64
  mptr :: u64
  prp1 :: u64
  prp2 :: u64
  cdw10 :: u32
  cdw11 :: u32
  cdw12 :: u32
  cdw13 :: u32
  cdw14 :: u32
  cdw15 :: u32

definition zero_scmd :: NvmeSCmd where
  "zero_scmd = \<lparr>opcode = 0, fuse = 0, cid = 0, nsid = 0, resv1 = 0, mptr = 0, prp1 = 0, prp2 = 0,
     cdw10 = 0, cdw11 = 0, cdw12 = 0, cdw13 = 0, cdw14 = 0, cdw15 = 0\<rparr>"

definition load_scmd :: "mem \<Rightarrow> nat \<Rightarrow> NvmeSCmd" where
  "load_scmd m a = \<lparr>opcode = m a, fuse = m (a + 1), cid = load16 m (a + 2), nsid = load32 m (a + 4),
     resv1 = load64 m (a + 8), mptr = load64 m (a + 16), prp1 = load64 m (a + 24), prp2 = load64 m (a + 32),
     cdw10 = load32 m (a + 40), cdw11 = load32 m (a + 44), cdw12 = load32 m (a + 48),
     cdw13 = load32 m (a + 52), cdw14 = load32 m (a + 56), cdw15 = load32 m (a + 60)\<rparr>"

definition store_scmd :: "mem \<Rightarrow> nat \<Rightarrow> NvmeSCmd \<Rightarrow> mem" where
  "store_scmd m a c =
     (let m = m(a := opcode c, a + 1 := fuse c); m = store16 m (a + 2) (cid c); m = store32 m (a + 4) (nsid c);
          m = store64 m (a + 8) (resv1 c); m = store64 m (a + 16) (mptr c);
          m = store64 m (a + 24) (prp1 c); m = store64 m (a + 32) (prp2 c);
          m = store32 m (a + 40) (cdw10 c); m = store32 m (a + 44) (cdw11 c); m = store32 m (a + 48) (cdw12 c);
          m = store32 m (a + 52) (cdw13 c); m = store32 m (a + 56) (cdw14 c)
      in store32 m (a + 60) (cdw15 c))"

text \<open>\<open>NvmeIOSCmd\<close>: read, write and flush.\<close>

definition io_slba :: "NvmeSCmd \<Rightarrow> u64" where
  "io_slba c = ucast (cdw10 c) OR push_bit 32 (ucast (cdw11 c))"
definition io_nlbs :: "NvmeSCmd \<Rightarrow> u16" where "io_nlbs c = lo16 (cdw12 c)"

text \<open>\<open>NvmeDsmSCmd\<close>: data set management.\<close>

definition dsm_nr :: "NvmeSCmd \<Rightarrow> u8" where "dsm_nr c = ucast (cdw10 c)"
definition dsm_ad :: "NvmeSCmd \<Rightarrow> bool" where "dsm_ad c = bit (cdw11 c) 2"

text \<open>\<open>NvmeIdentifyCmd\<close>, \<open>NvmeSetFeatureCmd\<close>, \<open>NvmeCreateSQCmd\<close>, \<open>NvmeCreateCQCmd\<close>.\<close>

definition id_cns :: "NvmeSCmd \<Rightarrow> u32" where "id_cns c = cdw10 c AND 3"
definition feat_fid :: "NvmeSCmd \<Rightarrow> u32" where "feat_fid c = cdw10 c AND 0xff"
definition feat_nsq :: "NvmeSCmd \<Rightarrow> u16" where "feat_nsq c = lo16 (cdw11 c)"
definition feat_ncq :: "NvmeSCmd \<Rightarrow> u16" where "feat_ncq c = hi16 (cdw11 c)"
definition csq_sqid :: "NvmeSCmd \<Rightarrow> u16" where "csq_sqid c = lo16 (cdw10 c)"
definition csq_size :: "NvmeSCmd \<Rightarrow> u16" where "csq_size c = hi16 (cdw10 c)"
definition csq_pc :: "NvmeSCmd \<Rightarrow> bool" where "csq_pc c = bit (cdw11 c) 0"
definition csq_cqid :: "NvmeSCmd \<Rightarrow> u16" where "csq_cqid c = hi16 (cdw11 c)"
definition ccq_cqid :: "NvmeSCmd \<Rightarrow> u16" where "ccq_cqid c = lo16 (cdw10 c)"
definition ccq_size :: "NvmeSCmd \<Rightarrow> u16" where "ccq_size c = hi16 (cdw10 c)"
definition ccq_pc :: "NvmeSCmd \<Rightarrow> bool" where "ccq_pc c = bit (cdw11 c) 0"
definition ccq_ien :: "NvmeSCmd \<Rightarrow> bool" where "ccq_ien c = bit (cdw11 c) 1"
definition ccq_ivector :: "NvmeSCmd \<Rightarrow> u16" where "ccq_ivector c = hi16 (cdw11 c)"

text \<open>\<open>NvmefwdlCmd\<close> and \<open>NvmefwActCmd\<close>: firmware download and activation.\<close>

definition fw_num_dwords :: "NvmeSCmd \<Rightarrow> u32" where "fw_num_dwords c = cdw10 c"
definition fw_dword_off :: "NvmeSCmd \<Rightarrow> u32" where "fw_dword_off c = cdw11 c"
definition fw_fs :: "NvmeSCmd \<Rightarrow> u32" where "fw_fs c = cdw10 c AND 7"
definition fw_aa :: "NvmeSCmd \<Rightarrow> u32" where "fw_aa c = drop_bit 3 (cdw10 c) AND 3"

section \<open>Completion commands\<close>

record NvmeCCmd =
  ccmd_cdw0 :: u32
  ccmd_rsvd1 :: u32
  ccmd_sqhd :: u16
  ccmd_sqid :: u16
  ccmd_cid :: u16
  ccmd_status_p :: u16

definition load_ccmd :: "mem \<Rightarrow> nat \<Rightarrow> NvmeCCmd" where
  "load_ccmd m a = \<lparr>ccmd_cdw0 = load32 m a, ccmd_rsvd1 = load32 m (a + 4), ccmd_sqhd = load16 m (a + 8),
     ccmd_sqid = load16 m (a + 10), ccmd_cid = load16 m (a + 12), ccmd_status_p = load16 m (a + 14)\<rparr>"

definition store_ccmd :: "mem \<Rightarrow> nat \<Rightarrow> NvmeCCmd \<Rightarrow> mem" where
  "store_ccmd m a c =
     store16 (store16 (store16 (store16 (store32 (store32 m a (ccmd_cdw0 c)) (a + 4) (ccmd_rsvd1 c))
       (a + 8) (ccmd_sqhd c)) (a + 10) (ccmd_sqid c)) (a + 12) (ccmd_cid c)) (a + 14) (ccmd_status_p c)"

section \<open>Memory lemmas\<close>

lemma load32_store32_same [simp]: "load32 (store32 m a w) a = w"
proof (rule bit_word_eqI)
  fix n :: nat assume "n < LENGTH(32)"
  then consider "n < 8" | "8 \<le> n" "n < 16" | "16 \<le> n" "n < 24" | "24 \<le> n" "n < 32"
    by fastforce
  then show "bit (load32 (store32 m a w) a) n = bit w n"
    by cases (simp_all add: load32_def store32_def byte_of_def bit_simps less_diff_conv2)
qed

lemma load16_store16_same [simp]: "load16 (store16 m a w) a = w"
  by (rule bit_word_eqI) (auto simp: load16_def store16_def bit_simps)

text \<open>Disjoint accesses do not see each other.\<close>

lemma load32_cong:
  assumes "\<And>i. i < 4 \<Longrightarrow> m' (a + i) = m (a + i)"
  shows "load32 m' a = load32 m a"
  using assms [of 0] assms [of 1] assms [of 2] assms [of 3] by (simp add: load32_def)

lemma load16_cong:
  assumes "\<And>i. i < 2 \<Longrightarrow> m' (a + i) = m (a + i)"
  shows "load16 m' a = load16 m a"
  using assms [of 0] assms [of 1] by (simp add: load16_def)

lemma load_store_other [simp]:
  "a + 4 \<le> b \<or> b + 4 \<le> a \<Longrightarrow> load32 (store32 m b w) a = load32 m a"
  "a + 4 \<le> b \<or> b + 2 \<le> a \<Longrightarrow> load32 (store16 m b v) a = load32 m a"
  "a + 2 \<le> b \<or> b + 4 \<le> a \<Longrightarrow> load16 (store32 m b w) a = load16 m a"
  "a + 2 \<le> b \<or> b + 2 \<le> a \<Longrightarrow> load16 (store16 m b v) a = load16 m a"
  by (rule load32_cong load16_cong; auto simp: store32_apply store16_def)+

lemma store_upd_other [simp]:
  "x < a \<or> a + 4 \<le> x \<Longrightarrow> store32 m a w x = m x" "x < a \<or> a + 2 \<le> x \<Longrightarrow> store16 m a v x = m x"
  by (auto simp: store32_apply store16_def)

lemma load64_store64_same [simp]: "load64 (store64 m a w) a = w"
proof (rule bit_word_eqI)
  fix n :: nat assume "n < LENGTH(64)"
  then show "bit (load64 (store64 m a w) a) n = bit w n"
    by (cases "n < 32") (auto simp: load64_def store64_def bit_simps)
qed

lemma load64_other [simp]:
  "a + 8 \<le> b \<or> b + 4 \<le> a \<Longrightarrow> load64 (store32 m b w) a = load64 m a"
  "a + 8 \<le> b \<or> b + 8 \<le> a \<Longrightarrow> load64 (store64 m b x) a = load64 m a"
  by (auto simp: load64_def store64_def)

lemma load_store64_other [simp]:
  "a + 4 \<le> b \<or> b + 8 \<le> a \<Longrightarrow> load32 (store64 m b x) a = load32 m a"
  "a + 2 \<le> b \<or> b + 8 \<le> a \<Longrightarrow> load16 (store64 m b x) a = load16 m a"
  "y < b \<or> b + 8 \<le> y \<Longrightarrow> store64 m b x y = m y"
  by (auto simp: store64_def)

lemma load_scmd_store: "load_scmd (store_scmd m a c) a = c"
  by (simp add: load_scmd_def store_scmd_def Let_def)

lemma load_ccmd_store: "load_ccmd (store_ccmd m a c) a = c"
  by (simp add: load_ccmd_def store_ccmd_def)

lemma store_scmd_other: "x < a \<or> a + 64 \<le> x \<Longrightarrow> store_scmd m a c x = m x"
  by (auto simp: store_scmd_def Let_def)

lemma store_ccmd_other: "x < a \<or> a + 16 \<le> x \<Longrightarrow> store_ccmd m a c x = m x"
  by (auto simp: store_ccmd_def)

end
