(* ===== verification/Req_Alloc.thy ===== *)
theory Req_Alloc
  imports Kernel Nvme_Types
begin

text \<open>
  Request objects (\<^verbatim>\<open>global.h\<close>) and their allocator (\<^verbatim>\<open>issd_kernel_mem_alloc.c\<close>): three pools of
  statically allocated objects, each with a circular queue of the free ones. The objects of the
  third pool are 1 KB blocks used for several request structures; they are modelled by one record
  with the fields of all of them.
\<close>

section \<open>Request objects\<close>

definition MDTS_PAGES :: nat where "MDTS_PAGES = 16"
definition INTERNAL_IO_REQ_QUEUE :: nat where "INTERNAL_IO_REQ_QUEUE = 128"
definition R_SIZE :: nat where "R_SIZE = INTERNAL_IO_REQ_QUEUE * 2"
definition W_SIZE :: nat where "W_SIZE = INTERNAL_IO_REQ_QUEUE * 2"
definition O_SIZE :: nat where "O_SIZE = 128"

definition ADMIN_REQUEST :: u32 where "ADMIN_REQUEST = 1"
definition READ_IO_REQUEST :: u32 where "READ_IO_REQUEST = 2"
definition WRITE_IO_REQUEST :: u32 where "WRITE_IO_REQUEST = 3"
definition FLUSH_IO_REQUEST :: u32 where "FLUSH_IO_REQUEST = 4"
definition TRIM_IO_REQUEST :: u32 where "TRIM_IO_REQUEST = 5"
definition ISP_IO_REQUEST :: u32 where "ISP_IO_REQUEST = 6"
definition WBC_FLUSH_REQUEST :: u32 where "WBC_FLUSH_REQUEST = 7"
definition ISP_READ_PAGES_REQUEST :: u32 where "ISP_READ_PAGES_REQUEST = 10"
definition ISP_PROGRAM_PAGES_REQUEST :: u32 where "ISP_PROGRAM_PAGES_REQUEST = 11"
definition ISP_HOST_DMA_REQUEST :: u32 where "ISP_HOST_DMA_REQUEST = 13"

definition REQ_STAGE_FREE :: u32 where "REQ_STAGE_FREE = 1"
definition REQ_STAGE_INUSE :: u32 where "REQ_STAGE_INUSE = 2"
definition REQ_STAGE_FTL :: u32 where "REQ_STAGE_FTL = 3"
definition REQ_STAGE_READING_FLASH :: u32 where "REQ_STAGE_READING_FLASH = 4"
definition REQ_STAGE_PROGRAMMING_FLASH :: u32 where "REQ_STAGE_PROGRAMMING_FLASH = 5"
definition REQ_STAGE_DMA :: u32 where "REQ_STAGE_DMA = 6"
definition PENDING_CCMD_POST :: u32 where "PENDING_CCMD_POST = 7"
definition REQ_COMPLETED :: u32 where "REQ_COMPLETED = 8"

record dma_op_t =
  ssd_addr :: nat
  op_len :: u32
  host_p_addr :: u64
  op_dma_complete :: bool

record dma_t =
  data_size :: u32
  n_ops :: u32
  host_dma_complete :: bool
  buffer_addr :: nat
  c_op_smem_pg :: u32
  c_op_len :: u32
  dma_list :: "dma_op_t list"

record read_page_meta_t =
  rp_lpn :: u32
  lba_offset_start :: u32
  lba_offset_end :: u32
  rp_ppa :: u64
  rp_nand_io_complete :: bool

record req_t =
  rq_type :: u32
  rq_index :: u32
  req_stage :: u32
  sqid :: u32
  cqid :: u32
  sqe :: u32
  status :: u16
  ccmd_dw0 :: u32
  scmd :: NvmeSCmd
  scmd_entry :: u32
  dma :: dma_t
  nand_io_complete :: bool
  read_page_meta :: "read_page_meta_t list"
  ctrl_cmd_index :: u32
  start_lpn :: u32
  num_of_lpn :: u32
  nand_ssd_addr :: nat
  cbk_ftn_id :: u32
  start_mem_page :: u32
  tx_size :: u32
  tx_type :: u32
  request_code :: u32
  exec_thrd :: nat
  transfered_size :: u32
  isp_status :: u32

definition zero_dma_op :: dma_op_t where
  "zero_dma_op = \<lparr>ssd_addr = 0, op_len = 0, host_p_addr = 0, op_dma_complete = False\<rparr>"

definition zero_dma :: dma_t where
  "zero_dma = \<lparr>data_size = 0, n_ops = 0, host_dma_complete = False, buffer_addr = 0, c_op_smem_pg = 0,
     c_op_len = 0, dma_list = replicate MDTS_PAGES zero_dma_op\<rparr>"

definition zero_read_page_meta :: read_page_meta_t where
  "zero_read_page_meta = \<lparr>rp_lpn = 0, lba_offset_start = 0, lba_offset_end = 0, rp_ppa = 0, rp_nand_io_complete = False\<rparr>"

definition zero_req :: req_t where
  "zero_req = \<lparr>rq_type = 0, rq_index = 0, req_stage = 0, sqid = 0, cqid = 0, sqe = 0, status = 0, ccmd_dw0 = 0,
     scmd = zero_scmd, scmd_entry = 0, dma = zero_dma, nand_io_complete = False,
     read_page_meta = replicate MDTS_PAGES zero_read_page_meta, ctrl_cmd_index = 0, start_lpn = 0, num_of_lpn = 0,
     nand_ssd_addr = 0, cbk_ftn_id = 0, start_mem_page = 0, tx_size = 0, tx_type = 0, request_code = 0, exec_thrd = 0,
     transfered_size = 0, isp_status = 0\<rparr>"

record req_st = kernel_st +
  r_req :: "req_t list"
  free_r_req_objs :: "obj_ptr queue_t"
  w_req :: "req_t list"
  free_w_req_objs :: "obj_ptr queue_t"
  other_req_alloc :: "req_t list"
  free_req_objs :: "obj_ptr queue_t"

section \<open>Access through a pointer\<close>

definition get_req :: "obj_ptr \<Rightarrow> 'a req_st_scheme \<Rightarrow> req_t option" where
  "get_req p s = (case p of
       R_REQ i \<Rightarrow> if i < R_SIZE then Some (r_req s ! i) else None
     | W_REQ i \<Rightarrow> if i < W_SIZE then Some (w_req s ! i) else None
     | O_REQ i \<Rightarrow> if i < O_SIZE then Some (other_req_alloc s ! i) else None
     | _ \<Rightarrow> None)"

definition upd_req :: "obj_ptr \<Rightarrow> (req_t \<Rightarrow> req_t) \<Rightarrow> 'a req_st_scheme \<Rightarrow> 'a req_st_scheme" where
  "upd_req p f s = (case p of
       R_REQ i \<Rightarrow> s\<lparr>r_req := (r_req s)[i := f (r_req s ! i)]\<rparr>
     | W_REQ i \<Rightarrow> s\<lparr>w_req := (w_req s)[i := f (w_req s ! i)]\<rparr>
     | O_REQ i \<Rightarrow> s\<lparr>other_req_alloc := (other_req_alloc s)[i := f (other_req_alloc s ! i)]\<rparr>
     | _ \<Rightarrow> s)"

section \<open>The allocator\<close>

text \<open>
  One loop of \<open>init_req_obj\<close>: objects are queued until the queue refuses one. \<open>i\<close> is already
  incremented when the body runs, so object \<open>i\<close> gets index \<open>i + 1\<close>.
\<close>

partial_function (option) fill_free ::
  "(nat \<Rightarrow> obj_ptr) \<Rightarrow> (req_t \<Rightarrow> req_t) \<Rightarrow> nat \<Rightarrow> obj_ptr queue_t \<Rightarrow> req_t list \<Rightarrow> (obj_ptr queue_t \<times> req_t list) option" where
  "fill_free ptr set_type i q objs =
     (case enQueue q (ptr i) of
        (None, q') \<Rightarrow> Some (q', objs)
      | (Some _, q') \<Rightarrow> fill_free ptr set_type (i + 1) q'
          (objs[i := (set_type (objs ! i))\<lparr>rq_index := of_nat (i + 1), req_stage := REQ_STAGE_FREE\<rparr>]))"

definition init_req_obj :: "'a req_st_scheme \<Rightarrow> 'a req_st_scheme option" where
  "init_req_obj s =
     do {
       (qr, rs) \<leftarrow> fill_free R_REQ (\<lambda>r. r\<lparr>rq_type := READ_IO_REQUEST\<rparr>) 0 (free_r_req_objs s) (r_req s);
       (qw, ws) \<leftarrow> fill_free W_REQ (\<lambda>r. r\<lparr>rq_type := WRITE_IO_REQUEST\<rparr>) 0 (free_w_req_objs s) (w_req s);
       (qo, os) \<leftarrow> fill_free O_REQ (\<lambda>r. r) 0 (free_req_objs s) (other_req_alloc s);
       Some (s\<lparr>r_req := rs, free_r_req_objs := qr, w_req := ws, free_w_req_objs := qw,
               other_req_alloc := os, free_req_objs := qo\<rparr>)
     }"

text \<open>The request types served from the third pool.\<close>

definition other_req_type :: "u32 \<Rightarrow> bool" where
  "other_req_type t \<longleftrightarrow> t \<in> {ADMIN_REQUEST, FLUSH_IO_REQUEST, ISP_IO_REQUEST, ISP_READ_PAGES_REQUEST,
     ISP_PROGRAM_PAGES_REQUEST, ISP_HOST_DMA_REQUEST, TRIM_IO_REQUEST}"

text \<open>An empty pool is only reported; the store through the null pointer that follows is \<open>None\<close>.\<close>

definition sys_malloc_req_obj :: "u32 \<Rightarrow> 'a req_st_scheme \<Rightarrow> (obj_ptr \<times> 'a req_st_scheme) option" where
  "sys_malloc_req_obj req_type s =
     (if req_type = READ_IO_REQUEST then
        (case deQueue (free_r_req_objs s) of
           (None, _) \<Rightarrow> None
         | (Some p, q) \<Rightarrow> Some (p, upd_req p (\<lambda>r. r\<lparr>req_stage := REQ_STAGE_INUSE\<rparr>) (s\<lparr>free_r_req_objs := q\<rparr>)))
      else if req_type = WRITE_IO_REQUEST then
        (case deQueue (free_w_req_objs s) of
           (None, _) \<Rightarrow> None
         | (Some p, q) \<Rightarrow> Some (p, upd_req p (\<lambda>r. r\<lparr>req_stage := REQ_STAGE_INUSE\<rparr>) (s\<lparr>free_w_req_objs := q\<rparr>)))
      else if other_req_type req_type then
        (case deQueue (free_req_objs s) of
           (None, _) \<Rightarrow> None
         | (Some p, q) \<Rightarrow> Some (p, upd_req p (\<lambda>r. r\<lparr>rq_type := req_type, req_stage := REQ_STAGE_INUSE\<rparr>)
                                   (s\<lparr>free_req_objs := q\<rparr>)))
      else Some (NULL, s))"

definition sys_free_req_obj :: "obj_ptr \<Rightarrow> 'a req_st_scheme \<Rightarrow> 'a req_st_scheme option" where
  "sys_free_req_obj req_obj s =
     (if req_obj = NULL then Some s
      else case get_req req_obj s of
        None \<Rightarrow> None
      | Some req \<Rightarrow>
          let stage_free = upd_req req_obj (\<lambda>r. r\<lparr>req_stage := REQ_STAGE_FREE\<rparr>) in
          if rq_type req = READ_IO_REQUEST then
            Some (stage_free (s\<lparr>free_r_req_objs := snd (enQueue (free_r_req_objs s) req_obj)\<rparr>))
          else if rq_type req = WRITE_IO_REQUEST then
            Some (stage_free (s\<lparr>free_w_req_objs := snd (enQueue (free_w_req_objs s) req_obj)\<rparr>))
          else if other_req_type (rq_type req) then
            Some (stage_free (s\<lparr>free_req_objs := snd (enQueue (free_req_objs s) req_obj)\<rparr>))
          else Some s)"

text \<open>\<open>sys_find_io_request\<close>: the first object, in pool order, with these identifiers.\<close>

definition has_ids :: "u32 \<Rightarrow> u32 \<Rightarrow> req_t \<Rightarrow> bool" where
  "has_ids sq c r \<longleftrightarrow> sqid r = sq \<and> ucast (cid (scmd r)) = c"

definition io_typed :: "req_t \<Rightarrow> bool" where
  "io_typed r \<longleftrightarrow> rq_type r \<in> {FLUSH_IO_REQUEST, ISP_IO_REQUEST, TRIM_IO_REQUEST}"

fun first_index :: "(req_t \<Rightarrow> bool) \<Rightarrow> nat \<Rightarrow> req_t list \<Rightarrow> nat option" where
  "first_index P i [] = None"
| "first_index P i (r # rs) = (if P r then Some i else first_index P (i + 1) rs)"

definition sys_find_io_request :: "u32 \<Rightarrow> u32 \<Rightarrow> 'a req_st_scheme \<Rightarrow> obj_ptr" where
  "sys_find_io_request sq c s =
     (case first_index (has_ids sq c) 0 (r_req s) of
        Some i \<Rightarrow> R_REQ i
      | None \<Rightarrow> (case first_index (has_ids sq c) 0 (w_req s) of
          Some i \<Rightarrow> W_REQ i
        | None \<Rightarrow> (case first_index (\<lambda>r. io_typed r \<and> has_ids sq c r) 0 (other_req_alloc s) of
            Some i \<Rightarrow> O_REQ i
          | None \<Rightarrow> NULL)))"

section \<open>One pool\<close>

text \<open>The free queue holds each free object once; the last object of the array is never used.\<close>

definition pool_free :: "(nat \<Rightarrow> obj_ptr) \<Rightarrow> req_t list \<Rightarrow> obj_ptr set" where
  "pool_free C objs = {C i |i. i < length objs - 1 \<and> req_stage (objs ! i) = REQ_STAGE_FREE}"

definition pool_live :: "(nat \<Rightarrow> obj_ptr) \<Rightarrow> req_t list \<Rightarrow> obj_ptr set" where
  "pool_live C objs = {C i |i. i < length objs - 1 \<and> req_stage (objs ! i) \<noteq> REQ_STAGE_FREE}"

definition pool_ok :: "(nat \<Rightarrow> obj_ptr) \<Rightarrow> nat \<Rightarrow> obj_ptr queue_t \<Rightarrow> req_t list \<Rightarrow> bool" where
  "pool_ok C n q objs \<longleftrightarrow> queue_inv q \<and> q_size q = n \<and> length objs = n \<and>
     distinct (queue_items q) \<and> set (queue_items q) = pool_free C objs"

lemma stage_codes [simp]: "REQ_STAGE_INUSE \<noteq> REQ_STAGE_FREE" "REQ_STAGE_FREE \<noteq> REQ_STAGE_INUSE" "REQ_STAGE_FREE \<noteq> 0" "0 \<noteq> REQ_STAGE_FREE"
  by (simp_all add: REQ_STAGE_INUSE_def REQ_STAGE_FREE_def)

lemma pool_take:
  assumes "pool_ok C n q objs" "inj C" "deQueue q = (Some p, q')"
  obtains i where "p = C i" "i < n - 1" "req_stage (objs ! i) = REQ_STAGE_FREE"
    "\<And>r. req_stage r \<noteq> REQ_STAGE_FREE \<Longrightarrow> pool_ok C n q' (objs[i := r])"
proof -
  have inv: "queue_inv q" and len: "length objs = n" and d: "distinct (queue_items q)"
    and set: "set (queue_items q) = pool_free C objs"
    using assms(1) by (auto simp: pool_ok_def)
  have items: "queue_items q = p # queue_items q'" using deQueue_items [OF inv] assms(3) by simp
  with set obtain i where i: "p = C i" "i < n - 1" "req_stage (objs ! i) = REQ_STAGE_FREE"
    using len by (auto simp: pool_free_def)
  have "pool_ok C n q' (objs[i := r])" if "req_stage r \<noteq> REQ_STAGE_FREE" for r
  proof -
    have "set (queue_items q') = pool_free C objs - {C i}" using items set d i(1) by auto
    also have "\<dots> = pool_free C (objs[i := r])"
      using that i(2) len assms(2) by (auto simp: pool_free_def nth_list_update inj_eq split: if_splits)
    finally show ?thesis
      using deQueue_inv [OF inv] deQueue_size [of q] d items assms(1,3) len by (simp add: pool_ok_def)
  qed
  with i that show thesis by blast
qed

lemma pool_put_items:
  assumes "pool_ok C n q objs" "inj C" "i < n - 1" "req_stage (objs ! i) \<noteq> REQ_STAGE_FREE"
  shows "queue_items (snd (enQueue q (C i))) = queue_items q @ [C i]"
proof -
  have inv: "queue_inv q" and len: "length objs = n" "q_size q = n" and d: "distinct (queue_items q)"
    and set: "set (queue_items q) = pool_free C objs"
    using assms(1) by (auto simp: pool_ok_def)
  have "set (queue_items q) \<subseteq> C ` ({..<n - 1} - {i})"
    using set assms(4) len by (auto simp: pool_free_def)
  then have "card (set (queue_items q)) \<le> card ({..<n - 1} - {i})"
    by (meson card_image_le card_mono finite_Diff finite_imageI finite_lessThan order_trans)
  then have "length (queue_items q) < q_size q - 1"
    using d len assms(3) by (simp add: distinct_card)
  with enQueue_accepts [OF inv] have "fst (enQueue q (C i)) \<noteq> None" by blast
  with enQueue_items [OF inv] show ?thesis by simp
qed

lemma pool_put:
  assumes "pool_ok C n q objs" "inj C" "i < n - 1" "req_stage (objs ! i) \<noteq> REQ_STAGE_FREE" "req_stage r = REQ_STAGE_FREE"
  shows "pool_ok C n (snd (enQueue q (C i))) (objs[i := r])"
proof -
  have inv: "queue_inv q" and len: "length objs = n" and d: "distinct (queue_items q)"
    and set: "set (queue_items q) = pool_free C objs"
    using assms(1) by (auto simp: pool_ok_def)
  note items = pool_put_items [OF assms(1-4)]
  have "C i \<notin> set (queue_items q)" using set assms(2,4) by (auto simp: pool_free_def inj_eq)
  moreover have "insert (C i) (pool_free C objs) = pool_free C (objs[i := r])"
    using assms(2,3,5) len by (auto simp: pool_free_def nth_list_update inj_eq split: if_splits)
  ultimately show ?thesis
    using items d set assms(1) enQueue_inv [OF inv] len by (simp add: pool_ok_def)
qed

lemma pool_empty:
  assumes "pool_ok C n q objs" "deQueue q = (None, q')"
  shows "pool_free C objs = {}"
proof -
  have inv: "queue_inv q" using assms(1) by (simp add: pool_ok_def)
  have "queue_items q = []"
    using assms(2) inv by (auto simp: deQueue_def queue_items_def queue_inv_def ring_list_empty split: if_splits)
  with assms(1) show ?thesis by (simp add: pool_ok_def)
qed

text \<open>The fill loop ends and leaves every object but the last one free.\<close>

definition filled ::
  "(nat \<Rightarrow> obj_ptr) \<Rightarrow> (req_t \<Rightarrow> req_t) \<Rightarrow> nat \<Rightarrow> nat \<Rightarrow> req_t list \<Rightarrow> obj_ptr queue_t \<Rightarrow> req_t list \<Rightarrow> bool" where
  "filled C f n i objs q' objs' \<longleftrightarrow> queue_inv q' \<and> q_size q' = n \<and> length objs' = n \<and> queue_items q' = map C [0..<n - 1] \<and>
     (\<forall>j. i \<le> j \<and> j < n - 1 \<longrightarrow> objs' ! j = (f (objs ! j))\<lparr>rq_index := of_nat (j + 1), req_stage := REQ_STAGE_FREE\<rparr>) \<and>
     (\<forall>j < i. objs' ! j = objs ! j)"

lemma fill_free_step:
  assumes "filled C f n (i + 1) (objs[i := (f (objs ! i))\<lparr>rq_index := of_nat (i + 1), req_stage := REQ_STAGE_FREE\<rparr>]) q' objs'"
    and "i < n - 1" "length objs = n"
  shows "filled C f n i objs q' objs'"
proof -
  let ?o = "objs[i := (f (objs ! i))\<lparr>rq_index := of_nat (i + 1), req_stage := REQ_STAGE_FREE\<rparr>]"
  have "objs' ! j = (f (objs ! j))\<lparr>rq_index := of_nat (j + 1), req_stage := REQ_STAGE_FREE\<rparr>" if "i \<le> j" "j < n - 1" for j
  proof (cases "j = i")
    case True
    with assms have "objs' ! j = ?o ! i" by (simp add: filled_def)
    with True assms(2,3) show ?thesis by simp
  next
    case False
    with assms that have "objs' ! j = (f (?o ! j))\<lparr>rq_index := of_nat (j + 1), req_stage := REQ_STAGE_FREE\<rparr>"
      by (simp add: filled_def)
    with False show ?thesis by simp
  qed
  with assms show ?thesis by (auto simp: filled_def)
qed

lemma fill_free_aux:
  assumes "queue_inv q" "q_size q = n" "length objs = n" "queue_items q = map C [0..<i]" "i \<le> n - 1"
  shows "\<exists>q' objs'. fill_free C f i q objs = Some (q', objs') \<and> filled C f n i objs q' objs'"
  using assms
proof (induction "n - 1 - i" arbitrary: i q objs)
  case 0
  then have i: "i = n - 1" by simp
  with 0 have "\<not> length (queue_items q) < q_size q - 1" by simp
  with enQueue_accepts [OF 0(2), of "C i"] have "fst (enQueue q (C i)) = None" by blast
  then have "enQueue q (C i) = (None, q)" by (auto simp: enQueue_def split: if_splits)
  then have "fill_free C f i q objs = Some (q, objs)" by (subst fill_free.simps) simp
  with 0 i show ?case by (auto simp: filled_def)
next
  case (Suc k)
  let ?objs = "objs[i := (f (objs ! i))\<lparr>rq_index := of_nat (i + 1), req_stage := REQ_STAGE_FREE\<rparr>]"
  have i: "i < n - 1" "k = n - 1 - (i + 1)" "i + 1 \<le> n - 1" "length ?objs = n" using Suc(2,5) by simp_all
  obtain q1 where q1: "enQueue q (C i) = (Some (C i), q1)"
    using enQueue_accepts [OF Suc(3), of "C i"] Suc(2,4,5,6) by (auto simp: enQueue_def split: if_splits)
  then have step: "fill_free C f i q objs = fill_free C f (i + 1) q1 ?objs"
    by (subst fill_free.simps) simp
  have q: "queue_inv q1" "q_size q1 = n" "queue_items q1 = map C [0..<i + 1]"
    using enQueue_inv [OF Suc(3), of "C i"] enQueue_items [OF Suc(3), of "C i"] enQueue_size [of q "C i"] q1 Suc(4,6)
    by simp_all
  from Suc(1) [OF i(2) q(1,2) i(4) q(3) i(3)] show ?case
    using fill_free_step [OF _ i(1) Suc(5)] step by metis
qed

section \<open>The contract of an object pool\<close>

locale object_pool =
  fixes invar :: "'s \<Rightarrow> bool"
    and universe :: "'o set"
    and live :: "'s \<Rightarrow> 'o set"
    and alloc :: "'s \<Rightarrow> ('o \<times> 's) option"
    and release :: "'o \<Rightarrow> 's \<Rightarrow> 's option"
  assumes finite_universe: "finite universe"
    and live_sub: "invar s \<Longrightarrow> live s \<subseteq> universe"
    and alloc_ok: "invar s \<Longrightarrow> alloc s = Some (p, s') \<Longrightarrow> invar s' \<and> p \<in> universe - live s \<and> live s' = insert p (live s)"
    and alloc_total: "invar s \<Longrightarrow> live s \<noteq> universe \<Longrightarrow> alloc s \<noteq> None"
    and release_ok: "invar s \<Longrightarrow> p \<in> live s \<Longrightarrow> \<exists>s'. release p s = Some s' \<and> invar s' \<and> live s' = live s - {p}"

text \<open>\<open>n\<close> allocations in a row.\<close>

fun alloc_many :: "('s \<Rightarrow> ('o \<times> 's) option) \<Rightarrow> nat \<Rightarrow> 's \<Rightarrow> ('o list \<times> 's) option" where
  "alloc_many alloc 0 s = Some ([], s)"
| "alloc_many alloc (Suc n) s = do { (p, s1) \<leftarrow> alloc s; (ps, s2) \<leftarrow> alloc_many alloc n s1; Some (p # ps, s2) }"

context object_pool
begin

lemma live_card: "invar s \<Longrightarrow> card (live s) \<le> card universe"
  using live_sub finite_universe by (simp add: card_mono)

lemma many_distinct:
  "invar s \<Longrightarrow> alloc_many alloc n s = Some (ps, s') \<Longrightarrow>
     invar s' \<and> distinct ps \<and> length ps = n \<and> set ps \<inter> live s = {} \<and> live s' = set ps \<union> live s"
proof (induction n arbitrary: s ps)
  case (Suc n)
  from Suc.prems(2) obtain p s1 ps1 where a: "alloc s = Some (p, s1)" "alloc_many alloc n s1 = Some (ps1, s')" "ps = p # ps1"
    by (auto simp: bind_eq_Some_conv)
  from alloc_ok [OF Suc.prems(1) a(1)] Suc.IH [OF _ a(2)] a(3) show ?case by auto
qed simp

lemma many_total: "invar s \<Longrightarrow> n \<le> card universe - card (live s) \<Longrightarrow> alloc_many alloc n s \<noteq> None"
proof (induction n arbitrary: s)
  case (Suc n)
  then have "live s \<noteq> universe" by auto
  with alloc_total [OF Suc.prems(1)] obtain p s1 where a: "alloc s = Some (p, s1)" by auto
  note ok = alloc_ok [OF Suc.prems(1) a]
  have fin: "finite (live s)" using live_sub [OF Suc.prems(1)] finite_universe by (rule finite_subset)
  with ok have "card (live s1) = Suc (card (live s))" by simp
  with Suc.prems(2) have "n \<le> card universe - card (live s1)" by simp
  with Suc.IH [of s1] ok obtain r where "alloc_many alloc n s1 = Some r" by auto
  with a show ?case by (cases r) simp
qed simp

lemma many_limit: "invar s \<Longrightarrow> alloc_many alloc n s \<noteq> None \<longleftrightarrow> n \<le> card universe - card (live s)"
proof
  assume inv: "invar s" and "alloc_many alloc n s \<noteq> None"
  then obtain ps s' where r: "alloc_many alloc n s = Some (ps, s')" by auto
  note d = many_distinct [OF inv r]
  have "finite (live s)" using live_sub [OF inv] finite_universe by (rule finite_subset)
  with d have "card (live s') = n + card (live s)" by (metis card_Un_disjoint distinct_card List.finite_set)
  with live_card [of s'] d show "n \<le> card universe - card (live s)" by simp
qed (rule many_total)

text \<open>An object is free again after its release, and only then handed out a second time.\<close>

lemma release_alloc:
  assumes "invar s" "p \<in> live s" "release p s = Some s'"
  shows "p \<notin> live s' \<and> invar s' \<and> alloc s' \<noteq> None"
proof -
  from release_ok [OF assms(1,2)] assms(3) have s': "invar s'" "live s' = live s - {p}" by auto
  with live_sub [OF assms(1)] assms(2) have "live s' \<noteq> universe" by auto
  with alloc_total [OF s'(1)] s' show ?thesis by simp
qed

end

section \<open>The three pools\<close>

definition req_inv :: "'a req_st_scheme \<Rightarrow> bool" where
  "req_inv s \<longleftrightarrow>
     pool_ok R_REQ R_SIZE (free_r_req_objs s) (r_req s) \<and> (\<forall>i < R_SIZE - 1. rq_type (r_req s ! i) = READ_IO_REQUEST) \<and>
     pool_ok W_REQ W_SIZE (free_w_req_objs s) (w_req s) \<and> (\<forall>i < W_SIZE - 1. rq_type (w_req s ! i) = WRITE_IO_REQUEST) \<and>
     pool_ok O_REQ O_SIZE (free_req_objs s) (other_req_alloc s) \<and>
     (\<forall>i < O_SIZE - 1. req_stage (other_req_alloc s ! i) \<noteq> REQ_STAGE_FREE \<longrightarrow> other_req_type (rq_type (other_req_alloc s ! i)))"

lemma ptr_inj [simp]: "inj R_REQ" "inj W_REQ" "inj O_REQ"
  by (simp_all add: inj_def)

lemma req_types [simp]:
  "READ_IO_REQUEST \<noteq> WRITE_IO_REQUEST" "WRITE_IO_REQUEST \<noteq> READ_IO_REQUEST"
  "\<not> other_req_type READ_IO_REQUEST" "\<not> other_req_type WRITE_IO_REQUEST"
  "FLUSH_IO_REQUEST \<noteq> READ_IO_REQUEST" "FLUSH_IO_REQUEST \<noteq> WRITE_IO_REQUEST"
  by (simp_all add: other_req_type_def READ_IO_REQUEST_def WRITE_IO_REQUEST_def ADMIN_REQUEST_def FLUSH_IO_REQUEST_def
      TRIM_IO_REQUEST_def ISP_IO_REQUEST_def ISP_READ_PAGES_REQUEST_def ISP_PROGRAM_PAGES_REQUEST_def ISP_HOST_DMA_REQUEST_def)

lemma pool_sizes [simp]: "R_SIZE = 256" "W_SIZE = 256" "O_SIZE = 128"
  by (simp_all add: R_SIZE_def W_SIZE_def O_SIZE_def INTERNAL_IO_REQ_QUEUE_def)

text \<open>All objects of a pool: the last array element is never handed out.\<close>

definition pool_universe :: "(nat \<Rightarrow> obj_ptr) \<Rightarrow> nat \<Rightarrow> obj_ptr set" where
  "pool_universe C n = C ` {..<n - 1}"

lemma pool_live_sub: "length objs = n \<Longrightarrow> pool_live C objs \<subseteq> pool_universe C n"
  by (auto simp: pool_live_def pool_universe_def)

lemma pool_live_full: "inj C \<Longrightarrow> length objs = n \<Longrightarrow> pool_free C objs = {} \<Longrightarrow> pool_live C objs = pool_universe C n"
  by (auto simp: pool_live_def pool_universe_def pool_free_def)

lemma pool_live_set:
  "inj C \<Longrightarrow> i < length objs - 1 \<Longrightarrow> req_stage r \<noteq> REQ_STAGE_FREE \<Longrightarrow> pool_live C (objs[i := r]) = insert (C i) (pool_live C objs)"
  by (auto simp: pool_live_def nth_list_update inj_eq split: if_splits)

lemma pool_live_clear:
  "inj C \<Longrightarrow> i < length objs - 1 \<Longrightarrow> req_stage r = REQ_STAGE_FREE \<Longrightarrow> pool_live C (objs[i := r]) = pool_live C objs - {C i}"
  by (auto simp: pool_live_def nth_list_update inj_eq split: if_splits)

lemma pool_not_live: "inj C \<Longrightarrow> req_stage (objs ! i) = REQ_STAGE_FREE \<Longrightarrow> C i \<notin> pool_live C objs"
  by (auto simp: pool_live_def inj_eq)

text \<open>
  What the three pools have in common: how their \<open>alloc\<close> and \<open>release\<close> move the free queue and
  the objects. The pool contract follows from it once.
\<close>

locale req_pool =
  fixes C :: "nat \<Rightarrow> obj_ptr"
    and n :: nat
    and objs :: "'s \<Rightarrow> req_t list"
    and queue :: "'s \<Rightarrow> obj_ptr queue_t"
    and invar :: "'s \<Rightarrow> bool"
    and alloc :: "'s \<Rightarrow> (obj_ptr \<times> 's) option"
    and release :: "obj_ptr \<Rightarrow> 's \<Rightarrow> 's option"
  assumes inj: "inj C"
    and invar_ok: "invar s \<Longrightarrow> pool_ok C n (queue s) (objs s)"
    and alloc_empty: "deQueue (queue s) = (None, q) \<Longrightarrow> alloc s = None"
    and alloc_take: "invar s \<Longrightarrow> deQueue (queue s) = (Some (C i), q) \<Longrightarrow> i < n - 1 \<Longrightarrow>
      (\<And>r. req_stage r \<noteq> REQ_STAGE_FREE \<Longrightarrow> pool_ok C n q ((objs s)[i := r])) \<Longrightarrow>
      \<exists>r s'. alloc s = Some (C i, s') \<and> invar s' \<and> objs s' = (objs s)[i := r] \<and> req_stage r \<noteq> REQ_STAGE_FREE"
    and release_put: "invar s \<Longrightarrow> i < n - 1 \<Longrightarrow> req_stage (objs s ! i) \<noteq> REQ_STAGE_FREE \<Longrightarrow>
      (\<And>r. req_stage r = REQ_STAGE_FREE \<Longrightarrow> pool_ok C n (snd (enQueue (queue s) (C i))) ((objs s)[i := r])) \<Longrightarrow>
      \<exists>r s'. release (C i) s = Some s' \<and> invar s' \<and> objs s' = (objs s)[i := r] \<and> req_stage r = REQ_STAGE_FREE"

sublocale req_pool \<subseteq> object_pool invar "pool_universe C n" "\<lambda>s. pool_live C (objs s)" alloc release
proof
  show "finite (pool_universe C n)" by (simp add: pool_universe_def)
next
  fix s assume inv: "invar s"
  note ok = invar_ok [OF inv]
  then have len: "length (objs s) = n" by (simp add: pool_ok_def)
  show "pool_live C (objs s) \<subseteq> pool_universe C n" using len by (simp add: pool_live_sub)
  obtain d q where q: "deQueue (queue s) = (d, q)" by fastforce
  show "alloc s \<noteq> None" if "pool_live C (objs s) \<noteq> pool_universe C n"
  proof (cases d)
    case None
    with that pool_empty [OF ok] pool_live_full [OF inj len] q show ?thesis by simp
  next
    case (Some p)
    with q pool_take [OF ok inj, of p q] alloc_take [OF inv, of _ q] show ?thesis by (metis option.distinct(1))
  qed
  fix p s'
  show "invar s' \<and> p \<in> pool_universe C n - pool_live C (objs s) \<and> pool_live C (objs s') = insert p (pool_live C (objs s))"
    if a: "alloc s = Some (p, s')"
  proof -
    obtain p1 where d: "deQueue (queue s) = (Some p1, q)" using a q alloc_empty [of s q] by (cases d) auto
    from pool_take [OF ok inj d] obtain i where i: "p1 = C i" "i < n - 1" "req_stage (objs s ! i) = REQ_STAGE_FREE"
        "\<And>r. req_stage r \<noteq> REQ_STAGE_FREE \<Longrightarrow> pool_ok C n q ((objs s)[i := r])" by blast
    from alloc_take [OF inv d [unfolded i(1)] i(2) i(4)] a obtain r where
      "p = C i" "invar s'" "objs s' = (objs s)[i := r]" "req_stage r \<noteq> REQ_STAGE_FREE" by auto
    with i(2,3) len inj show ?thesis
      by (auto simp: pool_live_set pool_universe_def dest: pool_not_live)
  qed
  show "\<exists>s'. release p s = Some s' \<and> invar s' \<and> pool_live C (objs s') = pool_live C (objs s) - {p}"
    if "p \<in> pool_live C (objs s)"
  proof -
    from that len obtain i where i: "p = C i" "i < n - 1" "req_stage (objs s ! i) \<noteq> REQ_STAGE_FREE"
      by (auto simp: pool_live_def)
    from release_put [OF inv i(2,3) pool_put [OF ok inj i(2,3)]] i(1,2) len inj show ?thesis
      by (auto simp: pool_live_clear)
  qed
qed

lemma req_inv_len:
  "req_inv s \<Longrightarrow> length (r_req s) = 256 \<and> length (w_req s) = 256 \<and> length (other_req_alloc s) = 128"
  by (simp add: req_inv_def pool_ok_def)

lemmas malloc_simps = sys_malloc_req_obj_def sys_free_req_obj_def get_req_def upd_req_def req_inv_def nth_list_update

interpretation rpool: req_pool R_REQ R_SIZE r_req free_r_req_objs req_inv "sys_malloc_req_obj READ_IO_REQUEST" sys_free_req_obj
proof
  fix s :: "'a req_st_scheme" and i q
  assume inv: "req_inv s" and i: "i < R_SIZE - 1"
  show "\<exists>r s'. sys_malloc_req_obj READ_IO_REQUEST s = Some (R_REQ i, s') \<and> req_inv s' \<and> r_req s' = (r_req s)[i := r] \<and>
      req_stage r \<noteq> REQ_STAGE_FREE"
    if "deQueue (free_r_req_objs s) = (Some (R_REQ i), q)"
      "\<And>r. req_stage r \<noteq> REQ_STAGE_FREE \<Longrightarrow> pool_ok R_REQ R_SIZE q ((r_req s)[i := r])"
    using that inv req_inv_len [OF inv] i by (intro exI [of _ "(r_req s ! i)\<lparr>req_stage := REQ_STAGE_INUSE\<rparr>"]) (auto simp: malloc_simps)
  show "\<exists>r s'. sys_free_req_obj (R_REQ i) s = Some s' \<and> req_inv s' \<and> r_req s' = (r_req s)[i := r] \<and> req_stage r = REQ_STAGE_FREE"
    if "\<And>r. req_stage r = REQ_STAGE_FREE \<Longrightarrow> pool_ok R_REQ R_SIZE (snd (enQueue (free_r_req_objs s) (R_REQ i))) ((r_req s)[i := r])"
    using that inv req_inv_len [OF inv] i by (intro exI [of _ "(r_req s ! i)\<lparr>req_stage := REQ_STAGE_FREE\<rparr>"]) (auto simp: malloc_simps)
qed (auto simp: malloc_simps)

interpretation wpool: req_pool W_REQ W_SIZE w_req free_w_req_objs req_inv "sys_malloc_req_obj WRITE_IO_REQUEST" sys_free_req_obj
proof
  fix s :: "'a req_st_scheme" and i q
  assume inv: "req_inv s" and i: "i < W_SIZE - 1"
  show "\<exists>r s'. sys_malloc_req_obj WRITE_IO_REQUEST s = Some (W_REQ i, s') \<and> req_inv s' \<and> w_req s' = (w_req s)[i := r] \<and>
      req_stage r \<noteq> REQ_STAGE_FREE"
    if "deQueue (free_w_req_objs s) = (Some (W_REQ i), q)"
      "\<And>r. req_stage r \<noteq> REQ_STAGE_FREE \<Longrightarrow> pool_ok W_REQ W_SIZE q ((w_req s)[i := r])"
    using that inv req_inv_len [OF inv] i by (intro exI [of _ "(w_req s ! i)\<lparr>req_stage := REQ_STAGE_INUSE\<rparr>"]) (auto simp: malloc_simps)
  show "\<exists>r s'. sys_free_req_obj (W_REQ i) s = Some s' \<and> req_inv s' \<and> w_req s' = (w_req s)[i := r] \<and> req_stage r = REQ_STAGE_FREE"
    if "\<And>r. req_stage r = REQ_STAGE_FREE \<Longrightarrow> pool_ok W_REQ W_SIZE (snd (enQueue (free_w_req_objs s) (W_REQ i))) ((w_req s)[i := r])"
    using that inv req_inv_len [OF inv] i by (intro exI [of _ "(w_req s ! i)\<lparr>req_stage := REQ_STAGE_FREE\<rparr>"]) (auto simp: malloc_simps)
qed (auto simp: malloc_simps)

text \<open>The third pool, for any of its request types.\<close>

definition malloc_other :: "u32 \<Rightarrow> 'a req_st_scheme \<Rightarrow> (obj_ptr \<times> 'a req_st_scheme) option" where
  "malloc_other t s = sys_malloc_req_obj (if other_req_type t then t else FLUSH_IO_REQUEST) s"

lemma other_req_typeD: "other_req_type t \<Longrightarrow> t \<noteq> READ_IO_REQUEST \<and> t \<noteq> WRITE_IO_REQUEST"
  by auto

lemma flush_other [simp]: "other_req_type FLUSH_IO_REQUEST" "other_req_type ADMIN_REQUEST"
  by (simp_all add: other_req_type_def)

interpretation opool: req_pool O_REQ O_SIZE other_req_alloc free_req_objs req_inv "malloc_other t" sys_free_req_obj for t
proof
  fix s :: "'a req_st_scheme" and i q
  assume inv: "req_inv s" and i: "i < O_SIZE - 1"
  define t' where "t' = (if other_req_type t then t else FLUSH_IO_REQUEST)"
  then have t': "other_req_type t'" by simp
  note ne = other_req_typeD [OF t']
  show "\<exists>r s'. malloc_other t s = Some (O_REQ i, s') \<and> req_inv s' \<and> other_req_alloc s' = (other_req_alloc s)[i := r] \<and>
      req_stage r \<noteq> REQ_STAGE_FREE"
    if "deQueue (free_req_objs s) = (Some (O_REQ i), q)"
      "\<And>r. req_stage r \<noteq> REQ_STAGE_FREE \<Longrightarrow> pool_ok O_REQ O_SIZE q ((other_req_alloc s)[i := r])"
    using that inv req_inv_len [OF inv] i t' ne unfolding malloc_other_def t'_def [symmetric]
    by (intro exI [of _ "(other_req_alloc s ! i)\<lparr>rq_type := t', req_stage := REQ_STAGE_INUSE\<rparr>"]) (auto simp: malloc_simps)
  show "\<exists>r s'. sys_free_req_obj (O_REQ i) s = Some s' \<and> req_inv s' \<and> other_req_alloc s' = (other_req_alloc s)[i := r] \<and>
      req_stage r = REQ_STAGE_FREE"
    if "req_stage (other_req_alloc s ! i) \<noteq> REQ_STAGE_FREE"
      "\<And>r. req_stage r = REQ_STAGE_FREE \<Longrightarrow> pool_ok O_REQ O_SIZE (snd (enQueue (free_req_objs s) (O_REQ i))) ((other_req_alloc s)[i := r])"
  proof -
    have ty: "other_req_type (rq_type (other_req_alloc s ! i))" using inv i that(1) by (simp add: req_inv_def)
    from that inv req_inv_len [OF inv] i ty other_req_typeD [OF ty] show ?thesis
      by (intro exI [of _ "(other_req_alloc s ! i)\<lparr>req_stage := REQ_STAGE_FREE\<rparr>"]) (auto simp: malloc_simps)
  qed
next
  show "malloc_other t s = None" if "deQueue (free_req_objs s) = (None, q)" for s :: "'a req_st_scheme" and q
    using that by (auto simp: malloc_other_def malloc_simps dest: other_req_typeD)
qed (auto simp: malloc_simps)

section \<open>Initialisation and lookup\<close>

text \<open>The image before \<open>init_req_obj\<close>: zeroed objects, empty queues.\<close>

definition req_image :: "req_st" where
  "req_image = kernel_st.extend kernel_image
     (req_st.fields (replicate R_SIZE zero_req) (DEFINE_CIRCULAR_QUEUE (replicate R_SIZE NULL))
        (replicate W_SIZE zero_req) (DEFINE_CIRCULAR_QUEUE (replicate W_SIZE NULL))
        (replicate O_SIZE zero_req) (DEFINE_CIRCULAR_QUEUE (replicate O_SIZE NULL)))"

lemma filled_ok: "inj C \<Longrightarrow> filled C f n 0 objs q' objs' \<Longrightarrow> pool_ok C n q' objs'"
proof -
  assume C: "inj C" and f: "filled C f n 0 objs q' objs'"
  have "pool_free C objs' = C ` {..<n - 1}"
    using f by (auto simp: filled_def pool_free_def)
  moreover have "distinct (map C [0..<n - 1])" using inj_on_subset [OF C subset_UNIV] by (simp add: distinct_map)
  ultimately show ?thesis using f by (simp add: filled_def pool_ok_def lessThan_atLeast0)
qed

lemma filled_type: "filled C f n 0 objs q' objs' \<Longrightarrow> i < n - 1 \<Longrightarrow> rq_type (objs' ! i) = rq_type (f (objs ! i))"
  by (simp add: filled_def)

lemma init_pool:
  "0 < n \<Longrightarrow> \<exists>q' objs'. fill_free C f 0 (DEFINE_CIRCULAR_QUEUE (replicate n NULL)) (replicate n zero_req) = Some (q', objs') \<and>
     filled C f n 0 (replicate n zero_req) q' objs'"
  by (rule fill_free_aux) (simp_all add: DEFINE_CIRCULAR_QUEUE_def queue_inv_def queue_items_def ring_list_empty)

lemma filled_live: "filled C f n 0 objs q' objs' \<Longrightarrow> pool_live C objs' = {}"
  by (auto simp: filled_def pool_live_def)

lemma req_image_sel [simp]:
  "r_req req_image = replicate R_SIZE zero_req" "w_req req_image = replicate W_SIZE zero_req"
  "other_req_alloc req_image = replicate O_SIZE zero_req"
  "free_r_req_objs req_image = DEFINE_CIRCULAR_QUEUE (replicate R_SIZE NULL)"
  "free_w_req_objs req_image = DEFINE_CIRCULAR_QUEUE (replicate W_SIZE NULL)"
  "free_req_objs req_image = DEFINE_CIRCULAR_QUEUE (replicate O_SIZE NULL)"
  by (simp_all add: req_image_def kernel_st.extend_def req_st.fields_def)

lemma init_req_obj_inv:
  "\<exists>s. init_req_obj req_image = Some s \<and> req_inv s \<and> pool_live R_REQ (r_req s) = {} \<and>
     pool_live W_REQ (w_req s) = {} \<and> pool_live O_REQ (other_req_alloc s) = {} \<and>
     (\<forall>i < 255. r_req s ! i = zero_req\<lparr>rq_type := READ_IO_REQUEST, rq_index := of_nat (i + 1), req_stage := REQ_STAGE_FREE\<rparr>)"
proof -
  obtain qr rs where r: "fill_free R_REQ (\<lambda>r. r\<lparr>rq_type := READ_IO_REQUEST\<rparr>) 0 (free_r_req_objs req_image) (r_req req_image) = Some (qr, rs)"
      "filled R_REQ (\<lambda>r. r\<lparr>rq_type := READ_IO_REQUEST\<rparr>) R_SIZE 0 (r_req req_image) qr rs"
    using init_pool [of R_SIZE R_REQ "\<lambda>r. r\<lparr>rq_type := READ_IO_REQUEST\<rparr>"] by auto
  obtain qw ws where w: "fill_free W_REQ (\<lambda>r. r\<lparr>rq_type := WRITE_IO_REQUEST\<rparr>) 0 (free_w_req_objs req_image) (w_req req_image) = Some (qw, ws)"
      "filled W_REQ (\<lambda>r. r\<lparr>rq_type := WRITE_IO_REQUEST\<rparr>) W_SIZE 0 (w_req req_image) qw ws"
    using init_pool [of W_SIZE W_REQ "\<lambda>r. r\<lparr>rq_type := WRITE_IO_REQUEST\<rparr>"] by auto
  obtain qo os where o: "fill_free O_REQ (\<lambda>r. r) 0 (free_req_objs req_image) (other_req_alloc req_image) = Some (qo, os)"
      "filled O_REQ (\<lambda>r. r) O_SIZE 0 (other_req_alloc req_image) qo os"
    using init_pool [of O_SIZE O_REQ "\<lambda>r. r"] by auto
  have "req_stage (os ! i) = REQ_STAGE_FREE" if "i < 127" for i using o(2) that by (simp add: filled_def)
  moreover have "rs ! i = zero_req\<lparr>rq_type := READ_IO_REQUEST, rq_index := of_nat (i + 1), req_stage := REQ_STAGE_FREE\<rparr>" if "i < 255" for i
    using r(2) that by (simp add: filled_def)
  ultimately show ?thesis
    using r w o filled_ok [OF _ r(2)] filled_ok [OF _ w(2)] filled_ok [OF _ o(2)] filled_type [OF r(2)] filled_type [OF w(2)]
      filled_live [OF r(2)] filled_live [OF w(2)] filled_live [OF o(2)]
    by (simp add: init_req_obj_def req_inv_def)
qed

lemma first_index_Some: "first_index P k xs = Some i \<Longrightarrow> k \<le> i \<and> i - k < length xs \<and> P (xs ! (i - k)) \<and> (\<forall>j < i - k. \<not> P (xs ! j))"
proof (induction xs arbitrary: k)
  case (Cons x xs)
  show ?case
  proof (cases "P x")
    case False
    with Cons.prems have "first_index P (Suc k) xs = Some i" by simp
    note ih = Cons.IH [OF this]
    then have "(x # xs) ! (i - k) = xs ! (i - Suc k)" by (simp add: nth_Cons')
    moreover have "\<not> P ((x # xs) ! j)" if "j < i - k" for j
      using that ih False by (cases j) auto
    ultimately show ?thesis using ih by auto
  qed (use Cons.prems in simp)
qed simp

lemma first_index_None: "first_index P k xs = None \<longleftrightarrow> (\<forall>x \<in> set xs. \<not> P x)"
  by (induction xs arbitrary: k) auto

definition live_reqs :: "'a req_st_scheme \<Rightarrow> obj_ptr set" where
  "live_reqs s = pool_live R_REQ (r_req s) \<union> pool_live W_REQ (w_req s) \<union> pool_live O_REQ (other_req_alloc s)"

lemma queue_ptr:
  assumes "pool_ok C n q objs" "deQueue q = (Some p, q')"
  shows "\<exists>i < n - 1. p = C i"
proof -
  have "p \<in> set (queue_items q)" using deQueue_items [of q] assms by (auto simp: pool_ok_def)
  with assms(1) show ?thesis by (auto simp: pool_ok_def pool_free_def)
qed

text \<open>An allocation changes one pool, and so does a release.\<close>

lemma malloc_read_frame:
  assumes "req_inv s" "sys_malloc_req_obj READ_IO_REQUEST s = Some (p, s')"
  shows "w_req s' = w_req s \<and> other_req_alloc s' = other_req_alloc s \<and> (\<exists>i < 255. p = R_REQ i)"
  using assms queue_ptr [of R_REQ 256 "free_r_req_objs s" "r_req s" p]
  by (auto simp: sys_malloc_req_obj_def req_inv_def upd_req_def split: prod.splits option.splits)

lemma malloc_write_frame:
  assumes "req_inv s" "sys_malloc_req_obj WRITE_IO_REQUEST s = Some (p, s')"
  shows "r_req s' = r_req s \<and> other_req_alloc s' = other_req_alloc s \<and> (\<exists>i < 255. p = W_REQ i)"
  using assms queue_ptr [of W_REQ 256 "free_w_req_objs s" "w_req s" p]
  by (auto simp: sys_malloc_req_obj_def req_inv_def upd_req_def split: prod.splits option.splits)

lemma malloc_other_frame:
  assumes "req_inv s" "other_req_type t" "sys_malloc_req_obj t s = Some (p, s')"
  shows "r_req s' = r_req s \<and> w_req s' = w_req s \<and> (\<exists>i < 127. p = O_REQ i)"
  using assms other_req_typeD [OF assms(2)] queue_ptr [of O_REQ 128 "free_req_objs s" "other_req_alloc s" p]
  by (auto simp: sys_malloc_req_obj_def req_inv_def upd_req_def split: prod.splits option.splits)

lemma free_frame:
  "sys_free_req_obj (R_REQ i) s = Some s' \<Longrightarrow> w_req s' = w_req s \<and> other_req_alloc s' = other_req_alloc s"
  "sys_free_req_obj (W_REQ i) s = Some s' \<Longrightarrow> r_req s' = r_req s \<and> other_req_alloc s' = other_req_alloc s"
  "sys_free_req_obj (O_REQ i) s = Some s' \<Longrightarrow> r_req s' = r_req s \<and> w_req s' = w_req s"
  by (auto simp: sys_free_req_obj_def upd_req_def Let_def split: option.splits if_splits)

lemma pool_live_ptr: "p \<in> pool_live C objs \<Longrightarrow> \<exists>i. p = C i"
  by (auto simp: pool_live_def)

lemma live_reqs_ptr:
  "R_REQ i \<in> live_reqs s \<longleftrightarrow> R_REQ i \<in> pool_live R_REQ (r_req s)"
  "W_REQ i \<in> live_reqs s \<longleftrightarrow> W_REQ i \<in> pool_live W_REQ (w_req s)"
  "O_REQ i \<in> live_reqs s \<longleftrightarrow> O_REQ i \<in> pool_live O_REQ (other_req_alloc s)"
  by (auto simp: live_reqs_def dest: pool_live_ptr)

text \<open>The pool a request type is served from, the objects of a pool and those in its free queue, oldest first.\<close>

datatype pool_id = R_POOL | W_POOL | O_POOL

definition pool_of_type :: "u32 \<Rightarrow> pool_id" where
  "pool_of_type t = (if t = READ_IO_REQUEST then R_POOL else if t = WRITE_IO_REQUEST then W_POOL else O_POOL)"

fun pool_objects :: "pool_id \<Rightarrow> obj_ptr set" where
  "pool_objects R_POOL = pool_universe R_REQ R_SIZE"
| "pool_objects W_POOL = pool_universe W_REQ W_SIZE"
| "pool_objects O_POOL = pool_universe O_REQ O_SIZE"

fun free_objs :: "pool_id \<Rightarrow> 'a req_st_scheme \<Rightarrow> obj_ptr list" where
  "free_objs R_POOL s = queue_items (free_r_req_objs s)"
| "free_objs W_POOL s = queue_items (free_w_req_objs s)"
| "free_objs O_POOL s = queue_items (free_req_objs s)"

lemma free_objs_upd [simp]: "free_objs k (upd_req p f s) = free_objs k s"
  by (cases k; cases p) (simp_all add: upd_req_def)

lemma free_objs_queues [simp]:
  "free_objs k (s\<lparr>free_r_req_objs := q\<rparr>) = (if k = R_POOL then queue_items q else free_objs k s)"
  "free_objs k (s\<lparr>free_w_req_objs := q\<rparr>) = (if k = W_POOL then queue_items q else free_objs k s)"
  "free_objs k (s\<lparr>free_req_objs := q\<rparr>) = (if k = O_POOL then queue_items q else free_objs k s)"
  by (cases k; simp)+

lemma get_req_queues [simp]:
  "get_req p (s\<lparr>free_r_req_objs := q\<rparr>) = get_req p s" "get_req p (s\<lparr>free_w_req_objs := q\<rparr>) = get_req p s"
  "get_req p (s\<lparr>free_req_objs := q\<rparr>) = get_req p s"
  by (simp_all add: get_req_def split: obj_ptr.split)

lemma get_req_upd_other: "q \<noteq> p \<Longrightarrow> get_req q (upd_req p f s) = get_req q s"
  by (cases p; cases q; simp add: get_req_def upd_req_def)

text \<open>An allocation takes the oldest free object of the pool of its type and changes no other object.\<close>

lemma malloc_pool:
  assumes "req_inv s" "t = READ_IO_REQUEST \<or> t = WRITE_IO_REQUEST \<or> other_req_type t" "sys_malloc_req_obj t s = Some (p, s')"
  shows "p \<in> pool_objects (pool_of_type t) \<and> free_objs (pool_of_type t) s = p # free_objs (pool_of_type t) s' \<and>
    (\<forall>k. k \<noteq> pool_of_type t \<longrightarrow> free_objs k s' = free_objs k s) \<and>
    (\<exists>r. get_req p s' = Some r \<and> rq_type r = t \<and> req_stage r = REQ_STAGE_INUSE) \<and> (\<forall>q. q \<noteq> p \<longrightarrow> get_req q s' = get_req q s)"
proof -
  have ok: "pool_ok R_REQ R_SIZE (free_r_req_objs s) (r_req s)" "pool_ok W_REQ W_SIZE (free_w_req_objs s) (w_req s)"
    "pool_ok O_REQ O_SIZE (free_req_objs s) (other_req_alloc s)" and len: "length (r_req s) = 256" "length (w_req s) = 256" "length (other_req_alloc s) = 128"
    using assms(1) req_inv_len [OF assms(1)] by (auto simp: req_inv_def)
  have items: "queue_items q = x # queue_items q1" if "pool_ok C n q objs" "deQueue q = (Some x, q1)" for C n q objs x q1
    using that deQueue_items [of q] by (simp add: pool_ok_def)
  consider "t = READ_IO_REQUEST" | "t = WRITE_IO_REQUEST" | "other_req_type t" using assms(2) by blast
  then show ?thesis
  proof cases
    case 1
    with assms(3) obtain q where q: "deQueue (free_r_req_objs s) = (Some p, q)"
      "s' = upd_req p (\<lambda>r. r\<lparr>req_stage := REQ_STAGE_INUSE\<rparr>) (s\<lparr>free_r_req_objs := q\<rparr>)"
      by (auto simp: sys_malloc_req_obj_def split: prod.splits option.splits)
    from queue_ptr [OF ok(1) q(1)] obtain i where i: "i < 255" "p = R_REQ i" by auto
    have "rq_type (r_req s ! i) = READ_IO_REQUEST" using assms(1) i by (simp add: req_inv_def)
    then have "get_req p s' = Some ((r_req s ! i)\<lparr>req_stage := REQ_STAGE_INUSE\<rparr>)" using i len by (simp add: q(2) get_req_def upd_req_def)
    with 1 q i items [OF ok(1) q(1)] \<open>rq_type (r_req s ! i) = READ_IO_REQUEST\<close> show ?thesis
      by (auto simp: pool_of_type_def pool_universe_def get_req_upd_other)
  next
    case 2
    with assms(3) obtain q where q: "deQueue (free_w_req_objs s) = (Some p, q)"
      "s' = upd_req p (\<lambda>r. r\<lparr>req_stage := REQ_STAGE_INUSE\<rparr>) (s\<lparr>free_w_req_objs := q\<rparr>)"
      by (auto simp: sys_malloc_req_obj_def split: prod.splits option.splits)
    from queue_ptr [OF ok(2) q(1)] obtain i where i: "i < 255" "p = W_REQ i" by auto
    have "rq_type (w_req s ! i) = WRITE_IO_REQUEST" using assms(1) i by (simp add: req_inv_def)
    then have "get_req p s' = Some ((w_req s ! i)\<lparr>req_stage := REQ_STAGE_INUSE\<rparr>)" using i len by (simp add: q(2) get_req_def upd_req_def)
    with 2 q i items [OF ok(2) q(1)] \<open>rq_type (w_req s ! i) = WRITE_IO_REQUEST\<close> show ?thesis
      by (auto simp: pool_of_type_def pool_universe_def get_req_upd_other)
  next
    case 3
    note ne = other_req_typeD [OF 3]
    with 3 assms(3) obtain q where q: "deQueue (free_req_objs s) = (Some p, q)"
      "s' = upd_req p (\<lambda>r. r\<lparr>rq_type := t, req_stage := REQ_STAGE_INUSE\<rparr>) (s\<lparr>free_req_objs := q\<rparr>)"
      by (auto simp: sys_malloc_req_obj_def split: prod.splits option.splits)
    from queue_ptr [OF ok(3) q(1)] obtain i where i: "i < 127" "p = O_REQ i" by auto
    have "get_req p s' = Some ((other_req_alloc s ! i)\<lparr>rq_type := t, req_stage := REQ_STAGE_INUSE\<rparr>)" using i len by (simp add: q(2) get_req_def upd_req_def)
    with ne q i items [OF ok(3) q(1)] show ?thesis
      by (auto simp: pool_of_type_def pool_universe_def get_req_upd_other)
  qed
qed

text \<open>The release of a request in use appends it to the free queue of the pool of its type.\<close>

lemma free_pool:
  assumes "req_inv s" "p \<in> live_reqs s"
  shows "\<exists>s' r. sys_free_req_obj p s = Some s' \<and> req_inv s' \<and> live_reqs s' = live_reqs s - {p} \<and> get_req p s = Some r \<and>
    p \<in> pool_objects (pool_of_type (rq_type r)) \<and> free_objs (pool_of_type (rq_type r)) s' = free_objs (pool_of_type (rq_type r)) s @ [p] \<and>
    (\<forall>k. k \<noteq> pool_of_type (rq_type r) \<longrightarrow> free_objs k s' = free_objs k s) \<and> (\<forall>q. q \<noteq> p \<longrightarrow> get_req q s' = get_req q s)"
proof -
  have ok: "pool_ok R_REQ R_SIZE (free_r_req_objs s) (r_req s)" "pool_ok W_REQ W_SIZE (free_w_req_objs s) (w_req s)"
    "pool_ok O_REQ O_SIZE (free_req_objs s) (other_req_alloc s)" and len: "length (r_req s) = 256" "length (w_req s) = 256" "length (other_req_alloc s) = 128"
    using assms(1) req_inv_len [OF assms(1)] by (auto simp: req_inv_def)
  consider "p \<in> pool_live R_REQ (r_req s)" | "p \<in> pool_live W_REQ (w_req s)" | "p \<in> pool_live O_REQ (other_req_alloc s)"
    using assms(2) by (auto simp: live_reqs_def)
  then show ?thesis
  proof cases
    case 1
    then obtain i where i: "p = R_REQ i" "i < 255" "req_stage (r_req s ! i) \<noteq> REQ_STAGE_FREE" using len by (auto simp: pool_live_def)
    have ty: "rq_type (r_req s ! i) = READ_IO_REQUEST" using assms(1) i by (simp add: req_inv_def)
    from rpool.release_ok [OF assms(1) 1] obtain s' where s': "sys_free_req_obj p s = Some s'" "req_inv s'"
      "pool_live R_REQ (r_req s') = pool_live R_REQ (r_req s) - {p}" by auto
    have e: "s' = upd_req p (\<lambda>r. r\<lparr>req_stage := REQ_STAGE_FREE\<rparr>) (s\<lparr>free_r_req_objs := snd (enQueue (free_r_req_objs s) p)\<rparr>)"
      using s'(1) i ty by (simp add: sys_free_req_obj_def get_req_def Let_def)
    have "live_reqs s' = live_reqs s - {p}" using s' i free_frame(1) [of i s s'] by (auto simp: live_reqs_def dest: pool_live_ptr)
    with s' i ty pool_put_items [OF ok(1), of i] show ?thesis
      by (intro exI [of _ s'] exI [of _ "r_req s ! i"]) (auto simp: e get_req_def [of "R_REQ i"] pool_of_type_def pool_universe_def get_req_upd_other)
  next
    case 2
    then obtain i where i: "p = W_REQ i" "i < 255" "req_stage (w_req s ! i) \<noteq> REQ_STAGE_FREE" using len by (auto simp: pool_live_def)
    have ty: "rq_type (w_req s ! i) = WRITE_IO_REQUEST" using assms(1) i by (simp add: req_inv_def)
    from wpool.release_ok [OF assms(1) 2] obtain s' where s': "sys_free_req_obj p s = Some s'" "req_inv s'"
      "pool_live W_REQ (w_req s') = pool_live W_REQ (w_req s) - {p}" by auto
    have e: "s' = upd_req p (\<lambda>r. r\<lparr>req_stage := REQ_STAGE_FREE\<rparr>) (s\<lparr>free_w_req_objs := snd (enQueue (free_w_req_objs s) p)\<rparr>)"
      using s'(1) i ty by (simp add: sys_free_req_obj_def get_req_def Let_def)
    have "live_reqs s' = live_reqs s - {p}" using s' i free_frame(2) [of i s s'] by (auto simp: live_reqs_def dest: pool_live_ptr)
    with s' i ty pool_put_items [OF ok(2), of i] show ?thesis
      by (intro exI [of _ s'] exI [of _ "w_req s ! i"]) (auto simp: e get_req_def [of "W_REQ i"] pool_of_type_def pool_universe_def get_req_upd_other)
  next
    case 3
    then obtain i where i: "p = O_REQ i" "i < 127" "req_stage (other_req_alloc s ! i) \<noteq> REQ_STAGE_FREE" using len by (auto simp: pool_live_def)
    then have ty: "other_req_type (rq_type (other_req_alloc s ! i))" using assms(1) by (simp add: req_inv_def)
    note ne = other_req_typeD [OF ty]
    from opool.release_ok [OF assms(1) 3] obtain s' where s': "sys_free_req_obj p s = Some s'" "req_inv s'"
      "pool_live O_REQ (other_req_alloc s') = pool_live O_REQ (other_req_alloc s) - {p}" by auto
    have e: "s' = upd_req p (\<lambda>r. r\<lparr>req_stage := REQ_STAGE_FREE\<rparr>) (s\<lparr>free_req_objs := snd (enQueue (free_req_objs s) p)\<rparr>)"
      using s'(1) i ty ne by (simp add: sys_free_req_obj_def get_req_def Let_def)
    have "live_reqs s' = live_reqs s - {p}" using s' i free_frame(3) [of i s s'] by (auto simp: live_reqs_def dest: pool_live_ptr)
    with s' i ne pool_put_items [OF ok(3), of i] show ?thesis
      by (intro exI [of _ s'] exI [of _ "other_req_alloc s ! i"]) (auto simp: e get_req_def [of "O_REQ i"] pool_of_type_def pool_universe_def get_req_upd_other)
  qed
qed

text \<open>A change of the stage of a request in use.\<close>

lemma pool_stage:
  assumes "pool_ok C n q objs" "inj C" "i < n - 1" "req_stage (objs ! i) \<noteq> REQ_STAGE_FREE" "v \<noteq> REQ_STAGE_FREE"
  shows "pool_ok C n q (objs[i := (objs ! i)\<lparr>req_stage := v\<rparr>]) \<and> pool_live C (objs[i := (objs ! i)\<lparr>req_stage := v\<rparr>]) = pool_live C objs"
proof -
  have len: "length objs = n" using assms(1) by (simp add: pool_ok_def)
  have "pool_free C (objs[i := (objs ! i)\<lparr>req_stage := v\<rparr>]) = pool_free C objs"
    using assms(2-5) len by (auto simp: pool_free_def nth_list_update)
  moreover have "pool_live C (objs[i := (objs ! i)\<lparr>req_stage := v\<rparr>]) = pool_live C objs"
    using assms(2-5) len by (auto simp: pool_live_def nth_list_update)
  ultimately show ?thesis using assms(1) by (simp add: pool_ok_def)
qed

lemma stage_live:
  assumes "req_inv s" "p \<in> live_reqs s" "v \<noteq> REQ_STAGE_FREE"
  shows "req_inv (upd_req p (\<lambda>r. r\<lparr>req_stage := v\<rparr>) s) \<and> live_reqs (upd_req p (\<lambda>r. r\<lparr>req_stage := v\<rparr>) s) = live_reqs s"
proof -
  have ok: "pool_ok R_REQ R_SIZE (free_r_req_objs s) (r_req s)" "pool_ok W_REQ W_SIZE (free_w_req_objs s) (w_req s)"
    "pool_ok O_REQ O_SIZE (free_req_objs s) (other_req_alloc s)" and len: "length (r_req s) = 256" "length (w_req s) = 256" "length (other_req_alloc s) = 128"
    using assms(1) req_inv_len [OF assms(1)] by (auto simp: req_inv_def)
  have st: "\<exists>i < length objs - 1. p = C i \<and> req_stage (objs ! i) \<noteq> REQ_STAGE_FREE" if "p \<in> pool_live C objs" for C objs
    using that by (auto simp: pool_live_def)
  consider "p \<in> pool_live R_REQ (r_req s)" | "p \<in> pool_live W_REQ (w_req s)" | "p \<in> pool_live O_REQ (other_req_alloc s)"
    using assms(2) by (auto simp: live_reqs_def)
  then show ?thesis
  proof cases
    case 1
    from st [OF this] len obtain i where i: "p = R_REQ i" "i < 255" "req_stage (r_req s ! i) \<noteq> REQ_STAGE_FREE" by auto
    with pool_stage [OF ok(1) _ _ i(3) assms(3)] assms(1) len show ?thesis by (simp add: upd_req_def req_inv_def live_reqs_def nth_list_update)
  next
    case 2
    from st [OF this] len obtain i where i: "p = W_REQ i" "i < 255" "req_stage (w_req s ! i) \<noteq> REQ_STAGE_FREE" by auto
    with pool_stage [OF ok(2) _ _ i(3) assms(3)] assms(1) len show ?thesis by (simp add: upd_req_def req_inv_def live_reqs_def nth_list_update)
  next
    case 3
    from st [OF this] len obtain i where i: "p = O_REQ i" "i < 127" "req_stage (other_req_alloc s ! i) \<noteq> REQ_STAGE_FREE" by auto
    with pool_stage [OF ok(3) _ _ i(3) assms(3)] assms(1) len show ?thesis by (simp add: upd_req_def req_inv_def live_reqs_def nth_list_update)
  qed
qed

lemma malloc_live:
  assumes "req_inv s" "t = READ_IO_REQUEST \<or> t = WRITE_IO_REQUEST \<or> other_req_type t"
    and "sys_malloc_req_obj t s = Some (p, s')"
  shows "req_inv s' \<and> p \<notin> live_reqs s \<and> live_reqs s' = insert p (live_reqs s)"
  using assms(2)
proof (elim disjE)
  assume t: "t = READ_IO_REQUEST"
  from malloc_read_frame [OF assms(1) assms(3) [unfolded t]] obtain i where
    "w_req s' = w_req s" "other_req_alloc s' = other_req_alloc s" "p = R_REQ i" by auto
  with rpool.alloc_ok [OF assms(1) assms(3) [unfolded t]] show ?thesis by (auto simp: live_reqs_def dest: pool_live_ptr)
next
  assume t: "t = WRITE_IO_REQUEST"
  from malloc_write_frame [OF assms(1) assms(3) [unfolded t]] obtain i where
    "r_req s' = r_req s" "other_req_alloc s' = other_req_alloc s" "p = W_REQ i" by auto
  with wpool.alloc_ok [OF assms(1) assms(3) [unfolded t]] show ?thesis by (auto simp: live_reqs_def dest: pool_live_ptr)
next
  assume t: "other_req_type t"
  from malloc_other_frame [OF assms(1) t assms(3)] obtain i where
    "r_req s' = r_req s" "w_req s' = w_req s" "p = O_REQ i" by auto
  with opool.alloc_ok [of s t p s'] malloc_other_def [of t s] t assms(1,3) show ?thesis by (auto simp: live_reqs_def dest: pool_live_ptr)
qed

section \<open>Properties\<close>

text \<open>
  C23. An allocation takes the oldest free object of the pool of the request type (one for reads, one for writes, one for
  the rest), which was not in use; it is then in use with that type, and no other object, pool or free queue changes.
  Freeing it appends it to the free queue of the same pool and leaves the other pools, and the use of all other objects,
  as they were before the allocation. The pool invariant holds throughout.
\<close>

theorem request_alloc_free:
  assumes "req_inv s" "t = READ_IO_REQUEST \<or> t = WRITE_IO_REQUEST \<or> other_req_type t"
    and "sys_malloc_req_obj t s = Some (p, s')"
  defines "k \<equiv> pool_of_type t"
  shows "req_inv s' \<and> p \<notin> live_reqs s \<and> live_reqs s' = insert p (live_reqs s) \<and> p \<in> pool_objects k \<and>
    (\<exists>r. get_req p s' = Some r \<and> rq_type r = t \<and> req_stage r = REQ_STAGE_INUSE) \<and> (\<forall>q. q \<noteq> p \<longrightarrow> get_req q s' = get_req q s) \<and>
    free_objs k s = p # free_objs k s' \<and> (\<forall>j. j \<noteq> k \<longrightarrow> free_objs j s' = free_objs j s) \<and>
    (\<exists>s''. sys_free_req_obj p s' = Some s'' \<and> req_inv s'' \<and> live_reqs s'' = live_reqs s \<and> (\<forall>q. q \<noteq> p \<longrightarrow> get_req q s'' = get_req q s) \<and>
       free_objs k s'' = free_objs k s' @ [p] \<and> (\<forall>j. j \<noteq> k \<longrightarrow> free_objs j s'' = free_objs j s))"
proof -
  note m = malloc_pool [OF assms(1-3), folded k_def] and l = malloc_live [OF assms(1-3)]
  then obtain r where r: "get_req p s' = Some r" "rq_type r = t" by blast
  from free_pool [of s' p] l obtain s'' where
    f: "sys_free_req_obj p s' = Some s''" "req_inv s''" "live_reqs s'' = live_reqs s' - {p}"
      "free_objs k s'' = free_objs k s' @ [p]" "\<forall>j. j \<noteq> k \<longrightarrow> free_objs j s'' = free_objs j s'" "\<forall>q. q \<noteq> p \<longrightarrow> get_req q s'' = get_req q s'"
    using r by (auto simp: k_def)
  have "live_reqs s'' = live_reqs s" using f(3) l by simp
  with m l f(1,2,4-6) show ?thesis by auto
qed

text \<open>
  After \<open>init_req_obj\<close>, which terminates, the driver can hold up to 255 read requests, 255 write
  requests and 127 other requests at the same time, all distinct; the next allocation would store
  through a null pointer.
\<close>

theorem request_pool_limits:
  assumes "other_req_type t"
  shows "\<exists>s. init_req_obj req_image = Some s \<and> req_inv s \<and>
    (alloc_many (sys_malloc_req_obj READ_IO_REQUEST) n s \<noteq> None) = (n \<le> 255) \<and>
    (alloc_many (sys_malloc_req_obj WRITE_IO_REQUEST) n s \<noteq> None) = (n \<le> 255) \<and>
    (alloc_many (sys_malloc_req_obj t) n s \<noteq> None) = (n \<le> 127)"
proof -
  obtain s where s: "init_req_obj req_image = Some s" "req_inv s" "pool_live R_REQ (r_req s) = {}"
      "pool_live W_REQ (w_req s) = {}" "pool_live O_REQ (other_req_alloc s) = {}"
    using init_req_obj_inv by blast
  have u: "card (pool_universe R_REQ R_SIZE) = 255" "card (pool_universe W_REQ W_SIZE) = 255" "card (pool_universe O_REQ O_SIZE) = 127"
    by (simp_all add: pool_universe_def card_image inj_on_def)
  have m: "malloc_other t = (sys_malloc_req_obj t :: req_st \<Rightarrow> _)" using assms by (simp add: malloc_other_def fun_eq_iff)
  have "(alloc_many (sys_malloc_req_obj READ_IO_REQUEST) n s \<noteq> None) = (n \<le> 255)"
    using rpool.many_limit [OF s(2), of n] s(3) u(1) by simp
  moreover have "(alloc_many (sys_malloc_req_obj WRITE_IO_REQUEST) n s \<noteq> None) = (n \<le> 255)"
    using wpool.many_limit [OF s(2), of n] s(4) u(2) by simp
  moreover have "(alloc_many (sys_malloc_req_obj t) n s \<noteq> None) = (n \<le> 127)"
    using opool.many_limit [OF s(2), of t n] s(5) u(3) m by simp
  ultimately show ?thesis using s(1,2) by blast
qed

theorem request_pool_limits_witness:
  "\<exists>s. init_req_obj req_image = Some s \<and> (alloc_many (sys_malloc_req_obj FLUSH_IO_REQUEST) 127 s \<noteq> None) = True"
  using request_pool_limits [of FLUSH_IO_REQUEST 127] by auto

theorem request_alloc_free_witness:
  "\<exists>(s :: req_st) p s'. req_inv s \<and> sys_malloc_req_obj READ_IO_REQUEST s = Some (p, s') \<and> p \<notin> live_reqs s \<and> p \<in> live_reqs s'"
proof -
  obtain s :: req_st where s: "req_inv s" "pool_live R_REQ (r_req s) = {}" using init_req_obj_inv by blast
  have "R_REQ 0 \<in> pool_universe R_REQ R_SIZE" by (simp add: pool_universe_def)
  with rpool.alloc_total [OF s(1)] s(2) have "sys_malloc_req_obj READ_IO_REQUEST s \<noteq> None" by auto
  then obtain p s' where m: "sys_malloc_req_obj READ_IO_REQUEST s = Some (p, s')" by (auto simp del: pool_sizes)
  from request_alloc_free [OF s(1) _ m] have "p \<notin> live_reqs s \<and> p \<in> live_reqs s'" by simp
  with m s(1) show ?thesis by blast
qed

text \<open>
  The lookup by submission queue and command identifier returns a request with these
  identifiers, and fails only when no read request, no write request and no flush, trim or ISP
  request has them.
\<close>

theorem find_io_request_correct:
  assumes "length (r_req s) = R_SIZE" "length (w_req s) = W_SIZE" "length (other_req_alloc s) = O_SIZE"
  shows "case sys_find_io_request sq c s of
      NULL \<Rightarrow> (\<forall>r \<in> set (r_req s) \<union> set (w_req s). \<not> has_ids sq c r) \<and>
              (\<forall>r \<in> set (other_req_alloc s). io_typed r \<longrightarrow> \<not> has_ids sq c r)
    | p \<Rightarrow> (\<exists>r. get_req p s = Some r \<and> has_ids sq c r)"
  using assms first_index_Some [of "has_ids sq c" 0 "r_req s"] first_index_Some [of "has_ids sq c" 0 "w_req s"]
    first_index_Some [of "\<lambda>r. io_typed r \<and> has_ids sq c r" 0 "other_req_alloc s"]
  by (auto simp: sys_find_io_request_def get_req_def first_index_None split: option.split)

theorem find_io_request_correct_witness:
  "\<exists>r. get_req (sys_find_io_request 0 0 req_image) req_image = Some r \<and> has_ids 0 0 r"
proof -
  have "zero_req \<in> set (r_req req_image)" "has_ids 0 0 zero_req"
    by (simp_all add: has_ids_def zero_req_def zero_scmd_def)
  then have "sys_find_io_request 0 0 req_image = R_REQ 0"
    by (simp add: sys_find_io_request_def numeral_eq_Suc)
  with find_io_request_correct [of req_image 0 0] show ?thesis by simp
qed

end
