(* ===== verification/Geometry.thy ===== *)
theory Geometry
  imports S4_Prelude
begin

text \<open>
  The NAND geometry macros of \<^verbatim>\<open>global_macro.h\<close>, the physical page address \<open>ppa_t\<close> of
  \<^verbatim>\<open>issd_types.h\<close> and the linear page number that the mapping tables (\<^verbatim>\<open>ftl.h\<close>) and the NAND
  controller (\<^verbatim>\<open>iSSDNandCtrl.hh\<close>) both use. The build passes the geometry as macro definitions
  (\<^verbatim>\<open>Makefile.storage.config\<close>, \<^verbatim>\<open>Makefile.firmware.config\<close>), so it is a parameter here.
\<close>

section \<open>Geometry\<close>

record geo =
  nand_num_chn :: nat
  nand_pkgs_per_chn :: nat
  nand_dies_per_pkg :: nat
  nand_planes_per_die :: nat
  nand_blocks_per_plane :: nat
  nand_pages_per_block :: nat
  nand_page_size :: nat
  host_page_size :: nat
  over_provision_factor :: nat

definition NUM_CHANNELS :: "geo \<Rightarrow> nat" where "NUM_CHANNELS g = nand_num_chn g"
definition PKG_PER_CHANNEL :: "geo \<Rightarrow> nat" where "PKG_PER_CHANNEL g = nand_pkgs_per_chn g"
definition DIES_PER_PKG :: "geo \<Rightarrow> nat" where "DIES_PER_PKG g = nand_dies_per_pkg g"
definition PLANES_PER_DIE :: "geo \<Rightarrow> nat" where "PLANES_PER_DIE g = nand_planes_per_die g"
definition BLOCKS_PER_PLANE :: "geo \<Rightarrow> nat" where "BLOCKS_PER_PLANE g = nand_blocks_per_plane g"
definition PAGES_PER_BLOCK :: "geo \<Rightarrow> nat" where "PAGES_PER_BLOCK g = nand_pages_per_block g"
definition NAND_DS :: "geo \<Rightarrow> nat" where "NAND_DS g = nand_page_size g"
definition NAND_PAGE_SIZE :: "geo \<Rightarrow> nat" where "NAND_PAGE_SIZE g = 2 ^ nand_page_size g"
definition HOST_DS :: "geo \<Rightarrow> nat" where "HOST_DS g = host_page_size g"
definition HOST_PAGE_SIZE :: "geo \<Rightarrow> nat" where "HOST_PAGE_SIZE g = 2 ^ host_page_size g"
definition DIES_PER_CHANNEL :: "geo \<Rightarrow> nat" where "DIES_PER_CHANNEL g = PKG_PER_CHANNEL g * DIES_PER_PKG g"
definition PLANES_PER_CHANNEL :: "geo \<Rightarrow> nat" where
  "PLANES_PER_CHANNEL g = PKG_PER_CHANNEL g * DIES_PER_PKG g * PLANES_PER_DIE g"
definition PAGES_PER_PLANE :: "geo \<Rightarrow> nat" where "PAGES_PER_PLANE g = BLOCKS_PER_PLANE g * PAGES_PER_BLOCK g"
definition PAGES_PER_DIE :: "geo \<Rightarrow> nat" where "PAGES_PER_DIE g = PAGES_PER_PLANE g * PLANES_PER_DIE g"
definition PAGES_PER_PKG :: "geo \<Rightarrow> nat" where "PAGES_PER_PKG g = PAGES_PER_DIE g * DIES_PER_PKG g"
definition PAGES_PER_CHANNEL :: "geo \<Rightarrow> nat" where "PAGES_PER_CHANNEL g = PAGES_PER_PKG g * PKG_PER_CHANNEL g"
definition TOTAL_NUM_OF_PKGS :: "geo \<Rightarrow> nat" where "TOTAL_NUM_OF_PKGS g = NUM_CHANNELS g * PKG_PER_CHANNEL g"
definition TOTAL_NUM_OF_DIES :: "geo \<Rightarrow> nat" where "TOTAL_NUM_OF_DIES g = TOTAL_NUM_OF_PKGS g * DIES_PER_PKG g"
definition TOTAL_NUM_OF_PLANES :: "geo \<Rightarrow> nat" where "TOTAL_NUM_OF_PLANES g = TOTAL_NUM_OF_DIES g * PLANES_PER_DIE g"
definition TOTAL_NUM_OF_BLOCK :: "geo \<Rightarrow> nat" where "TOTAL_NUM_OF_BLOCK g = TOTAL_NUM_OF_PLANES g * BLOCKS_PER_PLANE g"
definition TOTAL_NUM_OF_PAGES :: "geo \<Rightarrow> nat" where "TOTAL_NUM_OF_PAGES g = TOTAL_NUM_OF_BLOCK g * PAGES_PER_BLOCK g"
definition HOST_2_NAND_DS :: "geo \<Rightarrow> nat" where "HOST_2_NAND_DS g = NAND_DS g - HOST_DS g"
definition HOST_PER_NAND_PAGES :: "geo \<Rightarrow> nat" where "HOST_PER_NAND_PAGES g = 2 ^ HOST_2_NAND_DS g"
definition TOTAL_NUM_OF_HOST_PAGES :: "geo \<Rightarrow> nat" where
  "TOTAL_NUM_OF_HOST_PAGES g = TOTAL_NUM_OF_PAGES g * 2 ^ HOST_2_NAND_DS g"
definition OVP :: "geo \<Rightarrow> nat" where "OVP g = over_provision_factor g"

text \<open>The default configuration of the Makefile, and a small one for evaluation.\<close>

definition H4k_N4k_256mb :: geo where
  "H4k_N4k_256mb = \<lparr>nand_num_chn = 4, nand_pkgs_per_chn = 2, nand_dies_per_pkg = 2, nand_planes_per_die = 2,
     nand_blocks_per_plane = 16, nand_pages_per_block = 128, nand_page_size = 12, host_page_size = 12,
     over_provision_factor = 7\<rparr>"

definition tiny_geo :: geo where
  "tiny_geo = \<lparr>nand_num_chn = 2, nand_pkgs_per_chn = 1, nand_dies_per_pkg = 1, nand_planes_per_die = 1,
     nand_blocks_per_plane = 2, nand_pages_per_block = 2, nand_page_size = 3, host_page_size = 3,
     over_provision_factor = 7\<rparr>"

text \<open>The limits the data types of a page address impose on a geometry; the controller computes offsets into
  the image in 32 bits.\<close>

definition geo_ok :: "geo \<Rightarrow> bool" where
  "geo_ok g \<longleftrightarrow> 0 < NUM_CHANNELS g \<and> NUM_CHANNELS g < 255 \<and> even (NUM_CHANNELS g) \<and>
     0 < DIES_PER_CHANNEL g \<and> DIES_PER_CHANNEL g < 256 \<and> 0 < PLANES_PER_DIE g \<and> PLANES_PER_DIE g < 256 \<and>
     0 < BLOCKS_PER_PLANE g \<and> BLOCKS_PER_PLANE g < 2 ^ 16 \<and> 0 < PAGES_PER_BLOCK g \<and> PAGES_PER_BLOCK g < 2 ^ 16 \<and>
     TOTAL_NUM_OF_PAGES g < 2 ^ 30 \<and> TOTAL_NUM_OF_PAGES g * NAND_PAGE_SIZE g \<le> 2 ^ 32"

lemmas geom_defs = NUM_CHANNELS_def PKG_PER_CHANNEL_def DIES_PER_PKG_def PLANES_PER_DIE_def BLOCKS_PER_PLANE_def
  PAGES_PER_BLOCK_def NAND_DS_def NAND_PAGE_SIZE_def HOST_DS_def HOST_PAGE_SIZE_def DIES_PER_CHANNEL_def
  PLANES_PER_CHANNEL_def PAGES_PER_PLANE_def PAGES_PER_DIE_def PAGES_PER_PKG_def PAGES_PER_CHANNEL_def
  TOTAL_NUM_OF_PKGS_def TOTAL_NUM_OF_DIES_def TOTAL_NUM_OF_PLANES_def TOTAL_NUM_OF_BLOCK_def TOTAL_NUM_OF_PAGES_def
  HOST_2_NAND_DS_def HOST_PER_NAND_PAGES_def TOTAL_NUM_OF_HOST_PAGES_def OVP_def

lemma geo_ok_default: "geo_ok H4k_N4k_256mb" "geo_ok tiny_geo"
  by (simp_all add: geo_ok_def H4k_N4k_256mb_def tiny_geo_def geom_defs)

section \<open>Physical page addresses\<close>

text \<open>
  \<open>ppa_t\<close> is a union of a 64-bit number and a path. The path is the model; \<open>ppa_data\<close> and
  \<open>ppa_of\<close> are the two readings of the union. Fields are numbers below the limit of their type;
  increments write the wrap-around out.
\<close>

record ppa_t =
  p_page :: nat
  p_block :: nat
  p_plane :: nat
  p_die :: nat
  p_chn :: nat
  p_resv :: nat

definition ppa_typed :: "ppa_t \<Rightarrow> bool" where
  "ppa_typed p \<longleftrightarrow> p_page p < 2 ^ 16 \<and> p_block p < 2 ^ 16 \<and> p_plane p < 2 ^ 8 \<and> p_die p < 2 ^ 8 \<and>
     p_chn p < 2 ^ 8 \<and> p_resv p < 2 ^ 8"

definition ppa_data :: "ppa_t \<Rightarrow> u64" where
  "ppa_data p = of_nat (p_page p + 2 ^ 16 * (p_block p + 2 ^ 16 * (p_plane p + 2 ^ 8 * (p_die p + 2 ^ 8 *
     (p_chn p + 2 ^ 8 * p_resv p)))))"

definition ppa_of :: "u64 \<Rightarrow> ppa_t" where
  "ppa_of d = (let n = unat d in
     \<lparr>p_page = n mod 2 ^ 16, p_block = n div 2 ^ 16 mod 2 ^ 16, p_plane = n div 2 ^ 32 mod 2 ^ 8,
      p_die = n div 2 ^ 40 mod 2 ^ 8, p_chn = n div 2 ^ 48 mod 2 ^ 8, p_resv = n div 2 ^ 56\<rparr>)"

definition zero_ppa :: ppa_t where
  "zero_ppa = \<lparr>p_page = 0, p_block = 0, p_plane = 0, p_die = 0, p_chn = 0, p_resv = 0\<rparr>"

text \<open>\<open>path.page++\<close> and \<open>path.block++\<close> on 16-bit fields.\<close>

definition inc_page :: "ppa_t \<Rightarrow> ppa_t" where "inc_page p = p\<lparr>p_page := (p_page p + 1) mod 2 ^ 16\<rparr>"
definition inc_block :: "ppa_t \<Rightarrow> ppa_t" where "inc_block p = p\<lparr>p_block := (p_block p + 1) mod 2 ^ 16\<rparr>"

text \<open>The element of a five-dimensional table, a four-dimensional and a three-dimensional one.\<close>

definition plane_index :: "geo \<Rightarrow> ppa_t \<Rightarrow> nat" where
  "plane_index g p = (p_chn p * DIES_PER_CHANNEL g + p_die p) * PLANES_PER_DIE g + p_plane p"

definition block_index :: "geo \<Rightarrow> ppa_t \<Rightarrow> nat" where
  "block_index g p = plane_index g p * BLOCKS_PER_PLANE g + p_block p"

definition ppa_index :: "geo \<Rightarrow> ppa_t \<Rightarrow> nat" where
  "ppa_index g p = block_index g p * PAGES_PER_BLOCK g + p_page p"

text \<open>The addresses of existing pages.\<close>

definition ppa_ok :: "geo \<Rightarrow> ppa_t \<Rightarrow> bool" where
  "ppa_ok g p \<longleftrightarrow> p_chn p < NUM_CHANNELS g \<and> p_die p < DIES_PER_CHANNEL g \<and> p_plane p < PLANES_PER_DIE g \<and>
     p_block p < BLOCKS_PER_PLANE g \<and> p_page p < PAGES_PER_BLOCK g \<and> p_resv p = 0"

lemma ppa_ok_typed: "geo_ok g \<Longrightarrow> ppa_ok g p \<Longrightarrow> ppa_typed p"
  by (auto simp: geo_ok_def ppa_ok_def ppa_typed_def)

lemma mixed_less: "a < m \<Longrightarrow> b < n \<Longrightarrow> a * n + b < m * (n :: nat)"
proof -
  assume a: "a < m" and b: "b < n"
  then have "a * n + b < (a + 1) * n" by simp
  also have "\<dots> \<le> m * n" using a by (intro mult_le_mono1) simp
  finally show ?thesis .
qed

lemma mixed_inj:
  fixes a b n :: nat
  assumes "a * n + b = a' * n + b'" "b < n" "b' < n"
  shows "a = a' \<and> b = b'"
proof -
  have "(a * n + b) div n = a" "(a' * n + b') div n = a'" "(a * n + b) mod n = b" "(a' * n + b') mod n = b'"
    using assms(2,3) by (simp_all add: add.commute [of "_ * n"])
  with assms(1) show ?thesis by metis
qed

lemma total_pages: "TOTAL_NUM_OF_PAGES g = (NUM_CHANNELS g * DIES_PER_CHANNEL g * PLANES_PER_DIE g) * PAGES_PER_PLANE g"
  by (simp add: geom_defs)

lemma total_planes: "TOTAL_NUM_OF_PLANES g = NUM_CHANNELS g * DIES_PER_CHANNEL g * PLANES_PER_DIE g"
  by (simp add: geom_defs)

lemma plane_index_less: "ppa_ok g p \<Longrightarrow> plane_index g p < TOTAL_NUM_OF_PLANES g"
  unfolding plane_index_def total_planes by (intro mixed_less) (auto simp: ppa_ok_def)

lemma block_index_less: "ppa_ok g p \<Longrightarrow> block_index g p < TOTAL_NUM_OF_PLANES g * BLOCKS_PER_PLANE g"
  unfolding block_index_def by (intro mixed_less plane_index_less) (auto simp: ppa_ok_def)

lemma ppa_index_less: "ppa_ok g p \<Longrightarrow> ppa_index g p < TOTAL_NUM_OF_PAGES g"
  unfolding ppa_index_def TOTAL_NUM_OF_PAGES_def TOTAL_NUM_OF_BLOCK_def
  by (intro mixed_less block_index_less) (auto simp: ppa_ok_def)

lemma ppa_index_inj: "ppa_ok g p \<Longrightarrow> ppa_ok g q \<Longrightarrow> ppa_index g p = ppa_index g q \<Longrightarrow> p = q"
proof -
  assume p: "ppa_ok g p" and q: "ppa_ok g q" and "ppa_index g p = ppa_index g q"
  then have "block_index g p = block_index g q \<and> p_page p = p_page q"
    unfolding ppa_index_def by (intro mixed_inj) (auto simp: ppa_ok_def)
  moreover from this p q have "plane_index g p = plane_index g q \<and> p_block p = p_block q"
    unfolding block_index_def by (intro mixed_inj) (auto simp: ppa_ok_def)
  moreover from this p q have "p_chn p * DIES_PER_CHANNEL g + p_die p = p_chn q * DIES_PER_CHANNEL g + p_die q \<and> p_plane p = p_plane q"
    unfolding plane_index_def by (intro mixed_inj) (auto simp: ppa_ok_def)
  moreover from this p q have "p_chn p = p_chn q \<and> p_die p = p_die q"
    by (intro mixed_inj) (auto simp: ppa_ok_def)
  ultimately show "p = q" using p q by (simp add: ppa_ok_def)
qed

lemma digit: "a < m \<Longrightarrow> (a + m * x) div m = x \<and> (a + m * x) mod m = (a :: nat)"
  by simp

lemma digit_less: "a < m \<Longrightarrow> x < k \<Longrightarrow> a + m * x < m * (k :: nat)"
  using mixed_less [of x k a m] by (simp add: mult.commute add.commute)

lemma ppa_of_data:
  assumes "ppa_typed p"
  shows "ppa_of (ppa_data p) = p"
proof -
  define x4 where "x4 = p_chn p + 2 ^ 8 * p_resv p"
  define x3 where "x3 = p_die p + 2 ^ 8 * x4"
  define x2 where "x2 = p_plane p + 2 ^ 8 * x3"
  define x1 where "x1 = p_block p + 2 ^ 16 * x2"
  define x0 where "x0 = p_page p + 2 ^ 16 * x1"
  have b: "p_page p < 2 ^ 16" "p_block p < 2 ^ 16" "p_plane p < 2 ^ 8" "p_die p < 2 ^ 8" "p_chn p < 2 ^ 8" "p_resv p < 2 ^ 8"
    using assms by (auto simp: ppa_typed_def)
  have "x4 < 2 ^ 8 * 2 ^ 8" unfolding x4_def by (rule digit_less) (use b in auto)
  then have "x3 < 2 ^ 8 * (2 ^ 8 * 2 ^ 8)" unfolding x3_def by (rule digit_less [OF b(4)])
  then have "x2 < 2 ^ 8 * (2 ^ 8 * (2 ^ 8 * 2 ^ 8))" unfolding x2_def by (rule digit_less [OF b(3)])
  then have "x1 < 2 ^ 16 * (2 ^ 8 * (2 ^ 8 * (2 ^ 8 * 2 ^ 8)))" unfolding x1_def by (rule digit_less [OF b(2)])
  then have "x0 < 2 ^ 16 * (2 ^ 16 * (2 ^ 8 * (2 ^ 8 * (2 ^ 8 * 2 ^ 8))))" unfolding x0_def by (rule digit_less [OF b(1)])
  then have n: "unat (ppa_data p) = x0"
    unfolding ppa_data_def x4_def [symmetric] x3_def [symmetric] x2_def [symmetric] x1_def [symmetric] x0_def [symmetric]
    by (simp add: unat_of_nat)
  note d = digit [OF b(1), of x1, folded x0_def] digit [OF b(2), of x2, folded x1_def] digit [OF b(3), of x3, folded x2_def]
    digit [OF b(4), of x4, folded x3_def] digit [OF b(5), of "p_resv p", folded x4_def]
  have e: "x0 div 2 ^ 32 = x0 div 2 ^ 16 div 2 ^ 16" "x0 div 2 ^ 40 = x0 div 2 ^ 16 div 2 ^ 16 div 2 ^ 8"
    "x0 div 2 ^ 48 = x0 div 2 ^ 16 div 2 ^ 16 div 2 ^ 8 div 2 ^ 8"
    "x0 div 2 ^ 56 = x0 div 2 ^ 16 div 2 ^ 16 div 2 ^ 8 div 2 ^ 8 div 2 ^ 8"
    by (simp_all add: div_mult2_eq [symmetric])
  show ?thesis unfolding ppa_of_def Let_def n e by (simp only: d) simp
qed

lemma ppa_data_of: "ppa_data (ppa_of d) = d"
proof -
  define n where "n = unat d"
  have e: "n div 2 ^ 32 = n div 2 ^ 16 div 2 ^ 16" "n div 2 ^ 40 = n div 2 ^ 16 div 2 ^ 16 div 2 ^ 8"
    "n div 2 ^ 48 = n div 2 ^ 16 div 2 ^ 16 div 2 ^ 8 div 2 ^ 8"
    "n div 2 ^ 56 = n div 2 ^ 16 div 2 ^ 16 div 2 ^ 8 div 2 ^ 8 div 2 ^ 8"
    by (simp_all add: div_mult2_eq [symmetric])
  have "ppa_data (ppa_of d) = of_nat n"
    unfolding ppa_data_def ppa_of_def Let_def n_def [symmetric] ppa_t.simps e by (simp only: mod_mult_div_eq)
  then show ?thesis by (simp add: n_def)
qed

end
