(* ===== verification/Nand_Io.thy ===== *)
theory Nand_Io
  imports Req_Alloc Geometry
begin

text \<open>
  The NAND driver (\<^verbatim>\<open>low_level_nand_io.c\<close>): the pools of read and program operations, the page
  lists of an operation, and the register writes with which \<open>__do_sync_flash_read\<close> and
  \<open>__do_sync_flash_program\<close> drive the channels. The controller behind the registers
  (\<^verbatim>\<open>iSSDNandCtrl.cc\<close>, \<^verbatim>\<open>iSSDNandCtrl.hh\<close>) executes the commands of a channel in the order
  of their issue; the flash image is a byte array of consecutive pages. The driver waits for all
  channels before it returns, so the model executes each command when it is issued.
\<close>

unbundle bit_operations_syntax

section \<open>Operations and their pools\<close>

definition FLASH_READ_OPERATION :: u32 where "FLASH_READ_OPERATION = 8"
definition FLASH_PROGRAM_OPERATION :: u32 where "FLASH_PROGRAM_OPERATION = 9"
definition MAX_OPS :: nat where "MAX_OPS = 128"

text \<open>\<open>rop_t\<close> and \<open>pop_t\<close> have the same fields; callbacks are never set.\<close>

record flash_op_t =
  fo_type :: u32
  fo_index :: u32
  fo_nop :: nat
  fo_pages :: "(u64 \<times> nat) list"

datatype op_ptr = NULL_OP | ROP nat | POP nat

record op_q_t =
  oo_tail :: nat
  oo_head :: nat
  oo_size :: nat
  oo_objs :: "op_ptr list"

text \<open>The registers of the controller: the command being composed on each channel, and the page
  register, the latched row address and the pending program command of each chip.\<close>

record nand_hw =
  hw_chip :: "nat \<Rightarrow> nat"
  hw_addr_1 :: "nat \<Rightarrow> u32"
  hw_ram_ptr :: "nat \<Rightarrow> u32"
  hw_page_reg :: "nat \<times> nat \<Rightarrow> mem"
  hw_row :: "nat \<times> nat \<Rightarrow> u32"
  hw_pending :: "nat \<times> nat \<Rightarrow> bool"

record nand_st = req_st +
  ram :: mem
  nand_img :: mem
  nand_regs :: nand_hw
  rops :: "flash_op_t list"
  pops :: "flash_op_t list"
  free_rop_objs :: op_q_t
  free_pop_objs :: op_q_t

definition init_op_obj :: "'a nand_st_scheme \<Rightarrow> 'a nand_st_scheme" where
  "init_op_obj s =
     (let rs = map (\<lambda>i. (rops s ! i)\<lparr>fo_type := FLASH_READ_OPERATION, fo_index := of_nat (i + 1)\<rparr>) [0..<MAX_OPS];
          qr = \<lparr>oo_tail = MAX_OPS mod MAX_OPS, oo_head = 0, oo_size = MAX_OPS,
                oo_objs = fold (\<lambda>i ob. ob[i := ROP i]) [0..<MAX_OPS] (oo_objs (free_rop_objs s))\<rparr>;
          ps = map (\<lambda>i. (pops s ! i)\<lparr>fo_type := FLASH_PROGRAM_OPERATION, fo_index := of_nat (i + 1)\<rparr>) [0..<MAX_OPS];
          qp = \<lparr>oo_tail = MAX_OPS mod MAX_OPS, oo_head = 0, oo_size = MAX_OPS,
                oo_objs = fold (\<lambda>i ob. ob[0 := POP i]) [0..<MAX_OPS] (oo_objs (free_pop_objs s))\<rparr>
      in s\<lparr>rops := rs, free_rop_objs := qr, pops := ps, free_pop_objs := qp\<rparr>)"

text \<open>\<open>malloc_op_obj\<close> and \<open>free_op_obj\<close> do not check whether the queue is empty or full.\<close>

definition q_take :: "op_q_t \<Rightarrow> op_ptr \<times> op_q_t" where
  "q_take q = (oo_objs q ! oo_head q, q\<lparr>oo_head := (oo_head q + 1) mod oo_size q\<rparr>)"

definition q_give :: "op_q_t \<Rightarrow> op_ptr \<Rightarrow> op_q_t" where
  "q_give q op = q\<lparr>oo_objs := (oo_objs q)[oo_tail q := op], oo_tail := (oo_tail q + 1) mod oo_size q\<rparr>"

definition malloc_op_obj :: "u32 \<Rightarrow> 'a nand_st_scheme \<Rightarrow> op_ptr \<times> 'a nand_st_scheme" where
  "malloc_op_obj req_type s =
     (if req_type = FLASH_READ_OPERATION then
        let (op, q) = q_take (free_rop_objs s) in (op, s\<lparr>free_rop_objs := q\<rparr>)
      else if req_type = FLASH_PROGRAM_OPERATION then
        let (op, q) = q_take (free_pop_objs s) in (op, s\<lparr>free_pop_objs := q\<rparr>)
      else (NULL_OP, s))"

definition get_op :: "op_ptr \<Rightarrow> 'a nand_st_scheme \<Rightarrow> flash_op_t option" where
  "get_op p s = (case p of NULL_OP \<Rightarrow> None
     | ROP i \<Rightarrow> if i < length (rops s) then Some (rops s ! i) else None
     | POP i \<Rightarrow> if i < length (pops s) then Some (pops s ! i) else None)"

definition set_op :: "op_ptr \<Rightarrow> flash_op_t \<Rightarrow> 'a nand_st_scheme \<Rightarrow> 'a nand_st_scheme" where
  "set_op p op s = (case p of NULL_OP \<Rightarrow> s
     | ROP i \<Rightarrow> s\<lparr>rops := (rops s)[i := op]\<rparr>
     | POP i \<Rightarrow> s\<lparr>pops := (pops s)[i := op]\<rparr>)"

definition free_op_obj :: "op_ptr \<Rightarrow> 'a nand_st_scheme \<Rightarrow> 'a nand_st_scheme option" where
  "free_op_obj op_obj s =
     (case get_op op_obj s of None \<Rightarrow> None
      | Some op \<Rightarrow>
          if fo_type op = FLASH_READ_OPERATION then Some (s\<lparr>free_rop_objs := q_give (free_rop_objs s) op_obj\<rparr>)
          else if fo_type op = FLASH_PROGRAM_OPERATION then Some (s\<lparr>free_pop_objs := q_give (free_pop_objs s) op_obj\<rparr>)
          else Some s)"

definition begin_read_op :: "'a nand_st_scheme \<Rightarrow> (op_ptr \<times> 'a nand_st_scheme) option" where
  "begin_read_op s =
     (let (rop, s1) = malloc_op_obj FLASH_READ_OPERATION s
      in case get_op rop s1 of None \<Rightarrow> None | Some op \<Rightarrow> Some (rop, set_op rop (op\<lparr>fo_nop := 0\<rparr>) s1))"

definition begin_program_op :: "'a nand_st_scheme \<Rightarrow> (op_ptr \<times> 'a nand_st_scheme) option" where
  "begin_program_op s =
     (let (pop, s1) = malloc_op_obj FLASH_PROGRAM_OPERATION s
      in case get_op pop s1 of None \<Rightarrow> None | Some op \<Rightarrow> Some (pop, set_op pop (op\<lparr>fo_nop := 0\<rparr>) s1))"

definition add_read_op_page :: "op_ptr \<Rightarrow> u64 \<Rightarrow> nat \<Rightarrow> 'a nand_st_scheme \<Rightarrow> (nat \<times> 'a nand_st_scheme) option" where
  "add_read_op_page rop ppa addr s =
     (case get_op rop s of None \<Rightarrow> None
      | Some op \<Rightarrow>
          if fo_nop op \<ge> 128 then Some (0, s)
          else Some (fo_nop op + 1,
                 set_op rop (op\<lparr>fo_pages := (fo_pages op)[fo_nop op := (ppa, addr)], fo_nop := fo_nop op + 1\<rparr>) s))"

definition add_program_op_page :: "op_ptr \<Rightarrow> u64 \<Rightarrow> nat \<Rightarrow> 'a nand_st_scheme \<Rightarrow> (nat \<times> 'a nand_st_scheme) option" where
  "add_program_op_page pop ppa addr s =
     (case get_op pop s of None \<Rightarrow> None
      | Some op \<Rightarrow>
          if fo_nop op \<ge> 128 then Some (0, s)
          else Some (fo_nop op + 1,
                 set_op pop (op\<lparr>fo_pages := (fo_pages op)[fo_nop op := (ppa, addr)], fo_nop := fo_nop op + 1\<rparr>) s))"

section \<open>Registers\<close>

definition CHANNEL_0_BASE_ADDR :: nat where "CHANNEL_0_BASE_ADDR = 1024"
definition CHANNEL_1_BASE_ADDR :: nat where "CHANNEL_1_BASE_ADDR = 2048"
definition CHIP_SELECT_REG :: nat where "CHIP_SELECT_REG = 0"
definition CMD_PHASE_CMD_REG :: nat where "CMD_PHASE_CMD_REG = 4"
definition ADDRESS_CYCLE_REG_1 :: nat where "ADDRESS_CYCLE_REG_1 = 8"
definition ADDRESS_CYCLE_REG_2 :: nat where "ADDRESS_CYCLE_REG_2 = 12"
definition DMA_PHASE_CMD_REG :: nat where "DMA_PHASE_CMD_REG = 16"
definition DMA_RAM_PTR :: nat where "DMA_RAM_PTR = 20"
definition READ_NAND :: u32 where "READ_NAND = 0x80003000"
definition PROGRAM_NAND :: u32 where "PROGRAM_NAND = 0x80001080"
definition READ_DMA :: u32 where "READ_DMA = 1"
definition WRITE_DMA :: u32 where "WRITE_DMA = 2"
definition DEV_NAND_CTRL :: nat where "DEV_NAND_CTRL = 2"

lemmas nand_reg_defs = CHANNEL_0_BASE_ADDR_def CHANNEL_1_BASE_ADDR_def CHIP_SELECT_REG_def CMD_PHASE_CMD_REG_def
  ADDRESS_CYCLE_REG_1_def ADDRESS_CYCLE_REG_2_def DMA_PHASE_CMD_REG_def DMA_RAM_PTR_def

text \<open>The channel base addresses that \<open>init_nand_io_module\<close> computes, two channels per controller.\<close>

definition NUM_NAND_CTRLS :: "geo \<Rightarrow> nat" where "NUM_NAND_CTRLS g = NUM_CHANNELS g div 2"

definition chn_bass_addr :: "geo \<Rightarrow> nat list" where
  "chn_bass_addr g = concat (map (\<lambda>ictrl. let ctrl_base_addr = get_dev_address DEV_NAND_CTRL + ictrl * 0x1000
     in [ctrl_base_addr + CHANNEL_0_BASE_ADDR, ctrl_base_addr + CHANNEL_1_BASE_ADDR]) [0..<NUM_NAND_CTRLS g])"

text \<open>\<open>addr_cycle.addr.addr_1\<close> with the page in the low and the block in the high half.\<close>

definition addr_cycle_1 :: "ppa_t \<Rightarrow> u32" where
  "addr_cycle_1 p = of_nat (p_page p mod 2 ^ 16 + 2 ^ 16 * (p_block p mod 2 ^ 16))"

definition chip_index :: "geo \<Rightarrow> ppa_t \<Rightarrow> nat" where
  "chip_index g p = p_die p * PLANES_PER_DIE g + p_plane p"

definition read_page_cmds :: "geo \<Rightarrow> nat \<Rightarrow> ppa_t \<Rightarrow> nat \<Rightarrow> (nat \<times> u32) list" where
  "read_page_cmds g base_addr ppa addr =
     [(base_addr + CHIP_SELECT_REG, of_nat (chip_index g ppa)),
      (base_addr + ADDRESS_CYCLE_REG_1, addr_cycle_1 ppa),
      (base_addr + ADDRESS_CYCLE_REG_2, 0),
      (base_addr + CMD_PHASE_CMD_REG, READ_NAND),
      (base_addr + CHIP_SELECT_REG, of_nat (chip_index g ppa)),
      (base_addr + DMA_RAM_PTR, of_nat addr),
      (base_addr + DMA_PHASE_CMD_REG, WRITE_DMA)]"

definition program_page_cmds :: "geo \<Rightarrow> nat \<Rightarrow> ppa_t \<Rightarrow> nat \<Rightarrow> (nat \<times> u32) list" where
  "program_page_cmds g base_addr ppa addr =
     [(base_addr + CHIP_SELECT_REG, of_nat (chip_index g ppa)),
      (base_addr + ADDRESS_CYCLE_REG_1, addr_cycle_1 ppa),
      (base_addr + ADDRESS_CYCLE_REG_2, 0),
      (base_addr + CMD_PHASE_CMD_REG, PROGRAM_NAND),
      (base_addr + CHIP_SELECT_REG, of_nat (chip_index g ppa)),
      (base_addr + DMA_RAM_PTR, of_nat addr),
      (base_addr + DMA_PHASE_CMD_REG, READ_DMA)]"

section \<open>The controller\<close>

text \<open>\<open>NC_Chip\<close>: the page of the image that a chip addresses with its latched row.\<close>

definition chip_page :: "geo \<Rightarrow> nat \<Rightarrow> nat \<Rightarrow> u32 \<Rightarrow> nat" where
  "chip_page g chn chip row =
     (let planes_per_chn = PKG_PER_CHANNEL g * DIES_PER_PKG g * PLANES_PER_DIE g;
          pages_per_plane = BLOCKS_PER_PLANE g * PAGES_PER_BLOCK g;
          pages_per_chn = planes_per_chn * pages_per_plane;
          row_page = unat row mod 2 ^ 16; row_block = unat row div 2 ^ 16
      in chn * pages_per_chn + chip * pages_per_plane + row_block * PAGES_PER_BLOCK g + row_page)"

definition page_bytes :: "geo \<Rightarrow> mem \<Rightarrow> nat \<Rightarrow> mem" where
  "page_bytes g img page = (\<lambda>i. img (page * NAND_PAGE_SIZE g + i))"

text \<open>The offset of the page in the image; both the page number and its product with the page size are 32-bit numbers.\<close>

definition img_off :: "geo \<Rightarrow> nat \<Rightarrow> nat \<Rightarrow> u32 \<Rightarrow> nat" where
  "img_off g chn chip row = chip_page g chn chip row * NAND_PAGE_SIZE g mod 2 ^ 32"

definition put_bytes :: "nat \<Rightarrow> nat \<Rightarrow> mem \<Rightarrow> mem \<Rightarrow> mem" where
  "put_bytes n a src m = (\<lambda>x. if a \<le> x \<and> x < a + n then src (x - a) else m x)"

text \<open>
  \<open>iSSDNandCtrl::write\<close> and the processing of the command it adds: a read fills the page register
  from the image, a program waits for its data phase; the data phase moves the page register to or
  from RAM and completes a pending program. A chip number out of range is a panic.
\<close>

definition nand_write_reg :: "geo \<Rightarrow> nat \<Rightarrow> nat \<Rightarrow> u32 \<Rightarrow> 'a nand_st_scheme \<Rightarrow> 'a nand_st_scheme option" where
  "nand_write_reg g chn offset_2 data s =
     (let hw = nand_regs s; c = (chn, hw_chip hw chn) in
      if offset_2 = CHIP_SELECT_REG then
        (if unat data > PLANES_PER_CHANNEL g then None
         else Some (s\<lparr>nand_regs := hw\<lparr>hw_chip := (hw_chip hw)(chn := unat data)\<rparr>\<rparr>))
      else if offset_2 = ADDRESS_CYCLE_REG_1 then
        Some (s\<lparr>nand_regs := hw\<lparr>hw_addr_1 := (hw_addr_1 hw)(chn := data)\<rparr>\<rparr>)
      else if offset_2 = ADDRESS_CYCLE_REG_2 then Some s
      else if offset_2 = DMA_RAM_PTR then
        Some (s\<lparr>nand_regs := hw\<lparr>hw_ram_ptr := (hw_ram_ptr hw)(chn := data)\<rparr>\<rparr>)
      else if offset_2 = CMD_PHASE_CMD_REG then
        (let op = data AND 0xFFFF OR 0x80000000; row = hw_addr_1 hw chn in
         if op = READ_NAND then
           Some (s\<lparr>nand_regs := hw\<lparr>hw_row := (hw_row hw)(c := row),
             hw_page_reg := (hw_page_reg hw)(c := (\<lambda>i. nand_img s (img_off g chn (snd c) row + i)))\<rparr>\<rparr>)
         else if op = PROGRAM_NAND then
           Some (s\<lparr>nand_regs := hw\<lparr>hw_row := (hw_row hw)(c := row), hw_pending := (hw_pending hw)(c := True)\<rparr>\<rparr>)
         else Some s)
      else if offset_2 = DMA_PHASE_CMD_REG then
        (let ptr = unat (hw_ram_ptr hw chn); n = NAND_PAGE_SIZE g in
         if data = READ_DMA then
           (let pr = (\<lambda>i. ram s (ptr + i)); s1 = s\<lparr>nand_regs := hw\<lparr>hw_page_reg := (hw_page_reg hw)(c := pr)\<rparr>\<rparr> in
            if hw_pending hw c then
              Some (s1\<lparr>nand_regs := (nand_regs s1)\<lparr>hw_pending := (hw_pending hw)(c := False)\<rparr>,
                       nand_img := put_bytes n (img_off g chn (snd c) (hw_row hw c)) pr (nand_img s1)\<rparr>)
            else Some s1)
         else if data = WRITE_DMA then Some (s\<lparr>ram := put_bytes n ptr (hw_page_reg hw c) (ram s)\<rparr>)
         else Some s)
      else Some s)"

text \<open>The bus: each controller decodes 4 KB, channel 0 from 1024 and channel 1 from 2048.\<close>

definition nand_bus_write :: "geo \<Rightarrow> nat \<Rightarrow> u32 \<Rightarrow> 'a nand_st_scheme \<Rightarrow> 'a nand_st_scheme option" where
  "nand_bus_write g addr data s =
     (let a = addr - get_dev_address DEV_NAND_CTRL; ictrl = a div 0x1000; offset = a mod 0x1000 in
      if offset \<ge> CHANNEL_1_BASE_ADDR then nand_write_reg g (2 * ictrl + 1) (offset - CHANNEL_1_BASE_ADDR) data s
      else if offset \<ge> CHANNEL_0_BASE_ADDR then nand_write_reg g (2 * ictrl) (offset - CHANNEL_0_BASE_ADDR) data s
      else Some s)"

fun nand_exec :: "geo \<Rightarrow> (nat \<times> u32) list \<Rightarrow> 'a nand_st_scheme \<Rightarrow> 'a nand_st_scheme option" where
  "nand_exec g [] s = Some s"
| "nand_exec g ((a, d) # ws) s = nand_bus_write g a d s \<bind> nand_exec g ws"

section \<open>Flash operations\<close>

fun flash_read_pages :: "geo \<Rightarrow> (u64 \<times> nat) list \<Rightarrow> 'a nand_st_scheme \<Rightarrow> 'a nand_st_scheme option" where
  "flash_read_pages g [] s = Some s"
| "flash_read_pages g ((d, a) # pgs) s =
     (let ppa = ppa_of d in
      if p_chn ppa < length (chn_bass_addr g) then
        nand_exec g (read_page_cmds g (chn_bass_addr g ! p_chn ppa) ppa a) s \<bind> flash_read_pages g pgs
      else None)"

fun flash_program_pages :: "geo \<Rightarrow> (u64 \<times> nat) list \<Rightarrow> 'a nand_st_scheme \<Rightarrow> 'a nand_st_scheme option" where
  "flash_program_pages g [] s = Some s"
| "flash_program_pages g ((d, a) # pgs) s =
     (let ppa = ppa_of d in
      if p_chn ppa < length (chn_bass_addr g) then
        nand_exec g (program_page_cmds g (chn_bass_addr g ! p_chn ppa) ppa a) s \<bind> flash_program_pages g pgs
      else None)"

definition do_sync_flash_read :: "geo \<Rightarrow> flash_op_t \<Rightarrow> 'a nand_st_scheme \<Rightarrow> 'a nand_st_scheme option" where
  "do_sync_flash_read g op s = (if fo_nop op = 0 then Some s else flash_read_pages g (take (fo_nop op) (fo_pages op)) s)"

definition do_sync_flash_program :: "geo \<Rightarrow> flash_op_t \<Rightarrow> 'a nand_st_scheme \<Rightarrow> 'a nand_st_scheme option" where
  "do_sync_flash_program g op s = (if fo_nop op = 0 then Some s else flash_program_pages g (take (fo_nop op) (fo_pages op)) s)"

definition sync_end_read_op :: "geo \<Rightarrow> op_ptr \<Rightarrow> 'a nand_st_scheme \<Rightarrow> 'a nand_st_scheme option" where
  "sync_end_read_op g rop s =
     do { op \<leftarrow> get_op rop s; s1 \<leftarrow> do_sync_flash_read g op s; free_op_obj rop s1 }"

definition sync_end_program_op :: "geo \<Rightarrow> op_ptr \<Rightarrow> 'a nand_st_scheme \<Rightarrow> 'a nand_st_scheme option" where
  "sync_end_program_op g pop s =
     do { op \<leftarrow> get_op pop s; s1 \<leftarrow> do_sync_flash_program g op s; free_op_obj pop s1 }"

definition init_nand_io_module :: "'a nand_st_scheme \<Rightarrow> 'a nand_st_scheme option" where
  "init_nand_io_module s =
     do {
       (ftn_id, s1) \<leftarrow> sys_add_thread_function FTL_MODULE_THREAD initialize_nand_ctrl_ftn s;
       let s2 = snd (sys_add_callback_ftn ftn_id NULL s1);
       Some (init_op_obj s2)
     }"

section \<open>Addressing\<close>

lemma concat_pairs_nth:
  "c < 2 * n \<Longrightarrow> concat (map (\<lambda>i. [f i, h i]) [0..<n]) ! c = (if even c then f (c div 2) else h (c div 2))"
proof (induction n)
  case (Suc n)
  have len: "length (concat (map (\<lambda>i. [f i, h i]) [0..<n])) = 2 * n" by (induction n) auto
  show ?case
  proof (cases "c < 2 * n")
    case True
    with Suc.IH len show ?thesis by (simp add: nth_append)
  next
    case False
    with Suc.prems have "c = 2 * n \<or> c = 2 * n + 1" by auto
    with len show ?thesis by (auto simp: nth_append)
  qed
qed simp

lemma chn_bass_addr_length: "length (chn_bass_addr g) = 2 * NUM_NAND_CTRLS g"
proof -
  have "length (concat (map (\<lambda>i. [f i, h i]) [0..<n])) = 2 * n" for f h :: "nat \<Rightarrow> nat" and n by (induction n) auto
  then show ?thesis by (simp add: chn_bass_addr_def Let_def)
qed

lemma chn_bass_addr_nth:
  "c < 2 * NUM_NAND_CTRLS g \<Longrightarrow> chn_bass_addr g ! c =
     get_dev_address DEV_NAND_CTRL + c div 2 * 0x1000 + (if even c then CHANNEL_0_BASE_ADDR else CHANNEL_1_BASE_ADDR)"
  by (simp add: chn_bass_addr_def Let_def concat_pairs_nth)

lemma bus_decode:
  assumes "c < 2 * NUM_NAND_CTRLS g" "off < 1024"
  shows "nand_bus_write g (chn_bass_addr g ! c + off) d s = nand_write_reg g c off d s"
proof -
  let ?b = "get_dev_address DEV_NAND_CTRL"
  define k where "k = (if even c then CHANNEL_0_BASE_ADDR else CHANNEL_1_BASE_ADDR)"
  have a: "chn_bass_addr g ! c + off - ?b = c div 2 * 0x1000 + (k + off)"
    using chn_bass_addr_nth [OF assms(1)] by (simp add: k_def)
  have k: "k + off < 0x1000" using assms(2) by (simp add: k_def nand_reg_defs)
  have "(c div 2 * 0x1000 + (k + off)) div 0x1000 = c div 2" "(c div 2 * 0x1000 + (k + off)) mod 0x1000 = k + off"
    using k by (simp_all add: add.commute [of "_ * _"])
  then show ?thesis
    using assms(2) unfolding nand_bus_write_def Let_def a
    by (cases "even c") (auto simp: k_def nand_reg_defs)
qed

lemma channels_ctrls: "geo_ok g \<Longrightarrow> 2 * NUM_NAND_CTRLS g = NUM_CHANNELS g"
  by (simp add: geo_ok_def NUM_NAND_CTRLS_def)

lemma chip_index_less: "ppa_ok g p \<Longrightarrow> chip_index g p < PLANES_PER_CHANNEL g"
proof -
  assume "ppa_ok g p"
  then have "chip_index g p < DIES_PER_CHANNEL g * PLANES_PER_DIE g"
    unfolding chip_index_def by (intro mixed_less) (auto simp: ppa_ok_def)
  then show ?thesis by (simp add: geom_defs mult.assoc)
qed

lemma unat_u32: "n < 2 ^ 32 \<Longrightarrow> unat (of_nat n :: u32) = n"
  by (simp add: unat_of_nat)

lemma addr_cycle_1_split:
  assumes "geo_ok g" "ppa_ok g p"
  shows "unat (addr_cycle_1 p) mod 2 ^ 16 = p_page p" "unat (addr_cycle_1 p) div 2 ^ 16 = p_block p"
proof -
  have b: "p_page p < 2 ^ 16" "p_block p < 2 ^ 16" using assms by (auto simp: ppa_ok_def geo_ok_def)
  have "p_page p + 2 ^ 16 * p_block p < 2 ^ 16 * 2 ^ 16" by (rule digit_less [OF b])
  then have lt: "p_page p + 2 ^ 16 * p_block p < 2 ^ 32" by simp
  have "p_page p mod 2 ^ 16 + 2 ^ 16 * (p_block p mod 2 ^ 16) = p_page p + 2 ^ 16 * p_block p" using b by simp
  then have "unat (addr_cycle_1 p) = p_page p + 2 ^ 16 * p_block p"
    unfolding addr_cycle_1_def using unat_u32 [OF lt] by metis
  with digit [OF b(1), of "p_block p"] show "unat (addr_cycle_1 p) mod 2 ^ 16 = p_page p"
    "unat (addr_cycle_1 p) div 2 ^ 16 = p_block p" by simp_all
qed

text \<open>The page the controller accesses is the one the mapping tables mean.\<close>

lemma chip_page_ppa:
  assumes "geo_ok g" "ppa_ok g p"
  shows "chip_page g (p_chn p) (chip_index g p) (addr_cycle_1 p) = ppa_index g p"
  unfolding chip_page_def Let_def addr_cycle_1_split [OF assms]
  by (simp add: ppa_index_def block_index_def plane_index_def chip_index_def geom_defs algebra_simps)

lemma img_off_ppa:
  assumes "geo_ok g" "ppa_ok g p"
  shows "img_off g (p_chn p) (chip_index g p) (addr_cycle_1 p) = ppa_index g p * NAND_PAGE_SIZE g"
proof -
  have "ppa_index g p * NAND_PAGE_SIZE g < TOTAL_NUM_OF_PAGES g * NAND_PAGE_SIZE g"
    using ppa_index_less [OF assms(2)] by (simp add: NAND_PAGE_SIZE_def)
  also have "\<dots> \<le> 2 ^ 32" using assms(1) by (simp add: geo_ok_def)
  finally show ?thesis by (simp add: img_off_def chip_page_ppa [OF assms])
qed

section \<open>One page\<close>

lemma nand_cmd_codes [simp]:
  "READ_NAND AND 0xFFFF OR 0x80000000 = READ_NAND" "PROGRAM_NAND AND 0xFFFF OR 0x80000000 = PROGRAM_NAND"
  "PROGRAM_NAND \<noteq> READ_NAND" "WRITE_DMA \<noteq> READ_DMA"
  by (simp_all add: READ_NAND_def PROGRAM_NAND_def READ_DMA_def WRITE_DMA_def)

lemma chip_reg: "geo_ok g \<Longrightarrow> ppa_ok g p \<Longrightarrow> unat (of_nat (chip_index g p) :: u32) = chip_index g p"
proof -
  assume g: "geo_ok g" and p: "ppa_ok g p"
  have "plane_index g p < TOTAL_NUM_OF_PAGES g"
  proof -
    have mono: "(x :: nat) \<le> x * k + y" if "0 < k" for x k y using that by (cases k) auto
    have "plane_index g p \<le> block_index g p" "block_index g p \<le> ppa_index g p"
      unfolding ppa_index_def block_index_def using g by (auto simp: geo_ok_def intro!: mono)
    with ppa_index_less [OF p] show ?thesis by simp
  qed
  moreover have "chip_index g p \<le> plane_index g p" by (simp add: chip_index_def plane_index_def algebra_simps)
  ultimately have "chip_index g p < 2 ^ 32" using g by (simp add: geo_ok_def)
  then show ?thesis by (simp add: unat_of_nat)
qed

lemma nand_read_page:
  assumes "geo_ok g" "ppa_ok g p" "a < 2 ^ 32"
  shows "\<exists>hw. nand_exec g (read_page_cmds g (chn_bass_addr g ! p_chn p) p a) s =
    Some (s\<lparr>nand_regs := hw, ram := put_bytes (NAND_PAGE_SIZE g) a (page_bytes g (nand_img s) (ppa_index g p)) (ram s)\<rparr>)"
proof -
  have c: "p_chn p < 2 * NUM_NAND_CTRLS g" using assms(1,2) channels_ctrls by (simp add: ppa_ok_def)
  note w = bus_decode [OF c] bus_decode [OF c, of 0, simplified] and chip = chip_reg [OF assms(1,2)] less_not_sym [OF chip_index_less [OF assms(2)]]
    and pg = img_off_ppa [OF assms(1,2)]
  have a: "unat (of_nat a :: u32) = a" by (rule unat_u32 [OF assms(3)])
  show ?thesis
    unfolding read_page_cmds_def nand_exec.simps
    by (simp add: w nand_reg_defs) (simp add: nand_write_reg_def nand_reg_defs Let_def chip pg a page_bytes_def, blast)
qed

lemma nand_program_page:
  assumes "geo_ok g" "ppa_ok g p" "a < 2 ^ 32"
  shows "\<exists>hw. nand_exec g (program_page_cmds g (chn_bass_addr g ! p_chn p) p a) s =
    Some (s\<lparr>nand_regs := hw,
      nand_img := put_bytes (NAND_PAGE_SIZE g) (ppa_index g p * NAND_PAGE_SIZE g) (\<lambda>i. ram s (a + i)) (nand_img s)\<rparr>)"
proof -
  have c: "p_chn p < 2 * NUM_NAND_CTRLS g" using assms(1,2) channels_ctrls by (simp add: ppa_ok_def)
  note w = bus_decode [OF c] bus_decode [OF c, of 0, simplified] and chip = chip_reg [OF assms(1,2)] less_not_sym [OF chip_index_less [OF assms(2)]]
    and pg = img_off_ppa [OF assms(1,2)]
  have a: "unat (of_nat a :: u32) = a" by (rule unat_u32 [OF assms(3)])
  show ?thesis
    unfolding program_page_cmds_def nand_exec.simps
    by (simp add: w nand_reg_defs) (simp add: nand_write_reg_def nand_reg_defs Let_def chip pg a, blast)
qed

section \<open>Page lists\<close>

text \<open>What a list of page reads does to RAM, and a list of page programs to the flash image.\<close>

definition copy_in :: "geo \<Rightarrow> (u64 \<times> nat) list \<Rightarrow> mem \<Rightarrow> mem \<Rightarrow> mem" where
  "copy_in g pgs img = fold (\<lambda>(d, a). put_bytes (NAND_PAGE_SIZE g) a (page_bytes g img (ppa_index g (ppa_of d)))) pgs"

definition copy_out :: "geo \<Rightarrow> (u64 \<times> nat) list \<Rightarrow> mem \<Rightarrow> mem \<Rightarrow> mem" where
  "copy_out g pgs m = fold (\<lambda>(d, a). put_bytes (NAND_PAGE_SIZE g) (ppa_index g (ppa_of d) * NAND_PAGE_SIZE g) (\<lambda>i. m (a + i))) pgs"

definition pages_ok :: "geo \<Rightarrow> (u64 \<times> nat) list \<Rightarrow> bool" where
  "pages_ok g pgs \<longleftrightarrow> (\<forall>(d, a) \<in> set pgs. ppa_ok g (ppa_of d) \<and> a < 2 ^ 32)"

lemma pages_ok_simps [simp]:
  "pages_ok g []" "pages_ok g (x # pgs) \<longleftrightarrow> ppa_ok g (ppa_of (fst x)) \<and> snd x < 2 ^ 32 \<and> pages_ok g pgs"
  "pages_ok g (xs @ ys) \<longleftrightarrow> pages_ok g xs \<and> pages_ok g ys"
  by (auto simp: pages_ok_def)

lemma chn_in_range: "geo_ok g \<Longrightarrow> ppa_ok g p \<Longrightarrow> p_chn p < length (chn_bass_addr g)"
  by (simp add: chn_bass_addr_length channels_ctrls ppa_ok_def)

lemma flash_read_pages_copy:
  assumes "geo_ok g" "pages_ok g pgs"
  shows "\<exists>hw. flash_read_pages g pgs s = Some (s\<lparr>nand_regs := hw, ram := copy_in g pgs (nand_img s) (ram s)\<rparr>)"
  using assms(2)
proof (induction pgs arbitrary: s)
  case Nil
  show ?case by (rule exI [of _ "nand_regs s"]) (simp add: copy_in_def)
next
  case (Cons x pgs)
  obtain d a where x: "x = (d, a)" by fastforce
  with Cons.prems have p: "ppa_ok g (ppa_of d)" "a < 2 ^ 32" "pages_ok g pgs" by simp_all
  from nand_read_page [OF assms(1) p(1,2), of s] obtain hw where
    e: "nand_exec g (read_page_cmds g (chn_bass_addr g ! p_chn (ppa_of d)) (ppa_of d) a) s = Some (s\<lparr>nand_regs := hw,
      ram := put_bytes (NAND_PAGE_SIZE g) a (page_bytes g (nand_img s) (ppa_index g (ppa_of d))) (ram s)\<rparr>)" by blast
  note Cons.IH [OF p(3), of "s\<lparr>nand_regs := hw,
      ram := put_bytes (NAND_PAGE_SIZE g) a (page_bytes g (nand_img s) (ppa_index g (ppa_of d))) (ram s)\<rparr>"]
  with e x chn_in_range [OF assms(1) p(1)] show ?case by (simp add: copy_in_def)
qed

lemma flash_program_pages_copy:
  assumes "geo_ok g" "pages_ok g pgs"
  shows "\<exists>hw. flash_program_pages g pgs s = Some (s\<lparr>nand_regs := hw, nand_img := copy_out g pgs (ram s) (nand_img s)\<rparr>)"
  using assms(2)
proof (induction pgs arbitrary: s)
  case Nil
  show ?case by (rule exI [of _ "nand_regs s"]) (simp add: copy_out_def)
next
  case (Cons x pgs)
  obtain d a where x: "x = (d, a)" by fastforce
  with Cons.prems have p: "ppa_ok g (ppa_of d)" "a < 2 ^ 32" "pages_ok g pgs" by simp_all
  let ?img = "put_bytes (NAND_PAGE_SIZE g) (ppa_index g (ppa_of d) * NAND_PAGE_SIZE g) (\<lambda>i. ram s (a + i)) (nand_img s)"
  from nand_program_page [OF assms(1) p(1,2), of s] obtain hw where
    e: "nand_exec g (program_page_cmds g (chn_bass_addr g ! p_chn (ppa_of d)) (ppa_of d) a) s =
      Some (s\<lparr>nand_regs := hw, nand_img := ?img\<rparr>)" by blast
  note Cons.IH [OF p(3), of "s\<lparr>nand_regs := hw, nand_img := ?img\<rparr>"]
  with e x chn_in_range [OF assms(1) p(1)] show ?case by (simp add: copy_out_def)
qed

section \<open>The life of an operation\<close>

definition op_queue_ok :: "op_q_t \<Rightarrow> bool" where
  "op_queue_ok q \<longleftrightarrow> oo_size q = MAX_OPS \<and> length (oo_objs q) = MAX_OPS \<and> oo_head q < MAX_OPS \<and> oo_tail q < MAX_OPS"

definition ops_ok :: "u32 \<Rightarrow> flash_op_t list \<Rightarrow> bool" where
  "ops_ok t ops \<longleftrightarrow> length ops = MAX_OPS \<and> (\<forall>op \<in> set ops. fo_type op = t \<and> length (fo_pages op) = 128)"

text \<open>The read pool between two operations: the queue is full.\<close>

definition rop_ready :: "'a nand_st_scheme \<Rightarrow> bool" where
  "rop_ready s \<longleftrightarrow> ops_ok FLASH_READ_OPERATION (rops s) \<and> op_queue_ok (free_rop_objs s) \<and>
     oo_head (free_rop_objs s) = oo_tail (free_rop_objs s) \<and> (\<forall>i < MAX_OPS. oo_objs (free_rop_objs s) ! i = ROP i)"

text \<open>A program operation can begin: there is an object at the head of the queue.\<close>

definition pop_ready :: "'a nand_st_scheme \<Rightarrow> bool" where
  "pop_ready s \<longleftrightarrow> ops_ok FLASH_PROGRAM_OPERATION (pops s) \<and> op_queue_ok (free_pop_objs s) \<and>
     (\<exists>k < MAX_OPS. oo_objs (free_pop_objs s) ! oo_head (free_pop_objs s) = POP k)"

text \<open>An operation that has been begun and holds a list of pages.\<close>

definition op_holds :: "flash_op_t list \<Rightarrow> nat \<Rightarrow> (u64 \<times> nat) list \<Rightarrow> bool" where
  "op_holds ops k pgs \<longleftrightarrow> k < length ops \<and> fo_nop (ops ! k) = length pgs \<and> take (length pgs) (fo_pages (ops ! k)) = pgs"

lemma ops_ok_upd: "ops_ok t ops \<Longrightarrow> fo_type op = t \<Longrightarrow> length (fo_pages op) = 128 \<Longrightarrow> ops_ok t (ops[k := op])"
  by (auto simp: ops_ok_def dest: in_set_updD)

lemma ops_ok_nth: "ops_ok t ops \<Longrightarrow> k < MAX_OPS \<Longrightarrow> fo_type (ops ! k) = t \<and> length (fo_pages (ops ! k)) = 128"
  by (auto simp: ops_ok_def)

lemma op_holds_start: "k < length ops \<Longrightarrow> op_holds (ops[k := op\<lparr>fo_nop := 0\<rparr>]) k []"
  by (simp add: op_holds_def)

lemma op_holds_snoc:
  assumes "op_holds ops k pgs" "length pgs < 128" "length (fo_pages (ops ! k)) = 128"
  shows "op_holds (ops[k := (ops ! k)\<lparr>fo_pages := (fo_pages (ops ! k))[fo_nop (ops ! k) := x], fo_nop := fo_nop (ops ! k) + 1\<rparr>]) k (pgs @ [x])"
  using assms by (simp add: op_holds_def take_Suc_conv_app_nth take_update_swap)

lemma begin_read:
  assumes "rop_ready s"
  obtains k s1 where "begin_read_op s = Some (ROP k, s1)" "k < MAX_OPS" "op_holds (rops s1) k []"
    "s1 = s\<lparr>free_rop_objs := (free_rop_objs s)\<lparr>oo_head := (k + 1) mod MAX_OPS\<rparr>,
      rops := (rops s)[k := (rops s ! k)\<lparr>fo_nop := 0\<rparr>]\<rparr>"
    "ops_ok FLASH_READ_OPERATION (rops s1)" "k = oo_head (free_rop_objs s)"
proof -
  define k where "k = oo_head (free_rop_objs s)"
  have k: "k < MAX_OPS" "oo_objs (free_rop_objs s) ! k = ROP k" "oo_head (free_rop_objs s) = k"
    using assms by (auto simp: rop_ready_def op_queue_ok_def k_def)
  let ?s1 = "s\<lparr>free_rop_objs := (free_rop_objs s)\<lparr>oo_head := (k + 1) mod MAX_OPS\<rparr>,
      rops := (rops s)[k := (rops s ! k)\<lparr>fo_nop := 0\<rparr>]\<rparr>"
  have ok: "ops_ok FLASH_READ_OPERATION (rops s)" "oo_size (free_rop_objs s) = MAX_OPS" "length (rops s) = MAX_OPS"
    using assms by (auto simp: rop_ready_def op_queue_ok_def ops_ok_def)
  have "begin_read_op s = Some (ROP k, ?s1)"
    using k ok by (simp add: begin_read_op_def malloc_op_obj_def q_take_def get_op_def set_op_def)
  moreover have "op_holds (rops ?s1) k []" using k(1) ok(3) by (simp add: op_holds_def)
  moreover have "ops_ok FLASH_READ_OPERATION (rops ?s1)"
    using ops_ok_upd [OF ok(1)] ops_ok_nth [OF ok(1) k(1)] by simp
  ultimately show thesis by (rule that [OF _ k(1) _ refl _ k(3) [symmetric]])
qed

lemma begin_program:
  assumes "pop_ready s"
  obtains k s1 where "begin_program_op s = Some (POP k, s1)" "k < MAX_OPS" "op_holds (pops s1) k []"
    "s1 = s\<lparr>free_pop_objs := (free_pop_objs s)\<lparr>oo_head := (oo_head (free_pop_objs s) + 1) mod MAX_OPS\<rparr>,
      pops := (pops s)[k := (pops s ! k)\<lparr>fo_nop := 0\<rparr>]\<rparr>"
    "ops_ok FLASH_PROGRAM_OPERATION (pops s1)"
proof -
  from assms obtain k where k: "k < MAX_OPS" "oo_objs (free_pop_objs s) ! oo_head (free_pop_objs s) = POP k"
    by (auto simp: pop_ready_def)
  let ?s1 = "s\<lparr>free_pop_objs := (free_pop_objs s)\<lparr>oo_head := (oo_head (free_pop_objs s) + 1) mod MAX_OPS\<rparr>,
      pops := (pops s)[k := (pops s ! k)\<lparr>fo_nop := 0\<rparr>]\<rparr>"
  have ok: "ops_ok FLASH_PROGRAM_OPERATION (pops s)" "oo_size (free_pop_objs s) = MAX_OPS" "length (pops s) = MAX_OPS"
    using assms by (auto simp: pop_ready_def op_queue_ok_def ops_ok_def)
  have "FLASH_PROGRAM_OPERATION \<noteq> FLASH_READ_OPERATION" by (simp add: FLASH_PROGRAM_OPERATION_def FLASH_READ_OPERATION_def)
  then have "begin_program_op s = Some (POP k, ?s1)"
    using k ok by (simp add: begin_program_op_def malloc_op_obj_def q_take_def get_op_def set_op_def)
  moreover have "ops_ok FLASH_PROGRAM_OPERATION (pops ?s1)"
    using ops_ok_upd [OF ok(1)] ops_ok_nth [OF ok(1) k(1)] by simp
  ultimately show thesis using that [of k ?s1] k ok by (simp add: op_holds_def)
qed

lemma add_read:
  assumes "op_holds (rops s) k pgs" "length pgs < 128" "ops_ok FLASH_READ_OPERATION (rops s)"
  shows "\<exists>rs. add_read_op_page (ROP k) d a s = Some (length pgs + 1, s\<lparr>rops := rs\<rparr>) \<and> op_holds rs k (pgs @ [(d, a)]) \<and>
    ops_ok FLASH_READ_OPERATION rs"
proof -
  have k: "k < MAX_OPS" "k < length (rops s)" "fo_nop (rops s ! k) = length pgs" using assms by (auto simp: op_holds_def ops_ok_def)
  note n = ops_ok_nth [OF assms(3) k(1)]
  let ?rs = "(rops s)[k := (rops s ! k)\<lparr>fo_pages := (fo_pages (rops s ! k))[fo_nop (rops s ! k) := (d, a)],
     fo_nop := fo_nop (rops s ! k) + 1\<rparr>]"
  have "ops_ok FLASH_READ_OPERATION ?rs" using n by (intro ops_ok_upd [OF assms(3)]) simp_all
  with op_holds_snoc [OF assms(1,2)] n assms(2) k show ?thesis
    by (intro exI [of _ ?rs]) (simp add: add_read_op_page_def get_op_def set_op_def)
qed

lemma add_program:
  assumes "op_holds (pops s) k pgs" "length pgs < 128" "ops_ok FLASH_PROGRAM_OPERATION (pops s)"
  shows "\<exists>ps. add_program_op_page (POP k) d a s = Some (length pgs + 1, s\<lparr>pops := ps\<rparr>) \<and> op_holds ps k (pgs @ [(d, a)]) \<and>
    ops_ok FLASH_PROGRAM_OPERATION ps"
proof -
  have k: "k < MAX_OPS" "k < length (pops s)" "fo_nop (pops s ! k) = length pgs" using assms by (auto simp: op_holds_def ops_ok_def)
  note n = ops_ok_nth [OF assms(3) k(1)]
  let ?ps = "(pops s)[k := (pops s ! k)\<lparr>fo_pages := (fo_pages (pops s ! k))[fo_nop (pops s ! k) := (d, a)],
     fo_nop := fo_nop (pops s ! k) + 1\<rparr>]"
  have "ops_ok FLASH_PROGRAM_OPERATION ?ps" using n by (intro ops_ok_upd [OF assms(3)]) simp_all
  with op_holds_snoc [OF assms(1,2)] n assms(2) k show ?thesis
    by (intro exI [of _ ?ps]) (simp add: add_program_op_page_def get_op_def set_op_def)
qed

lemma end_read:
  assumes "geo_ok g" "op_holds (rops s) k pgs" "ops_ok FLASH_READ_OPERATION (rops s)" "pages_ok g pgs"
  shows "\<exists>hw. sync_end_read_op g (ROP k) s = Some (s\<lparr>nand_regs := hw, ram := copy_in g pgs (nand_img s) (ram s),
    free_rop_objs := q_give (free_rop_objs s) (ROP k)\<rparr>)"
proof -
  have k: "k < length (rops s)" "fo_nop (rops s ! k) = length pgs" "take (length pgs) (fo_pages (rops s ! k)) = pgs" "k < MAX_OPS"
    using assms by (auto simp: op_holds_def ops_ok_def)
  note t = ops_ok_nth [OF assms(3) k(4)]
  obtain hw where "flash_read_pages g pgs s = Some (s\<lparr>nand_regs := hw, ram := copy_in g pgs (nand_img s) (ram s)\<rparr>)"
    using flash_read_pages_copy [OF assms(1,4)] by blast
  moreover have "do_sync_flash_read g (rops s ! k) s = flash_read_pages g pgs s"
    using k by (cases pgs) (simp_all add: do_sync_flash_read_def)
  ultimately show ?thesis
    using k t by (intro exI [of _ hw]) (simp add: sync_end_read_op_def get_op_def free_op_obj_def)
qed

lemma end_program:
  assumes "geo_ok g" "op_holds (pops s) k pgs" "ops_ok FLASH_PROGRAM_OPERATION (pops s)" "pages_ok g pgs"
  shows "\<exists>hw. sync_end_program_op g (POP k) s = Some (s\<lparr>nand_regs := hw, nand_img := copy_out g pgs (ram s) (nand_img s),
    free_pop_objs := q_give (free_pop_objs s) (POP k)\<rparr>)"
proof -
  have k: "k < length (pops s)" "fo_nop (pops s ! k) = length pgs" "take (length pgs) (fo_pages (pops s ! k)) = pgs" "k < MAX_OPS"
    using assms by (auto simp: op_holds_def ops_ok_def)
  note t = ops_ok_nth [OF assms(3) k(4)]
  have ne: "FLASH_PROGRAM_OPERATION \<noteq> FLASH_READ_OPERATION" by (simp add: FLASH_PROGRAM_OPERATION_def FLASH_READ_OPERATION_def)
  obtain hw where "flash_program_pages g pgs s = Some (s\<lparr>nand_regs := hw, nand_img := copy_out g pgs (ram s) (nand_img s)\<rparr>)"
    using flash_program_pages_copy [OF assms(1,4)] by blast
  moreover have "do_sync_flash_program g (pops s ! k) s = flash_program_pages g pgs s"
    using k by (cases pgs) (simp_all add: do_sync_flash_program_def)
  ultimately show ?thesis
    using k t ne by (intro exI [of _ hw]) (simp add: sync_end_program_op_def get_op_def free_op_obj_def)
qed

text \<open>After a complete read operation the pool is ready again.\<close>

lemma rop_ready_cycle:
  assumes "rop_ready s" "k = oo_head (free_rop_objs s)" "ops_ok FLASH_READ_OPERATION (rops s')"
    and "free_rop_objs s' = q_give ((free_rop_objs s)\<lparr>oo_head := (k + 1) mod MAX_OPS\<rparr>) (ROP k)"
  shows "rop_ready s'"
proof -
  have q: "oo_size (free_rop_objs s) = MAX_OPS" "length (oo_objs (free_rop_objs s)) = MAX_OPS" "k < MAX_OPS"
    "oo_tail (free_rop_objs s) = k" "\<forall>i < MAX_OPS. oo_objs (free_rop_objs s) ! i = ROP i"
    using assms(1,2) by (auto simp: rop_ready_def op_queue_ok_def)
  moreover from this have "(oo_objs (free_rop_objs s))[k := ROP k] = oo_objs (free_rop_objs s)"
    by (metis list_update_id)
  ultimately show ?thesis
    using assms(3,4) by (simp add: rop_ready_def op_queue_ok_def q_give_def MAX_OPS_def)
qed

section \<open>Initialisation of the pools\<close>

lemma fold_upd_same: "fold (\<lambda>i ob. ob[i := f i]) [0..<n] xs = map f [0..<min n (length xs)] @ drop n xs"
proof (induction n)
  case (Suc n)
  show ?case
  proof (cases "n < length xs")
    case True
    then have "drop n xs = xs ! n # drop (Suc n) xs" by (simp add: Cons_nth_drop_Suc)
    with Suc True show ?thesis by (simp add: list_update_append min_def)
  next
    case False
    with Suc show ?thesis by (simp add: list_update_beyond min_def)
  qed
qed simp

lemma fold_upd_0: "fold (\<lambda>i ob. ob[0 := f i]) [0..<Suc n] xs = xs[0 := f n]"
  by (induction n) auto

definition zero_op :: flash_op_t where
  "zero_op = \<lparr>fo_type = 0, fo_index = 0, fo_nop = 0, fo_pages = replicate 128 (0, 0)\<rparr>"

text \<open>The zeroed driver state of the firmware image.\<close>

definition op_image :: "'a nand_st_scheme \<Rightarrow> bool" where
  "op_image s \<longleftrightarrow> rops s = replicate MAX_OPS zero_op \<and> pops s = replicate MAX_OPS zero_op \<and>
     oo_objs (free_rop_objs s) = replicate MAX_OPS NULL_OP \<and> oo_objs (free_pop_objs s) = replicate MAX_OPS NULL_OP"

lemma init_op_obj_ready:
  assumes "op_image s"
  shows "rop_ready (init_op_obj s)" "pop_ready (init_op_obj s)"
    "oo_objs (free_pop_objs (init_op_obj s)) = (replicate MAX_OPS NULL_OP)[0 := POP (MAX_OPS - 1)]"
proof -
  have M: "MAX_OPS = Suc 127" by (simp add: MAX_OPS_def)
  have objs: "fold (\<lambda>i ob. ob[i := ROP i]) [0..<MAX_OPS] (replicate MAX_OPS NULL_OP) = map ROP [0..<MAX_OPS]"
    by (simp add: fold_upd_same)
  have pobjs: "fold (\<lambda>i ob. ob[0 := POP i]) [0..<MAX_OPS] (replicate MAX_OPS NULL_OP) = (replicate MAX_OPS NULL_OP)[0 := POP 127]"
    unfolding M by (rule fold_upd_0)
  show "rop_ready (init_op_obj s)"
    using assms unfolding rop_ready_def init_op_obj_def Let_def op_image_def
    by (simp add: objs op_queue_ok_def ops_ok_def zero_op_def) (simp add: MAX_OPS_def)
  show "pop_ready (init_op_obj s)"
    using assms unfolding pop_ready_def init_op_obj_def Let_def op_image_def
    by (simp add: pobjs op_queue_ok_def ops_ok_def zero_op_def) (simp add: MAX_OPS_def)
  show "oo_objs (free_pop_objs (init_op_obj s)) = (replicate MAX_OPS NULL_OP)[0 := POP (MAX_OPS - 1)]"
    using assms unfolding init_op_obj_def Let_def op_image_def by (simp add: pobjs) (simp add: MAX_OPS_def)
qed

section \<open>Properties\<close>

text \<open>
  C29. The register protocol is right: for any list of existing pages, the writes that
  \<open>__do_sync_flash_program\<close> makes, decoded and executed by the controller, store exactly the RAM
  pages at the addressed flash pages, and those of \<open>__do_sync_flash_read\<close> bring exactly these flash
  pages to RAM; nothing else of the state changes but the controller's own registers.
\<close>

theorem nand_driver_transfers:
  assumes "geo_ok g" "pages_ok g pgs" "fo_nop op = length pgs" "take (length pgs) (fo_pages op) = pgs"
  shows "(\<exists>hw. do_sync_flash_read g op s = Some (s\<lparr>nand_regs := hw, ram := copy_in g pgs (nand_img s) (ram s)\<rparr>)) \<and>
    (\<exists>hw. do_sync_flash_program g op s = Some (s\<lparr>nand_regs := hw, nand_img := copy_out g pgs (ram s) (nand_img s)\<rparr>))"
proof -
  have "do_sync_flash_read g op s = flash_read_pages g pgs s" "do_sync_flash_program g op s = flash_program_pages g pgs s"
    using assms(3,4) by (cases pgs; simp add: do_sync_flash_read_def do_sync_flash_program_def)+
  with flash_read_pages_copy [OF assms(1,2), of s] flash_program_pages_copy [OF assms(1,2), of s] show ?thesis by simp
qed

text \<open>A driver state for evaluation.\<close>

definition nand_image :: nand_st where
  "nand_image = req_st.extend req_image (nand_st.fields (\<lambda>_. 0) (\<lambda>_. 0)
     \<lparr>hw_chip = (\<lambda>_. 0), hw_addr_1 = (\<lambda>_. 0), hw_ram_ptr = (\<lambda>_. 0), hw_page_reg = (\<lambda>_ _. 0), hw_row = (\<lambda>_. 0), hw_pending = (\<lambda>_. False)\<rparr>
     (replicate MAX_OPS zero_op) (replicate MAX_OPS zero_op)
     \<lparr>oo_tail = 0, oo_head = 0, oo_size = 0, oo_objs = replicate MAX_OPS NULL_OP\<rparr>
     \<lparr>oo_tail = 0, oo_head = 0, oo_size = 0, oo_objs = replicate MAX_OPS NULL_OP\<rparr>)"

lemma op_image_nand_image: "op_image nand_image"
  by (simp add: op_image_def nand_image_def req_st.extend_def nand_st.fields_def)

theorem nand_driver_transfers_witness:
  "\<exists>hw. do_sync_flash_read tiny_geo \<lparr>fo_type = 8, fo_index = 1, fo_nop = 1, fo_pages = [(0, 64)]\<rparr> nand_image =
     Some (nand_image\<lparr>nand_regs := hw, ram := copy_in tiny_geo [(0, 64)] (nand_img nand_image) (ram nand_image)\<rparr>)"
proof -
  have "ppa_ok tiny_geo (ppa_of 0)"
    by (simp add: ppa_ok_def ppa_of_def Let_def tiny_geo_def geom_defs)
  then show ?thesis
    using nand_driver_transfers [OF geo_ok_default(2), of "[(0, 64)]" "\<lparr>fo_type = 8, fo_index = 1, fo_nop = 1, fo_pages = [(0, 64)]\<rparr>" nand_image]
    by simp
qed

text \<open>The pages of an operation, added one after the other.\<close>

fun add_program_pages :: "op_ptr \<Rightarrow> (u64 \<times> nat) list \<Rightarrow> 'a nand_st_scheme \<Rightarrow> 'a nand_st_scheme option" where
  "add_program_pages p [] s = Some s"
| "add_program_pages p ((d, a) # pgs) s = do { (n, s1) \<leftarrow> add_program_op_page p d a s; add_program_pages p pgs s1 }"

lemma add_program_pages_ok:
  "op_holds (pops s) k done \<Longrightarrow> length done + length pgs \<le> 128 \<Longrightarrow> ops_ok FLASH_PROGRAM_OPERATION (pops s) \<Longrightarrow>
     \<exists>ps. add_program_pages (POP k) pgs s = Some (s\<lparr>pops := ps\<rparr>) \<and> op_holds ps k (done @ pgs) \<and> ops_ok FLASH_PROGRAM_OPERATION ps"
proof (induction pgs arbitrary: s "done")
  case Nil
  then show ?case by (intro exI [of _ "pops s"]) simp
next
  case (Cons pg pgs)
  obtain d a where pg: "pg = (d, a)" by fastforce
  from add_program [OF Cons.prems(1) _ Cons.prems(3), of d a] Cons.prems(2) obtain ps where
    ps: "add_program_op_page (POP k) d a s = Some (length done + 1, s\<lparr>pops := ps\<rparr>)" "op_holds ps k (done @ [(d, a)])"
      "ops_ok FLASH_PROGRAM_OPERATION ps" by auto
  from Cons.IH [of "s\<lparr>pops := ps\<rparr>" "done @ [(d, a)]"] ps Cons.prems(2) show ?case by (auto simp: pg)
qed

text \<open>
  C38. The driver can program flash only once. The first program operation after \<open>init_op_obj\<close> works for any list of up to 128
  existing pages: it is begun, takes the pages, and its end stores them in flash. But \<open>init_op_obj\<close> stores every program
  operation object in slot 0 of the free queue, so after that the queue yields a null pointer and the next
  \<open>begin_program_op\<close> stores through it. Read operations do not have this limit.
\<close>

theorem second_program_op_fails:
  assumes "op_image s0" "geo_ok g" "pages_ok g pgs" "length pgs \<le> 128"
  shows "\<exists>p s1 s2 s3. begin_program_op (init_op_obj s0) = Some (p, s1) \<and> add_program_pages p pgs s1 = Some s2 \<and>
    sync_end_program_op g p s2 = Some s3 \<and> nand_img s3 = copy_out g pgs (ram s0) (nand_img s0) \<and>
    begin_program_op s3 = None \<and> begin_read_op s3 \<noteq> None"
proof -
  note ready = init_op_obj_ready [OF assms(1)]
  let ?s = "init_op_obj s0"
  obtain k s1 where k: "begin_program_op ?s = Some (POP k, s1)" "k < MAX_OPS" "op_holds (pops s1) k []" "ops_ok FLASH_PROGRAM_OPERATION (pops s1)"
    and s1: "s1 = ?s\<lparr>free_pop_objs := (free_pop_objs ?s)\<lparr>oo_head := (oo_head (free_pop_objs ?s) + 1) mod MAX_OPS\<rparr>,
      pops := (pops ?s)[k := (pops ?s ! k)\<lparr>fo_nop := 0\<rparr>]\<rparr>"
    using begin_program [OF ready(2)] by metis
  from add_program_pages_ok [OF k(3) _ k(4), of pgs] assms(4) obtain ps where
    a: "add_program_pages (POP k) pgs s1 = Some (s1\<lparr>pops := ps\<rparr>)" "op_holds ps k pgs" "ops_ok FLASH_PROGRAM_OPERATION ps" by auto
  from end_program [OF assms(2) _ _ assms(3), of "s1\<lparr>pops := ps\<rparr>" k] a(2,3) obtain hw where
    e: "sync_end_program_op g (POP k) (s1\<lparr>pops := ps\<rparr>) = Some (s1\<lparr>pops := ps, nand_regs := hw, nand_img := copy_out g pgs (ram s1) (nand_img s1),
      free_pop_objs := q_give (free_pop_objs s1) (POP k)\<rparr>)" by auto
  define s3 where "s3 = s1\<lparr>pops := ps, nand_regs := hw, nand_img := copy_out g pgs (ram s1) (nand_img s1),
      free_pop_objs := q_give (free_pop_objs s1) (POP k)\<rparr>"
  have img: "nand_img s3 = copy_out g pgs (ram s0) (nand_img s0)" by (simp add: s3_def s1 init_op_obj_def Let_def)
  have "oo_head (free_pop_objs ?s) = 0" "oo_tail (free_pop_objs ?s) = 0" "oo_size (free_pop_objs ?s) = MAX_OPS"
    by (simp_all add: init_op_obj_def Let_def)
  then have "oo_objs (free_pop_objs s3) ! oo_head (free_pop_objs s3) = NULL_OP"
    using ready(3) by (simp add: s3_def s1 q_give_def MAX_OPS_def)
  then have "begin_program_op s3 = None"
    by (simp add: begin_program_op_def malloc_op_obj_def q_take_def get_op_def FLASH_PROGRAM_OPERATION_def FLASH_READ_OPERATION_def)
  moreover have "rop_ready s3" using ready(1) by (simp add: s3_def s1 rop_ready_def)
  then have "begin_read_op s3 \<noteq> None" by (rule begin_read) simp
  ultimately show ?thesis using k(1) a(1) e [folded s3_def] img by blast
qed

theorem second_program_op_fails_witness:
  "\<exists>p s1 s2 s3. begin_program_op (init_op_obj nand_image) = Some (p, s1) \<and> add_program_pages p [(0, 64)] s1 = Some s2 \<and>
     sync_end_program_op tiny_geo p s2 = Some s3 \<and> begin_program_op s3 = None"
proof -
  have "ppa_ok tiny_geo (ppa_of 0)"
    by (simp add: ppa_ok_def ppa_of_def Let_def tiny_geo_def geom_defs)
  with second_program_op_fails [OF op_image_nand_image geo_ok_default(2), of "[(0, 64)]"] show ?thesis by auto
qed

end
