(* ===== verification/Ftl_Map.thy ===== *)
theory Ftl_Map
  imports Nand_Io
begin

text \<open>
  The page-mapping flash translation layer: the tables of \<^verbatim>\<open>ftl.h\<close>, the search for a free page,
  the mapping of a logical page to a new physical page and the initialisation of new media
  (\<^verbatim>\<open>ftl.c\<close>), from the tables that \<^verbatim>\<open>gen_mapping_tables.cpp\<close> generates. Tables with several
  dimensions are lists indexed by \<open>ppa_index\<close>, \<open>block_index\<close> and \<open>plane_index\<close>; an access past
  the end of the list is \<open>None\<close>.
\<close>

unbundle bit_operations_syntax

section \<open>Tables\<close>

definition FREE_PPA :: u32 where "FREE_PPA = 0x40000000"
definition INVALID_PPA :: u32 where "INVALID_PPA = 0x80000000"
definition RESERVED_PPA :: u32 where "RESERVED_PPA = 0xc0000000"
definition VALID_PPA_MASK :: u32 where "VALID_PPA_MASK = 0xc0000000"

record ftl_config_t =
  cf_nand_ds :: u32
  cf_host_ds :: u32
  cf_pages_per_block :: u32
  cf_total_pages :: u32
  rpp_ovp :: u32
  rpp_map_tables :: u32
  total_rpp :: u32
  total_logical_pages :: u32
  total_invalid_pages :: u32
  total_valid_pages :: u32
  total_free_pages :: u32
  last_selected_ppa :: ppa_t
  mapping_tables :: "ppa_t list"

record block_meta_t =
  invalid_pgs :: u16
  valid_pgs :: u16
  erase_count :: u32

record ssd_config_t =
  sc_host_ds :: u32
  nsze :: u32
  ncap :: u32
  nuse :: u32

record ftl_st = nand_st +
  ftl_config :: ftl_config_t
  last_searched_channel :: ppa_t
  lpa_table :: "ppa_t list"
  ppa_table :: "u32 list"
  blk_table :: "block_meta_t list"
  last_page_per_plane :: "ppa_t list"
  ZERO_BUFFER :: nat
  private_pg_buff :: nat
  load_mp_buffer :: nat
  ssd_config :: ssd_config_t

section \<open>Table access\<close>

definition IS_UNMAPPED_LPA :: "nat \<Rightarrow> 'a ftl_st_scheme \<Rightarrow> bool option" where
  "IS_UNMAPPED_LPA lpn s = (if lpn < length (lpa_table s) then Some (p_chn (lpa_table s ! lpn) = 0xFF) else None)"

definition GET_MAPPED_PPA :: "nat \<Rightarrow> 'a ftl_st_scheme \<Rightarrow> ppa_t option" where
  "GET_MAPPED_PPA lpn s = (if lpn < length (lpa_table s) then Some (lpa_table s ! lpn) else None)"

definition SET_MAPPED_PPA :: "nat \<Rightarrow> ppa_t \<Rightarrow> 'a ftl_st_scheme \<Rightarrow> 'a ftl_st_scheme option" where
  "SET_MAPPED_PPA lpn ppa s =
     (if lpn < length (lpa_table s) then Some (s\<lparr>lpa_table := (lpa_table s)[lpn := ppa]\<rparr>) else None)"

text \<open>\<open>SET_MAPPED_LPA\<close>, \<open>SET_INVALID_PPA\<close>, \<open>SET_RESERVED_PPA\<close> and \<open>SET_FREE_PPA\<close> store a value.\<close>

definition set_ppa_entry :: "geo \<Rightarrow> ppa_t \<Rightarrow> u32 \<Rightarrow> 'a ftl_st_scheme \<Rightarrow> 'a ftl_st_scheme option" where
  "set_ppa_entry g ppa v s =
     (if ppa_index g ppa < length (ppa_table s) then Some (s\<lparr>ppa_table := (ppa_table s)[ppa_index g ppa := v]\<rparr>) else None)"

definition SET_MAPPED_LPA :: "geo \<Rightarrow> nat \<Rightarrow> ppa_t \<Rightarrow> 'a ftl_st_scheme \<Rightarrow> 'a ftl_st_scheme option" where
  "SET_MAPPED_LPA g lpn ppa s = set_ppa_entry g ppa (of_nat lpn) s"

definition MAP_LPA_AND_PPA :: "geo \<Rightarrow> nat \<Rightarrow> ppa_t \<Rightarrow> 'a ftl_st_scheme \<Rightarrow> 'a ftl_st_scheme option" where
  "MAP_LPA_AND_PPA g lpn ppa s = SET_MAPPED_PPA lpn ppa s \<bind> SET_MAPPED_LPA g lpn ppa"

definition SET_INVALID_PPA :: "geo \<Rightarrow> ppa_t \<Rightarrow> 'a ftl_st_scheme \<Rightarrow> 'a ftl_st_scheme option" where
  "SET_INVALID_PPA g ppa s = set_ppa_entry g ppa INVALID_PPA s"

definition SET_RESERVED_PPA :: "geo \<Rightarrow> ppa_t \<Rightarrow> 'a ftl_st_scheme \<Rightarrow> 'a ftl_st_scheme option" where
  "SET_RESERVED_PPA g ppa s = set_ppa_entry g ppa RESERVED_PPA s"

definition IS_FREE_PPA :: "geo \<Rightarrow> u32 list \<Rightarrow> ppa_t \<Rightarrow> bool option" where
  "IS_FREE_PPA g t ppa = (if ppa_index g ppa < length t then Some (t ! ppa_index g ppa = FREE_PPA) else None)"

definition upd_blk :: "geo \<Rightarrow> ppa_t \<Rightarrow> (block_meta_t \<Rightarrow> block_meta_t) \<Rightarrow> 'a ftl_st_scheme \<Rightarrow> 'a ftl_st_scheme option" where
  "upd_blk g ppa f s =
     (let i = block_index g ppa in
      if i < length (blk_table s) then Some (s\<lparr>blk_table := (blk_table s)[i := f (blk_table s ! i)]\<rparr>) else None)"

definition INC_VALID_PAGES :: "geo \<Rightarrow> ppa_t \<Rightarrow> 'a ftl_st_scheme \<Rightarrow> 'a ftl_st_scheme option" where
  "INC_VALID_PAGES g ppa = upd_blk g ppa (\<lambda>b. b\<lparr>valid_pgs := valid_pgs b + 1\<rparr>)"

definition DEC_VALID_PAGES :: "geo \<Rightarrow> ppa_t \<Rightarrow> 'a ftl_st_scheme \<Rightarrow> 'a ftl_st_scheme option" where
  "DEC_VALID_PAGES g ppa = upd_blk g ppa (\<lambda>b. b\<lparr>valid_pgs := valid_pgs b - 1\<rparr>)"

definition INC_INVALID_PAGES :: "geo \<Rightarrow> ppa_t \<Rightarrow> 'a ftl_st_scheme \<Rightarrow> 'a ftl_st_scheme option" where
  "INC_INVALID_PAGES g ppa = upd_blk g ppa (\<lambda>b. b\<lparr>invalid_pgs := invalid_pgs b + 1\<rparr>)"

section \<open>Finding a free page\<close>

text \<open>The loop over the pages of a block; it ends unless the block has more than 65535 pages.\<close>

partial_function (option) scan_block :: "geo \<Rightarrow> u32 list \<Rightarrow> ppa_t \<Rightarrow> (bool \<times> ppa_t) option" where
  "scan_block g t i_ppa =
     (if p_page i_ppa < PAGES_PER_BLOCK g then
        do { free \<leftarrow> IS_FREE_PPA g t i_ppa; if free then Some (True, i_ppa) else scan_block g t (inc_page i_ppa) }
      else Some (False, i_ppa))"

definition next_block :: "geo \<Rightarrow> ppa_t \<Rightarrow> ppa_t" where
  "next_block g i_ppa =
     (let i = (inc_block i_ppa)\<lparr>p_page := 0\<rparr> in if p_block i > BLOCKS_PER_PLANE g then i\<lparr>p_block := 0\<rparr> else i)"

text \<open>The loop over the blocks of a plane, with the number of iterations left.\<close>

fun scan_plane :: "geo \<Rightarrow> u32 list \<Rightarrow> nat \<Rightarrow> ppa_t \<Rightarrow> (bool \<times> ppa_t) option" where
  "scan_plane g t 0 i_ppa = Some (False, i_ppa)"
| "scan_plane g t (Suc k) i_ppa =
     do { (found, i) \<leftarrow> scan_block g t i_ppa;
          if found then Some (True, i) else scan_plane g t k (next_block g i) }"

text \<open>The plane after the one searched last: the next channel, then the next die, then the next plane.\<close>

definition next_plane :: "geo \<Rightarrow> ppa_t \<Rightarrow> ppa_t" where
  "next_plane g l =
     (let chn = p_chn l + 1; die = p_die l; plane = p_plane l in
      if chn \<ge> NUM_CHANNELS g then
        (let die = die + 1 in
         if die \<ge> DIES_PER_CHANNEL g then
           (let plane = plane + 1 in
            if plane \<ge> PLANES_PER_DIE g then zero_ppa else zero_ppa\<lparr>p_plane := plane\<rparr>)
         else zero_ppa\<lparr>p_die := die, p_plane := plane\<rparr>)
      else zero_ppa\<lparr>p_chn := chn, p_die := die, p_plane := plane\<rparr>)"

text \<open>\<open>find_free_page\<close>: the new page, or none in this plane.\<close>

definition find_free_page :: "geo \<Rightarrow> 'a ftl_st_scheme \<Rightarrow> (ppa_t option \<times> 'a ftl_st_scheme) option" where
  "find_free_page g s =
     (let pi = plane_index g (next_plane g (last_searched_channel s)) in
      if length (last_page_per_plane s) \<le> pi then None
      else do {
        (found, i) \<leftarrow> scan_plane g (ppa_table s) (BLOCKS_PER_PLANE g) (last_page_per_plane s ! pi);
        if found then
          let i' = inc_page i in
          if length (last_page_per_plane s) \<le> plane_index g i' then None
          else Some (Some i, s\<lparr>ftl_config := (ftl_config s)\<lparr>last_selected_ppa := i'\<rparr>, last_searched_channel := i',
                               last_page_per_plane := (last_page_per_plane s)[plane_index g i' := i']\<rparr>)
        else Some (None, s\<lparr>last_searched_channel := i\<rparr>)
      })"

text \<open>\<open>get_free_ppa\<close> repeats the search until it succeeds; its loop limit only prints.\<close>

partial_function (option) get_free_ppa :: "geo \<Rightarrow> 'a ftl_st_scheme \<Rightarrow> (ppa_t \<times> 'a ftl_st_scheme) option" where
  "get_free_ppa g s =
     do { (r, s1) \<leftarrow> find_free_page g s; (case r of Some p \<Rightarrow> Some (p, s1) | None \<Rightarrow> get_free_ppa g s1) }"

definition make_new_mapping :: "geo \<Rightarrow> nat \<Rightarrow> 'a ftl_st_scheme \<Rightarrow> (ppa_t \<times> 'a ftl_st_scheme) option" where
  "make_new_mapping g lpn s =
     do {
       (new_ppa, s1) \<leftarrow> get_free_ppa g s;
       unmapped \<leftarrow> IS_UNMAPPED_LPA lpn s1;
       if unmapped then
         do {
           s2 \<leftarrow> MAP_LPA_AND_PPA g lpn new_ppa s1;
           s3 \<leftarrow> INC_VALID_PAGES g new_ppa s2;
           Some (new_ppa, s3\<lparr>ftl_config := (ftl_config s3)\<lparr>total_valid_pages := total_valid_pages (ftl_config s3) + 1,
             total_free_pages := total_free_pages (ftl_config s3) - 1\<rparr>\<rparr>)
         }
       else
         do {
           current_mapped_ppa \<leftarrow> GET_MAPPED_PPA lpn s1;
           s2 \<leftarrow> SET_INVALID_PPA g current_mapped_ppa s1;
           s3 \<leftarrow> INC_INVALID_PAGES g current_mapped_ppa s2;
           s4 \<leftarrow> DEC_VALID_PAGES g current_mapped_ppa s3;
           s5 \<leftarrow> MAP_LPA_AND_PPA g lpn new_ppa s4;
           s6 \<leftarrow> INC_VALID_PAGES g new_ppa s5;
           Some (new_ppa, s6\<lparr>ftl_config := (ftl_config s6)\<lparr>total_invalid_pages := total_invalid_pages (ftl_config s6) + 1,
             total_free_pages := total_free_pages (ftl_config s6) - 1\<rparr>\<rparr>)
         }
     }"

section \<open>New media\<close>

text \<open>The generated tables: no logical page is mapped, every physical page is free.\<close>

definition map_tables_image :: "geo \<Rightarrow> 'a ftl_st_scheme \<Rightarrow> 'a ftl_st_scheme" where
  "map_tables_image g s = s\<lparr>lpa_table := replicate (TOTAL_NUM_OF_PAGES g) (ppa_of 0x00FF000000000000),
     ppa_table := replicate (TOTAL_NUM_OF_PAGES g) FREE_PPA\<rparr>"

text \<open>
  The branch of \<open>initialize_ftl\<close> for new flash media; \<open>map_bytes\<close> is the size of the linker section
  with the mapping tables.
\<close>

definition init_last_pages :: "geo \<Rightarrow> ppa_t list" where
  "init_last_pages g = concat (map (\<lambda>ichn. concat (map (\<lambda>idie. map (\<lambda>iplane.
     zero_ppa\<lparr>p_chn := ichn, p_die := idie, p_plane := iplane\<rparr>) [0..<PLANES_PER_DIE g]) [0..<DIES_PER_CHANNEL g])) [0..<NUM_CHANNELS g])"

definition new_flash_media :: "geo \<Rightarrow> nat \<Rightarrow> 'a ftl_st_scheme \<Rightarrow> 'a ftl_st_scheme option" where
  "new_flash_media g map_bytes s =
     (let ovp = of_nat (TOTAL_NUM_OF_PAGES g div 100 * OVP g);
          rpm = of_nat (map_bytes div NAND_PAGE_SIZE g + 1);
          s1 = s\<lparr>last_page_per_plane := init_last_pages g,
                 ftl_config := (ftl_config s)\<lparr>cf_nand_ds := of_nat (NAND_DS g), cf_host_ds := of_nat (HOST_DS g),
                   cf_pages_per_block := of_nat (PAGES_PER_BLOCK g), cf_total_pages := of_nat (TOTAL_NUM_OF_PAGES g),
                   rpp_ovp := ovp, rpp_map_tables := rpm, total_rpp := ovp + rpm,
                   total_logical_pages := push_bit (HOST_2_NAND_DS g) (of_nat (TOTAL_NUM_OF_PAGES g) - (ovp + rpm))\<rparr>\<rparr>
      in do {
           s2 \<leftarrow> SET_RESERVED_PPA g zero_ppa s1;
           s3 \<leftarrow> INC_VALID_PAGES g zero_ppa s2;
           let first_page = inc_page zero_ppa;
           if length (last_page_per_plane s3) \<le> plane_index g first_page then None
           else Some (s3\<lparr>ftl_config := (ftl_config s3)\<lparr>total_invalid_pages := 0, total_valid_pages := 1,
               total_free_pages := cf_total_pages (ftl_config s3) - 1, last_selected_ppa := first_page\<rparr>,
             last_page_per_plane := (last_page_per_plane s3)[plane_index g first_page := first_page]\<rparr>)
         })"

definition finish_ftl_init :: "'a ftl_st_scheme \<Rightarrow> 'a ftl_st_scheme" where
  "finish_ftl_init s =
     (let t = total_logical_pages (ftl_config s)
      in s\<lparr>ssd_config := \<lparr>sc_host_ds = cf_host_ds (ftl_config s), nsze = t, ncap = t, nuse = t\<rparr>,
           last_searched_channel := last_selected_ppa (ftl_config s)\<rparr>)"

section \<open>The write log\<close>

text \<open>
  Without garbage collection the allocator is a log: pages are handed out in a fixed order, one per
  plane in turn. \<open>log_ppa g k\<close> is the page at position \<open>k\<close> of that order; position 0 is the page
  that holds the configuration.
\<close>

definition NPL :: "geo \<Rightarrow> nat" where "NPL g = NUM_CHANNELS g * DIES_PER_CHANNEL g * PLANES_PER_DIE g"

definition log_plane :: "geo \<Rightarrow> nat \<Rightarrow> ppa_t" where
  "log_plane g j = \<lparr>p_page = 0, p_block = 0, p_plane = j div (NUM_CHANNELS g * DIES_PER_CHANNEL g),
     p_die = j div NUM_CHANNELS g mod DIES_PER_CHANNEL g, p_chn = j mod NUM_CHANNELS g, p_resv = 0\<rparr>"

definition at_page :: "geo \<Rightarrow> ppa_t \<Rightarrow> nat \<Rightarrow> ppa_t" where
  "at_page g p q = p\<lparr>p_block := q div PAGES_PER_BLOCK g, p_page := q mod PAGES_PER_BLOCK g\<rparr>"

definition log_ppa :: "geo \<Rightarrow> nat \<Rightarrow> ppa_t" where
  "log_ppa g k = at_page g (log_plane g (k mod NPL g)) (k div NPL g)"

lemma NPL_total: "TOTAL_NUM_OF_PAGES g = NPL g * PAGES_PER_PLANE g" "TOTAL_NUM_OF_PLANES g = NPL g"
  by (simp_all add: NPL_def total_pages total_planes)

lemma NPL_pos: "geo_ok g \<Longrightarrow> 0 < NPL g"
  by (simp add: NPL_def geo_ok_def)

lemma log_plane_bounds:
  assumes "geo_ok g" "j < NPL g"
  shows "p_chn (log_plane g j) < NUM_CHANNELS g" "p_die (log_plane g j) < DIES_PER_CHANNEL g" "p_plane (log_plane g j) < PLANES_PER_DIE g"
  using assms by (auto simp: log_plane_def geo_ok_def NPL_def less_mult_imp_div_less mult.commute mult.assoc)

lemma at_page_ok:
  assumes "geo_ok g" "j < NPL g" "q < PAGES_PER_PLANE g"
  shows "ppa_ok g (at_page g (log_plane g j) q)"
proof -
  have "q div PAGES_PER_BLOCK g < BLOCKS_PER_PLANE g"
    using assms(3) by (simp add: PAGES_PER_PLANE_def less_mult_imp_div_less)
  moreover have "q mod PAGES_PER_BLOCK g < PAGES_PER_BLOCK g" using assms(1) by (simp add: geo_ok_def)
  ultimately show ?thesis using log_plane_bounds [OF assms(1,2)] by (simp add: ppa_ok_def at_page_def log_plane_def)
qed

lemma log_div_less: "geo_ok g \<Longrightarrow> k < TOTAL_NUM_OF_PAGES g \<Longrightarrow> k div NPL g < PAGES_PER_PLANE g"
  by (simp add: NPL_total less_mult_imp_div_less mult.commute)

lemma log_ppa_ok: "geo_ok g \<Longrightarrow> k < TOTAL_NUM_OF_PAGES g \<Longrightarrow> ppa_ok g (log_ppa g k)"
  unfolding log_ppa_def by (rule at_page_ok) (simp_all add: NPL_pos log_div_less)

text \<open>Different positions are different pages.\<close>

lemma log_plane_inj:
  assumes "geo_ok g" "p_chn (log_plane g i) = p_chn (log_plane g j)" "p_die (log_plane g i) = p_die (log_plane g j)"
    "p_plane (log_plane g i) = p_plane (log_plane g j)"
  shows "i = j"
proof -
  let ?n = "NUM_CHANNELS g" and ?d = "DIES_PER_CHANNEL g"
  have split: "x = (x div (?n * ?d) * ?d + x div ?n mod ?d) * ?n + x mod ?n" for x
    by (metis div_mult2_eq div_mult_mod_eq)
  from assms(2-4) have "i mod ?n = j mod ?n" "i div ?n mod ?d = j div ?n mod ?d" "i div (?n * ?d) = j div (?n * ?d)"
    by (simp_all add: log_plane_def)
  with split [of i] split [of j] show ?thesis by metis
qed

lemma log_ppa_inj:
  assumes "geo_ok g" "log_ppa g i = log_ppa g j"
  shows "i = j"
proof -
  from assms(2) have pl: "p_chn (log_plane g (i mod NPL g)) = p_chn (log_plane g (j mod NPL g))"
    "p_die (log_plane g (i mod NPL g)) = p_die (log_plane g (j mod NPL g))"
    "p_plane (log_plane g (i mod NPL g)) = p_plane (log_plane g (j mod NPL g))"
    and q: "i div NPL g div PAGES_PER_BLOCK g = j div NPL g div PAGES_PER_BLOCK g"
    "i div NPL g mod PAGES_PER_BLOCK g = j div NPL g mod PAGES_PER_BLOCK g"
    by (simp_all add: log_ppa_def at_page_def log_plane_def)
  from log_plane_inj [OF assms(1) pl] have "i mod NPL g = j mod NPL g" .
  moreover from q have "i div NPL g = j div NPL g" by (metis div_mult_mod_eq)
  ultimately show ?thesis by (metis div_mult_mod_eq)
qed

lemma log_index_inj:
  "geo_ok g \<Longrightarrow> i < TOTAL_NUM_OF_PAGES g \<Longrightarrow> j < TOTAL_NUM_OF_PAGES g \<Longrightarrow>
     ppa_index g (log_ppa g i) = ppa_index g (log_ppa g j) \<Longrightarrow> i = j"
  by (metis log_ppa_inj log_ppa_ok ppa_index_inj)

lemma log_ppa_0: "geo_ok g \<Longrightarrow> log_ppa g 0 = zero_ppa"
  by (simp add: log_ppa_def at_page_def log_plane_def zero_ppa_def)

text \<open>The round robin over the planes.\<close>

lemma next_plane_log:
  assumes "geo_ok g" "j < NPL g" "p_chn l = p_chn (log_plane g j)" "p_die l = p_die (log_plane g j)" "p_plane l = p_plane (log_plane g j)"
  shows "next_plane g l = log_plane g (Suc j mod NPL g)"
proof -
  let ?n = "NUM_CHANNELS g" and ?d = "DIES_PER_CHANNEL g" and ?p = "PLANES_PER_DIE g"
  have pos: "0 < ?n" "0 < ?d" "0 < ?p" using assms(1) by (auto simp: geo_ok_def)
  define c d p where "c = j mod ?n" and "d = j div ?n mod ?d" and "p = j div ?n div ?d"
  have j: "j = (p * ?d + d) * ?n + c" by (simp add: c_def d_def p_def)
  have b: "c < ?n" "d < ?d" "p < ?p"
    using pos assms(2) by (auto simp: c_def d_def p_def NPL_def less_mult_imp_div_less div_mult2_eq [symmetric] mult.commute mult.left_commute)
  have l: "p_chn l = c" "p_die l = d" "p_plane l = p" using assms(3-5) by (simp_all add: log_plane_def c_def d_def p_def div_mult2_eq)
  have lp: "log_plane g ((p' * ?d + d') * ?n + c') = zero_ppa\<lparr>p_chn := c', p_die := d', p_plane := p'\<rparr>"
    if "c' < ?n" "d' < ?d" for p' d' c'
    using that by (simp add: log_plane_def zero_ppa_def div_mult2_eq)
  have lt: "x < NPL g \<Longrightarrow> x mod NPL g = x" for x by simp
  have bound: "(p' * ?d + d') * ?n + c' < NPL g" if "c' < ?n" "d' < ?d" "p' < ?p" for p' d' c'
  proof -
    have "(p' * ?d + d') * ?n + c' < (?p * ?d) * ?n" by (intro mixed_less that)
    then show ?thesis by (simp add: NPL_def mult.commute mult.left_commute)
  qed
  have carry: "Suc j = (p * ?d + (d + 1)) * ?n" if "c + 1 = ?n" using j that by (simp add: algebra_simps)
  have carry2: "Suc j = (p + 1) * ?d * ?n" if "c + 1 = ?n" "d + 1 = ?d"
    unfolding carry [OF that(1)] that(2) by (simp add: algebra_simps)
  consider "c + 1 < ?n" | "c + 1 = ?n" "d + 1 < ?d" | "c + 1 = ?n" "d + 1 = ?d" "p + 1 < ?p" | "c + 1 = ?n" "d + 1 = ?d" "p + 1 = ?p"
    using b by linarith
  then show ?thesis
  proof cases
    case 1
    then have "Suc j mod NPL g = (p * ?d + d) * ?n + (c + 1)" using j bound [of "c + 1" d p] b by simp
    with 1 lp [of "c + 1" d p] b l show ?thesis by (simp add: next_plane_def Let_def)
  next
    case 2
    then have "Suc j mod NPL g = (p * ?d + (d + 1)) * ?n + 0" using carry bound [of 0 "d + 1" p] b pos by simp
    with 2 lp [of 0 "d + 1" p] b l pos show ?thesis by (simp add: next_plane_def Let_def zero_ppa_def)
  next
    case 3
    then have "Suc j mod NPL g = ((p + 1) * ?d + 0) * ?n + 0" using carry2 bound [of 0 0 "p + 1"] b pos by simp
    with 3 lp [of 0 0 "p + 1"] b l pos show ?thesis by (simp add: next_plane_def Let_def zero_ppa_def)
  next
    case 4
    then have "Suc j = ?p * ?d * ?n" using carry2 by simp
    then have "Suc j mod NPL g = (0 * ?d + 0) * ?n + 0" by (simp add: NPL_def mult.commute mult.left_commute)
    with 4 lp [of 0 0 0] b l pos show ?thesis by (simp add: next_plane_def Let_def zero_ppa_def)
  qed
qed

section \<open>The allocator follows the log\<close>

text \<open>The pages of plane \<open>j\<close> below log position \<open>k\<close>, and the search pointer of a plane with \<open>c\<close> used pages.\<close>

definition used :: "geo \<Rightarrow> nat \<Rightarrow> nat \<Rightarrow> nat" where
  "used g k j = (k + NPL g - j) div NPL g"

definition frontier :: "geo \<Rightarrow> nat \<Rightarrow> nat \<Rightarrow> ppa_t" where
  "frontier g j c = (if c = 0 then log_plane g j else inc_page (at_page g (log_plane g j) (c - 1)))"

definition same_plane :: "ppa_t \<Rightarrow> ppa_t \<Rightarrow> bool" where
  "same_plane p q \<longleftrightarrow> p_chn p = p_chn q \<and> p_die p = p_die q \<and> p_plane p = p_plane q"

definition alloc_inv :: "geo \<Rightarrow> nat \<Rightarrow> 'a ftl_st_scheme \<Rightarrow> bool" where
  "alloc_inv g k s \<longleftrightarrow> k < TOTAL_NUM_OF_PAGES g \<and> length (ppa_table s) = TOTAL_NUM_OF_PAGES g \<and>
     length (last_page_per_plane s) = NPL g \<and> same_plane (last_searched_channel s) (log_plane g (k mod NPL g)) \<and>
     (\<forall>j < NPL g. last_page_per_plane s ! plane_index g (log_plane g j) = frontier g j (used g k j)) \<and>
     (\<forall>i < TOTAL_NUM_OF_PAGES g. ppa_table s ! ppa_index g (log_ppa g i) = FREE_PPA \<longleftrightarrow> k < i)"

lemma plane_index_cong: "same_plane p q \<Longrightarrow> plane_index g p = plane_index g q"
  by (simp add: same_plane_def plane_index_def)

lemma same_plane_simps [simp]:
  "same_plane (at_page g p q) r = same_plane p r" "same_plane (inc_page p) r = same_plane p r" "same_plane p p"
  by (simp_all add: same_plane_def at_page_def inc_page_def)

lemma plane_index_log_less: "geo_ok g \<Longrightarrow> j < NPL g \<Longrightarrow> plane_index g (log_plane g j) < NPL g"
proof -
  assume g: "geo_ok g" "j < NPL g"
  have "0 < PAGES_PER_PLANE g" using g(1) by (simp add: PAGES_PER_PLANE_def geo_ok_def)
  from plane_index_less [OF at_page_ok [OF g this]] plane_index_cong [of "at_page g (log_plane g j) 0" "log_plane g j" g]
  show ?thesis by (simp add: NPL_total)
qed

lemma plane_index_log_inj:
  assumes "geo_ok g" "i < NPL g" "j < NPL g" "plane_index g (log_plane g i) = plane_index g (log_plane g j)"
  shows "i = j"
proof -
  note bi = log_plane_bounds [OF assms(1,2)] and bj = log_plane_bounds [OF assms(1,3)]
  from assms(4) have a: "p_chn (log_plane g i) * DIES_PER_CHANNEL g + p_die (log_plane g i) =
      p_chn (log_plane g j) * DIES_PER_CHANNEL g + p_die (log_plane g j) \<and> p_plane (log_plane g i) = p_plane (log_plane g j)"
    unfolding plane_index_def by (rule mixed_inj [OF _ bi(3) bj(3)])
  then have "p_chn (log_plane g i) = p_chn (log_plane g j) \<and> p_die (log_plane g i) = p_die (log_plane g j)"
    by (intro mixed_inj [OF _ bi(2) bj(2)]) simp
  with a log_plane_inj [OF assms(1)] show ?thesis by simp
qed

lemma used_next:
  assumes "0 < NPL g"
  shows "used g k (Suc k mod NPL g) = Suc k div NPL g"
proof -
  let ?N = "NPL g"
  have "Suc k = Suc k div ?N * ?N + Suc k mod ?N" by simp
  then have "k + ?N - Suc k mod ?N = Suc k div ?N * ?N + (?N - 1)" using assms mod_less_divisor [OF assms, of "Suc k"] by linarith
  moreover have "(Suc k div ?N * ?N + r) div ?N = Suc k div ?N" if "r < ?N" for r using that by simp
  ultimately show ?thesis using assms by (simp only: used_def)
qed

lemma used_step:
  assumes "0 < NPL g" "j < NPL g"
  shows "used g (Suc k) j = (if j = Suc k mod NPL g then Suc (used g k j) else used g k j)"
proof -
  let ?N = "NPL g"
  have e: "Suc k + ?N - j = Suc (k + ?N - j)" using assms(2) by simp
  have "(Suc (k + ?N - j) mod ?N = 0) = (j = Suc k mod ?N)"
  proof -
    have "(Suc k + ?N - j) mod ?N = 0 \<longleftrightarrow> Suc k mod ?N = j mod ?N"
      using assms(2) by (metis add_diff_assoc2 le_add2 less_imp_le mod_add_self2 mod_eq_0_iff_dvd mod_eq_dvd_iff_nat nat_le_linear trans_le_add2)
    with e assms(2) show ?thesis by auto
  qed
  then show ?thesis unfolding used_def e by (simp add: div_Suc)
qed

text \<open>From the search pointer the scan finds the next page of the plane at once.\<close>

lemma inc_page_at:
  assumes "geo_ok g" "Suc (q mod PAGES_PER_BLOCK g) < PAGES_PER_BLOCK g"
  shows "inc_page (at_page g p q) = at_page g p (Suc q)"
proof -
  have "PAGES_PER_BLOCK g < 2 ^ 16" using assms(1) by (simp add: geo_ok_def)
  with assms(2) show ?thesis by (simp add: inc_page_def at_page_def div_Suc mod_Suc)
qed

lemma next_block_at:
  assumes "geo_ok g" "Suc (q mod PAGES_PER_BLOCK g) = PAGES_PER_BLOCK g" "Suc q < PAGES_PER_PLANE g"
  shows "next_block g (inc_page (at_page g p q)) = at_page g p (Suc q)"
proof -
  have lt: "Suc q div PAGES_PER_BLOCK g < BLOCKS_PER_PLANE g"
    using assms(3) by (simp add: PAGES_PER_PLANE_def less_mult_imp_div_less)
  have "BLOCKS_PER_PLANE g < 2 ^ 16" "PAGES_PER_BLOCK g < 2 ^ 16" using assms(1) by (simp_all add: geo_ok_def)
  moreover have "Suc q div PAGES_PER_BLOCK g = Suc (q div PAGES_PER_BLOCK g)" "Suc q mod PAGES_PER_BLOCK g = 0"
    using assms(2) by (simp_all add: div_Suc mod_Suc)
  ultimately show ?thesis using lt assms(2)
    by (simp add: next_block_def inc_block_def inc_page_def at_page_def Let_def)
qed

lemma scan_block_hit: "p_page p < PAGES_PER_BLOCK g \<Longrightarrow> IS_FREE_PPA g t p = Some True \<Longrightarrow> scan_block g t p = Some (True, p)"
  by (subst scan_block.simps) simp

lemma scan_block_end: "PAGES_PER_BLOCK g \<le> p_page p \<Longrightarrow> scan_block g t p = Some (False, p)"
  by (subst scan_block.simps) simp

lemma scan_plane_frontier:
  assumes "geo_ok g" "c < PAGES_PER_PLANE g" "IS_FREE_PPA g t (at_page g (log_plane g j) c) = Some True"
  shows "scan_plane g t (BLOCKS_PER_PLANE g) (frontier g j c) = Some (True, at_page g (log_plane g j) c)"
proof -
  let ?T = "at_page g (log_plane g j) c" and ?m = "PAGES_PER_BLOCK g"
  have m: "0 < ?m" "?m < 2 ^ 16" "0 < BLOCKS_PER_PLANE g" using assms(1) by (auto simp: geo_ok_def)
  have hit: "scan_block g t ?T = Some (True, ?T)"
    using m assms(3) by (intro scan_block_hit) (simp_all add: at_page_def)
  obtain b where b: "BLOCKS_PER_PLANE g = Suc b" using m(3) by (cases "BLOCKS_PER_PLANE g") auto
  show ?thesis
  proof (cases c)
    case 0
    then have "frontier g j c = ?T" by (simp add: frontier_def at_page_def log_plane_def)
    with hit b show ?thesis by simp
  next
    case (Suc q)
    show ?thesis
    proof (cases "Suc (q mod ?m) < ?m")
      case True
      with Suc inc_page_at [OF assms(1) True] hit b show ?thesis by (simp add: frontier_def)
    next
      case False
      then have full: "Suc (q mod ?m) = ?m" using m(1) mod_less_divisor [of ?m q] by linarith
      then have "?m \<le> p_page (inc_page (at_page g (log_plane g j) q))" using m(2) by (simp add: inc_page_def at_page_def)
      then have e: "scan_block g t (frontier g j c) = Some (False, inc_page (at_page g (log_plane g j) q))"
        using Suc by (simp add: frontier_def scan_block_end)
      have "1 \<le> c div ?m" using Suc full by (simp add: div_Suc mod_Suc)
      moreover have "c div ?m < BLOCKS_PER_PLANE g" using assms(2) by (simp add: PAGES_PER_PLANE_def less_mult_imp_div_less)
      ultimately obtain b' where "b = Suc b'" using b by (cases b) auto
      with e b next_block_at [OF assms(1) full] Suc assms(2) hit show ?thesis by simp
    qed
  qed
qed

lemma log_ppa_next: "log_ppa g (Suc k) = at_page g (log_plane g (Suc k mod NPL g)) (Suc k div NPL g)"
  by (simp add: log_ppa_def)

lemma mod_Suc_mod: "Suc (k mod n) mod n = Suc k mod (n::nat)"
  by (simp add: mod_Suc_eq)

text \<open>One search hands out the next position of the log.\<close>

lemma find_free_page_log:
  assumes g: "geo_ok g" and inv: "alloc_inv g k s" and k: "Suc k < TOTAL_NUM_OF_PAGES g"
  defines "i \<equiv> inc_page (log_ppa g (Suc k))"
  shows "find_free_page g s = Some (Some (log_ppa g (Suc k)),
      s\<lparr>ftl_config := (ftl_config s)\<lparr>last_selected_ppa := i\<rparr>, last_searched_channel := i,
        last_page_per_plane := (last_page_per_plane s)[plane_index g i := i]\<rparr>)"
proof -
  let ?j = "Suc k mod NPL g" and ?t = "ppa_table s"
  have N: "0 < NPL g" using g by (rule NPL_pos)
  then have j: "?j < NPL g" by simp
  have nx: "next_plane g (last_searched_channel s) = log_plane g ?j"
    using next_plane_log [OF g, of "k mod NPL g" "last_searched_channel s"] inv N
    by (simp add: alloc_inv_def same_plane_def mod_Suc_mod)
  have last: "last_page_per_plane s ! plane_index g (log_plane g ?j) = frontier g ?j (Suc k div NPL g)"
    using inv j used_next [OF N, of k] by (simp add: alloc_inv_def)
  have len: "plane_index g (log_plane g ?j) < length (last_page_per_plane s)"
    using inv plane_index_log_less [OF g j] by (simp add: alloc_inv_def)
  have "IS_FREE_PPA g ?t (at_page g (log_plane g ?j) (Suc k div NPL g)) = Some True"
    using inv k ppa_index_less [OF log_ppa_ok [OF g k]] by (simp add: IS_FREE_PPA_def alloc_inv_def log_ppa_next [symmetric])
  from scan_plane_frontier [OF g log_div_less [OF g k] this]
  have "scan_plane g ?t (BLOCKS_PER_PLANE g) (frontier g ?j (Suc k div NPL g)) = Some (True, log_ppa g (Suc k))"
    by (simp add: log_ppa_next)
  moreover have "plane_index g i = plane_index g (log_plane g ?j)"
    unfolding i_def log_ppa_next by (rule plane_index_cong) simp
  ultimately show ?thesis using len by (simp add: find_free_page_def nx last Let_def i_def)
qed

end
