(* ===== verification/Buffer_Mgt.thy ===== *)
theory Buffer_Mgt
  imports Ftl_Map
begin

text \<open>
  The page buffer manager with one write-back cache (\<^verbatim>\<open>buffer_mgt_1wbc-r.c\<close>, the
  variant of the default configuration in \<^verbatim>\<open>Makefile.firmware.config\<close>): one buffer of \<open>MDTS_PAGES\<close> host pages, owned by one request at a time, and
  the cache request that carries the pages of a write to the translation layer.
\<close>

section \<open>State\<close>

definition WBC_PAGES :: nat where "WBC_PAGES = MDTS_PAGES"

record wbc_page_meta_t =
  wp_lpn :: u32
  wp_ssd_addr :: nat
  wp_valid :: u16
  wp_nand_io_complete :: u16

record wbc_req_t =
  wb_type :: u32
  wb_index :: u32
  num_program_pgs :: u32
  wb_nand_io_complete :: bool
  wb_pages :: "wbc_page_meta_t list"

record buf_st = ftl_st +
  page_buffer :: nat
  page_buffer_inuse :: bool
  wbc :: wbc_req_t

section \<open>Operations\<close>

definition init_buffer_mgt :: "geo \<Rightarrow> 'a buf_st_scheme \<Rightarrow> (int \<times> 'a buf_st_scheme) option" where
  "init_buffer_mgt g s =
     do {
       (a, s1) \<leftarrow> get_uncacheable_ram (MDTS_PAGES * HOST_PAGE_SIZE g) (s\<lparr>page_buffer_inuse := False\<rparr>);
       Some (0, s1\<lparr>page_buffer := a, wbc := (wbc s1)\<lparr>wb_index := 1, wb_type := WBC_FLUSH_REQUEST,
         wb_pages := map (\<lambda>p. p\<lparr>wp_valid := 0\<rparr>) (wb_pages (wbc s1))\<rparr>\<rparr>)
     }"

text \<open>The buffer addresses of the pages of a request; the loop writes \<open>dma.list[0..nlbs]\<close>.\<close>

definition set_buffer_addrs :: "geo \<Rightarrow> nat \<Rightarrow> nat \<Rightarrow> dma_t \<Rightarrow> dma_t" where
  "set_buffer_addrs g buf n d = d\<lparr>buffer_addr := buf,
     dma_list := fold (\<lambda>i l. l[i := (l ! i)\<lparr>ssd_addr := buf + i * 2 ^ HOST_DS g\<rparr>]) [0..<n] (dma_list d)\<rparr>"

definition get_read_io_buffer :: "geo \<Rightarrow> obj_ptr \<Rightarrow> 'a buf_st_scheme \<Rightarrow> (int \<times> 'a buf_st_scheme) option" where
  "get_read_io_buffer g p s =
     (if page_buffer_inuse s then Some (- 1, s)
      else do {
        req \<leftarrow> get_req p s;
        let n = unat (io_nlbs (scmd req)) + 1;
        if n > MDTS_PAGES then None
        else Some (0, (upd_req p (\<lambda>r. r\<lparr>dma := set_buffer_addrs g (page_buffer s) n (dma r)\<rparr>) s)\<lparr>page_buffer_inuse := True\<rparr>)
      })"

definition fill_wbc :: "geo \<Rightarrow> nat \<Rightarrow> u32 \<Rightarrow> nat \<Rightarrow> wbc_page_meta_t list \<Rightarrow> wbc_page_meta_t list" where
  "fill_wbc g buf lpn n = fold (\<lambda>i l. l[i := (l ! i)\<lparr>wp_lpn := lpn + of_nat i, wp_ssd_addr := buf + i * 2 ^ HOST_DS g,
     wp_valid := 1, wp_nand_io_complete := 0\<rparr>]) [0..<n]"

definition get_write_io_buffer :: "geo \<Rightarrow> obj_ptr \<Rightarrow> 'a buf_st_scheme \<Rightarrow> (int \<times> 'a buf_st_scheme) option" where
  "get_write_io_buffer g p s =
     (if page_buffer_inuse s then Some (- 1, s)
      else do {
        req \<leftarrow> get_req p s;
        let n = unat (io_nlbs (scmd req)) + 1;
        let lpn = ucast (io_slba (scmd req));
        if n > MDTS_PAGES then None
        else Some (0, (upd_req p (\<lambda>r. r\<lparr>dma := set_buffer_addrs g (page_buffer s) n (dma r)\<rparr>) s)
          \<lparr>wbc := (wbc s)\<lparr>wb_pages := fill_wbc g (page_buffer s) lpn n (wb_pages (wbc s)), wb_nand_io_complete := False,
             num_program_pgs := of_nat n\<rparr>, page_buffer_inuse := True\<rparr>)
      })"

definition get_page_buffer :: "'a buf_st_scheme \<Rightarrow> nat \<times> 'a buf_st_scheme" where
  "get_page_buffer s = (if page_buffer_inuse s then (0, s) else (page_buffer s, s\<lparr>page_buffer_inuse := True\<rparr>))"

definition free_read_io_buffer :: "'a buf_st_scheme \<Rightarrow> int \<times> 'a buf_st_scheme" where
  "free_read_io_buffer s = (0, s\<lparr>page_buffer_inuse := False\<rparr>)"

definition flush_all_wbc :: "'a buf_st_scheme \<Rightarrow> int \<times> 'a buf_st_scheme" where
  "flush_all_wbc s = (0, sys_push_to_ftl WBC WBC_FLUSH_REQUEST s)"

definition free_write_io_buffer :: "'a buf_st_scheme \<Rightarrow> int \<times> 'a buf_st_scheme" where
  "free_write_io_buffer s = (0, snd (flush_all_wbc s))"

definition free_page_buffer :: "'a buf_st_scheme \<Rightarrow> int \<times> 'a buf_st_scheme" where
  "free_page_buffer s = (0, s\<lparr>page_buffer_inuse := False\<rparr>)"

definition free_wbc_buffer :: "'a buf_st_scheme \<Rightarrow> 'a buf_st_scheme" where
  "free_wbc_buffer s = s\<lparr>page_buffer_inuse := False, wbc := (wbc s)\<lparr>wb_pages := map (\<lambda>p. p\<lparr>wp_valid := 0\<rparr>) (wb_pages (wbc s))\<rparr>\<rparr>"

end
