(* ===== verification/Ftl_Inv.thy ===== *)
theory Ftl_Inv
  imports Ftl_Map
begin

text \<open>
  Correctness of the mapping: the logical and the physical table stay inverse to each other, the
  counters of pages count what the tables hold, every page that is handed out was free, and new
  media take one write for every page but the reserved one.
\<close>

unbundle bit_operations_syntax

section \<open>Counting table entries\<close>

definition count_in :: "('a \<Rightarrow> bool) \<Rightarrow> 'a list \<Rightarrow> nat \<Rightarrow> nat \<Rightarrow> nat" where
  "count_in P t lo hi = card {i. lo \<le> i \<and> i < hi \<and> i < length t \<and> P (t ! i)}"

lemma count_in_le: "count_in P t lo hi \<le> hi - lo"
proof -
  have "count_in P t lo hi \<le> card {lo..<hi}" unfolding count_in_def by (rule card_mono) auto
  then show ?thesis by simp
qed

lemma count_in_upd_out: "x < lo \<or> hi \<le> x \<Longrightarrow> count_in P (t[x := v]) lo hi = count_in P t lo hi"
  unfolding count_in_def by (rule arg_cong [where f = card]) (auto simp: nth_list_update)

lemma count_in_upd_same: "x < length t \<Longrightarrow> P v = P (t ! x) \<Longrightarrow> count_in P (t[x := v]) lo hi = count_in P t lo hi"
  unfolding count_in_def by (rule arg_cong [where f = card]) (auto simp: nth_list_update)

lemma count_in_upd_add:
  assumes "lo \<le> x" "x < hi" "x < length t" "P v" "\<not> P (t ! x)"
  shows "count_in P (t[x := v]) lo hi = Suc (count_in P t lo hi)"
proof -
  let ?A = "{i. lo \<le> i \<and> i < hi \<and> i < length t \<and> P (t ! i)}"
  have "{i. lo \<le> i \<and> i < hi \<and> i < length (t[x := v]) \<and> P (t[x := v] ! i)} = insert x ?A"
    using assms by (auto simp: nth_list_update)
  moreover have "x \<notin> ?A" "finite ?A" using assms by auto
  ultimately show ?thesis by (simp add: count_in_def)
qed

lemma count_in_upd_del:
  assumes "lo \<le> x" "x < hi" "x < length t" "\<not> P v" "P (t ! x)"
  shows "Suc (count_in P (t[x := v]) lo hi) = count_in P t lo hi"
  using count_in_upd_add [of lo x hi "t[x := v]" P "t ! x"] assms by simp

lemma count_in_replicate: "count_in P (replicate n v) lo hi = (if P v then min hi n - lo else 0)"
proof -
  have "{i. lo \<le> i \<and> i < hi \<and> i < length (replicate n v) \<and> P (replicate n v ! i)} = (if P v then {lo..<min hi n} else {})"
    by auto
  then show ?thesis by (simp add: count_in_def)
qed

section \<open>Classes of physical pages\<close>

definition live_entry :: "u32 \<Rightarrow> bool" where
  "live_entry v \<longleftrightarrow> v AND VALID_PPA_MASK = 0 \<or> v = RESERVED_PPA"

lemmas ppa_consts = FREE_PPA_def INVALID_PPA_def RESERVED_PPA_def VALID_PPA_MASK_def

lemma entry_classes [simp]:
  "live_entry RESERVED_PPA" "\<not> live_entry FREE_PPA" "\<not> live_entry INVALID_PPA"
  "FREE_PPA \<noteq> INVALID_PPA" "INVALID_PPA \<noteq> FREE_PPA" "RESERVED_PPA \<noteq> FREE_PPA" "RESERVED_PPA \<noteq> INVALID_PPA"
  by (simp_all add: live_entry_def ppa_consts)

lemma lpn_entry:
  assumes "n < 2 ^ 30"
  shows "(of_nat n :: u32) AND VALID_PPA_MASK = 0"
proof -
  have m: "VALID_PPA_MASK = push_bit 30 (3 :: u32)" by (simp add: VALID_PPA_MASK_def push_bit_eq_mult)
  have "\<not> bit n i" if "30 \<le> i" for i
  proof -
    have "n < 2 ^ i" using assms power_increasing [OF that, of "2 :: nat"] by simp
    then show ?thesis by (simp add: bit_iff_odd)
  qed
  then have "\<not> bit (of_nat n :: u32) i" if "30 \<le> i" for i using that by (simp add: bit_simps)
  moreover have "\<not> bit (push_bit 30 x) i" if "i < 30" for i and x :: u32 using that by (simp add: bit_simps)
  then have "\<not> bit VALID_PPA_MASK i" if "i < 30" for i unfolding m using that by blast
  ultimately show ?thesis by (intro bit_eqI) (metis bit_0_eq bit_and_iff bot_apply bot_bool_def not_le)
qed

lemma unat_lpn: "n < 2 ^ 30 \<Longrightarrow> unat (of_nat n :: u32) = n"
  by (simp add: unat_of_nat)

lemma lpn_entry_classes:
  assumes "n < 2 ^ 30"
  shows "live_entry (of_nat n)" "(of_nat n :: u32) \<noteq> FREE_PPA" "(of_nat n :: u32) \<noteq> INVALID_PPA" "(of_nat n :: u32) \<noteq> RESERVED_PPA"
proof -
  have "FREE_PPA AND VALID_PPA_MASK \<noteq> 0" "INVALID_PPA AND VALID_PPA_MASK \<noteq> 0" "RESERVED_PPA AND VALID_PPA_MASK \<noteq> 0"
    by (simp_all add: ppa_consts)
  then show "live_entry (of_nat n)" "(of_nat n :: u32) \<noteq> FREE_PPA" "(of_nat n :: u32) \<noteq> INVALID_PPA" "(of_nat n :: u32) \<noteq> RESERVED_PPA"
    using lpn_entry [OF assms] by (auto simp: live_entry_def)
qed

section \<open>The invariant\<close>

text \<open>The abstract map: the physical page of a logical page, if it has one.\<close>

definition ftl_abs :: "'a ftl_st_scheme \<Rightarrow> nat \<Rightarrow> ppa_t option" where
  "ftl_abs s lpn = (if lpn < length (lpa_table s) \<and> p_chn (lpa_table s ! lpn) \<noteq> 0xFF then Some (lpa_table s ! lpn) else None)"

definition map_ok :: "geo \<Rightarrow> 'a ftl_st_scheme \<Rightarrow> bool" where
  "map_ok g s \<longleftrightarrow> length (lpa_table s) = TOTAL_NUM_OF_PAGES g \<and> length (ppa_table s) = TOTAL_NUM_OF_PAGES g \<and>
     (\<forall>lpn p. ftl_abs s lpn = Some p \<longrightarrow> ppa_ok g p \<and> ppa_table s ! ppa_index g p = of_nat lpn) \<and>
     (\<forall>p. ppa_ok g p \<and> ppa_table s ! ppa_index g p AND VALID_PPA_MASK = 0 \<longrightarrow>
        ftl_abs s (unat (ppa_table s ! ppa_index g p)) = Some p)"

definition counts_ok :: "nat \<Rightarrow> u32 list \<Rightarrow> ftl_config_t \<Rightarrow> bool" where
  "counts_ok n t c \<longleftrightarrow>
     unat (total_free_pages c) = count_in (\<lambda>v. v = FREE_PPA) t 0 n \<and>
     unat (total_valid_pages c) = count_in live_entry t 0 n \<and>
     unat (total_invalid_pages c) = count_in (\<lambda>v. v = INVALID_PPA) t 0 n"

definition block_count :: "geo \<Rightarrow> u32 list \<Rightarrow> nat \<Rightarrow> block_meta_t \<Rightarrow> bool" where
  "block_count g t b m \<longleftrightarrow>
     unat (valid_pgs m) = count_in live_entry t (b * PAGES_PER_BLOCK g) ((b + 1) * PAGES_PER_BLOCK g) \<and>
     unat (invalid_pgs m) = count_in (\<lambda>v. v = INVALID_PPA) t (b * PAGES_PER_BLOCK g) ((b + 1) * PAGES_PER_BLOCK g)"

definition blocks_ok :: "geo \<Rightarrow> u32 list \<Rightarrow> block_meta_t list \<Rightarrow> bool" where
  "blocks_ok g t bl \<longleftrightarrow> length bl = TOTAL_NUM_OF_BLOCK g \<and> (\<forall>b < TOTAL_NUM_OF_BLOCK g. block_count g t b (bl ! b))"

definition ftl_inv :: "geo \<Rightarrow> nat \<Rightarrow> 'a ftl_st_scheme \<Rightarrow> bool" where
  "ftl_inv g k s \<longleftrightarrow> alloc_inv g k s \<and> map_ok g s \<and>
     counts_ok (TOTAL_NUM_OF_PAGES g) (ppa_table s) (ftl_config s) \<and> blocks_ok g (ppa_table s) (blk_table s)"

section \<open>Retiring and assigning a page\<close>

lemma unat_inc: "unat x + 1 < 2 ^ LENGTH('a) \<Longrightarrow> unat (x + 1 :: 'a :: len word) = unat x + 1"
  using unat_add_lem [of x 1] by simp

lemma unat_dec: "0 < unat x \<Longrightarrow> unat (x - 1 :: 'a :: len word) = unat x - 1"
  by (metis One_nat_def unat_gt_0 unat_minus_one)

lemma block_of_page:
  assumes "ppa_ok g p"
  shows "block_index g p < TOTAL_NUM_OF_BLOCK g" "ppa_index g p < TOTAL_NUM_OF_PAGES g"
    "block_index g p * PAGES_PER_BLOCK g \<le> ppa_index g p" "ppa_index g p < (block_index g p + 1) * PAGES_PER_BLOCK g"
    "b \<noteq> block_index g p \<Longrightarrow> ppa_index g p < b * PAGES_PER_BLOCK g \<or> (b + 1) * PAGES_PER_BLOCK g \<le> ppa_index g p"
proof -
  have pg: "p_page p < PAGES_PER_BLOCK g" using assms by (simp add: ppa_ok_def)
  show "block_index g p < TOTAL_NUM_OF_BLOCK g" "ppa_index g p < TOTAL_NUM_OF_PAGES g"
    using block_index_less [OF assms] ppa_index_less [OF assms] by (simp_all add: TOTAL_NUM_OF_BLOCK_def)
  show lo: "block_index g p * PAGES_PER_BLOCK g \<le> ppa_index g p" and hi: "ppa_index g p < (block_index g p + 1) * PAGES_PER_BLOCK g"
    using pg by (simp_all add: ppa_index_def)
  assume "b \<noteq> block_index g p"
  then consider "b + 1 \<le> block_index g p" | "block_index g p + 1 \<le> b" by linarith
  then show "ppa_index g p < b * PAGES_PER_BLOCK g \<or> (b + 1) * PAGES_PER_BLOCK g \<le> ppa_index g p"
    using lo hi by cases (meson le_trans less_le_trans mult_le_mono1)+
qed

lemma blocks_step:
  assumes "blocks_ok g t bl" "ppa_ok g p" "block_count g (t[ppa_index g p := v]) (block_index g p) m"
  shows "blocks_ok g (t[ppa_index g p := v]) (bl[block_index g p := m])"
proof -
  have "block_count g (t[ppa_index g p := v]) b (bl ! b)" if "b \<noteq> block_index g p" "b < TOTAL_NUM_OF_BLOCK g" for b
  proof -
    have "block_count g t b (bl ! b)" using assms(1) that by (simp add: blocks_ok_def)
    then show ?thesis by (simp only: block_count_def count_in_upd_out [OF block_of_page(5) [OF assms(2) that(1)]])
  qed
  with assms(1,3) block_of_page(1) [OF assms(2)] show ?thesis by (auto simp: blocks_ok_def nth_list_update)
qed

lemma blocks_assign:
  assumes "geo_ok g" "blocks_ok g t bl" "ppa_ok g p" "length t = TOTAL_NUM_OF_PAGES g" "t ! ppa_index g p = FREE_PPA" "live_entry v"
  defines "m \<equiv> bl ! block_index g p"
  shows "blocks_ok g (t[ppa_index g p := v]) (bl[block_index g p := m\<lparr>valid_pgs := valid_pgs m + 1\<rparr>])"
proof (rule blocks_step [OF assms(2,3)])
  let ?i = "ppa_index g p" and ?lo = "block_index g p * PAGES_PER_BLOCK g" and ?hi = "(block_index g p + 1) * PAGES_PER_BLOCK g"
  note bp = block_of_page [OF assms(3)]
  have il: "?i < length t" using bp(2) assms(4) by simp
  have m: "block_count g t (block_index g p) m" using assms(2) bp(1) by (simp add: blocks_ok_def m_def)
  have lv: "count_in live_entry (t[?i := v]) ?lo ?hi = Suc (count_in live_entry t ?lo ?hi)"
    using bp(3,4) il assms(5,6) by (intro count_in_upd_add) simp_all
  have iv: "count_in (\<lambda>v. v = INVALID_PPA) (t[?i := v]) ?lo ?hi = count_in (\<lambda>v. v = INVALID_PPA) t ?lo ?hi"
    using il assms(5,6) by (intro count_in_upd_same) auto
  have "Suc (count_in live_entry t ?lo ?hi) < 2 ^ 16"
    using count_in_le [of live_entry "t[?i := v]" ?lo ?hi] lv assms(1) by (simp add: geo_ok_def)
  then have "unat (valid_pgs m + 1) = unat (valid_pgs m) + 1" using m by (intro unat_inc) (simp add: block_count_def)
  then show "block_count g (t[?i := v]) (block_index g p) (m\<lparr>valid_pgs := valid_pgs m + 1\<rparr>)"
    using m lv iv by (simp add: block_count_def)
qed

lemma blocks_retire:
  assumes "geo_ok g" "blocks_ok g t bl" "ppa_ok g p" "length t = TOTAL_NUM_OF_PAGES g" "live_entry (t ! ppa_index g p)"
  defines "m \<equiv> bl ! block_index g p"
  shows "blocks_ok g (t[ppa_index g p := INVALID_PPA])
    (bl[block_index g p := m\<lparr>invalid_pgs := invalid_pgs m + 1, valid_pgs := valid_pgs m - 1\<rparr>])"
proof (rule blocks_step [OF assms(2,3)])
  let ?i = "ppa_index g p" and ?lo = "block_index g p * PAGES_PER_BLOCK g" and ?hi = "(block_index g p + 1) * PAGES_PER_BLOCK g"
  let ?I = "\<lambda>v. v = INVALID_PPA"
  note bp = block_of_page [OF assms(3)]
  have il: "?i < length t" using bp(2) assms(4) by simp
  have m: "block_count g t (block_index g p) m" using assms(2) bp(1) by (simp add: blocks_ok_def m_def)
  have lv: "Suc (count_in live_entry (t[?i := INVALID_PPA]) ?lo ?hi) = count_in live_entry t ?lo ?hi"
    using bp(3,4) il assms(5) by (intro count_in_upd_del) simp_all
  have iv: "count_in ?I (t[?i := INVALID_PPA]) ?lo ?hi = Suc (count_in ?I t ?lo ?hi)"
    using bp(3,4) il assms(5) by (intro count_in_upd_add) auto
  have "Suc (count_in ?I t ?lo ?hi) < 2 ^ 16"
    using count_in_le [of ?I "t[?i := INVALID_PPA]" ?lo ?hi] iv assms(1) by (simp add: geo_ok_def)
  then have "unat (invalid_pgs m + 1) = unat (invalid_pgs m) + 1" using m by (intro unat_inc) (simp add: block_count_def)
  moreover have "unat (valid_pgs m - 1) = unat (valid_pgs m) - 1" using m lv by (intro unat_dec) (simp add: block_count_def)
  ultimately show "block_count g (t[?i := INVALID_PPA]) (block_index g p) (m\<lparr>invalid_pgs := invalid_pgs m + 1, valid_pgs := valid_pgs m - 1\<rparr>)"
    using m lv iv by (simp add: block_count_def)
qed

text \<open>The totals: a first write uses up a free page, a later one also turns a live page into an invalid one.\<close>

lemma counts_fresh:
  assumes "n < 2 ^ 30" "counts_ok n t c" "length t = n" "i < n" "t ! i = FREE_PPA" "live_entry v"
  shows "counts_ok n (t[i := v]) (c\<lparr>total_valid_pages := total_valid_pages c + 1, total_free_pages := total_free_pages c - 1\<rparr>)"
proof -
  let ?I = "\<lambda>v. v = INVALID_PPA" and ?F = "\<lambda>v. v = FREE_PPA"
  have lv: "count_in live_entry (t[i := v]) 0 n = Suc (count_in live_entry t 0 n)"
    using assms by (intro count_in_upd_add) simp_all
  have fr: "Suc (count_in ?F (t[i := v]) 0 n) = count_in ?F t 0 n" using assms by (intro count_in_upd_del) auto
  have iv: "count_in ?I (t[i := v]) 0 n = count_in ?I t 0 n" using assms by (intro count_in_upd_same) auto
  have "Suc (count_in live_entry t 0 n) < 2 ^ 32" using count_in_le [of live_entry "t[i := v]" 0 n] lv assms(1) by simp
  then have "unat (total_valid_pages c + 1) = unat (total_valid_pages c) + 1" using assms(2) by (intro unat_inc) (simp add: counts_ok_def)
  moreover have "unat (total_free_pages c - 1) = unat (total_free_pages c) - 1" using assms(2) fr by (intro unat_dec) (simp add: counts_ok_def)
  ultimately show ?thesis using assms(2) lv fr iv by (simp add: counts_ok_def)
qed

lemma counts_move:
  assumes "n < 2 ^ 30" "counts_ok n t c" "length t = n" "i < n" "t ! i = FREE_PPA" "live_entry v" "j < n" "live_entry (t ! j)"
  shows "counts_ok n (t[j := INVALID_PPA, i := v])
    (c\<lparr>total_invalid_pages := total_invalid_pages c + 1, total_free_pages := total_free_pages c - 1\<rparr>)"
proof -
  let ?I = "\<lambda>v. v = INVALID_PPA" and ?F = "\<lambda>v. v = FREE_PPA" and ?t = "t[j := INVALID_PPA]"
  have ij: "i \<noteq> j" using assms(5,8) by auto
  then have ti: "?t ! i = FREE_PPA" using assms(5) by simp
  have "count_in live_entry (?t[i := v]) 0 n = Suc (count_in live_entry ?t 0 n)"
    using assms ti by (intro count_in_upd_add) simp_all
  moreover have "Suc (count_in live_entry ?t 0 n) = count_in live_entry t 0 n"
    using assms by (intro count_in_upd_del) simp_all
  ultimately have lv: "count_in live_entry (?t[i := v]) 0 n = count_in live_entry t 0 n" by simp
  have "Suc (count_in ?F (?t[i := v]) 0 n) = count_in ?F ?t 0 n" using assms ti by (intro count_in_upd_del) auto
  moreover have "count_in ?F ?t 0 n = count_in ?F t 0 n" using assms by (intro count_in_upd_same) auto
  ultimately have fr: "Suc (count_in ?F (?t[i := v]) 0 n) = count_in ?F t 0 n" by simp
  have "count_in ?I (?t[i := v]) 0 n = count_in ?I ?t 0 n" using assms ti by (intro count_in_upd_same) auto
  moreover have "count_in ?I ?t 0 n = Suc (count_in ?I t 0 n)" using assms by (intro count_in_upd_add) auto
  ultimately have iv: "count_in ?I (?t[i := v]) 0 n = Suc (count_in ?I t 0 n)" by simp
  have "Suc (count_in ?I t 0 n) < 2 ^ 32" using count_in_le [of ?I "?t[i := v]" 0 n] iv assms(1) by simp
  then have "unat (total_invalid_pages c + 1) = unat (total_invalid_pages c) + 1" using assms(2) by (intro unat_inc) (simp add: counts_ok_def)
  moreover have "unat (total_free_pages c - 1) = unat (total_free_pages c) - 1" using assms(2) fr by (intro unat_dec) (simp add: counts_ok_def)
  ultimately show ?thesis using assms(2) lv fr iv by (simp add: counts_ok_def)
qed

section \<open>Mapping a logical page\<close>

text \<open>The search pointers after handing out the page at position \<open>k\<close> of the log.\<close>

definition took :: "geo \<Rightarrow> nat \<Rightarrow> 'a ftl_st_scheme \<Rightarrow> 'a ftl_st_scheme" where
  "took g k s = (let i = inc_page (log_ppa g k) in
     s\<lparr>ftl_config := (ftl_config s)\<lparr>last_selected_ppa := i\<rparr>, last_searched_channel := i,
       last_page_per_plane := (last_page_per_plane s)[plane_index g i := i]\<rparr>)"

lemma took_simps [simp]:
  "lpa_table (took g k s) = lpa_table s" "ppa_table (took g k s) = ppa_table s" "blk_table (took g k s) = blk_table s"
  by (simp_all add: took_def Let_def)

lemma get_free_ppa_log:
  assumes "geo_ok g" "alloc_inv g k s" "Suc k < TOTAL_NUM_OF_PAGES g"
  shows "get_free_ppa g s = Some (log_ppa g (Suc k), took g (Suc k) s)"
  by (subst get_free_ppa.simps) (simp add: find_free_page_log [OF assms] took_def Let_def)

lemma log_alloc_step:
  assumes g: "geo_ok g" and inv: "alloc_inv g k s" and k: "Suc k < TOTAL_NUM_OF_PAGES g"
    and len: "length (ppa_table s') = length (ppa_table s)"
    and new: "ppa_table s' ! ppa_index g (log_ppa g (Suc k)) \<noteq> FREE_PPA"
    and old: "\<And>i. i \<noteq> ppa_index g (log_ppa g (Suc k)) \<Longrightarrow> (ppa_table s' ! i = FREE_PPA) = (ppa_table s ! i = FREE_PPA)"
    and l: "last_searched_channel s' = inc_page (log_ppa g (Suc k))"
      "last_page_per_plane s' = last_page_per_plane (took g (Suc k) s)"
  shows "alloc_inv g (Suc k) s'"
proof -
  let ?j = "Suc k mod NPL g" and ?i = "inc_page (log_ppa g (Suc k))"
  have N: "0 < NPL g" and j: "?j < NPL g" using NPL_pos [OF g] by simp_all
  have pj: "plane_index g ?i = plane_index g (log_plane g ?j)" unfolding log_ppa_next by (rule plane_index_cong) simp
  have "last_page_per_plane s' ! plane_index g (log_plane g j) = frontier g j (used g (Suc k) j)" if "j < NPL g" for j
  proof (cases "j = ?j")
    case True
    have "?i = frontier g ?j (used g (Suc k) ?j)"
      using used_step [OF N j, of k] used_next [OF N, of k] by (simp add: frontier_def log_ppa_next)
    with True inv plane_index_log_less [OF g j] pj show ?thesis
      by (simp add: l took_def Let_def alloc_inv_def)
  next
    case False
    then have "plane_index g (log_plane g j) \<noteq> plane_index g ?i" using plane_index_log_inj [OF g that j] pj by metis
    with False inv that used_step [OF N that, of k] show ?thesis by (simp add: l took_def Let_def alloc_inv_def)
  qed
  moreover have "(ppa_table s' ! ppa_index g (log_ppa g i) = FREE_PPA) = (Suc k < i)" if "i < TOTAL_NUM_OF_PAGES g" for i
  proof (cases "i = Suc k")
    case False
    then have "ppa_index g (log_ppa g i) \<noteq> ppa_index g (log_ppa g (Suc k))" using log_index_inj [OF g that k] by blast
    with old inv that False show ?thesis by (simp add: alloc_inv_def) linarith
  qed (use new in simp)
  moreover have "same_plane (last_searched_channel s') (log_plane g ?j)" by (simp add: l log_ppa_next)
  ultimately show ?thesis using inv k len by (simp add: alloc_inv_def l took_def Let_def)
qed

text \<open>The table of logical pages after mapping \<open>lpn\<close> to \<open>p\<close>.\<close>

lemma ftl_abs_upd:
  "lpn < length (lpa_table s) \<Longrightarrow> p_chn p \<noteq> 0xFF \<Longrightarrow> lpa_table s' = (lpa_table s)[lpn := p] \<Longrightarrow> ftl_abs s' = (ftl_abs s)(lpn \<mapsto> p)"
  by (rule ext) (auto simp: ftl_abs_def nth_list_update)

lemma map_ok_inj: "map_ok g s \<Longrightarrow> geo_ok g \<Longrightarrow> ftl_abs s l1 = Some p \<Longrightarrow> ftl_abs s l2 = Some p \<Longrightarrow> l1 = l2"
proof -
  assume m: "map_ok g s" and g: "geo_ok g" and l: "ftl_abs s l1 = Some p" "ftl_abs s l2 = Some p"
  have "l1 < 2 ^ 30" "l2 < 2 ^ 30" using m g l by (auto simp: map_ok_def geo_ok_def ftl_abs_def split: if_splits)
  moreover have "(of_nat l1 :: u32) = of_nat l2" using m l by (metis map_ok_def)
  ultimately show "l1 = l2" by (metis unat_lpn)
qed

lemma map_step:
  assumes g: "geo_ok g" and m: "map_ok g s" and p: "ppa_ok g p" and n: "lpn < TOTAL_NUM_OF_PAGES g"
    and free: "ppa_table s ! ppa_index g p = FREE_PPA"
    and lt: "lpa_table s' = (lpa_table s)[lpn := p]"
    and pt: "ppa_table s' = (case ftl_abs s lpn of None \<Rightarrow> ppa_table s | Some q \<Rightarrow> (ppa_table s)[ppa_index g q := INVALID_PPA])
      [ppa_index g p := of_nat lpn]"
  shows "map_ok g s'"
proof -
  have len: "length (lpa_table s) = TOTAL_NUM_OF_PAGES g" "length (ppa_table s) = TOTAL_NUM_OF_PAGES g" using m by (simp_all add: map_ok_def)
  have pc: "p_chn p \<noteq> 0xFF" using g p by (simp add: geo_ok_def ppa_ok_def)
  have pi: "ppa_index g p < TOTAL_NUM_OF_PAGES g" using p by (rule ppa_index_less)
  have ab: "ftl_abs s' = (ftl_abs s)(lpn \<mapsto> p)" by (rule ftl_abs_upd) (use len n pc lt in simp_all)
  have T: "TOTAL_NUM_OF_PAGES g < 2 ^ 30" using g by (simp add: geo_ok_def)
  have mapped: "ppa_ok g q \<and> ppa_table s ! ppa_index g q = of_nat l \<and> l < 2 ^ 30" if "ftl_abs s l = Some q" for l q
    using m that T len(1) by (auto simp: map_ok_def ftl_abs_def split: if_splits)
  have idx: "ppa_index g q = ppa_index g r \<longleftrightarrow> q = r" if "ppa_ok g q" "ppa_ok g r" for q r
    using that ppa_index_inj by metis
  have ent: "ppa_table s' ! ppa_index g q = (if q = p then of_nat lpn else if ftl_abs s lpn = Some q then INVALID_PPA else ppa_table s ! ppa_index g q)"
    if "ppa_ok g q" for q
  proof (cases "ftl_abs s lpn")
    case None
    with that pi len(2) idx [OF that p] show ?thesis by (auto simp: pt nth_list_update)
  next
    case (Some r)
    then have "ppa_ok g r" using mapped by blast
    with idx [OF this that] that pi len(2) idx [OF that p] ppa_index_less [of g r] Some show ?thesis by (auto simp: pt nth_list_update)
  qed
  have "ppa_ok g q \<and> ppa_table s' ! ppa_index g q = of_nat l" if "ftl_abs s' l = Some q" for l q
  proof (cases "l = lpn")
    case False
    with that ab have q: "ftl_abs s l = Some q" by simp
    then have "q \<noteq> p" using mapped [OF q] free lpn_entry_classes(2) by metis
    moreover have "ftl_abs s lpn \<noteq> Some q" using map_ok_inj [OF m g q] False by blast
    ultimately show ?thesis using ent mapped [OF q] by simp
  qed (use that ab ent p in auto)
  moreover have "ftl_abs s' (unat (ppa_table s' ! ppa_index g q)) = Some q"
    if q: "ppa_ok g q" "ppa_table s' ! ppa_index g q AND VALID_PPA_MASK = 0" for q
  proof (cases "q = p")
    case True
    then show ?thesis using ent [OF p] ab n T by (simp add: unat_lpn)
  next
    case False
    have "INVALID_PPA AND VALID_PPA_MASK \<noteq> 0" by (simp add: ppa_consts)
    with False ent [OF q(1)] q(2) have o: "ftl_abs s lpn \<noteq> Some q" "ppa_table s' ! ppa_index g q = ppa_table s ! ppa_index g q"
      by (auto split: if_splits)
    with m q have "ftl_abs s (unat (ppa_table s ! ppa_index g q)) = Some q" by (simp add: map_ok_def)
    with o ab show ?thesis by auto
  qed
  ultimately show ?thesis using len by (auto simp: map_ok_def lt pt split: option.splits)
qed

text \<open>The result of \<open>make_new_mapping\<close> on each branch.\<close>

lemma upd_blk_some:
  "block_index g p < length (blk_table s) \<Longrightarrow> upd_blk g p f s = Some (s\<lparr>blk_table := (blk_table s)[block_index g p := f (blk_table s ! block_index g p)]\<rparr>)"
  by (simp add: upd_blk_def Let_def)

lemma set_ppa_entry_some:
  "ppa_index g p < length (ppa_table s) \<Longrightarrow> set_ppa_entry g p v s = Some (s\<lparr>ppa_table := (ppa_table s)[ppa_index g p := v]\<rparr>)"
  by (simp add: set_ppa_entry_def)

lemmas map_op_defs = MAP_LPA_AND_PPA_def SET_MAPPED_PPA_def SET_MAPPED_LPA_def SET_INVALID_PPA_def INC_VALID_PAGES_def
  DEC_VALID_PAGES_def INC_INVALID_PAGES_def IS_UNMAPPED_LPA_def GET_MAPPED_PPA_def set_ppa_entry_some upd_blk_some

lemma make_new_mapping_fresh:
  assumes "get_free_ppa g s = Some (p, s1)" "lpn < length (lpa_table s1)" "p_chn (lpa_table s1 ! lpn) = 0xFF"
    "ppa_index g p < length (ppa_table s1)" "block_index g p < length (blk_table s1)"
  defines "m \<equiv> blk_table s1 ! block_index g p"
  shows "make_new_mapping g lpn s = Some (p, s1\<lparr>lpa_table := (lpa_table s1)[lpn := p],
    ppa_table := (ppa_table s1)[ppa_index g p := of_nat lpn],
    blk_table := (blk_table s1)[block_index g p := m\<lparr>valid_pgs := valid_pgs m + 1\<rparr>],
    ftl_config := (ftl_config s1)\<lparr>total_valid_pages := total_valid_pages (ftl_config s1) + 1,
      total_free_pages := total_free_pages (ftl_config s1) - 1\<rparr>\<rparr>)"
  using assms by (simp add: make_new_mapping_def map_op_defs)

lemma make_new_mapping_move:
  assumes "get_free_ppa g s = Some (p, s1)" "lpn < length (lpa_table s1)" "p_chn (lpa_table s1 ! lpn) \<noteq> 0xFF"
    "ppa_index g p < length (ppa_table s1)" "block_index g p < length (blk_table s1)"
    "ppa_index g (lpa_table s1 ! lpn) < length (ppa_table s1)" "block_index g (lpa_table s1 ! lpn) < length (blk_table s1)"
  defines "o1 \<equiv> lpa_table s1 ! lpn"
  defines "m \<equiv> blk_table s1 ! block_index g o1"
  defines "bl \<equiv> (blk_table s1)[block_index g o1 := m\<lparr>invalid_pgs := invalid_pgs m + 1, valid_pgs := valid_pgs m - 1\<rparr>]"
  defines "m' \<equiv> bl ! block_index g p"
  shows "make_new_mapping g lpn s = Some (p, s1\<lparr>lpa_table := (lpa_table s1)[lpn := p],
    ppa_table := (ppa_table s1)[ppa_index g o1 := INVALID_PPA, ppa_index g p := of_nat lpn],
    blk_table := bl[block_index g p := m'\<lparr>valid_pgs := valid_pgs m' + 1\<rparr>],
    ftl_config := (ftl_config s1)\<lparr>total_invalid_pages := total_invalid_pages (ftl_config s1) + 1,
      total_free_pages := total_free_pages (ftl_config s1) - 1\<rparr>\<rparr>)"
  using assms by (simp add: make_new_mapping_def map_op_defs)

lemma counts_cong:
  "total_free_pages c' = total_free_pages c \<Longrightarrow> total_valid_pages c' = total_valid_pages c \<Longrightarrow>
     total_invalid_pages c' = total_invalid_pages c \<Longrightarrow> counts_ok n t c' = counts_ok n t c"
  by (simp add: counts_ok_def)

lemma took_counts: "counts_ok n t (ftl_config (took g k s)) = counts_ok n t (ftl_config s)"
  by (rule counts_cong) (simp_all add: took_def Let_def)

text \<open>Everything but the tables and the search pointers stays as it is.\<close>

definition map_frame :: "'a ftl_st_scheme \<Rightarrow> 'a ftl_st_scheme \<Rightarrow> bool" where
  "map_frame s s' \<longleftrightarrow> s' = s\<lparr>ftl_config := ftl_config s', last_searched_channel := last_searched_channel s', lpa_table := lpa_table s',
     ppa_table := ppa_table s', blk_table := blk_table s', last_page_per_plane := last_page_per_plane s'\<rparr>"

lemma new_mapping_inv:
  assumes g: "geo_ok g" and inv: "ftl_inv g k s" and k: "Suc k < TOTAL_NUM_OF_PAGES g" and n: "lpn < TOTAL_NUM_OF_PAGES g"
    and s': "s' = (took g (Suc k) s)\<lparr>lpa_table := (lpa_table s)[lpn := log_ppa g (Suc k)],
      ppa_table := (case ftl_abs s lpn of None \<Rightarrow> ppa_table s | Some q \<Rightarrow> (ppa_table s)[ppa_index g q := INVALID_PPA])
        [ppa_index g (log_ppa g (Suc k)) := of_nat lpn], blk_table := bl, ftl_config := c\<rparr>"
    and c: "counts_ok (TOTAL_NUM_OF_PAGES g) (ppa_table s') c" and bl: "blocks_ok g (ppa_table s') bl"
  shows "ftl_inv g (Suc k) s' \<and> ftl_abs s' = (ftl_abs s)(lpn \<mapsto> log_ppa g (Suc k)) \<and> map_frame s s'"
proof -
  let ?p = "log_ppa g (Suc k)" and ?N = "TOTAL_NUM_OF_PAGES g"
  have a: "alloc_inv g k s" and m: "map_ok g s" using inv by (simp_all add: ftl_inv_def)
  have len: "length (lpa_table s) = ?N" "length (ppa_table s) = ?N" using m by (simp_all add: map_ok_def)
  have p: "ppa_ok g ?p" by (rule log_ppa_ok [OF g k])
  have free: "ppa_table s ! ppa_index g ?p = FREE_PPA" using a k by (simp add: alloc_inv_def)
  have lv: "(of_nat lpn :: u32) \<noteq> FREE_PPA" using n g by (intro lpn_entry_classes) (simp add: geo_ok_def)
  have "map_ok g s'" by (rule map_step [OF g m p n free]) (simp_all add: s')
  moreover have "alloc_inv g (Suc k) s'"
  proof (rule log_alloc_step [OF g a k])
    fix i assume i: "i \<noteq> ppa_index g ?p"
    show "(ppa_table s' ! i = FREE_PPA) = (ppa_table s ! i = FREE_PPA)"
    proof (cases "ftl_abs s lpn")
      case (Some q)
      with m have "ppa_ok g q" "ppa_table s ! ppa_index g q = of_nat lpn" by (auto simp: map_ok_def)
      with Some i lv len ppa_index_less [of g q] show ?thesis by (auto simp: s' nth_list_update)
    qed (use i in \<open>simp add: s'\<close>)
  qed (use ppa_index_less [OF p] len lv in \<open>simp_all add: s' took_def Let_def split: option.split\<close>)
  moreover have "ftl_abs s' = (ftl_abs s)(lpn \<mapsto> ?p)"
    by (rule ftl_abs_upd) (use n len g p in \<open>simp_all add: s' geo_ok_def ppa_ok_def\<close>)
  moreover have "map_frame s s'" by (simp add: s' map_frame_def took_def Let_def)
  ultimately show ?thesis using c bl by (simp add: ftl_inv_def s')
qed

lemma new_mapping_step:
  assumes g: "geo_ok g" and inv: "ftl_inv g k s" and k: "Suc k < TOTAL_NUM_OF_PAGES g" and n: "lpn < TOTAL_NUM_OF_PAGES g"
  shows "\<exists>s'. make_new_mapping g lpn s = Some (log_ppa g (Suc k), s') \<and> ftl_inv g (Suc k) s' \<and>
     ftl_abs s' = (ftl_abs s)(lpn \<mapsto> log_ppa g (Suc k)) \<and> map_frame s s'"
proof -
  let ?p = "log_ppa g (Suc k)" and ?s1 = "took g (Suc k) s" and ?N = "TOTAL_NUM_OF_PAGES g"
  have a: "alloc_inv g k s" and m: "map_ok g s" and b: "blocks_ok g (ppa_table s) (blk_table s)"
    and c: "counts_ok ?N (ppa_table s) (ftl_config ?s1)" using inv by (simp_all add: ftl_inv_def took_counts)
  have T: "?N < 2 ^ 30" and n30: "lpn < 2 ^ 30" using g n by (simp_all add: geo_ok_def)
  have len: "length (lpa_table s) = ?N" "length (ppa_table s) = ?N" "length (blk_table s) = TOTAL_NUM_OF_BLOCK g"
    using m b by (simp_all add: map_ok_def blocks_ok_def)
  have p: "ppa_ok g ?p" by (rule log_ppa_ok [OF g k])
  note bp = block_of_page [OF p] and gf = get_free_ppa_log [OF g a k] and lv = lpn_entry_classes [OF n30]
  have free: "ppa_table s ! ppa_index g ?p = FREE_PPA" using a k by (simp add: alloc_inv_def)
  show ?thesis
  proof (cases "p_chn (lpa_table s ! lpn) = 0xFF")
    case True
    then have ab: "ftl_abs s lpn = None" by (simp add: ftl_abs_def)
    from make_new_mapping_fresh [OF gf, of lpn] n True bp(1,2) len
      new_mapping_inv [OF g inv k n refl, unfolded ab option.case, simplified, OF
        counts_fresh [OF T c len(2) bp(2) free lv(1)] blocks_assign [OF g b p len(2) free lv(1)]]
    show ?thesis by simp
  next
    case False
    let ?o = "lpa_table s ! lpn"
    have ab: "ftl_abs s lpn = Some ?o" using False n len by (simp add: ftl_abs_def)
    then have o: "ppa_ok g ?o" "ppa_table s ! ppa_index g ?o = of_nat lpn" using m by (auto simp: map_ok_def)
    note bo = block_of_page [OF o(1)]
    have lo: "live_entry (ppa_table s ! ppa_index g ?o)" using o(2) lv(1) by simp
    have ne: "ppa_index g ?p \<noteq> ppa_index g ?o" using free o(2) lv(2) by metis
    from ne free have free': "(ppa_table s)[ppa_index g ?o := INVALID_PPA] ! ppa_index g ?p = FREE_PPA" by simp
    from make_new_mapping_move [OF gf, of lpn] n False bp(1,2) bo(1,2) len
      new_mapping_inv [OF g inv k n refl, unfolded ab option.case, simplified, OF counts_move [OF T c len(2) bp(2) free lv(1) bo(2) lo]
        blocks_assign [OF g blocks_retire [OF g b o(1) len(2) lo] p _ free' lv(1)]]
    show ?thesis by simp
  qed
qed

section \<open>Pages are handed out once\<close>

lemma scan_block_found:
  "scan_block g t p = Some (True, q) \<Longrightarrow> IS_FREE_PPA g t q = Some True"
proof (induction g t p "(True, q)" arbitrary: q rule: scan_block.raw_induct [rotated, consumes 1, case_names 1])
  case (1 scan g t i)
  then show ?case by (auto split: if_splits elim!: bind_SomeE)
qed

lemma scan_plane_found: "scan_plane g t n p = Some (True, q) \<Longrightarrow> IS_FREE_PPA g t q = Some True"
  by (induction n arbitrary: p) (auto elim!: bind_SomeE dest: scan_block_found split: prod.splits if_splits)

lemma find_free_page_found:
  assumes "find_free_page g s = Some (r, s')"
  shows "ppa_table s' = ppa_table s" "r = Some p \<Longrightarrow> IS_FREE_PPA g (ppa_table s) p = Some True"
  using assms by (auto simp: find_free_page_def Let_def elim!: bind_SomeE dest: scan_plane_found split: if_splits)

lemma get_free_ppa_found: "get_free_ppa g s = Some (p, s') \<Longrightarrow> IS_FREE_PPA g (ppa_table s) p = Some True"
proof (induction g s "(p, s')" rule: get_free_ppa.raw_induct [rotated, consumes 1, case_names 1])
  case (1 get g s)
  from 1(2) obtain r s1 where f: "find_free_page g s = Some (r, s1)"
    and c: "(case r of None \<Rightarrow> get g s1 | Some p \<Rightarrow> Some (p, s1)) = Some (p, s')" by (auto elim!: bind_SomeE)
  show ?case
  proof (cases r)
    case None
    with c 1(1) have "IS_FREE_PPA g (ppa_table s1) p = Some True" by simp
    with find_free_page_found(1) [OF f] show ?thesis by simp
  next
    case (Some q)
    with c find_free_page_found(2) [OF f Some] show ?thesis by simp
  qed
qed

section \<open>New media\<close>

lemma concat_uniform_nth:
  assumes "\<And>i. i < n \<Longrightarrow> length (f i) = m" "i < n" "j < m"
  shows "concat (map f [0..<n]) ! (i * m + j) = f i ! j"
  using assms
proof (induction n)
  case (Suc n)
  have "length (concat (map f [0..<k])) = k * m" if "k \<le> n" for k
    using that Suc.prems(1) by (induction k) auto
  then have len: "length (concat (map f [0..<n])) = n * m" by simp
  show ?case
  proof (cases "i = n")
    case True
    with len Suc.prems show ?thesis by (simp add: nth_append)
  next
    case False
    with Suc.prems have "i < n" by simp
    with mixed_less [OF this Suc.prems(3)] len Suc show ?thesis by (simp add: nth_append)
  qed
qed simp

lemma concat_uniform_length: "(\<And>i. i < n \<Longrightarrow> length (f i) = m) \<Longrightarrow> length (concat (map f [0..<n])) = n * m"
  by (induction n) auto

lemma init_last_pages_length: "length (init_last_pages g) = NPL g"
proof -
  let ?in = "\<lambda>ichn idie. map (\<lambda>iplane. zero_ppa\<lparr>p_chn := ichn, p_die := idie, p_plane := iplane\<rparr>) [0..<PLANES_PER_DIE g]"
  have "length (concat (map (?in c) [0..<DIES_PER_CHANNEL g])) = DIES_PER_CHANNEL g * PLANES_PER_DIE g" for c
    by (rule concat_uniform_length) simp
  then have "length (init_last_pages g) = NUM_CHANNELS g * (DIES_PER_CHANNEL g * PLANES_PER_DIE g)"
    unfolding init_last_pages_def by (rule concat_uniform_length)
  then show ?thesis by (simp add: NPL_def)
qed

lemma init_last_pages_nth:
  assumes "geo_ok g" "j < NPL g"
  shows "init_last_pages g ! plane_index g (log_plane g j) = log_plane g j"
proof -
  let ?l = "log_plane g j"
  let ?in = "\<lambda>ichn idie. map (\<lambda>iplane. zero_ppa\<lparr>p_chn := ichn, p_die := idie, p_plane := iplane\<rparr>) [0..<PLANES_PER_DIE g]"
  let ?mid = "\<lambda>ichn. concat (map (?in ichn) [0..<DIES_PER_CHANNEL g])"
  note b = log_plane_bounds [OF assms]
  have idx: "plane_index g ?l = p_chn ?l * (DIES_PER_CHANNEL g * PLANES_PER_DIE g) + (p_die ?l * PLANES_PER_DIE g + p_plane ?l)"
    by (simp add: plane_index_def algebra_simps)
  have "init_last_pages g ! plane_index g ?l = ?mid (p_chn ?l) ! (p_die ?l * PLANES_PER_DIE g + p_plane ?l)"
    unfolding init_last_pages_def idx
  proof (rule concat_uniform_nth [OF _ b(1)])
    show "length (?mid i) = DIES_PER_CHANNEL g * PLANES_PER_DIE g" for i by (rule concat_uniform_length) simp
    show "p_die ?l * PLANES_PER_DIE g + p_plane ?l < DIES_PER_CHANNEL g * PLANES_PER_DIE g" by (intro mixed_less b)
  qed
  also have "\<dots> = ?in (p_chn ?l) (p_die ?l) ! p_plane ?l" by (rule concat_uniform_nth [OF _ b(2,3)]) simp
  also have "\<dots> = ?l" using b(3) by (simp add: log_plane_def zero_ppa_def)
  finally show ?thesis .
qed

text \<open>The memory the firmware starts with: the generated tables, and zeroed block metadata.\<close>

definition boot_tables :: "geo \<Rightarrow> 'a ftl_st_scheme \<Rightarrow> 'a ftl_st_scheme" where
  "boot_tables g s = (map_tables_image g s)\<lparr>blk_table := replicate (TOTAL_NUM_OF_BLOCK g) \<lparr>invalid_pgs = 0, valid_pgs = 0, erase_count = 0\<rparr>\<rparr>"

lemma boot_blocks:
  "geo_ok g \<Longrightarrow> blocks_ok g (replicate (TOTAL_NUM_OF_PAGES g) FREE_PPA)
     (replicate (TOTAL_NUM_OF_BLOCK g) \<lparr>invalid_pgs = 0, valid_pgs = 0, erase_count = 0\<rparr>)"
  by (simp add: blocks_ok_def block_count_def count_in_replicate)

lemma zero_ppa_ok: "geo_ok g \<Longrightarrow> ppa_ok g zero_ppa"
  by (simp add: geo_ok_def ppa_ok_def zero_ppa_def)

lemma zero_ppa_index: "ppa_index g zero_ppa = 0" "block_index g zero_ppa = 0"
  by (simp_all add: ppa_index_def block_index_def plane_index_def zero_ppa_def)

lemma total_pos: "geo_ok g \<Longrightarrow> 0 < TOTAL_NUM_OF_PAGES g" "geo_ok g \<Longrightarrow> 0 < TOTAL_NUM_OF_BLOCK g"
  by (metis less_nat_zero_code neq0_conv zero_ppa_ok ppa_index_less, metis block_of_page(1) less_nat_zero_code neq0_conv zero_ppa_ok)

lemma plane_index_first: "geo_ok g \<Longrightarrow> plane_index g (inc_page zero_ppa) = 0"
  by (simp add: plane_index_def inc_page_def zero_ppa_def)

text \<open>The state after the initialisation of new media.\<close>

lemma new_media_counts:
  assumes "0 < n" "n < 2 ^ 30" and c: "total_invalid_pages c = 0" "total_valid_pages c = 1" "total_free_pages c = of_nat n - 1"
  shows "counts_ok n ((replicate n FREE_PPA)[0 := RESERVED_PPA]) c"
proof -
  let ?t = "replicate n FREE_PPA"
  have "unat (of_nat n :: u32) = n" using assms by (simp add: unat_of_nat)
  then have "unat (of_nat n - 1 :: u32) = n - 1" using assms(1) by (simp add: unat_dec)
  moreover have "Suc (count_in (\<lambda>v. v = FREE_PPA) (?t[0 := RESERVED_PPA]) 0 n) = n"
    using count_in_upd_del [of 0 0 n ?t "\<lambda>v. v = FREE_PPA" RESERVED_PPA] assms by (simp add: count_in_replicate)
  moreover have "count_in live_entry (?t[0 := RESERVED_PPA]) 0 n = 1"
    using count_in_upd_add [of 0 0 n ?t live_entry RESERVED_PPA] assms by (simp add: count_in_replicate)
  moreover have "count_in (\<lambda>v. v = INVALID_PPA) (?t[0 := RESERVED_PPA]) 0 n = 0"
    using count_in_upd_same [of 0 ?t "\<lambda>v. v = INVALID_PPA" RESERVED_PPA 0 n] assms by (simp add: count_in_replicate)
  ultimately show ?thesis by (simp add: counts_ok_def c)
qed

lemma new_media_alloc:
  assumes g: "geo_ok g" and t: "ppa_table s = (replicate (TOTAL_NUM_OF_PAGES g) FREE_PPA)[0 := RESERVED_PPA]"
    and l: "last_page_per_plane s = (init_last_pages g)[0 := inc_page zero_ppa]" "last_searched_channel s = inc_page zero_ppa"
  shows "alloc_inv g 0 s"
proof -
  have z: "log_plane g 0 = zero_ppa" by (simp add: log_plane_def zero_ppa_def)
  have N: "0 < NPL g" by (rule NPL_pos [OF g])
  have p0: "plane_index g (log_plane g 0) = 0" by (simp add: z plane_index_def zero_ppa_def)
  have "last_page_per_plane s ! plane_index g (log_plane g j) = frontier g j (used g 0 j)" if "j < NPL g" for j
  proof (cases "j = 0")
    case True
    have "at_page g zero_ppa 0 = zero_ppa" by (simp add: at_page_def zero_ppa_def)
    with True N p0 show ?thesis by (simp add: l init_last_pages_length used_def frontier_def z)
  next
    case False
    with plane_index_log_inj [OF g that N] p0 have "plane_index g (log_plane g j) \<noteq> 0" by auto
    moreover have "used g 0 j = 0" using False N by (simp add: used_def)
    ultimately show ?thesis using init_last_pages_nth [OF g that] by (simp add: l frontier_def)
  qed
  moreover have "(ppa_table s ! ppa_index g (log_ppa g i) = FREE_PPA) = (0 < i)" if "i < TOTAL_NUM_OF_PAGES g" for i
    using that log_index_inj [OF g that total_pos(1) [OF g]] ppa_index_less [OF log_ppa_ok [OF g that]]
    by (cases "i = 0") (auto simp: t log_ppa_0 [OF g] zero_ppa_index nth_list_update)
  ultimately show ?thesis using total_pos(1) [OF g] g by (simp add: alloc_inv_def t l init_last_pages_length z)
qed

lemma new_flash_media_result:
  assumes g: "geo_ok g" and t: "ppa_table s \<noteq> []" "blk_table s \<noteq> []"
  shows "\<exists>s1. new_flash_media g mb s = Some s1 \<and> ppa_table s1 = (ppa_table s)[0 := RESERVED_PPA] \<and> lpa_table s1 = lpa_table s \<and>
     blk_table s1 = (blk_table s)[0 := (blk_table s ! 0)\<lparr>valid_pgs := valid_pgs (blk_table s ! 0) + 1\<rparr>] \<and>
     last_page_per_plane s1 = (init_last_pages g)[0 := inc_page zero_ppa] \<and> last_selected_ppa (ftl_config s1) = inc_page zero_ppa \<and>
     total_invalid_pages (ftl_config s1) = 0 \<and> total_valid_pages (ftl_config s1) = 1 \<and>
     total_free_pages (ftl_config s1) = of_nat (TOTAL_NUM_OF_PAGES g) - 1"
proof -
  have i: "init_last_pages g \<noteq> []" using init_last_pages_length [of g] NPL_pos [OF g] by auto
  show ?thesis
    unfolding new_flash_media_def Let_def SET_RESERVED_PPA_def INC_VALID_PAGES_def set_ppa_entry_def upd_blk_def zero_ppa_index plane_index_first [OF g]
    using t i by simp
qed

lemma new_media_init:
  assumes g: "geo_ok g"
  shows "\<exists>s1. new_flash_media g mb (boot_tables g s) = Some s1 \<and> ftl_inv g 0 (finish_ftl_init s1) \<and>
     ftl_abs (finish_ftl_init s1) = Map.empty"
proof -
  let ?n = "TOTAL_NUM_OF_PAGES g" and ?t = "replicate (TOTAL_NUM_OF_PAGES g) FREE_PPA"
  let ?m0 = "\<lparr>invalid_pgs = 0, valid_pgs = 0, erase_count = 0\<rparr>"
  have un: "p_chn (ppa_of 0x00FF000000000000) = 0xFF" by (simp add: ppa_of_def)
  have n: "0 < ?n" "?n < 2 ^ 30" "0 < NPL g" using total_pos [OF g] g NPL_pos [OF g] by (simp_all add: geo_ok_def)
  have b: "ppa_table (boot_tables g s) = ?t" "lpa_table (boot_tables g s) = replicate ?n (ppa_of 0x00FF000000000000)"
    "blk_table (boot_tables g s) = replicate (TOTAL_NUM_OF_BLOCK g) ?m0" by (simp_all add: boot_tables_def map_tables_image_def)
  from new_flash_media_result [OF g, of "boot_tables g s" mb] total_pos [OF g]
  obtain s1 where s1: "new_flash_media g mb (boot_tables g s) = Some s1"
    and t: "ppa_table s1 = ?t[0 := RESERVED_PPA]" "lpa_table s1 = replicate ?n (ppa_of 0x00FF000000000000)"
      "blk_table s1 = (replicate (TOTAL_NUM_OF_BLOCK g) ?m0)[0 := ?m0\<lparr>valid_pgs := 0 + 1\<rparr>]"
    and l: "last_page_per_plane s1 = (init_last_pages g)[0 := inc_page zero_ppa]" "last_selected_ppa (ftl_config s1) = inc_page zero_ppa"
    and c: "total_invalid_pages (ftl_config s1) = 0" "total_valid_pages (ftl_config s1) = 1" "total_free_pages (ftl_config s1) = of_nat ?n - 1"
    unfolding b by auto
  let ?s = "finish_ftl_init s1"
  have same: "ppa_table ?s = ppa_table s1" "lpa_table ?s = lpa_table s1" "blk_table ?s = blk_table s1" "ftl_config ?s = ftl_config s1"
    "last_page_per_plane ?s = last_page_per_plane s1" "last_searched_channel ?s = last_selected_ppa (ftl_config s1)"
    by (simp_all add: finish_ftl_init_def Let_def)
  have ab: "ftl_abs ?s = Map.empty" by (rule ext) (simp add: ftl_abs_def same t un)
  have "alloc_inv g 0 ?s" by (rule new_media_alloc [OF g]) (simp_all add: same t l)
  moreover have "counts_ok ?n (ppa_table ?s) (ftl_config ?s)" using new_media_counts [OF n(1,2) c] by (simp add: same t)
  moreover have "blocks_ok g (ppa_table ?s) (blk_table ?s)"
    using blocks_assign [OF g boot_blocks [OF g] zero_ppa_ok [OF g], of RESERVED_PPA] total_pos [OF g]
    by (simp add: same t zero_ppa_index)
  moreover have "map_ok g ?s"
  proof -
    have "FREE_PPA AND VALID_PPA_MASK \<noteq> 0" "RESERVED_PPA AND VALID_PPA_MASK \<noteq> 0" by (simp_all add: ppa_consts)
    then have "ppa_table ?s ! i AND VALID_PPA_MASK \<noteq> 0" if "i < ?n" for i using that by (simp add: same t nth_list_update)
    then show ?thesis using ppa_index_less by (fastforce simp: map_ok_def ab same t)
  qed
  ultimately show ?thesis using s1 ab by (simp add: ftl_inv_def)
qed

section \<open>The interface of the mapping\<close>

text \<open>
  What the layers above rely on: \<open>place\<close> gives a logical page the next unused physical page, \<open>look\<close>
  finds it again, and no physical page belongs to two logical pages.
\<close>

locale page_mapper =
  fixes place :: "nat \<Rightarrow> 's \<Rightarrow> ('p \<times> 's) option" and look :: "'s \<Rightarrow> nat \<Rightarrow> 'p option" and inv :: "nat \<Rightarrow> 's \<Rightarrow> bool"
    and page :: "nat \<Rightarrow> 'p" and cap :: nat
  assumes place_next: "inv k s \<Longrightarrow> Suc k < cap \<Longrightarrow> n < cap \<Longrightarrow>
      \<exists>s'. place n s = Some (page (Suc k), s') \<and> inv (Suc k) s' \<and> look s' = (look s)(n \<mapsto> page (Suc k))"
    and page_inj: "inv k s \<Longrightarrow> page i = page j \<Longrightarrow> i = j"
    and look_inj: "inv k s \<Longrightarrow> look s a = Some p \<Longrightarrow> look s b = Some p \<Longrightarrow> a = b"

text \<open>A sequence of writes of logical pages, with the physical pages they got.\<close>

fun place_all :: "(nat \<Rightarrow> 's \<Rightarrow> ('p \<times> 's) option) \<Rightarrow> nat list \<Rightarrow> 's \<Rightarrow> ('p list \<times> 's) option" where
  "place_all place [] s = Some ([], s)"
| "place_all place (n # ns) s = do { (p, s1) \<leftarrow> place n s; (ps, s2) \<leftarrow> place_all place ns s1; Some (p # ps, s2) }"

context page_mapper
begin

lemma place_all_log:
  assumes "inv k s" "k + length ns < cap" "\<forall>n \<in> set ns. n < cap"
  shows "\<exists>s'. place_all place ns s = Some (map page [Suc k..<Suc (k + length ns)], s') \<and> inv (k + length ns) s' \<and>
     look s' = look s ++ map_of (rev (zip ns (map page [Suc k..<Suc (k + length ns)])))"
  using assms
proof (induction ns arbitrary: k s)
  case (Cons n ns)
  then obtain s1 where s1: "place n s = Some (page (Suc k), s1)" "inv (Suc k) s1" "look s1 = (look s)(n \<mapsto> page (Suc k))"
    using place_next [of k s n] by auto
  from Cons.IH [OF s1(2)] Cons.prems obtain s2 where
    s2: "place_all place ns s1 = Some (map page [Suc (Suc k)..<Suc (Suc k + length ns)], s2)" "inv (Suc k + length ns) s2"
      "look s2 = look s1 ++ map_of (rev (zip ns (map page [Suc (Suc k)..<Suc (Suc k + length ns)])))" by auto
  have up: "[Suc k..<Suc (k + length (n # ns))] = Suc k # [Suc (Suc k)..<Suc (Suc k + length ns)]"
    by (simp add: upt_conv_Cons del: upt_Suc)
  show ?case unfolding up using s1 s2 by (simp add: map_add_def fun_upd_def split: option.split) (auto simp: fun_eq_iff map_add_def split: option.splits)
qed simp

lemma pages_distinct: "inv k s \<Longrightarrow> distinct (map page [a..<b])"
  by (auto simp: distinct_map inj_on_def dest: page_inj)

lemma look_after_place:
  assumes "inv k s" "Suc k < cap" "n < cap" "place n s = Some (p, s')"
  shows "look s' n = Some p \<and> (\<forall>m. m \<noteq> n \<longrightarrow> look s' m = look s m \<and> look s' m \<noteq> Some p)"
proof -
  from place_next [OF assms(1-3)] assms(4) have r: "inv (Suc k) s'" "look s' = (look s)(n \<mapsto> p)" by auto
  then have "look s' m \<noteq> Some p" if "m \<noteq> n" for m using look_inj [OF r(1), of m p n] that by auto
  with r(2) show ?thesis by auto
qed

end

interpretation pm: page_mapper "make_new_mapping g" ftl_abs "\<lambda>k s. geo_ok g \<and> ftl_inv g k s" "log_ppa g" "TOTAL_NUM_OF_PAGES g" for g
proof
  fix k n and s :: "'a ftl_st_scheme" assume a: "geo_ok g \<and> ftl_inv g k s" "Suc k < TOTAL_NUM_OF_PAGES g" "n < TOTAL_NUM_OF_PAGES g"
  then show "\<exists>s'. make_new_mapping g n s = Some (log_ppa g (Suc k), s') \<and> (geo_ok g \<and> ftl_inv g (Suc k) s') \<and>
    ftl_abs s' = (ftl_abs s)(n \<mapsto> log_ppa g (Suc k))" using new_mapping_step [of g k s n] by blast
qed (auto dest: log_ppa_inj map_ok_inj simp: ftl_inv_def)

section \<open>Properties\<close>

text \<open>
  C7. \<open>make_new_mapping\<close> implements an update of a finite map. In a state that satisfies the
  invariant after \<open>k\<close> allocations, with a page left, mapping a logical page returns, gives it the
  next page of the write log, keeps the physical page of every other logical page, never shares a
  physical page, keeps the two tables inverse, and keeps the page counters of the device and of
  every block equal to the number of free, live and invalid entries of the table.
\<close>

theorem make_new_mapping_refines:
  assumes "geo_ok g" "ftl_inv g k s" "Suc k < TOTAL_NUM_OF_PAGES g" "lpn < TOTAL_NUM_OF_PAGES g"
  shows "\<exists>s'. make_new_mapping g lpn s = Some (log_ppa g (Suc k), s') \<and> ftl_inv g (Suc k) s' \<and>
     ftl_abs s' = (ftl_abs s)(lpn \<mapsto> log_ppa g (Suc k)) \<and> map_frame s s' \<and>
     (\<forall>m. m \<noteq> lpn \<longrightarrow> ftl_abs s' m = ftl_abs s m \<and> ftl_abs s' m \<noteq> Some (log_ppa g (Suc k)))"
proof -
  from new_mapping_step [OF assms] obtain s' where s': "make_new_mapping g lpn s = Some (log_ppa g (Suc k), s')" "ftl_inv g (Suc k) s'"
    "ftl_abs s' = (ftl_abs s)(lpn \<mapsto> log_ppa g (Suc k))" "map_frame s s'" by blast
  from pm.look_after_place [of g k s lpn "log_ppa g (Suc k)" s'] assms s'(1)
  have "\<forall>m. m \<noteq> lpn \<longrightarrow> ftl_abs s' m = ftl_abs s m \<and> ftl_abs s' m \<noteq> Some (log_ppa g (Suc k))" by blast
  with s' show ?thesis by blast
qed

text \<open>
  C30. Page allocation on new media: the initialisation returns with an empty map, and then every sequence of calls of
  \<open>make_new_mapping\<close>, up to the number of pages less one, returns. Each call gets a flash page of its own, and afterwards every
  logical page is mapped to the page of its last call. Only the tables are concerned: nothing is programmed here.
\<close>

theorem new_media_takes_writes:
  assumes "geo_ok g" "length ns < TOTAL_NUM_OF_PAGES g" "\<forall>n \<in> set ns. n < TOTAL_NUM_OF_PAGES g"
  shows "\<exists>s1 ps s2. new_flash_media g map_bytes (boot_tables g s) = Some s1 \<and> ftl_abs (finish_ftl_init s1) = Map.empty \<and>
     place_all (make_new_mapping g) ns (finish_ftl_init s1) = Some (ps, s2) \<and> length ps = length ns \<and> distinct ps \<and>
     ftl_abs s2 = map_of (rev (zip ns ps)) \<and> ftl_inv g (length ns) s2"
proof -
  from new_media_init [OF assms(1), of map_bytes s] obtain s1 where s1: "new_flash_media g map_bytes (boot_tables g s) = Some s1"
    "ftl_inv g 0 (finish_ftl_init s1)" "ftl_abs (finish_ftl_init s1) = Map.empty" by blast
  with pm.place_all_log [of g 0 "finish_ftl_init s1" ns] assms obtain s2 where
    s2: "place_all (make_new_mapping g) ns (finish_ftl_init s1) = Some (map (log_ppa g) [1..<Suc (length ns)], s2)"
      "ftl_inv g (length ns) s2" "ftl_abs s2 = map_of (rev (zip ns (map (log_ppa g) [1..<Suc (length ns)])))" by auto
  have "distinct (map (log_ppa g) [1..<Suc (length ns)])" using pm.pages_distinct [of g 0 "finish_ftl_init s1"] assms(1) s1(2) by blast
  moreover have "length (map (log_ppa g) [1..<Suc (length ns)]) = length ns" by (simp only: length_map length_upt)
  ultimately show ?thesis using s1 s2 by blast
qed

text \<open>
  The search for a free page only ever returns a page whose entry is free, and when the table
  has no free entry left it never returns: there is no garbage collection.
\<close>

theorem get_free_ppa_only_free:
  "(get_free_ppa g s = Some (p, s') \<longrightarrow> ppa_index g p < length (ppa_table s) \<and> ppa_table s ! ppa_index g p = FREE_PPA) \<and>
   (FREE_PPA \<notin> set (ppa_table s) \<longrightarrow> get_free_ppa g s = None)"
proof -
  have f: "ppa_index g q < length (ppa_table s) \<and> ppa_table s ! ppa_index g q = FREE_PPA" if "get_free_ppa g s = Some (q, s1)" for q s1
    using get_free_ppa_found [OF that] by (auto simp: IS_FREE_PPA_def split: if_splits)
  then show ?thesis by (cases "get_free_ppa g s") (use nth_mem in fastforce)+
qed

section \<open>Witnesses\<close>

text \<open>A device of eight pages, with new media.\<close>

definition ftl_image :: ftl_st where
  "ftl_image = nand_st.extend nand_image
     (ftl_st.fields \<lparr>cf_nand_ds = 0, cf_host_ds = 0, cf_pages_per_block = 0, cf_total_pages = 0, rpp_ovp = 0, rpp_map_tables = 0,
        total_rpp = 0, total_logical_pages = 0, total_invalid_pages = 0, total_valid_pages = 0, total_free_pages = 0,
        last_selected_ppa = zero_ppa, mapping_tables = []\<rparr> zero_ppa [] [] [] [] 0 0 0
        \<lparr>sc_host_ds = 0, nsze = 0, ncap = 0, nuse = 0\<rparr>)"

lemma tiny_total: "TOTAL_NUM_OF_PAGES tiny_geo = 8"
  by (simp add: tiny_geo_def geom_defs)

theorem make_new_mapping_refines_witness:
  "\<exists>s s' :: ftl_st. make_new_mapping tiny_geo 5 s = Some (log_ppa tiny_geo 1, s') \<and> ftl_abs s' 5 = Some (log_ppa tiny_geo 1)"
proof -
  from new_media_init [OF geo_ok_default(2), of 0 ftl_image] obtain s1 :: ftl_st where "ftl_inv tiny_geo 0 (finish_ftl_init s1)" by blast
  from make_new_mapping_refines [OF geo_ok_default(2) this, of 5] tiny_total
  obtain s' where "make_new_mapping tiny_geo 5 (finish_ftl_init s1) = Some (log_ppa tiny_geo 1, s')"
    "ftl_abs s' = (ftl_abs (finish_ftl_init s1))(5 \<mapsto> log_ppa tiny_geo 1)" by auto
  then show ?thesis by (metis fun_upd_same)
qed

theorem new_media_takes_writes_witness:
  "\<exists>s1 ps s2. new_flash_media tiny_geo 0 (boot_tables tiny_geo ftl_image) = Some s1 \<and>
     place_all (make_new_mapping tiny_geo) [3, 3, 0, 7, 3, 1, 2] (finish_ftl_init s1) = Some (ps, s2) \<and> length ps = 7 \<and> distinct ps"
  using new_media_takes_writes [OF geo_ok_default(2), of "[3, 3, 0, 7, 3, 1, 2]" 0 ftl_image] tiny_total by auto

theorem get_free_ppa_only_free_witness:
  "FREE_PPA \<notin> set (ppa_table (ftl_image\<lparr>ppa_table := replicate 8 INVALID_PPA\<rparr>)) \<and>
   get_free_ppa tiny_geo (ftl_image\<lparr>ppa_table := replicate 8 INVALID_PPA\<rparr>) = None"
proof -
  have "FREE_PPA \<notin> set (ppa_table (ftl_image\<lparr>ppa_table := replicate 8 INVALID_PPA\<rparr>))" by simp
  with get_free_ppa_only_free [of tiny_geo "ftl_image\<lparr>ppa_table := replicate 8 INVALID_PPA\<rparr>" zero_ppa ftl_image] show ?thesis by blast
qed

end
