(* ===== verification/Ftl_Io.thy ===== *)
theory Ftl_Io
  imports Buffer_Mgt Ftl_Inv
begin

text \<open>
  Input and output of the translation layer: reading and writing logical pages, for host pages of
  the size of a flash page (\<^verbatim>\<open>equal.pages.c\<close>), and the dispatch of the requests that arrive in the
  module's queue (\<^verbatim>\<open>ftl.c\<close>). Reads of pages that were never written deliver zeros.
\<close>

section \<open>Reading\<close>

definition ISP_NAND_OP_CMPLT :: u32 where "ISP_NAND_OP_CMPLT = 18"
definition SYNC_CALL :: u32 where "SYNC_CALL = - 1"

text \<open>The body of the loops that read pages, for page \<open>lpn_index\<close> of the buffer.\<close>

definition read_lpn :: "geo \<Rightarrow> op_ptr \<Rightarrow> nat \<Rightarrow> nat \<Rightarrow> u32 \<Rightarrow> 'a ftl_st_scheme \<Rightarrow> 'a ftl_st_scheme option" where
  "read_lpn g rop buf lpn_index lpn s =
     do {
       unmapped \<leftarrow> IS_UNMAPPED_LPA (unat lpn) s;
       if unmapped then Some (s\<lparr>ram := memset32 (ram s) (buf + lpn_index * 2 ^ HOST_DS g) 0 (HOST_PAGE_SIZE g div 4)\<rparr>)
       else do {
         current_ppa \<leftarrow> GET_MAPPED_PPA (unat lpn) s;
         (_, s1) \<leftarrow> add_read_op_page rop (ppa_data current_ppa) (buf + lpn_index * 2 ^ HOST_DS g) s;
         Some s1
       }
     }"

text \<open>\<open>pre\<close> is what the loop of \<open>ftl_process_read_io\<close> does first in each iteration.\<close>

fun read_loop :: "geo \<Rightarrow> (nat \<Rightarrow> u32 \<Rightarrow> 'a ftl_st_scheme \<Rightarrow> 'a ftl_st_scheme option) \<Rightarrow> op_ptr \<Rightarrow> nat \<Rightarrow> nat \<Rightarrow> u32 \<Rightarrow> nat \<Rightarrow>
    'a ftl_st_scheme \<Rightarrow> 'a ftl_st_scheme option" where
  "read_loop g pre rop buf lpn_index lpn 0 s = Some s"
| "read_loop g pre rop buf lpn_index lpn (Suc n) s =
     do { s1 \<leftarrow> pre lpn_index lpn s; s2 \<leftarrow> read_lpn g rop buf lpn_index lpn s1; read_loop g pre rop buf (lpn_index + 1) (lpn + 1) n s2 }"

definition sync_read_pages :: "geo \<Rightarrow> u32 \<Rightarrow> u32 \<Rightarrow> nat \<Rightarrow> 'a ftl_st_scheme \<Rightarrow> (u32 \<times> 'a ftl_st_scheme) option" where
  "sync_read_pages g start num_of_lpg lpg_buffer s =
     do {
       (rop, s1) \<leftarrow> begin_read_op s;
       s2 \<leftarrow> read_loop g (\<lambda>_ _. Some) rop lpg_buffer 0 start (unat num_of_lpg) s1;
       s3 \<leftarrow> sync_end_read_op g rop s2;
       Some (num_of_lpg, s3)
     }"

definition note_lpn :: "obj_ptr \<Rightarrow> nat \<Rightarrow> u32 \<Rightarrow> 'a req_st_scheme \<Rightarrow> 'a req_st_scheme option" where
  "note_lpn p lpn_index lpn s =
     (if lpn_index < MDTS_PAGES then
        Some (upd_req p (\<lambda>r. r\<lparr>read_page_meta := (read_page_meta r)[lpn_index := (read_page_meta r ! lpn_index)\<lparr>rp_lpn := lpn\<rparr>]\<rparr>) s)
      else None)"

definition ftl_process_read_io :: "geo \<Rightarrow> obj_ptr \<Rightarrow> 'a ftl_st_scheme \<Rightarrow> 'a ftl_st_scheme option" where
  "ftl_process_read_io g p s =
     do {
       req \<leftarrow> get_req p s;
       let s1 = upd_req p (\<lambda>r. r\<lparr>req_stage := REQ_STAGE_FTL\<rparr>) s;
       (rop, s2) \<leftarrow> begin_read_op s1;
       s3 \<leftarrow> read_loop g (note_lpn p) rop (buffer_addr (dma req)) 0 (ucast (io_slba (scmd req))) (unat (io_nlbs (scmd req)) + 1) s2;
       let s4 = upd_req p (\<lambda>r. r\<lparr>req_stage := REQ_STAGE_READING_FLASH\<rparr>) s3;
       s5 \<leftarrow> sync_end_read_op g rop s4;
       Some (sys_push_to_nvme p (rq_type req) (upd_req p (\<lambda>r. r\<lparr>nand_io_complete := True\<rparr>) s5))
     }"

section \<open>Writing\<close>

text \<open>Both branches of the mapping test call \<open>make_new_mapping\<close>; they differ in a debug print.\<close>

definition program_lpn :: "geo \<Rightarrow> op_ptr \<Rightarrow> nat \<Rightarrow> u32 \<Rightarrow> 'a ftl_st_scheme \<Rightarrow> 'a ftl_st_scheme option" where
  "program_lpn g pop addr lpn s =
     do {
       _ \<leftarrow> IS_UNMAPPED_LPA (unat lpn) s;
       (new_ppa, s1) \<leftarrow> make_new_mapping g (unat lpn) s;
       (_, s2) \<leftarrow> add_program_op_page pop (ppa_data new_ppa) addr s1;
       Some s2
     }"

text \<open>The program loop over pairs of a logical page and its address in RAM.\<close>

fun program_loop :: "geo \<Rightarrow> op_ptr \<Rightarrow> (u32 \<times> nat) list \<Rightarrow> 'a ftl_st_scheme \<Rightarrow> 'a ftl_st_scheme option" where
  "program_loop g pop [] s = Some s"
| "program_loop g pop ((lpn, addr) # ps) s = program_lpn g pop addr lpn s \<bind> program_loop g pop ps"

definition page_run :: "geo \<Rightarrow> u32 \<Rightarrow> nat \<Rightarrow> nat \<Rightarrow> (u32 \<times> nat) list" where
  "page_run g lpn buf n = map (\<lambda>i. (lpn + of_nat i, buf + i * 2 ^ HOST_DS g)) [0..<n]"

definition sync_program_pages :: "geo \<Rightarrow> u32 \<Rightarrow> u32 \<Rightarrow> nat \<Rightarrow> 'a ftl_st_scheme \<Rightarrow> (u32 \<times> 'a ftl_st_scheme) option" where
  "sync_program_pages g start num_of_lpg lpg_buffer s =
     do {
       (pop, s1) \<leftarrow> begin_program_op s;
       s2 \<leftarrow> program_loop g pop (page_run g start lpg_buffer (unat num_of_lpg)) s1;
       s3 \<leftarrow> sync_end_program_op g pop s2;
       Some (num_of_lpg, s3)
     }"

text \<open>
  The flush of the write-back cache. The local counter \<open>num_program_pgs\<close> is never incremented, so
  its test in the loop condition only asks whether the cache has pages to program.
\<close>

definition wbc_run :: "wbc_req_t \<Rightarrow> (u32 \<times> nat) list" where
  "wbc_run w = (if 0 < num_program_pgs w then
     map (\<lambda>p. (wp_lpn p, wp_ssd_addr p)) (filter (\<lambda>p. wp_valid p \<noteq> 0) (take WBC_PAGES (wb_pages w))) else [])"

definition start_wbc :: "wbc_req_t \<Rightarrow> wbc_req_t" where
  "start_wbc w = w\<lparr>wb_nand_io_complete := False, wb_pages := (if 0 < num_program_pgs w then
     map (\<lambda>p. if wp_valid p \<noteq> 0 then p\<lparr>wp_nand_io_complete := 0\<rparr> else p) (wb_pages w) else wb_pages w)\<rparr>"

definition process_wbc :: "geo \<Rightarrow> 'a buf_st_scheme \<Rightarrow> 'a buf_st_scheme option" where
  "process_wbc g s =
     do {
       (pop, s1) \<leftarrow> begin_program_op s;
       s2 \<leftarrow> program_loop g pop (wbc_run (wbc s)) (s1\<lparr>wbc := start_wbc (wbc s1)\<rparr>);
       s3 \<leftarrow> sync_end_program_op g pop s2;
       let s4 = s3\<lparr>wbc := (wbc s3)\<lparr>wb_nand_io_complete := True\<rparr>\<rparr>;
       Some (sys_push_to_nvme WBC (wb_type (wbc s4)) s4)
     }"

section \<open>Requests of the module\<close>

definition process_isp_read_pages :: "geo \<Rightarrow> obj_ptr \<Rightarrow> 'a ftl_st_scheme \<Rightarrow> 'a ftl_st_scheme option" where
  "process_isp_read_pages g p s =
     do {
       req \<leftarrow> get_req p s;
       if cbk_ftn_id req = SYNC_CALL then
         do { (r, s1) \<leftarrow> sync_read_pages g (start_lpn req) (num_of_lpn req) (nand_ssd_addr req) s;
              Some (upd_req p (\<lambda>q. q\<lparr>isp_status := r, req_stage := ISP_NAND_OP_CMPLT\<rparr>) s1) }
       else Some s
     }"

definition process_isp_program_pages :: "geo \<Rightarrow> obj_ptr \<Rightarrow> 'a ftl_st_scheme \<Rightarrow> 'a ftl_st_scheme option" where
  "process_isp_program_pages g p s =
     do {
       req \<leftarrow> get_req p s;
       if cbk_ftn_id req = SYNC_CALL then
         do { (r, s1) \<leftarrow> sync_program_pages g (start_lpn req) (num_of_lpn req) (nand_ssd_addr req) s;
              Some (upd_req p (\<lambda>q. q\<lparr>isp_status := r, req_stage := ISP_NAND_OP_CMPLT\<rparr>) s1) }
       else Some s
     }"

definition process_req_cbk :: "geo \<Rightarrow> obj_ptr \<Rightarrow> u32 \<Rightarrow> 'a buf_st_scheme \<Rightarrow> 'a buf_st_scheme option" where
  "process_req_cbk g req req_type s =
     (if req_type = READ_IO_REQUEST then ftl_process_read_io g req s
      else if req_type = WBC_FLUSH_REQUEST then (if req = WBC then process_wbc g s else None)
      else if req_type = ISP_READ_PAGES_REQUEST then process_isp_read_pages g req s
      else if req_type = ISP_PROGRAM_PAGES_REQUEST then process_isp_program_pages g req s
      else Some s)"

section \<open>Copies of disjoint pages\<close>

lemma put_bytes_apply: "put_bytes n a src m x = (if a \<le> x \<and> x < a + n then src (x - a) else m x)"
  by (simp add: put_bytes_def)

lemma copy_in_miss: "\<forall>(d, a) \<in> set pgs. \<not> (a \<le> x \<and> x < a + NAND_PAGE_SIZE g) \<Longrightarrow> copy_in g pgs img m x = m x"
  by (induction pgs arbitrary: m) (auto simp: copy_in_def put_bytes_apply)

lemma copy_in_hit:
  assumes "(d, a) \<in> set pgs" "a \<le> x" "x < a + NAND_PAGE_SIZE g"
    and "\<forall>(d', a') \<in> set pgs. a' \<le> x \<and> x < a' + NAND_PAGE_SIZE g \<longrightarrow> (d', a') = (d, a)"
  shows "copy_in g pgs img m x = img (ppa_index g (ppa_of d) * NAND_PAGE_SIZE g + (x - a))"
  using assms
proof (induction pgs arbitrary: m)
  case (Cons y pgs)
  show ?case
  proof (cases "(d, a) \<in> set pgs")
    case True
    with Cons show ?thesis by (simp add: copy_in_def split: prod.splits)
  next
    case False
    with Cons.prems have y: "y = (d, a)" and miss: "\<forall>(d', a') \<in> set pgs. \<not> (a' \<le> x \<and> x < a' + NAND_PAGE_SIZE g)" by auto
    from copy_in_miss [OF miss] y Cons.prems(2,3) show ?thesis
      by (simp add: copy_in_def put_bytes_apply page_bytes_def)
  qed
qed simp

section \<open>The logical view\<close>

text \<open>
  The abstract device: the bytes of every logical page, zero where nothing was written. \<open>io_geo\<close> are
  the geometries of this module, with host pages as large as flash pages.
\<close>

definition io_geo :: "geo \<Rightarrow> bool" where
  "io_geo g \<longleftrightarrow> geo_ok g \<and> HOST_DS g = NAND_DS g \<and> 2 \<le> NAND_DS g"

definition lview :: "geo \<Rightarrow> 'a ftl_st_scheme \<Rightarrow> nat \<Rightarrow> nat \<Rightarrow> u8" where
  "lview g s lpn i = (case ftl_abs s lpn of None \<Rightarrow> 0 | Some p \<Rightarrow> nand_img s (ppa_index g p * NAND_PAGE_SIZE g + i))"

lemma ftl_abs_cong: "lpa_table s' = lpa_table s \<Longrightarrow> ftl_abs s' = ftl_abs s"
  by (rule ext) (simp add: ftl_abs_def)

lemma lview_cong: "lpa_table s' = lpa_table s \<Longrightarrow> nand_img s' = nand_img s \<Longrightarrow> lview g s' = lview g s"
  by (intro ext) (simp add: lview_def ftl_abs_cong [of s' s] split: option.split)

lemma page_size: "io_geo g \<Longrightarrow> 2 ^ HOST_DS g = NAND_PAGE_SIZE g" "io_geo g \<Longrightarrow> 4 * (HOST_PAGE_SIZE g div 4) = NAND_PAGE_SIZE g"
proof -
  assume g: "io_geo g"
  show "2 ^ HOST_DS g = NAND_PAGE_SIZE g" using g by (simp add: io_geo_def NAND_PAGE_SIZE_def NAND_DS_def)
  have "(4 :: nat) dvd 2 ^ NAND_DS g" using g le_imp_power_dvd [of 2 "NAND_DS g" "2 :: nat"] by (simp add: io_geo_def)
  then show "4 * (HOST_PAGE_SIZE g div 4) = NAND_PAGE_SIZE g" using g by (simp add: io_geo_def HOST_PAGE_SIZE_def NAND_PAGE_SIZE_def NAND_DS_def HOST_DS_def)
qed

text \<open>The slot of page \<open>j\<close> in a buffer.\<close>

definition slot :: "geo \<Rightarrow> nat \<Rightarrow> nat \<Rightarrow> nat \<Rightarrow> bool" where
  "slot g buf j x \<longleftrightarrow> buf + j * NAND_PAGE_SIZE g \<le> x \<and> x < buf + j * NAND_PAGE_SIZE g + NAND_PAGE_SIZE g"

lemma slot_unique: "slot g buf i x \<Longrightarrow> slot g buf j x \<Longrightarrow> i = j"
proof -
  let ?p = "NAND_PAGE_SIZE g"
  assume i: "slot g buf i x" and j: "slot g buf j x"
  have "(x - buf) div ?p = k" if "slot g buf k x" for k
  proof -
    from that have "x - buf = k * ?p + (x - buf - k * ?p)" "x - buf - k * ?p < ?p" by (auto simp: slot_def)
    then show ?thesis by (metis add.commute div_mult_self3 div_less add_0 less_nat_zero_code neq0_conv)
  qed
  with i j show "i = j" by metis
qed

definition zero_slots :: "geo \<Rightarrow> 'a ftl_st_scheme \<Rightarrow> nat \<Rightarrow> nat \<Rightarrow> nat \<Rightarrow> nat \<Rightarrow> mem \<Rightarrow> mem" where
  "zero_slots g s buf l0 i n m = (\<lambda>x. if \<exists>j. i \<le> j \<and> j < i + n \<and> ftl_abs s (l0 + j) = None \<and> slot g buf j x then 0 else m x)"

definition read_list :: "geo \<Rightarrow> 'a ftl_st_scheme \<Rightarrow> nat \<Rightarrow> nat \<Rightarrow> nat \<Rightarrow> nat \<Rightarrow> (u64 \<times> nat) list" where
  "read_list g s buf l0 i n = map (\<lambda>j. (ppa_data (the (ftl_abs s (l0 + j))), buf + j * NAND_PAGE_SIZE g))
     (filter (\<lambda>j. ftl_abs s (l0 + j) \<noteq> None) [i..<i + n])"

lemma read_list_Suc: "read_list g s buf l0 i (Suc n) =
   (case ftl_abs s (l0 + i) of None \<Rightarrow> [] | Some p \<Rightarrow> [(ppa_data p, buf + i * NAND_PAGE_SIZE g)]) @ read_list g s buf l0 (Suc i) n"
  by (simp add: read_list_def upt_conv_Cons del: upt_Suc split: option.split)

lemma memset_zero: "io_geo g \<Longrightarrow> memset32 m (buf + i * NAND_PAGE_SIZE g) 0 (HOST_PAGE_SIZE g div 4) = (\<lambda>x. if slot g buf i x then 0 else m x)"
  by (rule ext) (simp add: memset32_apply page_size slot_def byte_of_def)

lemma zero_slots_Suc:
  "zero_slots g s buf l0 i (Suc n) m =
     zero_slots g s buf l0 (Suc i) n (if ftl_abs s (l0 + i) = None then (\<lambda>x. if slot g buf i x then 0 else m x) else m)"
proof -
  have "(i \<le> j \<and> j < i + Suc n) = (j = i \<or> Suc i \<le> j \<and> j < Suc i + n)" for j by arith
  then have "(\<exists>j. i \<le> j \<and> j < i + Suc n \<and> P j) \<longleftrightarrow> P i \<or> (\<exists>j. Suc i \<le> j \<and> j < Suc i + n \<and> P j)" for P
    by (metis (no_types))
  note ex = this
  show ?thesis
    by (rule ext, cases "ftl_abs s (l0 + i) = None") (simp_all only: zero_slots_def ex simp_thms if_True if_False, auto)
qed

lemma zero_list_cong: "ftl_abs s' = ftl_abs s \<Longrightarrow> read_list g s' = read_list g s \<and> zero_slots g s' = zero_slots g s"
  by (intro conjI ext) (simp_all add: read_list_def zero_slots_def)

lemma read_lpn_step:
  assumes g: "io_geo g" and l: "l < length (lpa_table s)" "l < 2 ^ 30"
    and r: "op_holds (rops s) k pgs" "length pgs < 128" "ops_ok FLASH_READ_OPERATION (rops s)"
  shows "\<exists>rs. read_lpn g (ROP k) buf i (of_nat l) s = Some (s\<lparr>rops := rs,
      ram := (if ftl_abs s l = None then (\<lambda>x. if slot g buf i x then 0 else ram s x) else ram s)\<rparr>) \<and>
    op_holds rs k (pgs @ (case ftl_abs s l of None \<Rightarrow> [] | Some p \<Rightarrow> [(ppa_data p, buf + i * NAND_PAGE_SIZE g)])) \<and>
    ops_ok FLASH_READ_OPERATION rs"
proof (cases "p_chn (lpa_table s ! l) = 0xFF")
  case True
  with l r show ?thesis
    by (intro exI [of _ "rops s"]) (simp add: read_lpn_def IS_UNMAPPED_LPA_def unat_lpn ftl_abs_def page_size [OF g] memset_zero [OF g])
next
  case False
  from add_read [OF r, of "ppa_data (lpa_table s ! l)" "buf + i * NAND_PAGE_SIZE g"] False l show ?thesis
    by (auto simp: read_lpn_def IS_UNMAPPED_LPA_def GET_MAPPED_PPA_def unat_lpn ftl_abs_def page_size [OF g])
qed

lemma read_loop_spec:
  assumes g: "io_geo g" and pre: "\<forall>i l s. i < M \<longrightarrow> pre i l s = Some (s\<lparr>r_req := h i l (r_req s)\<rparr>)"
    and "l0 + i + n \<le> length (lpa_table s)" "length (lpa_table s) < 2 ^ 30" "i + n \<le> M"
    and "op_holds (rops s) k pgs" "length pgs + n \<le> 128" "ops_ok FLASH_READ_OPERATION (rops s)"
  shows "\<exists>rs. read_loop g pre (ROP k) buf i (of_nat (l0 + i)) n s = Some (s\<lparr>rops := rs, ram := zero_slots g s buf l0 i n (ram s),
      r_req := fold (\<lambda>j. h j (of_nat (l0 + j))) [i..<i + n] (r_req s)\<rparr>) \<and>
    op_holds rs k (pgs @ read_list g s buf l0 i n) \<and> ops_ok FLASH_READ_OPERATION rs"
  using assms(3-)
proof (induction n arbitrary: i s pgs)
  case 0
  have "zero_slots g s buf l0 i 0 (ram s) = ram s" by (rule ext) (auto simp: zero_slots_def)
  with 0 show ?case by (intro exI [of _ "rops s"]) (simp add: read_list_def)
next
  case (Suc n)
  let ?s0 = "s\<lparr>r_req := h i (of_nat (l0 + i)) (r_req s)\<rparr>"
  let ?e = "case ftl_abs s (l0 + i) of None \<Rightarrow> [] | Some p \<Rightarrow> [(ppa_data p, buf + i * NAND_PAGE_SIZE g)]"
  let ?m = "if ftl_abs s (l0 + i) = None then (\<lambda>x. if slot g buf i x then 0 else ram s x) else ram s"
  have ab: "ftl_abs ?s0 = ftl_abs s" by (rule ftl_abs_cong) simp
  have "l0 + i < length (lpa_table ?s0)" "l0 + i < 2 ^ 30" "op_holds (rops ?s0) k pgs" "length pgs < 128"
    "ops_ok FLASH_READ_OPERATION (rops ?s0)" "ram ?s0 = ram s" using Suc.prems by simp_all
  from read_lpn_step [OF g this(1-5), of buf i, unfolded ab this(6)] obtain rs where
    rs: "read_lpn g (ROP k) buf i (of_nat (l0 + i)) ?s0 = Some (?s0\<lparr>rops := rs, ram := ?m\<rparr>)"
      "op_holds rs k (pgs @ ?e)" "ops_ok FLASH_READ_OPERATION rs" by (elim exE conjE)
  let ?s1 = "?s0\<lparr>rops := rs, ram := ?m\<rparr>"
  have len: "length (pgs @ ?e) + n \<le> 128" using Suc.prems by (simp split: option.split)
  have ab1: "ftl_abs ?s1 = ftl_abs s" by (rule ftl_abs_cong) simp
  have "l0 + Suc i + n \<le> length (lpa_table ?s1)" "length (lpa_table ?s1) < 2 ^ 30" "Suc i + n \<le> M" "op_holds (rops ?s1) k (pgs @ ?e)"
    "ops_ok FLASH_READ_OPERATION (rops ?s1)" "ram ?s1 = ?m" using Suc.prems rs by simp_all
  from Suc.IH [OF this(1-4) len this(5), unfolded this(6)] obtain rs' where
    rs': "read_loop g pre (ROP k) buf (Suc i) (of_nat (l0 + Suc i)) n ?s1 = Some (?s1\<lparr>rops := rs',
        ram := zero_slots g ?s1 buf l0 (Suc i) n ?m, r_req := fold (\<lambda>j. h j (of_nat (l0 + j))) [Suc i..<Suc i + n] (r_req ?s1)\<rparr>)"
      "op_holds rs' k ((pgs @ ?e) @ read_list g ?s1 buf l0 (Suc i) n)" "ops_ok FLASH_READ_OPERATION rs'" by (elim exE conjE)
  have up: "[i..<i + Suc n] = i # [Suc i..<Suc i + n]" by (simp add: upt_conv_Cons del: upt_Suc)
  have zs: "zero_slots g ?s1 buf l0 (Suc i) n ?m = zero_slots g s buf l0 i (Suc n) (ram s)"
    by (simp only: zero_slots_Suc zero_list_cong [OF ab1, of g, THEN conjunct2])
  have rl: "read_list g ?s1 buf l0 (Suc i) n = read_list g s buf l0 (Suc i) n"
    by (simp only: zero_list_cong [OF ab1, of g, THEN conjunct1])
  have w: "(of_nat (l0 + i) :: u32) + 1 = of_nat (l0 + Suc i)" by simp
  have p: "pre i (of_nat (l0 + i)) s = Some ?s0" using pre Suc.prems by simp
  show ?case
    unfolding read_loop.simps p bind.bind_lunit rs(1) Suc_eq_plus1 [symmetric] w rs'(1) up read_list_Suc zs
    using rs'(2,3) rl by (intro exI [of _ rs']) simp
qed

text \<open>When the queued reads are executed, every slot of the buffer holds its logical page.\<close>

definition reads_to :: "geo \<Rightarrow> 'a ftl_st_scheme \<Rightarrow> nat \<Rightarrow> nat \<Rightarrow> nat \<Rightarrow> mem \<Rightarrow> bool" where
  "reads_to g s buf l0 n m \<longleftrightarrow>
     (\<forall>j < n. \<forall>i < NAND_PAGE_SIZE g. m (buf + j * NAND_PAGE_SIZE g + i) = lview g s (l0 + j) i) \<and>
     (\<forall>x. (\<forall>j < n. \<not> slot g buf j x) \<longrightarrow> m x = ram s x)"

lemma mapped_page:
  assumes "geo_ok g" "map_ok g s" "ftl_abs s l = Some p"
  shows "ppa_ok g p" "ppa_of (ppa_data p) = p"
  using assms ppa_of_data [OF ppa_ok_typed [OF assms(1), of p]] by (auto simp: map_ok_def)

lemma read_list_pages_ok:
  assumes "geo_ok g" "map_ok g s" "buf + n * NAND_PAGE_SIZE g \<le> 2 ^ 32" "0 < NAND_PAGE_SIZE g"
  shows "pages_ok g (read_list g s buf l0 0 n)"
proof -
  have "buf + j * NAND_PAGE_SIZE g < 2 ^ 32" if "j < n" for j
  proof -
    have "j * NAND_PAGE_SIZE g < n * NAND_PAGE_SIZE g" using that assms(4) by simp
    then show ?thesis using assms(3) by linarith
  qed
  then show ?thesis using mapped_page [OF assms(1,2)] by (auto simp: pages_ok_def read_list_def)
qed

lemma copy_in_reads:
  assumes g: "geo_ok g" and m: "map_ok g s"
  shows "reads_to g s buf l0 n (copy_in g (read_list g s buf l0 0 n) (nand_img s) (zero_slots g s buf l0 0 n (ram s)))"
proof -
  let ?P = "NAND_PAGE_SIZE g" and ?rl = "read_list g s buf l0 0 n" and ?z = "zero_slots g s buf l0 0 n (ram s)"
  have mem: "(d, a) \<in> set ?rl \<longleftrightarrow> (\<exists>j p. j < n \<and> ftl_abs s (l0 + j) = Some p \<and> d = ppa_data p \<and> a = buf + j * ?P)" for d a
    by (force simp: read_list_def)
  have hit: "copy_in g ?rl (nand_img s) ?z (buf + j * ?P + i) = lview g s (l0 + j) i" if ji: "j < n" "i < ?P" for j i
  proof (cases "ftl_abs s (l0 + j)")
    case None
    have x: "slot g buf j (buf + j * ?P + i)" using ji by (simp add: slot_def)
    have "\<not> (a \<le> buf + j * ?P + i \<and> buf + j * ?P + i < a + ?P)" if "(d, a) \<in> set ?rl" for d a
    proof
      assume r: "a \<le> buf + j * ?P + i \<and> buf + j * ?P + i < a + ?P"
      from that mem obtain j' p where j': "ftl_abs s (l0 + j') = Some p" "a = buf + j' * ?P" by blast
      with r have "slot g buf j' (buf + j * ?P + i)" by (simp add: slot_def)
      then have "j = j'" by (rule slot_unique [OF x])
      with None j' show False by simp
    qed
    then have "copy_in g ?rl (nand_img s) ?z (buf + j * ?P + i) = ?z (buf + j * ?P + i)" by (intro copy_in_miss) auto
    also have "\<dots> = 0" using x None ji by (auto simp: zero_slots_def)
    finally show ?thesis by (simp add: lview_def None)
  next
    case (Some p)
    have x: "slot g buf j (buf + j * ?P + i)" using ji by (simp add: slot_def)
    have "(d', a') = (ppa_data p, buf + j * ?P)" if "(d', a') \<in> set ?rl" "a' \<le> buf + j * ?P + i" "buf + j * ?P + i < a' + ?P" for d' a'
    proof -
      from that(1) mem obtain j' p' where j': "ftl_abs s (l0 + j') = Some p'" "d' = ppa_data p'" "a' = buf + j' * ?P" by blast
      with that have "slot g buf j' (buf + j * ?P + i)" by (simp add: slot_def)
      then have "j = j'" by (rule slot_unique [OF x])
      with j' Some show ?thesis by simp
    qed
    then have "copy_in g ?rl (nand_img s) ?z (buf + j * ?P + i) = nand_img s (ppa_index g (ppa_of (ppa_data p)) * ?P + (buf + j * ?P + i - (buf + j * ?P)))"
      by (intro copy_in_hit) (use ji Some mem in auto)
    then show ?thesis using mapped_page [OF g m Some] by (simp add: lview_def Some)
  qed
  have "copy_in g ?rl (nand_img s) ?z x = ram s x" if out: "\<forall>j < n. \<not> slot g buf j x" for x
  proof -
    have "copy_in g ?rl (nand_img s) ?z x = ?z x" by (rule copy_in_miss) (use mem out in \<open>auto simp: slot_def\<close>)
    also have "\<dots> = ram s x" using out by (auto simp: zero_slots_def)
    finally show ?thesis .
  qed
  with hit show ?thesis by (simp add: reads_to_def)
qed

lemma page_size_pos: "0 < NAND_PAGE_SIZE g"
  by (simp add: NAND_PAGE_SIZE_def)

text \<open>A complete read operation, with the request updates of \<open>ftl_process_read_io\<close> in between.\<close>

lemma read_op_spec:
  assumes g: "io_geo g" and m: "map_ok g s" and r: "rop_ready s" and n: "n \<le> 128" "l0 + n \<le> TOTAL_NUM_OF_PAGES g"
    and b: "buf + n * NAND_PAGE_SIZE g \<le> 2 ^ 32"
    and pre: "\<forall>i l s. i < M \<longrightarrow> pre i l s = Some (s\<lparr>r_req := h i l (r_req s)\<rparr>)" "n \<le> M"
  shows "\<exists>rop s1 s2 m'. begin_read_op s = Some (rop, s1) \<and> read_loop g pre rop buf 0 (of_nat l0) n s1 = Some s2 \<and>
     r_req s2 = fold (\<lambda>j. h j (of_nat (l0 + j))) [0..<n] (r_req s) \<and>
     (\<forall>rq. \<exists>rs q hw. sync_end_read_op g rop (s2\<lparr>r_req := rq\<rparr>) =
        Some (s\<lparr>rops := rs, free_rop_objs := q, nand_regs := hw, ram := m', r_req := rq\<rparr>) \<and>
        rop_ready (s\<lparr>rops := rs, free_rop_objs := q, nand_regs := hw, ram := m', r_req := rq\<rparr>)) \<and> reads_to g s buf l0 n m'"
proof -
  have ok: "geo_ok g" and len: "length (lpa_table s) = TOTAL_NUM_OF_PAGES g" "TOTAL_NUM_OF_PAGES g < 2 ^ 30"
    using g m by (simp_all add: io_geo_def map_ok_def geo_ok_def)
  from begin_read [OF r] obtain k s1 where s1: "begin_read_op s = Some (ROP k, s1)" "op_holds (rops s1) k []"
    "s1 = s\<lparr>free_rop_objs := (free_rop_objs s)\<lparr>oo_head := (k + 1) mod MAX_OPS\<rparr>, rops := (rops s)[k := (rops s ! k)\<lparr>fo_nop := 0\<rparr>]\<rparr>"
    "ops_ok FLASH_READ_OPERATION (rops s1)" "k = oo_head (free_rop_objs s)" by blast
  have ab: "ftl_abs s1 = ftl_abs s" by (rule ftl_abs_cong) (simp add: s1(3))
  have fl: "lpa_table s1 = lpa_table s" "ram s1 = ram s" "r_req s1 = r_req s" "nand_img s1 = nand_img s"
    "free_rop_objs s1 = (free_rop_objs s)\<lparr>oo_head := (k + 1) mod MAX_OPS\<rparr>"
    by (simp_all add: s1(3))
  note zl = zero_list_cong [OF ab, of g]
  let ?rl = "read_list g s buf l0 0 n" and ?z = "zero_slots g s buf l0 0 n (ram s)"
  let ?m' = "copy_in g ?rl (nand_img s) ?z"
  have "l0 + 0 + n \<le> length (lpa_table s1)" "length (lpa_table s1) < 2 ^ 30" "0 + n \<le> M" "length [] + n \<le> 128"
    using n pre(2) len fl by simp_all
  from read_loop_spec [where buf = buf, OF g pre(1) this(1-3) s1(2) this(4) s1(4), unfolded fl add_0_right add_0_left
      append_Nil zl [THEN conjunct1] zl [THEN conjunct2]]
  obtain rs where
    rs: "read_loop g pre (ROP k) buf 0 (of_nat l0) n s1 = Some (s1\<lparr>rops := rs, ram := ?z, r_req := fold (\<lambda>j. h j (of_nat (l0 + j))) [0..<n] (r_req s)\<rparr>)"
      "op_holds rs k ?rl" "ops_ok FLASH_READ_OPERATION rs" by (elim exE conjE)
  let ?s2 = "s1\<lparr>rops := rs, ram := ?z, r_req := fold (\<lambda>j. h j (of_nat (l0 + j))) [0..<n] (r_req s)\<rparr>"
  let ?q = "q_give (free_rop_objs s1) (ROP k)"
  have pg: "pages_ok g ?rl" by (rule read_list_pages_ok [OF ok m b page_size_pos])
  have "\<exists>hw. sync_end_read_op g (ROP k) (?s2\<lparr>r_req := rq\<rparr>) =
        Some (s\<lparr>rops := rs, free_rop_objs := ?q, nand_regs := hw, ram := ?m', r_req := rq\<rparr>) \<and>
        rop_ready (s\<lparr>rops := rs, free_rop_objs := ?q, nand_regs := hw, ram := ?m', r_req := rq\<rparr>)" for rq
  proof -
    from end_read [OF ok, of "?s2\<lparr>r_req := rq\<rparr>" k ?rl] rs(2,3) pg fl(4) obtain hw where
      "sync_end_read_op g (ROP k) (?s2\<lparr>r_req := rq\<rparr>) = Some (?s2\<lparr>r_req := rq, nand_regs := hw, ram := ?m', free_rop_objs := ?q\<rparr>)" by auto
    moreover have "rop_ready (s\<lparr>rops := rs, free_rop_objs := ?q, nand_regs := hw, ram := ?m', r_req := rq\<rparr>)"
      by (rule rop_ready_cycle [OF r s1(5)]) (simp_all add: rs(3) fl)
    ultimately show ?thesis by (intro exI [of _ hw]) (simp add: s1(3))
  qed
  then have fin: "\<forall>rq. \<exists>rs q hw. sync_end_read_op g (ROP k) (?s2\<lparr>r_req := rq\<rparr>) =
        Some (s\<lparr>rops := rs, free_rop_objs := q, nand_regs := hw, ram := ?m', r_req := rq\<rparr>) \<and>
        rop_ready (s\<lparr>rops := rs, free_rop_objs := q, nand_regs := hw, ram := ?m', r_req := rq\<rparr>)" by blast
  have rr: "r_req ?s2 = fold (\<lambda>j. h j (of_nat (l0 + j))) [0..<n] (r_req s)" by simp
  from s1(1) rs(1) rr fin copy_in_reads [OF ok m] show ?thesis
    by (intro exI [of _ "ROP k"] exI [of _ s1] exI [of _ ?s2] exI [of _ ?m'] conjI)
qed

section \<open>Programming pages\<close>

lemma copy_out_miss:
  assumes "\<forall>(d, a) \<in> set pgs. ppa_index g (ppa_of d) \<noteq> x" "i < NAND_PAGE_SIZE g"
  shows "copy_out g pgs m img (x * NAND_PAGE_SIZE g + i) = img (x * NAND_PAGE_SIZE g + i)"
  using assms
proof (induction pgs arbitrary: img)
  case (Cons y pgs)
  obtain d a where y: "y = (d, a)" by fastforce
  let ?q = "ppa_index g (ppa_of d)" and ?P = "NAND_PAGE_SIZE g"
  have "\<not> (?q * ?P \<le> x * ?P + i \<and> x * ?P + i < ?q * ?P + ?P)"
    using Cons.prems slot_unique [of g 0 x "x * ?P + i" ?q] by (auto simp: slot_def y)
  with Cons show ?case by (auto simp: copy_out_def y put_bytes_apply)
qed (simp add: copy_out_def)

lemma copy_out_hit:
  assumes "(d, a) \<in> set pgs" "i < NAND_PAGE_SIZE g"
    and "\<forall>(d', a') \<in> set pgs. ppa_index g (ppa_of d') = ppa_index g (ppa_of d) \<longrightarrow> (d', a') = (d, a)"
  shows "copy_out g pgs m img (ppa_index g (ppa_of d) * NAND_PAGE_SIZE g + i) = m (a + i)"
  using assms
proof (induction pgs arbitrary: img)
  case (Cons y pgs)
  show ?case
  proof (cases "(d, a) \<in> set pgs")
    case True
    with Cons show ?thesis by (simp add: copy_out_def split: prod.splits)
  next
    case False
    with Cons.prems have y: "y = (d, a)" and miss: "\<forall>(d', a') \<in> set pgs. ppa_index g (ppa_of d') \<noteq> ppa_index g (ppa_of d)" by auto
    let ?img = "put_bytes (NAND_PAGE_SIZE g) (ppa_index g (ppa_of d) * NAND_PAGE_SIZE g) (\<lambda>i. m (a + i)) img"
    from copy_out_miss [OF miss Cons.prems(2), of m ?img] y Cons.prems(2) show ?thesis
      by (simp add: copy_out_def put_bytes_apply)
  qed
qed simp

text \<open>The last write to a key decides.\<close>

lemma last_write:
  assumes "length ys = length xs"
  shows "map_of (rev (zip xs ys)) l = map_option (nth ys) (map_of (rev (zip xs [0..<length xs])) l)"
proof -
  have "zip xs ys = map (\<lambda>(x, j). (x, ys ! j)) (zip xs [0..<length xs])"
    using assms by (intro nth_equalityI) auto
  then have "rev (zip xs ys) = map (\<lambda>(x, j). (x, ys ! j)) (rev (zip xs [0..<length xs]))" by (simp only: rev_map)
  then show ?thesis by (simp only: map_of_map) simp
qed

lemma last_write_pos: "map_of (rev (zip xs [0..<length xs])) l = Some j \<Longrightarrow> j < length xs"
  using set_zip_rightD [of l j xs "[0..<length xs]"] by (auto dest!: map_of_SomeD)

text \<open>What the program loop may change: the mapping and the operation objects.\<close>

definition prog_frame :: "'a ftl_st_scheme \<Rightarrow> 'a ftl_st_scheme \<Rightarrow> bool" where
  "prog_frame s s' \<longleftrightarrow> (\<exists>c l lt pt bt lp ps. s' = s\<lparr>ftl_config := c, last_searched_channel := l, lpa_table := lt, ppa_table := pt,
     blk_table := bt, last_page_per_plane := lp, pops := ps\<rparr>)"

lemma prog_frame_refl: "prog_frame s s"
  unfolding prog_frame_def
  by (rule exI [of _ "ftl_config s"], rule exI [of _ "last_searched_channel s"], rule exI [of _ "lpa_table s"], rule exI [of _ "ppa_table s"],
      rule exI [of _ "blk_table s"], rule exI [of _ "last_page_per_plane s"], rule exI [of _ "pops s"]) simp

lemma prog_frame_trans: "prog_frame s s1 \<Longrightarrow> prog_frame s1 s2 \<Longrightarrow> prog_frame s s2"
  unfolding prog_frame_def by (elim exE) (simp, blast)

lemma prog_frame_map: "map_frame s s' \<Longrightarrow> prog_frame s (s'\<lparr>pops := ps\<rparr>)"
  unfolding prog_frame_def map_frame_def
  by (erule ssubst, rule exI [of _ "ftl_config s'"], rule exI [of _ "last_searched_channel s'"], rule exI [of _ "lpa_table s'"],
      rule exI [of _ "ppa_table s'"], rule exI [of _ "blk_table s'"], rule exI [of _ "last_page_per_plane s'"], rule exI [of _ ps]) simp

lemma prog_frame_same: "prog_frame s s' \<Longrightarrow> ram s' = ram s \<and> nand_img s' = nand_img s \<and> free_pop_objs s' = free_pop_objs s"
  by (auto simp: prog_frame_def)

lemma ftl_inv_cong:
  assumes "ftl_config s' = ftl_config s" "last_searched_channel s' = last_searched_channel s" "lpa_table s' = lpa_table s"
    "ppa_table s' = ppa_table s" "blk_table s' = blk_table s" "last_page_per_plane s' = last_page_per_plane s"
  shows "ftl_inv g k s' = ftl_inv g k s"
  unfolding ftl_inv_def alloc_inv_def map_ok_def ftl_abs_cong [OF assms(3)] assms ..

lemma program_lpn_step:
  assumes g: "geo_ok g" and inv: "ftl_inv g k s" and k: "Suc k < TOTAL_NUM_OF_PAGES g" and l: "unat lpn < TOTAL_NUM_OF_PAGES g"
    and o: "op_holds (pops s) c pgs" "length pgs < 128" "ops_ok FLASH_PROGRAM_OPERATION (pops s)"
  shows "\<exists>s'. program_lpn g (POP c) a lpn s = Some s' \<and> ftl_inv g (Suc k) s' \<and>
    ftl_abs s' = (ftl_abs s)(unat lpn \<mapsto> log_ppa g (Suc k)) \<and> op_holds (pops s') c (pgs @ [(ppa_data (log_ppa g (Suc k)), a)]) \<and>
    ops_ok FLASH_PROGRAM_OPERATION (pops s') \<and> prog_frame s s'"
proof -
  from new_mapping_step [OF g inv k l] obtain s1 where
    s1: "make_new_mapping g (unat lpn) s = Some (log_ppa g (Suc k), s1)" "ftl_inv g (Suc k) s1"
      "ftl_abs s1 = (ftl_abs s)(unat lpn \<mapsto> log_ppa g (Suc k))" "map_frame s s1" by blast
  from s1(4) have "pops s1 = pops s" unfolding map_frame_def by (elim ssubst) simp
  with add_program [of s1 c pgs "ppa_data (log_ppa g (Suc k))" a] o obtain ps where
    ps: "add_program_op_page (POP c) (ppa_data (log_ppa g (Suc k))) a s1 = Some (length pgs + 1, s1\<lparr>pops := ps\<rparr>)"
      "op_holds ps c (pgs @ [(ppa_data (log_ppa g (Suc k)), a)])" "ops_ok FLASH_PROGRAM_OPERATION ps" by auto
  let ?s' = "s1\<lparr>pops := ps\<rparr>"
  have "length (lpa_table s) = TOTAL_NUM_OF_PAGES g" using inv by (simp add: ftl_inv_def map_ok_def)
  with l s1(1) ps(1) have "program_lpn g (POP c) a lpn s = Some ?s'" by (simp add: program_lpn_def IS_UNMAPPED_LPA_def)
  moreover have "ftl_inv g (Suc k) ?s'" using s1(2) ftl_inv_cong [of ?s' s1] by simp
  moreover have "ftl_abs ?s' = ftl_abs s1" by (rule ftl_abs_cong) simp
  ultimately show ?thesis using ps s1(3) prog_frame_map [OF s1(4), of ps] by (intro exI [of _ ?s']) simp
qed

text \<open>The pages of a run get the next positions of the log.\<close>

definition run_pages :: "geo \<Rightarrow> nat \<Rightarrow> nat \<Rightarrow> ppa_t list" where
  "run_pages g k n = map (log_ppa g) [Suc k..<Suc (k + n)]"

lemma run_pages_simps: "length (run_pages g k n) = n" "run_pages g k (Suc n) = log_ppa g (Suc k) # run_pages g (Suc k) n"
  "j < n \<Longrightarrow> run_pages g k n ! j = log_ppa g (Suc k + j)" "run_pages g k 0 = []"
proof -
  have "[Suc k..<Suc (k + Suc n)] = Suc k # [Suc (Suc k)..<Suc (Suc k + n)]" by (simp add: upt_conv_Cons del: upt_Suc)
  then show "run_pages g k (Suc n) = log_ppa g (Suc k) # run_pages g (Suc k) n" by (simp only: run_pages_def list.map)
  show "length (run_pages g k n) = n" "run_pages g k 0 = []" by (simp_all only: run_pages_def length_map length_upt, simp_all)
  show "run_pages g k n ! j = log_ppa g (Suc k + j)" if "j < n" using that by (simp del: upt_Suc add: run_pages_def)
qed

lemma program_loop_spec:
  assumes g: "geo_ok g" and "ftl_inv g k s" "k + length ps < TOTAL_NUM_OF_PAGES g" "\<forall>(l, a) \<in> set ps. unat l < TOTAL_NUM_OF_PAGES g"
    and "op_holds (pops s) c pgs" "length pgs + length ps \<le> 128" "ops_ok FLASH_PROGRAM_OPERATION (pops s)"
  shows "\<exists>s'. program_loop g (POP c) ps s = Some s' \<and> ftl_inv g (k + length ps) s' \<and>
    ftl_abs s' = ftl_abs s ++ map_of (rev (zip (map (unat \<circ> fst) ps) (run_pages g k (length ps)))) \<and>
    op_holds (pops s') c (pgs @ zip (map ppa_data (run_pages g k (length ps))) (map snd ps)) \<and>
    ops_ok FLASH_PROGRAM_OPERATION (pops s') \<and> prog_frame s s'"
  using assms(2-)
proof (induction ps arbitrary: k s pgs)
  case Nil
  then show ?case by (simp add: run_pages_simps prog_frame_refl)
next
  case (Cons x ps)
  obtain l a where x: "x = (l, a)" by fastforce
  have pre: "Suc k < TOTAL_NUM_OF_PAGES g" "unat l < TOTAL_NUM_OF_PAGES g" "length pgs < 128" using Cons.prems x by auto
  from program_lpn_step [OF g Cons.prems(1) pre(1,2) Cons.prems(4) pre(3) Cons.prems(6), of a] obtain s1 where
    s1: "program_lpn g (POP c) a l s = Some s1" "ftl_inv g (Suc k) s1" "ftl_abs s1 = (ftl_abs s)(unat l \<mapsto> log_ppa g (Suc k))"
      "op_holds (pops s1) c (pgs @ [(ppa_data (log_ppa g (Suc k)), a)])" "ops_ok FLASH_PROGRAM_OPERATION (pops s1)" "prog_frame s s1" by blast
  have "Suc k + length ps < TOTAL_NUM_OF_PAGES g" "\<forall>(l, a) \<in> set ps. unat l < TOTAL_NUM_OF_PAGES g"
    "length (pgs @ [(ppa_data (log_ppa g (Suc k)), a)]) + length ps \<le> 128" using Cons.prems by auto
  from Cons.IH [OF s1(2) this(1,2) s1(4) this(3) s1(5)] obtain s2 where
    s2: "program_loop g (POP c) ps s1 = Some s2" "ftl_inv g (Suc k + length ps) s2"
      "ftl_abs s2 = ftl_abs s1 ++ map_of (rev (zip (map (unat \<circ> fst) ps) (run_pages g (Suc k) (length ps))))"
      "op_holds (pops s2) c ((pgs @ [(ppa_data (log_ppa g (Suc k)), a)]) @ zip (map ppa_data (run_pages g (Suc k) (length ps))) (map snd ps))"
      "ops_ok FLASH_PROGRAM_OPERATION (pops s2)" "prog_frame s1 s2" by blast
  have ab: "ftl_abs s2 = ftl_abs s ++ map_of (rev (zip (map (unat \<circ> fst) (x # ps)) (run_pages g k (length (x # ps)))))"
    by (rule ext) (simp add: s2(3) s1(3) x run_pages_simps map_add_def split: option.split)
  have "program_loop g (POP c) (x # ps) s = Some s2" "ftl_inv g (k + length (x # ps)) s2"
    "op_holds (pops s2) c (pgs @ zip (map ppa_data (run_pages g k (length (x # ps)))) (map snd (x # ps)))"
    using s1(1) s2(1,2,4) by (simp_all add: x run_pages_simps)
  with ab s2(5) prog_frame_trans [OF s1(6) s2(6)] show ?case by blast
qed

text \<open>After a run of programs the device shows the new pages, the last one where a page occurs twice.\<close>

definition writes_from :: "geo \<Rightarrow> 'a ftl_st_scheme \<Rightarrow> (u32 \<times> nat) list \<Rightarrow> 'a ftl_st_scheme \<Rightarrow> bool" where
  "writes_from g s ps s' \<longleftrightarrow> (\<forall>l i. i < NAND_PAGE_SIZE g \<longrightarrow>
     lview g s' l i = (case map_of (rev (zip (map (unat \<circ> fst) ps) (map snd ps))) l of Some a \<Rightarrow> ram s (a + i) | None \<Rightarrow> lview g s l i))"

lemma log_page_data: "geo_ok g \<Longrightarrow> k < TOTAL_NUM_OF_PAGES g \<Longrightarrow> ppa_of (ppa_data (log_ppa g k)) = log_ppa g k"
  by (rule ppa_of_data [OF ppa_ok_typed [OF _ log_ppa_ok]])

lemma copy_out_writes:
  assumes g: "geo_ok g" and inv: "ftl_inv g k s" and n: "k + length ps < TOTAL_NUM_OF_PAGES g"
    and ab: "ftl_abs s' = ftl_abs s ++ map_of (rev (zip (map (unat \<circ> fst) ps) (run_pages g k (length ps))))"
    and img: "nand_img s' = copy_out g (zip (map ppa_data (run_pages g k (length ps))) (map snd ps)) (ram s) (nand_img s)"
  shows "writes_from g s ps s'"
  unfolding writes_from_def
proof (intro allI impI)
  fix l i assume i: "i < NAND_PAGE_SIZE g"
  let ?n = "length ps" and ?pgs = "zip (map ppa_data (run_pages g k (length ps))) (map snd ps)" and ?xs = "map (unat \<circ> fst) ps"
  let ?pos = "map_of (rev (zip ?xs [0..<length ?xs])) l"
  have mem: "(d, a) \<in> set ?pgs \<longleftrightarrow> (\<exists>j < ?n. d = ppa_data (log_ppa g (Suc k + j)) \<and> a = snd (ps ! j))" for d a
  proof
    assume "(d, a) \<in> set ?pgs"
    then show "\<exists>j < ?n. d = ppa_data (log_ppa g (Suc k + j)) \<and> a = snd (ps ! j)" by (auto simp: in_set_zip run_pages_simps)
  next
    assume "\<exists>j < ?n. d = ppa_data (log_ppa g (Suc k + j)) \<and> a = snd (ps ! j)"
    then obtain j where "j < ?n" "d = ppa_data (log_ppa g (Suc k + j))" "a = snd (ps ! j)" by blast
    then have "j < length ?pgs" "?pgs ! j = (d, a)" by (simp_all add: run_pages_simps)
    then show "(d, a) \<in> set ?pgs" by (metis nth_mem)
  qed
  have pd: "ppa_of (ppa_data (log_ppa g (Suc k + j))) = log_ppa g (Suc k + j)" if "j < ?n" for j
    using that n by (intro log_page_data [OF g]) simp
  have lw: "map_of (rev (zip ?xs (run_pages g k ?n))) l = map_option (nth (run_pages g k ?n)) ?pos"
    "map_of (rev (zip ?xs (map snd ps))) l = map_option (nth (map snd ps)) ?pos"
    by (rule last_write, simp add: run_pages_simps)+
  show "lview g s' l i = (case map_of (rev (zip ?xs (map snd ps))) l of Some a \<Rightarrow> ram s (a + i) | None \<Rightarrow> lview g s l i)"
  proof (cases ?pos)
    case (Some j)
    from last_write_pos [OF this] have j: "j < ?n" by simp
    let ?q = "log_ppa g (Suc k + j)"
    have new: "ftl_abs s' l = Some ?q" using lw(1) Some j by (simp add: ab run_pages_simps map_add_def)
    have "(d', a') = (ppa_data ?q, snd (ps ! j))" if m: "(d', a') \<in> set ?pgs" and "ppa_index g (ppa_of d') = ppa_index g (ppa_of (ppa_data ?q))" for d' a'
    proof -
      from m mem obtain j' where j': "j' < ?n" "d' = ppa_data (log_ppa g (Suc k + j'))" "a' = snd (ps ! j')" by blast
      have "Suc k + j' = Suc k + j"
        by (rule log_index_inj [OF g]) (use that(2) j j' n pd in simp_all)
      with j' show ?thesis by simp
    qed
    then have "nand_img s' (ppa_index g (ppa_of (ppa_data ?q)) * NAND_PAGE_SIZE g + i) = ram s (snd (ps ! j) + i)"
      unfolding img by (intro copy_out_hit) (use i mem j in auto)
    then show ?thesis using pd [OF j] lw(2) Some j by (simp add: lview_def new)
  next
    case None
    have same: "ftl_abs s' l = ftl_abs s l" using lw(1) None by (simp add: ab map_add_def)
    have "nand_img s' (ppa_index g p * NAND_PAGE_SIZE g + i) = nand_img s (ppa_index g p * NAND_PAGE_SIZE g + i)" if p: "ftl_abs s l = Some p" for p
      unfolding img
    proof (rule copy_out_miss [OF _ i], clarify)
      fix d a assume m: "(d, a) \<in> set ?pgs" and eq: "ppa_index g (ppa_of d) = ppa_index g p"
      from m mem obtain j where j: "j < ?n" "d = ppa_data (log_ppa g (Suc k + j))" by blast
      have "ppa_table s ! ppa_index g (log_ppa g (Suc k + j)) = FREE_PPA" using inv j(1) n by (simp add: ftl_inv_def alloc_inv_def)
      moreover have "ppa_table s ! ppa_index g p = of_nat l" "l < 2 ^ 30"
        using inv p g by (auto simp: ftl_inv_def map_ok_def geo_ok_def ftl_abs_def split: if_splits)
      ultimately show False using eq j pd lpn_entry_classes(2) [of l] by simp
    qed
    then show ?thesis using lw(2) None same by (simp add: lview_def split: option.split)
  qed
qed

lemma program_run_spec:
  assumes g: "geo_ok g" and inv: "ftl_inv g k s" and n: "k + length ps < TOTAL_NUM_OF_PAGES g" "length ps \<le> 128"
    and ok: "\<forall>(l, a) \<in> set ps. unat l < TOTAL_NUM_OF_PAGES g \<and> a < 2 ^ 32"
    and o: "op_holds (pops s) c []" "ops_ok FLASH_PROGRAM_OPERATION (pops s)"
  shows "\<exists>s1 hw. program_loop g (POP c) ps s = Some s1 \<and> prog_frame s s1 \<and>
    (let s2 = s1\<lparr>nand_regs := hw, nand_img := copy_out g (zip (map ppa_data (run_pages g k (length ps))) (map snd ps)) (ram s) (nand_img s),
        free_pop_objs := q_give (free_pop_objs s) (POP c)\<rparr>
     in sync_end_program_op g (POP c) s1 = Some s2 \<and> ftl_inv g (k + length ps) s2 \<and> writes_from g s ps s2 \<and>
        ops_ok FLASH_PROGRAM_OPERATION (pops s2))"
proof -
  have l: "\<forall>(l, a) \<in> set ps. unat l < TOTAL_NUM_OF_PAGES g" using ok by auto
  from program_loop_spec [OF g inv n(1) l o(1) _ o(2)] n(2) obtain s1 where
    s1: "program_loop g (POP c) ps s = Some s1" "ftl_inv g (k + length ps) s1"
      "ftl_abs s1 = ftl_abs s ++ map_of (rev (zip (map (unat \<circ> fst) ps) (run_pages g k (length ps))))"
      "op_holds (pops s1) c (zip (map ppa_data (run_pages g k (length ps))) (map snd ps))"
      "ops_ok FLASH_PROGRAM_OPERATION (pops s1)" "prog_frame s s1" by auto
  let ?pgs = "zip (map ppa_data (run_pages g k (length ps))) (map snd ps)"
  have "ppa_ok g (ppa_of d) \<and> a < 2 ^ 32" if m: "(d, a) \<in> set ?pgs" for d a
  proof -
    from m obtain j where j: "j < length ps" "d = ppa_data (log_ppa g (Suc k + j))" "a = snd (ps ! j)"
      by (auto simp: in_set_zip run_pages_simps)
    moreover have "ps ! j \<in> set ps" using j(1) by simp
    moreover have "Suc k + j < TOTAL_NUM_OF_PAGES g" using j(1) n(1) by simp
    ultimately show ?thesis using ok log_page_data [OF g] log_ppa_ok [OF g] by (cases "ps ! j") auto
  qed
  then have "pages_ok g ?pgs" by (auto simp: pages_ok_def)
  from end_program [OF g s1(4,5) this] prog_frame_same [OF s1(6)] obtain hw where
    hw: "sync_end_program_op g (POP c) s1 = Some (s1\<lparr>nand_regs := hw, nand_img := copy_out g ?pgs (ram s) (nand_img s),
      free_pop_objs := q_give (free_pop_objs s) (POP c)\<rparr>)" by auto
  let ?s2 = "s1\<lparr>nand_regs := hw, nand_img := copy_out g ?pgs (ram s) (nand_img s), free_pop_objs := q_give (free_pop_objs s) (POP c)\<rparr>"
  have "ftl_inv g (k + length ps) ?s2" using s1(2) ftl_inv_cong [of ?s2 s1] by simp
  moreover have "ftl_abs ?s2 = ftl_abs s1" by (rule ftl_abs_cong) simp
  then have "writes_from g s ps ?s2" by (intro copy_out_writes [OF g inv n(1)]) (simp_all add: s1(3))
  ultimately show ?thesis using s1 hw by (intro exI [of _ s1] exI [of _ hw]) (simp add: Let_def)
qed

section \<open>Whole operations\<close>

lemma page_run_lookup:
  assumes "io_geo g" "unat lpn + n \<le> TOTAL_NUM_OF_PAGES g"
  shows "map_of (rev (zip (map (unat \<circ> fst) (page_run g lpn buf n)) (map snd (page_run g lpn buf n)))) l =
    (if unat lpn \<le> l \<and> l < unat lpn + n then Some (buf + (l - unat lpn) * NAND_PAGE_SIZE g) else None)"
proof -
  have T: "TOTAL_NUM_OF_PAGES g < 2 ^ 30" using assms(1) by (simp add: io_geo_def geo_ok_def)
  have w: "unat (lpn + of_nat i) = unat lpn + i" if "i < n" for i
  proof -
    have "unat lpn + i < 2 ^ 30" using that assms(2) T by simp
    then have "unat (of_nat (unat lpn + i) :: u32) = unat lpn + i" by (rule unat_lpn)
    then show ?thesis by simp
  qed
  have "zip (map (unat \<circ> fst) (page_run g lpn buf n)) (map snd (page_run g lpn buf n)) =
      map (\<lambda>i. (unat lpn + i, buf + i * NAND_PAGE_SIZE g)) [0..<n]"
    by (rule nth_equalityI) (simp_all add: page_run_def w page_size [OF assms(1)])
  moreover have "map_of (rev (map (\<lambda>i. (a + i, buf + i * c)) [0..<n])) l = (if a \<le> l \<and> l < a + n then Some (buf + (l - a) * c) else None)" for a c
    by (induction n) auto
  ultimately show ?thesis by simp
qed

lemma page_run_ok:
  assumes "io_geo g" "unat lpn + n \<le> TOTAL_NUM_OF_PAGES g" "buf + n * NAND_PAGE_SIZE g \<le> 2 ^ 32"
  shows "\<forall>(l, a) \<in> set (page_run g lpn buf n). unat l < TOTAL_NUM_OF_PAGES g \<and> a < 2 ^ 32"
proof -
  have "unat (lpn + of_nat i) < TOTAL_NUM_OF_PAGES g \<and> buf + i * NAND_PAGE_SIZE g < 2 ^ 32" if "i < n" for i
  proof -
    have "unat lpn + i < 2 ^ 30" using that assms(1,2) by (simp add: io_geo_def geo_ok_def)
    then have "unat (of_nat (unat lpn + i) :: u32) = unat lpn + i" by (rule unat_lpn)
    moreover have "i * NAND_PAGE_SIZE g < n * NAND_PAGE_SIZE g" using that page_size_pos [of g] by simp
    then have "buf + i * NAND_PAGE_SIZE g < 2 ^ 32" using assms(3) by linarith
    ultimately show ?thesis using that assms(2) by simp
  qed
  then show ?thesis using page_size(1) [OF assms(1)] by (auto simp: page_run_def)
qed

lemma rop_ready_cong: "rops s' = rops s \<Longrightarrow> free_rop_objs s' = free_rop_objs s \<Longrightarrow> rop_ready s' = rop_ready s"
  by (simp add: rop_ready_def)

lemma sync_read_spec:
  assumes "io_geo g" "map_ok g s" "rop_ready s" "unat n \<le> 128" "unat start + unat n \<le> TOTAL_NUM_OF_PAGES g"
    "buf + unat n * NAND_PAGE_SIZE g \<le> 2 ^ 32"
  shows "\<exists>s'. sync_read_pages g start n buf s = Some (n, s') \<and> reads_to g s buf (unat start) (unat n) (ram s') \<and> rop_ready s' \<and>
    (\<exists>rs q hw. s' = s\<lparr>rops := rs, free_rop_objs := q, nand_regs := hw, ram := ram s'\<rparr>)"
proof -
  have pre: "\<forall>i l s. i < unat n \<longrightarrow> Some (s :: 'a ftl_st_scheme) = Some (s\<lparr>r_req := (\<lambda>_ _ r. r) i l (r_req s)\<rparr>)" by simp
  from read_op_spec [where pre = "\<lambda>_ _. Some" and h = "\<lambda>_ _ r. r", OF assms pre order_refl] obtain rop s1 s2 m' where
    b: "begin_read_op s = Some (rop, s1)" "read_loop g (\<lambda>_ _. Some) rop buf 0 (of_nat (unat start)) (unat n) s1 = Some s2" and
    e: "\<forall>rq. \<exists>rs q hw. sync_end_read_op g rop (s2\<lparr>r_req := rq\<rparr>) = Some (s\<lparr>rops := rs, free_rop_objs := q, nand_regs := hw, ram := m', r_req := rq\<rparr>) \<and>
      rop_ready (s\<lparr>rops := rs, free_rop_objs := q, nand_regs := hw, ram := m', r_req := rq\<rparr>)" and
    f: "r_req s2 = fold (\<lambda>j r. r) [0..<unat n] (r_req s)" and r: "reads_to g s buf (unat start) (unat n) m'" by blast
  have "fold (\<lambda>j r. r) xs a = a" for xs :: "nat list" and a :: "req_t list" by (induction xs) auto
  with f have "s2\<lparr>r_req := r_req s\<rparr> = s2" by simp
  with e obtain rs q hw where
    x: "sync_end_read_op g rop s2 = Some (s\<lparr>rops := rs, free_rop_objs := q, nand_regs := hw, ram := m', r_req := r_req s\<rparr>)"
      "rop_ready (s\<lparr>rops := rs, free_rop_objs := q, nand_regs := hw, ram := m', r_req := r_req s\<rparr>)" by metis
  let ?s' = "s\<lparr>rops := rs, free_rop_objs := q, nand_regs := hw, ram := m'\<rparr>"
  have "sync_read_pages g start n buf s = Some (n, ?s')" using b x(1) by (simp add: sync_read_pages_def)
  moreover have "rop_ready ?s'" using x(2) rop_ready_cong by simp
  moreover have "ram ?s' = m'" "\<exists>rs q hw. ?s' = s\<lparr>rops := rs, free_rop_objs := q, nand_regs := hw, ram := ram ?s'\<rparr>" by auto
  ultimately show ?thesis using r by metis
qed

lemma sync_program_spec:
  assumes g: "io_geo g" and inv: "ftl_inv g k s" and p: "pop_ready s" and n: "unat n \<le> 128" "k + unat n < TOTAL_NUM_OF_PAGES g"
    "unat start + unat n \<le> TOTAL_NUM_OF_PAGES g" "buf + unat n * NAND_PAGE_SIZE g \<le> 2 ^ 32"
  shows "\<exists>s'. sync_program_pages g start n buf s = Some (n, s') \<and> ftl_inv g (k + unat n) s' \<and> ram s' = ram s \<and>
    (\<forall>l i. i < NAND_PAGE_SIZE g \<longrightarrow> lview g s' l i =
       (if unat start \<le> l \<and> l < unat start + unat n then ram s (buf + (l - unat start) * NAND_PAGE_SIZE g + i) else lview g s l i)) \<and>
    rops s' = rops s \<and> free_rop_objs s' = free_rop_objs s"
proof -
  let ?ps = "page_run g start buf (unat n)"
  have ok: "geo_ok g" and len: "length ?ps = unat n" using g by (simp_all add: io_geo_def page_run_def)
  from begin_program [OF p] obtain c s1 where b: "begin_program_op s = Some (POP c, s1)" "op_holds (pops s1) c []"
    "s1 = s\<lparr>free_pop_objs := (free_pop_objs s)\<lparr>oo_head := (oo_head (free_pop_objs s) + 1) mod MAX_OPS\<rparr>,
      pops := (pops s)[c := (pops s ! c)\<lparr>fo_nop := 0\<rparr>]\<rparr>" "ops_ok FLASH_PROGRAM_OPERATION (pops s1)" by blast
  have same: "lview g s1 = lview g s" "ram s1 = ram s" "rops s1 = rops s" "free_rop_objs s1 = free_rop_objs s" "ftl_inv g k s1"
    using inv ftl_inv_cong [of s1 s] lview_cong [of s1 s g] by (simp_all add: b(3))
  from program_run_spec [OF ok same(5) _ _ page_run_ok [OF g n(3,4)] b(2,4)] n(1,2) len obtain s2 hw where
    s2: "program_loop g (POP c) ?ps s1 = Some s2" "prog_frame s1 s2" and
    s3: "let s3 = s2\<lparr>nand_regs := hw, nand_img := copy_out g (zip (map ppa_data (run_pages g k (unat n))) (map snd ?ps)) (ram s1) (nand_img s1),
        free_pop_objs := q_give (free_pop_objs s1) (POP c)\<rparr>
     in sync_end_program_op g (POP c) s2 = Some s3 \<and> ftl_inv g (k + unat n) s3 \<and> writes_from g s1 ?ps s3 \<and>
        ops_ok FLASH_PROGRAM_OPERATION (pops s3)" unfolding len by blast
  let ?s3 = "s2\<lparr>nand_regs := hw, nand_img := copy_out g (zip (map ppa_data (run_pages g k (unat n))) (map snd ?ps)) (ram s1) (nand_img s1),
        free_pop_objs := q_give (free_pop_objs s1) (POP c)\<rparr>"
  from s3 have e: "sync_end_program_op g (POP c) s2 = Some ?s3" "ftl_inv g (k + unat n) ?s3" "writes_from g s1 ?ps ?s3"
    unfolding Let_def by blast+
  have "sync_program_pages g start n buf s = Some (n, ?s3)" using b(1) s2(1) e(1) by (simp add: sync_program_pages_def)
  moreover have "ram s2 = ram s1" "rops s2 = rops s1" "free_rop_objs s2 = free_rop_objs s1" using s2(2) by (auto simp: prog_frame_def)
  moreover have "lview g ?s3 l i = (if unat start \<le> l \<and> l < unat start + unat n then ram s (buf + (l - unat start) * NAND_PAGE_SIZE g + i) else lview g s l i)"
    if "i < NAND_PAGE_SIZE g" for l i
    using e(3) that unfolding writes_from_def page_run_lookup [OF g n(3)] same by simp
  ultimately show ?thesis using e(2) same by (intro exI [of _ ?s3]) simp
qed

text \<open>What a flush of the cache may change.\<close>

definition wbc_frame :: "'a buf_st_scheme \<Rightarrow> 'a buf_st_scheme \<Rightarrow> bool" where
  "wbc_frame s s' \<longleftrightarrow> (\<exists>c l lt pt bt lp ps hw img q w. s' = s\<lparr>ftl_config := c, last_searched_channel := l, lpa_table := lt, ppa_table := pt,
     blk_table := bt, last_page_per_plane := lp, pops := ps, nand_regs := hw, nand_img := img, free_pop_objs := q, wbc := w\<rparr>)"

lemma wbc_frame_prog:
  assumes "prog_frame (s\<lparr>free_pop_objs := q0, pops := ps0, wbc := w0\<rparr>) s2"
  shows "wbc_frame s (s2\<lparr>nand_regs := hw, nand_img := img, free_pop_objs := q, wbc := w\<rparr>)"
  using assms unfolding prog_frame_def wbc_frame_def by (elim exE ssubst) (simp, blast)

text \<open>The write-back cache: the pages of the cache reach the device, and the cache is reported complete.\<close>

lemma process_wbc_spec:
  assumes g: "geo_ok g" and inv: "ftl_inv g k s" and p: "pop_ready s"
    and n: "k + length (wbc_run (wbc s)) < TOTAL_NUM_OF_PAGES g" "length (wbc_run (wbc s)) \<le> 128"
    and ok: "\<forall>(l, a) \<in> set (wbc_run (wbc s)). unat l < TOTAL_NUM_OF_PAGES g \<and> a < 2 ^ 32"
  shows "\<exists>s'. process_wbc g s = Some (sys_push_to_nvme WBC (wb_type (wbc s)) s') \<and> ftl_inv g (k + length (wbc_run (wbc s))) s' \<and>
    writes_from g s (wbc_run (wbc s)) s' \<and> ram s' = ram s \<and> wb_nand_io_complete (wbc s') \<and> queues s' = queues s \<and> wbc_frame s s' \<and>
    wb_type (wbc s') = wb_type (wbc s) \<and> length (wb_pages (wbc s')) = length (wb_pages (wbc s))"
proof -
  let ?ps = "wbc_run (wbc s)"
  from begin_program [OF p] obtain c s1 where b: "begin_program_op s = Some (POP c, s1)" "op_holds (pops s1) c []"
    "s1 = s\<lparr>free_pop_objs := (free_pop_objs s)\<lparr>oo_head := (oo_head (free_pop_objs s) + 1) mod MAX_OPS\<rparr>,
      pops := (pops s)[c := (pops s ! c)\<lparr>fo_nop := 0\<rparr>]\<rparr>" "ops_ok FLASH_PROGRAM_OPERATION (pops s1)" by blast
  let ?s1 = "s1\<lparr>wbc := start_wbc (wbc s1)\<rparr>"
  have same: "lview g ?s1 = lview g s" "ram ?s1 = ram s" "ftl_inv g k ?s1" "op_holds (pops ?s1) c []"
    "ops_ok FLASH_PROGRAM_OPERATION (pops ?s1)" "queues ?s1 = queues s" "wbc ?s1 = start_wbc (wbc s)"
    using inv b(2,4) ftl_inv_cong [of ?s1 s] lview_cong [of ?s1 s g] by (simp_all add: b(3))
  from program_run_spec [OF g same(3) n ok same(4,5)] obtain s2 hw where
    s2: "program_loop g (POP c) ?ps ?s1 = Some s2" "prog_frame ?s1 s2" and
    s3: "let s3 = s2\<lparr>nand_regs := hw, nand_img := copy_out g (zip (map ppa_data (run_pages g k (length ?ps))) (map snd ?ps)) (ram ?s1) (nand_img ?s1),
        free_pop_objs := q_give (free_pop_objs ?s1) (POP c)\<rparr>
     in sync_end_program_op g (POP c) s2 = Some s3 \<and> ftl_inv g (k + length ?ps) s3 \<and> writes_from g ?s1 ?ps s3 \<and>
        ops_ok FLASH_PROGRAM_OPERATION (pops s3)" by blast
  define s3' where "s3' = s2\<lparr>nand_regs := hw, nand_img := copy_out g (zip (map ppa_data (run_pages g k (length ?ps))) (map snd ?ps)) (ram ?s1) (nand_img ?s1),
        free_pop_objs := q_give (free_pop_objs ?s1) (POP c)\<rparr>"
  from s3 have e: "sync_end_program_op g (POP c) s2 = Some s3'" "ftl_inv g (k + length ?ps) s3'" "writes_from g ?s1 ?ps s3'"
    unfolding Let_def s3'_def by blast+
  let ?s4 = "s3'\<lparr>wbc := (wbc s3')\<lparr>wb_nand_io_complete := True\<rparr>\<rparr>"
  from s2(2) have fr: "wbc s2 = wbc ?s1" "ram s2 = ram ?s1" "queues s2 = queues ?s1" by (auto simp: prog_frame_def)
  have "wbc s2 = start_wbc (wbc s)" using fr(1) same(7) by (rule trans)
  then have w: "wb_type (wbc ?s4) = wb_type (wbc s)" "length (wb_pages (wbc ?s4)) = length (wb_pages (wbc s))" by (simp_all add: s3'_def start_wbc_def)
  have "process_wbc g s = Some (sys_push_to_nvme WBC (wb_type (wbc ?s4)) ?s4)"
    using b(1) s2(1) e(1) by (simp add: process_wbc_def Let_def)
  moreover have "ftl_inv g (k + length ?ps) ?s4" using e(2) ftl_inv_cong [of ?s4 s3'] by simp
  moreover have lv: "lview g ?s4 = lview g s3'" by (rule lview_cong) simp_all
  have "writes_from g s ?ps ?s4" using e(3) by (simp only: writes_from_def same(1,2) lv)
  moreover have "wbc_frame s ?s4"
    unfolding s3'_def using wbc_frame_prog [where s = s] s2(2) unfolding b(3) by simp
  ultimately show ?thesis using w fr same(2,6) by (intro exI [of _ ?s4]) (simp add: s3'_def)
qed

section \<open>Properties\<close>

text \<open>
  C9. The translation layer reads its own writes: after \<open>__sync_program_pages\<close> has stored a run of
  logical pages from RAM, \<open>__sync_read_pages\<close> brings exactly these bytes to any other place in RAM,
  both return the number of pages, and every other logical page still reads as before.
\<close>

theorem ftl_read_your_writes:
  assumes "io_geo g" "ftl_inv g k s" "pop_ready s" "rop_ready s" "unat n \<le> 128" "k + unat n < TOTAL_NUM_OF_PAGES g"
    "unat start + unat n \<le> TOTAL_NUM_OF_PAGES g" "src + unat n * NAND_PAGE_SIZE g \<le> 2 ^ 32" "dst + unat n * NAND_PAGE_SIZE g \<le> 2 ^ 32"
  shows "\<exists>s1 s2. sync_program_pages g start n src s = Some (n, s1) \<and> sync_read_pages g start n dst s1 = Some (n, s2) \<and>
    (\<forall>j < unat n. \<forall>i < NAND_PAGE_SIZE g. ram s2 (dst + j * NAND_PAGE_SIZE g + i) = ram s (src + j * NAND_PAGE_SIZE g + i)) \<and>
    (\<forall>l i. i < NAND_PAGE_SIZE g \<and> \<not> (unat start \<le> l \<and> l < unat start + unat n) \<longrightarrow> lview g s2 l i = lview g s l i)"
proof -
  from sync_program_spec [OF assms(1-3,5-8)] obtain s1 where
    s1: "sync_program_pages g start n src s = Some (n, s1)" "ftl_inv g (k + unat n) s1" "rops s1 = rops s" "free_rop_objs s1 = free_rop_objs s" and
    v: "\<And>l i. i < NAND_PAGE_SIZE g \<Longrightarrow> lview g s1 l i =
       (if unat start \<le> l \<and> l < unat start + unat n then ram s (src + (l - unat start) * NAND_PAGE_SIZE g + i) else lview g s l i)" by blast
  have "map_ok g s1" "rop_ready s1" using s1(2) assms(4) rop_ready_cong [OF s1(3,4)] by (simp_all add: ftl_inv_def)
  from sync_read_spec [OF assms(1) this assms(5,7,9)] obtain s2 where
    s2: "sync_read_pages g start n dst s1 = Some (n, s2)" "reads_to g s1 dst (unat start) (unat n) (ram s2)" and
    fr: "\<exists>rs q hw. s2 = s1\<lparr>rops := rs, free_rop_objs := q, nand_regs := hw, ram := ram s2\<rparr>" by blast
  from fr have "lpa_table s2 = lpa_table s1 \<and> nand_img s2 = nand_img s1" by (elim exE ssubst) simp
  then have "lview g s2 = lview g s1" by (intro lview_cong) simp_all
  with s1(1) s2 v show ?thesis by (intro exI [of _ s1] exI [of _ s2]) (simp add: reads_to_def)
qed

text \<open>
  C8. A flush of the write-back cache returns, makes every valid page of the cache the content of
  its logical page (the last one where a page occurs twice), leaves every other logical page and RAM
  alone, keeps the mapping invariant, marks the cache complete and pushes it to the NVMe driver.
\<close>

theorem wbc_flush_writes_device:
  assumes "geo_ok g" "ftl_inv g k s" "pop_ready s" "k + length (wbc_run (wbc s)) < TOTAL_NUM_OF_PAGES g" "length (wbc_run (wbc s)) \<le> 128"
    "\<forall>(l, a) \<in> set (wbc_run (wbc s)). unat l < TOTAL_NUM_OF_PAGES g \<and> a < 2 ^ 32"
  shows "\<exists>s'. process_req_cbk g WBC WBC_FLUSH_REQUEST s = Some (sys_push_to_nvme WBC (wb_type (wbc s)) s') \<and>
    ftl_inv g (k + length (wbc_run (wbc s))) s' \<and> writes_from g s (wbc_run (wbc s)) s' \<and> ram s' = ram s \<and>
    wb_nand_io_complete (wbc s') \<and> queues s' = queues s"
proof -
  have "process_req_cbk g WBC WBC_FLUSH_REQUEST s = process_wbc g s" by (simp add: process_req_cbk_def WBC_FLUSH_REQUEST_def READ_IO_REQUEST_def)
  with process_wbc_spec [OF assms] show ?thesis by metis
qed

text \<open>The request updates of \<open>ftl_process_read_io\<close> touch only the request object.\<close>

definition r_upd :: "nat \<Rightarrow> (req_t \<Rightarrow> req_t) \<Rightarrow> req_t list \<Rightarrow> req_t list" where
  "r_upd x f rs = rs[x := f (rs ! x)]"

lemma upd_req_R: "upd_req (R_REQ x) f s = s\<lparr>r_req := r_upd x f (r_req s)\<rparr>"
  by (simp add: upd_req_def r_upd_def)

lemma r_upd_same: "r_upd x f (r_upd x f' rs) = r_upd x (f \<circ> f') rs"
  by (cases "x < length rs") (simp_all add: r_upd_def list_update_beyond)

lemma r_upd_fold: "fold (\<lambda>j. r_upd x (f j)) js (r_upd x f0 rs) = r_upd x (fold f js \<circ> f0) rs"
proof (induction js arbitrary: f0)
  case (Cons j js)
  then show ?case by (simp add: r_upd_same comp_assoc)
qed simp

lemma note_lpn_R: "i < MDTS_PAGES \<Longrightarrow> note_lpn (R_REQ x) i l s = Some (s\<lparr>r_req :=
    r_upd x (\<lambda>r. r\<lparr>read_page_meta := (read_page_meta r)[i := (read_page_meta r ! i)\<lparr>rp_lpn := l\<rparr>]\<rparr>) (r_req s)\<rparr>)"
  by (simp add: note_lpn_def upd_req_R)

lemma note_pages_keep:
  fixes v :: "nat \<Rightarrow> u32"
  defines "h \<equiv> \<lambda>j r. r\<lparr>read_page_meta := (read_page_meta r)[j := (read_page_meta r ! j)\<lparr>rp_lpn := v j\<rparr>]\<rparr>"
  shows "scmd (fold h js r) = scmd r \<and> dma (fold h js r) = dma r \<and> rq_type (fold h js r) = rq_type r \<and> status (fold h js r) = status r \<and>
    sqid (fold h js r) = sqid r \<and> cqid (fold h js r) = cqid r \<and> ccmd_dw0 (fold h js r) = ccmd_dw0 r"
  by (induction js arbitrary: r) (simp_all add: h_def)

text \<open>What a read request keeps while the translation layer works on it.\<close>

definition read_marks :: "(req_t \<Rightarrow> req_t) \<Rightarrow> bool" where
  "read_marks f \<longleftrightarrow> (\<forall>r. nand_io_complete (f r) \<and> req_stage (f r) = REQ_STAGE_READING_FLASH \<and> scmd (f r) = scmd r \<and> dma (f r) = dma r \<and>
     rq_type (f r) = rq_type r \<and> status (f r) = status r \<and> sqid (f r) = sqid r \<and> cqid (f r) = cqid r \<and> ccmd_dw0 (f r) = ccmd_dw0 r)"

lemma read_io_spec:
  assumes g: "io_geo g" and m: "map_ok g s" and r: "rop_ready s" and x: "x < R_SIZE" "length (r_req s) = R_SIZE"
    and n: "n = unat (io_nlbs (scmd (r_req s ! x))) + 1" "n \<le> MDTS_PAGES"
    and l: "l0 = unat (ucast (io_slba (scmd (r_req s ! x))) :: u32)" "l0 + n \<le> TOTAL_NUM_OF_PAGES g"
    and b: "buf = buffer_addr (dma (r_req s ! x))" "buf + n * NAND_PAGE_SIZE g \<le> 2 ^ 32"
  shows "\<exists>rs q hw m f. process_req_cbk g (R_REQ x) READ_IO_REQUEST s = Some (sys_push_to_nvme (R_REQ x) (rq_type (r_req s ! x))
        (s\<lparr>rops := rs, free_rop_objs := q, nand_regs := hw, ram := m, r_req := r_upd x f (r_req s)\<rparr>)) \<and>
      reads_to g s buf l0 n m \<and> read_marks f \<and>
      rop_ready (s\<lparr>rops := rs, free_rop_objs := q, nand_regs := hw, ram := m, r_req := r_upd x f (r_req s)\<rparr>)"
proof -
  let ?h = "\<lambda>i l. r_upd x (\<lambda>r. r\<lparr>read_page_meta := (read_page_meta r)[i := (read_page_meta r ! i)\<lparr>rp_lpn := l\<rparr>]\<rparr>)"
  let ?s0 = "s\<lparr>r_req := r_upd x (\<lambda>r. r\<lparr>req_stage := REQ_STAGE_FTL\<rparr>) (r_req s)\<rparr>"
  have same: "map_ok g ?s0" "rop_ready ?s0" "lview g ?s0 = lview g s" "ram ?s0 = ram s"
    using m r lview_cong [of ?s0 s g] ftl_abs_cong [of ?s0 s] by (simp_all add: map_ok_def rop_ready_def)
  have n': "n \<le> 128" using n(2) by (simp add: MDTS_PAGES_def)
  have pre: "\<forall>i l s. i < MDTS_PAGES \<longrightarrow> note_lpn (R_REQ x) i l s = Some (s\<lparr>r_req := ?h i l (r_req s)\<rparr>)" using note_lpn_R by blast
  from read_op_spec [where pre = "note_lpn (R_REQ x)" and h = ?h, OF g same(1,2) n' l(2) b(2) pre n(2)] obtain rop s1 s2 m' where
    o: "begin_read_op ?s0 = Some (rop, s1)" "read_loop g (note_lpn (R_REQ x)) rop buf 0 (of_nat l0) n s1 = Some s2" and
    f: "r_req s2 = fold (\<lambda>j. ?h j (of_nat (l0 + j))) [0..<n] (r_req ?s0)" and
    e: "\<forall>rq. \<exists>rs q hw. sync_end_read_op g rop (s2\<lparr>r_req := rq\<rparr>) = Some (?s0\<lparr>rops := rs, free_rop_objs := q, nand_regs := hw, ram := m', r_req := rq\<rparr>) \<and>
      rop_ready (?s0\<lparr>rops := rs, free_rop_objs := q, nand_regs := hw, ram := m', r_req := rq\<rparr>)" and
    rd: "reads_to g ?s0 buf l0 n m'" by blast
  let ?rq = "r_upd x (\<lambda>r. r\<lparr>req_stage := REQ_STAGE_READING_FLASH\<rparr>) (r_req s2)"
  from e obtain rs q hw where
    e': "sync_end_read_op g rop (s2\<lparr>r_req := ?rq\<rparr>) = Some (?s0\<lparr>rops := rs, free_rop_objs := q, nand_regs := hw, ram := m', r_req := ?rq\<rparr>)"
      "rop_ready (?s0\<lparr>rops := rs, free_rop_objs := q, nand_regs := hw, ram := m', r_req := ?rq\<rparr>)" by blast
  let ?f = "(\<lambda>r. r\<lparr>nand_io_complete := True\<rparr>) \<circ> ((\<lambda>r. r\<lparr>req_stage := REQ_STAGE_READING_FLASH\<rparr>) \<circ>
     (fold (\<lambda>j r. r\<lparr>read_page_meta := (read_page_meta r)[j := (read_page_meta r ! j)\<lparr>rp_lpn := of_nat (l0 + j)\<rparr>]\<rparr>) [0..<n] \<circ> (\<lambda>r. r\<lparr>req_stage := REQ_STAGE_FTL\<rparr>)))"
  let ?s' = "s\<lparr>rops := rs, free_rop_objs := q, nand_regs := hw, ram := m', r_req := r_upd x ?f (r_req s)\<rparr>"
  have sl: "(ucast (io_slba (scmd (r_req s ! x))) :: u32) = of_nat l0" by (simp add: l(1))
  have nn: "Suc (unat (io_nlbs (scmd (r_req s ! x)))) = n" using n(1) by simp
  have "r_upd x (\<lambda>r. r\<lparr>nand_io_complete := True\<rparr>) ?rq = r_upd x ?f (r_req s)" by (simp add: f r_upd_fold r_upd_same)
  then have "ftl_process_read_io g (R_REQ x) s = Some (sys_push_to_nvme (R_REQ x) (rq_type (r_req s ! x)) ?s')"
    using x o e'(1) by (simp add: ftl_process_read_io_def get_req_def upd_req_R nn b(1) [symmetric] sl del: read_loop.simps)
  moreover have "process_req_cbk g (R_REQ x) READ_IO_REQUEST s = ftl_process_read_io g (R_REQ x) s" by (simp add: process_req_cbk_def)
  moreover have "reads_to g s buf l0 n m'" using rd same(3,4) by (simp add: reads_to_def)
  moreover have "rop_ready ?s'" using e'(2) by (simp add: rop_ready_def)
  moreover have "read_marks ?f" by (simp add: read_marks_def note_pages_keep)
  ultimately show ?thesis by (intro exI [of _ rs] exI [of _ q] exI [of _ hw] exI [of _ m'] exI [of _ ?f]) simp
qed

text \<open>
  C16. A read request of the host: the buffer of the request gets the content of its logical pages,
  zeros for pages never written; the request records the page numbers, is marked complete in its
  final stage and goes to the NVMe driver; the device content and the read pool are as before.
\<close>

theorem read_io_delivers:
  assumes g: "io_geo g" and m: "map_ok g s" and r: "rop_ready s" and x: "x < R_SIZE" "length (r_req s) = R_SIZE"
    and n: "n = unat (io_nlbs (scmd (r_req s ! x))) + 1" "n \<le> MDTS_PAGES"
    and l: "l0 = unat (ucast (io_slba (scmd (r_req s ! x))) :: u32)" "l0 + n \<le> TOTAL_NUM_OF_PAGES g"
    and b: "buf = buffer_addr (dma (r_req s ! x))" "buf + n * NAND_PAGE_SIZE g \<le> 2 ^ 32"
  shows "\<exists>s' f. process_req_cbk g (R_REQ x) READ_IO_REQUEST s = Some (sys_push_to_nvme (R_REQ x) (rq_type (r_req s ! x)) s') \<and>
    reads_to g s buf l0 n (ram s') \<and> lview g s' = lview g s \<and> rop_ready s' \<and> queues s' = queues s \<and>
    r_req s' = (r_req s)[x := f (r_req s ! x)] \<and>
    nand_io_complete (r_req s' ! x) \<and> req_stage (r_req s' ! x) = REQ_STAGE_READING_FLASH"
proof -
  from read_io_spec [OF assms] obtain rs q hw m f where
    e: "process_req_cbk g (R_REQ x) READ_IO_REQUEST s = Some (sys_push_to_nvme (R_REQ x) (rq_type (r_req s ! x))
        (s\<lparr>rops := rs, free_rop_objs := q, nand_regs := hw, ram := m, r_req := r_upd x f (r_req s)\<rparr>))"
      "reads_to g s buf l0 n m" "read_marks f"
      "rop_ready (s\<lparr>rops := rs, free_rop_objs := q, nand_regs := hw, ram := m, r_req := r_upd x f (r_req s)\<rparr>)"
    by (elim exE conjE)
  let ?s' = "s\<lparr>rops := rs, free_rop_objs := q, nand_regs := hw, ram := m, r_req := r_upd x f (r_req s)\<rparr>"
  have "lview g ?s' = lview g s" by (rule lview_cong) simp_all
  with e x show ?thesis by (intro exI [of _ ?s'] exI [of _ f]) (simp add: r_upd_def read_marks_def)
qed

section \<open>Witnesses\<close>

text \<open>The small device with new media and initialised operation pools, and a write-back cache of two pages.\<close>

definition buf_image :: buf_st where
  "buf_image = ftl_st.extend (init_op_obj ftl_image) (buf_st.fields 4096 False
     \<lparr>wb_type = WBC_FLUSH_REQUEST, wb_index = 1, num_program_pgs = 2, wb_nand_io_complete = False,
      wb_pages = \<lparr>wp_lpn = 3, wp_ssd_addr = 4096, wp_valid = 1, wp_nand_io_complete = 0\<rparr> #
        \<lparr>wp_lpn = 4, wp_ssd_addr = 4104, wp_valid = 1, wp_nand_io_complete = 0\<rparr> #
        replicate 14 \<lparr>wp_lpn = 0, wp_ssd_addr = 0, wp_valid = 0, wp_nand_io_complete = 0\<rparr>\<rparr>)"

lemma map_frame_trivial: "new_flash_media g mb s = Some s1 \<Longrightarrow>
   rops s1 = rops s \<and> pops s1 = pops s \<and> free_rop_objs s1 = free_rop_objs s \<and> free_pop_objs s1 = free_pop_objs s \<and>
   r_req s1 = r_req s \<and> ftl_st.more s1 = ftl_st.more s"
  unfolding new_flash_media_def SET_RESERVED_PPA_def set_ppa_entry_def INC_VALID_PAGES_def upd_blk_def Let_def
  by (auto elim!: bind_SomeE split: if_splits)

lemma ops_of_image:
  "op_image ftl_image" "rops buf_image = rops (init_op_obj ftl_image)" "pops buf_image = pops (init_op_obj ftl_image)"
  "free_rop_objs buf_image = free_rop_objs (init_op_obj ftl_image)" "free_pop_objs buf_image = free_pop_objs (init_op_obj ftl_image)"
  "r_req buf_image = r_req (init_op_obj ftl_image)"
  by (simp_all add: op_image_def ftl_image_def nand_image_def req_st.defs nand_st.defs ftl_st.defs buf_image_def buf_st.defs init_op_obj_def Let_def)

text \<open>A device that is ready for requests exists.\<close>

definition device_ready :: "geo \<Rightarrow> nat \<Rightarrow> 'a ftl_st_scheme \<Rightarrow> bool" where
  "device_ready g k s \<longleftrightarrow> ftl_inv g k s \<and> rop_ready s \<and> pop_ready s"

lemma device_ready_image: "\<exists>s :: buf_st. device_ready tiny_geo 0 s \<and> wbc s = wbc buf_image \<and> r_req s = r_req buf_image"
proof -
  from new_media_init [OF geo_ok_default(2), of 0 buf_image] obtain s1 :: buf_st where
    s1: "new_flash_media tiny_geo 0 (boot_tables tiny_geo buf_image) = Some s1" "ftl_inv tiny_geo 0 (finish_ftl_init s1)" by blast
  let ?s = "finish_ftl_init s1"
  have b: "rops (boot_tables tiny_geo buf_image) = rops buf_image" "pops (boot_tables tiny_geo buf_image) = pops buf_image"
    "free_rop_objs (boot_tables tiny_geo buf_image) = free_rop_objs buf_image" "free_pop_objs (boot_tables tiny_geo buf_image) = free_pop_objs buf_image"
    "r_req (boot_tables tiny_geo buf_image) = r_req buf_image" "wbc (boot_tables tiny_geo buf_image) = wbc buf_image"
    by (simp_all add: boot_tables_def map_tables_image_def)
  have f: "rops ?s = rops s1" "pops ?s = pops s1" "free_rop_objs ?s = free_rop_objs s1" "free_pop_objs ?s = free_pop_objs s1"
    "r_req ?s = r_req s1" "wbc ?s = wbc s1" by (simp_all add: finish_ftl_init_def Let_def)
  note m = map_frame_trivial [OF s1(1)]
  have w: "wbc s1 = wbc (boot_tables tiny_geo buf_image)" using m by (metis buf_st.surjective ftl_st.surjective buf_st.select_convs ftl_st.select_convs)
  have "rop_ready ?s" "pop_ready ?s"
    using init_op_obj_ready(1,2) [OF ops_of_image(1)] m by (simp_all add: rop_ready_def pop_ready_def f b ops_of_image)
  with s1(2) m w f b show ?thesis by (intro exI [of _ ?s]) (simp add: device_ready_def)
qed

lemma tiny_io: "io_geo tiny_geo" "NAND_PAGE_SIZE tiny_geo = 8"
  using geo_ok_default(2) by (simp_all add: io_geo_def tiny_geo_def geom_defs)

theorem ftl_read_your_writes_witness:
  "\<exists>s s1 s2 :: buf_st. sync_program_pages tiny_geo 3 2 4096 s = Some (2, s1) \<and> sync_read_pages tiny_geo 3 2 8192 s1 = Some (2, s2) \<and>
     ram s2 8205 = ram s 4109"
proof -
  from device_ready_image obtain s :: buf_st where s: "ftl_inv tiny_geo 0 s" "pop_ready s" "rop_ready s" by (auto simp: device_ready_def)
  from ftl_read_your_writes [OF tiny_io(1) s, of 2 3 4096 8192] obtain s1 s2 where
    r: "sync_program_pages tiny_geo 3 2 4096 s = Some (2, s1)" "sync_read_pages tiny_geo 3 2 8192 s1 = Some (2, s2)"
      "\<forall>j < 2. \<forall>i < 8. ram s2 (8192 + j * 8 + i) = ram s (4096 + j * 8 + i)"
    by (auto simp: tiny_total tiny_io)
  from r(3) [rule_format, of 1 5] have "ram s2 8205 = ram s 4109" by simp
  with r(1,2) show ?thesis by blast
qed

theorem wbc_flush_writes_device_witness:
  "\<exists>s s' :: buf_st. process_req_cbk tiny_geo WBC WBC_FLUSH_REQUEST s = Some (sys_push_to_nvme WBC WBC_FLUSH_REQUEST s') \<and>
     lview tiny_geo s' 4 5 = ram s 4109"
proof -
  from device_ready_image obtain s :: buf_st where s: "ftl_inv tiny_geo 0 s" "pop_ready s" "wbc s = wbc buf_image" by (auto simp: device_ready_def)
  have w: "wbc_run (wbc s) = [(3, 4096), (4, 4104)]" "wb_type (wbc s) = WBC_FLUSH_REQUEST"
    by (simp_all add: s(3) buf_image_def ftl_st.defs buf_st.defs wbc_run_def WBC_PAGES_def MDTS_PAGES_def)
  from wbc_flush_writes_device [OF geo_ok_default(2) s(1,2)] obtain s' where
    r: "process_req_cbk tiny_geo WBC WBC_FLUSH_REQUEST s = Some (sys_push_to_nvme WBC WBC_FLUSH_REQUEST s')" "writes_from tiny_geo s (wbc_run (wbc s)) s'"
    by (auto simp: w tiny_total)
  from r(2) have "lview tiny_geo s' 4 5 = ram s 4109" by (simp add: writes_from_def w tiny_io)
  with r(1) show ?thesis by blast
qed

theorem read_io_delivers_witness:
  "\<exists>s s' :: buf_st. process_req_cbk tiny_geo (R_REQ 7) READ_IO_REQUEST s = Some (sys_push_to_nvme (R_REQ 7) 0 s') \<and>
     nand_io_complete (r_req s' ! 7) \<and> reads_to tiny_geo s 0 0 1 (ram s')"
proof -
  from device_ready_image obtain s :: buf_st where s: "ftl_inv tiny_geo 0 s" "rop_ready s" "r_req s = r_req buf_image" by (auto simp: device_ready_def)
  have rr: "r_req s = replicate R_SIZE zero_req"
    by (simp add: s(3) ops_of_image init_op_obj_def Let_def ftl_image_def nand_image_def req_image_def kernel_st.defs req_st.defs nand_st.defs)
  have z: "io_nlbs (scmd zero_req) = 0" "io_slba (scmd zero_req) = 0" "buffer_addr (dma zero_req) = 0" "rq_type zero_req = 0" "7 < R_SIZE"
    by (simp_all add: zero_req_def zero_scmd_def zero_dma_def io_nlbs_def io_slba_def lo16_def R_SIZE_def INTERNAL_IO_REQ_QUEUE_def)
  have "map_ok tiny_geo s" using s(1) by (simp add: ftl_inv_def)
  from read_io_delivers [OF tiny_io(1) this s(2), of 7 1 0 0] show ?thesis
    by (auto simp: rr z tiny_total tiny_io MDTS_PAGES_def)
qed

end
