(* ===== verification/Ftl_Unequal.thy ===== *)
theory Ftl_Unequal
  imports Ftl_Io
begin

text \<open>
  The translation layer for flash pages larger than host pages (\<^verbatim>\<open>unequal.pages.c\<close>, which \<^verbatim>\<open>ftl.c\<close>
  includes instead of \<^verbatim>\<open>equal.pages.c\<close>). A flash page holds several host pages: a write collects the host
  pages of each flash page, reads the old flash page where it keeps some of them, merges, and programs the
  result to a new physical page; a read brings whole flash pages to temporary buffers and copies the
  wanted host pages from there. The tables of collected pages and the temporary buffers are global.
\<close>

section \<open>State\<close>

definition DIRECT_FROM_WBC :: u32 where "DIRECT_FROM_WBC = 2"
definition TEMP_RMP_BUFFER :: u32 where "TEMP_RMP_BUFFER = 3"

record program_pages_t =
  pp_nand_page :: u32
  pp_is_unmapped :: bool
  pp_current_ppa :: ppa_t
  pp_new_ppa :: ppa_t
  pp_data_src :: u32
  pp_temp_buffer :: nat
  pp_host_page :: "u32 list"
  pp_host_page_ptrs :: "nat list"
  pp_mod_host_pages :: u32

record read_pages_t =
  rg_nand_page :: u32
  rg_is_unmapped :: bool
  rg_current_ppa :: ppa_t
  rg_new_ppa :: ppa_t
  rg_data_src :: u32
  rg_temp_buffer :: nat
  rg_host_page :: "u32 list"
  rg_host_page_ptrs :: "nat list"
  rg_read_host_pages :: u32

record uneq_st = buf_st +
  program_pages :: "program_pages_t list"
  program_pages_count :: nat
  rmp_buffer :: "nat list"
  read_pages :: "read_pages_t list"
  read_pages_count :: nat
  temp_read_buffer :: "nat list"

fun alloc_flash_buffers :: "geo \<Rightarrow> nat \<Rightarrow> 'a kernel_st_scheme \<Rightarrow> (nat list \<times> 'a kernel_st_scheme) option" where
  "alloc_flash_buffers g 0 s = Some ([], s)"
| "alloc_flash_buffers g (Suc n) s =
     do { (a, s1) \<leftarrow> get_uncacheable_ram (NAND_PAGE_SIZE g) s; (as, s2) \<leftarrow> alloc_flash_buffers g n s1; Some (a # as, s2) }"

definition init_ftl_module_unequal_pages :: "geo \<Rightarrow> 'a uneq_st_scheme \<Rightarrow> 'a uneq_st_scheme option" where
  "init_ftl_module_unequal_pages g s =
     do {
       (r, s1) \<leftarrow> alloc_flash_buffers g MDTS_PAGES s;
       (t, s2) \<leftarrow> alloc_flash_buffers g MDTS_PAGES (s1\<lparr>rmp_buffer := r\<rparr>);
       Some (s2\<lparr>temp_read_buffer := t\<rparr>)
     }"

text \<open>The flash page of a host page and its place in it.\<close>

definition nand_page_of :: "geo \<Rightarrow> u32 \<Rightarrow> u32" where "nand_page_of g lpn = drop_bit (HOST_2_NAND_DS g) lpn"
definition offset_of :: "geo \<Rightarrow> u32 \<Rightarrow> nat" where "offset_of g lpn = unat (lpn mod of_nat (HOST_PER_NAND_PAGES g))"

text \<open>The search does not stop at the first match.\<close>

definition find_info :: "u32 \<Rightarrow> u32 list \<Rightarrow> nat option" where
  "find_info np nps = fold (\<lambda>ix r. if np = nps ! ix then Some ix else r) [0..<length nps] None"

section \<open>Writing\<close>

definition reset_program_pages :: "'a uneq_st_scheme \<Rightarrow> 'a uneq_st_scheme" where
  "reset_program_pages s = s\<lparr>program_pages := fold (\<lambda>ix l. l[ix := (l ! ix)\<lparr>pp_nand_page := 0xFFFFFFFF, pp_mod_host_pages := 0,
     pp_current_ppa := zero_ppa, pp_new_ppa := zero_ppa\<rparr>]) [0..<program_pages_count s] (program_pages s), program_pages_count := 0\<rparr>"

definition new_program_page :: "geo \<Rightarrow> u32 \<Rightarrow> 'a uneq_st_scheme \<Rightarrow> (nat \<times> 'a uneq_st_scheme) option" where
  "new_program_page g np s =
     (let i = program_pages_count s; e = program_pages s ! i in
      if length (program_pages s) \<le> i \<or> length (rmp_buffer s) \<le> i then None
      else do {
        unmapped \<leftarrow> IS_UNMAPPED_LPA (unat np) s;
        e1 \<leftarrow> (if unmapped then Some (e\<lparr>pp_is_unmapped := True\<rparr>)
              else do { p \<leftarrow> GET_MAPPED_PPA (unat np) s; Some (e\<lparr>pp_is_unmapped := False, pp_current_ppa := p\<rparr>) });
        let e2 = e1\<lparr>pp_host_page_ptrs := replicate (HOST_PER_NAND_PAGES g) 0, pp_nand_page := np, pp_mod_host_pages := 0\<rparr>;
        (p, s1) \<leftarrow> make_new_mapping g (unat np) s;
        Some (i, s1\<lparr>program_pages := (program_pages s1)[i := e2\<lparr>pp_new_ppa := p, pp_temp_buffer := rmp_buffer s1 ! i\<rparr>],
          program_pages_count := i + 1\<rparr>)
      })"

definition gather_page :: "geo \<Rightarrow> u32 \<Rightarrow> nat \<Rightarrow> 'a uneq_st_scheme \<Rightarrow> 'a uneq_st_scheme option" where
  "gather_page g lpn addr s =
     do {
       (i, s1) \<leftarrow> (case find_info (nand_page_of g lpn) (map pp_nand_page (take (program_pages_count s) (program_pages s))) of
          Some i \<Rightarrow> Some (i, s) | None \<Rightarrow> new_program_page g (nand_page_of g lpn) s);
       let e = program_pages s1 ! i;
       let k = offset_of g lpn;
       Some (s1\<lparr>program_pages := (program_pages s1)[i := e\<lparr>pp_host_page := (pp_host_page e)[k := lpn],
         pp_host_page_ptrs := (pp_host_page_ptrs e)[k := addr], pp_mod_host_pages := pp_mod_host_pages e + 1\<rparr>]\<rparr>)
     }"

fun gather_loop :: "geo \<Rightarrow> (u32 \<times> nat) list \<Rightarrow> 'a uneq_st_scheme \<Rightarrow> 'a uneq_st_scheme option" where
  "gather_loop g [] s = Some s"
| "gather_loop g ((lpn, addr) # ps) s = gather_page g lpn addr s \<bind> gather_loop g ps"

text \<open>The old content is read where the flash page is mapped and not rewritten completely.\<close>

fun read_old_loop :: "geo \<Rightarrow> op_ptr \<Rightarrow> nat list \<Rightarrow> 'a uneq_st_scheme \<Rightarrow> 'a uneq_st_scheme option" where
  "read_old_loop g rop [] s = Some s"
| "read_old_loop g rop (ix # ixs) s =
     (let e = program_pages s ! ix in
      if pp_is_unmapped e \<or> of_nat (HOST_PER_NAND_PAGES g) \<le> pp_mod_host_pages e then
        read_old_loop g rop ixs (s\<lparr>program_pages := (program_pages s)[ix := e\<lparr>pp_data_src := DIRECT_FROM_WBC\<rparr>]\<rparr>)
      else do {
        (_, s1) \<leftarrow> add_read_op_page rop (ppa_data (pp_current_ppa e)) (pp_temp_buffer e)
          (s\<lparr>program_pages := (program_pages s)[ix := e\<lparr>pp_data_src := TEMP_RMP_BUFFER\<rparr>]\<rparr>);
        read_old_loop g rop ixs s1
      })"

definition merge_page :: "geo \<Rightarrow> program_pages_t \<Rightarrow> mem \<Rightarrow> mem" where
  "merge_page g e = fold (\<lambda>ih m. if pp_host_page_ptrs e ! ih = 0 then m
     else memcpy_sysbitw m (pp_temp_buffer e + ih * HOST_PAGE_SIZE g) (pp_host_page_ptrs e ! ih) (HOST_PAGE_SIZE g div 4)) [0..<HOST_PER_NAND_PAGES g]"

fun merge_loop :: "geo \<Rightarrow> op_ptr \<Rightarrow> nat list \<Rightarrow> 'a uneq_st_scheme \<Rightarrow> 'a uneq_st_scheme option" where
  "merge_loop g pop [] s = Some s"
| "merge_loop g pop (ix # ixs) s =
     (let e = program_pages s ! ix in
      do {
        (_, s1) \<leftarrow> add_program_op_page pop (ppa_data (pp_new_ppa e)) (pp_temp_buffer e) (s\<lparr>ram := merge_page g e (ram s)\<rparr>);
        merge_loop g pop ixs s1
      })"

text \<open>From the collected host pages to the programmed flash pages, as in both functions that write.\<close>

definition program_merged :: "geo \<Rightarrow> (u32 \<times> nat) list \<Rightarrow> 'a uneq_st_scheme \<Rightarrow> 'a uneq_st_scheme option" where
  "program_merged g ps s =
     do {
       s1 \<leftarrow> gather_loop g ps s;
       (rop, s2) \<leftarrow> begin_read_op s1;
       s3 \<leftarrow> read_old_loop g rop [0..<program_pages_count s2] s2;
       s4 \<leftarrow> sync_end_read_op g rop s3;
       (pop, s5) \<leftarrow> begin_program_op s4;
       s6 \<leftarrow> merge_loop g pop [0..<program_pages_count s5] s5;
       sync_end_program_op g pop s6
     }"

definition sync_program_pages_uneq :: "geo \<Rightarrow> u32 \<Rightarrow> u32 \<Rightarrow> nat \<Rightarrow> 'a uneq_st_scheme \<Rightarrow> (u32 \<times> 'a uneq_st_scheme) option" where
  "sync_program_pages_uneq g start n_lpn addr s =
     do {
       s1 \<leftarrow> program_merged g (page_run g start addr (unat n_lpn)) (reset_program_pages s);
       Some (of_nat (program_pages_count s1), s1)
     }"

text \<open>Here the counter of pages is incremented, so the loop ends after \<open>num_program_pgs\<close> valid pages.\<close>

definition wbc_run_uneq :: "wbc_req_t \<Rightarrow> (u32 \<times> nat) list" where
  "wbc_run_uneq w = map (\<lambda>p. (wp_lpn p, wp_ssd_addr p))
     (take (unat (num_program_pgs w)) (filter (\<lambda>p. wp_valid p \<noteq> 0) (take WBC_PAGES (wb_pages w))))"

fun start_pages :: "nat \<Rightarrow> wbc_page_meta_t list \<Rightarrow> wbc_page_meta_t list" where
  "start_pages 0 ps = ps"
| "start_pages n [] = []"
| "start_pages (Suc n) (p # ps) =
     (if wp_valid p \<noteq> 0 then p\<lparr>wp_nand_io_complete := 0\<rparr> # start_pages n ps else p # start_pages (Suc n) ps)"

definition process_wbc_uneq :: "geo \<Rightarrow> 'a uneq_st_scheme \<Rightarrow> 'a uneq_st_scheme option" where
  "process_wbc_uneq g s =
     do {
       let w = wbc s;
       let s0 = (reset_program_pages s)\<lparr>wbc := w\<lparr>wb_nand_io_complete := False,
         wb_pages := start_pages (unat (num_program_pgs w)) (take WBC_PAGES (wb_pages w)) @ drop WBC_PAGES (wb_pages w)\<rparr>\<rparr>;
       s1 \<leftarrow> program_merged g (wbc_run_uneq w) s0;
       let s2 = s1\<lparr>wbc := (wbc s1)\<lparr>wb_nand_io_complete := True\<rparr>\<rparr>;
       Some (sys_push_to_nvme WBC (wb_type (wbc s2)) s2)
     }"

section \<open>Reading\<close>

definition reset_read_pages :: "'a uneq_st_scheme \<Rightarrow> 'a uneq_st_scheme" where
  "reset_read_pages s = s\<lparr>read_pages := fold (\<lambda>ix l. l[ix := (l ! ix)\<lparr>rg_nand_page := 0xFFFFFFFF, rg_read_host_pages := 0,
     rg_current_ppa := zero_ppa\<rparr>]) [0..<read_pages_count s] (read_pages s), read_pages_count := 0\<rparr>"

definition find_read_page :: "u32 \<Rightarrow> 'a uneq_st_scheme \<Rightarrow> nat option" where
  "find_read_page np s = find_info np (map rg_nand_page (take (read_pages_count s) (read_pages s)))"

definition fresh_read_page :: "geo \<Rightarrow> u32 \<Rightarrow> read_pages_t \<Rightarrow> read_pages_t" where
  "fresh_read_page g np e = e\<lparr>rg_nand_page := np, rg_host_page_ptrs := replicate (HOST_PER_NAND_PAGES g) 0,
     rg_host_page := replicate (HOST_PER_NAND_PAGES g) 0, rg_read_host_pages := 0\<rparr>"

text \<open>A new entry; the flash read is queued if the page is mapped. The result tells whether it is.\<close>

definition new_read_page :: "geo \<Rightarrow> op_ptr \<Rightarrow> u32 \<Rightarrow> 'a uneq_st_scheme \<Rightarrow> (bool \<times> 'a uneq_st_scheme) option" where
  "new_read_page g rop np s =
     (let i = read_pages_count s; e = fresh_read_page g np (read_pages s ! i) in
      if length (read_pages s) \<le> i \<or> length (temp_read_buffer s) \<le> i then None
      else do {
        unmapped \<leftarrow> IS_UNMAPPED_LPA (unat np) s;
        if unmapped then Some (False, s\<lparr>read_pages := (read_pages s)[i := e]\<rparr>)
        else do {
          p \<leftarrow> GET_MAPPED_PPA (unat np) s;
          (_, s1) \<leftarrow> add_read_op_page rop (ppa_data p) (temp_read_buffer s ! i) s;
          Some (True, s1\<lparr>read_pages := (read_pages s1)[i := e\<lparr>rg_is_unmapped := False, rg_current_ppa := p,
            rg_temp_buffer := temp_read_buffer s ! i\<rparr>], read_pages_count := i + 1\<rparr>)
        }
      })"

definition note_host_page :: "geo \<Rightarrow> nat \<Rightarrow> u32 \<Rightarrow> nat \<Rightarrow> 'a uneq_st_scheme \<Rightarrow> 'a uneq_st_scheme" where
  "note_host_page g i lpn addr s =
     (let e = read_pages s ! i; k = offset_of g lpn in
      s\<lparr>read_pages := (read_pages s)[i := e\<lparr>rg_host_page_ptrs := (rg_host_page_ptrs e)[k := addr],
        rg_host_page := (rg_host_page e)[k := lpn], rg_read_host_pages := rg_read_host_pages e + 1\<rparr>]\<rparr>)"

definition copy_page :: "geo \<Rightarrow> read_pages_t \<Rightarrow> mem \<Rightarrow> mem" where
  "copy_page g e = fold (\<lambda>ih m. if rg_host_page_ptrs e ! ih = 0 then m
     else memcpy_sysbitw m (rg_host_page_ptrs e ! ih) (rg_temp_buffer e + ih * HOST_PAGE_SIZE g) (HOST_PAGE_SIZE g div 4)) [0..<HOST_PER_NAND_PAGES g]"

definition copy_pages :: "geo \<Rightarrow> 'a uneq_st_scheme \<Rightarrow> 'a uneq_st_scheme" where
  "copy_pages g s = s\<lparr>ram := fold (\<lambda>i m. if rg_is_unmapped (read_pages s ! i) then m else copy_page g (read_pages s ! i) m)
     [0..<read_pages_count s] (ram s)\<rparr>"

text \<open>The reads of the module itself end at an unmapped page and leave the read operation open.\<close>

fun sync_read_loop :: "geo \<Rightarrow> op_ptr \<Rightarrow> (u32 \<times> nat) list \<Rightarrow> 'a uneq_st_scheme \<Rightarrow> (bool \<times> 'a uneq_st_scheme) option" where
  "sync_read_loop g rop [] s = Some (True, s)"
| "sync_read_loop g rop ((lpn, addr) # ps) s =
     (case find_read_page (nand_page_of g lpn) s of
        Some i \<Rightarrow> sync_read_loop g rop ps (note_host_page g i lpn addr s)
      | None \<Rightarrow> do {
          (mapped, s1) \<leftarrow> new_read_page g rop (nand_page_of g lpn) s;
          if mapped then sync_read_loop g rop ps (note_host_page g (read_pages_count s) lpn addr s1) else Some (False, s1)
        })"

definition sync_read_pages_uneq :: "geo \<Rightarrow> u32 \<Rightarrow> u32 \<Rightarrow> nat \<Rightarrow> 'a uneq_st_scheme \<Rightarrow> (u32 \<times> 'a uneq_st_scheme) option" where
  "sync_read_pages_uneq g start num_of_pgs addr s =
     do {
       (rop, s1) \<leftarrow> begin_read_op s;
       (all, s2) \<leftarrow> sync_read_loop g rop (page_run g start addr (unat num_of_pgs)) (reset_read_pages s1);
       if \<not> all then Some (0, s2)
       else do {
         s3 \<leftarrow> sync_end_read_op g rop s2;
         Some (of_nat (read_pages_count s3), copy_pages g s3)
       }
     }"

text \<open>A host read: an unmapped page gets the address of the zero page in the scatter list.\<close>

definition set_meta_done :: "nat \<Rightarrow> bool \<Rightarrow> req_t \<Rightarrow> req_t" where
  "set_meta_done i b r = r\<lparr>read_page_meta := (read_page_meta r)[i := (read_page_meta r ! i)\<lparr>rp_nand_io_complete := b\<rparr>]\<rparr>"

definition point_to_zero :: "nat \<Rightarrow> nat \<Rightarrow> req_t \<Rightarrow> req_t" where
  "point_to_zero z i r = r\<lparr>dma := (dma r)\<lparr>dma_list := (dma_list (dma r))[i := (dma_list (dma r) ! i)\<lparr>ssd_addr := z\<rparr>]\<rparr>\<rparr>"

definition io_read_page :: "geo \<Rightarrow> obj_ptr \<Rightarrow> op_ptr \<Rightarrow> nat \<Rightarrow> u32 \<Rightarrow> 'a uneq_st_scheme \<Rightarrow> 'a uneq_st_scheme option" where
  "io_read_page g p rop lpn_index lpn s =
     do {
       s0 \<leftarrow> note_lpn p lpn_index lpn s;
       (i, s1) \<leftarrow> (case find_read_page (nand_page_of g lpn) s0 of
          Some i \<Rightarrow> Some (i, s0)
        | None \<Rightarrow> do {
            (mapped, s') \<leftarrow> new_read_page g rop (nand_page_of g lpn) s0;
            let i = read_pages_count s0;
            if mapped then Some (i, s')
            else Some (i, s'\<lparr>read_pages := (read_pages s')[i := (read_pages s' ! i)\<lparr>rg_is_unmapped := True\<rparr>], read_pages_count := i + 1\<rparr>)
          });
       if rg_is_unmapped (read_pages s1 ! i) then
         Some (upd_req p (\<lambda>r. set_meta_done lpn_index True (point_to_zero (ZERO_BUFFER s1) lpn_index r)) s1)
       else do {
         req \<leftarrow> get_req p s1;
         Some (note_host_page g i lpn (ssd_addr (dma_list (dma req) ! lpn_index)) (upd_req p (set_meta_done lpn_index False) s1))
       }
     }"

fun io_read_loop :: "geo \<Rightarrow> obj_ptr \<Rightarrow> op_ptr \<Rightarrow> nat \<Rightarrow> u32 \<Rightarrow> nat \<Rightarrow> 'a uneq_st_scheme \<Rightarrow> 'a uneq_st_scheme option" where
  "io_read_loop g p rop lpn_index lpn 0 s = Some s"
| "io_read_loop g p rop lpn_index lpn (Suc n) s = io_read_page g p rop lpn_index lpn s \<bind> io_read_loop g p rop (lpn_index + 1) (lpn + 1) n"

definition ftl_process_read_io_uneq :: "geo \<Rightarrow> obj_ptr \<Rightarrow> 'a uneq_st_scheme \<Rightarrow> 'a uneq_st_scheme option" where
  "ftl_process_read_io_uneq g p s =
     do {
       req \<leftarrow> get_req p s;
       (rop, s1) \<leftarrow> begin_read_op s;
       s2 \<leftarrow> io_read_loop g p rop 0 (ucast (io_slba (scmd req))) (unat (io_nlbs (scmd req)) + 1) (reset_read_pages s1);
       s3 \<leftarrow> sync_end_read_op g rop s2;
       Some (sys_push_to_nvme p (rq_type req) (upd_req p (\<lambda>r. r\<lparr>nand_io_complete := True\<rparr>) (copy_pages g s3)))
     }"

section \<open>Requests of the module\<close>

text \<open>The dispatch of \<^verbatim>\<open>ftl.c\<close> with the functions of this variant.\<close>

definition process_isp_read_pages_uneq :: "geo \<Rightarrow> obj_ptr \<Rightarrow> 'a uneq_st_scheme \<Rightarrow> 'a uneq_st_scheme option" where
  "process_isp_read_pages_uneq g p s =
     do {
       req \<leftarrow> get_req p s;
       if cbk_ftn_id req = SYNC_CALL then
         do { (r, s1) \<leftarrow> sync_read_pages_uneq g (start_lpn req) (num_of_lpn req) (nand_ssd_addr req) s;
              Some (upd_req p (\<lambda>q. q\<lparr>isp_status := r, req_stage := ISP_NAND_OP_CMPLT\<rparr>) s1) }
       else Some s
     }"

definition process_isp_program_pages_uneq :: "geo \<Rightarrow> obj_ptr \<Rightarrow> 'a uneq_st_scheme \<Rightarrow> 'a uneq_st_scheme option" where
  "process_isp_program_pages_uneq g p s =
     do {
       req \<leftarrow> get_req p s;
       if cbk_ftn_id req = SYNC_CALL then
         do { (r, s1) \<leftarrow> sync_program_pages_uneq g (start_lpn req) (num_of_lpn req) (nand_ssd_addr req) s;
              Some (upd_req p (\<lambda>q. q\<lparr>isp_status := r, req_stage := ISP_NAND_OP_CMPLT\<rparr>) s1) }
       else Some s
     }"

definition process_req_cbk_uneq :: "geo \<Rightarrow> obj_ptr \<Rightarrow> u32 \<Rightarrow> 'a uneq_st_scheme \<Rightarrow> 'a uneq_st_scheme option" where
  "process_req_cbk_uneq g req req_type s =
     (if req_type = READ_IO_REQUEST then ftl_process_read_io_uneq g req s
      else if req_type = WBC_FLUSH_REQUEST then (if req = WBC then process_wbc_uneq g s else None)
      else if req_type = ISP_READ_PAGES_REQUEST then process_isp_read_pages_uneq g req s
      else if req_type = ISP_PROGRAM_PAGES_REQUEST then process_isp_program_pages_uneq g req s
      else Some s)"

lemma process_req_uneq:
  "process_req_cbk_uneq g p READ_IO_REQUEST s = ftl_process_read_io_uneq g p s"
  "process_req_cbk_uneq g WBC WBC_FLUSH_REQUEST s = process_wbc_uneq g s"
  by (simp_all add: process_req_cbk_uneq_def READ_IO_REQUEST_def WBC_FLUSH_REQUEST_def)

end
