(* ===== verification/Ftl_Merge.thy ===== *)
theory Ftl_Merge
  imports Ftl_Unequal
begin

text \<open>
  Correctness of reading and writing host pages smaller than a flash page: the collected tables, the
  merge of old and new content in the temporary buffers, and the device as the host sees it.
\<close>

section \<open>Geometry\<close>

definition uneq_geo :: "geo \<Rightarrow> bool" where
  "uneq_geo g \<longleftrightarrow> geo_ok g \<and> HOST_DS g < NAND_DS g \<and> 2 \<le> HOST_DS g \<and> NAND_DS g < 32 \<and>
     TOTAL_NUM_OF_HOST_PAGES g < 2 ^ 32"

lemma uneq_sizes:
  assumes "uneq_geo g"
  shows "NAND_PAGE_SIZE g = HOST_PER_NAND_PAGES g * HOST_PAGE_SIZE g" "0 < HOST_PER_NAND_PAGES g" "0 < HOST_PAGE_SIZE g"
    "4 * (HOST_PAGE_SIZE g div 4) = HOST_PAGE_SIZE g" "HOST_PER_NAND_PAGES g < 2 ^ 32" "2 ^ HOST_DS g = HOST_PAGE_SIZE g"
proof -
  have d: "NAND_DS g = HOST_2_NAND_DS g + HOST_DS g" "HOST_2_NAND_DS g < 32" using assms by (auto simp: uneq_geo_def HOST_2_NAND_DS_def)
  show "NAND_PAGE_SIZE g = HOST_PER_NAND_PAGES g * HOST_PAGE_SIZE g"
    using d(1) by (simp add: NAND_PAGE_SIZE_def HOST_PAGE_SIZE_def HOST_PER_NAND_PAGES_def NAND_DS_def HOST_DS_def power_add)
  show "0 < HOST_PER_NAND_PAGES g" "0 < HOST_PAGE_SIZE g" "2 ^ HOST_DS g = HOST_PAGE_SIZE g"
    by (simp_all add: HOST_PER_NAND_PAGES_def HOST_PAGE_SIZE_def HOST_DS_def)
  have "(4 :: nat) dvd 2 ^ HOST_DS g" using assms le_imp_power_dvd [of 2 "HOST_DS g" "2 :: nat"] by (simp add: uneq_geo_def)
  then show "4 * (HOST_PAGE_SIZE g div 4) = HOST_PAGE_SIZE g" by (simp add: HOST_PAGE_SIZE_def HOST_DS_def)
  show "HOST_PER_NAND_PAGES g < 2 ^ 32" using d(2) unfolding HOST_PER_NAND_PAGES_def by (intro power_strict_increasing) simp_all
qed

lemma nand_page_nat:
  assumes "uneq_geo g"
  shows "unat (nand_page_of g l) = unat l div HOST_PER_NAND_PAGES g" "offset_of g l = unat l mod HOST_PER_NAND_PAGES g"
proof -
  show "unat (nand_page_of g l) = unat l div HOST_PER_NAND_PAGES g"
    by (simp add: nand_page_of_def HOST_PER_NAND_PAGES_def unat_drop_bit_eq flip: drop_bit_eq_div)
  have "unat (of_nat (HOST_PER_NAND_PAGES g) :: u32) = HOST_PER_NAND_PAGES g"
    using uneq_sizes(5) [OF assms] by (simp add: unat_of_nat)
  then show "offset_of g l = unat l mod HOST_PER_NAND_PAGES g" by (simp add: offset_of_def unat_mod)
qed

section \<open>The table of collected pages\<close>

lemma find_info_fold:
  "n \<le> length nps \<Longrightarrow> (case fold (\<lambda>ix r. if np = nps ! ix then Some ix else r) [0..<n] None of
     None \<Rightarrow> np \<notin> set (take n nps) | Some i \<Rightarrow> i < n \<and> nps ! i = np)"
proof (induction n)
  case (Suc n)
  then show ?case by (auto simp: take_Suc_conv_app_nth split: option.splits)
qed simp

lemma find_info_cases:
  obtains "find_info np nps = None" "np \<notin> set nps" | i where "find_info np nps = Some i" "i < length nps" "nps ! i = np"
  using find_info_fold [of "length nps" nps np] unfolding find_info_def [symmetric] by (auto split: option.splits)

text \<open>The flash pages of a run, in the order of their first host page.\<close>

definition flash_pages :: "geo \<Rightarrow> (u32 \<times> nat) list \<Rightarrow> u32 list" where
  "flash_pages g ps = fold (\<lambda>x acc. if nand_page_of g (fst x) \<in> set acc then acc else acc @ [nand_page_of g (fst x)]) ps []"

lemma flash_pages_snoc: "flash_pages g (ps @ [x]) =
    (if nand_page_of g (fst x) \<in> set (flash_pages g ps) then flash_pages g ps else flash_pages g ps @ [nand_page_of g (fst x)])"
  by (simp add: flash_pages_def)

lemma flash_pages_Nil [simp]: "flash_pages g [] = []"
  by (simp add: flash_pages_def)

lemma flash_pages_set: "set (flash_pages g ps) = nand_page_of g ` fst ` set ps"
  by (induction ps rule: rev_induct) (auto simp: flash_pages_snoc)

lemma flash_pages_distinct: "distinct (flash_pages g ps)"
  by (induction ps rule: rev_induct) (auto simp: flash_pages_snoc)

lemma flash_pages_mono: "length (flash_pages g ps) \<le> length (flash_pages g (ps @ qs))"
proof (induction qs rule: rev_induct)
  case (snoc x qs)
  then show ?case unfolding append_assoc [symmetric] flash_pages_snoc by (auto split: if_splits)
qed simp

text \<open>The entry of a flash page after the host pages \<open>ps\<close> have been collected.\<close>

definition last_addr :: "(u32 \<times> nat) list \<Rightarrow> nat \<Rightarrow> nat option" where
  "last_addr ps l = map_of (rev (map (\<lambda>x. (unat (fst x), snd x)) ps)) l"

lemma last_addr_snoc: "last_addr (ps @ [x]) = (last_addr ps)(unat (fst x) \<mapsto> snd x)"
  by (rule ext) (simp add: last_addr_def)

lemma last_addr_Nil [simp]: "last_addr [] = Map.empty"
  by (rule ext) (simp add: last_addr_def)

definition ptr_at :: "geo \<Rightarrow> (u32 \<times> nat) list \<Rightarrow> u32 \<Rightarrow> nat \<Rightarrow> nat" where
  "ptr_at g ps np j = (case last_addr ps (unat np * HOST_PER_NAND_PAGES g + j) of None \<Rightarrow> 0 | Some a \<Rightarrow> a)"

definition hits :: "geo \<Rightarrow> (u32 \<times> nat) list \<Rightarrow> u32 \<Rightarrow> nat" where
  "hits g ps np = length (filter (\<lambda>x. nand_page_of g (fst x) = np) ps)"

definition entry_ok :: "geo \<Rightarrow> nat \<Rightarrow> (nat \<Rightarrow> ppa_t option) \<Rightarrow> nat list \<Rightarrow> (u32 \<times> nat) list \<Rightarrow> nat \<Rightarrow> u32 \<Rightarrow> program_pages_t \<Rightarrow> bool" where
  "entry_ok g k tbl rmp ps i np e \<longleftrightarrow> pp_nand_page e = np \<and> pp_is_unmapped e = (tbl (unat np) = None) \<and>
     (\<forall>p. tbl (unat np) = Some p \<longrightarrow> pp_current_ppa e = p) \<and> pp_new_ppa e = log_ppa g (Suc k + i) \<and>
     pp_temp_buffer e = rmp ! i \<and> pp_host_page_ptrs e = map (ptr_at g ps np) [0..<HOST_PER_NAND_PAGES g] \<and>
     pp_mod_host_pages e = of_nat (hits g ps np)"

definition entries_ok :: "geo \<Rightarrow> nat \<Rightarrow> (nat \<Rightarrow> ppa_t option) \<Rightarrow> nat list \<Rightarrow> (u32 \<times> nat) list \<Rightarrow> program_pages_t list \<Rightarrow> bool" where
  "entries_ok g k tbl rmp ps es \<longleftrightarrow> length es = length (flash_pages g ps) \<and>
     (\<forall>i < length es. entry_ok g k tbl rmp ps i (flash_pages g ps ! i) (es ! i))"

lemma host_page_split:
  assumes "uneq_geo g" "j < HOST_PER_NAND_PAGES g"
  shows "unat np * HOST_PER_NAND_PAGES g + j = unat l \<longleftrightarrow> np = nand_page_of g l \<and> j = offset_of g l"
proof
  assume a: "unat np * HOST_PER_NAND_PAGES g + j = unat l"
  have "unat l div HOST_PER_NAND_PAGES g = unat np" "unat l mod HOST_PER_NAND_PAGES g = j"
    using a [symmetric] assms(2) by simp_all
  then show "np = nand_page_of g l \<and> j = offset_of g l" by (simp add: nand_page_nat [OF assms(1)] word_unat_eq_iff)
next
  assume "np = nand_page_of g l \<and> j = offset_of g l"
  then show "unat np * HOST_PER_NAND_PAGES g + j = unat l" by (simp add: nand_page_nat [OF assms(1)])
qed

text \<open>One more host page changes only the entry of its flash page.\<close>

lemma entry_other:
  assumes "uneq_geo g" "np \<noteq> nand_page_of g l" "entry_ok g k tbl rmp ps i np e"
  shows "entry_ok g k tbl rmp (ps @ [(l, a)]) i np e"
proof -
  have "ptr_at g (ps @ [(l, a)]) np j = ptr_at g ps np j" if "j < HOST_PER_NAND_PAGES g" for j
    using host_page_split [OF assms(1) that, of np l] assms(2) by (simp add: ptr_at_def last_addr_snoc)
  then have "map (ptr_at g (ps @ [(l, a)]) np) [0..<HOST_PER_NAND_PAGES g] = map (ptr_at g ps np) [0..<HOST_PER_NAND_PAGES g]" by simp
  then show ?thesis using assms(2,3) by (simp add: entry_ok_def hits_def)
qed

definition add_host_page :: "geo \<Rightarrow> u32 \<Rightarrow> nat \<Rightarrow> program_pages_t \<Rightarrow> program_pages_t" where
  "add_host_page g l a e = e\<lparr>pp_host_page := (pp_host_page e)[offset_of g l := l],
     pp_host_page_ptrs := (pp_host_page_ptrs e)[offset_of g l := a], pp_mod_host_pages := pp_mod_host_pages e + 1\<rparr>"

lemma entry_same:
  assumes "uneq_geo g" "np = nand_page_of g l" "entry_ok g k tbl rmp ps i np e"
  shows "entry_ok g k tbl rmp (ps @ [(l, a)]) i np (add_host_page g l a e)"
proof -
  have "ptr_at g (ps @ [(l, a)]) np j = (if j = offset_of g l then a else ptr_at g ps np j)" if "j < HOST_PER_NAND_PAGES g" for j
    using host_page_split [OF assms(1) that, of np l] assms(2) by (simp add: ptr_at_def last_addr_snoc)
  then have "map (ptr_at g (ps @ [(l, a)]) np) [0..<HOST_PER_NAND_PAGES g] = (map (ptr_at g ps np) [0..<HOST_PER_NAND_PAGES g])[offset_of g l := a]"
    by (intro nth_equalityI) (auto simp: nth_list_update)
  then show ?thesis using assms(2,3) by (simp add: entry_ok_def add_host_page_def hits_def)
qed

lemma entries_nand: "entries_ok g k tbl rmp ps es \<Longrightarrow> map pp_nand_page es = flash_pages g ps"
  by (rule nth_equalityI) (simp_all add: entries_ok_def entry_ok_def)

lemma run_pages_snoc: "run_pages g k (Suc n) = run_pages g k n @ [log_ppa g (Suc k + n)]"
  by (simp add: run_pages_def)

section \<open>Collecting\<close>

definition gframe :: "'a uneq_st_scheme \<Rightarrow> 'a uneq_st_scheme \<Rightarrow> bool" where
  "gframe s s' \<longleftrightarrow> (\<exists>c l lt pt bt lp pg n. s' = s\<lparr>ftl_config := c, last_searched_channel := l, lpa_table := lt, ppa_table := pt,
     blk_table := bt, last_page_per_plane := lp, program_pages := pg, program_pages_count := n\<rparr>)"

lemma gframe_refl: "gframe s s"
  unfolding gframe_def
  by (rule exI [of _ "ftl_config s"], rule exI [of _ "last_searched_channel s"], rule exI [of _ "lpa_table s"], rule exI [of _ "ppa_table s"],
      rule exI [of _ "blk_table s"], rule exI [of _ "last_page_per_plane s"], rule exI [of _ "program_pages s"],
      rule exI [of _ "program_pages_count s"]) simp

lemma gframe_trans: "gframe s s1 \<Longrightarrow> gframe s1 s2 \<Longrightarrow> gframe s s2"
  unfolding gframe_def by (elim exE) (simp, blast)

lemma gframe_pages: "gframe s (s\<lparr>program_pages := pg\<rparr>)"
  unfolding gframe_def
  by (rule exI [of _ "ftl_config s"], rule exI [of _ "last_searched_channel s"], rule exI [of _ "lpa_table s"], rule exI [of _ "ppa_table s"],
      rule exI [of _ "blk_table s"], rule exI [of _ "last_page_per_plane s"], rule exI [of _ pg],
      rule exI [of _ "program_pages_count s"]) simp

lemma gframe_map: "map_frame s s' \<Longrightarrow> gframe s (s'\<lparr>program_pages := pg, program_pages_count := n\<rparr>)"
  unfolding gframe_def map_frame_def
  by (erule ssubst, rule exI [of _ "ftl_config s'"], rule exI [of _ "last_searched_channel s'"], rule exI [of _ "lpa_table s'"],
      rule exI [of _ "ppa_table s'"], rule exI [of _ "blk_table s'"], rule exI [of _ "last_page_per_plane s'"], rule exI [of _ pg],
      rule exI [of _ n]) simp

definition gathered :: "geo \<Rightarrow> nat \<Rightarrow> (nat \<Rightarrow> ppa_t option) \<Rightarrow> (u32 \<times> nat) list \<Rightarrow> 'a uneq_st_scheme \<Rightarrow> bool" where
  "gathered g k tbl ps s \<longleftrightarrow> (let n = length (flash_pages g ps) in
     ftl_inv g (k + n) s \<and> ftl_abs s = tbl ++ map_of (rev (zip (map unat (flash_pages g ps)) (run_pages g k n))) \<and>
     entries_ok g k tbl (rmp_buffer s) ps (take n (program_pages s)) \<and> program_pages_count s = n \<and>
     length (program_pages s) = MDTS_PAGES \<and> length (rmp_buffer s) = MDTS_PAGES)"

lemma entries_upd:
  assumes g: "uneq_geo g" and e: "entries_ok g k tbl rmp ps es" and i: "i < length es" "es ! i = e0" "flash_pages g ps ! i = nand_page_of g l"
  shows "entries_ok g k tbl rmp (ps @ [(l, a)]) (es[i := add_host_page g l a e0])"
proof -
  have len: "length es = length (flash_pages g ps)" using e by (simp add: entries_ok_def)
  have fp: "flash_pages g (ps @ [(l, a)]) = flash_pages g ps" using i len by (metis flash_pages_snoc fst_conv nth_mem)
  have "entry_ok g k tbl rmp (ps @ [(l, a)]) j (flash_pages g ps ! j) (es[i := add_host_page g l a e0] ! j)" if j: "j < length es" for j
  proof (cases "j = i")
    case True
    have "entry_ok g k tbl rmp ps i (flash_pages g ps ! i) e0" using e i by (auto simp: entries_ok_def)
    from entry_same [OF g i(3) this] show ?thesis using True i by simp
  next
    case False
    then have "flash_pages g ps ! j \<noteq> nand_page_of g l"
      using i j len flash_pages_distinct [of g ps] by (metis nth_eq_iff_index_eq)
    from entry_other [OF g this] show ?thesis using e j False by (simp add: entries_ok_def)
  qed
  then show ?thesis using len by (simp add: entries_ok_def fp)
qed

lemma entries_new:
  assumes g: "uneq_geo g" and e: "entries_ok g k tbl rmp ps es" and new: "nand_page_of g l \<notin> set (flash_pages g ps)"
    and e0: "entry_ok g k tbl rmp ps (length es) (nand_page_of g l) e0"
  shows "entries_ok g k tbl rmp (ps @ [(l, a)]) (es @ [add_host_page g l a e0])"
proof -
  have len: "length es = length (flash_pages g ps)" using e by (simp add: entries_ok_def)
  have fp: "flash_pages g (ps @ [(l, a)]) = flash_pages g ps @ [nand_page_of g l]" using new by (simp add: flash_pages_snoc)
  have "entry_ok g k tbl rmp (ps @ [(l, a)]) j (flash_pages g ps ! j) (es ! j)" if j: "j < length es" for j
  proof -
    have "flash_pages g ps ! j \<noteq> nand_page_of g l" using j new len by (metis nth_mem)
    from entry_other [OF g this] show ?thesis using e j by (simp add: entries_ok_def)
  qed
  moreover have "entry_ok g k tbl rmp (ps @ [(l, a)]) (length es) (nand_page_of g l) (add_host_page g l a e0)"
    by (rule entry_same [OF g refl e0])
  ultimately show ?thesis using len by (auto simp: entries_ok_def fp nth_append less_Suc_eq)
qed

lemma no_hits:
  assumes "uneq_geo g" "np \<notin> set (flash_pages g ps)"
  shows "hits g ps np = 0" "j < HOST_PER_NAND_PAGES g \<Longrightarrow> ptr_at g ps np j = 0"
proof -
  have n: "nand_page_of g (fst x) \<noteq> np" if "x \<in> set ps" for x using assms(2) that by (auto simp: flash_pages_set)
  then show "hits g ps np = 0" by (simp add: hits_def filter_empty_conv)
  assume j: "j < HOST_PER_NAND_PAGES g"
  have "last_addr ps (unat np * HOST_PER_NAND_PAGES g + j) = None"
  proof -
    have "unat np * HOST_PER_NAND_PAGES g + j \<noteq> unat (fst x)" if "x \<in> set ps" for x
      using host_page_split [OF assms(1) j] n [OF that] by metis
    then show ?thesis by (force simp: last_addr_def map_of_eq_None_iff)
  qed
  then show "ptr_at g ps np j = 0" by (simp add: ptr_at_def)
qed

lemma gather_find:
  assumes "gathered g k tbl ps s"
  shows "map pp_nand_page (take (program_pages_count s) (program_pages s)) = flash_pages g ps"
  using assms entries_nand by (fastforce simp: gathered_def Let_def)

lemma gather_known:
  assumes g: "uneq_geo g" and G: "gathered g k tbl ps s" and old: "nand_page_of g l \<in> set (flash_pages g ps)"
  shows "\<exists>s'. gather_page g l a s = Some s' \<and> gathered g k tbl (ps @ [(l, a)]) s' \<and> gframe s s'"
proof -
  let ?n = "length (flash_pages g ps)"
  from old obtain i where i: "find_info (nand_page_of g l) (flash_pages g ps) = Some i" "i < ?n" "flash_pages g ps ! i = nand_page_of g l"
    by (meson find_info_cases)
  let ?s' = "s\<lparr>program_pages := (program_pages s)[i := add_host_page g l a (program_pages s ! i)]\<rparr>"
  have len: "?n \<le> length (program_pages s)" using G by (auto simp: gathered_def entries_ok_def Let_def)
  have "gather_page g l a s = Some ?s'"
    by (simp add: gather_page_def gather_find [OF G] i(1) add_host_page_def Let_def)
  moreover have "entries_ok g k tbl (rmp_buffer s) (ps @ [(l, a)]) ((take ?n (program_pages s))[i := add_host_page g l a (program_pages s ! i)])"
    by (rule entries_upd [OF g]) (use G i len in \<open>simp_all add: gathered_def Let_def\<close>)
  moreover have "flash_pages g (ps @ [(l, a)]) = flash_pages g ps" using old by (simp add: flash_pages_snoc)
  moreover have "ftl_inv g (k + ?n) ?s' = ftl_inv g (k + ?n) s" by (rule ftl_inv_cong) simp_all
  moreover have "ftl_abs ?s' = ftl_abs s" by (rule ftl_abs_cong) simp
  ultimately show ?thesis using G i(2) gframe_pages by (intro exI [of _ ?s']) (simp add: gathered_def Let_def take_update_swap)
qed

lemma gather_fresh:
  assumes g: "uneq_geo g" and G: "gathered g k tbl ps s" and new: "nand_page_of g l \<notin> set (flash_pages g ps)"
    and b: "k + Suc (length (flash_pages g ps)) < TOTAL_NUM_OF_PAGES g" "length (flash_pages g ps) < MDTS_PAGES"
      "unat (nand_page_of g l) < TOTAL_NUM_OF_PAGES g"
  shows "\<exists>s'. gather_page g l a s = Some s' \<and> gathered g k tbl (ps @ [(l, a)]) s' \<and> gframe s s'"
proof -
  let ?n = "length (flash_pages g ps)" and ?np = "nand_page_of g l"
  have ok: "geo_ok g" using g by (simp add: uneq_geo_def)
  have st: "ftl_inv g (k + ?n) s" "ftl_abs s = tbl ++ map_of (rev (zip (map unat (flash_pages g ps)) (run_pages g k ?n)))"
    "entries_ok g k tbl (rmp_buffer s) ps (take ?n (program_pages s))" "program_pages_count s = ?n"
    "length (program_pages s) = MDTS_PAGES" "length (rmp_buffer s) = MDTS_PAGES" using G by (simp_all add: gathered_def Let_def)
  have lt: "length (lpa_table s) = TOTAL_NUM_OF_PAGES g" using st(1) by (simp add: ftl_inv_def map_ok_def)
  have none: "find_info ?np (flash_pages g ps) = None" using new by (metis find_info_cases nth_mem)
  have "map_of (rev (zip (map unat (flash_pages g ps)) (run_pages g k ?n))) (unat ?np) = None"
    using new by (auto simp: map_of_eq_None_iff in_set_zip in_set_conv_nth word_unat_eq_iff)
  then have tb: "ftl_abs s (unat ?np) = tbl (unat ?np)" by (simp add: st(2) map_add_def)
  from new_mapping_step [OF ok st(1) _ b(3)] b(1) obtain s1 where
    s1: "make_new_mapping g (unat ?np) s = Some (log_ppa g (Suc (k + ?n)), s1)" "ftl_inv g (Suc (k + ?n)) s1"
      "ftl_abs s1 = (ftl_abs s)(unat ?np \<mapsto> log_ppa g (Suc (k + ?n)))" "map_frame s s1" by auto
  have fr: "program_pages s1 = program_pages s" "rmp_buffer s1 = rmp_buffer s"
    using arg_cong [OF s1(4) [unfolded map_frame_def], of program_pages] arg_cong [OF s1(4) [unfolded map_frame_def], of rmp_buffer]
    by simp_all
  let ?e = "program_pages s ! ?n" and ?un = "tbl (unat ?np) = None"
  let ?e0 = "?e\<lparr>pp_is_unmapped := ?un, pp_current_ppa := (if ?un then pp_current_ppa ?e else the (tbl (unat ?np))),
    pp_host_page_ptrs := replicate (HOST_PER_NAND_PAGES g) 0, pp_nand_page := ?np, pp_mod_host_pages := 0,
    pp_new_ppa := log_ppa g (Suc (k + ?n)), pp_temp_buffer := rmp_buffer s ! ?n\<rparr>"
  let ?s2 = "s1\<lparr>program_pages := (program_pages s)[?n := ?e0], program_pages_count := ?n + 1\<rparr>"
  have np: "new_program_page g ?np s = Some (?n, ?s2)"
  proof (cases ?un)
    case True
    then have "IS_UNMAPPED_LPA (unat ?np) s = Some True" using tb lt b(3) by (simp add: IS_UNMAPPED_LPA_def ftl_abs_def split: if_splits)
    then show ?thesis using b(2) st(4-6) fr s1(1) True by (simp add: new_program_page_def Let_def)
  next
    case False
    then obtain q where q: "tbl (unat ?np) = Some q" by blast
    then have "IS_UNMAPPED_LPA (unat ?np) s = Some False" "GET_MAPPED_PPA (unat ?np) s = Some q"
      using tb lt b(3) by (auto simp: IS_UNMAPPED_LPA_def GET_MAPPED_PPA_def ftl_abs_def split: if_splits)
    then show ?thesis using b(2) st(4-6) fr s1(1) q by (simp add: new_program_page_def Let_def)
  qed
  let ?s' = "s1\<lparr>program_pages := (program_pages s)[?n := add_host_page g l a ?e0], program_pages_count := ?n + 1\<rparr>"
  have "gather_page g l a s = Some ?s'"
    using st(4,5) b(2) by (simp add: gather_page_def gather_find [OF G, unfolded st(4)] none np add_host_page_def Let_def)
  moreover have "entry_ok g k tbl (rmp_buffer s) ps ?n ?np ?e0"
  proof -
    have "replicate (HOST_PER_NAND_PAGES g) 0 = map (ptr_at g ps ?np) [0..<HOST_PER_NAND_PAGES g]"
      by (rule nth_equalityI) (simp_all add: no_hits [OF g new])
    then show ?thesis by (simp add: entry_ok_def no_hits [OF g new])
  qed
  then have "entries_ok g k tbl (rmp_buffer s) (ps @ [(l, a)]) (take ?n (program_pages s) @ [add_host_page g l a ?e0])"
    using entries_new [OF g st(3) new, of ?e0 a] st(5) b(2) by simp
  moreover have "take (Suc ?n) ((program_pages s)[?n := add_host_page g l a ?e0]) = take ?n (program_pages s) @ [add_host_page g l a ?e0]"
    using st(5) b(2) by (simp add: take_Suc_conv_app_nth)
  moreover have fp: "flash_pages g (ps @ [(l, a)]) = flash_pages g ps @ [?np]" using new by (simp add: flash_pages_snoc)
  moreover have "ftl_inv g (k + Suc ?n) ?s'" using s1(2) ftl_inv_cong [of ?s' s1] by simp
  moreover have "ftl_abs ?s' = tbl ++ map_of (rev (zip (map unat (flash_pages g ps @ [?np])) (run_pages g k (Suc ?n))))"
  proof -
    have "ftl_abs ?s' = ftl_abs s1" by (rule ftl_abs_cong) simp
    moreover have "zip (map unat (flash_pages g ps @ [?np])) (run_pages g k (Suc ?n)) =
      zip (map unat (flash_pages g ps)) (run_pages g k ?n) @ [(unat ?np, log_ppa g (Suc (k + ?n)))]"
      by (simp add: run_pages_snoc run_pages_simps(1))
    ultimately show ?thesis by (simp add: s1(3) st(2))
  qed
  ultimately show ?thesis using gframe_map [OF s1(4)] st(5,6) fr
    by (intro exI [of _ ?s']) (simp add: gathered_def Let_def)
qed

lemma gather_loop_spec:
  assumes g: "uneq_geo g" and "gathered g k tbl ps s" "k + length (flash_pages g (ps @ qs)) < TOTAL_NUM_OF_PAGES g"
    "length (flash_pages g (ps @ qs)) \<le> MDTS_PAGES" "\<forall>(l, a) \<in> set qs. unat (nand_page_of g l) < TOTAL_NUM_OF_PAGES g"
  shows "\<exists>s'. gather_loop g qs s = Some s' \<and> gathered g k tbl (ps @ qs) s' \<and> gframe s s'"
  using assms(2-)
proof (induction qs arbitrary: ps s)
  case (Cons x qs)
  obtain l a where x: "x = (l, a)" by fastforce
  have mono: "length (flash_pages g (ps @ [x])) \<le> length (flash_pages g (ps @ x # qs))"
    using flash_pages_mono [of g "ps @ [x]" qs] by simp
  have "\<exists>s1. gather_page g l a s = Some s1 \<and> gathered g k tbl (ps @ [x]) s1 \<and> gframe s s1"
  proof (cases "nand_page_of g l \<in> set (flash_pages g ps)")
    case True
    from gather_known [OF g Cons.prems(1) True] show ?thesis by (simp add: x)
  next
    case False
    then have "Suc (length (flash_pages g ps)) \<le> length (flash_pages g (ps @ x # qs))" using mono by (simp add: flash_pages_snoc x)
    with gather_fresh [OF g Cons.prems(1) False] Cons.prems show ?thesis by (simp add: x)
  qed
  then obtain s1 where s1: "gather_page g l a s = Some s1" "gathered g k tbl (ps @ [x]) s1" "gframe s s1" by blast
  from Cons.IH [OF s1(2)] Cons.prems obtain s2 where "gather_loop g qs s1 = Some s2" "gathered g k tbl (ps @ x # qs) s2" "gframe s1 s2" by auto
  with s1 gframe_trans show ?case by (auto simp: x)
qed (simp add: gframe_refl)

section \<open>Reading the old content\<close>

definition needs_read :: "geo \<Rightarrow> program_pages_t \<Rightarrow> bool" where
  "needs_read g e \<longleftrightarrow> \<not> pp_is_unmapped e \<and> pp_mod_host_pages e < of_nat (HOST_PER_NAND_PAGES g)"

definition mark_src :: "geo \<Rightarrow> program_pages_t \<Rightarrow> program_pages_t" where
  "mark_src g e = e\<lparr>pp_data_src := (if needs_read g e then TEMP_RMP_BUFFER else DIRECT_FROM_WBC)\<rparr>"

definition mark_range :: "geo \<Rightarrow> nat \<Rightarrow> nat \<Rightarrow> program_pages_t list \<Rightarrow> program_pages_t list" where
  "mark_range g i n es = map (\<lambda>j. if i \<le> j \<and> j < n then mark_src g (es ! j) else es ! j) [0..<length es]"

definition old_list :: "geo \<Rightarrow> program_pages_t list \<Rightarrow> (u64 \<times> nat) list" where
  "old_list g es = map (\<lambda>e. (ppa_data (pp_current_ppa e), pp_temp_buffer e)) (filter (needs_read g) es)"

lemma slice_Cons: "i < n \<Longrightarrow> n \<le> length xs \<Longrightarrow> drop i (take n xs) = xs ! i # drop (Suc i) (take n xs)"
  by (subst Cons_nth_drop_Suc [symmetric]) simp_all

lemma read_old_loop_spec:
  assumes "i \<le> n" "n \<le> length (program_pages s)"
    and "op_holds (rops s) c pgs" "length pgs + (n - i) \<le> 128" "ops_ok FLASH_READ_OPERATION (rops s)"
  shows "\<exists>rs. read_old_loop g (ROP c) [i..<n] s = Some (s\<lparr>rops := rs, program_pages := mark_range g i n (program_pages s)\<rparr>) \<and>
    op_holds rs c (pgs @ old_list g (drop i (take n (program_pages s)))) \<and> ops_ok FLASH_READ_OPERATION rs"
  using assms
proof (induction "n - i" arbitrary: i s pgs)
  case 0
  then have "mark_range g i n (program_pages s) = program_pages s"
    by (intro nth_equalityI) (auto simp: mark_range_def)
  with 0 show ?case by (intro exI [of _ "rops s"]) (simp add: old_list_def)
next
  case (Suc d)
  let ?e = "program_pages s ! i"
  let ?s1 = "s\<lparr>program_pages := (program_pages s)[i := mark_src g ?e]\<rparr>"
  let ?add = "old_list g [?e]"
  have up: "[i..<n] = i # [Suc i..<n]" using Suc.hyps(2) by (simp add: upt_conv_Cons)
  have sl: "drop i (take n (program_pages s)) = ?e # drop (Suc i) (take n (program_pages s))"
    using Suc by (intro slice_Cons) simp_all
  have nr: "(pp_is_unmapped ?e \<or> of_nat (HOST_PER_NAND_PAGES g) \<le> pp_mod_host_pages ?e) = (\<not> needs_read g ?e)"
    by (auto simp: needs_read_def)
  have "\<exists>rs. read_old_loop g (ROP c) (i # [Suc i..<n]) s = read_old_loop g (ROP c) [Suc i..<n] (?s1\<lparr>rops := rs\<rparr>) \<and>
      op_holds rs c (pgs @ ?add) \<and> ops_ok FLASH_READ_OPERATION rs"
  proof (cases "needs_read g ?e")
    case True
    have "op_holds (rops ?s1) c pgs" "length pgs < 128" "ops_ok FLASH_READ_OPERATION (rops ?s1)" using Suc by simp_all
    from add_read [OF this, of "ppa_data (pp_current_ppa ?e)" "pp_temp_buffer ?e"] obtain rs where
      "add_read_op_page (ROP c) (ppa_data (pp_current_ppa ?e)) (pp_temp_buffer ?e) ?s1 = Some (length pgs + 1, ?s1\<lparr>rops := rs\<rparr>)"
      "op_holds rs c (pgs @ [(ppa_data (pp_current_ppa ?e), pp_temp_buffer ?e)])" "ops_ok FLASH_READ_OPERATION rs" by blast
    with True show ?thesis by (intro exI [of _ rs]) (simp add: Let_def nr mark_src_def old_list_def)
  next
    case False
    with Suc.prems show ?thesis by (intro exI [of _ "rops s"]) (simp add: Let_def nr mark_src_def old_list_def)
  qed
  then obtain rs where rs: "read_old_loop g (ROP c) (i # [Suc i..<n]) s = read_old_loop g (ROP c) [Suc i..<n] (?s1\<lparr>rops := rs\<rparr>)"
      "op_holds rs c (pgs @ ?add)" "ops_ok FLASH_READ_OPERATION rs" by blast
  have "length ?add \<le> 1" by (simp add: old_list_def)
  then have len: "length (pgs @ ?add) + (n - Suc i) \<le> 128" using Suc.hyps(2) Suc.prems(4) unfolding length_append by linarith
  have "d = n - Suc i" "Suc i \<le> n" "n \<le> length (program_pages (?s1\<lparr>rops := rs\<rparr>))" "op_holds (rops (?s1\<lparr>rops := rs\<rparr>)) c (pgs @ ?add)"
    "length (pgs @ ?add) + (n - Suc i) \<le> 128" "ops_ok FLASH_READ_OPERATION (rops (?s1\<lparr>rops := rs\<rparr>))"
    using Suc.hyps(2) Suc.prems(2) rs len by simp_all
  from Suc.hyps(1) [OF this] obtain rs' where
    rs': "read_old_loop g (ROP c) [Suc i..<n] (?s1\<lparr>rops := rs\<rparr>) =
        Some (?s1\<lparr>rops := rs', program_pages := mark_range g (Suc i) n (program_pages ?s1)\<rparr>)"
      "op_holds rs' c ((pgs @ ?add) @ old_list g (drop (Suc i) (take n (program_pages ?s1))))" "ops_ok FLASH_READ_OPERATION rs'" by auto
  have "mark_range g (Suc i) n (program_pages ?s1) = mark_range g i n (program_pages s)"
    using Suc by (intro nth_equalityI) (auto simp: mark_range_def nth_list_update)
  moreover have "drop (Suc i) (take n (program_pages ?s1)) = drop (Suc i) (take n (program_pages s))" by (simp add: take_update_swap)
  moreover have "old_list g (?e # drop (Suc i) (take n (program_pages s))) = ?add @ old_list g (drop (Suc i) (take n (program_pages s)))"
    by (simp add: old_list_def)
  ultimately show ?case unfolding up sl rs(1) rs'(1) using rs'(2,3) by (intro exI [of _ rs']) simp
qed

lemma entry_mark: "entry_ok g k tbl rmp ps i np (mark_src g e) = entry_ok g k tbl rmp ps i np e"
  by (simp add: entry_ok_def mark_src_def)

lemma gathered_mark:
  assumes "gathered g k tbl ps s" "program_pages s' = mark_range g 0 (program_pages_count s) (program_pages s)"
    and same: "ftl_config s' = ftl_config s" "last_searched_channel s' = last_searched_channel s" "lpa_table s' = lpa_table s"
      "ppa_table s' = ppa_table s" "blk_table s' = blk_table s" "last_page_per_plane s' = last_page_per_plane s"
      "rmp_buffer s' = rmp_buffer s" "program_pages_count s' = program_pages_count s"
  shows "gathered g k tbl ps s'"
proof -
  let ?n = "length (flash_pages g ps)"
  have "take ?n (program_pages s') = map (mark_src g) (take ?n (program_pages s))"
    using assms(1,2) by (intro nth_equalityI) (auto simp: gathered_def Let_def mark_range_def entries_ok_def)
  moreover have "?n \<le> length (program_pages s)" "\<forall>i < ?n. entry_ok g k tbl (rmp_buffer s) ps i (flash_pages g ps ! i) (program_pages s ! i)"
    using assms(1) by (auto simp: gathered_def Let_def entries_ok_def min_def split: if_splits)
  ultimately have "entries_ok g k tbl (rmp_buffer s) ps (take ?n (program_pages s'))"
    by (simp add: entries_ok_def entry_mark min_absorb2)
  moreover have "length (program_pages s') = length (program_pages s)" by (simp add: assms(2) mark_range_def)
  ultimately show ?thesis using assms(1) same ftl_inv_cong [OF same(1-6), of g] ftl_abs_cong [OF same(3)]
    by (simp add: gathered_def Let_def)
qed

section \<open>Merging\<close>

text \<open>The bytes of a temporary buffer after the host pages of its entry have been copied there.\<close>

definition in_temp :: "geo \<Rightarrow> program_pages_t \<Rightarrow> nat \<Rightarrow> bool" where
  "in_temp g e x \<longleftrightarrow> pp_temp_buffer e \<le> x \<and> x < pp_temp_buffer e + NAND_PAGE_SIZE g"

definition src_of :: "geo \<Rightarrow> program_pages_t \<Rightarrow> nat \<Rightarrow> nat" where
  "src_of g e b = pp_host_page_ptrs e ! (b div HOST_PAGE_SIZE g)"

definition apart :: "geo \<Rightarrow> nat \<Rightarrow> nat \<Rightarrow> bool" where
  "apart g a t \<longleftrightarrow> a + HOST_PAGE_SIZE g \<le> t \<or> t + NAND_PAGE_SIZE g \<le> a"

lemma merge_page_apply:
  assumes g: "uneq_geo g" and a: "\<forall>j < HOST_PER_NAND_PAGES g. pp_host_page_ptrs e ! j \<noteq> 0 \<longrightarrow> apart g (pp_host_page_ptrs e ! j) (pp_temp_buffer e)"
  shows "merge_page g e m x = (if in_temp g e x \<and> src_of g e (x - pp_temp_buffer e) \<noteq> 0
     then m (src_of g e (x - pp_temp_buffer e) + (x - pp_temp_buffer e) mod HOST_PAGE_SIZE g) else m x)"
proof -
  let ?S = "HOST_PAGE_SIZE g" and ?t = "pp_temp_buffer e" and ?p = "\<lambda>j. pp_host_page_ptrs e ! j"
  let ?f = "\<lambda>ih m. if ?p ih = 0 then m else memcpy_sysbitw m (?t + ih * ?S) (?p ih) (?S div 4)"
  note sz = uneq_sizes [OF g]
  have "n \<le> HOST_PER_NAND_PAGES g \<Longrightarrow> fold ?f [0..<n] m x = (if ?t \<le> x \<and> x < ?t + n * ?S \<and> src_of g e (x - ?t) \<noteq> 0
     then m (src_of g e (x - ?t) + (x - ?t) mod ?S) else m x)" for n x
  proof (induction n arbitrary: x)
    case (Suc n)
    let ?m = "fold ?f [0..<n] m"
    have n: "n * ?S + ?S \<le> NAND_PAGE_SIZE g" using Suc.prems mult_le_mono1 [of "Suc n" "HOST_PER_NAND_PAGES g" ?S] sz(1) by simp
    show ?case
    proof (cases "?p n = 0")
      case True
      have "src_of g e (x - ?t) = 0" if "?t + n * ?S \<le> x" "x < ?t + Suc n * ?S"
      proof -
        have "(x - ?t) div ?S = n" using that by (intro div_nat_eqI) (auto simp: mult.commute)
        then show ?thesis using True by (simp add: src_of_def)
      qed
      then show ?thesis using True Suc by (cases "x < ?t + n * ?S") (auto simp: not_less)
    next
      case False
      then have ap: "apart g (?p n) ?t" using a Suc.prems by simp
      then have dj: "?t + n * ?S + 4 * (?S div 4) \<le> ?p n \<or> ?p n + 4 * (?S div 4) \<le> ?t + n * ?S"
        using n sz(4) by (auto simp: apart_def)
      have out: "?m (?p n + b) = m (?p n + b)" if "b < ?S" for b
        using Suc ap that n by (auto simp: apart_def)
      note mc = memcpy_sysbitw_apply [OF dj, of ?m x, unfolded sz(4)]
      show ?thesis
      proof (cases "?t + n * ?S \<le> x \<and> x < ?t + n * ?S + ?S")
        case True
        then have d: "(x - ?t) div ?S = n" by (intro div_nat_eqI) (auto simp: mult.commute)
        then have "(x - ?t) mod ?S = x - (?t + n * ?S)" by (metis diff_diff_left modulo_nat_def mult.commute)
        then show ?thesis using True False mc out [of "x - (?t + n * ?S)"] d by (auto simp: src_of_def)
      next
        case False
        then have "(?t \<le> x \<and> x < ?t + Suc n * ?S) = (?t \<le> x \<and> x < ?t + n * ?S)" by auto
        then show ?thesis using False \<open>?p n \<noteq> 0\<close> mc Suc by auto
      qed
    qed
  qed auto
  from this [of "HOST_PER_NAND_PAGES g"] show ?thesis by (simp add: merge_page_def in_temp_def sz(1))
qed

definition temps_apart :: "geo \<Rightarrow> nat list \<Rightarrow> bool" where
  "temps_apart g ts \<longleftrightarrow> (\<forall>i j. i < j \<and> j < length ts \<longrightarrow> ts ! i + NAND_PAGE_SIZE g \<le> ts ! j \<or> ts ! j + NAND_PAGE_SIZE g \<le> ts ! i)"

lemma temps_apart_Cons: "temps_apart g (t # ts) \<longleftrightarrow> (\<forall>u \<in> set ts. t + NAND_PAGE_SIZE g \<le> u \<or> u + NAND_PAGE_SIZE g \<le> t) \<and> temps_apart g ts"
proof (intro iffI conjI ballI)
  fix u assume a: "temps_apart g (t # ts)" "u \<in> set ts"
  then obtain j where "j < length ts" "u = ts ! j" by (auto simp: in_set_conv_nth)
  with a(1) show "t + NAND_PAGE_SIZE g \<le> u \<or> u + NAND_PAGE_SIZE g \<le> t"
    by (force simp: temps_apart_def dest: spec [of _ 0] spec [of _ "Suc j"])
next
  assume a: "temps_apart g (t # ts)"
  show "temps_apart g ts" unfolding temps_apart_def
  proof (intro allI impI)
    fix i j assume "i < j \<and> j < length ts"
    then show "ts ! i + NAND_PAGE_SIZE g \<le> ts ! j \<or> ts ! j + NAND_PAGE_SIZE g \<le> ts ! i"
      using a [unfolded temps_apart_def, rule_format, of "Suc i" "Suc j"] by simp
  qed
next
  assume a: "(\<forall>u \<in> set ts. t + NAND_PAGE_SIZE g \<le> u \<or> u + NAND_PAGE_SIZE g \<le> t) \<and> temps_apart g ts"
  show "temps_apart g (t # ts)" unfolding temps_apart_def
  proof (intro allI impI)
    fix i j assume ij: "i < j \<and> j < length (t # ts)"
    then obtain j' where j': "j = Suc j'" "j' < length ts" by (cases j) auto
    then show "(t # ts) ! i + NAND_PAGE_SIZE g \<le> (t # ts) ! j \<or> (t # ts) ! j + NAND_PAGE_SIZE g \<le> (t # ts) ! i"
      using a ij by (cases i) (auto simp: temps_apart_def)
  qed
qed

text \<open>No source of a merge lies in a temporary buffer.\<close>

definition sources_apart :: "geo \<Rightarrow> program_pages_t list \<Rightarrow> nat list \<Rightarrow> bool" where
  "sources_apart g es ts \<longleftrightarrow> (\<forall>e \<in> set es. \<forall>j < HOST_PER_NAND_PAGES g. \<forall>t \<in> set ts. pp_host_page_ptrs e ! j \<noteq> 0 \<longrightarrow> apart g (pp_host_page_ptrs e ! j) t)"

lemma page_slot:
  assumes "uneq_geo g" "b < NAND_PAGE_SIZE g"
  shows "b div HOST_PAGE_SIZE g < HOST_PER_NAND_PAGES g" "b mod HOST_PAGE_SIZE g < HOST_PAGE_SIZE g"
  using assms uneq_sizes [OF assms(1)] by (simp_all add: less_mult_imp_div_less)

lemma merges_outside:
  assumes "uneq_geo g" "sources_apart g es (map pp_temp_buffer es)" "\<forall>e \<in> set es. \<not> in_temp g e x"
  shows "fold (merge_page g) es m x = m x"
  using assms(2,3)
proof (induction es arbitrary: m)
  case (Cons e es)
  then have "merge_page g e m x = m x" using merge_page_apply [OF assms(1), of e m x] by (auto simp: sources_apart_def)
  moreover have "sources_apart g es (map pp_temp_buffer es)" using Cons.prems(1) by (auto simp: sources_apart_def)
  ultimately show ?case using Cons by simp
qed simp

lemma merges_inside:
  assumes g: "uneq_geo g" and "sources_apart g es (map pp_temp_buffer es)" "temps_apart g (map pp_temp_buffer es)"
    "i < length es" "b < NAND_PAGE_SIZE g"
  shows "fold (merge_page g) es m (pp_temp_buffer (es ! i) + b) =
    (if src_of g (es ! i) b \<noteq> 0 then m (src_of g (es ! i) b + b mod HOST_PAGE_SIZE g) else m (pp_temp_buffer (es ! i) + b))"
  using assms(2-)
proof (induction es arbitrary: m i)
  case (Cons e es)
  have sa: "sources_apart g es (map pp_temp_buffer es)" and ta: "temps_apart g (map pp_temp_buffer es)"
    using Cons.prems(1,2) by (auto simp: sources_apart_def temps_apart_Cons)
  have me: "merge_page g e m x = (if in_temp g e x \<and> src_of g e (x - pp_temp_buffer e) \<noteq> 0
     then m (src_of g e (x - pp_temp_buffer e) + (x - pp_temp_buffer e) mod HOST_PAGE_SIZE g) else m x)" for x
    using Cons.prems(1) by (intro merge_page_apply [OF g]) (auto simp: sources_apart_def)
  show ?case
  proof (cases i)
    case 0
    have "\<not> in_temp g e' (pp_temp_buffer e + b)" if "e' \<in> set es" for e'
      using that Cons.prems(2,4) by (auto simp: temps_apart_Cons in_temp_def)
    then have "fold (merge_page g) es (merge_page g e m) (pp_temp_buffer e + b) = merge_page g e m (pp_temp_buffer e + b)"
      by (intro merges_outside [OF g sa]) simp
    then show ?thesis using 0 Cons.prems(4) by (simp add: me in_temp_def)
  next
    case (Suc i')
    then have i': "i' < length es" "(e # es) ! i = es ! i'" using Cons.prems(3) by simp_all
    have o1: "\<not> in_temp g e (pp_temp_buffer (es ! i') + b)"
      using nth_mem [OF i'(1)] Cons.prems(2,4) by (fastforce simp: temps_apart_Cons in_temp_def)
    have o2: "\<not> in_temp g e (src_of g (es ! i') b + b mod HOST_PAGE_SIZE g)" if nz: "src_of g (es ! i') b \<noteq> 0"
    proof -
      have "apart g (src_of g (es ! i') b) (pp_temp_buffer e)"
        using Cons.prems(1) i'(1) nz page_slot [OF g Cons.prems(4)] by (auto simp: sources_apart_def src_of_def)
      then show ?thesis using page_slot(2) [OF g Cons.prems(4)] by (auto simp: apart_def in_temp_def)
    qed
    have m1: "merge_page g e m (pp_temp_buffer (es ! i') + b) = m (pp_temp_buffer (es ! i') + b)" using o1 me by simp
    have m2: "merge_page g e m (src_of g (es ! i') b + b mod HOST_PAGE_SIZE g) = m (src_of g (es ! i') b + b mod HOST_PAGE_SIZE g)"
      if "src_of g (es ! i') b \<noteq> 0" using o2 [OF that] me by simp
    show ?thesis using Cons.IH [OF sa ta i'(1) Cons.prems(4), of "merge_page g e m"] m1 m2 unfolding i'(2) by simp
  qed
qed simp

definition new_list :: "program_pages_t list \<Rightarrow> (u64 \<times> nat) list" where
  "new_list es = map (\<lambda>e. (ppa_data (pp_new_ppa e), pp_temp_buffer e)) es"

lemma merge_loop_spec:
  assumes "i \<le> n" "n \<le> length (program_pages s)"
    and "op_holds (pops s) c pgs" "length pgs + (n - i) \<le> 128" "ops_ok FLASH_PROGRAM_OPERATION (pops s)"
  shows "\<exists>ps. merge_loop g (POP c) [i..<n] s = Some (s\<lparr>pops := ps, ram := fold (merge_page g) (drop i (take n (program_pages s))) (ram s)\<rparr>) \<and>
    op_holds ps c (pgs @ new_list (drop i (take n (program_pages s)))) \<and> ops_ok FLASH_PROGRAM_OPERATION ps"
  using assms
proof (induction "n - i" arbitrary: i s pgs)
  case 0
  then show ?case by (intro exI [of _ "pops s"]) (simp add: new_list_def)
next
  case (Suc d)
  let ?e = "program_pages s ! i"
  let ?s1 = "s\<lparr>ram := merge_page g ?e (ram s)\<rparr>"
  have up: "[i..<n] = i # [Suc i..<n]" using Suc.hyps(2) by (simp add: upt_conv_Cons)
  have sl: "drop i (take n (program_pages s)) = ?e # drop (Suc i) (take n (program_pages s))"
    using Suc by (intro slice_Cons) simp_all
  have "op_holds (pops ?s1) c pgs" "length pgs < 128" "ops_ok FLASH_PROGRAM_OPERATION (pops ?s1)" using Suc by simp_all
  from add_program [OF this, of "ppa_data (pp_new_ppa ?e)" "pp_temp_buffer ?e"] obtain rs where
    rs: "add_program_op_page (POP c) (ppa_data (pp_new_ppa ?e)) (pp_temp_buffer ?e) ?s1 = Some (length pgs + 1, ?s1\<lparr>pops := rs\<rparr>)"
      "op_holds rs c (pgs @ [(ppa_data (pp_new_ppa ?e), pp_temp_buffer ?e)])" "ops_ok FLASH_PROGRAM_OPERATION rs" by blast
  have "d = n - Suc i" "Suc i \<le> n" "n \<le> length (program_pages (?s1\<lparr>pops := rs\<rparr>))" "op_holds (pops (?s1\<lparr>pops := rs\<rparr>)) c (pgs @ new_list [?e])"
    "length (pgs @ new_list [?e]) + (n - Suc i) \<le> 128" "ops_ok FLASH_PROGRAM_OPERATION (pops (?s1\<lparr>pops := rs\<rparr>))"
    using Suc.hyps(2) Suc.prems rs by (simp_all add: new_list_def)
  from Suc.hyps(1) [OF this] obtain rs' where
    rs': "merge_loop g (POP c) [Suc i..<n] (?s1\<lparr>pops := rs\<rparr>) =
        Some (?s1\<lparr>pops := rs', ram := fold (merge_page g) (drop (Suc i) (take n (program_pages s))) (ram ?s1)\<rparr>)"
      "op_holds rs' c ((pgs @ new_list [?e]) @ new_list (drop (Suc i) (take n (program_pages s))))" "ops_ok FLASH_PROGRAM_OPERATION rs'" by auto
  have "merge_loop g (POP c) (i # [Suc i..<n]) s = merge_loop g (POP c) [Suc i..<n] (?s1\<lparr>pops := rs\<rparr>)"
    using rs(1) by (simp add: Let_def)
  then show ?case unfolding up sl using rs' by (intro exI [of _ rs']) (simp add: new_list_def)
qed

section \<open>The whole write\<close>

text \<open>The device in host pages.\<close>

definition host_view :: "geo \<Rightarrow> 'a ftl_st_scheme \<Rightarrow> nat \<Rightarrow> nat \<Rightarrow> u8" where
  "host_view g s l b = lview g s (l div HOST_PER_NAND_PAGES g) ((l mod HOST_PER_NAND_PAGES g) * HOST_PAGE_SIZE g + b)"

text \<open>The temporary buffers lie in the RAM, apart from each other and from the pages to write.\<close>

definition run_ram_ok :: "geo \<Rightarrow> nat list \<Rightarrow> (u32 \<times> nat) list \<Rightarrow> bool" where
  "run_ram_ok g ts ps \<longleftrightarrow> (\<forall>t \<in> set ts. t + NAND_PAGE_SIZE g \<le> 2 ^ 32) \<and> temps_apart g ts \<and>
     (\<forall>x \<in> set ps. snd x \<noteq> 0 \<and> (\<forall>t \<in> set ts. apart g (snd x) t))"

text \<open>
  What the host reads after the run \<open>ps\<close> was written: the new bytes in the pages of the run and the old
  ones elsewhere, except in a flash page that was unmapped and is written in part. There the pages
  outside of the run show what was left in the temporary buffer.
\<close>

definition run_written :: "geo \<Rightarrow> 'a uneq_st_scheme \<Rightarrow> (u32 \<times> nat) list \<Rightarrow> 'a uneq_st_scheme \<Rightarrow> bool" where
  "run_written g s ps s' \<longleftrightarrow> (\<forall>l b. l < TOTAL_NUM_OF_HOST_PAGES g \<and> b < HOST_PAGE_SIZE g \<longrightarrow> host_view g s' l b =
     (case last_addr ps l of
        Some a \<Rightarrow> ram s (a + b)
      | None \<Rightarrow> (case find_info (of_nat (l div HOST_PER_NAND_PAGES g)) (flash_pages g ps) of
          Some i \<Rightarrow> if ftl_abs s (l div HOST_PER_NAND_PAGES g) = None
                    then ram s (rmp_buffer s ! i + (l mod HOST_PER_NAND_PAGES g) * HOST_PAGE_SIZE g + b) else host_view g s l b
        | None \<Rightarrow> host_view g s l b)))"

lemma last_addr_mem: "last_addr ps l = Some a \<Longrightarrow> \<exists>x \<in> set ps. unat (fst x) = l \<and> snd x = a"
  by (auto simp: last_addr_def dest!: map_of_SomeD)

lemma last_addr_None: "last_addr ps l = None \<longleftrightarrow> l \<notin> unat ` fst ` set ps"
  by (auto simp: last_addr_def map_of_eq_None_iff image_image)

text \<open>A flash page that is hit as often as it has host pages is covered by them.\<close>

lemma hits_cover:
  assumes g: "uneq_geo g" and d: "distinct (map fst ps)"
  shows "hits g ps np \<le> HOST_PER_NAND_PAGES g"
    and "hits g ps np = HOST_PER_NAND_PAGES g \<Longrightarrow> j < HOST_PER_NAND_PAGES g \<Longrightarrow> last_addr ps (unat np * HOST_PER_NAND_PAGES g + j) \<noteq> None"
proof -
  let ?H = "HOST_PER_NAND_PAGES g" and ?F = "filter (\<lambda>x. nand_page_of g (fst x) = np) ps"
  let ?off = "\<lambda>x. offset_of g (fst x)"
  have lt: "?off x < ?H" for x :: "u32 \<times> nat" using uneq_sizes(2) [OF g] by (simp add: nand_page_nat [OF g])
  have inj: "inj_on ?off (set ?F)"
  proof (rule inj_onI)
    fix x y assume xy: "x \<in> set ?F" "y \<in> set ?F" "?off x = ?off y"
    have "unat (fst x) = unat np * ?H + ?off x" "unat (fst y) = unat np * ?H + ?off y"
      using host_page_split [OF g lt, of np x "fst x"] host_page_split [OF g lt, of np y "fst y"] xy by auto
    then have "fst x = fst y" using xy(3) by (simp add: word_unat_eq_iff)
    with d xy(1,2) show "x = y" by (auto simp: distinct_map inj_on_def)
  qed
  have "distinct ?F" using d by (simp add: distinct_map)
  then have "hits g ps np = card (set ?F)" by (simp only: hits_def distinct_card)
  then have c: "hits g ps np = card (?off ` set ?F)" using card_image [OF inj] by simp
  have sub: "?off ` set ?F \<subseteq> {..<?H}" using lt by auto
  from card_mono [OF _ sub] c show "hits g ps np \<le> ?H" by simp
  assume "hits g ps np = ?H" and j: "j < ?H"
  with c have "card (?off ` set ?F) = card {..<?H}" by (simp only: card_lessThan)
  then have "?off ` set ?F = {..<?H}" by (rule card_subset_eq [OF finite_lessThan sub])
  with j have "j \<in> ?off ` set ?F" by (simp only: lessThan_iff)
  then obtain x where x: "j = ?off x" "x \<in> set ?F" by (rule imageE)
  then have "np = nand_page_of g (fst x)" "x \<in> set ps" by simp_all
  then have "unat np * ?H + j = unat (fst x)" "x \<in> set ps" using host_page_split [OF g j, of np "fst x"] x(1) by blast+
  then show "last_addr ps (unat np * ?H + j) \<noteq> None" by (auto simp: last_addr_None)
qed

text \<open>The content of the temporary buffers when the program operation is executed.\<close>

lemma merged_bytes:
  fixes img m0 :: mem
  assumes g: "uneq_geo g" and es: "entries_ok g k tbl rmp ps es" and ro: "run_ram_ok g rmp ps" and d: "distinct (map fst ps)"
    and len: "length es \<le> length rmp" and tb: "\<forall>l p. tbl l = Some p \<longrightarrow> ppa_of (ppa_data p) = p"
    and i: "i < length es" "b < NAND_PAGE_SIZE g"
  defines "m \<equiv> fold (merge_page g) es (copy_in g (old_list g es) img m0)" and "np \<equiv> flash_pages g ps ! i"
  shows "m (rmp ! i + b) = (case last_addr ps (unat np * HOST_PER_NAND_PAGES g + b div HOST_PAGE_SIZE g) of
      Some a \<Rightarrow> m0 (a + b mod HOST_PAGE_SIZE g)
    | None \<Rightarrow> (case tbl (unat np) of Some p \<Rightarrow> img (ppa_index g p * NAND_PAGE_SIZE g + b) | None \<Rightarrow> m0 (rmp ! i + b)))"
proof -
  let ?H = "HOST_PER_NAND_PAGES g" and ?S = "HOST_PAGE_SIZE g" and ?P = "NAND_PAGE_SIZE g"
  let ?la = "last_addr ps (unat np * ?H + b div ?S)"
  note sl = page_slot [OF g i(2)]
  have e: "entry_ok g k tbl rmp ps j (flash_pages g ps ! j) (es ! j)" if "j < length es" for j using es that by (simp add: entries_ok_def)
  have tmp: "map pp_temp_buffer es = take (length es) rmp"
    using len e by (intro nth_equalityI) (simp_all add: entry_ok_def)
  have tin: "t \<in> set rmp" if "t \<in> set (take (length es) rmp)" for t using that by (rule in_set_takeD)
  have ta: "temps_apart g (map pp_temp_buffer es)" using ro by (auto simp: tmp run_ram_ok_def temps_apart_def)
  have ptr: "pp_host_page_ptrs (es ! j) ! c = (case last_addr ps (unat (flash_pages g ps ! j) * ?H + c) of None \<Rightarrow> 0 | Some a \<Rightarrow> a)"
    if "j < length es" "c < ?H" for j c using e [OF that(1)] that(2) by (simp add: entry_ok_def ptr_at_def)
  have sa: "sources_apart g es (map pp_temp_buffer es)"
    unfolding sources_apart_def tmp
  proof (intro ballI allI impI)
    fix e' j t assume a: "e' \<in> set es" "j < ?H" "t \<in> set (take (length es) rmp)" "pp_host_page_ptrs e' ! j \<noteq> 0"
    from a(1) obtain i' where i': "i' < length es" "e' = es ! i'" by (auto simp: in_set_conv_nth)
    from ptr [OF i'(1) a(2)] a(4) i'(2) obtain a' where "last_addr ps (unat (flash_pages g ps ! i') * ?H + j) = Some a'" "pp_host_page_ptrs e' ! j = a'"
      by (auto split: option.splits)
    then show "apart g (pp_host_page_ptrs e' ! j) t" using ro tin [OF a(3)] by (auto simp: run_ram_ok_def dest!: last_addr_mem)
  qed
  have ei: "pp_temp_buffer (es ! i) = rmp ! i" using e [OF i(1)] by (simp add: entry_ok_def)
  have src: "src_of g (es ! i) b = (case ?la of None \<Rightarrow> 0 | Some a \<Rightarrow> a)" using ptr [OF i(1) sl(1)] by (simp add: src_of_def np_def)
  note mi = merges_inside [OF g sa ta i, of "copy_in g (old_list g es) img m0", folded m_def, unfolded ei src]
  have ol: "(d, a) \<in> set (old_list g es) \<longleftrightarrow> (\<exists>j < length es. needs_read g (es ! j) \<and> d = ppa_data (pp_current_ppa (es ! j)) \<and> a = rmp ! j)" for d a
    using e by (force simp: old_list_def in_set_conv_nth entry_ok_def)
  have rin: "rmp ! j \<in> set rmp" if "j < length es" for j using that len by simp
  show ?thesis
  proof (cases ?la)
    case (Some a)
    from last_addr_mem [OF this] ro have a: "a \<noteq> 0" "\<forall>t \<in> set rmp. apart g a t" by (auto simp: run_ram_ok_def)
    have "copy_in g (old_list g es) img m0 (a + b mod ?S) = m0 (a + b mod ?S)"
    proof (rule copy_in_miss, clarify)
      fix d' a' assume "(d', a') \<in> set (old_list g es)" "a' \<le> a + b mod ?S" "a + b mod ?S < a' + ?P"
      moreover from this ol rin a(2) have "apart g a a'" by auto
      ultimately show False using sl(2) by (auto simp: apart_def)
    qed
    with mi a show ?thesis by (simp add: Some)
  next
    case None
    have uniq: "j = i" if "j < length es" "rmp ! j \<le> rmp ! i + b" "rmp ! i + b < rmp ! j + ?P" for j
    proof (rule ccontr)
      assume "j \<noteq> i"
      then have "rmp ! i + ?P \<le> rmp ! j \<or> rmp ! j + ?P \<le> rmp ! i"
        using ro that(1) i(1) len by (cases "i < j") (auto simp: run_ram_ok_def temps_apart_def, metis less_le_trans linorder_neqE_nat)
      with that i(2) show False by linarith
    qed
    show ?thesis
    proof (cases "tbl (unat np)")
      case un: None
      have "\<not> needs_read g (es ! i)" using e [OF i(1)] un by (simp add: needs_read_def entry_ok_def np_def)
      then have "copy_in g (old_list g es) img m0 (rmp ! i + b) = m0 (rmp ! i + b)"
        by (intro copy_in_miss) (use ol uniq in fastforce)
      with mi show ?thesis by (simp add: None un)
    next
      case (Some p)
      have "hits g ps np < ?H" using hits_cover [OF g d, of np] sl(1) None by (metis le_neq_implies_less)
      moreover from this have "(of_nat (hits g ps np) :: u32) < of_nat ?H"
        using uneq_sizes(5) [OF g] by (simp add: of_nat_less_iff word_less_nat_alt unat_of_nat)
      ultimately have nr: "needs_read g (es ! i)" using e [OF i(1)] Some by (simp add: needs_read_def entry_ok_def np_def)
      have cp: "pp_current_ppa (es ! i) = p" using e [OF i(1)] Some by (simp add: entry_ok_def np_def)
      have "copy_in g (old_list g es) img m0 (rmp ! i + b) = img (ppa_index g (ppa_of (ppa_data p)) * ?P + (rmp ! i + b - rmp ! i))"
      proof (rule copy_in_hit)
        show "(ppa_data p, rmp ! i) \<in> set (old_list g es)" using ol i(1) nr cp by blast
        show "\<forall>(d', a') \<in> set (old_list g es). a' \<le> rmp ! i + b \<and> rmp ! i + b < a' + ?P \<longrightarrow> (d', a') = (ppa_data p, rmp ! i)"
          using ol uniq cp by fastforce
      qed (use i(2) in simp_all)
      with mi tb Some show ?thesis by (simp add: None)
    qed
  qed
qed

lemma find_info_distinct:
  assumes "distinct nps" "i < length nps"
  shows "find_info (nps ! i) nps = Some i"
proof (cases rule: find_info_cases [of "nps ! i" nps])
  case (2 j)
  with assms show ?thesis by (simp add: nth_eq_iff_index_eq)
qed (use assms in auto)

lemma map_of_rev_distinct: "distinct (map fst xs) \<Longrightarrow> map_of (rev xs) = map_of xs"
  by (subst map_of_inject_set) (simp_all add: rev_map [symmetric])

text \<open>The temporary buffers, programmed as the new flash pages, show the run.\<close>

lemma writes_run:
  assumes g: "uneq_geo g" and es: "entries_ok g k (ftl_abs s) (rmp_buffer s) ps es" and ro: "run_ram_ok g (rmp_buffer s) ps"
    and d: "distinct (map fst ps)" and len: "length es \<le> length (rmp_buffer s)" and m: "map_ok g s"
    and w: "writes_from g (s\<lparr>ram := fold (merge_page g) es (copy_in g (old_list g es) (nand_img s) (ram s))\<rparr>)
      (zip (flash_pages g ps) (map pp_temp_buffer es)) s'"
  shows "run_written g s ps s'"
  unfolding run_written_def
proof (intro allI impI)
  fix l b assume lb: "l < TOTAL_NUM_OF_HOST_PAGES g \<and> b < HOST_PAGE_SIZE g"
  let ?H = "HOST_PER_NAND_PAGES g" and ?S = "HOST_PAGE_SIZE g" and ?fp = "flash_pages g ps"
  let ?m = "fold (merge_page g) es (copy_in g (old_list g es) (nand_img s) (ram s))"
  let ?np = "l div ?H" and ?c = "l mod ?H * ?S + b"
  let ?w = "of_nat ?np :: u32"
  note sz = uneq_sizes [OF g]
  have ok: "geo_ok g" using g by (simp add: uneq_geo_def)
  have "?np < TOTAL_NUM_OF_PAGES g" using lb sz(2) by (simp add: TOTAL_NUM_OF_HOST_PAGES_def HOST_PER_NAND_PAGES_def less_mult_imp_div_less)
  then have uw: "unat ?w = ?np" using ok by (intro unat_lpn) (simp add: geo_ok_def)
  have cl: "?c < NAND_PAGE_SIZE g" unfolding sz(1) using mixed_less [of "l mod ?H" ?H b ?S] sz(2) lb by simp
  have cd: "?c div ?S = l mod ?H" "?c mod ?S = b" using lb sz(3) by simp_all
  have n: "length es = length ?fp" using es by (simp add: entries_ok_def)
  have tmp: "pp_temp_buffer (es ! i) = rmp_buffer s ! i" if "i < length es" for i
    using es that by (simp add: entries_ok_def entry_ok_def)
  have tb: "\<forall>l p. ftl_abs s l = Some p \<longrightarrow> ppa_of (ppa_data p) = p" using mapped_page(2) [OF ok m] by blast
  have z: "map (unat \<circ> fst) (zip ?fp (map pp_temp_buffer es)) = map unat ?fp" "map snd (zip ?fp (map pp_temp_buffer es)) = map pp_temp_buffer es"
    using n by (simp_all flip: map_map)
  have ds: "distinct (map unat ?fp)" using flash_pages_distinct [of g ps] by (simp add: distinct_map inj_on_def word_unat_eq_iff)
  then have mo: "map_of (rev (zip (map unat ?fp) (map pp_temp_buffer es))) = map_of (zip (map unat ?fp) (map pp_temp_buffer es))"
    using n by (intro map_of_rev_distinct) simp
  have lv: "lview g (s\<lparr>ram := ?m\<rparr>) = lview g s" by (rule lview_cong) simp_all
  have v: "host_view g s' l b = (case map_of (zip (map unat ?fp) (map pp_temp_buffer es)) ?np of Some a \<Rightarrow> ?m (a + ?c) | None \<Rightarrow> lview g s ?np ?c)"
  proof -
    have "ram (s\<lparr>ram := ?m\<rparr>) = ?m" by simp
    from w [unfolded writes_from_def z mo lv this, rule_format, OF cl, of ?np] show ?thesis unfolding host_view_def .
  qed
  show "host_view g s' l b = (case last_addr ps l of Some a \<Rightarrow> ram s (a + b)
      | None \<Rightarrow> (case find_info ?w ?fp of
          Some i \<Rightarrow> if ftl_abs s ?np = None then ram s (rmp_buffer s ! i + l mod ?H * ?S + b) else host_view g s l b
        | None \<Rightarrow> host_view g s l b))"
  proof (cases "?w \<in> set ?fp")
    case True
    then obtain i where i: "i < length ?fp" "?fp ! i = ?w" by (auto simp: in_set_conv_nth)
    have "map_of (zip (map unat ?fp) (map pp_temp_buffer es)) (map unat ?fp ! i) = Some (map pp_temp_buffer es ! i)"
      using ds n i(1) by (intro map_of_zip_nth) simp_all
    then have mi: "map_of (zip (map unat ?fp) (map pp_temp_buffer es)) ?np = Some (rmp_buffer s ! i)" using i n uw tmp by simp
    have fi: "find_info ?w ?fp = Some i" using find_info_distinct [OF flash_pages_distinct i(1)] i(2) by simp
    have ie: "i < length es" using i n by simp
    have "?m (rmp_buffer s ! i + ?c) = (case last_addr ps l of Some a \<Rightarrow> ram s (a + b)
      | None \<Rightarrow> (case ftl_abs s ?np of Some p \<Rightarrow> nand_img s (ppa_index g p * NAND_PAGE_SIZE g + ?c) | None \<Rightarrow> ram s (rmp_buffer s ! i + ?c)))"
      using merged_bytes [OF g es ro d len tb ie cl, of "nand_img s" "ram s", unfolded i(2) uw cd] by simp
    then show ?thesis unfolding v mi fi by (simp add: host_view_def lview_def add.assoc split: option.split)
  next
    case False
    then have "map_of (zip (map unat ?fp) (map pp_temp_buffer es)) ?np = None"
      using n uw by (auto simp: map_of_eq_None_iff in_set_zip in_set_conv_nth word_unat_eq_iff)
    moreover have "find_info ?w ?fp = None" using False by (metis find_info_cases nth_mem)
    moreover have "l \<noteq> unat (fst x)" if "x \<in> set ps" for x
    proof
      assume "l = unat (fst x)"
      then have "unat (nand_page_of g (fst x)) = ?np" by (simp add: nand_page_nat [OF g])
      then have "nand_page_of g (fst x) = ?w" using uw by (simp add: word_unat_eq_iff)
      moreover from that have "nand_page_of g (fst x) \<in> set ?fp" unfolding flash_pages_set by blast
      ultimately show False using False by simp
    qed
    then have "last_addr ps l = None" by (auto simp: last_addr_None)
    ultimately show ?thesis unfolding v by (simp add: host_view_def)
  qed
qed

text \<open>What a write changes outside of the tables, the operations and the temporary buffers.\<close>

definition write_frame :: "geo \<Rightarrow> 'a uneq_st_scheme \<Rightarrow> 'a uneq_st_scheme \<Rightarrow> bool" where
  "write_frame g s s' \<longleftrightarrow> queues s' = queues s \<and> wbc s' = wbc s \<and> rmp_buffer s' = rmp_buffer s \<and>
     read_pages s' = read_pages s \<and> temp_read_buffer s' = temp_read_buffer s \<and>
     (\<forall>x. (\<forall>t \<in> set (rmp_buffer s). \<not> (t \<le> x \<and> x < t + NAND_PAGE_SIZE g)) \<longrightarrow> ram s' x = ram s x)"

definition pages_mapped :: "geo \<Rightarrow> (u32 \<times> nat) list \<Rightarrow> 'a ftl_st_scheme \<Rightarrow> bool" where
  "pages_mapped g ps s \<longleftrightarrow> (\<forall>(l, a) \<in> set ps. ftl_abs s (unat (nand_page_of g l)) \<noteq> None)"

lemma mapped_run:
  assumes "ftl_abs s = tbl ++ map_of (rev (zip (map unat (flash_pages g ps)) qs))" "length qs = length (flash_pages g ps)"
  shows "pages_mapped g ps s"
proof -
  have "ftl_abs s (unat (nand_page_of g (fst x))) \<noteq> None" if x: "x \<in> set ps" for x
  proof
    assume n: "ftl_abs s (unat (nand_page_of g (fst x))) = None"
    have "nand_page_of g (fst x) \<in> set (flash_pages g ps)" using x by (simp add: flash_pages_set)
    then have "unat (nand_page_of g (fst x)) \<in> fst ` set (zip (map unat (flash_pages g ps)) qs)"
      using assms(2) by (metis image_eqI length_map list.set_map map_fst_zip)
    with n show False by (auto simp: assms(1) map_add_None map_of_eq_None_iff)
  qed
  then show ?thesis by (simp add: pages_mapped_def split_beta del: not_None_eq)
qed

lemma merged_outside:
  assumes g: "uneq_geo g" and es: "entries_ok g k tbl rmp ps es" and ro: "run_ram_ok g rmp ps"
    and len: "length es \<le> length rmp" and x: "\<forall>t \<in> set rmp. \<not> (t \<le> x \<and> x < t + NAND_PAGE_SIZE g)"
  shows "fold (merge_page g) es (copy_in g (old_list g es) img m0) x = m0 x"
proof -
  have e: "pp_temp_buffer (es ! j) = rmp ! j" "pp_host_page_ptrs (es ! j) = map (ptr_at g ps (flash_pages g ps ! j)) [0..<HOST_PER_NAND_PAGES g]"
    if "j < length es" for j using es that by (simp_all add: entries_ok_def entry_ok_def)
  have t: "pp_temp_buffer e \<in> set rmp" if "e \<in> set es" for e using that e(1) len by (metis in_set_conv_nth less_le_trans)
  have "sources_apart g es (map pp_temp_buffer es)"
    unfolding sources_apart_def
  proof (intro ballI allI impI)
    fix e' j t' assume a: "e' \<in> set es" "j < HOST_PER_NAND_PAGES g" "t' \<in> set (map pp_temp_buffer es)" "pp_host_page_ptrs e' ! j \<noteq> 0"
    from a(1) obtain i' where i': "i' < length es" "e' = es ! i'" by (auto simp: in_set_conv_nth)
    then obtain a' where "last_addr ps (unat (flash_pages g ps ! i') * HOST_PER_NAND_PAGES g + j) = Some a'" "pp_host_page_ptrs e' ! j = a'"
      using e(2) [OF i'(1)] a(2,4) by (auto simp: ptr_at_def split: option.splits)
    then show "apart g (pp_host_page_ptrs e' ! j) t'" using ro a(3) t by (auto simp: run_ram_ok_def dest!: last_addr_mem)
  qed
  then have "fold (merge_page g) es (copy_in g (old_list g es) img m0) x = copy_in g (old_list g es) img m0 x"
    by (rule merges_outside [OF g]) (use x t in \<open>auto simp: in_temp_def\<close>)
  also have "\<dots> = m0 x" by (rule copy_in_miss) (use x t in \<open>auto simp: old_list_def\<close>)
  finally show ?thesis .
qed

lemma program_merged_spec:
  assumes g: "uneq_geo g" and G: "gathered g k (ftl_abs s) [] s" and r: "rop_ready s" and p: "pop_ready s"
    and n: "k + length (flash_pages g ps) < TOTAL_NUM_OF_PAGES g" "length (flash_pages g ps) \<le> MDTS_PAGES"
    and ib: "\<forall>(l, a) \<in> set ps. unat (nand_page_of g l) < TOTAL_NUM_OF_PAGES g"
    and ro: "run_ram_ok g (rmp_buffer s) ps" and d: "distinct (map fst ps)"
  shows "\<exists>s'. program_merged g ps s = Some s' \<and> program_pages_count s' = length (flash_pages g ps) \<and>
    ftl_inv g (k + length (flash_pages g ps)) s' \<and> run_written g s ps s' \<and> rop_ready s' \<and> write_frame g s s' \<and> pages_mapped g ps s'"
proof -
  let ?n = "length (flash_pages g ps)"
  have ok: "geo_ok g" using g by (simp add: uneq_geo_def)
  have inv: "ftl_inv g k s" and rlen: "length (rmp_buffer s) = MDTS_PAGES" using G by (simp_all add: gathered_def Let_def)
  have m: "map_ok g s" using inv by (simp add: ftl_inv_def)
  have n16: "?n \<le> 16" using n(2) by (simp add: MDTS_PAGES_def)
  from gather_loop_spec [OF g G, of ps] n ib obtain s1 where
    s1: "gather_loop g ps s = Some s1" "gathered g k (ftl_abs s) ps s1" "gframe s s1" by auto
  have fr: "rops s1 = rops s" "free_rop_objs s1 = free_rop_objs s" "pops s1 = pops s" "free_pop_objs s1 = free_pop_objs s"
    "ram s1 = ram s" "nand_img s1 = nand_img s" "queues s1 = queues s" "wbc s1 = wbc s" "rmp_buffer s1 = rmp_buffer s" "read_pages s1 = read_pages s" "temp_read_buffer s1 = temp_read_buffer s"
    using s1(3) by (auto simp: gframe_def)
  define es where "es = take ?n (program_pages s1)"
  have st1: "ftl_inv g (k + ?n) s1" "ftl_abs s1 = ftl_abs s ++ map_of (rev (zip (map unat (flash_pages g ps)) (run_pages g k ?n)))"
    "entries_ok g k (ftl_abs s) (rmp_buffer s) ps es" "program_pages_count s1 = ?n" "?n \<le> length (program_pages s1)" "length es = ?n"
    using s1(2) n(2) by (auto simp: gathered_def Let_def es_def fr entries_ok_def)
  have len: "length es \<le> length (rmp_buffer s)" using st1(6) n(2) rlen by simp
  have e: "entry_ok g k (ftl_abs s) (rmp_buffer s) ps j (flash_pages g ps ! j) (es ! j)" if "j < length es" for j
    using st1(3) that by (simp add: entries_ok_def)
  have tmp: "pp_temp_buffer e' < 2 ^ 32" if "e' \<in> set es" for e'
  proof -
    from that obtain j where j: "j < length es" "e' = es ! j" by (auto simp: in_set_conv_nth)
    with e [OF j(1)] len have "pp_temp_buffer e' \<in> set (rmp_buffer s)" by (simp add: entry_ok_def)
    then have "pp_temp_buffer e' + NAND_PAGE_SIZE g \<le> 2 ^ 32" using ro by (auto simp: run_ram_ok_def)
    then show ?thesis using page_size_pos [of g] by linarith
  qed
  have "rop_ready s1" using r rop_ready_cong [OF fr(1,2)] by simp
  from begin_read [OF this] obtain c s2 where s2: "begin_read_op s1 = Some (ROP c, s2)" "op_holds (rops s2) c []"
    "s2 = s1\<lparr>free_rop_objs := (free_rop_objs s1)\<lparr>oo_head := (c + 1) mod MAX_OPS\<rparr>, rops := (rops s1)[c := (rops s1 ! c)\<lparr>fo_nop := 0\<rparr>]\<rparr>"
    "ops_ok FLASH_READ_OPERATION (rops s2)" "c = oo_head (free_rop_objs s1)" by blast
  have f2: "program_pages s2 = program_pages s1" "program_pages_count s2 = ?n" "nand_img s2 = nand_img s" "ram s2 = ram s"
    using st1(4) fr by (simp_all add: s2(3))
  from read_old_loop_spec [of 0 ?n s2 c "[]" g, OF _ _ s2(2) _ s2(4)] st1(5) n16 obtain rs where
    rs: "read_old_loop g (ROP c) [0..<?n] s2 = Some (s2\<lparr>rops := rs, program_pages := mark_range g 0 ?n (program_pages s1)\<rparr>)"
      "op_holds rs c (old_list g es)" "ops_ok FLASH_READ_OPERATION rs" by (auto simp: f2 es_def)
  let ?s3 = "s2\<lparr>rops := rs, program_pages := mark_range g 0 ?n (program_pages s1)\<rparr>"
  have "pages_ok g (old_list g es)"
    unfolding pages_ok_def
  proof clarify
    fix da a assume "(da, a) \<in> set (old_list g es)"
    then obtain e' where e': "e' \<in> set es" "needs_read g e'" "da = ppa_data (pp_current_ppa e')" "a = pp_temp_buffer e'" by (auto simp: old_list_def)
    from e'(1) obtain j where j: "j < length es" "e' = es ! j" by (auto simp: in_set_conv_nth)
    from e [OF j(1)] e'(2) j(2) obtain q where "ftl_abs s (unat (flash_pages g ps ! j)) = Some q" "pp_current_ppa e' = q"
      by (auto simp: entry_ok_def needs_read_def)
    with mapped_page [OF ok m] e' tmp show "ppa_ok g (ppa_of da) \<and> a < 2 ^ 32" by metis
  qed
  from end_read [OF ok, of ?s3 c "old_list g es"] rs(2,3) this obtain hw where
    e4: "sync_end_read_op g (ROP c) ?s3 = Some (?s3\<lparr>nand_regs := hw, ram := copy_in g (old_list g es) (nand_img s) (ram s),
      free_rop_objs := q_give (free_rop_objs s2) (ROP c)\<rparr>)" by (auto simp: f2)
  let ?m4 = "copy_in g (old_list g es) (nand_img s) (ram s)"
  define s4 where "s4 = ?s3\<lparr>nand_regs := hw, ram := ?m4, free_rop_objs := q_give (free_rop_objs s2) (ROP c)\<rparr>"
  have r4: "rop_ready s4"
    by (rule rop_ready_cycle [OF \<open>rop_ready s1\<close> s2(5)]) (simp_all add: s4_def rs(3), simp add: s2(3))
  have f4: "pops s4 = pops s" "free_pop_objs s4 = free_pop_objs s" using fr by (simp_all add: s4_def s2(3))
  have "pop_ready s4" using p by (simp add: pop_ready_def f4)
  from begin_program [OF this] obtain c' s5 where s5: "begin_program_op s4 = Some (POP c', s5)" "op_holds (pops s5) c' []"
    "s5 = s4\<lparr>free_pop_objs := (free_pop_objs s4)\<lparr>oo_head := (oo_head (free_pop_objs s4) + 1) mod MAX_OPS\<rparr>,
      pops := (pops s4)[c' := (pops s4 ! c')\<lparr>fo_nop := 0\<rparr>]\<rparr>" "ops_ok FLASH_PROGRAM_OPERATION (pops s5)" by blast
  have f5: "program_pages s5 = mark_range g 0 ?n (program_pages s1)" "program_pages_count s5 = ?n" "ram s5 = ?m4" "nand_img s5 = nand_img s"
    "lpa_table s5 = lpa_table s1" "ppa_table s5 = ppa_table s1" "blk_table s5 = blk_table s1" "ftl_config s5 = ftl_config s1"
    "last_searched_channel s5 = last_searched_channel s1" "last_page_per_plane s5 = last_page_per_plane s1"
    "queues s5 = queues s" "wbc s5 = wbc s" "rmp_buffer s5 = rmp_buffer s" "rops s5 = rops s4" "free_rop_objs s5 = free_rop_objs s4" "read_pages s5 = read_pages s" "temp_read_buffer s5 = temp_read_buffer s"
    using f2 fr by (simp_all add: s5(3) s4_def s2(3))
  have em: "take ?n (program_pages s5) = map (mark_src g) es"
    using st1(5) by (intro nth_equalityI) (simp_all add: f5(1) mark_range_def es_def)
  have ms: "pp_temp_buffer (mark_src g e') = pp_temp_buffer e'" "pp_host_page_ptrs (mark_src g e') = pp_host_page_ptrs e'"
    "pp_new_ppa (mark_src g e') = pp_new_ppa e'" for e' by (simp_all add: mark_src_def)
  have "merge_page g (mark_src g e') = merge_page g e'" for e' by (simp only: merge_page_def ms)
  then have mm: "fold (merge_page g) (map (mark_src g) es) = fold (merge_page g) es" "new_list (map (mark_src g) es) = new_list es"
    by (simp_all add: fold_map comp_def new_list_def ms)
  have "length (program_pages s5) = length (program_pages s1)" by (simp add: f5(1) mark_range_def)
  with merge_loop_spec [of 0 ?n s5 c' "[]" g, OF _ _ s5(2) _ s5(4)] st1(5) n16 obtain pl where
    pl: "merge_loop g (POP c') [0..<?n] s5 = Some (s5\<lparr>pops := pl, ram := fold (merge_page g) es ?m4\<rparr>)"
      "op_holds pl c' (new_list es)" "ops_ok FLASH_PROGRAM_OPERATION pl" by (auto simp: em mm f5(3))
  let ?m6 = "fold (merge_page g) es ?m4"
  let ?s6 = "s5\<lparr>pops := pl, ram := ?m6\<rparr>"
  have nl: "new_list es = zip (map ppa_data (run_pages g k ?n)) (map pp_temp_buffer es)"
    using e by (intro nth_equalityI) (simp_all add: new_list_def st1(6) run_pages_simps entry_ok_def)
  have "pages_ok g (new_list es)"
    unfolding pages_ok_def
  proof clarify
    fix da a assume "(da, a) \<in> set (new_list es)"
    then obtain e' where e': "e' \<in> set es" "da = ppa_data (pp_new_ppa e')" "a = pp_temp_buffer e'" by (auto simp: new_list_def)
    from e'(1) obtain j where j: "j < length es" "e' = es ! j" by (auto simp: in_set_conv_nth)
    have "pp_new_ppa e' = log_ppa g (Suc k + j)" "Suc k + j < TOTAL_NUM_OF_PAGES g" using e [OF j(1)] j st1(6) n(1) by (simp_all add: entry_ok_def)
    then show "ppa_ok g (ppa_of da) \<and> a < 2 ^ 32" using log_page_data [OF ok] log_ppa_ok [OF ok] e' tmp by metis
  qed
  from end_program [OF ok, of ?s6 c' "new_list es"] pl(2,3) this obtain hw' where
    e7: "sync_end_program_op g (POP c') ?s6 = Some (?s6\<lparr>nand_regs := hw', nand_img := copy_out g (new_list es) ?m6 (nand_img s),
      free_pop_objs := q_give (free_pop_objs s5) (POP c')\<rparr>)" by (auto simp: f5(4))
  define s7 where "s7 = ?s6\<lparr>nand_regs := hw', nand_img := copy_out g (new_list es) ?m6 (nand_img s), free_pop_objs := q_give (free_pop_objs s5) (POP c')\<rparr>"
  have run: "program_merged g ps s = Some s7"
    by (simp add: program_merged_def s1(1) s2(1) f2(2) rs(1) e4 [folded s4_def] s5(1) f5(2) pl(1) e7 [folded s7_def])
  have "ftl_inv g (k + ?n) s7 = ftl_inv g (k + ?n) s1" by (rule ftl_inv_cong) (simp_all add: s7_def f5)
  moreover have "writes_from g (s\<lparr>ram := ?m6\<rparr>) (zip (flash_pages g ps) (map pp_temp_buffer es)) s7"
  proof (rule copy_out_writes [OF ok])
    show "ftl_inv g k (s\<lparr>ram := ?m6\<rparr>)" using inv ftl_inv_cong [of "s\<lparr>ram := ?m6\<rparr>" s] by simp
    have z: "map (unat \<circ> fst) (zip (flash_pages g ps) (map pp_temp_buffer es)) = map unat (flash_pages g ps)"
      "map snd (zip (flash_pages g ps) (map pp_temp_buffer es)) = map pp_temp_buffer es"
      using st1(6) by (simp_all flip: map_map)
    have zl: "length (zip (flash_pages g ps) (map pp_temp_buffer es)) = ?n" using st1(6) by simp
    show "k + length (zip (flash_pages g ps) (map pp_temp_buffer es)) < TOTAL_NUM_OF_PAGES g" using n(1) unfolding zl .
    have "ftl_abs s7 = ftl_abs s1" by (rule ftl_abs_cong) (simp add: s7_def f5)
    then show "ftl_abs s7 = ftl_abs (s\<lparr>ram := ?m6\<rparr>) ++ map_of (rev (zip (map (unat \<circ> fst) (zip (flash_pages g ps) (map pp_temp_buffer es)))
        (run_pages g k (length (zip (flash_pages g ps) (map pp_temp_buffer es))))))"
      unfolding z zl using st1(2) ftl_abs_cong [of "s\<lparr>ram := ?m6\<rparr>" s] by simp
    show "nand_img s7 = copy_out g (zip (map ppa_data (run_pages g k (length (zip (flash_pages g ps) (map pp_temp_buffer es)))))
        (map snd (zip (flash_pages g ps) (map pp_temp_buffer es)))) (ram (s\<lparr>ram := ?m6\<rparr>)) (nand_img (s\<lparr>ram := ?m6\<rparr>))"
      unfolding z zl nl [symmetric] by (simp add: s7_def)
  qed
  then have "run_written g s ps s7" by (rule writes_run [OF g st1(3) ro d len m])
  moreover have "rop_ready s7" using r4 by (simp add: rop_ready_def s7_def f5)
  moreover have "write_frame g s s7"
    using merged_outside [OF g st1(3) ro len] by (simp add: write_frame_def s7_def f5)
  moreover have "program_pages_count s7 = ?n" by (simp add: s7_def f5)
  moreover have "pages_mapped g ps s7"
  proof (rule mapped_run)
    have "ftl_abs s7 = ftl_abs s1" by (rule ftl_abs_cong) (simp add: s7_def f5)
    then show "ftl_abs s7 = ftl_abs s ++ map_of (rev (zip (map unat (flash_pages g ps)) (run_pages g k ?n)))" using st1(2) by simp
  qed (simp add: run_pages_simps)
  ultimately show ?thesis using run st1(1) by blast
qed

section \<open>Runs of consecutive pages\<close>

lemma run_page_nat:
  fixes l :: u32
  assumes "uneq_geo g" "unat l + n \<le> TOTAL_NUM_OF_HOST_PAGES g" "i < n"
  shows "unat (l + of_nat i) = unat l + i"
proof -
  have "unat l + i < 2 ^ 32" using assms by (simp add: uneq_geo_def)
  moreover from this have "unat (of_nat i :: u32) = i" by (simp add: unat_of_nat)
  ultimately show ?thesis using unat_add_lem [of l "of_nat i"] by simp
qed

lemma run_facts:
  assumes g: "uneq_geo g" and n: "unat l + n \<le> TOTAL_NUM_OF_HOST_PAGES g"
  shows "distinct (map fst (page_run g l a n))"
    "\<forall>(l, a) \<in> set (page_run g l a n). unat (nand_page_of g l) < TOTAL_NUM_OF_PAGES g"
    "last_addr (page_run g l a n) i = (if unat l \<le> i \<and> i < unat l + n then Some (a + (i - unat l) * HOST_PAGE_SIZE g) else None)"
proof -
  note w = run_page_nat [OF g n]
  have f: "map fst (page_run g l a n) = map (\<lambda>i. l + of_nat i) [0..<n]" by (simp add: page_run_def)
  show "distinct (map fst (page_run g l a n))" unfolding f by (auto simp: distinct_map inj_on_def) (metis w add_left_imp_eq)
  show "\<forall>(l, a) \<in> set (page_run g l a n). unat (nand_page_of g l) < TOTAL_NUM_OF_PAGES g"
    using n w uneq_sizes(2) [OF g]
    by (auto simp: page_run_def nand_page_nat [OF g] TOTAL_NUM_OF_HOST_PAGES_def HOST_PER_NAND_PAGES_def intro!: less_mult_imp_div_less)
  have "map (\<lambda>x. (unat (fst x), snd x)) (page_run g l a n) = map (\<lambda>i. (unat l + i, a + i * HOST_PAGE_SIZE g)) [0..<n]"
    using w uneq_sizes(6) [OF g] by (simp add: page_run_def)
  moreover have "map_of (rev (map (\<lambda>i. (c + i, a + i * z)) [0..<n])) i = (if c \<le> i \<and> i < c + n then Some (a + (i - c) * z) else None)" for c z
    by (induction n) auto
  ultimately show "last_addr (page_run g l a n) i = (if unat l \<le> i \<and> i < unat l + n then Some (a + (i - unat l) * HOST_PAGE_SIZE g) else None)"
    by (simp add: last_addr_def)
qed

text \<open>Tables and buffers as \<open>init_ftl_module_unequal_pages\<close> and the loader leave them.\<close>

definition write_ready :: "geo \<Rightarrow> nat \<Rightarrow> 'a uneq_st_scheme \<Rightarrow> bool" where
  "write_ready g k s \<longleftrightarrow> ftl_inv g k s \<and> rop_ready s \<and> pop_ready s \<and> length (program_pages s) = MDTS_PAGES \<and>
     length (rmp_buffer s) = MDTS_PAGES"

lemma reset_frame: "length (program_pages (reset_program_pages s)) = length (program_pages s)"
  "ftl_inv g k (reset_program_pages s) = ftl_inv g k s" "ftl_abs (reset_program_pages s) = ftl_abs s"
  "rop_ready (reset_program_pages s) = rop_ready s" "pop_ready (reset_program_pages s) = pop_ready s"
  "rmp_buffer (reset_program_pages s) = rmp_buffer s" "ram (reset_program_pages s) = ram s" "queues (reset_program_pages s) = queues s"
  "wbc (reset_program_pages s) = wbc s" "lview g (reset_program_pages s) = lview g s"
proof -
  have "length (fold (\<lambda>ix l. l[ix := f (l ! ix)]) ixs xs) = length xs" for f :: "'b \<Rightarrow> 'b" and ixs xs
    by (induction ixs arbitrary: xs) simp_all
  then show "length (program_pages (reset_program_pages s)) = length (program_pages s)" by (simp add: reset_program_pages_def)
  show "ftl_inv g k (reset_program_pages s) = ftl_inv g k s" by (rule ftl_inv_cong) (simp_all add: reset_program_pages_def)
  show "lview g (reset_program_pages s) = lview g s" by (rule lview_cong) (simp_all add: reset_program_pages_def)
  show "ftl_abs (reset_program_pages s) = ftl_abs s" by (rule ftl_abs_cong) (simp add: reset_program_pages_def)
qed (simp_all add: reset_program_pages_def rop_ready_def pop_ready_def)

lemma read_tables_kept: "read_pages (reset_program_pages s) = read_pages s" "temp_read_buffer (reset_program_pages s) = temp_read_buffer s"
  by (simp_all add: reset_program_pages_def)

lemma run_written_cong:
  assumes "ram s1 = ram s" "rmp_buffer s1 = rmp_buffer s" "ftl_abs s1 = ftl_abs s" "lview g s1 = lview g s" "lview g s2' = lview g s2"
  shows "run_written g s1 ps s2' = run_written g s ps s2"
proof -
  have "host_view g s1 = host_view g s" "host_view g s2' = host_view g s2" by (intro ext, simp add: host_view_def assms)+
  then show ?thesis unfolding run_written_def by (simp only: assms)
qed

lemma reset_gathered: "write_ready g k s \<Longrightarrow> gathered g k (ftl_abs (reset_program_pages s)) [] (reset_program_pages s)"
  by (simp add: gathered_def reset_frame write_ready_def entries_ok_def run_pages_simps) (simp add: reset_program_pages_def)

text \<open>The number of flash pages a run touches.\<close>

definition touched :: "geo \<Rightarrow> nat \<Rightarrow> nat \<Rightarrow> nat" where
  "touched g l n = (if n = 0 then 0 else (l + n - 1) div HOST_PER_NAND_PAGES g + 1 - l div HOST_PER_NAND_PAGES g)"

lemma div_image:
  assumes "0 < (h :: nat)" "0 < n"
  shows "(\<lambda>i. (l + i) div h) ` {..<n} = {l div h..<(l + n - 1) div h + 1}"
proof (intro equalityI subsetI)
  fix x assume "x \<in> (\<lambda>i. (l + i) div h) ` {..<n}"
  then show "x \<in> {l div h..<(l + n - 1) div h + 1}" by (auto intro!: div_le_mono le_imp_less_Suc)
next
  fix x assume x: "x \<in> {l div h..<(l + n - 1) div h + 1}"
  let ?i = "max l (x * h) - l"
  have "x * h \<le> (l + n - 1) div h * h" using x by simp
  also have "\<dots> \<le> l + n - 1" by simp
  finally have "?i < n" using assms(2) by (auto simp: max_def)
  moreover have "(l + ?i) div h = x"
  proof (cases "l \<le> x * h")
    case False
    then have "x \<le> l div h" using assms(1) by (simp add: less_eq_div_iff_mult_less_eq)
    with x False show ?thesis by simp
  qed (use assms(1) in simp)
  ultimately show "x \<in> (\<lambda>i. (l + i) div h) ` {..<n}" by (metis imageI lessThan_iff)
qed

lemma touched_pages:
  assumes g: "uneq_geo g" and n: "unat l + n \<le> TOTAL_NUM_OF_HOST_PAGES g"
  shows "length (flash_pages g (page_run g l a n)) = touched g (unat l) n"
    "unat np \<in> (\<lambda>i. (unat l + i) div HOST_PER_NAND_PAGES g) ` {..<n} \<longleftrightarrow> np \<in> set (flash_pages g (page_run g l a n))"
proof -
  let ?f = "\<lambda>i. (unat l + i) div HOST_PER_NAND_PAGES g"
  have u: "unat (nand_page_of g (l + of_nat i)) = ?f i" if "i < n" for i
    using run_page_nat [OF g n that] by (simp add: nand_page_nat [OF g])
  have st: "set (flash_pages g (page_run g l a n)) = (\<lambda>i. nand_page_of g (l + of_nat i)) ` {..<n}"
    by (auto simp: flash_pages_set page_run_def image_image lessThan_atLeast0)
  then have im: "unat ` set (flash_pages g (page_run g l a n)) = ?f ` {..<n}" using u by (auto simp: image_image)
  show "unat np \<in> ?f ` {..<n} \<longleftrightarrow> np \<in> set (flash_pages g (page_run g l a n))"
    unfolding im [symmetric] by (auto dest: word_unat_eq_iff [THEN iffD2])
  have "length (flash_pages g (page_run g l a n)) = card (set (flash_pages g (page_run g l a n)))"
    by (rule distinct_card [OF flash_pages_distinct, symmetric])
  also have "\<dots> = card (unat ` set (flash_pages g (page_run g l a n)))"
    by (rule card_image [symmetric]) (auto simp: inj_on_def word_unat_eq_iff)
  also have "\<dots> = touched g (unat l) n" unfolding im
    using div_image [OF uneq_sizes(2) [OF g], of n "unat l"] by (cases "n = 0") (simp_all add: touched_def)
  finally show "length (flash_pages g (page_run g l a n)) = touched g (unat l) n" .
qed

lemma sync_program_uneq_spec:
  assumes g: "uneq_geo g" and s: "write_ready g k s" and b: "unat l + unat n \<le> TOTAL_NUM_OF_HOST_PAGES g"
    and c: "k + touched g (unat l) (unat n) < TOTAL_NUM_OF_PAGES g" "touched g (unat l) (unat n) \<le> MDTS_PAGES"
    and r: "run_ram_ok g (rmp_buffer s) (page_run g l a (unat n))"
  shows "\<exists>s'. sync_program_pages_uneq g l n a s = Some (of_nat (touched g (unat l) (unat n)), s') \<and>
    ftl_inv g (k + touched g (unat l) (unat n)) s' \<and> rop_ready s' \<and> run_written g s (page_run g l a (unat n)) s' \<and> write_frame g s s' \<and>
    pages_mapped g (page_run g l a (unat n)) s'"
proof -
  let ?ps = "page_run g l a (unat n)" and ?s0 = "reset_program_pages s"
  note fp = touched_pages(1) [OF g b, of a]
  note rf = run_facts [OF g b, of a]
  from s have "rop_ready ?s0" "pop_ready ?s0" by (simp_all add: write_ready_def reset_frame)
  from program_merged_spec [OF g reset_gathered [OF s] this c [folded fp] rf(2) _ rf(1)] r obtain s' where
    s': "program_merged g ?ps ?s0 = Some s'" "program_pages_count s' = length (flash_pages g ?ps)" "ftl_inv g (k + length (flash_pages g ?ps)) s'"
      "run_written g ?s0 ?ps s'" "rop_ready s'" "write_frame g ?s0 s'" "pages_mapped g ?ps s'" by (auto simp: reset_frame)
  have "run_written g s ?ps s'" using s'(4) run_written_cong [of ?s0 s g s' s'] by (simp add: reset_frame)
  with s' show ?thesis by (intro exI [of _ s']) (simp add: sync_program_pages_uneq_def fp write_frame_def reset_frame read_tables_kept)
qed

text \<open>The flash page of host page \<open>i\<close> holds a page of the run.\<close>

definition shares_page :: "geo \<Rightarrow> nat \<Rightarrow> nat \<Rightarrow> nat \<Rightarrow> bool" where
  "shares_page g l n i \<longleftrightarrow> (\<exists>j. l \<le> j \<and> j < l + n \<and> j div HOST_PER_NAND_PAGES g = i div HOST_PER_NAND_PAGES g)"

lemma run_written_cases:
  assumes g: "uneq_geo g" and b: "unat l + n \<le> TOTAL_NUM_OF_HOST_PAGES g" and w: "run_written g s (page_run g l a n) s'"
    and i: "i < TOTAL_NUM_OF_HOST_PAGES g"
  shows "unat l \<le> i \<Longrightarrow> i < unat l + n \<Longrightarrow> \<forall>b < HOST_PAGE_SIZE g. host_view g s' i b = ram s (a + (i - unat l) * HOST_PAGE_SIZE g + b)"
    and "\<not> (unat l \<le> i \<and> i < unat l + n) \<Longrightarrow> \<not> shares_page g (unat l) n i \<or> ftl_abs s (i div HOST_PER_NAND_PAGES g) \<noteq> None \<Longrightarrow>
      \<forall>b < HOST_PAGE_SIZE g. host_view g s' i b = host_view g s i b"
    and "\<not> (unat l \<le> i \<and> i < unat l + n) \<Longrightarrow> shares_page g (unat l) n i \<Longrightarrow> ftl_abs s (i div HOST_PER_NAND_PAGES g) = None \<Longrightarrow>
      length (flash_pages g (page_run g l a n)) \<le> length (rmp_buffer s) \<Longrightarrow>
      \<exists>t \<in> set (rmp_buffer s). \<forall>b < HOST_PAGE_SIZE g. host_view g s' i b = ram s (t + (i mod HOST_PER_NAND_PAGES g) * HOST_PAGE_SIZE g + b)"
proof -
  let ?H = "HOST_PER_NAND_PAGES g" and ?fp = "flash_pages g (page_run g l a n)"
  let ?w = "of_nat (i div ?H) :: u32"
  note la = run_facts(3) [OF g b, of a i]
  have "i div ?H < 2 ^ 30"
  proof -
    have "i div ?H < TOTAL_NUM_OF_PAGES g" using i uneq_sizes(2) [OF g]
      by (simp add: TOTAL_NUM_OF_HOST_PAGES_def HOST_PER_NAND_PAGES_def less_mult_imp_div_less)
    then show ?thesis using g by (simp add: uneq_geo_def geo_ok_def)
  qed
  then have uw: "unat ?w = i div ?H" by (rule unat_lpn)
  have sh: "shares_page g (unat l) n i \<longleftrightarrow> ?w \<in> set ?fp"
  proof -
    have "shares_page g (unat l) n i \<longleftrightarrow> i div ?H \<in> (\<lambda>j. (unat l + j) div ?H) ` {..<n}"
    proof
      assume "shares_page g (unat l) n i"
      then obtain j where j: "unat l \<le> j" "j < unat l + n" "j div ?H = i div ?H" by (auto simp: shares_page_def)
      then have "i div ?H = (unat l + (j - unat l)) div ?H" "j - unat l < n" by auto
      then show "i div ?H \<in> (\<lambda>j. (unat l + j) div ?H) ` {..<n}" by blast
    next
      assume "i div ?H \<in> (\<lambda>j. (unat l + j) div ?H) ` {..<n}"
      then obtain j where "i div ?H = (unat l + j) div ?H" "j < n" by blast
      then show "shares_page g (unat l) n i" unfolding shares_page_def by (intro exI [of _ "unat l + j"]) simp
    qed
    then show ?thesis using touched_pages(2) [OF g b, of ?w a] uw by simp
  qed
  note v = w [unfolded run_written_def, rule_format, of i, unfolded la]
  show "unat l \<le> i \<Longrightarrow> i < unat l + n \<Longrightarrow> \<forall>b < HOST_PAGE_SIZE g. host_view g s' i b = ram s (a + (i - unat l) * HOST_PAGE_SIZE g + b)"
    using v i by simp
  show "\<not> (unat l \<le> i \<and> i < unat l + n) \<Longrightarrow> \<not> shares_page g (unat l) n i \<or> ftl_abs s (i div ?H) \<noteq> None \<Longrightarrow>
      \<forall>b < HOST_PAGE_SIZE g. host_view g s' i b = host_view g s i b"
    using v i sh by (cases rule: find_info_cases [of ?w ?fp]) (auto simp: in_set_conv_nth)
  assume o: "\<not> (unat l \<le> i \<and> i < unat l + n)" "shares_page g (unat l) n i" "ftl_abs s (i div ?H) = None" "length ?fp \<le> length (rmp_buffer s)"
  from o(2) sh obtain t where t: "find_info ?w ?fp = Some t" "t < length ?fp" by (metis find_info_cases)
  have "\<forall>b < HOST_PAGE_SIZE g. host_view g s' i b = ram s (rmp_buffer s ! t + (i mod ?H) * HOST_PAGE_SIZE g + b)"
    using v i o(1,3) t by auto
  moreover have "rmp_buffer s ! t \<in> set (rmp_buffer s)" using t(2) o(4) by simp
  ultimately show "\<exists>t \<in> set (rmp_buffer s). \<forall>b < HOST_PAGE_SIZE g. host_view g s' i b = ram s (t + (i mod ?H) * HOST_PAGE_SIZE g + b)" by blast
qed

lemma start_pages_frame: "length (start_pages n ps) = length ps"
  by (induction n ps rule: start_pages.induct) simp_all

lemma process_wbc_uneq_spec:
  assumes g: "uneq_geo g" and s: "write_ready g k s"
    and c: "k + length (flash_pages g (wbc_run_uneq (wbc s))) < TOTAL_NUM_OF_PAGES g" "length (flash_pages g (wbc_run_uneq (wbc s))) \<le> MDTS_PAGES"
    and i: "\<forall>(l, a) \<in> set (wbc_run_uneq (wbc s)). unat l < TOTAL_NUM_OF_HOST_PAGES g"
    and r: "run_ram_ok g (rmp_buffer s) (wbc_run_uneq (wbc s))" and d: "distinct (map fst (wbc_run_uneq (wbc s)))"
  shows "\<exists>s'. process_wbc_uneq g s = Some (sys_push_to_nvme WBC (wb_type (wbc s)) s') \<and> wb_nand_io_complete (wbc s') \<and>
    ftl_inv g (k + length (flash_pages g (wbc_run_uneq (wbc s)))) s' \<and> rop_ready s' \<and> run_written g s (wbc_run_uneq (wbc s)) s' \<and>
    queues s' = queues s"
proof -
  let ?ps = "wbc_run_uneq (wbc s)"
  let ?w = "(wbc s)\<lparr>wb_nand_io_complete := False,
         wb_pages := start_pages (unat (num_program_pgs (wbc s))) (take WBC_PAGES (wb_pages (wbc s))) @ drop WBC_PAGES (wb_pages (wbc s))\<rparr>"
  let ?s0 = "(reset_program_pages s)\<lparr>wbc := ?w\<rparr>"
  have f: "ftl_abs ?s0 = ftl_abs s" "lview g ?s0 = lview g s" "ram ?s0 = ram s" "rmp_buffer ?s0 = rmp_buffer s" "queues ?s0 = queues s"
    using lview_cong [of ?s0 "reset_program_pages s" g] ftl_abs_cong [of ?s0 "reset_program_pages s"] by (simp_all add: reset_frame)
  have "ftl_inv g k ?s0 = ftl_inv g k (reset_program_pages s)" by (rule ftl_inv_cong) simp_all
  then have G: "gathered g k (ftl_abs ?s0) [] ?s0"
    using reset_gathered [OF s] f by (simp add: gathered_def reset_frame)
  have rd: "rop_ready ?s0" "pop_ready ?s0" using s by (simp_all add: write_ready_def reset_frame rop_ready_def pop_ready_def reset_program_pages_def)
  have ib: "\<forall>(l, a) \<in> set ?ps. unat (nand_page_of g l) < TOTAL_NUM_OF_PAGES g"
    using i by (auto simp: nand_page_nat [OF g] TOTAL_NUM_OF_HOST_PAGES_def HOST_PER_NAND_PAGES_def intro!: less_mult_imp_div_less)
  from program_merged_spec [OF g G rd c ib _ d] r f(4) obtain s1 where
    s1: "program_merged g ?ps ?s0 = Some s1" "ftl_inv g (k + length (flash_pages g ?ps)) s1"
      "run_written g ?s0 ?ps s1" "rop_ready s1" "write_frame g ?s0 s1" by auto
  let ?s' = "s1\<lparr>wbc := (wbc s1)\<lparr>wb_nand_io_complete := True\<rparr>\<rparr>"
  have w1: "wbc s1 = ?w" "queues s1 = queues s" using s1(5) f(5) by (simp_all add: write_frame_def)
  have "process_wbc_uneq g s = Some (sys_push_to_nvme WBC (wb_type (wbc s)) ?s')"
    by (simp add: process_wbc_uneq_def Let_def s1(1) w1)
  moreover have "ftl_inv g (k + length (flash_pages g ?ps)) ?s'" using s1(2) ftl_inv_cong [of ?s' s1] by simp
  moreover have "run_written g s ?ps ?s'"
  proof -
    have "lview g ?s' = lview g s1" by (rule lview_cong) simp_all
    from run_written_cong [OF f(3) f(4) f(1) f(2) this [symmetric], of ?ps] s1(3) show ?thesis by (simp only:)
  qed
  moreover have "rop_ready ?s'" using s1(4) by (simp add: rop_ready_def)
  ultimately show ?thesis using w1(2) by (intro exI [of _ ?s']) simp
qed

end
