(* ===== verification/Ftl_Extract.thy ===== *)
theory Ftl_Extract
  imports Ftl_Merge
begin

text \<open>
  Reading host pages smaller than a flash page: the collected flash pages, the copies out of the
  temporary buffers, and what a host read and a read of the module itself deliver.
\<close>

section \<open>The table of flash pages to read\<close>

definition rentry_ok :: "geo \<Rightarrow> (nat \<Rightarrow> ppa_t option) \<Rightarrow> nat list \<Rightarrow> (u32 \<times> nat) list \<Rightarrow> nat \<Rightarrow> u32 \<Rightarrow> read_pages_t \<Rightarrow> bool" where
  "rentry_ok g tbl trb ps i np e \<longleftrightarrow> rg_nand_page e = np \<and> rg_is_unmapped e = (tbl (unat np) = None) \<and>
     (tbl (unat np) \<noteq> None \<longrightarrow> rg_temp_buffer e = trb ! i \<and> rg_host_page_ptrs e = map (ptr_at g ps np) [0..<HOST_PER_NAND_PAGES g])"

definition rentries_ok :: "geo \<Rightarrow> (nat \<Rightarrow> ppa_t option) \<Rightarrow> nat list \<Rightarrow> (u32 \<times> nat) list \<Rightarrow> read_pages_t list \<Rightarrow> bool" where
  "rentries_ok g tbl trb ps es \<longleftrightarrow> length es = length (flash_pages g ps) \<and>
     (\<forall>i < length es. rentry_ok g tbl trb ps i (flash_pages g ps ! i) (es ! i))"

definition fetch_list :: "(nat \<Rightarrow> ppa_t option) \<Rightarrow> nat list \<Rightarrow> u32 list \<Rightarrow> (u64 \<times> nat) list" where
  "fetch_list tbl trb nps = map (\<lambda>i. (ppa_data (the (tbl (unat (nps ! i)))), trb ! i)) (filter (\<lambda>i. tbl (unat (nps ! i)) \<noteq> None) [0..<length nps])"

lemma fetch_list_snoc: "fetch_list tbl trb (nps @ [np]) = fetch_list tbl trb nps @
   (case tbl (unat np) of None \<Rightarrow> [] | Some p \<Rightarrow> [(ppa_data p, trb ! length nps)])"
proof -
  have "filter (\<lambda>i. tbl (unat ((nps @ [np]) ! i)) \<noteq> None) [0..<length nps] = filter (\<lambda>i. tbl (unat (nps ! i)) \<noteq> None) [0..<length nps]"
    by (rule filter_cong) (simp_all add: nth_append)
  moreover have "map (\<lambda>i. (ppa_data (the (tbl (unat ((nps @ [np]) ! i)))), trb ! i)) (filter Q [0..<length nps]) =
    map (\<lambda>i. (ppa_data (the (tbl (unat (nps ! i)))), trb ! i)) (filter Q [0..<length nps])" for Q
    by (rule map_cong) (auto simp: nth_append)
  ultimately show ?thesis by (simp add: fetch_list_def split: option.split)
qed

definition reading :: "geo \<Rightarrow> nat \<Rightarrow> (u32 \<times> nat) list \<Rightarrow> 'a uneq_st_scheme \<Rightarrow> bool" where
  "reading g c ps s \<longleftrightarrow> (let n = length (flash_pages g ps) in
     rentries_ok g (ftl_abs s) (temp_read_buffer s) ps (take n (read_pages s)) \<and> read_pages_count s = n \<and>
     length (read_pages s) = MDTS_PAGES \<and> length (temp_read_buffer s) = MDTS_PAGES \<and>
     op_holds (rops s) c (fetch_list (ftl_abs s) (temp_read_buffer s) (flash_pages g ps)) \<and> ops_ok FLASH_READ_OPERATION (rops s))"

lemma reading_cong:
  assumes "lpa_table s' = lpa_table s" "temp_read_buffer s' = temp_read_buffer s" "read_pages s' = read_pages s"
    "read_pages_count s' = read_pages_count s" "rops s' = rops s"
  shows "reading g c ps s' = reading g c ps s"
  unfolding reading_def ftl_abs_cong [OF assms(1)] assms(2-) ..

lemma reading_find: "reading g c ps s \<Longrightarrow> find_read_page np s = find_info np (flash_pages g ps)"
proof -
  assume r: "reading g c ps s"
  then have "map rg_nand_page (take (read_pages_count s) (read_pages s)) = flash_pages g ps"
    by (intro nth_equalityI) (auto simp: reading_def Let_def rentries_ok_def rentry_ok_def)
  then show ?thesis by (simp add: find_read_page_def)
qed

text \<open>Host pages of other flash pages leave an entry alone.\<close>

lemma rentry_other:
  assumes "uneq_geo g" "np \<noteq> nand_page_of g l \<or> tbl (unat np) = None" "rentry_ok g tbl trb ps i np e"
  shows "rentry_ok g tbl trb (ps @ [(l, a)]) i np e"
proof -
  have "ptr_at g (ps @ [(l, a)]) np j = ptr_at g ps np j" if "j < HOST_PER_NAND_PAGES g" "np \<noteq> nand_page_of g l" for j
    using host_page_split [OF assms(1) that(1), of np l] that(2) by (simp add: ptr_at_def last_addr_snoc)
  then have m: "np \<noteq> nand_page_of g l \<Longrightarrow> map (ptr_at g (ps @ [(l, a)]) np) [0..<HOST_PER_NAND_PAGES g] = map (ptr_at g ps np) [0..<HOST_PER_NAND_PAGES g]" by simp
  show ?thesis
  proof (cases "tbl (unat np) = None")
    case False
    with assms(2) m have "map (ptr_at g (ps @ [(l, a)]) np) [0..<HOST_PER_NAND_PAGES g] = map (ptr_at g ps np) [0..<HOST_PER_NAND_PAGES g]" by blast
    with assms(3) show ?thesis unfolding rentry_ok_def by metis
  qed (use assms(3) in \<open>simp add: rentry_ok_def\<close>)
qed

definition note_page :: "geo \<Rightarrow> u32 \<Rightarrow> nat \<Rightarrow> read_pages_t \<Rightarrow> read_pages_t" where
  "note_page g l a e = e\<lparr>rg_host_page_ptrs := (rg_host_page_ptrs e)[offset_of g l := a],
     rg_host_page := (rg_host_page e)[offset_of g l := l], rg_read_host_pages := rg_read_host_pages e + 1\<rparr>"

lemma note_host_page_eq: "note_host_page g i l a s = s\<lparr>read_pages := (read_pages s)[i := note_page g l a (read_pages s ! i)]\<rparr>"
  by (simp add: note_host_page_def note_page_def Let_def)

lemma note_host_page_new: "note_host_page g i l a (s\<lparr>rops := rs, read_pages := pg, read_pages_count := n\<rparr>) =
    s\<lparr>rops := rs, read_pages := pg[i := note_page g l a (pg ! i)], read_pages_count := n\<rparr>"
  by (rule uneq_st.equality) (simp_all add: note_host_page_eq)

lemma rentry_same:
  assumes "uneq_geo g" "rentry_ok g tbl trb ps i (nand_page_of g l) e"
  shows "rentry_ok g tbl trb (ps @ [(l, a)]) i (nand_page_of g l) (note_page g l a e)"
proof -
  let ?np = "nand_page_of g l"
  have "ptr_at g (ps @ [(l, a)]) ?np j = (if j = offset_of g l then a else ptr_at g ps ?np j)" if "j < HOST_PER_NAND_PAGES g" for j
    using host_page_split [OF assms(1) that, of ?np l] by (simp add: ptr_at_def last_addr_snoc)
  then have "map (ptr_at g (ps @ [(l, a)]) ?np) [0..<HOST_PER_NAND_PAGES g] = (map (ptr_at g ps ?np) [0..<HOST_PER_NAND_PAGES g])[offset_of g l := a]"
    by (intro nth_equalityI) (auto simp: nth_list_update)
  then show ?thesis using assms(2) by (auto simp: rentry_ok_def note_page_def)
qed

lemma reading_entry:
  assumes "reading g c ps s" "i < length (flash_pages g ps)"
  shows "rentry_ok g (ftl_abs s) (temp_read_buffer s) ps i (flash_pages g ps ! i) (read_pages s ! i)" "i < length (read_pages s)"
  using assms by (auto simp: reading_def Let_def rentries_ok_def)

text \<open>A host page of a flash page that has an entry.\<close>

lemma read_known:
  assumes g: "uneq_geo g" and r: "reading g c ps s" and i: "find_info (nand_page_of g l) (flash_pages g ps) = Some i"
  shows "rg_is_unmapped (read_pages s ! i) = (ftl_abs s (unat (nand_page_of g l)) = None)"
    and "ftl_abs s (unat (nand_page_of g l)) \<noteq> None \<Longrightarrow> reading g c (ps @ [(l, a)]) (note_host_page g i l a s)"
    and "ftl_abs s (unat (nand_page_of g l)) = None \<Longrightarrow> reading g c (ps @ [(l, a)]) s"
proof -
  let ?fp = "flash_pages g ps" and ?np = "nand_page_of g l"
  from i have i': "i < length ?fp" "?fp ! i = ?np" by (cases rule: find_info_cases [of ?np ?fp]; simp)+
  then have "?np \<in> set ?fp" by (metis nth_mem)
  then have fp: "flash_pages g (ps @ [(l, a)]) = ?fp" by (simp add: flash_pages_snoc)
  note e = reading_entry [OF r]
  show "rg_is_unmapped (read_pages s ! i) = (ftl_abs s (unat ?np) = None)" using e(1) [OF i'(1)] i'(2) by (simp add: rentry_ok_def)
  have o: "?fp ! j \<noteq> ?np" if "j < length ?fp" "j \<noteq> i" for j
    using that i' flash_pages_distinct [of g ps] by (metis nth_eq_iff_index_eq)
  have len: "length ?fp \<le> length (read_pages s)" using r by (auto simp: reading_def Let_def rentries_ok_def)
  {
    assume "ftl_abs s (unat ?np) \<noteq> None"
    let ?pg = "(read_pages s)[i := note_page g l a (read_pages s ! i)]"
    have "rentry_ok g (ftl_abs s) (temp_read_buffer s) (ps @ [(l, a)]) j (?fp ! j) (?pg ! j)" if "j < length ?fp" for j
      using rentry_same [OF g e(1) [OF i'(1), unfolded i'(2)], of a] rentry_other [OF g _ e(1) [OF that]] o [OF that] i' len that
      by (cases "j = i") auto
    then have "reading g c (ps @ [(l, a)]) (s\<lparr>read_pages := ?pg\<rparr>)"
      using r len ftl_abs_cong [of "s\<lparr>read_pages := ?pg\<rparr>" s] by (simp add: reading_def Let_def fp rentries_ok_def min_absorb2)
    then show "reading g c (ps @ [(l, a)]) (note_host_page g i l a s)" by (simp add: note_host_page_eq)
  }
  assume "ftl_abs s (unat ?np) = None"
  then have "rentry_ok g (ftl_abs s) (temp_read_buffer s) (ps @ [(l, a)]) j (?fp ! j) (read_pages s ! j)" if "j < length ?fp" for j
    using rentry_other [OF g _ e(1) [OF that]] o [OF that] i' by (cases "j = i") auto
  then show "reading g c (ps @ [(l, a)]) s" using r len by (simp add: reading_def Let_def fp rentries_ok_def min_absorb2)
qed

text \<open>A new flash page.\<close>

lemma reading_snoc:
  assumes g: "uneq_geo g" and r: "reading g c ps s" and new: "nand_page_of g l \<notin> set (flash_pages g ps)"
    and n: "length (flash_pages g ps) < MDTS_PAGES"
    and e: "rentry_ok g (ftl_abs s) (temp_read_buffer s) (ps @ [(l, a)]) (length (flash_pages g ps)) (nand_page_of g l) e"
    and o: "op_holds rs c (fetch_list (ftl_abs s) (temp_read_buffer s) (flash_pages g ps @ [nand_page_of g l]))" "ops_ok FLASH_READ_OPERATION rs"
  shows "reading g c (ps @ [(l, a)]) (s\<lparr>rops := rs, read_pages := (read_pages s)[length (flash_pages g ps) := e],
    read_pages_count := Suc (length (flash_pages g ps))\<rparr>)"
proof -
  let ?fp = "flash_pages g ps" and ?np = "nand_page_of g l"
  let ?s = "s\<lparr>rops := rs, read_pages := (read_pages s)[length ?fp := e], read_pages_count := Suc (length ?fp)\<rparr>"
  have fp: "flash_pages g (ps @ [(l, a)]) = ?fp @ [?np]" using new by (simp add: flash_pages_snoc)
  have ab: "ftl_abs ?s = ftl_abs s" by (rule ftl_abs_cong) simp
  have len: "length (read_pages s) = MDTS_PAGES" using r by (simp add: reading_def Let_def)
  have "rentry_ok g (ftl_abs s) (temp_read_buffer s) (ps @ [(l, a)]) j ((?fp @ [?np]) ! j) ((read_pages s)[length ?fp := e] ! j)" if "j \<le> length ?fp" for j
  proof (cases "j = length ?fp")
    case False
    with that have j: "j < length ?fp" by simp
    then have "?fp ! j \<noteq> ?np" using new by (metis nth_mem)
    with rentry_other [OF g _ reading_entry(1) [OF r j]] j show ?thesis by (simp add: nth_append)
  qed (use e len n in simp)
  then show ?thesis using r o n len by (simp add: reading_def Let_def fp rentries_ok_def ab min_absorb2 less_Suc_eq_le)
qed

lemma read_new:
  assumes g: "uneq_geo g" and r: "reading g c ps s" and new: "nand_page_of g l \<notin> set (flash_pages g ps)"
    and n: "length (flash_pages g ps) < MDTS_PAGES" and b: "unat (nand_page_of g l) < length (lpa_table s)"
  shows "ftl_abs s (unat (nand_page_of g l)) \<noteq> None \<Longrightarrow> \<exists>rs e. new_read_page g (ROP c) (nand_page_of g l) s =
      Some (True, s\<lparr>rops := rs, read_pages := (read_pages s)[read_pages_count s := e], read_pages_count := Suc (read_pages_count s)\<rparr>) \<and>
      \<not> rg_is_unmapped e \<and> reading g c (ps @ [(l, a)]) (s\<lparr>rops := rs, read_pages := (read_pages s)[read_pages_count s := note_page g l a e],
        read_pages_count := Suc (read_pages_count s)\<rparr>)"
    and "ftl_abs s (unat (nand_page_of g l)) = None \<Longrightarrow> \<exists>e. new_read_page g (ROP c) (nand_page_of g l) s =
      Some (False, s\<lparr>read_pages := (read_pages s)[read_pages_count s := e]\<rparr>) \<and>
      reading g c (ps @ [(l, a)]) (s\<lparr>read_pages := (read_pages s)[read_pages_count s := e\<lparr>rg_is_unmapped := True\<rparr>], read_pages_count := Suc (read_pages_count s)\<rparr>)"
proof -
  let ?fp = "flash_pages g ps" and ?np = "nand_page_of g l"
  have st: "read_pages_count s = length ?fp" "length (read_pages s) = MDTS_PAGES" "length (temp_read_buffer s) = MDTS_PAGES"
    "op_holds (rops s) c (fetch_list (ftl_abs s) (temp_read_buffer s) ?fp)" "ops_ok FLASH_READ_OPERATION (rops s)"
    using r by (simp_all add: reading_def Let_def)
  let ?e = "fresh_read_page g ?np (read_pages s ! length ?fp)"
  have z: "replicate (HOST_PER_NAND_PAGES g) 0 = map (ptr_at g ps ?np) [0..<HOST_PER_NAND_PAGES g]"
    by (rule nth_equalityI) (simp_all add: no_hits [OF g new])
  {
    assume mp: "ftl_abs s (unat ?np) \<noteq> None"
    then obtain p where p: "ftl_abs s (unat ?np) = Some p" by blast
    then have tb: "IS_UNMAPPED_LPA (unat ?np) s = Some False" "GET_MAPPED_PPA (unat ?np) s = Some p"
      using b by (auto simp: IS_UNMAPPED_LPA_def GET_MAPPED_PPA_def ftl_abs_def split: if_splits)
    have "length (fetch_list (ftl_abs s) (temp_read_buffer s) ?fp) \<le> length ?fp"
      unfolding fetch_list_def using length_filter_le [of _ "[0..<length ?fp]"] by simp
    then have "length (fetch_list (ftl_abs s) (temp_read_buffer s) ?fp) < 128" using n by (simp add: MDTS_PAGES_def)
    from add_read [OF st(4) this st(5), of "ppa_data p" "temp_read_buffer s ! length ?fp"] obtain rs where
      rs: "add_read_op_page (ROP c) (ppa_data p) (temp_read_buffer s ! length ?fp) s =
          Some (length (fetch_list (ftl_abs s) (temp_read_buffer s) ?fp) + 1, s\<lparr>rops := rs\<rparr>)"
        "op_holds rs c (fetch_list (ftl_abs s) (temp_read_buffer s) ?fp @ [(ppa_data p, temp_read_buffer s ! length ?fp)])"
        "ops_ok FLASH_READ_OPERATION rs" by blast
    let ?e1 = "?e\<lparr>rg_is_unmapped := False, rg_current_ppa := p, rg_temp_buffer := temp_read_buffer s ! length ?fp\<rparr>"
    have "rentry_ok g (ftl_abs s) (temp_read_buffer s) ps (length ?fp) ?np ?e1"
      unfolding rentry_ok_def z [symmetric] using p by (simp add: fresh_read_page_def)
    from rentry_same [OF g this] have "reading g c (ps @ [(l, a)]) (s\<lparr>rops := rs, read_pages := (read_pages s)[length ?fp := note_page g l a ?e1],
        read_pages_count := Suc (length ?fp)\<rparr>)"
      by (intro reading_snoc [OF g r new n]) (simp_all add: fetch_list_snoc p rs)
    then show "\<exists>rs e. new_read_page g (ROP c) ?np s =
      Some (True, s\<lparr>rops := rs, read_pages := (read_pages s)[read_pages_count s := e], read_pages_count := Suc (read_pages_count s)\<rparr>) \<and>
      \<not> rg_is_unmapped e \<and> reading g c (ps @ [(l, a)]) (s\<lparr>rops := rs, read_pages := (read_pages s)[read_pages_count s := note_page g l a e],
        read_pages_count := Suc (read_pages_count s)\<rparr>)"
      using rs(1) tb st n by (intro exI [of _ rs] exI [of _ ?e1]) (simp add: new_read_page_def Let_def)
  }
  assume un: "ftl_abs s (unat ?np) = None"
  then have tb: "IS_UNMAPPED_LPA (unat ?np) s = Some True" using b by (simp add: IS_UNMAPPED_LPA_def ftl_abs_def split: if_splits)
  have "rentry_ok g (ftl_abs s) (temp_read_buffer s) (ps @ [(l, a)]) (length ?fp) ?np (?e\<lparr>rg_is_unmapped := True\<rparr>)"
    using un by (simp add: rentry_ok_def fresh_read_page_def)
  from reading_snoc [OF g r new n this, of "rops s"] st un
  have "reading g c (ps @ [(l, a)]) (s\<lparr>read_pages := (read_pages s)[read_pages_count s := ?e\<lparr>rg_is_unmapped := True\<rparr>],
      read_pages_count := Suc (read_pages_count s)\<rparr>)" by (simp add: fetch_list_snoc)
  then show "\<exists>e. new_read_page g (ROP c) ?np s = Some (False, s\<lparr>read_pages := (read_pages s)[read_pages_count s := e]\<rparr>) \<and>
      reading g c (ps @ [(l, a)]) (s\<lparr>read_pages := (read_pages s)[read_pages_count s := e\<lparr>rg_is_unmapped := True\<rparr>], read_pages_count := Suc (read_pages_count s)\<rparr>)"
    using tb st n by (intro exI [of _ ?e]) (simp add: new_read_page_def Let_def)
qed

section \<open>Reads of the module\<close>

text \<open>What collecting changes.\<close>

definition rframe :: "'a uneq_st_scheme \<Rightarrow> 'a uneq_st_scheme \<Rightarrow> bool" where
  "rframe s s' \<longleftrightarrow> (\<exists>rs pg n. s' = s\<lparr>rops := rs, read_pages := pg, read_pages_count := n\<rparr>)"

lemma rframe_intro: "rframe s (s\<lparr>rops := rs, read_pages := pg, read_pages_count := n\<rparr>)"
  unfolding rframe_def by blast

lemma rframe_pages: "rframe s (s\<lparr>read_pages := pg\<rparr>)"
  unfolding rframe_def by (rule exI [of _ "rops s"], rule exI [of _ pg], rule exI [of _ "read_pages_count s"]) simp

lemma rframe_refl: "rframe s s"
  using rframe_pages [of s "read_pages s"] by simp

lemma rframe_trans: "rframe s s1 \<Longrightarrow> rframe s1 s2 \<Longrightarrow> rframe s s2"
  unfolding rframe_def by (elim exE) (simp, blast)

lemma rframe_same: "rframe s s' \<Longrightarrow> lpa_table s' = lpa_table s \<and> ram s' = ram s \<and> nand_img s' = nand_img s \<and>
    free_rop_objs s' = free_rop_objs s \<and> temp_read_buffer s' = temp_read_buffer s \<and> r_req s' = r_req s \<and> queues s' = queues s"
  by (auto simp: rframe_def)

lemma sync_read_loop_spec:
  assumes g: "uneq_geo g" and "reading g c ps s" "length (flash_pages g (ps @ qs)) \<le> MDTS_PAGES"
    "\<forall>(l, a) \<in> set qs. unat (nand_page_of g l) < length (lpa_table s) \<and> ftl_abs s (unat (nand_page_of g l)) \<noteq> None"
  shows "\<exists>s'. sync_read_loop g (ROP c) qs s = Some (True, s') \<and> reading g c (ps @ qs) s' \<and> rframe s s'"
  using assms(2-)
proof (induction qs arbitrary: ps s)
  case (Cons x qs)
  obtain l a where x: "x = (l, a)" by fastforce
  let ?np = "nand_page_of g l"
  have b: "unat ?np < length (lpa_table s)" "ftl_abs s (unat ?np) \<noteq> None" using Cons.prems x by auto
  have "\<exists>s1. sync_read_loop g (ROP c) (x # qs) s = sync_read_loop g (ROP c) qs s1 \<and> reading g c (ps @ [x]) s1 \<and> rframe s s1"
  proof (cases rule: find_info_cases [of ?np "flash_pages g ps"])
    case 1
    have "Suc (length (flash_pages g ps)) \<le> length (flash_pages g (ps @ x # qs))"
      using flash_pages_mono [of g "ps @ [x]" qs] 1 by (simp add: flash_pages_snoc x)
    with Cons.prems(2) have n: "length (flash_pages g ps) < MDTS_PAGES" by simp
    from read_new(1) [OF g Cons.prems(1) 1(2) n b(1,2)] obtain rs e where
      e: "new_read_page g (ROP c) ?np s =
          Some (True, s\<lparr>rops := rs, read_pages := (read_pages s)[read_pages_count s := e], read_pages_count := Suc (read_pages_count s)\<rparr>)"
        "reading g c (ps @ [(l, a)]) (s\<lparr>rops := rs, read_pages := (read_pages s)[read_pages_count s := note_page g l a e],
          read_pages_count := Suc (read_pages_count s)\<rparr>)" by blast
    have "read_pages_count s < length (read_pages s)" using Cons.prems(1) n by (simp add: reading_def Let_def)
    with e(1) have "sync_read_loop g (ROP c) (x # qs) s = sync_read_loop g (ROP c) qs (s\<lparr>rops := rs,
        read_pages := (read_pages s)[read_pages_count s := note_page g l a e], read_pages_count := Suc (read_pages_count s)\<rparr>)"
      by (simp add: x reading_find [OF Cons.prems(1)] 1(1) note_host_page_new)
    with e(2) x rframe_intro show ?thesis by blast
  next
    case (2 i)
    have "sync_read_loop g (ROP c) (x # qs) s = sync_read_loop g (ROP c) qs (note_host_page g i l a s)"
      by (simp add: x reading_find [OF Cons.prems(1)] 2(1))
    moreover have "rframe s (note_host_page g i l a s)" unfolding note_host_page_eq by (rule rframe_pages)
    ultimately show ?thesis using read_known(2) [OF g Cons.prems(1) 2(1) b(2)] x by blast
  qed
  then obtain s1 where s1: "sync_read_loop g (ROP c) (x # qs) s = sync_read_loop g (ROP c) qs s1" "reading g c (ps @ [x]) s1" "rframe s s1" by blast
  have "lpa_table s1 = lpa_table s" "ftl_abs s1 = ftl_abs s" using rframe_same [OF s1(3)] ftl_abs_cong [of s1 s] by simp_all
  with Cons.IH [OF s1(2)] Cons.prems obtain s2 where "sync_read_loop g (ROP c) qs s1 = Some (True, s2)" "reading g c (ps @ x # qs) s2" "rframe s1 s2"
    by auto
  with s1 rframe_trans show ?case by metis
qed (simp add: rframe_refl)

section \<open>Copies out of the temporary buffers\<close>

definition dest :: "read_pages_t \<Rightarrow> nat \<Rightarrow> bool" where
  "dest e j \<longleftrightarrow> \<not> rg_is_unmapped e \<and> rg_host_page_ptrs e ! j \<noteq> 0"

definition hits_dest :: "geo \<Rightarrow> read_pages_t \<Rightarrow> nat \<Rightarrow> nat \<Rightarrow> bool" where
  "hits_dest g e n x \<longleftrightarrow> (\<exists>j < n. dest e j \<and> rg_host_page_ptrs e ! j \<le> x \<and> x < rg_host_page_ptrs e ! j + HOST_PAGE_SIZE g)"

text \<open>All destinations are apart from each other and from the temporary buffers.\<close>

definition dests_apart :: "geo \<Rightarrow> read_pages_t list \<Rightarrow> bool" where
  "dests_apart g es \<longleftrightarrow>
     (\<forall>e \<in> set es. \<forall>j < HOST_PER_NAND_PAGES g. dest e j \<longrightarrow> (\<forall>e' \<in> set es. \<not> rg_is_unmapped e' \<longrightarrow> apart g (rg_host_page_ptrs e ! j) (rg_temp_buffer e'))) \<and>
     (\<forall>i < length es. \<forall>i' < length es. \<forall>j < HOST_PER_NAND_PAGES g. \<forall>j' < HOST_PER_NAND_PAGES g. dest (es ! i) j \<and> dest (es ! i') j' \<and> (i, j) \<noteq> (i', j') \<longrightarrow>
        rg_host_page_ptrs (es ! i) ! j + HOST_PAGE_SIZE g \<le> rg_host_page_ptrs (es ! i') ! j' \<or>
        rg_host_page_ptrs (es ! i') ! j' + HOST_PAGE_SIZE g \<le> rg_host_page_ptrs (es ! i) ! j)"

lemma copy_page_steps:
  fixes e :: read_pages_t
  assumes g: "uneq_geo g" and mp: "\<not> rg_is_unmapped e" and n: "n \<le> HOST_PER_NAND_PAGES g"
    and ap: "\<forall>j < HOST_PER_NAND_PAGES g. dest e j \<longrightarrow> apart g (rg_host_page_ptrs e ! j) (rg_temp_buffer e)"
    and da: "\<forall>j < HOST_PER_NAND_PAGES g. \<forall>j' < HOST_PER_NAND_PAGES g. dest e j \<and> dest e j' \<and> j \<noteq> j' \<longrightarrow>
      rg_host_page_ptrs e ! j + HOST_PAGE_SIZE g \<le> rg_host_page_ptrs e ! j' \<or> rg_host_page_ptrs e ! j' + HOST_PAGE_SIZE g \<le> rg_host_page_ptrs e ! j"
  defines "F \<equiv> fold (\<lambda>ih m. if rg_host_page_ptrs e ! ih = 0 then m
     else memcpy_sysbitw m (rg_host_page_ptrs e ! ih) (rg_temp_buffer e + ih * HOST_PAGE_SIZE g) (HOST_PAGE_SIZE g div 4))"
  shows "\<not> hits_dest g e n x \<Longrightarrow> F [0..<n] m x = m x"
    and "j < n \<Longrightarrow> dest e j \<Longrightarrow> b < HOST_PAGE_SIZE g \<Longrightarrow>
      F [0..<n] m (rg_host_page_ptrs e ! j + b) = m (rg_temp_buffer e + j * HOST_PAGE_SIZE g + b)"
proof -
  let ?S = "HOST_PAGE_SIZE g" and ?p = "\<lambda>j. rg_host_page_ptrs e ! j" and ?t = "rg_temp_buffer e"
  note sz = uneq_sizes [OF g]
  have inT: "k * ?S + ?S \<le> NAND_PAGE_SIZE g" if "k < HOST_PER_NAND_PAGES g" for k
    using that mult_le_mono1 [of "Suc k" "HOST_PER_NAND_PAGES g" ?S] sz(1) by simp
  have de: "dest e k \<longleftrightarrow> ?p k \<noteq> 0" for k using mp by (simp add: dest_def)
  have step: "memcpy_sysbitw m' (?p k) (?t + k * ?S) (?S div 4) y = (if ?p k \<le> y \<and> y < ?p k + ?S then m' (?t + k * ?S + (y - ?p k)) else m' y)"
    if "k < HOST_PER_NAND_PAGES g" "?p k \<noteq> 0" for k m' y
  proof -
    have "apart g (?p k) ?t" using ap that de by simp
    then have "?p k + 4 * (?S div 4) \<le> ?t + k * ?S \<or> ?t + k * ?S + 4 * (?S div 4) \<le> ?p k"
      using inT [OF that(1)] sz(4) by (auto simp: apart_def)
    from memcpy_sysbitw_apply [OF this, of m' y] show ?thesis by (simp add: sz(4))
  qed
  have miss: "k \<le> HOST_PER_NAND_PAGES g \<Longrightarrow> \<not> hits_dest g e k y \<Longrightarrow> F [0..<k] m y = m y" for k y
  proof (induction k)
    case (Suc k)
    then have "\<not> hits_dest g e k y" "?p k \<noteq> 0 \<Longrightarrow> \<not> (?p k \<le> y \<and> y < ?p k + ?S)" by (auto simp: hits_dest_def de)
    with Suc show ?case by (cases "?p k = 0") (auto simp: F_def step)
  qed (simp add: F_def)
  then show "\<not> hits_dest g e n x \<Longrightarrow> F [0..<n] m x = m x" using n by blast
  have hit: "k \<le> HOST_PER_NAND_PAGES g \<Longrightarrow> j < k \<Longrightarrow> dest e j \<Longrightarrow> b < ?S \<Longrightarrow> F [0..<k] m (?p j + b) = m (?t + j * ?S + b)" for k j b
  proof (induction k)
    case (Suc k)
    show ?case
    proof (cases "j = k")
      case True
      have "\<not> hits_dest g e k (?t + k * ?S + b)"
      proof
        assume "hits_dest g e k (?t + k * ?S + b)"
        then obtain j' where j': "j' < k" "dest e j'" "?p j' \<le> ?t + k * ?S + b" "?t + k * ?S + b < ?p j' + ?S" by (auto simp: hits_dest_def)
        moreover from this ap Suc.prems(1) have "apart g (?p j') ?t" by simp
        ultimately show False using inT [of k] Suc.prems(1,4) by (auto simp: apart_def)
      qed
      with miss [of k "?t + k * ?S + b"] Suc.prems True show ?thesis by (simp add: F_def step de)
    next
      case False
      with Suc.prems have jk: "j < k" "k < HOST_PER_NAND_PAGES g" by simp_all
      have "\<not> (?p k \<le> ?p j + b \<and> ?p j + b < ?p k + ?S)" if "?p k \<noteq> 0"
        using da [rule_format, of j k] jk Suc.prems that de by auto
      with Suc jk show ?thesis by (cases "?p k = 0") (auto simp: F_def step)
    qed
  qed simp
  then show "j < n \<Longrightarrow> dest e j \<Longrightarrow> b < ?S \<Longrightarrow> F [0..<n] m (?p j + b) = m (?t + j * ?S + b)" using n by blast
qed

definition copy_all :: "geo \<Rightarrow> read_pages_t list \<Rightarrow> nat \<Rightarrow> mem \<Rightarrow> mem" where
  "copy_all g es n = fold (\<lambda>i m. if rg_is_unmapped (es ! i) then m else copy_page g (es ! i) m) [0..<n]"

lemma copy_all_spec:
  assumes g: "uneq_geo g" and d: "dests_apart g es"
  shows "n \<le> length es \<Longrightarrow> \<forall>i < n. \<not> hits_dest g (es ! i) (HOST_PER_NAND_PAGES g) x \<Longrightarrow> copy_all g es n m x = m x"
    and "n \<le> length es \<Longrightarrow> i < n \<Longrightarrow> j < HOST_PER_NAND_PAGES g \<Longrightarrow> dest (es ! i) j \<Longrightarrow> b < HOST_PAGE_SIZE g \<Longrightarrow>
      copy_all g es n m (rg_host_page_ptrs (es ! i) ! j + b) = m (rg_temp_buffer (es ! i) + j * HOST_PAGE_SIZE g + b)"
proof -
  let ?S = "HOST_PAGE_SIZE g" and ?H = "HOST_PER_NAND_PAGES g"
  have ap: "apart g (rg_host_page_ptrs (es ! i) ! j) (rg_temp_buffer (es ! i'))"
    if "i < length es" "i' < length es" "j < ?H" "dest (es ! i) j" "\<not> rg_is_unmapped (es ! i')" for i i' j
    using d that nth_mem [OF that(1)] nth_mem [OF that(2)] by (simp add: dests_apart_def)
  have da: "rg_host_page_ptrs (es ! i) ! j + ?S \<le> rg_host_page_ptrs (es ! i') ! j' \<or> rg_host_page_ptrs (es ! i') ! j' + ?S \<le> rg_host_page_ptrs (es ! i) ! j"
    if "i < length es" "i' < length es" "j < ?H" "j' < ?H" "dest (es ! i) j" "dest (es ! i') j'" "(i, j) \<noteq> (i', j')" for i i' j j'
    using d that unfolding dests_apart_def by blast
  have cp: "\<not> hits_dest g (es ! i) ?H x \<Longrightarrow> copy_page g (es ! i) m' x = m' x"
    "j < ?H \<Longrightarrow> dest (es ! i) j \<Longrightarrow> b < ?S \<Longrightarrow> copy_page g (es ! i) m' (rg_host_page_ptrs (es ! i) ! j + b) = m' (rg_temp_buffer (es ! i) + j * ?S + b)"
    if "i < length es" "\<not> rg_is_unmapped (es ! i)" for i m' x j b
  proof -
    have a: "\<forall>j < ?H. dest (es ! i) j \<longrightarrow> apart g (rg_host_page_ptrs (es ! i) ! j) (rg_temp_buffer (es ! i))" using ap that by blast
    have b: "\<forall>j < ?H. \<forall>j' < ?H. dest (es ! i) j \<and> dest (es ! i) j' \<and> j \<noteq> j' \<longrightarrow>
      rg_host_page_ptrs (es ! i) ! j + ?S \<le> rg_host_page_ptrs (es ! i) ! j' \<or> rg_host_page_ptrs (es ! i) ! j' + ?S \<le> rg_host_page_ptrs (es ! i) ! j"
      using da [OF that(1) that(1)] by blast
    show "\<not> hits_dest g (es ! i) ?H x \<Longrightarrow> copy_page g (es ! i) m' x = m' x"
      "j < ?H \<Longrightarrow> dest (es ! i) j \<Longrightarrow> b < ?S \<Longrightarrow> copy_page g (es ! i) m' (rg_host_page_ptrs (es ! i) ! j + b) = m' (rg_temp_buffer (es ! i) + j * ?S + b)"
      using copy_page_steps [OF g that(2) order_refl a b] unfolding copy_page_def by simp_all
  qed
  have miss: "n \<le> length es \<Longrightarrow> \<forall>i < n. \<not> hits_dest g (es ! i) ?H x \<Longrightarrow> copy_all g es n m x = m x" for n x
    by (induction n) (simp_all add: copy_all_def cp(1))
  then show "n \<le> length es \<Longrightarrow> \<forall>i < n. \<not> hits_dest g (es ! i) ?H x \<Longrightarrow> copy_all g es n m x = m x" .
  show "n \<le> length es \<Longrightarrow> i < n \<Longrightarrow> j < ?H \<Longrightarrow> dest (es ! i) j \<Longrightarrow> b < ?S \<Longrightarrow>
      copy_all g es n m (rg_host_page_ptrs (es ! i) ! j + b) = m (rg_temp_buffer (es ! i) + j * ?S + b)"
  proof (induction n)
    case (Suc n)
    have un: "\<not> rg_is_unmapped (es ! i)" using Suc.prems(4) by (simp add: dest_def)
    have split: "copy_all g es (Suc n) m = (if rg_is_unmapped (es ! n) then copy_all g es n m else copy_page g (es ! n) (copy_all g es n m))"
      by (simp add: copy_all_def)
    show ?case
    proof (cases "i = n")
      case True
      have jS: "j * ?S + ?S \<le> NAND_PAGE_SIZE g"
        using Suc.prems(3) mult_le_mono1 [of "Suc j" ?H ?S] uneq_sizes(1) [OF g] by simp
      have "\<not> hits_dest g (es ! i') ?H (rg_temp_buffer (es ! i) + j * ?S + b)" if "i' < n" for i'
      proof
        assume "hits_dest g (es ! i') ?H (rg_temp_buffer (es ! i) + j * ?S + b)"
        then obtain j' where j': "j' < ?H" "dest (es ! i') j'" "rg_host_page_ptrs (es ! i') ! j' \<le> rg_temp_buffer (es ! i) + j * ?S + b"
          "rg_temp_buffer (es ! i) + j * ?S + b < rg_host_page_ptrs (es ! i') ! j' + ?S" by (auto simp: hits_dest_def)
        with ap [of i' i j'] that Suc.prems un jS show False by (auto simp: apart_def)
      qed
      with miss [of n "rg_temp_buffer (es ! i) + j * ?S + b"] Suc.prems un True show ?thesis by (simp add: split cp(2))
    next
      case False
      with Suc.prems have i: "i < n" by simp
      have "\<not> hits_dest g (es ! n) ?H (rg_host_page_ptrs (es ! i) ! j + b)"
      proof
        assume "hits_dest g (es ! n) ?H (rg_host_page_ptrs (es ! i) ! j + b)"
        then obtain j' where j': "j' < ?H" "dest (es ! n) j'" "rg_host_page_ptrs (es ! n) ! j' \<le> rg_host_page_ptrs (es ! i) ! j + b"
          "rg_host_page_ptrs (es ! i) ! j + b < rg_host_page_ptrs (es ! n) ! j' + ?S" by (auto simp: hits_dest_def)
        with da [of i n j j'] i Suc.prems show False by auto
      qed
      with Suc i show ?thesis by (simp add: split cp(1))
    qed
  qed simp
qed

section \<open>What a run of reads delivers\<close>

definition read_ram_ok :: "geo \<Rightarrow> nat list \<Rightarrow> (u32 \<times> nat) list \<Rightarrow> bool" where
  "read_ram_ok g ts ps \<longleftrightarrow> run_ram_ok g ts ps \<and> distinct (map fst ps) \<and>
     (\<forall>x \<in> set ps. \<forall>y \<in> set ps. fst x \<noteq> fst y \<longrightarrow> snd x + HOST_PAGE_SIZE g \<le> snd y \<or> snd y + HOST_PAGE_SIZE g \<le> snd x)"

text \<open>
  Every page of the run that lies in a mapped flash page arrives at its address. The memory of the other
  pages of the run is left as it was, like all memory outside of the run and the temporary buffers.
\<close>

definition run_read :: "geo \<Rightarrow> 'a uneq_st_scheme \<Rightarrow> (u32 \<times> nat) list \<Rightarrow> mem \<Rightarrow> bool" where
  "run_read g s ps m \<longleftrightarrow>
     (\<forall>(l, a) \<in> set ps. ftl_abs s (unat (nand_page_of g l)) \<noteq> None \<longrightarrow> (\<forall>b < HOST_PAGE_SIZE g. m (a + b) = host_view g s (unat l) b)) \<and>
     (\<forall>x. (\<forall>t \<in> set (temp_read_buffer s). \<not> (t \<le> x \<and> x < t + NAND_PAGE_SIZE g)) \<and>
        (\<forall>(l, a) \<in> set ps. ftl_abs s (unat (nand_page_of g l)) \<noteq> None \<longrightarrow> \<not> (a \<le> x \<and> x < a + HOST_PAGE_SIZE g)) \<longrightarrow> m x = ram s x)"

lemma last_addr_distinct: "distinct (map fst ps) \<Longrightarrow> (l, a) \<in> set ps \<Longrightarrow> last_addr ps (unat l) = Some a"
proof -
  assume d: "distinct (map fst ps)" and m: "(l, a) \<in> set ps"
  let ?qs = "map (\<lambda>x. (unat (fst x), snd x)) ps"
  have "map fst ?qs = map unat (map fst ps)" by simp
  with d have "distinct (map fst ?qs)" by (simp only: distinct_map) (auto simp: inj_on_def word_unat_eq_iff)
  moreover have "(unat l, a) \<in> set ?qs" using m by force
  ultimately show ?thesis by (simp add: last_addr_def map_of_rev_distinct)
qed

lemma copies_run:
  assumes g: "uneq_geo g" and es: "rentries_ok g (ftl_abs s) (temp_read_buffer s) ps es" and ro: "read_ram_ok g (temp_read_buffer s) ps"
    and len: "length es \<le> length (temp_read_buffer s)" and m: "map_ok g s"
  shows "run_read g s ps (copy_all g es (length es) (copy_in g (fetch_list (ftl_abs s) (temp_read_buffer s) (flash_pages g ps)) (nand_img s) (ram s)))"
proof -
  let ?H = "HOST_PER_NAND_PAGES g" and ?S = "HOST_PAGE_SIZE g" and ?P = "NAND_PAGE_SIZE g"
  let ?fp = "flash_pages g ps" and ?trb = "temp_read_buffer s" and ?tbl = "ftl_abs s"
  let ?m = "copy_in g (fetch_list ?tbl ?trb ?fp) (nand_img s) (ram s)"
  note sz = uneq_sizes [OF g]
  have ok: "geo_ok g" using g by (simp add: uneq_geo_def)
  have n: "length es = length ?fp" using es by (simp add: rentries_ok_def)
  have e: "rentry_ok g ?tbl ?trb ps i (?fp ! i) (es ! i)" if "i < length es" for i using es that by (simp add: rentries_ok_def)
  have d: "distinct (map fst ps)" and ap: "\<And>x t. x \<in> set ps \<Longrightarrow> t \<in> set ?trb \<Longrightarrow> snd x \<noteq> 0 \<and> apart g (snd x) t"
    and da: "\<And>x y. x \<in> set ps \<Longrightarrow> y \<in> set ps \<Longrightarrow> fst x \<noteq> fst y \<Longrightarrow> snd x + ?S \<le> snd y \<or> snd y + ?S \<le> snd x"
    and ta: "temps_apart g ?trb" using ro by (auto simp: read_ram_ok_def run_ram_ok_def)
  have mem: "\<exists>l. (l, rg_host_page_ptrs (es ! i) ! j) \<in> set ps \<and> nand_page_of g l = ?fp ! i \<and> offset_of g l = j \<and> ?tbl (unat (?fp ! i)) \<noteq> None"
    if "i < length es" "j < ?H" "dest (es ! i) j" for i j
  proof -
    have un: "?tbl (unat (?fp ! i)) \<noteq> None" using e [OF that(1)] that(3) by (auto simp: dest_def rentry_ok_def)
    then have "rg_host_page_ptrs (es ! i) ! j = ptr_at g ps (?fp ! i) j" using e [OF that(1)] that(2) by (auto simp: rentry_ok_def)
    with that(3) have "last_addr ps (unat (?fp ! i) * ?H + j) = Some (rg_host_page_ptrs (es ! i) ! j)"
      by (auto simp: dest_def ptr_at_def split: option.splits)
    from last_addr_mem [OF this] obtain x where x: "x \<in> set ps" "unat (fst x) = unat (?fp ! i) * ?H + j" "snd x = rg_host_page_ptrs (es ! i) ! j" by blast
    have "?fp ! i = nand_page_of g (fst x) \<and> j = offset_of g (fst x)" using host_page_split [OF g that(2)] x(2) by metis
    with x(1,3) un show ?thesis by (metis prod.collapse)
  qed
  have tmp: "rg_temp_buffer (es ! i) = ?trb ! i" "?trb ! i \<in> set ?trb" if "i < length es" "\<not> rg_is_unmapped (es ! i)" for i
    using e [OF that(1)] that len by (auto simp: rentry_ok_def)
  have dap: "dests_apart g es"
    unfolding dests_apart_def
  proof (intro conjI ballI allI impI)
    fix e1 j e2 assume a: "e1 \<in> set es" "j < ?H" "dest e1 j" "e2 \<in> set es" "\<not> rg_is_unmapped e2"
    then obtain i i2 where i: "i < length es" "e1 = es ! i" "i2 < length es" "e2 = es ! i2" by (metis in_set_conv_nth)
    from mem [OF i(1) a(2)] a(3) i(2) obtain l where "(l, rg_host_page_ptrs e1 ! j) \<in> set ps" by blast
    from ap [OF this, of "rg_temp_buffer e2"] tmp [OF i(3)] a(5) i(4) show "apart g (rg_host_page_ptrs e1 ! j) (rg_temp_buffer e2)" by simp
  next
    fix i i' j j' assume a: "i < length es" "i' < length es" "j < ?H" "j' < ?H" "dest (es ! i) j \<and> dest (es ! i') j' \<and> (i, j) \<noteq> (i', j')"
    from mem [OF a(1,3)] a(5) obtain l where l: "(l, rg_host_page_ptrs (es ! i) ! j) \<in> set ps" "nand_page_of g l = ?fp ! i" "offset_of g l = j" by blast
    from mem [OF a(2,4)] a(5) obtain l' where l': "(l', rg_host_page_ptrs (es ! i') ! j') \<in> set ps" "nand_page_of g l' = ?fp ! i'" "offset_of g l' = j'" by blast
    have "l \<noteq> l'"
    proof
      assume "l = l'"
      with l l' have "j = j'" "?fp ! i = ?fp ! i'" by simp_all
      moreover from this a(1,2) n have "i = i'" using flash_pages_distinct [of g ps] by (simp add: nth_eq_iff_index_eq)
      ultimately show False using a(5) by simp
    qed
    with da [OF l(1) l'(1)] show "rg_host_page_ptrs (es ! i) ! j + ?S \<le> rg_host_page_ptrs (es ! i') ! j' \<or>
        rg_host_page_ptrs (es ! i') ! j' + ?S \<le> rg_host_page_ptrs (es ! i) ! j" by simp
  qed
  have fl: "(d', a') \<in> set (fetch_list ?tbl ?trb ?fp) \<longleftrightarrow> (\<exists>i < length es. \<exists>p. ?tbl (unat (?fp ! i)) = Some p \<and> d' = ppa_data p \<and> a' = ?trb ! i)" for d' a'
    by (force simp: fetch_list_def n)
  have "copy_all g es (length es) ?m (a + b) = host_view g s (unat l) b"
    if la: "(l, a) \<in> set ps" "?tbl (unat (nand_page_of g l)) \<noteq> None" and b: "b < ?S" for l a b
  proof -
    from la(2) obtain p where p: "?tbl (unat (nand_page_of g l)) = Some p" by blast
    have "nand_page_of g l \<in> set ?fp" using la(1) unfolding flash_pages_set by (metis fst_conv imageI)
    then obtain i where i: "i < length es" "?fp ! i = nand_page_of g l" by (metis in_set_conv_nth n)
    let ?j = "offset_of g l"
    have j: "?j < ?H" using sz(2) by (simp add: nand_page_nat [OF g])
    have "unat (nand_page_of g l) * ?H + ?j = unat l" using host_page_split [OF g j] by blast
    then have "ptr_at g ps (nand_page_of g l) ?j = a" using last_addr_distinct [OF d la(1)] by (simp add: ptr_at_def)
    then have pt: "rg_host_page_ptrs (es ! i) ! ?j = a" "\<not> rg_is_unmapped (es ! i)" using e [OF i(1)] i(2) p j by (auto simp: rentry_ok_def)
    have "?trb ! i \<in> set ?trb" using i(1) len by simp
    with ap [OF la(1)] pt have ds: "dest (es ! i) ?j" by (simp add: dest_def)
    have jS: "?j * ?S + b < ?P" using mixed_less [OF j b] sz(1) by simp
    have "copy_all g es (length es) ?m (a + b) = ?m (?trb ! i + (?j * ?S + b))"
      using copy_all_spec(2) [OF g dap order_refl i(1) j ds b, of ?m] tmp(1) [OF i(1) pt(2)] pt(1) by (simp add: add.assoc)
    also have "\<dots> = nand_img s (ppa_index g (ppa_of (ppa_data p)) * ?P + (?trb ! i + (?j * ?S + b) - ?trb ! i))"
    proof (rule copy_in_hit)
      show "(ppa_data p, ?trb ! i) \<in> set (fetch_list ?tbl ?trb ?fp)" using fl i p by metis
      show "\<forall>(d', a') \<in> set (fetch_list ?tbl ?trb ?fp). a' \<le> ?trb ! i + (?j * ?S + b) \<and> ?trb ! i + (?j * ?S + b) < a' + ?P \<longrightarrow>
          (d', a') = (ppa_data p, ?trb ! i)"
      proof clarify
        fix d' a' assume q: "(d', a') \<in> set (fetch_list ?tbl ?trb ?fp)" "a' \<le> ?trb ! i + (?j * ?S + b)" "?trb ! i + (?j * ?S + b) < a' + ?P"
        from q(1) fl obtain i' p' where i': "i' < length es" "?tbl (unat (?fp ! i')) = Some p'" "d' = ppa_data p'" "a' = ?trb ! i'" by blast
        have "i' = i"
        proof (rule ccontr)
          assume "i' \<noteq> i"
          then have "?trb ! i + ?P \<le> ?trb ! i' \<or> ?trb ! i' + ?P \<le> ?trb ! i"
            using ta i' i len unfolding temps_apart_def by (metis less_le_trans linorder_neqE_nat)
          with q(2,3) i'(4) jS show False by linarith
        qed
        with i' i(2) p show "d' = ppa_data p \<and> a' = ?trb ! i" by simp
      qed
    qed (use jS in simp_all)
    also have "\<dots> = host_view g s (unat l) b"
      using mapped_page(2) [OF ok m p] p by (simp add: host_view_def lview_def nand_page_nat [OF g] add.assoc)
    finally show ?thesis .
  qed
  moreover have "copy_all g es (length es) ?m x = ram s x"
    if x: "\<forall>t \<in> set ?trb. \<not> (t \<le> x \<and> x < t + ?P)" "\<forall>(l, a) \<in> set ps. ?tbl (unat (nand_page_of g l)) \<noteq> None \<longrightarrow> \<not> (a \<le> x \<and> x < a + ?S)" for x
  proof -
    have "\<not> hits_dest g (es ! i) ?H x" if i: "i < length es" for i
    proof
      assume "hits_dest g (es ! i) ?H x"
      then obtain j where j: "j < ?H" "dest (es ! i) j" "rg_host_page_ptrs (es ! i) ! j \<le> x" "x < rg_host_page_ptrs (es ! i) ! j + ?S"
        by (auto simp: hits_dest_def)
      from mem [OF i j(1,2)] j(3,4) x(2) show False by fastforce
    qed
    then have "copy_all g es (length es) ?m x = ?m x" by (intro copy_all_spec(1) [OF g dap order_refl]) blast
    also have "\<dots> = ram s x"
    proof (rule copy_in_miss, clarify)
      fix d' a' assume q: "(d', a') \<in> set (fetch_list ?tbl ?trb ?fp)" "a' \<le> x" "x < a' + ?P"
      from q(1) fl obtain i' where "i' < length es" "a' = ?trb ! i'" by blast
      then have "a' \<in> set ?trb" using len by simp
      with x(1) q(2,3) show False by blast
    qed
    finally show ?thesis .
  qed
  ultimately show ?thesis unfolding run_read_def by blast
qed

lemma copy_all_take: "n \<le> length es \<Longrightarrow> copy_all g (take n es) n = copy_all g es n"
  unfolding copy_all_def by (intro ext fold_cong) (auto simp: fun_eq_iff)

lemma copy_pages_eq:
  "read_pages_count s = n \<Longrightarrow> n \<le> length (read_pages s) \<Longrightarrow> copy_pages g s = s\<lparr>ram := copy_all g (take n (read_pages s)) n (ram s)\<rparr>"
  by (simp add: copy_pages_def copy_all_take) (simp add: copy_all_def)

lemma fold_upd_length: "length (fold (\<lambda>ix l. l[ix := h ix l]) ixs xs) = length xs"
  by (induction ixs arbitrary: xs) simp_all

definition arrived :: "geo \<Rightarrow> 'a uneq_st_scheme \<Rightarrow> (u32 \<times> nat) list \<Rightarrow> read_pages_t list \<Rightarrow> mem" where
  "arrived g s ps es = copy_all g es (length es) (copy_in g (fetch_list (ftl_abs s) (temp_read_buffer s) (flash_pages g ps)) (nand_img s) (ram s))"

definition temps_in_ram :: "geo \<Rightarrow> nat list \<Rightarrow> bool" where
  "temps_in_ram g ts \<longleftrightarrow> (\<forall>t \<in> set ts. t + NAND_PAGE_SIZE g \<le> 2 ^ 32)"

lemma end_read_uneq:
  assumes g: "uneq_geo g" and r: "reading g c ps s" and m: "map_ok g s" and ro: "temps_in_ram g (temp_read_buffer s)"
  shows "\<exists>hw es. map_option (copy_pages g) (sync_end_read_op g (ROP c) s) =
      Some (s\<lparr>nand_regs := hw, ram := arrived g s ps es, free_rop_objs := q_give (free_rop_objs s) (ROP c)\<rparr>) \<and>
    rentries_ok g (ftl_abs s) (temp_read_buffer s) ps es \<and> length es \<le> length (temp_read_buffer s)"
proof -
  let ?n = "length (flash_pages g ps)" and ?fl = "fetch_list (ftl_abs s) (temp_read_buffer s) (flash_pages g ps)"
  let ?es = "take ?n (read_pages s)"
  have ok: "geo_ok g" using g by (simp add: uneq_geo_def)
  have st: "rentries_ok g (ftl_abs s) (temp_read_buffer s) ps ?es" "read_pages_count s = ?n" "op_holds (rops s) c ?fl"
    "ops_ok FLASH_READ_OPERATION (rops s)" "length (read_pages s) = MDTS_PAGES" "length (temp_read_buffer s) = MDTS_PAGES"
    using r by (simp_all add: reading_def Let_def)
  have n: "length ?es = ?n" "?n \<le> length (read_pages s)" using st(1) by (auto simp: rentries_ok_def)
  have "pages_ok g ?fl"
    unfolding pages_ok_def
  proof clarify
    fix d a assume "(d, a) \<in> set ?fl"
    then obtain i p where i: "i < ?n" "ftl_abs s (unat (flash_pages g ps ! i)) = Some p" "d = ppa_data p" "a = temp_read_buffer s ! i"
      by (auto simp: fetch_list_def)
    have "a \<in> set (temp_read_buffer s)" using i(1,4) n st(5,6) by simp
    then have "a + NAND_PAGE_SIZE g \<le> 2 ^ 32" using ro by (simp add: temps_in_ram_def)
    then show "ppa_ok g (ppa_of d) \<and> a < 2 ^ 32" using mapped_page [OF ok m i(2)] i(3) page_size_pos [of g] by simp
  qed
  from end_read [OF ok st(3,4) this] obtain hw where
    e: "sync_end_read_op g (ROP c) s = Some (s\<lparr>nand_regs := hw, ram := copy_in g ?fl (nand_img s) (ram s), free_rop_objs := q_give (free_rop_objs s) (ROP c)\<rparr>)" by blast
  let ?s3 = "s\<lparr>nand_regs := hw, ram := copy_in g ?fl (nand_img s) (ram s), free_rop_objs := q_give (free_rop_objs s) (ROP c)\<rparr>"
  have "read_pages_count ?s3 = ?n" "?n \<le> length (read_pages ?s3)" using st(2) n(2) by simp_all
  from copy_pages_eq [OF this, of g] have "copy_pages g ?s3 = s\<lparr>nand_regs := hw, ram := arrived g s ps ?es, free_rop_objs := q_give (free_rop_objs s) (ROP c)\<rparr>"
    unfolding arrived_def n(1) by (intro uneq_st.equality) simp_all
  then have "map_option (copy_pages g) (sync_end_read_op g (ROP c) s) =
      Some (s\<lparr>nand_regs := hw, ram := arrived g s ps ?es, free_rop_objs := q_give (free_rop_objs s) (ROP c)\<rparr>)"
    unfolding e by simp
  then show ?thesis using st(1,5,6) by (intro exI [of _ hw] exI [of _ ?es]) simp
qed

lemma end_and_copy:
  assumes g: "uneq_geo g" and r: "reading g c ps s" and m: "map_ok g s" and ro: "read_ram_ok g (temp_read_buffer s) ps"
  shows "\<exists>hw m'. (let s3 = s\<lparr>nand_regs := hw, ram := m', free_rop_objs := q_give (free_rop_objs s) (ROP c)\<rparr>
     in map_option (copy_pages g) (sync_end_read_op g (ROP c) s) = Some s3) \<and> run_read g s ps m'"
proof -
  have "temps_in_ram g (temp_read_buffer s)" using ro by (simp add: temps_in_ram_def read_ram_ok_def run_ram_ok_def)
  from end_read_uneq [OF g r m this] copies_run [OF g _ ro _ m] show ?thesis unfolding Let_def arrived_def by blast
qed

definition read_ready :: "geo \<Rightarrow> 'a uneq_st_scheme \<Rightarrow> bool" where
  "read_ready g s \<longleftrightarrow> map_ok g s \<and> rop_ready s \<and> length (read_pages s) = MDTS_PAGES \<and> length (temp_read_buffer s) = MDTS_PAGES"

lemma begin_reading:
  assumes "read_ready g s"
  shows "\<exists>c s1. begin_read_op s = Some (ROP c, s1) \<and> reading g c [] (reset_read_pages s1) \<and> c = oo_head (free_rop_objs s) \<and>
    (\<exists>rs pg. reset_read_pages s1 = s\<lparr>free_rop_objs := (free_rop_objs s)\<lparr>oo_head := (c + 1) mod MAX_OPS\<rparr>, rops := rs,
      read_pages := pg, read_pages_count := 0\<rparr>)"
proof -
  from assms have s: "rop_ready s" "length (read_pages s) = MDTS_PAGES" "length (temp_read_buffer s) = MDTS_PAGES"
    by (simp_all add: read_ready_def)
  from begin_read [OF s(1)] obtain c s1 where s1: "begin_read_op s = Some (ROP c, s1)" "op_holds (rops s1) c []"
    "s1 = s\<lparr>free_rop_objs := (free_rop_objs s)\<lparr>oo_head := (c + 1) mod MAX_OPS\<rparr>, rops := (rops s)[c := (rops s ! c)\<lparr>fo_nop := 0\<rparr>]\<rparr>"
    "ops_ok FLASH_READ_OPERATION (rops s1)" "c = oo_head (free_rop_objs s)" by blast
  have "length (read_pages (reset_read_pages s1)) = MDTS_PAGES" using s(2) by (simp add: reset_read_pages_def s1(3) fold_upd_length)
  moreover have "rops (reset_read_pages s1) = rops s1" "temp_read_buffer (reset_read_pages s1) = temp_read_buffer s"
    "read_pages_count (reset_read_pages s1) = 0" by (simp_all add: reset_read_pages_def s1(3))
  ultimately have "reading g c [] (reset_read_pages s1)" using s(3) s1(2,4) by (simp add: reading_def rentries_ok_def fetch_list_def)
  moreover have "\<exists>rs pg. reset_read_pages s1 = s\<lparr>free_rop_objs := (free_rop_objs s)\<lparr>oo_head := (c + 1) mod MAX_OPS\<rparr>, rops := rs,
      read_pages := pg, read_pages_count := 0\<rparr>"
    by (rule exI [of _ "rops s1"], rule exI [of _ "read_pages (reset_read_pages s1)"]) (simp add: reset_read_pages_def s1(3))
  ultimately show ?thesis using s1(1,5) by blast
qed

lemma run_read_cong:
  assumes "lpa_table s' = lpa_table s" "nand_img s' = nand_img s" "temp_read_buffer s' = temp_read_buffer s" "ram s' = ram s"
  shows "run_read g s' ps m = run_read g s ps m"
proof -
  have "host_view g s' = host_view g s" using lview_cong [OF assms(1,2), of g] by (intro ext) (simp add: host_view_def)
  then show ?thesis unfolding run_read_def ftl_abs_cong [OF assms(1)] assms(3,4) by simp
qed

lemma map_ok_cong: "lpa_table s' = lpa_table s \<Longrightarrow> ppa_table s' = ppa_table s \<Longrightarrow> map_ok g s' = map_ok g s"
  unfolding map_ok_def by (simp add: ftl_abs_cong [of s' s])

lemma sync_read_uneq_spec:
  assumes g: "uneq_geo g" and s: "read_ready g s" and b: "unat l + unat n \<le> TOTAL_NUM_OF_HOST_PAGES g" "touched g (unat l) (unat n) \<le> MDTS_PAGES"
    and ro: "read_ram_ok g (temp_read_buffer s) (page_run g l a (unat n))"
    and mp: "\<forall>i < unat n. ftl_abs s ((unat l + i) div HOST_PER_NAND_PAGES g) \<noteq> None"
  shows "\<exists>s'. sync_read_pages_uneq g l n a s = Some (of_nat (touched g (unat l) (unat n)), s') \<and> rop_ready s' \<and>
    run_read g s (page_run g l a (unat n)) (ram s')"
proof -
  let ?ps = "page_run g l a (unat n)"
  note fp = touched_pages(1) [OF g b(1), of a]
  note rf = run_facts [OF g b(1), of a]
  from s have m: "map_ok g s" and rr: "rop_ready s" by (simp_all add: read_ready_def)
  have lt: "length (lpa_table s) = TOTAL_NUM_OF_PAGES g" using m by (simp add: map_ok_def)
  from begin_reading [OF s] obtain c s1 rs pg where s1: "begin_read_op s = Some (ROP c, s1)" "reading g c [] (reset_read_pages s1)"
    "c = oo_head (free_rop_objs s)" and r1: "reset_read_pages s1 = s\<lparr>free_rop_objs := (free_rop_objs s)\<lparr>oo_head := (c + 1) mod MAX_OPS\<rparr>, rops := rs,
      read_pages := pg, read_pages_count := 0\<rparr>" by blast
  let ?r1 = "reset_read_pages s1"
  have ab: "ftl_abs ?r1 = ftl_abs s" by (rule ftl_abs_cong) (simp add: r1)
  have "\<forall>(l, a) \<in> set ?ps. unat (nand_page_of g l) < length (lpa_table ?r1) \<and> ftl_abs ?r1 (unat (nand_page_of g l)) \<noteq> None"
  proof clarify
    fix l' a' assume x: "(l', a') \<in> set ?ps"
    then obtain i where i: "i < unat n" "l' = l + of_nat i" by (auto simp: page_run_def)
    then have "unat (nand_page_of g l') = (unat l + i) div HOST_PER_NAND_PAGES g"
      using run_page_nat [OF g b(1) i(1)] by (simp add: nand_page_nat [OF g])
    with mp i(1) x rf(2) lt show "unat (nand_page_of g l') < length (lpa_table ?r1) \<and> ftl_abs ?r1 (unat (nand_page_of g l')) \<noteq> None"
      unfolding ab by (auto simp: r1)
  qed
  moreover have "length (flash_pages g ([] @ ?ps)) \<le> MDTS_PAGES" using b(2) fp by simp
  ultimately obtain s2 where s2: "sync_read_loop g (ROP c) ?ps ?r1 = Some (True, s2)" "reading g c ?ps s2" "rframe ?r1 s2"
    using sync_read_loop_spec [OF g s1(2), of ?ps] unfolding append_Nil by blast
  from rframe_same [OF s2(3)] have f2: "lpa_table s2 = lpa_table s" "ram s2 = ram s" "nand_img s2 = nand_img s"
    "free_rop_objs s2 = (free_rop_objs s)\<lparr>oo_head := (c + 1) mod MAX_OPS\<rparr>" "temp_read_buffer s2 = temp_read_buffer s" by (simp_all add: r1)
  have "ppa_table s2 = ppa_table s" using s2(3) by (auto simp: rframe_def r1)
  with f2(1) have "map_ok g s2" using m map_ok_cong [of s2 s g] by simp
  from end_and_copy [OF g s2(2) this] ro f2(5) obtain hw m' where
    e: "map_option (copy_pages g) (sync_end_read_op g (ROP c) s2) = Some (s2\<lparr>nand_regs := hw, ram := m', free_rop_objs := q_give (free_rop_objs s2) (ROP c)\<rparr>)"
      "run_read g s2 ?ps m'" unfolding Let_def by auto
  then obtain s3 where s3: "sync_end_read_op g (ROP c) s2 = Some s3"
    "copy_pages g s3 = s2\<lparr>nand_regs := hw, ram := m', free_rop_objs := q_give (free_rop_objs s2) (ROP c)\<rparr>" by auto
  have "read_pages_count s3 = read_pages_count (copy_pages g s3)" by (simp add: copy_pages_def)
  then have cnt: "read_pages_count s3 = touched g (unat l) (unat n)" using s2(2) fp by (simp add: s3(2) reading_def Let_def)
  have "sync_read_pages_uneq g l n a s = Some (of_nat (touched g (unat l) (unat n)), copy_pages g s3)"
    by (simp add: sync_read_pages_uneq_def s1(1) s2(1) s3(1) cnt)
  moreover have "rop_ready (copy_pages g s3)" unfolding s3(2)
    by (rule rop_ready_cycle [OF rr s1(3)]) (use s2(2) f2(4) in \<open>simp_all add: reading_def Let_def\<close>)
  moreover have "run_read g s ?ps m'" using e(2) run_read_cong [OF f2(1,3,5,2)] by simp
  ultimately show ?thesis by (intro exI [of _ "copy_pages g s3"]) (simp add: s3(2))
qed

section \<open>Reads of the host\<close>

text \<open>What the loop does to the request for one page.\<close>

definition io_upd :: "geo \<Rightarrow> (nat \<Rightarrow> ppa_t option) \<Rightarrow> nat \<Rightarrow> nat \<Rightarrow> u32 \<Rightarrow> req_t \<Rightarrow> req_t" where
  "io_upd g tbl z i lpn r = (let r1 = r\<lparr>read_page_meta := (read_page_meta r)[i := (read_page_meta r ! i)\<lparr>rp_lpn := lpn\<rparr>]\<rparr> in
     if tbl (unat (nand_page_of g lpn)) = None then set_meta_done i True (point_to_zero z i r1) else set_meta_done i False r1)"

lemma io_upd_keeps:
  "scmd (io_upd g tbl z i lpn r) = scmd r" "rq_type (io_upd g tbl z i lpn r) = rq_type r"
  "j \<noteq> i \<Longrightarrow> ssd_addr (dma_list (dma (io_upd g tbl z i lpn r)) ! j) = ssd_addr (dma_list (dma r) ! j)"
  by (simp_all add: io_upd_def Let_def set_meta_done_def point_to_zero_def)

lemma io_read_page_spec:
  assumes g: "uneq_geo g" and r: "reading g c ps s" and x: "x < R_SIZE" "length (r_req s) = R_SIZE" and i: "i < MDTS_PAGES"
    and n: "length (flash_pages g (ps @ [(l, a)])) \<le> MDTS_PAGES" and b: "unat (nand_page_of g l) < length (lpa_table s)"
    and a: "a = ssd_addr (dma_list (dma (r_req s ! x)) ! i)"
  shows "\<exists>s'. io_read_page g (R_REQ x) (ROP c) i l s = Some s' \<and> reading g c (ps @ [(l, a)]) s' \<and>
    rframe (s\<lparr>r_req := r_upd x (io_upd g (ftl_abs s) (ZERO_BUFFER s) i l) (r_req s)\<rparr>) s'"
proof -
  let ?np = "nand_page_of g l" and ?U = "io_upd g (ftl_abs s) (ZERO_BUFFER s) i l"
  let ?f = "\<lambda>r. r\<lparr>read_page_meta := (read_page_meta r)[i := (read_page_meta r ! i)\<lparr>rp_lpn := l\<rparr>]\<rparr>"
  let ?s0 = "s\<lparr>r_req := r_upd x ?f (r_req s)\<rparr>"
  have n0: "note_lpn (R_REQ x) i l s = Some ?s0" by (rule note_lpn_R [OF i])
  have r0: "reading g c ps ?s0" using r reading_cong [of ?s0 s] by simp
  have ab: "ftl_abs ?s0 = ftl_abs s" by (rule ftl_abs_cong) simp
  have b0: "unat ?np < length (lpa_table ?s0)" using b by simp
  have U: "ftl_abs s (unat ?np) = None \<Longrightarrow> r_upd x (\<lambda>r. set_meta_done i True (point_to_zero (ZERO_BUFFER s) i r)) (r_upd x ?f rs) = r_upd x ?U rs"
    "ftl_abs s (unat ?np) \<noteq> None \<Longrightarrow> r_upd x (set_meta_done i False) (r_upd x ?f rs) = r_upd x ?U rs" for rs
  proof -
    have "ftl_abs s (unat ?np) = None \<Longrightarrow> ?U = set_meta_done i True \<circ> (point_to_zero (ZERO_BUFFER s) i \<circ> ?f)"
      "ftl_abs s (unat ?np) \<noteq> None \<Longrightarrow> ?U = set_meta_done i False \<circ> ?f"
      by (auto simp: io_upd_def Let_def fun_eq_iff)
    then show "ftl_abs s (unat ?np) = None \<Longrightarrow> r_upd x (\<lambda>r. set_meta_done i True (point_to_zero (ZERO_BUFFER s) i r)) (r_upd x ?f rs) = r_upd x ?U rs"
      "ftl_abs s (unat ?np) \<noteq> None \<Longrightarrow> r_upd x (set_meta_done i False) (r_upd x ?f rs) = r_upd x ?U rs"
      by (simp_all add: r_upd_same comp_def)
  qed
  have a0: "ssd_addr (dma_list (dma (r_upd x ?f (r_req s) ! x)) ! i) = a" using x by (simp add: r_upd_def a)
  have get: "get_req (R_REQ x) s' = Some (r_req s' ! x)" for s' :: "'a uneq_st_scheme" using x by (simp add: get_req_def)
  have len0: "length (read_pages s) = MDTS_PAGES" "read_pages_count s = length (flash_pages g ps)" using r by (simp_all add: reading_def Let_def)
  show ?thesis
  proof (cases rule: find_info_cases [of ?np "flash_pages g ps"])
    case (2 k)
    note kn = read_known [OF g r0 2(1), unfolded ab]
    note find = reading_find [OF r0, of ?np, unfolded 2(1)]
    show ?thesis
    proof (cases "ftl_abs s (unat ?np) = None")
      case True
      then have un: "rg_is_unmapped (read_pages ?s0 ! k)" using kn(1) by blast
      let ?s' = "s\<lparr>r_req := r_upd x ?U (r_req s)\<rparr>"
      have "io_read_page g (R_REQ x) (ROP c) i l s = Some ?s'"
        using un U(1) [OF True] by (simp add: io_read_page_def n0 find upd_req_R)
      moreover have "reading g c (ps @ [(l, a)]) ?s'" using kn(3) [OF True, of a] reading_cong [of ?s' ?s0] by simp
      ultimately show ?thesis using rframe_refl by blast
    next
      case False
      then have un: "\<not> rg_is_unmapped (read_pages ?s0 ! k)" by (simp only: kn(1) not_False_eq_True)
      let ?s1 = "s\<lparr>r_req := r_upd x ?U (r_req s)\<rparr>"
      have "io_read_page g (R_REQ x) (ROP c) i l s = Some (note_host_page g k l a ?s1)"
        using un U(2) [OF False] a0 by (simp add: io_read_page_def n0 find upd_req_R get)
      moreover have "reading g c (ps @ [(l, a)]) (note_host_page g k l a ?s1)"
        using kn(2) [OF False, of a] reading_cong [of "note_host_page g k l a ?s1" "note_host_page g k l a ?s0"] by (simp add: note_host_page_eq)
      moreover have "rframe ?s1 (note_host_page g k l a ?s1)" unfolding note_host_page_eq by (rule rframe_pages)
      ultimately show ?thesis by blast
    qed
  next
    case 1
    note find = reading_find [OF r0, of ?np, unfolded 1(1)]
    have nn: "length (flash_pages g ps) < MDTS_PAGES" using n 1(2) by (simp add: flash_pages_snoc)
    show ?thesis
    proof (cases "ftl_abs s (unat ?np) = None")
      case True
      from read_new(2) [OF g r0 1(2) nn b0, unfolded ab, OF True] obtain e where
        e: "new_read_page g (ROP c) ?np ?s0 = Some (False, ?s0\<lparr>read_pages := (read_pages ?s0)[read_pages_count ?s0 := e]\<rparr>)"
          "reading g c (ps @ [(l, a)]) (?s0\<lparr>read_pages := (read_pages ?s0)[read_pages_count ?s0 := e\<lparr>rg_is_unmapped := True\<rparr>],
            read_pages_count := Suc (read_pages_count ?s0)\<rparr>)" by blast
      let ?s' = "s\<lparr>r_req := r_upd x ?U (r_req s), read_pages := (read_pages s)[read_pages_count s := e\<lparr>rg_is_unmapped := True\<rparr>],
            read_pages_count := Suc (read_pages_count s)\<rparr>"
      have "io_read_page g (R_REQ x) (ROP c) i l s = Some ?s'"
        using U(1) [OF True] len0 nn by (simp add: io_read_page_def n0 find e(1) upd_req_R Let_def)
      moreover have "reading g c (ps @ [(l, a)]) ?s'" using e(2) reading_cong [of ?s' "?s0\<lparr>read_pages := (read_pages ?s0)[read_pages_count ?s0 := e\<lparr>rg_is_unmapped := True\<rparr>],
            read_pages_count := Suc (read_pages_count ?s0)\<rparr>"] by simp
      moreover have "rframe (s\<lparr>r_req := r_upd x ?U (r_req s)\<rparr>) ?s'"
        unfolding rframe_def by (intro exI [of _ "rops s"] exI [of _ "(read_pages s)[read_pages_count s := e\<lparr>rg_is_unmapped := True\<rparr>]"]
          exI [of _ "Suc (read_pages_count s)"]) simp
      ultimately show ?thesis by blast
    next
      case False
      from read_new(1) [OF g r0 1(2) nn b0, unfolded ab, OF False] obtain rs e where
        e: "new_read_page g (ROP c) ?np ?s0 = Some (True, ?s0\<lparr>rops := rs, read_pages := (read_pages ?s0)[read_pages_count ?s0 := e],
              read_pages_count := Suc (read_pages_count ?s0)\<rparr>)" "\<not> rg_is_unmapped e"
          "reading g c (ps @ [(l, a)]) (?s0\<lparr>rops := rs, read_pages := (read_pages ?s0)[read_pages_count ?s0 := note_page g l a e],
            read_pages_count := Suc (read_pages_count ?s0)\<rparr>)" by blast
      let ?s' = "s\<lparr>r_req := r_upd x ?U (r_req s), rops := rs, read_pages := (read_pages s)[read_pages_count s := note_page g l a e],
            read_pages_count := Suc (read_pages_count s)\<rparr>"
      have eq: "note_host_page g (read_pages_count s) l a (s\<lparr>rops := rs, read_pages := (read_pages s)[read_pages_count s := e],
          read_pages_count := Suc (read_pages_count s), r_req := r_upd x ?U (r_req s)\<rparr>) = ?s'"
        using len0 nn by (intro uneq_st.equality) (simp_all add: note_host_page_eq)
      have "io_read_page g (R_REQ x) (ROP c) i l s = Some ?s'"
        using U(2) [OF False] len0 nn e(2) a0 eq [unfolded len0(2)] by (simp add: io_read_page_def n0 find e(1) upd_req_R Let_def get)
      moreover have "reading g c (ps @ [(l, a)]) ?s'" using e(3) reading_cong [of ?s' "?s0\<lparr>rops := rs, read_pages := (read_pages ?s0)[read_pages_count ?s0 := note_page g l a e],
            read_pages_count := Suc (read_pages_count ?s0)\<rparr>"] by simp
      moreover have "rframe (s\<lparr>r_req := r_upd x ?U (r_req s)\<rparr>) ?s'" by (rule rframe_intro)
      ultimately show ?thesis by blast
    qed
  qed
qed

text \<open>The pages of a request from page \<open>i\<close> of its list on, and what the loop does to the request for all of them.\<close>

fun io_run :: "req_t \<Rightarrow> nat \<Rightarrow> u32 \<Rightarrow> nat \<Rightarrow> (u32 \<times> nat) list" where
  "io_run r i l 0 = []"
| "io_run r i l (Suc n) = (l, ssd_addr (dma_list (dma r) ! i)) # io_run r (i + 1) (l + 1) n"

fun io_upds :: "geo \<Rightarrow> (nat \<Rightarrow> ppa_t option) \<Rightarrow> nat \<Rightarrow> nat \<Rightarrow> u32 \<Rightarrow> nat \<Rightarrow> req_t \<Rightarrow> req_t" where
  "io_upds g tbl z i l 0 = id"
| "io_upds g tbl z i l (Suc n) = io_upds g tbl z (i + 1) (l + 1) n \<circ> io_upd g tbl z i l"

lemma io_run_length [simp]: "length (io_run r i l n) = n"
  by (induction n arbitrary: i l) simp_all

lemma io_run_nth: "j < n \<Longrightarrow> io_run r i l n ! j = (l + of_nat j, ssd_addr (dma_list (dma r) ! (i + j)))"
  by (induction n arbitrary: i l j) (auto simp: nth_Cons split: nat.split)

lemma io_run_upd: "i < k \<Longrightarrow> io_run (io_upd g tbl z i l r) k l' n = io_run r k l' n"
  by (induction n arbitrary: k l') (simp_all add: io_upd_keeps(3))

lemma io_upds_keeps: "scmd (io_upds g tbl z i l n r) = scmd r \<and> rq_type (io_upds g tbl z i l n r) = rq_type r"
  by (induction n arbitrary: i l r) (simp_all add: io_upd_keeps)

lemma flash_pages_length: "length (flash_pages g ps) \<le> length ps"
proof -
  have "length (flash_pages g ps) = card (nand_page_of g ` fst ` set ps)"
    using distinct_card [OF flash_pages_distinct] by (metis flash_pages_set)
  also have "\<dots> \<le> length ps" by (metis List.finite_set card_image_le card_length finite_imageI le_trans)
  finally show ?thesis .
qed

lemma rframe_req:
  assumes "rframe (s\<lparr>r_req := r_upd x f (r_req s)\<rparr>) s1" "rframe (s1\<lparr>r_req := r_upd x f' (r_req s1)\<rparr>) s2"
  shows "rframe (s\<lparr>r_req := r_upd x (f' \<circ> f) (r_req s)\<rparr>) s2"
proof -
  from assms obtain rs pg n rs' pg' n' where "s1 = s\<lparr>r_req := r_upd x f (r_req s), rops := rs, read_pages := pg, read_pages_count := n\<rparr>"
    "s2 = s1\<lparr>r_req := r_upd x f' (r_req s1), rops := rs', read_pages := pg', read_pages_count := n'\<rparr>" by (auto simp: rframe_def)
  then show ?thesis unfolding rframe_def
    by (intro exI [of _ rs'] exI [of _ pg'] exI [of _ n']) (simp add: r_upd_same)
qed

lemma io_read_loop_spec:
  assumes g: "uneq_geo g" and x: "x < R_SIZE"
    and "reading g c ps s" "length (r_req s) = R_SIZE" "i + n \<le> MDTS_PAGES" "length ps + n \<le> MDTS_PAGES"
    "\<forall>j < n. unat (nand_page_of g (l + of_nat j)) < length (lpa_table s)"
  shows "\<exists>s'. io_read_loop g (R_REQ x) (ROP c) i l n s = Some s' \<and> reading g c (ps @ io_run (r_req s ! x) i l n) s' \<and>
    rframe (s\<lparr>r_req := r_upd x (io_upds g (ftl_abs s) (ZERO_BUFFER s) i l n) (r_req s)\<rparr>) s'"
  using assms(3-)
proof (induction n arbitrary: i l ps s)
  case 0
  then show ?case by (simp add: r_upd_def rframe_refl)
next
  case (Suc n)
  let ?p = "(l, ssd_addr (dma_list (dma (r_req s ! x)) ! i))"
  have fp: "length (flash_pages g (ps @ [?p])) \<le> MDTS_PAGES" using flash_pages_length [of g "ps @ [?p]"] Suc.prems(4) by simp
  have b: "unat (nand_page_of g l) < length (lpa_table s)" "i < MDTS_PAGES"
    using Suc.prems(5) [rule_format, of 0] Suc.prems(3) by simp_all
  from io_read_page_spec [OF g Suc.prems(1) x Suc.prems(2) b(2) fp b(1) refl] obtain s1 where
    s1: "io_read_page g (R_REQ x) (ROP c) i l s = Some s1" "reading g c (ps @ [?p]) s1"
      "rframe (s\<lparr>r_req := r_upd x (io_upd g (ftl_abs s) (ZERO_BUFFER s) i l) (r_req s)\<rparr>) s1" by blast
  from s1(3) have e: "lpa_table s1 = lpa_table s" "ZERO_BUFFER s1 = ZERO_BUFFER s"
    "r_req s1 = r_upd x (io_upd g (ftl_abs s) (ZERO_BUFFER s) i l) (r_req s)" by (auto simp: rframe_def)
  have ab: "ftl_abs s1 = ftl_abs s" by (rule ftl_abs_cong [OF e(1)])
  have run: "io_run (r_req s1 ! x) (i + 1) (l + 1) n = io_run (r_req s ! x) (i + 1) (l + 1) n"
    using x Suc.prems(2) by (simp add: e(3) r_upd_def io_run_upd)
  have "length (r_req s1) = R_SIZE" using Suc.prems(2) by (simp add: e(3) r_upd_def)
  moreover have "\<forall>j < n. unat (nand_page_of g (l + 1 + of_nat j)) < length (lpa_table s1)"
    using Suc.prems(5) by (auto simp: e(1) add.assoc dest: spec [of _ "Suc _"])
  ultimately obtain s2 where s2: "io_read_loop g (R_REQ x) (ROP c) (i + 1) (l + 1) n s1 = Some s2"
    "reading g c ((ps @ [?p]) @ io_run (r_req s1 ! x) (i + 1) (l + 1) n) s2"
    "rframe (s1\<lparr>r_req := r_upd x (io_upds g (ftl_abs s1) (ZERO_BUFFER s1) (i + 1) (l + 1) n) (r_req s1)\<rparr>) s2"
    using Suc.IH [OF s1(2), of "i + 1" "l + 1"] Suc.prems(3,4) by auto
  from rframe_req [OF s1(3) s2(3)] s1(1) s2(1,2) show ?case unfolding run ab e(2) by (simp add: comp_def)
qed

text \<open>The handler of a host read, for any property \<open>Q\<close> of the memory that holds when all pages have arrived.\<close>

lemma io_read_uneq_flow:
  fixes g :: geo and s :: "'a uneq_st_scheme"
  assumes g: "uneq_geo g" and s: "read_ready g s" and x: "x < R_SIZE" "length (r_req s) = R_SIZE"
    and n: "n = unat (io_nlbs (scmd (r_req s ! x))) + 1" "n \<le> MDTS_PAGES"
    and l: "l = ucast (io_slba (scmd (r_req s ! x)))" "unat l + n \<le> TOTAL_NUM_OF_HOST_PAGES g"
    and tr: "temps_in_ram g (temp_read_buffer s)"
  defines "ps \<equiv> io_run (r_req s ! x) 0 l n"
  assumes Q: "\<And>es. rentries_ok g (ftl_abs s) (temp_read_buffer s) ps es \<Longrightarrow> length es \<le> length (temp_read_buffer s) \<Longrightarrow> Q (arrived g s ps es)"
  shows "\<exists>s'. ftl_process_read_io_uneq g (R_REQ x) s = Some (sys_push_to_nvme (R_REQ x) (rq_type (r_req s ! x)) s') \<and>
    Q (ram s') \<and> rop_ready s' \<and> lview g s' = lview g s \<and> queues s' = queues s \<and>
    r_req s' = (r_req s)[x := (io_upds g (ftl_abs s) (ZERO_BUFFER s) 0 l n (r_req s ! x))\<lparr>nand_io_complete := True\<rparr>]"
proof -
  let ?U = "io_upds g (ftl_abs s) (ZERO_BUFFER s) 0 l n"
  from s have m: "map_ok g s" and rr: "rop_ready s" by (simp_all add: read_ready_def)
  from begin_reading [OF s] obtain c s1 rs pg where s1: "begin_read_op s = Some (ROP c, s1)" "reading g c [] (reset_read_pages s1)"
    "c = oo_head (free_rop_objs s)" and r1: "reset_read_pages s1 = s\<lparr>free_rop_objs := (free_rop_objs s)\<lparr>oo_head := (c + 1) mod MAX_OPS\<rparr>, rops := rs,
      read_pages := pg, read_pages_count := 0\<rparr>" by blast
  let ?r1 = "reset_read_pages s1"
  have ab: "ftl_abs ?r1 = ftl_abs s" by (rule ftl_abs_cong) (simp add: r1)
  have e1: "r_req ?r1 = r_req s" "ZERO_BUFFER ?r1 = ZERO_BUFFER s" by (simp_all add: r1)
  have "\<forall>j < n. unat (nand_page_of g (l + of_nat j)) < length (lpa_table ?r1)"
  proof clarify
    fix j assume j: "j < n"
    then have "unat (nand_page_of g (l + of_nat j)) = (unat l + j) div HOST_PER_NAND_PAGES g"
      using run_page_nat [OF g l(2)] by (simp add: nand_page_nat [OF g])
    also have "\<dots> < TOTAL_NUM_OF_PAGES g"
      using j l(2) by (intro less_mult_imp_div_less) (simp add: TOTAL_NUM_OF_HOST_PAGES_def HOST_PER_NAND_PAGES_def)
    finally have "unat (nand_page_of g (l + of_nat j)) < TOTAL_NUM_OF_PAGES g" .
    then show "unat (nand_page_of g (l + of_nat j)) < length (lpa_table ?r1)" using m by (simp add: r1 map_ok_def)
  qed
  then obtain s2 where s2: "io_read_loop g (R_REQ x) (ROP c) 0 l n ?r1 = Some s2" "reading g c ps s2"
    "rframe (?r1\<lparr>r_req := r_upd x ?U (r_req s)\<rparr>) s2"
    using io_read_loop_spec [OF g x(1) s1(2), of 0 n l] x(2) n(2) unfolding ab e1 ps_def by auto
  from rframe_same [OF s2(3)] have f2: "lpa_table s2 = lpa_table s" "ram s2 = ram s" "nand_img s2 = nand_img s" "queues s2 = queues s"
    "free_rop_objs s2 = (free_rop_objs s)\<lparr>oo_head := (c + 1) mod MAX_OPS\<rparr>" "temp_read_buffer s2 = temp_read_buffer s"
    "r_req s2 = r_upd x ?U (r_req s)" by (simp_all add: r1)
  have ab2: "ftl_abs s2 = ftl_abs s" by (rule ftl_abs_cong [OF f2(1)])
  have "ppa_table s2 = ppa_table s" using s2(3) by (auto simp: rframe_def r1)
  with f2(1) have "map_ok g s2" using m map_ok_cong [of s2 s g] by simp
  from end_read_uneq [OF g s2(2) this] tr obtain hw es where
    e: "map_option (copy_pages g) (sync_end_read_op g (ROP c) s2) =
        Some (s2\<lparr>nand_regs := hw, ram := arrived g s2 ps es, free_rop_objs := q_give (free_rop_objs s2) (ROP c)\<rparr>)"
      "rentries_ok g (ftl_abs s) (temp_read_buffer s) ps es" "length es \<le> length (temp_read_buffer s)" unfolding f2(6) ab2 by auto
  have a2: "arrived g s2 ps es = arrived g s ps es" unfolding arrived_def ab2 f2 ..
  let ?s3 = "s2\<lparr>nand_regs := hw, ram := arrived g s ps es, free_rop_objs := q_give (free_rop_objs s2) (ROP c)\<rparr>"
  let ?s' = "?s3\<lparr>r_req := (r_req s)[x := (?U (r_req s ! x))\<lparr>nand_io_complete := True\<rparr>]\<rparr>"
  from e(1) obtain s3 where s3: "sync_end_read_op g (ROP c) s2 = Some s3" "copy_pages g s3 = ?s3" unfolding a2 by auto
  have nn: "Suc (unat (io_nlbs (scmd (r_req s ! x)))) = n" using n(1) by simp
  have "upd_req (R_REQ x) (\<lambda>r. r\<lparr>nand_io_complete := True\<rparr>) ?s3 = ?s'"
    using x by (simp add: upd_req_R f2(7) r_upd_def)
  then have "ftl_process_read_io_uneq g (R_REQ x) s = Some (sys_push_to_nvme (R_REQ x) (rq_type (r_req s ! x)) ?s')"
    using x(1) s2(1) by (simp add: ftl_process_read_io_uneq_def get_req_def s1(1) nn l(1) [symmetric] s3 del: io_read_loop.simps)
  moreover have "rop_ready ?s3"
    by (rule rop_ready_cycle [OF rr s1(3)]) (use s2(2) f2(5) in \<open>simp_all add: reading_def Let_def\<close>)
  then have "rop_ready ?s'" by (simp add: rop_ready_def)
  moreover have "lview g ?s' = lview g s" by (rule lview_cong) (simp_all add: f2)
  ultimately show ?thesis using Q [OF e(2,3)] by (intro exI [of _ ?s']) (simp add: f2)
qed

end
