(* ===== verification/Host_Link.thy ===== *)
theory Host_Link
  imports Nvme_Types
begin

text \<open>
  The shared memory between the simulated host and the simulated device
  (\<^verbatim>\<open>include/host_ssd_interface.h\<close>, \<^verbatim>\<open>include/iSSDHostIntCmdReg.h\<close>): the queue of doorbell updates the
  host fills and the firmware drains, the queue of messages to the host and the page registers
  that carry the data of a transfer, with the host side of the doorbells
  (\<open>doorbell_collector\<close> of \<^verbatim>\<open>s4sim-qemu-host.patch\<close>).
\<close>

unbundle bit_operations_syntax

section \<open>Doorbell updates\<close>

record dbUpdateReg =
  DoorBell :: u8
  Qindex :: u8
  db_value :: u16

definition isSQ_DB :: u8 where "isSQ_DB = 1"
definition isCQ_DB :: u8 where "isCQ_DB = 2"

text \<open>A doorbell update read as one register, and the union that splits the register again.\<close>

definition dbu_raw :: "dbUpdateReg \<Rightarrow> u32" where
  "dbu_raw d = ucast (DoorBell d) OR push_bit 8 (ucast (Qindex d)) OR push_bit 16 (ucast (db_value d))"

definition dbu_of :: "u32 \<Rightarrow> dbUpdateReg" where
  "dbu_of w = \<lparr>DoorBell = ucast w, Qindex = ucast (drop_bit 8 w), db_value = hi16 w\<rparr>"

definition dbUpdateQueueSize :: nat where "dbUpdateQueueSize = 2 ^ 22"

record db_update_queue_t =
  db_tail :: nat
  db_head :: nat
  db_list :: "dbUpdateReg list"

definition enQueueDBUpdate :: "db_update_queue_t \<Rightarrow> dbUpdateReg \<Rightarrow> bool \<times> db_update_queue_t" where
  "enQueueDBUpdate q item =
     (if db_head q = (db_tail q + 1) mod dbUpdateQueueSize then (False, q)
      else (True, q\<lparr>db_list := (db_list q)[db_tail q := item], db_tail := (db_tail q + 1) mod dbUpdateQueueSize\<rparr>))"

definition deQueueDBUpdate :: "db_update_queue_t \<Rightarrow> dbUpdateReg option \<times> db_update_queue_t" where
  "deQueueDBUpdate q =
     (if db_head q = db_tail q then (None, q)
      else (Some (db_list q ! db_head q), q\<lparr>db_head := (db_head q + 1) mod dbUpdateQueueSize\<rparr>))"

text \<open>The host writes \<open>val\<close> to the doorbell register at offset \<open>addr\<close> of the controller.\<close>

definition doorbell_collector :: "nat \<Rightarrow> u64 \<Rightarrow> db_update_queue_t \<Rightarrow> db_update_queue_t" where
  "doorbell_collector addr val q =
     (if addr mod 4 \<noteq> 0 then q
      else if odd ((addr - 0x1000) div 4) then
        snd (enQueueDBUpdate q \<lparr>DoorBell = isCQ_DB, Qindex = of_nat ((addr - (0x1000 + 4)) div 8), db_value = ucast val\<rparr>)
      else
        snd (enQueueDBUpdate q \<lparr>DoorBell = isSQ_DB, Qindex = of_nat ((addr - 0x1000) div 8), db_value = ucast val\<rparr>))"

section \<open>Page registers\<close>

definition INTERFACE_DMA_PAGE_COUNT :: nat where "INTERFACE_DMA_PAGE_COUNT = 2 ^ 10"
definition INTERFACE_DMA_PAGE_SIZE :: nat where "INTERFACE_DMA_PAGE_SIZE = 2 ^ 16"
definition data_status_ready :: int where "data_status_ready = 1"
definition data_status_used :: int where "data_status_used = 2"
definition data_status_free :: int where "data_status_free = 0"

record page_reg_t =
  data_status :: int
  page_index :: int
  pg_data :: mem

text \<open>
  \<open>enQueuePageRegister\<close> always resets and returns the first register: its ring code follows an
  unconditional return. \<open>head\<close> and \<open>tail\<close> of the queue are therefore never used.
\<close>

definition enQueuePageRegister :: "page_reg_t list \<Rightarrow> nat \<times> page_reg_t list" where
  "enQueuePageRegister l = (0, l[0 := (l ! 0)\<lparr>page_index := 1, data_status := data_status_free\<rparr>])"

definition getPageRegister :: "int \<Rightarrow> nat option" where
  "getPageRegister i = (if i \<le> 0 \<or> i > int INTERFACE_DMA_PAGE_COUNT then None else Some (nat (i - 1)))"

section \<open>Messages to the host\<close>

record hostCmdReg =
  h_cmd :: u32
  h_cmdStatus :: u32
  h_dma_addr :: u64
  h_size :: u32
  h_buffMgtID :: u32
  h_ssdAddr :: u32
  h_squeue :: u32
  h_sqe :: u32
  h_sqAddr :: u32
  h_sqeDmaAddr :: u64
  h_cqueue :: u32
  h_cqe :: u32
  h_cqAddr :: u32
  h_cqeDmaAddr :: u64
  h_cqIntVector :: u32
  h_isr_notify :: u32

definition zero_hreg :: hostCmdReg where
  "zero_hreg = \<lparr>h_cmd = 0, h_cmdStatus = 0, h_dma_addr = 0, h_size = 0, h_buffMgtID = 0, h_ssdAddr = 0, h_squeue = 0,
     h_sqe = 0, h_sqAddr = 0, h_sqeDmaAddr = 0, h_cqueue = 0, h_cqe = 0, h_cqAddr = 0, h_cqeDmaAddr = 0,
     h_cqIntVector = 0, h_isr_notify = 0\<rparr>"

definition SSDMsgQueueSize :: nat where "SSDMsgQueueSize = 2 ^ 10"

record ssd_msg_t =
  registers :: hostCmdReg
  msg_ready :: bool
  msg_page_index :: int
  msg_index :: nat

record ssd_msg_queue_t =
  mq_tail :: nat
  mq_head :: nat
  mq_list :: "ssd_msg_t list"

text \<open>Both operations return the slot of the message, which the caller reads and writes in place.\<close>

definition enQueueSSDMsg :: "ssd_msg_queue_t \<Rightarrow> u32 \<Rightarrow> nat option \<times> ssd_msg_queue_t" where
  "enQueueSSDMsg q command =
     (if mq_head q = (mq_tail q + 1) mod SSDMsgQueueSize then (None, q)
      else let m = mq_list q ! mq_tail q in
        (Some (mq_tail q),
         q\<lparr>mq_list := (mq_list q)[mq_tail q := m\<lparr>registers := (registers m)\<lparr>h_cmd := command\<rparr>, msg_ready := False,
             msg_index := mq_tail q + 1\<rparr>], mq_tail := (mq_tail q + 1) mod SSDMsgQueueSize\<rparr>))"

definition deQueueSSDMsg :: "ssd_msg_queue_t \<Rightarrow> nat option \<times> ssd_msg_queue_t" where
  "deQueueSSDMsg q =
     (if mq_head q = mq_tail q then (None, q)
      else (Some (mq_head q), q\<lparr>mq_head := (mq_head q + 1) mod SSDMsgQueueSize\<rparr>))"

text \<open>A message as the two sides use it: the slot is filled by the sender before it is ready.\<close>

definition msg_put :: "ssd_msg_queue_t \<Rightarrow> ssd_msg_t \<Rightarrow> bool \<times> ssd_msg_queue_t" where
  "msg_put q m =
     (case enQueueSSDMsg q (h_cmd (registers m)) of
        (None, q1) \<Rightarrow> (False, q1)
      | (Some i, q1) \<Rightarrow> (True, q1\<lparr>mq_list := (mq_list q1)[i := m]\<rparr>))"

definition msg_take :: "ssd_msg_queue_t \<Rightarrow> ssd_msg_t option \<times> ssd_msg_queue_t" where
  "msg_take q = (case deQueueSSDMsg q of (None, q1) \<Rightarrow> (None, q1) | (Some i, q1) \<Rightarrow> (Some (mq_list q1 ! i), q1))"

section \<open>Both queues are bounded FIFO queues\<close>

definition dbq_inv :: "db_update_queue_t \<Rightarrow> bool" where
  "dbq_inv q \<longleftrightarrow> db_tail q < dbUpdateQueueSize \<and> db_head q < dbUpdateQueueSize \<and> length (db_list q) = dbUpdateQueueSize"

definition dbq_items :: "db_update_queue_t \<Rightarrow> dbUpdateReg list" where
  "dbq_items q = ring_list (db_list q) dbUpdateQueueSize (db_head q) (db_tail q)"

interpretation dbq: ring_queue db_head db_tail db_list "\<lambda>_. dbUpdateQueueSize" enQueueDBUpdate deQueueDBUpdate
  rewrites "\<And>q. (db_tail q < dbUpdateQueueSize \<and> db_head q < dbUpdateQueueSize \<and> length (db_list q) = dbUpdateQueueSize) = dbq_inv q"
    and "\<And>q. ring_list (db_list q) dbUpdateQueueSize (db_head q) (db_tail q) = dbq_items q"
proof -
  show "ring_queue db_head db_tail db_list (\<lambda>_. dbUpdateQueueSize) enQueueDBUpdate deQueueDBUpdate"
    by unfold_locales (auto simp: enQueueDBUpdate_def deQueueDBUpdate_def)
qed (simp_all add: dbq_inv_def dbq_items_def)

definition msgq_inv :: "ssd_msg_queue_t \<Rightarrow> bool" where
  "msgq_inv q \<longleftrightarrow> mq_tail q < SSDMsgQueueSize \<and> mq_head q < SSDMsgQueueSize \<and> length (mq_list q) = SSDMsgQueueSize"

definition msgq_items :: "ssd_msg_queue_t \<Rightarrow> ssd_msg_t list" where
  "msgq_items q = ring_list (mq_list q) SSDMsgQueueSize (mq_head q) (mq_tail q)"

interpretation msgq: ring_queue mq_head mq_tail mq_list "\<lambda>_. SSDMsgQueueSize" msg_put msg_take
  rewrites "\<And>q. (mq_tail q < SSDMsgQueueSize \<and> mq_head q < SSDMsgQueueSize \<and> length (mq_list q) = SSDMsgQueueSize) = msgq_inv q"
    and "\<And>q. ring_list (mq_list q) SSDMsgQueueSize (mq_head q) (mq_tail q) = msgq_items q"
proof -
  show "ring_queue mq_head mq_tail mq_list (\<lambda>_. SSDMsgQueueSize) msg_put msg_take"
    by unfold_locales (auto simp: msg_put_def msg_take_def enQueueSSDMsg_def deQueueSSDMsg_def Let_def)
qed (simp_all add: msgq_inv_def msgq_items_def)

section \<open>Doorbells arrive as they were rung\<close>

lemma dbu_of_raw [simp]: "dbu_of (dbu_raw d) = d"
proof -
  have "ucast (dbu_raw d) = DoorBell d" "ucast (drop_bit 8 (dbu_raw d)) = Qindex d" "hi16 (dbu_raw d) = db_value d"
    by (rule bit_word_eqI; auto simp: dbu_raw_def hi16_def bit_simps dest: bit_imp_le_length)+
  then show ?thesis by (simp add: dbu_of_def)
qed

text \<open>A doorbell of queue \<open>qid\<close>: the tail of a submission queue or the head of a completion queue.\<close>

datatype doorbell = SQ_tail nat u16 | CQ_head nat u16

definition db_offset :: "doorbell \<Rightarrow> nat" where
  "db_offset d = (case d of SQ_tail q _ \<Rightarrow> 0x1000 + 8 * q | CQ_head q _ \<Rightarrow> 0x1004 + 8 * q)"

definition db_val :: "doorbell \<Rightarrow> u16" where
  "db_val d = (case d of SQ_tail _ v \<Rightarrow> v | CQ_head _ v \<Rightarrow> v)"

definition db_update :: "doorbell \<Rightarrow> dbUpdateReg" where
  "db_update d = (case d of SQ_tail q v \<Rightarrow> \<lparr>DoorBell = isSQ_DB, Qindex = of_nat q, db_value = v\<rparr>
     | CQ_head q v \<Rightarrow> \<lparr>DoorBell = isCQ_DB, Qindex = of_nat q, db_value = v\<rparr>)"

definition ring :: "doorbell \<Rightarrow> db_update_queue_t \<Rightarrow> db_update_queue_t" where
  "ring d q = doorbell_collector (db_offset d) (ucast (db_val d)) q"

lemma ucast16_id [simp]: "(ucast (ucast v :: u64) :: u16) = v"
  by (rule bit_word_eqI) (simp add: bit_simps)

lemma ring_enq: "ring d q = snd (enQueueDBUpdate q (db_update d))"
proof (cases d)
  case (SQ_tail i v)
  have "(8 * i) div 4 = 2 * i" "(0x1000 + 8 * i) mod 4 = 0" by (simp, presburger)
  with SQ_tail show ?thesis by (simp add: ring_def doorbell_collector_def db_offset_def db_val_def db_update_def)
next
  case (CQ_head i v)
  have "(4 + 8 * i) div 4 = 2 * i + 1" "(0x1004 + 8 * i) mod 4 = 0" by (simp, presburger)
  with CQ_head show ?thesis by (simp add: ring_def doorbell_collector_def db_offset_def db_val_def db_update_def)
qed

text \<open>Reading the doorbell register until it is empty.\<close>

fun drain :: "nat \<Rightarrow> db_update_queue_t \<Rightarrow> dbUpdateReg list" where
  "drain 0 q = []"
| "drain (Suc n) q = (case deQueueDBUpdate q of (None, _) \<Rightarrow> [] | (Some u, q1) \<Rightarrow> dbu_of (dbu_raw u) # drain n q1)"

lemma drain_items: "dbq_inv q \<Longrightarrow> length (dbq_items q) \<le> n \<Longrightarrow> drain n q = dbq_items q"
proof (induction n arbitrary: q)
  case (Suc n)
  obtain r q1 where d: "deQueueDBUpdate q = (r, q1)" by fastforce
  from dbq.deq_cases [OF Suc.prems(1) d] Suc.prems(2) d show ?case
    by (cases r) (auto simp: Suc.IH deQueueDBUpdate_def dbq_items_def ring_list_def ring_len_def split: if_splits)
qed simp

lemma ring_items:
  assumes "dbq_inv q" "length (dbq_items q) < dbUpdateQueueSize - 1"
  shows "dbq_inv (ring d q) \<and> dbq_items (ring d q) = dbq_items q @ [db_update d]"
  using dbq.enq_room [OF assms, of "db_update d"] by (auto simp: ring_enq)

lemma fold_ring_items:
  assumes "dbq_inv q" "length (dbq_items q) + length ds < dbUpdateQueueSize"
  shows "dbq_inv (fold ring ds q) \<and> dbq_items (fold ring ds q) = dbq_items q @ map db_update ds"
  using assms
proof (induction ds arbitrary: q)
  case (Cons d ds)
  from Cons.prems have "length (dbq_items q) < dbUpdateQueueSize - 1" by simp
  note r = ring_items [OF Cons.prems(1) this, of d]
  with Cons.IH [of "ring d q"] Cons.prems show ?case by simp
qed simp

section \<open>Properties\<close>

text \<open>
  C24. The doorbell path loses nothing: from an empty queue, the firmware reads exactly the doorbells
  the host has rung, in order, with the kind, the queue number and the value of each, as long as
  fewer than the 4 194 304 entries of the queue are outstanding.
\<close>

theorem doorbells_arrive:
  assumes "dbq_inv q" "dbq_items q = []" "length ds < dbUpdateQueueSize" "length ds \<le> n"
  shows "drain n (fold ring ds q) = map db_update ds"
  using fold_ring_items [OF assms(1), of ds] drain_items [of "fold ring ds q" n] assms by simp

definition empty_dbq :: db_update_queue_t where
  "empty_dbq = \<lparr>db_tail = 0, db_head = 0, db_list = replicate dbUpdateQueueSize (dbu_of 0)\<rparr>"

lemma empty_dbq_ok: "dbq_inv empty_dbq" "dbq_items empty_dbq = []"
  by (simp_all add: empty_dbq_def dbq_inv_def dbq_items_def ring_list_empty dbUpdateQueueSize_def)

theorem doorbells_arrive_witness:
  "drain 2 (fold ring [SQ_tail 1 5, CQ_head 0 2] empty_dbq)
     = [\<lparr>DoorBell = 1, Qindex = 1, db_value = 5\<rparr>, \<lparr>DoorBell = 2, Qindex = 0, db_value = 2\<rparr>]"
  using doorbells_arrive [of empty_dbq "[SQ_tail 1 5, CQ_head 0 2]" 2] empty_dbq_ok
  by (simp add: dbUpdateQueueSize_def db_update_def isSQ_DB_def isCQ_DB_def)

end
