(* ===== verification/Host_Dma.thy ===== *)
theory Host_Dma
  imports Ftl_Io Host_Link
begin

text \<open>
  Data transfer between host memory and SSD memory: the host interface of the simulated platform
  (\<^verbatim>\<open>iSSDHostInterface.cc\<close>) with the host thread that serves its messages
  (\<open>ssd_msg_check_thread\<close> of \<^verbatim>\<open>s4sim-qemu-host.patch\<close>), and the DMA module of the firmware
  (\<^verbatim>\<open>host_dma.c\<close>). A command of the firmware is modelled up to its completion: the firmware polls
  the status register until then. A wait that cannot end is \<open>None\<close>, as is a panic of the device and
  a transfer that does not fit a page register.
\<close>

unbundle bit_operations_syntax

section \<open>The host interface\<close>

definition HIC_INIT :: u32 where "HIC_INIT = 1"
definition HOST_CONNECTION_STATUS :: u32 where "HOST_CONNECTION_STATUS = 4"
definition PCI_DMA_READ :: u32 where "PCI_DMA_READ = 0x10"
definition PCI_DMA_WRITE :: u32 where "PCI_DMA_WRITE = 0x20"
definition PCI_DMA_SQ_READ :: u32 where "PCI_DMA_SQ_READ = 0x30"
definition PCI_DMA_CQ_WRITE :: u32 where "PCI_DMA_CQ_WRITE = 0x40"
definition PCI_ENABLE_MSIX_VECTOR :: u32 where "PCI_ENABLE_MSIX_VECTOR = 0x50"
definition INITCOMPLETE :: u32 where "INITCOMPLETE = 0x10000"
definition PROCESSING :: u32 where "PROCESSING = 0x20000"
definition COMPLETE :: u32 where "COMPLETE = 0x30000"
definition HOST_ATTACHED :: u32 where "HOST_ATTACHED = 0x40000"
definition HOST_DETTACHED :: u32 where "HOST_DETTACHED = 0x50000"
definition NVME_CTRL_OF :: nat where "NVME_CTRL_OF = 0x200"

lemmas hic_codes = HIC_INIT_def HOST_CONNECTION_STATUS_def PCI_DMA_READ_def PCI_DMA_WRITE_def PCI_DMA_SQ_READ_def
  PCI_DMA_CQ_WRITE_def PCI_ENABLE_MSIX_VECTOR_def

text \<open>The device, the shared memory and the host: its memory, the interrupts it got and the vectors in use.\<close>

record host_if =
  Registers :: hostCmdReg
  db_queue :: db_update_queue_t
  msg_queue :: ssd_msg_queue_t
  page_queue :: "page_reg_t list"
  nvmeReg :: mem
  simulation_status :: u64
  host_mem :: mem
  host_irqs :: "u32 list"
  host_vectors :: "u32 list"

record sync_dma_t =
  sd_dma_type :: u32
  sd_status :: u32
  sd_ssd_addr :: nat
  sd_host_p_addr :: u64
  sd_sqid :: u32
  sd_sqe :: u32
  sd_num_of_entries :: u32
  sd_cqid :: u32
  sd_cqe :: u32
  sd_vector :: u32
  sd_irq_enabled :: u32

record host_st = buf_st +
  host :: host_if
  sync_dma :: sync_dma_t
  prp_dma :: dma_t

definition zero_page_reg :: page_reg_t where
  "zero_page_reg = \<lparr>data_status = 0, page_index = 0, pg_data = (\<lambda>_. 0)\<rparr>"

definition zero_msg :: ssd_msg_t where
  "zero_msg = \<lparr>registers = zero_hreg, msg_ready = False, msg_page_index = 0, msg_index = 0\<rparr>"

definition connect_shared_memory :: "host_if \<Rightarrow> host_if" where
  "connect_shared_memory h = h\<lparr>db_queue := \<lparr>db_tail = 0, db_head = 0, db_list = replicate dbUpdateQueueSize (dbu_of 0)\<rparr>,
     msg_queue := \<lparr>mq_tail = 0, mq_head = 0, mq_list = replicate SSDMsgQueueSize zero_msg\<rparr>,
     page_queue := replicate INTERFACE_DMA_PAGE_COUNT zero_page_reg, nvmeReg := (\<lambda>_. 0), simulation_status := 100\<rparr>"

text \<open>A message to the host: \<open>f\<close> fills its copy of the registers.\<close>

definition send_msg :: "(hostCmdReg \<Rightarrow> hostCmdReg) \<Rightarrow> int \<Rightarrow> host_if \<Rightarrow> (nat \<times> host_if) option" where
  "send_msg f pgi h =
     (case enQueueSSDMsg (msg_queue h) (h_cmd (Registers h)) of
        (None, _) \<Rightarrow> None
      | (Some i, q) \<Rightarrow> let m = mq_list q ! i in
          Some (i, h\<lparr>msg_queue := q\<lparr>mq_list := (mq_list q)[i := m\<lparr>registers := f (registers m), msg_page_index := pgi,
            msg_ready := True\<rparr>]\<rparr>\<rparr>))"

definition start_read_host :: "host_if \<Rightarrow> (nat \<times> host_if) option" where
  "start_read_host h =
     (let R = Registers h; (k, pl) = enQueuePageRegister (page_queue h);
          f = (if h_cmd R = PCI_DMA_READ then
                 (\<lambda>r. r\<lparr>h_dma_addr := h_dma_addr R, h_ssdAddr := h_ssdAddr R, h_size := h_size R\<rparr>)
               else
                 (\<lambda>r. r\<lparr>h_dma_addr := h_sqeDmaAddr R + ucast (h_sqe R * 64), h_ssdAddr := h_sqAddr R, h_size := 64,
                        h_squeue := h_squeue R, h_sqe := h_sqe R\<rparr>))
      in do {
           (i, h1) \<leftarrow> send_msg f (page_index (pl ! k)) (h\<lparr>page_queue := pl\<rparr>);
           Some (i, h1\<lparr>Registers := R\<lparr>h_cmdStatus := PROCESSING\<rparr>\<rparr>)
         })"

text \<open>The data of a write is in the page register, and marked ready, before the host looks at it.\<close>

definition start_write_host :: "mem \<Rightarrow> host_if \<Rightarrow> (nat \<times> host_if) option" where
  "start_write_host ram_data h =
     (let R = Registers h; (k, pl) = enQueuePageRegister (page_queue h);
          f = (if h_cmd R = PCI_DMA_WRITE then
                 (\<lambda>r. r\<lparr>h_dma_addr := h_dma_addr R, h_ssdAddr := h_ssdAddr R, h_size := h_size R\<rparr>)
               else
                 (\<lambda>r. r\<lparr>h_dma_addr := h_cqeDmaAddr R + ucast (h_cqe R * 16), h_ssdAddr := h_cqAddr R, h_size := 16,
                        h_cqe := h_cqe R, h_cqueue := h_cqueue R, h_cqIntVector := h_cqIntVector R,
                        h_isr_notify := h_isr_notify R\<rparr>))
      in do {
           (i, h1) \<leftarrow> send_msg f (page_index (pl ! k)) (h\<lparr>page_queue := pl\<rparr>);
           let m = registers (mq_list (msg_queue h1) ! i);
           let p = pl ! k;
           Some (i, h1\<lparr>Registers := R\<lparr>h_cmdStatus := PROCESSING\<rparr>,
             page_queue := pl[k := p\<lparr>pg_data := put_bytes (unat (h_size m)) 0 (\<lambda>j. ram_data (unat (h_ssdAddr m) + j)) (pg_data p),
                                     data_status := data_status_ready\<rparr>]\<rparr>)
         })"

text \<open>One message served by the host thread.\<close>

definition ssd_msg_check :: "host_if \<Rightarrow> host_if option" where
  "ssd_msg_check h =
     (case deQueueSSDMsg (msg_queue h) of
        (None, _) \<Rightarrow> Some h
      | (Some i, q) \<Rightarrow>
          let m = mq_list q ! i; r = registers m; h1 = h\<lparr>msg_queue := q\<rparr>; n = unat (h_size r) in
          if \<not> msg_ready m then None
          else if h_cmd r = PCI_DMA_READ \<or> h_cmd r = PCI_DMA_SQ_READ then
            (case getPageRegister (msg_page_index m) of
               None \<Rightarrow> None
             | Some k \<Rightarrow>
                 if INTERFACE_DMA_PAGE_SIZE < n then None
                 else let p = page_queue h1 ! k in
                   Some (h1\<lparr>page_queue := (page_queue h1)[k := p\<lparr>data_status := data_status_ready,
                     pg_data := put_bytes n 0 (\<lambda>j. host_mem h1 (unat (h_dma_addr r) + j)) (pg_data p)\<rparr>]\<rparr>))
          else if h_cmd r = PCI_DMA_WRITE \<or> h_cmd r = PCI_DMA_CQ_WRITE then
            (case getPageRegister (msg_page_index m) of
               None \<Rightarrow> None
             | Some k \<Rightarrow>
                 let p = page_queue h1 ! k in
                 if INTERFACE_DMA_PAGE_SIZE < n \<or> data_status p \<noteq> data_status_ready then None
                 else Some (h1\<lparr>host_mem := put_bytes n (unat (h_dma_addr r)) (pg_data p) (host_mem h1),
                   page_queue := (page_queue h1)[k := p\<lparr>data_status := data_status_used\<rparr>],
                   host_irqs := host_irqs h1 @
                     (if h_cmd r = PCI_DMA_CQ_WRITE \<and> h_isr_notify r \<noteq> 0 then [h_cqIntVector r] else [])\<rparr>))
          else if h_cmd r = PCI_ENABLE_MSIX_VECTOR then Some (h1\<lparr>host_vectors := host_vectors h1 @ [h_cqIntVector r]\<rparr>)
          else Some h1)"

text \<open>\<open>read_host_complete\<close> moves the data to SSD memory, \<open>write_ssd_complete\<close> ends the command.\<close>

definition read_host_complete :: "nat \<Rightarrow> 'a host_st_scheme \<Rightarrow> 'a host_st_scheme option" where
  "read_host_complete i s =
     (let h = host s; m = mq_list (msg_queue h) ! i; r = registers m in
      case getPageRegister (msg_page_index m) of
        None \<Rightarrow> None
      | Some k \<Rightarrow>
          let p = page_queue h ! k in
          if data_status p \<noteq> data_status_ready then None
          else Some (s\<lparr>ram := put_bytes (unat (h_size r)) (unat (h_ssdAddr r)) (pg_data p) (ram s),
            host := h\<lparr>page_queue := (page_queue h)[k := p\<lparr>data_status := data_status_used\<rparr>],
                      Registers := (Registers h)\<lparr>h_cmdStatus := COMPLETE\<rparr>\<rparr>\<rparr>))"

definition write_host_complete :: "nat \<Rightarrow> host_if \<Rightarrow> host_if option" where
  "write_host_complete i h =
     (case getPageRegister (msg_page_index (mq_list (msg_queue h) ! i)) of
        None \<Rightarrow> None
      | Some k \<Rightarrow>
          if data_status (page_queue h ! k) \<noteq> data_status_used then None
          else Some (h\<lparr>Registers := (Registers h)\<lparr>h_cmdStatus := COMPLETE\<rparr>\<rparr>))"

definition enable_msix_on_hostcpu :: "host_if \<Rightarrow> host_if option" where
  "enable_msix_on_hostcpu h =
     do {
       (i, h1) \<leftarrow> send_msg (\<lambda>r. r\<lparr>h_cqIntVector := h_cqIntVector (Registers h)\<rparr>) 0 h;
       Some (h1\<lparr>Registers := (Registers h1)\<lparr>h_cmdStatus := COMPLETE\<rparr>\<rparr>)
     }"

text \<open>A write of the command register, up to the completion of the command.\<close>

definition host_write_cmd :: "u32 \<Rightarrow> 'a host_st_scheme \<Rightarrow> 'a host_st_scheme option" where
  "host_write_cmd c s =
     (let h = (host s)\<lparr>Registers := (Registers (host s))\<lparr>h_cmd := c\<rparr>\<rparr> in
      if c = HIC_INIT then
        (let h1 = connect_shared_memory h in Some (s\<lparr>host := h1\<lparr>Registers := (Registers h1)\<lparr>h_cmdStatus := INITCOMPLETE\<rparr>\<rparr>\<rparr>))
      else if c = HOST_CONNECTION_STATUS then
        Some (s\<lparr>host := h\<lparr>Registers := (Registers h)\<lparr>h_cmdStatus :=
          (if simulation_status h = 200 then HOST_ATTACHED else HOST_DETTACHED)\<rparr>\<rparr>\<rparr>)
      else if c = PCI_DMA_READ \<or> c = PCI_DMA_SQ_READ then
        do { (i, h1) \<leftarrow> start_read_host h; h2 \<leftarrow> ssd_msg_check h1; read_host_complete i (s\<lparr>host := h2\<rparr>) }
      else if c = PCI_DMA_WRITE \<or> c = PCI_DMA_CQ_WRITE then
        do { (i, h1) \<leftarrow> start_write_host (ram s) h; h2 \<leftarrow> ssd_msg_check h1; h3 \<leftarrow> write_host_complete i h2; Some (s\<lparr>host := h3\<rparr>) }
      else if c = PCI_ENABLE_MSIX_VECTOR then
        do { h1 \<leftarrow> enable_msix_on_hostcpu h; h2 \<leftarrow> ssd_msg_check h1; Some (s\<lparr>host := h2\<rparr>) }
      else None)"

text \<open>A read of a register: status, doorbell updates, NVMe controller registers.\<close>

definition host_read_reg :: "nat \<Rightarrow> host_if \<Rightarrow> u32 \<times> host_if" where
  "host_read_reg offset h =
     (if offset = 4 then (h_cmdStatus (Registers h), h)
      else if offset = 8 then
        (case deQueueDBUpdate (db_queue h) of (None, q) \<Rightarrow> (0, h\<lparr>db_queue := q\<rparr>) | (Some u, q) \<Rightarrow> (dbu_raw u, h\<lparr>db_queue := q\<rparr>))
      else if offset \<ge> NVME_CTRL_OF then (load32 (nvmeReg h) (offset - NVME_CTRL_OF), h)
      else (0, h))"

definition ctrl_write_reg :: "nat \<Rightarrow> u32 \<Rightarrow> host_if \<Rightarrow> host_if option" where
  "ctrl_write_reg off data h = (if off < 0x1000 then Some (h\<lparr>nvmeReg := store32 (nvmeReg h) off data\<rparr>) else None)"

section \<open>The DMA module of the firmware\<close>

definition SYNC_DMA_Q :: nat where "SYNC_DMA_Q = 10"
definition READ_IO_DMA_OPERATION :: u32 where "READ_IO_DMA_OPERATION = 0x60"
definition WRITE_IO_DMA_OPERATION :: u32 where "WRITE_IO_DMA_OPERATION = 0x70"

definition init_host_dma :: "'a host_st_scheme \<Rightarrow> (int \<times> 'a host_st_scheme) option" where
  "init_host_dma s =
     do {
       (fid, s1) \<leftarrow> sys_add_thread_function HOST_DMA_THREAD sync_dma_cbk_ftn s;
       (r, s2) \<leftarrow> sys_create_obj_queue SYNC_DMA_Q NVME_DRIVER_THREAD fid s1;
       Some (0, s2)
     }"

definition set_regs :: "(hostCmdReg \<Rightarrow> hostCmdReg) \<Rightarrow> 'a host_st_scheme \<Rightarrow> 'a host_st_scheme" where
  "set_regs f s = s\<lparr>host := (host s)\<lparr>Registers := f (Registers (host s))\<rparr>\<rparr>"

definition do_sync_read_scmd :: "'a host_st_scheme \<Rightarrow> 'a host_st_scheme option" where
  "do_sync_read_scmd s =
     do {
       let d = sync_dma s;
       s1 \<leftarrow> host_write_cmd PCI_DMA_SQ_READ (set_regs (\<lambda>r. r\<lparr>h_sqeDmaAddr := sd_host_p_addr d, h_squeue := sd_sqid d,
         h_sqe := sd_sqe d, h_sqAddr := of_nat (sd_ssd_addr d)\<rparr>) s);
       Some (s1\<lparr>sync_dma := (sync_dma s1)\<lparr>sd_status := 1\<rparr>\<rparr>)
     }"

definition do_sync_post_ccmd :: "'a host_st_scheme \<Rightarrow> 'a host_st_scheme option" where
  "do_sync_post_ccmd s =
     do {
       let d = sync_dma s;
       s1 \<leftarrow> host_write_cmd PCI_DMA_CQ_WRITE (set_regs (\<lambda>r. r\<lparr>h_cqueue := sd_cqid d, h_cqe := sd_cqe d,
         h_cqAddr := of_nat (sd_ssd_addr d), h_cqeDmaAddr := sd_host_p_addr d, h_cqIntVector := sd_vector d,
         h_isr_notify := sd_irq_enabled d\<rparr>) s);
       Some (s1\<lparr>sync_dma := (sync_dma s1)\<lparr>sd_status := 1\<rparr>\<rparr>)
     }"

text \<open>One entry of a scatter list: \<open>len\<close> bytes between the host page and \<open>addr\<close>.\<close>

definition dma_transfer :: "u32 \<Rightarrow> u64 \<Rightarrow> u32 \<Rightarrow> nat \<Rightarrow> 'a host_st_scheme \<Rightarrow> 'a host_st_scheme option" where
  "dma_transfer op haddr len addr s =
     host_write_cmd op (set_regs (\<lambda>r. r\<lparr>h_dma_addr := haddr, h_size := len, h_buffMgtID := 0, h_ssdAddr := of_nat addr\<rparr>) s)"

text \<open>The loops over the scatter list; \<open>k\<close> entries are left, starting at \<open>ix\<close>.\<close>

fun rw_io_dma_loop :: "u32 \<Rightarrow> dma_op_t list \<Rightarrow> nat \<Rightarrow> nat \<Rightarrow> nat \<Rightarrow> 'a host_st_scheme \<Rightarrow> 'a host_st_scheme option" where
  "rw_io_dma_loop op l 0 ix addr s = Some s"
| "rw_io_dma_loop op l (Suc k) ix addr s =
     (if length l \<le> ix then None
      else do {
        s1 \<leftarrow> dma_transfer op (host_p_addr (l ! ix)) (op_len (l ! ix)) addr s;
        rw_io_dma_loop op l k (ix + 1) (addr + unat (op_len (l ! ix))) s1
      })"

fun dma_loop :: "u32 \<Rightarrow> dma_op_t list \<Rightarrow> nat \<Rightarrow> nat \<Rightarrow> nat \<Rightarrow> u32 \<Rightarrow> 'a host_st_scheme \<Rightarrow> 'a host_st_scheme option" where
  "dma_loop op l 0 ix addr r_len s = Some s"
| "dma_loop op l (Suc k) ix addr r_len s =
     (if r_len = 0 then Some s
      else if length l \<le> ix then None
      else let tran_len = min (op_len (l ! ix)) r_len in
        do {
          s1 \<leftarrow> dma_transfer op (host_p_addr (l ! ix)) tran_len addr s;
          dma_loop op l k (ix + 1) (addr + unat tran_len) (r_len - tran_len) s1
        })"

text \<open>The DMA object a pointer denotes: the one of a request, or the one the driver uses for PRP lists.\<close>

definition get_dma :: "obj_ptr \<Rightarrow> 'a host_st_scheme \<Rightarrow> dma_t option" where
  "get_dma p s = (case p of PRP_DMA \<Rightarrow> Some (prp_dma s) | DMA_OF q \<Rightarrow> map_option dma (get_req q s) | _ \<Rightarrow> None)"

definition upd_dma :: "obj_ptr \<Rightarrow> (dma_t \<Rightarrow> dma_t) \<Rightarrow> 'a host_st_scheme \<Rightarrow> 'a host_st_scheme" where
  "upd_dma p f s = (case p of
       PRP_DMA \<Rightarrow> s\<lparr>prp_dma := f (prp_dma s)\<rparr>
     | DMA_OF q \<Rightarrow> upd_req q (\<lambda>r. r\<lparr>dma := f (dma r)\<rparr>) s
     | _ \<Rightarrow> s)"

definition do_sync_rw_io_dma_operation :: "obj_ptr \<Rightarrow> u32 \<Rightarrow> 'a host_st_scheme \<Rightarrow> 'a host_st_scheme option" where
  "do_sync_rw_io_dma_operation p op s =
     do {
       d \<leftarrow> get_dma p s;
       s1 \<leftarrow> rw_io_dma_loop op (dma_list d) (unat (n_ops d)) 0 (buffer_addr d) s;
       Some (upd_dma p (\<lambda>d. d\<lparr>host_dma_complete := True\<rparr>) s1)
     }"

definition do_sync_dma_operation :: "obj_ptr \<Rightarrow> u32 \<Rightarrow> 'a host_st_scheme \<Rightarrow> 'a host_st_scheme option" where
  "do_sync_dma_operation p op s =
     do {
       d \<leftarrow> get_dma p s;
       let r_len = (if c_op_len d \<noteq> 0 then c_op_len d else data_size d);
       let ix = unat (c_op_smem_pg d);
       s1 \<leftarrow> dma_loop op (dma_list d) (unat (n_ops d) - ix) ix (buffer_addr d) r_len s;
       Some (upd_dma p (\<lambda>d. d\<lparr>c_op_len := 0, c_op_smem_pg := 0, host_dma_complete := True\<rparr>) s1)
     }"

definition sync_dma_cbk :: "obj_ptr \<Rightarrow> u32 \<Rightarrow> 'a host_st_scheme \<Rightarrow> 'a host_st_scheme option" where
  "sync_dma_cbk p obj_type s =
     (if obj_type = PCI_DMA_SQ_READ then do_sync_read_scmd s
      else if obj_type = PCI_DMA_CQ_WRITE then do_sync_post_ccmd s
      else if obj_type = READ_IO_DMA_OPERATION then do_sync_rw_io_dma_operation (DMA_OF p) PCI_DMA_WRITE s
      else if obj_type = WRITE_IO_DMA_OPERATION then do_sync_rw_io_dma_operation (DMA_OF p) PCI_DMA_READ s
      else if obj_type = PCI_DMA_READ \<or> obj_type = PCI_DMA_WRITE then do_sync_dma_operation p obj_type s
      else Some s)"

section \<open>Synchronous transfers\<close>

text \<open>
  A synchronous transfer queues its object and yields until the DMA thread has served it. The
  other threads do not touch the objects of a transfer, so the wait is the run of the DMA thread
  on the oldest entry of its queue.
\<close>

definition run_dma_thread :: "obj_ptr \<Rightarrow> u32 \<Rightarrow> 'a host_st_scheme \<Rightarrow> 'a host_st_scheme option" where
  "run_dma_thread p ty s =
     (let (r, s1) = sys_push_obj_to_queue SYNC_DMA_Q p ty s; (e, s2) = pop_obj_from_queue SYNC_DMA_Q s1
      in if e = -1 then None
         else let (obj_type, obj_ptr) = oq_entries (queues s2 ! SYNC_DMA_Q) ! nat e in sync_dma_cbk obj_ptr obj_type s2)"

definition sync_read_scmd :: "u32 \<Rightarrow> u32 \<Rightarrow> u64 \<Rightarrow> nat \<Rightarrow> u32 \<Rightarrow> 'a host_st_scheme \<Rightarrow> 'a host_st_scheme option" where
  "sync_read_scmd qid e haddr addr ncmds s =
     do {
       s1 \<leftarrow> run_dma_thread SYNC_DMA PCI_DMA_SQ_READ (s\<lparr>sync_dma := (sync_dma s)\<lparr>sd_dma_type := PCI_DMA_SQ_READ, sd_status := 0,
         sd_sqid := qid, sd_sqe := e, sd_host_p_addr := haddr, sd_ssd_addr := addr, sd_num_of_entries := ncmds\<rparr>\<rparr>);
       if sd_status (sync_dma s1) > 0 then Some s1 else None
     }"

definition sync_post_ccmd ::
  "u32 \<Rightarrow> u32 \<Rightarrow> u64 \<Rightarrow> nat \<Rightarrow> u32 \<Rightarrow> u32 \<Rightarrow> u32 \<Rightarrow> 'a host_st_scheme \<Rightarrow> 'a host_st_scheme option" where
  "sync_post_ccmd qid e haddr addr ncmds vector irq_enabled s =
     do {
       s1 \<leftarrow> run_dma_thread SYNC_DMA PCI_DMA_CQ_WRITE (s\<lparr>sync_dma := (sync_dma s)\<lparr>sd_dma_type := PCI_DMA_CQ_WRITE, sd_status := 0,
         sd_cqid := qid, sd_cqe := e, sd_host_p_addr := haddr, sd_ssd_addr := addr, sd_num_of_entries := ncmds,
         sd_vector := vector, sd_irq_enabled := irq_enabled\<rparr>\<rparr>);
       if sd_status (sync_dma s1) > 0 then Some s1 else None
     }"

definition dma_done :: "obj_ptr \<Rightarrow> 'a host_st_scheme \<Rightarrow> 'a host_st_scheme option" where
  "dma_done p s = (case get_dma p s of None \<Rightarrow> None | Some d \<Rightarrow> if host_dma_complete d then Some s else None)"

definition sync_read_io_dma :: "obj_ptr \<Rightarrow> 'a host_st_scheme \<Rightarrow> 'a host_st_scheme option" where
  "sync_read_io_dma p s =
     do {
       _ \<leftarrow> get_req p s;
       s1 \<leftarrow> run_dma_thread p READ_IO_DMA_OPERATION
         (upd_req p (\<lambda>r. r\<lparr>req_stage := REQ_STAGE_DMA, dma := (dma r)\<lparr>host_dma_complete := False\<rparr>\<rparr>) s);
       dma_done (DMA_OF p) s1
     }"

definition sync_write_io_dma :: "obj_ptr \<Rightarrow> 'a host_st_scheme \<Rightarrow> 'a host_st_scheme option" where
  "sync_write_io_dma p s =
     do {
       _ \<leftarrow> get_req p s;
       s1 \<leftarrow> run_dma_thread p WRITE_IO_DMA_OPERATION
         (upd_req p (\<lambda>r. r\<lparr>req_stage := REQ_STAGE_DMA, dma := (dma r)\<lparr>host_dma_complete := False\<rparr>\<rparr>) s);
       dma_done (DMA_OF p) s1
     }"

definition sync_host_dma :: "obj_ptr \<Rightarrow> u32 \<Rightarrow> 'a host_st_scheme \<Rightarrow> 'a host_st_scheme option" where
  "sync_host_dma p op s =
     do {
       _ \<leftarrow> get_dma p s;
       s1 \<leftarrow> run_dma_thread p op (upd_dma p (\<lambda>d. d\<lparr>host_dma_complete := False\<rparr>) s);
       dma_done p s1
     }"

section \<open>What a command of the host interface does\<close>

text \<open>Between commands the host has served every message.\<close>

definition link_ok :: "host_if \<Rightarrow> bool" where
  "link_ok h \<longleftrightarrow> msgq_inv (msg_queue h) \<and> mq_head (msg_queue h) = mq_tail (msg_queue h) \<and>
     length (page_queue h) = INTERFACE_DMA_PAGE_COUNT"

text \<open>What transfers do not touch, apart from host memory and interrupts.\<close>

definition link_frame :: "host_if \<Rightarrow> host_if \<Rightarrow> bool" where
  "link_frame h h' \<longleftrightarrow> link_ok h' \<and> host_vectors h' = host_vectors h \<and> db_queue h' = db_queue h \<and> nvmeReg h' = nvmeReg h \<and>
     simulation_status h' = simulation_status h"

lemma put_bytes_via: "put_bytes n a (put_bytes n 0 f d) m = put_bytes n a f m"
  by (rule ext) (auto simp: put_bytes_def)

lemmas page_reg_defs = enQueuePageRegister_def getPageRegister_def INTERFACE_DMA_PAGE_COUNT_def
  data_status_ready_def data_status_used_def data_status_free_def

lemma send_msg_ok:
  assumes "link_ok h"
  obtains i q where "send_msg f pgi (h\<lparr>page_queue := pl\<rparr>) = Some (i, h\<lparr>page_queue := pl, msg_queue := q\<rparr>)"
    and "deQueueSSDMsg q = (Some i, q\<lparr>mq_head := mq_tail q\<rparr>)" and "msgq_inv (q\<lparr>mq_head := mq_tail q\<rparr>)"
    and "\<exists>r. registers (mq_list q ! i) = f (r\<lparr>h_cmd := h_cmd (Registers h)\<rparr>)"
    and "msg_ready (mq_list q ! i)" and "msg_page_index (mq_list q ! i) = pgi"
proof -
  let ?q = "msg_queue h"
  obtain t where t: "mq_tail ?q = t" "mq_head ?q = t" "t < 1024" "length (mq_list ?q) = 1024"
    using assms by (auto simp: link_ok_def msgq_inv_def SSDMsgQueueSize_def)
  have ne: "t \<noteq> (t + 1) mod 1024" using t(3) by (cases "t + 1 = 1024") auto
  let ?m = "mq_list ?q ! t"
  let ?f1 = "?m\<lparr>registers := (registers ?m)\<lparr>h_cmd := h_cmd (Registers h)\<rparr>, msg_ready := False, msg_index := t + 1\<rparr>"
  let ?q1 = "?q\<lparr>mq_list := (mq_list ?q)[t := ?f1\<lparr>registers := f (registers ?f1), msg_page_index := pgi, msg_ready := True\<rparr>],
     mq_tail := (t + 1) mod 1024\<rparr>"
  show ?thesis
  proof (rule that [of t ?q1])
    show "send_msg f pgi (h\<lparr>page_queue := pl\<rparr>) = Some (t, h\<lparr>page_queue := pl, msg_queue := ?q1\<rparr>)"
      using t ne by (simp add: send_msg_def enQueueSSDMsg_def Let_def SSDMsgQueueSize_def)
    show "deQueueSSDMsg ?q1 = (Some t, ?q1\<lparr>mq_head := mq_tail ?q1\<rparr>)"
      using t ne by (simp add: deQueueSSDMsg_def SSDMsgQueueSize_def)
    show "msgq_inv (?q1\<lparr>mq_head := mq_tail ?q1\<rparr>)"
      using t by (simp add: msgq_inv_def SSDMsgQueueSize_def)
    show "\<exists>r. registers (mq_list ?q1 ! t) = f (r\<lparr>h_cmd := h_cmd (Registers h)\<rparr>)" using t by auto
    show "msg_ready (mq_list ?q1 ! t)" "msg_page_index (mq_list ?q1 ! t) = pgi" using t by simp_all
  qed
qed

text \<open>One read from host memory, with the registers of the command decoded.\<close>

lemma read_host_ok:
  fixes s :: "'a host_st_scheme"
  assumes "link_ok h" "c = PCI_DMA_READ \<or> c = PCI_DMA_SQ_READ" "h_cmd (Registers h) = c"
    and "start_read_host h = (let (k, pl) = enQueuePageRegister (page_queue h) in
      do { (i, h1) \<leftarrow> send_msg f (page_index (pl ! k)) (h\<lparr>page_queue := pl\<rparr>);
           Some (i, h1\<lparr>Registers := (Registers h)\<lparr>h_cmdStatus := PROCESSING\<rparr>\<rparr>) })"
    and "\<And>r. h_cmd (f r) = h_cmd r" "\<And>r. h_dma_addr (f r) = a" "\<And>r. h_size (f r) = n" "\<And>r. h_ssdAddr (f r) = d"
    and "unat n \<le> INTERFACE_DMA_PAGE_SIZE"
  shows "\<exists>h'. do { (i, h1) \<leftarrow> start_read_host h; h2 \<leftarrow> ssd_msg_check h1; read_host_complete i (s\<lparr>host := h2\<rparr>) } =
      Some (s\<lparr>ram := put_bytes (unat n) (unat d) (\<lambda>j. host_mem h (unat a + j)) (ram s), host := h'\<rparr>) \<and>
      link_frame h h' \<and> host_mem h' = host_mem h \<and> host_irqs h' = host_irqs h"
proof -
  let ?p = "(page_queue h ! 0)\<lparr>page_index := 1, data_status := data_status_free\<rparr>"
  let ?pl = "(page_queue h)[0 := ?p]"
  have len: "0 < length (page_queue h)" using assms(1) by (simp add: link_ok_def INTERFACE_DMA_PAGE_COUNT_def)
  obtain i q where m: "send_msg f 1 (h\<lparr>page_queue := ?pl\<rparr>) = Some (i, h\<lparr>page_queue := ?pl, msg_queue := q\<rparr>)"
      "deQueueSSDMsg q = (Some i, q\<lparr>mq_head := mq_tail q\<rparr>)" "msgq_inv (q\<lparr>mq_head := mq_tail q\<rparr>)"
      "\<exists>r. registers (mq_list q ! i) = f (r\<lparr>h_cmd := h_cmd (Registers h)\<rparr>)"
      "msg_ready (mq_list q ! i)" "msg_page_index (mq_list q ! i) = 1"
    by (rule send_msg_ok [OF assms(1)])
  from m(4) obtain r where r: "registers (mq_list q ! i) = f (r\<lparr>h_cmd := c\<rparr>)" using assms(3) by auto
  have st: "start_read_host h = Some (i, h\<lparr>page_queue := ?pl, msg_queue := q, Registers := (Registers h)\<lparr>h_cmdStatus := PROCESSING\<rparr>\<rparr>)"
    using m(1) len by (simp add: assms(4) enQueuePageRegister_def)
  let ?h1 = "h\<lparr>page_queue := ?pl, msg_queue := q, Registers := (Registers h)\<lparr>h_cmdStatus := PROCESSING\<rparr>\<rparr>"
  let ?data = "put_bytes (unat n) 0 (\<lambda>j. host_mem h (unat a + j)) (pg_data (page_queue h ! 0))"
  let ?h2 = "?h1\<lparr>msg_queue := q\<lparr>mq_head := mq_tail q\<rparr>, page_queue := ?pl[0 := ?p\<lparr>data_status := data_status_ready, pg_data := ?data\<rparr>]\<rparr>"
  have chk: "ssd_msg_check ?h1 = Some ?h2"
    using assms(2,5-9) m(2,5,6) r len by (simp add: ssd_msg_check_def Let_def getPageRegister_def INTERFACE_DMA_PAGE_COUNT_def)
  let ?h3 = "?h2\<lparr>page_queue := (page_queue ?h2)[0 := (page_queue ?h2 ! 0)\<lparr>data_status := data_status_used\<rparr>],
     Registers := (Registers ?h2)\<lparr>h_cmdStatus := COMPLETE\<rparr>\<rparr>"
  have "read_host_complete i (s\<lparr>host := ?h2\<rparr>) =
      Some (s\<lparr>ram := put_bytes (unat n) (unat d) (\<lambda>j. host_mem h (unat a + j)) (ram s), host := ?h3\<rparr>)"
    using assms(5-9) m(5,6) r len
    by (simp add: read_host_complete_def Let_def getPageRegister_def INTERFACE_DMA_PAGE_COUNT_def put_bytes_via)
  moreover have "link_frame h ?h3" using assms(1) m(3) by (simp add: link_frame_def link_ok_def)
  ultimately show ?thesis using st chk by (intro exI [of _ ?h3]) simp
qed

lemma write_host_ok:
  assumes "link_ok h" "c = PCI_DMA_WRITE \<or> c = PCI_DMA_CQ_WRITE" "h_cmd (Registers h) = c"
    and "start_write_host m h = (let (k, pl) = enQueuePageRegister (page_queue h) in
      do { (i, h1) \<leftarrow> send_msg f (page_index (pl ! k)) (h\<lparr>page_queue := pl\<rparr>);
           let x = registers (mq_list (msg_queue h1) ! i); let p = pl ! k;
           Some (i, h1\<lparr>Registers := (Registers h)\<lparr>h_cmdStatus := PROCESSING\<rparr>,
             page_queue := pl[k := p\<lparr>pg_data := put_bytes (unat (h_size x)) 0 (\<lambda>j. m (unat (h_ssdAddr x) + j)) (pg_data p),
               data_status := data_status_ready\<rparr>]\<rparr>) })"
    and "\<And>r. h_cmd (f r) = h_cmd r" "\<And>r. h_dma_addr (f r) = a" "\<And>r. h_size (f r) = n" "\<And>r. h_ssdAddr (f r) = d"
    and "unat n \<le> INTERFACE_DMA_PAGE_SIZE"
    and "\<And>r. (if c = PCI_DMA_CQ_WRITE \<and> h_isr_notify (f r) \<noteq> 0 then [h_cqIntVector (f r)] else []) = irq"
  shows "\<exists>h'. do { (i, h1) \<leftarrow> start_write_host m h; h2 \<leftarrow> ssd_msg_check h1; write_host_complete i h2 } = Some h' \<and>
      link_frame h h' \<and> host_mem h' = put_bytes (unat n) (unat a) (\<lambda>j. m (unat d + j)) (host_mem h) \<and>
      host_irqs h' = host_irqs h @ irq"
proof -
  let ?p = "(page_queue h ! 0)\<lparr>page_index := 1, data_status := data_status_free\<rparr>"
  let ?pl = "(page_queue h)[0 := ?p]"
  have len: "0 < length (page_queue h)" using assms(1) by (simp add: link_ok_def INTERFACE_DMA_PAGE_COUNT_def)
  obtain i q where m: "send_msg f 1 (h\<lparr>page_queue := ?pl\<rparr>) = Some (i, h\<lparr>page_queue := ?pl, msg_queue := q\<rparr>)"
      "deQueueSSDMsg q = (Some i, q\<lparr>mq_head := mq_tail q\<rparr>)" "msgq_inv (q\<lparr>mq_head := mq_tail q\<rparr>)"
      "\<exists>r. registers (mq_list q ! i) = f (r\<lparr>h_cmd := h_cmd (Registers h)\<rparr>)"
      "msg_ready (mq_list q ! i)" "msg_page_index (mq_list q ! i) = 1"
    by (rule send_msg_ok [OF assms(1)])
  from m(4) obtain r where r: "registers (mq_list q ! i) = f (r\<lparr>h_cmd := c\<rparr>)" using assms(3) by auto
  let ?data = "put_bytes (unat n) 0 (\<lambda>j. m (unat d + j)) (pg_data (page_queue h ! 0))"
  let ?h1 = "h\<lparr>page_queue := ?pl[0 := ?p\<lparr>pg_data := ?data, data_status := data_status_ready\<rparr>], msg_queue := q,
     Registers := (Registers h)\<lparr>h_cmdStatus := PROCESSING\<rparr>\<rparr>"
  have st: "start_write_host m h = Some (i, ?h1)"
    using m(1) len r assms(5-8) by (simp add: assms(4) enQueuePageRegister_def)
  let ?h2 = "?h1\<lparr>msg_queue := q\<lparr>mq_head := mq_tail q\<rparr>, host_mem := put_bytes (unat n) (unat a) ?data (host_mem h),
     page_queue := (page_queue ?h1)[0 := (page_queue ?h1 ! 0)\<lparr>data_status := data_status_used\<rparr>], host_irqs := host_irqs h @ irq\<rparr>"
  have ir: "(if c = PCI_DMA_CQ_WRITE \<and> h_isr_notify (f (r\<lparr>h_cmd := c\<rparr>)) \<noteq> 0 then [h_cqIntVector (f (r\<lparr>h_cmd := c\<rparr>))] else []) = irq"
    by (rule assms(10))
  have nr: "c \<noteq> PCI_DMA_READ" "c \<noteq> PCI_DMA_SQ_READ" "PCI_DMA_WRITE \<noteq> PCI_DMA_CQ_WRITE" "PCI_DMA_CQ_WRITE \<noteq> PCI_DMA_WRITE"
    using assms(2) by (auto simp: hic_codes)
  have chk: "ssd_msg_check ?h1 = Some ?h2"
    by (rule disjE [OF assms(2)]; use assms(5-9) m(2,5,6) r len nr in \<open>simp add: ssd_msg_check_def Let_def getPageRegister_def INTERFACE_DMA_PAGE_COUNT_def ir [symmetric]\<close>)
  have "write_host_complete i ?h2 = Some (?h2\<lparr>Registers := (Registers ?h2)\<lparr>h_cmdStatus := COMPLETE\<rparr>\<rparr>)"
    using m(6) len by (simp add: write_host_complete_def getPageRegister_def INTERFACE_DMA_PAGE_COUNT_def)
  moreover have "link_frame h (?h2\<lparr>Registers := (Registers ?h2)\<lparr>h_cmdStatus := COMPLETE\<rparr>\<rparr>)"
    using assms(1) m(3) by (simp add: link_frame_def link_ok_def)
  ultimately show ?thesis using st chk
    by (intro exI [of _ "?h2\<lparr>Registers := (Registers ?h2)\<lparr>h_cmdStatus := COMPLETE\<rparr>\<rparr>"]) (simp add: put_bytes_via)
qed

lemma link_frame_regs: "link_frame (h\<lparr>Registers := R\<rparr>) h' = link_frame h h'"
  by (simp add: link_frame_def)

lemma link_ok_regs [simp]: "link_ok (h\<lparr>Registers := R\<rparr>) = link_ok h"
  by (simp add: link_ok_def)

text \<open>The four commands the firmware issues.\<close>

lemma cmd_dma_read:
  fixes s :: "'a host_st_scheme"
  assumes "link_ok (host s)" "unat len \<le> INTERFACE_DMA_PAGE_SIZE" "addr < 2 ^ 32"
  shows "\<exists>h'. dma_transfer PCI_DMA_READ haddr len addr s =
      Some (s\<lparr>ram := put_bytes (unat len) addr (\<lambda>j. host_mem (host s) (unat haddr + j)) (ram s), host := h'\<rparr>) \<and>
      link_frame (host s) h' \<and> host_mem h' = host_mem (host s) \<and> host_irqs h' = host_irqs (host s)"
proof -
  let ?R = "(Registers (host s))\<lparr>h_dma_addr := haddr, h_size := len, h_buffMgtID := 0, h_ssdAddr := of_nat addr, h_cmd := PCI_DMA_READ\<rparr>"
  let ?h = "(host s)\<lparr>Registers := ?R\<rparr>"
  have ua: "unat (of_nat addr :: u32) = addr" using assms(3) by (simp add: unat_of_nat)
  have "\<exists>h'. do { (i, h1) \<leftarrow> start_read_host ?h; h2 \<leftarrow> ssd_msg_check h1; read_host_complete i (s\<lparr>host := h2\<rparr>) } =
      Some (s\<lparr>ram := put_bytes (unat len) (unat (of_nat addr :: u32)) (\<lambda>j. host_mem ?h (unat haddr + j)) (ram s), host := h'\<rparr>) \<and>
      link_frame ?h h' \<and> host_mem h' = host_mem ?h \<and> host_irqs h' = host_irqs ?h"
    by (rule read_host_ok [where f = "\<lambda>r. r\<lparr>h_dma_addr := haddr, h_ssdAddr := of_nat addr, h_size := len\<rparr>" and c = PCI_DMA_READ])
      (use assms in \<open>simp_all add: start_read_host_def Let_def split: prod.splits\<close>)
  then show ?thesis
    by (simp add: dma_transfer_def host_write_cmd_def set_regs_def hic_codes Let_def ua link_frame_regs)
qed

lemma cmd_dma_write:
  fixes s :: "'a host_st_scheme"
  assumes "link_ok (host s)" "unat len \<le> INTERFACE_DMA_PAGE_SIZE" "addr < 2 ^ 32"
  shows "\<exists>h'. dma_transfer PCI_DMA_WRITE haddr len addr s = Some (s\<lparr>host := h'\<rparr>) \<and> link_frame (host s) h' \<and>
      host_mem h' = put_bytes (unat len) (unat haddr) (\<lambda>j. ram s (addr + j)) (host_mem (host s)) \<and>
      host_irqs h' = host_irqs (host s)"
proof -
  let ?R = "(Registers (host s))\<lparr>h_dma_addr := haddr, h_size := len, h_buffMgtID := 0, h_ssdAddr := of_nat addr, h_cmd := PCI_DMA_WRITE\<rparr>"
  let ?h = "(host s)\<lparr>Registers := ?R\<rparr>"
  have ua: "unat (of_nat addr :: u32) = addr" using assms(3) by (simp add: unat_of_nat)
  have "\<exists>h'. do { (i, h1) \<leftarrow> start_write_host (ram s) ?h; h2 \<leftarrow> ssd_msg_check h1; write_host_complete i h2 } = Some h' \<and>
      link_frame ?h h' \<and> host_mem h' = put_bytes (unat len) (unat haddr) (\<lambda>j. ram s (unat (of_nat addr :: u32) + j)) (host_mem ?h) \<and>
      host_irqs h' = host_irqs ?h @ []"
    by (rule write_host_ok [where f = "\<lambda>r. r\<lparr>h_dma_addr := haddr, h_ssdAddr := of_nat addr, h_size := len\<rparr>" and c = PCI_DMA_WRITE])
      (use assms in \<open>simp_all add: start_write_host_def Let_def hic_codes split: prod.splits\<close>)
  then obtain h' where h': "do { (i, h1) \<leftarrow> start_write_host (ram s) ?h; h2 \<leftarrow> ssd_msg_check h1; write_host_complete i h2 } = Some h'"
      "link_frame ?h h'" "host_mem h' = put_bytes (unat len) (unat haddr) (\<lambda>j. ram s (addr + j)) (host_mem (host s))"
      "host_irqs h' = host_irqs (host s)" using ua by auto
  from h'(1) have "do { (i, h1) \<leftarrow> start_write_host (ram s) ?h; h2 \<leftarrow> ssd_msg_check h1; h3 \<leftarrow> write_host_complete i h2; Some (s\<lparr>host := h3\<rparr>) }
      = Some (s\<lparr>host := h'\<rparr>)" by (auto elim!: bind_SomeE split: prod.splits)
  then show ?thesis using h'(2-4)
    by (intro exI [of _ h']) (simp add: dma_transfer_def host_write_cmd_def set_regs_def hic_codes Let_def link_frame_regs)
qed

lemma cmd_sq_read:
  fixes s :: "'a host_st_scheme"
  assumes "link_ok (host s)" "sd_ssd_addr (sync_dma s) < 2 ^ 32"
  shows "\<exists>h'. do_sync_read_scmd s = Some (s\<lparr>ram := put_bytes 64 (sd_ssd_addr (sync_dma s))
        (\<lambda>j. host_mem (host s) (unat (sd_host_p_addr (sync_dma s) + ucast (sd_sqe (sync_dma s) * 64)) + j)) (ram s),
        host := h', sync_dma := (sync_dma s)\<lparr>sd_status := 1\<rparr>\<rparr>) \<and>
      link_frame (host s) h' \<and> host_mem h' = host_mem (host s) \<and> host_irqs h' = host_irqs (host s)"
proof -
  let ?d = "sync_dma s"
  let ?R = "(Registers (host s))\<lparr>h_sqeDmaAddr := sd_host_p_addr ?d, h_squeue := sd_sqid ?d, h_sqe := sd_sqe ?d,
     h_sqAddr := of_nat (sd_ssd_addr ?d), h_cmd := PCI_DMA_SQ_READ\<rparr>"
  let ?h = "(host s)\<lparr>Registers := ?R\<rparr>"
  let ?a = "sd_host_p_addr ?d + ucast (sd_sqe ?d * 64)"
  have ua: "unat (of_nat (sd_ssd_addr ?d) :: u32) = sd_ssd_addr ?d" using assms(2) by (simp add: unat_of_nat)
  have "\<exists>h'. do { (i, h1) \<leftarrow> start_read_host ?h; h2 \<leftarrow> ssd_msg_check h1; read_host_complete i (s\<lparr>host := h2\<rparr>) } =
      Some (s\<lparr>ram := put_bytes (unat (64 :: u32)) (unat (of_nat (sd_ssd_addr ?d) :: u32)) (\<lambda>j. host_mem ?h (unat ?a + j)) (ram s), host := h'\<rparr>) \<and>
      link_frame ?h h' \<and> host_mem h' = host_mem ?h \<and> host_irqs h' = host_irqs ?h"
    by (rule read_host_ok [where f = "\<lambda>r. r\<lparr>h_dma_addr := ?a, h_ssdAddr := of_nat (sd_ssd_addr ?d), h_size := 64,
          h_squeue := sd_sqid ?d, h_sqe := sd_sqe ?d\<rparr>" and c = PCI_DMA_SQ_READ])
      (use assms in \<open>simp_all add: start_read_host_def Let_def hic_codes INTERFACE_DMA_PAGE_SIZE_def split: prod.splits\<close>)
  then obtain h' where h': "do { (i, h1) \<leftarrow> start_read_host ?h; h2 \<leftarrow> ssd_msg_check h1; read_host_complete i (s\<lparr>host := h2\<rparr>) } =
        Some (s\<lparr>ram := put_bytes 64 (sd_ssd_addr ?d) (\<lambda>j. host_mem (host s) (unat ?a + j)) (ram s), host := h'\<rparr>)"
      "link_frame (host s) h'" "host_mem h' = host_mem (host s)" "host_irqs h' = host_irqs (host s)"
    using ua by (auto simp: link_frame_regs)
  have "host_write_cmd PCI_DMA_SQ_READ (set_regs (\<lambda>r. r\<lparr>h_sqeDmaAddr := sd_host_p_addr ?d, h_squeue := sd_sqid ?d,
      h_sqe := sd_sqe ?d, h_sqAddr := of_nat (sd_ssd_addr ?d)\<rparr>) s) =
        Some (s\<lparr>ram := put_bytes 64 (sd_ssd_addr ?d) (\<lambda>j. host_mem (host s) (unat ?a + j)) (ram s), host := h'\<rparr>)"
    using h'(1) by (simp add: host_write_cmd_def set_regs_def hic_codes Let_def)
  then show ?thesis using h'(2-4) by (intro exI [of _ h']) (simp add: do_sync_read_scmd_def Let_def)
qed

lemma cmd_cq_write:
  fixes s :: "'a host_st_scheme"
  assumes "link_ok (host s)" "sd_ssd_addr (sync_dma s) < 2 ^ 32"
  shows "\<exists>h'. do_sync_post_ccmd s = Some (s\<lparr>host := h', sync_dma := (sync_dma s)\<lparr>sd_status := 1\<rparr>\<rparr>) \<and> link_frame (host s) h' \<and>
      host_mem h' = put_bytes 16 (unat (sd_host_p_addr (sync_dma s) + ucast (sd_cqe (sync_dma s) * 16)))
        (\<lambda>j. ram s (sd_ssd_addr (sync_dma s) + j)) (host_mem (host s)) \<and>
      host_irqs h' = host_irqs (host s) @ (if sd_irq_enabled (sync_dma s) \<noteq> 0 then [sd_vector (sync_dma s)] else [])"
proof -
  let ?d = "sync_dma s"
  let ?R = "(Registers (host s))\<lparr>h_cqueue := sd_cqid ?d, h_cqe := sd_cqe ?d, h_cqAddr := of_nat (sd_ssd_addr ?d),
     h_cqeDmaAddr := sd_host_p_addr ?d, h_cqIntVector := sd_vector ?d, h_isr_notify := sd_irq_enabled ?d, h_cmd := PCI_DMA_CQ_WRITE\<rparr>"
  let ?h = "(host s)\<lparr>Registers := ?R\<rparr>"
  let ?a = "sd_host_p_addr ?d + ucast (sd_cqe ?d * 16)"
  let ?irq = "if sd_irq_enabled ?d \<noteq> 0 then [sd_vector ?d] else []"
  have ua: "unat (of_nat (sd_ssd_addr ?d) :: u32) = sd_ssd_addr ?d" using assms(2) by (simp add: unat_of_nat)
  have "\<exists>h'. do { (i, h1) \<leftarrow> start_write_host (ram s) ?h; h2 \<leftarrow> ssd_msg_check h1; write_host_complete i h2 } = Some h' \<and>
      link_frame ?h h' \<and> host_mem h' = put_bytes (unat (16 :: u32)) (unat ?a)
        (\<lambda>j. ram s (unat (of_nat (sd_ssd_addr ?d) :: u32) + j)) (host_mem ?h) \<and> host_irqs h' = host_irqs ?h @ ?irq"
    by (rule write_host_ok [where f = "\<lambda>r. r\<lparr>h_dma_addr := ?a, h_ssdAddr := of_nat (sd_ssd_addr ?d), h_size := 16,
          h_cqe := sd_cqe ?d, h_cqueue := sd_cqid ?d, h_cqIntVector := sd_vector ?d, h_isr_notify := sd_irq_enabled ?d\<rparr>" and c = PCI_DMA_CQ_WRITE])
      (use assms in \<open>simp_all add: start_write_host_def Let_def hic_codes INTERFACE_DMA_PAGE_SIZE_def split: prod.splits\<close>)
  then obtain h' where h': "do { (i, h1) \<leftarrow> start_write_host (ram s) ?h; h2 \<leftarrow> ssd_msg_check h1; write_host_complete i h2 } = Some h'"
      "link_frame ?h h'" "host_mem h' = put_bytes 16 (unat ?a) (\<lambda>j. ram s (sd_ssd_addr ?d + j)) (host_mem (host s))"
      "host_irqs h' = host_irqs (host s) @ ?irq" using ua by auto
  from h'(1) have "do { (i, h1) \<leftarrow> start_write_host (ram s) ?h; h2 \<leftarrow> ssd_msg_check h1; h3 \<leftarrow> write_host_complete i h2; Some (s\<lparr>host := h3\<rparr>) }
      = Some (s\<lparr>host := h'\<rparr>)" by (auto elim!: bind_SomeE split: prod.splits)
  then have "host_write_cmd PCI_DMA_CQ_WRITE (set_regs (\<lambda>r. r\<lparr>h_cqueue := sd_cqid ?d, h_cqe := sd_cqe ?d,
      h_cqAddr := of_nat (sd_ssd_addr ?d), h_cqeDmaAddr := sd_host_p_addr ?d, h_cqIntVector := sd_vector ?d,
      h_isr_notify := sd_irq_enabled ?d\<rparr>) s) = Some (s\<lparr>host := h'\<rparr>)"
    by (simp add: host_write_cmd_def set_regs_def hic_codes Let_def)
  then show ?thesis using h'(2-4) by (intro exI [of _ h']) (simp add: do_sync_post_ccmd_def link_frame_regs)
qed

section \<open>The DMA queue\<close>

definition dma_q_ok :: "obj_queue_t list \<Rightarrow> bool" where
  "dma_q_ok qs \<longleftrightarrow> SYNC_DMA_Q < length qs \<and> oq_inv (qs ! SYNC_DMA_Q) \<and> oq_head (qs ! SYNC_DMA_Q) = oq_tail (qs ! SYNC_DMA_Q)"

text \<open>A transfer moves the indices of its own queue only.\<close>

definition qs_step :: "obj_queue_t list \<Rightarrow> obj_queue_t list \<Rightarrow> bool" where
  "qs_step qs qs' \<longleftrightarrow> dma_q_ok qs' \<and> length qs' = length qs \<and> (\<forall>i. i \<noteq> SYNC_DMA_Q \<longrightarrow> qs' ! i = qs ! i)"

lemma qs_step_trans: "qs_step a b \<Longrightarrow> qs_step b c \<Longrightarrow> qs_step a c"
  by (simp add: qs_step_def)

lemma run_dma_thread_ready:
  assumes "dma_q_ok (queues s)"
  shows "\<exists>qs. run_dma_thread p ty s = sync_dma_cbk p ty (s\<lparr>queues := qs\<rparr>) \<and> qs_step (queues s) qs"
proof -
  let ?q = "queues s ! SYNC_DMA_Q"
  obtain t where t: "oq_tail ?q = t" "oq_head ?q = t" "t < 256" "length (oq_entries ?q) = 256" "SYNC_DMA_Q < length (queues s)"
    using assms by (auto simp: dma_q_ok_def oq_inv_def MSG_Q_SIZE_def)
  have ne: "t \<noteq> (t + 1) mod 256" using t(3) by (cases "t + 1 = 256") auto
  let ?q1 = "?q\<lparr>oq_entries := (oq_entries ?q)[t := (ty, p)], oq_tail := (t + 1) mod 256, oq_head := (t + 1) mod 256\<rparr>"
  have "run_dma_thread p ty s = sync_dma_cbk p ty (s\<lparr>queues := (queues s)[SYNC_DMA_Q := ?q1]\<rparr>)"
    using t ne by (simp add: run_dma_thread_def sys_push_obj_to_queue_def push_obj_to_queue_def pop_obj_from_queue_def
        obj_queue_push_def obj_queue_pop_def MSG_Q_SIZE_def Let_def)
  moreover have "qs_step (queues s) ((queues s)[SYNC_DMA_Q := ?q1])"
    using t by (simp add: qs_step_def dma_q_ok_def oq_inv_def MSG_Q_SIZE_def)
  ultimately show ?thesis by blast
qed

text \<open>Fetching a submission command and posting a completion command.\<close>

lemma sync_read_scmd_ok:
  fixes s :: "'a host_st_scheme"
  assumes "dma_q_ok (queues s)" "link_ok (host s)" "addr < 2 ^ 32"
  shows "\<exists>qs h' d. sync_read_scmd qid e haddr addr n s = Some (s\<lparr>ram := put_bytes 64 addr
        (\<lambda>j. host_mem (host s) (unat (haddr + ucast (e * 64)) + j)) (ram s), host := h', sync_dma := d, queues := qs\<rparr>) \<and>
      qs_step (queues s) qs \<and> link_frame (host s) h' \<and> host_mem h' = host_mem (host s) \<and> host_irqs h' = host_irqs (host s)"
proof -
  let ?s = "s\<lparr>sync_dma := (sync_dma s)\<lparr>sd_dma_type := PCI_DMA_SQ_READ, sd_status := 0,
     sd_sqid := qid, sd_sqe := e, sd_host_p_addr := haddr, sd_ssd_addr := addr, sd_num_of_entries := n\<rparr>\<rparr>"
  from run_dma_thread_ready [of ?s SYNC_DMA PCI_DMA_SQ_READ] assms(1) obtain qs where
    q: "run_dma_thread SYNC_DMA PCI_DMA_SQ_READ ?s = do_sync_read_scmd (?s\<lparr>queues := qs\<rparr>)" "qs_step (queues s) qs"
    by (auto simp: sync_dma_cbk_def)
  from cmd_sq_read [of "?s\<lparr>queues := qs\<rparr>"] assms(2,3) obtain h' where
    h': "do_sync_read_scmd (?s\<lparr>queues := qs\<rparr>) = Some (?s\<lparr>queues := qs, ram := put_bytes 64 addr
        (\<lambda>j. host_mem (host s) (unat (haddr + ucast (e * 64)) + j)) (ram s), host := h', sync_dma := (sync_dma ?s)\<lparr>sd_status := 1\<rparr>\<rparr>)"
      "link_frame (host s) h'" "host_mem h' = host_mem (host s)" "host_irqs h' = host_irqs (host s)"
    by auto
  show ?thesis
    using q h' by (intro exI [of _ qs] exI [of _ h'] exI [of _ "(sync_dma ?s)\<lparr>sd_status := 1\<rparr>"]) (simp add: sync_read_scmd_def)
qed

lemma sync_post_ccmd_ok:
  fixes s :: "'a host_st_scheme"
  assumes "dma_q_ok (queues s)" "link_ok (host s)" "addr < 2 ^ 32"
  shows "\<exists>qs h' d. sync_post_ccmd qid e haddr addr n vec irq s = Some (s\<lparr>host := h', sync_dma := d, queues := qs\<rparr>) \<and>
      qs_step (queues s) qs \<and> link_frame (host s) h' \<and>
      host_mem h' = put_bytes 16 (unat (haddr + ucast (e * 16))) (\<lambda>j. ram s (addr + j)) (host_mem (host s)) \<and>
      host_irqs h' = host_irqs (host s) @ (if irq \<noteq> 0 then [vec] else [])"
proof -
  let ?s = "s\<lparr>sync_dma := (sync_dma s)\<lparr>sd_dma_type := PCI_DMA_CQ_WRITE, sd_status := 0,
         sd_cqid := qid, sd_cqe := e, sd_host_p_addr := haddr, sd_ssd_addr := addr, sd_num_of_entries := n,
         sd_vector := vec, sd_irq_enabled := irq\<rparr>\<rparr>"
  from run_dma_thread_ready [of ?s SYNC_DMA PCI_DMA_CQ_WRITE] assms(1) obtain qs where
    q: "run_dma_thread SYNC_DMA PCI_DMA_CQ_WRITE ?s = do_sync_post_ccmd (?s\<lparr>queues := qs\<rparr>)" "qs_step (queues s) qs"
    by (auto simp: sync_dma_cbk_def hic_codes)
  from cmd_cq_write [of "?s\<lparr>queues := qs\<rparr>"] assms(2,3) obtain h' where
    h': "do_sync_post_ccmd (?s\<lparr>queues := qs\<rparr>) = Some (?s\<lparr>queues := qs, host := h', sync_dma := (sync_dma ?s)\<lparr>sd_status := 1\<rparr>\<rparr>)"
      "link_frame (host s) h'" "host_mem h' = put_bytes 16 (unat (haddr + ucast (e * 16))) (\<lambda>j. ram s (addr + j)) (host_mem (host s))"
      "host_irqs h' = host_irqs (host s) @ (if irq \<noteq> 0 then [vec] else [])"
    by auto
  show ?thesis
    using q h' by (intro exI [of _ qs] exI [of _ h'] exI [of _ "(sync_dma ?s)\<lparr>sd_status := 1\<rparr>"]) (simp add: sync_post_ccmd_def)
qed

end
