(* ===== verification/Dma_Scatter.thy ===== *)
theory Dma_Scatter
  imports Host_Dma
begin

text \<open>
  What a whole transfer of the DMA module does: the bytes of a scatter list, in both directions,
  and the properties of the synchronous transfers the NVMe driver calls (\<^verbatim>\<open>host_dma.c\<close>).
\<close>

section \<open>Scatter lists\<close>

text \<open>The host address of byte \<open>i\<close> of a transfer with the given pieces.\<close>

fun scatter :: "(nat \<times> nat) list \<Rightarrow> nat \<Rightarrow> nat" where
  "scatter [] i = i"
| "scatter ((a, n) # ps) i = (if i < n then a + i else scatter ps (i - n))"

definition nbytes :: "(nat \<times> nat) list \<Rightarrow> nat" where
  "nbytes ps = sum_list (map snd ps)"

lemma nbytes_simps [simp]: "nbytes [] = 0" "nbytes ((a, n) # ps) = n + nbytes ps"
  by (simp_all add: nbytes_def)

text \<open>The pieces of a whole list, and of a transfer of \<open>r\<close> bytes.\<close>

definition piece :: "dma_op_t \<Rightarrow> nat \<times> nat" where
  "piece e = (unat (host_p_addr e), unat (op_len e))"

fun pieces :: "dma_op_t list \<Rightarrow> nat \<Rightarrow> (nat \<times> nat) list" where
  "pieces [] r = []"
| "pieces (e # es) r =
     (if r = 0 then [] else let n = min (unat (op_len e)) r in (unat (host_p_addr e), n) # pieces es (r - n))"

lemma put_bytes_0 [simp]: "put_bytes 0 a f m = m"
  by (rule ext) (auto simp: put_bytes_def)

lemma put_bytes_append:
  "put_bytes m (a + n) (\<lambda>j. f (n + j)) (put_bytes n a f x) = put_bytes (n + m) a f x"
  by (rule ext) (auto simp: put_bytes_def)

lemma put_bytes_scatter:
  "put_bytes (nbytes ps) (a + n) (\<lambda>j. hm (scatter ps j)) (put_bytes n a (\<lambda>j. hm (b + j)) m)
     = put_bytes (nbytes ((b, n) # ps)) a (\<lambda>j. hm (scatter ((b, n) # ps) j)) m"
  by (rule ext) (auto simp: put_bytes_def)

text \<open>Host memory after the pieces have been written one after the other.\<close>

fun host_put :: "(nat \<times> nat) list \<Rightarrow> nat \<Rightarrow> mem \<Rightarrow> mem \<Rightarrow> mem" where
  "host_put [] addr m hm = hm"
| "host_put ((a, n) # ps) addr m hm = host_put ps (addr + n) m (put_bytes n a (\<lambda>j. m (addr + j)) hm)"

definition covers :: "nat \<times> nat \<Rightarrow> nat set" where
  "covers p = {fst p ..< fst p + snd p}"

fun disjoint_pieces :: "(nat \<times> nat) list \<Rightarrow> bool" where
  "disjoint_pieces [] = True"
| "disjoint_pieces (p # ps) = ((\<forall>q \<in> set ps. covers p \<inter> covers q = {}) \<and> disjoint_pieces ps)"

lemma host_put_other: "(\<forall>p \<in> set ps. x \<notin> covers p) \<Longrightarrow> host_put ps addr m hm x = hm x"
  by (induction ps addr m hm rule: host_put.induct) (auto simp: put_bytes_def covers_def)

lemma scatter_covers: "i < nbytes ps \<Longrightarrow> \<exists>p \<in> set ps. scatter ps i \<in> covers p"
  by (induction ps i rule: scatter.induct) (auto simp: covers_def)

lemma host_put_scatter:
  "disjoint_pieces ps \<Longrightarrow> i < nbytes ps \<Longrightarrow> host_put ps addr m hm (scatter ps i) = m (addr + i)"
proof (induction ps arbitrary: addr hm i)
  case (Cons p ps)
  obtain a n where p: "p = (a, n)" by fastforce
  show ?case
  proof (cases "i < n")
    case True
    with Cons.prems p have "\<forall>q \<in> set ps. a + i \<notin> covers q" by (auto simp: covers_def)
    with True p show ?thesis by (simp add: host_put_other put_bytes_def)
  next
    case False
    with Cons p show ?thesis by simp
  qed
qed simp

text \<open>The loops over a scatter list, in both directions.\<close>

lemma take_drop_Suc: "ix < length l \<Longrightarrow> take (Suc k) (drop ix l) = l ! ix # take k (drop (Suc ix) l)"
  by (simp add: Cons_nth_drop_Suc [symmetric])

definition ops_fit :: "dma_op_t list \<Rightarrow> bool" where
  "ops_fit l \<longleftrightarrow> (\<forall>e \<in> set l. unat (op_len e) \<le> INTERFACE_DMA_PAGE_SIZE)"

lemma link_frame_trans: "link_frame a b \<Longrightarrow> link_frame b c \<Longrightarrow> link_frame a c"
  by (simp add: link_frame_def)

lemma rw_loop_read:
  fixes s :: "'a host_st_scheme"
  assumes "link_ok (host s)" "ix + k \<le> length l" "ops_fit l" "addr + nbytes (map piece (take k (drop ix l))) \<le> 2 ^ 32"
    and "\<forall>e \<in> set l. 0 < unat (op_len e)"
  shows "\<exists>h'. rw_io_dma_loop PCI_DMA_READ l k ix addr s =
      Some (s\<lparr>ram := put_bytes (nbytes (map piece (take k (drop ix l)))) addr
        (\<lambda>j. host_mem (host s) (scatter (map piece (take k (drop ix l))) j)) (ram s), host := h'\<rparr>) \<and>
      link_frame (host s) h' \<and> host_mem h' = host_mem (host s) \<and> host_irqs h' = host_irqs (host s)"
  using assms
proof (induction k arbitrary: ix addr s)
  case 0
  then show ?case
    by (intro exI [of _ "host s"]) (simp add: link_frame_def)
next
  case (Suc k)
  let ?e = "l ! ix"
  have ix: "ix < length l" "?e \<in> set l" using Suc.prems(2) by auto
  have e: "unat (op_len ?e) \<le> INTERFACE_DMA_PAGE_SIZE" "0 < unat (op_len ?e)" using Suc.prems(3,5) ix by (auto simp: ops_fit_def)
  have pe: "piece ?e = (unat (host_p_addr ?e), unat (op_len ?e))" by (simp add: piece_def)
  have a: "addr + unat (op_len ?e) + nbytes (map piece (take k (drop (Suc ix) l))) \<le> 2 ^ 32"
    using Suc.prems(4) ix by (simp add: take_drop_Suc pe)
  from cmd_dma_read [of s "op_len ?e" addr "host_p_addr ?e"] Suc.prems(1) e a obtain h1 where
    h1: "dma_transfer PCI_DMA_READ (host_p_addr ?e) (op_len ?e) addr s =
        Some (s\<lparr>ram := put_bytes (unat (op_len ?e)) addr (\<lambda>j. host_mem (host s) (unat (host_p_addr ?e) + j)) (ram s), host := h1\<rparr>)"
      "link_frame (host s) h1" "host_mem h1 = host_mem (host s)" "host_irqs h1 = host_irqs (host s)" by auto
  let ?s1 = "s\<lparr>ram := put_bytes (unat (op_len ?e)) addr (\<lambda>j. host_mem (host s) (unat (host_p_addr ?e) + j)) (ram s), host := h1\<rparr>"
  have "link_ok (host ?s1)" using h1(2) by (simp add: link_frame_def)
  from Suc.IH [OF this, of "Suc ix" "addr + unat (op_len ?e)"] Suc.prems(2,3,5) a obtain h2 where
    h2: "rw_io_dma_loop PCI_DMA_READ l k (Suc ix) (addr + unat (op_len ?e)) ?s1 =
        Some (?s1\<lparr>ram := put_bytes (nbytes (map piece (take k (drop (Suc ix) l)))) (addr + unat (op_len ?e))
          (\<lambda>j. host_mem h1 (scatter (map piece (take k (drop (Suc ix) l))) j)) (ram ?s1), host := h2\<rparr>)"
      "link_frame h1 h2" "host_mem h2 = host_mem h1" "host_irqs h2 = host_irqs h1" by auto
  show ?case
    using h1 h2 ix link_frame_trans [OF h1(2) h2(2)]
    by (intro exI [of _ h2]) (simp add: take_drop_Suc pe put_bytes_scatter [simplified])
qed

lemma rw_loop_write:
  fixes s :: "'a host_st_scheme"
  assumes "link_ok (host s)" "ix + k \<le> length l" "ops_fit l" "addr + nbytes (map piece (take k (drop ix l))) \<le> 2 ^ 32"
    and "\<forall>e \<in> set l. 0 < unat (op_len e)"
  shows "\<exists>h'. rw_io_dma_loop PCI_DMA_WRITE l k ix addr s = Some (s\<lparr>host := h'\<rparr>) \<and>
      link_frame (host s) h' \<and> host_mem h' = host_put (map piece (take k (drop ix l))) addr (ram s) (host_mem (host s)) \<and>
      host_irqs h' = host_irqs (host s)"
  using assms
proof (induction k arbitrary: ix addr s)
  case 0
  then show ?case
    by (intro exI [of _ "host s"]) (simp add: link_frame_def)
next
  case (Suc k)
  let ?e = "l ! ix"
  have ix: "ix < length l" "?e \<in> set l" using Suc.prems(2) by auto
  have e: "unat (op_len ?e) \<le> INTERFACE_DMA_PAGE_SIZE" "0 < unat (op_len ?e)" using Suc.prems(3,5) ix by (auto simp: ops_fit_def)
  have pe: "piece ?e = (unat (host_p_addr ?e), unat (op_len ?e))" by (simp add: piece_def)
  have a: "addr + unat (op_len ?e) + nbytes (map piece (take k (drop (Suc ix) l))) \<le> 2 ^ 32"
    using Suc.prems(4) ix by (simp add: take_drop_Suc pe)
  from cmd_dma_write [of s "op_len ?e" addr "host_p_addr ?e"] Suc.prems(1) e a obtain h1 where
    h1: "dma_transfer PCI_DMA_WRITE (host_p_addr ?e) (op_len ?e) addr s = Some (s\<lparr>host := h1\<rparr>)"
      "link_frame (host s) h1" "host_mem h1 = put_bytes (unat (op_len ?e)) (unat (host_p_addr ?e)) (\<lambda>j. ram s (addr + j)) (host_mem (host s))"
      "host_irqs h1 = host_irqs (host s)" by auto
  have "link_ok (host (s\<lparr>host := h1\<rparr>))" using h1(2) by (simp add: link_frame_def)
  from Suc.IH [OF this, of "Suc ix" "addr + unat (op_len ?e)"] Suc.prems(2,3,5) a obtain h2 where
    h2: "rw_io_dma_loop PCI_DMA_WRITE l k (Suc ix) (addr + unat (op_len ?e)) (s\<lparr>host := h1\<rparr>) = Some (s\<lparr>host := h2\<rparr>)"
      "link_frame h1 h2" "host_mem h2 = host_put (map piece (take k (drop (Suc ix) l))) (addr + unat (op_len ?e)) (ram s) (host_mem h1)"
      "host_irqs h2 = host_irqs h1" by auto
  show ?case
    using h1 h2 ix link_frame_trans [OF h1(2) h2(2)]
    by (intro exI [of _ h2]) (simp add: take_drop_Suc pe)
qed

lemma min_unat: "unat (min a b :: u32) = min (unat a) (unat b)"
  by (simp add: min_def word_le_nat_alt)

lemma dma_loop_read:
  fixes s :: "'a host_st_scheme"
  assumes "link_ok (host s)" "ix + k \<le> length l" "ops_fit l" "addr + unat r < 2 ^ 32"
  defines "ps \<equiv> pieces (take k (drop ix l)) (unat r)"
  shows "\<exists>h'. dma_loop PCI_DMA_READ l k ix addr r s =
      Some (s\<lparr>ram := put_bytes (nbytes ps) addr (\<lambda>j. host_mem (host s) (scatter ps j)) (ram s), host := h'\<rparr>) \<and>
      link_frame (host s) h' \<and> host_mem h' = host_mem (host s) \<and> host_irqs h' = host_irqs (host s)"
  unfolding ps_def using assms(1-4)
proof (induction k arbitrary: ix addr r s)
  case 0
  then show ?case by (intro exI [of _ "host s"]) (simp add: link_frame_def)
next
  case (Suc k)
  show ?case
  proof (cases "r = 0")
    case True
    have "pieces es 0 = []" for es by (cases es) simp_all
    with True Suc.prems(1) show ?thesis by (intro exI [of _ "host s"]) (simp add: link_frame_def)
  next
    case False
    let ?e = "l ! ix" and ?n = "min (op_len (l ! ix)) r"
    have ix: "ix < length l" "?e \<in> set l" using Suc.prems(2) by auto
    have n: "unat ?n \<le> INTERFACE_DMA_PAGE_SIZE" using Suc.prems(3) ix by (auto simp: ops_fit_def min_unat intro: min.coboundedI1)
    have sub: "unat (r - ?n) = unat r - unat ?n" by (rule unat_sub) simp
    have a: "addr + unat ?n + unat (r - ?n) < 2 ^ 32" using Suc.prems(4) by (simp add: sub min_unat)
    from cmd_dma_read [of s ?n addr "host_p_addr ?e"] Suc.prems(1) n a obtain h1 where
      h1: "dma_transfer PCI_DMA_READ (host_p_addr ?e) ?n addr s =
          Some (s\<lparr>ram := put_bytes (unat ?n) addr (\<lambda>j. host_mem (host s) (unat (host_p_addr ?e) + j)) (ram s), host := h1\<rparr>)"
        "link_frame (host s) h1" "host_mem h1 = host_mem (host s)" "host_irqs h1 = host_irqs (host s)" by auto
    let ?s1 = "s\<lparr>ram := put_bytes (unat ?n) addr (\<lambda>j. host_mem (host s) (unat (host_p_addr ?e) + j)) (ram s), host := h1\<rparr>"
    let ?ps = "pieces (take k (drop (Suc ix) l)) (unat (r - ?n))"
    have "link_ok (host ?s1)" using h1(2) by (simp add: link_frame_def)
    from Suc.IH [OF this, of "Suc ix" "addr + unat ?n" "r - ?n"] Suc.prems(2,3) a obtain h2 where
      h2: "dma_loop PCI_DMA_READ l k (Suc ix) (addr + unat ?n) (r - ?n) ?s1 =
          Some (?s1\<lparr>ram := put_bytes (nbytes ?ps) (addr + unat ?n) (\<lambda>j. host_mem h1 (scatter ?ps j)) (ram ?s1), host := h2\<rparr>)"
        "link_frame h1 h2" "host_mem h2 = host_mem h1" "host_irqs h2 = host_irqs h1" by auto
    have ps: "pieces (take (Suc k) (drop ix l)) (unat r) = (unat (host_p_addr ?e), unat ?n) # ?ps"
      using ix False by (simp add: take_drop_Suc min_unat sub Let_def unat_gt_0 [symmetric] del: unat_gt_0)
    show ?thesis
      unfolding ps put_bytes_scatter [symmetric]
      using h1 h2 ix False link_frame_trans [OF h1(2) h2(2)] by (intro exI [of _ h2]) (simp add: Let_def)
  qed
qed

lemma dma_loop_write:
  fixes s :: "'a host_st_scheme"
  assumes "link_ok (host s)" "ix + k \<le> length l" "ops_fit l" "addr + unat r < 2 ^ 32"
  defines "ps \<equiv> pieces (take k (drop ix l)) (unat r)"
  shows "\<exists>h'. dma_loop PCI_DMA_WRITE l k ix addr r s = Some (s\<lparr>host := h'\<rparr>) \<and>
      link_frame (host s) h' \<and> host_mem h' = host_put ps addr (ram s) (host_mem (host s)) \<and> host_irqs h' = host_irqs (host s)"
  unfolding ps_def using assms(1-4)
proof (induction k arbitrary: ix addr r s)
  case 0
  then show ?case by (intro exI [of _ "host s"]) (simp add: link_frame_def)
next
  case (Suc k)
  show ?case
  proof (cases "r = 0")
    case True
    have "pieces es 0 = []" for es by (cases es) simp_all
    with True Suc.prems(1) show ?thesis by (intro exI [of _ "host s"]) (simp add: link_frame_def)
  next
    case False
    let ?e = "l ! ix" and ?n = "min (op_len (l ! ix)) r"
    have ix: "ix < length l" "?e \<in> set l" using Suc.prems(2) by auto
    have n: "unat ?n \<le> INTERFACE_DMA_PAGE_SIZE" using Suc.prems(3) ix by (auto simp: ops_fit_def min_unat intro: min.coboundedI1)
    have sub: "unat (r - ?n) = unat r - unat ?n" by (rule unat_sub) simp
    have a: "addr + unat ?n + unat (r - ?n) < 2 ^ 32" using Suc.prems(4) by (simp add: sub min_unat)
    from cmd_dma_write [of s ?n addr "host_p_addr ?e"] Suc.prems(1) n a obtain h1 where
      h1: "dma_transfer PCI_DMA_WRITE (host_p_addr ?e) ?n addr s = Some (s\<lparr>host := h1\<rparr>)"
        "link_frame (host s) h1" "host_mem h1 = put_bytes (unat ?n) (unat (host_p_addr ?e)) (\<lambda>j. ram s (addr + j)) (host_mem (host s))"
        "host_irqs h1 = host_irqs (host s)" by auto
    let ?ps = "pieces (take k (drop (Suc ix) l)) (unat (r - ?n))"
    have "link_ok (host (s\<lparr>host := h1\<rparr>))" using h1(2) by (simp add: link_frame_def)
    from Suc.IH [OF this, of "Suc ix" "addr + unat ?n" "r - ?n"] Suc.prems(2,3) a obtain h2 where
      h2: "dma_loop PCI_DMA_WRITE l k (Suc ix) (addr + unat ?n) (r - ?n) (s\<lparr>host := h1\<rparr>) = Some (s\<lparr>host := h2\<rparr>)"
        "link_frame h1 h2" "host_mem h2 = host_put ?ps (addr + unat ?n) (ram s) (host_mem h1)" "host_irqs h2 = host_irqs h1" by auto
    have ps: "pieces (take (Suc k) (drop ix l)) (unat r) = (unat (host_p_addr ?e), unat ?n) # ?ps"
      using ix False by (simp add: take_drop_Suc min_unat sub Let_def unat_gt_0 [symmetric] del: unat_gt_0)
    show ?thesis
      unfolding ps using h1 h2 ix False link_frame_trans [OF h1(2) h2(2)] by (intro exI [of _ h2]) (simp add: Let_def)
  qed
qed

section \<open>Requests under state updates\<close>

definition pools_len :: "'a req_st_scheme \<Rightarrow> bool" where
  "pools_len s \<longleftrightarrow> length (r_req s) = R_SIZE \<and> length (w_req s) = W_SIZE \<and> length (other_req_alloc s) = O_SIZE"

lemma get_upd_req:
  "pools_len s \<Longrightarrow> get_req p s = Some r \<Longrightarrow> get_req p (upd_req p f s) = Some (f r)"
  by (auto simp: get_req_def upd_req_def pools_len_def split: obj_ptr.splits if_splits)

lemma upd_req_twice: "upd_req p f (upd_req p g s) = upd_req p (f \<circ> g) s"
proof -
  have "xs[i := f (xs[i := y] ! i)] = xs[i := f y]" for xs :: "req_t list" and i y f
    by (cases "i < length xs") (simp_all add: list_update_beyond)
  then show ?thesis by (auto simp: upd_req_def split: obj_ptr.split)
qed

lemma upd_req_comm:
  "upd_req p f (s\<lparr>queues := qs\<rparr>) = (upd_req p f s)\<lparr>queues := qs\<rparr>"
  "upd_req p f (s'\<lparr>ram := m\<rparr>) = (upd_req p f s')\<lparr>ram := m\<rparr>"
  "upd_req p f (t\<lparr>host := h\<rparr>) = (upd_req p f t)\<lparr>host := h\<rparr>"
  by (simp_all add: upd_req_def split: obj_ptr.split)

lemma upd_req_same [simp]:
  "queues (upd_req p f s) = queues s" "ram (upd_req p f s') = ram s'" "host (upd_req p f t) = host t"
  "prp_dma (upd_req p f t) = prp_dma t" "pools_len (upd_req p f s) = pools_len s"
  by (simp_all add: upd_req_def pools_len_def split: obj_ptr.split)

lemma get_req_host [simp]:
  "get_req p (s\<lparr>queues := qs\<rparr>) = get_req p s" "get_req p (s'\<lparr>ram := m\<rparr>) = get_req p s'"
  "get_req p (t\<lparr>host := h\<rparr>) = get_req p t"
  by (simp_all add: get_req_def split: obj_ptr.split)

lemma get_dma_host [simp]:
  "get_dma p (t\<lparr>queues := qs\<rparr>) = get_dma p t" "get_dma p (t\<lparr>ram := m\<rparr>) = get_dma p t"
  "get_dma p (t\<lparr>host := h\<rparr>) = get_dma p t"
  by (simp_all add: get_dma_def split: obj_ptr.split)

lemma get_upd_dma:
  "pools_len s \<Longrightarrow> get_dma p s = Some d \<Longrightarrow> get_dma p (upd_dma p f s) = Some (f d)"
  by (auto simp: get_dma_def upd_dma_def get_upd_req split: obj_ptr.splits)

lemma upd_dma_twice: "upd_dma p f (upd_dma p g s) = upd_dma p (f \<circ> g) s"
  by (auto simp: upd_dma_def upd_req_twice comp_def split: obj_ptr.split)

lemma upd_dma_comm:
  "upd_dma p f (t\<lparr>queues := qs\<rparr>) = (upd_dma p f t)\<lparr>queues := qs\<rparr>"
  "upd_dma p f (t\<lparr>ram := m\<rparr>) = (upd_dma p f t)\<lparr>ram := m\<rparr>"
  "upd_dma p f (t\<lparr>host := h\<rparr>) = (upd_dma p f t)\<lparr>host := h\<rparr>"
  by (simp_all add: upd_dma_def upd_req_comm split: obj_ptr.split)

lemma upd_dma_same [simp]:
  "queues (upd_dma p f t) = queues t" "ram (upd_dma p f t) = ram t" "host (upd_dma p f t) = host t"
  "pools_len (t\<lparr>prp_dma := d\<rparr>) = pools_len t"
  by (simp_all add: upd_dma_def pools_len_def split: obj_ptr.split)

lemma pools_len_upd_dma [simp]: "pools_len (upd_dma p f t) = pools_len t"
  by (simp add: upd_dma_def split: obj_ptr.split)

section \<open>Transfers of a DMA object\<close>

text \<open>The object of a transfer: the pieces it moves, inside the list and each within a page register.\<close>

definition dma_len :: "dma_t \<Rightarrow> u32" where
  "dma_len d = (if c_op_len d \<noteq> 0 then c_op_len d else data_size d)"

definition dma_pieces :: "dma_t \<Rightarrow> (nat \<times> nat) list" where
  "dma_pieces d = pieces (drop (unat (c_op_smem_pg d)) (take (unat (n_ops d)) (dma_list d))) (unat (dma_len d))"

definition dma_fits :: "dma_t \<Rightarrow> bool" where
  "dma_fits d \<longleftrightarrow> unat (c_op_smem_pg d) \<le> unat (n_ops d) \<and> unat (n_ops d) \<le> length (dma_list d) \<and> ops_fit (dma_list d) \<and>
     buffer_addr d + unat (dma_len d) < 2 ^ 32"

lemma dma_pieces_alt:
  "dma_pieces d = pieces (take (unat (n_ops d) - unat (c_op_smem_pg d)) (drop (unat (c_op_smem_pg d)) (dma_list d))) (unat (dma_len d))"
  by (simp add: dma_pieces_def drop_take)

abbreviation end_dma :: "dma_t \<Rightarrow> dma_t" where
  "end_dma d \<equiv> d\<lparr>c_op_len := 0, c_op_smem_pg := 0, host_dma_complete := True\<rparr>"

lemma end_dma_flag: "upd_dma p end_dma (upd_dma p (\<lambda>d. d\<lparr>host_dma_complete := b\<rparr>) s) = upd_dma p end_dma s"
  by (simp add: upd_dma_twice comp_def)

lemma dma_len_flag [simp]: "dma_len (d\<lparr>host_dma_complete := b\<rparr>) = dma_len d"
  by (simp add: dma_len_def)

lemma do_sync_dma_operation_len:
  "do_sync_dma_operation p op s =
     do {
       d \<leftarrow> get_dma p s;
       s1 \<leftarrow> dma_loop op (dma_list d) (unat (n_ops d) - unat (c_op_smem_pg d)) (unat (c_op_smem_pg d)) (buffer_addr d) (dma_len d) s;
       Some (upd_dma p end_dma s1)
     }"
  by (simp add: do_sync_dma_operation_def dma_len_def Let_def)

lemma sync_host_dma_read:
  fixes s :: "'a host_st_scheme"
  assumes "dma_q_ok (queues s)" "link_ok (host s)" "pools_len s" "get_dma p s = Some d" "dma_fits d"
  shows "\<exists>qs h'. sync_host_dma p PCI_DMA_READ s = Some (upd_dma p end_dma (s\<lparr>ram :=
        put_bytes (nbytes (dma_pieces d)) (buffer_addr d) (\<lambda>j. host_mem (host s) (scatter (dma_pieces d) j)) (ram s), host := h', queues := qs\<rparr>)) \<and>
      qs_step (queues s) qs \<and> link_frame (host s) h' \<and> host_mem h' = host_mem (host s) \<and> host_irqs h' = host_irqs (host s)"
proof -
  let ?s = "upd_dma p (\<lambda>d. d\<lparr>host_dma_complete := False\<rparr>) s"
  from run_dma_thread_ready [of ?s p PCI_DMA_READ] assms(1) obtain qs where
    q: "run_dma_thread p PCI_DMA_READ ?s = do_sync_dma_operation p PCI_DMA_READ (?s\<lparr>queues := qs\<rparr>)" "qs_step (queues s) qs"
    by (auto simp: sync_dma_cbk_def hic_codes READ_IO_DMA_OPERATION_def WRITE_IO_DMA_OPERATION_def)
  have d: "get_dma p (?s\<lparr>queues := qs\<rparr>) = Some (d\<lparr>host_dma_complete := False\<rparr>)"
    using get_upd_dma [OF assms(3,4)] by simp
  let ?k = "unat (n_ops d) - unat (c_op_smem_pg d)" and ?ix = "unat (c_op_smem_pg d)"
  from dma_loop_read [of "?s\<lparr>queues := qs\<rparr>" ?ix ?k "dma_list d" "buffer_addr d" "dma_len d"] assms(2,5)
  obtain h' where h': "dma_loop PCI_DMA_READ (dma_list d) ?k ?ix (buffer_addr d) (dma_len d) (?s\<lparr>queues := qs\<rparr>) = Some (?s\<lparr>queues := qs,
        ram := put_bytes (nbytes (dma_pieces d)) (buffer_addr d) (\<lambda>j. host_mem (host s) (scatter (dma_pieces d) j)) (ram s), host := h'\<rparr>)"
      "link_frame (host s) h'" "host_mem h' = host_mem (host s)" "host_irqs h' = host_irqs (host s)"
    by (auto simp: dma_fits_def dma_pieces_alt)
  let ?s2 = "s\<lparr>ram := put_bytes (nbytes (dma_pieces d)) (buffer_addr d) (\<lambda>j. host_mem (host s) (scatter (dma_pieces d) j)) (ram s), host := h', queues := qs\<rparr>"
  have "do_sync_dma_operation p PCI_DMA_READ (?s\<lparr>queues := qs\<rparr>) = Some (upd_dma p end_dma ?s2)"
    using d h'(1) by (simp add: do_sync_dma_operation_len upd_dma_comm end_dma_flag)
  moreover have "get_dma p (upd_dma p end_dma ?s2) = Some (end_dma d)"
    using assms(3,4) by (intro get_upd_dma) (simp_all add: pools_len_def)
  ultimately show ?thesis
    using q h'(2-4) assms(4) by (intro exI [of _ qs] exI [of _ h']) (simp add: sync_host_dma_def dma_done_def)
qed

lemma sync_host_dma_write:
  fixes s :: "'a host_st_scheme"
  assumes "dma_q_ok (queues s)" "link_ok (host s)" "pools_len s" "get_dma p s = Some d" "dma_fits d"
  shows "\<exists>qs h'. sync_host_dma p PCI_DMA_WRITE s = Some (upd_dma p end_dma (s\<lparr>host := h', queues := qs\<rparr>)) \<and>
      qs_step (queues s) qs \<and> link_frame (host s) h' \<and>
      host_mem h' = host_put (dma_pieces d) (buffer_addr d) (ram s) (host_mem (host s)) \<and> host_irqs h' = host_irqs (host s)"
proof -
  let ?s = "upd_dma p (\<lambda>d. d\<lparr>host_dma_complete := False\<rparr>) s"
  from run_dma_thread_ready [of ?s p PCI_DMA_WRITE] assms(1) obtain qs where
    q: "run_dma_thread p PCI_DMA_WRITE ?s = do_sync_dma_operation p PCI_DMA_WRITE (?s\<lparr>queues := qs\<rparr>)" "qs_step (queues s) qs"
    by (auto simp: sync_dma_cbk_def hic_codes READ_IO_DMA_OPERATION_def WRITE_IO_DMA_OPERATION_def)
  have d: "get_dma p (?s\<lparr>queues := qs\<rparr>) = Some (d\<lparr>host_dma_complete := False\<rparr>)"
    using get_upd_dma [OF assms(3,4)] by simp
  let ?k = "unat (n_ops d) - unat (c_op_smem_pg d)" and ?ix = "unat (c_op_smem_pg d)"
  from dma_loop_write [of "?s\<lparr>queues := qs\<rparr>" ?ix ?k "dma_list d" "buffer_addr d" "dma_len d"] assms(2,5)
  obtain h' where h': "dma_loop PCI_DMA_WRITE (dma_list d) ?k ?ix (buffer_addr d) (dma_len d) (?s\<lparr>queues := qs\<rparr>) = Some (?s\<lparr>queues := qs, host := h'\<rparr>)"
      "link_frame (host s) h'" "host_mem h' = host_put (dma_pieces d) (buffer_addr d) (ram s) (host_mem (host s))"
      "host_irqs h' = host_irqs (host s)"
    by (auto simp: dma_fits_def dma_pieces_alt)
  let ?s2 = "s\<lparr>host := h', queues := qs\<rparr>"
  have "do_sync_dma_operation p PCI_DMA_WRITE (?s\<lparr>queues := qs\<rparr>) = Some (upd_dma p end_dma ?s2)"
    using d h'(1) by (simp add: do_sync_dma_operation_len upd_dma_comm end_dma_flag)
  moreover have "get_dma p (upd_dma p end_dma ?s2) = Some (end_dma d)"
    using assms(3,4) by (intro get_upd_dma) (simp_all add: pools_len_def)
  ultimately show ?thesis
    using q h'(2-4) assms(4) by (intro exI [of _ qs] exI [of _ h']) (simp add: sync_host_dma_def dma_done_def)
qed

text \<open>The transfers of read and write requests use the whole list.\<close>

definition io_pieces :: "dma_t \<Rightarrow> (nat \<times> nat) list" where
  "io_pieces d = map piece (take (unat (n_ops d)) (dma_list d))"

definition io_dma_fits :: "dma_t \<Rightarrow> bool" where
  "io_dma_fits d \<longleftrightarrow> unat (n_ops d) \<le> length (dma_list d) \<and> ops_fit (take (unat (n_ops d)) (dma_list d)) \<and>
     (\<forall>e \<in> set (take (unat (n_ops d)) (dma_list d)). 0 < unat (op_len e)) \<and> buffer_addr d + nbytes (io_pieces d) \<le> 2 ^ 32"

abbreviation dma_started :: "req_t \<Rightarrow> req_t" where
  "dma_started r \<equiv> r\<lparr>req_stage := REQ_STAGE_DMA, dma := (dma r)\<lparr>host_dma_complete := True\<rparr>\<rparr>"

lemma rw_loop_take:
  fixes s :: "'a host_st_scheme"
  shows "k \<le> length l \<Longrightarrow> ix + n \<le> k \<Longrightarrow> rw_io_dma_loop op (take k l) n ix addr s = rw_io_dma_loop op l n ix addr s"
proof (induction n arbitrary: ix addr s)
  case (Suc n)
  then have "rw_io_dma_loop op (take k l) n (Suc ix) a = (rw_io_dma_loop op l n (Suc ix) a :: 'a host_st_scheme \<Rightarrow> _)" for a
    by (intro ext) simp
  with Suc.prems show ?case by simp
qed simp

lemma sync_write_io_dma_ok:
  fixes s :: "'a host_st_scheme"
  assumes "dma_q_ok (queues s)" "link_ok (host s)" "pools_len s" "get_req p s = Some r" "io_dma_fits (dma r)"
  shows "\<exists>qs h'. sync_write_io_dma p s = Some (upd_req p dma_started (s\<lparr>ram :=
        put_bytes (nbytes (io_pieces (dma r))) (buffer_addr (dma r)) (\<lambda>j. host_mem (host s) (scatter (io_pieces (dma r)) j)) (ram s),
        host := h', queues := qs\<rparr>)) \<and>
      qs_step (queues s) qs \<and> link_frame (host s) h' \<and> host_mem h' = host_mem (host s) \<and> host_irqs h' = host_irqs (host s)"
proof -
  let ?g = "\<lambda>r. r\<lparr>req_stage := REQ_STAGE_DMA, dma := (dma r)\<lparr>host_dma_complete := False\<rparr>\<rparr>"
  let ?s = "upd_req p ?g s" and ?d = "dma r"
  from run_dma_thread_ready [of ?s p WRITE_IO_DMA_OPERATION] assms(1) obtain qs where
    q: "run_dma_thread p WRITE_IO_DMA_OPERATION ?s = do_sync_rw_io_dma_operation (DMA_OF p) PCI_DMA_READ (?s\<lparr>queues := qs\<rparr>)"
      "qs_step (queues s) qs"
    by (auto simp: sync_dma_cbk_def hic_codes READ_IO_DMA_OPERATION_def WRITE_IO_DMA_OPERATION_def)
  have d: "get_dma (DMA_OF p) (?s\<lparr>queues := qs\<rparr>) = Some (?d\<lparr>host_dma_complete := False\<rparr>)"
    using get_upd_req [OF assms(3,4), of ?g] by (simp add: get_dma_def)
  let ?l = "take (unat (n_ops ?d)) (dma_list ?d)"
  from rw_loop_read [of "?s\<lparr>queues := qs\<rparr>" 0 "unat (n_ops ?d)" ?l "buffer_addr ?d"] assms(2,5)
  obtain h' where h': "rw_io_dma_loop PCI_DMA_READ ?l (unat (n_ops ?d)) 0 (buffer_addr ?d) (?s\<lparr>queues := qs\<rparr>) = Some (?s\<lparr>queues := qs,
        ram := put_bytes (nbytes (io_pieces ?d)) (buffer_addr ?d) (\<lambda>j. host_mem (host s) (scatter (io_pieces ?d) j)) (ram s), host := h'\<rparr>)"
      "link_frame (host s) h'" "host_mem h' = host_mem (host s)" "host_irqs h' = host_irqs (host s)"
    by (auto simp: io_dma_fits_def io_pieces_def)
  let ?s2 = "s\<lparr>ram := put_bytes (nbytes (io_pieces ?d)) (buffer_addr ?d) (\<lambda>j. host_mem (host s) (scatter (io_pieces ?d) j)) (ram s), host := h', queues := qs\<rparr>"
  have "do_sync_rw_io_dma_operation (DMA_OF p) PCI_DMA_READ (?s\<lparr>queues := qs\<rparr>) = Some (upd_req p dma_started ?s2)"
    using d h'(1) assms(5)
    by (simp add: do_sync_rw_io_dma_operation_def rw_loop_take io_dma_fits_def upd_dma_def upd_req_comm upd_req_twice comp_def)
  moreover have "get_req p (upd_req p dma_started ?s2) = Some (dma_started r)"
    using assms(3,4) by (intro get_upd_req) (simp_all add: pools_len_def)
  ultimately show ?thesis
    using q h'(2-4) assms(4) by (intro exI [of _ qs] exI [of _ h']) (simp add: sync_write_io_dma_def dma_done_def get_dma_def)
qed

lemma sync_read_io_dma_ok:
  fixes s :: "'a host_st_scheme"
  assumes "dma_q_ok (queues s)" "link_ok (host s)" "pools_len s" "get_req p s = Some r" "io_dma_fits (dma r)"
  shows "\<exists>qs h'. sync_read_io_dma p s = Some (upd_req p dma_started (s\<lparr>host := h', queues := qs\<rparr>)) \<and>
      qs_step (queues s) qs \<and> link_frame (host s) h' \<and>
      host_mem h' = host_put (io_pieces (dma r)) (buffer_addr (dma r)) (ram s) (host_mem (host s)) \<and> host_irqs h' = host_irqs (host s)"
proof -
  let ?g = "\<lambda>r. r\<lparr>req_stage := REQ_STAGE_DMA, dma := (dma r)\<lparr>host_dma_complete := False\<rparr>\<rparr>"
  let ?s = "upd_req p ?g s" and ?d = "dma r"
  from run_dma_thread_ready [of ?s p READ_IO_DMA_OPERATION] assms(1) obtain qs where
    q: "run_dma_thread p READ_IO_DMA_OPERATION ?s = do_sync_rw_io_dma_operation (DMA_OF p) PCI_DMA_WRITE (?s\<lparr>queues := qs\<rparr>)"
      "qs_step (queues s) qs"
    by (auto simp: sync_dma_cbk_def hic_codes READ_IO_DMA_OPERATION_def WRITE_IO_DMA_OPERATION_def)
  have d: "get_dma (DMA_OF p) (?s\<lparr>queues := qs\<rparr>) = Some (?d\<lparr>host_dma_complete := False\<rparr>)"
    using get_upd_req [OF assms(3,4), of ?g] by (simp add: get_dma_def)
  let ?l = "take (unat (n_ops ?d)) (dma_list ?d)"
  from rw_loop_write [of "?s\<lparr>queues := qs\<rparr>" 0 "unat (n_ops ?d)" ?l "buffer_addr ?d"] assms(2,5)
  obtain h' where h': "rw_io_dma_loop PCI_DMA_WRITE ?l (unat (n_ops ?d)) 0 (buffer_addr ?d) (?s\<lparr>queues := qs\<rparr>) = Some (?s\<lparr>queues := qs, host := h'\<rparr>)"
      "link_frame (host s) h'" "host_mem h' = host_put (io_pieces ?d) (buffer_addr ?d) (ram s) (host_mem (host s))"
      "host_irqs h' = host_irqs (host s)"
    by (auto simp: io_dma_fits_def io_pieces_def)
  let ?s2 = "s\<lparr>host := h', queues := qs\<rparr>"
  have "do_sync_rw_io_dma_operation (DMA_OF p) PCI_DMA_WRITE (?s\<lparr>queues := qs\<rparr>) = Some (upd_req p dma_started ?s2)"
    using d h'(1) assms(5)
    by (simp add: do_sync_rw_io_dma_operation_def rw_loop_take io_dma_fits_def upd_dma_def upd_req_comm upd_req_twice comp_def)
  moreover have "get_req p (upd_req p dma_started ?s2) = Some (dma_started r)"
    using assms(3,4) by (intro get_upd_req) (simp_all add: pools_len_def)
  ultimately show ?thesis
    using q h'(2-4) assms(4) by (intro exI [of _ qs] exI [of _ h']) (simp add: sync_read_io_dma_def dma_done_def get_dma_def)
qed

section \<open>Properties\<close>

text \<open>
  C15. The data phase of a host write moves the bytes of its scatter list, in list order, from host
  memory to the buffer of the request and changes nothing else in SSD memory; the data phase of a
  host read moves the buffer to the pages of the list and changes nothing else in host memory.
  Both return.
\<close>

theorem io_dma_moves_pages:
  fixes s :: "'a host_st_scheme"
  assumes "dma_q_ok (queues s)" "link_ok (host s)" "pools_len s" "get_req p s = Some r" "io_dma_fits (dma r)"
    and "disjoint_pieces (io_pieces (dma r))"
  defines "ps \<equiv> io_pieces (dma r)" and "buf \<equiv> buffer_addr (dma r)"
  shows "(\<exists>s'. sync_write_io_dma p s = Some s' \<and> host_mem (host s') = host_mem (host s) \<and>
      (\<forall>i < nbytes ps. ram s' (buf + i) = host_mem (host s) (scatter ps i)) \<and>
      (\<forall>x. x < buf \<or> buf + nbytes ps \<le> x \<longrightarrow> ram s' x = ram s x)) \<and>
    (\<exists>s'. sync_read_io_dma p s = Some s' \<and> ram s' = ram s \<and>
      (\<forall>i < nbytes ps. host_mem (host s') (scatter ps i) = ram s (buf + i)) \<and>
      (\<forall>x. (\<forall>q \<in> set ps. x \<notin> covers q) \<longrightarrow> host_mem (host s') x = host_mem (host s) x))"
proof (rule conjI)
  from sync_write_io_dma_ok [OF assms(1-5)] obtain qs h' where
    w: "sync_write_io_dma p s = Some (upd_req p dma_started (s\<lparr>ram := put_bytes (nbytes ps) buf (\<lambda>j. host_mem (host s) (scatter ps j)) (ram s),
        host := h', queues := qs\<rparr>))" "host_mem h' = host_mem (host s)"
    unfolding ps_def buf_def by blast
  then show "\<exists>s'. sync_write_io_dma p s = Some s' \<and> host_mem (host s') = host_mem (host s) \<and>
      (\<forall>i < nbytes ps. ram s' (buf + i) = host_mem (host s) (scatter ps i)) \<and>
      (\<forall>x. x < buf \<or> buf + nbytes ps \<le> x \<longrightarrow> ram s' x = ram s x)"
    by (auto simp: put_bytes_def)
  from sync_read_io_dma_ok [OF assms(1-5)] obtain qs h' where
    r: "sync_read_io_dma p s = Some (upd_req p dma_started (s\<lparr>host := h', queues := qs\<rparr>))"
      "host_mem h' = host_put ps buf (ram s) (host_mem (host s))"
    unfolding ps_def buf_def by blast
  with assms(6) show "\<exists>s'. sync_read_io_dma p s = Some s' \<and> ram s' = ram s \<and>
      (\<forall>i < nbytes ps. host_mem (host s') (scatter ps i) = ram s (buf + i)) \<and>
      (\<forall>x. (\<forall>q \<in> set ps. x \<notin> covers q) \<longrightarrow> host_mem (host s') x = host_mem (host s) x)"
    by (auto simp: host_put_scatter host_put_other ps_def)
qed

text \<open>A system just started: the host is attached and no transfer is under way.\<close>

definition host_image :: "mem \<Rightarrow> host_if" where
  "host_image m = connect_shared_memory \<lparr>Registers = zero_hreg, db_queue = empty_dbq, msg_queue = \<lparr>mq_tail = 0, mq_head = 0, mq_list = []\<rparr>,
     page_queue = [], nvmeReg = (\<lambda>_. 0), simulation_status = 0, host_mem = m, host_irqs = [], host_vectors = []\<rparr>"

definition zero_sync_dma :: sync_dma_t where
  "zero_sync_dma = \<lparr>sd_dma_type = 0, sd_status = 0, sd_ssd_addr = 0, sd_host_p_addr = 0, sd_sqid = 0, sd_sqe = 0,
     sd_num_of_entries = 0, sd_cqid = 0, sd_cqe = 0, sd_vector = 0, sd_irq_enabled = 0\<rparr>"

definition host_st_image :: "mem \<Rightarrow> host_st" where
  "host_st_image m = buf_st.extend buf_image (host_st.fields (host_image m) zero_sync_dma zero_dma)"

lemma link_ok_image: "link_ok (host_image m)" "host_mem (host_image m) = m"
  by (simp_all add: host_image_def connect_shared_memory_def link_ok_def msgq_inv_def SSDMsgQueueSize_def)

lemma host_st_image_sel [simp]:
  "queues (host_st_image m) = replicate 16 zero_obj_queue" "host (host_st_image m) = host_image m"
  "r_req (host_st_image m) = replicate R_SIZE zero_req" "w_req (host_st_image m) = replicate W_SIZE zero_req"
  "other_req_alloc (host_st_image m) = replicate O_SIZE zero_req"
  by (simp_all add: host_st_image_def buf_image_def init_op_obj_def Let_def ftl_image_def nand_image_def req_image_def kernel_image_def
      kernel_st.defs req_st.defs nand_st.defs ftl_st.defs buf_st.defs host_st.defs)

lemma host_st_image_ready: "dma_q_ok (queues (host_st_image m))" "link_ok (host (host_st_image m))" "pools_len (host_st_image m)"
  by (simp_all add: dma_q_ok_def SYNC_DMA_Q_def zero_obj_queue_def oq_inv_def link_ok_image pools_len_def MSG_Q_SIZE_def)

text \<open>A write request of two pieces, 4 bytes at host address 100 and 3 bytes at 200.\<close>

definition two_ops :: dma_t where
  "two_ops = zero_dma\<lparr>data_size := 7, n_ops := 2, buffer_addr := 4096,
     dma_list := zero_dma_op\<lparr>host_p_addr := 100, op_len := 4\<rparr> # zero_dma_op\<lparr>host_p_addr := 200, op_len := 3\<rparr> # replicate 14 zero_dma_op\<rparr>"

theorem io_dma_moves_pages_witness:
  "\<exists>s s' :: host_st. sync_write_io_dma (W_REQ 0) s = Some s' \<and> ram s' 4101 = host_mem (host s) 201 \<and> ram s' 4103 = ram s 4103"
proof -
  let ?s = "upd_req (W_REQ 0) (\<lambda>r. r\<lparr>dma := two_ops\<rparr>) (host_st_image (\<lambda>_. 7))"
  have r: "get_req (W_REQ 0) ?s = Some (zero_req\<lparr>dma := two_ops\<rparr>)"
    by (simp add: get_req_def upd_req_def)
  have ps: "io_pieces two_ops = [(100, 4), (200, 3)]" "buffer_addr two_ops = 4096"
    by (simp_all add: io_pieces_def two_ops_def piece_def)
  have fits: "io_dma_fits two_ops"
    unfolding io_dma_fits_def ps by (simp add: two_ops_def ops_fit_def INTERFACE_DMA_PAGE_SIZE_def)
  have "disjoint_pieces [(100, 4), (200, 3)]" by (simp add: covers_def)
  with io_dma_moves_pages [of ?s "W_REQ 0" "zero_req\<lparr>dma := two_ops\<rparr>"] r ps fits host_st_image_ready
  obtain s' where "sync_write_io_dma (W_REQ 0) ?s = Some s'"
      "\<forall>i < nbytes [(100, 4), (200, 3)]. ram s' (4096 + i) = host_mem (host ?s) (scatter [(100, 4), (200, 3)] i)"
      "\<forall>x. x < 4096 \<or> 4096 + nbytes [(100, 4), (200, 3)] \<le> x \<longrightarrow> ram s' x = ram ?s x"
    by auto
  moreover from this(2) [rule_format, of 5] have "ram s' 4101 = host_mem (host ?s) 201" by simp
  moreover have "ram s' 4103 = ram ?s 4103" using calculation(3) by simp
  ultimately show ?thesis by blast
qed

end
