(* ===== verification/Nvme_Queues.thy ===== *)
theory Nvme_Queues
  imports Dma_Scatter
begin

text \<open>
  The NVMe driver, first part (\<^verbatim>\<open>nvme_driver.h\<close>, \<^verbatim>\<open>nvme_driver.c\<close>): submission and completion queues,
  the start of the driver and of the controller, and the posting of completion commands, with the
  queue of completions that wait for room in the completion queue of the host. A remainder modulo
  zero, an index out of range and a wait without end are \<open>None\<close>.
\<close>

unbundle bit_operations_syntax

section \<open>Queues and driver state\<close>

definition MAX_IO_SQCQ_PAIRS :: nat where "MAX_IO_SQCQ_PAIRS = 4"
definition MAX_IO_SQCQ_ENTRIES :: nat where "MAX_IO_SQCQ_ENTRIES = 128"
definition IdDataSize :: nat where "IdDataSize = 4096"
definition PrpListSize :: nat where "PrpListSize = 8192"
definition CCMD_POSTED :: u32 where "CCMD_POSTED = REQ_COMPLETED"
definition NUM_NS :: nat where "NUM_NS = 1"

record NvmeSQueue =
  sq_sqid :: u16
  sq_cqid :: u16
  sq_head :: u32
  sq_tail :: u32
  sq_tailBDReg :: nat
  sq_size :: u32
  sq_hostAddr :: u64

record NvmeCQueue =
  cq_phase :: u8
  cq_irq_enabled :: u8
  cq_cqid :: u16
  cq_head :: u32
  cq_headBDReg :: nat
  cq_tail :: u32
  cq_vector :: u32
  cq_size :: u32
  cq_hostAddr :: u64
  pend_tail :: nat
  pend_head :: nat
  pend_size :: nat
  pend_objs :: "obj_ptr list"

text \<open>The queues of read and write requests that wait for a page buffer.\<close>

record buf_q_t =
  bq_tail :: nat
  bq_head :: nat
  bq_empty :: bool
  bq_objs :: "obj_ptr list"

record nvme_st = host_st +
  cqs :: "NvmeCQueue list"
  sqs :: "NvmeSQueue list"
  idleTimeCounter :: u32
  hostMemPageSize :: u32
  hostPageBits :: u32
  maxPrpEntries :: u32
  iosqCount :: u32
  iocqCount :: u32
  idCtrlBuf :: nat
  idNsBuf :: nat
  NvmeIdNSBuf :: nat
  prp_list :: nat
  scmd_buf :: nat
  ccmd_buf :: nat
  check_door_ftn_id :: nat
  external_code_buffer :: nat
  external_code_size :: u32
  r_buf_q :: buf_q_t
  w_buf_q :: buf_q_t

definition inc_cq_tail :: "NvmeCQueue \<Rightarrow> NvmeCQueue" where
  "inc_cq_tail cq =
     (let t = cq_tail cq + 1 in
      if t \<ge> cq_size cq then cq\<lparr>cq_tail := 0, cq_phase := (if cq_phase cq = 0 then 1 else 0)\<rparr> else cq\<lparr>cq_tail := t\<rparr>)"

definition inc_sq_head :: "NvmeSQueue \<Rightarrow> NvmeSQueue option" where
  "inc_sq_head sq = (if sq_size sq = 0 then None else Some (sq\<lparr>sq_head := (sq_head sq + 1) mod sq_size sq\<rparr>))"

definition nvme_cq_full :: "NvmeCQueue \<Rightarrow> bool option" where
  "nvme_cq_full cq = (if cq_size cq = 0 then None else Some ((cq_tail cq + 1) mod cq_size cq = cq_head cq))"

definition set_cq :: "nat \<Rightarrow> NvmeCQueue \<Rightarrow> 'a nvme_st_scheme \<Rightarrow> 'a nvme_st_scheme" where
  "set_cq i c s = s\<lparr>cqs := (cqs s)[i := c]\<rparr>"

definition set_sq :: "nat \<Rightarrow> NvmeSQueue \<Rightarrow> 'a nvme_st_scheme \<Rightarrow> 'a nvme_st_scheme" where
  "set_sq i q s = s\<lparr>sqs := (sqs s)[i := q]\<rparr>"

section \<open>Start of the driver\<close>

definition init_nvme_driver :: "'a nvme_st_scheme \<Rightarrow> (int \<times> 'a nvme_st_scheme) option" where
  "init_nvme_driver s =
     do {
       (a1, s1) \<leftarrow> get_uncacheable_ram 4096 s;
       (a2, s2) \<leftarrow> get_uncacheable_ram 4096 s1;
       (a3, s3) \<leftarrow> get_uncacheable_ram (IdDataSize div 4) s2;
       (a4, s4) \<leftarrow> get_uncacheable_ram PrpListSize s3;
       (a5, s5) \<leftarrow> get_uncacheable_ram (64 * MAX_IO_SQCQ_ENTRIES) s4;
       (a6, s6) \<leftarrow> get_uncacheable_ram (16 * MAX_IO_SQCQ_ENTRIES) s5;
       (f1, s7) \<leftarrow> sys_add_thread_function NVME_DRIVER_THREAD completed_req_cbk_ftn s6;
       (f2, s8) \<leftarrow> sys_add_thread_function NVME_DRIVER_THREAD initialize_nvme_ftn (s7\<lparr>completed_req_cbk_ftn_id := f1\<rparr>);
       let s9 = snd (sys_add_callback_ftn f2 NULL s8);
       (f3, s10) \<leftarrow> sys_add_thread_function NVME_DRIVER_THREAD check_door_bell_ftn s9;
       Some (0, s10\<lparr>idCtrlBuf := a1, idNsBuf := a2, NvmeIdNSBuf := a3, prp_list := a4, scmd_buf := a5, ccmd_buf := a6,
         check_door_ftn_id := f3\<rparr>)
     }"

text \<open>Offsets of the controller registers (\<open>hostCtrlReg\<close>) and their bit fields.\<close>

definition CAP_LO :: nat where "CAP_LO = 0"
definition CAP_HI :: nat where "CAP_HI = 4"
definition CTRL_VS :: nat where "CTRL_VS = 8"
definition INTMS :: nat where "INTMS = 12"
definition INTMC :: nat where "INTMC = 16"
definition CTRL_CC :: nat where "CTRL_CC = 20"
definition CSTS :: nat where "CSTS = 28"
definition AQA :: nat where "AQA = 36"
definition ASQ :: nat where "ASQ = 40"
definition ACQ :: nat where "ACQ = 48"
definition AdminDBTail_OFFSET :: nat where "AdminDBTail_OFFSET = 0x1000"
definition AdminDBHead_OFFSET :: nat where "AdminDBHead_OFFSET = 0x1004"

definition cc_en :: "u32 \<Rightarrow> bool" where "cc_en w = bit w 0"
definition cc_mps :: "u32 \<Rightarrow> u32" where "cc_mps w = drop_bit 7 w AND 0xF"
definition cc_shn :: "u32 \<Rightarrow> u32" where "cc_shn w = drop_bit 14 w AND 3"
definition aqa_asqs :: "u32 \<Rightarrow> u32" where "aqa_asqs w = w AND 0xFFF"
definition aqa_acqs :: "u32 \<Rightarrow> u32" where "aqa_acqs w = drop_bit 16 w AND 0xFFF"
definition cap_lo_value :: u32 where
  "cap_lo_value = 3 OR push_bit 16 1 OR push_bit 17 1 OR push_bit 24 0xF"
definition cap_hi_value :: u32 where
  "cap_hi_value = push_bit 5 1 OR push_bit 16 0 OR push_bit 20 4"

definition set_ctrl :: "nat \<Rightarrow> u32 \<Rightarrow> 'a host_st_scheme \<Rightarrow> 'a host_st_scheme option" where
  "set_ctrl off v s = do { h \<leftarrow> ctrl_write_reg off v (host s); Some (s\<lparr>host := h\<rparr>) }"

definition get_ctrl :: "nat \<Rightarrow> 'a host_st_scheme \<Rightarrow> u32" where
  "get_ctrl off s = fst (host_read_reg (NVME_CTRL_OF + off) (host s))"

definition get_ctrl64 :: "nat \<Rightarrow> 'a host_st_scheme \<Rightarrow> u64" where
  "get_ctrl64 off s = ucast (get_ctrl off s) OR push_bit 32 (ucast (get_ctrl (off + 4) s))"

definition DB_REG :: "nat \<Rightarrow> nat" where
  "DB_REG off = get_dev_address 1 + NVME_CTRL_OF + off"

text \<open>
  \<open>initialize_nvme\<close>: \<open>attach\<close> and \<open>enable\<close> are what the host does while the firmware waits for the
  connection and for the enable bit.
\<close>

definition init_admin_cq :: "u64 \<Rightarrow> u32 \<Rightarrow> NvmeCQueue \<Rightarrow> NvmeCQueue" where
  "init_admin_cq acq aqa cq = cq\<lparr>cq_hostAddr := acq, cq_cqid := 0, cq_phase := 1, cq_size := aqa_acqs aqa + 1, cq_irq_enabled := 1,
     cq_vector := 0, cq_head := 0, cq_tail := 0, cq_headBDReg := DB_REG AdminDBHead_OFFSET, pend_head := 0, pend_tail := 0,
     pend_size := unat (aqa_acqs aqa + 1)\<rparr>"

definition init_admin_sq :: "u64 \<Rightarrow> u32 \<Rightarrow> NvmeSQueue \<Rightarrow> NvmeSQueue" where
  "init_admin_sq asq aqa sq = sq\<lparr>sq_hostAddr := asq, sq_sqid := 0, sq_size := aqa_asqs aqa + 1, sq_cqid := 0, sq_head := 0, sq_tail := 0\<rparr>"

definition initialize_nvme ::
  "(host_if \<Rightarrow> host_if) \<Rightarrow> (host_if \<Rightarrow> host_if) \<Rightarrow> 'a nvme_st_scheme \<Rightarrow> 'a nvme_st_scheme option" where
  "initialize_nvme attach enable s =
     do {
       s1 \<leftarrow> host_write_cmd HIC_INIT (s\<lparr>iocqCount := 0, iosqCount := 0\<rparr>);
       s2 \<leftarrow> host_write_cmd HOST_CONNECTION_STATUS (s1\<lparr>host := attach (host s1)\<rparr>);
       if h_cmdStatus (Registers (host s2)) \<noteq> HOST_ATTACHED then None
       else do {
         s3 \<leftarrow> set_ctrl CAP_LO 0 s2; s4 \<leftarrow> set_ctrl CAP_HI 0 s3; s5 \<leftarrow> set_ctrl CTRL_VS 0 s4; s6 \<leftarrow> set_ctrl INTMC 0 s5;
         s7 \<leftarrow> set_ctrl INTMS 0 s6; s8 \<leftarrow> set_ctrl CTRL_CC 0 s7; s9 \<leftarrow> set_ctrl CSTS 0 s8;
         t1 \<leftarrow> set_ctrl CAP_LO cap_lo_value s9; t2 \<leftarrow> set_ctrl CAP_HI cap_hi_value t1; t3 \<leftarrow> set_ctrl CTRL_VS 0x00010100 t2;
         t4 \<leftarrow> set_ctrl INTMC 0 t3; t5 \<leftarrow> set_ctrl INTMS 0 t4;
         let t6 = t5\<lparr>host := enable (host t5)\<rparr>;
         let cc = get_ctrl CTRL_CC t6;
         if sc_host_ds (ssd_config t6) < 9 \<or> \<not> cc_en cc then None
         else do {
           let bits = cc_mps cc + 12;
           let aqa = get_ctrl AQA t6;
           let t7 = t6\<lparr>hostPageBits := bits, hostMemPageSize := push_bit (unat bits) 1, maxPrpEntries := push_bit (unat bits) 1 div 8,
             cqs := (cqs t6)[0 := init_admin_cq (get_ctrl64 ACQ t6) aqa (cqs t6 ! 0)],
             sqs := (sqs t6)[0 := init_admin_sq (get_ctrl64 ASQ t6) aqa (sqs t6 ! 0)]\<rparr>;
           t8 \<leftarrow> host_write_cmd PCI_ENABLE_MSIX_VECTOR (set_regs (\<lambda>r. r\<lparr>h_cqIntVector := 0\<rparr>) t7);
           t9 \<leftarrow> set_ctrl CSTS (get_ctrl CSTS t8 OR 1) t8;
           Some (snd (sys_add_callback_ftn (check_door_ftn_id t9) NULL t9))
         }
       }
     }"

section \<open>Posting completion commands\<close>

text \<open>
  One round of \<open>post_admin_ccmds\<close> and \<open>post_io_ccmds\<close>: the oldest pending request of completion
  queue \<open>i\<close> is completed; \<open>sqi\<close> gives the submission queue whose head is reported.
\<close>

definition ccmd_of :: "u32 \<Rightarrow> u16 \<Rightarrow> req_t \<Rightarrow> u8 \<Rightarrow> nat \<Rightarrow> mem \<Rightarrow> mem" where
  "ccmd_of head c req phase a m =
     store16 (store16 (store16 (store32 m a (ccmd_dw0 req)) (a + 8) (ucast head)) (a + 12) c)
       (a + 14) (push_bit 1 (status req) OR ucast phase)"

definition post_ccmd :: "nat \<Rightarrow> (req_t \<Rightarrow> nat) \<Rightarrow> 'a nvme_st_scheme \<Rightarrow> 'a nvme_st_scheme option" where
  "post_ccmd i sqi s =
     (let cq = cqs s ! i in
      if pend_size cq = 0 \<or> length (pend_objs cq) \<le> pend_head cq then None
      else let p = pend_objs cq ! pend_head cq;
               cq1 = cq\<lparr>pend_head := (pend_head cq + 1) mod pend_size cq\<rparr>;
               s1 = set_cq i cq1 s in
        do {
          req \<leftarrow> get_req p s1;
          if length (sqs s1) \<le> sqi req then None
          else do {
            let s2 = s1\<lparr>ram := ccmd_of (sq_head (sqs s1 ! sqi req)) (cid (scmd req)) req (cq_phase cq1) (ccmd_buf s1) (ram s1)\<rparr>;
            s3 \<leftarrow> sync_post_ccmd (ucast (cq_cqid cq1)) (cq_tail cq1) (cq_hostAddr cq1) (ccmd_buf s2) 1 (cq_vector cq1)
              (ucast (cq_irq_enabled cq1)) s2;
            let s4 = upd_req p (\<lambda>r. r\<lparr>req_stage := CCMD_POSTED\<rparr>) s3;
            sys_free_req_obj p (set_cq i (inc_cq_tail (cqs s4 ! i)) s4)
          }
        })"

partial_function (option) post_admin_ccmds :: "'a nvme_st_scheme \<Rightarrow> 'a nvme_st_scheme option" where
  "post_admin_ccmds s =
     (let cq = cqs s ! 0 in
      if pend_head cq = pend_tail cq then Some s
      else do {
        full \<leftarrow> nvme_cq_full cq;
        if full then Some s else do { s1 \<leftarrow> post_ccmd 0 (\<lambda>_. 0) s; post_admin_ccmds s1 }
      })"

partial_function (option) post_io_ccmds :: "nat \<Rightarrow> 'a nvme_st_scheme \<Rightarrow> 'a nvme_st_scheme option" where
  "post_io_ccmds i s =
     (if length (cqs s) \<le> i then None
      else let cq = cqs s ! i in
      if pend_head cq = pend_tail cq then Some s
      else do {
        full \<leftarrow> nvme_cq_full cq;
        if full then Some s else do { s1 \<leftarrow> post_ccmd i (\<lambda>r. unat (sqid r)) s; post_io_ccmds i s1 }
      })"

text \<open>A request joins the pending queue; the admin queue is not checked for room.\<close>

definition pend_push :: "nat \<Rightarrow> obj_ptr \<Rightarrow> 'a nvme_st_scheme \<Rightarrow> 'a nvme_st_scheme option" where
  "pend_push i p s =
     (let cq = cqs s ! i in
      if pend_size cq = 0 \<or> length (pend_objs cq) \<le> pend_tail cq then None
      else Some (set_cq i (cq\<lparr>pend_objs := (pend_objs cq)[pend_tail cq := p], pend_tail := (pend_tail cq + 1) mod pend_size cq\<rparr>) s))"

definition enqueue_admin_ccmd :: "obj_ptr \<Rightarrow> 'a nvme_st_scheme \<Rightarrow> 'a nvme_st_scheme option" where
  "enqueue_admin_ccmd p s = pend_push 0 p s \<bind> post_admin_ccmds"

definition enqueue_io_ccmd :: "nat \<Rightarrow> obj_ptr \<Rightarrow> 'a nvme_st_scheme \<Rightarrow> 'a nvme_st_scheme option" where
  "enqueue_io_ccmd i p s =
     (if length (cqs s) \<le> i \<or> pend_size (cqs s ! i) = 0 then None
      else if pend_head (cqs s ! i) = (pend_tail (cqs s ! i) + 1) mod pend_size (cqs s ! i) then Some s
      else do {
        s1 \<leftarrow> pend_push i p s;
        _ \<leftarrow> get_req p s1;
        post_io_ccmds i (upd_req p (\<lambda>r. r\<lparr>req_stage := PENDING_CCMD_POST\<rparr>) s1)
      })"

end
