(* ===== verification/Nvme_Prp.thy ===== *)
theory Nvme_Prp
  imports Nvme_Queues
begin

text \<open>
  The NVMe driver, second part (\<^verbatim>\<open>nvme_driver.c\<close>): physical region pages. \<open>decode_prp\<close> turns the two
  PRP fields of a command, and the PRP lists they point to in host memory, into the scatter list of
  a DMA object.
\<close>

unbundle bit_operations_syntax

section \<open>Decoding\<close>

definition get_prp_page :: "u64 \<Rightarrow> nat \<Rightarrow> u32 \<Rightarrow> 'a host_st_scheme \<Rightarrow> 'a host_st_scheme option" where
  "get_prp_page haddr addr len s =
     sync_host_dma PRP_DMA PCI_DMA_READ (s\<lparr>prp_dma := (prp_dma s)\<lparr>n_ops := 1, data_size := len, buffer_addr := addr,
       dma_list := (dma_list (prp_dma s))[0 := (dma_list (prp_dma s) ! 0)\<lparr>host_p_addr := haddr, op_len := len\<rparr>]\<rparr>\<rparr>)"

text \<open>The list of a DMA object has \<open>MDTS_PAGES\<close> entries; a store past its end is \<open>None\<close>.\<close>

definition add_dma_entry :: "u64 \<Rightarrow> u32 \<Rightarrow> dma_t \<Rightarrow> dma_t option" where
  "add_dma_entry haddr len d =
     (let i = unat (n_ops d) in
      if length (dma_list d) \<le> i then None
      else Some (d\<lparr>dma_list := (dma_list d)[i := (dma_list d ! i)\<lparr>host_p_addr := haddr, op_len := len\<rparr>], n_ops := n_ops d + 1\<rparr>))"

definition bad_prp :: "u32 \<Rightarrow> u64 \<Rightarrow> bool" where
  "bad_prp pgsz e \<longleftrightarrow> e = 0 \<or> e AND ucast (pgsz - 1) \<noteq> 0"

definition prp_list_bytes :: "'a nvme_st_scheme \<Rightarrow> u32 \<Rightarrow> u32" where
  "prp_list_bytes s len =
     min (maxPrpEntries s) (drop_bit (unat (hostPageBits s)) (len + hostMemPageSize s - 1)) * 8"

definition prp_entry :: "'a nvme_st_scheme \<Rightarrow> nat \<Rightarrow> u64" where
  "prp_entry s i = load64 (ram s) (prp_list s + 8 * i)"

text \<open>
  The entry of round \<open>i\<close>: the last entry of a full list points to the next list, which is fetched
  first. \<open>Some None\<close> is the exit to \<open>unmap\<close>.
\<close>

definition prp_next :: "nat \<Rightarrow> u32 \<Rightarrow> 'a nvme_st_scheme \<Rightarrow> (nat \<times> u64 \<times> 'a nvme_st_scheme) option option" where
  "prp_next i len s =
     (let ent = prp_entry s i in
      if of_nat i = maxPrpEntries s - 1 \<and> len > hostMemPageSize s then
        (if bad_prp (hostMemPageSize s) ent then Some None
         else do { s1 \<leftarrow> get_prp_page ent (prp_list s) (prp_list_bytes s len) s; Some (Some (0, prp_entry s1 0, s1)) })
      else Some (Some (i, ent, s)))"

text \<open>The loop over the entries. The DMA object is threaded as a value, because only the driver reads it before the transfer.\<close>

partial_function (option) prp_loop ::
  "nat \<Rightarrow> u32 \<Rightarrow> dma_t \<Rightarrow> 'a nvme_st_scheme \<Rightarrow> (int \<times> dma_t \<times> 'a nvme_st_scheme) option" where
  "prp_loop i len d s =
     (if len = 0 then Some (0, d, s)
      else do {
        nxt \<leftarrow> prp_next i len s;
        (case nxt of
           None \<Rightarrow> Some (-1, d, s)
         | Some (j, ent, s1) \<Rightarrow>
             if bad_prp (hostMemPageSize s1) ent then Some (-1, d, s1)
             else do {
               d1 \<leftarrow> add_dma_entry ent (min len (hostMemPageSize s1)) d;
               prp_loop (j + 1) (len - min len (hostMemPageSize s1)) d1 s1
             })
      })"

definition decode_prp_val :: "u64 \<Rightarrow> u64 \<Rightarrow> dma_t \<Rightarrow> 'a nvme_st_scheme \<Rightarrow> (int \<times> dma_t \<times> 'a nvme_st_scheme) option" where
  "decode_prp_val p1 p2 d s =
     (let len = data_size d; first = min len (hostMemPageSize s - ucast (p1 mod ucast (hostMemPageSize s))) in
      if hostMemPageSize s = 0 then None
      else do {
        d1 \<leftarrow> add_dma_entry p1 first (d\<lparr>n_ops := 0\<rparr>);
        let len1 = len - first;
        if len1 = 0 then Some (0, d1, s)
        else if p2 = 0 then Some (-1, d1, s)
        else if len1 > hostMemPageSize s then
          do {
            s1 \<leftarrow> get_prp_page p2 (prp_list s) (prp_list_bytes s len1) s;
            prp_loop 0 len1 d1 s1
          }
        else if p2 AND ucast (hostMemPageSize s - 1) \<noteq> 0 then Some (-1, d1, s)
        else do { d2 \<leftarrow> add_dma_entry p2 len1 d1; Some (0, d2, s) }
      })"

definition decode_prp :: "u64 \<Rightarrow> u64 \<Rightarrow> obj_ptr \<Rightarrow> 'a nvme_st_scheme \<Rightarrow> (int \<times> 'a nvme_st_scheme) option" where
  "decode_prp p1 p2 p s =
     (if p1 = 0 then Some (-1, s)
      else do {
        d \<leftarrow> get_dma p s;
        (r, d', s1) \<leftarrow> decode_prp_val p1 p2 d s;
        Some (r, upd_dma p (\<lambda>_. d') s1)
      })"

definition do_sync_dma :: "u64 \<Rightarrow> u64 \<Rightarrow> obj_ptr \<Rightarrow> nat \<Rightarrow> u32 \<Rightarrow> 'a nvme_st_scheme \<Rightarrow> 'a nvme_st_scheme option" where
  "do_sync_dma p1 p2 p addr op s =
     do {
       (r, s1) \<leftarrow> decode_prp p1 p2 p s;
       sync_host_dma p op (upd_dma p (\<lambda>d. d\<lparr>buffer_addr := addr, c_op_smem_pg := 0, c_op_len := 0\<rparr>) s1)
     }"

section \<open>The pages of a command\<close>

text \<open>
  \<open>spread pg ent k r\<close> are the pieces of \<open>r\<close> bytes over whole pages, page \<open>k\<close> at address \<open>ent k\<close>, and
  \<open>prp_pieces\<close> the pieces the NVMe standard assigns to a command with the given PRP fields.
\<close>

function spread :: "nat \<Rightarrow> (nat \<Rightarrow> nat) \<Rightarrow> nat \<Rightarrow> nat \<Rightarrow> (nat \<times> nat) list" where
  "spread pg ent k r = (if pg = 0 \<or> r = 0 then [] else (ent k, min pg r) # spread pg ent (k + 1) (r - min pg r))"
  by pat_completeness auto
termination by (relation "measure (\<lambda>(pg, ent, k, r). r)") auto

declare spread.simps [simp del]

definition prp_first :: "nat \<Rightarrow> nat \<Rightarrow> nat \<Rightarrow> nat" where
  "prp_first pg a n = min n (pg - a mod pg)"

definition prp_pieces :: "nat \<Rightarrow> u64 \<Rightarrow> u64 \<Rightarrow> mem \<Rightarrow> nat \<Rightarrow> (nat \<times> nat) list" where
  "prp_pieces pg p1 p2 hm n =
     (let first = prp_first pg (unat p1) n; rest = n - first in
      (unat p1, first) # (if rest \<le> pg then spread pg (\<lambda>_. unat p2) 0 rest
                          else spread pg (\<lambda>k. unat (load64 hm (unat p2 + 8 * k))) 0 rest))"

definition npages :: "nat \<Rightarrow> nat \<Rightarrow> nat" where
  "npages pg r = (r + pg - 1) div pg"

lemma npages_0 [simp]: "0 < pg \<Longrightarrow> npages pg 0 = 0"
  by (simp add: npages_def)

lemma npages_rec: "0 < pg \<Longrightarrow> 0 < r \<Longrightarrow> npages pg r = Suc (npages pg (r - min pg r))"
proof -
  assume a: "0 < pg" "0 < r"
  show ?thesis
  proof (cases "r \<le> pg")
    case True
    with a have "r + pg - 1 = pg + (r - 1)" "(r - 1) div pg = 0" by auto
    with a have "npages pg r = 1" by (simp only: npages_def div_add_self1)
    with a True show ?thesis by simp
  next
    case False
    with a have "r + pg - 1 = pg + (r - pg + pg - 1)" by simp
    with a False show ?thesis by (simp only: npages_def div_add_self1) (simp add: min_def npages_def)
  qed
qed

lemma nbytes_spread [simp]: "0 < pg \<Longrightarrow> nbytes (spread pg ent k r) = r"
proof (induction pg ent k r rule: spread.induct)
  case (1 pg ent k r)
  then show ?case by (subst spread.simps) simp
qed

lemma nbytes_prp: "0 < pg \<Longrightarrow> nbytes (prp_pieces pg p1 p2 hm n) = n"
  by (simp add: prp_pieces_def Let_def prp_first_def)

lemma spread_in_page: "(a, n) \<in> set (spread pg ent k r) \<Longrightarrow> 0 < n \<and> n \<le> pg"
  by (induction pg ent k r rule: spread.induct) (subst (asm) (2) spread.simps, auto split: if_splits)

lemma length_spread: "0 < pg \<Longrightarrow> length (spread pg ent k r) = npages pg r"
proof (induction pg ent k r rule: spread.induct)
  case (1 pg ent k r)
  show ?case
  proof (cases "r = 0")
    case True
    then show ?thesis using "1.prems" by (simp add: spread.simps)
  next
    case False
    then have "length (spread pg ent k r) = Suc (length (spread pg ent (k + 1) (r - min pg r)))"
      using "1.prems" by (subst spread.simps) simp
    with "1.IH" "1.prems" False npages_rec [of pg r] show ?thesis by simp
  qed
qed

lemma spread_cong:
  assumes "0 < pg" "\<And>j. k \<le> j \<Longrightarrow> j < k + npages pg r \<Longrightarrow> f j = g j"
  shows "spread pg f k r = spread pg g k r"
  using assms
proof (induction pg f k r rule: spread.induct)
  case (1 pg f k r)
  show ?case
  proof (cases "r = 0")
    case False
    with "1.prems"(1) npages_rec [of pg r] have np: "npages pg r = Suc (npages pg (r - min pg r))" by simp
    have "f k = g k" using "1.prems"(2) [of k] np by simp
    moreover have "spread pg f (k + 1) (r - min pg r) = spread pg g (k + 1) (r - min pg r)"
      using "1.IH" "1.prems" False np by simp
    ultimately show ?thesis by (subst (1 2) spread.simps) simp
  qed (simp add: spread.simps)
qed

section \<open>Entries\<close>

lemma add_dma_entry_ok:
  assumes "unat (n_ops d) < length (dma_list d)" "length (dma_list d) \<le> 16"
  shows "\<exists>l. add_dma_entry h len d = Some (d\<lparr>dma_list := l, n_ops := n_ops d + 1\<rparr>) \<and> length l = length (dma_list d) \<and>
     unat (n_ops d + 1) = unat (n_ops d) + 1 \<and>
     map piece (take (unat (n_ops d) + 1) l) = map piece (take (unat (n_ops d)) (dma_list d)) @ [(unat h, unat len)]"
proof -
  let ?l = "(dma_list d)[unat (n_ops d) := (dma_list d ! unat (n_ops d))\<lparr>host_p_addr := h, op_len := len\<rparr>]"
  have "unat (n_ops d + 1) = unat (n_ops d) + 1" using assms by (simp add: unat_word_ariths)
  moreover have "map piece (take (unat (n_ops d) + 1) ?l) = map piece (take (unat (n_ops d)) (dma_list d)) @ [(unat h, unat len)]"
    using assms(1) by (simp add: take_Suc_conv_app_nth piece_def)
  ultimately show ?thesis using assms(1) by (intro exI [of _ ?l]) (simp add: add_dma_entry_def Let_def)
qed

text \<open>What the loop needs to finish: good entries, room in the list, and no second list.\<close>

lemma prp_loop_ok:
  fixes s :: "'a nvme_st_scheme"
  defines "pg \<equiv> unat (hostMemPageSize s)"
  assumes "0 < pg" "\<forall>k. i \<le> k \<and> k < i + npages pg (unat len) \<longrightarrow> \<not> bad_prp (hostMemPageSize s) (prp_entry s k)"
    and "unat (n_ops d) + npages pg (unat len) \<le> length (dma_list d)" "length (dma_list d) \<le> 16"
    and "i + npages pg (unat len) < unat (maxPrpEntries s)"
  shows "\<exists>l n. prp_loop i len d s = Some (0, d\<lparr>dma_list := l, n_ops := n\<rparr>, s) \<and> length l = length (dma_list d) \<and>
     unat n = unat (n_ops d) + npages pg (unat len) \<and>
     map piece (take (unat n) l) = map piece (take (unat (n_ops d)) (dma_list d)) @ spread pg (\<lambda>k. unat (prp_entry s k)) i (unat len)"
  using assms(3-6)
proof (induction "unat len" arbitrary: i len d rule: less_induct)
  case less
  show ?case
  proof (cases "len = 0")
    case True
    with assms(2) show ?thesis
      by (intro exI [of _ "dma_list d"] exI [of _ "n_ops d"]) (subst prp_loop.simps, simp add: spread.simps)
  next
    case False
    then have pos: "0 < unat len" by (simp add: unat_gt_0)
    let ?n = "min len (hostMemPageSize s)"
    have n: "unat ?n = min pg (unat len)" by (simp add: min_unat pg_def min.commute)
    have sub: "unat (len - ?n) = unat len - min pg (unat len)" using unat_sub [of ?n len] n by simp
    note np = npages_rec [OF assms(2) pos]
    from less.prems(2) np have "unat (n_ops d) < length (dma_list d)" by simp
    from add_dma_entry_ok [OF this less.prems(3), of "prp_entry s i" ?n] obtain l1 where
      l1: "add_dma_entry (prp_entry s i) ?n d = Some (d\<lparr>dma_list := l1, n_ops := n_ops d + 1\<rparr>)" "length l1 = length (dma_list d)"
        "unat (n_ops d + 1) = unat (n_ops d) + 1"
        "map piece (take (unat (n_ops d) + 1) l1) = map piece (take (unat (n_ops d)) (dma_list d)) @ [(unat (prp_entry s i), unat ?n)]" by blast
    let ?d1 = "d\<lparr>dma_list := l1, n_ops := n_ops d + 1\<rparr>"
    have "unat (len - ?n) < unat len" using pos assms(2) by (simp add: sub)
    from less.hyps [OF this, of "i + 1" ?d1] less.prems np l1 obtain l n where
      ih: "prp_loop (i + 1) (len - ?n) ?d1 s = Some (0, ?d1\<lparr>dma_list := l, n_ops := n\<rparr>, s)" "length l = length l1"
        "unat n = unat (n_ops d) + 1 + npages pg (unat (len - ?n))"
        "map piece (take (unat n) l) = map piece (take (unat (n_ops d) + 1) l1) @ spread pg (\<lambda>k. unat (prp_entry s k)) (i + 1) (unat (len - ?n))"
      by (auto simp: sub)
    have nx: "prp_next i len s = Some (Some (i, prp_entry s i, s))"
    proof -
      have "i < 2 ^ 32" using less.prems(4) unsigned_less [of "maxPrpEntries s", where ?'a = nat] by simp
      then have "unat (of_nat i :: u32) = i" by (simp add: unat_of_nat)
      moreover have "maxPrpEntries s \<noteq> 0" using less.prems(4) by auto
      then have "unat (maxPrpEntries s - 1) = unat (maxPrpEntries s) - 1" by (rule unat_minus_one)
      ultimately have "of_nat i \<noteq> maxPrpEntries s - 1" using less.prems(4) np by auto
      then show ?thesis by (simp add: prp_next_def Let_def)
    qed
    have good: "\<not> bad_prp (hostMemPageSize s) (prp_entry s i)" using less.prems(1) np by simp
    have sp: "spread pg (\<lambda>k. unat (prp_entry s k)) i (unat len)
        = (unat (prp_entry s i), min pg (unat len)) # spread pg (\<lambda>k. unat (prp_entry s k)) (i + 1) (unat (len - ?n))"
      using pos assms(2) by (subst spread.simps) (simp add: sub)
    have "prp_loop i len d s = Some (0, d\<lparr>dma_list := l, n_ops := n\<rparr>, s)"
      using False nx good l1(1) ih(1) by (subst prp_loop.simps) simp
    then show ?thesis using l1 ih n np sp by (intro exI [of _ l] exI [of _ n]) (simp add: sub)
  qed
qed

section \<open>Fetching a PRP list\<close>

definition prp_dma_ok :: "dma_t \<Rightarrow> bool" where
  "prp_dma_ok d \<longleftrightarrow> c_op_len d = 0 \<and> c_op_smem_pg d = 0 \<and> 0 < length (dma_list d) \<and> ops_fit (dma_list d)"

text \<open>The driver between commands; the host page size is between 4 KB and the 64 KB the controller announces.\<close>

definition drv_ok :: "'a nvme_st_scheme \<Rightarrow> bool" where
  "drv_ok s \<longleftrightarrow> dma_q_ok (queues s) \<and> link_ok (host s) \<and> pools_len s \<and> prp_dma_ok (prp_dma s) \<and>
     (\<exists>b. 12 \<le> b \<and> b \<le> 16 \<and> hostPageBits s = of_nat b \<and> hostMemPageSize s = 2 ^ b \<and> maxPrpEntries s = 2 ^ (b - 3)) \<and>
     prp_list s + PrpListSize < 2 ^ 32"

lemma load64_put:
  assumes "c + 8 \<le> n"
  shows "load64 (put_bytes n a (\<lambda>j. hm (b + j)) m) (a + c) = load64 hm (b + c)"
proof -
  have "load32 (put_bytes n a (\<lambda>j. hm (b + j)) m) (a + e) = load32 hm (b + e)" if "e + 4 \<le> n" for e
    using that by (simp add: load32_def put_bytes_def add.assoc)
  from this [of c] this [of "c + 4"] assms show ?thesis by (simp add: load64_def add.assoc)
qed

lemma ops_fit_upd: "ops_fit l \<Longrightarrow> unat (op_len e) \<le> INTERFACE_DMA_PAGE_SIZE \<Longrightarrow> ops_fit (l[i := e])"
  by (auto simp: ops_fit_def dest!: in_set_updD)

lemma get_prp_page_ok:
  fixes s :: "'a nvme_st_scheme"
  assumes "drv_ok s" "0 < unat len" "unat len \<le> PrpListSize"
  shows "\<exists>qs h' d. get_prp_page ha (prp_list s) len s = Some (s\<lparr>ram := put_bytes (unat len) (prp_list s)
        (\<lambda>j. host_mem (host s) (unat ha + j)) (ram s), host := h', queues := qs, prp_dma := d\<rparr>) \<and>
      qs_step (queues s) qs \<and> link_frame (host s) h' \<and> host_mem h' = host_mem (host s) \<and> host_irqs h' = host_irqs (host s) \<and> prp_dma_ok d"
proof -
  let ?l = "(dma_list (prp_dma s))[0 := (dma_list (prp_dma s) ! 0)\<lparr>host_p_addr := ha, op_len := len\<rparr>]"
  let ?d = "(prp_dma s)\<lparr>n_ops := 1, data_size := len, buffer_addr := prp_list s, dma_list := ?l\<rparr>"
  let ?s = "s\<lparr>prp_dma := ?d\<rparr>"
  have p: "prp_dma_ok (prp_dma s)" "dma_q_ok (queues s)" "link_ok (host s)" "pools_len s" "prp_list s + PrpListSize < 2 ^ 32"
    using assms(1) by (simp_all add: drv_ok_def)
  have fit: "ops_fit ?l" using p(1) assms(3) by (intro ops_fit_upd) (simp_all add: prp_dma_ok_def PrpListSize_def INTERFACE_DMA_PAGE_SIZE_def)
  have fits: "dma_fits ?d" using p assms(3) fit
    by (simp add: dma_fits_def prp_dma_ok_def dma_len_def Suc_le_eq)
  obtain x xs where l: "dma_list (prp_dma s) = x # xs" using p(1) by (cases "dma_list (prp_dma s)") (auto simp: prp_dma_ok_def)
  have ps: "dma_pieces ?d = [(unat ha, unat len)]"
    using p(1) l assms(2) by (simp add: dma_pieces_def prp_dma_ok_def dma_len_def)
  from sync_host_dma_read [of ?s PRP_DMA ?d] p fits obtain qs h' where
    r: "sync_host_dma PRP_DMA PCI_DMA_READ ?s = Some (upd_dma PRP_DMA end_dma (?s\<lparr>ram :=
        put_bytes (unat len) (prp_list s) (\<lambda>j. host_mem (host s) (scatter [(unat ha, unat len)] j)) (ram s), host := h', queues := qs\<rparr>))"
      "qs_step (queues s) qs" "link_frame (host s) h'" "host_mem h' = host_mem (host s)" "host_irqs h' = host_irqs (host s)"
    by (auto simp: get_dma_def pools_len_def ps)
  have e: "put_bytes (unat len) (prp_list s) (\<lambda>j. host_mem (host s) (scatter [(unat ha, unat len)] j)) (ram s)
      = put_bytes (unat len) (prp_list s) (\<lambda>j. host_mem (host s) (unat ha + j)) (ram s)"
    by (rule ext) (auto simp: put_bytes_def)
  have "prp_dma_ok (end_dma ?d)" using p(1) fit by (simp add: prp_dma_ok_def)
  with r(2-5) r(1) [unfolded e] show ?thesis
    by (intro exI [of _ qs] exI [of _ h'] exI [of _ "end_dma ?d"]) (simp add: get_prp_page_def upd_dma_def)
qed

section \<open>Sizes\<close>

lemma npages_le_iff: "0 < pg \<Longrightarrow> npages pg r \<le> k \<longleftrightarrow> r \<le> k * pg"
proof -
  assume pg: "0 < pg"
  have "npages pg r < Suc k \<longleftrightarrow> r + pg - 1 < Suc k * pg" using pg by (simp add: npages_def div_less_iff_less_mult)
  also have "\<dots> \<longleftrightarrow> r \<le> k * pg" using pg by (auto simp: algebra_simps)
  finally show ?thesis by (simp add: less_Suc_eq_le)
qed

lemma page_size_nat:
  assumes "b \<le> 16" shows "unat (2 ^ b :: u32) = 2 ^ b"
proof -
  have "2 ^ b < (2 ^ 32 :: nat)" using assms by (intro power_strict_increasing) auto
  moreover have "(2 ^ b :: u32) = of_nat (2 ^ b)" by simp
  ultimately show ?thesis by (simp only: unat_of_nat) simp
qed

lemma prp_first_unat:
  assumes "b \<le> 16" "pg = (2 ^ b :: u32)"
  shows "unat (min len (pg - ucast ((p1 :: u64) mod ucast pg))) = prp_first (2 ^ b) (unat p1) (unat len)"
proof -
  have pn: "unat pg = 2 ^ b" using assms page_size_nat by simp
  have "2 ^ b \<le> (2 ^ 16 :: nat)" using assms(1) by (rule power_increasing) simp
  have c: "unat (ucast pg :: u64) = 2 ^ b" using pn using \<open>2 ^ b \<le> 2 ^ 16\<close> by (simp add: unsigned_ucast_eq take_bit_eq_mod)
  then have m: "unat (p1 mod ucast pg) = unat p1 mod 2 ^ b" by (simp add: unat_mod)
  have lt: "unat p1 mod 2 ^ b < 2 ^ b" by simp
  have u: "unat (ucast (p1 mod ucast pg) :: u32) = unat p1 mod 2 ^ b"
  proof -
    have "unat p1 mod 2 ^ b < 2 ^ 32" using less_le_trans [OF lt \<open>2 ^ b \<le> 2 ^ 16\<close>] by simp
    then show ?thesis using m by (simp add: unsigned_ucast_eq take_bit_eq_mod)
  qed
  have "unat (pg - ucast (p1 mod ucast pg)) = 2 ^ b - unat p1 mod 2 ^ b"
    using u pn lt by (subst unat_sub) (simp_all add: word_le_nat_alt)
  then show ?thesis by (simp add: min_unat prp_first_def)
qed

lemma prp_list_bytes_ok:
  assumes "12 \<le> b" "b \<le> 16" "hostPageBits s = of_nat b" "hostMemPageSize s = 2 ^ b" "maxPrpEntries s = 2 ^ (b - 3)"
    and "npages (2 ^ b) (unat len) \<le> 16"
  shows "unat (prp_list_bytes s len) = npages (2 ^ b) (unat len) * 8"
proof -
  have b16: "2 ^ b \<le> (2 ^ 16 :: nat)" using assms(2) by (rule power_increasing) simp
  have b1: "(1 :: nat) \<le> 2 ^ b" by simp
  have len: "unat len \<le> 16 * 2 ^ b" using assms(6) npages_le_iff [of "2 ^ b" "unat len" 16] by simp
  have pg: "unat (2 ^ b :: u32) = 2 ^ b" using assms(2) by (rule page_size_nat)
  have add: "unat (len + 2 ^ b) = unat len + 2 ^ b" using len b16 pg by (simp add: unat_word_ariths)
  moreover have "len + 2 ^ b \<noteq> 0" using add b1 by (metis add_is_0 not_one_le_zero unat_0)
  ultimately have sub: "unat (len + 2 ^ b - 1) = unat len + 2 ^ b - 1" by (simp add: unat_minus_one)
  have bb: "unat (of_nat b :: u32) = b" using assms(2) by (simp add: unat_of_nat)
  have drop: "unat (drop_bit b (len + 2 ^ b - 1)) = npages (2 ^ b) (unat len)"
    using sub pg by (simp add: drop_bit_eq_div unat_div npages_def)
  have "(2 :: nat) ^ 9 \<le> 2 ^ (b - 3)" using assms(1) by (intro power_increasing) auto
  moreover have "unat (2 ^ (b - 3) :: u32) = 2 ^ (b - 3)" using assms(2) by (intro page_size_nat) simp
  ultimately have "min (maxPrpEntries s) (drop_bit b (len + 2 ^ b - 1)) = drop_bit b (len + 2 ^ b - 1)"
    using assms(5,6) drop by (simp add: min_absorb2 word_le_nat_alt)
  with assms(3,4,6) drop bb show ?thesis by (simp add: prp_list_bytes_def unat_word_ariths)
qed

section \<open>Decoding a command\<close>

text \<open>PRP fields the standard allows for a transfer of \<open>n\<close> bytes that fits the list of a DMA object.\<close>

definition prp_valid :: "u32 \<Rightarrow> u64 \<Rightarrow> u64 \<Rightarrow> mem \<Rightarrow> nat \<Rightarrow> bool" where
  "prp_valid pgsz p1 p2 hm n \<longleftrightarrow>
     (let pg = unat pgsz; rest = n - prp_first pg (unat p1) n in
      p1 \<noteq> 0 \<and> (0 < rest \<longrightarrow> p2 \<noteq> 0) \<and> (rest \<le> pg \<longrightarrow> rest = 0 \<or> p2 AND ucast (pgsz - 1) = 0) \<and>
      (pg < rest \<longrightarrow> (\<forall>k < npages pg rest. \<not> bad_prp pgsz (load64 hm (unat p2 + 8 * k)))) \<and>
      1 + npages pg rest \<le> MDTS_PAGES)"

lemma npages_one: "0 < r \<Longrightarrow> r \<le> pg \<Longrightarrow> npages pg r = 1"
  using npages_rec [of pg r] by simp

lemma spread_one: "0 < r \<Longrightarrow> r \<le> pg \<Longrightarrow> spread pg ent k r = [(ent k, r)]"
  by (subst spread.simps) (simp add: spread.simps)

text \<open>The effect of the driver on its own state: scratch memory, the DMA queue and the PRP object.\<close>

definition drv_frame :: "'a nvme_st_scheme \<Rightarrow> mem \<Rightarrow> host_if \<Rightarrow> obj_queue_t list \<Rightarrow> dma_t \<Rightarrow> bool" where
  "drv_frame s m h qs d \<longleftrightarrow> (\<forall>x. x < prp_list s \<or> prp_list s + PrpListSize \<le> x \<longrightarrow> m x = ram s x) \<and> qs_step (queues s) qs \<and>
     link_frame (host s) h \<and> host_mem h = host_mem (host s) \<and> host_irqs h = host_irqs (host s) \<and> prp_dma_ok d"

lemma decode_prp_val_ok:
  fixes s :: "'a nvme_st_scheme"
  assumes "drv_ok s" "length (dma_list d) = MDTS_PAGES"
    and "prp_valid (hostMemPageSize s) p1 p2 (host_mem (host s)) (unat (data_size d))"
  shows "\<exists>l k m h qs x. decode_prp_val p1 p2 d s = Some (0, d\<lparr>dma_list := l, n_ops := k\<rparr>, s\<lparr>ram := m, host := h, queues := qs, prp_dma := x\<rparr>) \<and>
      drv_frame s m h qs x \<and> length l = MDTS_PAGES \<and> unat k \<le> MDTS_PAGES \<and>
      map piece (take (unat k) l) = prp_pieces (unat (hostMemPageSize s)) p1 p2 (host_mem (host s)) (unat (data_size d))"
proof -
  obtain b where b: "12 \<le> b" "b \<le> 16" "hostPageBits s = of_nat b" "hostMemPageSize s = 2 ^ b" "maxPrpEntries s = 2 ^ (b - 3)"
    using assms(1) by (auto simp: drv_ok_def)
  let ?pg = "2 ^ b :: nat" and ?len = "data_size d"
  have pg: "unat (2 ^ b :: u32) = ?pg" using b(2) by (rule page_size_nat)
  have pge: "unat (hostMemPageSize s) = ?pg" using pg b(4) by simp
  have pgs: "hostMemPageSize s \<noteq> 0" using pg b(4) by (metis power_eq_0_iff unat_0 zero_neq_numeral)
  let ?f = "min ?len (hostMemPageSize s - ucast (p1 mod ucast (hostMemPageSize s)))"
  have first: "unat ?f = prp_first ?pg (unat p1) (unat ?len)" using b(2,4) by (rule prp_first_unat)
  let ?r = "?len - ?f"
  have rest: "unat ?r = unat ?len - prp_first ?pg (unat p1) (unat ?len)"
    using unat_sub [of ?f ?len] first by simp
  let ?hm = "host_mem (host s)"
  have v: "0 < unat ?r \<longrightarrow> p2 \<noteq> 0" "unat ?r \<le> ?pg \<longrightarrow> unat ?r = 0 \<or> p2 AND ucast (hostMemPageSize s - 1) = 0"
    "?pg < unat ?r \<longrightarrow> (\<forall>k < npages ?pg (unat ?r). \<not> bad_prp (hostMemPageSize s) (load64 ?hm (unat p2 + 8 * k)))"
    "1 + npages ?pg (unat ?r) \<le> MDTS_PAGES"
    using assms(3) [unfolded prp_valid_def Let_def pge rest [symmetric]] by blast+
  have refl_frame: "drv_frame s (ram s) (host s) (queues s) (prp_dma s)"
    using assms(1) by (simp add: drv_frame_def drv_ok_def qs_step_def link_frame_def)
  have same: "s\<lparr>ram := ram s, host := host s, queues := queues s, prp_dma := prp_dma s\<rparr> = s" by simp
  from add_dma_entry_ok [of "d\<lparr>n_ops := 0\<rparr>" p1 ?f] assms(2) obtain l1 where
    l1: "add_dma_entry p1 ?f (d\<lparr>n_ops := 0\<rparr>) = Some (d\<lparr>dma_list := l1, n_ops := 1\<rparr>)" "length l1 = MDTS_PAGES"
      "map piece (take 1 l1) = [(unat p1, unat ?f)]"
    by (auto simp: MDTS_PAGES_def)
  let ?d1 = "d\<lparr>dma_list := l1, n_ops := 1\<rparr>"
  consider "unat ?r = 0" | "0 < unat ?r" "unat ?r \<le> ?pg" | "?pg < unat ?r" by linarith
  then show ?thesis
  proof cases
    case 1
    then have "?r = 0" by (simp add: unat_eq_0)
    then have "decode_prp_val p1 p2 d s = Some (0, d\<lparr>dma_list := l1, n_ops := 1\<rparr>, s)"
      using l1(1) pgs by (simp add: decode_prp_val_def Let_def)
    moreover have "prp_pieces ?pg p1 p2 ?hm (unat ?len) = [(unat p1, unat ?f)]"
      using 1 rest first by (simp add: prp_pieces_def Let_def spread.simps)
    ultimately show ?thesis using l1(2,3) refl_frame same b(4) pg
      by (intro exI [of _ l1] exI [of _ "1 :: u32"] exI [of _ "ram s"] exI [of _ "host s"] exI [of _ "queues s"] exI [of _ "prp_dma s"])
        (simp add: MDTS_PAGES_def)
  next
    case 2
    then have r: "?r \<noteq> 0" "\<not> hostMemPageSize s < ?r" "p2 \<noteq> 0" "p2 AND ucast (hostMemPageSize s - 1) = 0"
      using v(1,2) b(4) pg by (auto simp: word_less_nat_alt)
    from add_dma_entry_ok [of ?d1 p2 ?r] l1(2) obtain l2 where
      l2: "add_dma_entry p2 ?r ?d1 = Some (d\<lparr>dma_list := l2, n_ops := 2\<rparr>)" "length l2 = MDTS_PAGES"
        "map piece (take 2 l2) = map piece (take 1 l1) @ [(unat p2, unat ?r)]"
      by (auto simp: MDTS_PAGES_def numeral_2_eq_2)
    have "decode_prp_val p1 p2 d s = Some (0, d\<lparr>dma_list := l2, n_ops := 2\<rparr>, s)"
      using l1(1) l2(1) r pgs by (simp add: decode_prp_val_def Let_def)
    moreover have "prp_pieces ?pg p1 p2 ?hm (unat ?len) = [(unat p1, unat ?f), (unat p2, unat ?r)]"
      using 2 rest first by (simp add: prp_pieces_def Let_def spread_one)
    ultimately show ?thesis using l1(3) l2(2,3) refl_frame same b(4) pg
      by (intro exI [of _ l2] exI [of _ "2 :: u32"] exI [of _ "ram s"] exI [of _ "host s"] exI [of _ "queues s"] exI [of _ "prp_dma s"])
        (simp add: MDTS_PAGES_def)
  next
    case 3
    then have "0 < unat ?r" by simp
    with 3 have r: "?r \<noteq> 0" "hostMemPageSize s < ?r" "p2 \<noteq> 0" using v(1) b(4) pg by (auto simp: word_less_nat_alt)
    have np: "npages ?pg (unat ?r) \<le> 15" "0 < npages ?pg (unat ?r)"
      using v(4) npages_rec [of ?pg "unat ?r"] 3 by (simp_all add: MDTS_PAGES_def)
    have lb: "unat (prp_list_bytes s ?r) = npages ?pg (unat ?r) * 8" using b np(1) by (intro prp_list_bytes_ok) auto
    from get_prp_page_ok [OF assms(1), of "prp_list_bytes s ?r" p2] lb np obtain qs h x where
      g: "get_prp_page p2 (prp_list s) (prp_list_bytes s ?r) s = Some (s\<lparr>ram := put_bytes (npages ?pg (unat ?r) * 8) (prp_list s)
            (\<lambda>j. ?hm (unat p2 + j)) (ram s), host := h, queues := qs, prp_dma := x\<rparr>)"
        "qs_step (queues s) qs" "link_frame (host s) h" "host_mem h = ?hm" "host_irqs h = host_irqs (host s)" "prp_dma_ok x"
      by (auto simp: PrpListSize_def)
    let ?m = "put_bytes (npages ?pg (unat ?r) * 8) (prp_list s) (\<lambda>j. ?hm (unat p2 + j)) (ram s)"
    let ?s1 = "s\<lparr>ram := ?m, host := h, queues := qs, prp_dma := x\<rparr>"
    have ent: "prp_entry ?s1 k = load64 ?hm (unat p2 + 8 * k)" if "k < npages ?pg (unat ?r)" for k
      using that by (simp add: prp_entry_def load64_put)
    have mx: "unat (maxPrpEntries s) \<ge> 512"
    proof -
      have "(2 :: nat) ^ 9 \<le> 2 ^ (b - 3)" using b(1) by (intro power_increasing) auto
      with b(2,5) show ?thesis by (simp add: page_size_nat)
    qed
    from prp_loop_ok [of ?s1 0 ?r ?d1] v(3) 3 ent b(4) pg np l1(2) mx obtain l k where
      lp: "prp_loop 0 ?r ?d1 ?s1 = Some (0, ?d1\<lparr>dma_list := l, n_ops := k\<rparr>, ?s1)" "length l = MDTS_PAGES"
        "unat k = 1 + npages ?pg (unat ?r)"
        "map piece (take (unat k) l) = map piece (take 1 l1) @ spread ?pg (\<lambda>k. unat (prp_entry ?s1 k)) 0 (unat ?r)"
      by (auto simp: MDTS_PAGES_def)
    have sp: "spread ?pg (\<lambda>k. unat (prp_entry ?s1 k)) 0 (unat ?r) = spread ?pg (\<lambda>k. unat (load64 ?hm (unat p2 + 8 * k))) 0 (unat ?r)"
      by (rule spread_cong) (use ent in auto)
    have "decode_prp_val p1 p2 d s = Some (0, d\<lparr>dma_list := l, n_ops := k\<rparr>, ?s1)"
      using l1(1) lp(1) g(1) r pgs by (simp add: decode_prp_val_def Let_def)
    moreover have "prp_pieces ?pg p1 p2 ?hm (unat ?len) = (unat p1, unat ?f) # spread ?pg (\<lambda>k. unat (load64 ?hm (unat p2 + 8 * k))) 0 (unat ?r)"
      using 3 rest first by (simp add: prp_pieces_def Let_def)
    moreover have "drv_frame s ?m h qs x" using g np(1) by (auto simp: drv_frame_def put_bytes_def PrpListSize_def)
    ultimately show ?thesis using l1(3) lp(2-4) sp v(4) b(4) pg
      by (intro exI [of _ l] exI [of _ k] exI [of _ ?m] exI [of _ h] exI [of _ qs] exI [of _ x]) simp
  qed
qed

lemma decode_prp_ok:
  fixes s :: "'a nvme_st_scheme"
  assumes "drv_ok s" "get_dma (DMA_OF q) s = Some d" "length (dma_list d) = MDTS_PAGES"
    and "prp_valid (hostMemPageSize s) p1 p2 (host_mem (host s)) (unat (data_size d))"
  shows "\<exists>l k m h qs x. decode_prp p1 p2 (DMA_OF q) s =
        Some (0, upd_dma (DMA_OF q) (\<lambda>_. d\<lparr>dma_list := l, n_ops := k\<rparr>) (s\<lparr>ram := m, host := h, queues := qs, prp_dma := x\<rparr>)) \<and>
      drv_frame s m h qs x \<and> length l = MDTS_PAGES \<and> unat k \<le> MDTS_PAGES \<and>
      map piece (take (unat k) l) = prp_pieces (unat (hostMemPageSize s)) p1 p2 (host_mem (host s)) (unat (data_size d))"
proof -
  from decode_prp_val_ok [OF assms(1,3,4)] obtain l k m h qs x where
    r: "decode_prp_val p1 p2 d s = Some (0, d\<lparr>dma_list := l, n_ops := k\<rparr>, s\<lparr>ram := m, host := h, queues := qs, prp_dma := x\<rparr>)"
      "drv_frame s m h qs x" "length l = MDTS_PAGES" "unat k \<le> MDTS_PAGES"
      "map piece (take (unat k) l) = prp_pieces (unat (hostMemPageSize s)) p1 p2 (host_mem (host s)) (unat (data_size d))" by blast
  have "p1 \<noteq> 0" using assms(4) by (simp add: prp_valid_def Let_def)
  with r assms(2) show ?thesis
    by (intro exI [of _ l] exI [of _ k] exI [of _ m] exI [of _ h] exI [of _ qs] exI [of _ x]) (simp add: decode_prp_def)
qed

lemma get_req_prp [simp]: "get_req p (t\<lparr>prp_dma := d\<rparr>) = get_req p t"
  by (simp add: get_req_def split: obj_ptr.split)

lemma drv_ok_step:
  assumes "drv_ok s" "drv_frame s m h qs x"
  shows "drv_ok (s\<lparr>ram := m, host := h, queues := qs, prp_dma := x\<rparr>)"
  using assms by (auto simp: drv_ok_def drv_frame_def qs_step_def link_frame_def pools_len_def)

lemma drv_ok_upd_req:
  fixes s :: "'a nvme_st_scheme"
  shows "drv_ok (upd_req p f s) = drv_ok s"
proof -
  have "hostPageBits (upd_req p f s) = hostPageBits s" "hostMemPageSize (upd_req p f s) = hostMemPageSize s"
    "maxPrpEntries (upd_req p f s) = maxPrpEntries s" "prp_list (upd_req p f s) = prp_list s"
    by (simp_all add: upd_req_def split: obj_ptr.split)
  then show ?thesis by (simp add: drv_ok_def)
qed

section \<open>An initialised driver\<close>

text \<open>A driver with an initialised controller: 4 KB host pages, empty queues.\<close>

definition zero_sq :: NvmeSQueue where
  "zero_sq = \<lparr>sq_sqid = 0, sq_cqid = 0, sq_head = 0, sq_tail = 0, sq_tailBDReg = 0, sq_size = 0, sq_hostAddr = 0\<rparr>"

definition zero_cq :: NvmeCQueue where
  "zero_cq = \<lparr>cq_phase = 0, cq_irq_enabled = 0, cq_cqid = 0, cq_head = 0, cq_headBDReg = 0, cq_tail = 0, cq_vector = 0, cq_size = 0,
     cq_hostAddr = 0, pend_tail = 0, pend_head = 0, pend_size = 0, pend_objs = replicate INTERNAL_IO_REQ_QUEUE NULL\<rparr>"

definition zero_buf_q :: buf_q_t where
  "zero_buf_q = \<lparr>bq_tail = 0, bq_head = 0, bq_empty = True, bq_objs = replicate MAX_IO_SQCQ_ENTRIES NULL\<rparr>"

definition nvme_image :: "mem \<Rightarrow> nvme_st" where
  "nvme_image m = host_st.extend (host_st_image m) (nvme_st.fields (replicate 5 zero_cq) (replicate 5 zero_sq) 0 4096 12 512 0 0
     0x9c000000 0x9c001000 0x9c002000 0x9c002400 0x9c004400 0x9c006400 0 0 0 zero_buf_q zero_buf_q)"

lemma nvme_image_sel [simp]:
  "queues (nvme_image m) = replicate 16 zero_obj_queue" "host (nvme_image m) = host_image m" "prp_dma (nvme_image m) = zero_dma"
  "r_req (nvme_image m) = replicate R_SIZE zero_req" "w_req (nvme_image m) = replicate W_SIZE zero_req"
  "other_req_alloc (nvme_image m) = replicate O_SIZE zero_req" "hostMemPageSize (nvme_image m) = 4096"
  "hostPageBits (nvme_image m) = 12" "maxPrpEntries (nvme_image m) = 512" "prp_list (nvme_image m) = 0x9c002400"
  "cqs (nvme_image m) = replicate 5 zero_cq" "sqs (nvme_image m) = replicate 5 zero_sq" "ccmd_buf (nvme_image m) = 0x9c006400"
  "scmd_buf (nvme_image m) = 0x9c004400"
  by (simp_all add: nvme_image_def host_st_image_def buf_image_def init_op_obj_def Let_def ftl_image_def nand_image_def req_image_def kernel_image_def
      kernel_st.defs req_st.defs nand_st.defs ftl_st.defs buf_st.defs host_st.defs nvme_st.defs)

lemma nvme_image_ok: "drv_ok (nvme_image m)"
proof -
  have "12 \<le> (12 :: nat) \<and> 12 \<le> (16 :: nat) \<and> hostPageBits (nvme_image m) = of_nat 12 \<and> hostMemPageSize (nvme_image m) = 2 ^ 12 \<and>
      maxPrpEntries (nvme_image m) = 2 ^ (12 - 3)" by simp
  then show ?thesis
    unfolding drv_ok_def using host_st_image_ready [of m]
    by (auto simp: dma_q_ok_def pools_len_def prp_dma_ok_def zero_dma_def ops_fit_def zero_dma_op_def INTERFACE_DMA_PAGE_SIZE_def
        MDTS_PAGES_def PrpListSize_def link_ok_image)
qed

end
