(* ===== verification/Uneq_Claims.thy ===== *)
theory Uneq_Claims
  imports Ftl_Extract Nvme_Prp
begin

text \<open>
  What the translation layer for flash pages larger than host pages does, as properties: writes of the
  module and of the write-back cache merge, reads deliver, and the two cases in which the host gets
  bytes that are not on the device.
\<close>

section \<open>Device addresses of a request\<close>

text \<open>Decoding the PRP fields never sets the device address of an entry of the scatter list.\<close>

lemma add_dma_entry_addrs: "add_dma_entry h len d = Some d' \<Longrightarrow> map ssd_addr (dma_list d') = map ssd_addr (dma_list d)"
  by (auto simp: add_dma_entry_def Let_def map_update list_eq_iff_nth_eq nth_list_update split: if_splits)

lemma prp_loop_addrs: "prp_loop i len d s = Some y \<Longrightarrow> map ssd_addr (dma_list (fst (snd y))) = map ssd_addr (dma_list d)"
proof (induction i len d s y rule: prp_loop.raw_induct [rotated, consumes 1, case_names 1])
  case (1 lp i len d s y)
  from 1(2) show ?case
    by (auto split: if_splits option.splits prod.splits elim!: bind_SomeE dest!: 1(1) add_dma_entry_addrs)
qed

lemma decode_addrs: "decode_prp_val p1 p2 d s = Some (r, d', s') \<Longrightarrow> map ssd_addr (dma_list d') = map ssd_addr (dma_list d)"
  unfolding decode_prp_val_def Let_def
  by (auto split: if_splits elim!: bind_SomeE dest!: add_dma_entry_addrs prp_loop_addrs)

text \<open>The loop over the pages of a read sets it for the pages in unmapped flash pages only.\<close>

lemma io_upd_addr: "i < length (dma_list (dma r)) \<Longrightarrow> ssd_addr (dma_list (dma (io_upd g tbl z i l r)) ! i) =
    (if tbl (unat (nand_page_of g l)) = None then z else ssd_addr (dma_list (dma r) ! i))"
  by (simp add: io_upd_def Let_def set_meta_done_def point_to_zero_def)

lemma io_upd_list: "length (dma_list (dma (io_upd g tbl z i l r))) = length (dma_list (dma r))"
  by (simp add: io_upd_def Let_def set_meta_done_def point_to_zero_def)

lemma io_upds_addr_other: "j < i \<Longrightarrow> ssd_addr (dma_list (dma (io_upds g tbl z i l n r)) ! j) = ssd_addr (dma_list (dma r) ! j)"
  by (induction n arbitrary: i l r) (simp_all add: io_upd_keeps(3))

lemma io_upds_addr:
  "j < n \<Longrightarrow> i + n \<le> length (dma_list (dma r)) \<Longrightarrow> ssd_addr (dma_list (dma (io_upds g tbl z i l n r)) ! (i + j)) =
    (if tbl (unat (nand_page_of g (l + of_nat j))) = None then z else ssd_addr (dma_list (dma r) ! (i + j)))"
proof (induction n arbitrary: i l r j)
  case (Suc n)
  show ?case
  proof (cases j)
    case 0
    with Suc.prems(2) show ?thesis by (simp add: io_upds_addr_other io_upd_addr)
  next
    case (Suc j')
    with Suc.IH [of j' "i + 1" "io_upd g tbl z i l r" "l + 1"] Suc.prems show ?thesis
      by (simp add: io_upd_list io_upd_keeps(3) add.assoc)
  qed
qed simp

text \<open>If all device addresses are null, what has arrived in the temporary buffers goes nowhere.\<close>

lemma nothing_copied:
  assumes g: "uneq_geo g" and es: "rentries_ok g (ftl_abs s) (temp_read_buffer s) ps es" "length es \<le> length (temp_read_buffer s)"
    and z: "\<forall>x \<in> set ps. snd x = 0" and y: "\<forall>t \<in> set (temp_read_buffer s). \<not> (t \<le> y \<and> y < t + NAND_PAGE_SIZE g)"
  shows "arrived g s ps es y = ram s y"
proof -
  have p0: "ptr_at g ps np j = 0" for np j
    using z by (auto simp: ptr_at_def split: option.splits dest!: last_addr_mem)
  have nd: "\<not> dest (es ! i) j" if "i < length es" "j < HOST_PER_NAND_PAGES g" for i j
    using es(1) that by (auto simp: rentries_ok_def rentry_ok_def dest_def p0)
  have "dests_apart g es" using nd by (auto simp: dests_apart_def in_set_conv_nth)
  moreover have "\<forall>i < length es. \<not> hits_dest g (es ! i) (HOST_PER_NAND_PAGES g) y" using nd by (auto simp: hits_dest_def)
  ultimately have "arrived g s ps es y = copy_in g (fetch_list (ftl_abs s) (temp_read_buffer s) (flash_pages g ps)) (nand_img s) (ram s) y"
    unfolding arrived_def by (intro copy_all_spec(1) [OF g _ order_refl])
  also have "\<dots> = ram s y"
  proof (rule copy_in_miss, clarify)
    fix d a assume q: "(d, a) \<in> set (fetch_list (ftl_abs s) (temp_read_buffer s) (flash_pages g ps))" "a \<le> y" "y < a + NAND_PAGE_SIZE g"
    then obtain i where "i < length (flash_pages g ps)" "a = temp_read_buffer s ! i" by (auto simp: fetch_list_def)
    with es have "a \<in> set (temp_read_buffer s)" by (simp add: rentries_ok_def)
    with y q(2,3) show False by blast
  qed
  finally show ?thesis .
qed

section \<open>Properties\<close>

text \<open>
  C17. A write of the module with flash pages larger than host pages: \<open>__sync_program_pages\<close> returns the
  number of flash pages touched; every host page of the run then reads as the buffer it was written from, and
  every other host page as before, unless it shares with the run a flash page that was never written.
\<close>

theorem unequal_write_merges:
  assumes "uneq_geo g" "write_ready g k s" "unat l + unat n \<le> TOTAL_NUM_OF_HOST_PAGES g"
    "k + touched g (unat l) (unat n) < TOTAL_NUM_OF_PAGES g" "touched g (unat l) (unat n) \<le> MDTS_PAGES"
    "run_ram_ok g (rmp_buffer s) (page_run g l a (unat n))"
  shows "\<exists>s'. sync_program_pages_uneq g l n a s = Some (of_nat (touched g (unat l) (unat n)), s') \<and>
    ftl_inv g (k + touched g (unat l) (unat n)) s' \<and>
    (\<forall>i < TOTAL_NUM_OF_HOST_PAGES g. \<forall>b < HOST_PAGE_SIZE g.
       \<not> shares_page g (unat l) (unat n) i \<or> unat l \<le> i \<and> i < unat l + unat n \<or> ftl_abs s (i div HOST_PER_NAND_PAGES g) \<noteq> None \<longrightarrow>
       host_view g s' i b = (if unat l \<le> i \<and> i < unat l + unat n then ram s (a + (i - unat l) * HOST_PAGE_SIZE g + b) else host_view g s i b))"
proof -
  from sync_program_uneq_spec [OF assms] obtain s' where
    s': "sync_program_pages_uneq g l n a s = Some (of_nat (touched g (unat l) (unat n)), s')"
      "ftl_inv g (k + touched g (unat l) (unat n)) s'" "run_written g s (page_run g l a (unat n)) s'" by blast
  note c = run_written_cases(1,2) [OF assms(1,3) s'(3)]
  show ?thesis using s'(1,2) c by (intro exI [of _ s'] conjI allI impI) auto
qed

text \<open>
  C36. A write of part of a flash page that was never written exposes memory of the firmware: the host pages of this
  flash page outside of the run, which read as zeros before, then read as what was left in one of
  the temporary buffers, because the buffer is neither cleared nor filled before the merge.
\<close>

theorem unequal_partial_write_leaks:
  assumes "uneq_geo g" "write_ready g k s" "unat l + unat n \<le> TOTAL_NUM_OF_HOST_PAGES g"
    "k + touched g (unat l) (unat n) < TOTAL_NUM_OF_PAGES g" "touched g (unat l) (unat n) \<le> MDTS_PAGES"
    "run_ram_ok g (rmp_buffer s) (page_run g l a (unat n))"
    "i < TOTAL_NUM_OF_HOST_PAGES g" "shares_page g (unat l) (unat n) i" "\<not> (unat l \<le> i \<and> i < unat l + unat n)"
    "ftl_abs s (i div HOST_PER_NAND_PAGES g) = None"
  shows "\<exists>s'. sync_program_pages_uneq g l n a s = Some (of_nat (touched g (unat l) (unat n)), s') \<and>
    (\<forall>b < HOST_PAGE_SIZE g. host_view g s i b = 0) \<and>
    (\<exists>t \<in> set (rmp_buffer s). \<forall>b < HOST_PAGE_SIZE g. host_view g s' i b = ram s (t + (i mod HOST_PER_NAND_PAGES g) * HOST_PAGE_SIZE g + b))"
proof -
  from sync_program_uneq_spec [OF assms(1-6)] obtain s' where
    s': "sync_program_pages_uneq g l n a s = Some (of_nat (touched g (unat l) (unat n)), s')" "run_written g s (page_run g l a (unat n)) s'" by blast
  have "length (flash_pages g (page_run g l a (unat n))) \<le> length (rmp_buffer s)"
    using assms(2,5) touched_pages(1) [OF assms(1,3), of a] by (simp add: write_ready_def)
  from run_written_cases(3) [OF assms(1,3) s'(2) assms(7,9,8,10) this] s'(1) show ?thesis
    by (intro exI [of _ s']) (simp add: host_view_def lview_def assms(10))
qed

text \<open>
  C18. A flush of the write-back cache with flash pages larger than host pages: if the valid pages of the cache are
  distinct host pages, the flush returns, each of them reads as its cached content, every other page as
  before (or as a left-over, as in the write of a part of an unwritten flash page), and the cache is
  marked complete and goes to the NVMe driver.
\<close>

theorem unequal_flush_writes_device:
  assumes "uneq_geo g" "write_ready g k s" "k + length (flash_pages g (wbc_run_uneq (wbc s))) < TOTAL_NUM_OF_PAGES g"
    "length (flash_pages g (wbc_run_uneq (wbc s))) \<le> MDTS_PAGES" "\<forall>(l, a) \<in> set (wbc_run_uneq (wbc s)). unat l < TOTAL_NUM_OF_HOST_PAGES g"
    "run_ram_ok g (rmp_buffer s) (wbc_run_uneq (wbc s))" "distinct (map fst (wbc_run_uneq (wbc s)))"
  shows "\<exists>s'. process_req_cbk_uneq g WBC WBC_FLUSH_REQUEST s = Some (sys_push_to_nvme WBC (wb_type (wbc s)) s') \<and> wb_nand_io_complete (wbc s') \<and>
    (\<forall>(l, a) \<in> set (wbc_run_uneq (wbc s)). \<forall>b < HOST_PAGE_SIZE g. host_view g s' (unat l) b = ram s (a + b)) \<and>
    (\<forall>i < TOTAL_NUM_OF_HOST_PAGES g. i \<notin> unat ` fst ` set (wbc_run_uneq (wbc s)) \<and> ftl_abs s (i div HOST_PER_NAND_PAGES g) \<noteq> None \<longrightarrow>
       (\<forall>b < HOST_PAGE_SIZE g. host_view g s' i b = host_view g s i b))"
proof -
  let ?ps = "wbc_run_uneq (wbc s)"
  from process_wbc_uneq_spec [OF assms] obtain s' where
    s': "process_wbc_uneq g s = Some (sys_push_to_nvme WBC (wb_type (wbc s)) s')" "wb_nand_io_complete (wbc s')" "run_written g s ?ps s'" by blast
  have "host_view g s' (unat l) b = ram s (a + b)" if "(l, a) \<in> set ?ps" "b < HOST_PAGE_SIZE g" for l a b
    using s'(3) that assms(5) last_addr_distinct [OF assms(7) that(1)] unfolding run_written_def by force
  moreover have "host_view g s' i b = host_view g s i b"
    if "i < TOTAL_NUM_OF_HOST_PAGES g" "i \<notin> unat ` fst ` set ?ps" "ftl_abs s (i div HOST_PER_NAND_PAGES g) \<noteq> None" "b < HOST_PAGE_SIZE g" for i b
    using s'(3) that last_addr_None [of ?ps i] unfolding run_written_def by (auto split: option.split)
  ultimately show ?thesis unfolding process_req_uneq using s'(1,2) by blast
qed

text \<open>
  C19. The module reads its own writes also with flash pages larger than host pages: after \<open>__sync_program_pages\<close>
  stored a run of host pages from RAM, merging it with flash pages on the device, \<open>__sync_read_pages\<close> brings
  exactly these bytes to any other place in RAM.
\<close>

theorem unequal_read_your_writes:
  assumes "uneq_geo g" "write_ready g k s" "unat l + unat n \<le> TOTAL_NUM_OF_HOST_PAGES g"
    "k + touched g (unat l) (unat n) < TOTAL_NUM_OF_PAGES g" "touched g (unat l) (unat n) \<le> MDTS_PAGES"
    "run_ram_ok g (rmp_buffer s) (page_run g l a (unat n))"
    "length (read_pages s) = MDTS_PAGES" "length (temp_read_buffer s) = MDTS_PAGES"
    "read_ram_ok g (temp_read_buffer s) (page_run g l d (unat n))"
  shows "\<exists>s1 s2. sync_program_pages_uneq g l n a s = Some (of_nat (touched g (unat l) (unat n)), s1) \<and>
    sync_read_pages_uneq g l n d s1 = Some (of_nat (touched g (unat l) (unat n)), s2) \<and>
    (\<forall>j < unat n. \<forall>b < HOST_PAGE_SIZE g. ram s2 (d + j * HOST_PAGE_SIZE g + b) = ram s (a + j * HOST_PAGE_SIZE g + b))"
proof -
  from sync_program_uneq_spec [OF assms(1-6)] obtain s1 where
    s1: "sync_program_pages_uneq g l n a s = Some (of_nat (touched g (unat l) (unat n)), s1)"
      "ftl_inv g (k + touched g (unat l) (unat n)) s1" "rop_ready s1" "run_written g s (page_run g l a (unat n)) s1"
      "write_frame g s s1" "pages_mapped g (page_run g l a (unat n)) s1" by blast
  note w = run_page_nat [OF assms(1,3)]
  have r: "read_ready g s1" "temp_read_buffer s1 = temp_read_buffer s"
    using s1(2,3,5) assms(7,8) by (simp_all add: read_ready_def write_frame_def ftl_inv_def)
  have "ftl_abs s1 ((unat l + i) div HOST_PER_NAND_PAGES g) \<noteq> None" if i: "i < unat n" for i
  proof -
    have "(l + of_nat i, a + i * 2 ^ HOST_DS g) \<in> set (page_run g l a (unat n))" using i by (simp add: page_run_def)
    with s1(6) have "ftl_abs s1 (unat (nand_page_of g (l + of_nat i))) \<noteq> None" unfolding pages_mapped_def by blast
    then show ?thesis using w [OF i] by (simp add: nand_page_nat [OF assms(1)])
  qed
  then have mp: "\<forall>i < unat n. ftl_abs s1 ((unat l + i) div HOST_PER_NAND_PAGES g) \<noteq> None" by blast
  from sync_read_uneq_spec [OF assms(1) r(1) assms(3,5) assms(9) [folded r(2)] mp] obtain s2 where
    s2: "sync_read_pages_uneq g l n d s1 = Some (of_nat (touched g (unat l) (unat n)), s2)"
      "run_read g s1 (page_run g l d (unat n)) (ram s2)" by blast
  have "ram s2 (d + j * HOST_PAGE_SIZE g + b) = ram s (a + j * HOST_PAGE_SIZE g + b)" if j: "j < unat n" "b < HOST_PAGE_SIZE g" for j b
  proof -
    have "(l + of_nat j, d + j * HOST_PAGE_SIZE g) \<in> set (page_run g l d (unat n))"
      using j(1) uneq_sizes(6) [OF assms(1)] by (auto simp: page_run_def)
    then have "ram s2 (d + j * HOST_PAGE_SIZE g + b) = host_view g s1 (unat l + j) b"
      using s2(2) j mp w [OF j(1)] unfolding run_read_def by (fastforce simp: nand_page_nat [OF assms(1)])
    moreover have "unat l + j < TOTAL_NUM_OF_HOST_PAGES g" using j(1) assms(3) by linarith
    ultimately show ?thesis using run_written_cases(1) [OF assms(1,3) s1(4), of "unat l + j"] j by simp
  qed
  with s1(1) s2(1) show ?thesis by blast
qed

text \<open>
  C20. What a host read with flash pages larger than host pages does for a request whose scatter list has device addresses:
  not null, pairwise disjoint page buffers apart from the temporary buffers. Every page whose flash page is mapped is copied to
  the device address of its entry; the memory of the pages in unmapped flash pages is left as it
  was, their entries point to the zero page; the request is complete and goes to the NVMe driver. No compiled code sets
  these addresses; for the null addresses of the request objects as they are initialised,
  see \<open>unequal_host_read_copies_nothing\<close>.
\<close>

theorem unequal_host_read_delivers:
  fixes g :: geo and s :: "'a uneq_st_scheme" and x :: nat
  defines "n \<equiv> unat (io_nlbs (scmd (r_req s ! x))) + 1" and "l \<equiv> (ucast (io_slba (scmd (r_req s ! x))) :: u32)"
  assumes "uneq_geo g" "read_ready g s" "x < R_SIZE" "length (r_req s) = R_SIZE" "n \<le> MDTS_PAGES" "unat l + n \<le> TOTAL_NUM_OF_HOST_PAGES g"
    "length (dma_list (dma (r_req s ! x))) = MDTS_PAGES" "read_ram_ok g (temp_read_buffer s) (io_run (r_req s ! x) 0 l n)"
  shows "\<exists>s'. process_req_cbk_uneq g (R_REQ x) READ_IO_REQUEST s = Some (sys_push_to_nvme (R_REQ x) (rq_type (r_req s ! x)) s') \<and>
    nand_io_complete (r_req s' ! x) \<and> run_read g s (io_run (r_req s ! x) 0 l n) (ram s') \<and>
    (\<forall>j < n. ssd_addr (dma_list (dma (r_req s' ! x)) ! j) = (if ftl_abs s (unat (nand_page_of g (l + of_nat j))) = None then ZERO_BUFFER s
       else ssd_addr (dma_list (dma (r_req s ! x)) ! j)))"
proof -
  note h = assms(3-)
  have tr: "temps_in_ram g (temp_read_buffer s)" using h(8) by (simp add: temps_in_ram_def read_ram_ok_def run_ram_ok_def)
  have Q: "run_read g s (io_run (r_req s ! x) 0 l n) (arrived g s (io_run (r_req s ! x) 0 l n) es)"
    if "rentries_ok g (ftl_abs s) (temp_read_buffer s) (io_run (r_req s ! x) 0 l n) es" "length es \<le> length (temp_read_buffer s)" for es
    using copies_run [OF h(1) that(1) h(8) that(2)] h(2) by (simp add: read_ready_def arrived_def)
  from io_read_uneq_flow [OF h(1-4) n_def [THEN meta_eq_to_obj_eq] h(5) l_def [THEN meta_eq_to_obj_eq] h(6) tr,
      of "run_read g s (io_run (r_req s ! x) 0 l n)", OF Q] obtain s' where
    s': "ftl_process_read_io_uneq g (R_REQ x) s = Some (sys_push_to_nvme (R_REQ x) (rq_type (r_req s ! x)) s')"
      "run_read g s (io_run (r_req s ! x) 0 l n) (ram s')"
      "r_req s' = (r_req s)[x := (io_upds g (ftl_abs s) (ZERO_BUFFER s) 0 l n (r_req s ! x))\<lparr>nand_io_complete := True\<rparr>]" by blast
  with h(3,4,5,7) show ?thesis unfolding process_req_uneq
    using io_upds_addr [of _ n 0 "r_req s ! x"] by (intro exI [of _ s']) simp
qed

text \<open>
  C37. With flash pages larger than host pages, a host read whose device addresses are all null delivers nothing. They are null in
  the request objects as initialised, and decoding the PRP fields keeps them (\<open>decode_addrs\<close>); only an earlier read of an unmapped
  page leaves another address, the zero page, in its object. The translation
  layer takes null for a page nobody asked for, so outside of the temporary buffers no byte of memory changes,
  and still the request is marked complete and goes back to the driver as a success.
\<close>

theorem unequal_host_read_copies_nothing:
  fixes g :: geo and s :: "'a uneq_st_scheme" and x :: nat
  defines "n \<equiv> unat (io_nlbs (scmd (r_req s ! x))) + 1" and "l \<equiv> (ucast (io_slba (scmd (r_req s ! x))) :: u32)"
  assumes "uneq_geo g" "read_ready g s" "x < R_SIZE" "length (r_req s) = R_SIZE" "n \<le> MDTS_PAGES" "unat l + n \<le> TOTAL_NUM_OF_HOST_PAGES g"
    "temps_in_ram g (temp_read_buffer s)" "\<forall>j < n. ssd_addr (dma_list (dma (r_req s ! x)) ! j) = 0"
  shows "\<exists>s'. process_req_cbk_uneq g (R_REQ x) READ_IO_REQUEST s = Some (sys_push_to_nvme (R_REQ x) (rq_type (r_req s ! x)) s') \<and>
    nand_io_complete (r_req s' ! x) \<and>
    (\<forall>y. (\<forall>t \<in> set (temp_read_buffer s). \<not> (t \<le> y \<and> y < t + NAND_PAGE_SIZE g)) \<longrightarrow> ram s' y = ram s y)"
proof -
  note h = assms(3-)
  let ?ps = "io_run (r_req s ! x) 0 l n" and ?T = "\<lambda>y. \<forall>t \<in> set (temp_read_buffer s). \<not> (t \<le> y \<and> y < t + NAND_PAGE_SIZE g)"
  have z: "\<forall>p \<in> set ?ps. snd p = 0" using h(8) by (auto simp: in_set_conv_nth io_run_nth)
  have Q: "\<forall>y. ?T y \<longrightarrow> arrived g s ?ps es y = ram s y"
    if "rentries_ok g (ftl_abs s) (temp_read_buffer s) ?ps es" "length es \<le> length (temp_read_buffer s)" for es
    using nothing_copied [OF h(1) that z] by blast
  from io_read_uneq_flow [OF h(1-4) n_def [THEN meta_eq_to_obj_eq] h(5) l_def [THEN meta_eq_to_obj_eq] h(6,7),
      of "\<lambda>m. \<forall>y. ?T y \<longrightarrow> m y = ram s y", OF Q] obtain s' where
    s': "ftl_process_read_io_uneq g (R_REQ x) s = Some (sys_push_to_nvme (R_REQ x) (rq_type (r_req s ! x)) s')"
      "\<forall>y. ?T y \<longrightarrow> ram s' y = ram s y"
      "r_req s' = (r_req s)[x := (io_upds g (ftl_abs s) (ZERO_BUFFER s) 0 l n (r_req s ! x))\<lparr>nand_io_complete := True\<rparr>]" by blast
  with h(3,4) show ?thesis unfolding process_req_uneq by (intro exI [of _ s']) simp
qed

section \<open>Witnesses\<close>

text \<open>The small device with flash pages of two host pages, new media and initialised operation pools.\<close>

definition half_geo :: geo where "half_geo = tiny_geo\<lparr>host_page_size := 2\<rparr>"

lemma half_sizes: "uneq_geo half_geo" "HOST_PAGE_SIZE half_geo = 4" "NAND_PAGE_SIZE half_geo = 8" "HOST_PER_NAND_PAGES half_geo = 2"
  "TOTAL_NUM_OF_PAGES half_geo = 8" "TOTAL_NUM_OF_HOST_PAGES half_geo = 16" "HOST_DS half_geo = 2" "HOST_2_NAND_DS half_geo = 1"
  by (simp_all add: uneq_geo_def geo_ok_def half_geo_def tiny_geo_def geom_defs)

definition temp_buffers :: "nat \<Rightarrow> nat list" where "temp_buffers a = map (\<lambda>i. a + 8 * i) [0..<MDTS_PAGES]"

lemma temp_buffers_ok: "a < 2 ^ 20 \<Longrightarrow> temps_in_ram half_geo (temp_buffers a)" "temps_apart half_geo (temp_buffers a)"
  "length (temp_buffers a) = MDTS_PAGES" "a < 2 ^ 20 \<Longrightarrow> \<forall>x \<in> set ps. 0 < snd x \<and> snd x + 4 \<le> a \<Longrightarrow> run_ram_ok half_geo (temp_buffers a) ps"
  by (auto simp: temps_in_ram_def temps_apart_def temp_buffers_def MDTS_PAGES_def half_sizes run_ram_ok_def apart_def)

definition zero_program_page :: program_pages_t where
  "zero_program_page = \<lparr>pp_nand_page = 0, pp_is_unmapped = False, pp_current_ppa = zero_ppa, pp_new_ppa = zero_ppa, pp_data_src = 0,
     pp_temp_buffer = 0, pp_host_page = replicate 2 0, pp_host_page_ptrs = replicate 2 0, pp_mod_host_pages = 0\<rparr>"

definition zero_read_page :: read_pages_t where
  "zero_read_page = \<lparr>rg_nand_page = 0, rg_is_unmapped = False, rg_current_ppa = zero_ppa, rg_new_ppa = zero_ppa, rg_data_src = 0,
     rg_temp_buffer = 0, rg_host_page = replicate 2 0, rg_host_page_ptrs = replicate 2 0, rg_read_host_pages = 0\<rparr>"

definition uneq_image :: uneq_st where
  "uneq_image = buf_st.extend buf_image (uneq_st.fields (replicate MDTS_PAGES zero_program_page) 0 (temp_buffers 16384)
     (replicate MDTS_PAGES zero_read_page) 0 (temp_buffers 32768))"

lemma uneq_image_fields:
  "rops uneq_image = rops buf_image" "pops uneq_image = pops buf_image" "free_rop_objs uneq_image = free_rop_objs buf_image"
  "free_pop_objs uneq_image = free_pop_objs buf_image" "r_req uneq_image = replicate R_SIZE zero_req" "wbc uneq_image = wbc buf_image"
  "program_pages uneq_image = replicate MDTS_PAGES zero_program_page" "read_pages uneq_image = replicate MDTS_PAGES zero_read_page"
  "rmp_buffer uneq_image = temp_buffers 16384" "temp_read_buffer uneq_image = temp_buffers 32768"
  by (simp_all add: uneq_image_def buf_st.defs uneq_st.defs buf_image_def ftl_st.defs init_op_obj_def Let_def ftl_image_def nand_image_def
      req_image_def kernel_st.defs req_st.defs nand_st.defs)

definition uneq_ready :: "uneq_st \<Rightarrow> bool" where
  "uneq_ready s \<longleftrightarrow> write_ready half_geo 0 s \<and> read_ready half_geo s \<and> ftl_abs s = Map.empty \<and> rmp_buffer s = temp_buffers 16384 \<and>
     temp_read_buffer s = temp_buffers 32768 \<and> r_req s = replicate R_SIZE zero_req \<and> wbc s = wbc buf_image"

lemma uneq_ready_exists: "\<exists>s. uneq_ready s"
proof -
  have g: "geo_ok half_geo" using half_sizes(1) by (simp add: uneq_geo_def)
  from new_media_init [OF g, of 0 uneq_image] obtain s1 :: uneq_st where
    s1: "new_flash_media half_geo 0 (boot_tables half_geo uneq_image) = Some s1" "ftl_inv half_geo 0 (finish_ftl_init s1)"
      "ftl_abs (finish_ftl_init s1) = Map.empty" by blast
  let ?b = "boot_tables half_geo uneq_image" and ?s = "finish_ftl_init s1"
  have b: "rops ?b = rops uneq_image" "pops ?b = pops uneq_image" "free_rop_objs ?b = free_rop_objs uneq_image"
    "free_pop_objs ?b = free_pop_objs uneq_image" "r_req ?b = r_req uneq_image" "ftl_st.more ?b = ftl_st.more uneq_image"
    by (simp_all add: boot_tables_def map_tables_image_def)
  have f: "rops ?s = rops s1" "pops ?s = pops s1" "free_rop_objs ?s = free_rop_objs s1" "free_pop_objs ?s = free_pop_objs s1"
    "r_req ?s = r_req s1" "ftl_st.more ?s = ftl_st.more s1" by (simp_all add: finish_ftl_init_def Let_def)
  note m = map_frame_trivial [OF s1(1)]
  have more: "ftl_st.more ?s = ftl_st.more uneq_image" using m f b by simp
  have w: "wbc ?s = wbc uneq_image \<and> program_pages ?s = program_pages uneq_image \<and> read_pages ?s = read_pages uneq_image \<and>
      rmp_buffer ?s = rmp_buffer uneq_image \<and> temp_read_buffer ?s = temp_read_buffer uneq_image"
    using more by (metis ftl_st.surjective ftl_st.select_convs buf_st.surjective buf_st.select_convs uneq_st.surjective uneq_st.select_convs)
  have "rop_ready ?s" "pop_ready ?s"
    using init_op_obj_ready(1,2) [OF ops_of_image(1)] m by (simp_all add: rop_ready_def pop_ready_def f b ops_of_image uneq_image_fields)
  moreover have "map_ok half_geo ?s" using s1(2) by (simp add: ftl_inv_def)
  ultimately have "uneq_ready ?s" using s1(2,3) m f b w temp_buffers_ok(3)
    by (simp add: uneq_ready_def write_ready_def read_ready_def uneq_image_fields)
  then show ?thesis ..
qed

lemma demo_run: "page_run half_geo 2 a 3 = [(2, a), (3, a + 4), (4, a + 8)]" "touched half_geo 2 3 = 2"
  by (simp_all add: page_run_def half_sizes touched_def upt_rec)

lemma demo_fits: "0 < a \<Longrightarrow> a + 12 \<le> t \<Longrightarrow> t < 2 ^ 20 \<Longrightarrow> run_ram_ok half_geo (temp_buffers t) (page_run half_geo 2 a 3)"
  by (rule temp_buffers_ok(4)) (auto simp: demo_run)

theorem unequal_write_merges_witness:
  "\<exists>s s' :: uneq_st. sync_program_pages_uneq half_geo 2 3 4096 s = Some (2, s') \<and> host_view half_geo s' 4 3 = ram s 4107"
proof -
  obtain s where s: "uneq_ready s" using uneq_ready_exists ..
  have r: "run_ram_ok half_geo (rmp_buffer s) (page_run half_geo 2 4096 (unat (3 :: u32)))"
    using s demo_fits [of 4096 16384] by (simp add: uneq_ready_def)
  have u: "unat (2 :: u32) = 2" "unat (3 :: u32) = 3" "(4 :: nat) < 16" "(3 :: nat) < 4" by simp_all
  have "\<exists>s'. sync_program_pages_uneq half_geo 2 3 4096 s = Some (of_nat 2, s') \<and> ftl_inv half_geo (0 + 2) s' \<and>
    (\<forall>i < 16. \<forall>b < 4. \<not> shares_page half_geo 2 3 i \<or> 2 \<le> i \<and> i < 2 + 3 \<or> ftl_abs s (i div 2) \<noteq> None \<longrightarrow>
       host_view half_geo s' i b = (if 2 \<le> i \<and> i < 2 + 3 then ram s (4096 + (i - 2) * 4 + b) else host_view half_geo s i b))"
    using unequal_write_merges [OF half_sizes(1) _ _ _ _ r, of 0] s unfolding u half_sizes demo_run
    by (simp add: uneq_ready_def MDTS_PAGES_def)
  then obtain s' where "sync_program_pages_uneq half_geo 2 3 4096 s = Some (2, s')" "host_view half_geo s' 4 3 = ram s 4107"
    using u(3,4) by fastforce
  then show ?thesis by blast
qed

theorem unequal_partial_write_leaks_witness:
  "\<exists>(s :: uneq_st) (s' :: uneq_st) t. sync_program_pages_uneq half_geo 2 3 4096 s = Some (2, s') \<and> host_view half_geo s 5 1 = 0 \<and>
     t \<in> set (rmp_buffer s) \<and> host_view half_geo s' 5 1 = ram s (t + 5)"
proof -
  obtain s where s: "uneq_ready s" using uneq_ready_exists ..
  have r: "run_ram_ok half_geo (rmp_buffer s) (page_run half_geo 2 4096 (unat (3 :: u32)))"
    using s demo_fits [of 4096 16384] by (simp add: uneq_ready_def)
  have sh: "shares_page half_geo (unat (2 :: u32)) (unat (3 :: u32)) 5"
    unfolding shares_page_def by (rule exI [of _ 4]) (simp add: half_sizes)
  from unequal_partial_write_leaks [OF half_sizes(1) _ _ _ _ r _ sh, of 0] s obtain s' t where
    s': "sync_program_pages_uneq half_geo 2 3 4096 s = Some (2, s')" "\<forall>b < 4. host_view half_geo s 5 b = 0"
      "t \<in> set (rmp_buffer s)" "\<forall>b < 4. host_view half_geo s' 5 b = ram s (t + 4 + b)"
    by (auto simp: uneq_ready_def half_sizes demo_run MDTS_PAGES_def)
  have "host_view half_geo s 5 1 = 0" "host_view half_geo s' 5 1 = ram s (t + 5)" using s'(2,4) by (force simp: add.assoc)+
  with s'(1,3) show ?thesis by blast
qed

theorem unequal_flush_writes_device_witness:
  "\<exists>s s' :: uneq_st. process_req_cbk_uneq half_geo WBC WBC_FLUSH_REQUEST s = Some (sys_push_to_nvme WBC (wb_type (wbc s)) s') \<and> host_view half_geo s' 4 3 = ram s 4107"
proof -
  obtain s where s: "uneq_ready s" using uneq_ready_exists ..
  then have w: "wbc_run_uneq (wbc s) = [(3, 4096), (4, 4104)]"
    by (simp add: uneq_ready_def buf_image_def ftl_st.defs buf_st.defs wbc_run_uneq_def WBC_PAGES_def MDTS_PAGES_def)
  have np: "nand_page_of half_geo 3 = 1" "nand_page_of half_geo 4 = 2" by (simp_all add: nand_page_of_def half_sizes)
  have fp: "length (flash_pages half_geo [(3, 4096), (4, 4104)]) = 2" by (simp add: flash_pages_def np)
  have r: "run_ram_ok half_geo (rmp_buffer s) (wbc_run_uneq (wbc s))"
    using s temp_buffers_ok(4) [of 16384 "[(3 :: u32, 4096), (4, 4104)]"] unfolding w by (simp add: uneq_ready_def)
  from unequal_flush_writes_device [OF half_sizes(1) _ _ _ _ r, of 0] s obtain s' where
    s': "process_req_cbk_uneq half_geo WBC WBC_FLUSH_REQUEST s = Some (sys_push_to_nvme WBC (wb_type (wbc s)) s')"
      "\<forall>b < 4. host_view half_geo s' 4 b = ram s (4104 + b)"
    by (auto simp: uneq_ready_def half_sizes fp MDTS_PAGES_def w)
  have "host_view half_geo s' 4 3 = ram s 4107" using s'(2) by force
  with s'(1) show ?thesis by blast
qed

theorem unequal_read_your_writes_witness:
  "\<exists>s s1 s2 :: uneq_st. sync_program_pages_uneq half_geo 2 3 4096 s = Some (2, s1) \<and> sync_read_pages_uneq half_geo 2 3 8192 s1 = Some (2, s2) \<and>
     ram s2 8201 = ram s 4105"
proof -
  obtain s where s: "uneq_ready s" using uneq_ready_exists ..
  have r: "run_ram_ok half_geo (rmp_buffer s) (page_run half_geo 2 4096 (unat (3 :: u32)))"
    "read_ram_ok half_geo (temp_read_buffer s) (page_run half_geo 2 8192 (unat (3 :: u32)))"
    using s demo_fits [of 4096 16384] demo_fits [of 8192 32768] by (simp_all add: uneq_ready_def read_ram_ok_def demo_run half_sizes)
  from unequal_read_your_writes [OF half_sizes(1) _ _ _ _ r(1) _ _ r(2), of 0] s obtain s1 s2 where
    e: "sync_program_pages_uneq half_geo 2 3 4096 s = Some (2, s1)" "sync_read_pages_uneq half_geo 2 3 8192 s1 = Some (2, s2)"
      "\<forall>j < 3. \<forall>b < 4. ram s2 (8192 + j * 4 + b) = ram s (4096 + j * 4 + b)"
    by (auto simp: uneq_ready_def read_ready_def half_sizes demo_run MDTS_PAGES_def)
  from e(3) [rule_format, of 2 1] have "ram s2 8201 = ram s 4105" by simp
  with e(1,2) show ?thesis by blast
qed

text \<open>A request for host page 0 and the state after it was written; \<open>a\<close> is the device address of the first entry of its list.\<close>

definition demo_read :: "nat \<Rightarrow> req_t list" where
  "demo_read a = (replicate R_SIZE zero_req)[7 := zero_req\<lparr>dma := zero_dma\<lparr>dma_list := (replicate MDTS_PAGES zero_dma_op)[0 := zero_dma_op\<lparr>ssd_addr := a\<rparr>]\<rparr>\<rparr>]"

lemma demo_read_fields:
  "length (demo_read a) = R_SIZE" "io_nlbs (scmd (demo_read a ! 7)) = 0" "io_slba (scmd (demo_read a ! 7)) = 0"
  "rq_type (demo_read a ! 7) = 0" "length (dma_list (dma (demo_read a ! 7))) = MDTS_PAGES" "ssd_addr (dma_list (dma (demo_read a ! 7)) ! 0) = a"
  by (simp_all add: demo_read_def zero_req_def zero_scmd_def zero_dma_def zero_dma_op_def io_nlbs_def io_slba_def lo16_def R_SIZE_def
      INTERNAL_IO_REQ_QUEUE_def MDTS_PAGES_def)

lemma demo_index: "7 < R_SIZE" by (simp add: R_SIZE_def INTERNAL_IO_REQ_QUEUE_def)

lemma demo_mapped: "\<exists>s :: uneq_st. read_ready half_geo s \<and> temp_read_buffer s = temp_buffers 32768 \<and> ftl_abs s 0 \<noteq> None"
proof -
  obtain s where s: "uneq_ready s" using uneq_ready_exists ..
  have p: "page_run half_geo 0 4096 (Suc 0) = [(0, 4096)]" "touched half_geo 0 (Suc 0) = 1" by (simp_all add: page_run_def touched_def half_sizes)
  have "run_ram_ok half_geo (rmp_buffer s) (page_run half_geo 0 4096 (unat (1 :: u32)))"
    using s temp_buffers_ok(4) [of 16384 "[(0 :: u32, 4096)]"] by (simp add: uneq_ready_def p)
  from sync_program_uneq_spec [OF half_sizes(1) _ _ _ _ this, of 0] s obtain s' :: uneq_st where
    s': "ftl_inv half_geo 1 s'" "rop_ready s'" "write_frame half_geo s s'" "pages_mapped half_geo [(0, 4096)] s'"
    by (auto simp: uneq_ready_def half_sizes p MDTS_PAGES_def)
  have "read_ready half_geo s'" "temp_read_buffer s' = temp_buffers 32768"
    using s s'(1,2,3) by (simp_all add: uneq_ready_def read_ready_def write_frame_def ftl_inv_def temp_buffers_ok(3))
  moreover have "ftl_abs s' 0 \<noteq> None" using s'(4) by (simp add: pages_mapped_def nand_page_of_def)
  ultimately show ?thesis by blast
qed

theorem unequal_host_read_delivers_witness:
  "\<exists>s s' :: uneq_st. process_req_cbk_uneq half_geo (R_REQ 7) READ_IO_REQUEST s = Some (sys_push_to_nvme (R_REQ 7) 0 s') \<and>
     ftl_abs s 0 \<noteq> None \<and> ram s' 8195 = host_view half_geo s 0 3"
proof -
  from demo_mapped obtain s0 :: uneq_st where
    s0: "read_ready half_geo s0" "temp_read_buffer s0 = temp_buffers 32768" "ftl_abs s0 0 \<noteq> None" by blast
  let ?s = "s0\<lparr>r_req := demo_read 8192\<rparr>"
  note df = demo_index demo_read_fields [of 8192]
  have ab: "ftl_abs ?s = ftl_abs s0" by (rule ftl_abs_cong) simp
  have r: "read_ready half_geo ?s" using s0(1) map_ok_cong [of ?s s0 half_geo] by (simp add: read_ready_def rop_ready_def)
  have run: "io_run (r_req ?s ! 7) 0 (ucast (io_slba (scmd (r_req ?s ! 7)))) (unat (io_nlbs (scmd (r_req ?s ! 7))) + 1) = [(0, 8192)]"
    by (simp add: df)
  have "read_ram_ok half_geo (temp_read_buffer ?s) [(0, 8192)]"
    using temp_buffers_ok(4) [of 32768 "[(0 :: u32, 8192)]"] by (simp add: read_ram_ok_def s0(2))
  from unequal_host_read_delivers [OF half_sizes(1) r, of 7, unfolded run, OF _ _ _ _ _ this] obtain s' where
    s': "process_req_cbk_uneq half_geo (R_REQ 7) READ_IO_REQUEST ?s = Some (sys_push_to_nvme (R_REQ 7) 0 s')" "run_read half_geo ?s [(0, 8192)] (ram s')"
    using df by (auto simp: half_sizes MDTS_PAGES_def)
  have "\<forall>b < 4. ram s' (8192 + b) = host_view half_geo ?s 0 b"
    using s'(2) s0(3) ab by (simp add: run_read_def nand_page_of_def half_sizes)
  from this [rule_format, of 3] have "ram s' 8195 = host_view half_geo ?s 0 3" by simp
  with s'(1) s0(3) ab show ?thesis by (intro exI [of _ ?s] exI [of _ s']) simp
qed

theorem unequal_host_read_copies_nothing_witness:
  "\<exists>s s' :: uneq_st. process_req_cbk_uneq half_geo (R_REQ 7) READ_IO_REQUEST s = Some (sys_push_to_nvme (R_REQ 7) 0 s') \<and>
     ftl_abs s 0 \<noteq> None \<and> nand_io_complete (r_req s' ! 7) \<and> ram s' 8195 = ram s 8195"
proof -
  from demo_mapped obtain s0 :: uneq_st where
    s0: "read_ready half_geo s0" "temp_read_buffer s0 = temp_buffers 32768" "ftl_abs s0 0 \<noteq> None" by blast
  let ?s = "s0\<lparr>r_req := demo_read 0\<rparr>"
  note df = demo_index demo_read_fields [of 0]
  have ab: "ftl_abs ?s = ftl_abs s0" by (rule ftl_abs_cong) simp
  have r: "read_ready half_geo ?s" using s0(1) map_ok_cong [of ?s s0 half_geo] by (simp add: read_ready_def rop_ready_def)
  have t: "temps_in_ram half_geo (temp_read_buffer ?s)" "\<forall>t \<in> set (temp_read_buffer ?s). \<not> (t \<le> 8195 \<and> 8195 < t + 8)"
    using s0(2) temp_buffers_ok(1) [of 32768] by (auto simp: temp_buffers_def)
  from unequal_host_read_copies_nothing [OF half_sizes(1) r, of 7, OF _ _ _ _ t(1)] df obtain s' where
    s': "process_req_cbk_uneq half_geo (R_REQ 7) READ_IO_REQUEST ?s = Some (sys_push_to_nvme (R_REQ 7) 0 s')" "nand_io_complete (r_req s' ! 7)"
      "\<forall>y. (\<forall>t \<in> set (temp_read_buffer ?s). \<not> (t \<le> y \<and> y < t + 8)) \<longrightarrow> ram s' y = ram ?s y"
    by (auto simp: half_sizes MDTS_PAGES_def)
  with t(2) have "ram s' 8195 = ram ?s 8195" by blast
  with s'(1,2) s0(3) ab show ?thesis by (intro exI [of _ ?s] exI [of _ s']) simp
qed

end
