(* ===== verification/Nvme_Post.thy ===== *)
theory Nvme_Post
  imports Nvme_Prp
begin

text \<open>
  Completion queues: the phase bit, and what a run of \<open>post_io_ccmds\<close> and \<open>post_admin_ccmds\<close> writes to the
  completion queue of the host (\<^verbatim>\<open>nvme_driver.c\<close>).
\<close>

unbundle bit_operations_syntax

section \<open>The ring of the host\<close>

text \<open>A completion queue in use: indices in range and room for its pending requests.\<close>

definition cq_ok :: "NvmeCQueue \<Rightarrow> bool" where
  "cq_ok cq \<longleftrightarrow> unat (cq_size cq) \<le> 2 ^ 16 \<and> cq_tail cq < cq_size cq \<and> cq_head cq < cq_size cq \<and> cq_phase cq \<in> {0, 1} \<and>
     unat (cq_hostAddr cq) + 16 * unat (cq_size cq) \<le> 2 ^ 64 \<and>
     0 < pend_size cq \<and> pend_size cq \<le> length (pend_objs cq) \<and> pend_head cq < pend_size cq \<and> pend_tail cq < pend_size cq"

definition pend_items :: "NvmeCQueue \<Rightarrow> obj_ptr list" where
  "pend_items cq = ring_list (pend_objs cq) (pend_size cq) (pend_head cq) (pend_tail cq)"

text \<open>Entry \<open>j\<close> after the tail: its number, its address and the phase it is written with; and the entries the host has freed.\<close>

definition cq_entry :: "NvmeCQueue \<Rightarrow> nat \<Rightarrow> nat" where
  "cq_entry cq j = (unat (cq_tail cq) + j) mod unat (cq_size cq)"

definition cq_slot :: "NvmeCQueue \<Rightarrow> nat \<Rightarrow> nat" where
  "cq_slot cq j = unat (cq_hostAddr cq) + 16 * cq_entry cq j"

definition flip :: "u8 \<Rightarrow> u8" where
  "flip p = (if p = 0 then 1 else 0)"

definition phase_at :: "NvmeCQueue \<Rightarrow> nat \<Rightarrow> u8" where
  "phase_at cq j = (if unat (cq_tail cq) + j < unat (cq_size cq) then cq_phase cq else flip (cq_phase cq))"

definition cq_room :: "NvmeCQueue \<Rightarrow> nat" where
  "cq_room cq = ring_len (unat (cq_size cq)) (unat (cq_tail cq) + 1) (unat (cq_head cq))"

lemma cq_ok_size: "cq_ok cq \<Longrightarrow> 0 < unat (cq_size cq) \<and> unat (cq_tail cq) < unat (cq_size cq) \<and> unat (cq_head cq) < unat (cq_size cq)"
  by (auto simp: cq_ok_def word_less_nat_alt)

lemma unat_tail_Suc: "cq_ok cq \<Longrightarrow> unat (cq_tail cq + 1) = unat (cq_tail cq) + 1"
  using cq_ok_size [of cq] by (simp add: cq_ok_def unat_word_ariths)

lemma inc_cq_tail_ok:
  assumes "cq_ok cq"
  shows "unat (cq_tail (inc_cq_tail cq)) = (unat (cq_tail cq) + 1) mod unat (cq_size cq)"
    and "cq_phase (inc_cq_tail cq) = (if unat (cq_tail cq) + 1 < unat (cq_size cq) then cq_phase cq else flip (cq_phase cq))"
    and "cq_ok (inc_cq_tail cq)" "cq_size (inc_cq_tail cq) = cq_size cq" "cq_head (inc_cq_tail cq) = cq_head cq"
    "cq_hostAddr (inc_cq_tail cq) = cq_hostAddr cq" "pend_items (inc_cq_tail cq) = pend_items cq"
    "cq_vector (inc_cq_tail cq) = cq_vector cq" "cq_irq_enabled (inc_cq_tail cq) = cq_irq_enabled cq" "cq_cqid (inc_cq_tail cq) = cq_cqid cq"
proof -
  have t: "unat (cq_tail cq + 1) = unat (cq_tail cq) + 1" using assms by (rule unat_tail_Suc)
  note sz = cq_ok_size [OF assms]
  have c: "cq_size cq \<le> cq_tail cq + 1 \<longleftrightarrow> unat (cq_tail cq) + 1 = unat (cq_size cq)"
    using sz t by (auto simp: word_le_nat_alt)
  show "unat (cq_tail (inc_cq_tail cq)) = (unat (cq_tail cq) + 1) mod unat (cq_size cq)"
    using sz t c by (auto simp: inc_cq_tail_def Let_def)
  show "cq_phase (inc_cq_tail cq) = (if unat (cq_tail cq) + 1 < unat (cq_size cq) then cq_phase cq else flip (cq_phase cq))"
    using sz c by (auto simp: inc_cq_tail_def Let_def flip_def)
  show "cq_ok (inc_cq_tail cq)"
    using assms sz t c by (auto simp: cq_ok_def inc_cq_tail_def Let_def word_less_nat_alt)
qed (simp_all add: inc_cq_tail_def Let_def pend_items_def)

lemma cq_entry_inc: "cq_ok cq \<Longrightarrow> cq_entry (inc_cq_tail cq) j = cq_entry cq (Suc j)"
  by (simp add: cq_entry_def inc_cq_tail_ok mod_add_left_eq)

lemma cq_slot_inc: "cq_ok cq \<Longrightarrow> cq_slot (inc_cq_tail cq) j = cq_slot cq (Suc j)"
  by (simp add: cq_slot_def cq_entry_inc inc_cq_tail_ok)

lemma phase_at_inc: "cq_ok cq \<Longrightarrow> Suc j < unat (cq_size cq) \<Longrightarrow> phase_at (inc_cq_tail cq) j = phase_at cq (Suc j)"
  using cq_ok_size [of cq] inc_cq_tail_ok [of cq]
  by (cases "unat (cq_tail cq) + 1 = unat (cq_size cq)") (auto simp: phase_at_def)

lemma cq_room_full: "cq_ok cq \<Longrightarrow> nvme_cq_full cq = Some (cq_room cq = 0)"
proof -
  assume a: "cq_ok cq"
  note sz = cq_ok_size [OF a]
  have nz: "cq_size cq \<noteq> 0" using sz by auto
  have "(cq_tail cq + 1) mod cq_size cq = cq_head cq \<longleftrightarrow> (unat (cq_tail cq) + 1) mod unat (cq_size cq) = unat (cq_head cq)"
    by (simp add: word_unat_eq_iff unat_mod unat_tail_Suc [OF a])
  also have "\<dots> \<longleftrightarrow> cq_room cq = 0"
  proof (cases "unat (cq_tail cq) + 1 = unat (cq_size cq)")
    case True
    then show ?thesis using sz by (auto simp: cq_room_def ring_len_def)
  next
    case False
    then have lt: "unat (cq_tail cq) + 1 < unat (cq_size cq)" using sz by simp
    then show ?thesis using ring_len_0 [OF lt, of "unat (cq_head cq)"] sz by (auto simp: cq_room_def)
  qed
  finally show ?thesis using nz by (simp add: nvme_cq_full_def)
qed

lemma cq_room_inc:
  assumes "cq_ok cq" "cq_room cq \<noteq> 0"
  shows "cq_room cq = Suc (cq_room (inc_cq_tail cq))"
proof -
  note sz = cq_ok_size [OF assms(1)] and inc = inc_cq_tail_ok [OF assms(1)]
  let ?n = "unat (cq_size cq)" and ?t = "unat (cq_tail cq)" and ?h = "unat (cq_head cq)"
  let ?u = "(?t + 1) mod ?n"
  have u: "?u < ?n" using sz by simp
  have e: "ring_len ?n (x mod ?n) ?h = ring_len ?n x ?h" if "x \<le> ?n" for x
    using that sz by (cases "x = ?n") (auto simp: ring_len_def)
  have "cq_room cq = ring_len ?n ?u ?h" using e [of "?t + 1"] sz by (simp add: cq_room_def)
  moreover have "cq_room (inc_cq_tail cq) = ring_len ?n ((?u + 1) mod ?n) ?h"
    using e [of "?u + 1"] u inc by (simp add: cq_room_def)
  moreover have "?u \<noteq> ?h" using assms(2) calculation(1) ring_len_0 [OF u, of ?h] sz by auto
  ultimately show ?thesis using ring_len_deq [OF u, of ?h] sz by simp
qed

lemma cq_room_less: "cq_ok cq \<Longrightarrow> cq_room cq < unat (cq_size cq)"
  using cq_ok_size [of cq] by (simp add: cq_room_def ring_len_less)

lemma cq_slot_neq:
  assumes "cq_ok cq" "0 < j" "j < unat (cq_size cq)"
  shows "cq_slot cq 0 + 16 \<le> cq_slot cq j \<or> cq_slot cq j + 16 \<le> cq_slot cq 0"
proof -
  note sz = cq_ok_size [OF assms(1)]
  have "cq_entry cq j \<noteq> cq_entry cq 0"
  proof (cases "unat (cq_tail cq) + j < unat (cq_size cq)")
    case True
    with sz assms show ?thesis by (simp add: cq_entry_def)
  next
    case False
    with sz assms have "(unat (cq_tail cq) + j) mod unat (cq_size cq) = unat (cq_tail cq) + j - unat (cq_size cq)"
      by (subst le_mod_geq) auto
    with sz assms False show ?thesis by (simp add: cq_entry_def)
  qed
  then show ?thesis by (auto simp: cq_slot_def)
qed

section \<open>One completion\<close>

text \<open>What a completion reports of a request.\<close>

definition req_view :: "obj_ptr \<Rightarrow> 'a req_st_scheme \<Rightarrow> (u16 \<times> u16 \<times> u32 \<times> u32) option" where
  "req_view p s = map_option (\<lambda>r. (cid (scmd r), status r, ccmd_dw0 r, sqid r)) (get_req p s)"

definition keeps_view :: "(req_t \<Rightarrow> req_t) \<Rightarrow> bool" where
  "keeps_view f \<longleftrightarrow> (\<forall>r. cid (scmd (f r)) = cid (scmd r) \<and> status (f r) = status r \<and> ccmd_dw0 (f r) = ccmd_dw0 r \<and> sqid (f r) = sqid r)"

lemma nth_upd_view: "(\<And>x. g (f x) = g x) \<Longrightarrow> g (xs[i := f (xs ! i)] ! j) = g (xs ! j)"
  by (cases "i < length xs"; cases "i = j") (simp_all add: list_update_beyond)

lemma req_view_upd: "keeps_view f \<Longrightarrow> req_view q (upd_req p f s) = req_view q s"
  by (auto simp: req_view_def get_req_def upd_req_def keeps_view_def
      nth_upd_view [of "\<lambda>r. cid (scmd r)" f] nth_upd_view [of status f] nth_upd_view [of ccmd_dw0 f] nth_upd_view [of sqid f] split: obj_ptr.splits)

lemma keeps_view_stage [simp]: "keeps_view (\<lambda>r. r\<lparr>req_stage := x\<rparr>)"
  by (simp add: keeps_view_def)

text \<open>Releasing a request changes its pool only.\<close>

lemma free_req_ok:
  assumes "get_req p s = Some r"
  shows "\<exists>q1 q2 q3 f. sys_free_req_obj p s = Some (upd_req p f (s\<lparr>free_r_req_objs := q1, free_w_req_objs := q2, free_req_objs := q3\<rparr>)) \<and> keeps_view f"
proof -
  have p: "p \<noteq> NULL" using assms by (auto simp: get_req_def)
  let ?st = "\<lambda>r. r\<lparr>req_stage := REQ_STAGE_FREE\<rparr>" and ?e = "\<lambda>q. snd (enQueue q p)"
  consider "rq_type r = READ_IO_REQUEST" | "rq_type r = WRITE_IO_REQUEST" "rq_type r \<noteq> READ_IO_REQUEST"
    | "other_req_type (rq_type r)" "rq_type r \<noteq> WRITE_IO_REQUEST" "rq_type r \<noteq> READ_IO_REQUEST"
    | "\<not> other_req_type (rq_type r)" "rq_type r \<noteq> WRITE_IO_REQUEST" "rq_type r \<noteq> READ_IO_REQUEST" by blast
  then show ?thesis
  proof cases
    case 1
    then show ?thesis using assms p
      by (intro exI [of _ "?e (free_r_req_objs s)"] exI [of _ "free_w_req_objs s"] exI [of _ "free_req_objs s"] exI [of _ ?st])
        (simp add: sys_free_req_obj_def)
  next
    case 2
    then show ?thesis using assms p
      by (intro exI [of _ "free_r_req_objs s"] exI [of _ "?e (free_w_req_objs s)"] exI [of _ "free_req_objs s"] exI [of _ ?st])
        (simp add: sys_free_req_obj_def)
  next
    case 3
    then show ?thesis using assms p
      by (intro exI [of _ "free_r_req_objs s"] exI [of _ "free_w_req_objs s"] exI [of _ "?e (free_req_objs s)"] exI [of _ ?st])
        (simp add: sys_free_req_obj_def)
  next
    case 4
    have "upd_req p (\<lambda>r. r) s = s" by (cases p) (auto simp: upd_req_def)
    with 4 show ?thesis using assms p
      by (intro exI [of _ "free_r_req_objs s"] exI [of _ "free_w_req_objs s"] exI [of _ "free_req_objs s"] exI [of _ "\<lambda>r. r"])
        (simp add: sys_free_req_obj_def keeps_view_def)
  qed
qed

text \<open>The fields a run of completions may change.\<close>

definition post_frame :: "'a nvme_st_scheme \<Rightarrow> 'a nvme_st_scheme \<Rightarrow> bool" where
  "post_frame s s' \<longleftrightarrow> (\<exists>c m h d qs R W Q q1 q2 q3. s' = s\<lparr>cqs := c, ram := m, host := h, sync_dma := d, queues := qs,
     r_req := R, w_req := W, other_req_alloc := Q, free_r_req_objs := q1, free_w_req_objs := q2, free_req_objs := q3\<rparr>)"

lemma post_frame_refl [simp]: "post_frame s s"
proof -
  have "s = s\<lparr>cqs := cqs s, ram := ram s, host := host s, sync_dma := sync_dma s, queues := queues s,
     r_req := r_req s, w_req := w_req s, other_req_alloc := other_req_alloc s, free_r_req_objs := free_r_req_objs s,
     free_w_req_objs := free_w_req_objs s, free_req_objs := free_req_objs s\<rparr>" by simp
  then show ?thesis unfolding post_frame_def by blast
qed

lemma post_frame_trans:
  assumes "post_frame s s1" "post_frame s1 s2" shows "post_frame s s2"
proof -
  from assms(2) obtain c m h d qs R W Q q1 q2 q3 where
    s2: "s2 = s1\<lparr>cqs := c, ram := m, host := h, sync_dma := d, queues := qs,
     r_req := R, w_req := W, other_req_alloc := Q, free_r_req_objs := q1, free_w_req_objs := q2, free_req_objs := q3\<rparr>"
    unfolding post_frame_def by (elim exE)
  from assms(1) have "s2 = s\<lparr>cqs := c, ram := m, host := h, sync_dma := d, queues := qs,
     r_req := R, w_req := W, other_req_alloc := Q, free_r_req_objs := q1, free_w_req_objs := q2, free_req_objs := q3\<rparr>"
    unfolding s2 post_frame_def by (elim exE) simp
  then show ?thesis unfolding post_frame_def by blast
qed

lemma post_frame_same:
  assumes "post_frame s s'"
  shows "sqs s' = sqs s" "ccmd_buf s' = ccmd_buf s" "scmd_buf s' = scmd_buf s" "prp_dma s' = prp_dma s" "prp_list s' = prp_list s"
    "hostPageBits s' = hostPageBits s" "hostMemPageSize s' = hostMemPageSize s" "maxPrpEntries s' = maxPrpEntries s"
    "check_door_ftn_id s' = check_door_ftn_id s" "iocqCount s' = iocqCount s" "iosqCount s' = iosqCount s"
    "thrds s' = thrds s" "all_thrds_ftns s' = all_thrds_ftns s"
  using assms by (auto simp: post_frame_def)

lemma upd_req_split:
  "\<exists>R W Q. upd_req p f s = s\<lparr>r_req := R, w_req := W, other_req_alloc := Q\<rparr>"
proof (cases p)
  case (R_REQ i)
  then show ?thesis
    by (intro exI [of _ "(r_req s)[i := f (r_req s ! i)]"] exI [of _ "w_req s"] exI [of _ "other_req_alloc s"]) (simp add: upd_req_def)
next
  case (W_REQ i)
  then show ?thesis
    by (intro exI [of _ "r_req s"] exI [of _ "(w_req s)[i := f (w_req s ! i)]"] exI [of _ "other_req_alloc s"]) (simp add: upd_req_def)
next
  case (O_REQ i)
  then show ?thesis
    by (intro exI [of _ "r_req s"] exI [of _ "w_req s"] exI [of _ "(other_req_alloc s)[i := f (other_req_alloc s ! i)]"]) (simp add: upd_req_def)
qed (intro exI [of _ "r_req s"] exI [of _ "w_req s"] exI [of _ "other_req_alloc s"], simp add: upd_req_def)+

lemma drv_ok_cong:
  assumes "post_frame s s'" "dma_q_ok (queues s')" "link_ok (host s')" "pools_len s'" "drv_ok s"
  shows "drv_ok s'"
  using assms(2-5) post_frame_same [OF assms(1)] by (simp add: drv_ok_def)

lemma slot_addr:
  assumes "cq_ok cq"
  shows "unat (cq_hostAddr cq + ucast (cq_tail cq * 16)) = cq_slot cq 0"
proof -
  note sz = cq_ok_size [OF assms]
  have t16: "unat (cq_tail cq) * 16 < 2 ^ 32" using assms sz by (simp add: cq_ok_def)
  then have "unat (cq_tail cq * 16) = unat (cq_tail cq) * 16" by (simp add: unat_word_ariths)
  then have "unat (ucast (cq_tail cq * 16) :: u64) = unat (cq_tail cq) * 16"
    using t16 by (simp add: unsigned_ucast_eq take_bit_eq_mod)
  moreover have "unat (cq_hostAddr cq) + unat (cq_tail cq) * 16 < 2 ^ 64" using assms sz by (simp add: cq_ok_def)
  ultimately show ?thesis using sz by (simp add: unat_word_ariths cq_slot_def cq_entry_def)
qed

text \<open>The completion command of a request as the host reads it.\<close>

definition ccmd_for :: "u32 \<Rightarrow> u8 \<Rightarrow> u16 \<times> u16 \<times> u32 \<times> u32 \<Rightarrow> NvmeCCmd \<Rightarrow> bool" where
  "ccmd_for head phase v c \<longleftrightarrow> (case v of (ci, st, dw0, q) \<Rightarrow>
     ccmd_cid c = ci \<and> ccmd_status_p c = push_bit 1 st OR ucast phase \<and> ccmd_cdw0 c = dw0 \<and> ccmd_sqhd c = ucast head)"

lemma load_ccmd_put:
  "load_ccmd (put_bytes 16 a (\<lambda>j. m (b + j)) hm) a = load_ccmd m b"
proof -
  have l: "load32 (put_bytes 16 a (\<lambda>j. m (b + j)) hm) (a + e) = load32 m (b + e)" if "e + 4 \<le> 16" for e
    using that by (simp add: load32_def put_bytes_def add.assoc)
  moreover have "load16 (put_bytes 16 a (\<lambda>j. m (b + j)) hm) (a + e) = load16 m (b + e)" if "e + 2 \<le> 16" for e
    using that by (simp add: load16_def put_bytes_def add.assoc)
  ultimately show ?thesis using l [of 0] by (simp add: load_ccmd_def)
qed

lemma ccmd_of_load: "ccmd_for head phase (c, status r, ccmd_dw0 r, q) (load_ccmd (ccmd_of head c r phase a m) a)"
  by (simp add: ccmd_for_def load_ccmd_def ccmd_of_def)

lemma ucast8_nz: "((ucast (w :: u8) :: u32) \<noteq> 0) = (w \<noteq> 0)"
proof -
  have "unat (ucast w :: u32) = unat w"
    using unsigned_less [of w, where ?'a = nat] by (simp add: unsigned_ucast_eq take_bit_eq_mod)
  then show ?thesis by (metis unat_eq_0)
qed

lemma upd_req_nvme [simp]:
  "cqs (upd_req p f t) = cqs t" "sqs (upd_req p f t) = sqs t" "ccmd_buf (upd_req p f t) = ccmd_buf t"
  by (simp_all add: upd_req_def split: obj_ptr.split)

lemma get_req_nvme [simp]:
  "get_req p (t\<lparr>cqs := c\<rparr>) = get_req p t" "get_req p (u\<lparr>sync_dma := d\<rparr>) = get_req p u"
  by (simp_all add: get_req_def split: obj_ptr.split)

lemma pools_len_nvme [simp]:
  "pools_len (t\<lparr>cqs := c\<rparr>) = pools_len t" "pools_len (u\<lparr>sync_dma := d\<rparr>) = pools_len u" "pools_len (u\<lparr>host := h\<rparr>) = pools_len u"
  "pools_len (v\<lparr>free_r_req_objs := q1\<rparr>) = pools_len v" "pools_len (v\<lparr>free_w_req_objs := q1\<rparr>) = pools_len v"
  "pools_len (v\<lparr>free_req_objs := q1\<rparr>) = pools_len v" "pools_len (v\<lparr>queues := qs\<rparr>) = pools_len v" "pools_len (w\<lparr>ram := m\<rparr>) = pools_len w"
  by (simp_all add: pools_len_def)

lemma post_ccmd_ok:
  fixes s :: "'a nvme_st_scheme" and i :: nat
  defines "cq \<equiv> cqs s ! i"
  assumes "drv_ok s" "i < length (cqs s)" "cq_ok cq" "pend_head cq \<noteq> pend_tail cq" "ccmd_buf s + 16 \<le> 2 ^ 32"
    and "get_req (pend_objs cq ! pend_head cq) s = Some r" "sqi r < length (sqs s)"
  shows "\<exists>s'. post_ccmd i sqi s = Some s' \<and> post_frame s s' \<and> drv_ok s' \<and>
     cqs s' = (cqs s)[i := inc_cq_tail (cq\<lparr>pend_head := (pend_head cq + 1) mod pend_size cq\<rparr>)] \<and>
     (\<forall>q. req_view q s' = req_view q s) \<and> link_frame (host s) (host s') \<and> qs_step (queues s) (queues s') \<and>
     (\<forall>x. x < cq_slot cq 0 \<or> cq_slot cq 0 + 16 \<le> x \<longrightarrow> host_mem (host s') x = host_mem (host s) x) \<and>
     ccmd_for (sq_head (sqs s ! sqi r)) (cq_phase cq) (cid (scmd r), status r, ccmd_dw0 r, sqid r) (load_ccmd (host_mem (host s')) (cq_slot cq 0)) \<and>
     host_irqs (host s') = host_irqs (host s) @ (if cq_irq_enabled cq \<noteq> 0 then [cq_vector cq] else []) \<and>
     (\<forall>x. x < ccmd_buf s \<or> ccmd_buf s + 16 \<le> x \<longrightarrow> ram s' x = ram s x)"
proof -
  let ?p = "pend_objs cq ! pend_head cq"
  let ?cq1 = "cq\<lparr>pend_head := (pend_head cq + 1) mod pend_size cq\<rparr>"
  let ?s1 = "set_cq i ?cq1 s"
  let ?m = "ccmd_of (sq_head (sqs s ! sqi r)) (cid (scmd r)) r (cq_phase cq) (ccmd_buf s) (ram s)"
  let ?s2 = "?s1\<lparr>ram := ?m\<rparr>"
  have dq: "dma_q_ok (queues s)" "link_ok (host s)" "pools_len s" using assms(2) by (simp_all add: drv_ok_def)
  have slot: "unat (cq_hostAddr cq + ucast (cq_tail cq * 16)) = cq_slot cq 0" using assms(4) by (rule slot_addr)
  from sync_post_ccmd_ok [of ?s2 "ccmd_buf s" "ucast (cq_cqid cq)" "cq_tail cq" "cq_hostAddr cq" 1 "cq_vector cq" "ucast (cq_irq_enabled cq)"] dq assms(6)
  obtain qs h d where p: "sync_post_ccmd (ucast (cq_cqid cq)) (cq_tail cq) (cq_hostAddr cq) (ccmd_buf s) 1 (cq_vector cq) (ucast (cq_irq_enabled cq)) ?s2
        = Some (?s2\<lparr>host := h, sync_dma := d, queues := qs\<rparr>)" "qs_step (queues s) qs" "link_frame (host s) h"
      "host_mem h = put_bytes 16 (cq_slot cq 0) (\<lambda>j. ?m (ccmd_buf s + j)) (host_mem (host s))"
      "host_irqs h = host_irqs (host s) @ (if (ucast (cq_irq_enabled cq) :: u32) \<noteq> 0 then [cq_vector cq] else [])"
    by (auto simp: set_cq_def slot)
  have irq: "((ucast (cq_irq_enabled cq) :: u32) \<noteq> 0) = (cq_irq_enabled cq \<noteq> 0)" by (rule ucast8_nz)
  let ?s3 = "?s2\<lparr>host := h, sync_dma := d, queues := qs\<rparr>"
  let ?s4 = "upd_req ?p (\<lambda>r. r\<lparr>req_stage := CCMD_POSTED\<rparr>) ?s3"
  let ?t = "set_cq i (inc_cq_tail ?cq1) ?s4"
  have g3: "get_req ?p ?s3 = Some r" using assms(7) by (simp add: set_cq_def)
  have c4: "cqs ?s4 ! i = ?cq1" using assms(3) by (simp add: set_cq_def)
  have "pools_len ?s3" using dq(3) by (simp add: set_cq_def pools_len_def)
  from get_upd_req [OF this g3] have "get_req ?p ?t = Some (r\<lparr>req_stage := CCMD_POSTED\<rparr>)" by (simp add: set_cq_def)
  from free_req_ok [OF this] obtain q1 q2 q3 f where
    f: "sys_free_req_obj ?p ?t = Some (upd_req ?p f (?t\<lparr>free_r_req_objs := q1, free_w_req_objs := q2, free_req_objs := q3\<rparr>))" "keeps_view f" by blast
  let ?z = "?t\<lparr>free_r_req_objs := q1, free_w_req_objs := q2, free_req_objs := q3\<rparr>"
  have post: "post_ccmd i sqi s = Some (upd_req ?p f ?z)"
    using assms(4,5,7,8) p(1) f(1) c4 unfolding post_ccmd_def cq_def [symmetric]
    by (simp add: set_cq_def cq_ok_def Let_def)
  obtain R1 W1 Q1 where u1: "?s4 = ?s3\<lparr>r_req := R1, w_req := W1, other_req_alloc := Q1\<rparr>" using upd_req_split by blast
  obtain R2 W2 Q2 where u2: "upd_req ?p f ?z = ?z\<lparr>r_req := R2, w_req := W2, other_req_alloc := Q2\<rparr>" using upd_req_split by blast
  have fr: "upd_req ?p f ?z = s\<lparr>cqs := (cqs s)[i := inc_cq_tail ?cq1], ram := ?m, host := h, sync_dma := d, queues := qs,
     r_req := R2, w_req := W2, other_req_alloc := Q2, free_r_req_objs := q1, free_w_req_objs := q2, free_req_objs := q3\<rparr>"
    unfolding u2 unfolding u1 by (simp add: set_cq_def)
  then have pf: "post_frame s (upd_req ?p f ?z)" unfolding post_frame_def by blast
  have view: "req_view q (upd_req ?p f ?z) = req_view q s" for q
  proof -
    have "req_view q (upd_req ?p f ?z) = req_view q ?z" using f(2) by (rule req_view_upd)
    also have "\<dots> = req_view q ?s4" by (simp add: req_view_def set_cq_def)
    also have "\<dots> = req_view q ?s3" by (rule req_view_upd) simp
    also have "\<dots> = req_view q s" by (simp add: req_view_def set_cq_def)
    finally show ?thesis .
  qed
  have pl: "pools_len (upd_req ?p f ?z)" using dq(3) by (simp add: set_cq_def)
  have hh: "host (upd_req ?p f ?z) = h" "queues (upd_req ?p f ?z) = qs" "ram (upd_req ?p f ?z) = ?m"
    "cqs (upd_req ?p f ?z) = (cqs s)[i := inc_cq_tail ?cq1]" unfolding fr by simp_all
  have "drv_ok (upd_req ?p f ?z)"
    by (rule drv_ok_cong [OF pf _ _ pl assms(2)], unfold hh) (use p(2,3) in \<open>simp_all add: qs_step_def link_frame_def\<close>)
  moreover have "load_ccmd (host_mem h) (cq_slot cq 0) = load_ccmd ?m (ccmd_buf s)" unfolding p(4) by (rule load_ccmd_put)
  moreover have "host_mem h x = host_mem (host s) x" if "x < cq_slot cq 0 \<or> cq_slot cq 0 + 16 \<le> x" for x
    using that unfolding p(4) by (auto simp: put_bytes_def)
  moreover have "?m x = ram s x" if "x < ccmd_buf s \<or> ccmd_buf s + 16 \<le> x" for x
    using that by (auto simp: ccmd_of_def)
  ultimately show ?thesis
    using post pf view p(2,3,5) irq ccmd_of_load by (intro exI [of _ "upd_req ?p f ?z"]) (simp only: hh, simp)
qed

text \<open>The request of a completion is released to its pool.\<close>

lemma live_nvme [simp]:
  "req_inv (s\<lparr>cqs := c\<rparr>) = req_inv s" "live_reqs (s\<lparr>cqs := c\<rparr>) = live_reqs s"
  by (simp_all add: req_inv_def live_reqs_def)

lemma post_ccmd_live:
  fixes s :: "'a nvme_st_scheme" and i :: nat
  defines "cq \<equiv> cqs s ! i"
  defines "p \<equiv> pend_objs cq ! pend_head cq"
  assumes "drv_ok s" "ccmd_buf s + 16 \<le> 2 ^ 32" "post_ccmd i sqi s = Some s'" "req_inv s" "p \<in> live_reqs s"
  shows "req_inv s' \<and> live_reqs s' = live_reqs s - {p}"
proof -
  let ?cq1 = "cq\<lparr>pend_head := (pend_head cq + 1) mod pend_size cq\<rparr>"
  let ?s1 = "set_cq i ?cq1 s"
  obtain r s3 where r: "get_req p ?s1 = Some r"
    and s3: "sync_post_ccmd (ucast (cq_cqid ?cq1)) (cq_tail ?cq1) (cq_hostAddr ?cq1) (ccmd_buf s) 1 (cq_vector ?cq1) (ucast (cq_irq_enabled ?cq1))
      (?s1\<lparr>ram := ccmd_of (sq_head (sqs ?s1 ! sqi r)) (cid (scmd r)) r (cq_phase ?cq1) (ccmd_buf s) (ram s)\<rparr>) = Some s3"
    and f: "sys_free_req_obj p (set_cq i (inc_cq_tail (cqs (upd_req p (\<lambda>r. r\<lparr>req_stage := CCMD_POSTED\<rparr>) s3) ! i)) (upd_req p (\<lambda>r. r\<lparr>req_stage := CCMD_POSTED\<rparr>) s3)) = Some s'"
    using assms(5) unfolding post_ccmd_def cq_def [symmetric] p_def
    by (auto simp: Let_def set_cq_def elim!: bind_SomeE split: if_splits)
  let ?s2 = "?s1\<lparr>ram := ccmd_of (sq_head (sqs ?s1 ! sqi r)) (cid (scmd r)) r (cq_phase ?cq1) (ccmd_buf s) (ram s)\<rparr>"
  have "dma_q_ok (queues ?s2)" "link_ok (host ?s2)" "ccmd_buf s < 2 ^ 32" using assms(3,4) by (simp_all add: drv_ok_def set_cq_def)
  from sync_post_ccmd_ok [OF this] obtain h d qs where
    "sync_post_ccmd (ucast (cq_cqid ?cq1)) (cq_tail ?cq1) (cq_hostAddr ?cq1) (ccmd_buf s) 1 (cq_vector ?cq1) (ucast (cq_irq_enabled ?cq1)) ?s2 =
      Some (?s2\<lparr>host := h, sync_dma := d, queues := qs\<rparr>)" by blast
  with s3 have "s3 = ?s2\<lparr>host := h, sync_dma := d, queues := qs\<rparr>" by (metis option.inject)
  then have l3: "req_inv s3" "live_reqs s3 = live_reqs s" using assms(6) by (simp_all add: req_inv_def live_reqs_def set_cq_def)
  have st: "CCMD_POSTED \<noteq> REQ_STAGE_FREE" by (simp add: CCMD_POSTED_def REQ_COMPLETED_def REQ_STAGE_FREE_def)
  from stage_live [OF l3(1) _ st, of p] l3(2) assms(7)
  have "req_inv (set_cq i (inc_cq_tail (cqs (upd_req p (\<lambda>r. r\<lparr>req_stage := CCMD_POSTED\<rparr>) s3) ! i)) (upd_req p (\<lambda>r. r\<lparr>req_stage := CCMD_POSTED\<rparr>) s3))"
    "live_reqs (set_cq i (inc_cq_tail (cqs (upd_req p (\<lambda>r. r\<lparr>req_stage := CCMD_POSTED\<rparr>) s3) ! i)) (upd_req p (\<lambda>r. r\<lparr>req_stage := CCMD_POSTED\<rparr>) s3)) = live_reqs s"
    by (simp_all add: set_cq_def)
  from free_pool [OF this(1), of p] this(2) assms(7) f show ?thesis by auto
qed

section \<open>A run of completions\<close>

text \<open>
  Both posting loops repeat \<open>post_ccmd\<close> while a request is pending and the host has room. What a run
  achieves is proved once from that equation.
\<close>

lemma pend_pop:
  assumes "cq_ok cq" "pend_head cq \<noteq> pend_tail cq"
  defines "cq1 \<equiv> cq\<lparr>pend_head := (pend_head cq + 1) mod pend_size cq\<rparr>"
  shows "cq_ok cq1" "pend_items cq = pend_objs cq ! pend_head cq # pend_items cq1" "cq_slot cq1 = cq_slot cq" "phase_at cq1 = phase_at cq"
    "cq_room cq1 = cq_room cq" "cq_size cq1 = cq_size cq" "cq_entry cq1 = cq_entry cq"
  using assms by (auto simp: cq_ok_def pend_items_def cq_slot_def cq_entry_def phase_at_def cq_room_def fun_eq_iff
      ring_list_deq [of "pend_head cq" "pend_size cq" "pend_tail cq" "pend_objs cq"])

lemma load_ccmd_cong: "(\<And>x. a \<le> x \<Longrightarrow> x < a + 16 \<Longrightarrow> m x = m' x) \<Longrightarrow> load_ccmd m a = load_ccmd m' a"
  by (simp add: load_ccmd_def load32_def load16_def)

text \<open>The driver can post the pending requests of completion queue \<open>i\<close>.\<close>

definition post_ready :: "nat \<Rightarrow> (u32 \<Rightarrow> nat) \<Rightarrow> 'a nvme_st_scheme \<Rightarrow> bool" where
  "post_ready i sqi s \<longleftrightarrow> drv_ok s \<and> i < length (cqs s) \<and> cq_ok (cqs s ! i) \<and> ccmd_buf s + 16 \<le> 2 ^ 32 \<and>
     (\<forall>p \<in> set (pend_items (cqs s ! i)). \<exists>ci st dw q. req_view p s = Some (ci, st, dw, q) \<and> sqi q < length (sqs s))"

locale completion_poster =
  fixes i :: nat
    and sqi :: "u32 \<Rightarrow> nat"
    and post :: "'a nvme_st_scheme \<Rightarrow> 'a nvme_st_scheme option"
  assumes post_step: "i < length (cqs s) \<Longrightarrow> post s =
    (let cq = cqs s ! i in
      if pend_head cq = pend_tail cq then Some s
      else do {
        full \<leftarrow> nvme_cq_full cq;
        if full then Some s else do { s1 \<leftarrow> post_ccmd i (\<lambda>r. sqi (sqid r)) s; post s1 }
      })"
begin

lemma step_post:
  assumes "post_ready i sqi s" "pend_items (cqs s ! i) = p # ps" "cq_room (cqs s ! i) \<noteq> 0"
  shows "\<exists>s1 ci st dw q. post s = post s1 \<and> post_frame s s1 \<and> post_ready i sqi s1 \<and> req_view p s = Some (ci, st, dw, q) \<and>
    length (cqs s1) = length (cqs s) \<and> (\<forall>j. j \<noteq> i \<longrightarrow> cqs s1 ! j = cqs s ! j) \<and>
    pend_items (cqs s1 ! i) = ps \<and> cq_entry (cqs s1 ! i) = (\<lambda>j. cq_entry (cqs s ! i) (Suc j)) \<and>
    cq_slot (cqs s1 ! i) = (\<lambda>j. cq_slot (cqs s ! i) (Suc j)) \<and>
    (\<forall>j. Suc j < unat (cq_size (cqs s ! i)) \<longrightarrow> phase_at (cqs s1 ! i) j = phase_at (cqs s ! i) (Suc j)) \<and>
    cq_room (cqs s ! i) = Suc (cq_room (cqs s1 ! i)) \<and> cq_size (cqs s1 ! i) = cq_size (cqs s ! i) \<and> cq_vector (cqs s1 ! i) = cq_vector (cqs s ! i) \<and>
    cq_irq_enabled (cqs s1 ! i) = cq_irq_enabled (cqs s ! i) \<and> (\<forall>q. req_view q s1 = req_view q s) \<and> link_frame (host s) (host s1) \<and>
    (\<forall>x. x < cq_slot (cqs s ! i) 0 \<or> cq_slot (cqs s ! i) 0 + 16 \<le> x \<longrightarrow> host_mem (host s1) x = host_mem (host s) x) \<and>
    ccmd_for (sq_head (sqs s ! sqi q)) (phase_at (cqs s ! i) 0) (ci, st, dw, q) (load_ccmd (host_mem (host s1)) (cq_slot (cqs s ! i) 0)) \<and>
    host_irqs (host s1) = host_irqs (host s) @ (if cq_irq_enabled (cqs s ! i) \<noteq> 0 then [cq_vector (cqs s ! i)] else []) \<and>
    post_ccmd i (\<lambda>r. sqi (sqid r)) s = Some s1"
proof -
  let ?cq = "cqs s ! i"
  let ?c1 = "?cq\<lparr>pend_head := (pend_head ?cq + 1) mod pend_size ?cq\<rparr>"
  have r: "drv_ok s" "i < length (cqs s)" "cq_ok ?cq" "ccmd_buf s + 16 \<le> 2 ^ 32" using assms(1) by (simp_all add: post_ready_def)
  have ne: "pend_head ?cq \<noteq> pend_tail ?cq"
    using assms(2) r(3) ring_list_empty [of "pend_head ?cq" "pend_size ?cq" "pend_tail ?cq" "pend_objs ?cq"] by (auto simp: pend_items_def cq_ok_def)
  note pop = pend_pop [OF r(3) ne]
  have p: "p = pend_objs ?cq ! pend_head ?cq" "ps = pend_items ?c1" using pop(2) assms(2) by simp_all
  obtain ci st dw q where v: "req_view p s = Some (ci, st, dw, q)" "sqi q < length (sqs s)"
    using assms(1,2) unfolding post_ready_def by auto
  then obtain rq where rq: "get_req p s = Some rq" "cid (scmd rq) = ci" "status rq = st" "ccmd_dw0 rq = dw" "sqid rq = q"
    by (auto simp: req_view_def)
  from post_ccmd_ok [where i = i and s = s and sqi = "\<lambda>r. sqi (sqid r)" and r = rq] r ne rq v(2) obtain s1 where
    s1: "post_ccmd i (\<lambda>r. sqi (sqid r)) s = Some s1" "post_frame s s1" "drv_ok s1" "cqs s1 = (cqs s)[i := inc_cq_tail ?c1]"
      "\<forall>q. req_view q s1 = req_view q s" "link_frame (host s) (host s1)"
      "\<forall>x. x < cq_slot ?cq 0 \<or> cq_slot ?cq 0 + 16 \<le> x \<longrightarrow> host_mem (host s1) x = host_mem (host s) x"
      "ccmd_for (sq_head (sqs s ! sqi q)) (cq_phase ?cq) (ci, st, dw, q) (load_ccmd (host_mem (host s1)) (cq_slot ?cq 0))"
      "host_irqs (host s1) = host_irqs (host s) @ (if cq_irq_enabled ?cq \<noteq> 0 then [cq_vector ?cq] else [])"
    by (auto simp: p)
  have ci: "cqs s1 ! i = inc_cq_tail ?c1" using s1(4) r(2) by simp
  note inc = inc_cq_tail_ok [OF pop(1)]
  have st: "post s = post s1" using post_step [OF r(2)] ne cq_room_full [OF r(3)] assms(3) s1(1) by simp
  have rd: "post_ready i sqi s1"
    unfolding post_ready_def ci using s1(3,4,5) r post_frame_same [OF s1(2)] inc(3,7) p assms(1,2) by (auto simp: post_ready_def)
  have ph: "phase_at ?cq 0 = cq_phase ?cq" using cq_ok_size [OF r(3)] by (simp add: phase_at_def)
  have rm: "cq_room ?cq = Suc (cq_room (cqs s1 ! i))" using cq_room_inc [OF pop(1)] pop(5) assms(3) ci by simp
  have items: "pend_items (cqs s1 ! i) = ps" using ci inc(7) p by simp
  have pha: "\<forall>j. Suc j < unat (cq_size ?cq) \<longrightarrow> phase_at (cqs s1 ! i) j = phase_at ?cq (Suc j)"
    using phase_at_inc [OF pop(1)] pop(4,6) ci by simp
  have geo: "cq_entry (cqs s1 ! i) = (\<lambda>j. cq_entry ?cq (Suc j))" "cq_slot (cqs s1 ! i) = (\<lambda>j. cq_slot ?cq (Suc j))"
    "cq_size (cqs s1 ! i) = cq_size ?cq" "cq_vector (cqs s1 ! i) = cq_vector ?cq" "cq_irq_enabled (cqs s1 ! i) = cq_irq_enabled ?cq"
    using cq_entry_inc [OF pop(1)] cq_slot_inc [OF pop(1)] pop inc ci by (auto simp: fun_eq_iff)
  show ?thesis
    using st s1(1,2,4-9) rd v(1) items pha rm geo ph by (intro exI [of _ s1] exI [of _ ci] exI [of _ st] exI [of _ dw] exI [of _ q]) simp
qed

text \<open>A run posts the oldest pending requests, as many as the host has room for, in their order.\<close>

lemma run_posts:
  assumes "post_ready i sqi s"
  defines "items \<equiv> pend_items (cqs s ! i)" and "k \<equiv> min (length (pend_items (cqs s ! i))) (cq_room (cqs s ! i))"
  shows "\<exists>s'. post s = Some s' \<and> post_frame s s' \<and> post_ready i sqi s' \<and> length (cqs s') = length (cqs s) \<and> (\<forall>j. j \<noteq> i \<longrightarrow> cqs s' ! j = cqs s ! j) \<and>
    pend_items (cqs s' ! i) = drop k items \<and> cq_room (cqs s' ! i) = cq_room (cqs s ! i) - k \<and> cq_entry (cqs s' ! i) 0 = cq_entry (cqs s ! i) k \<and>
    (\<forall>q. req_view q s' = req_view q s) \<and> link_frame (host s) (host s') \<and>
    (\<forall>j < k. \<exists>ci st dw q. req_view (items ! j) s = Some (ci, st, dw, q) \<and>
       ccmd_for (sq_head (sqs s ! sqi q)) (phase_at (cqs s ! i) j) (ci, st, dw, q) (load_ccmd (host_mem (host s')) (cq_slot (cqs s ! i) j))) \<and>
    (\<forall>x. (\<forall>j < k. x < cq_slot (cqs s ! i) j \<or> cq_slot (cqs s ! i) j + 16 \<le> x) \<longrightarrow> host_mem (host s') x = host_mem (host s) x) \<and>
    host_irqs (host s') = host_irqs (host s) @ (if cq_irq_enabled (cqs s ! i) \<noteq> 0 then replicate k (cq_vector (cqs s ! i)) else [])"
  unfolding items_def k_def using assms(1)
proof (induction "length (pend_items (cqs s ! i))" arbitrary: s)
  case 0
  then have r: "i < length (cqs s)" "cq_ok (cqs s ! i)" "pend_items (cqs s ! i) = []" by (simp_all add: post_ready_def)
  then have "pend_head (cqs s ! i) = pend_tail (cqs s ! i)"
    using ring_list_empty [of "pend_head (cqs s ! i)" "pend_size (cqs s ! i)" "pend_tail (cqs s ! i)" "pend_objs (cqs s ! i)"]
    by (auto simp: pend_items_def cq_ok_def)
  then have "post s = Some s" using post_step [OF r(1)] by simp
  then show ?case using "0.prems" r(3) by (intro exI [of _ s]) (auto simp: link_frame_def post_ready_def drv_ok_def)
next
  case (Suc n)
  let ?cq = "cqs s ! i"
  obtain p ps where ps: "pend_items ?cq = p # ps" using Suc.hyps(2) by (cases "pend_items ?cq") auto
  have r: "i < length (cqs s)" "cq_ok ?cq" using Suc.prems by (simp_all add: post_ready_def)
  show ?case
  proof (cases "cq_room ?cq = 0")
    case True
    have "pend_head ?cq \<noteq> pend_tail ?cq"
      using ps r ring_list_empty [of "pend_head ?cq" "pend_size ?cq" "pend_tail ?cq" "pend_objs ?cq"] by (auto simp: pend_items_def cq_ok_def)
    then have "post s = Some s" using post_step [OF r(1)] cq_room_full [OF r(2)] True by simp
    then show ?thesis using Suc.prems True by (intro exI [of _ s]) (auto simp: link_frame_def post_ready_def drv_ok_def)
  next
    case False
    from step_post [OF Suc.prems ps False] obtain s1 ci st dw q where
      s1: "post s = post s1" "post_frame s s1" "post_ready i sqi s1" "req_view p s = Some (ci, st, dw, q)"
        "length (cqs s1) = length (cqs s)" "\<forall>j. j \<noteq> i \<longrightarrow> cqs s1 ! j = cqs s ! j"
        "pend_items (cqs s1 ! i) = ps" "cq_entry (cqs s1 ! i) = (\<lambda>j. cq_entry ?cq (Suc j))" "cq_slot (cqs s1 ! i) = (\<lambda>j. cq_slot ?cq (Suc j))"
        "\<forall>j. Suc j < unat (cq_size ?cq) \<longrightarrow> phase_at (cqs s1 ! i) j = phase_at ?cq (Suc j)"
        "cq_room ?cq = Suc (cq_room (cqs s1 ! i))" "cq_size (cqs s1 ! i) = cq_size ?cq" "cq_vector (cqs s1 ! i) = cq_vector ?cq"
        "cq_irq_enabled (cqs s1 ! i) = cq_irq_enabled ?cq" "\<forall>q. req_view q s1 = req_view q s" "link_frame (host s) (host s1)"
        "\<forall>x. x < cq_slot ?cq 0 \<or> cq_slot ?cq 0 + 16 \<le> x \<longrightarrow> host_mem (host s1) x = host_mem (host s) x"
        "ccmd_for (sq_head (sqs s ! sqi q)) (phase_at ?cq 0) (ci, st, dw, q) (load_ccmd (host_mem (host s1)) (cq_slot ?cq 0))"
        "host_irqs (host s1) = host_irqs (host s) @ (if cq_irq_enabled ?cq \<noteq> 0 then [cq_vector ?cq] else [])"
        "post_ccmd i (\<lambda>r. sqi (sqid r)) s = Some s1"
      by (elim exE conjE)
    have "n = length (pend_items (cqs s1 ! i))" using Suc.hyps(2) ps s1(7) by simp
    from Suc.hyps(1) [OF this s1(3)] obtain s' where
      s': "post s1 = Some s'" "post_frame s1 s'" "post_ready i sqi s'" "length (cqs s') = length (cqs s1)" "\<forall>j. j \<noteq> i \<longrightarrow> cqs s' ! j = cqs s1 ! j"
        "pend_items (cqs s' ! i) = drop (min (length ps) (cq_room (cqs s1 ! i))) ps"
        "cq_room (cqs s' ! i) = cq_room (cqs s1 ! i) - min (length ps) (cq_room (cqs s1 ! i))"
        "cq_entry (cqs s' ! i) 0 = cq_entry ?cq (Suc (min (length ps) (cq_room (cqs s1 ! i))))"
        "\<forall>q. req_view q s' = req_view q s1" "link_frame (host s1) (host s')"
        "\<forall>j < min (length ps) (cq_room (cqs s1 ! i)). \<exists>ci st dw q. req_view (ps ! j) s1 = Some (ci, st, dw, q) \<and>
           ccmd_for (sq_head (sqs s1 ! sqi q)) (phase_at (cqs s1 ! i) j) (ci, st, dw, q) (load_ccmd (host_mem (host s')) (cq_slot ?cq (Suc j)))"
        "\<forall>x. (\<forall>j < min (length ps) (cq_room (cqs s1 ! i)). x < cq_slot ?cq (Suc j) \<or> cq_slot ?cq (Suc j) + 16 \<le> x) \<longrightarrow> host_mem (host s') x = host_mem (host s1) x"
        "host_irqs (host s') = host_irqs (host s1) @ (if cq_irq_enabled ?cq \<noteq> 0 then replicate (min (length ps) (cq_room (cqs s1 ! i))) (cq_vector ?cq) else [])"
      unfolding s1(7,8,9,13,14) by (elim exE conjE)
    let ?k = "min (length ps) (cq_room (cqs s1 ! i))"
    have k: "min (length (pend_items ?cq)) (cq_room ?cq) = Suc ?k" using ps s1(11) by simp
    have ks: "?k < unat (cq_size ?cq)" "Suc ?k < Suc (unat (cq_size ?cq))" using cq_room_less [OF r(2)] s1(11) by auto
    have slot0: "load_ccmd (host_mem (host s')) (cq_slot ?cq 0) = load_ccmd (host_mem (host s1)) (cq_slot ?cq 0)"
    proof (rule load_ccmd_cong)
      fix x assume x: "cq_slot ?cq 0 \<le> x" "x < cq_slot ?cq 0 + 16"
      have "\<forall>j < ?k. x < cq_slot ?cq (Suc j) \<or> cq_slot ?cq (Suc j) + 16 \<le> x"
      proof (intro allI impI)
        fix j assume "j < ?k"
        then have "Suc j < unat (cq_size ?cq)" using ks cq_room_less [OF r(2)] s1(11) by linarith
        with cq_slot_neq [OF r(2), of "Suc j"] x show "x < cq_slot ?cq (Suc j) \<or> cq_slot ?cq (Suc j) + 16 \<le> x" by auto
      qed
      with s'(12) show "host_mem (host s') x = host_mem (host s1) x" by blast
    qed
    have posted: "\<exists>ci st dw q. req_view ((p # ps) ! j) s = Some (ci, st, dw, q) \<and>
        ccmd_for (sq_head (sqs s ! sqi q)) (phase_at ?cq j) (ci, st, dw, q) (load_ccmd (host_mem (host s')) (cq_slot ?cq j))" if "j < Suc ?k" for j
    proof (cases j)
      case 0
      then show ?thesis using s1(4,18) slot0 by auto
    next
      case (Suc j')
      with that have j': "j' < ?k" by simp
      then have "Suc j' < unat (cq_size ?cq)" using cq_room_less [OF r(2)] s1(11) by linarith
      with s1(10) have "phase_at (cqs s1 ! i) j' = phase_at ?cq (Suc j')" by blast
      moreover have "sqs s1 = sqs s" using post_frame_same(1) [OF s1(2)] .
      ultimately show ?thesis using s'(11) [rule_format, OF j'] s1(15) Suc by auto
    qed
    have outside: "host_mem (host s') x = host_mem (host s) x"
      if "\<forall>j < Suc ?k. x < cq_slot ?cq j \<or> cq_slot ?cq j + 16 \<le> x" for x
    proof -
      have "host_mem (host s') x = host_mem (host s1) x" using s'(12) that by auto
      also have "\<dots> = host_mem (host s) x" using s1(17) that by auto
      finally show ?thesis .
    qed
    show ?thesis
      unfolding k ps
      using s1(1,5,6,11,15,19) s'(1,3-9,13) posted outside post_frame_trans [OF s1(2) s'(2)] link_frame_trans [OF s1(16) s'(10)]
      by (intro exI [of _ s']) simp
  qed
qed

text \<open>The requests of the posted completions, and no others, are released.\<close>

lemma run_releases:
  assumes "post_ready i sqi s" "req_inv s" "distinct (pend_items (cqs s ! i))" "set (pend_items (cqs s ! i)) \<subseteq> live_reqs s" "post s = Some s'"
  defines "k \<equiv> min (length (pend_items (cqs s ! i))) (cq_room (cqs s ! i))"
  shows "req_inv s' \<and> live_reqs s' = live_reqs s - set (take k (pend_items (cqs s ! i)))"
  unfolding k_def using assms(1-5)
proof (induction "length (pend_items (cqs s ! i))" arbitrary: s)
  case 0
  then have r: "i < length (cqs s)" "cq_ok (cqs s ! i)" "pend_items (cqs s ! i) = []" by (simp_all add: post_ready_def)
  then have "pend_head (cqs s ! i) = pend_tail (cqs s ! i)"
    using ring_list_empty [of "pend_head (cqs s ! i)" "pend_size (cqs s ! i)" "pend_tail (cqs s ! i)" "pend_objs (cqs s ! i)"]
    by (auto simp: pend_items_def cq_ok_def)
  then show ?case using post_step [OF r(1)] "0.prems"(2,5) r(3) by simp
next
  case (Suc n)
  let ?cq = "cqs s ! i"
  obtain p ps where ps: "pend_items ?cq = p # ps" using Suc.hyps(2) by (cases "pend_items ?cq") auto
  have r: "i < length (cqs s)" "cq_ok ?cq" "drv_ok s" "ccmd_buf s + 16 \<le> 2 ^ 32" using Suc.prems(1) by (simp_all add: post_ready_def)
  have ne: "pend_head ?cq \<noteq> pend_tail ?cq"
    using ps r ring_list_empty [of "pend_head ?cq" "pend_size ?cq" "pend_tail ?cq" "pend_objs ?cq"] by (auto simp: pend_items_def cq_ok_def)
  show ?case
  proof (cases "cq_room ?cq = 0")
    case True
    then have "s' = s" using post_step [OF r(1)] cq_room_full [OF r(2)] ne Suc.prems(5) by simp
    then show ?thesis using Suc.prems(2) True by simp
  next
    case False
    from step_post [OF Suc.prems(1) ps False] obtain s1 where s1: "post s = post s1" "post_ready i sqi s1" "pend_items (cqs s1 ! i) = ps"
      "cq_room ?cq = Suc (cq_room (cqs s1 ! i))" "post_ccmd i (\<lambda>r. sqi (sqid r)) s = Some s1"
      by (elim exE conjE)
    have p: "p = pend_objs ?cq ! pend_head ?cq" using pend_pop(2) [OF r(2) ne] ps by simp
    from post_ccmd_live [OF r(3,4) s1(5) Suc.prems(2)] p Suc.prems(4) ps have l: "req_inv s1" "live_reqs s1 = live_reqs s - {p}" by auto
    have "n = length (pend_items (cqs s1 ! i))" "distinct (pend_items (cqs s1 ! i))" "set (pend_items (cqs s1 ! i)) \<subseteq> live_reqs s1" "post s1 = Some s'"
      using Suc.hyps(2) Suc.prems(3-5) ps s1(1,3) l(2) by auto
    from Suc.hyps(1) [OF this(1) s1(2) l(1) this(2-4)] l(2) s1(3,4) ps show ?thesis by auto
  qed
qed

end

interpretation adm: completion_poster 0 "\<lambda>_. 0" post_admin_ccmds
  by unfold_locales (subst post_admin_ccmds.simps, simp)

interpretation ioq: completion_poster i unat "post_io_ccmds i" for i
  by unfold_locales (subst post_io_ccmds.simps, simp add: Let_def)

section \<open>Adding a completion\<close>

lemma drv_ok_cqs [simp]: "drv_ok (s\<lparr>cqs := c\<rparr>) = drv_ok s"
  by (simp add: drv_ok_def)

lemma pend_items_push:
  fixes p :: obj_ptr
  assumes "cq_ok cq" "pend_head cq \<noteq> (pend_tail cq + 1) mod pend_size cq"
  defines "cq1 \<equiv> cq\<lparr>pend_objs := (pend_objs cq)[pend_tail cq := p], pend_tail := (pend_tail cq + 1) mod pend_size cq\<rparr>"
  shows "pend_items cq1 = pend_items cq @ [p]" "cq_ok cq1" "cq_slot cq1 = cq_slot cq" "phase_at cq1 = phase_at cq" "cq_room cq1 = cq_room cq"
    "cq_entry cq1 = cq_entry cq"
proof -
  let ?n = "pend_size cq" and ?h = "pend_head cq" and ?t = "pend_tail cq" and ?xs = "pend_objs cq"
  have lt: "?h < ?n" "?t < ?n" "?n \<le> length ?xs" using assms(1) by (simp_all add: cq_ok_def)
  have take: "ring_list (take ?n ys) ?n ?h u = ring_list ys ?n ?h u" for ys :: "obj_ptr list" and u
    using lt by (simp add: ring_list_def)
  have "ring_list ((take ?n ?xs)[?t := p]) ?n ?h ((?t + 1) mod ?n) = ring_list (take ?n ?xs) ?n ?h ?t @ [p]"
    using lt assms(2) by (intro ring_list_enq) auto
  then have "ring_list (?xs[?t := p]) ?n ?h ((?t + 1) mod ?n) = ring_list ?xs ?n ?h ?t @ [p]"
    using take [of "?xs[?t := p]"] take [of ?xs] by (simp add: take_update_swap)
  then show "pend_items cq1 = pend_items cq @ [p]" by (simp add: pend_items_def cq1_def)
  show "cq_ok cq1" using assms(1) by (auto simp: cq_ok_def cq1_def)
qed (simp_all add: cq1_def cq_slot_def cq_entry_def phase_at_def cq_room_def fun_eq_iff)

text \<open>A completion that finds room in the pending queue is the youngest pending one when the run starts.\<close>

lemma enqueue_io_ready:
  fixes s :: "'a nvme_st_scheme"
  assumes "post_ready i unat s" "pend_head (cqs s ! i) \<noteq> (pend_tail (cqs s ! i) + 1) mod pend_size (cqs s ! i)"
    and "get_req p s = Some r" "unat (sqid r) < length (sqs s)"
  shows "\<exists>s0 :: 'a nvme_st_scheme. enqueue_io_ccmd i p s = post_io_ccmds i s0 \<and> post_ready i unat s0 \<and> post_frame s s0 \<and> host s0 = host s \<and> queues s0 = queues s \<and>
     (\<forall>q. req_view q s0 = req_view q s) \<and> pend_items (cqs s0 ! i) = pend_items (cqs s ! i) @ [p] \<and> cq_slot (cqs s0 ! i) = cq_slot (cqs s ! i) \<and>
     phase_at (cqs s0 ! i) = phase_at (cqs s ! i) \<and> cq_room (cqs s0 ! i) = cq_room (cqs s ! i) \<and> cq_entry (cqs s0 ! i) = cq_entry (cqs s ! i) \<and>
     cq_vector (cqs s0 ! i) = cq_vector (cqs s ! i) \<and> cq_irq_enabled (cqs s0 ! i) = cq_irq_enabled (cqs s ! i) \<and>
     length (cqs s0) = length (cqs s) \<and> (\<forall>j. j \<noteq> i \<longrightarrow> cqs s0 ! j = cqs s ! j)"
proof -
  let ?cq = "cqs s ! i"
  let ?cq1 = "?cq\<lparr>pend_objs := (pend_objs ?cq)[pend_tail ?cq := p], pend_tail := (pend_tail ?cq + 1) mod pend_size ?cq\<rparr>"
  let ?s0 = "upd_req p (\<lambda>r. r\<lparr>req_stage := PENDING_CCMD_POST\<rparr>) (set_cq i ?cq1 s)"
  have r: "drv_ok s" "i < length (cqs s)" "cq_ok ?cq" "ccmd_buf s + 16 \<le> 2 ^ 32" using assms(1) by (simp_all add: post_ready_def)
  note push = pend_items_push [OF r(3) assms(2)]
  have e: "enqueue_io_ccmd i p s = post_io_ccmds i ?s0"
    using r assms(2,3) by (auto simp: enqueue_io_ccmd_def pend_push_def Let_def cq_ok_def set_cq_def)
  have ci: "cqs ?s0 ! i = ?cq1" using r(2) by (simp add: set_cq_def)
  have view: "req_view q ?s0 = req_view q s" for q
    using req_view_upd [of "\<lambda>r. r\<lparr>req_stage := PENDING_CCMD_POST\<rparr>" q p "set_cq i ?cq1 s"] by (simp add: req_view_def set_cq_def)
  have "\<forall>x \<in> set (pend_items ?cq @ [p]). \<exists>ci st dw q. req_view x s = Some (ci, st, dw, q) \<and> unat q < length (sqs s)"
    using assms(1,3,4) by (auto simp: post_ready_def req_view_def)
  then have rd: "post_ready i unat ?s0"
    unfolding post_ready_def ci push(1) view using r push(2) by (simp add: drv_ok_upd_req set_cq_def)
  obtain R W Q where u: "?s0 = (set_cq i ?cq1 s)\<lparr>r_req := R, w_req := W, other_req_alloc := Q\<rparr>" using upd_req_split by blast
  have "?s0 = s\<lparr>cqs := (cqs s)[i := ?cq1], ram := ram s, host := host s, sync_dma := sync_dma s, queues := queues s,
     r_req := R, w_req := W, other_req_alloc := Q, free_r_req_objs := free_r_req_objs s, free_w_req_objs := free_w_req_objs s, free_req_objs := free_req_objs s\<rparr>"
    unfolding u by (simp add: set_cq_def)
  then have "post_frame s ?s0" unfolding post_frame_def by blast
  then show ?thesis using e rd view ci push by (intro exI [of _ ?s0]) (simp add: set_cq_def)
qed

section \<open>Properties\<close>

text \<open>
  The phase bit tells the host which entries are new: after \<open>n\<close> completions the tail is \<open>n\<close> modulo the
  size of the queue, and the phase of the next entry alternates with every pass over the ring, starting with 1.
\<close>

theorem cq_phase_alternates:
  assumes "cq_ok cq" "cq_tail cq = 0" "cq_phase cq = 1"
  shows "unat (cq_tail ((inc_cq_tail ^^ n) cq)) = n mod unat (cq_size cq) \<and>
    cq_phase ((inc_cq_tail ^^ n) cq) = (if even (n div unat (cq_size cq)) then 1 else 0) \<and> cq_ok ((inc_cq_tail ^^ n) cq)"
proof -
  let ?N = "unat (cq_size cq)"
  have N: "0 < ?N" using cq_ok_size [OF assms(1)] by simp
  have "unat (cq_tail ((inc_cq_tail ^^ n) cq)) = n mod ?N \<and> cq_phase ((inc_cq_tail ^^ n) cq) = (if even (n div ?N) then 1 else 0) \<and>
      cq_ok ((inc_cq_tail ^^ n) cq) \<and> cq_size ((inc_cq_tail ^^ n) cq) = cq_size cq"
  proof (induction n)
    case 0
    then show ?case using assms by simp
  next
    case (Suc n)
    let ?c = "(inc_cq_tail ^^ n) cq"
    note inc = inc_cq_tail_ok [of ?c]
    have t: "unat (cq_tail (inc_cq_tail ?c)) = Suc n mod ?N" using Suc inc(1) by (simp add: mod_Suc_eq)
    show ?case
    proof (cases "Suc (n mod ?N) < ?N")
      case True
      then have "Suc n div ?N = n div ?N" by (simp add: div_Suc mod_Suc split: if_splits)
      with True Suc inc t show ?thesis by simp
    next
      case False
      then have "Suc (n mod ?N) = ?N" using N mod_less_divisor [of ?N n] by linarith
      then have "Suc n div ?N = Suc (n div ?N)" by (simp add: div_Suc mod_Suc)
      with False Suc inc t show ?thesis by (simp add: flip_def)
    qed
  qed
  then show ?thesis by simp
qed

text \<open>
  C10. \<open>post_io_ccmds\<close> returns, and posts the pending completions of a queue in their order, as many as the host has
  room for: entry after entry the host finds the command identifier, the status, the result and the submission queue head of the
  request, written with the phase of that pass over the ring. The remaining completions stay pending; host memory outside the
  written entries is unchanged and every posted completion raises the interrupt of the queue if it is enabled. The requests
  of the posted completions, and no others, are released to their pools, whose invariant is kept.
\<close>

theorem post_io_ccmds_fifo:
  fixes s :: "'a nvme_st_scheme" and i :: nat
  defines "cq \<equiv> cqs s ! i" and "items \<equiv> pend_items (cqs s ! i)" and "k \<equiv> min (length (pend_items (cqs s ! i))) (cq_room (cqs s ! i))"
  assumes "post_ready i unat s" "req_inv s" "distinct items" "set items \<subseteq> live_reqs s"
  shows "\<exists>s'. post_io_ccmds i s = Some s' \<and> post_ready i unat s' \<and> pend_items (cqs s' ! i) = drop k items \<and>
    cq_entry (cqs s' ! i) 0 = cq_entry cq k \<and>
    (\<forall>j < k. \<exists>ci st dw q. req_view (items ! j) s = Some (ci, st, dw, q) \<and>
       ccmd_for (sq_head (sqs s ! unat q)) (phase_at cq j) (ci, st, dw, q) (load_ccmd (host_mem (host s')) (cq_slot cq j))) \<and>
    (\<forall>x. (\<forall>j < k. x < cq_slot cq j \<or> cq_slot cq j + 16 \<le> x) \<longrightarrow> host_mem (host s') x = host_mem (host s) x) \<and>
    host_irqs (host s') = host_irqs (host s) @ (if cq_irq_enabled cq \<noteq> 0 then replicate k (cq_vector cq) else []) \<and>
    req_inv s' \<and> live_reqs s' = live_reqs s - set (take k items)"
proof -
  from ioq.run_posts [OF assms(4)] obtain s' where "post_io_ccmds i s = Some s'" "post_ready i unat s'"
    "pend_items (cqs s' ! i) = drop k items" "cq_entry (cqs s' ! i) 0 = cq_entry cq k"
    "\<forall>j < k. \<exists>ci st dw q. req_view (items ! j) s = Some (ci, st, dw, q) \<and>
       ccmd_for (sq_head (sqs s ! unat q)) (phase_at cq j) (ci, st, dw, q) (load_ccmd (host_mem (host s')) (cq_slot cq j))"
    "\<forall>x. (\<forall>j < k. x < cq_slot cq j \<or> cq_slot cq j + 16 \<le> x) \<longrightarrow> host_mem (host s') x = host_mem (host s) x"
    "host_irqs (host s') = host_irqs (host s) @ (if cq_irq_enabled cq \<noteq> 0 then replicate k (cq_vector cq) else [])"
    unfolding cq_def items_def k_def by (elim exE conjE)
  moreover from ioq.run_releases [OF assms(4,5) assms(6,7) [unfolded items_def] this(1)] have "req_inv s' \<and> live_reqs s' = live_reqs s - set (take k items)"
    by (simp only: items_def k_def)
  ultimately show ?thesis by (intro exI [of _ s'] conjI) simp_all
qed

text \<open>A queue of four entries with one pending completion.\<close>

definition cq_example :: "obj_ptr \<Rightarrow> NvmeCQueue" where
  "cq_example p = zero_cq\<lparr>cq_cqid := 1, cq_phase := 1, cq_irq_enabled := 1, cq_vector := 3, cq_size := 4, cq_hostAddr := 0x8000,
     pend_size := 4, pend_tail := 1, pend_objs := (pend_objs zero_cq)[0 := p]\<rparr>"

lemma cq_example_ok: "cq_ok (cq_example p)" "pend_items (cq_example p) = [p]" "cq_room (cq_example p) = 3"
  by (simp_all add: cq_example_def zero_cq_def cq_ok_def pend_items_def ring_list_def ring_len_def cq_room_def INTERNAL_IO_REQ_QUEUE_def)

theorem cq_phase_alternates_witness: "cq_phase ((inc_cq_tail ^^ 5) (cq_example NULL)) = 0 \<and> cq_tail ((inc_cq_tail ^^ 5) (cq_example NULL)) = 1"
proof -
  have "cq_tail (cq_example NULL) = 0" "cq_phase (cq_example NULL) = 1" "unat (cq_size (cq_example NULL)) = 4" by (simp_all add: cq_example_def zero_cq_def)
  with cq_phase_alternates [OF cq_example_ok(1), of NULL 5]
  have "unat (cq_tail ((inc_cq_tail ^^ 5) (cq_example NULL))) = 1" "cq_phase ((inc_cq_tail ^^ 5) (cq_example NULL)) = 0"
    by simp_all
  then show ?thesis by (metis unat_1 word_unat_eq_iff)
qed

text \<open>A read request in use, in the pools as \<open>init_req_obj\<close> leaves them.\<close>

lemma one_request:
  "\<exists>(s :: req_st) p. req_inv s \<and> live_reqs s = {p} \<and> req_view p s = Some (0, 0, 0, 0)"
proof -
  obtain s0 :: req_st where s0: "req_inv s0" "live_reqs s0 = {}"
    "\<forall>i < 255. r_req s0 ! i = zero_req\<lparr>rq_type := READ_IO_REQUEST, rq_index := of_nat (i + 1), req_stage := REQ_STAGE_FREE\<rparr>"
    using init_req_obj_inv by (auto simp: live_reqs_def)
  have "R_REQ 0 \<in> pool_universe R_REQ R_SIZE" by (simp add: pool_universe_def)
  moreover have "pool_live R_REQ (r_req s0) = {}" using s0(2) by (simp add: live_reqs_def)
  ultimately have "sys_malloc_req_obj READ_IO_REQUEST s0 \<noteq> None" using rpool.alloc_total [OF s0(1)] by auto
  then obtain p s where m: "sys_malloc_req_obj READ_IO_REQUEST s0 = Some (p, s)" by (auto simp del: pool_sizes)
  from m obtain q where s: "s = upd_req p (\<lambda>r. r\<lparr>req_stage := REQ_STAGE_INUSE\<rparr>) (s0\<lparr>free_r_req_objs := q\<rparr>)"
    by (auto simp: sys_malloc_req_obj_def split: prod.splits option.splits)
  from malloc_read_frame [OF s0(1) m] obtain i where i: "i < 255" "p = R_REQ i" by blast
  have "req_view p s0 = Some (0, 0, 0, 0)" using s0(3) i by (simp add: req_view_def get_req_def zero_req_def zero_scmd_def)
  moreover have "req_view p s = req_view p (s0\<lparr>free_r_req_objs := q\<rparr>)" unfolding s by (rule req_view_upd) simp
  ultimately have "req_view p s = Some (0, 0, 0, 0)" by (simp add: req_view_def)
  moreover have "req_inv s \<and> live_reqs s = {p}" using malloc_live [OF s0(1) _ m] s0(2) by simp
  ultimately show ?thesis by blast
qed

theorem post_io_ccmds_fifo_witness:
  "\<exists>(s :: nvme_st) s' p. post_io_ccmds 1 s = Some s' \<and> pend_items (cqs s' ! 1) = [] \<and> host_irqs (host s') = host_irqs (host s) @ [3] \<and>
     ccmd_status_p (load_ccmd (host_mem (host s')) 0x8000) = 1 \<and> live_reqs s = {p} \<and> live_reqs s' = {}"
proof -
  obtain r :: req_st and p where r: "req_inv r" "live_reqs r = {p}" "req_view p r = Some (0, 0, 0, 0)" using one_request by blast
  define s where "s = (set_cq 1 (cq_example p) (nvme_image (\<lambda>_. 0)))\<lparr>r_req := r_req r, w_req := w_req r, other_req_alloc := other_req_alloc r,
    free_r_req_objs := free_r_req_objs r, free_w_req_objs := free_w_req_objs r, free_req_objs := free_req_objs r\<rparr>"
  have c: "cqs s ! 1 = cq_example p" "length (cqs s) = 5" "length (sqs s) = 5" "ccmd_buf s = 0x9c006400" by (simp_all add: s_def set_cq_def)
  have "get_req p s = get_req p r" by (simp add: s_def get_req_def split: obj_ptr.split)
  then have q: "req_inv s" "live_reqs s = {p}" "req_view p s = Some (0, 0, 0, 0)"
    using r by (simp_all add: s_def set_cq_def req_inv_def live_reqs_def req_view_def)
  have "pools_len s" using req_inv_len [OF q(1)] by (simp add: pools_len_def)
  then have "drv_ok s" using nvme_image_ok [of "\<lambda>_. 0"] by (simp add: drv_ok_def s_def set_cq_def)
  then have rd: "post_ready 1 unat s" unfolding post_ready_def c(1) using cq_example_ok q(3) c by simp
  from post_io_ccmds_fifo [OF rd q(1)] q obtain s' where
    s': "post_io_ccmds 1 s = Some s'" "pend_items (cqs s' ! 1) = []" "host_irqs (host s') = host_irqs (host s) @ [3]" "live_reqs s' = {}"
      "ccmd_for (sq_head (sqs s ! 0)) (phase_at (cq_example p) 0) (0, 0, 0, 0) (load_ccmd (host_mem (host s')) (cq_slot (cq_example p) 0))"
    unfolding c(1) cq_example_ok by (auto simp: cq_example_def)
  have "cq_slot (cq_example p) 0 = 0x8000" "phase_at (cq_example p) 0 = 1" by (simp_all add: cq_slot_def cq_entry_def phase_at_def cq_example_def zero_cq_def)
  with s' q(2) show ?thesis by (intro exI [of _ s] exI [of _ s'] exI [of _ p]) (simp add: ccmd_for_def)
qed

end
