(* ===== verification/Isp_Driver.thy ===== *)
theory Isp_Driver
  imports Nvme_Post
begin

text \<open>
  In-storage processing (\<^verbatim>\<open>isp.c\<close>): the applet thread with its control command and its DMA requests,
  the three vendor commands, the calls an applet makes, and the loading of an applet. The applet
  itself is uploaded machine code: what its functions do is an argument of the operations that call
  them. The calls that wait for other threads take what those threads do until the wait ends as an
  argument, or run the handlers that serve the queued object.
\<close>

unbundle bit_operations_syntax

section \<open>Constants and state\<close>

definition MAX_ISP_THREADS :: nat where "MAX_ISP_THREADS = 4"
definition PENDING_DMA_QUEUE_SIZE :: nat where "PENDING_DMA_QUEUE_SIZE = 8"
definition MSG_IN_EXECUTE_FTN :: u32 where "MSG_IN_EXECUTE_FTN = 1"
definition ISP_EXECUTION_EXIT :: u32 where "ISP_EXECUTION_EXIT = 14"
definition ISP_Q_START_INDEX :: nat where "ISP_Q_START_INDEX = 7"
definition ISP_DATA_TRANSFERING :: u32 where "ISP_DATA_TRANSFERING = 10"
definition ISP_CTRL_PENDING_MSG :: u32 where "ISP_CTRL_PENDING_MSG = 11"
definition ISP_EXEC_PENDING_POST :: u32 where "ISP_EXEC_PENDING_POST = 13"
definition ISP_HOST_DMA_REQ_INIT :: u32 where "ISP_HOST_DMA_REQ_INIT = 14"
definition ISP_HOST_DMA_REQ_TX_ON :: u32 where "ISP_HOST_DMA_REQ_TX_ON = 15"
definition ISP_HOST_DMA_REQ_CMPT :: u32 where "ISP_HOST_DMA_REQ_CMPT = 16"
definition ISP_NAND_OP_INIT :: u32 where "ISP_NAND_OP_INIT = 17"
definition ISP_APPLET_READ_DTX :: u32 where "ISP_APPLET_READ_DTX = 1"
definition ISP_APPLET_WRITE_DTX :: u32 where "ISP_APPLET_WRITE_DTX = 3"
definition ISP_APPLET_ABR_MSG_RC :: u32 where "ISP_APPLET_ABR_MSG_RC = 0x102"
definition CTRL_MSG_DTX_SPAGE_BITS :: nat where "CTRL_MSG_DTX_SPAGE_BITS = 12"
definition ISP_IO_OPCODE :: u8 where "ISP_IO_OPCODE = 0x80"
definition ISP_CTRL_OPCODE :: u8 where "ISP_CTRL_OPCODE = 0x81"
definition ISP_DATA_TX_OPCODE :: u8 where "ISP_DATA_TX_OPCODE = 0x82"
definition MAX_TX_SIZE :: "geo \<Rightarrow> nat" where "MAX_TX_SIZE g = 16 * 2 ^ HOST_DS g"

text \<open>\<open>NvmeISPSCmd\<close>: the fields of a vendor command in the double words of a submission command.\<close>

definition isp_applet_id :: "NvmeSCmd \<Rightarrow> u8" where "isp_applet_id c = drop_bit 2 (fuse c) AND 0x1F"
definition isp_ftn_id :: "NvmeSCmd \<Rightarrow> u8" where "isp_ftn_id c = ucast (resv1 c)"
definition isp_arg_size :: "NvmeSCmd \<Rightarrow> u32" where "isp_arg_size c = ucast (drop_bit 32 (resv1 c))"

record isp_ftn_thread_t =
  it_index :: nat
  isp_thrd_id :: u32
  it_thrd_id :: nat
  it_applet_id :: u8
  it_ftn_id :: u8
  it_arg_size :: u32
  it_arg_buffer :: nat
  it_cbk_ftn :: nat
  it_msg_in_q :: nat
  it_msg_out_q :: nat
  ctrl_cmd_req :: obj_ptr
  sync_nand_op_req :: obj_ptr
  pending_dma :: "obj_ptr queue_t"
  cmplt_dma :: "obj_ptr queue_t"
  active_dma_req :: "obj_ptr list"
  function_rtn :: u32
  function_exited :: bool

record isp_st = nvme_st +
  isp_threads :: "isp_ftn_thread_t list"
  nand_op_buffer :: nat
  isp_header :: nat
  recycle_ctrl_cmd_ftn_id :: nat
  current_ofs :: u32

definition thrd0 :: "'a isp_st_scheme \<Rightarrow> isp_ftn_thread_t" where
  "thrd0 s = isp_threads s ! 0"

definition upd_thrd0 :: "(isp_ftn_thread_t \<Rightarrow> isp_ftn_thread_t) \<Rightarrow> 'a isp_st_scheme \<Rightarrow> 'a isp_st_scheme" where
  "upd_thrd0 f s = s\<lparr>isp_threads := (isp_threads s)[0 := f (isp_threads s ! 0)]\<rparr>"

definition complete_and_free :: "obj_ptr \<Rightarrow> 'a req_st_scheme \<Rightarrow> 'a req_st_scheme option" where
  "complete_and_free p s =
     do { _ \<leftarrow> get_req p s; sys_free_req_obj p (upd_req p (\<lambda>r. r\<lparr>req_stage := REQ_COMPLETED\<rparr>) s) }"

section \<open>Start of the driver\<close>

definition init_thread :: "nat \<Rightarrow> isp_ftn_thread_t \<Rightarrow> isp_ftn_thread_t" where
  "init_thread i t = t\<lparr>it_index := i, ctrl_cmd_req := NULL, it_thrd_id := ISP_THREAD_START_INDEX + i, isp_thrd_id := of_nat (i + 1),
     it_msg_in_q := ISP_Q_START_INDEX + i * 2, it_msg_out_q := ISP_Q_START_INDEX + i * 2 + 1, it_applet_id := 0, it_ftn_id := 0,
     it_arg_size := 0, function_exited := True, sync_nand_op_req := NULL,
     pending_dma := DEFINE_CIRCULAR_QUEUE (replicate PENDING_DMA_QUEUE_SIZE NULL),
     cmplt_dma := DEFINE_CIRCULAR_QUEUE (replicate PENDING_DMA_QUEUE_SIZE NULL), it_arg_buffer := 0\<rparr>"

definition init_isp_driver :: "geo \<Rightarrow> 'a isp_st_scheme \<Rightarrow> (int \<times> 'a isp_st_scheme) option" where
  "init_isp_driver g s =
     do {
       (msg_f, s1) \<leftarrow> sys_add_thread_function NVME_DRIVER_THREAD msg_cbk_ftn s;
       (rec_f, s2) \<leftarrow> sys_add_thread_function NVME_DRIVER_THREAD recycle_control_command_ftn s1;
       let s3 = s2\<lparr>recycle_ctrl_cmd_ftn_id := rec_f, isp_threads := map (\<lambda>i. init_thread i (isp_threads s2 ! i)) [0..<MAX_ISP_THREADS]\<rparr>;
       (a, s4) \<leftarrow> get_uncacheable_ram (MAX_TX_SIZE g) s3;
       (_, s5) \<leftarrow> sys_create_thread (it_thrd_id (thrd0 s4)) s4;
       (cbk, s6) \<leftarrow> sys_add_thread_function (it_thrd_id (thrd0 s5)) thrd_cbk_ftn s5;
       (_, s7) \<leftarrow> sys_create_obj_queue (it_msg_in_q (thrd0 s6)) NVME_DRIVER_THREAD cbk s6;
       (_, s8) \<leftarrow> sys_create_obj_queue (it_msg_out_q (thrd0 s7)) (it_thrd_id (thrd0 s7)) msg_f s7;
       (b, s9) \<leftarrow> get_uncacheable_ram (2 ^ 24) (upd_thrd0 (\<lambda>t. t\<lparr>it_arg_buffer := a, it_cbk_ftn := cbk\<rparr>) s8);
       Some (0, s9\<lparr>nand_op_buffer := b\<rparr>)
     }"

section \<open>Vendor commands\<close>

text \<open>The completed DMA requests of an earlier run go back to the pool.\<close>

partial_function (option) drain_cmplt :: "'a isp_st_scheme \<Rightarrow> 'a isp_st_scheme option" where
  "drain_cmplt s =
     (case deQueue (cmplt_dma (thrd0 s)) of
        (None, q) \<Rightarrow> Some s
      | (Some p, q) \<Rightarrow> do { s1 \<leftarrow> complete_and_free p (upd_thrd0 (\<lambda>t. t\<lparr>cmplt_dma := q\<rparr>) s); drain_cmplt s1 })"

text \<open>Eight new requests are allocated; the queue keeps seven of them and the last one is released.\<close>

fun refill_cmplt :: "nat \<Rightarrow> 'a isp_st_scheme \<Rightarrow> 'a isp_st_scheme option" where
  "refill_cmplt 0 s = Some s"
| "refill_cmplt (Suc n) s =
     do {
       (p, s1) \<leftarrow> sys_malloc_req_obj ISP_HOST_DMA_REQUEST s;
       s2 \<leftarrow> (case enQueue (cmplt_dma (thrd0 s1)) p of
               (None, q) \<Rightarrow> complete_and_free p s1
             | (Some _, q) \<Rightarrow> Some (upd_thrd0 (\<lambda>t. t\<lparr>cmplt_dma := q\<rparr>) s1));
       refill_cmplt n s2
     }"

definition store_scmd_arg :: "NvmeSCmd \<Rightarrow> nat \<Rightarrow> mem \<Rightarrow> mem" where
  "store_scmd_arg c a m =
     store32 (store32 (store32 (store32 (store32 (store32 m a (cdw10 c)) (a + 4) (cdw12 c)) (a + 8) (cdw12 c)) (a + 12) (cdw13 c))
       (a + 16) (cdw14 c)) (a + 20) (cdw15 c)"

definition execute_command :: "NvmeSCmd \<Rightarrow> obj_ptr \<Rightarrow> 'a isp_st_scheme \<Rightarrow> 'a isp_st_scheme option" where
  "execute_command c p s =
     do {
       let s1 = upd_thrd0 (\<lambda>t. t\<lparr>it_applet_id := isp_applet_id c, it_ftn_id := isp_ftn_id c, it_arg_size := isp_arg_size c, function_exited := False\<rparr>) s;
       s2 \<leftarrow> (if ctrl_cmd_req (thrd0 s1) = NULL then Some s1 else complete_and_free (ctrl_cmd_req (thrd0 s1)) s1);
       s3 \<leftarrow> drain_cmplt (upd_thrd0 (\<lambda>t. t\<lparr>ctrl_cmd_req := NULL\<rparr>) s2);
       s4 \<leftarrow> refill_cmplt PENDING_DMA_QUEUE_SIZE s3;
       s5 \<leftarrow> (if sync_nand_op_req (thrd0 s4) = NULL then Some s4 else complete_and_free (sync_nand_op_req (thrd0 s4)) s4);
       (q, s6) \<leftarrow> sys_malloc_req_obj ISP_READ_PAGES_REQUEST s5;
       let s7 = upd_thrd0 (\<lambda>t. t\<lparr>sync_nand_op_req := q\<rparr>) s6;
       let n = it_arg_size (thrd0 s7);
       s8 \<leftarrow> (if n > 24 then
               do {
                 req \<leftarrow> get_req p s7;
                 (r, t1) \<leftarrow> decode_prp (prp1 (scmd req)) (prp2 (scmd req)) (DMA_OF p) (upd_dma (DMA_OF p) (\<lambda>d. d\<lparr>data_size := n\<rparr>) s7);
                 sync_host_dma (DMA_OF p) PCI_DMA_READ
                   (upd_dma (DMA_OF p) (\<lambda>d. d\<lparr>buffer_addr := it_arg_buffer (thrd0 t1), c_op_smem_pg := 0, c_op_len := n\<rparr>) t1)
               }
             else Some (s7\<lparr>ram := store_scmd_arg c (it_arg_buffer (thrd0 s7)) (ram s7)\<rparr>));
       let s9 = snd (sys_push_obj_to_queue (it_msg_in_q (thrd0 s8)) (ISP_THRD 0) MSG_IN_EXECUTE_FTN s8);
       req \<leftarrow> get_req p s9;
       enqueue_io_ccmd (unat (cqid req)) p (upd_req p (\<lambda>r. r\<lparr>ccmd_dw0 := isp_thrd_id (thrd0 s9)\<rparr>) s9)
     }"

definition post_dma_msg :: "obj_ptr \<Rightarrow> obj_ptr \<Rightarrow> 'a isp_st_scheme \<Rightarrow> 'a isp_st_scheme option" where
  "post_dma_msg dma_req ctrl s =
     do {
       d \<leftarrow> get_req dma_req s;
       c \<leftarrow> get_req ctrl s;
       let s1 = upd_req ctrl (\<lambda>r. r\<lparr>ccmd_dw0 := request_code d\<rparr>) s;
       let s2 = upd_req dma_req (\<lambda>r. r\<lparr>ctrl_cmd_index := ctrl_cmd_index c\<rparr>) s1;
       enqueue_io_ccmd (unat (cqid c)) ctrl (upd_thrd0 (\<lambda>t. t\<lparr>active_dma_req := (active_dma_req t)[0 := dma_req]\<rparr>) s2)
     }"

definition post_ctrl :: "u32 \<Rightarrow> obj_ptr \<Rightarrow> 'a isp_st_scheme \<Rightarrow> 'a isp_st_scheme option" where
  "post_ctrl dw0 p s =
     do { r \<leftarrow> get_req p s; enqueue_io_ccmd (unat (cqid r)) p (upd_req p (\<lambda>r. r\<lparr>ccmd_dw0 := dw0\<rparr>) s) }"

definition recycle_control_command :: "'a isp_st_scheme \<Rightarrow> 'a isp_st_scheme option" where
  "recycle_control_command s =
     (let c = ctrl_cmd_req (thrd0 s) in
      if c = NULL then Some s
      else do {
        s1 \<leftarrow> (case deQueue (pending_dma (thrd0 s)) of
                (Some d, q) \<Rightarrow> post_dma_msg d c (upd_thrd0 (\<lambda>t. t\<lparr>pending_dma := q\<rparr>) s)
              | (None, q) \<Rightarrow> post_ctrl (if function_exited (thrd0 s) then 0 else ISP_APPLET_ABR_MSG_RC) c s);
        Some (upd_thrd0 (\<lambda>t. t\<lparr>ctrl_cmd_req := NULL\<rparr>) s1)
      })"

definition control_command :: "NvmeSCmd \<Rightarrow> obj_ptr \<Rightarrow> 'a isp_st_scheme \<Rightarrow> 'a isp_st_scheme option" where
  "control_command c p s =
     (let s1 = upd_req p (\<lambda>r. r\<lparr>ctrl_cmd_index := cdw10 c\<rparr>) s in
      if function_exited (thrd0 s1) then post_ctrl 0 p s1
      else case deQueue (pending_dma (thrd0 s1)) of
        (Some d, q) \<Rightarrow> post_dma_msg d p (upd_thrd0 (\<lambda>t. t\<lparr>pending_dma := q\<rparr>) s1)
      | (None, q) \<Rightarrow> Some (snd (sys_add_callback_ftn (recycle_ctrl_cmd_ftn_id s1) (ISP_THRD 0) (upd_thrd0 (\<lambda>t. t\<lparr>ctrl_cmd_req := p\<rparr>) s1))))"

definition data_transfer_command :: "NvmeSCmd \<Rightarrow> obj_ptr \<Rightarrow> 'a isp_st_scheme \<Rightarrow> 'a isp_st_scheme option" where
  "data_transfer_command c p s =
     do {
       let dma_req = active_dma_req (thrd0 s) ! 0;
       (r, s1) \<leftarrow> decode_prp (prp1 c) (prp2 c) (DMA_OF p) (upd_dma (DMA_OF p) (\<lambda>d. d\<lparr>data_size := cdw11 c\<rparr>) s);
       d \<leftarrow> get_req dma_req s1;
       let s2 = upd_dma (DMA_OF p) (\<lambda>x. x\<lparr>buffer_addr := nand_ssd_addr d, c_op_smem_pg := 0, c_op_len := data_size x\<rparr>) s1;
       let s3 = upd_req dma_req (\<lambda>r. r\<lparr>req_stage := ISP_HOST_DMA_REQ_TX_ON\<rparr>) s2;
       s4 \<leftarrow> (if tx_type d = ISP_APPLET_READ_DTX then sync_host_dma (DMA_OF p) PCI_DMA_READ s3
             else if tx_type d = ISP_APPLET_WRITE_DTX then sync_host_dma (DMA_OF p) PCI_DMA_WRITE s3
             else Some s3);
       x \<leftarrow> get_dma (DMA_OF p) s4;
       let s5 = upd_req dma_req (\<lambda>r. r\<lparr>transfered_size := transfered_size r + data_size x\<rparr>) s4;
       req \<leftarrow> get_req p s5;
       s6 \<leftarrow> enqueue_io_ccmd (unat (cqid req)) p s5;
       Some (upd_req dma_req (\<lambda>r. r\<lparr>req_stage := ISP_HOST_DMA_REQ_CMPT\<rparr>) s6)
     }"

definition isp_io :: "NvmeSCmd \<Rightarrow> obj_ptr \<Rightarrow> 'a isp_st_scheme \<Rightarrow> 'a isp_st_scheme option" where
  "isp_io c p s =
     (if opcode c = ISP_IO_OPCODE then execute_command c p (upd_req p (\<lambda>r. r\<lparr>req_stage := ISP_EXEC_PENDING_POST\<rparr>) s)
      else if opcode c = ISP_CTRL_OPCODE then control_command c p (upd_req p (\<lambda>r. r\<lparr>req_stage := ISP_CTRL_PENDING_MSG\<rparr>) s)
      else if opcode c = ISP_DATA_TX_OPCODE then data_transfer_command c p (upd_req p (\<lambda>r. r\<lparr>req_stage := ISP_DATA_TRANSFERING\<rparr>) s)
      else Some s)"

section \<open>Messages from the applet thread\<close>

definition msg_cbk :: "obj_ptr \<Rightarrow> u32 \<Rightarrow> 'a isp_st_scheme \<Rightarrow> 'a isp_st_scheme option" where
  "msg_cbk obj req_type s =
     (if req_type = ISP_HOST_DMA_REQUEST then
        (let c = ctrl_cmd_req (thrd0 s) in
         if c = NULL then Some s
         else do { s1 \<leftarrow> post_dma_msg obj c s; Some (upd_thrd0 (\<lambda>t. t\<lparr>ctrl_cmd_req := NULL\<rparr>) s1) })
      else if req_type = ISP_READ_PAGES_REQUEST \<or> req_type = ISP_PROGRAM_PAGES_REQUEST then Some (sys_push_to_ftl obj req_type s)
      else if req_type = ISP_EXECUTION_EXIT then
        (let c = ctrl_cmd_req (thrd0 s) in
         if c = NULL then Some s
         else do { s1 \<leftarrow> post_ctrl 0 c s; Some (upd_thrd0 (\<lambda>t. t\<lparr>ctrl_cmd_req := NULL\<rparr>) s1) })
      else Some s)"

section \<open>Calls of the applet\<close>

text \<open>\<open>serve q h\<close>: the thread that owns queue \<open>q\<close> takes its oldest object and runs its handler.\<close>

definition serve :: "nat \<Rightarrow> (obj_ptr \<Rightarrow> u32 \<Rightarrow> 'a kernel_st_scheme \<Rightarrow> 'a kernel_st_scheme option) \<Rightarrow> 'a kernel_st_scheme \<Rightarrow> 'a kernel_st_scheme option" where
  "serve q h s =
     (let (e, s1) = pop_obj_from_queue q s in
      if e = -1 then None else let (ty, p) = oq_entries (queues s1 ! q) ! nat e in h p ty s1)"

definition do_sync_nand_op :: "geo \<Rightarrow> u32 \<Rightarrow> u32 \<Rightarrow> nat \<Rightarrow> u32 \<Rightarrow> 'a isp_st_scheme \<Rightarrow> (u32 \<times> 'a isp_st_scheme) option" where
  "do_sync_nand_op g lpn n addr ty s =
     do {
       let p = sync_nand_op_req (thrd0 s);
       _ \<leftarrow> get_req p s;
       let s1 = upd_req p (\<lambda>r. r\<lparr>rq_type := ty, start_lpn := lpn, num_of_lpn := n, nand_ssd_addr := addr, cbk_ftn_id := SYNC_CALL,
         isp_status := 0, exec_thrd := 0, req_stage := ISP_NAND_OP_INIT\<rparr>) s;
       let s2 = snd (sys_push_obj_to_queue (it_msg_out_q (thrd0 s1)) p ty s1);
       s3 \<leftarrow> serve (it_msg_out_q (thrd0 s2)) msg_cbk s2;
       s4 \<leftarrow> serve FTL_MODULE_IN_Q (process_req_cbk g) s3;
       r \<leftarrow> get_req p s4;
       if req_stage r = ISP_NAND_OP_CMPLT then Some (0, s4) else None
     }"

definition do_read_flash_pages :: "geo \<Rightarrow> u32 \<Rightarrow> u32 \<Rightarrow> nat \<Rightarrow> u32 \<Rightarrow> 'a isp_st_scheme \<Rightarrow> (u32 \<times> 'a isp_st_scheme) option" where
  "do_read_flash_pages g lpn n addr cb s =
     (if cb = SYNC_CALL then do_sync_nand_op g lpn n addr ISP_READ_PAGES_REQUEST s else Some (0, s))"

definition do_program_flash_pages :: "geo \<Rightarrow> u32 \<Rightarrow> u32 \<Rightarrow> nat \<Rightarrow> u32 \<Rightarrow> 'a isp_st_scheme \<Rightarrow> (u32 \<times> 'a isp_st_scheme) option" where
  "do_program_flash_pages g lpn n addr cb s =
     (if cb = SYNC_CALL then do_sync_nand_op g lpn n addr ISP_PROGRAM_PAGES_REQUEST s else Some (0, s))"

text \<open>The word the host gets: size, first page and direction of a transfer.\<close>

definition dtx_request_code :: "u32 \<Rightarrow> u32 \<Rightarrow> u32 \<Rightarrow> u32" where
  "dtx_request_code n page ty = push_bit (CTRL_MSG_DTX_SPAGE_BITS + 2) n OR push_bit 2 page OR ty"

text \<open>\<open>_do_sync_host_dma_\<close>: \<open>wait\<close> is what the other threads and the host do until the request is complete.\<close>

definition do_sync_host_dma_1 ::
  "('a isp_st_scheme \<Rightarrow> 'a isp_st_scheme option) \<Rightarrow> u32 \<Rightarrow> nat \<Rightarrow> u32 \<Rightarrow> u32 \<Rightarrow> 'a isp_st_scheme \<Rightarrow> (u32 \<times> 'a isp_st_scheme) option" where
  "do_sync_host_dma_1 wait page addr n ty s =
     (case deQueue (cmplt_dma (thrd0 s)) of
        (None, _) \<Rightarrow> None
      | (Some p, q) \<Rightarrow>
          do {
            _ \<leftarrow> get_req p s;
            let s1 = upd_req p (\<lambda>r. r\<lparr>nand_ssd_addr := addr, start_mem_page := page, tx_size := n, exec_thrd := 0, tx_type := ty,
              request_code := dtx_request_code n page ty, transfered_size := 0, req_stage := ISP_HOST_DMA_REQ_INIT\<rparr>)
              (upd_thrd0 (\<lambda>t. t\<lparr>cmplt_dma := q\<rparr>) s);
            let s2 = upd_thrd0 (\<lambda>t. t\<lparr>pending_dma := snd (enQueue (pending_dma t) p)\<rparr>) s1;
            s3 \<leftarrow> wait (snd (sys_push_obj_to_queue (it_msg_out_q (thrd0 s2)) p ISP_HOST_DMA_REQUEST s2));
            r \<leftarrow> get_req p s3;
            if req_stage r \<noteq> ISP_HOST_DMA_REQ_CMPT then None
            else Some (transfered_size r, upd_thrd0 (\<lambda>t. t\<lparr>cmplt_dma := snd (enQueue (cmplt_dma t) p)\<rparr>) s3)
          })"

text \<open>\<open>do_sync_host_dma\<close>: the parts a long transfer is cut into, with the iterations left.\<close>

fun host_dma_parts :: "u32 \<Rightarrow> u32 \<Rightarrow> nat \<Rightarrow> u32 \<Rightarrow> nat \<Rightarrow> u32 \<Rightarrow> (u32 \<times> nat \<times> u32) list" where
  "host_dma_parts mx pgsz 0 page addr rest = []"
| "host_dma_parts mx pgsz (Suc k) page addr rest =
     (let n = min mx rest in (page, addr, n) # host_dma_parts mx pgsz k (page + n div pgsz) (addr + unat n) (rest - n))"

fun run_parts ::
  "('a isp_st_scheme \<Rightarrow> 'a isp_st_scheme option) \<Rightarrow> u32 \<Rightarrow> (u32 \<times> nat \<times> u32) list \<Rightarrow> 'a isp_st_scheme \<Rightarrow> (u32 \<times> 'a isp_st_scheme) option" where
  "run_parts wait ty [] s = Some (0, s)"
| "run_parts wait ty ((page, addr, n) # ps) s =
     do { (r, s1) \<leftarrow> do_sync_host_dma_1 wait page addr n ty s; (t, s2) \<leftarrow> run_parts wait ty ps s1; Some (r + t, s2) }"

definition do_sync_host_dma ::
  "geo \<Rightarrow> ('a isp_st_scheme \<Rightarrow> 'a isp_st_scheme option) \<Rightarrow> u32 \<Rightarrow> nat \<Rightarrow> u32 \<Rightarrow> u32 \<Rightarrow> 'a isp_st_scheme \<Rightarrow> (u32 \<times> 'a isp_st_scheme) option" where
  "do_sync_host_dma g wait page addr n ty s =
     (let mx = of_nat (MAX_TX_SIZE g); k = unat (n div mx) + (if n mod mx \<noteq> 0 then 1 else 0)
      in run_parts wait ty (host_dma_parts mx (hostMemPageSize s) k page addr n) s)"

text \<open>The size transferred is dropped: both calls return 0.\<close>

definition do_read_host_buffer ::
  "geo \<Rightarrow> ('a isp_st_scheme \<Rightarrow> 'a isp_st_scheme option) \<Rightarrow> u32 \<Rightarrow> u32 \<Rightarrow> nat \<Rightarrow> u32 \<Rightarrow> 'a isp_st_scheme \<Rightarrow> (u32 \<times> 'a isp_st_scheme) option" where
  "do_read_host_buffer g wait page n addr cb s =
     (if cb = SYNC_CALL then do { (t, s1) \<leftarrow> do_sync_host_dma g wait page addr n ISP_APPLET_READ_DTX s; Some (0, s1) } else Some (0, s))"

definition do_write_host_buffer ::
  "geo \<Rightarrow> ('a isp_st_scheme \<Rightarrow> 'a isp_st_scheme option) \<Rightarrow> u32 \<Rightarrow> u32 \<Rightarrow> nat \<Rightarrow> u32 \<Rightarrow> 'a isp_st_scheme \<Rightarrow> (u32 \<times> 'a isp_st_scheme) option" where
  "do_write_host_buffer g wait page n addr cb s =
     (if cb = SYNC_CALL then do { (t, s1) \<leftarrow> do_sync_host_dma g wait page addr n ISP_APPLET_WRITE_DTX s; Some (0, s1) } else Some (0, s))"

definition alloc_page_buffer :: "geo \<Rightarrow> u32 \<Rightarrow> 'a isp_st_scheme \<Rightarrow> nat \<times> 'a isp_st_scheme" where
  "alloc_page_buffer g n s =
     (let bytes = push_bit (HOST_DS g) n in
      if current_ofs s + bytes > 2 ^ 24 then (0, s)
      else (nand_op_buffer s + unat (current_ofs s), s\<lparr>current_ofs := current_ofs s + bytes\<rparr>))"

definition free_all_page_buffer :: "'a isp_st_scheme \<Rightarrow> 'a isp_st_scheme" where
  "free_all_page_buffer s = s\<lparr>current_ofs := 0\<rparr>"

section \<open>Applets\<close>

text \<open>
  The applet header in memory: the magic string at 0, the initialisation function at 88, the
  functions of 68 bytes each from 100. \<open>call_init\<close> and \<open>call_ftn\<close> are the applet's code. The loop over
  the magic string compares its first character eight times.
\<close>

definition add_applet ::
  "(nat \<Rightarrow> 'a isp_st_scheme \<Rightarrow> (u32 \<times> 'a isp_st_scheme) option) \<Rightarrow> nat \<Rightarrow> u32 \<Rightarrow> 'a isp_st_scheme \<Rightarrow> (int \<times> 'a isp_st_scheme) option" where
  "add_applet call_init ptr n s =
     (let s1 = s\<lparr>isp_header := ptr\<rparr> in
      if ram s1 ptr \<noteq> 0x73 then Some (5, s1)
      else do {
        (err, s2) \<leftarrow> call_init (unat (load32 (ram s1) (ptr + 88))) s1;
        Some (if err \<noteq> 0 then 6 else 0, s2)
      })"

definition thrd_cbk ::
  "(nat \<Rightarrow> nat \<Rightarrow> u32 \<Rightarrow> 'a isp_st_scheme \<Rightarrow> (u32 \<times> 'a isp_st_scheme) option) \<Rightarrow> u32 \<Rightarrow> 'a isp_st_scheme \<Rightarrow> 'a isp_st_scheme option" where
  "thrd_cbk call_ftn arg_1 s =
     (if arg_1 = MSG_IN_EXECUTE_FTN then
        do {
          let t = thrd0 s;
          if it_ftn_id t = 0 then None
          else do {
            let f = load32 (ram s) (isp_header s + 100 + 68 * (unat (it_ftn_id t) - 1));
            (r, s1) \<leftarrow> call_ftn (unat f) (it_arg_buffer t) (it_arg_size t) s;
            let s2 = upd_thrd0 (\<lambda>t. t\<lparr>function_rtn := r, function_exited := True\<rparr>) (free_all_page_buffer s1);
            Some (snd (sys_push_obj_to_queue (it_msg_out_q (thrd0 s2)) (ISP_THRD 0) ISP_EXECUTION_EXIT s2))
          }
        }
      else Some s)"

end
