(* ===== verification/Nvme_Admin.thy ===== *)
theory Nvme_Admin
  imports Isp_Driver
begin

text \<open>
  The NVMe driver, third part (\<^verbatim>\<open>nvme_driver.c\<close>): the admin commands. A structure the driver fills
  in place (identify data, queue tables) is written field by field as the code does; a queue
  identifier past the table of queues is \<open>None\<close>.
\<close>

unbundle bit_operations_syntax

section \<open>Identify\<close>

definition NVME_SC_INVALID_OPCODE :: u16 where "NVME_SC_INVALID_OPCODE = 1"
definition NVME_SC_INVALID_FIELD :: u16 where "NVME_SC_INVALID_FIELD = 2"
definition NVME_SC_DNR :: u16 where "NVME_SC_DNR = 0x4000"
definition NVME_OPC_DELETE_IO_SQ :: u8 where "NVME_OPC_DELETE_IO_SQ = 0"
definition NVME_OPC_CREATE_IO_SQ :: u8 where "NVME_OPC_CREATE_IO_SQ = 1"
definition NVME_OPC_DELETE_IO_CQ :: u8 where "NVME_OPC_DELETE_IO_CQ = 4"
definition NVME_OPC_CREATE_IO_CQ :: u8 where "NVME_OPC_CREATE_IO_CQ = 5"
definition NVME_OPC_IDENTIFY :: u8 where "NVME_OPC_IDENTIFY = 6"
definition NVME_OPC_ABORT :: u8 where "NVME_OPC_ABORT = 8"
definition NVME_OPC_SET_FEATURES :: u8 where "NVME_OPC_SET_FEATURES = 9"
definition NVME_OPC_GET_FEATURES :: u8 where "NVME_OPC_GET_FEATURES = 0xa"
definition NVME_OPC_FIRMWARE_ACTIVATE :: u8 where "NVME_OPC_FIRMWARE_ACTIVATE = 0x10"
definition NVME_OPC_FIRMWARE_IMAGE_DOWNLOAD :: u8 where "NVME_OPC_FIRMWARE_IMAGE_DOWNLOAD = 0x11"

text \<open>\<open>strpadcpy\<close> from a string literal, whose address does not matter (\<open>strpadcpy_literal\<close> below).\<close>

definition put_literal :: "mem \<Rightarrow> nat \<Rightarrow> nat \<Rightarrow> string \<Rightarrow> u8 \<Rightarrow> mem" where
  "put_literal m buf n str pad =
     (\<lambda>a. if buf \<le> a \<and> a < buf + n then (if a - buf < length str then of_char (str ! (a - buf)) else pad) else m a)"

lemma strnlen_from_string:
  assumes "\<And>j. j < k \<Longrightarrow> m (s + i + j) \<noteq> 0" "k < n \<Longrightarrow> m (s + i + k) = 0"
  shows "strnlen_from m s i n = i + min k n"
  using assms
proof (induction m s i n arbitrary: k rule: strnlen_from.induct)
  case (2 m s i n)
  show ?case
  proof (cases k)
    case 0
    with 2(3) show ?thesis by simp
  next
    case (Suc k')
    have "m (s + i) \<noteq> 0" using 2(2) [of 0] Suc by simp
    moreover from this have "strnlen_from m s (Suc i) n = Suc i + min k' n"
      using 2(2) [of "Suc _"] 2(3) Suc by (intro 2(1)) auto
    ultimately show ?thesis using Suc by simp
  qed
qed simp

lemma strpadcpy_literal:
  assumes str: "\<And>i. i < length str \<Longrightarrow> m (p + i) = of_char (str ! i)" "\<And>i. i < length str \<Longrightarrow> m (p + i) \<noteq> 0" "m (p + length str) = 0"
    and "buf + n \<le> p \<or> p + length str \<le> buf"
  shows "strpadcpy m buf n p pad = put_literal m buf n str pad"
proof -
  have l: "strnlen m p n = min (length str) n"
    unfolding strnlen_def using strnlen_from_string [of "length str" m p 0 n] str(2,3) by simp
  have "memcpy8 m buf p (min (length str) n) a = (if buf \<le> a \<and> a < buf + min (length str) n then m (p + (a - buf)) else m a)" for a
    using assms(4) by (intro memcpy8_apply) auto
  then show ?thesis
    by (auto simp: strpadcpy_def Let_def l memset8_apply put_literal_def str(1) fun_eq_iff simp del: Nat.add_diff_assoc)
qed

text \<open>The exponent of the transfer limit: one more for every halving of the page count above one.\<close>

fun mdts_loop :: "nat \<Rightarrow> u8 \<Rightarrow> u8" where
  "mdts_loop n r = (if n > 1 then mdts_loop (n div 2) (r + 1) else r)"

declare mdts_loop.simps [simp del]

definition id_controller :: "geo \<Rightarrow> nat \<Rightarrow> mem \<Rightarrow> mem" where
  "id_controller g a m =
     (let m = store16 m a 0x8086;
          m = store16 m (a + 2) 0x1af4;
          m = put_literal m (a + 24) 40 ''ESOS/SnP NVMe Ctrl'' 0x20;
          m = put_literal m (a + 64) 8 ''1.0'' 0x20;
          m = put_literal m (a + 4) 20 ''Gem5iSSD'' 0x20;
          m = m(a + 72 := 6, a + 73 := 0x00, a + 74 := 0x02, a + 75 := 0xb3);
          m = store16 m (a + 256) 0;
          m = m(a + 260 := push_bit 1 7, a + 261 := 1, a + 512 := push_bit 4 6 OR 6, a + 513 := push_bit 4 4 OR 4);
          m = store32 m (a + 516) (of_nat NUM_NS);
          m = store16 m (a + 520) 0;
          m = store16 m (a + 2048) 0x9c4;
          m = store32 m (a + 2052) 0x10;
          m = store32 m (a + 2056) 4
      in m(a + 525 := 1, a + 77 := mdts_loop (MAX_TX_SIZE g div 2 ^ 12) 0))"

definition id_namespace :: "geo \<Rightarrow> ssd_config_t \<Rightarrow> nat \<Rightarrow> mem \<Rightarrow> mem" where
  "id_namespace g c a m =
     (let m = m(a + 24 := 0, a + 25 := 0, a + 26 := 0, a + 27 := 0, a + 28 := 0, a + 29 := 0, a + 130 := of_nat (HOST_DS g));
          m = store64 m (a + 8) (ucast (ncap c));
          m = store64 m (a + 16) (ucast (nuse c))
      in store64 m a (ucast (nsze c)))"

text \<open>The namespaces from \<open>min_nsid\<close> on, from entry \<open>j\<close> of the list.\<close>

fun ns_ids :: "nat \<Rightarrow> u32 \<Rightarrow> nat list \<Rightarrow> nat \<Rightarrow> mem \<Rightarrow> mem" where
  "ns_ids a min_nsid [] j m = m"
| "ns_ids a min_nsid (i # is) j m =
     (if of_nat i < min_nsid then ns_ids a min_nsid is j m
      else let m = store32 m (a + 4 * j) (of_nat (i + 1)) in
        if j + 1 = IdDataSize div 4 then m else ns_ids a min_nsid is (j + 1) m)"

definition id_ns_list :: "u32 \<Rightarrow> nat \<Rightarrow> mem \<Rightarrow> mem" where
  "id_ns_list min_nsid a m = ns_ids a min_nsid [0..<NUM_NS] 0 (memset32 m a 0 (IdDataSize div 4))"

definition send_identify :: "u32 \<Rightarrow> nat \<Rightarrow> obj_ptr \<Rightarrow> 'a nvme_st_scheme \<Rightarrow> 'a nvme_st_scheme option" where
  "send_identify n addr p s =
     do {
       req \<leftarrow> get_req p s;
       s1 \<leftarrow> do_sync_dma (prp1 (scmd req)) (prp2 (scmd req)) (DMA_OF p) addr PCI_DMA_WRITE
         (upd_dma (DMA_OF p) (\<lambda>d. d\<lparr>data_size := n\<rparr>) s);
       enqueue_admin_ccmd p s1
     }"

definition nvme_identify :: "geo \<Rightarrow> obj_ptr \<Rightarrow> 'a nvme_st_scheme \<Rightarrow> 'a nvme_st_scheme option" where
  "nvme_identify g p s =
     do {
       req \<leftarrow> get_req p s;
       let cns = id_cns (scmd req);
       if cns = 1 then send_identify 4096 (idCtrlBuf s) p (s\<lparr>ram := id_controller g (idCtrlBuf s) (ram s)\<rparr>)
       else if cns = 0 then send_identify 4096 (idNsBuf s) p (s\<lparr>ram := id_namespace g (ssd_config s) (idNsBuf s) (ram s)\<rparr>)
       else if cns = 2 then
         send_identify (of_nat IdDataSize) (NvmeIdNSBuf s) p (s\<lparr>ram := id_ns_list (nsid (scmd req)) (NvmeIdNSBuf s) (ram s)\<rparr>)
       else Some s
     }"

section \<open>Features\<close>

definition words :: "u16 \<Rightarrow> u16 \<Rightarrow> u32" where
  "words w0 w1 = ucast w0 OR push_bit 16 (ucast w1)"

definition nvme_set_feature :: "obj_ptr \<Rightarrow> 'a nvme_st_scheme \<Rightarrow> 'a nvme_st_scheme option" where
  "nvme_set_feature p s =
     do {
       req \<leftarrow> get_req p s;
       let c = scmd req;
       if feat_fid c = 7 then
         enqueue_admin_ccmd p (upd_req p (\<lambda>r. r\<lparr>ccmd_dw0 :=
           words (min (feat_nsq c) (of_nat MAX_IO_SQCQ_PAIRS)) (min (feat_ncq c) (of_nat MAX_IO_SQCQ_PAIRS))\<rparr>) s)
       else if feat_fid c = 6 then enqueue_admin_ccmd p s
       else enqueue_admin_ccmd p (upd_req p (\<lambda>r. r\<lparr>status := NVME_SC_INVALID_FIELD OR NVME_SC_DNR\<rparr>) s)
     }"

definition nvme_get_feature :: "obj_ptr \<Rightarrow> 'a nvme_st_scheme \<Rightarrow> 'a nvme_st_scheme option" where
  "nvme_get_feature p s =
     do {
       req \<leftarrow> get_req p s;
       let c = scmd req;
       if feat_fid c = 7 then
         enqueue_admin_ccmd p (upd_req p (\<lambda>r. r\<lparr>ccmd_dw0 := words (ucast (iosqCount s)) (ucast (iocqCount s))\<rparr>) s)
       else if feat_fid c = 6 then enqueue_admin_ccmd p s
       else enqueue_admin_ccmd p (upd_req p (\<lambda>r. r\<lparr>status := NVME_SC_INVALID_FIELD OR NVME_SC_DNR\<rparr>) s)
     }"

section \<open>Applet download and activation\<close>

definition nvme_fw_download :: "obj_ptr \<Rightarrow> 'a nvme_st_scheme \<Rightarrow> 'a nvme_st_scheme option" where
  "nvme_fw_download p s =
     do {
       req \<leftarrow> get_req p s;
       let c = scmd req;
       let n = push_bit 2 (fw_num_dwords c + 1);
       let off = push_bit 2 (fw_dword_off c);
       s1 \<leftarrow> do_sync_dma (prp1 c) (prp2 c) (DMA_OF p) (external_code_buffer s + unat off) PCI_DMA_READ
         (upd_dma (DMA_OF p) (\<lambda>d. d\<lparr>data_size := n\<rparr>) s);
       d \<leftarrow> get_dma (DMA_OF p) s1;
       enqueue_admin_ccmd p (s1\<lparr>external_code_size := off + data_size d\<rparr>)
     }"

definition nvme_fw_activate ::
  "(nat \<Rightarrow> 'a isp_st_scheme \<Rightarrow> (u32 \<times> 'a isp_st_scheme) option) \<Rightarrow> obj_ptr \<Rightarrow> 'a isp_st_scheme \<Rightarrow> 'a isp_st_scheme option" where
  "nvme_fw_activate call_init p s =
     do { (r, s1) \<leftarrow> add_applet call_init (external_code_buffer s) (external_code_size s) s; enqueue_admin_ccmd p s1 }"

section \<open>Creating and deleting queues\<close>

definition nvme_create_sq :: "obj_ptr \<Rightarrow> 'a nvme_st_scheme \<Rightarrow> 'a nvme_st_scheme option" where
  "nvme_create_sq p s =
     do {
       req \<leftarrow> get_req p s;
       let c = scmd req;
       let i = unat (csq_sqid c);
       if length (sqs s) \<le> i then None
       else enqueue_admin_ccmd p
         ((set_sq i ((sqs s ! i)\<lparr>sq_sqid := csq_sqid c, sq_size := ucast (csq_size c) + 1, sq_cqid := csq_cqid c, sq_hostAddr := prp1 c,
             sq_head := 0, sq_tail := 0, sq_tailBDReg := DB_REG (AdminDBTail_OFFSET + i * 8)\<rparr>) s)\<lparr>iosqCount := iosqCount s + 1\<rparr>)
     }"

definition nvme_create_cq :: "obj_ptr \<Rightarrow> 'a nvme_st_scheme \<Rightarrow> 'a nvme_st_scheme option" where
  "nvme_create_cq p s =
     do {
       req \<leftarrow> get_req p s;
       let c = scmd req;
       let i = unat (ccq_cqid c);
       if length (cqs s) \<le> i then None
       else do {
         let q = (cqs s ! i)\<lparr>cq_cqid := ccq_cqid c, cq_phase := 1, cq_size := ucast (ccq_size c) + 1, cq_hostAddr := prp1 c,
           cq_irq_enabled := of_bool (ccq_ien c), cq_vector := ucast (ccq_ivector c), cq_head := 0, cq_tail := 0,
           cq_headBDReg := DB_REG (AdminDBHead_OFFSET + i * 8), pend_head := 0, pend_tail := 0,
           pend_size := unat (ucast (ccq_size c) + 1 :: u32)\<rparr>;
         let s1 = set_cq i q s;
         s2 \<leftarrow> (if cq_irq_enabled q \<noteq> 0 then host_write_cmd PCI_ENABLE_MSIX_VECTOR (set_regs (\<lambda>r. r\<lparr>h_cqIntVector := cq_vector q\<rparr>) s1)
               else Some s1);
         enqueue_admin_ccmd p (s2\<lparr>iocqCount := iocqCount s2 + 1\<rparr>)
       }
     }"

definition nvme_delete_sq :: "obj_ptr \<Rightarrow> 'a nvme_st_scheme \<Rightarrow> 'a nvme_st_scheme option" where
  "nvme_delete_sq p s =
     do {
       req \<leftarrow> get_req p s;
       let i = unat (csq_sqid (scmd req));
       if length (sqs s) \<le> i then None
       else enqueue_admin_ccmd p
         ((set_sq i ((sqs s ! i)\<lparr>sq_sqid := 0, sq_size := 0, sq_hostAddr := 0, sq_head := 0, sq_tailBDReg := 0\<rparr>) s)
           \<lparr>iosqCount := iosqCount s - 1\<rparr>)
     }"

definition nvme_delete_cq :: "obj_ptr \<Rightarrow> 'a nvme_st_scheme \<Rightarrow> 'a nvme_st_scheme option" where
  "nvme_delete_cq p s =
     do {
       req \<leftarrow> get_req p s;
       let i = unat (ccq_cqid (scmd req));
       if length (cqs s) \<le> i then None
       else enqueue_admin_ccmd p
         ((set_cq i ((cqs s ! i)\<lparr>cq_cqid := 0, cq_phase := 0, cq_size := 0, cq_hostAddr := 0, cq_irq_enabled := 0, cq_vector := 0,
             cq_head := 0, cq_headBDReg := 0\<rparr>) s)\<lparr>iocqCount := iocqCount s - 1\<rparr>)
     }"

section \<open>Abort, unknown commands, dispatch\<close>

text \<open>The abort command reads the request it looks up for its message: no such request is a read through a null pointer.\<close>

definition nvme_adort_cmd :: "obj_ptr \<Rightarrow> 'a nvme_st_scheme \<Rightarrow> 'a nvme_st_scheme option" where
  "nvme_adort_cmd p s =
     do {
       req \<leftarrow> get_req p s;
       let w = cdw10 (scmd req);
       if sys_find_io_request (ucast (lo16 w)) (ucast (hi16 w)) s = NULL then None else enqueue_admin_ccmd p s
     }"

definition nvme_unimplemented_cmd :: "obj_ptr \<Rightarrow> 'a nvme_st_scheme \<Rightarrow> 'a nvme_st_scheme option" where
  "nvme_unimplemented_cmd p s =
     enqueue_admin_ccmd p (upd_req p (\<lambda>r. r\<lparr>status := NVME_SC_INVALID_OPCODE OR NVME_SC_DNR\<rparr>) s)"

text \<open>The fields of a submission command an admin request keeps.\<close>

definition admin_cp :: "NvmeSCmd \<Rightarrow> NvmeSCmd \<Rightarrow> NvmeSCmd" where
  "admin_cp to from = to\<lparr>opcode := opcode from, fuse := fuse from, cid := cid from, nsid := nsid from,
     prp1 := prp1 from, prp2 := prp2 from, cdw10 := cdw10 from, cdw11 := cdw11 from\<rparr>"

definition admin_dispatch ::
  "geo \<Rightarrow> (nat \<Rightarrow> 'a isp_st_scheme \<Rightarrow> (u32 \<times> 'a isp_st_scheme) option) \<Rightarrow> u8 \<Rightarrow> obj_ptr \<Rightarrow> 'a isp_st_scheme \<Rightarrow> 'a isp_st_scheme option" where
  "admin_dispatch g call_init opc p s =
     (if opc = NVME_OPC_IDENTIFY then nvme_identify g p s
      else if opc = NVME_OPC_SET_FEATURES then nvme_set_feature p s
      else if opc = NVME_OPC_GET_FEATURES then nvme_get_feature p s
      else if opc = NVME_OPC_CREATE_IO_SQ then nvme_create_sq p s
      else if opc = NVME_OPC_CREATE_IO_CQ then nvme_create_cq p s
      else if opc = NVME_OPC_DELETE_IO_SQ then nvme_delete_sq p s
      else if opc = NVME_OPC_DELETE_IO_CQ then nvme_delete_cq p s
      else if opc = NVME_OPC_FIRMWARE_IMAGE_DOWNLOAD then nvme_fw_download p s
      else if opc = NVME_OPC_FIRMWARE_ACTIVATE then nvme_fw_activate call_init p s
      else if opc = NVME_OPC_ABORT then nvme_adort_cmd p s
      else nvme_unimplemented_cmd p s)"

definition process_admin_cmd ::
  "geo \<Rightarrow> (nat \<Rightarrow> 'a isp_st_scheme \<Rightarrow> (u32 \<times> 'a isp_st_scheme) option) \<Rightarrow> 'a isp_st_scheme \<Rightarrow> 'a isp_st_scheme option" where
  "process_admin_cmd g call_init s =
     do {
       let sq = sqs s ! 0;
       let addr = scmd_buf s + 64 * unat (sq_head sq);
       (p, s1) \<leftarrow> sys_malloc_req_obj ADMIN_REQUEST s;
       s2 \<leftarrow> sync_read_scmd 0 (sq_head sq) (sq_hostAddr sq) addr 1 s1;
       let c = load_scmd (ram s2) addr;
       let s3 = upd_req p (\<lambda>r. r\<lparr>status := 0, ccmd_dw0 := 0, scmd_entry := sq_head sq, scmd := admin_cp (scmd r) c\<rparr>) s2;
       sq' \<leftarrow> inc_sq_head (sqs s3 ! 0);
       admin_dispatch g call_init (opcode c) p (set_sq 0 sq' s3)
     }"

end
