(* ===== verification/Ftl_Save.thy ===== *)
theory Ftl_Save
  imports Ftl_Io
begin

text \<open>
  Start and shutdown of the translation layer (\<^verbatim>\<open>ftl.c\<close>): the mapping tables and the
  configuration are saved in flash pages and loaded again. The tables are one linker section
  (\<^verbatim>\<open>linkerS.ld\<close>) with the generated tables first; \<open>section_bytes\<close> and \<open>set_section\<close> are its two
  readings, as bytes and as tables. The configuration is a structure of 9844 bytes.
\<close>

section \<open>Bytes of the tables\<close>

definition bytes_of :: "nat \<Rightarrow> nat \<Rightarrow> u8 list" where
  "bytes_of k v = map (\<lambda>i. of_nat (v div 256 ^ i)) [0..<k]"

definition num_of :: "u8 list \<Rightarrow> nat" where
  "num_of bs = foldr (\<lambda>b n. unat b + 256 * n) bs 0"

definition enc_ppa :: "ppa_t \<Rightarrow> u8 list" where "enc_ppa p = bytes_of 8 (unat (ppa_data p))"
definition dec_ppa :: "u8 list \<Rightarrow> ppa_t" where "dec_ppa bs = ppa_of (of_nat (num_of bs))"
definition enc_u32 :: "u32 \<Rightarrow> u8 list" where "enc_u32 w = bytes_of 4 (unat w)"
definition dec_u32 :: "u8 list \<Rightarrow> u32" where "dec_u32 bs = of_nat (num_of bs)"
definition enc_blk :: "block_meta_t \<Rightarrow> u8 list" where
  "enc_blk b = bytes_of 2 (unat (invalid_pgs b)) @ bytes_of 2 (unat (valid_pgs b)) @ bytes_of 4 (unat (erase_count b))"
definition dec_blk :: "u8 list \<Rightarrow> block_meta_t" where
  "dec_blk bs = \<lparr>invalid_pgs = of_nat (num_of (take 2 bs)), valid_pgs = of_nat (num_of (take 2 (drop 2 bs))),
     erase_count = of_nat (num_of (drop 4 bs))\<rparr>"

text \<open>An array of \<open>n\<close> elements of \<open>k\<close> bytes, and the rest of the bytes.\<close>

definition dec_array :: "nat \<Rightarrow> (u8 list \<Rightarrow> 'b) \<Rightarrow> nat \<Rightarrow> u8 list \<Rightarrow> 'b list" where
  "dec_array k f n bs = map (\<lambda>i. f (take k (drop (k * i) bs))) [0..<n]"

definition section_size :: "geo \<Rightarrow> nat" where
  "section_size g = 8 * TOTAL_NUM_OF_PAGES g + 4 * TOTAL_NUM_OF_PAGES g + 8 * TOTAL_NUM_OF_BLOCK g + 8 * TOTAL_NUM_OF_PLANES g"

definition section_bytes :: "'a ftl_st_scheme \<Rightarrow> u8 list" where
  "section_bytes s = concat (map enc_ppa (lpa_table s)) @ concat (map enc_u32 (ppa_table s)) @
     concat (map enc_blk (blk_table s)) @ concat (map enc_ppa (last_page_per_plane s))"

definition set_section :: "geo \<Rightarrow> u8 list \<Rightarrow> 'a ftl_st_scheme \<Rightarrow> 'a ftl_st_scheme" where
  "set_section g bs s =
     (let n = TOTAL_NUM_OF_PAGES g; b = TOTAL_NUM_OF_BLOCK g in
      s\<lparr>lpa_table := dec_array 8 dec_ppa n bs, ppa_table := dec_array 4 dec_u32 n (drop (8 * n) bs),
        blk_table := dec_array 8 dec_blk b (drop (12 * n) bs),
        last_page_per_plane := dec_array 8 dec_ppa (TOTAL_NUM_OF_PLANES g) (drop (12 * n + 8 * b) bs)\<rparr>)"

definition MAX_MAP_TABLES :: nat where "MAX_MAP_TABLES = 1224"

definition config_size :: nat where "config_size = 52 + 8 * MAX_MAP_TABLES"

definition enc_config :: "ftl_config_t \<Rightarrow> u8 list" where
  "enc_config c = concat (map enc_u32 [cf_nand_ds c, cf_host_ds c, cf_pages_per_block c, cf_total_pages c, rpp_ovp c,
     rpp_map_tables c, total_rpp c, total_logical_pages c, total_invalid_pages c, total_valid_pages c, total_free_pages c]) @
     enc_ppa (last_selected_ppa c) @ concat (map enc_ppa (mapping_tables c))"

definition dec_config :: "u8 list \<Rightarrow> ftl_config_t" where
  "dec_config bs =
     (let w = (\<lambda>i. dec_u32 (take 4 (drop (4 * i) bs))) in
      \<lparr>cf_nand_ds = w 0, cf_host_ds = w 1, cf_pages_per_block = w 2, cf_total_pages = w 3, rpp_ovp = w 4, rpp_map_tables = w 5,
       total_rpp = w 6, total_logical_pages = w 7, total_invalid_pages = w 8, total_valid_pages = w 9, total_free_pages = w 10,
       last_selected_ppa = dec_ppa (take 8 (drop 44 bs)), mapping_tables = dec_array 8 dec_ppa MAX_MAP_TABLES (drop 52 bs)\<rparr>)"

text \<open>\<open>memcpy8\<close> between RAM and a structure outside the modelled RAM.\<close>

definition put_list :: "nat \<Rightarrow> u8 list \<Rightarrow> mem \<Rightarrow> mem" where
  "put_list a bs m = (\<lambda>x. if a \<le> x \<and> x < a + length bs then bs ! (x - a) else m x)"

definition get_list :: "mem \<Rightarrow> nat \<Rightarrow> nat \<Rightarrow> u8 list" where
  "get_list m a n = map (\<lambda>i. m (a + i)) [0..<n]"

section \<open>Saving\<close>

text \<open>The pages for the tables: taken from the free pages and marked invalid before the tables are written.\<close>

fun take_map_pages :: "geo \<Rightarrow> nat \<Rightarrow> nat \<Rightarrow> 'a ftl_st_scheme \<Rightarrow> 'a ftl_st_scheme option" where
  "take_map_pages g i 0 s = Some s"
| "take_map_pages g i (Suc n) s =
     do {
       (free_page, s1) \<leftarrow> get_free_ppa g s;
       if length (mapping_tables (ftl_config s1)) \<le> i then None
       else do {
         let s2 = s1\<lparr>ftl_config := (ftl_config s1)\<lparr>mapping_tables := (mapping_tables (ftl_config s1))[i := free_page]\<rparr>\<rparr>;
         s3 \<leftarrow> SET_INVALID_PPA g free_page s2;
         s4 \<leftarrow> INC_INVALID_PAGES g free_page s3;
         s5 \<leftarrow> DEC_VALID_PAGES g free_page s4;
         take_map_pages g (i + 1) n s5
       }
     }"

text \<open>One page of the tables: the tail of a short page is cleared, the bytes are copied and programmed.\<close>

definition save_page :: "geo \<Rightarrow> ppa_t \<Rightarrow> u8 list \<Rightarrow> 'a ftl_st_scheme \<Rightarrow> 'a ftl_st_scheme option" where
  "save_page g ppa rest s =
     do {
       let buf = private_pg_buff s;
       let m = (if length rest < NAND_PAGE_SIZE g then memset8 (ram s) (buf + length rest) 0 (NAND_PAGE_SIZE g - length rest) else ram s);
       let s1 = s\<lparr>ram := put_list buf (take (NAND_PAGE_SIZE g) rest) m\<rparr>;
       (pop, s2) \<leftarrow> begin_program_op s1;
       (_, s3) \<leftarrow> add_program_op_page pop (ppa_data ppa) buf s2;
       sync_end_program_op g pop s3
     }"

function save_pages :: "geo \<Rightarrow> nat \<Rightarrow> u8 list \<Rightarrow> 'a ftl_st_scheme \<Rightarrow> 'a ftl_st_scheme option" where
  "save_pages g i rest s =
     (if rest = [] then Some s
      else if length (mapping_tables (ftl_config s)) \<le> i then None
      else do {
        s1 \<leftarrow> save_page g (mapping_tables (ftl_config s) ! i) rest s;
        save_pages g (i + 1) (drop (NAND_PAGE_SIZE g) rest) s1
      })"
  by pat_completeness auto
termination by (relation "measure (\<lambda>(g, i, rest, s). length rest)") (auto simp: NAND_PAGE_SIZE_def)

declare save_pages.simps [simp del]

text \<open>The configuration goes to the first three pages.\<close>

definition save_config :: "geo \<Rightarrow> 'a ftl_st_scheme \<Rightarrow> 'a ftl_st_scheme option" where
  "save_config g s =
     do {
       let buf = private_pg_buff s;
       (pop, s1) \<leftarrow> begin_program_op (s\<lparr>ram := put_list buf (enc_config (ftl_config s)) (ram s)\<rparr>);
       (_, s2) \<leftarrow> add_program_op_page pop (ppa_data zero_ppa) buf s1;
       (_, s3) \<leftarrow> add_program_op_page pop (ppa_data (inc_page zero_ppa)) (buf + NAND_PAGE_SIZE g) s2;
       (_, s4) \<leftarrow> add_program_op_page pop (ppa_data (inc_page (inc_page zero_ppa))) (buf + NAND_PAGE_SIZE g + NAND_PAGE_SIZE g) s3;
       sync_end_program_op g pop s4
     }"

definition store_mapping_tables :: "geo \<Rightarrow> 'a ftl_st_scheme \<Rightarrow> 'a ftl_st_scheme option" where
  "store_mapping_tables g s =
     do {
       s1 \<leftarrow> take_map_pages g 0 (unat (rpp_map_tables (ftl_config s))) s;
       s2 \<leftarrow> save_pages g 0 (section_bytes s1) s1;
       save_config g s2
     }"

definition shutdown_ftl_module :: "geo \<Rightarrow> 'a ftl_st_scheme \<Rightarrow> (int \<times> 'a ftl_st_scheme) option" where
  "shutdown_ftl_module g s = do { s1 \<leftarrow> store_mapping_tables g s; Some (0, s1) }"

text \<open>
  \<open>sys_host_shutdown\<close> of the kernel: the NAND driver only waits for the controller, and the NVMe
  driver has nothing to do.
\<close>

definition sys_host_shutdown :: "geo \<Rightarrow> 'a ftl_st_scheme \<Rightarrow> 'a ftl_st_scheme option" where
  "sys_host_shutdown g s = do { (_, s1) \<leftarrow> shutdown_ftl_module g s; Some s1 }"

section \<open>Loading\<close>

definition load_mp_buffer_size :: nat where "load_mp_buffer_size = 2 ^ 16"
definition load_mp_buffer_pages :: "geo \<Rightarrow> nat" where "load_mp_buffer_pages g = 2 ^ 16 div NAND_PAGE_SIZE g"

text \<open>The configuration is read back from the first three pages.\<close>

definition load_config :: "geo \<Rightarrow> 'a ftl_st_scheme \<Rightarrow> 'a ftl_st_scheme option" where
  "load_config g s =
     do {
       let buf = load_mp_buffer s;
       (rop, s1) \<leftarrow> begin_read_op s;
       (_, s2) \<leftarrow> add_read_op_page rop (ppa_data zero_ppa) buf s1;
       (_, s3) \<leftarrow> add_read_op_page rop (ppa_data (inc_page zero_ppa)) (buf + NAND_PAGE_SIZE g) s2;
       (_, s4) \<leftarrow> add_read_op_page rop (ppa_data (inc_page (inc_page zero_ppa))) (buf + NAND_PAGE_SIZE g + NAND_PAGE_SIZE g) s3;
       s5 \<leftarrow> sync_end_read_op g rop s4;
       Some (s5\<lparr>ftl_config := dec_config (get_list (ram s5) buf config_size)\<rparr>)
     }"

text \<open>The pages of one batch, the first of them page \<open>k\<close> of the tables.\<close>

fun add_map_reads :: "geo \<Rightarrow> op_ptr \<Rightarrow> nat \<Rightarrow> nat \<Rightarrow> nat \<Rightarrow> 'a ftl_st_scheme \<Rightarrow> 'a ftl_st_scheme option" where
  "add_map_reads g rop k i 0 s = Some s"
| "add_map_reads g rop k i (Suc n) s =
     (if length (mapping_tables (ftl_config s)) \<le> k + i then None
      else do {
        (_, s1) \<leftarrow> add_read_op_page rop (ppa_data (mapping_tables (ftl_config s) ! (k + i))) (load_mp_buffer s + i * NAND_PAGE_SIZE g) s;
        add_map_reads g rop k (i + 1) n s1
      })"

definition batch_pages :: "geo \<Rightarrow> nat \<Rightarrow> nat" where
  "batch_pages g rest =
     (if rest < load_mp_buffer_size then
        let n = rest div NAND_PAGE_SIZE g in if n * NAND_PAGE_SIZE g < rest then n + 1 else n
      else load_mp_buffer_pages g)"

definition batch_len :: "nat \<Rightarrow> nat" where "batch_len rest = min rest load_mp_buffer_size"

text \<open>
  The loop over the batches. The bytes are collected and stored in the tables at the end, because
  nothing reads the tables while they are loaded.
\<close>

function load_pages :: "geo \<Rightarrow> nat \<Rightarrow> nat \<Rightarrow> u8 list \<Rightarrow> 'a ftl_st_scheme \<Rightarrow> (u8 list \<times> 'a ftl_st_scheme) option" where
  "load_pages g k rest acc s =
     (if rest = 0 then Some (acc, s)
      else do {
        (rop, s1) \<leftarrow> begin_read_op s;
        s2 \<leftarrow> add_map_reads g rop k 0 (batch_pages g rest) s1;
        s3 \<leftarrow> sync_end_read_op g rop s2;
        load_pages g (k + batch_pages g rest) (rest - batch_len rest)
          (acc @ get_list (ram s3) (load_mp_buffer s3) (batch_len rest)) s3
      })"
  by pat_completeness auto
termination by (relation "measure (\<lambda>(g, k, rest, acc, s). rest)") (auto simp: batch_len_def load_mp_buffer_size_def)

declare load_pages.simps [simp del]

definition restore_mapping_tables :: "geo \<Rightarrow> 'a ftl_st_scheme \<Rightarrow> 'a ftl_st_scheme option" where
  "restore_mapping_tables g s =
     do {
       s1 \<leftarrow> load_config g s;
       (bs, s2) \<leftarrow> load_pages g 0 (section_size g) [] s1;
       Some (set_section g bs s2)
     }"

section \<open>Start\<close>

text \<open>\<open>init_ftl_module\<close> for equal page sizes.\<close>

definition init_ftl_module :: "geo \<Rightarrow> 'a ftl_st_scheme \<Rightarrow> (int \<times> 'a ftl_st_scheme) option" where
  "init_ftl_module g s =
     do {
       (a, s1) \<leftarrow> get_uncacheable_ram (NAND_PAGE_SIZE g * 4) s;
       (b, s2) \<leftarrow> get_uncacheable_ram load_mp_buffer_size (s1\<lparr>private_pg_buff := a\<rparr>);
       (f1, s3) \<leftarrow> sys_add_thread_function FTL_MODULE_THREAD process_req_cbk_ftn (s2\<lparr>load_mp_buffer := b, ZERO_BUFFER := a\<rparr>);
       (f2, s4) \<leftarrow> sys_add_thread_function FTL_MODULE_THREAD initialize_ftl_ftn (s3\<lparr>process_req_cbk_ftn_id := f1\<rparr>);
       Some (0, snd (sys_add_callback_ftn f2 NULL s4))
     }"

text \<open>The first page of the flash tells whether the media is new.\<close>

definition initialize_ftl :: "geo \<Rightarrow> 'a ftl_st_scheme \<Rightarrow> 'a ftl_st_scheme option" where
  "initialize_ftl g s =
     do {
       (rop, s1) \<leftarrow> begin_read_op s;
       (_, s2) \<leftarrow> add_read_op_page rop (ppa_data zero_ppa) (ZERO_BUFFER s) s1;
       s3 \<leftarrow> sync_end_read_op g rop s2;
       let s4 = s3\<lparr>ftl_config := dec_config (get_list (ram s3) (ZERO_BUFFER s3) config_size),
         ram := memset32 (ram s3) (ZERO_BUFFER s3) 0 (NAND_PAGE_SIZE g div 4)\<rparr>;
       s5 \<leftarrow> (if cf_nand_ds (ftl_config s4) < 9 then new_flash_media g (section_size g) s4 else restore_mapping_tables g s4);
       Some (finish_ftl_init s5)
     }"

end
