(* ===== verification/Nvme_Io.thy ===== *)
theory Nvme_Io
  imports Nvme_Admin Ftl_Save
begin

text \<open>
  The NVMe driver, fourth part (\<^verbatim>\<open>nvme_driver.c\<close>): the commands of the I/O queues, the requests that
  wait for the page buffer, the completions that come back from the translation layer, and the
  doorbell routine from which all commands start.
\<close>

unbundle bit_operations_syntax

section \<open>Checks\<close>

definition NVME_OPC_FLUSH :: u8 where "NVME_OPC_FLUSH = 0"
definition NVME_OPC_WRITE :: u8 where "NVME_OPC_WRITE = 1"
definition NVME_OPC_READ :: u8 where "NVME_OPC_READ = 2"

definition verify_rw_param :: "NvmeSCmd \<Rightarrow> 'a nvme_st_scheme \<Rightarrow> int" where
  "verify_rw_param c s =
     (if unat (nsid c) > NUM_NS then - 1
      else if io_slba c + ucast (io_nlbs c) > ucast (nsze (ssd_config s)) then - 1
      else if MDTS_PAGES \<le> unat (io_nlbs c) then - 1
      else 0)"

section \<open>Requests that wait for a buffer\<close>

definition R_BUFFER_Q_SIZE :: nat where "R_BUFFER_Q_SIZE = MAX_IO_SQCQ_ENTRIES"
definition W_BUFFER_Q_SIZE :: nat where "W_BUFFER_Q_SIZE = MAX_IO_SQCQ_ENTRIES"

text \<open>The two queues have the same code; neither checks for a full queue.\<close>

definition push_buf_q :: "nat \<Rightarrow> obj_ptr \<Rightarrow> buf_q_t \<Rightarrow> buf_q_t" where
  "push_buf_q n p q = q\<lparr>bq_objs := (bq_objs q)[bq_tail q := p], bq_tail := (bq_tail q + 1) mod n, bq_empty := False\<rparr>"

definition pop_buf_q :: "nat \<Rightarrow> buf_q_t \<Rightarrow> obj_ptr \<times> buf_q_t" where
  "pop_buf_q n q =
     (let h = (bq_head q + 1) mod n
      in (bq_objs q ! bq_head q, q\<lparr>bq_head := h, bq_empty := (if h = bq_tail q then True else bq_empty q)\<rparr>))"

definition push_r_buf_q :: "obj_ptr \<Rightarrow> 'a nvme_st_scheme \<Rightarrow> 'a nvme_st_scheme" where
  "push_r_buf_q p s = s\<lparr>r_buf_q := push_buf_q R_BUFFER_Q_SIZE p (r_buf_q s)\<rparr>"

definition pop_r_buf_q :: "'a nvme_st_scheme \<Rightarrow> obj_ptr \<times> 'a nvme_st_scheme" where
  "pop_r_buf_q s = (let (p, q) = pop_buf_q R_BUFFER_Q_SIZE (r_buf_q s) in (p, s\<lparr>r_buf_q := q\<rparr>))"

definition push_w_buf_q :: "obj_ptr \<Rightarrow> 'a nvme_st_scheme \<Rightarrow> 'a nvme_st_scheme" where
  "push_w_buf_q p s = s\<lparr>w_buf_q := push_buf_q W_BUFFER_Q_SIZE p (w_buf_q s)\<rparr>"

definition pop_w_buf_q :: "'a nvme_st_scheme \<Rightarrow> obj_ptr \<times> 'a nvme_st_scheme" where
  "pop_w_buf_q s = (let (p, q) = pop_buf_q W_BUFFER_Q_SIZE (w_buf_q s) in (p, s\<lparr>w_buf_q := q\<rparr>))"

section \<open>Reads and writes\<close>

partial_function (option) process_read_ios_step_2 :: "geo \<Rightarrow> 'a nvme_st_scheme \<Rightarrow> 'a nvme_st_scheme option" where
  "process_read_ios_step_2 g s =
     (if bq_empty (r_buf_q s) then Some s
      else do {
        let p = bq_objs (r_buf_q s) ! bq_head (r_buf_q s);
        (r, s1) \<leftarrow> get_read_io_buffer g p s;
        if r = - 1 then Some s1
        else process_read_ios_step_2 g (sys_push_to_ftl p READ_IO_REQUEST (snd (pop_r_buf_q s1)))
      })"

definition setup_io_req :: "u32 \<Rightarrow> u32 \<Rightarrow> NvmeSCmd \<Rightarrow> u32 \<Rightarrow> 'a nvme_st_scheme \<Rightarrow> (obj_ptr \<times> 'a nvme_st_scheme) option" where
  "setup_io_req q e c req_type s =
     do {
       let i = unat (sq_cqid (sqs s ! unat q));
       if length (cqs s) \<le> i then None
       else do {
         (p, s1) \<leftarrow> sys_malloc_req_obj req_type s;
         Some (p, upd_req p (\<lambda>r. r\<lparr>status := 0, sqid := q, cqid := ucast (cq_cqid (cqs s ! i)), sqe := e,
           scmd := (scmd r)\<lparr>cid := cid c, nsid := nsid c, prp1 := prp1 c, prp2 := prp2 c\<rparr>\<rparr>) s1)
       }
     }"

text \<open>The command words a read or write request keeps.\<close>

definition io_cp :: "NvmeSCmd \<Rightarrow> NvmeSCmd \<Rightarrow> NvmeSCmd" where
  "io_cp to from = to\<lparr>opcode := opcode from, fuse := fuse from, cid := cid from, nsid := nsid from, prp1 := prp1 from, prp2 := prp2 from,
     cdw10 := cdw10 from, cdw11 := cdw11 from, cdw12 := cdw12 from, cdw13 := cdw13 from, cdw14 := cdw14 from, cdw15 := cdw15 from\<rparr>"

definition rw_data_size :: "geo \<Rightarrow> NvmeSCmd \<Rightarrow> u32" where
  "rw_data_size g c = push_bit (HOST_DS g) (ucast (io_nlbs c) + 1)"

text \<open>The common start of \<open>process_read_io\<close> and \<open>process_write_io\<close>: a request with the fields of the command.\<close>

definition start_rw :: "u32 \<Rightarrow> u32 \<Rightarrow> u32 \<Rightarrow> NvmeSCmd \<Rightarrow> 'a nvme_st_scheme \<Rightarrow> (obj_ptr \<times> u32 \<times> 'a nvme_st_scheme) option" where
  "start_rw req_type q e c s =
     (let i = unat (sq_cqid (sqs s ! unat q)) in
      if length (cqs s) \<le> i then None
      else do {
        let n = ucast (cq_cqid (cqs s ! i));
        (p, s1) \<leftarrow> sys_malloc_req_obj req_type s;
        Some (p, n, upd_req p (\<lambda>r. r\<lparr>status := 0, sqid := q, cqid := n, sqe := e, scmd := io_cp (scmd r) c\<rparr>) s1)
      })"

definition process_read_io :: "geo \<Rightarrow> u32 \<Rightarrow> u32 \<Rightarrow> NvmeSCmd \<Rightarrow> 'a nvme_st_scheme \<Rightarrow> 'a nvme_st_scheme option" where
  "process_read_io g q e c s =
     do {
       (p, n, s1) \<leftarrow> start_rw READ_IO_REQUEST q e c s;
       if verify_rw_param c s1 = - 1 then enqueue_io_ccmd (unat n) p s1
       else do {
         let s2 = upd_req p (\<lambda>r. r\<lparr>nand_io_complete := False, dma := (dma r)\<lparr>host_dma_complete := False, data_size := rw_data_size g (scmd r)\<rparr>\<rparr>) s1;
         req \<leftarrow> get_req p s2;
         (_, s3) \<leftarrow> decode_prp (prp1 (scmd req)) (prp2 (scmd req)) (DMA_OF p) s2;
         process_read_ios_step_2 g (push_r_buf_q p s3)
       }
     }"

partial_function (option) process_write_ios_step_2 :: "geo \<Rightarrow> 'a nvme_st_scheme \<Rightarrow> 'a nvme_st_scheme option" where
  "process_write_ios_step_2 g s =
     (if bq_empty (w_buf_q s) then Some s
      else do {
        let p = bq_objs (w_buf_q s) ! bq_head (w_buf_q s);
        (r, s1) \<leftarrow> get_write_io_buffer g p s;
        if r = - 1 then Some s1
        else do {
          s2 \<leftarrow> sync_write_io_dma p (snd (pop_w_buf_q s1));
          req \<leftarrow> get_req p s2;
          s3 \<leftarrow> enqueue_io_ccmd (unat (cqid req)) p (snd (free_write_io_buffer s2));
          process_write_ios_step_2 g s3
        }
      })"

definition process_write_io :: "geo \<Rightarrow> u32 \<Rightarrow> u32 \<Rightarrow> NvmeSCmd \<Rightarrow> 'a nvme_st_scheme \<Rightarrow> 'a nvme_st_scheme option" where
  "process_write_io g q e c s =
     do {
       (p, n, s1) \<leftarrow> start_rw WRITE_IO_REQUEST q e c s;
       if verify_rw_param c s1 = - 1 then enqueue_io_ccmd (unat n) p s1
       else do {
         let s2 = upd_req p (\<lambda>r. r\<lparr>dma := (dma r)\<lparr>host_dma_complete := False, data_size := rw_data_size g (scmd r)\<rparr>\<rparr>) s1;
         req \<leftarrow> get_req p s2;
         (_, s3) \<leftarrow> decode_prp (prp1 (scmd req)) (prp2 (scmd req)) (DMA_OF p) s2;
         process_write_ios_step_2 g (push_w_buf_q p s3)
       }
     }"

section \<open>Other commands\<close>

definition poll_again :: "'a nvme_st_scheme \<Rightarrow> 'a nvme_st_scheme" where
  "poll_again s = snd (sys_add_callback_ftn (check_door_ftn_id s) NULL s)"

text \<open>A flush request is completed at once; the call of \<open>flush_all_wbc\<close> is commented out.\<close>

definition process_flush_io :: "u32 \<Rightarrow> u32 \<Rightarrow> NvmeSCmd \<Rightarrow> 'a nvme_st_scheme \<Rightarrow> 'a nvme_st_scheme option" where
  "process_flush_io q e c s =
     (let i = unat (sq_cqid (sqs s ! unat q)) in
      if length (cqs s) \<le> i then None
      else do {
        let n = ucast (cq_cqid (cqs s ! i));
        (p, s1) \<leftarrow> sys_malloc_req_obj FLUSH_IO_REQUEST s;
        s2 \<leftarrow> enqueue_io_ccmd (unat n) p (upd_req p (\<lambda>r. r\<lparr>status := 0, sqid := q, cqid := n, sqe := e,
          scmd := (scmd r)\<lparr>opcode := opcode c, fuse := fuse c, cid := cid c, nsid := nsid c\<rparr>\<rparr>) s1);
        Some (poll_again s2)
      })"

definition process_isp_io :: "u32 \<Rightarrow> u32 \<Rightarrow> NvmeSCmd \<Rightarrow> 'a isp_st_scheme \<Rightarrow> 'a isp_st_scheme option" where
  "process_isp_io q e c s =
     do { (p, s1) \<leftarrow> setup_io_req q e c ISP_IO_REQUEST s; s2 \<leftarrow> isp_io c p s1; Some (poll_again s2) }"

definition unknown_io_cmd :: "u32 \<Rightarrow> u32 \<Rightarrow> NvmeSCmd \<Rightarrow> 'a nvme_st_scheme \<Rightarrow> 'a nvme_st_scheme" where
  "unknown_io_cmd q e c s = poll_again s"

definition io_dispatch :: "geo \<Rightarrow> u32 \<Rightarrow> u32 \<Rightarrow> NvmeSCmd \<Rightarrow> 'a isp_st_scheme \<Rightarrow> 'a isp_st_scheme option" where
  "io_dispatch g q e c s =
     (if opcode c = NVME_OPC_READ then process_read_io g q e c s
      else if opcode c = NVME_OPC_WRITE then process_write_io g q e c s
      else if opcode c = NVME_OPC_FLUSH then process_flush_io q e c s
      else if opcode c = ISP_IO_OPCODE \<or> opcode c = ISP_DATA_TX_OPCODE \<or> opcode c = ISP_CTRL_OPCODE then process_isp_io q e c s
      else Some (unknown_io_cmd q e c s))"

definition process_io_cmd :: "geo \<Rightarrow> nat \<Rightarrow> 'a isp_st_scheme \<Rightarrow> 'a isp_st_scheme option" where
  "process_io_cmd g i s =
     (if length (sqs s) \<le> i then None
      else do {
        let sq = sqs s ! i;
        let e = sq_head sq;
        let addr = scmd_buf s + 64 * unat e;
        s1 \<leftarrow> sync_read_scmd (of_nat i) e (sq_hostAddr sq) addr 1 s;
        sq' \<leftarrow> inc_sq_head (sqs s1 ! i);
        io_dispatch g (of_nat i) e (load_scmd (ram s1) addr) (set_sq i sq' s1)
      })"

section \<open>Completions from the translation layer\<close>

definition completed_req_cbk :: "geo \<Rightarrow> obj_ptr \<Rightarrow> u32 \<Rightarrow> 'a nvme_st_scheme \<Rightarrow> 'a nvme_st_scheme option" where
  "completed_req_cbk g p ty s =
     (if ty = READ_IO_REQUEST then
        do {
          s1 \<leftarrow> sync_read_io_dma p s;
          let s2 = snd (free_read_io_buffer s1);
          req \<leftarrow> get_req p s2;
          s3 \<leftarrow> enqueue_io_ccmd (unat (cqid req)) p s2;
          s4 \<leftarrow> process_read_ios_step_2 g s3;
          s5 \<leftarrow> process_write_ios_step_2 g s4;
          Some (poll_again s5)
        }
      else if ty = WBC_FLUSH_REQUEST then
        do {
          s1 \<leftarrow> process_write_ios_step_2 g (free_wbc_buffer s);
          s2 \<leftarrow> process_read_ios_step_2 g s1;
          Some (poll_again s2)
        }
      else Some s)"

section \<open>Doorbells\<close>

definition checkSQID :: "nat \<Rightarrow> 'a nvme_st_scheme \<Rightarrow> int option" where
  "checkSQID i s =
     (if i = 0 then Some 1
      else if length (sqs s) \<le> i then None
      else if sq_sqid (sqs s ! i) = 0 then Some 0
      else let j = unat (sq_cqid (sqs s ! i)) in
        if length (cqs s) \<le> j then None else Some (if cq_cqid (cqs s ! j) = 0 then 0 else 1))"

text \<open>The I/O completion queues from \<open>i\<close> on, as long as their number is at most \<open>iocqCount\<close>.\<close>

fun post_all :: "nat \<Rightarrow> nat \<Rightarrow> 'a nvme_st_scheme \<Rightarrow> 'a nvme_st_scheme option" where
  "post_all i 0 s = Some s"
| "post_all i (Suc n) s = do { s1 \<leftarrow> post_io_ccmds i s; post_all (i + 1) n s1 }"

definition post_io_queues :: "'a nvme_st_scheme \<Rightarrow> 'a nvme_st_scheme option" where
  "post_io_queues s = post_all 1 (unat (iocqCount s)) s"

text \<open>The host announced a shutdown: its end is signalled before the tables are saved.\<close>

definition host_shutdown :: "geo \<Rightarrow> 'a nvme_st_scheme \<Rightarrow> 'a nvme_st_scheme option" where
  "host_shutdown g s =
     (if cc_shn (get_ctrl CTRL_CC s) = 1 then
        do { s1 \<leftarrow> set_ctrl CSTS (get_ctrl CSTS s AND NOT (push_bit 2 3) OR push_bit 2 2) s; sys_host_shutdown g s1 }
      else Some s)"

definition sq_door_bell ::
  "geo \<Rightarrow> (nat \<Rightarrow> 'a isp_st_scheme \<Rightarrow> (u32 \<times> 'a isp_st_scheme) option) \<Rightarrow> nat \<Rightarrow> u32 \<Rightarrow> 'a isp_st_scheme \<Rightarrow> 'a isp_st_scheme option" where
  "sq_door_bell g call_init i tail s =
     (if length (sqs s) \<le> i then None
      else let s1 = set_sq i ((sqs s ! i)\<lparr>sq_tail := tail\<rparr>) s in
        if i \<noteq> 0 then process_io_cmd g i s1
        else do { s2 \<leftarrow> process_admin_cmd g call_init s1; Some (poll_again s2) })"

definition cq_door_bell :: "nat \<Rightarrow> u32 \<Rightarrow> 'a nvme_st_scheme \<Rightarrow> 'a nvme_st_scheme option" where
  "cq_door_bell i head s =
     (if length (cqs s) \<le> i then None
      else do { s1 \<leftarrow> post_io_queues (set_cq i ((cqs s ! i)\<lparr>cq_head := head\<rparr>) s); Some (poll_again s1) })"

definition idle_poll :: "geo \<Rightarrow> 'a nvme_st_scheme \<Rightarrow> 'a nvme_st_scheme option" where
  "idle_poll g s =
     (let s1 = poll_again s; s2 = s1\<lparr>idleTimeCounter := idleTimeCounter s1 + 1\<rparr> in
      if idleTimeCounter s2 \<ge> 10000 then
        do { s3 \<leftarrow> post_io_queues (s2\<lparr>idleTimeCounter := 0\<rparr>); host_shutdown g s3 }
      else Some s2)"

definition check_door_bell ::
  "geo \<Rightarrow> (nat \<Rightarrow> 'a isp_st_scheme \<Rightarrow> (u32 \<times> 'a isp_st_scheme) option) \<Rightarrow> 'a isp_st_scheme \<Rightarrow> 'a isp_st_scheme option" where
  "check_door_bell g call_init s =
     (let (raw, h) = host_read_reg 8 (host s); d = dbu_of raw; s1 = s\<lparr>host := h\<rparr> in
      if DoorBell d = isSQ_DB then sq_door_bell g call_init (unat (Qindex d)) (ucast (db_value d)) s1
      else if DoorBell d = isCQ_DB then cq_door_bell (unat (Qindex d)) (ucast (db_value d)) s1
      else idle_poll g s1)"

end
