(* ===== verification/Pool_View.thy ===== *)
theory Pool_View
  imports Nvme_Post
begin

text \<open>
  The request pools while commands run: which objects are in use, and what allocation, the updates of a
  request in use, its release and a posted completion make of them.
\<close>

section \<open>One pool with its objects in use\<close>

definition pool_view :: "(nat \<Rightarrow> obj_ptr) \<Rightarrow> nat \<Rightarrow> (req_t \<Rightarrow> bool) \<Rightarrow> obj_ptr queue_t \<Rightarrow> req_t list \<Rightarrow> nat set \<Rightarrow> bool" where
  "pool_view C n ty q objs L \<longleftrightarrow> pool_ok C n q objs \<and> L = {i. i < n - 1 \<and> req_stage (objs ! i) \<noteq> REQ_STAGE_FREE} \<and>
     (\<forall>i < n - 1. ty (objs ! i) \<and> length (dma_list (dma (objs ! i))) = MDTS_PAGES)"

definition req_like :: "(req_t \<Rightarrow> bool) \<Rightarrow> req_t \<Rightarrow> bool" where
  "req_like ty r \<longleftrightarrow> ty r \<and> length (dma_list (dma r)) = MDTS_PAGES"

lemma pool_view_len: "pool_view C n ty q objs L \<Longrightarrow> length objs = n"
  by (simp add: pool_view_def pool_ok_def)

lemma pool_view_take:
  assumes "pool_view C n ty q objs L" "inj C" "L \<noteq> {..<n - 1}"
  shows "\<exists>i q'. deQueue q = (Some (C i), q') \<and> i < n - 1 \<and> i \<notin> L \<and> req_like ty (objs ! i) \<and>
     (\<forall>r. req_stage r \<noteq> REQ_STAGE_FREE \<and> req_like ty r \<longrightarrow> pool_view C n ty q' (objs[i := r]) (insert i L))"
proof -
  have ok: "pool_ok C n q objs" and L: "L = {i. i < n - 1 \<and> req_stage (objs ! i) \<noteq> REQ_STAGE_FREE}" and len: "length objs = n"
    using assms(1) by (simp_all add: pool_view_def pool_ok_def)
  obtain d q' where d: "deQueue q = (d, q')" by fastforce
  have "d \<noteq> None"
  proof
    assume "d = None"
    with pool_empty [OF ok, of q'] d have e: "pool_free C objs = {}" by simp
    have "req_stage (objs ! i) \<noteq> REQ_STAGE_FREE" if "i < n - 1" for i
      using e that len unfolding pool_free_def by blast
    then have "L = {..<n - 1}" using L by auto
    with assms(3) show False by simp
  qed
  then obtain p where p: "deQueue q = (Some p, q')" using d by auto
  from pool_take [OF ok assms(2) p] obtain i where i: "p = C i" "i < n - 1" "req_stage (objs ! i) = REQ_STAGE_FREE"
    "\<And>r. req_stage r \<noteq> REQ_STAGE_FREE \<Longrightarrow> pool_ok C n q' (objs[i := r])" by blast
  have "pool_view C n ty q' (objs[i := r]) (insert i L)" if "req_stage r \<noteq> REQ_STAGE_FREE" "req_like ty r" for r
    using that assms(1) i(2) i(4) [OF that(1)] len by (auto simp: pool_view_def req_like_def nth_list_update)
  with p i assms(1) show ?thesis by (intro exI [of _ i] exI [of _ q']) (auto simp: pool_view_def req_like_def)
qed

lemma pool_view_upd:
  assumes "pool_view C n ty q objs L" "inj C" "i \<in> L" "req_stage r \<noteq> REQ_STAGE_FREE" "req_like ty r"
  shows "pool_view C n ty q (objs[i := r]) L"
proof -
  have i: "i < n - 1" "req_stage (objs ! i) \<noteq> REQ_STAGE_FREE" and len: "length objs = n" using assms(1,3) by (auto simp: pool_view_def pool_ok_def)
  have "pool_free C (objs[i := r]) = pool_free C objs"
    using i assms(2,4) len by (auto simp: pool_free_def nth_list_update)
  with assms i len show ?thesis by (auto simp: pool_view_def pool_ok_def req_like_def nth_list_update)
qed

lemma pool_view_put:
  assumes "pool_view C n ty q objs L" "inj C" "i \<in> L" "req_stage r = REQ_STAGE_FREE" "req_like ty r"
  shows "pool_view C n ty (snd (enQueue q (C i))) (objs[i := r]) (L - {i})"
proof -
  have i: "i < n - 1" "req_stage (objs ! i) \<noteq> REQ_STAGE_FREE" and len: "length objs = n" and ok: "pool_ok C n q objs"
    using assms(1,3) by (auto simp: pool_view_def pool_ok_def)
  from pool_put [OF ok assms(2) i assms(4)] assms i len show ?thesis by (auto simp: pool_view_def req_like_def nth_list_update)
qed

section \<open>The three pools\<close>

definition other_typed :: "req_t \<Rightarrow> bool" where
  "other_typed r \<longleftrightarrow> req_stage r \<noteq> REQ_STAGE_FREE \<longrightarrow> other_req_type (rq_type r)"

definition pools :: "nat set \<Rightarrow> nat set \<Rightarrow> nat set \<Rightarrow> 'a req_st_scheme \<Rightarrow> bool" where
  "pools L M N s \<longleftrightarrow>
     pool_view R_REQ R_SIZE (\<lambda>r. rq_type r = READ_IO_REQUEST) (free_r_req_objs s) (r_req s) L \<and>
     pool_view W_REQ W_SIZE (\<lambda>r. rq_type r = WRITE_IO_REQUEST) (free_w_req_objs s) (w_req s) M \<and>
     pool_view O_REQ O_SIZE other_typed (free_req_objs s) (other_req_alloc s) N"

lemma pools_req_inv: "pools L M N s \<Longrightarrow> req_inv s"
  by (auto simp: pools_def pool_view_def req_inv_def other_typed_def)

text \<open>The objects in use without \<open>p\<close>.\<close>

definition minus_R :: "obj_ptr \<Rightarrow> nat set \<Rightarrow> nat set" where
  "minus_R p L = (case p of R_REQ i \<Rightarrow> L - {i} | _ \<Rightarrow> L)"

definition minus_W :: "obj_ptr \<Rightarrow> nat set \<Rightarrow> nat set" where
  "minus_W p L = (case p of W_REQ i \<Rightarrow> L - {i} | _ \<Rightarrow> L)"

definition minus_O :: "obj_ptr \<Rightarrow> nat set \<Rightarrow> nat set" where
  "minus_O p L = (case p of O_REQ i \<Rightarrow> L - {i} | _ \<Rightarrow> L)"

definition in_use :: "obj_ptr \<Rightarrow> nat set \<Rightarrow> nat set \<Rightarrow> nat set \<Rightarrow> bool" where
  "in_use p L M N \<longleftrightarrow> (case p of R_REQ i \<Rightarrow> i \<in> L | W_REQ i \<Rightarrow> i \<in> M | O_REQ i \<Rightarrow> i \<in> N | _ \<Rightarrow> False)"

lemmas pool_ptr_defs = minus_R_def minus_W_def minus_O_def in_use_def

lemma pools_stage:
  assumes "pools L M N s" "in_use p L M N" "v \<noteq> REQ_STAGE_FREE"
  shows "pools L M N (upd_req p (\<lambda>r. r\<lparr>req_stage := v\<rparr>) s)"
proof -
  have r: "req_like ty (objs ! i) \<and> i < n - 1 \<and> req_stage (objs ! i) \<noteq> REQ_STAGE_FREE" if "pool_view C n ty q objs X" "i \<in> X" for C n ty q objs X i
    using that by (auto simp: pool_view_def req_like_def)
  from assms show ?thesis
    unfolding pools_def in_use_def
    by (cases p; simp add: upd_req_def)
      (intro pool_view_upd; insert r; fastforce simp: req_like_def other_typed_def)+
qed

lemma pools_release:
  assumes "pools L M N s" "in_use p L M N"
  shows "\<exists>s'. sys_free_req_obj p s = Some s' \<and> pools (minus_R p L) (minus_W p M) (minus_O p N) s'"
proof -
  have r: "req_like ty (objs ! i) \<and> i < n - 1 \<and> req_stage (objs ! i) \<noteq> REQ_STAGE_FREE" if "pool_view C n ty q objs X" "i \<in> X" for C n ty q objs X i
    using that by (auto simp: pool_view_def req_like_def)
  show ?thesis
  proof (cases p)
    case (R_REQ i)
    with assms have v: "pool_view R_REQ R_SIZE (\<lambda>r. rq_type r = READ_IO_REQUEST) (free_r_req_objs s) (r_req s) L" "i \<in> L" by (simp_all add: pools_def in_use_def)
    note ri = r [OF v]
    with pool_view_put [OF v(1) ptr_inj(1) v(2), of "(r_req s ! i)\<lparr>req_stage := REQ_STAGE_FREE\<rparr>"] R_REQ assms(1) show ?thesis
      by (simp add: pools_def pool_ptr_defs sys_free_req_obj_def get_req_def upd_req_def req_like_def)
  next
    case (W_REQ i)
    with assms have v: "pool_view W_REQ W_SIZE (\<lambda>r. rq_type r = WRITE_IO_REQUEST) (free_w_req_objs s) (w_req s) M" "i \<in> M" by (simp_all add: pools_def in_use_def)
    note ri = r [OF v]
    with pool_view_put [OF v(1) ptr_inj(2) v(2), of "(w_req s ! i)\<lparr>req_stage := REQ_STAGE_FREE\<rparr>"] W_REQ assms(1) show ?thesis
      by (simp add: pools_def pool_ptr_defs sys_free_req_obj_def get_req_def upd_req_def req_like_def)
  next
    case (O_REQ i)
    with assms have v: "pool_view O_REQ O_SIZE other_typed (free_req_objs s) (other_req_alloc s) N" "i \<in> N" by (simp_all add: pools_def in_use_def)
    note ri = r [OF v]
    with pool_view_put [OF v(1) ptr_inj(3) v(2), of "(other_req_alloc s ! i)\<lparr>req_stage := REQ_STAGE_FREE\<rparr>"] O_REQ assms(1) other_req_typeD show ?thesis
      by (auto simp: pools_def pool_ptr_defs sys_free_req_obj_def get_req_def upd_req_def req_like_def other_typed_def)
  qed (use assms in \<open>simp_all add: in_use_def\<close>)
qed

section \<open>A posted completion releases its request\<close>

lemma pools_cong:
  "r_req s' = r_req s \<Longrightarrow> w_req s' = w_req s \<Longrightarrow> other_req_alloc s' = other_req_alloc s \<Longrightarrow> free_r_req_objs s' = free_r_req_objs s \<Longrightarrow>
   free_w_req_objs s' = free_w_req_objs s \<Longrightarrow> free_req_objs s' = free_req_objs s \<Longrightarrow> pools L M N s' = pools L M N s"
  by (simp add: pools_def)

lemma post_ccmd_pools:
  fixes s :: "'a nvme_st_scheme" and i :: nat
  defines "cq \<equiv> cqs s ! i"
  defines "p \<equiv> pend_objs cq ! pend_head cq"
  assumes "drv_ok s" "ccmd_buf s + 16 \<le> 2 ^ 32" "post_ccmd i sqi s = Some s'" "pools L M N s" "in_use p L M N" "cq_ok cq" "pend_head cq \<noteq> pend_tail cq"
  shows "pools (minus_R p L) (minus_W p M) (minus_O p N) s'"
proof -
  let ?cq1 = "cq\<lparr>pend_head := (pend_head cq + 1) mod pend_size cq\<rparr>"
  let ?s1 = "set_cq i ?cq1 s"
  obtain r s3 where r: "get_req p ?s1 = Some r"
    and s3: "sync_post_ccmd (ucast (cq_cqid ?cq1)) (cq_tail ?cq1) (cq_hostAddr ?cq1) (ccmd_buf s) 1 (cq_vector ?cq1) (ucast (cq_irq_enabled ?cq1))
      (?s1\<lparr>ram := ccmd_of (sq_head (sqs ?s1 ! sqi r)) (cid (scmd r)) r (cq_phase ?cq1) (ccmd_buf s) (ram s)\<rparr>) = Some s3"
    and f: "sys_free_req_obj p (set_cq i (inc_cq_tail (cqs (upd_req p (\<lambda>r. r\<lparr>req_stage := CCMD_POSTED\<rparr>) s3) ! i)) (upd_req p (\<lambda>r. r\<lparr>req_stage := CCMD_POSTED\<rparr>) s3)) = Some s'"
    using assms(5,8,9) unfolding post_ccmd_def cq_def [symmetric] p_def
    by (auto simp: Let_def set_cq_def elim!: bind_SomeE split: if_splits)
  let ?s2 = "?s1\<lparr>ram := ccmd_of (sq_head (sqs ?s1 ! sqi r)) (cid (scmd r)) r (cq_phase ?cq1) (ccmd_buf s) (ram s)\<rparr>"
  have "dma_q_ok (queues ?s2)" "link_ok (host ?s2)" "ccmd_buf s < 2 ^ 32" using assms(3,4) by (simp_all add: drv_ok_def set_cq_def)
  from sync_post_ccmd_ok [OF this] obtain h d qs where
    "sync_post_ccmd (ucast (cq_cqid ?cq1)) (cq_tail ?cq1) (cq_hostAddr ?cq1) (ccmd_buf s) 1 (cq_vector ?cq1) (ucast (cq_irq_enabled ?cq1)) ?s2 =
      Some (?s2\<lparr>host := h, sync_dma := d, queues := qs\<rparr>)" by blast
  with s3 have "s3 = ?s2\<lparr>host := h, sync_dma := d, queues := qs\<rparr>" by (metis option.inject)
  then have "pools L M N s3" using assms(6) pools_cong [of s3 s] by (simp add: set_cq_def)
  then have "pools L M N (upd_req p (\<lambda>r. r\<lparr>req_stage := CCMD_POSTED\<rparr>) s3)" using assms(7)
    by (rule pools_stage) (simp add: CCMD_POSTED_def REQ_COMPLETED_def REQ_STAGE_FREE_def)
  then have "pools L M N (set_cq i (inc_cq_tail (cqs (upd_req p (\<lambda>r. r\<lparr>req_stage := CCMD_POSTED\<rparr>) s3) ! i)) (upd_req p (\<lambda>r. r\<lparr>req_stage := CCMD_POSTED\<rparr>) s3))"
    by (simp add: pools_def set_cq_def)
  from pools_release [OF this assms(7)] f show ?thesis by simp
qed

end
