(* ===== verification/Io_Flow.thy ===== *)
theory Io_Flow
  imports Nvme_Io Pool_View
begin

text \<open>
  The way of a command through the firmware: the building blocks the command theorems share. Message
  queues with no or one object, the completion of one request, and the start of a read or write.
\<close>

unbundle bit_operations_syntax

section \<open>Queues with at most one object\<close>

definition q_idle :: "obj_queue_t list \<Rightarrow> nat \<Rightarrow> bool" where
  "q_idle qs q \<longleftrightarrow> q < length qs \<and> oq_inv (qs ! q) \<and> oq_head (qs ! q) = oq_tail (qs ! q)"

definition q_one :: "obj_queue_t list \<Rightarrow> nat \<Rightarrow> u32 \<Rightarrow> obj_ptr \<Rightarrow> bool" where
  "q_one qs q ty p \<longleftrightarrow> q < length qs \<and> oq_inv (qs ! q) \<and> oq_entries (qs ! q) ! oq_head (qs ! q) = (ty, p) \<and>
     oq_tail (qs ! q) = (oq_head (qs ! q) + 1) mod MSG_Q_SIZE"

lemma push_idle:
  assumes "q_idle (queues s) q"
  shows "\<exists>e. snd (push_obj_to_queue q p ty s) = s\<lparr>queues := (queues s)[q := e]\<rparr> \<and> q_one ((queues s)[q := e]) q ty p"
proof -
  let ?q = "queues s ! q"
  have t: "oq_head ?q = oq_tail ?q" "oq_tail ?q < 256" "length (oq_entries ?q) = 256" "q < length (queues s)"
    using assms by (auto simp: q_idle_def oq_inv_def MSG_Q_SIZE_def)
  then have ne: "oq_tail ?q \<noteq> (oq_tail ?q + 1) mod 256" by (cases "oq_tail ?q + 1 = 256") auto
  let ?e = "?q\<lparr>oq_entries := (oq_entries ?q)[oq_tail ?q := (ty, p)], oq_tail := (oq_tail ?q + 1) mod 256\<rparr>"
  show ?thesis
    using t ne by (intro exI [of _ ?e]) (simp add: push_obj_to_queue_def obj_queue_push_def q_one_def oq_inv_def MSG_Q_SIZE_def Let_def)
qed

lemma serve_one:
  assumes "q_one (queues s) q ty p"
  shows "\<exists>e. serve q h s = h p ty (s\<lparr>queues := (queues s)[q := e]\<rparr>) \<and> q_idle ((queues s)[q := e]) q"
proof -
  let ?q = "queues s ! q"
  have t: "oq_tail ?q = (oq_head ?q + 1) mod 256" "oq_head ?q < 256" "length (oq_entries ?q) = 256" "q < length (queues s)"
    "oq_entries ?q ! oq_head ?q = (ty, p)" using assms by (auto simp: q_one_def oq_inv_def MSG_Q_SIZE_def)
  then have ne: "oq_head ?q \<noteq> oq_tail ?q" by (cases "oq_head ?q + 1 = 256") auto
  let ?e = "?q\<lparr>oq_head := (oq_head ?q + 1) mod 256\<rparr>"
  show ?thesis
    using t ne by (intro exI [of _ ?e]) (simp add: serve_def pop_obj_from_queue_def obj_queue_pop_def q_idle_def oq_inv_def MSG_Q_SIZE_def Let_def)
qed

lemma q_idle_upd [simp]: "q \<noteq> r \<Longrightarrow> q_idle (qs[r := e]) q = q_idle qs q" "q \<noteq> r \<Longrightarrow> q_one (qs[r := e]) q ty p = q_one qs q ty p"
  by (simp_all add: q_idle_def q_one_def)

lemma qs_step_idle:
  assumes "qs_step qs qs'" "q \<noteq> SYNC_DMA_Q"
  shows "q_idle qs' q = q_idle qs q" "q_one qs' q ty p = q_one qs q ty p"
  using assms by (auto simp: qs_step_def q_idle_def q_one_def)

lemma dma_q_upd [simp]: "q \<noteq> SYNC_DMA_Q \<Longrightarrow> dma_q_ok (qs[q := e]) = dma_q_ok qs"
  by (simp add: dma_q_ok_def)

lemma ftl_qs [simp]: "FTL_MODULE_IN_Q \<noteq> SYNC_DMA_Q" "FTL_MODULE_OUT_Q \<noteq> SYNC_DMA_Q" "FTL_MODULE_IN_Q \<noteq> FTL_MODULE_OUT_Q"
  "FTL_MODULE_OUT_Q \<noteq> FTL_MODULE_IN_Q"
  by (simp_all add: FTL_MODULE_IN_Q_def FTL_MODULE_OUT_Q_def SYNC_DMA_Q_def)

section \<open>The completion of one request\<close>

text \<open>A completion queue with no pending completion and room for one.\<close>

definition cq_free :: "nat \<Rightarrow> 'a nvme_st_scheme \<Rightarrow> bool" where
  "cq_free i s \<longleftrightarrow> drv_ok s \<and> i < length (cqs s) \<and> cq_ok (cqs s ! i) \<and> pend_head (cqs s ! i) = pend_tail (cqs s ! i) \<and>
     2 \<le> pend_size (cqs s ! i) \<and> cq_room (cqs s ! i) \<noteq> 0 \<and> ccmd_buf s + 16 \<le> 2 ^ 32"

text \<open>What the completion of request \<open>p\<close> on queue \<open>i\<close> does.\<close>

definition completes :: "nat \<Rightarrow> u32 \<Rightarrow> req_t \<Rightarrow> 'a nvme_st_scheme \<Rightarrow> 'a nvme_st_scheme \<Rightarrow> bool" where
  "completes i head r s s' \<longleftrightarrow> post_frame s s' \<and> drv_ok s' \<and> qs_step (queues s) (queues s') \<and> link_frame (host s) (host s') \<and>
     (\<forall>x. x < cq_slot (cqs s ! i) 0 \<or> cq_slot (cqs s ! i) 0 + 16 \<le> x \<longrightarrow> host_mem (host s') x = host_mem (host s) x) \<and>
     ccmd_for head (cq_phase (cqs s ! i)) (cid (scmd r), status r, ccmd_dw0 r, sqid r) (load_ccmd (host_mem (host s')) (cq_slot (cqs s ! i) 0)) \<and>
     host_irqs (host s') = host_irqs (host s) @ (if cq_irq_enabled (cqs s ! i) \<noteq> 0 then [cq_vector (cqs s ! i)] else []) \<and>
     (\<forall>x. x < ccmd_buf s \<or> ccmd_buf s + 16 \<le> x \<longrightarrow> ram s' x = ram s x) \<and>
     length (cqs s') = length (cqs s) \<and> pend_head (cqs s' ! i) = pend_tail (cqs s' ! i) \<and> cq_room (cqs s ! i) = Suc (cq_room (cqs s' ! i)) \<and>
     cq_ok (cqs s' ! i) \<and> pend_size (cqs s' ! i) = pend_size (cqs s ! i) \<and> cq_cqid (cqs s' ! i) = cq_cqid (cqs s ! i) \<and>
     cq_slot (cqs s' ! i) 0 = cq_slot (cqs s ! i) (Suc 0) \<and> cq_size (cqs s' ! i) = cq_size (cqs s ! i) \<and> cq_hostAddr (cqs s' ! i) = cq_hostAddr (cqs s ! i) \<and>
     cq_tail (cqs s' ! i) = cq_tail (inc_cq_tail (cqs s ! i)) \<and> (\<forall>j. j \<noteq> i \<longrightarrow> cqs s' ! j = cqs s ! j)"

lemma pend_not_full:
  assumes "cq_free i s"
  shows "pend_head (cqs s ! i) \<noteq> (pend_tail (cqs s ! i) + 1) mod pend_size (cqs s ! i)"
proof -
  have "pend_head (cqs s ! i) = pend_tail (cqs s ! i)" "2 \<le> pend_size (cqs s ! i)" "pend_tail (cqs s ! i) < pend_size (cqs s ! i)"
    using assms by (simp_all add: cq_free_def cq_ok_def)
  then show ?thesis by (cases "pend_tail (cqs s ! i) + 1 = pend_size (cqs s ! i)") auto
qed

lemma pend_push_one:
  fixes s :: "'a nvme_st_scheme" and i :: nat and p :: obj_ptr
  assumes "cq_free i s"
  defines "cq \<equiv> cqs s ! i"
  defines "cq1 \<equiv> cq\<lparr>pend_objs := (pend_objs cq)[pend_tail cq := p], pend_tail := (pend_tail cq + 1) mod pend_size cq\<rparr>"
  shows "pend_push i p s = Some (set_cq i cq1 s)" "pend_head cq1 \<noteq> pend_tail cq1" "pend_objs cq1 ! pend_head cq1 = p" "cq_ok cq1"
    "cq_room cq1 = cq_room cq" "cq_slot cq1 = cq_slot cq"
proof -
  have a: "cq_ok cq" "pend_head cq = pend_tail cq" "2 \<le> pend_size cq" "i < length (cqs s)" using assms(1) by (simp_all add: cq_free_def cq_def)
  then have b: "0 < pend_size cq" "pend_size cq \<le> length (pend_objs cq)" "pend_tail cq < pend_size cq" by (simp_all add: cq_ok_def)
  have ne: "pend_head cq \<noteq> (pend_tail cq + 1) mod pend_size cq" unfolding cq_def by (rule pend_not_full [OF assms(1)])
  show "pend_push i p s = Some (set_cq i cq1 s)" using b by (simp add: pend_push_def Let_def cq_def [symmetric] cq1_def)
  show "pend_head cq1 \<noteq> pend_tail cq1" using ne by (simp add: cq1_def)
  show "pend_objs cq1 ! pend_head cq1 = p" using a(2) b by (simp add: cq1_def)
  note pp = pend_items_push [OF a(1) ne, of p, folded cq1_def]
  from pp show "cq_ok cq1" "cq_room cq1 = cq_room cq" "cq_slot cq1 = cq_slot cq" by simp_all
qed

text \<open>What becomes of the pools when the completion of request \<open>p\<close> is posted.\<close>

definition releases :: "obj_ptr \<Rightarrow> 'a req_st_scheme \<Rightarrow> 'a req_st_scheme \<Rightarrow> bool" where
  "releases p s s' \<longleftrightarrow> (\<forall>L M N. pools L M N s \<and> in_use p L M N \<longrightarrow> pools (minus_R p L) (minus_W p M) (minus_O p N) s')"

text \<open>The run of completions after a request has joined the empty pending queue.\<close>

lemma post_one:
  fixes s :: "'a nvme_st_scheme" and i :: nat and p :: obj_ptr
  assumes "cq_free i s" "get_req p s = Some r" "sqi r < length (sqs s)"
  defines "cq1 \<equiv> (cqs s ! i)\<lparr>pend_objs := (pend_objs (cqs s ! i))[pend_tail (cqs s ! i) := p], pend_tail := (pend_tail (cqs s ! i) + 1) mod pend_size (cqs s ! i)\<rparr>"
  shows "\<exists>s'. post_ccmd i sqi (set_cq i cq1 s) = Some s' \<and> completes i (sq_head (sqs s ! sqi r)) r s s' \<and> releases p s s'"
proof -
  let ?s1 = "set_cq i cq1 s"
  have a: "drv_ok s" "i < length (cqs s)" "cq_ok (cqs s ! i)" "ccmd_buf s + 16 \<le> 2 ^ 32" "cq_room (cqs s ! i) \<noteq> 0" using assms(1) by (simp_all add: cq_free_def)
  note push = pend_push_one [OF assms(1), of p, folded cq1_def]
  have c: "cqs ?s1 ! i = cq1" "sqs ?s1 = sqs s" "get_req p ?s1 = Some r" "drv_ok ?s1" "ccmd_buf ?s1 = ccmd_buf s" "host ?s1 = host s" "queues ?s1 = queues s"
    "ram ?s1 = ram s" "length (cqs ?s1) = length (cqs s)" using a assms(2) by (simp_all add: set_cq_def)
  from post_ccmd_ok [of ?s1 i r sqi, unfolded c] push a assms(3) obtain s' where
    s': "post_ccmd i sqi ?s1 = Some s'" "post_frame ?s1 s'" "drv_ok s'"
      "cqs s' = (cqs ?s1)[i := inc_cq_tail (cq1\<lparr>pend_head := (pend_head cq1 + 1) mod pend_size cq1\<rparr>)]"
      "link_frame (host s) (host s')" "qs_step (queues s) (queues s')"
      "\<forall>x. x < cq_slot (cqs s ! i) 0 \<or> cq_slot (cqs s ! i) 0 + 16 \<le> x \<longrightarrow> host_mem (host s') x = host_mem (host s) x"
      "ccmd_for (sq_head (sqs s ! sqi r)) (cq_phase cq1) (cid (scmd r), status r, ccmd_dw0 r, sqid r) (load_ccmd (host_mem (host s')) (cq_slot (cqs s ! i) 0))"
      "host_irqs (host s') = host_irqs (host s) @ (if cq_irq_enabled cq1 \<noteq> 0 then [cq_vector cq1] else [])"
      "\<forall>x. x < ccmd_buf s \<or> ccmd_buf s + 16 \<le> x \<longrightarrow> ram s' x = ram s x"
    by (auto simp: c)
  have e: "cq_phase cq1 = cq_phase (cqs s ! i)" "cq_irq_enabled cq1 = cq_irq_enabled (cqs s ! i)" "cq_vector cq1 = cq_vector (cqs s ! i)" by (simp_all add: cq1_def)
  let ?c2 = "cq1\<lparr>pend_head := (pend_head cq1 + 1) mod pend_size cq1\<rparr>"
  have c2: "cqs s' ! i = inc_cq_tail ?c2" "\<forall>j. j \<noteq> i \<longrightarrow> cqs s' ! j = cqs s ! j" "length (cqs s') = length (cqs s)"
    using s'(4) a(2) by (simp_all add: set_cq_def)
  have "pend_head (inc_cq_tail ?c2) = pend_tail (inc_cq_tail ?c2)"
    using assms(1) by (simp add: inc_cq_tail_def Let_def cq1_def cq_free_def)
  moreover have "cq_room (cqs s ! i) = Suc (cq_room (inc_cq_tail ?c2))"
  proof -
    have "cq_ok ?c2" using push(4) by (simp add: cq_ok_def)
    moreover have "cq_room ?c2 = cq_room (cqs s ! i)" using push(5) by (simp add: cq_room_def)
    ultimately show ?thesis using cq_room_inc [of ?c2] a(5) by simp
  qed
  moreover have "cq_tail (inc_cq_tail ?c2) = cq_tail (inc_cq_tail (cqs s ! i))" by (simp add: inc_cq_tail_def Let_def cq1_def)
  moreover have "cq_ok (inc_cq_tail ?c2)" "pend_size (inc_cq_tail ?c2) = pend_size (cqs s ! i)" "cq_cqid (inc_cq_tail ?c2) = cq_cqid (cqs s ! i)"
    "cq_size (inc_cq_tail ?c2) = cq_size (cqs s ! i)" "cq_hostAddr (inc_cq_tail ?c2) = cq_hostAddr (cqs s ! i)"
    "cq_slot (inc_cq_tail ?c2) 0 = cq_slot (cqs s ! i) (Suc 0)"
  proof -
    have ok: "cq_ok ?c2" using push(4) by (simp add: cq_ok_def)
    then show "cq_ok (inc_cq_tail ?c2)" by (rule inc_cq_tail_ok)
    have "cq_slot ?c2 (Suc 0) = cq_slot (cqs s ! i) (Suc 0)" by (simp add: cq_slot_def cq_entry_def cq1_def)
    then show "cq_slot (inc_cq_tail ?c2) 0 = cq_slot (cqs s ! i) (Suc 0)" unfolding cq_slot_inc [OF ok] .
  qed (simp_all add: inc_cq_tail_def Let_def cq1_def)
  moreover have "post_frame s s'"
  proof -
    have "?s1 = s\<lparr>cqs := cqs ?s1, ram := ram s, host := host s, sync_dma := sync_dma s, queues := queues s,
      r_req := r_req s, w_req := w_req s, other_req_alloc := other_req_alloc s, free_r_req_objs := free_r_req_objs s, free_w_req_objs := free_w_req_objs s, free_req_objs := free_req_objs s\<rparr>"
      by (simp add: set_cq_def)
    then have "post_frame s ?s1" unfolding post_frame_def by blast
    then show ?thesis using s'(2) by (rule post_frame_trans)
  qed
  moreover have "releases p s s'"
    using post_ccmd_pools [OF c(4) _ s'(1)] push a unfolding releases_def c by (auto simp: pools_def set_cq_def)
  ultimately show ?thesis
    using s' c2 by (intro exI [of _ s']) (simp add: completes_def e)
qed

lemma enqueue_io_one:
  fixes s :: "'a nvme_st_scheme" and i :: nat
  assumes "cq_free i s" "get_req p s = Some r" "unat (sqid r) < length (sqs s)"
  shows "\<exists>s'. enqueue_io_ccmd i p s = Some s' \<and> completes i (sq_head (sqs s ! unat (sqid r))) r s s' \<and> releases p s s'"
proof -
  let ?st = "\<lambda>r. r\<lparr>req_stage := PENDING_CCMD_POST\<rparr>"
  let ?s0 = "upd_req p ?st s"
  have free: "cq_free i ?s0" using assms(1) by (simp add: cq_free_def drv_ok_upd_req)
  have "pools_len s" using assms(1) by (simp add: cq_free_def drv_ok_def)
  from get_upd_req [OF this assms(2), of ?st] have g: "get_req p ?s0 = Some (?st r)" .
  define c1 where "c1 = (cqs s ! i)\<lparr>pend_objs := (pend_objs (cqs s ! i))[pend_tail (cqs s ! i) := p], pend_tail := (pend_tail (cqs s ! i) + 1) mod pend_size (cqs s ! i)\<rparr>"
  note push = pend_push_one [OF assms(1), of p, folded c1_def]
  from post_one [OF free g, of "\<lambda>r. unat (sqid r)", unfolded upd_req_nvme, folded c1_def] assms(3) obtain s' where
    s': "post_ccmd i (\<lambda>r. unat (sqid r)) (set_cq i c1 ?s0) = Some s'" "completes i (sq_head (sqs s ! unat (sqid r))) (?st r) ?s0 s'" "releases p ?s0 s'" by auto
  have i: "i < length (cqs s)" "0 < pend_size (cqs s ! i)" using assms(1) by (auto simp: cq_free_def)
  have cc: "cqs (set_cq i c1 ?s0) ! i = c1" "length (cqs (set_cq i c1 ?s0)) = length (cqs s)" using i by (simp_all add: set_cq_def)
  have full: "nvme_cq_full c1 = Some False" using cq_room_full [OF push(4)] push(5) assms(1) by (simp add: cq_free_def)
  have end1: "post_io_ccmds i s' = Some s'"
    using s'(2) i by (subst post_io_ccmds.simps) (simp add: completes_def Let_def)
  have "upd_req p ?st (set_cq i c1 s) = set_cq i c1 ?s0" by (simp add: upd_req_def set_cq_def split: obj_ptr.split)
  then have "enqueue_io_ccmd i p s = post_io_ccmds i (set_cq i c1 ?s0)"
    using i push(1) pend_not_full [OF assms(1)] assms(2) by (simp add: enqueue_io_ccmd_def set_cq_def)
  also have "\<dots> = Some s'"
    using s'(1) full push(2) i end1 by (subst post_io_ccmds.simps) (simp add: cc Let_def)
  finally have e: "enqueue_io_ccmd i p s = Some s'" .
  have "completes i (sq_head (sqs s ! unat (sqid r))) r s s'"
  proof -
    obtain R W Q where "?s0 = s\<lparr>r_req := R, w_req := W, other_req_alloc := Q\<rparr>" using upd_req_split by blast
    then have "?s0 = s\<lparr>cqs := cqs s, ram := ram s, host := host s, sync_dma := sync_dma s, queues := queues s,
      r_req := R, w_req := W, other_req_alloc := Q, free_r_req_objs := free_r_req_objs s, free_w_req_objs := free_w_req_objs s, free_req_objs := free_req_objs s\<rparr>" by simp
    then have "post_frame s ?s0" unfolding post_frame_def by blast
    then show ?thesis using s'(2) post_frame_trans by (auto simp: completes_def)
  qed
  moreover have "releases p s s'"
  proof -
    have "pools L M N ?s0" if "pools L M N s" "in_use p L M N" for L M N
      using that by (rule pools_stage) (simp add: PENDING_CCMD_POST_def REQ_STAGE_FREE_def)
    with s'(3) show ?thesis by (simp add: releases_def)
  qed
  ultimately show ?thesis using e by blast
qed

lemma enqueue_admin_one:
  fixes s :: "'a nvme_st_scheme"
  assumes "cq_free 0 s" "get_req p s = Some r" "0 < length (sqs s)"
  shows "\<exists>s'. enqueue_admin_ccmd p s = Some s' \<and> completes 0 (sq_head (sqs s ! 0)) r s s' \<and> releases p s s'"
proof -
  define c1 where "c1 = (cqs s ! 0)\<lparr>pend_objs := (pend_objs (cqs s ! 0))[pend_tail (cqs s ! 0) := p], pend_tail := (pend_tail (cqs s ! 0) + 1) mod pend_size (cqs s ! 0)\<rparr>"
  note push = pend_push_one [OF assms(1), of p, folded c1_def]
  from post_one [OF assms(1,2), of "\<lambda>_. 0", folded c1_def] assms(3) obtain s' where
    s': "post_ccmd 0 (\<lambda>_. 0) (set_cq 0 c1 s) = Some s'" "completes 0 (sq_head (sqs s ! 0)) r s s'" "releases p s s'" by auto
  have i: "0 < length (cqs s)" using assms(1) by (auto simp: cq_free_def)
  have cc: "cqs (set_cq 0 c1 s) ! 0 = c1" using i by (simp add: set_cq_def)
  have full: "nvme_cq_full c1 = Some False" using cq_room_full [OF push(4)] push(5) assms(1) by (simp add: cq_free_def)
  have end1: "post_admin_ccmds s' = Some s'"
    using s'(2) by (subst post_admin_ccmds.simps) (simp add: completes_def Let_def)
  have "enqueue_admin_ccmd p s = post_admin_ccmds (set_cq 0 c1 s)" using push(1) by (simp add: enqueue_admin_ccmd_def)
  also have "\<dots> = Some s'" using s'(1) full push(2) end1 by (subst post_admin_ccmds.simps) (simp add: cc Let_def)
  finally show ?thesis using s'(2,3) by blast
qed

section \<open>Fetching a command\<close>

lemma load_scmd_put: "load_scmd (put_bytes 64 a (\<lambda>j. m (b + j)) hm) a = load_scmd m b"
proof -
  let ?p = "put_bytes 64 a (\<lambda>j. m (b + j)) hm"
  have l: "load32 ?p (a + e) = load32 m (b + e)" if "e + 4 \<le> 64" for e
    using that by (simp add: load32_def put_bytes_def add.assoc)
  have "load16 ?p (a + 2) = load16 m (b + 2)"
    by (simp add: load16_def put_bytes_def add.assoc eval_nat_numeral)
  moreover have "load64 ?p (a + e) = load64 m (b + e)" if "e + 8 \<le> 64" for e
    using that l [of e] l [of "e + 4"] by (simp add: load64_def add.assoc)
  moreover have "?p a = m b" "?p (a + 1) = m (b + 1)" by (simp_all add: put_bytes_def)
  ultimately show ?thesis using l by (simp add: load_scmd_def)
qed

text \<open>The entry of a submission queue the driver reads next, and its command.\<close>

definition sq_entry :: "NvmeSQueue \<Rightarrow> nat" where
  "sq_entry sq = unat (sq_hostAddr sq + ucast (sq_head sq * 64))"

definition next_cmd :: "nat \<Rightarrow> 'a nvme_st_scheme \<Rightarrow> NvmeSCmd" where
  "next_cmd i s = load_scmd (host_mem (host s)) (sq_entry (sqs s ! i))"

definition advance :: "NvmeSQueue \<Rightarrow> NvmeSQueue" where
  "advance sq = sq\<lparr>sq_head := (sq_head sq + 1) mod sq_size sq\<rparr>"

definition sq_ready :: "nat \<Rightarrow> 'a nvme_st_scheme \<Rightarrow> bool" where
  "sq_ready i s \<longleftrightarrow> i < length (sqs s) \<and> length (sqs s) \<le> 2 ^ 16 \<and> sq_size (sqs s ! i) \<noteq> 0 \<and> scmd_buf s + 64 * unat (sq_head (sqs s ! i)) < 2 ^ 32"

text \<open>Fetching changes the command buffer and the DMA state only.\<close>

definition fetch_frame :: "'a nvme_st_scheme \<Rightarrow> nat \<Rightarrow> mem \<Rightarrow> host_if \<Rightarrow> obj_queue_t list \<Rightarrow> bool" where
  "fetch_frame s i m h qs \<longleftrightarrow> (let a = scmd_buf s + 64 * unat (sq_head (sqs s ! i)) in \<forall>x. x < a \<or> a + 64 \<le> x \<longrightarrow> m x = ram s x) \<and>
     qs_step (queues s) qs \<and> link_frame (host s) h \<and> host_mem h = host_mem (host s) \<and> host_irqs h = host_irqs (host s)"

lemma fetch_ok:
  fixes s :: "'a nvme_st_scheme"
  assumes "drv_ok s" "sq_ready i s"
  defines "a \<equiv> scmd_buf s + 64 * unat (sq_head (sqs s ! i))"
  shows "\<exists>m h d qs. sync_read_scmd q (sq_head (sqs s ! i)) (sq_hostAddr (sqs s ! i)) a 1 s = Some (s\<lparr>ram := m, host := h, sync_dma := d, queues := qs\<rparr>) \<and>
     fetch_frame s i m h qs \<and> load_scmd m a = next_cmd i s"
proof -
  let ?sq = "sqs s ! i"
  have "dma_q_ok (queues s)" "link_ok (host s)" "a < 2 ^ 32" using assms by (simp_all add: drv_ok_def sq_ready_def)
  from sync_read_scmd_ok [OF this, of q "sq_head ?sq" "sq_hostAddr ?sq" 1] obtain qs h d where
    r: "sync_read_scmd q (sq_head ?sq) (sq_hostAddr ?sq) a 1 s = Some (s\<lparr>ram := put_bytes 64 a (\<lambda>j. host_mem (host s) (sq_entry ?sq + j)) (ram s),
         host := h, sync_dma := d, queues := qs\<rparr>)"
      "qs_step (queues s) qs" "link_frame (host s) h" "host_mem h = host_mem (host s)" "host_irqs h = host_irqs (host s)"
    unfolding sq_entry_def by blast
  let ?m = "put_bytes 64 a (\<lambda>j. host_mem (host s) (sq_entry ?sq + j)) (ram s)"
  have "fetch_frame s i ?m h qs" using r by (auto simp: fetch_frame_def Let_def a_def put_bytes_def)
  then show ?thesis using r(1) by (intro exI [of _ ?m] exI [of _ h] exI [of _ d] exI [of _ qs]) (simp add: load_scmd_put next_cmd_def)
qed

lemma process_io_cmd_fetch:
  fixes s :: "'a isp_st_scheme"
  assumes "drv_ok s" "sq_ready i s"
  shows "\<exists>m h d qs. process_io_cmd g i s = io_dispatch g (of_nat i) (sq_head (sqs s ! i)) (next_cmd i s)
       (s\<lparr>ram := m, host := h, sync_dma := d, queues := qs, sqs := (sqs s)[i := advance (sqs s ! i)]\<rparr>) \<and> fetch_frame s i m h qs"
proof -
  from fetch_ok [OF assms, of "of_nat i"] obtain m h d qs where
    r: "sync_read_scmd (of_nat i) (sq_head (sqs s ! i)) (sq_hostAddr (sqs s ! i)) (scmd_buf s + 64 * unat (sq_head (sqs s ! i))) 1 s =
        Some (s\<lparr>ram := m, host := h, sync_dma := d, queues := qs\<rparr>)"
      "fetch_frame s i m h qs" "load_scmd m (scmd_buf s + 64 * unat (sq_head (sqs s ! i))) = next_cmd i s" by blast
  have i: "i < length (sqs s)" "sq_size (sqs s ! i) \<noteq> 0" using assms(2) by (simp_all add: sq_ready_def)
  show ?thesis
    using r i by (intro exI [of _ m] exI [of _ h] exI [of _ d] exI [of _ qs])
      (simp add: process_io_cmd_def Let_def inc_sq_head_def set_sq_def advance_def)
qed

lemma process_admin_cmd_fetch:
  fixes s :: "'a isp_st_scheme"
  assumes "drv_ok s" "sq_ready 0 s" "deQueue (free_req_objs s) = (Some (O_REQ x), fq)" "x < O_SIZE"
  defines "c \<equiv> next_cmd 0 s" and "e \<equiv> sq_head (sqs s ! 0)"
  shows "\<exists>m h d qs. process_admin_cmd g call_init s = admin_dispatch g call_init (opcode c) (O_REQ x)
       (s\<lparr>free_req_objs := fq, ram := m, host := h, sync_dma := d, queues := qs,
          other_req_alloc := (other_req_alloc s)[x := (other_req_alloc s ! x)\<lparr>rq_type := ADMIN_REQUEST, req_stage := REQ_STAGE_INUSE,
            status := 0, ccmd_dw0 := 0, scmd_entry := e, scmd := admin_cp (scmd (other_req_alloc s ! x)) c\<rparr>],
          sqs := (sqs s)[0 := advance (sqs s ! 0)]\<rparr>) \<and> fetch_frame s 0 m h qs"
proof -
  let ?s1 = "s\<lparr>free_req_objs := fq, other_req_alloc := (other_req_alloc s)[x := (other_req_alloc s ! x)\<lparr>rq_type := ADMIN_REQUEST, req_stage := REQ_STAGE_INUSE\<rparr>]\<rparr>"
  have len: "x < length (other_req_alloc s)" using assms(1,4) by (simp add: drv_ok_def pools_len_def)
  have mal: "sys_malloc_req_obj ADMIN_REQUEST s = Some (O_REQ x, ?s1)"
    using assms(3) by (simp add: sys_malloc_req_obj_def ADMIN_REQUEST_def READ_IO_REQUEST_def WRITE_IO_REQUEST_def other_req_type_def upd_req_def)
  have ok: "drv_ok ?s1" "sq_ready 0 ?s1" "next_cmd 0 ?s1 = c" using assms(1,2) by (simp_all add: drv_ok_def pools_len_def sq_ready_def next_cmd_def c_def)
  from fetch_ok [OF ok(1,2), of 0] obtain m h d qs where
    r: "sync_read_scmd 0 e (sq_hostAddr (sqs s ! 0)) (scmd_buf s + 64 * unat e) 1 ?s1 = Some (?s1\<lparr>ram := m, host := h, sync_dma := d, queues := qs\<rparr>)"
      "fetch_frame ?s1 0 m h qs" "load_scmd m (scmd_buf s + 64 * unat e) = c" by (auto simp: e_def ok(3))
  have i: "sq_size (sqs s ! 0) \<noteq> 0" using assms(2) by (simp add: sq_ready_def)
  have "fetch_frame s 0 m h qs" using r(2) by (simp add: fetch_frame_def)
  then show ?thesis
    using r i len by (intro exI [of _ m] exI [of _ h] exI [of _ d] exI [of _ qs])
      (simp add: process_admin_cmd_def Let_def mal inc_sq_head_def set_sq_def advance_def upd_req_def e_def [symmetric])
qed

section \<open>The scatter list of a request\<close>

lemma fold_addr_len [simp]: "length (fold (\<lambda>i l. l[i := f i (l ! i)]) js l) = length l"
  by (induction js arbitrary: l) simp_all

lemma fold_addr_map: "(\<And>i e. h (f i e) = h e) \<Longrightarrow> map h (fold (\<lambda>i l. l[i := f i (l ! i)]) js l) = map h l"
  by (induction js arbitrary: l) (simp_all add: map_upd_same)

lemma set_addrs_same [simp]:
  "buffer_addr (set_buffer_addrs g b n d) = b" "n_ops (set_buffer_addrs g b n d) = n_ops d" "data_size (set_buffer_addrs g b n d) = data_size d"
  "length (dma_list (set_buffer_addrs g b n d)) = length (dma_list d)"
  using fold_addr_len [of "\<lambda>i e. e\<lparr>ssd_addr := b + i * 2 ^ HOST_DS g\<rparr>" "[0..<n]" "dma_list d"] by (simp_all add: set_buffer_addrs_def)

lemma set_addrs_pieces [simp]: "io_pieces (set_buffer_addrs g b n d) = io_pieces d"
  using fold_addr_map [of piece "\<lambda>i e. e\<lparr>ssd_addr := b + i * 2 ^ HOST_DS g\<rparr>" "[0..<n]" "dma_list d"]
  by (simp add: io_pieces_def set_buffer_addrs_def take_map [symmetric] piece_def)

lemma io_dma_flag [simp]: "io_pieces (d\<lparr>host_dma_complete := b\<rparr>) = io_pieces d" "io_dma_fits (d\<lparr>host_dma_complete := b\<rparr>) = io_dma_fits d"
  by (simp_all add: io_pieces_def io_dma_fits_def)

lemma io_fits_pieces:
  assumes "unat (n_ops d) \<le> length (dma_list d)" "\<forall>(a, n) \<in> set (io_pieces d). 0 < n \<and> n \<le> INTERFACE_DMA_PAGE_SIZE"
    "buffer_addr d + nbytes (io_pieces d) \<le> 2 ^ 32"
  shows "io_dma_fits d"
  using assms by (auto simp: io_dma_fits_def io_pieces_def ops_fit_def piece_def)

lemma prp_piece_len:
  assumes "0 < pg" "0 < n" "(a, l) \<in> set (prp_pieces pg p1 p2 hm n)"
  shows "0 < l \<and> l \<le> pg"
proof -
  have "unat p1 mod pg < pg" using assms(1) by simp
  with assms show ?thesis by (auto simp: prp_pieces_def Let_def prp_first_def dest!: spread_in_page split: if_splits)
qed

lemma page_size_le: "drv_ok s \<Longrightarrow> 0 < unat (hostMemPageSize s) \<and> unat (hostMemPageSize s) \<le> INTERFACE_DMA_PAGE_SIZE"
proof -
  assume "drv_ok s"
  then obtain b where b: "12 \<le> b" "b \<le> 16" "hostMemPageSize s = 2 ^ b" by (auto simp: drv_ok_def)
  then have "unat (hostMemPageSize s) = 2 ^ b" by (simp add: page_size_nat)
  with power_increasing [OF b(2), of "2 :: nat"] show ?thesis by (simp add: INTERFACE_DMA_PAGE_SIZE_def)
qed

text \<open>The bytes of a command, as long as the buffer it goes to exists.\<close>

lemma rw_size: "unat (io_nlbs c) < MDTS_PAGES \<Longrightarrow> MDTS_PAGES * HOST_PAGE_SIZE g < 2 ^ 32 \<Longrightarrow> unat (rw_data_size g c) = (unat (io_nlbs c) + 1) * HOST_PAGE_SIZE g"
proof -
  assume a: "unat (io_nlbs c) < MDTS_PAGES" "MDTS_PAGES * HOST_PAGE_SIZE g < 2 ^ 32"
  let ?n = "unat (io_nlbs c) + 1"
  have n: "?n \<le> 16" using a(1) by (simp add: MDTS_PAGES_def)
  have u: "unat (ucast (io_nlbs c) + 1 :: u32) = ?n"
    using n by (simp add: unat_word_ariths unsigned_ucast_eq take_bit_eq_mod)
  have hp: "HOST_PAGE_SIZE g = 2 ^ HOST_DS g" by (simp add: HOST_PAGE_SIZE_def HOST_DS_def)
  have "?n * 2 ^ HOST_DS g \<le> 16 * 2 ^ HOST_DS g" using n by (rule mult_le_mono1)
  also have "\<dots> < 2 ^ 32" using a(2) by (simp add: MDTS_PAGES_def hp)
  finally have "?n * 2 ^ HOST_DS g < 2 ^ 32" .
  then show ?thesis unfolding rw_data_size_def unsigned_push_bit_eq u by (simp add: hp push_bit_eq_mult take_bit_eq_mod)
qed

section \<open>Waiting for the page buffer\<close>

definition bq_idle :: "buf_q_t \<Rightarrow> bool" where
  "bq_idle q \<longleftrightarrow> bq_empty q \<and> bq_head q = bq_tail q \<and> bq_tail q < 128 \<and> length (bq_objs q) = 128"

lemma bq_push_pop:
  assumes "bq_idle q"
  shows "\<not> bq_empty (push_buf_q 128 p q)" "bq_objs (push_buf_q 128 p q) ! bq_head (push_buf_q 128 p q) = p"
    "bq_idle (snd (pop_buf_q 128 (push_buf_q 128 p q)))"
  using assms by (simp_all add: bq_idle_def push_buf_q_def pop_buf_q_def Let_def)

lemma buf_q_sizes [simp]: "R_BUFFER_Q_SIZE = 128" "W_BUFFER_Q_SIZE = 128"
  by (simp_all add: R_BUFFER_Q_SIZE_def W_BUFFER_Q_SIZE_def MAX_IO_SQCQ_ENTRIES_def)

text \<open>Nothing waits: both loops return at once.\<close>

lemma step_2_empty [simp]:
  "bq_empty (r_buf_q s) \<Longrightarrow> process_read_ios_step_2 g s = Some s"
  "bq_empty (w_buf_q s) \<Longrightarrow> process_write_ios_step_2 g s = Some s"
  by (subst process_read_ios_step_2.simps process_write_ios_step_2.simps, simp)+

text \<open>The only waiting read gets the buffer and goes to the translation layer.\<close>

lemma read_step_one:
  fixes s :: "'a nvme_st_scheme" and x :: nat and g :: geo
  assumes "bq_idle (r_buf_q s)" "\<not> page_buffer_inuse s" "q_idle (queues s) FTL_MODULE_IN_Q" "x < R_SIZE" "length (r_req s) = R_SIZE"
    and "unat (io_nlbs (scmd (r_req s ! x))) < MDTS_PAGES"
  defines "r \<equiv> (r_req s ! x)\<lparr>dma := set_buffer_addrs g (page_buffer s) (unat (io_nlbs (scmd (r_req s ! x))) + 1) (dma (r_req s ! x))\<rparr>"
  shows "\<exists>bq e. process_read_ios_step_2 g (push_r_buf_q (R_REQ x) s) =
      Some (s\<lparr>r_req := (r_req s)[x := r], page_buffer_inuse := True, r_buf_q := bq, queues := (queues s)[FTL_MODULE_IN_Q := e]\<rparr>) \<and>
      bq_idle bq \<and> q_one ((queues s)[FTL_MODULE_IN_Q := e]) FTL_MODULE_IN_Q READ_IO_REQUEST (R_REQ x)"
proof -
  let ?q1 = "push_buf_q 128 (R_REQ x) (r_buf_q s)"
  let ?q2 = "snd (pop_buf_q 128 ?q1)"
  note bq = bq_push_pop [OF assms(1), of "R_REQ x"]
  let ?s1 = "s\<lparr>r_req := (r_req s)[x := r], page_buffer_inuse := True, r_buf_q := ?q2\<rparr>"
  from push_idle [of ?s1 FTL_MODULE_IN_Q "R_REQ x" READ_IO_REQUEST] assms(3) obtain e where
    e: "sys_push_to_ftl (R_REQ x) READ_IO_REQUEST ?s1 = ?s1\<lparr>queues := (queues s)[FTL_MODULE_IN_Q := e]\<rparr>"
      "q_one ((queues s)[FTL_MODULE_IN_Q := e]) FTL_MODULE_IN_Q READ_IO_REQUEST (R_REQ x)"
    by (auto simp: sys_push_to_ftl_def)
  have buf: "get_read_io_buffer g (R_REQ x) (push_r_buf_q (R_REQ x) s) = Some (0, s\<lparr>r_buf_q := ?q1, r_req := (r_req s)[x := r], page_buffer_inuse := True\<rparr>)"
    using assms(2,4,5,6) by (simp add: get_read_io_buffer_def push_r_buf_q_def get_req_def upd_req_def r_def)
  have pop: "snd (pop_r_buf_q (s\<lparr>r_buf_q := ?q1, r_req := (r_req s)[x := r], page_buffer_inuse := True\<rparr>)) = ?s1"
    by (simp add: pop_r_buf_q_def split: prod.split)
  have h: "r_buf_q (push_r_buf_q (R_REQ x) s) = ?q1" by (simp add: push_r_buf_q_def)
  have "process_read_ios_step_2 g (push_r_buf_q (R_REQ x) s) = process_read_ios_step_2 g (?s1\<lparr>queues := (queues s)[FTL_MODULE_IN_Q := e]\<rparr>)"
    by (subst process_read_ios_step_2.simps) (simp add: h bq Let_def buf pop e(1))
  also have "\<dots> = Some (?s1\<lparr>queues := (queues s)[FTL_MODULE_IN_Q := e]\<rparr>)" using bq(3) by (intro step_2_empty) (simp add: bq_idle_def)
  finally show ?thesis using e(2) bq(3) by (intro exI [of _ ?q2] exI [of _ e]) simp
qed

section \<open>The start of a read\<close>

text \<open>A read or write the standard allows: inside the namespace, not longer than the maximum, and with usable PRP fields.\<close>

definition rw_bytes :: "geo \<Rightarrow> NvmeSCmd \<Rightarrow> nat" where
  "rw_bytes g c = (unat (io_nlbs c) + 1) * HOST_PAGE_SIZE g"

definition rw_pieces :: "geo \<Rightarrow> NvmeSCmd \<Rightarrow> 'a nvme_st_scheme \<Rightarrow> (nat \<times> nat) list" where
  "rw_pieces g c s = prp_pieces (unat (hostMemPageSize s)) (prp1 c) (prp2 c) (host_mem (host s)) (rw_bytes g c)"

definition rw_legal :: "geo \<Rightarrow> NvmeSCmd \<Rightarrow> 'a nvme_st_scheme \<Rightarrow> bool" where
  "rw_legal g c s \<longleftrightarrow> unat (nsid c) \<le> NUM_NS \<and> unat (io_slba c) + unat (io_nlbs c) < unat (nsze (ssd_config s)) \<and> unat (io_nlbs c) < MDTS_PAGES \<and>
     prp_valid (hostMemPageSize s) (prp1 c) (prp2 c) (host_mem (host s)) (rw_bytes g c)"

lemma unat_up: "unat (ucast (a :: u16) :: u32) = unat a" "unat (ucast (a :: u16) :: u64) = unat a" "unat (ucast (b :: u32) :: u64) = unat b"
  using unsigned_less [of a, where ?'a = nat] unsigned_less [of b, where ?'a = nat] by (simp_all add: unsigned_ucast_eq take_bit_eq_mod)

lemma legal_verified: "rw_legal g c s \<Longrightarrow> verify_rw_param c s = 0"
proof -
  assume l: "rw_legal g c s"
  have "unat (nsze (ssd_config s)) < 2 ^ 32" using unsigned_less [of "nsze (ssd_config s)", where ?'a = nat] by simp
  then have "unat (io_slba c + ucast (io_nlbs c)) \<le> unat (ucast (nsze (ssd_config s)) :: u64)"
    using l by (simp add: rw_legal_def unat_word_ariths unat_up)
  with l show ?thesis by (simp add: verify_rw_param_def rw_legal_def word_less_nat_alt)
qed

text \<open>The request object of a command on submission queue \<open>q\<close> and completion queue \<open>ci\<close>, with its buffer.\<close>

definition rw_req :: "NvmeSCmd \<Rightarrow> u32 \<Rightarrow> nat \<Rightarrow> nat \<Rightarrow> (nat \<times> nat) list \<Rightarrow> req_t \<Rightarrow> bool" where
  "rw_req c q ci buf ps r \<longleftrightarrow> io_nlbs (scmd r) = io_nlbs c \<and> io_slba (scmd r) = io_slba c \<and> cid (scmd r) = cid c \<and> status r = 0 \<and>
     sqid r = q \<and> unat (cqid r) = ci \<and> buffer_addr (dma r) = buf \<and> io_pieces (dma r) = ps \<and> io_dma_fits (dma r) \<and> length (dma_list (dma r)) = MDTS_PAGES"

lemma io_cp_fields [simp]: "io_nlbs (io_cp t c) = io_nlbs c" "io_slba (io_cp t c) = io_slba c" "cid (io_cp t c) = cid c" "prp1 (io_cp t c) = prp1 c"
  "prp2 (io_cp t c) = prp2 c" "rw_data_size g (io_cp t c) = rw_data_size g c"
  by (simp_all add: io_cp_def io_nlbs_def io_slba_def rw_data_size_def)

lemma rw_req_fits:
  assumes "drv_ok s" "unat k \<le> MDTS_PAGES" "length l = MDTS_PAGES" "map piece (take (unat k) l) = rw_pieces g c s" "buf + rw_bytes g c \<le> 2 ^ 32"
  shows "io_dma_fits (set_buffer_addrs g buf n (d\<lparr>dma_list := l, n_ops := k\<rparr>))" "io_pieces (set_buffer_addrs g buf n (d\<lparr>dma_list := l, n_ops := k\<rparr>)) = rw_pieces g c s"
proof -
  show ps: "io_pieces (set_buffer_addrs g buf n (d\<lparr>dma_list := l, n_ops := k\<rparr>)) = rw_pieces g c s"
    using assms(4) unfolding set_addrs_pieces by (simp add: io_pieces_def)
  note pg = page_size_le [OF assms(1)]
  have "0 < rw_bytes g c" by (simp add: rw_bytes_def HOST_PAGE_SIZE_def)
  then have "\<forall>(a, n) \<in> set (rw_pieces g c s). 0 < n \<and> n \<le> INTERFACE_DMA_PAGE_SIZE"
    using pg prp_piece_len [of "unat (hostMemPageSize s)" "rw_bytes g c"] unfolding rw_pieces_def by fastforce
  moreover have "nbytes (rw_pieces g c s) = rw_bytes g c" using pg by (simp add: rw_pieces_def nbytes_prp)
  ultimately show "io_dma_fits (set_buffer_addrs g buf n (d\<lparr>dma_list := l, n_ops := k\<rparr>))"
    using assms(2,3,5) by (intro io_fits_pieces) (simp_all only: ps, simp_all)
qed

text \<open>The scatter list of a legal command, with the addresses of the page buffer.\<close>

lemma decode_rw:
  fixes s :: "'a nvme_st_scheme"
  assumes "drv_ok s" "get_dma (DMA_OF p) s = Some d0" "data_size d0 = rw_data_size g c" "length (dma_list d0) = MDTS_PAGES" "rw_legal g c s"
    and b: "page_buffer s + MDTS_PAGES * HOST_PAGE_SIZE g < 2 ^ 32"
  shows "\<exists>d1 m h qs d. decode_prp (prp1 c) (prp2 c) (DMA_OF p) s = Some (0, upd_dma (DMA_OF p) (\<lambda>_. d1) (s\<lparr>ram := m, host := h, queues := qs, prp_dma := d\<rparr>)) \<and>
     drv_frame s m h qs d \<and> io_dma_fits (set_buffer_addrs g (page_buffer s) (unat (io_nlbs c) + 1) d1) \<and> io_pieces d1 = rw_pieces g c s \<and> length (dma_list d1) = MDTS_PAGES"
proof -
  have n: "unat (io_nlbs c) < MDTS_PAGES" "MDTS_PAGES * HOST_PAGE_SIZE g < 2 ^ 32" using assms(5) b by (simp_all add: rw_legal_def)
  have sz: "unat (data_size d0) = rw_bytes g c" using rw_size [OF n] by (simp add: rw_bytes_def assms(3))
  have "prp_valid (hostMemPageSize s) (prp1 c) (prp2 c) (host_mem (host s)) (unat (data_size d0))" unfolding sz using assms(5) by (simp add: rw_legal_def)
  from decode_prp_ok [OF assms(1,2,4) this] obtain l k m h qs d where
    dec: "decode_prp (prp1 c) (prp2 c) (DMA_OF p) s = Some (0, upd_dma (DMA_OF p) (\<lambda>_. d0\<lparr>dma_list := l, n_ops := k\<rparr>) (s\<lparr>ram := m, host := h, queues := qs, prp_dma := d\<rparr>))"
      "drv_frame s m h qs d" "length l = MDTS_PAGES" "unat k \<le> MDTS_PAGES" "map piece (take (unat k) l) = rw_pieces g c s"
    unfolding rw_pieces_def sz by blast
  have "page_buffer s + rw_bytes g c \<le> 2 ^ 32"
    using b mult_le_mono1 [of "unat (io_nlbs c) + 1" MDTS_PAGES "HOST_PAGE_SIZE g"] n(1) by (simp add: rw_bytes_def)
  note fits = rw_req_fits [OF assms(1) dec(4,3,5) this, of "unat (io_nlbs c) + 1" d0]
  show ?thesis
    using dec fits by (intro exI [of _ "d0\<lparr>dma_list := l, n_ops := k\<rparr>"] exI [of _ m] exI [of _ h] exI [of _ qs] exI [of _ d]) simp
qed

text \<open>A read command in an idle driver: a request with the pieces of the command is under way to the translation layer.\<close>

lemma process_read_io_ok:
  fixes s :: "'a nvme_st_scheme" and q e :: u32
  assumes s: "drv_ok s" "\<not> page_buffer_inuse s" "bq_idle (r_buf_q s)" "q_idle (queues s) FTL_MODULE_IN_Q"
      "page_buffer s + MDTS_PAGES * HOST_PAGE_SIZE g < 2 ^ 32"
    and c: "rw_legal g c s"
    and x: "deQueue (free_r_req_objs s) = (Some (R_REQ x), fq)" "x < R_SIZE" "length (dma_list (dma (r_req s ! x))) = MDTS_PAGES"
    and ci: "unat (sq_cqid (sqs s ! unat q)) = ci" "ci < length (cqs s)" "unat (cq_cqid (cqs s ! ci)) = ci"
  shows "\<exists>r m h qs d bq e'. process_read_io g q e c s = Some (s\<lparr>free_r_req_objs := fq, ram := m, host := h, prp_dma := d, r_req := (r_req s)[x := r],
       page_buffer_inuse := True, r_buf_q := bq, queues := qs[FTL_MODULE_IN_Q := e']\<rparr>) \<and> drv_frame s m h qs d \<and> bq_idle bq \<and>
     q_one (qs[FTL_MODULE_IN_Q := e']) FTL_MODULE_IN_Q READ_IO_REQUEST (R_REQ x) \<and>
     rw_req c q ci (page_buffer s) (rw_pieces g c s) r \<and> rq_type r = rq_type (r_req s ! x) \<and> req_stage r \<noteq> REQ_STAGE_FREE"
proof -
  let ?r0 = "(r_req s ! x)\<lparr>req_stage := REQ_STAGE_INUSE, status := 0, sqid := q, cqid := ucast (cq_cqid (cqs s ! ci)), sqe := e, scmd := io_cp (scmd (r_req s ! x)) c\<rparr>"
  let ?d0 = "(dma (r_req s ! x))\<lparr>host_dma_complete := False, data_size := rw_data_size g c\<rparr>"
  let ?r2 = "?r0\<lparr>nand_io_complete := False, dma := ?d0\<rparr>"
  let ?s1 = "s\<lparr>free_r_req_objs := fq, r_req := (r_req s)[x := ?r0]\<rparr>"
  let ?s2 = "s\<lparr>free_r_req_objs := fq, r_req := (r_req s)[x := ?r2]\<rparr>"
  have len: "length (r_req s) = R_SIZE" using s(1) by (simp add: drv_ok_def pools_len_def)
  have n: "unat (io_nlbs c) < MDTS_PAGES" "MDTS_PAGES * HOST_PAGE_SIZE g < 2 ^ 32" using c s(5) by (simp_all add: rw_legal_def)
  have start: "start_rw READ_IO_REQUEST q e c s = Some (R_REQ x, ucast (cq_cqid (cqs s ! ci)), ?s1)"
    using x ci len by (simp add: start_rw_def sys_malloc_req_obj_def upd_req_def Let_def)
  have ver: "verify_rw_param c ?s1 = 0" using legal_verified [OF c] by (simp add: verify_rw_param_def split: if_splits)
  have s2: "drv_ok ?s2" "get_dma (DMA_OF (R_REQ x)) ?s2 = Some ?d0" using s(1) x(2) len by (simp_all add: drv_ok_def pools_len_def get_dma_def get_req_def)
  have "rw_legal g c ?s2" using c by (simp add: rw_legal_def)
  from decode_rw [OF s2 _ _ this] x(3) s(5) obtain d1 m h qs d where
    dec: "decode_prp (prp1 c) (prp2 c) (DMA_OF (R_REQ x)) ?s2 = Some (0, upd_dma (DMA_OF (R_REQ x)) (\<lambda>_. d1) (?s2\<lparr>ram := m, host := h, queues := qs, prp_dma := d\<rparr>))"
      "drv_frame ?s2 m h qs d" "io_dma_fits (set_buffer_addrs g (page_buffer s) (unat (io_nlbs c) + 1) d1)" "io_pieces d1 = rw_pieces g c s" "length (dma_list d1) = MDTS_PAGES"
    by (auto simp: rw_pieces_def)
  let ?r3 = "?r2\<lparr>dma := d1\<rparr>"
  let ?s3 = "s\<lparr>free_r_req_objs := fq, ram := m, host := h, queues := qs, prp_dma := d, r_req := (r_req s)[x := ?r3]\<rparr>"
  have u: "upd_dma (DMA_OF (R_REQ x)) (\<lambda>_. d1) (?s2\<lparr>ram := m, host := h, queues := qs, prp_dma := d\<rparr>) = ?s3"
    using x(2) len by (simp add: upd_dma_def upd_req_def)
  have fr: "drv_frame s m h qs d" using dec(2) by (simp add: drv_frame_def)
  then have qs: "qs_step (queues s) qs" by (simp add: drv_frame_def)
  let ?r = "?r3\<lparr>dma := set_buffer_addrs g (page_buffer s) (unat (io_nlbs c) + 1) d1\<rparr>"
  have "q_idle qs FTL_MODULE_IN_Q" using s(4) qs_step_idle(1) [OF qs, of FTL_MODULE_IN_Q] by simp
  with read_step_one [of ?s3 x g] s(2,3) x(2) len n(1) obtain bq e' where
    st: "process_read_ios_step_2 g (push_r_buf_q (R_REQ x) ?s3) = Some (?s3\<lparr>r_req := (r_req s)[x := ?r], page_buffer_inuse := True, r_buf_q := bq, queues := qs[FTL_MODULE_IN_Q := e']\<rparr>)"
      "bq_idle bq" "q_one (qs[FTL_MODULE_IN_Q := e']) FTL_MODULE_IN_Q READ_IO_REQUEST (R_REQ x)" by auto
  have req: "rw_req c q ci (page_buffer s) (rw_pieces g c s) ?r" using dec(3-5) ci by (simp add: rw_req_def unat_up)
  have "get_req (R_REQ x) ?s2 = Some ?r2" using x(2) len by (simp add: get_req_def)
  then have "process_read_io g q e c s = process_read_ios_step_2 g (push_r_buf_q (R_REQ x) ?s3)"
    using start ver x(2) len dec(1) unfolding u by (simp add: process_read_io_def upd_req_def Let_def)
  with st req fr show ?thesis
    by (intro exI [of _ ?r] exI [of _ m] exI [of _ h] exI [of _ qs] exI [of _ d] exI [of _ bq] exI [of _ e']) simp
qed

section \<open>The start of a write\<close>

text \<open>The cache after \<open>get_write_io_buffer\<close>.\<close>

definition wbc_for :: "geo \<Rightarrow> nat \<Rightarrow> NvmeSCmd \<Rightarrow> wbc_req_t \<Rightarrow> wbc_req_t" where
  "wbc_for g buf c w = w\<lparr>wb_pages := fill_wbc g buf (ucast (io_slba c)) (unat (io_nlbs c) + 1) (wb_pages w), wb_nand_io_complete := False,
     num_program_pgs := of_nat (unat (io_nlbs c) + 1)\<rparr>"

text \<open>
  The only waiting write gets the buffer and its data, the cache goes to the translation layer, and the
  command is completed.
\<close>

lemma write_step_one:
  fixes s :: "'a nvme_st_scheme" and x :: nat and g :: geo
  assumes s: "drv_ok s" "bq_idle (w_buf_q s)" "\<not> page_buffer_inuse s" "q_idle (queues s) FTL_MODULE_IN_Q" "x < W_SIZE"
    and c: "unat (io_nlbs (scmd (w_req s ! x))) < MDTS_PAGES"
    and ci: "cq_free ci s" "unat (cqid (w_req s ! x)) = ci" "unat (sqid (w_req s ! x)) < length (sqs s)"
  defines "r \<equiv> (w_req s ! x)\<lparr>dma := set_buffer_addrs g (page_buffer s) (unat (io_nlbs (scmd (w_req s ! x))) + 1) (dma (w_req s ! x))\<rparr>"
  assumes d: "io_dma_fits (dma r)"
  shows "\<exists>bq h qs e s'. let m = put_bytes (nbytes (io_pieces (dma r))) (page_buffer s) (\<lambda>j. host_mem (host s) (scatter (io_pieces (dma r)) j)) (ram s);
       s1 = s\<lparr>wbc := wbc_for g (page_buffer s) (scmd r) (wbc s), page_buffer_inuse := True, w_buf_q := bq, ram := m, host := h,
         w_req := (w_req s)[x := dma_started r], queues := qs[FTL_MODULE_IN_Q := e]\<rparr> in
     process_write_ios_step_2 g (push_w_buf_q (W_REQ x) s) = Some s' \<and> completes ci (sq_head (sqs s ! unat (sqid r))) (dma_started r) s1 s' \<and> releases (W_REQ x) s1 s' \<and> bq_idle bq \<and>
     q_one (qs[FTL_MODULE_IN_Q := e]) FTL_MODULE_IN_Q WBC_FLUSH_REQUEST WBC \<and>
     qs_step (queues s) qs \<and> link_frame (host s) h \<and> host_mem h = host_mem (host s) \<and> host_irqs h = host_irqs (host s)"
proof -
  let ?q1 = "push_buf_q 128 (W_REQ x) (w_buf_q s)"
  let ?q2 = "snd (pop_buf_q 128 ?q1)"
  note bq = bq_push_pop [OF s(2), of "W_REQ x"]
  have len: "length (w_req s) = W_SIZE" using s(1) by (simp add: drv_ok_def pools_len_def)
  let ?w = "wbc_for g (page_buffer s) (scmd r) (wbc s)"
  let ?m = "put_bytes (nbytes (io_pieces (dma r))) (page_buffer s) (\<lambda>j. host_mem (host s) (scatter (io_pieces (dma r)) j)) (ram s)"
  let ?sa = "s\<lparr>w_buf_q := ?q1, w_req := (w_req s)[x := r], wbc := ?w, page_buffer_inuse := True\<rparr>"
  let ?sb = "s\<lparr>w_req := (w_req s)[x := r], wbc := ?w, page_buffer_inuse := True, w_buf_q := ?q2\<rparr>"
  have scm: "scmd r = scmd (w_req s ! x)" by (simp add: r_def)
  have buf: "get_write_io_buffer g (W_REQ x) (push_w_buf_q (W_REQ x) s) = Some (0, ?sa)"
    using s(3,5) len c by (simp add: get_write_io_buffer_def push_w_buf_q_def get_req_def upd_req_def Let_def scm wbc_for_def) (simp add: r_def)
  have pop: "snd (pop_w_buf_q ?sa) = ?sb" by (simp add: pop_w_buf_q_def split: prod.split)
  have sb: "dma_q_ok (queues ?sb)" "link_ok (host ?sb)" "pools_len ?sb" "get_req (W_REQ x) ?sb = Some r"
    using s(1,5) len by (simp_all add: drv_ok_def pools_len_def get_req_def)
  have ba: "buffer_addr (dma r) = page_buffer s" by (simp add: r_def)
  from sync_write_io_dma_ok [OF sb d] obtain qs h where
    dm: "sync_write_io_dma (W_REQ x) ?sb = Some (upd_req (W_REQ x) dma_started (?sb\<lparr>ram := ?m, host := h, queues := qs\<rparr>))"
      "qs_step (queues s) qs" "link_frame (host s) h" "host_mem h = host_mem (host s)" "host_irqs h = host_irqs (host s)"
    by (auto simp: ba)
  let ?sc = "s\<lparr>wbc := ?w, page_buffer_inuse := True, w_buf_q := ?q2, ram := ?m, host := h, queues := qs, w_req := (w_req s)[x := dma_started r]\<rparr>"
  have u: "upd_req (W_REQ x) dma_started (?sb\<lparr>ram := ?m, host := h, queues := qs\<rparr>) = ?sc" using s(5) len by (simp add: upd_req_def)
  have "q_idle qs FTL_MODULE_IN_Q" using s(4) qs_step_idle(1) [OF dm(2), of FTL_MODULE_IN_Q] by simp
  with push_idle [of ?sc FTL_MODULE_IN_Q WBC WBC_FLUSH_REQUEST] obtain e where
    e: "snd (free_write_io_buffer ?sc) = ?sc\<lparr>queues := qs[FTL_MODULE_IN_Q := e]\<rparr>" "q_one (qs[FTL_MODULE_IN_Q := e]) FTL_MODULE_IN_Q WBC_FLUSH_REQUEST WBC"
    by (auto simp: free_write_io_buffer_def flush_all_wbc_def sys_push_to_ftl_def)
  let ?sd = "?sc\<lparr>queues := qs[FTL_MODULE_IN_Q := e]\<rparr>"
  have drv: "drv_ok ?sd" using s(1) dm(2,3) len by (auto simp: drv_ok_def qs_step_def link_frame_def pools_len_def)
  then have free: "cq_free ci ?sd" using ci(1) by (simp add: cq_free_def)
  have g: "get_req (W_REQ x) ?sd = Some (dma_started r)" using s(5) len by (simp add: get_req_def)
  have ids: "cqid (dma_started r) = cqid (w_req s ! x)" "sqid (dma_started r) = sqid (w_req s ! x)" by (simp_all add: r_def)
  from enqueue_io_one [OF free g] ci(3) obtain s' where
    s': "enqueue_io_ccmd ci (W_REQ x) ?sd = Some s'" "completes ci (sq_head (sqs s ! unat (sqid r))) (dma_started r) ?sd s'" "releases (W_REQ x) ?sd s'" by (auto simp: r_def)
  have "post_frame ?sd s'" using s'(2) by (simp add: completes_def)
  then have "w_buf_q s' = ?q2" by (auto simp: post_frame_def)
  then have fin: "process_write_ios_step_2 g s' = Some s'" using bq(3) by (intro step_2_empty) (simp add: bq_idle_def)
  have h: "w_buf_q (push_w_buf_q (W_REQ x) s) = ?q1" by (simp add: push_w_buf_q_def)
  have gc: "get_req (W_REQ x) ?sc = Some (dma_started r)" using s(5) len by (simp add: get_req_def)
  have "process_write_ios_step_2 g (push_w_buf_q (W_REQ x) s) = Some s'"
    using dm(1) ci(2) s'(1) unfolding u
    by (subst process_write_ios_step_2.simps) (simp add: h bq Let_def buf pop gc e(1) ids fin)
  with s'(2,3) bq(3) e(2) dm show ?thesis
    by (intro exI [of _ ?q2] exI [of _ h] exI [of _ qs] exI [of _ e] exI [of _ s']) (simp add: Let_def)
qed

text \<open>A write command in an idle driver.\<close>

lemma process_write_io_ok:
  fixes s :: "'a nvme_st_scheme" and q e :: u32
  assumes s: "drv_ok s" "\<not> page_buffer_inuse s" "bq_idle (w_buf_q s)" "q_idle (queues s) FTL_MODULE_IN_Q"
      "page_buffer s + MDTS_PAGES * HOST_PAGE_SIZE g < 2 ^ 32"
    and c: "rw_legal g c s"
    and x: "deQueue (free_w_req_objs s) = (Some (W_REQ x), fq)" "x < W_SIZE" "length (dma_list (dma (w_req s ! x))) = MDTS_PAGES"
    and ci: "unat (sq_cqid (sqs s ! unat q)) = ci" "cq_free ci s" "unat (cq_cqid (cqs s ! ci)) = ci" "unat q < length (sqs s)"
  shows "\<exists>r m h qs d bq e' s'. let s1 = s\<lparr>free_w_req_objs := fq, prp_dma := d, wbc := wbc_for g (page_buffer s) c (wbc s), page_buffer_inuse := True, w_buf_q := bq,
         ram := put_bytes (rw_bytes g c) (page_buffer s) (\<lambda>j. host_mem (host s) (scatter (rw_pieces g c s) j)) m, host := h,
         w_req := (w_req s)[x := r], queues := qs[FTL_MODULE_IN_Q := e']\<rparr> in
     process_write_io g q e c s = Some s' \<and> completes ci (sq_head (sqs s ! unat q)) r s1 s' \<and> releases (W_REQ x) s1 s' \<and> drv_frame s m h qs d \<and> bq_idle bq \<and>
     q_one (qs[FTL_MODULE_IN_Q := e']) FTL_MODULE_IN_Q WBC_FLUSH_REQUEST WBC \<and>
     rw_req c q ci (page_buffer s) (rw_pieces g c s) r \<and> rq_type r = rq_type (w_req s ! x) \<and> req_stage r \<noteq> REQ_STAGE_FREE"
proof -
  let ?r0 = "(w_req s ! x)\<lparr>req_stage := REQ_STAGE_INUSE, status := 0, sqid := q, cqid := ucast (cq_cqid (cqs s ! ci)), sqe := e, scmd := io_cp (scmd (w_req s ! x)) c\<rparr>"
  let ?d0 = "(dma (w_req s ! x))\<lparr>host_dma_complete := False, data_size := rw_data_size g c\<rparr>"
  let ?r2 = "?r0\<lparr>dma := ?d0\<rparr>"
  let ?s1 = "s\<lparr>free_w_req_objs := fq, w_req := (w_req s)[x := ?r0]\<rparr>"
  let ?s2 = "s\<lparr>free_w_req_objs := fq, w_req := (w_req s)[x := ?r2]\<rparr>"
  have len: "length (w_req s) = W_SIZE" and i: "ci < length (cqs s)" using s(1) ci(2) by (simp_all add: drv_ok_def pools_len_def cq_free_def)
  have n: "unat (io_nlbs c) < MDTS_PAGES" using c by (simp add: rw_legal_def)
  have start: "start_rw WRITE_IO_REQUEST q e c s = Some (W_REQ x, ucast (cq_cqid (cqs s ! ci)), ?s1)"
    using x ci(1) i len by (simp add: start_rw_def sys_malloc_req_obj_def upd_req_def Let_def)
  have ver: "verify_rw_param c ?s1 = 0" using legal_verified [OF c] by (simp add: verify_rw_param_def split: if_splits)
  have s2: "drv_ok ?s2" "get_dma (DMA_OF (W_REQ x)) ?s2 = Some ?d0" using s(1) x(2) len by (simp_all add: drv_ok_def pools_len_def get_dma_def get_req_def)
  have "rw_legal g c ?s2" using c by (simp add: rw_legal_def)
  from decode_rw [OF s2 _ _ this] x(3) s(5) obtain d1 m h qs d where
    dec: "decode_prp (prp1 c) (prp2 c) (DMA_OF (W_REQ x)) ?s2 = Some (0, upd_dma (DMA_OF (W_REQ x)) (\<lambda>_. d1) (?s2\<lparr>ram := m, host := h, queues := qs, prp_dma := d\<rparr>))"
      "drv_frame ?s2 m h qs d" "io_dma_fits (set_buffer_addrs g (page_buffer s) (unat (io_nlbs c) + 1) d1)" "io_pieces d1 = rw_pieces g c s" "length (dma_list d1) = MDTS_PAGES"
    by (auto simp: rw_pieces_def)
  let ?r3 = "?r2\<lparr>dma := d1\<rparr>"
  let ?s3 = "s\<lparr>free_w_req_objs := fq, ram := m, host := h, queues := qs, prp_dma := d, w_req := (w_req s)[x := ?r3]\<rparr>"
  have u: "upd_dma (DMA_OF (W_REQ x)) (\<lambda>_. d1) (?s2\<lparr>ram := m, host := h, queues := qs, prp_dma := d\<rparr>) = ?s3"
    using x(2) len by (simp add: upd_dma_def upd_req_def)
  have fr: "drv_frame s m h qs d" using dec(2) by (simp add: drv_frame_def)
  then have qs: "qs_step (queues s) qs" "host_mem h = host_mem (host s)" by (simp_all add: drv_frame_def)
  have idle: "q_idle qs FTL_MODULE_IN_Q" using s(4) qs_step_idle(1) [OF qs(1), of FTL_MODULE_IN_Q] by simp
  have drv: "drv_ok ?s3" using s(1) fr len by (auto simp: drv_ok_def drv_frame_def qs_step_def link_frame_def pools_len_def)
  then have free: "cq_free ci ?s3" using ci(2) by (simp add: cq_free_def)
  let ?r = "?r3\<lparr>dma := set_buffer_addrs g (page_buffer s) (unat (io_nlbs c) + 1) d1\<rparr>"
  have nb: "nbytes (rw_pieces g c s) = rw_bytes g c" using page_size_le [OF s(1)] by (simp add: rw_pieces_def nbytes_prp)
  have wf: "wbc_for g b (io_cp t c) v = wbc_for g b c v" for b t v by (simp add: wbc_for_def)
  have r: "w_req ?s3 ! x = ?r3" using x(2) len by simp
  have fits: "io_dma_fits (dma ?r)" using dec(3) by simp
  have req: "rw_req c q ci (page_buffer s) (rw_pieces g c s) (dma_started ?r)" using dec(3-5) ci by (simp add: rw_req_def unat_up)
  from write_step_one [OF drv _ _ _ x(2) _ free, of g, unfolded r] s(2,3) idle n ci(3,4) fits obtain bq h' qs' e' s' where
    st: "let m' = put_bytes (nbytes (io_pieces (dma ?r))) (page_buffer s) (\<lambda>j. host_mem (host s) (scatter (io_pieces (dma ?r)) j)) m;
       s1 = ?s3\<lparr>wbc := wbc_for g (page_buffer s) (io_cp (scmd (w_req s ! x)) c) (wbc s), page_buffer_inuse := True, w_buf_q := bq, ram := m', host := h',
         w_req := (w_req s)[x := dma_started ?r], queues := qs'[FTL_MODULE_IN_Q := e']\<rparr> in
      process_write_ios_step_2 g (push_w_buf_q (W_REQ x) ?s3) = Some s' \<and> completes ci (sq_head (sqs s ! unat q)) (dma_started ?r) s1 s' \<and> releases (W_REQ x) s1 s' \<and> bq_idle bq \<and>
      q_one (qs'[FTL_MODULE_IN_Q := e']) FTL_MODULE_IN_Q WBC_FLUSH_REQUEST WBC \<and> qs_step qs qs' \<and> link_frame h h' \<and> host_mem h' = host_mem h \<and> host_irqs h' = host_irqs h"
    by (auto simp: Let_def qs(2) unat_up)
  have fr': "drv_frame s m h' qs' d" using fr st qs_step_trans [of "queues s" qs qs'] link_frame_trans [of "host s" h h'] by (simp add: drv_frame_def Let_def)
  have "get_req (W_REQ x) ?s2 = Some ?r2" using x(2) len by (simp add: get_req_def)
  then have "process_write_io g q e c s = process_write_ios_step_2 g (push_w_buf_q (W_REQ x) ?s3)"
    using start ver x(2) len dec(1) unfolding u by (simp add: process_write_io_def upd_req_def Let_def)
  with st req fr' show ?thesis unfolding Let_def
    by (intro exI [of _ "dma_started ?r"] exI [of _ m] exI [of _ h'] exI [of _ qs'] exI [of _ d] exI [of _ bq] exI [of _ e'] exI [of _ s'])
      (simp add: dec(4) nb wf REQ_STAGE_DMA_def REQ_STAGE_FREE_def)
qed

end
