(* ===== verification/Nvme_Cmds.thy ===== *)
theory Nvme_Cmds
  imports Io_Flow
begin

text \<open>
  Commands from the submission queue to the completion queue: what the host sees of a read and of a
  write, with all threads of the firmware that work on it in the order of their messages.
\<close>

unbundle bit_operations_syntax

section \<open>The firmware between commands\<close>

text \<open>
  Queue pair \<open>i\<close> can take a command: nothing is under way, the request objects for reads and writes are
  free, the write-back cache is clean, and the buffers of the driver lie apart. \<open>k\<close> pages have been programmed.
\<close>

definition cq_of :: "nat \<Rightarrow> 'a nvme_st_scheme \<Rightarrow> nat" where
  "cq_of i s = unat (sq_cqid (sqs s ! i))"

definition cq_quiet :: "nat \<Rightarrow> 'a nvme_st_scheme \<Rightarrow> bool" where
  "cq_quiet ci s \<longleftrightarrow> ci < length (cqs s) \<and> unat (cq_cqid (cqs s ! ci)) = ci \<and> cq_ok (cqs s ! ci) \<and>
     pend_head (cqs s ! ci) = pend_tail (cqs s ! ci) \<and> 2 \<le> pend_size (cqs s ! ci)"

definition layout_ok :: "geo \<Rightarrow> 'a nvme_st_scheme \<Rightarrow> bool" where
  "layout_ok g s \<longleftrightarrow> page_buffer s + MDTS_PAGES * HOST_PAGE_SIZE g < 2 ^ 32 \<and> ccmd_buf s + 16 \<le> 2 ^ 32 \<and>
     (ccmd_buf s + 16 \<le> page_buffer s \<or> page_buffer s + MDTS_PAGES * HOST_PAGE_SIZE g \<le> ccmd_buf s)"

definition sq_live :: "nat \<Rightarrow> 'a nvme_st_scheme \<Rightarrow> bool" where
  "sq_live i s \<longleftrightarrow> i < length (sqs s) \<and> length (sqs s) \<le> 2 ^ 16 \<and> sq_head (sqs s ! i) < sq_size (sqs s ! i) \<and>
     scmd_buf s + 64 * unat (sq_size (sqs s ! i)) < 2 ^ 32"

definition wbc_clean :: "wbc_req_t \<Rightarrow> bool" where
  "wbc_clean w \<longleftrightarrow> length (wb_pages w) = WBC_PAGES \<and> (\<forall>p \<in> set (wb_pages w). wp_valid p = 0) \<and> wb_type w = WBC_FLUSH_REQUEST"

definition io_rest :: "geo \<Rightarrow> nat \<Rightarrow> nat \<Rightarrow> 'a nvme_st_scheme \<Rightarrow> bool" where
  "io_rest g k i s \<longleftrightarrow> drv_ok s \<and> ftl_inv g k s \<and> rop_ready s \<and> \<not> page_buffer_inuse s \<and> bq_idle (r_buf_q s) \<and> bq_idle (w_buf_q s) \<and>
     q_idle (queues s) FTL_MODULE_IN_Q \<and> q_idle (queues s) FTL_MODULE_OUT_Q \<and> sq_live i s \<and> cq_quiet (cq_of i s) s \<and> layout_ok g s \<and>
     wbc_clean (wbc s) \<and> unat (nsze (ssd_config s)) \<le> TOTAL_NUM_OF_PAGES g"

definition io_ready :: "geo \<Rightarrow> nat \<Rightarrow> nat \<Rightarrow> 'a nvme_st_scheme \<Rightarrow> bool" where
  "io_ready g k i s \<longleftrightarrow> io_rest g k i s \<and> (\<exists>N. pools {} {} N s)"

lemma io_ready_sq: "io_rest g k i s \<Longrightarrow> sq_ready i s"
  by (auto simp: io_rest_def sq_live_def sq_ready_def word_less_nat_alt)

text \<open>One command of queue \<open>i\<close>: the driver fetches and starts it, the translation layer serves its message, and the driver the answer.\<close>

definition exec_cmd :: "geo \<Rightarrow> nat \<Rightarrow> 'a isp_st_scheme \<Rightarrow> 'a isp_st_scheme option" where
  "exec_cmd g i s =
     do {
       s1 \<leftarrow> process_io_cmd g i s;
       s2 \<leftarrow> serve FTL_MODULE_IN_Q (process_req_cbk g) s1;
       serve FTL_MODULE_OUT_Q (completed_req_cbk g) s2
     }"

lemma poll_again_thrds: "\<exists>T. poll_again s = s\<lparr>thrds := T\<rparr>"
  by (auto simp: poll_again_def sys_add_callback_ftn_def push_callback_ftn_def Let_def split: prod.split)

section \<open>Keeping the firmware ready\<close>

lemma advance_live:
  assumes "sq_live i s" shows "sq_head (advance (sqs s ! i)) < sq_size (advance (sqs s ! i))" "sq_size (advance (sqs s ! i)) = sq_size (sqs s ! i)"
    "sq_cqid (advance (sqs s ! i)) = sq_cqid (sqs s ! i)" "sq_hostAddr (advance (sqs s ! i)) = sq_hostAddr (sqs s ! i)"
proof -
  have "0 < sq_size (sqs s ! i)" using assms by (auto simp: sq_live_def word_less_nat_alt)
  then show "sq_head (advance (sqs s ! i)) < sq_size (advance (sqs s ! i))" by (simp add: advance_def word_mod_less_divisor)
qed (simp_all add: advance_def)

text \<open>Fetching a command.\<close>

lemma io_ready_fetch:
  fixes s :: "'a isp_st_scheme" and m :: mem and h :: host_if and d :: sync_dma_t and qs :: "obj_queue_t list" and i :: nat
  assumes "io_ready g k i s" "fetch_frame s i m h qs"
  defines "s' \<equiv> s\<lparr>ram := m, host := h, sync_dma := d, queues := qs, sqs := (sqs s)[i := advance (sqs s ! i)]\<rparr>"
  shows "io_ready g k i s'" "cqs s' = cqs s" "cq_of i s' = cq_of i s" "host_mem (host s') = host_mem (host s)" "host_irqs (host s') = host_irqs (host s)"
    "lview g s' = lview g s" "rw_legal g c s' = rw_legal g c s" "rw_pieces g c s' = rw_pieces g c s" "sqs s' ! i = advance (sqs s ! i)" "wbc s' = wbc s"
    "pop_ready s' = pop_ready s"
proof -
  have r: "io_rest g k i s" and i: "i < length (sqs s)" using assms(1) by (auto simp: io_ready_def io_rest_def sq_live_def)
  have fr: "qs_step (queues s) qs" "link_frame (host s) h" "host_mem h = host_mem (host s)" "host_irqs h = host_irqs (host s)" using assms(2) by (simp_all add: fetch_frame_def)
  have "drv_ok s" using r by (simp add: io_rest_def)
  then have drv: "drv_ok s'" using fr(1,2) unfolding s'_def by (auto simp: drv_ok_def qs_step_def link_frame_def pools_len_def)
  have inv: "ftl_inv g k s' = ftl_inv g k s" unfolding s'_def by (rule ftl_inv_cong) simp_all
  have q: "q_idle qs q = q_idle (queues s) q" if "q \<noteq> SYNC_DMA_Q" for q using qs_step_idle(1) [OF fr(1) that] .
  have adv: "sq_live i s'" using r advance_live [of i s] i by (simp add: io_rest_def sq_live_def s'_def)
  show cq: "cq_of i s' = cq_of i s" using i by (simp add: cq_of_def s'_def advance_def)
  have "io_rest g k i s'" unfolding io_rest_def inv cq
    using r drv adv by (simp add: s'_def io_rest_def rop_ready_def cq_quiet_def layout_ok_def q)
  moreover have "pools L M N s' = pools L M N s" for L M N by (simp add: pools_def s'_def)
  ultimately show "io_ready g k i s'" using assms(1) by (simp add: io_ready_def)
  show "lview g s' = lview g s" unfolding s'_def by (rule lview_cong) simp_all
  show "rw_legal g c s' = rw_legal g c s" "rw_pieces g c s' = rw_pieces g c s" using fr(3) by (simp_all add: rw_legal_def rw_pieces_def s'_def)
  show "pop_ready s' = pop_ready s" by (simp add: pop_ready_def s'_def)
  show "sqs s' ! i = advance (sqs s ! i)" using i by (simp add: s'_def)
qed (use assms(2) in \<open>simp_all add: s'_def fetch_frame_def\<close>)

text \<open>Posting a completion.\<close>

lemma post_frame_dev:
  fixes s :: "'a isp_st_scheme"
  assumes "post_frame s s'"
  shows "ftl_config s' = ftl_config s" "last_searched_channel s' = last_searched_channel s" "lpa_table s' = lpa_table s"
    "ppa_table s' = ppa_table s" "blk_table s' = blk_table s" "last_page_per_plane s' = last_page_per_plane s" "nand_img s' = nand_img s"
    "rops s' = rops s" "free_rop_objs s' = free_rop_objs s" "pops s' = pops s" "free_pop_objs s' = free_pop_objs s"
    "page_buffer_inuse s' = page_buffer_inuse s" "page_buffer s' = page_buffer s" "r_buf_q s' = r_buf_q s" "w_buf_q s' = w_buf_q s" "wbc s' = wbc s"
    "ssd_config s' = ssd_config s" "sqs s' = sqs s" "scmd_buf s' = scmd_buf s" "ccmd_buf s' = ccmd_buf s" "iocqCount s' = iocqCount s"
  using assms by (auto simp: post_frame_def)

lemma io_rest_completes:
  fixes s :: "'a isp_st_scheme"
  assumes "io_rest g k i s" "completes (cq_of i s) hdr r s s'"
  shows "io_rest g k i (s'\<lparr>thrds := T\<rparr>)" "lview g (s'\<lparr>thrds := T\<rparr>) = lview g s" "pop_ready (s'\<lparr>thrds := T\<rparr>) = pop_ready s"
proof -
  let ?t = "s'\<lparr>thrds := T\<rparr>"
  have fr: "post_frame s s'" "drv_ok s'" "qs_step (queues s) (queues s')" using assms(2) by (simp_all add: completes_def)
  have q: "q_idle (queues s') q = q_idle (queues s) q" if "q \<noteq> SYNC_DMA_Q" for q using qs_step_idle(1) [OF fr(3) that] .
  note same = post_frame_dev [OF fr(1)]
  have inv: "ftl_inv g k ?t = ftl_inv g k s" using same by (intro ftl_inv_cong) simp_all
  have cq: "cq_of i ?t = cq_of i s" by (simp add: cq_of_def same)
  have "cq_quiet (cq_of i s) ?t" using assms by (simp add: io_rest_def cq_quiet_def completes_def)
  moreover have "drv_ok ?t" using fr(2) by (simp add: drv_ok_def pools_len_def)
  ultimately show "io_rest g k i ?t" using assms(1) unfolding io_rest_def inv cq
    by (simp add: same q rop_ready_def sq_live_def layout_ok_def)
  show "lview g ?t = lview g s" using same by (intro lview_cong) simp_all
  show "pop_ready ?t = pop_ready s" by (simp add: pop_ready_def same)
qed

section \<open>The translation layer serves a read\<close>

lemma same_page: "io_geo g \<Longrightarrow> NAND_PAGE_SIZE g = HOST_PAGE_SIZE g"
  by (simp add: io_geo_def NAND_PAGE_SIZE_def NAND_DS_def HOST_PAGE_SIZE_def HOST_DS_def)

lemma ftl_stage_read:
  fixes s :: "'a isp_st_scheme"
  assumes g: "io_geo g" and m: "map_ok g s" and r: "rop_ready s" and x: "x < R_SIZE" "length (r_req s) = R_SIZE" "rq_type (r_req s ! x) = READ_IO_REQUEST"
    and c: "rw_req c q ci buf ps (r_req s ! x)" "unat (io_slba c) + unat (io_nlbs c) < TOTAL_NUM_OF_PAGES g" "unat (io_nlbs c) < MDTS_PAGES" "buf + rw_bytes g c \<le> 2 ^ 32"
    and q: "q_one (queues s) FTL_MODULE_IN_Q READ_IO_REQUEST (R_REQ x)" "q_idle (queues s) FTL_MODULE_OUT_Q"
  shows "\<exists>rs fo hw m f e1 e2. let s' = s\<lparr>rops := rs, free_rop_objs := fo, nand_regs := hw, ram := m, r_req := r_upd x f (r_req s),
        queues := (queues s)[FTL_MODULE_IN_Q := e1, FTL_MODULE_OUT_Q := e2]\<rparr> in
     serve FTL_MODULE_IN_Q (process_req_cbk g) s = Some s' \<and> reads_to g s buf (unat (io_slba c)) (unat (io_nlbs c) + 1) m \<and> read_marks f \<and> rop_ready s' \<and>
     q_idle (queues s') FTL_MODULE_IN_Q \<and> q_one (queues s') FTL_MODULE_OUT_Q READ_IO_REQUEST (R_REQ x)"
proof -
  from serve_one [OF q(1), of "process_req_cbk g"] obtain e1 where
    e1: "serve FTL_MODULE_IN_Q (process_req_cbk g) s = process_req_cbk g (R_REQ x) READ_IO_REQUEST (s\<lparr>queues := (queues s)[FTL_MODULE_IN_Q := e1]\<rparr>)"
      "q_idle ((queues s)[FTL_MODULE_IN_Q := e1]) FTL_MODULE_IN_Q" by auto
  let ?s0 = "s\<lparr>queues := (queues s)[FTL_MODULE_IN_Q := e1]\<rparr>"
  have same: "map_ok g ?s0" "rop_ready ?s0" "lview g ?s0 = lview g s" "ram ?s0 = ram s" "r_req ?s0 = r_req s"
    using m r lview_cong [of ?s0 s g] ftl_abs_cong [of ?s0 s] by (simp_all add: map_ok_def rop_ready_def)
  have "TOTAL_NUM_OF_PAGES g < 2 ^ 30" using g by (simp add: io_geo_def geo_ok_def)
  with c(2) have l: "unat (io_slba c) < 2 ^ 30" by simp
  then have l0: "unat (io_slba c) = unat (ucast (io_slba (scmd (r_req ?s0 ! x))) :: u32)"
    using c(1) by (simp add: rw_req_def unsigned_ucast_eq take_bit_eq_mod)
  have n: "unat (io_nlbs c) + 1 = unat (io_nlbs (scmd (r_req ?s0 ! x))) + 1" "unat (io_nlbs c) + 1 \<le> MDTS_PAGES" "unat (io_slba c) + (unat (io_nlbs c) + 1) \<le> TOTAL_NUM_OF_PAGES g"
    "buf = buffer_addr (dma (r_req ?s0 ! x))" "buf + (unat (io_nlbs c) + 1) * NAND_PAGE_SIZE g \<le> 2 ^ 32"
    using c same_page [OF g] by (simp_all add: rw_req_def rw_bytes_def)
  from read_io_spec [OF g same(1,2) x(1) x(2) [folded same(5)] n(1,2) l0 n(3-5)] obtain rs fo hw m' f where
    f: "process_req_cbk g (R_REQ x) READ_IO_REQUEST ?s0 = Some (sys_push_to_nvme (R_REQ x) (rq_type (r_req ?s0 ! x))
        (?s0\<lparr>rops := rs, free_rop_objs := fo, nand_regs := hw, ram := m', r_req := r_upd x f (r_req ?s0)\<rparr>))"
      "reads_to g ?s0 buf (unat (io_slba c)) (unat (io_nlbs c) + 1) m'" "read_marks f"
      "rop_ready (?s0\<lparr>rops := rs, free_rop_objs := fo, nand_regs := hw, ram := m', r_req := r_upd x f (r_req ?s0)\<rparr>)"
    by (elim exE conjE)
  let ?s1 = "s\<lparr>queues := (queues s)[FTL_MODULE_IN_Q := e1], rops := rs, free_rop_objs := fo, nand_regs := hw, ram := m', r_req := r_upd x f (r_req s)\<rparr>"
  from push_idle [of ?s1 FTL_MODULE_OUT_Q "R_REQ x" READ_IO_REQUEST] q(2) obtain e2 where
    e2: "sys_push_to_nvme (R_REQ x) READ_IO_REQUEST ?s1 = ?s1\<lparr>queues := (queues s)[FTL_MODULE_IN_Q := e1, FTL_MODULE_OUT_Q := e2]\<rparr>"
      "q_one ((queues s)[FTL_MODULE_IN_Q := e1, FTL_MODULE_OUT_Q := e2]) FTL_MODULE_OUT_Q READ_IO_REQUEST (R_REQ x)"
    by (auto simp: sys_push_to_nvme_def)
  have "reads_to g s buf (unat (io_slba c)) (unat (io_nlbs c) + 1) m'" using f(2) same(3,4) by (simp add: reads_to_def)
  with e1 e2 f(1,3,4) x(3) show ?thesis unfolding Let_def
    by (intro exI [of _ rs] exI [of _ fo] exI [of _ hw] exI [of _ m'] exI [of _ f] exI [of _ e1] exI [of _ e2]) (simp add: rop_ready_def)
qed

section \<open>The driver completes a read\<close>

lemma complete_stage_read:
  fixes s :: "'a isp_st_scheme"
  assumes s: "drv_ok s" "bq_idle (r_buf_q s)" "bq_idle (w_buf_q s)" and x: "x < R_SIZE" and c: "rw_req c q ci buf ps (r_req s ! x)"
    and ci: "cq_free ci s" "unat q < length (sqs s)" and q: "q_one (queues s) FTL_MODULE_OUT_Q READ_IO_REQUEST (R_REQ x)"
  shows "\<exists>e h qs s' T. let s1 = s\<lparr>host := h, queues := qs, r_req := (r_req s)[x := dma_started (r_req s ! x)], page_buffer_inuse := False\<rparr> in
     serve FTL_MODULE_OUT_Q (completed_req_cbk g) s = Some (s'\<lparr>thrds := T\<rparr>) \<and>
     completes ci (sq_head (sqs s ! unat q)) (dma_started (r_req s ! x)) s1 s' \<and> releases (R_REQ x) s1 s' \<and>
     qs_step ((queues s)[FTL_MODULE_OUT_Q := e]) qs \<and> q_idle ((queues s)[FTL_MODULE_OUT_Q := e]) FTL_MODULE_OUT_Q \<and> link_frame (host s) h \<and>
     host_mem h = host_put ps buf (ram s) (host_mem (host s)) \<and> host_irqs h = host_irqs (host s)"
proof -
  let ?r = "r_req s ! x"
  from serve_one [OF q, of "completed_req_cbk g"] obtain e where
    e: "serve FTL_MODULE_OUT_Q (completed_req_cbk g) s = completed_req_cbk g (R_REQ x) READ_IO_REQUEST (s\<lparr>queues := (queues s)[FTL_MODULE_OUT_Q := e]\<rparr>)"
      "q_idle ((queues s)[FTL_MODULE_OUT_Q := e]) FTL_MODULE_OUT_Q" by auto
  let ?s0 = "s\<lparr>queues := (queues s)[FTL_MODULE_OUT_Q := e]\<rparr>"
  have len: "length (r_req s) = R_SIZE" using s(1) by (simp add: drv_ok_def pools_len_def)
  have s0: "dma_q_ok (queues ?s0)" "link_ok (host ?s0)" "pools_len ?s0" "get_req (R_REQ x) ?s0 = Some ?r" "io_dma_fits (dma ?r)"
    using s(1) x c by (simp_all add: drv_ok_def pools_len_def get_req_def rw_req_def)
  have r: "buffer_addr (dma ?r) = buf" "io_pieces (dma ?r) = ps" "unat (cqid ?r) = ci" "sqid ?r = q" using c by (simp_all add: rw_req_def)
  from sync_read_io_dma_ok [OF s0] obtain qs h where
    d: "sync_read_io_dma (R_REQ x) ?s0 = Some (upd_req (R_REQ x) dma_started (?s0\<lparr>host := h, queues := qs\<rparr>))"
      "qs_step ((queues s)[FTL_MODULE_OUT_Q := e]) qs" "link_frame (host s) h"
      "host_mem h = host_put ps buf (ram s) (host_mem (host s))" "host_irqs h = host_irqs (host s)" by (auto simp: r)
  let ?s1 = "s\<lparr>host := h, queues := qs, r_req := (r_req s)[x := dma_started ?r], page_buffer_inuse := False\<rparr>"
  have u: "snd (free_read_io_buffer (upd_req (R_REQ x) dma_started (s\<lparr>host := h, queues := qs\<rparr>))) = ?s1"
    by (simp add: free_read_io_buffer_def upd_req_def)
  have "drv_ok ?s1" using s(1) d(2,3) s0(1) len by (auto simp: drv_ok_def qs_step_def link_frame_def pools_len_def)
  then have free: "cq_free ci ?s1" using ci(1) by (simp add: cq_free_def)
  have gr: "get_req (R_REQ x) ?s1 = Some (dma_started ?r)" using x len by (simp add: get_req_def)
  from enqueue_io_one [OF free gr] ci(2) obtain s' where
    s': "enqueue_io_ccmd ci (R_REQ x) ?s1 = Some s'" "completes ci (sq_head (sqs s ! unat q)) (dma_started ?r) ?s1 s'" "releases (R_REQ x) ?s1 s'" by (auto simp: r)
  have "r_buf_q s' = r_buf_q s" "w_buf_q s' = w_buf_q s" using s'(2) by (auto simp: completes_def post_frame_def)
  then have fin: "process_read_ios_step_2 g s' = Some s'" "process_write_ios_step_2 g s' = Some s'" using s(2,3) by (simp_all add: bq_idle_def)
  obtain T where T: "poll_again s' = s'\<lparr>thrds := T\<rparr>" using poll_again_thrds by blast
  have "completed_req_cbk g (R_REQ x) READ_IO_REQUEST ?s0 = Some (s'\<lparr>thrds := T\<rparr>)"
    using d(1) s'(1) by (simp add: completed_req_cbk_def Let_def u gr r fin T)
  with e d s' show ?thesis unfolding Let_def
    by (intro exI [of _ e] exI [of _ h] exI [of _ qs] exI [of _ s'] exI [of _ T]) simp
qed

section \<open>A read from start to end\<close>

text \<open>The pieces of a command and the entry at \<open>ent\<close> of the completion queue do not overlap.\<close>

definition host_apart :: "(nat \<times> nat) list \<Rightarrow> nat \<Rightarrow> bool" where
  "host_apart ps ent \<longleftrightarrow> disjoint_pieces ps \<and> (\<forall>p \<in> set ps. covers p \<inter> {ent..<ent + 16} = {})"

text \<open>A completion with status \<open>st\<close> for command \<open>c\<close> of queue \<open>i\<close> appeared in the completion queue, and nowhere else.\<close>

definition completion_of :: "nat \<Rightarrow> NvmeSCmd \<Rightarrow> u16 \<Rightarrow> 'a nvme_st_scheme \<Rightarrow> 'a nvme_st_scheme \<Rightarrow> bool" where
  "completion_of i c st s s' \<longleftrightarrow> (let cq = cqs s ! cq_of i s in
     (\<exists>dw0. ccmd_for (sq_head (advance (sqs s ! i))) (cq_phase cq) (cid c, st, dw0, of_nat i) (load_ccmd (host_mem (host s')) (cq_slot cq 0))) \<and>
     host_irqs (host s') = host_irqs (host s) @ (if cq_irq_enabled cq \<noteq> 0 then [cq_vector cq] else []) \<and>
     cq_tail (cqs s' ! cq_of i s) = cq_tail (inc_cq_tail cq) \<and> sqs s' = (sqs s)[i := advance (sqs s ! i)])"

definition slot_of :: "nat \<Rightarrow> 'a nvme_st_scheme \<Rightarrow> nat" where
  "slot_of i s = cq_slot (cqs s ! cq_of i s) 0"

lemma rest_cq_free: "io_rest g k i s \<Longrightarrow> cq_room (cqs s ! cq_of i s) \<noteq> 0 \<Longrightarrow> cq_free (cq_of i s) s"
  by (auto simp: io_rest_def cq_free_def cq_quiet_def layout_ok_def)

lemma scatter_apart:
  assumes "host_apart ps ent" "j < nbytes ps"
  shows "scatter ps j < ent \<or> ent + 16 \<le> scatter ps j"
proof -
  from scatter_covers [OF assms(2)] obtain p where p: "p \<in> set ps" "scatter ps j \<in> covers p" by blast
  with assms(1) have "scatter ps j \<notin> {ent..<ent + 16}" unfolding host_apart_def by blast
  then show ?thesis by auto
qed

lemma page_byte: "0 < P \<Longrightarrow> j < n * P \<Longrightarrow> \<exists>a b. j = a * P + b \<and> a < n \<and> b < P \<and> a = j div P \<and> b = j mod (P :: nat)"
  by (intro exI [of _ "j div P"] exI [of _ "j mod P"]) (simp add: div_less_iff_less_mult)

text \<open>The set-up of the driver stays, no doorbell is lost, and the completion queue has one entry less.\<close>

definition flow_frame :: "nat \<Rightarrow> 'a nvme_st_scheme \<Rightarrow> 'a nvme_st_scheme \<Rightarrow> bool" where
  "flow_frame ci s s' \<longleftrightarrow> hostMemPageSize s' = hostMemPageSize s \<and> ssd_config s' = ssd_config s \<and>
     cq_room (cqs s ! ci) = Suc (cq_room (cqs s' ! ci)) \<and> cq_slot (cqs s' ! ci) 0 = cq_slot (cqs s ! ci) (Suc 0) \<and>
     cq_size (cqs s' ! ci) = cq_size (cqs s ! ci) \<and> cq_hostAddr (cqs s' ! ci) = cq_hostAddr (cqs s ! ci) \<and> length (cqs s') = length (cqs s) \<and>
     (\<forall>j. j \<noteq> ci \<longrightarrow> cqs s' ! j = cqs s ! j) \<and> iocqCount s' = iocqCount s \<and> db_queue (host s') = db_queue (host s)"

text \<open>From the driver's start of the read on; \<open>s\<close> is the state after the command has been fetched.\<close>

lemma read_flow:
  fixes s :: "'a isp_st_scheme"
  assumes g: "io_geo g" and s: "io_rest g k i s" "pools {} {} N s" and c: "rw_legal g c s"
    and room: "cq_room (cqs s ! cq_of i s) \<noteq> 0" and apart: "host_apart (rw_pieces g c s) (slot_of i s)"
  shows "\<exists>s1 s2 s'. process_read_io g (of_nat i) e c s = Some s1 \<and> serve FTL_MODULE_IN_Q (process_req_cbk g) s1 = Some s2 \<and>
     serve FTL_MODULE_OUT_Q (completed_req_cbk g) s2 = Some s' \<and> io_rest g k i s' \<and> pools {} {} N s' \<and> lview g s' = lview g s \<and> pop_ready s' = pop_ready s \<and>
     (\<forall>j < rw_bytes g c. host_mem (host s') (scatter (rw_pieces g c s) j) = lview g s (unat (io_slba c) + j div HOST_PAGE_SIZE g) (j mod HOST_PAGE_SIZE g)) \<and>
     (\<forall>x. (\<forall>p \<in> set (rw_pieces g c s). x \<notin> covers p) \<and> (x < slot_of i s \<or> slot_of i s + 16 \<le> x) \<longrightarrow> host_mem (host s') x = host_mem (host s) x) \<and>
     (\<exists>dw0. ccmd_for (sq_head (sqs s ! i)) (cq_phase (cqs s ! cq_of i s)) (cid c, 0, dw0, of_nat i) (load_ccmd (host_mem (host s')) (slot_of i s))) \<and>
     host_irqs (host s') = host_irqs (host s) @ (if cq_irq_enabled (cqs s ! cq_of i s) \<noteq> 0 then [cq_vector (cqs s ! cq_of i s)] else []) \<and>
     cq_tail (cqs s' ! cq_of i s) = cq_tail (inc_cq_tail (cqs s ! cq_of i s)) \<and> sqs s' = sqs s \<and> flow_frame (cq_of i s) s s'"
proof -
  let ?ci = "cq_of i s" and ?ps = "rw_pieces g c s" and ?pb = "page_buffer s" and ?q = "of_nat i :: u32"
  note R = s(1) [unfolded io_rest_def]
  have i: "i < length (sqs s)" "unat ?q = i" using R by (auto simp: sq_live_def unat_of_nat)
  have pb: "?pb + MDTS_PAGES * HOST_PAGE_SIZE g < 2 ^ 32" using R by (simp add: layout_ok_def)
  have nl: "unat (io_nlbs c) < MDTS_PAGES" "unat (io_slba c) + unat (io_nlbs c) < TOTAL_NUM_OF_PAGES g" using c R by (simp_all add: rw_legal_def)
  have bytes: "?pb + rw_bytes g c \<le> 2 ^ 32"
    using pb mult_le_mono1 [of "unat (io_nlbs c) + 1" MDTS_PAGES "HOST_PAGE_SIZE g"] nl(1) by (simp add: rw_bytes_def)
  have rv: "pool_view R_REQ R_SIZE (\<lambda>r. rq_type r = READ_IO_REQUEST) (free_r_req_objs s) (r_req s) {}" using s(2) by (simp add: pools_def)
  have "(0 :: nat) \<in> {..<R_SIZE - 1}" by simp
  then have "({} :: nat set) \<noteq> {..<R_SIZE - 1}" by blast
  from pool_view_take [OF rv _ this] obtain x fq where
    x: "deQueue (free_r_req_objs s) = (Some (R_REQ x), fq)" "x < R_SIZE - 1" "req_like (\<lambda>r. rq_type r = READ_IO_REQUEST) (r_req s ! x)"
      "\<And>r. req_stage r \<noteq> REQ_STAGE_FREE \<Longrightarrow> req_like (\<lambda>r. rq_type r = READ_IO_REQUEST) r \<Longrightarrow>
         pool_view R_REQ R_SIZE (\<lambda>r. rq_type r = READ_IO_REQUEST) fq ((r_req s)[x := r]) {x}" by auto
  have x': "x < R_SIZE" "length (dma_list (dma (r_req s ! x))) = MDTS_PAGES" "rq_type (r_req s ! x) = READ_IO_REQUEST" "length (r_req s) = R_SIZE"
    using x(2,3) pool_view_len [OF rv] by (simp_all add: req_like_def)
  from process_read_io_ok [of s g c x fq ?q ?ci e] R pb c x(1) x' i obtain r m h qs d bq e' where
    a: "process_read_io g ?q e c s = Some (s\<lparr>free_r_req_objs := fq, ram := m, host := h, prp_dma := d, r_req := (r_req s)[x := r],
       page_buffer_inuse := True, r_buf_q := bq, queues := qs[FTL_MODULE_IN_Q := e']\<rparr>)" "drv_frame s m h qs d" "bq_idle bq"
     "q_one (qs[FTL_MODULE_IN_Q := e']) FTL_MODULE_IN_Q READ_IO_REQUEST (R_REQ x)"
     "rw_req c ?q ?ci ?pb ?ps r" "rq_type r = READ_IO_REQUEST" "req_stage r \<noteq> REQ_STAGE_FREE"
    by (auto simp: cq_quiet_def cq_of_def)
  define s1 where "s1 = s\<lparr>free_r_req_objs := fq, ram := m, host := h, prp_dma := d, r_req := (r_req s)[x := r],
       page_buffer_inuse := True, r_buf_q := bq, queues := qs[FTL_MODULE_IN_Q := e']\<rparr>"
  have fr: "qs_step (queues s) qs" "link_frame (host s) h" "host_mem h = host_mem (host s)" "host_irqs h = host_irqs (host s)" "prp_dma_ok d"
    using a(2) by (simp_all add: drv_frame_def)
  have drv1: "drv_ok s1" using R fr unfolding s1_def by (auto simp: drv_ok_def qs_step_def link_frame_def pools_len_def)
  have l1: "lview g s1 = lview g s" unfolding s1_def by (rule lview_cong) simp_all
  have inv1: "ftl_inv g k s1" using R ftl_inv_cong [of s1 s g k] by (simp add: s1_def)
  have out: "q_idle qs FTL_MODULE_OUT_Q" using R qs_step_idle(1) [OF fr(1), of FTL_MODULE_OUT_Q] by simp
  have st1: "map_ok g s1" "rop_ready s1" "rq_type (r_req s1 ! x) = READ_IO_REQUEST" "rw_req c ?q ?ci ?pb ?ps (r_req s1 ! x)" "length (r_req s1) = R_SIZE"
    "q_one (queues s1) FTL_MODULE_IN_Q READ_IO_REQUEST (R_REQ x)" "q_idle (queues s1) FTL_MODULE_OUT_Q"
    using inv1 R x' a out by (simp_all add: ftl_inv_def s1_def rop_ready_def)
  from ftl_stage_read [OF g st1(1,2) x'(1) st1(5,3,4) nl(2,1) bytes st1(6,7)] obtain rs fo hw m2 f e1 e2 where
    b: "let s2 = s1\<lparr>rops := rs, free_rop_objs := fo, nand_regs := hw, ram := m2, r_req := r_upd x f (r_req s1),
        queues := (queues s1)[FTL_MODULE_IN_Q := e1, FTL_MODULE_OUT_Q := e2]\<rparr> in
     serve FTL_MODULE_IN_Q (process_req_cbk g) s1 = Some s2 \<and> reads_to g s1 ?pb (unat (io_slba c)) (unat (io_nlbs c) + 1) m2 \<and> read_marks f \<and> rop_ready s2 \<and>
     q_idle (queues s2) FTL_MODULE_IN_Q \<and> q_one (queues s2) FTL_MODULE_OUT_Q READ_IO_REQUEST (R_REQ x)" by (elim exE)
  define s2 where "s2 = s1\<lparr>rops := rs, free_rop_objs := fo, nand_regs := hw, ram := m2, r_req := r_upd x f (r_req s1),
        queues := (queues s1)[FTL_MODULE_IN_Q := e1, FTL_MODULE_OUT_Q := e2]\<rparr>"
  from b [unfolded Let_def, folded s2_def] have b2: "serve FTL_MODULE_IN_Q (process_req_cbk g) s1 = Some s2"
    "reads_to g s1 ?pb (unat (io_slba c)) (unat (io_nlbs c) + 1) m2" "read_marks f" "rop_ready s2" "q_idle (queues s2) FTL_MODULE_IN_Q"
    "q_one (queues s2) FTL_MODULE_OUT_Q READ_IO_REQUEST (R_REQ x)" by blast+
  have r2: "r_req s2 = (r_req s)[x := f r]" using x' by (simp add: s2_def s1_def r_upd_def)
  have fr': "rw_req c ?q ?ci ?pb ?ps (f r)" "rq_type (f r) = READ_IO_REQUEST" "req_stage (f r) \<noteq> REQ_STAGE_FREE" "length (dma_list (dma (f r))) = MDTS_PAGES"
    using a(5,6) b2(3) by (simp_all add: rw_req_def read_marks_def REQ_STAGE_READING_FLASH_def REQ_STAGE_FREE_def)
  have c2: "rw_req c ?q ?ci ?pb ?ps (r_req s2 ! x)" using r2 fr' x' by simp
  have drv2: "drv_ok s2" using drv1 x' by (simp add: s2_def drv_ok_def pools_len_def r_upd_def)
  have same2: "r_buf_q s2 = bq" "w_buf_q s2 = w_buf_q s" "cqs s2 = cqs s" "sqs s2 = sqs s" "ccmd_buf s2 = ccmd_buf s" "host s2 = h" "ram s2 = m2"
    by (simp_all add: s2_def s1_def)
  have free2: "cq_free ?ci s2" using rest_cq_free [OF s(1) room] drv2 by (simp add: cq_free_def same2)
  from complete_stage_read [of s2 x c ?q ?ci ?pb ?ps g] drv2 a(3) R same2 x'(1) c2 free2 i b2(6) obtain e3 h3 qs3 s3 T where
    d: "let s1 = s2\<lparr>host := h3, queues := qs3, r_req := (r_req s2)[x := dma_started (r_req s2 ! x)], page_buffer_inuse := False\<rparr> in
     serve FTL_MODULE_OUT_Q (completed_req_cbk g) s2 = Some (s3\<lparr>thrds := T\<rparr>) \<and>
     completes ?ci (sq_head (sqs s ! i)) (dma_started (r_req s2 ! x)) s1 s3 \<and> releases (R_REQ x) s1 s3 \<and>
     qs_step ((queues s2)[FTL_MODULE_OUT_Q := e3]) qs3 \<and> q_idle ((queues s2)[FTL_MODULE_OUT_Q := e3]) FTL_MODULE_OUT_Q \<and> link_frame h h3 \<and>
     host_mem h3 = host_put ?ps ?pb m2 (host_mem h) \<and> host_irqs h3 = host_irqs h" by auto
  let ?r = "dma_started (f r)"
  define t where "t = s2\<lparr>host := h3, queues := qs3, r_req := (r_req s)[x := ?r], page_buffer_inuse := False\<rparr>"
  have "t = s2\<lparr>host := h3, queues := qs3, r_req := (r_req s2)[x := dma_started (r_req s2 ! x)], page_buffer_inuse := False\<rparr>"
    using x' by (simp add: t_def r2)
  with d r2 x' have d2: "serve FTL_MODULE_OUT_Q (completed_req_cbk g) s2 = Some (s3\<lparr>thrds := T\<rparr>)" "completes ?ci (sq_head (sqs s ! i)) ?r t s3"
    "releases (R_REQ x) t s3" "qs_step ((queues s2)[FTL_MODULE_OUT_Q := e3]) qs3" "q_idle ((queues s2)[FTL_MODULE_OUT_Q := e3]) FTL_MODULE_OUT_Q" "link_frame h h3"
     "host_mem h3 = host_put ?ps ?pb m2 (host_mem (host s))" "host_irqs h3 = host_irqs (host s)" by (simp_all add: Let_def fr)
  have drvt: "drv_ok t" using drv2 d2(4,6) x' same2 by (auto simp: t_def drv_ok_def qs_step_def link_frame_def pools_len_def)
  have lt: "lview g t = lview g s" "lview g s2 = lview g s" using l1 by (auto intro!: lview_cong simp: t_def s2_def s1_def)
  have "ftl_inv g k t" using inv1 ftl_inv_cong [of t s1 g k] by (simp add: t_def s2_def)
  moreover have "q_idle qs3 FTL_MODULE_IN_Q" "q_idle qs3 FTL_MODULE_OUT_Q"
    using b2(5) d2(5) qs_step_idle(1) [OF d2(4), of FTL_MODULE_IN_Q] qs_step_idle(1) [OF d2(4), of FTL_MODULE_OUT_Q] by simp_all
  moreover have cqt: "cq_of i t = ?ci" by (simp add: cq_of_def t_def s2_def s1_def)
  moreover have "cqs t = cqs s" "sqs t = sqs s" "queues t = qs3" "page_buffer_inuse t = False" "r_buf_q t = bq" "w_buf_q t = w_buf_q s" "wbc t = wbc s" "ssd_config t = ssd_config s"
    "page_buffer t = ?pb" "ccmd_buf t = ccmd_buf s" "scmd_buf t = scmd_buf s" by (simp_all add: t_def s2_def s1_def)
  moreover have "rop_ready t" using b2(4) by (simp add: t_def rop_ready_def)
  ultimately have rest: "io_rest g k i t" using R drvt a(3) by (simp add: io_rest_def sq_live_def cq_quiet_def layout_ok_def)
  note fin = io_rest_completes [OF rest, unfolded cqt, OF d2(2), of T]
  have pt: "pools {x} {} N t" using s(2) x(4) [of ?r] fr' by (simp add: pools_def t_def s2_def s1_def req_like_def REQ_STAGE_DMA_def REQ_STAGE_FREE_def)
  then have "pools {} {} N s3" using d2(3) [unfolded releases_def, rule_format, of "{x}" "{}" N] by (simp add: pool_ptr_defs)
  then have pools: "pools {} {} N (s3\<lparr>thrds := T\<rparr>)" by (simp add: pools_def)
  have ct: "cqs t = cqs s" "host t = h3" "sqs t = sqs s" by (simp_all add: t_def s2_def s1_def)
  have ch: "\<forall>x. x < slot_of i s \<or> slot_of i s + 16 \<le> x \<longrightarrow> host_mem (host s3) x = host_mem h3 x" "cq_tail (cqs s3 ! ?ci) = cq_tail (inc_cq_tail (cqs s ! ?ci))"
    "ccmd_for (sq_head (sqs s ! i)) (cq_phase (cqs s ! ?ci)) (cid c, 0, ccmd_dw0 ?r, ?q) (load_ccmd (host_mem (host s3)) (slot_of i s))"
    "host_irqs (host s3) = host_irqs (host s) @ (if cq_irq_enabled (cqs s ! ?ci) \<noteq> 0 then [cq_vector (cqs s ! ?ci)] else [])" "sqs s3 = sqs s"
    using d2(2,8) fr'(1) post_frame_same(1) [of t s3] by (simp_all add: completes_def slot_of_def ct rw_req_def)
  have ff: "flow_frame ?ci s (s3\<lparr>thrds := T\<rparr>)"
    using d2(2,6) fr(2) post_frame_same(7) [of t s3] post_frame_dev(17,21) [of t s3] by (simp add: completes_def flow_frame_def ct link_frame_def) (simp add: t_def s2_def s1_def)
  have nb: "nbytes ?ps = rw_bytes g c" using page_size_le [of s] R by (simp add: rw_pieces_def nbytes_prp)
  have data: "host_mem (host s3) (scatter ?ps j) = lview g s (unat (io_slba c) + j div HOST_PAGE_SIZE g) (j mod HOST_PAGE_SIZE g)" if j: "j < rw_bytes g c" for j
  proof -
    have "0 < HOST_PAGE_SIZE g" by (simp add: HOST_PAGE_SIZE_def)
    from page_byte [OF this j [unfolded rw_bytes_def]] obtain u v where
      uv: "j = u * HOST_PAGE_SIZE g + v" "u < unat (io_nlbs c) + 1" "v < HOST_PAGE_SIZE g" "u = j div HOST_PAGE_SIZE g" "v = j mod HOST_PAGE_SIZE g" by blast
    have "host_mem (host s3) (scatter ?ps j) = host_mem h3 (scatter ?ps j)" using ch(1) scatter_apart [OF apart, of j] j nb by auto
    also have "\<dots> = m2 (?pb + j)" using apart j nb by (simp add: d2(7) host_put_scatter host_apart_def)
    also have "\<dots> = lview g s (unat (io_slba c) + u) v"
      using b2(2) uv(1-3) by (simp add: reads_to_def same_page [OF g] l1 add.assoc)
    finally show ?thesis by (simp only: uv(4,5))
  qed
  have other: "host_mem (host s3) y = host_mem (host s) y" if "\<forall>p \<in> set ?ps. y \<notin> covers p" "y < slot_of i s \<or> slot_of i s + 16 \<le> y" for y
    using ch(1) that by (auto simp: d2(7) host_put_other)
  have "host (s3\<lparr>thrds := T\<rparr>) = host s3" "cqs (s3\<lparr>thrds := T\<rparr>) = cqs s3" "sqs (s3\<lparr>thrds := T\<rparr>) = sqs s3" by simp_all
  moreover have "pop_ready t = pop_ready s" by (simp add: pop_ready_def t_def s2_def s1_def)
  ultimately show ?thesis
    using a(1) [folded s1_def] b2(1) d2(1) fin pools data other ch(2-5) lt(1) ff
    by (intro exI [of _ s1] exI [of _ s2] exI [of _ "s3\<lparr>thrds := T\<rparr>"]) (simp, blast)
qed

section \<open>The translation layer serves a write\<close>

lemma fold_upd_upt:
  "n \<le> length l \<Longrightarrow> fold (\<lambda>i l. l[i := f i (l ! i)]) [0..<n] l = map (\<lambda>i. if i < n then f i (l ! i) else l ! i) [0..<length l]"
proof (induction n)
  case 0
  then show ?case by (simp add: map_nth)
next
  case (Suc n)
  then show ?case by (intro nth_equalityI) (auto simp: nth_list_update)
qed

lemma length_fill_wbc [simp]: "length (fill_wbc g buf lpn n l) = length l"
  using fold_addr_len [of "\<lambda>i p. p\<lparr>wp_lpn := lpn + of_nat i, wp_ssd_addr := buf + i * 2 ^ HOST_DS g, wp_valid := 1, wp_nand_io_complete := 0\<rparr>" "[0..<n]" l]
  by (simp add: fill_wbc_def)

text \<open>The pages of the cache for a write into the clean cache.\<close>

lemma wbc_run_for:
  assumes "wbc_clean w" "unat (io_nlbs c) < MDTS_PAGES"
  shows "wbc_run (wbc_for g buf c w) = page_run g (ucast (io_slba c)) buf (unat (io_nlbs c) + 1)"
proof -
  let ?n = "unat (io_nlbs c) + 1" and ?l = "wb_pages w"
  let ?f = "\<lambda>i p. p\<lparr>wp_lpn := ucast (io_slba c) + of_nat i, wp_ssd_addr := buf + i * 2 ^ HOST_DS g, wp_valid := 1, wp_nand_io_complete := 0\<rparr>"
  have len: "length ?l = 16" and old: "\<And>i. i < 16 \<Longrightarrow> wp_valid (?l ! i) = 0" and n: "?n \<le> 16"
    using assms by (auto simp: wbc_clean_def WBC_PAGES_def MDTS_PAGES_def)
  have "wb_pages (wbc_for g buf c w) = map (\<lambda>i. if i < ?n then ?f i (?l ! i) else ?l ! i) [0..<16]"
    using fold_upd_upt [of ?n ?l ?f] n len by (simp add: wbc_for_def fill_wbc_def)
  also have "[0..<16] = [0..<?n] @ [?n..<16]" using n upt_add_eq_append [of 0 ?n "16 - ?n"] by simp
  also have "map (\<lambda>i. if i < ?n then ?f i (?l ! i) else ?l ! i) ([0..<?n] @ [?n..<16]) = map (\<lambda>i. ?f i (?l ! i)) [0..<?n] @ map ((!) ?l) [?n..<16]" by simp
  finally have pages: "wb_pages (wbc_for g buf c w) = map (\<lambda>i. ?f i (?l ! i)) [0..<?n] @ map ((!) ?l) [?n..<16]" .
  have "filter (\<lambda>p. wp_valid p \<noteq> 0) (map (\<lambda>i. ?f i (?l ! i)) [0..<?n]) = map (\<lambda>i. ?f i (?l ! i)) [0..<?n]" by (rule filter_True) simp
  moreover have "filter (\<lambda>p. wp_valid p \<noteq> 0) (map ((!) ?l) [?n..<16]) = []" using old by (auto simp: filter_empty_conv)
  ultimately have f: "filter (\<lambda>p. wp_valid p \<noteq> 0) (wb_pages (wbc_for g buf c w)) = map (\<lambda>i. ?f i (?l ! i)) [0..<?n]" unfolding pages by (simp del: upt_Suc)
  have "num_program_pgs (wbc_for g buf c w) = of_nat ?n" by (simp add: wbc_for_def)
  moreover have "unat (of_nat ?n :: u32) = ?n" by (rule unat_lpn) (use n in simp)
  ultimately have pos: "0 < num_program_pgs (wbc_for g buf c w)" by (metis Suc_eq_plus1 gr0I unat_eq_zero word_neq_0_conv nat.distinct(1))
  have "take WBC_PAGES (wb_pages (wbc_for g buf c w)) = wb_pages (wbc_for g buf c w)"
    unfolding pages using n by (simp add: WBC_PAGES_def MDTS_PAGES_def)
  then show ?thesis unfolding wbc_run_def using pos f by (simp add: page_run_def o_def del: upt_Suc)
qed

lemma ftl_stage_write:
  fixes s :: "'a isp_st_scheme"
  assumes g: "io_geo g" and inv: "ftl_inv g k s" and p: "pop_ready s" and w: "wbc s = wbc_for g buf c w" "wbc_clean w"
    and c: "unat (io_slba c) + unat (io_nlbs c) < TOTAL_NUM_OF_PAGES g" "unat (io_nlbs c) < MDTS_PAGES" "buf + rw_bytes g c \<le> 2 ^ 32"
    and k: "k + (unat (io_nlbs c) + 1) < TOTAL_NUM_OF_PAGES g"
    and q: "q_one (queues s) FTL_MODULE_IN_Q WBC_FLUSH_REQUEST WBC" "q_idle (queues s) FTL_MODULE_OUT_Q"
  shows "\<exists>e1 e2 s1. let s' = s1\<lparr>queues := (queues s)[FTL_MODULE_IN_Q := e1, FTL_MODULE_OUT_Q := e2]\<rparr> in
     serve FTL_MODULE_IN_Q (process_req_cbk g) s = Some s' \<and> ftl_inv g (k + (unat (io_nlbs c) + 1)) s1 \<and>
     (\<forall>l i. i < HOST_PAGE_SIZE g \<longrightarrow> lview g s1 l i = (if unat (io_slba c) \<le> l \<and> l \<le> unat (io_slba c) + unat (io_nlbs c)
        then ram s (buf + (l - unat (io_slba c)) * HOST_PAGE_SIZE g + i) else lview g s l i)) \<and>
     ram s1 = ram s \<and> wbc_frame (s\<lparr>queues := (queues s)[FTL_MODULE_IN_Q := e1]\<rparr>) s1 \<and> wb_type (wbc s1) = WBC_FLUSH_REQUEST \<and> length (wb_pages (wbc s1)) = WBC_PAGES \<and>
     q_idle (queues s') FTL_MODULE_IN_Q \<and> q_one (queues s') FTL_MODULE_OUT_Q WBC_FLUSH_REQUEST WBC"
proof -
  let ?n = "unat (io_nlbs c) + 1" and ?lpn = "ucast (io_slba c) :: u32"
  from serve_one [OF q(1), of "process_req_cbk g"] obtain e1 where
    e1: "serve FTL_MODULE_IN_Q (process_req_cbk g) s = process_req_cbk g WBC WBC_FLUSH_REQUEST (s\<lparr>queues := (queues s)[FTL_MODULE_IN_Q := e1]\<rparr>)"
      "q_idle ((queues s)[FTL_MODULE_IN_Q := e1]) FTL_MODULE_IN_Q" by auto
  define s0 where "s0 = s\<lparr>queues := (queues s)[FTL_MODULE_IN_Q := e1]\<rparr>"
  have "lview g s0 = lview g s" unfolding s0_def by (rule lview_cong) simp_all
  moreover have "ftl_inv g k s0" using inv ftl_inv_cong [of s0 s g k] by (simp add: s0_def)
  ultimately have s0: "ftl_inv g k s0" "pop_ready s0" "lview g s0 = lview g s" "ram s0 = ram s" "wbc s0 = wbc s"
    using p by (simp_all add: s0_def pop_ready_def)
  have run: "wbc_run (wbc s0) = page_run g ?lpn buf ?n" using wbc_run_for [OF w(2) c(2)] by (simp add: s0(5) w(1))
  have T: "TOTAL_NUM_OF_PAGES g < 2 ^ 30" using g by (simp add: io_geo_def geo_ok_def)
  have lpn: "unat ?lpn = unat (io_slba c)" using c(1) T by (simp add: unsigned_ucast_eq take_bit_eq_mod)
  have n: "?n \<le> 128" "unat ?lpn + ?n \<le> TOTAL_NUM_OF_PAGES g" "buf + ?n * NAND_PAGE_SIZE g \<le> 2 ^ 32"
    using c lpn same_page [OF g] by (simp_all add: MDTS_PAGES_def rw_bytes_def)
  have ok: "\<forall>(l, a) \<in> set (wbc_run (wbc s0)). unat l < TOTAL_NUM_OF_PAGES g \<and> a < 2 ^ 32" unfolding run using page_run_ok [OF g n(2,3)] .
  have "geo_ok g" using g by (simp add: io_geo_def)
  from process_wbc_spec [OF this s0(1,2) _ _ ok] k n(1) obtain s1 where
    s1: "process_wbc g s0 = Some (sys_push_to_nvme WBC (wb_type (wbc s0)) s1)" "ftl_inv g (k + ?n) s1" "writes_from g s0 (page_run g ?lpn buf ?n) s1" "ram s1 = ram s0"
      "queues s1 = queues s0" "wbc_frame s0 s1" "wb_type (wbc s1) = wb_type (wbc s0)" "length (wb_pages (wbc s1)) = length (wb_pages (wbc s0))"
    by (auto simp: run page_run_def)
  have ty: "wb_type (wbc s0) = WBC_FLUSH_REQUEST" "length (wb_pages (wbc s0)) = WBC_PAGES"
    using w(2) unfolding s0(5) w(1) by (simp_all add: wbc_for_def wbc_clean_def)
  have idle: "q_idle (queues s1) FTL_MODULE_OUT_Q" using q(2) by (simp add: s1(5) s0_def)
  from push_idle [OF this, of WBC WBC_FLUSH_REQUEST] obtain e2 where
    e2: "sys_push_to_nvme WBC WBC_FLUSH_REQUEST s1 = s1\<lparr>queues := (queues s)[FTL_MODULE_IN_Q := e1, FTL_MODULE_OUT_Q := e2]\<rparr>"
      "q_one ((queues s)[FTL_MODULE_IN_Q := e1, FTL_MODULE_OUT_Q := e2]) FTL_MODULE_OUT_Q WBC_FLUSH_REQUEST WBC"
    by (auto simp: sys_push_to_nvme_def s1(5) s0_def)
  have "lview g s1 l i = (if unat (io_slba c) \<le> l \<and> l \<le> unat (io_slba c) + unat (io_nlbs c)
        then ram s (buf + (l - unat (io_slba c)) * HOST_PAGE_SIZE g + i) else lview g s l i)" if "i < HOST_PAGE_SIZE g" for l i
    using s1(3) that unfolding writes_from_def page_run_lookup [OF g n(2)] s0 lpn same_page [OF g] by (simp add: less_Suc_eq_le)
  moreover have "process_req_cbk g WBC WBC_FLUSH_REQUEST s0 = process_wbc g s0" by (simp add: process_req_cbk_def WBC_FLUSH_REQUEST_def READ_IO_REQUEST_def)
  ultimately show ?thesis unfolding Let_def
    using e1 e2 s1 ty s0(4) by (intro exI [of _ e1] exI [of _ e2] exI [of _ s1]) (simp add: s0_def)
qed

section \<open>A write from start to end\<close>

text \<open>What the flush of the cache leaves alone.\<close>

lemma wbc_frame_drv:
  fixes s :: "'a isp_st_scheme"
  assumes "wbc_frame s s'"
  shows "drv_ok s' = drv_ok s" "rops s' = rops s" "free_rop_objs s' = free_rop_objs s" "page_buffer_inuse s' = page_buffer_inuse s" "page_buffer s' = page_buffer s"
    "r_buf_q s' = r_buf_q s" "w_buf_q s' = w_buf_q s" "ssd_config s' = ssd_config s" "sqs s' = sqs s" "cqs s' = cqs s" "scmd_buf s' = scmd_buf s" "ccmd_buf s' = ccmd_buf s"
    "host s' = host s" "pools L M N s' = pools L M N s" "queues s' = queues s"
    "hostMemPageSize s' = hostMemPageSize s" "iocqCount s' = iocqCount s"
  using assms by (auto simp: wbc_frame_def drv_ok_def pools_len_def pools_def)

lemma complete_stage_write:
  fixes s :: "'a isp_st_scheme"
  assumes "bq_idle (r_buf_q s)" "bq_idle (w_buf_q s)" "q_one (queues s) FTL_MODULE_OUT_Q WBC_FLUSH_REQUEST WBC"
  shows "\<exists>e T. serve FTL_MODULE_OUT_Q (completed_req_cbk g) s = Some (s\<lparr>queues := (queues s)[FTL_MODULE_OUT_Q := e], page_buffer_inuse := False,
       wbc := (wbc s)\<lparr>wb_pages := map (\<lambda>p. p\<lparr>wp_valid := 0\<rparr>) (wb_pages (wbc s))\<rparr>, thrds := T\<rparr>) \<and>
     q_idle ((queues s)[FTL_MODULE_OUT_Q := e]) FTL_MODULE_OUT_Q"
proof -
  from serve_one [OF assms(3), of "completed_req_cbk g"] obtain e where
    e: "serve FTL_MODULE_OUT_Q (completed_req_cbk g) s = completed_req_cbk g WBC WBC_FLUSH_REQUEST (s\<lparr>queues := (queues s)[FTL_MODULE_OUT_Q := e]\<rparr>)"
      "q_idle ((queues s)[FTL_MODULE_OUT_Q := e]) FTL_MODULE_OUT_Q" by auto
  let ?t = "s\<lparr>queues := (queues s)[FTL_MODULE_OUT_Q := e], page_buffer_inuse := False, wbc := (wbc s)\<lparr>wb_pages := map (\<lambda>p. p\<lparr>wp_valid := 0\<rparr>) (wb_pages (wbc s))\<rparr>\<rparr>"
  obtain T where T: "poll_again ?t = ?t\<lparr>thrds := T\<rparr>" using poll_again_thrds by blast
  have "completed_req_cbk g WBC WBC_FLUSH_REQUEST (s\<lparr>queues := (queues s)[FTL_MODULE_OUT_Q := e]\<rparr>) = Some (poll_again ?t)"
    using assms(1,2) by (simp add: completed_req_cbk_def free_wbc_buffer_def WBC_FLUSH_REQUEST_def READ_IO_REQUEST_def bq_idle_def)
  with e T show ?thesis by (intro exI [of _ e] exI [of _ T]) simp
qed

lemma write_flow:
  fixes s :: "'a isp_st_scheme"
  assumes g: "io_geo g" and s: "io_rest g k i s" "pools {} {} N s" "pop_ready s" and c: "rw_legal g c s"
    and room: "cq_room (cqs s ! cq_of i s) \<noteq> 0" and k: "k + (unat (io_nlbs c) + 1) < TOTAL_NUM_OF_PAGES g"
  shows "\<exists>s1 s2 s'. process_write_io g (of_nat i) e c s = Some s1 \<and> serve FTL_MODULE_IN_Q (process_req_cbk g) s1 = Some s2 \<and>
     serve FTL_MODULE_OUT_Q (completed_req_cbk g) s2 = Some s' \<and> io_rest g (k + (unat (io_nlbs c) + 1)) i s' \<and> pools {} {} N s' \<and>
     (\<forall>l b. b < HOST_PAGE_SIZE g \<longrightarrow> lview g s' l b = (if unat (io_slba c) \<le> l \<and> l \<le> unat (io_slba c) + unat (io_nlbs c)
        then host_mem (host s) (scatter (rw_pieces g c s) ((l - unat (io_slba c)) * HOST_PAGE_SIZE g + b)) else lview g s l b)) \<and>
     (\<forall>x. x < slot_of i s \<or> slot_of i s + 16 \<le> x \<longrightarrow> host_mem (host s') x = host_mem (host s) x) \<and>
     (\<exists>dw0. ccmd_for (sq_head (sqs s ! i)) (cq_phase (cqs s ! cq_of i s)) (cid c, 0, dw0, of_nat i) (load_ccmd (host_mem (host s')) (slot_of i s))) \<and>
     host_irqs (host s') = host_irqs (host s) @ (if cq_irq_enabled (cqs s ! cq_of i s) \<noteq> 0 then [cq_vector (cqs s ! cq_of i s)] else []) \<and>
     cq_tail (cqs s' ! cq_of i s) = cq_tail (inc_cq_tail (cqs s ! cq_of i s)) \<and> sqs s' = sqs s \<and> flow_frame (cq_of i s) s s'"
proof -
  let ?ci = "cq_of i s" and ?ps = "rw_pieces g c s" and ?pb = "page_buffer s" and ?q = "of_nat i :: u32" and ?n = "unat (io_nlbs c) + 1"
  note R = s(1) [unfolded io_rest_def]
  have i: "i < length (sqs s)" "unat ?q = i" using R by (auto simp: sq_live_def unat_of_nat)
  have pb: "?pb + MDTS_PAGES * HOST_PAGE_SIZE g < 2 ^ 32" using R by (simp add: layout_ok_def)
  have nl: "unat (io_nlbs c) < MDTS_PAGES" "unat (io_slba c) + unat (io_nlbs c) < TOTAL_NUM_OF_PAGES g" using c R by (simp_all add: rw_legal_def)
  have le: "rw_bytes g c \<le> MDTS_PAGES * HOST_PAGE_SIZE g"
    using mult_le_mono1 [of "unat (io_nlbs c) + 1" MDTS_PAGES "HOST_PAGE_SIZE g"] nl(1) by (simp add: rw_bytes_def)
  with pb have bytes: "?pb + rw_bytes g c \<le> 2 ^ 32" by simp
  have wv: "pool_view W_REQ W_SIZE (\<lambda>r. rq_type r = WRITE_IO_REQUEST) (free_w_req_objs s) (w_req s) {}" using s(2) by (simp add: pools_def)
  have "(0 :: nat) \<in> {..<W_SIZE - 1}" by simp
  then have "({} :: nat set) \<noteq> {..<W_SIZE - 1}" by blast
  from pool_view_take [OF wv _ this] obtain x fq where
    x: "deQueue (free_w_req_objs s) = (Some (W_REQ x), fq)" "x < W_SIZE - 1" "req_like (\<lambda>r. rq_type r = WRITE_IO_REQUEST) (w_req s ! x)"
      "\<And>r. req_stage r \<noteq> REQ_STAGE_FREE \<Longrightarrow> req_like (\<lambda>r. rq_type r = WRITE_IO_REQUEST) r \<Longrightarrow>
         pool_view W_REQ W_SIZE (\<lambda>r. rq_type r = WRITE_IO_REQUEST) fq ((w_req s)[x := r]) {x}" by auto
  have x': "x < W_SIZE" "length (dma_list (dma (w_req s ! x))) = MDTS_PAGES" "rq_type (w_req s ! x) = WRITE_IO_REQUEST" "length (w_req s) = W_SIZE"
    using x(2,3) pool_view_len [OF wv] by (simp_all add: req_like_def)
  have free: "cq_free ?ci s" "unat (cq_cqid (cqs s ! ?ci)) = ?ci" using rest_cq_free [OF s(1) room] R by (simp_all add: cq_quiet_def)
  from process_write_io_ok [of s g c x fq ?q ?ci e] R pb c x(1) x' i free obtain r m h qs d bq e' s1 where
    a: "let t = s\<lparr>free_w_req_objs := fq, prp_dma := d, wbc := wbc_for g ?pb c (wbc s), page_buffer_inuse := True, w_buf_q := bq,
         ram := put_bytes (rw_bytes g c) ?pb (\<lambda>j. host_mem (host s) (scatter ?ps j)) m, host := h,
         w_req := (w_req s)[x := r], queues := qs[FTL_MODULE_IN_Q := e']\<rparr> in
     process_write_io g ?q e c s = Some s1 \<and> completes ?ci (sq_head (sqs s ! i)) r t s1 \<and> releases (W_REQ x) t s1 \<and> drv_frame s m h qs d \<and> bq_idle bq \<and>
     q_one (qs[FTL_MODULE_IN_Q := e']) FTL_MODULE_IN_Q WBC_FLUSH_REQUEST WBC \<and>
     rw_req c ?q ?ci ?pb ?ps r \<and> rq_type r = WRITE_IO_REQUEST \<and> req_stage r \<noteq> REQ_STAGE_FREE"
    by (auto simp: cq_of_def)
  define t where "t = s\<lparr>free_w_req_objs := fq, prp_dma := d, wbc := wbc_for g ?pb c (wbc s), page_buffer_inuse := True, w_buf_q := bq,
         ram := put_bytes (rw_bytes g c) ?pb (\<lambda>j. host_mem (host s) (scatter ?ps j)) m, host := h,
         w_req := (w_req s)[x := r], queues := qs[FTL_MODULE_IN_Q := e']\<rparr>"
  from a [unfolded Let_def, folded t_def] have b: "process_write_io g ?q e c s = Some s1" "completes ?ci (sq_head (sqs s ! i)) r t s1" "releases (W_REQ x) t s1"
     "drv_frame s m h qs d" "bq_idle bq" "q_one (queues t) FTL_MODULE_IN_Q WBC_FLUSH_REQUEST WBC" "rw_req c ?q ?ci ?pb ?ps r" "rq_type r = WRITE_IO_REQUEST" "req_stage r \<noteq> REQ_STAGE_FREE"
    by (simp_all add: t_def)
  have fr: "qs_step (queues s) qs" "link_frame (host s) h" "host_mem h = host_mem (host s)" "host_irqs h = host_irqs (host s)" using b(4) by (simp_all add: drv_frame_def)
  have cm: "post_frame t s1" "drv_ok s1" "qs_step (queues t) (queues s1)" "\<forall>y. y < ccmd_buf t \<or> ccmd_buf t + 16 \<le> y \<longrightarrow> ram s1 y = ram t y"
    "\<forall>y. y < slot_of i s \<or> slot_of i s + 16 \<le> y \<longrightarrow> host_mem (host s1) y = host_mem (host s) y" "cq_quiet ?ci s1"
    "cq_tail (cqs s1 ! ?ci) = cq_tail (inc_cq_tail (cqs s ! ?ci))"
    "ccmd_for (sq_head (sqs s ! i)) (cq_phase (cqs s ! ?ci)) (cid c, 0, ccmd_dw0 r, ?q) (load_ccmd (host_mem (host s1)) (slot_of i s))"
    "host_irqs (host s1) = host_irqs (host s) @ (if cq_irq_enabled (cqs s ! ?ci) \<noteq> 0 then [cq_vector (cqs s ! ?ci)] else [])"
    using b(2,7) R fr(3,4) by (simp_all add: completes_def t_def slot_of_def rw_req_def cq_quiet_def)
  note same = post_frame_dev [OF cm(1)]
  have ff1: "flow_frame ?ci s s1"
    using b(2) fr(2) post_frame_same(7) [OF cm(1)] same(17,21) by (simp add: completes_def flow_frame_def link_frame_def) (simp add: t_def)
  have t: "ftl_config t = ftl_config s" "last_searched_channel t = last_searched_channel s" "lpa_table t = lpa_table s" "ppa_table t = ppa_table s" "blk_table t = blk_table s"
    "last_page_per_plane t = last_page_per_plane s" "nand_img t = nand_img s" "rops t = rops s" "free_rop_objs t = free_rop_objs s" "pops t = pops s"
    "free_pop_objs t = free_pop_objs s" "page_buffer t = ?pb" "r_buf_q t = r_buf_q s" "w_buf_q t = bq" "wbc t = wbc_for g ?pb c (wbc s)" "ssd_config t = ssd_config s" "sqs t = sqs s"
    "scmd_buf t = scmd_buf s" "ccmd_buf t = ccmd_buf s" "queues t = qs[FTL_MODULE_IN_Q := e']" by (simp_all add: t_def)
  have inv1: "ftl_inv g k s1" using R ftl_inv_cong [of s1 s g k] by (simp add: same t)
  have l1: "lview g s1 = lview g s" by (rule lview_cong) (simp_all add: same t)
  have pop1: "pop_ready s1" using s(3) by (simp add: pop_ready_def same t)
  have clean: "wbc_clean (wbc s)" using R by simp
  have q1: "q_one (queues s1) FTL_MODULE_IN_Q WBC_FLUSH_REQUEST WBC" using b(6) qs_step_idle(2) [OF cm(3), of FTL_MODULE_IN_Q] by simp
  have "q_idle qs FTL_MODULE_OUT_Q" using R qs_step_idle(1) [OF fr(1), of FTL_MODULE_OUT_Q] by simp
  then have q1': "q_idle (queues s1) FTL_MODULE_OUT_Q" using qs_step_idle(1) [OF cm(3), of FTL_MODULE_OUT_Q] by (simp add: t)
  have w1: "wbc s1 = wbc_for g ?pb c (wbc s)" by (simp add: same t)
  from ftl_stage_write [OF g inv1 pop1 w1 clean nl(2,1) bytes k q1 q1'] obtain e1 e2 u where
    f: "let s2 = u\<lparr>queues := (queues s1)[FTL_MODULE_IN_Q := e1, FTL_MODULE_OUT_Q := e2]\<rparr> in
     serve FTL_MODULE_IN_Q (process_req_cbk g) s1 = Some s2 \<and> ftl_inv g (k + ?n) u \<and>
     (\<forall>l i. i < HOST_PAGE_SIZE g \<longrightarrow> lview g u l i = (if unat (io_slba c) \<le> l \<and> l \<le> unat (io_slba c) + unat (io_nlbs c)
        then ram s1 (?pb + (l - unat (io_slba c)) * HOST_PAGE_SIZE g + i) else lview g s1 l i)) \<and>
     ram u = ram s1 \<and> wbc_frame (s1\<lparr>queues := (queues s1)[FTL_MODULE_IN_Q := e1]\<rparr>) u \<and> wb_type (wbc u) = WBC_FLUSH_REQUEST \<and> length (wb_pages (wbc u)) = WBC_PAGES \<and>
     q_idle (queues s2) FTL_MODULE_IN_Q \<and> q_one (queues s2) FTL_MODULE_OUT_Q WBC_FLUSH_REQUEST WBC" by (elim exE)
  define s2 where "s2 = u\<lparr>queues := (queues s1)[FTL_MODULE_IN_Q := e1, FTL_MODULE_OUT_Q := e2]\<rparr>"
  from f [unfolded Let_def, folded s2_def] have f2: "serve FTL_MODULE_IN_Q (process_req_cbk g) s1 = Some s2" "ftl_inv g (k + ?n) u"
    "\<And>l i. i < HOST_PAGE_SIZE g \<Longrightarrow> lview g u l i = (if unat (io_slba c) \<le> l \<and> l \<le> unat (io_slba c) + unat (io_nlbs c)
        then ram s1 (?pb + (l - unat (io_slba c)) * HOST_PAGE_SIZE g + i) else lview g s l i)"
    "wbc_frame (s1\<lparr>queues := (queues s1)[FTL_MODULE_IN_Q := e1]\<rparr>) u" "wb_type (wbc u) = WBC_FLUSH_REQUEST" "length (wb_pages (wbc u)) = WBC_PAGES"
    "q_idle (queues s2) FTL_MODULE_IN_Q" "q_one (queues s2) FTL_MODULE_OUT_Q WBC_FLUSH_REQUEST WBC" unfolding l1 by blast+
  note wf = wbc_frame_drv [OF f2(4)]
  have bqs: "r_buf_q s2 = r_buf_q s" "w_buf_q s2 = bq" by (simp_all add: s2_def wf same t)
  from complete_stage_write [of s2 g] bqs R b(5) f2(8) obtain e3 T where
    d: "serve FTL_MODULE_OUT_Q (completed_req_cbk g) s2 = Some (s2\<lparr>queues := (queues s2)[FTL_MODULE_OUT_Q := e3], page_buffer_inuse := False,
       wbc := (wbc s2)\<lparr>wb_pages := map (\<lambda>p. p\<lparr>wp_valid := 0\<rparr>) (wb_pages (wbc s2))\<rparr>, thrds := T\<rparr>)"
     "q_idle ((queues s2)[FTL_MODULE_OUT_Q := e3]) FTL_MODULE_OUT_Q" by auto
  define z where "z = s2\<lparr>queues := (queues s2)[FTL_MODULE_OUT_Q := e3], page_buffer_inuse := False,
       wbc := (wbc s2)\<lparr>wb_pages := map (\<lambda>p. p\<lparr>wp_valid := 0\<rparr>) (wb_pages (wbc s2))\<rparr>, thrds := T\<rparr>"
  have zu: "host z = host s1" "cqs z = cqs s1" "sqs z = sqs s" "r_buf_q z = r_buf_q s" "w_buf_q z = bq" "page_buffer z = ?pb" "ccmd_buf z = ccmd_buf s" "scmd_buf z = scmd_buf s"
    "ssd_config z = ssd_config s" "rops z = rops s" "free_rop_objs z = free_rop_objs s" "queues z = (queues s2)[FTL_MODULE_OUT_Q := e3]"
    by (simp_all add: z_def s2_def wf same t)
  have ff: "flow_frame ?ci s z" using ff1 by (simp add: flow_frame_def z_def s2_def wf)
  have "drv_ok z" using wf(1) cm(2) by (simp add: z_def s2_def drv_ok_def pools_len_def)
  moreover have "ftl_inv g (k + ?n) z" using f2(2) ftl_inv_cong [of z u g "k + ?n"] by (simp add: z_def s2_def)
  moreover have "cq_of i z = ?ci" by (simp add: cq_of_def zu)
  moreover have "cq_quiet ?ci z" using cm(6) by (simp add: cq_quiet_def zu)
  moreover have "wbc_clean (wbc z)" using f2(5,6) by (auto simp: wbc_clean_def z_def s2_def)
  moreover have "q_idle (queues z) FTL_MODULE_IN_Q" "q_idle (queues z) FTL_MODULE_OUT_Q" using f2(7) d(2) by (simp_all add: zu)
  moreover have "\<not> page_buffer_inuse z" by (simp add: z_def)
  ultimately have rest: "io_rest g (k + ?n) i z" using R b(5) by (simp add: io_rest_def zu sq_live_def layout_ok_def rop_ready_def)
  have "pools {} {x} N t" using s(2) x(4) [of r] b(7-9) by (simp add: pools_def t_def req_like_def rw_req_def)
  then have "pools {} {} N s1" using b(3) [unfolded releases_def, rule_format, of "{}" "{x}" N] by (simp add: pool_ptr_defs)
  then have pz: "pools {} {} N z" using wf(14) [of "{}" "{}" N] by (simp add: pools_def z_def s2_def)
  have data: "lview g z l y = (if unat (io_slba c) \<le> l \<and> l \<le> unat (io_slba c) + unat (io_nlbs c)
        then host_mem (host s) (scatter ?ps ((l - unat (io_slba c)) * HOST_PAGE_SIZE g + y)) else lview g s l y)" if y: "y < HOST_PAGE_SIZE g" for l y
  proof -
    have lz: "lview g z = lview g u" by (rule lview_cong) (simp_all add: z_def s2_def)
    have "ram s1 (?pb + (l - unat (io_slba c)) * HOST_PAGE_SIZE g + y) = host_mem (host s) (scatter ?ps ((l - unat (io_slba c)) * HOST_PAGE_SIZE g + y))"
      if l: "unat (io_slba c) \<le> l" "l \<le> unat (io_slba c) + unat (io_nlbs c)"
    proof -
      let ?a = "(l - unat (io_slba c)) * HOST_PAGE_SIZE g + y"
      have "?a < (l - unat (io_slba c) + 1) * HOST_PAGE_SIZE g" using y by simp
      also have "\<dots> \<le> rw_bytes g c" unfolding rw_bytes_def using l by (intro mult_le_mono1) simp
      finally have lt: "?a < rw_bytes g c" .
      with le R have "?pb + ?a < ccmd_buf s \<or> ccmd_buf s + 16 \<le> ?pb + ?a" by (auto simp: layout_ok_def)
      then have "ram s1 (?pb + ?a) = ram t (?pb + ?a)" using cm(4) by (auto simp: t)
      also have "\<dots> = host_mem (host s) (scatter ?ps ?a)" using lt by (simp add: t_def put_bytes_def)
      finally show ?thesis by (simp add: add.assoc)
    qed
    then show ?thesis using f2(3) [OF y, of l] by (simp add: lz)
  qed
  show ?thesis
    using b(1) f2(1) d(1) [folded z_def] rest pz data cm(5,7-9) zu(1-3) ff
    by (intro exI [of _ s1] exI [of _ s2] exI [of _ z]) (simp, blast)
qed

end
