(* ===== verification/Cmd_Props.thy ===== *)
theory Cmd_Props
  imports Nvme_Cmds
begin

text \<open>
  Reads and writes as the host sees them: a command that is the next entry of a submission queue is
  executed by the whole firmware, its data moves between host memory and the logical pages of the
  device, and its completion appears in the completion queue.
\<close>

unbundle bit_operations_syntax

section \<open>Executing a command\<close>

lemma exec_read:
  fixes s :: "'a isp_st_scheme"
  assumes g: "io_geo g" and s: "io_ready g k i s" and c: "c = next_cmd i s" "opcode c = NVME_OPC_READ" "rw_legal g c s"
    and room: "cq_room (cqs s ! cq_of i s) \<noteq> 0" and apart: "host_apart (rw_pieces g c s) (slot_of i s)"
  shows "\<exists>s'. exec_cmd g i s = Some s' \<and> io_ready g k i s' \<and> completion_of i c 0 s s' \<and> flow_frame (cq_of i s) s s' \<and> lview g s' = lview g s \<and> pop_ready s' = pop_ready s \<and>
     (\<forall>j < rw_bytes g c. host_mem (host s') (scatter (rw_pieces g c s) j) = lview g s (unat (io_slba c) + j div HOST_PAGE_SIZE g) (j mod HOST_PAGE_SIZE g)) \<and>
     (\<forall>x. (\<forall>p \<in> set (rw_pieces g c s). x \<notin> covers p) \<and> (x < slot_of i s \<or> slot_of i s + 16 \<le> x) \<longrightarrow> host_mem (host s') x = host_mem (host s) x)"
proof -
  have r: "io_rest g k i s" "drv_ok s" using s by (simp_all add: io_ready_def io_rest_def)
  from process_io_cmd_fetch [OF r(2) io_ready_sq [OF r(1)], of g] obtain m h d qs where
    p: "process_io_cmd g i s = io_dispatch g (of_nat i) (sq_head (sqs s ! i)) (next_cmd i s)
       (s\<lparr>ram := m, host := h, sync_dma := d, queues := qs, sqs := (sqs s)[i := advance (sqs s ! i)]\<rparr>)" "fetch_frame s i m h qs" by blast
  define a where "a = s\<lparr>ram := m, host := h, sync_dma := d, queues := qs, sqs := (sqs s)[i := advance (sqs s ! i)]\<rparr>"
  note A = io_ready_fetch [OF s p(2), where d = d, folded a_def]
  have slot: "slot_of i a = slot_of i s" by (simp add: slot_of_def A)
  have ff: "flow_frame ci a t = flow_frame ci s t" for ci t using p(2) by (simp add: flow_frame_def a_def fetch_frame_def link_frame_def)
  obtain N where N: "io_rest g k i a" "pools {} {} N a" using A(1) by (auto simp: io_ready_def)
  from read_flow [OF g N, of c "sq_head (sqs s ! i)", unfolded A slot ff] c(3) room apart obtain s1 s2 s' where
    e: "process_read_io g (of_nat i) (sq_head (sqs s ! i)) c a = Some s1" "serve FTL_MODULE_IN_Q (process_req_cbk g) s1 = Some s2"
      "serve FTL_MODULE_OUT_Q (completed_req_cbk g) s2 = Some s'" and
    f: "io_rest g k i s'" "pools {} {} N s'" "lview g s' = lview g s" "pop_ready s' = pop_ready s"
      "\<forall>j < rw_bytes g c. host_mem (host s') (scatter (rw_pieces g c s) j) = lview g s (unat (io_slba c) + j div HOST_PAGE_SIZE g) (j mod HOST_PAGE_SIZE g)"
      "\<forall>x. (\<forall>p \<in> set (rw_pieces g c s). x \<notin> covers p) \<and> (x < slot_of i s \<or> slot_of i s + 16 \<le> x) \<longrightarrow> host_mem (host s') x = host_mem (host s) x"
      "\<exists>dw0. ccmd_for (sq_head (advance (sqs s ! i))) (cq_phase (cqs s ! cq_of i s)) (cid c, 0, dw0, of_nat i) (load_ccmd (host_mem (host s')) (slot_of i s))"
      "host_irqs (host s') = host_irqs (host s) @ (if cq_irq_enabled (cqs s ! cq_of i s) \<noteq> 0 then [cq_vector (cqs s ! cq_of i s)] else [])"
      "cq_tail (cqs s' ! cq_of i s) = cq_tail (inc_cq_tail (cqs s ! cq_of i s))" "sqs s' = sqs a" "flow_frame (cq_of i s) s s'" by blast
  have "sqs a = (sqs s)[i := advance (sqs s ! i)]" by (simp add: a_def)
  then have "completion_of i c 0 s s'" using f(7-10) by (simp add: completion_of_def Let_def slot_of_def)
  moreover have "exec_cmd g i s = Some s'" using p(1) [folded a_def c(1)] e c(2) by (simp add: exec_cmd_def io_dispatch_def)
  ultimately show ?thesis using f by (intro exI [of _ s']) (auto simp: io_ready_def)
qed

lemma exec_write:
  fixes s :: "'a isp_st_scheme"
  assumes g: "io_geo g" and s: "io_ready g k i s" "pop_ready s" and c: "c = next_cmd i s" "opcode c = NVME_OPC_WRITE" "rw_legal g c s"
    and room: "cq_room (cqs s ! cq_of i s) \<noteq> 0" and k: "k + (unat (io_nlbs c) + 1) < TOTAL_NUM_OF_PAGES g"
  shows "\<exists>s'. exec_cmd g i s = Some s' \<and> io_ready g (k + (unat (io_nlbs c) + 1)) i s' \<and> completion_of i c 0 s s' \<and> flow_frame (cq_of i s) s s' \<and>
     (\<forall>l b. b < HOST_PAGE_SIZE g \<longrightarrow> lview g s' l b = (if unat (io_slba c) \<le> l \<and> l \<le> unat (io_slba c) + unat (io_nlbs c)
        then host_mem (host s) (scatter (rw_pieces g c s) ((l - unat (io_slba c)) * HOST_PAGE_SIZE g + b)) else lview g s l b)) \<and>
     (\<forall>x. x < slot_of i s \<or> slot_of i s + 16 \<le> x \<longrightarrow> host_mem (host s') x = host_mem (host s) x)"
proof -
  have r: "io_rest g k i s" "drv_ok s" using s by (simp_all add: io_ready_def io_rest_def)
  from process_io_cmd_fetch [OF r(2) io_ready_sq [OF r(1)], of g] obtain m h d qs where
    p: "process_io_cmd g i s = io_dispatch g (of_nat i) (sq_head (sqs s ! i)) (next_cmd i s)
       (s\<lparr>ram := m, host := h, sync_dma := d, queues := qs, sqs := (sqs s)[i := advance (sqs s ! i)]\<rparr>)" "fetch_frame s i m h qs" by blast
  define a where "a = s\<lparr>ram := m, host := h, sync_dma := d, queues := qs, sqs := (sqs s)[i := advance (sqs s ! i)]\<rparr>"
  note A = io_ready_fetch [OF s(1) p(2), where d = d, folded a_def]
  have slot: "slot_of i a = slot_of i s" by (simp add: slot_of_def A)
  have ff: "flow_frame ci a t = flow_frame ci s t" for ci t using p(2) by (simp add: flow_frame_def a_def fetch_frame_def link_frame_def)
  obtain N where N: "io_rest g k i a" "pools {} {} N a" using A(1) by (auto simp: io_ready_def)
  from write_flow [OF g N, of c "sq_head (sqs s ! i)", unfolded A slot ff] s(2) c(3) room k obtain s1 s2 s' where
    e: "process_write_io g (of_nat i) (sq_head (sqs s ! i)) c a = Some s1" "serve FTL_MODULE_IN_Q (process_req_cbk g) s1 = Some s2"
      "serve FTL_MODULE_OUT_Q (completed_req_cbk g) s2 = Some s'" and
    f: "io_rest g (k + (unat (io_nlbs c) + 1)) i s'" "pools {} {} N s'"
      "\<forall>l b. b < HOST_PAGE_SIZE g \<longrightarrow> lview g s' l b = (if unat (io_slba c) \<le> l \<and> l \<le> unat (io_slba c) + unat (io_nlbs c)
        then host_mem (host s) (scatter (rw_pieces g c s) ((l - unat (io_slba c)) * HOST_PAGE_SIZE g + b)) else lview g s l b)"
      "\<forall>x. x < slot_of i s \<or> slot_of i s + 16 \<le> x \<longrightarrow> host_mem (host s') x = host_mem (host s) x"
      "\<exists>dw0. ccmd_for (sq_head (advance (sqs s ! i))) (cq_phase (cqs s ! cq_of i s)) (cid c, 0, dw0, of_nat i) (load_ccmd (host_mem (host s')) (slot_of i s))"
      "host_irqs (host s') = host_irqs (host s) @ (if cq_irq_enabled (cqs s ! cq_of i s) \<noteq> 0 then [cq_vector (cqs s ! cq_of i s)] else [])"
      "cq_tail (cqs s' ! cq_of i s) = cq_tail (inc_cq_tail (cqs s ! cq_of i s))" "sqs s' = sqs a" "flow_frame (cq_of i s) s s'" by blast
  have "sqs a = (sqs s)[i := advance (sqs s ! i)]" by (simp add: a_def)
  then have "completion_of i c 0 s s'" using f(5-8) by (simp add: completion_of_def Let_def slot_of_def)
  moreover have "exec_cmd g i s = Some s'" using p(1) [folded a_def c(1)] e c(2) by (simp add: exec_cmd_def io_dispatch_def NVME_OPC_WRITE_def NVME_OPC_READ_def)
  ultimately show ?thesis using f by (intro exI [of _ s']) (auto simp: io_ready_def)
qed

end
