(* ===== verification/Cmd_Claims.thy ===== *)
theory Cmd_Claims
  imports Cmd_Props
begin

text \<open>
  The theorems on whole commands, with a small device that can take commands as their witness.
\<close>

unbundle bit_operations_syntax

section \<open>The host between commands\<close>

text \<open>The host writes its memory: new commands, new data.\<close>

definition host_writes :: "mem \<Rightarrow> 'a host_st_scheme \<Rightarrow> 'a host_st_scheme" where
  "host_writes hm s = s\<lparr>host := (host s)\<lparr>host_mem := hm\<rparr>\<rparr>"

lemma host_writes_ready:
  fixes s :: "'a isp_st_scheme"
  shows "io_ready g k i (host_writes hm s) = io_ready g k i s" "lview g (host_writes hm s) = lview g s" "cqs (host_writes hm s) = cqs s"
    "cq_of i (host_writes hm s) = cq_of i s" "slot_of i (host_writes hm s) = slot_of i s" "host_mem (host (host_writes hm s)) = hm" "sqs (host_writes hm s) = sqs s"
proof -
  have "ftl_inv g k (host_writes hm s) = ftl_inv g k s" unfolding host_writes_def by (rule ftl_inv_cong) simp_all
  then show "io_ready g k i (host_writes hm s) = io_ready g k i s"
    by (simp add: io_ready_def io_rest_def host_writes_def drv_ok_def link_ok_def pools_len_def rop_ready_def sq_live_def cq_quiet_def cq_of_def layout_ok_def pools_def)
  show "lview g (host_writes hm s) = lview g s" unfolding host_writes_def by (rule lview_cong) simp_all
qed (simp_all add: host_writes_def cq_of_def slot_of_def)

section \<open>Properties\<close>

text \<open>
  C1. A write command: the firmware fetches it, moves the data of its PRP pages through the page buffer to flash, posts
  a completion with status 0 for its identifier with the current phase and raises the interrupt; exactly the
  logical pages of the command change, to the bytes of host memory, and host memory changes only in the
  completion entry. The firmware is ready for the next command.
\<close>

theorem write_command:
  fixes s :: "'a isp_st_scheme"
  assumes "io_geo g" "io_ready g k i s" "pop_ready s" and "c = next_cmd i s" "opcode c = NVME_OPC_WRITE" "rw_legal g c s"
    and "cq_room (cqs s ! cq_of i s) \<noteq> 0" "k + (unat (io_nlbs c) + 1) < TOTAL_NUM_OF_PAGES g"
  shows "\<exists>s'. exec_cmd g i s = Some s' \<and> io_ready g (k + (unat (io_nlbs c) + 1)) i s' \<and> completion_of i c 0 s s' \<and> flow_frame (cq_of i s) s s' \<and>
     (\<forall>l b. b < HOST_PAGE_SIZE g \<longrightarrow> lview g s' l b = (if unat (io_slba c) \<le> l \<and> l \<le> unat (io_slba c) + unat (io_nlbs c)
        then host_mem (host s) (scatter (rw_pieces g c s) ((l - unat (io_slba c)) * HOST_PAGE_SIZE g + b)) else lview g s l b)) \<and>
     (\<forall>x. x < slot_of i s \<or> slot_of i s + 16 \<le> x \<longrightarrow> host_mem (host s') x = host_mem (host s) x)"
  using assms by (rule exec_write)

text \<open>
  C2. A read command: the bytes of its logical pages, zeros for pages never written, arrive in the host memory its
  PRP fields describe, a completion with status 0 is posted, nothing else in host memory and no logical page
  changes, and the firmware is ready for the next command.
\<close>

theorem read_command:
  fixes s :: "'a isp_st_scheme"
  assumes "io_geo g" "io_ready g k i s" and "c = next_cmd i s" "opcode c = NVME_OPC_READ" "rw_legal g c s"
    and "cq_room (cqs s ! cq_of i s) \<noteq> 0" "host_apart (rw_pieces g c s) (slot_of i s)"
  shows "\<exists>s'. exec_cmd g i s = Some s' \<and> io_ready g k i s' \<and> completion_of i c 0 s s' \<and> flow_frame (cq_of i s) s s' \<and> lview g s' = lview g s \<and>
     (\<forall>j < rw_bytes g c. host_mem (host s') (scatter (rw_pieces g c s) j) = lview g s (unat (io_slba c) + j div HOST_PAGE_SIZE g) (j mod HOST_PAGE_SIZE g)) \<and>
     (\<forall>x. (\<forall>p \<in> set (rw_pieces g c s). x \<notin> covers p) \<and> (x < slot_of i s \<or> slot_of i s + 16 \<le> x) \<longrightarrow> host_mem (host s') x = host_mem (host s) x)"
  using exec_read [OF assms] by blast

text \<open>
  C3. A round trip through the device: after a write command, whatever the host writes to its memory in between, a read
  command for the same logical pages delivers the bytes the write took from host memory, in order.
\<close>

theorem read_after_write:
  fixes s :: "'a isp_st_scheme"
  assumes g: "io_geo g" and s: "io_ready g k i s" "pop_ready s" and c: "c = next_cmd i s" "opcode c = NVME_OPC_WRITE" "rw_legal g c s"
    and room: "cq_room (cqs s ! cq_of i s) \<noteq> 0" "k + (unat (io_nlbs c) + 1) < TOTAL_NUM_OF_PAGES g"
  shows "\<exists>s1. exec_cmd g i s = Some s1 \<and>
    (\<forall>hm. let s2 = host_writes hm s1; c2 = next_cmd i s2 in
      opcode c2 = NVME_OPC_READ \<and> io_slba c2 = io_slba c \<and> io_nlbs c2 = io_nlbs c \<and> rw_legal g c2 s2 \<and>
      cq_room (cqs s2 ! cq_of i s2) \<noteq> 0 \<and> host_apart (rw_pieces g c2 s2) (slot_of i s2) \<longrightarrow>
      (\<exists>s3. exec_cmd g i s2 = Some s3 \<and>
        (\<forall>j < rw_bytes g c. host_mem (host s3) (scatter (rw_pieces g c2 s2) j) = host_mem (host s) (scatter (rw_pieces g c s) j))))"
proof -
  from exec_write [OF assms] obtain s1 where
    s1: "exec_cmd g i s = Some s1" "io_ready g (k + (unat (io_nlbs c) + 1)) i s1"
      "\<And>l b. b < HOST_PAGE_SIZE g \<Longrightarrow> lview g s1 l b = (if unat (io_slba c) \<le> l \<and> l \<le> unat (io_slba c) + unat (io_nlbs c)
        then host_mem (host s) (scatter (rw_pieces g c s) ((l - unat (io_slba c)) * HOST_PAGE_SIZE g + b)) else lview g s l b)" by blast
  have "\<exists>s3. exec_cmd g i s2 = Some s3 \<and> (\<forall>j < rw_bytes g c. host_mem (host s3) (scatter (rw_pieces g c2 s2) j) = host_mem (host s) (scatter (rw_pieces g c s) j))"
    if s2: "s2 = host_writes hm s1" "c2 = next_cmd i s2" and c2: "opcode c2 = NVME_OPC_READ" "io_slba c2 = io_slba c" "io_nlbs c2 = io_nlbs c" "rw_legal g c2 s2"
      "cq_room (cqs s2 ! cq_of i s2) \<noteq> 0" "host_apart (rw_pieces g c2 s2) (slot_of i s2)" for hm s2 c2
  proof -
    have "io_ready g (k + (unat (io_nlbs c) + 1)) i s2" using s1(2) by (simp add: s2(1) host_writes_ready)
    from exec_read [OF g this s2(2) c2(1,4-6)] obtain s3 where
      s3: "exec_cmd g i s2 = Some s3" "\<forall>j < rw_bytes g c2. host_mem (host s3) (scatter (rw_pieces g c2 s2) j) =
        lview g s2 (unat (io_slba c2) + j div HOST_PAGE_SIZE g) (j mod HOST_PAGE_SIZE g)" by blast
    have "lview g s1 (unat (io_slba c) + j div HOST_PAGE_SIZE g) (j mod HOST_PAGE_SIZE g) = host_mem (host s) (scatter (rw_pieces g c s) j)" if j: "j < rw_bytes g c" for j
    proof -
      have p: "0 < HOST_PAGE_SIZE g" by (simp add: HOST_PAGE_SIZE_def)
      from page_byte [OF p j [unfolded rw_bytes_def]] have "j div HOST_PAGE_SIZE g \<le> unat (io_nlbs c)" by auto
      then show ?thesis using p by (subst s1(3)) simp_all
    qed
    with s3 show ?thesis by (simp add: c2(2,3) rw_bytes_def s2(1) host_writes_ready(2))
  qed
  with s1(1) show ?thesis unfolding Let_def by blast
qed

section \<open>A small device that can take commands\<close>

definition demo_sq :: NvmeSQueue where
  "demo_sq = zero_sq\<lparr>sq_sqid := 1, sq_cqid := 1, sq_size := 8, sq_hostAddr := 0x1000\<rparr>"

definition demo_cq :: NvmeCQueue where
  "demo_cq = zero_cq\<lparr>cq_phase := 1, cq_irq_enabled := 1, cq_cqid := 1, cq_vector := 1, cq_size := 8, cq_hostAddr := 0x2000, pend_size := 8\<rparr>"

definition demo_wbc :: wbc_req_t where
  "demo_wbc = \<lparr>wb_type = WBC_FLUSH_REQUEST, wb_index = 1, num_program_pgs = 0, wb_nand_io_complete = False,
     wb_pages = replicate WBC_PAGES \<lparr>wp_lpn = 0, wp_ssd_addr = 0, wp_valid = 0, wp_nand_io_complete = 0\<rparr>\<rparr>"

definition isp_image :: "mem \<Rightarrow> isp_st" where
  "isp_image m = nvme_st.extend (nvme_image m) (isp_st.fields [] 0 0 0 0)"

lemma fresh_pool:
  assumes "inj C" "0 < n" "ty (f zero_req)" "\<And>r v. ty (r\<lparr>rq_index := v, req_stage := REQ_STAGE_FREE\<rparr>) = ty (r\<lparr>req_stage := REQ_STAGE_FREE\<rparr>)"
    "ty ((f zero_req)\<lparr>req_stage := REQ_STAGE_FREE\<rparr>)" "dma (f zero_req) = zero_dma"
  shows "\<exists>q objs. pool_view C n ty q objs {}"
proof -
  from init_pool [OF assms(2), of C f] obtain q objs where f: "filled C f n 0 (replicate n zero_req) q objs" by blast
  have "objs ! j = (f zero_req)\<lparr>rq_index := of_nat (j + 1), req_stage := REQ_STAGE_FREE\<rparr>" if "j < n - 1" for j
    using f that by (simp add: filled_def)
  with filled_ok [OF assms(1) f] assms show ?thesis
    by (intro exI [of _ q] exI [of _ objs]) (simp add: pool_view_def zero_dma_def)
qed

text \<open>Ready to take commands on queue pair 1: no page programmed, six logical pages, four-kilobyte host pages.\<close>

lemma ready_device:
  "\<exists>s :: isp_st. io_ready tiny_geo 0 1 s \<and> pop_ready s \<and> host s = host_image hm \<and> sqs s = [zero_sq, demo_sq] \<and> cqs s = [demo_cq\<lparr>cq_cqid := 0\<rparr>, demo_cq] \<and>
     hostMemPageSize s = 4096 \<and> nsze (ssd_config s) = 6 \<and> pools {} {} {} s"
proof -
  from new_media_init [OF geo_ok_default(2), of 0 "isp_image hm"] obtain s1 :: isp_st where
    s1: "ftl_inv tiny_geo 0 (finish_ftl_init s1)" by blast
  from fresh_pool [of R_REQ R_SIZE "\<lambda>r. rq_type r = READ_IO_REQUEST" "\<lambda>r. r\<lparr>rq_type := READ_IO_REQUEST\<rparr>"] obtain qr R where
    R: "pool_view R_REQ R_SIZE (\<lambda>r. rq_type r = READ_IO_REQUEST) qr R {}" by (auto simp: zero_req_def)
  from fresh_pool [of W_REQ W_SIZE "\<lambda>r. rq_type r = WRITE_IO_REQUEST" "\<lambda>r. r\<lparr>rq_type := WRITE_IO_REQUEST\<rparr>"] obtain qw W where
    W: "pool_view W_REQ W_SIZE (\<lambda>r. rq_type r = WRITE_IO_REQUEST) qw W {}" by (auto simp: zero_req_def)
  from fresh_pool [of O_REQ O_SIZE other_typed "\<lambda>r. r\<lparr>req_stage := REQ_STAGE_FREE\<rparr>"] obtain qo Q where
    Q: "pool_view O_REQ O_SIZE other_typed qo Q {}" by (auto simp: zero_req_def other_typed_def)
  let ?o = "init_op_obj ftl_image"
  let ?s = "(finish_ftl_init s1)\<lparr>queues := replicate 16 zero_obj_queue, r_req := R, free_r_req_objs := qr, w_req := W, free_w_req_objs := qw,
     other_req_alloc := Q, free_req_objs := qo, rops := rops ?o, free_rop_objs := free_rop_objs ?o, pops := pops ?o, free_pop_objs := free_pop_objs ?o,
     ssd_config := (ssd_config s1)\<lparr>nsze := 6\<rparr>, page_buffer := 0x9d000000, page_buffer_inuse := False, wbc := demo_wbc, host := host_image hm, prp_dma := zero_dma,
     cqs := [demo_cq\<lparr>cq_cqid := 0\<rparr>, demo_cq], sqs := [zero_sq, demo_sq], hostMemPageSize := 4096, hostPageBits := 12, maxPrpEntries := 512, prp_list := 0x9c002400,
     scmd_buf := 0x9c004400, ccmd_buf := 0x9c006400, r_buf_q := zero_buf_q, w_buf_q := zero_buf_q\<rparr>"
  have inv: "ftl_inv tiny_geo 0 ?s" using s1 ftl_inv_cong [of ?s "finish_ftl_init s1" tiny_geo 0] by simp
  have po: "pools {} {} {} ?s" using R W Q by (simp add: pools_def)
  have ops: "rop_ready ?s" "pop_ready ?s" using init_op_obj_ready(1,2) [OF ops_of_image(1)] by (simp_all add: rop_ready_def pop_ready_def)
  have qi: "q_idle (queues ?s) q" if "q < 16" for q using that by (simp add: q_idle_def zero_obj_queue_def oq_inv_def MSG_Q_SIZE_def)
  have "12 \<le> (12 :: nat) \<and> 12 \<le> (16 :: nat) \<and> hostPageBits ?s = of_nat 12 \<and> hostMemPageSize ?s = 2 ^ 12 \<and> maxPrpEntries ?s = 2 ^ (12 - 3)" by simp
  moreover have "dma_q_ok (queues ?s)" using qi [of SYNC_DMA_Q] by (simp add: dma_q_ok_def q_idle_def SYNC_DMA_Q_def)
  moreover have "pools_len ?s" using R W Q by (simp add: pools_len_def pool_view_len)
  moreover have "prp_dma_ok (prp_dma ?s)" by (auto simp: prp_dma_ok_def zero_dma_def ops_fit_def zero_dma_op_def INTERFACE_DMA_PAGE_SIZE_def MDTS_PAGES_def)
  ultimately have drv: "drv_ok ?s" unfolding drv_ok_def by (auto simp: link_ok_image PrpListSize_def)
  have "sq_live 1 ?s" by (simp add: sq_live_def demo_sq_def zero_sq_def)
  moreover have "cq_of 1 ?s = 1" by (simp add: cq_of_def demo_sq_def)
  moreover have "cq_quiet 1 ?s" by (simp add: cq_quiet_def demo_cq_def zero_cq_def cq_ok_def INTERNAL_IO_REQ_QUEUE_def)
  moreover have "layout_ok tiny_geo ?s" by (simp add: layout_ok_def MDTS_PAGES_def HOST_PAGE_SIZE_def tiny_geo_def)
  moreover have "wbc_clean (wbc ?s)" by (simp add: wbc_clean_def demo_wbc_def)
  moreover have "bq_idle zero_buf_q" by (simp add: bq_idle_def zero_buf_q_def MAX_IO_SQCQ_ENTRIES_def)
  moreover have "q_idle (queues ?s) FTL_MODULE_IN_Q" "q_idle (queues ?s) FTL_MODULE_OUT_Q"
    using qi [of FTL_MODULE_IN_Q] qi [of FTL_MODULE_OUT_Q] by (simp_all add: FTL_MODULE_IN_Q_def FTL_MODULE_OUT_Q_def)
  moreover have "unat (nsze (ssd_config ?s)) \<le> TOTAL_NUM_OF_PAGES tiny_geo" by (simp add: tiny_total)
  ultimately have "io_rest tiny_geo 0 1 ?s" using drv inv ops(1) unfolding io_rest_def by simp
  with po ops show ?thesis by (intro exI [of _ ?s]) (auto simp: io_ready_def)
qed

text \<open>A write of logical page 2 from address 0x8000, and a read of it to address 0x9000.\<close>

definition demo_write :: NvmeSCmd where
  "demo_write = zero_scmd\<lparr>opcode := NVME_OPC_WRITE, cid := 7, nsid := 1, prp1 := 0x8000, cdw10 := 2\<rparr>"

definition demo_read :: NvmeSCmd where
  "demo_read = zero_scmd\<lparr>opcode := NVME_OPC_READ, cid := 8, nsid := 1, prp1 := 0x9000, cdw10 := 2\<rparr>"

lemma demo_bytes: "rw_bytes tiny_geo demo_write = 8" "rw_bytes tiny_geo demo_read = 8"
  by (simp_all add: rw_bytes_def demo_write_def demo_read_def zero_scmd_def io_nlbs_def lo16_def HOST_PAGE_SIZE_def tiny_geo_def)

lemma demo_fields: "io_slba demo_write = 2" "io_nlbs demo_write = 0" "io_slba demo_read = 2" "io_nlbs demo_read = 0"
  "opcode demo_write = NVME_OPC_WRITE" "opcode demo_read = NVME_OPC_READ" "prp1 demo_write = 0x8000" "prp1 demo_read = 0x9000"
  "prp2 demo_write = 0" "prp2 demo_read = 0" "nsid demo_write = 1" "nsid demo_read = 1"
  by (simp_all add: demo_write_def demo_read_def zero_scmd_def io_nlbs_def io_slba_def lo16_def)

lemma demo_legal:
  assumes "hostMemPageSize s = 4096" "nsze (ssd_config s) = 6"
  shows "rw_legal tiny_geo demo_write s" "rw_pieces tiny_geo demo_write s = [(0x8000, 8)]" "rw_legal tiny_geo demo_read s" "rw_pieces tiny_geo demo_read s = [(0x9000, 8)]"
proof -
  have "prp_valid 4096 a 0 hm 8" if "a = 0x8000 \<or> a = 0x9000" for a hm
    using that by (auto simp: prp_valid_def prp_first_def npages_def MDTS_PAGES_def Let_def)
  then show "rw_legal tiny_geo demo_write s" "rw_legal tiny_geo demo_read s"
    using assms by (simp_all add: rw_legal_def demo_bytes demo_fields NUM_NS_def MDTS_PAGES_def)
  show "rw_pieces tiny_geo demo_write s = [(0x8000, 8)]" "rw_pieces tiny_geo demo_read s = [(0x9000, 8)]"
    using assms by (simp_all add: rw_pieces_def demo_bytes demo_fields prp_pieces_def prp_first_def Let_def spread.simps)
qed

lemma demo_next:
  assumes "sqs s = [zero_sq, demo_sq]" "host s = host_image (store_scmd m 0x1000 c)"
  shows "next_cmd 1 s = c"
  using assms by (simp add: next_cmd_def sq_entry_def demo_sq_def zero_sq_def link_ok_image load_scmd_store)

lemma demo_room: "cq_room demo_cq = 7" "cq_slot demo_cq 0 = 0x2000"
  by (simp_all add: cq_room_def cq_slot_def cq_entry_def demo_cq_def zero_cq_def ring_len_def)

theorem write_command_witness:
  "\<exists>s s' :: isp_st. exec_cmd tiny_geo 1 s = Some s' \<and> lview tiny_geo s' 2 5 = host_mem (host s) 0x8005 \<and> lview tiny_geo s' 3 5 = lview tiny_geo s 3 5"
proof -
  from ready_device [of "store_scmd (\<lambda>_. 9) 0x1000 demo_write"] obtain s :: isp_st where
    s: "io_ready tiny_geo 0 1 s" "pop_ready s" "host s = host_image (store_scmd (\<lambda>_. 9) 0x1000 demo_write)" "sqs s = [zero_sq, demo_sq]"
      "cqs s = [demo_cq\<lparr>cq_cqid := 0\<rparr>, demo_cq]" "hostMemPageSize s = 4096" "nsze (ssd_config s) = 6" by blast
  note n = demo_next [OF s(4,3)] and l = demo_legal [OF s(6,7)]
  have q: "cq_of 1 s = 1" by (simp add: cq_of_def s(4) demo_sq_def)
  have room: "cq_room (cqs s ! cq_of 1 s) \<noteq> 0" unfolding q s(5) by (simp add: demo_room)
  have k: "0 + (unat (io_nlbs demo_write) + 1) < TOTAL_NUM_OF_PAGES tiny_geo" by (simp add: tiny_total demo_fields)
  from write_command [OF tiny_io(1) s(1,2) n [symmetric] demo_fields(5) l(1) room k] obtain s' where
    r: "exec_cmd tiny_geo 1 s = Some s'"
      "\<And>l b. b < HOST_PAGE_SIZE tiny_geo \<Longrightarrow> lview tiny_geo s' l b = (if unat (io_slba demo_write) \<le> l \<and> l \<le> unat (io_slba demo_write) + unat (io_nlbs demo_write)
        then host_mem (host s) (scatter (rw_pieces tiny_geo demo_write s) ((l - unat (io_slba demo_write)) * HOST_PAGE_SIZE tiny_geo + b)) else lview tiny_geo s l b)"
    by blast
  have "HOST_PAGE_SIZE tiny_geo = 8" by (simp add: HOST_PAGE_SIZE_def tiny_geo_def)
  with r(2) [of 5 2] r(2) [of 5 3] r(1) show ?thesis by (auto simp: demo_fields l(2))
qed

theorem read_command_witness:
  "\<exists>s s' :: isp_st. exec_cmd tiny_geo 1 s = Some s' \<and> host_mem (host s') 0x9005 = lview tiny_geo s 2 5"
proof -
  from ready_device [of "store_scmd (\<lambda>_. 9) 0x1000 demo_read"] obtain s :: isp_st where
    s: "io_ready tiny_geo 0 1 s" "host s = host_image (store_scmd (\<lambda>_. 9) 0x1000 demo_read)" "sqs s = [zero_sq, demo_sq]"
      "cqs s = [demo_cq\<lparr>cq_cqid := 0\<rparr>, demo_cq]" "hostMemPageSize s = 4096" "nsze (ssd_config s) = 6" by blast
  note n = demo_next [OF s(3,2)] and l = demo_legal [OF s(5,6)]
  have q: "cq_of 1 s = 1" by (simp add: cq_of_def s(3) demo_sq_def)
  have room: "cq_room (cqs s ! cq_of 1 s) \<noteq> 0" unfolding q s(4) by (simp add: demo_room)
  have "slot_of 1 s = 0x2000" unfolding slot_of_def q s(4) by (simp add: demo_room)
  then have "host_apart (rw_pieces tiny_geo demo_read s) (slot_of 1 s)" by (auto simp: l(4) host_apart_def covers_def)
  from read_command [OF tiny_io(1) s(1) n [symmetric] demo_fields(6) l(3) room this] obtain s' where
    r: "exec_cmd tiny_geo 1 s = Some s'"
      "\<forall>j < 8. host_mem (host s') (scatter [(0x9000, 8)] j) = lview tiny_geo s (2 + j div 8) (j mod 8)"
    by (auto simp: demo_fields demo_bytes l(4) tiny_io(2) [unfolded same_page [OF tiny_io(1)]])
  from r(2) [rule_format, of 5] r(1) show ?thesis by auto
qed

theorem read_after_write_witness:
  "\<exists>s s1 s3 :: isp_st. \<exists>hm. exec_cmd tiny_geo 1 s = Some s1 \<and> exec_cmd tiny_geo 1 (host_writes hm s1) = Some s3 \<and>
     next_cmd 1 s = demo_write \<and> next_cmd 1 (host_writes hm s1) = demo_read \<and> host_mem (host s) 0x8005 = 9 \<and> host_mem (host s3) 0x9005 = 9"
proof -
  let ?m = "store_scmd (\<lambda>_. 9) 0x1000 demo_write" and ?hm = "store_scmd (\<lambda>_. 0) 0x1040 demo_read"
  from ready_device [of ?m] obtain s :: isp_st where
    s: "io_ready tiny_geo 0 1 s" "pop_ready s" "host s = host_image ?m" "sqs s = [zero_sq, demo_sq]"
      "cqs s = [demo_cq\<lparr>cq_cqid := 0\<rparr>, demo_cq]" "hostMemPageSize s = 4096" "nsze (ssd_config s) = 6" by blast
  note n = demo_next [OF s(4,3)] and l = demo_legal [OF s(6,7)]
  have q: "cq_of 1 s = 1" by (simp add: cq_of_def s(4) demo_sq_def)
  have room: "cq_room (cqs s ! cq_of 1 s) \<noteq> 0" unfolding q s(5) by (simp add: demo_room)
  have k: "0 + (unat (io_nlbs demo_write) + 1) < TOTAL_NUM_OF_PAGES tiny_geo" by (simp add: tiny_total demo_fields)
  from exec_write [OF tiny_io(1) s(1,2) n [symmetric] demo_fields(5) l(1) room k] obtain s1 where
    s1: "exec_cmd tiny_geo 1 s = Some s1" "completion_of 1 demo_write 0 s s1" "flow_frame 1 s s1" unfolding q by blast
  let ?t = "host_writes ?hm s1"
  have sq: "sqs s1 = [zero_sq, advance demo_sq]" using s1(2) by (simp add: completion_of_def Let_def s(4))
  have t: "hostMemPageSize ?t = 4096" "nsze (ssd_config ?t) = 6" "cqs ?t = cqs s1" "sqs ?t = sqs s1" "host_mem (host ?t) = ?hm"
    using s1(3) s(6,7) by (simp_all add: flow_frame_def host_writes_def)
  have q': "cq_of 1 ?t = 1" by (simp add: cq_of_def t(4) sq advance_def demo_sq_def)
  have cq: "Suc (cq_room (cqs s1 ! 1)) = 7" "cq_slot (cqs s1 ! 1) 0 = 0x2010"
    using s1(3) demo_room(1) by (auto simp: flow_frame_def s(5) cq_slot_def cq_entry_def demo_cq_def zero_cq_def)
  have n': "next_cmd 1 ?t = demo_read"
    by (simp add: next_cmd_def t sq sq_entry_def advance_def demo_sq_def zero_sq_def load_scmd_store)
  note l' = demo_legal [OF t(1,2)]
  have "slot_of 1 ?t = 0x2010" unfolding slot_of_def q' t(3) by (rule cq(2))
  then have apart: "host_apart [(0x9000, 8)] (slot_of 1 ?t)" by (auto simp: host_apart_def covers_def)
  have room': "cq_room (cqs ?t ! cq_of 1 ?t) \<noteq> 0" unfolding q' t(3) using cq(1) by simp
  obtain s3 where s3: "exec_cmd tiny_geo 1 ?t = Some s3" "\<forall>j < 8. host_mem (host s3) (scatter [(0x9000, 8)] j) = host_mem (host s) (scatter [(0x8000, 8)] j)"
  proof -
    from read_after_write [OF tiny_io(1) s(1,2) n [symmetric] demo_fields(5) l(1) room k] s1(1) obtain s3 where
      "exec_cmd tiny_geo 1 ?t = Some s3" "\<forall>j < rw_bytes tiny_geo demo_write. host_mem (host s3) (scatter (rw_pieces tiny_geo demo_read ?t) j) =
         host_mem (host s) (scatter (rw_pieces tiny_geo demo_write s) j)"
      using n' room' apart l' demo_fields unfolding Let_def by (metis option.inject)
    with that show ?thesis by (simp add: demo_bytes l'(4) l(2))
  qed
  have "host_mem (host s) 0x8005 = 9" by (simp add: s(3) link_ok_image store_scmd_other)
  with s3(2) [rule_format, of 5] s1(1) s3(1) n n' show ?thesis by (intro exI [of _ s] exI [of _ s1] exI [of _ s3] exI [of _ ?hm]) simp
qed

end
