(* ===== verification/Cmd_Errors.thy ===== *)
theory Cmd_Errors
  imports Cmd_Claims
begin

text \<open>
  I/O commands that move no data: reads and writes outside the namespace, flushes, and commands the
  driver does not know.
\<close>

unbundle bit_operations_syntax

section \<open>Completing at once\<close>

lemma io_rest_poll:
  fixes s :: "'a isp_st_scheme"
  shows "io_rest g k i (s\<lparr>thrds := T\<rparr>) = io_rest g k i s" "lview g (s\<lparr>thrds := T\<rparr>) = lview g s" "pools L M N (s\<lparr>thrds := T\<rparr>) = pools L M N s"
proof -
  have "ftl_inv g k (s\<lparr>thrds := T\<rparr>) = ftl_inv g k s" by (rule ftl_inv_cong) simp_all
  then show "io_rest g k i (s\<lparr>thrds := T\<rparr>) = io_rest g k i s"
    by (simp add: io_rest_def drv_ok_def pools_len_def rop_ready_def sq_live_def cq_quiet_def cq_of_def layout_ok_def)
  show "lview g (s\<lparr>thrds := T\<rparr>) = lview g s" by (rule lview_cong) simp_all
qed (simp add: pools_def)

text \<open>A request that has just been taken from its pool and is completed at once.\<close>

lemma complete_at_once:
  fixes s :: "'a isp_st_scheme"
  assumes s: "io_rest g k i s" and room: "cq_room (cqs s ! cq_of i s) \<noteq> 0" and r: "get_req p s = Some r" "sqid r = of_nat i" "cid (scmd r) = cid c" "status r = 0"
    and p: "pools L M N s" "in_use p L M N"
  shows "\<exists>s'. enqueue_io_ccmd (cq_of i s) p s = Some s' \<and> io_rest g k i s' \<and> pools (minus_R p L) (minus_W p M) (minus_O p N) s' \<and> lview g s' = lview g s \<and>
     pop_ready s' = pop_ready s \<and> thrds s' = thrds s \<and> (\<forall>x. x < slot_of i s \<or> slot_of i s + 16 \<le> x \<longrightarrow> host_mem (host s') x = host_mem (host s) x) \<and>
     (\<exists>dw0. ccmd_for (sq_head (sqs s ! i)) (cq_phase (cqs s ! cq_of i s)) (cid c, 0, dw0, of_nat i) (load_ccmd (host_mem (host s')) (slot_of i s))) \<and>
     host_irqs (host s') = host_irqs (host s) @ (if cq_irq_enabled (cqs s ! cq_of i s) \<noteq> 0 then [cq_vector (cqs s ! cq_of i s)] else []) \<and>
     cq_tail (cqs s' ! cq_of i s) = cq_tail (inc_cq_tail (cqs s ! cq_of i s)) \<and> sqs s' = sqs s \<and> (\<forall>q. q \<noteq> SYNC_DMA_Q \<longrightarrow> queues s' ! q = queues s ! q)"
proof -
  have i: "i < length (sqs s)" "unat (of_nat i :: u32) = i" using s by (auto simp: io_rest_def sq_live_def unat_of_nat)
  from enqueue_io_one [OF rest_cq_free [OF s room] r(1)] r(2) i obtain s' where
    s': "enqueue_io_ccmd (cq_of i s) p s = Some s'" "completes (cq_of i s) (sq_head (sqs s ! i)) r s s'" "releases p s s'" by auto
  have fr: "post_frame s s'" using s'(2) by (simp add: completes_def)
  have th: "s'\<lparr>thrds := thrds s'\<rparr> = s'" by simp
  note fin = io_rest_completes [OF s s'(2), of "thrds s'", unfolded th]
  have "pools (minus_R p L) (minus_W p M) (minus_O p N) s'" using s'(3) p by (auto simp: releases_def)
  with fin s'(1,2) r post_frame_same(1,12) [OF fr] show ?thesis
    by (intro exI [of _ s']) (auto simp: completes_def slot_of_def qs_step_def)
qed

section \<open>Taking a request\<close>

text \<open>State \<open>a\<close> is \<open>s\<close> with request \<open>p\<close>, set up for command \<open>c\<close> of queue \<open>i\<close>, taken from its pool.\<close>

definition taken :: "geo \<Rightarrow> nat \<Rightarrow> nat \<Rightarrow> nat set \<Rightarrow> NvmeSCmd \<Rightarrow> 'a isp_st_scheme \<Rightarrow> obj_ptr \<Rightarrow> 'a isp_st_scheme \<Rightarrow> bool" where
  "taken g k i N c s p a \<longleftrightarrow> io_rest g k i a \<and> (\<exists>L M N'. pools L M N' a \<and> in_use p L M N' \<and> minus_R p L = {} \<and> minus_W p M = {} \<and> minus_O p N' = N) \<and>
     (\<exists>r. get_req p a = Some r \<and> sqid r = of_nat i \<and> cid (scmd r) = cid c \<and> status r = 0) \<and>
     lview g a = lview g s \<and> pop_ready a = pop_ready s \<and> sqs a = sqs s \<and> cqs a = cqs s \<and> host a = host s \<and> queues a = queues s \<and> thrds a = thrds s \<and>
     ssd_config a = ssd_config s"

text \<open>What is observed when such a request is completed at once with status 0: a completion and nothing else.\<close>

definition only_completion :: "nat \<Rightarrow> NvmeSCmd \<Rightarrow> 'a isp_st_scheme \<Rightarrow> 'a isp_st_scheme \<Rightarrow> bool" where
  "only_completion i c s s' \<longleftrightarrow> (\<forall>x. x < slot_of i s \<or> slot_of i s + 16 \<le> x \<longrightarrow> host_mem (host s') x = host_mem (host s) x) \<and>
     (\<exists>dw0. ccmd_for (sq_head (sqs s ! i)) (cq_phase (cqs s ! cq_of i s)) (cid c, 0, dw0, of_nat i) (load_ccmd (host_mem (host s')) (slot_of i s))) \<and>
     host_irqs (host s') = host_irqs (host s) @ (if cq_irq_enabled (cqs s ! cq_of i s) \<noteq> 0 then [cq_vector (cqs s ! cq_of i s)] else []) \<and>
     cq_tail (cqs s' ! cq_of i s) = cq_tail (inc_cq_tail (cqs s ! cq_of i s)) \<and> sqs s' = sqs s \<and> (\<forall>q. q \<noteq> SYNC_DMA_Q \<longrightarrow> queues s' ! q = queues s ! q)"

lemma taken_completes:
  fixes s :: "'a isp_st_scheme"
  assumes t: "taken g k i N c s p a" and room: "cq_room (cqs s ! cq_of i s) \<noteq> 0"
  shows "\<exists>s'. enqueue_io_ccmd (cq_of i s) p a = Some s' \<and> io_rest g k i s' \<and> pools {} {} N s' \<and> lview g s' = lview g s \<and>
     pop_ready s' = pop_ready s \<and> thrds s' = thrds s \<and> only_completion i c s s'"
proof -
  from t obtain r L M N' where r: "get_req p a = Some r" "sqid r = of_nat i" "cid (scmd r) = cid c" "status r = 0"
    and p: "pools L M N' a" "in_use p L M N'" "minus_R p L = {}" "minus_W p M = {}" "minus_O p N' = N" and rest: "io_rest g k i a" by (auto simp: taken_def)
  have same: "cq_of i a = cq_of i s" "slot_of i a = slot_of i s" "cqs a = cqs s" "sqs a = sqs s" "host a = host s" "queues a = queues s" "thrds a = thrds s" "lview g a = lview g s"
    "pop_ready a = pop_ready s"
    using t by (simp_all add: taken_def cq_of_def slot_of_def)
  have "cq_room (cqs a ! cq_of i a) \<noteq> 0" using room by (simp add: same)
  from complete_at_once [OF rest this r p(1,2), unfolded p(3-5) same] show ?thesis unfolding only_completion_def by blast
qed

lemma taken_intro:
  fixes s :: "'a isp_st_scheme"
  assumes s: "io_rest g k i s" and a: "a = s\<lparr>free_r_req_objs := q1, r_req := R, free_w_req_objs := q2, w_req := W, free_req_objs := q3, other_req_alloc := Q\<rparr>"
    and p: "pools L M N' a" "in_use p L M N'" "minus_R p L = {}" "minus_W p M = {}" "minus_O p N' = N"
    and r: "get_req p a = Some r" "sqid r = of_nat i" "cid (scmd r) = cid c" "status r = 0"
  shows "taken g k i N c s p a"
proof -
  have "ftl_inv g k a" using s ftl_inv_cong [of a s g k] by (simp add: io_rest_def a)
  moreover have "pools_len a" using p(1) by (auto simp: pools_def pools_len_def dest: pool_view_len)
  then have "drv_ok a" using s by (simp add: io_rest_def drv_ok_def a)
  moreover have "cq_of i a = cq_of i s" by (simp add: cq_of_def a)
  ultimately have "io_rest g k i a" using s by (simp add: io_rest_def rop_ready_def sq_live_def cq_quiet_def layout_ok_def a)
  moreover have "lview g a = lview g s" by (rule lview_cong) (simp_all add: a)
  ultimately show ?thesis using p r unfolding taken_def
    by (intro conjI exI [of _ L] exI [of _ M] exI [of _ N'] exI [of _ r]) (simp_all add: a pop_ready_def)
qed

lemma taken_verify: "taken g k i N c s p a \<Longrightarrow> verify_rw_param d a = verify_rw_param d s"
  unfolding verify_rw_param_def by (simp add: taken_def)

lemma io_rest_ids:
  fixes s :: "'a isp_st_scheme"
  assumes "io_rest g k i s"
  shows "unat (of_nat i :: u32) = i" "cq_of i s < length (cqs s)" "ucast (cq_cqid (cqs s ! cq_of i s)) = (of_nat (cq_of i s) :: u32)"
    "unat (of_nat (cq_of i s) :: u32) = cq_of i s"
proof -
  have cq: "unat (cq_cqid (cqs s ! cq_of i s)) = cq_of i s" using assms by (simp add: io_rest_def cq_quiet_def)
  show "unat (of_nat i :: u32) = i" "cq_of i s < length (cqs s)" using assms by (auto simp: io_rest_def sq_live_def cq_quiet_def unat_of_nat)
  from cq show id: "ucast (cq_cqid (cqs s ! cq_of i s)) = (of_nat (cq_of i s) :: u32)" by (metis of_nat_unat)
  show "unat (of_nat (cq_of i s) :: u32) = cq_of i s" unfolding id [symmetric] unat_up using cq .
qed

lemma nonempty_pool: "({} :: nat set) \<noteq> {..<255}"
  by (metis empty_iff lessThan_iff zero_less_numeral)

lemma take_read:
  fixes s :: "'a isp_st_scheme"
  assumes s: "io_rest g k i s" "pools {} {} N s"
  shows "\<exists>p a. start_rw READ_IO_REQUEST (of_nat i) e c s = Some (p, of_nat (cq_of i s), a) \<and> taken g k i N c s p a"
proof -
  note i = io_rest_ids [OF s(1)]
  have v: "pool_view R_REQ R_SIZE (\<lambda>r. rq_type r = READ_IO_REQUEST) (free_r_req_objs s) (r_req s) {}" using s(2) by (simp add: pools_def)
  from pool_view_take [OF v] nonempty_pool obtain x fq where
    x: "deQueue (free_r_req_objs s) = (Some (R_REQ x), fq)" "x < 255" "req_like (\<lambda>r. rq_type r = READ_IO_REQUEST) (r_req s ! x)"
      "\<And>r. req_stage r \<noteq> REQ_STAGE_FREE \<Longrightarrow> req_like (\<lambda>r. rq_type r = READ_IO_REQUEST) r \<Longrightarrow>
         pool_view R_REQ 256 (\<lambda>r. rq_type r = READ_IO_REQUEST) fq ((r_req s)[x := r]) {x}" by auto
  have len: "length (r_req s) = 256" using pool_view_len [OF v] by simp
  let ?r = "(r_req s ! x)\<lparr>req_stage := REQ_STAGE_INUSE, status := 0, sqid := of_nat i, cqid := of_nat (cq_of i s), sqe := e, scmd := io_cp (scmd (r_req s ! x)) c\<rparr>"
  define a where "a = s\<lparr>free_r_req_objs := fq, r_req := (r_req s)[x := ?r]\<rparr>"
  have "start_rw READ_IO_REQUEST (of_nat i) e c s = Some (R_REQ x, of_nat (cq_of i s), a)"
    using x(1,2) i len by (simp add: start_rw_def sys_malloc_req_obj_def upd_req_def Let_def cq_of_def [symmetric] a_def)
  moreover have "taken g k i N c s (R_REQ x) a"
  proof (rule taken_intro [OF s(1)])
    show "a = s\<lparr>free_r_req_objs := free_r_req_objs a, r_req := r_req a, free_w_req_objs := free_w_req_objs a, w_req := w_req a,
      free_req_objs := free_req_objs a, other_req_alloc := other_req_alloc a\<rparr>" by (simp add: a_def)
    show "pools {x} {} N a" using s(2) x(3) x(4) [of ?r] by (simp add: pools_def req_like_def a_def)
    show "get_req (R_REQ x) a = Some ?r" using x(2) len by (simp add: get_req_def a_def)
  qed (simp_all add: in_use_def pool_ptr_defs)
  ultimately show ?thesis by blast
qed

lemma take_write:
  fixes s :: "'a isp_st_scheme"
  assumes s: "io_rest g k i s" "pools {} {} N s"
  shows "\<exists>p a. start_rw WRITE_IO_REQUEST (of_nat i) e c s = Some (p, of_nat (cq_of i s), a) \<and> taken g k i N c s p a"
proof -
  note i = io_rest_ids [OF s(1)]
  have v: "pool_view W_REQ W_SIZE (\<lambda>r. rq_type r = WRITE_IO_REQUEST) (free_w_req_objs s) (w_req s) {}" using s(2) by (simp add: pools_def)
  from pool_view_take [OF v] nonempty_pool obtain x fq where
    x: "deQueue (free_w_req_objs s) = (Some (W_REQ x), fq)" "x < 255" "req_like (\<lambda>r. rq_type r = WRITE_IO_REQUEST) (w_req s ! x)"
      "\<And>r. req_stage r \<noteq> REQ_STAGE_FREE \<Longrightarrow> req_like (\<lambda>r. rq_type r = WRITE_IO_REQUEST) r \<Longrightarrow>
         pool_view W_REQ 256 (\<lambda>r. rq_type r = WRITE_IO_REQUEST) fq ((w_req s)[x := r]) {x}" by auto
  have len: "length (w_req s) = 256" using pool_view_len [OF v] by simp
  let ?r = "(w_req s ! x)\<lparr>req_stage := REQ_STAGE_INUSE, status := 0, sqid := of_nat i, cqid := of_nat (cq_of i s), sqe := e, scmd := io_cp (scmd (w_req s ! x)) c\<rparr>"
  define a where "a = s\<lparr>free_w_req_objs := fq, w_req := (w_req s)[x := ?r]\<rparr>"
  have "start_rw WRITE_IO_REQUEST (of_nat i) e c s = Some (W_REQ x, of_nat (cq_of i s), a)"
    using x(1,2) i len by (simp add: start_rw_def sys_malloc_req_obj_def upd_req_def Let_def cq_of_def [symmetric] a_def)
  moreover have "taken g k i N c s (W_REQ x) a"
  proof (rule taken_intro [OF s(1)])
    show "a = s\<lparr>free_r_req_objs := free_r_req_objs a, r_req := r_req a, free_w_req_objs := free_w_req_objs a, w_req := w_req a,
      free_req_objs := free_req_objs a, other_req_alloc := other_req_alloc a\<rparr>" by (simp add: a_def)
    show "pools {} {x} N a" using s(2) x(3) x(4) [of ?r] by (simp add: pools_def req_like_def a_def)
    show "get_req (W_REQ x) a = Some ?r" using x(2) len by (simp add: get_req_def a_def)
  qed (simp_all add: in_use_def pool_ptr_defs)
  ultimately show ?thesis by blast
qed

section \<open>Rejected reads and writes, flushes, unknown commands\<close>

lemma reject_flow:
  fixes s :: "'a isp_st_scheme"
  assumes s: "io_rest g k i s" "pools {} {} N s" and room: "cq_room (cqs s ! cq_of i s) \<noteq> 0"
    and c: "opcode c = NVME_OPC_READ \<or> opcode c = NVME_OPC_WRITE" "verify_rw_param c s = - 1"
  shows "\<exists>s'. io_dispatch g (of_nat i) e c s = Some s' \<and> io_rest g k i s' \<and> pools {} {} N s' \<and> lview g s' = lview g s \<and>
     pop_ready s' = pop_ready s \<and> thrds s' = thrds s \<and> only_completion i c s s'"
proof -
  have "\<exists>p a. io_dispatch g (of_nat i) e c s = enqueue_io_ccmd (cq_of i s) p a \<and> taken g k i N c s p a"
  proof (cases "opcode c = NVME_OPC_READ")
    case True
    from take_read [OF s, of e c] obtain p a where t: "start_rw READ_IO_REQUEST (of_nat i) e c s = Some (p, of_nat (cq_of i s), a)" "taken g k i N c s p a" by blast
    have "verify_rw_param c a = - 1" using c(2) taken_verify [OF t(2)] by simp
    with t True show ?thesis by (intro exI [of _ p] exI [of _ a]) (simp add: io_dispatch_def process_read_io_def io_rest_ids [OF s(1)])
  next
    case False
    from take_write [OF s, of e c] obtain p a where t: "start_rw WRITE_IO_REQUEST (of_nat i) e c s = Some (p, of_nat (cq_of i s), a)" "taken g k i N c s p a" by blast
    have "verify_rw_param c a = - 1" using c(2) taken_verify [OF t(2)] by simp
    with t False c(1) show ?thesis by (intro exI [of _ p] exI [of _ a]) (simp add: io_dispatch_def process_write_io_def io_rest_ids [OF s(1)])
  qed
  with taken_completes [OF _ room] show ?thesis by metis
qed

lemma flush_flow:
  fixes s :: "'a isp_st_scheme"
  assumes s: "io_rest g k i s" "pools {} {} N s" "N \<noteq> {..<O_SIZE - 1}" and room: "cq_room (cqs s ! cq_of i s) \<noteq> 0" and c: "opcode c = NVME_OPC_FLUSH"
  shows "\<exists>s'. io_dispatch g (of_nat i) e c s = Some (poll_again s') \<and> io_rest g k i s' \<and> pools {} {} N s' \<and> lview g s' = lview g s \<and>
     pop_ready s' = pop_ready s \<and> only_completion i c s s'"
proof -
  note i = io_rest_ids [OF s(1)]
  have v: "pool_view O_REQ O_SIZE other_typed (free_req_objs s) (other_req_alloc s) N" using s(2) by (simp add: pools_def)
  from pool_view_take [OF v _ s(3)] obtain x fq where
    x: "deQueue (free_req_objs s) = (Some (O_REQ x), fq)" "x < 127" "x \<notin> N" "req_like other_typed (other_req_alloc s ! x)"
      "\<And>r. req_stage r \<noteq> REQ_STAGE_FREE \<Longrightarrow> req_like other_typed r \<Longrightarrow> pool_view O_REQ 128 other_typed fq ((other_req_alloc s)[x := r]) (insert x N)" by auto
  have len: "length (other_req_alloc s) = 128" using pool_view_len [OF v] by simp
  let ?o = "other_req_alloc s ! x"
  let ?r = "?o\<lparr>rq_type := FLUSH_IO_REQUEST, req_stage := REQ_STAGE_INUSE, status := 0, sqid := of_nat i, cqid := of_nat (cq_of i s), sqe := e,
    scmd := (scmd ?o)\<lparr>opcode := opcode c, fuse := fuse c, cid := cid c, nsid := nsid c\<rparr>\<rparr>"
  define a where "a = s\<lparr>free_req_objs := fq, other_req_alloc := (other_req_alloc s)[x := ?r]\<rparr>"
  have t: "taken g k i N c s (O_REQ x) a"
  proof (rule taken_intro [OF s(1)])
    show "a = s\<lparr>free_r_req_objs := free_r_req_objs a, r_req := r_req a, free_w_req_objs := free_w_req_objs a, w_req := w_req a,
      free_req_objs := free_req_objs a, other_req_alloc := other_req_alloc a\<rparr>" by (simp add: a_def)
    show "pools {} {} (insert x N) a" using s(2) x(4) x(5) [of ?r] by (simp add: pools_def req_like_def other_typed_def a_def)
    show "get_req (O_REQ x) a = Some ?r" using x(2) len by (simp add: get_req_def a_def)
  qed (use x(3) in \<open>simp_all add: in_use_def pool_ptr_defs\<close>)
  from taken_completes [OF t room] obtain s' where
    s': "enqueue_io_ccmd (cq_of i s) (O_REQ x) a = Some s'" "io_rest g k i s'" "pools {} {} N s'" "lview g s' = lview g s" "pop_ready s' = pop_ready s" "only_completion i c s s'" by blast
  have "io_dispatch g (of_nat i) e c s = process_flush_io (of_nat i) e c s" using c by (simp add: io_dispatch_def NVME_OPC_FLUSH_def NVME_OPC_READ_def NVME_OPC_WRITE_def)
  also have "\<dots> = Some (poll_again s')"
    using x(1,2) i len s'(1) by (simp add: process_flush_io_def sys_malloc_req_obj_def upd_req_def Let_def cq_of_def [symmetric] a_def c)
  finally show ?thesis using s' by blast
qed

section \<open>Properties\<close>

lemma io_cmd_fetched:
  fixes s :: "'a isp_st_scheme"
  assumes s: "io_rest g k i s" "pools {} {} N s"
  shows "\<exists>a. process_io_cmd g i s = io_dispatch g (of_nat i) (sq_head (sqs s ! i)) (next_cmd i s) a \<and> io_rest g k i a \<and> pools {} {} N a \<and>
     cqs a = cqs s \<and> cq_of i a = cq_of i s \<and> host_mem (host a) = host_mem (host s) \<and> host_irqs (host a) = host_irqs (host s) \<and> lview g a = lview g s \<and>
     sqs a = (sqs s)[i := advance (sqs s ! i)] \<and> pop_ready a = pop_ready s \<and> thrds a = thrds s \<and> ssd_config a = ssd_config s"
proof -
  have r: "io_ready g k i s" "drv_ok s" using s by (auto simp: io_ready_def io_rest_def)
  from process_io_cmd_fetch [OF r(2) io_ready_sq [OF s(1)], of g] obtain m h d qs where
    p: "process_io_cmd g i s = io_dispatch g (of_nat i) (sq_head (sqs s ! i)) (next_cmd i s)
       (s\<lparr>ram := m, host := h, sync_dma := d, queues := qs, sqs := (sqs s)[i := advance (sqs s ! i)]\<rparr>)" "fetch_frame s i m h qs" by blast
  define a where "a = s\<lparr>ram := m, host := h, sync_dma := d, queues := qs, sqs := (sqs s)[i := advance (sqs s ! i)]\<rparr>"
  note A = io_ready_fetch [OF r(1) p(2), where d = d, folded a_def]
  have "pools {} {} N a" using s(2) by (simp add: pools_def a_def)
  with A p(1) [folded a_def] show ?thesis by (intro exI [of _ a]) (simp add: io_ready_def a_def)
qed

lemma only_completion_of:
  assumes "only_completion i c a s'" "cqs a = cqs s" "cq_of i a = cq_of i s" "host_mem (host a) = host_mem (host s)" "host_irqs (host a) = host_irqs (host s)"
    "sqs a = (sqs s)[i := advance (sqs s ! i)]" "i < length (sqs s)"
  shows "completion_of i c 0 s s' \<and> (\<forall>x. x < slot_of i s \<or> slot_of i s + 16 \<le> x \<longrightarrow> host_mem (host s') x = host_mem (host s) x)"
proof -
  have slot: "slot_of i a = slot_of i s" by (simp add: slot_of_def assms(2,3))
  have "sqs a ! i = advance (sqs s ! i)" using assms(6,7) by simp
  then show ?thesis using assms(1) by (simp add: only_completion_def completion_of_def Let_def slot assms(2-6)) (simp add: slot_of_def)
qed

text \<open>
  C31. A read or write the parameter check rejects (wrong namespace, pages behind the end, too long): nothing is
  transferred and no logical page changes, but the host is told success, status 0; the driver is ready again,
  only it does not schedule its next look at the doorbells.
\<close>

theorem rejected_rw_reports_success:
  fixes s :: "'a isp_st_scheme"
  assumes "io_rest g k i s" "pools {} {} N s" "cq_room (cqs s ! cq_of i s) \<noteq> 0" "c = next_cmd i s"
    and "opcode c = NVME_OPC_READ \<or> opcode c = NVME_OPC_WRITE" "verify_rw_param c s = - 1"
  shows "\<exists>s'. process_io_cmd g i s = Some s' \<and> io_rest g k i s' \<and> pools {} {} N s' \<and> completion_of i c 0 s s' \<and> lview g s' = lview g s \<and>
     (\<forall>x. x < slot_of i s \<or> slot_of i s + 16 \<le> x \<longrightarrow> host_mem (host s') x = host_mem (host s) x) \<and> thrds s' = thrds s"
proof -
  from io_cmd_fetched [OF assms(1,2)] obtain a where
    a: "process_io_cmd g i s = io_dispatch g (of_nat i) (sq_head (sqs s ! i)) c a" "io_rest g k i a" "pools {} {} N a"
      "cqs a = cqs s" "cq_of i a = cq_of i s" "host_mem (host a) = host_mem (host s)" "host_irqs (host a) = host_irqs (host s)" "lview g a = lview g s"
      "sqs a = (sqs s)[i := advance (sqs s ! i)]" "thrds a = thrds s" "ssd_config a = ssd_config s" unfolding assms(4) by blast
  have "cq_room (cqs a ! cq_of i a) \<noteq> 0" using assms(3) by (simp add: a)
  moreover have "verify_rw_param c a = verify_rw_param c s" unfolding verify_rw_param_def a(11) ..
  ultimately obtain s' where
    s': "io_dispatch g (of_nat i) (sq_head (sqs s ! i)) c a = Some s'" "io_rest g k i s'" "pools {} {} N s'" "lview g s' = lview g a" "thrds s' = thrds a" "only_completion i c a s'"
    using reject_flow [OF a(2,3), of c "sq_head (sqs s ! i)"] assms(5,6) by auto
  have "i < length (sqs s)" using assms(1) by (simp add: io_rest_def sq_live_def)
  from only_completion_of [OF s'(6) a(4-7,9) this] s' a(1,8,10) show ?thesis by (intro exI [of _ s']) simp
qed

text \<open>
  C33. A flush command is completed with status 0 as soon as it is read; it starts no work in the translation layer,
  and the logical pages, the messages to the other threads and the write-back cache stay as they are.
\<close>

theorem flush_completes_at_once:
  fixes s :: "'a isp_st_scheme"
  assumes "io_rest g k i s" "pools {} {} N s" "N \<noteq> {..<O_SIZE - 1}" "cq_room (cqs s ! cq_of i s) \<noteq> 0" "c = next_cmd i s" "opcode c = NVME_OPC_FLUSH"
  shows "\<exists>s'. process_io_cmd g i s = Some s' \<and> io_rest g k i s' \<and> pools {} {} N s' \<and> completion_of i c 0 s s' \<and> lview g s' = lview g s \<and>
     (\<forall>x. x < slot_of i s \<or> slot_of i s + 16 \<le> x \<longrightarrow> host_mem (host s') x = host_mem (host s) x)"
proof -
  from io_cmd_fetched [OF assms(1,2)] obtain a where
    a: "process_io_cmd g i s = io_dispatch g (of_nat i) (sq_head (sqs s ! i)) c a" "io_rest g k i a" "pools {} {} N a"
      "cqs a = cqs s" "cq_of i a = cq_of i s" "host_mem (host a) = host_mem (host s)" "host_irqs (host a) = host_irqs (host s)" "lview g a = lview g s"
      "sqs a = (sqs s)[i := advance (sqs s ! i)]" unfolding assms(5) by blast
  have "cq_room (cqs a ! cq_of i a) \<noteq> 0" using assms(4) by (simp add: a)
  from flush_flow [OF a(2,3) assms(3) this assms(6)] obtain t where
    t: "io_dispatch g (of_nat i) (sq_head (sqs s ! i)) c a = Some (poll_again t)" "io_rest g k i t" "pools {} {} N t" "lview g t = lview g a" "only_completion i c a t" by blast
  obtain T where T: "poll_again t = t\<lparr>thrds := T\<rparr>" using poll_again_thrds by blast
  have i: "i < length (sqs s)" using assms(1) by (simp add: io_rest_def sq_live_def)
  have "only_completion i c a (poll_again t)" using t(5) by (simp add: T only_completion_def)
  moreover have "io_rest g k i (poll_again t) \<and> lview g (poll_again t) = lview g t \<and> pools {} {} N (poll_again t)"
    using t(2,3) by (simp add: T io_rest_poll)
  ultimately show ?thesis using only_completion_of [OF _ a(4-7,9) i, of c "poll_again t"] t(1,4) a(1,8) by (intro exI [of _ "poll_again t"]) simp
qed

text \<open>
  C32. A command with an opcode the driver does not know is fetched and dropped: the firmware is ready again, but host
  memory is unchanged, so the host never sees a completion for it.
\<close>

theorem unknown_command_never_completes:
  fixes s :: "'a isp_st_scheme"
  assumes "io_rest g k i s" "pools {} {} N s" and "opcode (next_cmd i s) \<notin> {NVME_OPC_READ, NVME_OPC_WRITE, NVME_OPC_FLUSH, ISP_IO_OPCODE, ISP_DATA_TX_OPCODE, ISP_CTRL_OPCODE}"
  shows "\<exists>s'. process_io_cmd g i s = Some s' \<and> io_rest g k i s' \<and> pools {} {} N s' \<and> host_mem (host s') = host_mem (host s) \<and> host_irqs (host s') = host_irqs (host s) \<and>
     sqs s' = (sqs s)[i := advance (sqs s ! i)] \<and> cqs s' = cqs s"
proof -
  from io_cmd_fetched [OF assms(1,2)] obtain a where
    a: "process_io_cmd g i s = io_dispatch g (of_nat i) (sq_head (sqs s ! i)) (next_cmd i s) a" "io_rest g k i a" "pools {} {} N a"
      "cqs a = cqs s" "host_mem (host a) = host_mem (host s)" "host_irqs (host a) = host_irqs (host s)" "sqs a = (sqs s)[i := advance (sqs s ! i)]" by blast
  obtain T where T: "poll_again a = a\<lparr>thrds := T\<rparr>" using poll_again_thrds by blast
  have "process_io_cmd g i s = Some (poll_again a)" using a(1) assms(3) by (simp add: io_dispatch_def unknown_io_cmd_def)
  then show ?thesis using a by (intro exI [of _ "poll_again a"]) (simp add: T io_rest_poll)
qed

section \<open>Witnesses\<close>

text \<open>A read behind the end of the namespace, a flush and a command with opcode 9 on the small device.\<close>

lemma demo_device:
  "\<exists>s :: isp_st. io_rest tiny_geo 0 1 s \<and> pools {} {} {} s \<and> next_cmd 1 s = c \<and> cq_room (cqs s ! cq_of 1 s) \<noteq> 0 \<and> nsze (ssd_config s) = 6"
proof -
  from ready_device [of "store_scmd (\<lambda>_. 9) 0x1000 c"] obtain s :: isp_st where
    s: "io_ready tiny_geo 0 1 s" "host s = host_image (store_scmd (\<lambda>_. 9) 0x1000 c)" "sqs s = [zero_sq, demo_sq]"
      "cqs s = [demo_cq\<lparr>cq_cqid := 0\<rparr>, demo_cq]" "nsze (ssd_config s) = 6" "pools {} {} {} s" by blast
  have q: "cq_of 1 s = 1" by (simp add: cq_of_def s(3) demo_sq_def)
  have "cq_room (cqs s ! cq_of 1 s) \<noteq> 0" unfolding q s(4) by (simp add: demo_room)
  with s demo_next [OF s(3,2)] show ?thesis by (auto simp: io_ready_def)
qed

theorem rejected_rw_reports_success_witness:
  "\<exists>s s' :: isp_st. \<exists>c. next_cmd 1 s = c \<and> io_slba c = 7 \<and> nsze (ssd_config s) = 6 \<and> process_io_cmd tiny_geo 1 s = Some s' \<and> completion_of 1 c 0 s s'"
proof -
  let ?c = "demo_read\<lparr>cdw10 := 7\<rparr>"
  from demo_device [of ?c] obtain s :: isp_st where
    s: "io_rest tiny_geo 0 1 s" "pools {} {} {} s" "next_cmd 1 s = ?c" "cq_room (cqs s ! cq_of 1 s) \<noteq> 0" "nsze (ssd_config s) = 6" by blast
  have f: "io_slba ?c = 7" "io_nlbs ?c = 0" "opcode ?c = NVME_OPC_READ" "nsid ?c = 1"
    by (simp_all add: demo_read_def zero_scmd_def io_nlbs_def io_slba_def lo16_def)
  have "verify_rw_param ?c s = - 1" using s(5) by (simp add: verify_rw_param_def f NUM_NS_def)
  with rejected_rw_reports_success [OF s(1,2,4) s(3) [symmetric]] f s(3,5) show ?thesis by blast
qed

theorem flush_completes_at_once_witness:
  "\<exists>s s' :: isp_st. \<exists>c. opcode c = NVME_OPC_FLUSH \<and> process_io_cmd tiny_geo 1 s = Some s' \<and> completion_of 1 c 0 s s'"
proof -
  let ?c = "demo_read\<lparr>opcode := NVME_OPC_FLUSH\<rparr>"
  from demo_device [of ?c] obtain s :: isp_st where
    s: "io_rest tiny_geo 0 1 s" "pools {} {} {} s" "next_cmd 1 s = ?c" "cq_room (cqs s ! cq_of 1 s) \<noteq> 0" by blast
  have "(0 :: nat) \<in> {..<O_SIZE - 1}" by simp
  then have "({} :: nat set) \<noteq> {..<O_SIZE - 1}" by blast
  from flush_completes_at_once [OF s(1,2) this s(4) s(3) [symmetric]] obtain s' where
    "process_io_cmd tiny_geo 1 s = Some s'" "completion_of 1 ?c 0 s s'" by auto
  then show ?thesis by (intro exI [of _ s] exI [of _ s'] exI [of _ ?c]) simp
qed

theorem unknown_command_never_completes_witness:
  "\<exists>s s' :: isp_st. opcode (next_cmd 1 s) = 9 \<and> process_io_cmd tiny_geo 1 s = Some s' \<and> host_mem (host s') = host_mem (host s)"
proof -
  from demo_device [of "demo_read\<lparr>opcode := 9\<rparr>"] obtain s :: isp_st where
    s: "io_rest tiny_geo 0 1 s" "pools {} {} {} s" "next_cmd 1 s = demo_read\<lparr>opcode := 9\<rparr>" by blast
  then have o9: "opcode (next_cmd 1 s) = 9" by simp
  then have "opcode (next_cmd 1 s) \<notin> {NVME_OPC_READ, NVME_OPC_WRITE, NVME_OPC_FLUSH, ISP_IO_OPCODE, ISP_DATA_TX_OPCODE, ISP_CTRL_OPCODE}"
    by (simp add: NVME_OPC_READ_def NVME_OPC_WRITE_def NVME_OPC_FLUSH_def ISP_IO_OPCODE_def ISP_DATA_TX_OPCODE_def ISP_CTRL_OPCODE_def)
  from unknown_command_never_completes [OF s(1,2) this] o9 show ?thesis by blast
qed

end
