(* ===== verification/Admin_Claims.thy ===== *)
theory Admin_Claims
  imports Cmd_Errors
begin

text \<open>
  Admin commands from their doorbell to their completion: the creation of submission queues and commands the
  driver does not implement.
\<close>

unbundle bit_operations_syntax

section \<open>One admin command\<close>

text \<open>The admin queues can take a command; \<open>N\<close> are the request objects of the third pool that are in use.\<close>

definition adm_ready :: "nat set \<Rightarrow> 'a nvme_st_scheme \<Rightarrow> bool" where
  "adm_ready N s \<longleftrightarrow> drv_ok s \<and> cq_quiet 0 s \<and> ccmd_buf s + 16 \<le> 2 ^ 32 \<and> sq_live 0 s \<and> (\<exists>L M. pools L M N s) \<and> N \<noteq> {..<O_SIZE - 1}"

lemma adm_ready_free: "adm_ready N s \<Longrightarrow> cq_room (cqs s ! 0) \<noteq> 0 \<Longrightarrow> cq_free 0 s"
  by (auto simp: adm_ready_def cq_free_def cq_quiet_def)

lemma adm_ready_sq: "adm_ready N s \<Longrightarrow> sq_ready 0 s"
  by (auto simp: adm_ready_def sq_live_def sq_ready_def word_less_nat_alt)

text \<open>A completion with status \<open>st\<close> for command \<open>c\<close>, and host memory unchanged elsewhere.\<close>

definition admin_done :: "NvmeSCmd \<Rightarrow> u16 \<Rightarrow> 'a nvme_st_scheme \<Rightarrow> 'a nvme_st_scheme \<Rightarrow> bool" where
  "admin_done c st s s' \<longleftrightarrow> (let cq = cqs s ! 0 in
     (\<exists>dw0 q. ccmd_for (sq_head (advance (sqs s ! 0))) (cq_phase cq) (cid c, st, dw0, q) (load_ccmd (host_mem (host s')) (cq_slot cq 0))) \<and>
     (\<forall>x. x < cq_slot cq 0 \<or> cq_slot cq 0 + 16 \<le> x \<longrightarrow> host_mem (host s') x = host_mem (host s) x) \<and>
     host_irqs (host s') = host_irqs (host s) @ (if cq_irq_enabled cq \<noteq> 0 then [cq_vector cq] else []) \<and>
     cq_tail (cqs s' ! 0) = cq_tail (inc_cq_tail cq) \<and> sqs s' ! 0 = advance (sqs s ! 0))"

text \<open>The state in which the handler of a command runs: request \<open>p\<close> holds command \<open>c\<close>.\<close>

definition admin_taken :: "NvmeSCmd \<Rightarrow> nat set \<Rightarrow> 'a nvme_st_scheme \<Rightarrow> obj_ptr \<Rightarrow> 'a nvme_st_scheme \<Rightarrow> bool" where
  "admin_taken c N s p a \<longleftrightarrow> drv_ok a \<and> cq_quiet 0 a \<and> ccmd_buf a + 16 \<le> 2 ^ 32 \<and> sq_live 0 a \<and> N \<noteq> {..<O_SIZE - 1} \<and> 0 < length (sqs s) \<and> cqs a = cqs s \<and> sqs a = (sqs s)[0 := advance (sqs s ! 0)] \<and>
     host_mem (host a) = host_mem (host s) \<and> host_irqs (host a) = host_irqs (host s) \<and> iosqCount a = iosqCount s \<and> iocqCount a = iocqCount s \<and> scmd_buf a = scmd_buf s \<and>
     (\<exists>r t. get_req p a = Some r \<and> status r = 0 \<and> scmd r = admin_cp t c) \<and>
     (\<exists>L M N'. pools L M N' a \<and> in_use p L M N' \<and> minus_O p N' = N)"

lemma admin_fetched:
  fixes s :: "'a isp_st_scheme"
  assumes "adm_ready N s"
  shows "\<exists>p a. process_admin_cmd g call_init s = admin_dispatch g call_init (opcode (next_cmd 0 s)) p a \<and> admin_taken (next_cmd 0 s) N s p a"
proof -
  let ?c = "next_cmd 0 s"
  from assms obtain L M where s: "cq_quiet 0 s" "sq_live 0 s" "pools L M N s" "N \<noteq> {..<O_SIZE - 1}" and d: "drv_ok s" "ccmd_buf s + 16 \<le> 2 ^ 32"
    by (auto simp: adm_ready_def)
  have sr: "sq_ready 0 s" "0 < length (sqs s)" using adm_ready_sq [OF assms] by (simp_all add: sq_ready_def)
  have v: "pool_view O_REQ O_SIZE other_typed (free_req_objs s) (other_req_alloc s) N" using s(3) by (simp add: pools_def)
  from pool_view_take [OF v _ s(4)] obtain x fq where
    x: "deQueue (free_req_objs s) = (Some (O_REQ x), fq)" "x < O_SIZE - 1" "x \<notin> N" "req_like other_typed (other_req_alloc s ! x)"
      "\<And>r. req_stage r \<noteq> REQ_STAGE_FREE \<Longrightarrow> req_like other_typed r \<Longrightarrow> pool_view O_REQ O_SIZE other_typed fq ((other_req_alloc s)[x := r]) (insert x N)" by auto
  let ?r = "(other_req_alloc s ! x)\<lparr>rq_type := ADMIN_REQUEST, req_stage := REQ_STAGE_INUSE,
            status := 0, ccmd_dw0 := 0, scmd_entry := sq_head (sqs s ! 0), scmd := admin_cp (scmd (other_req_alloc s ! x)) ?c\<rparr>"
  from process_admin_cmd_fetch [OF d(1) sr(1) x(1), of g call_init] x(2) obtain m h sd qs where
    p: "process_admin_cmd g call_init s = admin_dispatch g call_init (opcode ?c) (O_REQ x)
       (s\<lparr>free_req_objs := fq, ram := m, host := h, sync_dma := sd, queues := qs, other_req_alloc := (other_req_alloc s)[x := ?r],
          sqs := (sqs s)[0 := advance (sqs s ! 0)]\<rparr>)" "fetch_frame s 0 m h qs" by auto
  define a where "a = s\<lparr>free_req_objs := fq, ram := m, host := h, sync_dma := sd, queues := qs, other_req_alloc := (other_req_alloc s)[x := ?r],
          sqs := (sqs s)[0 := advance (sqs s ! 0)]\<rparr>"
  have f: "qs_step (queues s) qs" "link_frame (host s) h" "host_mem h = host_mem (host s)" "host_irqs h = host_irqs (host s)"
    using p(2) by (simp_all add: fetch_frame_def)
  have len: "length (other_req_alloc s) = O_SIZE" using pool_view_len [OF v] .
  have "drv_ok a" using d(1) f(1,2) by (auto simp: drv_ok_def a_def pools_len_def qs_step_def link_frame_def dma_q_ok_def link_ok_def)
  moreover have "cq_quiet 0 a" using s(1) by (simp add: cq_quiet_def a_def)
  moreover have "sq_live 0 a" using advance_live [OF s(2)] s(2) sr(2) by (simp add: sq_live_def a_def)
  moreover have "pools L M (insert x N) a" using s(3) x(4) x(5) [of ?r]
    by (simp add: pools_def a_def req_like_def other_typed_def other_req_type_def)
  moreover have "get_req (O_REQ x) a = Some ?r" using x(2) len by (simp add: get_req_def a_def)
  ultimately have "admin_taken ?c N s (O_REQ x) a" using s(4) sr(2) x(3) f d(2)
    unfolding admin_taken_def by (intro conjI exI [of _ ?r] exI [of _ "scmd (other_req_alloc s ! x)"] exI [of _ L] exI [of _ M] exI [of _ "insert x N"])
      (simp_all add: a_def pool_ptr_defs)
  with p(1) [folded a_def] show ?thesis by blast
qed

lemma pools_keep:
  assumes "pools L M N s" "in_use p L M N" and f: "\<And>r. rq_type (f r) = rq_type r" "\<And>r. req_stage (f r) = req_stage r" "\<And>r. dma (f r) = dma r"
  shows "pools L M N (upd_req p f s)"
proof -
  have r: "req_like ty (objs ! i) \<and> i < n - 1 \<and> req_stage (objs ! i) \<noteq> REQ_STAGE_FREE" if "pool_view C n ty q objs X" "i \<in> X" for C n ty q objs X i
    using that by (auto simp: pool_view_def req_like_def)
  from assms(1,2) show ?thesis
    unfolding pools_def in_use_def
    by (cases p; simp add: upd_req_def)
      (intro pool_view_upd; insert r; fastforce simp: req_like_def other_typed_def f)+
qed

lemma upd_req_admin [simp]: "scmd_buf (upd_req p f s) = scmd_buf s" "iosqCount (upd_req p f s) = iosqCount s"
  by (simp_all add: upd_req_def split: obj_ptr.split)

text \<open>The end of a handler: request \<open>p\<close> has status \<open>st\<close> and the admin queues are as they were.\<close>

lemma admin_completes:
  fixes s :: "'a isp_st_scheme"
  assumes t: "admin_taken c N s p a" and room: "cq_room (cqs s ! 0) \<noteq> 0"
    and b: "drv_ok b" "cq_quiet 0 b" "cqs b ! 0 = cqs a ! 0" "sq_live 0 b" "sqs b ! 0 = sqs a ! 0" "host_mem (host b) = host_mem (host a)"
      "host_irqs (host b) = host_irqs (host a)" "ccmd_buf b = ccmd_buf a"
    and r: "get_req p b = Some r" "cid (scmd r) = cid c" "status r = st"
    and p: "pools L M N' b" "in_use p L M N'" "minus_O p N' = N"
  shows "\<exists>s'. enqueue_admin_ccmd p b = Some s' \<and> admin_done c st s s' \<and> adm_ready N s' \<and> post_frame b s' \<and> length (cqs s') = length (cqs b) \<and>
    (\<forall>j. j \<noteq> 0 \<longrightarrow> cqs s' ! j = cqs b ! j)"
proof -
  have a: "cqs a = cqs s" "sqs a = (sqs s)[0 := advance (sqs s ! 0)]" "host_mem (host a) = host_mem (host s)" "host_irqs (host a) = host_irqs (host s)"
    "ccmd_buf a + 16 \<le> 2 ^ 32" "N \<noteq> {..<O_SIZE - 1}" "0 < length (sqs s)" using t by (simp_all add: admin_taken_def)
  have "cq_free 0 b" using b a room by (simp add: cq_free_def cq_quiet_def)
  moreover have "0 < length (sqs b)" using b(4) by (auto simp: sq_live_def)
  ultimately obtain s' where
    s': "enqueue_admin_ccmd p b = Some s'" "completes 0 (sq_head (sqs b ! 0)) r b s'" "releases p b s'" using enqueue_admin_one [OF _ r(1)] by blast
  have fr: "post_frame b s'" using s'(2) by (simp add: completes_def)
  note same = post_frame_same [OF fr]
  have "pools (minus_R p L) (minus_W p M) N s'" using s'(3) p by (auto simp: releases_def)
  moreover have "cq_quiet 0 s'" using s'(2) b(2) by (simp add: completes_def cq_quiet_def)
  moreover have "sq_live 0 s'" using b(4) by (simp add: sq_live_def same)
  ultimately have "adm_ready N s'" using s'(2) a(5,6) b(8) by (auto simp: adm_ready_def completes_def same)
  moreover have "admin_done c st s s'"
    using s'(2) r b(3,5,6,7) a unfolding admin_done_def Let_def completes_def by (auto simp: same)
  ultimately show ?thesis using s'(1,2) fr by (intro exI [of _ s']) (simp add: completes_def)
qed

section \<open>Properties\<close>

text \<open>
  C34. Creating a submission queue: the command is completed with status 0; the queue with the identifier of the
  command gets its size, base address and completion queue, is empty, and can take commands of the host; all other
  queues, and host memory outside of the completion entry, are as before.
\<close>

theorem create_sq_establishes_queue:
  fixes s :: "'a isp_st_scheme"
  assumes "adm_ready N s" "cq_room (cqs s ! 0) \<noteq> 0" "c = next_cmd 0 s" "opcode c = NVME_OPC_CREATE_IO_SQ"
    "i = unat (csq_sqid c)" "i \<noteq> 0" "i < length (sqs s)" "scmd_buf s + 64 * (unat (csq_size c) + 1) < 2 ^ 32"
  shows "\<exists>s'. process_admin_cmd g call_init s = Some s' \<and> admin_done c 0 s s' \<and> adm_ready N s' \<and>
    sqs s' = (sqs s)[0 := advance (sqs s ! 0), i := (sqs s ! i)\<lparr>sq_sqid := csq_sqid c, sq_size := ucast (csq_size c) + 1, sq_cqid := csq_cqid c,
      sq_hostAddr := prp1 c, sq_head := 0, sq_tail := 0, sq_tailBDReg := DB_REG (AdminDBTail_OFFSET + i * 8)\<rparr>] \<and>
    sq_live i s' \<and> iosqCount s' = iosqCount s + 1 \<and> (\<forall>j. j \<noteq> 0 \<longrightarrow> cqs s' ! j = cqs s ! j)"
proof -
  from admin_fetched [OF assms(1), of g call_init] obtain p a where
    a: "process_admin_cmd g call_init s = admin_dispatch g call_init (opcode c) p a" "admin_taken c N s p a" unfolding assms(3) by blast
  from a(2) obtain r t L M N' where r: "get_req p a = Some r" "status r = 0" "scmd r = admin_cp t c" and
    p: "pools L M N' a" "in_use p L M N'" "minus_O p N' = N" and q: "drv_ok a" "cq_quiet 0 a" "sq_live 0 a" "cqs a = cqs s"
      "sqs a = (sqs s)[0 := advance (sqs s ! 0)]" "iosqCount a = iosqCount s" "scmd_buf a = scmd_buf s" "0 < length (sqs s)" unfolding admin_taken_def by blast
  let ?q = "(sqs s ! i)\<lparr>sq_sqid := csq_sqid c, sq_size := ucast (csq_size c) + 1, sq_cqid := csq_cqid c,
      sq_hostAddr := prp1 c, sq_head := 0, sq_tail := 0, sq_tailBDReg := DB_REG (AdminDBTail_OFFSET + i * 8)\<rparr>"
  define b where "b = a\<lparr>sqs := (sqs a)[i := ?q], iosqCount := iosqCount a + 1\<rparr>"
  have f: "csq_sqid (scmd r) = csq_sqid c" "csq_size (scmd r) = csq_size c" "csq_cqid (scmd r) = csq_cqid c" "prp1 (scmd r) = prp1 c" "cid (scmd r) = cid c"
    by (simp_all add: r(3) admin_cp_def csq_sqid_def csq_size_def csq_cqid_def)
  have e: "process_admin_cmd g call_init s = enqueue_admin_ccmd p b"
    using assms(4-7) r(1) by (simp add: a(1) admin_dispatch_def nvme_create_sq_def f b_def q(5) set_sq_def Let_def
      NVME_OPC_CREATE_IO_SQ_def NVME_OPC_IDENTIFY_def NVME_OPC_SET_FEATURES_def NVME_OPC_GET_FEATURES_def)
  have b0: "sqs b ! 0 = sqs a ! 0" "length (sqs b) = length (sqs a)" "scmd_buf b = scmd_buf a" using assms(6) by (simp_all add: b_def)
  have b: "drv_ok b" "cq_quiet 0 b" "cqs b = cqs a" "sq_live 0 b" "host b = host a" "ccmd_buf b = ccmd_buf a" "pools L M N' b"
    using q(1-3) p(1) unfolding sq_live_def b0 by (simp_all add: b_def drv_ok_def pools_len_def cq_quiet_def pools_def)
  have rb: "get_req p b = Some r" using r(1) by (cases p) (simp_all add: get_req_def b_def split: if_splits)
  from admin_completes [OF a(2) assms(2) b(1,2) _ b(4) b0(1) _ _ b(6) rb f(5) r(2) b(7) p(2,3)] b(3,5) obtain s' where
    s': "enqueue_admin_ccmd p b = Some s'" "admin_done c 0 s s'" "adm_ready N s'" "post_frame b s'" "\<forall>j. j \<noteq> 0 \<longrightarrow> cqs s' ! j = cqs b ! j" by auto
  have "unat (csq_size c) < 2 ^ 16" using unsigned_less [of "csq_size c"] by simp
  then have sz: "unat (ucast (csq_size c) + 1 :: u32) = unat (csq_size c) + 1" by (simp add: unat_word_ariths unat_up)
  then have "(0 :: u32) < ucast (csq_size c) + 1" by (simp add: word_less_nat_alt)
  moreover have "length (sqs s) \<le> 2 ^ 16" "scmd_buf b = scmd_buf s" using q(3,5,7) by (simp_all add: sq_live_def b_def)
  ultimately have "sq_live i s'" using assms(7,8) sz by (simp add: sq_live_def post_frame_same [OF s'(4)] b_def q(5))
  with e s' show ?thesis by (intro exI [of _ s']) (simp add: post_frame_same [OF s'(4)] b_def q)
qed

text \<open>
  An admin command with an opcode the driver does not implement is completed with the status "invalid opcode"
  and the do-not-retry bit of the driver; host memory changes in the completion entry only, and the admin
  queues can take the next command.
\<close>

theorem unknown_admin_command_rejected:
  fixes s :: "'a isp_st_scheme"
  assumes "adm_ready N s" "cq_room (cqs s ! 0) \<noteq> 0" "c = next_cmd 0 s"
    "opcode c \<notin> {NVME_OPC_IDENTIFY, NVME_OPC_SET_FEATURES, NVME_OPC_GET_FEATURES, NVME_OPC_CREATE_IO_SQ, NVME_OPC_CREATE_IO_CQ, NVME_OPC_DELETE_IO_SQ,
       NVME_OPC_DELETE_IO_CQ, NVME_OPC_FIRMWARE_IMAGE_DOWNLOAD, NVME_OPC_FIRMWARE_ACTIVATE, NVME_OPC_ABORT}"
  shows "\<exists>s'. process_admin_cmd g call_init s = Some s' \<and> admin_done c (NVME_SC_INVALID_OPCODE OR NVME_SC_DNR) s s' \<and> adm_ready N s' \<and>
    (\<forall>j. j \<noteq> 0 \<longrightarrow> cqs s' ! j = cqs s ! j)"
proof -
  let ?st = "NVME_SC_INVALID_OPCODE OR NVME_SC_DNR"
  let ?f = "\<lambda>r. r\<lparr>status := ?st\<rparr>"
  from admin_fetched [OF assms(1), of g call_init] obtain p a where
    a: "process_admin_cmd g call_init s = admin_dispatch g call_init (opcode c) p a" "admin_taken c N s p a" unfolding assms(3) by blast
  from a(2) obtain r t L M N' where r: "get_req p a = Some r" "scmd r = admin_cp t c" and
    p: "pools L M N' a" "in_use p L M N'" "minus_O p N' = N" and q: "drv_ok a" "cq_quiet 0 a" "sq_live 0 a" "cqs a = cqs s" unfolding admin_taken_def by blast
  let ?b = "upd_req p ?f a"
  have "pools_len a" using q(1) by (simp add: drv_ok_def)
  from get_upd_req [OF this r(1), of ?f] have g: "get_req p ?b = Some (?f r)" .
  have pb: "pools L M N' ?b" by (rule pools_keep [OF p(1,2)]) simp_all
  have "process_admin_cmd g call_init s = enqueue_admin_ccmd p ?b" using a(1) assms(4) by (simp add: admin_dispatch_def nvme_unimplemented_cmd_def)
  with admin_completes [OF a(2) assms(2) _ _ _ _ _ _ _ _ g _ _ pb p(2,3)] q r(2) show ?thesis
    by (auto simp: drv_ok_upd_req cq_quiet_def sq_live_def admin_cp_def)
qed

section \<open>Witnesses\<close>

lemma admin_device:
  "\<exists>s :: isp_st. adm_ready {} s \<and> next_cmd 0 s = c \<and> cq_room (cqs s ! 0) \<noteq> 0 \<and> length (sqs s) = 2 \<and> scmd_buf s + 512 < 2 ^ 32"
proof -
  from ready_device [of "store_scmd (\<lambda>_. 9) 0x1000 c"] obtain s :: isp_st where
    s: "io_ready tiny_geo 0 1 s" "host s = host_image (store_scmd (\<lambda>_. 9) 0x1000 c)" "sqs s = [zero_sq, demo_sq]"
      "cqs s = [demo_cq\<lparr>cq_cqid := 0\<rparr>, demo_cq]" "pools {} {} {} s" by blast
  let ?s = "s\<lparr>sqs := [demo_sq, zero_sq]\<rparr>"
  have r: "drv_ok s" "sq_live 1 s" "layout_ok tiny_geo s" using s(1) by (simp_all add: io_ready_def io_rest_def)
  have "drv_ok ?s" using r(1) by (simp add: drv_ok_def pools_len_def)
  moreover have "cq_quiet 0 ?s" by (simp add: cq_quiet_def s(4) demo_cq_def zero_cq_def cq_ok_def INTERNAL_IO_REQ_QUEUE_def)
  moreover have "scmd_buf s + 512 < 2 ^ 32" using r(2) by (simp add: sq_live_def s(3) demo_sq_def zero_sq_def)
  moreover from this have "sq_live 0 ?s" by (simp add: sq_live_def demo_sq_def zero_sq_def)
  moreover have "ccmd_buf ?s + 16 \<le> 2 ^ 32" using r(3) by (simp add: layout_ok_def)
  moreover have "pools {} {} {} ?s" using s(5) by (simp add: pools_def)
  moreover have "({} :: nat set) \<noteq> {..<O_SIZE - 1}" by (subst eq_commute) (simp add: O_SIZE_def lessThan_empty_iff)
  ultimately have "adm_ready {} ?s" unfolding adm_ready_def by blast
  moreover have "next_cmd 0 ?s = c" using s(2) by (simp add: next_cmd_def sq_entry_def demo_sq_def zero_sq_def link_ok_image load_scmd_store)
  moreover have "cq_room (cqs ?s ! 0) \<noteq> 0" using demo_room(1) by (simp add: s(4) cq_room_def)
  ultimately show ?thesis using \<open>scmd_buf s + 512 < 2 ^ 32\<close> by (intro exI [of _ ?s]) simp
qed

text \<open>Queue 1 with eight entries at address 0x3000, reporting to completion queue 1.\<close>

definition demo_create :: NvmeSCmd where
  "demo_create = zero_scmd\<lparr>opcode := NVME_OPC_CREATE_IO_SQ, cid := 5, prp1 := 0x3000, cdw10 := 0x70001, cdw11 := 0x10001\<rparr>"

theorem create_sq_establishes_queue_witness:
  "\<exists>s s' :: isp_st. process_admin_cmd tiny_geo (\<lambda>_ s. Some (0, s)) s = Some s' \<and> admin_done demo_create 0 s s' \<and> sq_live 1 s' \<and>
     sq_hostAddr (sqs s' ! 1) = 0x3000 \<and> sq_size (sqs s' ! 1) = 8"
proof -
  from admin_device [of demo_create] obtain s :: isp_st where
    s: "adm_ready {} s" "next_cmd 0 s = demo_create" "cq_room (cqs s ! 0) \<noteq> 0" "length (sqs s) = 2" "scmd_buf s + 512 < 2 ^ 32" by blast
  have c: "opcode demo_create = NVME_OPC_CREATE_IO_SQ" "csq_sqid demo_create = 1" "csq_size demo_create = 7" "prp1 demo_create = 0x3000"
    by (simp_all add: demo_create_def zero_scmd_def csq_sqid_def csq_size_def lo16_def hi16_def drop_bit_eq_div)
  from create_sq_establishes_queue [OF s(1,3) s(2) [symmetric] c(1) refl, of tiny_geo "\<lambda>_ s. Some (0, s)"] s(4,5) obtain s' where
    s': "process_admin_cmd tiny_geo (\<lambda>_ s. Some (0, s)) s = Some s'" "admin_done demo_create 0 s s'" "sq_live 1 s'"
      "sqs s' ! 1 = (sqs s ! 1)\<lparr>sq_sqid := 1, sq_size := 8, sq_cqid := csq_cqid demo_create,
        sq_hostAddr := 0x3000, sq_head := 0, sq_tail := 0, sq_tailBDReg := DB_REG (AdminDBTail_OFFSET + 1 * 8)\<rparr>" by (auto simp: c)
  then show ?thesis by (intro exI [of _ s] exI [of _ s']) simp
qed

theorem unknown_admin_command_rejected_witness:
  "\<exists>s s' :: isp_st. \<exists>c. opcode c = 0x7f \<and> process_admin_cmd tiny_geo (\<lambda>_ s. Some (0, s)) s = Some s' \<and> admin_done c 0x4001 s s'"
proof -
  let ?c = "demo_create\<lparr>opcode := 0x7f\<rparr>"
  from admin_device [of ?c] obtain s :: isp_st where s: "adm_ready {} s" "next_cmd 0 s = ?c" "cq_room (cqs s ! 0) \<noteq> 0" by blast
  have "opcode ?c \<notin> {NVME_OPC_IDENTIFY, NVME_OPC_SET_FEATURES, NVME_OPC_GET_FEATURES, NVME_OPC_CREATE_IO_SQ, NVME_OPC_CREATE_IO_CQ, NVME_OPC_DELETE_IO_SQ,
       NVME_OPC_DELETE_IO_CQ, NVME_OPC_FIRMWARE_IMAGE_DOWNLOAD, NVME_OPC_FIRMWARE_ACTIVATE, NVME_OPC_ABORT}"
    by (simp add: NVME_OPC_IDENTIFY_def NVME_OPC_SET_FEATURES_def NVME_OPC_GET_FEATURES_def NVME_OPC_CREATE_IO_SQ_def NVME_OPC_CREATE_IO_CQ_def
        NVME_OPC_DELETE_IO_SQ_def NVME_OPC_DELETE_IO_CQ_def NVME_OPC_FIRMWARE_IMAGE_DOWNLOAD_def NVME_OPC_FIRMWARE_ACTIVATE_def NVME_OPC_ABORT_def)
  from unknown_admin_command_rejected [OF s(1,3) s(2) [symmetric] this, of tiny_geo "\<lambda>_ s. Some (0, s)"] obtain s' where
    s': "process_admin_cmd tiny_geo (\<lambda>_ s. Some (0, s)) s = Some s'" "admin_done ?c (NVME_SC_INVALID_OPCODE OR NVME_SC_DNR) s s'" by blast
  have "NVME_SC_INVALID_OPCODE OR NVME_SC_DNR = 0x4001" by (simp add: NVME_SC_INVALID_OPCODE_def NVME_SC_DNR_def)
  with s' show ?thesis by (intro exI [of _ s] exI [of _ s'] exI [of _ ?c]) simp
qed

end
