(* ===== verification/Cmd_Live.thy ===== *)
theory Cmd_Live
  imports Cmd_Claims
begin

text \<open>
  A host that never stops: every turn it acknowledges the last completion with a doorbell, writes a read
  command, and rings the doorbell of the submission queue. Every command of the endless run is completed.
\<close>

unbundle bit_operations_syntax

section \<open>A turn of the host\<close>

definition host_rings :: "doorbell \<Rightarrow> 'a host_st_scheme \<Rightarrow> 'a host_st_scheme" where
  "host_rings d s = s\<lparr>host := (host s)\<lparr>db_queue := ring d (db_queue (host s))\<rparr>\<rparr>"

text \<open>The host has seen all completions of the queue of \<open>i\<close>; the driver polls the doorbell.\<close>

definition acknowledge ::
  "geo \<Rightarrow> (nat \<Rightarrow> 'a isp_st_scheme \<Rightarrow> (u32 \<times> 'a isp_st_scheme) option) \<Rightarrow> nat \<Rightarrow> 'a isp_st_scheme \<Rightarrow> 'a isp_st_scheme option" where
  "acknowledge g call_init i s =
     check_door_bell g call_init (host_rings (CQ_head (cq_of i s) (ucast (cq_tail (cqs s ! cq_of i s)))) s)"

text \<open>The host rings for one more command; the driver and the translation layer run.\<close>

definition submit ::
  "geo \<Rightarrow> (nat \<Rightarrow> 'a isp_st_scheme \<Rightarrow> (u32 \<times> 'a isp_st_scheme) option) \<Rightarrow> nat \<Rightarrow> 'a isp_st_scheme \<Rightarrow> 'a isp_st_scheme option" where
  "submit g call_init i s =
     do {
       s1 \<leftarrow> check_door_bell g call_init (host_rings (SQ_tail i (ucast (sq_head (advance (sqs s ! i))))) s);
       s2 \<leftarrow> serve FTL_MODULE_IN_Q (process_req_cbk g) s1;
       serve FTL_MODULE_OUT_Q (completed_req_cbk g) s2
     }"

text \<open>The contents \<open>hst\<close> the host gives its memory depend on what it has seen.\<close>

definition turn ::
  "geo \<Rightarrow> (nat \<Rightarrow> 'a isp_st_scheme \<Rightarrow> (u32 \<times> 'a isp_st_scheme) option) \<Rightarrow> nat \<Rightarrow> ('a isp_st_scheme \<Rightarrow> mem) \<Rightarrow> 'a isp_st_scheme \<Rightarrow> 'a isp_st_scheme option" where
  "turn g call_init i hst s = do { s1 \<leftarrow> acknowledge g call_init i s; submit g call_init i (host_writes (hst s1) s1) }"

primrec turns ::
  "geo \<Rightarrow> (nat \<Rightarrow> 'a isp_st_scheme \<Rightarrow> (u32 \<times> 'a isp_st_scheme) option) \<Rightarrow> nat \<Rightarrow> ('a isp_st_scheme \<Rightarrow> mem) \<Rightarrow> nat \<Rightarrow> 'a isp_st_scheme \<Rightarrow> 'a isp_st_scheme option" where
  "turns g call_init i hst 0 s = Some s"
| "turns g call_init i hst (Suc n) s = do { s1 \<leftarrow> turns g call_init i hst n s; turn g call_init i hst s1 }"

section \<open>Between two turns\<close>

definition db_idle :: "'a host_st_scheme \<Rightarrow> bool" where
  "db_idle s \<longleftrightarrow> dbq_inv (db_queue (host s)) \<and> dbq_items (db_queue (host s)) = []"

definition cqs_idle :: "'a nvme_st_scheme \<Rightarrow> bool" where
  "cqs_idle s \<longleftrightarrow> unat (iocqCount s) < length (cqs s) \<and>
     (\<forall>j. 1 \<le> j \<and> j \<le> unat (iocqCount s) \<longrightarrow> pend_head (cqs s ! j) = pend_tail (cqs s ! j))"

text \<open>The set-up of queue pair \<open>i\<close> and the contents of the device are those of \<open>s0\<close>.\<close>

definition same_setup :: "geo \<Rightarrow> nat \<Rightarrow> 'a nvme_st_scheme \<Rightarrow> 'a nvme_st_scheme \<Rightarrow> bool" where
  "same_setup g i s0 s \<longleftrightarrow> hostMemPageSize s = hostMemPageSize s0 \<and> ssd_config s = ssd_config s0 \<and> sq_hostAddr (sqs s ! i) = sq_hostAddr (sqs s0 ! i) \<and>
     sq_size (sqs s ! i) = sq_size (sqs s0 ! i) \<and> cq_of i s = cq_of i s0 \<and> cq_size (cqs s ! cq_of i s0) = cq_size (cqs s0 ! cq_of i s0) \<and>
     cq_hostAddr (cqs s ! cq_of i s0) = cq_hostAddr (cqs s0 ! cq_of i s0) \<and> lview g s = lview g s0"

definition turn_ok :: "geo \<Rightarrow> nat \<Rightarrow> nat \<Rightarrow> 'a nvme_st_scheme \<Rightarrow> 'a nvme_st_scheme \<Rightarrow> bool" where
  "turn_ok g k i s0 s \<longleftrightarrow> io_ready g k i s \<and> db_idle s \<and> cqs_idle s \<and> same_setup g i s0 s"

text \<open>The host obeys the protocol: its next command is a read within the namespace whose pages lie apart from the completion entry.\<close>

definition polite :: "geo \<Rightarrow> nat \<Rightarrow> nat \<Rightarrow> ('a isp_st_scheme \<Rightarrow> mem) \<Rightarrow> 'a isp_st_scheme \<Rightarrow> bool" where
  "polite g k i hst s0 \<longleftrightarrow> (\<forall>s. turn_ok g k i s0 s \<longrightarrow> (let p = host_writes (hst s) s; c = next_cmd i p in
     opcode c = NVME_OPC_READ \<and> rw_legal g c p \<and> host_apart (rw_pieces g c p) (slot_of i p)))"

lemma read_doorbell:
  assumes "dbq_inv (db_queue h)" "dbq_items (db_queue h) = []"
  shows "\<exists>q. host_read_reg 8 (h\<lparr>db_queue := ring d (db_queue h)\<rparr>) = (dbu_raw (db_update d), h\<lparr>db_queue := q\<rparr>) \<and> dbq_inv q \<and> dbq_items q = []"
proof -
  have r: "dbq_inv (ring d (db_queue h))" "dbq_items (ring d (db_queue h)) = [db_update d]"
    using ring_items [OF assms(1), of d] assms(2) by (simp_all add: dbUpdateQueueSize_def)
  obtain o' q where d: "deQueueDBUpdate (ring d (db_queue h)) = (o', q)" by fastforce
  from r(2) have "db_head (ring d (db_queue h)) \<noteq> db_tail (ring d (db_queue h))" by (auto simp: dbq_items_def ring_list_def ring_len_def)
  with d have "o' \<noteq> None" by (auto simp: deQueueDBUpdate_def)
  with dbq.deq_cases [OF r(1) d] r(2) have "o' = Some (db_update d) \<and> dbq_inv q \<and> dbq_items q = []" by (cases o') auto
  with d show ?thesis by (auto simp: host_read_reg_def)
qed

lemma post_all_idle:
  "i + n \<le> length (cqs s) \<Longrightarrow> (\<And>j. i \<le> j \<Longrightarrow> j < i + n \<Longrightarrow> pend_head (cqs s ! j) = pend_tail (cqs s ! j)) \<Longrightarrow> post_all i n s = Some s"
proof (induction n arbitrary: i)
  case (Suc n)
  have "post_io_ccmds i s = Some s" using Suc.prems by (subst post_io_ccmds.simps) (simp add: Let_def)
  with Suc show ?case by simp
qed simp

lemma post_io_queues_idle: "cqs_idle s \<Longrightarrow> post_io_queues s = Some s"
  unfolding post_io_queues_def by (rule post_all_idle) (auto simp: cqs_idle_def)

section \<open>The doorbells\<close>

lemma ack_ok:
  fixes s :: "'a isp_st_scheme"
  assumes s: "io_ready g k i s" "db_idle s" "cqs_idle s" and ci: "cq_of i s < 256"
  shows "\<exists>q T. acknowledge g call_init i s = Some (s\<lparr>host := (host s)\<lparr>db_queue := q\<rparr>,
       cqs := (cqs s)[cq_of i s := (cqs s ! cq_of i s)\<lparr>cq_head := cq_tail (cqs s ! cq_of i s)\<rparr>], thrds := T\<rparr>) \<and> dbq_inv q \<and> dbq_items q = []"
proof -
  let ?ci = "cq_of i s"
  let ?cq = "cqs s ! ?ci"
  let ?v = "ucast (cq_tail ?cq) :: u16"
  from read_doorbell [of "host s" "CQ_head ?ci ?v"] s(2) obtain q where
    q: "host_read_reg 8 ((host s)\<lparr>db_queue := ring (CQ_head ?ci ?v) (db_queue (host s))\<rparr>) = (dbu_raw (db_update (CQ_head ?ci ?v)), (host s)\<lparr>db_queue := q\<rparr>)"
      "dbq_inv q" "dbq_items q = []" by (auto simp: db_idle_def)
  have cq: "cq_quiet ?ci s" using s(1) by (simp add: io_ready_def io_rest_def)
  then have "unat (cq_tail ?cq) < 2 ^ 16" by (auto simp: cq_quiet_def cq_ok_def word_less_nat_alt)
  then have v: "(ucast ?v :: u32) = cq_tail ?cq" by (intro word_unat_eq_iff [THEN iffD2]) (simp add: unsigned_ucast_eq take_bit_eq_mod unat_mod)
  have n: "unat (of_nat ?ci :: u8) = ?ci" using ci by (simp add: unat_of_nat)
  let ?s2 = "s\<lparr>host := (host s)\<lparr>db_queue := q\<rparr>, cqs := (cqs s)[?ci := ?cq\<lparr>cq_head := cq_tail ?cq\<rparr>]\<rparr>"
  have "pend_head ((cqs s)[?ci := ?cq\<lparr>cq_head := cq_tail ?cq\<rparr>] ! j) = pend_head (cqs s ! j) \<and> pend_tail ((cqs s)[?ci := ?cq\<lparr>cq_head := cq_tail ?cq\<rparr>] ! j) = pend_tail (cqs s ! j)" for j
    using cq by (cases "j = ?ci") (simp_all add: cq_quiet_def)
  then have "cqs_idle ?s2" using s(3) by (simp add: cqs_idle_def)
  then have p: "post_io_queues ?s2 = Some ?s2" by (rule post_io_queues_idle)
  obtain T where T: "poll_again ?s2 = ?s2\<lparr>thrds := T\<rparr>" using poll_again_thrds by blast
  have "acknowledge g call_init i s = Some (?s2\<lparr>thrds := T\<rparr>)"
    using q(1) cq p T by (simp add: acknowledge_def check_door_bell_def host_rings_def Let_def db_update_def isSQ_DB_def isCQ_DB_def
      cq_door_bell_def set_cq_def n v cq_quiet_def)
  with q(2,3) show ?thesis by (intro exI [of _ q] exI [of _ T]) simp
qed

lemma submit_ok:
  fixes s :: "'a isp_st_scheme"
  assumes s: "io_ready g k i s" "db_idle s" and i: "i \<noteq> 0" "i < 256"
  shows "\<exists>q v. submit g call_init i s = exec_cmd g i (s\<lparr>host := (host s)\<lparr>db_queue := q\<rparr>, sqs := (sqs s)[i := (sqs s ! i)\<lparr>sq_tail := v\<rparr>]\<rparr>) \<and>
     dbq_inv q \<and> dbq_items q = []"
proof -
  let ?v = "ucast (sq_head (advance (sqs s ! i))) :: u16"
  from read_doorbell [of "host s" "SQ_tail i ?v"] s(2) obtain q where
    q: "host_read_reg 8 ((host s)\<lparr>db_queue := ring (SQ_tail i ?v) (db_queue (host s))\<rparr>) = (dbu_raw (db_update (SQ_tail i ?v)), (host s)\<lparr>db_queue := q\<rparr>)"
      "dbq_inv q" "dbq_items q = []" by (auto simp: db_idle_def)
  have l: "i < length (sqs s)" using s(1) by (simp add: io_ready_def io_rest_def sq_live_def)
  have n: "unat (of_nat i :: u8) = i" using i(2) by (simp add: unat_of_nat)
  have "submit g call_init i s = exec_cmd g i (s\<lparr>host := (host s)\<lparr>db_queue := q\<rparr>, sqs := (sqs s)[i := (sqs s ! i)\<lparr>sq_tail := ucast ?v\<rparr>]\<rparr>)"
    using q(1) l i(1) by (simp add: submit_def exec_cmd_def check_door_bell_def host_rings_def Let_def db_update_def sq_door_bell_def set_sq_def n)
  with q(2,3) show ?thesis by blast
qed

section \<open>One turn\<close>

lemma turn_ok_ack:
  fixes s s0 :: "'a isp_st_scheme" and q T
  assumes s: "turn_ok g k i s0 s" and q: "dbq_inv q" "dbq_items q = []" and z: "2 \<le> unat (cq_size (cqs s0 ! cq_of i s0))"
  defines "a \<equiv> s\<lparr>host := (host s)\<lparr>db_queue := q\<rparr>, cqs := (cqs s)[cq_of i s := (cqs s ! cq_of i s)\<lparr>cq_head := cq_tail (cqs s ! cq_of i s)\<rparr>], thrds := T\<rparr>"
  shows "turn_ok g k i s0 a" "cq_room (cqs a ! cq_of i a) \<noteq> 0"
proof -
  let ?ci = "cq_of i s"
  have r: "io_rest g k i s" and rest: "cqs_idle s" "same_setup g i s0 s" using s by (simp_all add: turn_ok_def io_ready_def)
  have cq: "cq_quiet ?ci s" using r by (simp add: io_rest_def)
  then have ci: "?ci < length (cqs s)" by (simp add: cq_quiet_def)
  have cia: "cq_of i a = ?ci" by (simp add: cq_of_def a_def)
  have inv: "ftl_inv g k a = ftl_inv g k s" unfolding a_def by (rule ftl_inv_cong) simp_all
  have "cq_quiet ?ci a" using cq by (simp add: cq_quiet_def cq_ok_def a_def)
  moreover have "drv_ok a" using r by (simp add: io_rest_def drv_ok_def a_def link_ok_def pools_len_def)
  ultimately have "io_rest g k i a" using r unfolding io_rest_def inv cia by (simp add: a_def rop_ready_def sq_live_def layout_ok_def)
  moreover have "pools L M N a = pools L M N s" for L M N by (simp add: pools_def a_def)
  ultimately have ready: "io_ready g k i a" using s by (simp add: turn_ok_def io_ready_def)
  have p: "pend_head (cqs a ! j) = pend_head (cqs s ! j) \<and> pend_tail (cqs a ! j) = pend_tail (cqs s ! j)" for j
    using ci by (cases "j = ?ci") (simp_all add: a_def)
  have "cqs_idle a" using rest(1) p by (simp add: cqs_idle_def) (simp add: a_def)
  moreover have "lview g a = lview g s" unfolding a_def by (rule lview_cong) simp_all
  then have "same_setup g i s0 a" using rest(2) ci cia by (simp add: same_setup_def) (simp add: a_def)
  ultimately show "turn_ok g k i s0 a" using ready q by (simp add: turn_ok_def db_idle_def a_def)
  have sz: "unat (cq_size (cqs s ! ?ci)) = unat (cq_size (cqs s0 ! cq_of i s0))" using rest(2) by (simp add: same_setup_def)
  have t: "unat (cq_tail (cqs s ! ?ci)) < unat (cq_size (cqs s ! ?ci))" using cq by (simp add: cq_quiet_def cq_ok_def word_less_nat_alt)
  have "(unat (cq_tail (cqs s ! ?ci)) + unat (cq_size (cqs s ! ?ci)) - (unat (cq_tail (cqs s ! ?ci)) + 1)) = unat (cq_size (cqs s ! ?ci)) - 1" using t by simp
  moreover have "cqs a ! ?ci = (cqs s ! ?ci)\<lparr>cq_head := cq_tail (cqs s ! ?ci)\<rparr>" using ci by (simp add: a_def)
  ultimately show "cq_room (cqs a ! cq_of i a) \<noteq> 0" using z sz unfolding cia by (simp add: cq_room_def ring_len_def)
qed

lemma turn_ok_writes:
  fixes s s0 :: "'a isp_st_scheme"
  shows "turn_ok g k i s0 (host_writes hm s) = turn_ok g k i s0 s"
  by (simp add: turn_ok_def host_writes_ready db_idle_def cqs_idle_def same_setup_def) (simp add: host_writes_def)

text \<open>The ring of the submission queue's doorbell changes nothing the flow of a command depends on.\<close>

lemma turn_ok_rung:
  fixes s s0 :: "'a isp_st_scheme" and q v
  assumes "turn_ok g k i s0 s" "dbq_inv q" "dbq_items q = []"
  defines "a \<equiv> s\<lparr>host := (host s)\<lparr>db_queue := q\<rparr>, sqs := (sqs s)[i := (sqs s ! i)\<lparr>sq_tail := v\<rparr>]\<rparr>"
  shows "turn_ok g k i s0 a" "cq_of i a = cq_of i s" "cqs a = cqs s" "next_cmd i a = next_cmd i s" "slot_of i a = slot_of i s" "rw_legal g c a = rw_legal g c s"
    "rw_pieces g c a = rw_pieces g c s" "sq_head (advance (sqs a ! i)) = sq_head (advance (sqs s ! i))" "lview g a = lview g s" "host_mem (host a) = host_mem (host s)"
    "host_irqs (host a) = host_irqs (host s)"
proof -
  have r: "io_rest g k i s" and rest: "cqs_idle s" "same_setup g i s0 s" using assms(1) by (simp_all add: turn_ok_def io_ready_def)
  have i: "i < length (sqs s)" using r by (simp add: io_rest_def sq_live_def)
  show cia: "cq_of i a = cq_of i s" and "cqs a = cqs s" using i by (simp_all add: cq_of_def a_def)
  have inv: "ftl_inv g k a = ftl_inv g k s" unfolding a_def by (rule ftl_inv_cong) simp_all
  have "drv_ok a" using r by (simp add: io_rest_def drv_ok_def a_def link_ok_def pools_len_def)
  then have "io_rest g k i a" using r i unfolding io_rest_def inv cia by (simp add: a_def rop_ready_def sq_live_def layout_ok_def cq_quiet_def)
  moreover have "pools L M N a = pools L M N s" for L M N by (simp add: pools_def a_def)
  ultimately have ready: "io_ready g k i a" using assms(1) by (simp add: turn_ok_def io_ready_def)
  show l: "lview g a = lview g s" unfolding a_def by (rule lview_cong) simp_all
  have "cqs_idle a" using rest(1) by (simp add: cqs_idle_def a_def)
  moreover have "same_setup g i s0 a" using rest(2) i cia l by (simp add: same_setup_def) (simp add: a_def)
  ultimately show "turn_ok g k i s0 a" using ready assms(2,3) by (simp add: turn_ok_def db_idle_def a_def)
  show "next_cmd i a = next_cmd i s" "sq_head (advance (sqs a ! i)) = sq_head (advance (sqs s ! i))"
    using i by (simp_all add: next_cmd_def sq_entry_def advance_def a_def)
  show "slot_of i a = slot_of i s" unfolding slot_of_def cia by (simp add: a_def)
qed (simp_all add: a_def rw_legal_def rw_pieces_def)

text \<open>What the host sees of read \<open>c\<close>: its completion with the current phase, its interrupt, and the bytes of the device \<open>d\<close>.\<close>

definition read_served :: "geo \<Rightarrow> nat \<Rightarrow> NvmeSCmd \<Rightarrow> (nat \<Rightarrow> nat \<Rightarrow> u8) \<Rightarrow> 'a isp_st_scheme \<Rightarrow> 'a isp_st_scheme \<Rightarrow> bool" where
  "read_served g i c d p s' \<longleftrightarrow> (let cq = cqs p ! cq_of i p in
     (\<exists>dw0. ccmd_for (sq_head (advance (sqs p ! i))) (cq_phase cq) (cid c, 0, dw0, of_nat i) (load_ccmd (host_mem (host s')) (slot_of i p))) \<and>
     host_irqs (host s') = host_irqs (host p) @ (if cq_irq_enabled cq \<noteq> 0 then [cq_vector cq] else []) \<and>
     (\<forall>j < rw_bytes g c. host_mem (host s') (scatter (rw_pieces g c p) j) = d (unat (io_slba c) + j div HOST_PAGE_SIZE g) (j mod HOST_PAGE_SIZE g)))"

lemma turn_serves:
  fixes s s0 :: "'a isp_st_scheme"
  assumes g: "io_geo g" and s: "turn_ok g k i s0 s" and i: "i \<noteq> 0" "i < 256" "cq_of i s0 < 256" and z: "2 \<le> unat (cq_size (cqs s0 ! cq_of i s0))"
    and polite: "polite g k i hst s0"
  shows "\<exists>a s'. acknowledge g call_init i s = Some a \<and> turn g call_init i hst s = Some s' \<and> turn_ok g k i s0 a \<and> turn_ok g k i s0 s' \<and>
     (let p = host_writes (hst a) a in read_served g i (next_cmd i p) (lview g s0) p s')"
proof -
  have S: "io_ready g k i s" "db_idle s" "cqs_idle s" "cq_of i s = cq_of i s0" using s by (simp_all add: turn_ok_def same_setup_def)
  from ack_ok [OF S(1-3), of call_init] i(3) S(4) obtain q T where
    q: "acknowledge g call_init i s = Some (s\<lparr>host := (host s)\<lparr>db_queue := q\<rparr>,
       cqs := (cqs s)[cq_of i s := (cqs s ! cq_of i s)\<lparr>cq_head := cq_tail (cqs s ! cq_of i s)\<rparr>], thrds := T\<rparr>)" "dbq_inv q" "dbq_items q = []" by auto
  define a where "a = s\<lparr>host := (host s)\<lparr>db_queue := q\<rparr>,
       cqs := (cqs s)[cq_of i s := (cqs s ! cq_of i s)\<lparr>cq_head := cq_tail (cqs s ! cq_of i s)\<rparr>], thrds := T\<rparr>"
  note A = turn_ok_ack [OF s q(2,3) z, where T = T, folded a_def]
  define p where "p = host_writes (hst a) a"
  let ?c = "next_cmd i p"
  have c: "opcode ?c = NVME_OPC_READ" "rw_legal g ?c p" "host_apart (rw_pieces g ?c p) (slot_of i p)"
    using polite A(1) by (simp_all add: polite_def Let_def p_def)
  have P: "turn_ok g k i s0 p" "cq_room (cqs p ! cq_of i p) \<noteq> 0" using A by (simp_all add: p_def turn_ok_writes host_writes_ready)
  then have "io_ready g k i p" "db_idle p" by (simp_all add: turn_ok_def)
  from submit_ok [OF this i(1,2), of call_init] obtain q2 v where
    u: "submit g call_init i p = exec_cmd g i (p\<lparr>host := (host p)\<lparr>db_queue := q2\<rparr>, sqs := (sqs p)[i := (sqs p ! i)\<lparr>sq_tail := v\<rparr>]\<rparr>)" "dbq_inv q2" "dbq_items q2 = []" by blast
  define b where "b = p\<lparr>host := (host p)\<lparr>db_queue := q2\<rparr>, sqs := (sqs p)[i := (sqs p ! i)\<lparr>sq_tail := v\<rparr>]\<rparr>"
  note B = turn_ok_rung [OF P(1) u(2,3), where v = v, folded b_def]
  have ready: "io_ready g k i b" and same: "same_setup g i s0 b" "cqs_idle b" "db_idle b" using B(1) by (simp_all add: turn_ok_def)
  from exec_read [OF g ready, of ?c] c P(2) B obtain s' where
    e: "exec_cmd g i b = Some s'" "io_ready g k i s'" "completion_of i ?c 0 b s'" "flow_frame (cq_of i b) b s'" "lview g s' = lview g b"
      "\<forall>j < rw_bytes g ?c. host_mem (host s') (scatter (rw_pieces g ?c b) j) = lview g b (unat (io_slba ?c) + j div HOST_PAGE_SIZE g) (j mod HOST_PAGE_SIZE g)"
    by auto
  have sq: "sqs s' = (sqs b)[i := advance (sqs b ! i)]" "i < length (sqs b)" using e(3) ready by (simp_all add: completion_of_def Let_def io_ready_def io_rest_def sq_live_def)
  have ci: "cq_of i s' = cq_of i b" using sq by (simp add: cq_of_def advance_def)
  have qt: "cq_quiet (cq_of i b) s'" using e(2) by (simp add: io_ready_def io_rest_def ci)
  have "pend_head (cqs s' ! j) = pend_tail (cqs s' ! j)" if "1 \<le> j" "j \<le> unat (iocqCount b)" for j
    using same(2) that e(4) qt by (cases "j = cq_of i b") (simp_all add: flow_frame_def cqs_idle_def cq_quiet_def)
  then have "cqs_idle s'" using same(2) e(4) by (simp add: cqs_idle_def flow_frame_def)
  moreover have "db_idle s'" using same(3) e(4) by (simp add: db_idle_def flow_frame_def)
  moreover have "same_setup g i s0 s'" using same(1) e(4,5) ci sq by (simp add: same_setup_def flow_frame_def advance_def)
  ultimately have "turn_ok g k i s0 s'" using e(2) by (simp add: turn_ok_def)
  moreover have "turn g call_init i hst s = Some s'" using q(1) u(1) e(1) by (simp add: turn_def a_def p_def b_def)
  moreover have "read_served g i ?c (lview g s0) p s'"
    using e(3,6) B same(1) by (simp add: read_served_def completion_of_def Let_def slot_of_def same_setup_def)
  ultimately show ?thesis using q(1) A(1) by (intro exI [of _ a] exI [of _ s']) (simp add: a_def p_def)
qed

section \<open>Properties\<close>

text \<open>
  C4. No command is left unserved: however long a host goes on that acknowledges each completion, submits read
  commands that obey the protocol and rings the doorbells, every one of its commands is completed with status 0, with its interrupt,
  and with the contents of the device in its pages.
\<close>

theorem every_read_is_served:
  fixes s0 :: "'a isp_st_scheme"
  assumes "io_geo g" "turn_ok g k i s0 s0" "i \<noteq> 0" "i < 256" "cq_of i s0 < 256" "2 \<le> unat (cq_size (cqs s0 ! cq_of i s0))" "polite g k i hst s0"
  shows "\<forall>n. \<exists>s a s'. turns g call_init i hst n s0 = Some s \<and> acknowledge g call_init i s = Some a \<and> turn_ok g k i s0 a \<and>
     turns g call_init i hst (Suc n) s0 = Some s' \<and> turn_ok g k i s0 s' \<and> (let p = host_writes (hst a) a in read_served g i (next_cmd i p) (lview g s0) p s')"
proof
  fix n
  have "\<exists>s. turns g call_init i hst n s0 = Some s \<and> turn_ok g k i s0 s"
  proof (induction n)
    case 0
    show ?case using assms(2) by simp
  next
    case (Suc n)
    then obtain s where "turns g call_init i hst n s0 = Some s" "turn_ok g k i s0 s" by blast
    with turn_serves [OF assms(1) this(2) assms(3-7), of call_init] show ?case by auto
  qed
  then obtain s where s: "turns g call_init i hst n s0 = Some s" "turn_ok g k i s0 s" by blast
  from turn_serves [OF assms(1) s(2) assms(3-7), of call_init] s(1)
  show "\<exists>s a s'. turns g call_init i hst n s0 = Some s \<and> acknowledge g call_init i s = Some a \<and> turn_ok g k i s0 a \<and>
     turns g call_init i hst (Suc n) s0 = Some s' \<and> turn_ok g k i s0 s' \<and> (let p = host_writes (hst a) a in read_served g i (next_cmd i p) (lview g s0) p s')" by (auto simp: Let_def)
qed

section \<open>Witness\<close>

text \<open>The host submits the same read again and again.\<close>

definition again :: "'a isp_st_scheme \<Rightarrow> mem" where
  "again s = store_scmd (\<lambda>_. 9) (sq_entry (sqs s ! 1)) demo_read"

lemma again_polite:
  fixes s0 :: "'a isp_st_scheme"
  assumes "hostMemPageSize s0 = 4096" "nsze (ssd_config s0) = 6" "cq_of 1 s0 = 1" "cq_size (cqs s0 ! 1) = 8" "cq_hostAddr (cqs s0 ! 1) = 0x2000"
  shows "polite tiny_geo 0 1 again s0"
  unfolding polite_def Let_def
proof (intro allI impI)
  fix s :: "'a isp_st_scheme"
  assume s: "turn_ok tiny_geo 0 1 s0 s"
  let ?p = "host_writes (again s) s"
  have n: "next_cmd 1 ?p = demo_read" by (simp add: next_cmd_def host_writes_ready again_def load_scmd_store)
  have set: "hostMemPageSize ?p = 4096" "nsze (ssd_config ?p) = 6" "cq_of 1 ?p = 1" "cq_size (cqs ?p ! 1) = 8" "cq_hostAddr (cqs ?p ! 1) = 0x2000"
    using s assms by (simp_all add: turn_ok_def same_setup_def host_writes_ready) (simp_all add: host_writes_def)
  note l = demo_legal [OF set(1,2)]
  have "cq_entry (cqs ?p ! 1) 0 < 8" by (simp add: cq_entry_def set del: One_nat_def)
  then have "slot_of 1 ?p < 0x2080" by (simp add: slot_of_def cq_slot_def set del: One_nat_def)
  then have "host_apart (rw_pieces tiny_geo demo_read ?p) (slot_of 1 ?p)" by (auto simp: l(4) host_apart_def covers_def)
  then show "opcode (next_cmd 1 ?p) = NVME_OPC_READ \<and> rw_legal tiny_geo (next_cmd 1 ?p) ?p \<and> host_apart (rw_pieces tiny_geo (next_cmd 1 ?p) ?p) (slot_of 1 ?p)"
    using l(3) unfolding n by (simp add: demo_fields)
qed

theorem every_read_is_served_witness:
  "\<exists>s0 :: isp_st. \<forall>n. \<exists>s'. turns tiny_geo (\<lambda>_ s. Some (0, s)) 1 again (Suc n) s0 = Some s' \<and> host_mem (host s') 0x9005 = lview tiny_geo s0 2 5"
proof -
  from ready_device [of "\<lambda>_. 9"] obtain s :: isp_st where
    s: "io_ready tiny_geo 0 1 s" "host s = host_image (\<lambda>_. 9)" "sqs s = [zero_sq, demo_sq]"
      "cqs s = [demo_cq\<lparr>cq_cqid := 0\<rparr>, demo_cq]" "hostMemPageSize s = 4096" "nsze (ssd_config s) = 6" by blast
  let ?s = "s\<lparr>iocqCount := 1\<rparr>"
  have q: "cq_of 1 ?s = 1" by (simp add: cq_of_def s(3) demo_sq_def)
  have c: "cqs ?s ! 1 = demo_cq" "length (cqs ?s) = 2" by (simp_all add: s(4))
  have inv: "ftl_inv tiny_geo 0 ?s = ftl_inv tiny_geo 0 s" by (rule ftl_inv_cong) simp_all
  have "io_ready tiny_geo 0 1 ?s" using s(1)
    by (simp add: io_ready_def io_rest_def inv drv_ok_def pools_len_def rop_ready_def sq_live_def cq_quiet_def cq_of_def layout_ok_def pools_def)
  moreover have "db_idle ?s" using empty_dbq_ok [unfolded empty_dbq_def] by (simp add: db_idle_def s(2) host_image_def connect_shared_memory_def)
  moreover have "cqs_idle ?s" by (auto simp: cqs_idle_def s(4) demo_cq_def zero_cq_def le_Suc_eq)
  moreover have "same_setup tiny_geo 1 ?s ?s" by (simp add: same_setup_def)
  ultimately have ok: "turn_ok tiny_geo 0 1 ?s ?s" by (simp add: turn_ok_def)
  have "polite tiny_geo 0 1 again ?s" using s(5,6) q c by (intro again_polite) (simp_all add: demo_cq_def zero_cq_def)
  moreover have "2 \<le> unat (cq_size (cqs ?s ! cq_of 1 ?s))" unfolding q c by (simp add: demo_cq_def zero_cq_def)
  moreover have "cq_of 1 ?s < 256" "(1 :: nat) \<noteq> 0" "(1 :: nat) < 256" unfolding q by simp_all
  ultimately have all: "\<forall>n. \<exists>s1 a s'. turns tiny_geo (\<lambda>_ s. Some (0, s)) 1 again n ?s = Some s1 \<and> acknowledge tiny_geo (\<lambda>_ s. Some (0, s)) 1 s1 = Some a \<and>
     turn_ok tiny_geo 0 1 ?s a \<and> turns tiny_geo (\<lambda>_ s. Some (0, s)) 1 again (Suc n) ?s = Some s' \<and> turn_ok tiny_geo 0 1 ?s s' \<and>
     (let p = host_writes (again a) a in read_served tiny_geo 1 (next_cmd 1 p) (lview tiny_geo ?s) p s')"
    by (intro every_read_is_served [OF tiny_io(1) ok])
  show ?thesis
  proof (rule exI [of _ ?s], rule allI)
    fix n
    from all [unfolded Let_def] obtain a s' where n: "turns tiny_geo (\<lambda>_ s. Some (0, s)) 1 again (Suc n) ?s = Some s'" "turn_ok tiny_geo 0 1 ?s a"
      "read_served tiny_geo 1 (next_cmd 1 (host_writes (again a) a)) (lview tiny_geo ?s) (host_writes (again a) a) s'" by blast
    let ?p = "host_writes (again a) a"
    have c: "next_cmd 1 ?p = demo_read" by (simp add: next_cmd_def host_writes_ready again_def load_scmd_store)
    have "hostMemPageSize ?p = 4096" "nsze (ssd_config ?p) = 6" using n(2) s(5,6) by (simp_all add: turn_ok_def same_setup_def host_writes_def)
    note l = demo_legal [OF this]
    have "HOST_PAGE_SIZE tiny_geo = 8" by (simp add: HOST_PAGE_SIZE_def tiny_geo_def)
    with n(3) have "\<forall>j < 8. host_mem (host s') (scatter [(0x9000, 8)] j) = lview tiny_geo ?s (2 + j div 8) (j mod 8)"
      unfolding c read_served_def Let_def l(4) demo_bytes demo_fields by simp
    from this [rule_format, of 5] have d: "host_mem (host s') 0x9005 = lview tiny_geo ?s 2 5" by simp
    show "\<exists>s'. turns tiny_geo (\<lambda>_ s. Some (0, s)) 1 again (Suc n) ?s = Some s' \<and> host_mem (host s') 0x9005 = lview tiny_geo ?s 2 5"
      using n(1) d by blast
  qed
qed

end
