(* ===== verification/Ftl_Restore.thy ===== *)
theory Ftl_Restore
  imports Ftl_Save
begin

text \<open>
  Starting from saved tables: when the flash holds the bytes of the configuration and of the mapping tables,
  \<open>initialize_ftl\<close> brings back exactly these tables. The bytes and their readings are inverse on tables whose
  fields have their width; the loads are followed page by page through the driver.
\<close>

section \<open>The bytes of a value\<close>

lemma length_bytes_of [simp]: "length (bytes_of k v) = k"
  by (simp add: bytes_of_def)

lemma bytes_of_Suc: "bytes_of (Suc k) v = of_nat v # bytes_of k (v div 256)"
  unfolding bytes_of_def by (simp add: upt_conv_Cons map_Suc_upt [symmetric] div_mult2_eq mult.commute del: upt_Suc)

lemma num_of_bytes: "num_of (bytes_of k v) = v mod 256 ^ k"
proof (induction k arbitrary: v)
  case 0
  show ?case by (simp add: num_of_def bytes_of_def)
next
  case (Suc k)
  have "num_of (bytes_of (Suc k) v) = v mod 256 + 256 * (v div 256 mod 256 ^ k)"
    using Suc [of "v div 256"] by (simp add: bytes_of_Suc num_of_def unsigned_of_nat take_bit_eq_mod)
  also have "\<dots> = v mod 256 ^ Suc k" using mod_mult2_eq [of v 256 "256 ^ k"] by simp
  finally show ?case .
qed

lemma length_enc [simp]: "length (enc_ppa p) = 8" "length (enc_u32 w) = 4" "length (enc_blk b) = 8"
  by (simp_all add: enc_ppa_def enc_u32_def enc_blk_def)

lemma of_nat_unat_mod [simp]:
  "(of_nat (unat w mod 65536) :: u16) = w" "(of_nat (unat v mod 4294967296) :: u32) = v" "(of_nat (unat x mod 18446744073709551616) :: u64) = x"
proof -
  have "unat w < 65536" "unat v < 4294967296" "unat x < 18446744073709551616"
    using unsigned_less [of w] unsigned_less [of v] unsigned_less [of x] by simp_all
  then show "(of_nat (unat w mod 65536) :: u16) = w" "(of_nat (unat v mod 4294967296) :: u32) = v" "(of_nat (unat x mod 18446744073709551616) :: u64) = x"
    by simp_all
qed

lemma dec_enc_ppa: "ppa_typed p \<Longrightarrow> dec_ppa (enc_ppa p) = p"
  by (simp add: dec_ppa_def enc_ppa_def num_of_bytes ppa_of_data)

lemma dec_enc_u32 [simp]: "dec_u32 (enc_u32 w) = w"
  by (simp add: dec_u32_def enc_u32_def num_of_bytes)

lemma dec_enc_blk [simp]: "dec_blk (enc_blk b) = b"
  by (simp add: dec_blk_def enc_blk_def num_of_bytes)

text \<open>Arrays of elements of the same length.\<close>

lemma array_nth:
  assumes "\<And>x. length (e x) = k" "i < length xs"
  shows "take k (drop (k * i) (concat (map e xs) @ rest)) = e (xs ! i)"
  using assms(2)
proof (induction xs arbitrary: i)
  case (Cons x xs)
  then show ?case using assms(1) by (cases i) simp_all
qed simp

lemma dec_array_enc:
  assumes "\<And>x. length (e x) = k" "\<And>x. x \<in> set xs \<Longrightarrow> f (e x) = x" "n = length xs"
  shows "dec_array k f n (concat (map e xs) @ rest) = xs"
  by (rule nth_equalityI) (simp_all add: dec_array_def array_nth [OF assms(1)] assms(2,3) del: take_append drop_append)

lemma length_concat_enc: "(\<And>x. length (e x) = k) \<Longrightarrow> length (concat (map e xs)) = k * length xs"
  by (induction xs) simp_all

lemma drop_concat_enc: "(\<And>x. length (e x) = k) \<Longrightarrow> n = k * length xs + m \<Longrightarrow> drop n (concat (map e xs) @ rest) = drop m rest"
  by (simp add: length_concat_enc)

section \<open>The bytes of the tables\<close>

text \<open>Tables of the right size whose addresses fit their fields.\<close>

definition tables_typed :: "geo \<Rightarrow> 'a ftl_st_scheme \<Rightarrow> bool" where
  "tables_typed g s \<longleftrightarrow> length (lpa_table s) = TOTAL_NUM_OF_PAGES g \<and> length (ppa_table s) = TOTAL_NUM_OF_PAGES g \<and>
     length (blk_table s) = TOTAL_NUM_OF_BLOCK g \<and> length (last_page_per_plane s) = TOTAL_NUM_OF_PLANES g \<and>
     (\<forall>p \<in> set (lpa_table s). ppa_typed p) \<and> (\<forall>p \<in> set (last_page_per_plane s). ppa_typed p)"

definition config_typed :: "ftl_config_t \<Rightarrow> bool" where
  "config_typed c \<longleftrightarrow> length (mapping_tables c) = MAX_MAP_TABLES \<and> ppa_typed (last_selected_ppa c) \<and> (\<forall>p \<in> set (mapping_tables c). ppa_typed p)"

lemma length_section: "tables_typed g s \<Longrightarrow> length (section_bytes s) = section_size g"
  by (simp add: section_bytes_def section_size_def tables_typed_def length_concat_enc)

lemma set_section_bytes:
  assumes "tables_typed g T"
  shows "set_section g (section_bytes T) s = s\<lparr>lpa_table := lpa_table T, ppa_table := ppa_table T, blk_table := blk_table T, last_page_per_plane := last_page_per_plane T\<rparr>"
proof -
  let ?n = "TOTAL_NUM_OF_PAGES g" and ?b = "TOTAL_NUM_OF_BLOCK g" and ?bs = "section_bytes T"
  have t: "length (lpa_table T) = ?n" "length (ppa_table T) = ?n" "length (blk_table T) = ?b" "length (last_page_per_plane T) = TOTAL_NUM_OF_PLANES g"
    "\<And>p. p \<in> set (lpa_table T) \<Longrightarrow> ppa_typed p" "\<And>p. p \<in> set (last_page_per_plane T) \<Longrightarrow> ppa_typed p"
    using assms by (simp_all add: tables_typed_def)
  have "dec_array 8 dec_ppa ?n ?bs = lpa_table T" unfolding section_bytes_def
    using t by (intro dec_array_enc) (simp_all add: dec_enc_ppa)
  moreover have "drop (8 * ?n) ?bs = concat (map enc_u32 (ppa_table T)) @ concat (map enc_blk (blk_table T)) @ concat (map enc_ppa (last_page_per_plane T))"
    by (simp add: section_bytes_def length_concat_enc t)
  then have "dec_array 4 dec_u32 ?n (drop (8 * ?n) ?bs) = ppa_table T"
    using t(2) by (simp add: dec_array_enc)
  moreover have "drop (12 * ?n) ?bs = concat (map enc_blk (blk_table T)) @ concat (map enc_ppa (last_page_per_plane T))"
    by (simp add: section_bytes_def length_concat_enc t)
  then have "dec_array 8 dec_blk ?b (drop (12 * ?n) ?bs) = blk_table T" using t(3) by (simp add: dec_array_enc)
  moreover have "drop (12 * ?n + 8 * ?b) ?bs = concat (map enc_ppa (last_page_per_plane T)) @ []"
    by (simp add: section_bytes_def length_concat_enc t)
  then have "dec_array 8 dec_ppa (TOTAL_NUM_OF_PLANES g) (drop (12 * ?n + 8 * ?b) ?bs) = last_page_per_plane T"
    using t(4,6) by (simp only:) (intro dec_array_enc; simp add: dec_enc_ppa)
  ultimately show ?thesis by (simp add: set_section_def Let_def)
qed

lemma dec_enc_config:
  assumes "config_typed c"
  shows "dec_config (enc_config c) = c"
proof -
  let ?ws = "[cf_nand_ds c, cf_host_ds c, cf_pages_per_block c, cf_total_pages c, rpp_ovp c,
     rpp_map_tables c, total_rpp c, total_logical_pages c, total_invalid_pages c, total_valid_pages c, total_free_pages c]"
  have w: "dec_u32 (take 4 (drop (4 * i) (enc_config c))) = ?ws ! i" if "i < 11" for i
    unfolding enc_config_def by (subst array_nth) (use that in \<open>simp_all\<close>)
  have d: "drop 44 (enc_config c) = enc_ppa (last_selected_ppa c) @ concat (map enc_ppa (mapping_tables c))"
    unfolding enc_config_def by (simp add: length_concat_enc)
  then have p: "dec_ppa (take 8 (drop 44 (enc_config c))) = last_selected_ppa c" using assms by (simp add: dec_enc_ppa config_typed_def)
  have "drop 52 (enc_config c) = drop 8 (drop 44 (enc_config c))" by simp
  also have "\<dots> = concat (map enc_ppa (mapping_tables c)) @ []" unfolding d by simp
  finally have "dec_array 8 dec_ppa MAX_MAP_TABLES (drop 52 (enc_config c)) = mapping_tables c"
    using assms by (simp only:) (intro dec_array_enc; simp add: dec_enc_ppa config_typed_def)
  with p show ?thesis using w [of 0] w [of 1] w [of 2] w [of 3] w [of 4] w [of 5] w [of 6] w [of 7] w [of 8] w [of 9] w [of 10]
    by (simp add: dec_config_def Let_def)
qed

section \<open>Reading a run of pages\<close>

text \<open>The flash holds \<open>bs\<close> in the pages \<open>pg 0\<close>, \<open>pg 1\<close> and so on.\<close>

definition flash_holds :: "geo \<Rightarrow> mem \<Rightarrow> (nat \<Rightarrow> ppa_t) \<Rightarrow> u8 list \<Rightarrow> bool" where
  "flash_holds g img pg bs \<longleftrightarrow> (\<forall>i < length bs. img (ppa_index g (pg (i div NAND_PAGE_SIZE g)) * NAND_PAGE_SIZE g + i mod NAND_PAGE_SIZE g) = bs ! i)"

definition page_reads :: "geo \<Rightarrow> (nat \<Rightarrow> ppa_t) \<Rightarrow> nat \<Rightarrow> nat list \<Rightarrow> (u64 \<times> nat) list" where
  "page_reads g pg buf js = map (\<lambda>i. (ppa_data (pg i), buf + i * NAND_PAGE_SIZE g)) js"

lemma flash_holds_drop:
  "flash_holds g img pg bs \<Longrightarrow> flash_holds g img (\<lambda>i. pg (k + i)) (drop (k * NAND_PAGE_SIZE g) bs)"
  using page_size_pos [of g] unfolding flash_holds_def by (auto simp: add.commute less_diff_conv dest: spec [of _ "_ + k * NAND_PAGE_SIZE g"])

lemma page_reads_ok:
  "geo_ok g \<Longrightarrow> (\<And>i. i \<in> set js \<Longrightarrow> ppa_ok g (pg i) \<and> buf + i * NAND_PAGE_SIZE g < 2 ^ 32) \<Longrightarrow> pages_ok g (page_reads g pg buf js)"
  by (auto simp: pages_ok_def page_reads_def ppa_of_data ppa_ok_typed)

lemma copy_in_run:
  assumes "\<And>i. i < n \<Longrightarrow> ppa_typed (pg i)" "j < n * NAND_PAGE_SIZE g"
  shows "copy_in g (page_reads g pg buf [0..<n]) img m (buf + j) = img (ppa_index g (pg (j div NAND_PAGE_SIZE g)) * NAND_PAGE_SIZE g + j mod NAND_PAGE_SIZE g)"
proof -
  let ?p = "NAND_PAGE_SIZE g"
  let ?i = "j div ?p"
  have i: "?i < n" "j mod ?p < ?p" "j = ?i * ?p + j mod ?p" using assms(2) page_size_pos [of g] by (simp_all add: div_less_iff_less_mult)
  have "slot g buf ?i (buf + j)" using dividend_less_div_times [of ?p j] page_size_pos [of g] by (simp add: slot_def)
  from slot_unique [OF _ this] have "x = ?i" if "x * ?p \<le> j" "j < x * ?p + ?p" for x using that by (simp add: slot_def)
  then have "\<forall>(d, a) \<in> set (page_reads g pg buf [0..<n]). a \<le> buf + j \<and> buf + j < a + ?p \<longrightarrow> (d, a) = (ppa_data (pg ?i), buf + ?i * ?p)"
    by (fastforce simp: page_reads_def)
  moreover have "(ppa_data (pg ?i), buf + ?i * ?p) \<in> set (page_reads g pg buf [0..<n])" using i(1) by (auto simp: page_reads_def)
  moreover have "buf + ?i * ?p \<le> buf + j" "buf + j < buf + ?i * ?p + ?p" using \<open>slot g buf ?i (buf + j)\<close> by (simp_all add: slot_def)
  ultimately have "copy_in g (page_reads g pg buf [0..<n]) img m (buf + j) = img (ppa_index g (ppa_of (ppa_data (pg ?i))) * ?p + (buf + j - (buf + ?i * ?p)))"
    by (intro copy_in_hit)
  then show ?thesis using assms(1) [OF i(1)] by (simp add: ppa_of_data minus_div_mult_eq_mod)
qed

lemma get_list_run:
  assumes "\<And>i. i < n \<Longrightarrow> ppa_typed (pg i)" "flash_holds g img pg bs" "k \<le> n * NAND_PAGE_SIZE g" "k \<le> length bs"
  shows "get_list (copy_in g (page_reads g pg buf [0..<n]) img m) buf k = take k bs"
  using assms(2-4) copy_in_run [OF assms(1)] by (intro nth_equalityI) (simp_all add: get_list_def flash_holds_def)

text \<open>The frame of a read operation, and a whole operation.\<close>

definition read_done :: "'a ftl_st_scheme \<Rightarrow> mem \<Rightarrow> 'a ftl_st_scheme \<Rightarrow> bool" where
  "read_done s m s' \<longleftrightarrow> rop_ready s' \<and> s' = s\<lparr>rops := rops s', free_rop_objs := free_rop_objs s', nand_regs := nand_regs s', ram := m\<rparr>"

lemma read_doneI: "rop_ready s' \<Longrightarrow> s' = s\<lparr>rops := rs, free_rop_objs := fo, nand_regs := hw, ram := m\<rparr> \<Longrightarrow> read_done s m s'"
  by (simp add: read_done_def)

lemma read_doneE:
  assumes "read_done s m s'"
  obtains rs fo hw where "s' = s\<lparr>rops := rs, free_rop_objs := fo, nand_regs := hw, ram := m\<rparr>"
  using assms unfolding read_done_def by blast

lemma read_done_trans: "read_done s m s' \<Longrightarrow> read_done s' m' s'' \<Longrightarrow> read_done s m' s''"
  by (frule read_done_def [THEN iffD1, THEN conjunct1], erule read_doneE, erule read_doneE) (rule read_doneI, simp_all add: read_done_def)

lemma end_read_done:
  assumes "geo_ok g" "rop_ready s" "pages_ok g pgs"
    and "s1 = s\<lparr>free_rop_objs := (free_rop_objs s)\<lparr>oo_head := (k + 1) mod MAX_OPS\<rparr>, rops := ops0\<rparr>" "k = oo_head (free_rop_objs s)"
    and "op_holds rs k pgs" "ops_ok FLASH_READ_OPERATION rs"
  shows "\<exists>s'. sync_end_read_op g (ROP k) (s1\<lparr>rops := rs\<rparr>) = Some s' \<and> read_done s (copy_in g pgs (nand_img s) (ram s)) s'"
proof -
  from end_read [of g "s1\<lparr>rops := rs\<rparr>" k pgs] assms obtain hw where
    e: "sync_end_read_op g (ROP k) (s1\<lparr>rops := rs\<rparr>) = Some (s1\<lparr>rops := rs, nand_regs := hw, ram := copy_in g pgs (nand_img s) (ram s),
      free_rop_objs := q_give (free_rop_objs s1) (ROP k)\<rparr>)" by auto
  have "rop_ready (s1\<lparr>rops := rs, nand_regs := hw, ram := copy_in g pgs (nand_img s) (ram s), free_rop_objs := q_give (free_rop_objs s1) (ROP k)\<rparr>)"
    by (rule rop_ready_cycle [OF assms(2,5)]) (simp_all add: assms(4,7))
  with e show ?thesis by (auto simp: read_done_def assms(4))
qed

section \<open>Loading the tables\<close>

lemma add_map_reads_spec:
  assumes "op_holds (rops s) k pgs" "length pgs + n \<le> 128" "ops_ok FLASH_READ_OPERATION (rops s)" "k0 + i + n \<le> length (mapping_tables (ftl_config s))"
  shows "\<exists>rs. add_map_reads g (ROP k) k0 i n s = Some (s\<lparr>rops := rs\<rparr>) \<and> ops_ok FLASH_READ_OPERATION rs \<and>
     op_holds rs k (pgs @ page_reads g (\<lambda>j. mapping_tables (ftl_config s) ! (k0 + j)) (load_mp_buffer s) [i..<i + n])"
  using assms
proof (induction n arbitrary: i s pgs)
  case 0
  then show ?case by (intro exI [of _ "rops s"]) (simp add: page_reads_def)
next
  case (Suc n)
  let ?x = "(ppa_data (mapping_tables (ftl_config s) ! (k0 + i)), load_mp_buffer s + i * NAND_PAGE_SIZE g)"
  from add_read [OF Suc.prems(1) _ Suc.prems(3), of "fst ?x" "snd ?x"] Suc.prems(2) obtain rs where
    a: "add_read_op_page (ROP k) (fst ?x) (snd ?x) s = Some (length pgs + 1, s\<lparr>rops := rs\<rparr>)" "op_holds rs k (pgs @ [?x])" "ops_ok FLASH_READ_OPERATION rs" by auto
  from Suc.IH [of "s\<lparr>rops := rs\<rparr>" "pgs @ [?x]" "Suc i"] a(2,3) Suc.prems(2,4) obtain rs' where
    b: "add_map_reads g (ROP k) k0 (Suc i) n (s\<lparr>rops := rs\<rparr>) = Some (s\<lparr>rops := rs'\<rparr>)" "ops_ok FLASH_READ_OPERATION rs'"
      "op_holds rs' k (pgs @ ?x # page_reads g (\<lambda>j. mapping_tables (ftl_config s) ! (k0 + j)) (load_mp_buffer s) [Suc i..<Suc i + n])" by auto
  have "[i..<i + Suc n] = i # [Suc i..<Suc i + n]" by (simp add: upt_conv_Cons)
  with a(1) b Suc.prems(4) show ?case by (intro exI [of _ rs']) (simp add: page_reads_def)
qed

text \<open>Page sizes from 512 bytes to 64 KiB: a batch fits an operation and the load buffer.\<close>

definition page_fits :: "geo \<Rightarrow> bool" where
  "page_fits g \<longleftrightarrow> geo_ok g \<and> 9 \<le> NAND_DS g \<and> NAND_DS g \<le> 16"

lemma batch_fits:
  assumes "page_fits g" "0 < rest"
  shows "batch_pages g rest \<le> 128" "batch_pages g rest * NAND_PAGE_SIZE g \<le> 65536" "batch_len rest \<le> batch_pages g rest * NAND_PAGE_SIZE g"
    "(batch_pages g rest - 1) * NAND_PAGE_SIZE g < rest" "rest - batch_len rest = rest - batch_pages g rest * NAND_PAGE_SIZE g" "0 < batch_pages g rest"
proof -
  define P where "P = NAND_PAGE_SIZE g"
  have "65536 = 2 ^ (16 - NAND_DS g) * P" using assms(1) by (simp add: page_fits_def P_def NAND_PAGE_SIZE_def NAND_DS_def flip: power_add)
  moreover have "(2 :: nat) ^ (16 - NAND_DS g) \<le> 2 ^ 7" using assms(1) unfolding page_fits_def by (intro power_increasing) linarith+
  ultimately obtain q where q: "65536 = q * P" "q \<le> 128" by auto
  have P: "0 < P" using page_size_pos by (simp add: P_def)
  with q have "0 < q" by (metis gr0I mult_0 zero_neq_numeral)
  have "65536 div P = q" unfolding q(1) using P by simp
  then have b: "batch_pages g rest = (if rest < 65536 then (if rest div P * P < rest then rest div P + 1 else rest div P) else q)"
    by (simp add: batch_pages_def load_mp_buffer_size_def load_mp_buffer_pages_def P_def Let_def)
  have l: "batch_len rest = (if rest < 65536 then rest else 65536)" by (simp add: batch_len_def load_mp_buffer_size_def)
  have "batch_pages g rest \<le> 128 \<and> batch_pages g rest * P \<le> 65536 \<and> batch_len rest \<le> batch_pages g rest * P \<and> (batch_pages g rest - 1) * P < rest \<and>
    rest - batch_len rest = rest - batch_pages g rest * P \<and> 0 < batch_pages g rest"
  proof (cases "rest < 65536")
    case True
    define d where "d = rest div P"
    have d: "d * P \<le> rest" "rest < d * P + P" using P dividend_less_div_times [of P rest] by (simp_all add: d_def add.commute)
    show ?thesis
    proof (cases "d * P < rest")
      case t: True
      have "d < q" using True t q(1) by (metis less_trans mult_less_cancel2)
      then have "(d + 1) * P \<le> q * P" by (intro mult_le_mono1) simp
      with t True d q \<open>d < q\<close> show ?thesis unfolding b l d_def [symmetric] by simp
    next
      case f: False
      with d(1) have e: "d * P = rest" by simp
      then have "0 < d" using assms(2) by (cases d) simp_all
      moreover have "d < q" using True e q(1) by (metis mult_less_cancel2)
      moreover have "(d - 1) * P < rest" using e \<open>0 < d\<close> P by (metis diff_less mult_less_cancel2 zero_less_one)
      ultimately show ?thesis using e f True q unfolding b l d_def [symmetric] by simp
    qed
  next
    case False
    have "(q - 1) * P < q * P" using \<open>0 < q\<close> P by (intro mult_strict_right_mono) simp_all
    with False q \<open>0 < q\<close> show ?thesis unfolding b l by simp
  qed
  then show "batch_pages g rest \<le> 128" "batch_pages g rest * NAND_PAGE_SIZE g \<le> 65536" "batch_len rest \<le> batch_pages g rest * NAND_PAGE_SIZE g"
    "(batch_pages g rest - 1) * NAND_PAGE_SIZE g < rest" "rest - batch_len rest = rest - batch_pages g rest * NAND_PAGE_SIZE g" "0 < batch_pages g rest"
    by (simp_all add: P_def)
qed

lemma read_done_dev:
  assumes "read_done s m s'"
  shows "rop_ready s'" "ftl_config s' = ftl_config s" "nand_img s' = nand_img s" "load_mp_buffer s' = load_mp_buffer s" "ZERO_BUFFER s' = ZERO_BUFFER s" "ram s' = m"
    "lpa_table s' = lpa_table s"
proof -
  obtain rs fo hw where "s' = s\<lparr>rops := rs, free_rop_objs := fo, nand_regs := hw, ram := m\<rparr>" using read_doneE [OF assms] .
  then show "ftl_config s' = ftl_config s" "nand_img s' = nand_img s" "load_mp_buffer s' = load_mp_buffer s" "ZERO_BUFFER s' = ZERO_BUFFER s" "ram s' = m" "lpa_table s' = lpa_table s"
    by simp_all
  show "rop_ready s'" using assms by (simp add: read_done_def)
qed

text \<open>The pages of the tables that the configuration \<open>c\<close> names, for \<open>n\<close> bytes.\<close>

definition table_pages_ok :: "geo \<Rightarrow> ftl_config_t \<Rightarrow> nat \<Rightarrow> bool" where
  "table_pages_ok g c n \<longleftrightarrow> (\<forall>i. i * NAND_PAGE_SIZE g < n \<longrightarrow> i < length (mapping_tables c) \<and> ppa_ok g (mapping_tables c ! i))"

lemma load_pages_spec:
  assumes g: "page_fits g" and "rop_ready s" "flash_holds g (nand_img s) (\<lambda>i. mapping_tables (ftl_config s) ! i) bs" "table_pages_ok g (ftl_config s) (length bs)"
    "load_mp_buffer s + 65536 \<le> 2 ^ 32" "rest = length bs - k * NAND_PAGE_SIZE g"
  shows "\<exists>m s'. load_pages g k rest acc s = Some (acc @ drop (k * NAND_PAGE_SIZE g) bs, s') \<and> read_done s m s'"
  using assms(2-6)
proof (induction rest arbitrary: k acc s rule: less_induct)
  case (less rest)
  let ?P = "NAND_PAGE_SIZE g" and ?mt = "mapping_tables (ftl_config s)"
  let ?b = "batch_pages g rest"
  show ?case
  proof (cases "rest = 0")
    case True
    then have "drop (k * ?P) bs = []" using less.prems(5) by simp
    then show ?thesis using True less.prems(1)
      by (intro exI [of _ "ram s"] exI [of _ s]) (simp add: load_pages.simps [of g k 0] read_done_def)
  next
    case False
    then have r: "0 < rest" "k * ?P + rest = length bs" using less.prems(5) by simp_all
    note b = batch_fits [OF g r(1)]
    have ok: "geo_ok g" using g by (simp add: page_fits_def)
    from begin_read [OF less.prems(1)] obtain j s1 where
      s1: "begin_read_op s = Some (ROP j, s1)" "op_holds (rops s1) j []" "ops_ok FLASH_READ_OPERATION (rops s1)" "j = oo_head (free_rop_objs s)"
        "s1 = s\<lparr>free_rop_objs := (free_rop_objs s)\<lparr>oo_head := (j + 1) mod MAX_OPS\<rparr>, rops := (rops s)[j := (rops s ! j)\<lparr>fo_nop := 0\<rparr>]\<rparr>" by blast
    have same: "ftl_config s1 = ftl_config s" "load_mp_buffer s1 = load_mp_buffer s" by (simp_all add: s1(5))
    have pg: "k + i < length ?mt \<and> ppa_ok g (?mt ! (k + i))" if "i < ?b" for i
    proof -
      have "i * ?P \<le> (?b - 1) * ?P" using that by (intro mult_le_mono1) simp
      from this b(4) have "i * ?P < rest" by (rule le_less_trans)
      with r(2) have "(k + i) * ?P < length bs" by (simp add: distrib_right)
      then show ?thesis using less.prems(3) by (simp add: table_pages_ok_def)
    qed
    have "?b - 1 < ?b" using b(6) by simp
    from conjunct1 [OF pg [OF this]] b(6) have "k + 0 + ?b \<le> length (mapping_tables (ftl_config s1))" by (simp add: same)
    from add_map_reads_spec [OF s1(2) _ s1(3) this, of g] b(1) obtain rs where
      a: "add_map_reads g (ROP j) k 0 ?b s1 = Some (s1\<lparr>rops := rs\<rparr>)" "ops_ok FLASH_READ_OPERATION rs"
        "op_holds rs j (page_reads g (\<lambda>i. ?mt ! (k + i)) (load_mp_buffer s) [0..<?b])" by (auto simp: same)
    let ?m = "copy_in g (page_reads g (\<lambda>i. ?mt ! (k + i)) (load_mp_buffer s) [0..<?b]) (nand_img s) (ram s)"
    have "i * ?P < 65536" if "i < ?b" for i
    proof -
      have "i * ?P < ?b * ?P" using that page_size_pos [of g] by simp
      from this b(2) show ?thesis by (rule less_le_trans)
    qed
    then have "pages_ok g (page_reads g (\<lambda>i. ?mt ! (k + i)) (load_mp_buffer s) [0..<?b])"
      using pg less.prems(4) by (intro page_reads_ok [OF ok]) fastforce
    from end_read_done [OF ok less.prems(1) this s1(5,4) a(3,2)] obtain s2 where
      e: "sync_end_read_op g (ROP j) (s1\<lparr>rops := rs\<rparr>) = Some s2" "read_done s ?m s2" by blast
    note dev = read_done_dev [OF e(2)]
    have bl: "batch_len rest \<le> rest" by (simp add: batch_len_def)
    let ?n = "batch_len rest" and ?acc = "acc @ get_list ?m (load_mp_buffer s) (batch_len rest)"
    have gl: "get_list ?m (load_mp_buffer s) ?n = take ?n (drop (k * ?P) bs)"
      using pg ok b(3) bl r(2) by (intro get_list_run flash_holds_drop [OF less.prems(2)]) (auto simp: ppa_ok_typed)
    have dr: "drop ((k + ?b) * ?P) bs = drop ?n (drop (k * ?P) bs)"
    proof (cases "?n = ?b * ?P")
      case False
      with b(5) b(3) bl have "rest \<le> ?n" "rest \<le> ?b * ?P" by linarith+
      with r(2) show ?thesis by (simp add: distrib_right)
    qed (simp add: distrib_right add.commute)
    have acc: "?acc @ drop ((k + ?b) * ?P) bs = acc @ drop (k * ?P) bs" by (simp only: gl dr append_assoc append_take_drop_id)
    have dec: "rest - ?n < rest" using r(1) by (simp add: batch_len_def load_mp_buffer_size_def)
    have len: "rest - ?n = length bs - (k + ?b) * ?P" using b(5) less.prems(5) by (simp add: distrib_right)
    have "flash_holds g (nand_img s2) (\<lambda>i. mapping_tables (ftl_config s2) ! i) bs" "table_pages_ok g (ftl_config s2) (length bs)" "load_mp_buffer s2 + 65536 \<le> 2 ^ 32"
      using less.prems(2-4) by (simp_all add: dev)
    from less.IH [OF dec dev(1) this len, of ?acc] obtain m' s3 where
      l: "load_pages g (k + ?b) (rest - ?n) (acc @ get_list (ram s2) (load_mp_buffer s2) ?n) s2 = Some (acc @ drop (k * ?P) bs, s3)" "read_done s2 m' s3"
      unfolding acc dev by blast
    have "load_pages g k rest acc s = Some (acc @ drop (k * ?P) bs, s3)"
      using False s1(1) a(1) e(1) l(1) by (subst load_pages.simps) simp
    with read_done_trans [OF e(2) l(2)] show ?thesis by blast
  qed
qed

section \<open>Loading the configuration\<close>

text \<open>Its pages: the first ones of the first block.\<close>

definition cfg_page :: "nat \<Rightarrow> ppa_t" where
  "cfg_page i = zero_ppa\<lparr>p_page := i\<rparr>"

lemma cfg_pages: "zero_ppa = cfg_page 0" "inc_page (cfg_page 0) = cfg_page (Suc 0)" "inc_page (cfg_page (Suc 0)) = cfg_page 2"
  by (simp_all add: cfg_page_def inc_page_def zero_ppa_def)

lemma cfg_page_ok: "geo_ok g \<Longrightarrow> i < PAGES_PER_BLOCK g \<Longrightarrow> ppa_ok g (cfg_page i)"
  by (simp add: cfg_page_def ppa_ok_def zero_ppa_def geo_ok_def)

lemma length_config: "config_typed c \<Longrightarrow> length (enc_config c) = config_size"
  by (simp add: enc_config_def config_typed_def config_size_def length_concat_enc)

lemma load_config_spec:
  assumes g: "page_fits g" "3 \<le> PAGES_PER_BLOCK g" "config_size \<le> 3 * NAND_PAGE_SIZE g" and s: "rop_ready s" "load_mp_buffer s + 3 * NAND_PAGE_SIZE g \<le> 2 ^ 32"
    and c: "config_typed c" "flash_holds g (nand_img s) cfg_page (enc_config c)"
  shows "\<exists>m s'. load_config g s = Some (s'\<lparr>ftl_config := c\<rparr>) \<and> read_done s m s'"
proof -
  let ?P = "NAND_PAGE_SIZE g" and ?buf = "load_mp_buffer s"
  have ok: "geo_ok g" using g(1) by (simp add: page_fits_def)
  from begin_read [OF s(1)] obtain j s1 where
    s1: "begin_read_op s = Some (ROP j, s1)" "op_holds (rops s1) j []" "ops_ok FLASH_READ_OPERATION (rops s1)" "j = oo_head (free_rop_objs s)"
      "s1 = s\<lparr>free_rop_objs := (free_rop_objs s)\<lparr>oo_head := (j + 1) mod MAX_OPS\<rparr>, rops := (rops s)[j := (rops s ! j)\<lparr>fo_nop := 0\<rparr>]\<rparr>" by blast
  from add_read [OF s1(2) _ s1(3), of "ppa_data (cfg_page 0)" ?buf] obtain r1 where
    r1: "add_read_op_page (ROP j) (ppa_data (cfg_page 0)) ?buf s1 = Some (1, s1\<lparr>rops := r1\<rparr>)" "op_holds r1 j [(ppa_data (cfg_page 0), ?buf)]" "ops_ok FLASH_READ_OPERATION r1" by auto
  from add_read [of "s1\<lparr>rops := r1\<rparr>", simplified, OF r1(2) _ r1(3), of "ppa_data (cfg_page 1)" "?buf + ?P"] obtain r2 where
    r2: "add_read_op_page (ROP j) (ppa_data (cfg_page 1)) (?buf + ?P) (s1\<lparr>rops := r1\<rparr>) = Some (2, s1\<lparr>rops := r2\<rparr>)"
      "op_holds r2 j [(ppa_data (cfg_page 0), ?buf), (ppa_data (cfg_page 1), ?buf + ?P)]" "ops_ok FLASH_READ_OPERATION r2" by auto
  from add_read [of "s1\<lparr>rops := r2\<rparr>", simplified, OF r2(2) _ r2(3), of "ppa_data (cfg_page 2)" "?buf + ?P + ?P"] obtain r3 where
    r3: "add_read_op_page (ROP j) (ppa_data (cfg_page 2)) (?buf + ?P + ?P) (s1\<lparr>rops := r2\<rparr>) = Some (3, s1\<lparr>rops := r3\<rparr>)"
      "op_holds r3 j [(ppa_data (cfg_page 0), ?buf), (ppa_data (cfg_page 1), ?buf + ?P), (ppa_data (cfg_page 2), ?buf + ?P + ?P)]" "ops_ok FLASH_READ_OPERATION r3" by auto
  let ?pgs = "page_reads g cfg_page ?buf [0..<3]"
  have three: "[0..<3] = [0, 1, 2 :: nat]" by (simp add: upt_rec)
  have pgs: "?pgs = [(ppa_data (cfg_page 0), ?buf), (ppa_data (cfg_page 1), ?buf + ?P), (ppa_data (cfg_page 2), ?buf + ?P + ?P)]"
    by (simp add: page_reads_def three)
  have pok: "ppa_ok g (cfg_page i)" if "i < 3" for i using that g(2) by (intro cfg_page_ok [OF ok]) simp
  then have "pages_ok g ?pgs" using s(2) page_size_pos [of g] by (intro page_reads_ok [OF ok]) (auto simp: three)
  from end_read_done [OF ok s(1) this s1(5,4) r3(2) [folded pgs] r3(3)] obtain s2 where
    e: "sync_end_read_op g (ROP j) (s1\<lparr>rops := r3\<rparr>) = Some s2" "read_done s (copy_in g ?pgs (nand_img s) (ram s)) s2" by blast
  have "get_list (copy_in g ?pgs (nand_img s) (ram s)) ?buf config_size = take config_size (enc_config c)"
    using g(3) length_config [OF c(1)] pok by (intro get_list_run c(2)) (simp_all add: ppa_ok_typed [OF ok])
  then have "dec_config (get_list (ram s2) ?buf config_size) = c"
    using length_config [OF c(1)] dec_enc_config [OF c(1)] by (simp add: read_done_dev [OF e(2)])
  then have "load_config g s = Some (s2\<lparr>ftl_config := c\<rparr>)"
    using s1(1) r1(1) r2(1) r3(1) e(1) by (simp add: load_config_def Let_def cfg_pages)
  with e(2) show ?thesis by blast
qed

section \<open>The start of the module\<close>

text \<open>The flash holds what state \<open>T\<close> saves: its configuration, and its tables in the pages the configuration names.\<close>

definition flash_saved :: "geo \<Rightarrow> mem \<Rightarrow> 'a ftl_st_scheme \<Rightarrow> bool" where
  "flash_saved g img T \<longleftrightarrow> tables_typed g T \<and> config_typed (ftl_config T) \<and> 9 \<le> cf_nand_ds (ftl_config T) \<and>
     table_pages_ok g (ftl_config T) (section_size g) \<and>
     flash_holds g img cfg_page (enc_config (ftl_config T)) \<and> flash_holds g img (\<lambda>i. mapping_tables (ftl_config T) ! i) (section_bytes T)"

definition start_ready :: "geo \<Rightarrow> 'a ftl_st_scheme \<Rightarrow> bool" where
  "start_ready g s \<longleftrightarrow> rop_ready s \<and> load_mp_buffer s + 65536 \<le> 2 ^ 32 \<and> ZERO_BUFFER s < 2 ^ 32"

definition start_geo :: "geo \<Rightarrow> bool" where
  "start_geo g \<longleftrightarrow> page_fits g \<and> 3 \<le> PAGES_PER_BLOCK g \<and> config_size \<le> 3 * NAND_PAGE_SIZE g \<and> 3 * NAND_PAGE_SIZE g \<le> 65536"

lemma first_page:
  assumes g: "start_geo g" and s: "start_ready g s" and T: "flash_saved g (nand_img s) T"
  shows "\<exists>rop s1 s2 s3 m n. begin_read_op s = Some (rop, s1) \<and> add_read_op_page rop (ppa_data zero_ppa) (ZERO_BUFFER s) s1 = Some (n, s2) \<and>
     sync_end_read_op g rop s2 = Some s3 \<and> read_done s m s3 \<and> cf_nand_ds (dec_config (get_list m (ZERO_BUFFER s) config_size)) = cf_nand_ds (ftl_config T)"
proof -
  let ?c = "ftl_config T" and ?z = "ZERO_BUFFER s"
  have ok: "geo_ok g" "512 \<le> NAND_PAGE_SIZE g" using g power_increasing [of 9 "NAND_DS g" "2 :: nat"]
    by (simp_all add: start_geo_def page_fits_def NAND_PAGE_SIZE_def NAND_DS_def)
  have r: "rop_ready s" using s by (simp add: start_ready_def)
  from begin_read [OF r] obtain j s1 where
    s1: "begin_read_op s = Some (ROP j, s1)" "op_holds (rops s1) j []" "ops_ok FLASH_READ_OPERATION (rops s1)" "j = oo_head (free_rop_objs s)"
      "s1 = s\<lparr>free_rop_objs := (free_rop_objs s)\<lparr>oo_head := (j + 1) mod MAX_OPS\<rparr>, rops := (rops s)[j := (rops s ! j)\<lparr>fo_nop := 0\<rparr>]\<rparr>" by blast
  from add_read [OF s1(2) _ s1(3), of "ppa_data (cfg_page 0)" ?z] obtain r1 where
    r1: "add_read_op_page (ROP j) (ppa_data (cfg_page 0)) ?z s1 = Some (1, s1\<lparr>rops := r1\<rparr>)" "op_holds r1 j [(ppa_data (cfg_page 0), ?z)]" "ops_ok FLASH_READ_OPERATION r1" by auto
  let ?pgs = "page_reads g cfg_page ?z [0..<1]"
  have pgs: "?pgs = [(ppa_data (cfg_page 0), ?z)]" by (simp add: page_reads_def)
  have p0: "ppa_ok g (cfg_page 0)" using g by (intro cfg_page_ok [OF ok(1)]) (simp add: start_geo_def)
  then have "pages_ok g ?pgs" using s by (intro page_reads_ok [OF ok(1)]) (simp add: start_ready_def)
  from end_read_done [OF ok(1) r this s1(5,4) r1(2) [folded pgs] r1(3)] obtain s2 where
    e: "sync_end_read_op g (ROP j) (s1\<lparr>rops := r1\<rparr>) = Some s2" "read_done s (copy_in g ?pgs (nand_img s) (ram s)) s2" by blast
  let ?m = "copy_in g ?pgs (nand_img s) (ram s)"
  have T': "config_typed ?c" "flash_holds g (nand_img s) cfg_page (enc_config ?c)" using T by (simp_all add: flash_saved_def)
  have "get_list ?m ?z 4 = take 4 (enc_config ?c)"
    using ok(2) length_config [OF T'(1)] p0 by (intro get_list_run T'(2)) (simp_all add: ppa_ok_typed [OF ok(1)] config_size_def)
  moreover have "take 4 (get_list ?m ?z config_size) = get_list ?m ?z 4"
    by (simp add: get_list_def take_map config_size_def del: upt_Suc)
  moreover have "take 4 (enc_config ?c) = enc_u32 (cf_nand_ds ?c)" by (simp add: enc_config_def)
  ultimately have "cf_nand_ds (dec_config (get_list ?m ?z config_size)) = cf_nand_ds ?c" by (simp add: dec_config_def Let_def)
  with s1(1) r1(1) e show ?thesis unfolding cfg_pages(1) by blast
qed

lemma initialize_ftl_reads:
  assumes "begin_read_op s = Some (rop, s1)" "add_read_op_page rop (ppa_data zero_ppa) (ZERO_BUFFER s) s1 = Some (n, s2)" "sync_end_read_op g rop s2 = Some s3"
    and "s4 = s3\<lparr>ftl_config := dec_config (get_list (ram s3) (ZERO_BUFFER s3) config_size), ram := memset32 (ram s3) (ZERO_BUFFER s3) 0 (NAND_PAGE_SIZE g div 4)\<rparr>"
    and "\<not> cf_nand_ds (ftl_config s4) < 9" "restore_mapping_tables g s4 = Some s5"
  shows "initialize_ftl g s = Some (finish_ftl_init s5)"
  unfolding initialize_ftl_def assms(1) Option.bind.simps prod.case assms(2,3) Let_def assms(4) [symmetric] if_not_P [OF assms(5)] assms(6) ..

section \<open>Property\<close>

text \<open>
  C14. Start from saved tables: when the flash holds the configuration and the tables of a state \<open>T\<close>, as \<open>store_mapping_tables\<close>
  lays them out in pages, the start of the module from any memory contents returns and restores the configuration, the four tables
  and with them every mapping and the contents of the device, without changing the flash.
\<close>

theorem start_restores_saved_tables:
  fixes s T :: "'a ftl_st_scheme"
  assumes "start_geo g" "start_ready g s" "flash_saved g (nand_img s) T"
  shows "\<exists>s'. initialize_ftl g s = Some s' \<and> ftl_config s' = ftl_config T \<and> lpa_table s' = lpa_table T \<and> ppa_table s' = ppa_table T \<and>
     blk_table s' = blk_table T \<and> last_page_per_plane s' = last_page_per_plane T \<and> ftl_abs s' = ftl_abs T \<and>
     lview g s' = lview g (T\<lparr>nand_img := nand_img s\<rparr>) \<and> nand_img s' = nand_img s \<and> rop_ready s'"
proof -
  let ?c = "ftl_config T"
  have g: "page_fits g" "3 \<le> PAGES_PER_BLOCK g" "config_size \<le> 3 * NAND_PAGE_SIZE g" "3 * NAND_PAGE_SIZE g \<le> 65536" using assms(1) by (simp_all add: start_geo_def)
  have T: "tables_typed g T" "config_typed ?c" "9 \<le> cf_nand_ds ?c" "table_pages_ok g ?c (section_size g)"
    "flash_holds g (nand_img s) cfg_page (enc_config ?c)" "flash_holds g (nand_img s) (\<lambda>i. mapping_tables ?c ! i) (section_bytes T)"
    using assms(3) by (simp_all add: flash_saved_def)
  from first_page [OF assms] obtain rop s1 s2 s3 m n where
    a: "begin_read_op s = Some (rop, s1)" "add_read_op_page rop (ppa_data zero_ppa) (ZERO_BUFFER s) s1 = Some (n, s2)" "sync_end_read_op g rop s2 = Some s3"
      "read_done s m s3" "cf_nand_ds (dec_config (get_list m (ZERO_BUFFER s) config_size)) = cf_nand_ds ?c" by blast
  note d3 = read_done_dev [OF a(4)]
  define s4 where "s4 = s3\<lparr>ftl_config := dec_config (get_list (ram s3) (ZERO_BUFFER s3) config_size), ram := memset32 (ram s3) (ZERO_BUFFER s3) 0 (NAND_PAGE_SIZE g div 4)\<rparr>"
  have d4: "rop_ready s4" "nand_img s4 = nand_img s" "load_mp_buffer s4 + 65536 \<le> 2 ^ 32" "\<not> cf_nand_ds (ftl_config s4) < 9"
    using d3 a(5) T(3) assms(2) by (simp_all add: s4_def rop_ready_def start_ready_def not_less)
  from load_config_spec [OF g(1-3) d4(1) _ T(2)] d4 T(5) g(4) obtain m5 s5 where
    c: "load_config g s4 = Some (s5\<lparr>ftl_config := ?c\<rparr>)" "read_done s4 m5 s5" by auto
  note d5 = read_done_dev [OF c(2)]
  let ?s5 = "s5\<lparr>ftl_config := ?c\<rparr>"
  have p5: "rop_ready ?s5" "flash_holds g (nand_img ?s5) (\<lambda>i. mapping_tables (ftl_config ?s5) ! i) (section_bytes T)"
    "table_pages_ok g (ftl_config ?s5) (length (section_bytes T))" "load_mp_buffer ?s5 + 65536 \<le> 2 ^ 32" "section_size g = length (section_bytes T) - 0 * NAND_PAGE_SIZE g"
    using d5 d4 T(4,6) by (simp_all add: rop_ready_def length_section [OF T(1)])
  from load_pages_spec [OF g(1) p5, of "[]"] obtain m6 s6 where
    l: "load_pages g 0 (section_size g) [] ?s5 = Some (section_bytes T, s6)" "read_done ?s5 m6 s6" unfolding mult_0 drop_0 append_Nil by blast
  note d6 = read_done_dev [OF l(2)]
  let ?t = "finish_ftl_init (set_section g (section_bytes T) s6)"
  have r: "restore_mapping_tables g s4 = Some (set_section g (section_bytes T) s6)" using c(1) l(1) by (simp add: restore_mapping_tables_def)
  have "initialize_ftl g s = Some ?t" by (rule initialize_ftl_reads [OF a(1-3) s4_def d4(4) r])
  moreover have t: "lpa_table ?t = lpa_table T" "ppa_table ?t = ppa_table T" "blk_table ?t = blk_table T" "last_page_per_plane ?t = last_page_per_plane T"
    "ftl_config ?t = ?c" "nand_img ?t = nand_img s" "rop_ready ?t"
    using d6 d5 d4 by (simp_all add: set_section_bytes [OF T(1)] finish_ftl_init_def Let_def rop_ready_def)
  moreover have "ftl_abs ?t = ftl_abs T" using t(1) by (rule ftl_abs_cong)
  moreover have "lview g ?t = lview g (T\<lparr>nand_img := nand_img s\<rparr>)" using t(1,6) by (intro lview_cong) simp_all
  ultimately show ?thesis by blast
qed

section \<open>Witness\<close>

text \<open>Sixteen pages of four kilobytes; the tables, all zero, are saved in page 3 of the first block.\<close>

definition saved_geo :: geo where
  "saved_geo = tiny_geo\<lparr>nand_pages_per_block := 4, nand_page_size := 12, host_page_size := 12\<rparr>"

definition saved_config :: ftl_config_t where
  "saved_config = \<lparr>cf_nand_ds = 12, cf_host_ds = 12, cf_pages_per_block = 4, cf_total_pages = 16, rpp_ovp = 1, rpp_map_tables = 1, total_rpp = 4,
     total_logical_pages = 12, total_invalid_pages = 0, total_valid_pages = 5, total_free_pages = 11, last_selected_ppa = cfg_page 3,
     mapping_tables = replicate MAX_MAP_TABLES (cfg_page 3)\<rparr>"

definition saved_tables :: "'a ftl_st_scheme \<Rightarrow> 'a ftl_st_scheme" where
  "saved_tables s = s\<lparr>ftl_config := saved_config, lpa_table := replicate 16 zero_ppa, ppa_table := replicate 16 0,
     blk_table := replicate 4 \<lparr>invalid_pgs = 0, valid_pgs = 0, erase_count = 0\<rparr>, last_page_per_plane := replicate 2 zero_ppa\<rparr>"

definition saved_image :: mem where
  "saved_image x = (if x < config_size then enc_config saved_config ! x else 0)"

lemma saved_geo_ok: "start_geo saved_geo" "NAND_PAGE_SIZE saved_geo = 4096"
  by (simp_all add: start_geo_def page_fits_def saved_geo_def tiny_geo_def geo_ok_def geom_defs config_size_def MAX_MAP_TABLES_def)

lemma saved_typed: "config_typed saved_config" "tables_typed saved_geo (saved_tables s)"
  by (auto simp: config_typed_def tables_typed_def saved_config_def saved_tables_def cfg_page_def zero_ppa_def ppa_typed_def saved_geo_def tiny_geo_def geom_defs)

lemma cfg_page_index: "ppa_index g (cfg_page i) = i"
  by (simp add: ppa_index_def block_index_def plane_index_def cfg_page_def zero_ppa_def)

lemma bytes_of_zero: "bytes_of k 0 = replicate k 0"
  by (simp add: bytes_of_def map_replicate_const)

lemma saved_section: "b \<in> set (section_bytes (saved_tables s)) \<Longrightarrow> b = 0"
proof -
  have "enc_ppa zero_ppa = replicate 8 0" "enc_u32 0 = replicate 4 0" "enc_blk \<lparr>invalid_pgs = 0, valid_pgs = 0, erase_count = 0\<rparr> = replicate 8 0"
    by (simp_all add: enc_ppa_def enc_u32_def enc_blk_def ppa_data_def zero_ppa_def bytes_of_zero flip: replicate_add)
  then show "b \<in> set (section_bytes (saved_tables s)) \<Longrightarrow> b = 0" by (auto simp: section_bytes_def saved_tables_def)
qed

lemma saved_flash: "flash_saved saved_geo saved_image (saved_tables s)"
proof -
  let ?c = saved_config
  have len: "length (enc_config ?c) = config_size" using length_config [OF saved_typed(1)] .
  have sz: "section_size saved_geo = 240" by (simp add: section_size_def saved_geo_def tiny_geo_def geom_defs)
  have c: "ftl_config (saved_tables s) = ?c" by (simp add: saved_tables_def)
  have "flash_holds saved_geo saved_image cfg_page (enc_config ?c)"
    by (simp add: flash_holds_def saved_geo_ok cfg_page_index saved_image_def len)
  moreover have "flash_holds saved_geo saved_image (\<lambda>i. mapping_tables ?c ! i) (section_bytes (saved_tables s))"
    unfolding flash_holds_def saved_geo_ok length_section [OF saved_typed(2)] sz
  proof (intro allI impI)
    fix i :: nat
    assume i: "i < 240"
    have "mapping_tables ?c ! 0 = cfg_page 3" by (simp add: saved_config_def MAX_MAP_TABLES_def)
    moreover have "section_bytes (saved_tables s) ! i = 0" using i length_section [OF saved_typed(2), of s] by (intro saved_section [of _ s] nth_mem) (simp add: sz)
    ultimately show "saved_image (ppa_index saved_geo (mapping_tables ?c ! (i div 4096)) * 4096 + i mod 4096) = section_bytes (saved_tables s) ! i"
      using i by (simp add: cfg_page_index saved_image_def config_size_def MAX_MAP_TABLES_def)
  qed
  moreover have "table_pages_ok saved_geo ?c (section_size saved_geo)"
    unfolding table_pages_ok_def sz saved_geo_ok
  proof (intro allI impI)
    fix i :: nat
    assume "i * 4096 < 240"
    then have "i = 0" by simp
    moreover have "ppa_ok saved_geo (cfg_page 3)" by (simp add: cfg_page_def ppa_ok_def zero_ppa_def saved_geo_def tiny_geo_def geom_defs)
    ultimately show "i < length (mapping_tables ?c) \<and> ppa_ok saved_geo (mapping_tables ?c ! i)" by (simp add: saved_config_def MAX_MAP_TABLES_def)
  qed
  ultimately show ?thesis using saved_typed by (simp add: flash_saved_def c) (simp add: saved_config_def)
qed

theorem start_restores_saved_tables_witness:
  "\<exists>s s' :: ftl_st. initialize_ftl saved_geo s = Some s' \<and> total_logical_pages (ftl_config s') = 12 \<and> lpa_table s' = replicate 16 zero_ppa \<and> lpa_table s = []"
proof -
  let ?s = "(init_op_obj ftl_image)\<lparr>nand_img := saved_image, load_mp_buffer := 0x9c000000, ZERO_BUFFER := 0x9d000000, lpa_table := []\<rparr>"
  have "start_ready saved_geo ?s" using init_op_obj_ready(1) [OF ops_of_image(1)] by (simp add: start_ready_def rop_ready_def)
  moreover have "flash_saved saved_geo (nand_img ?s) (saved_tables ?s)" using saved_flash by simp
  ultimately obtain s' where "initialize_ftl saved_geo ?s = Some s'" "ftl_config s' = ftl_config (saved_tables ?s)" "lpa_table s' = lpa_table (saved_tables ?s)"
    using start_restores_saved_tables [OF saved_geo_ok(1)] by blast
  then show ?thesis by (intro exI [of _ ?s] exI [of _ s']) (simp add: saved_tables_def saved_config_def)
qed

end
