(* ===== verification/Uart_Print.thy ===== *)
theory Uart_Print
  imports S4_Prelude
begin

text \<open>
  Print formatting (\<^verbatim>\<open>util.uart_print.c\<close>): numbers to digits, padding, and the format language of
  \<open>simple_snprintf\<close>. The characters written so far are a list; a read of the format or of the arguments past
  their end is \<open>None\<close>.
\<close>

section \<open>Padding\<close>

definition PAD_ZERO :: nat where "PAD_ZERO = 1"
definition PAD_RIGHT :: nat where "PAD_RIGHT = 2"

definition simple_outputchar :: "string \<Rightarrow> char \<Rightarrow> string" where
  "simple_outputchar out c = out @ [c]"

text \<open>The two padding loops; the second one runs only when the first one did not.\<close>

fun pad_loop :: "nat \<Rightarrow> char \<Rightarrow> nat \<times> string \<Rightarrow> nat \<times> string" where
  "pad_loop 0 c (pc, out) = (pc, out)"
| "pad_loop (Suc n) c (pc, out) = pad_loop n c (pc + 1, simple_outputchar out c)"

fun copy_loop :: "string \<Rightarrow> nat \<times> string \<Rightarrow> nat \<times> string" where
  "copy_loop [] (pc, out) = (pc, out)"
| "copy_loop (c # s) (pc, out) = copy_loop s (pc + 1, simple_outputchar out c)"

definition prints :: "string \<Rightarrow> string \<Rightarrow> int \<Rightarrow> nat \<Rightarrow> nat \<times> string" where
  "prints out str width flags =
     (let w = (if width > 0 then (if int (length str) \<ge> width then 0 else width - int (length str)) else width);
          padchar = (if width > 0 \<and> odd flags then CHR ''0'' else CHR '' '');
          left = flags div 2 mod 2 = 0;
          s1 = (if left then pad_loop (nat w) padchar (0, out) else (0, out));
          s2 = copy_loop str s1
      in pad_loop (if left then 0 else nat w) padchar s2)"

section \<open>Numbers\<close>

text \<open>The digit of value \<open>t\<close>; letters start at \<open>letbase\<close>.\<close>

definition digit_char :: "nat \<Rightarrow> nat \<Rightarrow> char" where
  "digit_char letbase t = char_of ((if t \<ge> 10 then t + letbase - 48 - 10 else t) + 48)"

function digit_loop :: "nat \<Rightarrow> nat \<Rightarrow> nat \<Rightarrow> string \<Rightarrow> string" where
  "digit_loop base letbase u s = (if u = 0 \<or> base < 2 then s else digit_loop base letbase (u div base) (digit_char letbase (u mod base) # s))"
  by pat_completeness auto
termination by (relation "measure (\<lambda>(base, letbase, u, s). u)") auto

declare digit_loop.simps [simp del]

definition simple_outputi :: "string \<Rightarrow> u32 \<Rightarrow> nat \<Rightarrow> bool \<Rightarrow> int \<Rightarrow> nat \<Rightarrow> nat \<Rightarrow> nat \<times> string" where
  "simple_outputi out i base sign width flags letbase =
     (if i = 0 then prints out ''0'' width flags
      else let neg = (sign \<and> base = 10 \<and> i <s 0);
               u = (if neg then - i else i);
               s = digit_loop base letbase (unat u) [] in
        if neg then
          if width \<noteq> 0 \<and> odd flags then
            (case prints (simple_outputchar out CHR ''-'') s (width - 1) flags of (n, out1) \<Rightarrow> (1 + n, out1))
          else prints out (CHR ''-'' # s) width flags
        else prints out s width flags)"

section \<open>The format language\<close>

datatype va_arg = Arg_int u32 | Arg_str "string option"

definition is_dec :: "char \<Rightarrow> bool" where
  "is_dec c \<longleftrightarrow> 48 \<le> (of_char c :: nat) \<and> (of_char c :: nat) \<le> 57"

fun skip_zeros :: "nat \<Rightarrow> string \<Rightarrow> nat \<times> string" where
  "skip_zeros flags [] = (flags, [])"
| "skip_zeros flags (c # f) = (if c = CHR ''0'' then skip_zeros (flags div 2 * 2 + PAD_ZERO) f else (flags, c # f))"

fun width_loop :: "int \<Rightarrow> string \<Rightarrow> int \<times> string" where
  "width_loop w [] = (w, [])"
| "width_loop w (c # f) = (if is_dec c then width_loop (w * 10 + (of_char c - 48)) f else (w, c # f))"

text \<open>The part of a conversion between the percent sign and its letter: flags, width, rest of the format and of the arguments.\<close>

definition parse_flags :: "string \<Rightarrow> nat \<times> string" where
  "parse_flags f = (case f of [] \<Rightarrow> (0, []) | c # r \<Rightarrow> if c = CHR ''-'' then skip_zeros PAD_RIGHT r else skip_zeros 0 f)"

definition parse_spec :: "string \<Rightarrow> va_arg list \<Rightarrow> (nat \<times> int \<times> string \<times> va_arg list) option" where
  "parse_spec f args =
     (let (flags, f1) = parse_flags f
      in case f1 of
           c # r \<Rightarrow> if c = CHR ''*'' then (case args of Arg_int w # rest \<Rightarrow> Some (flags, sint w, r, rest) | _ \<Rightarrow> None)
                    else (case width_loop 0 f1 of (w, f2) \<Rightarrow> Some (flags, w, f2, args))
         | [] \<Rightarrow> Some (flags, 0, [], args))"

text \<open>One conversion; an unknown letter prints nothing and takes no argument.\<close>

definition convert :: "char \<Rightarrow> nat \<Rightarrow> int \<Rightarrow> va_arg list \<Rightarrow> string \<Rightarrow> (nat \<times> string \<times> va_arg list) option" where
  "convert c flags width args out =
     (let num = (\<lambda>base sign letbase. case args of
            Arg_int i # rest \<Rightarrow> (case simple_outputi out i base sign width flags letbase of (n, out1) \<Rightarrow> Some (n, out1, rest))
          | _ \<Rightarrow> None) in
      if c = CHR ''d'' then num 10 True 97
      else if c = CHR ''u'' then num 10 False 97
      else if c = CHR ''x'' then num 16 False 97
      else if c = CHR ''X'' then num 16 False 65
      else if c = CHR ''c'' then
        (case args of Arg_int i # rest \<Rightarrow>
           (case prints out (if (ucast i :: u8) = 0 then [] else [char_of (unat (ucast i :: u8))]) width flags of (n, out1) \<Rightarrow> Some (n, out1, rest)) | _ \<Rightarrow> None)
      else if c = CHR ''s'' then
        (case args of Arg_str s # rest \<Rightarrow> (case prints out (case s of Some t \<Rightarrow> t | None \<Rightarrow> ''(null)'') width flags of (n, out1) \<Rightarrow> Some (n, out1, rest)) | _ \<Rightarrow> None)
      else Some (0, out, args))"

lemma skip_zeros_le: "length (snd (skip_zeros flags f)) \<le> length f"
  by (induction flags f rule: skip_zeros.induct) auto

lemma width_loop_le: "length (snd (width_loop w f)) \<le> length f"
  by (induction w f rule: width_loop.induct) auto

lemma parse_flags_le: "length (snd (parse_flags f)) \<le> length f"
  using skip_zeros_le [of 0 f] by (cases f) (auto simp: parse_flags_def intro: le_SucI skip_zeros_le)

lemma parse_spec_le:
  assumes "parse_spec f args = Some (flags, w, r, rest)" shows "length r \<le> length f"
proof -
  obtain fl f1 where p: "parse_flags f = (fl, f1)" by fastforce
  have f1: "length f1 \<le> length f" using parse_flags_le [of f] by (simp add: p)
  have "length r \<le> length f1"
    using assms width_loop_le [of 0 f1] by (auto simp: parse_spec_def p split: list.splits if_splits va_arg.splits prod.splits)
  with f1 show ?thesis by simp
qed

function simple_vsprintf :: "string \<Rightarrow> va_arg list \<Rightarrow> nat \<Rightarrow> string \<Rightarrow> (nat \<times> string) option" where
  "simple_vsprintf [] args pc out = Some (pc, out)"
| "simple_vsprintf (c # f) args pc out =
     (if c \<noteq> CHR ''%'' then simple_vsprintf f args (pc + 1) (simple_outputchar out c)
      else case f of
        [] \<Rightarrow> Some (pc, out)
      | d # f1 \<Rightarrow>
          if d = CHR ''%'' then simple_vsprintf f1 args (pc + 1) (simple_outputchar out d)
          else (case parse_spec f args of
              None \<Rightarrow> None
            | Some (flags, width, [], rest) \<Rightarrow> None
            | Some (flags, width, e # r, rest) \<Rightarrow>
                (case convert e flags width rest out of
                   None \<Rightarrow> None
                 | Some (n, out1, args1) \<Rightarrow> simple_vsprintf r args1 (pc + n) out1)))"
  by pat_completeness auto
termination
  by (relation "measure (\<lambda>(f, args, pc, out). length f)") (auto dest: parse_spec_le)

definition simple_snprintf :: "nat \<Rightarrow> string \<Rightarrow> va_arg list \<Rightarrow> (nat \<times> string) option" where
  "simple_snprintf len fmt args = simple_vsprintf fmt args 0 []"

section \<open>What is written\<close>

lemma pad_loop_eq: "pad_loop n c (pc, out) = (pc + n, out @ replicate n c)"
  by (induction n arbitrary: pc out) (simp_all add: simple_outputchar_def replicate_append_same [symmetric])

lemma copy_loop_eq: "copy_loop s (pc, out) = (pc + length s, out @ s)"
  by (induction s arbitrary: pc out) (simp_all add: simple_outputchar_def)

definition pad_len :: "int \<Rightarrow> string \<Rightarrow> nat" where
  "pad_len width s = nat (width - int (length s))"

definition pad_char :: "nat \<Rightarrow> char" where
  "pad_char flags = (if odd flags then CHR ''0'' else CHR '' '')"

text \<open>A field: the text with its padding in front or behind; no padding when the text is as long as the width.\<close>

definition field :: "int \<Rightarrow> nat \<Rightarrow> string \<Rightarrow> string" where
  "field width flags s = (if flags div 2 mod 2 = 0 then replicate (pad_len width s) (pad_char flags) @ s else s @ replicate (pad_len width s) (pad_char flags))"

lemma prints_eq: "prints out s width flags = (length (field width flags s), out @ field width flags s)"
proof -
  let ?w = "if width > 0 then (if int (length s) \<ge> width then 0 else width - int (length s)) else width"
  have w: "nat ?w = pad_len width s" by (simp add: pad_len_def)
  have c: "pad_len width s \<noteq> 0 \<Longrightarrow> (if width > 0 \<and> odd flags then CHR ''0'' else CHR '' '') = pad_char flags"
    by (simp add: pad_len_def pad_char_def)
  have r: "replicate (pad_len width s) (if width > 0 \<and> odd flags then CHR ''0'' else CHR '' '') = replicate (pad_len width s) (pad_char flags)"
    using c by (cases "pad_len width s") simp_all
  show ?thesis
    by (cases "flags div 2 mod 2 = 0") (simp_all only: prints_def Let_def w pad_loop_eq copy_loop_eq field_def r if_True if_False length_append length_replicate append_assoc
      pad_loop.simps(1) add_0 add_0_right append_Nil2 replicate_0 simp_thms)
qed

lemma length_field: "length (field width flags s) = max (nat width) (length s)"
  by (auto simp: field_def pad_len_def)

text \<open>Every conversion appends what it counts.\<close>

lemma outputi_counts: "\<exists>t. simple_outputi out i base sign width flags letbase = (length t, out @ t)"
  by (auto simp: simple_outputi_def prints_eq Let_def simple_outputchar_def)

lemma convert_counts: "convert c flags width args out = Some (n, out1, rest) \<Longrightarrow> \<exists>t. out1 = out @ t \<and> n = length t"
  using outputi_counts [of out] by (auto simp: convert_def prints_eq Let_def split: list.splits va_arg.splits if_splits prod.splits) (metis Pair_inject)+

lemma vsprintf_counts: "simple_vsprintf f args pc out = Some (n, out1) \<Longrightarrow> \<exists>t. out1 = out @ t \<and> n = pc + length t"
proof (induction f args pc out rule: simple_vsprintf.induct)
  case (2 c f args pc out)
  show ?case
  proof (cases "c = CHR ''%'' \<and> f \<noteq> [] \<and> hd f \<noteq> CHR ''%''")
    case False
    with 2 show ?thesis by (cases f) (auto simp: simple_outputchar_def split: if_splits)
  next
    case True
    then obtain d f1 where f: "f = d # f1" "d \<noteq> CHR ''%''" by (cases f) auto
    with True 2(4) obtain flags width e r rest m out2 args1 where
      s: "parse_spec f args = Some (flags, width, e # r, rest)" "convert e flags width rest out = Some (m, out2, args1)" "simple_vsprintf r args1 (pc + m) out2 = Some (n, out1)"
      by (auto split: option.splits list.splits)
    from 2(3) [OF _ f s(1) refl refl refl refl s(2) refl refl s(3)] True obtain t where "out1 = out2 @ t" "n = pc + m + length t" by auto
    with convert_counts [OF s(2)] show ?thesis by (metis append_assoc length_append add.assoc)
  qed
qed auto

section \<open>Numbers read back\<close>

definition digit_value :: "char \<Rightarrow> nat" where
  "digit_value c = (let v = of_char c in if v \<le> 57 then v - 48 else if v < 97 then v - 55 else v - 87)"

definition read_number :: "nat \<Rightarrow> string \<Rightarrow> nat" where
  "read_number base s = foldl (\<lambda>n c. n * base + digit_value c) 0 s"

lemma digit_value_char: "t < 16 \<Longrightarrow> letbase \<in> {65, 97} \<Longrightarrow> digit_value (digit_char letbase t) = t"
  by (auto simp: digit_value_def digit_char_def Let_def)

lemma foldl_digits: "foldl (\<lambda>n c. n * base + digit_value c) a s = a * base ^ length s + read_number base s"
proof (induction s arbitrary: a)
  case (Cons c s)
  show ?case using Cons [of "a * base + digit_value c"] Cons [of "digit_value c"] by (simp add: read_number_def algebra_simps)
qed (simp add: read_number_def)

lemma digit_loop_reads:
  assumes "2 \<le> base" "base \<le> 16" "letbase \<in> {65, 97}"
  shows "read_number base (digit_loop base letbase u s) = u * base ^ length s + read_number base s"
proof (induction u arbitrary: s rule: less_induct)
  case (less u)
  show ?case
  proof (cases "u = 0")
    case False
    let ?d = "digit_char letbase (u mod base)"
    have "u div base < u" using False assms(1) by simp
    from less.IH [OF this, of "?d # s"]
    have "read_number base (digit_loop base letbase u s) = u div base * base ^ Suc (length s) + read_number base (?d # s)"
      using False assms(1) by (subst digit_loop.simps) simp
    moreover have "u mod base < 16" using assms(1,2) mod_less_divisor [of base u] by linarith
    then have "digit_value ?d = u mod base" using assms(3) by (rule digit_value_char)
    ultimately have "read_number base (digit_loop base letbase u s) = u div base * base ^ Suc (length s) + read_number base (?d # s)" by simp
    also have "read_number base (?d # s) = u mod base * base ^ length s + read_number base s"
      using foldl_digits [of base "digit_value ?d" s] \<open>digit_value ?d = u mod base\<close> by (simp add: read_number_def)
    also have "u div base * base ^ Suc (length s) + (u mod base * base ^ length s + read_number base s) = (u div base * base + u mod base) * base ^ length s + read_number base s"
      by (simp only: distrib_right power_Suc mult.assoc add.assoc)
    finally show ?thesis by simp
  qed (simp add: digit_loop.simps)
qed

lemma read_number_zeros: "read_number base (replicate n (CHR ''0'') @ s) = read_number base s"
  by (induction n) (simp_all add: read_number_def digit_value_def Let_def)

lemma digit_char_no_sign: "t < 16 \<Longrightarrow> letbase \<in> {65, 97} \<Longrightarrow> digit_char letbase t \<noteq> CHR '' '' \<and> digit_char letbase t \<noteq> CHR ''-''"
  by (auto simp: digit_char_def char_of_eq_iff take_bit_eq_mod)

lemma digit_loop_no_sign:
  "2 \<le> base \<Longrightarrow> base \<le> 16 \<Longrightarrow> letbase \<in> {65, 97} \<Longrightarrow> \<forall>c \<in> set s. c \<noteq> CHR '' '' \<and> c \<noteq> CHR ''-'' \<Longrightarrow>
   \<forall>c \<in> set (digit_loop base letbase u s). c \<noteq> CHR '' '' \<and> c \<noteq> CHR ''-''"
proof (induction base letbase u s rule: digit_loop.induct)
  case (1 base letbase u s)
  show ?case
  proof (cases "u = 0")
    case False
    have "u mod base < 16" using 1(2,3) mod_less_divisor [of base u] by linarith
    then have "digit_char letbase (u mod base) \<noteq> CHR '' '' \<and> digit_char letbase (u mod base) \<noteq> CHR ''-''" using 1(4) by (rule digit_char_no_sign)
    with 1 False show ?thesis by (subst digit_loop.simps) simp
  qed (use 1 in \<open>simp add: digit_loop.simps\<close>)
qed

text \<open>The text without its padding spaces, read as a number with an optional sign.\<close>

definition read_text :: "nat \<Rightarrow> string \<Rightarrow> int" where
  "read_text base t = (case filter (\<lambda>c. c \<noteq> CHR '' '') t of [] \<Rightarrow> 0
     | c # r \<Rightarrow> if c = CHR ''-'' then - int (read_number base r) else int (read_number base (c # r)))"

lemma read_field:
  assumes "flags \<in> {0, PAD_ZERO, PAD_RIGHT}" "\<forall>c \<in> set s. c \<noteq> CHR '' '' \<and> c \<noteq> CHR ''-''"
  shows "read_text base (field width flags s) = int (read_number base s)"
    "flags \<noteq> PAD_ZERO \<Longrightarrow> read_text base (field width flags (CHR ''-'' # s)) = - int (read_number base s)"
    "read_text base (CHR ''-'' # field width PAD_ZERO s) = - int (read_number base s)"
proof -
  have f: "filter (\<lambda>c. c \<noteq> CHR '' '') s = s" using assms(2) by (simp add: filter_id_conv)
  have z: "filter (\<lambda>c. c \<noteq> CHR '' '') (replicate n (CHR ''0'')) = replicate n (CHR ''0'')" for n by (simp add: filter_id_conv)
  have n: "read_text base t = int (read_number base t)" if "\<forall>c \<in> set t. c \<noteq> CHR '' '' \<and> c \<noteq> CHR ''-''" for t
  proof -
    have "filter (\<lambda>c. c \<noteq> CHR '' '') t = t" using that by (simp add: filter_id_conv)
    then show ?thesis using that by (cases t) (auto simp: read_text_def read_number_def)
  qed
  have e: "filter (\<lambda>c. c \<noteq> CHR '' '') (field width flags s) = s" if "flags \<noteq> PAD_ZERO" for width
    using that assms(1) by (auto simp: field_def f pad_char_def PAD_ZERO_def PAD_RIGHT_def)
  have "read_text base (field width flags s) = read_text base (filter (\<lambda>c. c \<noteq> CHR '' '') (field width flags s))" by (simp add: read_text_def)
  then show "read_text base (field width flags s) = int (read_number base s)"
  proof (cases "flags = PAD_ZERO")
    case True
    then have "field width flags s = replicate (pad_len width s) (CHR ''0'') @ s" by (simp add: field_def pad_char_def PAD_ZERO_def)
    moreover have "\<forall>c \<in> set (replicate k (CHR ''0'') @ s). c \<noteq> CHR '' '' \<and> c \<noteq> CHR ''-''" for k
      using assms(2) by (cases k) (simp_all add: ball_Un)
    from n [OF this] have "read_text base (replicate k (CHR ''0'') @ s) = int (read_number base s)" for k by (simp only: read_number_zeros)
    ultimately show ?thesis by simp
  next
    case False
    with e n [OF assms(2)] f show ?thesis by (simp add: read_text_def)
  qed
  show "flags \<noteq> PAD_ZERO \<Longrightarrow> read_text base (field width flags (CHR ''-'' # s)) = - int (read_number base s)"
    using assms(1) by (auto simp: field_def f pad_char_def PAD_ZERO_def PAD_RIGHT_def read_text_def)
  show "read_text base (CHR ''-'' # field width PAD_ZERO s) = - int (read_number base s)"
    by (simp add: field_def pad_char_def PAD_ZERO_def read_text_def f z read_number_zeros)
qed

lemma unat_minus_sint: "i <s 0 \<Longrightarrow> int (unat (- i :: u32)) = - sint i"
proof -
  assume "i <s 0"
  then have n: "sint i < 0" by (simp add: word_sless_alt)
  have lo: "- (2 ^ 31) \<le> sint i" using sint_ge [of i] by simp
  have "- i = word_of_int (- sint i)" by simp
  then have "uint (- i) = (- sint i) mod 2 ^ 32" by (simp only: uint_word_of_int_eq take_bit_eq_mod) simp
  also have "\<dots> = - sint i" using n lo by (intro mod_pos_pos_trivial) simp_all
  finally show ?thesis by simp
qed

section \<open>Property\<close>

text \<open>
  C40. Printed numbers read back: a conversion of a 32-bit number to base 10 or 16 that has no flag, the flag for zeros in front or
  the flag for left-justified fields writes at least the field width, counts what it writes, and its text reads as the number,
  signed for the signed conversion. With both flags it does not (\<open>zeros_behind\<close>).
\<close>

theorem printed_number_reads_back:
  assumes "flags \<in> {0, PAD_ZERO, PAD_RIGHT}" "base \<in> {10, 16}" "letbase \<in> {65, 97}"
  shows "\<exists>t. simple_outputi out i base sign width flags letbase = (length t, out @ t) \<and> nat width \<le> length t \<and>
     read_text base t = (if sign \<and> base = 10 then sint i else uint i)"
proof (cases "i = 0")
  case True
  have "read_text base (field width flags ''0'') = 0" using read_field(1) [OF assms(1), of "''0''" base width] by (simp add: read_number_def digit_value_def Let_def)
  with True show ?thesis by (intro exI [of _ "field width flags ''0''"]) (simp add: simple_outputi_def prints_eq length_field)
next
  case False
  define neg where "neg \<longleftrightarrow> sign \<and> base = 10 \<and> i <s 0"
  define u where "u = (if neg then - i else i)"
  define s where "s = digit_loop base letbase (unat u) []"
  have b: "2 \<le> base" "base \<le> 16" using assms(2) by auto
  have ns: "\<forall>c \<in> set s. c \<noteq> CHR '' '' \<and> c \<noteq> CHR ''-''" unfolding s_def by (rule digit_loop_no_sign [OF b assms(3)]) simp
  have rd: "read_number base s = unat u" using digit_loop_reads [OF b assms(3), of "unat u" "[]"] by (simp add: s_def read_number_def)
  have val: "(if neg then - int (unat u) else int (unat u)) = (if sign \<and> base = 10 then sint i else uint i)"
  proof (cases neg)
    case True
    then show ?thesis using unat_minus_sint [of i] by (simp add: neg_def u_def)
  next
    case nn: False
    have "sint i = uint i" if "\<not> i <s 0" using that sint_lt [of i] uint_sint [of i] by (simp add: word_sless_alt take_bit_eq_mod)
    with nn show ?thesis by (auto simp: neg_def u_def)
  qed
  have o: "simple_outputi out i base sign width flags letbase =
      (if neg then if width \<noteq> 0 \<and> odd flags then (case prints (simple_outputchar out CHR ''-'') s (width - 1) flags of (n, out1) \<Rightarrow> (1 + n, out1))
         else prints out (CHR ''-'' # s) width flags else prints out s width flags)"
    using False by (simp add: simple_outputi_def Let_def neg_def u_def s_def)
  note F = read_field [OF assms(1) ns]
  consider "\<not> neg" | "neg" "flags \<noteq> PAD_ZERO" | "neg" "flags = PAD_ZERO" "width \<noteq> 0" | "neg" "flags = PAD_ZERO" "width = 0" by blast
  then show ?thesis
  proof cases
    case 1
    then show ?thesis using val rd F(1) [of base width] by (intro exI [of _ "field width flags s"]) (simp add: o prints_eq length_field)
  next
    case 2
    then have "even flags" using assms(1) by (auto simp: PAD_ZERO_def PAD_RIGHT_def)
    with 2 show ?thesis using val rd F(2) [of base width] by (intro exI [of _ "field width flags (CHR ''-'' # s)"]) (simp add: o prints_eq length_field)
  next
    case 3
    note o3 = o [unfolded \<open>flags = PAD_ZERO\<close>]
    from 3 show ?thesis using val rd F(3) [of base "width - 1"]
      by (intro exI [of _ "CHR ''-'' # field (width - 1) PAD_ZERO s"]) (simp add: o3 prints_eq length_field simple_outputchar_def, simp add: PAD_ZERO_def)
  next
    case 4
    note o4 = o [unfolded \<open>flags = PAD_ZERO\<close> \<open>width = 0\<close>]
    from 4 have "field width flags (CHR ''-'' # s) = CHR ''-'' # field 0 PAD_ZERO s" by (simp add: field_def pad_len_def PAD_ZERO_def)
    with 4 show ?thesis using val rd F(3) [of base 0] by (intro exI [of _ "CHR ''-'' # field 0 PAD_ZERO s"]) (simp add: o4 prints_eq)
  qed
qed

theorem printed_number_reads_back_witness:
  "\<exists>t. simple_outputi ''x='' (- 42) 10 True 6 PAD_ZERO 97 = (length t, ''x='' @ t) \<and> 6 \<le> length t \<and> read_text 10 t = - 42"
  using printed_number_reads_back [of PAD_ZERO 10 97 "''x=''" "- 42" True 6] by simp

text \<open>With both flags the zeros go behind the digits, and a format that ends within a conversion is read past its end.\<close>

lemma zeros_behind: "simple_outputi [] 12 10 True 5 3 97 = (5, ''12000'')"
proof -
  have "digit_loop 10 97 12 [] = ''12''" by (simp add: digit_loop.simps digit_char_def char_of_def bit_iff_odd)
  moreover have "field 5 3 ''12'' = ''12000''" by (simp add: field_def pad_len_def pad_char_def numeral_3_eq_3 [symmetric], simp add: numeral_3_eq_3)
  ultimately show ?thesis by (simp add: simple_outputi_def Let_def prints_eq word_sless_alt)
qed

lemma format_overrun: "simple_snprintf n ''a%5'' args = None"
  by (simp add: simple_snprintf_def parse_spec_def parse_flags_def is_dec_def)

end
