(* ===== verification/Print_Lock.thy ===== *)
theory Print_Lock
  imports Uart_Print
begin

text \<open>
  The lock of the print device (\<open>_sync_print_\<close> of \<^verbatim>\<open>util.uart_print.c\<close>): four cores, one word of uncached memory,
  no atomic operation. A step of a core is one access to the word or to the device.
\<close>

definition DEV_IS_FREE :: u32 where "DEV_IS_FREE = 0xf"

text \<open>
  Where a core is in its call: the numbers are \<open>loop_count\<close> and \<open>loop_count_2\<close>; \<open>Outside\<close> is before and after a call.
\<close>

datatype print_pc = Outside | Waiting nat | Locking nat | Ensuring nat nat | Using | Releasing | Aborting

record print_st =
  print_request :: u32
  print_pc :: "nat \<Rightarrow> print_pc"
  print_device :: "(nat \<times> string) list"

definition init_printing :: print_st where
  "init_printing = \<lparr>print_request = DEV_IS_FREE, print_pc = (\<lambda>_. Outside), print_device = []\<rparr>"

definition set_pc :: "nat \<Rightarrow> print_pc \<Rightarrow> print_st \<Rightarrow> print_st" where
  "set_pc cpu pc s = s\<lparr>print_pc := (print_pc s)(cpu := pc)\<rparr>"

text \<open>A step of core \<open>cpu\<close> that prints \<open>buf\<close>; the entry is \<open>set_pc cpu (Waiting 0)\<close>. A lost lock starts over without counting.\<close>

definition sync_print_step :: "nat \<Rightarrow> string \<Rightarrow> print_st \<Rightarrow> print_st" where
  "sync_print_step cpu buf s =
     (case print_pc s cpu of
        Outside \<Rightarrow> s
      | Waiting n \<Rightarrow>
          (if n < 20000 then
             if print_request s = DEV_IS_FREE then set_pc cpu (Locking n) s else set_pc cpu (Waiting (n + 1)) s
           else set_pc cpu Aborting s)
      | Locking n \<Rightarrow> set_pc cpu (Ensuring n 0) (s\<lparr>print_request := of_nat cpu\<rparr>)
      | Ensuring n k \<Rightarrow>
          (if k < 10 then
             if print_request s \<noteq> of_nat cpu then set_pc cpu (Waiting n) s else set_pc cpu (Ensuring n (k + 1)) s
           else set_pc cpu Using s)
      | Using \<Rightarrow> set_pc cpu Releasing (s\<lparr>print_device := print_device s @ [(cpu, buf)]\<rparr>)
      | Releasing \<Rightarrow> set_pc cpu Outside (s\<lparr>print_request := DEV_IS_FREE\<rparr>)
      | Aborting \<Rightarrow> set_pc cpu Outside (s\<lparr>print_device := print_device s @ [(cpu, ''***ABORT***'')]\<rparr>))"

inductive print_run :: "print_st \<Rightarrow> bool" where
  print_init: "print_run init_printing"
| print_call: "print_run s \<Longrightarrow> cpu < 4 \<Longrightarrow> print_pc s cpu = Outside \<Longrightarrow> print_run (set_pc cpu (Waiting 0) s)"
| print_step: "print_run s \<Longrightarrow> cpu < 4 \<Longrightarrow> print_run (sync_print_step cpu buf s)"

section \<open>The lock is not lost\<close>

definition owns :: "print_pc \<Rightarrow> bool" where
  "owns pc \<longleftrightarrow> (case pc of Ensuring n k \<Rightarrow> True | Using \<Rightarrow> True | Releasing \<Rightarrow> True | _ \<Rightarrow> False)"

definition lock_ok :: "print_st \<Rightarrow> bool" where
  "lock_ok s \<longleftrightarrow> print_request s = DEV_IS_FREE \<or> (\<exists>cpu < 4. print_request s = of_nat cpu \<and> owns (print_pc s cpu))"

lemma core_word: "cpu < 4 \<Longrightarrow> cpu' < 4 \<Longrightarrow> (of_nat cpu :: u32) = of_nat cpu' \<longleftrightarrow> cpu = cpu'"
  "cpu < 4 \<Longrightarrow> (of_nat cpu :: u32) \<noteq> DEV_IS_FREE"
proof -
  assume "cpu < 4"
  then have c: "unat (of_nat cpu :: u32) = cpu" by (simp add: unat_of_nat)
  { assume "cpu' < 4"
    then have "unat (of_nat cpu' :: u32) = cpu'" by (simp add: unat_of_nat)
    with c show "(of_nat cpu :: u32) = of_nat cpu' \<longleftrightarrow> cpu = cpu'" by metis }
  show "(of_nat cpu :: u32) \<noteq> DEV_IS_FREE"
  proof
    assume "(of_nat cpu :: u32) = DEV_IS_FREE"
    then have "unat (of_nat cpu :: u32) = 15" by (simp add: DEV_IS_FREE_def)
    with c \<open>cpu < 4\<close> show False by simp
  qed
qed

lemma lock_ok_set_pc:
  assumes "lock_ok s" "owns pc \<or> print_request s \<noteq> of_nat cpu \<or> print_request s = DEV_IS_FREE"
  shows "lock_ok (set_pc cpu pc s)"
proof (cases "print_request s = DEV_IS_FREE")
  case False
  then obtain c where c: "c < 4" "print_request s = of_nat c" "owns (print_pc s c)" using assms(1) by (auto simp: lock_ok_def)
  then have "owns (print_pc (set_pc cpu pc s) c)" using assms(2) False by (auto simp: set_pc_def)
  with c show ?thesis by (auto simp: lock_ok_def set_pc_def)
qed (simp add: lock_ok_def set_pc_def)

lemma lock_ok_step:
  assumes ok: "lock_ok s" and c: "cpu < 4" shows "lock_ok (sync_print_step cpu buf s)"
proof -
  have own: "owns (print_pc s cpu) \<or> print_request s \<noteq> of_nat cpu \<or> print_request s = DEV_IS_FREE"
    using ok core_word(1) [OF _ c] by (auto simp: lock_ok_def)
  show ?thesis
  proof (cases "print_pc s cpu")
    case (Waiting n)
    then have "\<not> owns (print_pc s cpu)" by (simp add: owns_def)
    with own have "lock_ok (set_pc cpu pc s)" for pc using lock_ok_set_pc [OF ok] by blast
    with Waiting show ?thesis by (simp add: sync_print_step_def)
  next
    case (Locking n)
    then show ?thesis using c by (auto simp: sync_print_step_def lock_ok_def set_pc_def owns_def)
  next
    case (Ensuring n k)
    have "lock_ok (set_pc cpu (Ensuring n (k + 1)) s)" "lock_ok (set_pc cpu Using s)" using lock_ok_set_pc [OF ok] by (simp_all add: owns_def)
    moreover have "print_request s \<noteq> of_nat cpu \<Longrightarrow> lock_ok (set_pc cpu (Waiting n) s)" using lock_ok_set_pc [OF ok] by simp
    ultimately show ?thesis using Ensuring by (simp add: sync_print_step_def)
  next
    case Using
    have "lock_ok (s\<lparr>print_device := d\<rparr>)" for d using ok by (simp add: lock_ok_def)
    then show ?thesis using Using lock_ok_set_pc by (simp add: sync_print_step_def owns_def)
  next
    case Aborting
    then have "\<not> owns (print_pc s cpu)" by (simp add: owns_def)
    moreover have "lock_ok (s\<lparr>print_device := d\<rparr>)" for d using ok by (simp add: lock_ok_def)
    ultimately show ?thesis using Aborting own lock_ok_set_pc by (simp add: sync_print_step_def)
  qed (use ok in \<open>simp_all add: sync_print_step_def lock_ok_def set_pc_def\<close>)
qed

text \<open>In every run the lock word is free or names a core that is still in the device or on its way there.\<close>

lemma lock_ok_run: "print_run s \<Longrightarrow> lock_ok s"
proof (induction rule: print_run.induct)
  case print_init
  show ?case by (simp add: lock_ok_def init_printing_def)
next
  case (print_call s cpu)
  then have "\<not> owns (print_pc s cpu)" by (simp add: owns_def)
  with print_call core_word(1) have "print_request s \<noteq> of_nat cpu \<or> print_request s = DEV_IS_FREE" by (auto simp: lock_ok_def)
  with lock_ok_set_pc [OF print_call.IH] show ?case by blast
next
  case (print_step s cpu buf)
  then show ?case using lock_ok_step by blast
qed

text \<open>So when no core is printing, the device is free.\<close>

lemma print_lock_released: "print_run s \<Longrightarrow> (\<And>cpu. cpu < 4 \<Longrightarrow> \<not> owns (print_pc s cpu)) \<Longrightarrow> print_request s = DEV_IS_FREE"
  using lock_ok_run by (auto simp: lock_ok_def)

section \<open>Mutual exclusion\<close>

text \<open>
  A core alone prints and releases the device. But two cores that both have seen the device free both get it: the
  second one locks it after the first has finished its ten checks.
\<close>

definition steps_of :: "nat list \<Rightarrow> print_st \<Rightarrow> print_st" where
  "steps_of cpus = fold (\<lambda>cpu. sync_print_step cpu ''x'') cpus"

lemma print_run_steps: "print_run s \<Longrightarrow> list_all (\<lambda>c. c < 4) cpus \<Longrightarrow> print_run (steps_of cpus s)"
  by (induction cpus arbitrary: s) (auto simp: steps_of_def intro: print_step)

lemma two_cores_use_device: "\<exists>s. print_run s \<and> print_pc s 0 = Using \<and> print_pc s 1 = Using"
proof -
  let ?start = "set_pc 1 (Waiting 0) (set_pc 0 (Waiting 0) init_printing)"
  let ?s = "steps_of ([0, 1] @ replicate 12 0 @ replicate 12 1) ?start"
  have "print_run ?start" by (intro print_call print_init) (simp_all add: set_pc_def init_printing_def)
  from print_run_steps [OF this, of "[0, 1] @ replicate 12 0 @ replicate 12 1"] have "print_run ?s" by (simp add: list_all_iff)
  moreover have "print_pc ?s 0 = Using \<and> print_pc ?s 1 = Using"
    by (simp add: steps_of_def numeral_eq_Suc sync_print_step_def set_pc_def init_printing_def DEV_IS_FREE_def)
  ultimately show ?thesis by blast
qed

text \<open>A call when no other core is printing: one look at the lock, one store, ten checks and the exit of their loop, the text, the release.\<close>

lemma alone_prints:
  assumes "print_request s = DEV_IS_FREE" "print_pc s cpu = Outside" "cpu < 4"
  shows "(sync_print_step cpu buf ^^ 15) (set_pc cpu (Waiting 0) s) = s\<lparr>print_device := print_device s @ [(cpu, buf)]\<rparr>"
proof -
  have idem: "(print_pc s)(cpu := Outside) = print_pc s" using assms(2) by (metis fun_upd_triv)
  have st: "s\<lparr>print_pc := print_pc s, print_device := d, print_request := DEV_IS_FREE\<rparr> = s\<lparr>print_device := d\<rparr>" for d
    using assms(1) by (metis (full_types) print_st.surjective print_st.update_convs)
  show ?thesis
    using assms st [of "print_device s @ [(cpu, buf)]"] idem
    by (simp add: numeral_eq_Suc sync_print_step_def set_pc_def)
qed

section \<open>Property\<close>

text \<open>
  C35. The lock of the print device in every interleaving of the four cores: the word is free or names a core that is
  checking its lock, printing or releasing the device, so the device never stays locked by a core that has left. A core that
  prints while the others do not gets the device in 15 steps, writes its text once and leaves the lock as it was.
  The lock does not exclude a second core (\<open>two_cores_use_device\<close>).
\<close>

theorem print_lock_not_lost:
  assumes "print_run s"
  shows "(print_request s = DEV_IS_FREE \<or> (\<exists>cpu < 4. print_request s = of_nat cpu \<and>
       (print_pc s cpu \<in> {Using, Releasing} \<or> (\<exists>n k. print_pc s cpu = Ensuring n k)))) \<and>
    ((\<forall>c < 4. print_pc s c = Outside) \<longrightarrow> (\<forall>cpu < 4. (sync_print_step cpu buf ^^ 15) (set_pc cpu (Waiting 0) s) =
       s\<lparr>print_device := print_device s @ [(cpu, buf)]\<rparr>))"
proof -
  have "print_pc s cpu \<in> {Using, Releasing} \<or> (\<exists>n k. print_pc s cpu = Ensuring n k)" if "owns (print_pc s cpu)" for cpu
    using that by (cases "print_pc s cpu") (simp_all add: owns_def)
  with lock_ok_run [OF assms] have "print_request s = DEV_IS_FREE \<or> (\<exists>cpu < 4. print_request s = of_nat cpu \<and>
       (print_pc s cpu \<in> {Using, Releasing} \<or> (\<exists>n k. print_pc s cpu = Ensuring n k)))"
    unfolding lock_ok_def by blast
  moreover have "print_request s = DEV_IS_FREE" if "\<forall>c < 4. print_pc s c = Outside"
    using print_lock_released [OF assms] that by (simp add: owns_def)
  ultimately show ?thesis using alone_prints by simp
qed

theorem print_lock_not_lost_witness:
  "\<exists>s. print_run s \<and> print_pc s 0 = Using \<and> print_request s \<noteq> DEV_IS_FREE \<and> (\<exists>cpu < 4. print_request s = of_nat cpu) \<and>
     (sync_print_step 2 ''x'' ^^ 15) (set_pc 2 (Waiting 0) init_printing) = init_printing\<lparr>print_device := [(2, ''x'')]\<rparr>"
proof -
  let ?start = "set_pc 1 (Waiting 0) (set_pc 0 (Waiting 0) init_printing)"
  let ?s = "steps_of ([0, 1] @ replicate 12 0 @ replicate 12 1) ?start"
  have "print_run ?start" by (intro print_call print_init) (simp_all add: set_pc_def init_printing_def)
  from print_run_steps [OF this, of "[0, 1] @ replicate 12 0 @ replicate 12 1"] have r: "print_run ?s" by (simp add: list_all_iff)
  have q: "print_pc ?s 0 = Using" "print_request ?s = 1"
    by (simp_all add: steps_of_def numeral_eq_Suc sync_print_step_def set_pc_def init_printing_def)
  then have u: "print_pc ?s 0 = Using" "print_request ?s \<noteq> DEV_IS_FREE" by (simp_all add: DEV_IS_FREE_def)
  from print_lock_not_lost [OF r] u have "\<exists>cpu < 4. print_request ?s = of_nat cpu" by blast
  moreover from print_lock_not_lost [OF print_init, of "''x''"]
  have "(sync_print_step 2 ''x'' ^^ 15) (set_pc 2 (Waiting 0) init_printing) = init_printing\<lparr>print_device := [(2, ''x'')]\<rparr>"
    by (simp add: init_printing_def)
  ultimately show ?thesis using r u by blast
qed

end
