(* ===== verification/Nand_Ctrl.thy ===== *)
theory Nand_Ctrl
  imports Nand_Io
begin

text \<open>
  The NAND controller as the device model has it (\<^verbatim>\<open>iSSDNandCtrl.hh\<close>, \<^verbatim>\<open>iSSDNandCtrl.cc\<close>): the waiting room of
  commands of a channel, the chips with their command and address cycles, the DMA engine two channels share,
  and the events with which operations of chips and transfers complete. Register writes queue commands, events
  run at any later time; \<open>nc_run\<close> is the relation of all interleavings.
\<close>

unbundle bit_operations_syntax

section \<open>Queues\<close>

text \<open>\<open>Simple_FiFo\<close>; the array of entries is uninitialised memory, its content an argument of the constructor.\<close>

record 'a simple_fifo =
  ff_tail :: nat
  ff_head :: nat
  ff_items :: nat
  ff_isEmpty :: bool
  ff_isFull :: bool
  ff_entries :: "'a list"

definition en_size :: nat where "en_size = 1024"

definition Simple_FiFo :: "'a list \<Rightarrow> 'a simple_fifo" where
  "Simple_FiFo memory = \<lparr>ff_tail = 0, ff_head = 0, ff_items = 0, ff_isEmpty = True, ff_isFull = False, ff_entries = memory\<rparr>"

definition fifo_push :: "'a \<Rightarrow> 'a simple_fifo \<Rightarrow> int \<times> 'a simple_fifo" where
  "fifo_push data f =
     (if ff_isFull f then (0, f)
      else let t = (ff_tail f + 1) mod en_size in
        (1, f\<lparr>ff_entries := (ff_entries f)[ff_tail f := data], ff_tail := t, ff_items := ff_items f + 1,
              ff_isFull := (ff_isFull f \<or> ff_head f = t + 1), ff_isEmpty := False\<rparr>))"

definition fifo_front :: "'a simple_fifo \<Rightarrow> 'a option" where
  "fifo_front f = (if ff_isEmpty f then None else Some (ff_entries f ! ff_head f))"

definition pop_front :: "'a simple_fifo \<Rightarrow> int \<times> 'a simple_fifo" where
  "pop_front f =
     (if ff_isEmpty f then (0, f)
      else let h = (ff_head f + 1) mod en_size in
        (1, f\<lparr>ff_head := h, ff_items := ff_items f - 1, ff_isEmpty := (ff_isEmpty f \<or> h = ff_tail f), ff_isFull := False\<rparr>))"

definition fifo_pop :: "'a simple_fifo \<Rightarrow> 'a option \<times> 'a simple_fifo" where
  "fifo_pop f = (case fifo_front f of Some en \<Rightarrow> (Some en, snd (pop_front f)) | None \<Rightarrow> (None, f))"

section \<open>Commands and chips\<close>

definition CHIP_STATUS :: nat where "CHIP_STATUS = 24"
definition WAITING_ROOM_CMD_COUNT :: nat where "WAITING_ROOM_CMD_COUNT = 28"
definition ACTIVE_OPERATION_COUNT :: nat where "ACTIVE_OPERATION_COUNT = 32"
definition ERASE_NAND :: u32 where "ERASE_NAND = 0x8000D060"
definition INIT_NAND_CTRL :: u32 where "INIT_NAND_CTRL = 0x10"
definition NAND_CTRL_SHUTDOWN :: u32 where "NAND_CTRL_SHUTDOWN = 4"
definition NC_COMPLETE :: u32 where "NC_COMPLETE = 0x30000"

text \<open>\<open>NC_Command\<close>; \<open>chip_enabled\<close> is \<open>None\<close> while the pointer is uninitialised.\<close>

record nc_command =
  nc_data :: u32
  chip_enabled :: "nat option"
  addr_1 :: u32
  addr_2 :: u32
  ram_ptr :: u32
  nc_op :: u32
  data_phase_required :: bool

definition new_NC_Command :: nc_command where
  "new_NC_Command = \<lparr>nc_data = 0, chip_enabled = None, addr_1 = 0, addr_2 = 0, ram_ptr = 0, nc_op = 0, data_phase_required = False\<rparr>"

definition nand_start_cmd :: "nc_command \<Rightarrow> u8" where "nand_start_cmd cmd = ucast (nc_data cmd)"
definition nand_end_cmd :: "nc_command \<Rightarrow> u8" where "nand_end_cmd cmd = ucast (drop_bit 8 (nc_data cmd))"

text \<open>\<open>address_cycle.cycle[i].byte\<close>.\<close>

definition cycle_byte :: "nc_command \<Rightarrow> nat \<Rightarrow> u8" where
  "cycle_byte cmd i = (if i < 4 then ucast (drop_bit (8 * i) (addr_1 cmd)) else ucast (drop_bit (8 * (i - 4)) (addr_2 cmd)))"

record nc_chip =
  cmd_1 :: u8
  cmd_2 :: u8
  address_bytes :: "u8 list"
  address_count :: nat
  busy :: bool
  nand_page_reg :: mem
  pending_write_cmd :: "nc_command option"

text \<open>The parameters of the device that no geometry macro gives; times are in ticks.\<close>

record nc_params =
  media_type :: string
  ltcy_read_page :: nat
  ltcy_program_page :: nat
  ltcy_erase_block :: nat
  nand_ltcy_read_msb_page :: nat
  nand_ltcy_read_lsb_page :: nat
  nand_ltcy_program_msb_page :: nat
  nand_ltcy_program_lsb_page :: nat
  nand_ltcy_read_csb_page :: nat
  nand_ltcy_program_csb_page :: nat
  nand_ltcy_read_chsb_page :: nat
  nand_ltcy_read_clsb_page :: nat
  nand_ltcy_program_chsb_page :: nat
  nand_ltcy_program_clsb_page :: nat

definition get_read_ltcy :: "nc_params \<Rightarrow> nat \<Rightarrow> nat" where
  "get_read_ltcy p page_index =
     (if media_type p = ''slc'' then ltcy_read_page p
      else if media_type p = ''mlc'' then
        (if page_index mod 2 \<noteq> 0 then nand_ltcy_read_msb_page p else nand_ltcy_read_lsb_page p)
      else if media_type p = ''tlc'' then
        (let page_type = page_index mod 3 in
         if page_type = 0 then nand_ltcy_read_lsb_page p
         else if page_type = 1 then nand_ltcy_read_csb_page p
         else if page_type = 2 then nand_ltcy_read_msb_page p else 0)
      else if media_type p = ''qlc'' then
        (let page_type = page_index mod 4 in
         if page_type = 0 then nand_ltcy_read_lsb_page p
         else if page_type = 1 then nand_ltcy_read_clsb_page p
         else if page_type = 2 then nand_ltcy_read_chsb_page p
         else if page_type = 3 then nand_ltcy_read_msb_page p else 0)
      else 0)"

definition get_program_ltcy :: "nc_params \<Rightarrow> nat \<Rightarrow> nat" where
  "get_program_ltcy p page_index =
     (if media_type p = ''slc'' then ltcy_program_page p
      else if media_type p = ''mlc'' then
        (if page_index mod 2 \<noteq> 0 then nand_ltcy_program_msb_page p else nand_ltcy_program_lsb_page p)
      else if media_type p = ''tlc'' then
        (let page_type = page_index mod 3 in
         if page_type = 0 then nand_ltcy_program_lsb_page p
         else if page_type = 1 then nand_ltcy_program_csb_page p
         else if page_type = 2 then nand_ltcy_program_msb_page p else 0)
      else if media_type p = ''qlc'' then
        (let page_type = page_index mod 4 in
         if page_type = 0 then nand_ltcy_program_lsb_page p
         else if page_type = 1 then nand_ltcy_program_clsb_page p
         else if page_type = 2 then nand_ltcy_program_chsb_page p
         else if page_type = 3 then nand_ltcy_program_msb_page p else 0)
      else 0)"

text \<open>The five address cycles give page and block, the three cycles of an erase the block only.\<close>

definition decode_address_cycles_5 :: "nc_chip \<Rightarrow> nat \<times> nat" where
  "decode_address_cycles_5 ch =
     (unat (address_bytes ch ! 0) + 256 * unat (address_bytes ch ! 1), unat (address_bytes ch ! 2) + 256 * unat (address_bytes ch ! 3))"

definition decode_address_cycles_3 :: "nc_chip \<Rightarrow> nat" where
  "decode_address_cycles_3 ch = unat (address_bytes ch ! 2) + 256 * unat (address_bytes ch ! 3)"

text \<open>The offset in the image of page \<open>page\<close> of block \<open>block\<close>, in 32-bit arithmetic.\<close>

definition page_off :: "geo \<Rightarrow> nat \<Rightarrow> nat \<Rightarrow> nat \<Rightarrow> nat \<Rightarrow> nat" where
  "page_off g chn chip block page =
     (let planes_per_chn = of_nat (PKG_PER_CHANNEL g) * of_nat (DIES_PER_PKG g) * of_nat (PLANES_PER_DIE g) :: u32;
          pages_per_plane = of_nat (BLOCKS_PER_PLANE g) * of_nat (PAGES_PER_BLOCK g) :: u32;
          pages_per_chn = planes_per_chn * pages_per_plane;
          pg = of_nat chn * pages_per_chn + of_nat chip * pages_per_plane
               + of_nat block * of_nat (PAGES_PER_BLOCK g) + of_nat page
      in unat (pg * of_nat (NAND_PAGE_SIZE g)))"

text \<open>A chip works on itself and on the image; the first component of a result is the latency.\<close>

type_synonym chip_img = "nc_chip \<times> mem"

definition do_read :: "geo \<Rightarrow> nc_params \<Rightarrow> nat \<Rightarrow> nat \<Rightarrow> chip_img \<Rightarrow> nat \<times> chip_img" where
  "do_read g p chn chip ci =
     (case ci of (ch, img) \<Rightarrow> case decode_address_cycles_5 ch of (page, block) \<Rightarrow>
        (get_read_ltcy p page,
         ch\<lparr>busy := True, nand_page_reg := (\<lambda>i. img (page_off g chn chip block page + i))\<rparr>, img))"

definition do_program :: "geo \<Rightarrow> nc_params \<Rightarrow> nat \<Rightarrow> nat \<Rightarrow> chip_img \<Rightarrow> nat \<times> chip_img" where
  "do_program g p chn chip ci =
     (case ci of (ch, img) \<Rightarrow> case decode_address_cycles_5 ch of (page, block) \<Rightarrow>
        (get_program_ltcy p page, ch\<lparr>busy := True\<rparr>,
         put_bytes (NAND_PAGE_SIZE g) (page_off g chn chip block page) (nand_page_reg ch) img))"

definition do_erase :: "geo \<Rightarrow> nc_params \<Rightarrow> nat \<Rightarrow> nat \<Rightarrow> chip_img \<Rightarrow> nat \<times> chip_img" where
  "do_erase g p chn chip ci =
     (case ci of (ch, img) \<Rightarrow>
        (ltcy_erase_block p, ch\<lparr>busy := True\<rparr>,
         put_bytes (unat (of_nat (NAND_PAGE_SIZE g) * of_nat (PAGES_PER_BLOCK g) :: u32)) (page_off g chn chip (decode_address_cycles_3 ch) 0) (\<lambda>_. 0) img))"

definition clear_address :: "nc_chip \<Rightarrow> nc_chip" where
  "clear_address ch = ch\<lparr>address_bytes := replicate 5 0, address_count := 0\<rparr>"

definition write_command_cycle :: "geo \<Rightarrow> nc_params \<Rightarrow> nat \<Rightarrow> nat \<Rightarrow> u8 \<Rightarrow> chip_img \<Rightarrow> nat \<times> chip_img" where
  "write_command_cycle g p chn chip nand_cmd ci =
     (case ci of (ch, img) \<Rightarrow>
      if nand_cmd \<in> {0x80, 0x00, 0x60} then (0, (clear_address ch)\<lparr>cmd_1 := nand_cmd\<rparr>, img)
      else if nand_cmd = 0x30 then do_read g p chn chip (ch\<lparr>cmd_2 := nand_cmd\<rparr>, img)
      else if nand_cmd = 0x10 then do_program g p chn chip (ch\<lparr>cmd_2 := nand_cmd\<rparr>, img)
      else if nand_cmd = 0xD0 then do_erase g p chn chip (ch\<lparr>cmd_2 := nand_cmd\<rparr>, img)
      else (0, ch, img))"

text \<open>A sixth address byte without a new command would be written behind the array.\<close>

definition write_address_cycle :: "u8 \<Rightarrow> nc_chip \<Rightarrow> nc_chip option" where
  "write_address_cycle address_byte ch =
     (if address_count ch < 5 then
        Some (ch\<lparr>address_bytes := (address_bytes ch)[address_count ch := address_byte], address_count := address_count ch + 1\<rparr>)
      else None)"

definition operation_complete :: "nc_chip \<Rightarrow> nc_chip" where "operation_complete ch = ch\<lparr>busy := False\<rparr>"

definition NC_Chip :: "mem \<Rightarrow> nc_chip" where
  "NC_Chip page_reg = \<lparr>cmd_1 = 0, cmd_2 = 0, address_bytes = replicate 5 0, address_count = 0, busy = False,
     nand_page_reg = page_reg, pending_write_cmd = None\<rparr>"

section \<open>Channels, DMA engine and events\<close>

record nc_channel =
  chips :: "nc_chip list"
  chip_count :: nat
  new_cmd :: nc_command
  cmd_waiting_room :: "nc_command simple_fifo"
  active_nand_ops :: u8
  wait_dma_completion :: bool
  read_dma :: bool
  write_dma :: bool
  dma_ram_ptr :: u32
  dma_chip :: "nat option"

record nc_dma_engine =
  toggle :: bool
  current_chn :: "nat option"

text \<open>
  \<open>Dma_done\<close> is a transfer handed to the DMA port with the completion \<open>EventCompletionScheduler_1\<close>: controller,
  direction (true: from RAM to the page register), channel, chip and RAM address. \<open>Op_done\<close> is
  \<open>EventCompletionScheduler_2\<close>: channel, chip and the delay after which it is scheduled.
\<close>

datatype nc_event = Dma_done nat bool nat nat nat | Op_done nat nat nat

text \<open>Channels carry the number of the whole device: controller \<open>e\<close> has the channels \<open>2 * e\<close> and \<open>2 * e + 1\<close>.\<close>

record nc_st =
  channels :: "nat \<Rightarrow> nc_channel"
  engines :: "nat \<Rightarrow> nc_dma_engine"
  cmd_status :: "nat \<Rightarrow> u32"
  events :: "nc_event list"
  sys_ram :: mem
  image :: mem

definition upd_chn :: "nat \<Rightarrow> (nc_channel \<Rightarrow> nc_channel) \<Rightarrow> nc_st \<Rightarrow> nc_st" where
  "upd_chn c f s = s\<lparr>channels := (channels s)(c := f (channels s c))\<rparr>"

definition upd_chip :: "nat \<Rightarrow> (nc_chip \<Rightarrow> nc_chip) \<Rightarrow> nc_channel \<Rightarrow> nc_channel" where
  "upd_chip k f chn = chn\<lparr>chips := (chips chn)[k := f (chips chn ! k)]\<rparr>"

definition add_cmd_phase :: "nc_command \<Rightarrow> nc_channel \<Rightarrow> nc_channel" where
  "add_cmd_phase cmd chn =
     (let op = 0xFFFF AND nc_data cmd OR 0x80000000;
          c = cmd\<lparr>nc_op := op, data_phase_required := (data_phase_required cmd \<or> op = PROGRAM_NAND)\<rparr>
      in chn\<lparr>cmd_waiting_room := snd (fifo_push c (cmd_waiting_room chn))\<rparr>)"

definition add_data_phase :: "nc_command \<Rightarrow> nc_channel \<Rightarrow> nc_channel" where
  "add_data_phase cmd chn = chn\<lparr>cmd_waiting_room := snd (fifo_push (cmd\<lparr>nc_op := nc_data cmd\<rparr>) (cmd_waiting_room chn))\<rparr>"

definition cmd_waiting_room_size :: "nc_channel \<Rightarrow> nat" where
  "cmd_waiting_room_size chn = ff_items (cmd_waiting_room chn)"

definition NC_Channel :: "nat \<Rightarrow> mem \<Rightarrow> nc_command list \<Rightarrow> nc_channel" where
  "NC_Channel num_chips page_reg room =
     \<lparr>chips = map (\<lambda>i. NC_Chip page_reg) [0..<num_chips], chip_count = num_chips, new_cmd = new_NC_Command,
      cmd_waiting_room = Simple_FiFo room, active_nand_ops = 0, wait_dma_completion = False, read_dma = False,
      write_dma = False, dma_ram_ptr = 0, dma_chip = None\<rparr>"

text \<open>The constructor of the controllers; \<open>toggle\<close> and the contents of new memory are not initialised.\<close>

definition init_nand_ctrls :: "geo \<Rightarrow> (nat \<Rightarrow> bool) \<Rightarrow> mem \<Rightarrow> nc_command list \<Rightarrow> mem \<Rightarrow> mem \<Rightarrow> nc_st" where
  "init_nand_ctrls g tg page_reg room r img =
     \<lparr>channels = (\<lambda>c. NC_Channel (PKG_PER_CHANNEL g * DIES_PER_PKG g * PLANES_PER_DIE g) page_reg room),
      engines = (\<lambda>e. \<lparr>toggle = tg e, current_chn = None\<rparr>), cmd_status = (\<lambda>_. 0), events = [], sys_ram = r, image = img\<rparr>"

definition schedule_ev :: "nc_event \<Rightarrow> nc_st \<Rightarrow> nc_st" where
  "schedule_ev ev s = s\<lparr>events := events s @ [ev]\<rparr>"

definition run_dma :: "nat \<Rightarrow> nc_st \<Rightarrow> nc_st option" where
  "run_dma e s =
     (let eng = engines s e; w = (\<lambda>c. wait_dma_completion (channels s c));
          first = (if toggle eng then 2 * e else 2 * e + 1); second = (if toggle eng then 2 * e + 1 else 2 * e);
          cur = (if w first then Some first else if w second then Some second else current_chn eng);
          s1 = s\<lparr>engines := (engines s)(e := eng\<lparr>toggle := \<not> toggle eng, current_chn := cur\<rparr>)\<rparr> in
      case cur of
        None \<Rightarrow> Some s1
      | Some c \<Rightarrow>
          (case dma_chip (channels s c) of
             None \<Rightarrow> None
           | Some k \<Rightarrow>
               if read_dma (channels s c) then Some (schedule_ev (Dma_done e True c k (unat (dma_ram_ptr (channels s c)))) s1)
               else if write_dma (channels s c) then Some (schedule_ev (Dma_done e False c k (unat (dma_ram_ptr (channels s c)))) s1)
               else Some s1))"

definition process_dma :: "nat \<Rightarrow> nc_st \<Rightarrow> nc_st option" where
  "process_dma e s = (if current_chn (engines s e) \<noteq> None then Some s else run_dma e s)"

section \<open>Processing of the waiting room\<close>

text \<open>An access to a chip by its pointer; an uninitialised pointer is a fault.\<close>

definition on_chip :: "nat \<Rightarrow> nat \<Rightarrow> (chip_img \<Rightarrow> (nat \<times> chip_img) option) \<Rightarrow> nc_st \<Rightarrow> (nat \<times> nc_st) option" where
  "on_chip c k f s =
     (if k < length (chips (channels s c)) then
        (case f (chips (channels s c) ! k, image s) of
           None \<Rightarrow> None
         | Some (t, ch, img) \<Rightarrow> Some (t, (upd_chn c (upd_chip k (\<lambda>_. ch)) s)\<lparr>image := img\<rparr>))
      else None)"

definition address_cycles :: "nc_command \<Rightarrow> nc_chip \<Rightarrow> nc_chip option" where
  "address_cycles cmd ch =
     do {
       ch \<leftarrow> write_address_cycle (cycle_byte cmd 0) ch;
       ch \<leftarrow> write_address_cycle (cycle_byte cmd 1) ch;
       ch \<leftarrow> write_address_cycle (cycle_byte cmd 2) ch;
       ch \<leftarrow> write_address_cycle (cycle_byte cmd 3) ch;
       write_address_cycle (cycle_byte cmd 4) ch
     }"

text \<open>The first command cycle and the address cycles of a command, and all its cycles.\<close>

definition start_cycles :: "geo \<Rightarrow> nc_params \<Rightarrow> nat \<Rightarrow> nat \<Rightarrow> nc_command \<Rightarrow> chip_img \<Rightarrow> (nat \<times> chip_img) option" where
  "start_cycles g p c k cmd ci =
     (case write_command_cycle g p c k (nand_start_cmd cmd) ci of (t1, ch, img) \<Rightarrow>
        do { ch1 \<leftarrow> address_cycles cmd ch; Some (t1, ch1, img) })"

definition all_cycles :: "geo \<Rightarrow> nc_params \<Rightarrow> nat \<Rightarrow> nat \<Rightarrow> nc_command \<Rightarrow> chip_img \<Rightarrow> (nat \<times> chip_img) option" where
  "all_cycles g p c k cmd ci =
     do {
       (t1, ci1) \<leftarrow> start_cycles g p c k cmd ci;
       let (t3, ci2) = write_command_cycle g p c k (nand_end_cmd cmd) ci1;
       Some (t1 + t3, ci2)
     }"

text \<open>\<open>active_nand_ops\<close> is an 8-bit counter.\<close>

definition add_active :: "u8 \<Rightarrow> nc_channel \<Rightarrow> nc_channel" where
  "add_active d chn = chn\<lparr>active_nand_ops := active_nand_ops chn + d\<rparr>"

definition start_dma :: "bool \<Rightarrow> nc_command \<Rightarrow> nc_channel \<Rightarrow> nc_channel" where
  "start_dma is_read cmd chn = (add_active 1 chn)
     \<lparr>read_dma := (read_dma chn \<or> is_read), write_dma := (write_dma chn \<or> \<not> is_read), dma_ram_ptr := ram_ptr cmd,
      dma_chip := chip_enabled cmd, wait_dma_completion := True\<rparr>"

text \<open>What is done with a command at the front of the room whose chip \<open>k\<close> is not busy.\<close>

definition dispatch_cmd :: "geo \<Rightarrow> nc_params \<Rightarrow> nat \<Rightarrow> nat \<Rightarrow> nc_command \<Rightarrow> nc_st \<Rightarrow> nc_st option" where
  "dispatch_cmd g p c k cmd s =
     (if nc_op cmd = READ_NAND \<or> nc_op cmd = ERASE_NAND then
        do { (t, s1) \<leftarrow> on_chip c k (all_cycles g p c k cmd) s;
             Some (schedule_ev (Op_done c k t) (upd_chn c (add_active 1) s1)) }
      else if nc_op cmd = PROGRAM_NAND then
        do { (t, s1) \<leftarrow> on_chip c k (start_cycles g p c k cmd) s;
             Some (upd_chn c (upd_chip k (\<lambda>ch. ch\<lparr>pending_write_cmd := Some cmd\<rparr>)) s1) }
      else if nc_op cmd = READ_DMA then process_dma (c div 2) (upd_chn c (start_dma True cmd) s)
      else if nc_op cmd = WRITE_DMA then process_dma (c div 2) (upd_chn c (start_dma False cmd) s)
      else Some s)"

definition pop_cmd :: "nat \<Rightarrow> nc_st \<Rightarrow> nc_st" where
  "pop_cmd c s = upd_chn c (\<lambda>chn. chn\<lparr>cmd_waiting_room := snd (pop_front (cmd_waiting_room chn))\<rparr>) s"

partial_function (option) process_waiting_room_cmd :: "geo \<Rightarrow> nc_params \<Rightarrow> nat \<Rightarrow> nc_st \<Rightarrow> nc_st option" where
  "process_waiting_room_cmd g p c s =
     (if wait_dma_completion (channels s c) then Some s
      else case fifo_front (cmd_waiting_room (channels s c)) of
        None \<Rightarrow> Some s
      | Some cmd \<Rightarrow>
          (case chip_enabled cmd of
             None \<Rightarrow> None
           | Some k \<Rightarrow>
               if length (chips (channels s c)) \<le> k then None
               else if busy (chips (channels s c) ! k) then Some s
               else dispatch_cmd g p c k cmd s \<bind> (\<lambda>s1. process_waiting_room_cmd g p c (pop_cmd c s1))))"

section \<open>Completions\<close>

definition dma_finish :: "geo \<Rightarrow> nc_params \<Rightarrow> nat \<Rightarrow> nc_st \<Rightarrow> nc_st option" where
  "dma_finish g p c s =
     (if read_dma (channels s c) then
        (case dma_chip (channels s c) of None \<Rightarrow> None | Some k \<Rightarrow>
         if length (chips (channels s c)) \<le> k then None
         else case pending_write_cmd (chips (channels s c) ! k) of
           None \<Rightarrow> Some s
         | Some cmd \<Rightarrow>
             do {
               (t1, s1) \<leftarrow> on_chip c k (Some \<circ> write_command_cycle g p c k (nand_end_cmd cmd))
                 (upd_chn c (upd_chip k (\<lambda>ch. ch\<lparr>pending_write_cmd := None\<rparr>)) s);
               Some (schedule_ev (Op_done c k t1) (upd_chn c (\<lambda>chn. (add_active 1 chn)\<lparr>read_dma := False\<rparr>) s1))
             })
      else if write_dma (channels s c) then Some (upd_chn c (\<lambda>chn. chn\<lparr>write_dma := False\<rparr>) s)
      else Some s)"

definition end_dma :: "nc_channel \<Rightarrow> nc_channel" where
  "end_dma chn = chn\<lparr>dma_chip := None, dma_ram_ptr := 0, wait_dma_completion := False\<rparr>"

definition dma_complete_call_back :: "geo \<Rightarrow> nc_params \<Rightarrow> nat \<Rightarrow> nc_st \<Rightarrow> nc_st option" where
  "dma_complete_call_back g p e s =
     do {
       c \<leftarrow> current_chn (engines s e);
       s2 \<leftarrow> dma_finish g p c (upd_chn c (add_active (- 1)) s);
       let s3 = s2\<lparr>engines := (engines s2)(e := (engines s2 e)\<lparr>current_chn := None\<rparr>)\<rparr>;
       s4 \<leftarrow> run_dma e (upd_chn c end_dma s3);
       process_waiting_room_cmd g p c s4
     }"

definition operation_complete_call_back :: "geo \<Rightarrow> nc_params \<Rightarrow> nat \<Rightarrow> nat \<Rightarrow> nc_st \<Rightarrow> nc_st option" where
  "operation_complete_call_back g p c k s =
     process_waiting_room_cmd g p c (upd_chn c (upd_chip k operation_complete) (upd_chn c (add_active (- 1)) s))"

text \<open>The DMA port moves one page between the page register of the chip and memory, then the event runs.\<close>

definition dma_transfer_page :: "geo \<Rightarrow> bool \<Rightarrow> nat \<Rightarrow> nat \<Rightarrow> nat \<Rightarrow> nc_st \<Rightarrow> nc_st" where
  "dma_transfer_page g is_read c k a s =
     (if is_read then upd_chn c (upd_chip k (\<lambda>ch. ch\<lparr>nand_page_reg := (\<lambda>i. sys_ram s (a + i))\<rparr>)) s
      else s\<lparr>sys_ram := put_bytes (NAND_PAGE_SIZE g) a (nand_page_reg (chips (channels s c) ! k)) (sys_ram s)\<rparr>)"

fun fire_event :: "geo \<Rightarrow> nc_params \<Rightarrow> nc_event \<Rightarrow> nc_st \<Rightarrow> nc_st option" where
  "fire_event g p (Dma_done e is_read c k a) s = dma_complete_call_back g p e (dma_transfer_page g is_read c k a s)"
| "fire_event g p (Op_done c k t) s = operation_complete_call_back g p c k s"

section \<open>Registers\<close>

definition chn_write :: "geo \<Rightarrow> nc_params \<Rightarrow> nat \<Rightarrow> nat \<Rightarrow> u32 \<Rightarrow> nc_st \<Rightarrow> nc_st option" where
  "chn_write g p c offset_2 data s =
     (let chn = channels s c; cmd = new_cmd chn; set = (\<lambda>cmd. upd_chn c (\<lambda>chn. chn\<lparr>new_cmd := cmd\<rparr>) s);
          queue = (\<lambda>add. let room_is_empty = ff_isEmpty (cmd_waiting_room chn);
                             s1 = upd_chn c (add (cmd\<lparr>nc_data := data\<rparr>)) s in
             do { s2 \<leftarrow> (if room_is_empty then process_waiting_room_cmd g p c s1 else Some s1);
                  Some (upd_chn c (\<lambda>chn. chn\<lparr>new_cmd := new_NC_Command\<rparr>) s2) }) in
      if offset_2 = CHIP_SELECT_REG then
        (if unat data > chip_count chn then None else Some (set (cmd\<lparr>chip_enabled := Some (unat data)\<rparr>)))
      else if offset_2 = ADDRESS_CYCLE_REG_1 then Some (set (cmd\<lparr>addr_1 := data\<rparr>))
      else if offset_2 = ADDRESS_CYCLE_REG_2 then Some (set (cmd\<lparr>addr_2 := data\<rparr>))
      else if offset_2 = DMA_RAM_PTR then Some (set (cmd\<lparr>ram_ptr := data\<rparr>))
      else if offset_2 = CMD_PHASE_CMD_REG then queue add_cmd_phase
      else if offset_2 = DMA_PHASE_CMD_REG then queue add_data_phase
      else Some s)"

text \<open>
  The command register of a controller: the image is loaded or written back at once, by the file system of the
  simulator, so that only the status shows; \<open>usingShmMem\<close> and file errors are left out.
\<close>

definition nc_write :: "geo \<Rightarrow> nc_params \<Rightarrow> nat \<Rightarrow> nat \<Rightarrow> u32 \<Rightarrow> nc_st \<Rightarrow> nc_st option" where
  "nc_write g p e offset data s =
     (if offset \<ge> CHANNEL_1_BASE_ADDR then chn_write g p (2 * e + 1) (offset - CHANNEL_1_BASE_ADDR) data s
      else if offset \<ge> CHANNEL_0_BASE_ADDR then chn_write g p (2 * e) (offset - CHANNEL_0_BASE_ADDR) data s
      else if offset = 0 \<and> data \<in> {INIT_NAND_CTRL, NAND_CTRL_SHUTDOWN} then
        Some (s\<lparr>cmd_status := (cmd_status s)(e := NC_COMPLETE)\<rparr>)
      else Some s)"

text \<open>A read answers with the value; other registers than the ones below are never initialised.\<close>

definition chn_read :: "nat \<Rightarrow> nat \<Rightarrow> nc_st \<Rightarrow> u32 option" where
  "chn_read c offset_2 s =
     (let chn = channels s c in
      if offset_2 = CHIP_STATUS then Some 0
      else if offset_2 = WAITING_ROOM_CMD_COUNT then Some (of_nat (cmd_waiting_room_size chn))
      else if offset_2 = ACTIVE_OPERATION_COUNT then Some (ucast (active_nand_ops chn) + of_nat (cmd_waiting_room_size chn))
      else None)"

definition nc_read :: "nat \<Rightarrow> nat \<Rightarrow> nc_st \<Rightarrow> u32 option" where
  "nc_read e offset s =
     (if offset \<ge> CHANNEL_1_BASE_ADDR then chn_read (2 * e + 1) (offset - CHANNEL_1_BASE_ADDR) s
      else if offset \<ge> CHANNEL_0_BASE_ADDR then chn_read (2 * e) (offset - CHANNEL_0_BASE_ADDR) s
      else if offset = 4 then Some (cmd_status s e)
      else None)"

section \<open>Runs\<close>

definition nc_bus_write :: "geo \<Rightarrow> nc_params \<Rightarrow> nat \<Rightarrow> u32 \<Rightarrow> nc_st \<Rightarrow> nc_st option" where
  "nc_bus_write g p addr data s =
     (let a = addr - get_dev_address DEV_NAND_CTRL in nc_write g p (a div 0x1000) (a mod 0x1000) data s)"

definition nc_bus_read :: "nat \<Rightarrow> nc_st \<Rightarrow> u32 option" where
  "nc_bus_read addr s =
     (let a = addr - get_dev_address DEV_NAND_CTRL in nc_read (a div 0x1000) (a mod 0x1000) s)"

text \<open>
  The handshakes of the driver. A controller handles its command within the write, so the status a first read finds
  does not change any more: when it is not \<open>COMPLETE\<close> the loop does not end.
\<close>

definition wait_complete :: "nat \<Rightarrow> nc_st \<Rightarrow> nc_st option" where
  "wait_complete base s = (if nc_bus_read (base + 4) s = Some NC_COMPLETE then Some s else None)"

fun initialize_nand_ctrl :: "geo \<Rightarrow> nc_params \<Rightarrow> nat list \<Rightarrow> nc_st \<Rightarrow> nc_st option" where
  "initialize_nand_ctrl g p [] s = Some s"
| "initialize_nand_ctrl g p (ctrl_base_addr # ctrls) s =
     do {
       s1 \<leftarrow> nc_bus_write g p ctrl_base_addr INIT_NAND_CTRL s;
       s2 \<leftarrow> wait_complete ctrl_base_addr s1;
       initialize_nand_ctrl g p ctrls s2
     }"

definition ctrl_base_addrs :: "geo \<Rightarrow> nat list" where
  "ctrl_base_addrs g = map (\<lambda>ictrl. get_dev_address DEV_NAND_CTRL + ictrl * 0x1000) [0..<NUM_NAND_CTRLS g]"

definition shutdown_nand_io_driver :: "geo \<Rightarrow> nc_params \<Rightarrow> nc_st \<Rightarrow> (nat \<times> nc_st) option" where
  "shutdown_nand_io_driver g p s =
     do {
       s1 \<leftarrow> nc_bus_write g p (get_dev_address DEV_NAND_CTRL) NAND_CTRL_SHUTDOWN s;
       s2 \<leftarrow> wait_complete (get_dev_address DEV_NAND_CTRL) s1;
       Some (0, s2)
     }"

text \<open>One event of the event queue; and all interleavings of the register writes of the firmware with events.\<close>

inductive nc_event_step :: "geo \<Rightarrow> nc_params \<Rightarrow> nc_st \<Rightarrow> nc_st \<Rightarrow> bool" for g p where
  fires: "ev \<in> set (events s) \<Longrightarrow> fire_event g p ev (s\<lparr>events := remove1 ev (events s)\<rparr>) = Some s' \<Longrightarrow> nc_event_step g p s s'"

inductive nc_run :: "geo \<Rightarrow> nc_params \<Rightarrow> (nat \<times> u32) list \<Rightarrow> nc_st \<Rightarrow> nc_st \<Rightarrow> bool" for g p where
  finished: "nc_run g p [] s s"
| bus_write: "nc_bus_write g p a d s = Some s1 \<Longrightarrow> nc_run g p ws s1 s2 \<Longrightarrow> nc_run g p ((a, d) # ws) s s2"
| by_event: "nc_event_step g p s s1 \<Longrightarrow> nc_run g p ws s1 s2 \<Longrightarrow> nc_run g p ws s s2"

text \<open>
  The status the driver polls: the sum of the active operations of all channels, in 32 bits. One round of the loop
  reads the channels one after the other, and events happen between the reads.
\<close>

definition poll_status :: "geo \<Rightarrow> nc_st \<Rightarrow> u32" where
  "poll_status g s = sum_list (map (\<lambda>c. case chn_read c ACTIVE_OPERATION_COUNT s of Some v \<Rightarrow> v | None \<Rightarrow> 0) [0..<NUM_CHANNELS g])"

inductive poll_round :: "geo \<Rightarrow> nc_params \<Rightarrow> nat list \<Rightarrow> nc_st \<Rightarrow> u32 \<Rightarrow> nc_st \<Rightarrow> bool" for g p where
  poll_end: "poll_round g p [] s 0 s"
| poll_read: "chn_read c ACTIVE_OPERATION_COUNT s = Some v \<Longrightarrow> poll_round g p cs s w s' \<Longrightarrow> poll_round g p (c # cs) s (v + w) s'"
| poll_event: "nc_event_step g p s s1 \<Longrightarrow> poll_round g p cs s1 w s' \<Longrightarrow> poll_round g p cs s w s'"

text \<open>A wait that ends: all writes are made, and after any events a round of the loop reads zero.\<close>

definition nc_waited :: "geo \<Rightarrow> nc_params \<Rightarrow> (nat \<times> u32) list \<Rightarrow> nc_st \<Rightarrow> nc_st \<Rightarrow> bool" where
  "nc_waited g p ws s s' \<longleftrightarrow> (\<exists>s1. nc_run g p ws s s1 \<and> poll_round g p [0..<NUM_CHANNELS g] s1 0 s')"

end
