(* ===== verification/Nand_Ctrl_Inv.thy ===== *)
theory Nand_Ctrl_Inv
  imports Nand_Ctrl
begin

text \<open>
  The invariant of the event-driven NAND controller and its refinement of atomic commands: the data part of the
  state (memory, image, page registers, latched rows, pending programs) changes only by whole commands, and the
  commands of a channel take effect in the order in which they were queued.
\<close>

section \<open>The waiting room\<close>

definition fifo_ok :: "'a simple_fifo \<Rightarrow> bool" where
  "fifo_ok f \<longleftrightarrow> ff_head f < en_size \<and> ff_tail f < en_size \<and> length (ff_entries f) = en_size \<and>
     ff_items f = ring_len en_size (ff_head f) (ff_tail f) \<and> (ff_isEmpty f \<longleftrightarrow> ff_head f = ff_tail f) \<and>
     (ff_isFull f \<longrightarrow> ring_len en_size (ff_head f) (ff_tail f) = en_size - 1)"

definition room :: "'a simple_fifo \<Rightarrow> 'a list" where
  "room f = ring_list (ff_entries f) en_size (ff_head f) (ff_tail f)"

lemma fifo_new: "length memory = en_size \<Longrightarrow> fifo_ok (Simple_FiFo memory) \<and> room (Simple_FiFo memory) = []"
  by (simp add: fifo_ok_def room_def Simple_FiFo_def en_size_def ring_len_def ring_list_empty)

lemma fifo_items: "fifo_ok f \<Longrightarrow> ff_items f = length (room f)"
  by (simp add: fifo_ok_def room_def)

lemma fifo_empty: "fifo_ok f \<Longrightarrow> ff_isEmpty f \<longleftrightarrow> room f = []"
  by (auto simp: fifo_ok_def room_def ring_list_empty)

lemma fifo_push_room:
  assumes "fifo_ok f" "length (room f) < en_size - 1"
  shows "fst (fifo_push x f) = 1 \<and> fifo_ok (snd (fifo_push x f)) \<and> room (snd (fifo_push x f)) = room f @ [x]"
proof -
  have f: "ff_head f < en_size" "ff_tail f < en_size" "length (ff_entries f) = en_size" and nf: "\<not> ff_isFull f"
    using assms by (auto simp: fifo_ok_def room_def)
  have ne: "ff_head f \<noteq> (ff_tail f + 1) mod en_size"
    using ring_len_full [OF f(1,2)] assms(2) by (auto simp: room_def)
  have t: "(ff_tail f + 1) mod en_size < en_size" by (simp add: en_size_def)
  have e: "ring_len en_size (ff_head f) ((ff_tail f + 1) mod en_size) = Suc (ring_len en_size (ff_head f) (ff_tail f))"
    by (rule ring_len_enq [OF f(1,2) ne])
  have full: "ff_head f = (ff_tail f + 1) mod en_size + 1 \<Longrightarrow> Suc (ring_len en_size (ff_head f) (ff_tail f)) = en_size - 1"
    using ring_len_full [OF f(1) t] f(1) e by simp
  show ?thesis
    using assms(1) f nf ne t e full ring_list_enq [OF f(1,2,3) ne, of x]
    by (auto simp: fifo_push_def Let_def fifo_ok_def room_def)
qed

lemma fifo_front_room: "fifo_ok f \<Longrightarrow> room f = x # xs \<Longrightarrow> fifo_front f = Some x"
  using ring_list_deq [of "ff_head f" en_size "ff_tail f" "ff_entries f"] fifo_empty [of f]
  by (auto simp: fifo_ok_def room_def fifo_front_def ring_list_empty)

lemma fifo_front_none: "fifo_ok f \<Longrightarrow> room f = [] \<Longrightarrow> fifo_front f = None"
  using fifo_empty [of f] by (simp add: fifo_front_def)

lemma pop_front_room:
  assumes "fifo_ok f" "room f = x # xs"
  shows "fifo_ok (snd (pop_front f)) \<and> room (snd (pop_front f)) = xs"
proof -
  have f: "ff_head f < en_size" "ff_tail f < en_size" "\<not> ff_isEmpty f"
    using assms fifo_empty [OF assms(1)] by (auto simp: fifo_ok_def)
  then have ne: "ff_head f \<noteq> ff_tail f" using assms(1) by (simp add: fifo_ok_def)
  have h: "(ff_head f + 1) mod en_size < en_size" by (simp add: en_size_def)
  show ?thesis
    using assms f ne h ring_list_deq [OF f(1,2) ne, of "ff_entries f"] ring_len_deq [OF f(1,2) ne]
    by (auto simp: pop_front_def Let_def fifo_ok_def room_def)
qed

text \<open>The test for a full queue compares with the tail before it is reduced: with the head in slot 0 the room takes
  one command too many and then counts as empty of it.\<close>

lemma fifo_full_unseen:
  assumes "fifo_ok f" "ff_head f = 0" "length (room f) = en_size - 1" "\<not> ff_isFull f"
  shows "fst (fifo_push x f) = 1 \<and> room (snd (fifo_push x f)) = []"
proof -
  have "ff_tail f = en_size - 1" using assms by (simp add: fifo_ok_def room_def ring_len_cases)
  then show ?thesis using assms by (simp add: fifo_push_def Let_def room_def ring_list_def ring_len_def en_size_def)
qed

section \<open>Chips\<close>

definition row_of :: "nc_command \<Rightarrow> nat \<times> nat" where
  "row_of cmd = (unat (addr_1 cmd) mod 2 ^ 16, unat (addr_1 cmd) div 2 ^ 16)"

lemma unat_drop: "unat (drop_bit n (w :: u32)) = unat w div 2 ^ n"
  unfolding unat_drop_bit_eq by (rule drop_bit_eq_div)

lemma decode_cycles:
  assumes "address_bytes ch = map (cycle_byte cmd) [0..<5]"
  shows "decode_address_cycles_5 ch = row_of cmd" "decode_address_cycles_3 ch = snd (row_of cmd)"
proof -
  let ?a = "unat (addr_1 cmd)"
  have "[0..<5] = [0, 1, 2, 3, 4 :: nat]" by (simp add: upt_rec)
  moreover have "?a mod 256 + 256 * (?a div 256 mod 256) = ?a mod 65536" for w :: nat
    using mod_mult2_eq [of ?a 256 256] by simp
  moreover have "?a div 65536 mod 256 + 256 * (?a div 16777216 mod 256) = ?a div 65536"
  proof -
    have "?a < 65536 * 65536" using unsigned_less [of "addr_1 cmd", where ?'a = nat] by simp
    then have "?a div 65536 < 65536" by (rule less_mult_imp_div_less)
    then show ?thesis using mod_mult2_eq [of "?a div 65536" 256 256] by (simp add: div_mult2_eq [symmetric])
  qed
  ultimately show "decode_address_cycles_5 ch = row_of cmd" "decode_address_cycles_3 ch = snd (row_of cmd)"
    using assms by (simp_all add: decode_address_cycles_5_def decode_address_cycles_3_def row_of_def cycle_byte_def unat_drop unsigned_ucast_eq take_bit_eq_mod div_mult2_eq [symmetric])
qed

lemma address_cycles_eq:
  "address_count ch = 0 \<Longrightarrow> length (address_bytes ch) = 5 \<Longrightarrow>
   address_cycles cmd ch = Some (ch\<lparr>address_bytes := map (cycle_byte cmd) [0..<5], address_count := 5\<rparr>)"
proof -
  assume a: "address_count ch = 0" "length (address_bytes ch) = 5"
  then obtain x0 x1 x2 x3 x4 where "address_bytes ch = [x0, x1, x2, x3, x4]"
    by (auto simp: numeral_eq_Suc length_Suc_conv)
  moreover have "[0..<5] = [0, 1, 2, 3, 4 :: nat]" by (simp add: upt_rec)
  ultimately show ?thesis using a by (simp add: address_cycles_def write_address_cycle_def numeral_eq_Suc)
qed

definition latched :: "nc_command \<Rightarrow> nc_chip \<Rightarrow> nc_chip" where
  "latched cmd ch = ch\<lparr>address_bytes := map (cycle_byte cmd) [0..<5], address_count := 5, cmd_1 := nand_start_cmd cmd\<rparr>"

lemma start_cycles_eq:
  "nand_start_cmd cmd \<in> {0x80, 0x00, 0x60} \<Longrightarrow> start_cycles g p c k cmd (ch, img) = Some (0, latched cmd ch, img)"
  by (simp add: start_cycles_def write_command_cycle_def address_cycles_eq clear_address_def latched_def)

section \<open>Atomic commands\<close>

text \<open>The data of the device, and what a command does to it at once: a read fills the page register of its chip, a
  program and an erase latch their row, a transfer moves the page register and finishes a pending program.\<close>

datatype flash_cmd = F_read nat "nat \<times> nat" | F_program nat "nat \<times> nat" | F_erase nat "nat \<times> nat"
  | F_from_ram nat nat | F_to_ram nat nat | F_none

record flash_data =
  fd_ram :: mem
  fd_img :: mem
  fd_reg :: "nat \<Rightarrow> nat \<Rightarrow> mem"
  fd_row :: "nat \<Rightarrow> nat \<Rightarrow> nat \<times> nat"
  fd_pend :: "nat \<Rightarrow> nat \<Rightarrow> bool"

definition set2 :: "('a \<Rightarrow> 'b \<Rightarrow> 'v) \<Rightarrow> 'a \<Rightarrow> 'b \<Rightarrow> 'v \<Rightarrow> 'a \<Rightarrow> 'b \<Rightarrow> 'v" where
  "set2 f c k x = f(c := (f c)(k := x))"

lemma set2_apply [simp]: "set2 f c k x c' k' = (if c' = c \<and> k' = k then x else f c' k')"
  by (simp add: set2_def)

lemma set2_same [simp]: "set2 f c k (f c k) = f"
  by (simp add: set2_def)

definition row_off :: "geo \<Rightarrow> nat \<Rightarrow> nat \<Rightarrow> nat \<times> nat \<Rightarrow> nat" where
  "row_off g c k row = page_off g c k (snd row) (fst row)"

fun exec_flash :: "geo \<Rightarrow> nat \<Rightarrow> flash_cmd \<Rightarrow> flash_data \<Rightarrow> flash_data" where
  "exec_flash g c (F_read k row) d =
     d\<lparr>fd_row := set2 (fd_row d) c k row, fd_reg := set2 (fd_reg d) c k (\<lambda>i. fd_img d (row_off g c k row + i))\<rparr>"
| "exec_flash g c (F_program k row) d = d\<lparr>fd_row := set2 (fd_row d) c k row, fd_pend := set2 (fd_pend d) c k True\<rparr>"
| "exec_flash g c (F_erase k row) d =
     d\<lparr>fd_row := set2 (fd_row d) c k row,
       fd_img := put_bytes (unat (of_nat (NAND_PAGE_SIZE g) * of_nat (PAGES_PER_BLOCK g) :: u32)) (row_off g c k (0, snd row)) (\<lambda>_. 0) (fd_img d)\<rparr>"
| "exec_flash g c (F_from_ram k a) d =
     (let reg = (\<lambda>i. fd_ram d (a + i)); d1 = d\<lparr>fd_reg := set2 (fd_reg d) c k reg\<rparr> in
      if fd_pend d c k then
        d1\<lparr>fd_pend := set2 (fd_pend d) c k False, fd_img := put_bytes (NAND_PAGE_SIZE g) (row_off g c k (fd_row d c k)) reg (fd_img d)\<rparr>
      else d1)"
| "exec_flash g c (F_to_ram k a) d = d\<lparr>fd_ram := put_bytes (NAND_PAGE_SIZE g) a (fd_reg d c k) (fd_ram d)\<rparr>"
| "exec_flash g c F_none d = d"

definition cmd_of :: "nc_command \<Rightarrow> flash_cmd" where
  "cmd_of cmd = (let k = the (chip_enabled cmd) in
     if nc_op cmd = READ_NAND then F_read k (row_of cmd)
     else if nc_op cmd = PROGRAM_NAND then F_program k (row_of cmd)
     else if nc_op cmd = ERASE_NAND then F_erase k (row_of cmd)
     else if nc_op cmd = READ_DMA then F_from_ram k (unat (ram_ptr cmd))
     else if nc_op cmd = WRITE_DMA then F_to_ram k (unat (ram_ptr cmd))
     else F_none)"

definition absd :: "nc_st \<Rightarrow> flash_data" where
  "absd s = \<lparr>fd_ram = sys_ram s, fd_img = image s,
     fd_reg = (\<lambda>c k. nand_page_reg (chips (channels s c) ! k)),
     fd_row = (\<lambda>c k. decode_address_cycles_5 (chips (channels s c) ! k)),
     fd_pend = (\<lambda>c k. pending_write_cmd (chips (channels s c) ! k) \<noteq> None)\<rparr>"

text \<open>The commands of a channel that have not taken effect: the transfer in progress and the waiting room.\<close>

definition dma_cmd :: "nc_channel \<Rightarrow> flash_cmd" where
  "dma_cmd chn = (let k = the (dma_chip chn); a = unat (dma_ram_ptr chn) in if read_dma chn then F_from_ram k a else F_to_ram k a)"

definition todo :: "nc_channel \<Rightarrow> flash_cmd list" where
  "todo chn = (if wait_dma_completion chn then [dma_cmd chn] else []) @ map cmd_of (room (cmd_waiting_room chn))"

definition adv :: "geo \<Rightarrow> nat \<Rightarrow> nc_st \<Rightarrow> nc_st \<Rightarrow> bool" where
  "adv g c s s' \<longleftrightarrow> (\<exists>pre. todo (channels s c) = pre @ todo (channels s' c) \<and> absd s' = fold (exec_flash g c) pre (absd s))"

lemma adv_trans: "adv g c s s1 \<Longrightarrow> adv g c s1 s2 \<Longrightarrow> adv g c s s2"
  by (auto simp: adv_def)

lemma adv_none: "todo (channels s' c) = todo (channels s c) \<Longrightarrow> absd s' = absd s \<Longrightarrow> adv g c s s'"
  by (auto simp: adv_def intro: exI [of _ "[]"])

lemma adv_one: "todo (channels s c) = x # todo (channels s' c) \<Longrightarrow> absd s' = exec_flash g c x (absd s) \<Longrightarrow> adv g c s s'"
  by (auto simp: adv_def intro: exI [of _ "[x]"])

lemma absd_chip:
  assumes "channels s' = (channels s)(c := chn)" "chips chn = (chips (channels s c))[k := ch]" "k < length (chips (channels s c))"
  shows "absd s' = \<lparr>fd_ram = sys_ram s', fd_img = image s', fd_reg = set2 (fd_reg (absd s)) c k (nand_page_reg ch),
     fd_row = set2 (fd_row (absd s)) c k (decode_address_cycles_5 ch), fd_pend = set2 (fd_pend (absd s)) c k (pending_write_cmd ch \<noteq> None)\<rparr>"
  using assms by (simp add: absd_def fun_eq_iff nth_list_update)

lemma absd_same:
  "(\<And>x. chips (channels s' x) = chips (channels s x)) \<Longrightarrow> sys_ram s' = sys_ram s \<Longrightarrow> image s' = image s \<Longrightarrow> absd s' = absd s"
  by (simp add: absd_def)

section \<open>The invariant\<close>

text \<open>A command as the register handler queues it: its chip exists, and its cycles are those of its operation.\<close>

definition cmd_ok :: "geo \<Rightarrow> nc_command \<Rightarrow> bool" where
  "cmd_ok g cmd \<longleftrightarrow> (\<exists>k < PLANES_PER_CHANNEL g. chip_enabled cmd = Some k) \<and>
     nand_start_cmd cmd = ucast (nc_op cmd) \<and> nand_end_cmd cmd = ucast (drop_bit 8 (nc_op cmd))"

text \<open>A transfer from RAM belongs to a program of its chip; without one the channel would keep its read flag.\<close>

fun prog_ok :: "nat set \<Rightarrow> flash_cmd list \<Rightarrow> bool" where
  "prog_ok P [] \<longleftrightarrow> True"
| "prog_ok P (F_program k row # r) \<longleftrightarrow> prog_ok (insert k P) r"
| "prog_ok P (F_from_ram k a # r) \<longleftrightarrow> k \<in> P \<and> prog_ok (P - {k}) r"
| "prog_ok P (_ # r) \<longleftrightarrow> prog_ok P r"

definition pend_set :: "nc_channel \<Rightarrow> nat set" where
  "pend_set chn = {k. k < length (chips chn) \<and> pending_write_cmd (chips chn ! k) \<noteq> None}"

definition busy_chips :: "nc_channel \<Rightarrow> nat" where "busy_chips chn = length (filter busy (chips chn))"

definition chn_wf :: "geo \<Rightarrow> nc_channel \<Rightarrow> bool" where
  "chn_wf g chn \<longleftrightarrow> length (chips chn) = PLANES_PER_CHANNEL g \<and> chip_count chn = PLANES_PER_CHANNEL g \<and>
     (\<forall>ch \<in> set (chips chn). \<forall>cmd. pending_write_cmd ch = Some cmd \<longrightarrow> nand_end_cmd cmd = 0x10) \<and>
     fifo_ok (cmd_waiting_room chn) \<and> (\<forall>cmd \<in> set (room (cmd_waiting_room chn)). cmd_ok g cmd) \<and>
     (if wait_dma_completion chn then
        \<exists>k < PLANES_PER_CHANNEL g. dma_chip chn = Some k \<and> \<not> busy (chips chn ! k) \<and> read_dma chn \<noteq> write_dma chn
      else \<not> read_dma chn \<and> \<not> write_dma chn) \<and>
     prog_ok (pend_set chn) (todo chn) \<and>
     active_nand_ops chn = of_nat (busy_chips chn + (if wait_dma_completion chn then 1 else 0))"

text \<open>The channel is as far as it gets: its room is empty, or a transfer or the chip of the front command is awaited.\<close>

definition blocked :: "nc_channel \<Rightarrow> bool" where
  "blocked chn \<longleftrightarrow> wait_dma_completion chn \<or>
     (case room (cmd_waiting_room chn) of [] \<Rightarrow> True | cmd # _ \<Rightarrow> busy (chips chn ! the (chip_enabled cmd)))"

text \<open>Each busy chip has one completion scheduled, each engine at work one transfer, that of its channel.\<close>

fun dma_ev :: "nat \<Rightarrow> nc_event \<Rightarrow> bool" where
  "dma_ev e (Dma_done e' d c k a) \<longleftrightarrow> e' = e"
| "dma_ev e (Op_done c k t) \<longleftrightarrow> False"

fun op_ev :: "nat \<Rightarrow> nat \<Rightarrow> nc_event \<Rightarrow> bool" where
  "op_ev c k (Dma_done e' d c' k' a) \<longleftrightarrow> False"
| "op_ev c k (Op_done c' k' t) \<longleftrightarrow> c' = c \<and> k' = k"

definition op_ok :: "geo \<Rightarrow> nc_st \<Rightarrow> nat \<Rightarrow> nat \<Rightarrow> bool" where
  "op_ok g s c k \<longleftrightarrow> length (filter (op_ev c k) (events s)) = (if k < PLANES_PER_CHANNEL g \<and> busy (chips (channels s c) ! k) then 1 else 0)"

definition dma_ok :: "nc_st \<Rightarrow> nat \<Rightarrow> bool" where
  "dma_ok s e \<longleftrightarrow> (case current_chn (engines s e) of
     None \<Rightarrow> filter (dma_ev e) (events s) = [] \<and> \<not> wait_dma_completion (channels s (2 * e)) \<and> \<not> wait_dma_completion (channels s (2 * e + 1))
   | Some c \<Rightarrow> c div 2 = e \<and> wait_dma_completion (channels s c) \<and>
       filter (dma_ev e) (events s) = [Dma_done e (read_dma (channels s c)) c (the (dma_chip (channels s c))) (unat (dma_ram_ptr (channels s c)))])"

definition core :: "geo \<Rightarrow> nc_st \<Rightarrow> bool" where
  "core g s \<longleftrightarrow> (\<forall>c. chn_wf g (channels s c)) \<and> (\<forall>c k. op_ok g s c k) \<and> (\<forall>e. dma_ok s e)"

definition nc_inv :: "geo \<Rightarrow> nc_st \<Rightarrow> bool" where
  "nc_inv g s \<longleftrightarrow> core g s \<and> (\<forall>c. blocked (channels s c))"

lemma chn_wf_chips:
  assumes "chn_wf g chn" shows "length (chips chn) = PLANES_PER_CHANNEL g" "chip_count chn = PLANES_PER_CHANNEL g"
    "fifo_ok (cmd_waiting_room chn)" "prog_ok (pend_set chn) (todo chn)"
    "active_nand_ops chn = of_nat (busy_chips chn + (if wait_dma_completion chn then 1 else 0))"
  using assms by (simp_all add: chn_wf_def)

lemma length_filter_update:
  "k < length xs \<Longrightarrow> length (filter P (xs[k := x])) + (if P (xs ! k) then 1 else 0) = length (filter P xs) + (if P x then 1 else 0)"
  by (subst (3) id_take_nth_drop [of k xs], assumption) (simp add: upd_conv_take_nth_drop)

text \<open>The amount of work left on a channel; every event makes it smaller.\<close>

definition work :: "nc_channel \<Rightarrow> nat" where "work chn = 2 * length (todo chn) + busy_chips chn"

definition dma_key :: "nc_channel \<Rightarrow> bool \<times> bool \<times> nat option \<times> u32" where
  "dma_key chn = (wait_dma_completion chn, read_dma chn, dma_chip chn, dma_ram_ptr chn)"

lemma dma_ok_cong:
  assumes "current_chn (engines s' e) = current_chn (engines s e)" "filter (dma_ev e) (events s') = filter (dma_ev e) (events s)"
    "\<And>x. x div 2 = e \<Longrightarrow> dma_key (channels s' x) = dma_key (channels s x)"
  shows "dma_ok s' e = dma_ok s e"
  using assms(3) [of "2 * e"] assms(3) [of "2 * e + 1"] assms
  by (cases "current_chn (engines s e)") (auto simp: dma_ok_def dma_key_def)

lemma op_ok_cong:
  assumes "length (filter (op_ev c k) (events s')) = length (filter (op_ev c k) (events s))"
    "k < PLANES_PER_CHANNEL g \<Longrightarrow> busy (chips (channels s' c) ! k) = busy (chips (channels s c) ! k)"
  shows "op_ok g s' c k = op_ok g s c k"
  using assms by (auto simp: op_ok_def)

section \<open>Transfers start\<close>

lemma run_dma_ok:
  assumes wf: "\<And>x. chn_wf g (channels s x)" and none: "current_chn (engines s e) = None" "filter (dma_ev e) (events s) = []"
    and rest: "\<And>e'. e' \<noteq> e \<Longrightarrow> dma_ok s e'" "\<And>x k. op_ok g s x k"
  obtains s' where "run_dma e s = Some s'" "core g s'" "channels s' = channels s" "sys_ram s' = sys_ram s" "image s' = image s"
    "cmd_status s' = cmd_status s"
proof -
  define w where "w = (\<lambda>x. wait_dma_completion (channels s x))"
  define first where "first = (if toggle (engines s e) then 2 * e else 2 * e + 1)"
  define second where "second = (if toggle (engines s e) then 2 * e + 1 else 2 * e)"
  define cur where "cur = (if w first then Some first else if w second then Some second else None)"
  define s1 where "s1 = s\<lparr>engines := (engines s)(e := (engines s e)\<lparr>toggle := \<not> toggle (engines s e), current_chn := cur\<rparr>)\<rparr>"
  have run: "run_dma e s = (case cur of None \<Rightarrow> Some s1 | Some c \<Rightarrow>
      (case dma_chip (channels s c) of None \<Rightarrow> None
       | Some k \<Rightarrow> if read_dma (channels s c) then Some (schedule_ev (Dma_done e True c k (unat (dma_ram_ptr (channels s c)))) s1)
           else if write_dma (channels s c) then Some (schedule_ev (Dma_done e False c k (unat (dma_ram_ptr (channels s c)))) s1)
           else Some s1))"
    by (simp only: run_dma_def Let_def none(1) s1_def cur_def w_def first_def second_def)
  show thesis
  proof (cases cur)
    case None
    then have "\<not> w (2 * e)" "\<not> w (2 * e + 1)" by (auto simp: cur_def first_def second_def split: if_splits)
    with None none(2) have "dma_ok s1 e" by (simp add: dma_ok_def s1_def w_def)
    moreover have "dma_ok s1 e'" if "e' \<noteq> e" for e' using rest(1) [OF that] that dma_ok_cong [of s1 e' s] by (simp add: s1_def)
    moreover have "op_ok g s1 x k" for x k using rest(2) [of x k] by (simp add: op_ok_def s1_def)
    ultimately have "core g s1" using wf by (auto simp: core_def s1_def) (metis)
    with run None show thesis by (intro that [of s1]) (simp_all add: s1_def)
  next
    case (Some c)
    then have c: "w c" "c div 2 = e" by (auto simp: cur_def first_def second_def split: if_splits)
    from wf [of c] c(1) obtain k where k: "dma_chip (channels s c) = Some k" "read_dma (channels s c) \<noteq> write_dma (channels s c)"
      by (auto simp: chn_wf_def w_def)
    define ev where "ev = Dma_done e (read_dma (channels s c)) c k (unat (dma_ram_ptr (channels s c)))"
    let ?s' = "schedule_ev ev s1"
    have r: "run_dma e s = Some ?s'" using run Some k by (simp add: ev_def)
    have "dma_ok ?s' e" using Some c k none(2) by (simp add: dma_ok_def s1_def schedule_ev_def ev_def w_def)
    moreover have "dma_ok ?s' e'" if "e' \<noteq> e" for e' using rest(1) [OF that] that dma_ok_cong [of ?s' e' s] by (simp add: s1_def schedule_ev_def ev_def)
    moreover have "op_ok g ?s' x k" for x k using rest(2) [of x k] by (simp add: op_ok_def s1_def schedule_ev_def ev_def)
    ultimately have "core g ?s'" using wf by (auto simp: core_def s1_def schedule_ev_def) (metis)
    with r show thesis by (intro that [of ?s']) (simp_all add: s1_def schedule_ev_def)
  qed
qed

text \<open>The transfer engine does not look at the waiting room.\<close>

definition upd_room :: "(nc_command simple_fifo \<Rightarrow> nc_command simple_fifo) \<Rightarrow> nat \<Rightarrow> nc_st \<Rightarrow> nc_st" where
  "upd_room r c s = upd_chn c (\<lambda>chn. chn\<lparr>cmd_waiting_room := r (cmd_waiting_room chn)\<rparr>) s"

lemma upd_room_fields [simp]:
  "wait_dma_completion (channels (upd_room r c s) x) = wait_dma_completion (channels s x)"
  "dma_chip (channels (upd_room r c s) x) = dma_chip (channels s x)"
  "read_dma (channels (upd_room r c s) x) = read_dma (channels s x)"
  "write_dma (channels (upd_room r c s) x) = write_dma (channels s x)"
  "dma_ram_ptr (channels (upd_room r c s) x) = dma_ram_ptr (channels s x)"
  "engines (upd_room r c s) = engines s"
  "(upd_room r c s)\<lparr>engines := en\<rparr> = upd_room r c (s\<lparr>engines := en\<rparr>)"
  "schedule_ev ev (upd_room r c s) = upd_room r c (schedule_ev ev s)"
  by (simp_all add: upd_room_def upd_chn_def schedule_ev_def)

lemma process_dma_room: "process_dma e (upd_room r c s) = map_option (upd_room r c) (process_dma e s)"
  by (simp add: process_dma_def run_dma_def Let_def split: option.splits)

section \<open>Commands of chips\<close>

lemma op_codes [simp]:
  "(ucast READ_NAND :: u8) = 0" "(ucast (drop_bit 8 READ_NAND) :: u8) = 0x30"
  "(ucast PROGRAM_NAND :: u8) = 0x80" "(ucast (drop_bit 8 PROGRAM_NAND) :: u8) = 0x10"
  "(ucast ERASE_NAND :: u8) = 0x60" "(ucast (drop_bit 8 ERASE_NAND) :: u8) = 0xD0"
  by (simp_all add: READ_NAND_def PROGRAM_NAND_def ERASE_NAND_def)

lemma op_codes_neq [simp]:
  "READ_NAND \<noteq> PROGRAM_NAND" "READ_NAND \<noteq> ERASE_NAND" "PROGRAM_NAND \<noteq> ERASE_NAND" "READ_DMA \<noteq> READ_NAND" "READ_DMA \<noteq> PROGRAM_NAND"
  "READ_DMA \<noteq> ERASE_NAND" "WRITE_DMA \<noteq> READ_NAND" "WRITE_DMA \<noteq> PROGRAM_NAND" "WRITE_DMA \<noteq> ERASE_NAND" "ERASE_NAND \<noteq> READ_NAND" "ERASE_NAND \<noteq> PROGRAM_NAND"
  by (simp_all add: READ_NAND_def PROGRAM_NAND_def ERASE_NAND_def READ_DMA_def WRITE_DMA_def)

lemma latched_fields [simp]:
  "decode_address_cycles_5 (latched cmd ch) = row_of cmd" "busy (latched cmd ch) = busy ch"
  "pending_write_cmd (latched cmd ch) = pending_write_cmd ch" "nand_page_reg (latched cmd ch) = nand_page_reg ch"
  by (simp_all add: decode_cycles latched_def)

lemma all_cycles_read:
  assumes "cmd_ok g cmd" "nc_op cmd = READ_NAND"
  shows "all_cycles g p c k cmd (ch, img) = Some (get_read_ltcy p (fst (row_of cmd)),
    (latched cmd ch)\<lparr>cmd_2 := 0x30, busy := True, nand_page_reg := (\<lambda>i. img (row_off g c k (row_of cmd) + i))\<rparr>, img)"
proof -
  have "decode_address_cycles_5 (latched cmd ch\<lparr>cmd_2 := x\<rparr>) = row_of cmd" for x by (rule decode_cycles) (simp add: latched_def)
  then show ?thesis
    using assms start_cycles_eq [of cmd g p c k ch img]
    by (simp add: all_cycles_def cmd_ok_def write_command_cycle_def do_read_def row_off_def case_prod_beta)
qed

lemma all_cycles_erase:
  assumes "cmd_ok g cmd" "nc_op cmd = ERASE_NAND"
  shows "all_cycles g p c k cmd (ch, img) = Some (ltcy_erase_block p, (latched cmd ch)\<lparr>cmd_2 := 0xD0, busy := True\<rparr>,
    put_bytes (unat (of_nat (NAND_PAGE_SIZE g) * of_nat (PAGES_PER_BLOCK g) :: u32)) (row_off g c k (0, snd (row_of cmd))) (\<lambda>_. 0) img)"
proof -
  have "decode_address_cycles_3 (latched cmd ch\<lparr>cmd_2 := x\<rparr>) = snd (row_of cmd)" for x by (rule decode_cycles) (simp add: latched_def)
  then show ?thesis
    using assms start_cycles_eq [of cmd g p c k ch img]
    by (simp add: all_cycles_def cmd_ok_def write_command_cycle_def do_erase_def row_off_def)
qed

lemma start_cycles_program:
  assumes "cmd_ok g cmd" "nc_op cmd = PROGRAM_NAND"
  shows "start_cycles g p c k cmd (ch, img) = Some (0, latched cmd ch, img)"
  using assms start_cycles_eq [of cmd g p c k ch img] by (simp add: cmd_ok_def)

end
