(* ===== verification/Nand_Ctrl_Step.thy ===== *)
theory Nand_Ctrl_Step
  imports Nand_Ctrl_Inv
begin

text \<open>
  The steps of the controller keep its invariant: one command of the waiting room, the processing of the room up to
  the point where it blocks, both completions, and the register writes that queue commands.
\<close>

section \<open>One command\<close>

lemma new_cmd_frame [simp]: "new_cmd (add_active d chn) = new_cmd chn" "new_cmd (start_dma b cmd chn) = new_cmd chn"
  "new_cmd (upd_chip k f chn) = new_cmd chn"
  by (simp_all add: add_active_def start_dma_def upd_chip_def)

lemma busy_chips_upd:
  "k < length (chips chn) \<Longrightarrow> busy_chips (chn\<lparr>chips := (chips chn)[k := ch]\<rparr>) + (if busy (chips chn ! k) then 1 else 0)
     = busy_chips chn + (if busy ch then 1 else 0)"
  unfolding busy_chips_def by (simp add: length_filter_update del: One_nat_def)

lemma core_chip_step:
  assumes core: "core g s" and chn: "chn = channels s c" and nw: "\<not> wait_dma_completion chn"
    and rm: "room (cmd_waiting_room chn) = cmd # rest" and k: "k < PLANES_PER_CHANNEL g" "\<not> busy (chips chn ! k)"
    and s': "channels s' = (channels s)(c := chn')" "engines s' = engines s"
      "events s' = events s @ (if busy ch then [Op_done c k t] else [])"
    and chn': "chn' = (if busy ch then add_active 1 else id) (chn\<lparr>chips := (chips chn)[k := ch]\<rparr>)
      \<lparr>cmd_waiting_room := snd (pop_front (cmd_waiting_room chn))\<rparr>"
    and pend: "\<And>cmd. pending_write_cmd ch = Some cmd \<Longrightarrow> nand_end_cmd cmd = 0x10"
    and prog: "prog_ok (pend_set chn') (map cmd_of rest)"
  shows "core g s'" "todo chn = cmd_of cmd # todo chn'" "work chn' \<le> work chn" "room (cmd_waiting_room chn') = rest"
proof -
  have f: "chips chn' = (chips chn)[k := ch]" "chip_count chn' = chip_count chn" "cmd_waiting_room chn' = snd (pop_front (cmd_waiting_room chn))"
    "wait_dma_completion chn' = wait_dma_completion chn" "read_dma chn' = read_dma chn" "write_dma chn' = write_dma chn"
    "dma_chip chn' = dma_chip chn" "dma_ram_ptr chn' = dma_ram_ptr chn" "active_nand_ops chn' = active_nand_ops chn + (if busy ch then 1 else 0)"
    by (simp_all add: chn' add_active_def)
  have wf: "chn_wf g chn" using core chn by (simp add: core_def)
  have len: "length (chips chn) = PLANES_PER_CHANNEL g" using wf by (simp add: chn_wf_def)
  have pop: "fifo_ok (snd (pop_front (cmd_waiting_room chn)))" "room (snd (pop_front (cmd_waiting_room chn))) = rest"
    using pop_front_room [OF _ rm] wf by (simp_all add: chn_wf_def)
  have b: "busy_chips chn' = busy_chips chn + (if busy ch then 1 else 0)"
    using busy_chips_upd [of k chn ch] k len by (simp add: f busy_chips_def)
  show td: "todo chn = cmd_of cmd # todo chn'" using nw rm pop by (simp add: todo_def f)
  show "room (cmd_waiting_room chn') = rest" using pop by (simp add: f)
  show "work chn' \<le> work chn" by (simp add: work_def td b)
  have "chn_wf g chn'"
    using wf nw pop rm pend prog b k(1) unfolding chn_wf_def
    by (auto simp: f todo_def dest: in_set_updD)
  moreover have "op_ok g s' c' k'" for c' k'
  proof (cases "c' = c \<and> k' = k")
    case True
    moreover have "op_ok g s c k" using core by (simp add: core_def)
    ultimately show ?thesis using k chn len by (simp add: op_ok_def s' f)
  next
    case False
    moreover have "op_ok g s c' k'" using core by (simp add: core_def)
    moreover have "op_ok g s' c' k' = op_ok g s c' k'" using False chn by (intro op_ok_cong) (auto simp: s' f)
    ultimately show ?thesis by simp
  qed
  moreover have "dma_ok s' e" for e
  proof -
    have "dma_ok s' e = dma_ok s e" using chn by (intro dma_ok_cong) (auto simp: s' f dma_key_def)
    then show ?thesis using core by (simp add: core_def)
  qed
  ultimately show "core g s'" using core by (simp add: core_def s')
qed

lemma dma_step:
  assumes core: "core g s" and chn: "chn = channels s c" and nw: "\<not> wait_dma_completion chn"
    and rm: "room (cmd_waiting_room chn) = cmd # rest" and k: "chip_enabled cmd = Some k" "k < PLANES_PER_CHANNEL g" "\<not> busy (chips chn ! k)"
    and op: "nc_op cmd = (if b then READ_DMA else WRITE_DMA)"
    and chn': "chn' = (start_dma b cmd chn)\<lparr>cmd_waiting_room := snd (pop_front (cmd_waiting_room chn))\<rparr>"
  obtains s2 where "process_dma (c div 2) (upd_chn c (start_dma b cmd) s) = Some s2" "core g (pop_cmd c s2)"
    "channels (pop_cmd c s2) = (channels s)(c := chn')" "sys_ram (pop_cmd c s2) = sys_ram s" "image (pop_cmd c s2) = image s"
    "todo chn' = todo chn" "busy_chips chn' = busy_chips chn" "chips chn' = chips chn" "room (cmd_waiting_room chn') = rest" "new_cmd chn' = new_cmd chn"
proof -
  let ?s1 = "upd_chn c (start_dma b cmd) s"
  define u where "u = upd_room (\<lambda>f. snd (pop_front f)) c ?s1"
  have wf: "chn_wf g chn" using core chn by (simp add: core_def)
  have pop: "fifo_ok (snd (pop_front (cmd_waiting_room chn)))" "room (snd (pop_front (cmd_waiting_room chn))) = rest"
    using pop_front_room [OF _ rm] wf by (simp_all add: chn_wf_def)
  have ch: "channels u = (channels s)(c := chn')" by (simp add: u_def upd_room_def upd_chn_def chn chn' start_dma_def add_active_def)
  have en: "engines u = engines s" "events u = events s" "sys_ram u = sys_ram s" "image u = image s" by (simp_all add: u_def upd_room_def upd_chn_def)
  have fl: "\<not> read_dma chn" "\<not> write_dma chn" using wf nw by (simp_all add: chn_wf_def)
  have cm: "cmd_of cmd = (if b then F_from_ram k (unat (ram_ptr cmd)) else F_to_ram k (unat (ram_ptr cmd)))"
    using op k(1) by (simp add: cmd_of_def)
  have td: "todo chn' = todo chn" using nw rm pop k fl by (simp add: todo_def chn' start_dma_def add_active_def dma_cmd_def cm)
  have bc: "busy_chips chn' = busy_chips chn" "chips chn' = chips chn" by (simp_all add: chn' start_dma_def add_active_def busy_chips_def)
  have ps: "pend_set chn' = pend_set chn" by (simp add: pend_set_def bc)
  have rd: "room (cmd_waiting_room chn') = rest" using pop by (simp add: chn')
  have wf': "chn_wf g chn'"
    using wf nw fl pop k rm td bc ps unfolding chn_wf_def
    by (simp add: chn' start_dma_def add_active_def)
  then have wfs: "chn_wf g (channels u x)" for x using core by (simp add: ch core_def)
  have ops: "op_ok g u x k'" for x k'
  proof -
    have "op_ok g u x k' = op_ok g s x k'" using bc chn by (intro op_ok_cong) (auto simp: ch en)
    then show ?thesis using core by (simp add: core_def)
  qed
  have dmas: "dma_ok u e" if "e \<noteq> c div 2" for e
  proof -
    have "dma_ok u e = dma_ok s e" using that by (intro dma_ok_cong) (auto simp: ch en)
    then show ?thesis using core by (simp add: core_def)
  qed
  have dok: "dma_ok s (c div 2)" using core by (simp add: core_def)
  obtain s3 where s3: "process_dma (c div 2) u = Some s3" "core g s3" "channels s3 = channels u" "sys_ram s3 = sys_ram s" "image s3 = image s"
  proof (cases "current_chn (engines s (c div 2))")
    case None
    then have "filter (dma_ev (c div 2)) (events u) = []" using dok by (simp add: dma_ok_def en)
    from run_dma_ok [OF wfs _ this dmas ops] None obtain s' where
      "run_dma (c div 2) u = Some s'" "core g s'" "channels s' = channels u" "sys_ram s' = sys_ram u" "image s' = image u"
      by (metis en(1))
    with None show ?thesis by (intro that [of s']) (simp_all add: process_dma_def en)
  next
    case (Some c2)
    then have "c2 \<noteq> c" using dok nw chn by (auto simp: dma_ok_def)
    then have "dma_ok u (c div 2)" using dok Some by (simp add: dma_ok_def en ch)
    then have "core g u" using wfs ops dmas by (metis core_def)
    then show ?thesis using Some by (intro that [of u]) (simp_all add: process_dma_def en)
  qed
  then obtain s2 where s2: "process_dma (c div 2) ?s1 = Some s2" "s3 = upd_room (\<lambda>f. snd (pop_front f)) c s2"
    by (auto simp: u_def process_dma_room)
  have "pop_cmd c s2 = s3" by (simp add: s2 pop_cmd_def upd_room_def)
  with s2(1) s3 ch td bc rd show thesis by (intro that [of s2]) (simp_all add: chn')
qed

text \<open>What a part of the work of channel \<open>c\<close> does: the invariant holds, a prefix of the commands of the channel took
  effect, other channels and the registers are unchanged.\<close>

definition part_done :: "geo \<Rightarrow> nat \<Rightarrow> nc_st \<Rightarrow> nc_st \<Rightarrow> bool" where
  "part_done g c s s' \<longleftrightarrow> core g s' \<and> adv g c s s' \<and> (\<forall>x. x \<noteq> c \<longrightarrow> channels s' x = channels s x) \<and>
     work (channels s' c) \<le> work (channels s c) \<and> new_cmd (channels s' c) = new_cmd (channels s c) \<and>
     length (room (cmd_waiting_room (channels s' c))) \<le> length (room (cmd_waiting_room (channels s c)))"

lemma part_done_refl: "core g s \<Longrightarrow> part_done g c s s"
  by (simp add: part_done_def adv_none)

lemma part_done_trans: "part_done g c s s1 \<Longrightarrow> part_done g c s1 s2 \<Longrightarrow> part_done g c s s2"
  by (auto simp: part_done_def intro: adv_trans)

lemma pend_set_upd:
  "k < length (chips chn) \<Longrightarrow> chips chn' = (chips chn)[k := ch] \<Longrightarrow>
   pend_set chn' = (if pending_write_cmd ch = None then pend_set chn - {k} else insert k (pend_set chn))"
  by (auto simp: pend_set_def nth_list_update split: if_splits)

lemma on_chip_eq:
  "k < length (chips (channels s c)) \<Longrightarrow> f (chips (channels s c) ! k, image s) = Some (t, ch, img) \<Longrightarrow>
   on_chip c k f s = Some (t, (upd_chn c (upd_chip k (\<lambda>_. ch)) s)\<lparr>image := img\<rparr>)"
  by (simp add: on_chip_def)

lemma decode_latched:
  "decode_address_cycles_5 (latched cmd ch\<lparr>cmd_2 := x, busy := b, nand_page_reg := r\<rparr>) = row_of cmd"
  "decode_address_cycles_5 (latched cmd ch\<lparr>cmd_2 := x, busy := b\<rparr>) = row_of cmd"
  "decode_address_cycles_5 (latched cmd ch\<lparr>pending_write_cmd := w\<rparr>) = row_of cmd"
  by (rule decode_cycles, simp add: latched_def)+

lemma step_ok:
  assumes core: "core g s" and nw: "\<not> wait_dma_completion (channels s c)"
    and rm: "room (cmd_waiting_room (channels s c)) = cmd # rest" and k: "chip_enabled cmd = Some k" "\<not> busy (chips (channels s c) ! k)"
  obtains s1 where "dispatch_cmd g p c k cmd s = Some s1" "part_done g c s (pop_cmd c s1)"
    "room (cmd_waiting_room (channels (pop_cmd c s1) c)) = rest"
proof -
  define chn where "chn = channels s c"
  have wf: "chn_wf g chn" using core by (simp add: core_def chn_def)
  then have co: "cmd_ok g cmd" using rm by (simp add: chn_wf_def chn_def)
  have kp: "k < PLANES_PER_CHANNEL g" "k < length (chips (channels s c))" using co k wf by (simp_all add: cmd_ok_def chn_wf_def chn_def)
  have prog: "prog_ok (pend_set chn) (cmd_of cmd # map cmd_of rest)" using wf nw rm by (simp add: chn_wf_def todo_def chn_def)
  let ?ch = "chips chn ! k"
  have pe: "pending_write_cmd ?ch = Some cm \<Longrightarrow> nand_end_cmd cm = 0x10" for cm
    using wf kp by (auto simp: chn_wf_def chn_def)
  have keep: "pending_write_cmd (chips (channels s c) ! k) = None \<Longrightarrow> pend_set (channels s c) - {k} = pend_set (channels s c)"
    "\<exists>y. pending_write_cmd (chips (channels s c) ! k) = Some y \<Longrightarrow> insert k (pend_set (channels s c)) = pend_set (channels s c)"
    using kp by (auto simp: pend_set_def)
  have same: "set2 (fd_reg (absd s)) c k (nand_page_reg (chips (channels s c) ! k)) = fd_reg (absd s)"
    "set2 (fd_row (absd s)) c k (decode_address_cycles_5 (chips (channels s c) ! k)) = fd_row (absd s)"
    "set2 (fd_pend (absd s)) c k (\<exists>y. pending_write_cmd (chips (channels s c) ! k) = Some y) = fd_pend (absd s)"
    by (auto simp: absd_def set2_def fun_eq_iff)
  have ec: "nand_end_cmd cmd = ucast (drop_bit 8 (nc_op cmd))" using co by (simp add: cmd_ok_def)
  have ri: "fd_img (absd s) = image s" "fd_ram (absd s) = sys_ram s" by (simp_all add: absd_def)
  let ?after = "\<lambda>ch. (if busy ch then add_active 1 else id) (chn\<lparr>chips := (chips chn)[k := ch]\<rparr>)
      \<lparr>cmd_waiting_room := snd (pop_front (cmd_waiting_room chn))\<rparr>"
  note fin = that
  have chip: thesis
    if d: "dispatch_cmd g p c k cmd s = Some s1" "channels (pop_cmd c s1) = (channels s)(c := ?after ch)" "engines (pop_cmd c s1) = engines s"
        "events (pop_cmd c s1) = events s @ (if busy ch then [Op_done c k t] else [])"
      and pn: "\<And>cm. pending_write_cmd ch = Some cm \<Longrightarrow> nand_end_cmd cm = 0x10" "prog_ok (if pending_write_cmd ch = None then pend_set chn - {k} else insert k (pend_set chn)) (map cmd_of rest)"
      and ex: "fd_ram (exec_flash g c (cmd_of cmd) (absd s)) = sys_ram (pop_cmd c s1)"
        "fd_img (exec_flash g c (cmd_of cmd) (absd s)) = image (pop_cmd c s1)"
        "fd_reg (exec_flash g c (cmd_of cmd) (absd s)) = set2 (fd_reg (absd s)) c k (nand_page_reg ch)"
        "fd_row (exec_flash g c (cmd_of cmd) (absd s)) = set2 (fd_row (absd s)) c k (decode_address_cycles_5 ch)"
        "fd_pend (exec_flash g c (cmd_of cmd) (absd s)) = set2 (fd_pend (absd s)) c k (pending_write_cmd ch \<noteq> None)" for s1 ch t
  proof (rule fin [OF d(1)])
    have pc: "chips (?after ch) = (chips (channels s c))[k := ch]" by (simp add: chn_def add_active_def)
    have ps: "pend_set (?after ch) = (if pending_write_cmd ch = None then pend_set chn - {k} else insert k (pend_set chn))"
      by (rule pend_set_upd [OF kp(2) [folded chn_def] pc [folded chn_def]])
    note cs = core_chip_step [OF core chn_def _ _ kp(1) _ d(2-4) refl pn(1) pn(2) [folded ps]]
    have "absd (pop_cmd c s1) = exec_flash g c (cmd_of cmd) (absd s)"
      unfolding absd_chip [OF d(2) pc kp(2)] by (rule flash_data.equality) (simp_all add: ex)
    note ex = this
    have c: "core g (pop_cmd c s1)" "todo chn = cmd_of cmd # todo (?after ch)" "work (?after ch) \<le> work chn"
      "room (cmd_waiting_room (?after ch)) = rest"
      using cs nw rm k(2) unfolding chn_def by blast+
    then show "room (cmd_waiting_room (channels (pop_cmd c s1) c)) = rest" by (simp add: d(2))
    show "part_done g c s (pop_cmd c s1)"
      using c ex rm [folded chn_def] by (simp add: part_done_def d(2) adv_one chn_def [symmetric])
  qed
  consider (read) "nc_op cmd = READ_NAND" | (erase) "nc_op cmd = ERASE_NAND" | (program) "nc_op cmd = PROGRAM_NAND"
    | (dma) "nc_op cmd \<in> {READ_DMA, WRITE_DMA}" | (other) "nc_op cmd \<notin> {READ_NAND, ERASE_NAND, PROGRAM_NAND, READ_DMA, WRITE_DMA}" by blast
  then show thesis
  proof cases
    case read
    let ?new = "(latched cmd ?ch)\<lparr>cmd_2 := 0x30, busy := True, nand_page_reg := (\<lambda>i. image s (row_off g c k (row_of cmd) + i))\<rparr>"
    note al = all_cycles_read [OF co read, of p c k ?ch "image s"]
    note oc = on_chip_eq [OF kp(2), of "all_cycles g p c k cmd", folded chn_def, OF al]
    show thesis
    proof (rule chip [where ch = ?new and t = "get_read_ltcy p (fst (row_of cmd))"])
      show "dispatch_cmd g p c k cmd s = Some (schedule_ev (Op_done c k (get_read_ltcy p (fst (row_of cmd)))) (upd_chn c (add_active 1) ((upd_chn c (upd_chip k (\<lambda>_. ?new)) s)\<lparr>image := image s\<rparr>)))"
        by (simp add: dispatch_cmd_def read oc)
    qed (use pe prog kp in \<open>simp_all add: pop_cmd_def upd_chn_def upd_chip_def schedule_ev_def add_active_def chn_def cmd_of_def keep same ri decode_latched k read\<close>)
  next
    case erase
    let ?new = "(latched cmd ?ch)\<lparr>cmd_2 := 0xD0, busy := True\<rparr>"
    let ?img = "put_bytes (unat (of_nat (NAND_PAGE_SIZE g) * of_nat (PAGES_PER_BLOCK g) :: u32)) (row_off g c k (0, snd (row_of cmd))) (\<lambda>_. 0) (image s)"
    note al = all_cycles_erase [OF co erase, of p c k ?ch "image s"]
    note oc = on_chip_eq [OF kp(2), of "all_cycles g p c k cmd", folded chn_def, OF al]
    show thesis
    proof (rule chip [where ch = ?new and t = "ltcy_erase_block p"])
      show "dispatch_cmd g p c k cmd s = Some (schedule_ev (Op_done c k (ltcy_erase_block p)) (upd_chn c (add_active 1) ((upd_chn c (upd_chip k (\<lambda>_. ?new)) s)\<lparr>image := ?img\<rparr>)))"
        by (simp add: dispatch_cmd_def erase oc)
    qed (use pe prog kp in \<open>simp_all add: pop_cmd_def upd_chn_def upd_chip_def schedule_ev_def add_active_def chn_def cmd_of_def keep same ri decode_latched k erase\<close>)
  next
    case program
    note al = start_cycles_program [OF co program, of p c k ?ch "image s"]
    note oc = on_chip_eq [OF kp(2), of "start_cycles g p c k cmd", folded chn_def, OF al]
    show thesis
    proof (rule chip [where ch = "(latched cmd ?ch)\<lparr>pending_write_cmd := Some cmd\<rparr>" and t = 0])
      show "dispatch_cmd g p c k cmd s = Some (upd_chn c (upd_chip k (\<lambda>ch. ch\<lparr>pending_write_cmd := Some cmd\<rparr>)) ((upd_chn c (upd_chip k (\<lambda>_. latched cmd ?ch)) s)\<lparr>image := image s\<rparr>))"
        by (simp add: dispatch_cmd_def program oc)
    qed (use pe prog kp in \<open>simp_all add: pop_cmd_def upd_chn_def upd_chip_def schedule_ev_def add_active_def chn_def cmd_of_def keep same ri decode_latched k program ec\<close>)
  next
    case dma
    define b where "b \<longleftrightarrow> nc_op cmd = READ_DMA"
    have op: "nc_op cmd = (if b then READ_DMA else WRITE_DMA)" using dma by (auto simp: b_def)
    from dma_step [OF core chn_def nw [folded chn_def] rm [folded chn_def] k(1) kp(1) k(2) [folded chn_def] op refl]
    obtain s2 chn' where s2: "process_dma (c div 2) (upd_chn c (start_dma b cmd) s) = Some s2" "core g (pop_cmd c s2)"
      "channels (pop_cmd c s2) = (channels s)(c := chn')" "sys_ram (pop_cmd c s2) = sys_ram s" "image (pop_cmd c s2) = image s"
      "todo chn' = todo chn" "busy_chips chn' = busy_chips chn" "chips chn' = chips chn" "room (cmd_waiting_room chn') = rest" "new_cmd chn' = new_cmd chn" by metis
    show thesis
    proof (rule that)
      show "dispatch_cmd g p c k cmd s = Some s2" using s2(1) dma by (auto simp: dispatch_cmd_def b_def)
      have "absd (pop_cmd c s2) = absd s" using s2 by (intro absd_same) (simp_all add: chn_def)
      then show "part_done g c s (pop_cmd c s2)" using s2 rm by (simp add: part_done_def adv_none work_def chn_def)
    qed (use s2 in simp)
  next
    case other
    show thesis
    proof (rule chip [where ch = ?ch and t = 0])
      show "dispatch_cmd g p c k cmd s = Some s" using other by (simp add: dispatch_cmd_def)
    qed (use pe prog kp k other in \<open>simp_all add: pop_cmd_def upd_chn_def chn_def cmd_of_def keep same ri\<close>)
  qed
qed

section \<open>The waiting room\<close>

lemma chn_wf_pend: "chn_wf g chn \<Longrightarrow> k < length (chips chn) \<Longrightarrow> pending_write_cmd (chips chn ! k) = Some cmd \<Longrightarrow> nand_end_cmd cmd = 0x10"
  unfolding chn_wf_def by (metis nth_mem)


lemma process_ok:
  assumes "core g s"
  shows "\<exists>s'. process_waiting_room_cmd g p c s = Some s' \<and> part_done g c s s' \<and> blocked (channels s' c)"
  using assms
proof (induction "length (room (cmd_waiting_room (channels s c)))" arbitrary: s rule: less_induct)
  case less
  let ?chn = "channels s c"
  have wf: "chn_wf g ?chn" using less.prems by (simp add: core_def)
  note fo = chn_wf_chips(3) [OF wf]
  show ?case
  proof (cases "wait_dma_completion ?chn")
    case True
    then show ?thesis using part_done_refl [OF less.prems] by (subst process_waiting_room_cmd.simps) (simp add: blocked_def)
  next
    case nw: False
    show ?thesis
    proof (cases "room (cmd_waiting_room ?chn)")
      case Nil
      then show ?thesis using part_done_refl [OF less.prems] nw fifo_front_none [OF fo]
        by (subst process_waiting_room_cmd.simps) (simp add: blocked_def)
    next
      case (Cons cmd rest)
      then obtain k where k: "chip_enabled cmd = Some k" "k < length (chips ?chn)"
        using wf by (auto simp: chn_wf_def cmd_ok_def)
      note fr = fifo_front_room [OF fo Cons]
      show ?thesis
      proof (cases "busy (chips ?chn ! k)")
        case True
        then show ?thesis using part_done_refl [OF less.prems] nw k fr Cons
          by (subst process_waiting_room_cmd.simps) (simp add: blocked_def)
      next
        case False
        from step_ok [OF less.prems nw Cons k(1) False, of p] obtain s1 where
          s1: "dispatch_cmd g p c k cmd s = Some s1" "part_done g c s (pop_cmd c s1)" "room (cmd_waiting_room (channels (pop_cmd c s1) c)) = rest" by blast
        have "length (room (cmd_waiting_room (channels (pop_cmd c s1) c))) < length (room (cmd_waiting_room ?chn))" using s1(3) Cons by simp
        from less.hyps [OF this] s1(2) obtain s' where
          s': "process_waiting_room_cmd g p c (pop_cmd c s1) = Some s'" "part_done g c (pop_cmd c s1) s'" "blocked (channels s' c)"
          by (auto simp: part_done_def)
        have "process_waiting_room_cmd g p c s = Some s'"
          using nw k fr False s1(1) s'(1) by (subst process_waiting_room_cmd.simps) simp
        with s' part_done_trans [OF s1(2)] show ?thesis by blast
      qed
    qed
  qed
qed

section \<open>Completions\<close>

text \<open>What an event does: the invariant holds, commands of one channel took effect, and there is less work.\<close>

definition event_done :: "geo \<Rightarrow> nat \<Rightarrow> nc_st \<Rightarrow> nc_st \<Rightarrow> bool" where
  "event_done g c s s' \<longleftrightarrow> nc_inv g s' \<and> adv g c s s' \<and> (\<forall>x. x \<noteq> c \<longrightarrow> channels s' x = channels s x) \<and>
     work (channels s' c) < work (channels s c) \<and> new_cmd (channels s' c) = new_cmd (channels s c) \<and>
     length (room (cmd_waiting_room (channels s' c))) \<le> length (room (cmd_waiting_room (channels s c)))"

lemma process_after_event:
  assumes "nc_inv g s" "core g s1" "adv g c s s1" "\<And>x. x \<noteq> c \<Longrightarrow> channels s1 x = channels s x" "work (channels s1 c) < work (channels s c)"
    "new_cmd (channels s1 c) = new_cmd (channels s c)" "room (cmd_waiting_room (channels s1 c)) = room (cmd_waiting_room (channels s c))"
  obtains s' where "process_waiting_room_cmd g p c s1 = Some s'" "event_done g c s s'"
proof -
  from process_ok [OF assms(2)] obtain s' where
    s': "process_waiting_room_cmd g p c s1 = Some s'" "part_done g c s1 s'" "blocked (channels s' c)" by blast
  have "nc_inv g s'" using assms(1,4) s'(2,3) by (auto simp: nc_inv_def part_done_def) metis
  moreover have "adv g c s s'" using assms(3) s'(2) adv_trans by (auto simp: part_done_def)
  ultimately have "event_done g c s s'" using assms(4-7) s'(2) by (auto simp: event_done_def part_done_def)
  with s'(1) show thesis by (rule that)
qed

lemma op_complete_ok:
  assumes inv: "nc_inv g s" and ev: "Op_done c k t \<in> set (events s)"
  obtains s' where "fire_event g p (Op_done c k t) (s\<lparr>events := remove1 (Op_done c k t) (events s)\<rparr>) = Some s'" "event_done g c s s'"
proof -
  let ?chn = "channels s c"
  let ?ev = "Op_done c k t"
  define chn1 where "chn1 = upd_chip k operation_complete (add_active (- 1) ?chn)"
  define s1 where "s1 = upd_chn c (upd_chip k operation_complete) (upd_chn c (add_active (- 1)) (s\<lparr>events := remove1 ?ev (events s)\<rparr>))"
  have s1: "channels s1 = (channels s)(c := chn1)" "engines s1 = engines s" "events s1 = remove1 ?ev (events s)" "sys_ram s1 = sys_ram s" "image s1 = image s"
    by (simp_all add: s1_def chn1_def upd_chn_def)
  have core: "core g s" and wf: "chn_wf g ?chn" using inv by (simp_all add: nc_inv_def core_def)
  define fl where "fl = filter (op_ev c k) (events s)"
  have mem: "?ev \<in> set fl" using ev by (simp add: fl_def)
  have "op_ok g s c k" using core by (simp add: core_def)
  then have lf: "length fl = (if k < PLANES_PER_CHANNEL g \<and> busy (chips ?chn ! k) then 1 else 0)" by (simp add: op_ok_def fl_def)
  with mem have k: "k < PLANES_PER_CHANNEL g" "busy (chips ?chn ! k)" by (auto split: if_splits)
  with lf mem have one: "filter (op_ev c k) (events s) = [?ev]" unfolding fl_def [symmetric] by (cases fl) auto
  have len: "k < length (chips ?chn)" using k wf by (simp add: chn_wf_def)
  have f: "chips chn1 = (chips ?chn)[k := operation_complete (chips ?chn ! k)]" "chip_count chn1 = chip_count ?chn"
    "cmd_waiting_room chn1 = cmd_waiting_room ?chn" "wait_dma_completion chn1 = wait_dma_completion ?chn" "read_dma chn1 = read_dma ?chn"
    "write_dma chn1 = write_dma ?chn" "dma_chip chn1 = dma_chip ?chn" "dma_ram_ptr chn1 = dma_ram_ptr ?chn" "active_nand_ops chn1 = active_nand_ops ?chn - 1"
    by (simp_all add: chn1_def upd_chip_def add_active_def)
  have b: "Suc (busy_chips chn1) = busy_chips ?chn"
    using busy_chips_upd [OF len, of "operation_complete (chips ?chn ! k)"] k by (simp add: f busy_chips_def operation_complete_def)
  have td: "todo chn1 = todo ?chn" by (simp add: todo_def f dma_cmd_def)
  have pf: "pending_write_cmd (chips chn1 ! j) = pending_write_cmd (chips ?chn ! j)" for j
    using len by (cases "j = k") (simp_all add: f operation_complete_def)
  have ps: "pend_set chn1 = pend_set ?chn" by (simp add: pend_set_def f(1) pf [unfolded f(1)])
  have bf: "busy (chips chn1 ! j) = (busy (chips ?chn ! j) \<and> j \<noteq> k)" for j
    using len by (cases "j = k") (simp_all add: f operation_complete_def)
  have act: "active_nand_ops chn1 = of_nat (busy_chips chn1 + (if wait_dma_completion chn1 then 1 else 0))"
    using chn_wf_chips(5) [OF wf] by (simp add: f b [symmetric])
  have pe: "\<forall>ch \<in> set (chips chn1). \<forall>cmd. pending_write_cmd ch = Some cmd \<longrightarrow> nand_end_cmd cmd = 0x10"
    using chn_wf_pend [OF wf len] wf by (auto simp: chn_wf_def f operation_complete_def dest!: in_set_updD)
  have "chn_wf g chn1" using wf act pe td ps bf unfolding chn_wf_def by (auto simp: f(2-8)) (simp_all add: f(1))
  then have "chn_wf g (channels s1 x)" for x using core by (simp add: s1 core_def)
  moreover have "op_ok g s1 x j" for x j
  proof (cases "x = c \<and> j = k")
    case True
    then show ?thesis using one bf by (simp add: op_ok_def s1 filter_remove1)
  next
    case False
    then have "?ev \<notin> set (filter (op_ev x j) (events s))" by auto
    then have fl1: "filter (op_ev x j) (events s1) = filter (op_ev x j) (events s)" by (simp add: s1 filter_remove1 remove1_idem)
    have "busy (chips (channels s1 x) ! j) = busy (chips (channels s x) ! j)" using False bf [of j] by (cases "x = c") (simp_all add: s1)
    then have "op_ok g s1 x j = op_ok g s x j" by (intro op_ok_cong) (simp_all only: fl1)
    then show ?thesis using core by (simp add: core_def)
  qed
  moreover have "dma_ok s1 e" for e
  proof -
    have "dma_ok s1 e = dma_ok s e" by (intro dma_ok_cong) (simp_all add: s1 filter_remove1 remove1_idem dma_key_def f)
    then show ?thesis using core by (simp add: core_def)
  qed
  ultimately have core1: "core g s1" by (simp add: core_def)
  have "absd s1 = absd s"
    using len by (auto simp: absd_def s1 f fun_eq_iff nth_list_update operation_complete_def decode_address_cycles_5_def)
  with td have "adv g c s s1" by (intro adv_none) (simp_all add: s1)
  from process_after_event [OF inv core1 this, of p] b td obtain s' where
    "process_waiting_room_cmd g p c s1 = Some s'" "event_done g c s s'" by (auto simp: s1 work_def chn1_def upd_chip_def add_active_def)
  then show thesis by (intro that [of s']) (simp_all add: operation_complete_call_back_def s1_def)
qed

lemma filter_none_remove1: "\<not> P x \<Longrightarrow> filter P (remove1 x xs) = filter P xs"
  by (simp add: filter_remove1 remove1_idem)

lemma transfer_over:
  assumes inv: "nc_inv g s" and cur: "c div 2 = e" and one: "filter (dma_ev e) (events s) = [ev]" and dev: "dma_ev e ev"
    and u: "channels u = (channels s)(c := chn)" "engines u = (engines s)(e := (engines s e)\<lparr>current_chn := None\<rparr>)"
      "events u = remove1 ev (events s) @ (if b then [Op_done c k t] else [])"
    and wf: "chn_wf g chn" "\<not> wait_dma_completion chn" and td: "todo (channels s c) = x # todo chn"
    and nc: "new_cmd chn = new_cmd (channels s c)" "cmd_waiting_room chn = cmd_waiting_room (channels s c)" and ex: "absd u = exec_flash g c x (absd s)" and kb: "k < PLANES_PER_CHANNEL g" "\<not> busy (chips (channels s c) ! k)"
    and bf: "\<And>j. busy (chips chn ! j) = (busy (chips (channels s c) ! j) \<or> j = k \<and> b)" "busy_chips chn \<le> Suc (busy_chips (channels s c))"
  obtains s' where "(run_dma e u \<bind> process_waiting_room_cmd g p c) = Some s'" "event_done g c s s'"
proof -
  have core: "core g s" using inv by (simp add: nc_inv_def)
  have nop: "\<not> op_ev x j ev" for x j using dev by (cases ev) auto
  have ndm: "e' \<noteq> e \<Longrightarrow> \<not> dma_ev e' ev" for e' using dev by (cases ev) auto
  have none: "filter (dma_ev e) (events u) = []" by (simp add: u filter_remove1 one)
  have wfs: "chn_wf g (channels u y)" for y using core wf by (simp add: u core_def)
  have dmas: "dma_ok u e'" if "e' \<noteq> e" for e'
  proof -
    have "dma_ok u e' = dma_ok s e'" using that cur filter_none_remove1 [of "dma_ev e'" ev "events s"] ndm [OF that]
      by (intro dma_ok_cong) (auto simp: u)
    then show ?thesis using core by (simp add: core_def)
  qed
  have ops: "op_ok g u y j" for y j
  proof (cases "y = c \<and> j = k")
    case True
    have "op_ok g s y j" using core by (simp add: core_def)
    then show ?thesis using True kb bf(1) [of k] by (simp add: op_ok_def u filter_none_remove1 [of "op_ev _ _", OF nop])
  next
    case False
    then have "filter (op_ev y j) (events u) = filter (op_ev y j) (events s)" by (auto simp: u filter_none_remove1 [of "op_ev _ _", OF nop])
    moreover have "busy (chips (channels u y) ! j) = busy (chips (channels s y) ! j)" using False bf(1) [of j] by (cases "y = c") (simp_all add: u)
    ultimately have "op_ok g u y j = op_ok g s y j" by (intro op_ok_cong) simp_all
    then show ?thesis using core by (simp add: core_def)
  qed
  have "current_chn (engines u e) = None" by (simp add: u)
  from run_dma_ok [OF wfs this none dmas ops] obtain s5 where
    s5: "run_dma e u = Some s5" "core g s5" "channels s5 = channels u" "sys_ram s5 = sys_ram u" "image s5 = image u" by metis
  have "absd s5 = absd u" using s5 by (intro absd_same) simp_all
  with ex td s5 u have "adv g c s s5" by (intro adv_one) simp_all
  moreover have "work (channels s5 c) < work (channels s c)" using td bf(2) s5 u by (simp add: work_def)
  ultimately obtain s' where "process_waiting_room_cmd g p c s5 = Some s'" "event_done g c s s'"
    using process_after_event [OF inv s5(2), of c p] s5(3) u(1) nc by (metis fun_upd_other fun_upd_same)
  with s5(1) show thesis by (intro that [of s']) simp_all
qed

lemma call_back_eq:
  assumes "current_chn (engines s e) = Some c" "dma_finish g p c (upd_chn c (add_active (- 1)) s) = Some s2"
  shows "dma_complete_call_back g p e s =
    (run_dma e (upd_chn c end_dma (s2\<lparr>engines := (engines s2)(e := (engines s2 e)\<lparr>current_chn := None\<rparr>)\<rparr>)) \<bind> process_waiting_room_cmd g p c)"
  using assms by (simp add: dma_complete_call_back_def Let_def)

lemma dma_read_ok:
  assumes inv: "nc_inv g s" and cur: "current_chn (engines s e) = Some c" "c div 2 = e" and ev: "ev = Dma_done e True c k a"
    and one: "filter (dma_ev e) (events s) = [ev]" and w: "wait_dma_completion (channels s c)" "read_dma (channels s c)"
    and k: "dma_chip (channels s c) = Some k" "a = unat (dma_ram_ptr (channels s c))" "k < PLANES_PER_CHANNEL g" "\<not> busy (chips (channels s c) ! k)"
  obtains s' where "fire_event g p ev (s\<lparr>events := remove1 ev (events s)\<rparr>) = Some s'" "event_done g c s s'"
proof -
  let ?chn = "channels s c" and ?ch = "chips (channels s c) ! k" and ?reg = "\<lambda>i. sys_ram s (a + i)"
  have wf: "chn_wf g ?chn" using inv by (simp add: nc_inv_def core_def)
  have len: "k < length (chips ?chn)" using wf k by (simp add: chn_wf_def)
  have td: "todo ?chn = F_from_ram k a # map cmd_of (room (cmd_waiting_room ?chn))" using w k by (simp add: todo_def dma_cmd_def)
  then have pk: "k \<in> pend_set ?chn" and prog: "prog_ok (pend_set ?chn - {k}) (map cmd_of (room (cmd_waiting_room ?chn)))"
    using chn_wf_chips(4) [OF wf] by simp_all
  then obtain cmd where cmd: "pending_write_cmd ?ch = Some cmd" by (auto simp: pend_set_def)
  note ec = chn_wf_pend [OF wf len cmd]
  define ch where "ch = ?ch\<lparr>nand_page_reg := ?reg, pending_write_cmd := None, cmd_2 := 0x10, busy := True\<rparr>"
  define img where "img = put_bytes (NAND_PAGE_SIZE g) (row_off g c k (decode_address_cycles_5 ?ch)) ?reg (image s)"
  define t where "t = get_program_ltcy p (fst (decode_address_cycles_5 ?ch))"
  have wc: "write_command_cycle g p c k 0x10 (?ch\<lparr>nand_page_reg := ?reg, pending_write_cmd := None\<rparr>, image s) = (t, ch, img)"
    by (simp add: write_command_cycle_def do_program_def ch_def img_def t_def row_off_def decode_address_cycles_5_def)
  define chn where "chn = ?chn\<lparr>chips := (chips ?chn)[k := ch], read_dma := False, dma_chip := None, dma_ram_ptr := 0, wait_dma_completion := False\<rparr>"
  let ?s1 = "dma_transfer_page g True c k a (s\<lparr>events := remove1 ev (events s)\<rparr>)"
  define s2 where "s2 = schedule_ev (Op_done c k t) (upd_chn c (\<lambda>chn. (add_active 1 chn)\<lparr>read_dma := False\<rparr>) ((upd_chn c (upd_chip k (\<lambda>_. ch))
      (upd_chn c (upd_chip k (\<lambda>ch. ch\<lparr>pending_write_cmd := None\<rparr>)) (upd_chn c (add_active (- 1)) ?s1)))\<lparr>image := img\<rparr>))"
  have fin: "dma_finish g p c (upd_chn c (add_active (- 1)) ?s1) = Some s2"
    using w k len cmd ec wc by (simp add: dma_finish_def on_chip_def s2_def dma_transfer_page_def upd_chn_def upd_chip_def add_active_def)
  define s4 where "s4 = upd_chn c end_dma (s2\<lparr>engines := (engines s2)(e := (engines s2 e)\<lparr>current_chn := None\<rparr>)\<rparr>)"
  have fire: "fire_event g p ev (s\<lparr>events := remove1 ev (events s)\<rparr>) = (run_dma e s4 \<bind> process_waiting_room_cmd g p c)"
    using call_back_eq [OF _ fin, of e] cur by (simp add: ev s4_def dma_transfer_page_def upd_chn_def)
  have s4: "channels s4 = (channels s)(c := chn)" "engines s4 = (engines s)(e := (engines s e)\<lparr>current_chn := None\<rparr>)"
    "events s4 = remove1 ev (events s) @ [Op_done c k t]" "sys_ram s4 = sys_ram s" "image s4 = img"
    by (simp_all add: s4_def s2_def schedule_ev_def upd_chn_def upd_chip_def add_active_def end_dma_def dma_transfer_page_def chn_def)
  have fl: "\<not> write_dma ?chn" using wf w k by (simp add: chn_wf_def)
  have b: "busy_chips chn = Suc (busy_chips ?chn)"
    using busy_chips_upd [OF len, of ch] k by (simp add: chn_def busy_chips_def ch_def)
  have tdn: "todo ?chn = F_from_ram k a # todo chn" using td by (simp add: todo_def chn_def)
  have pc: "chips chn = (chips ?chn)[k := ch]" by (simp add: chn_def)
  have ps: "pend_set chn = pend_set ?chn - {k}" using pend_set_upd [OF len pc] by (simp add: ch_def)
  have wfn: "chn_wf g chn"
    using wf fl b ps prog w unfolding chn_wf_def by (auto simp: chn_def todo_def ch_def dest!: in_set_updD)
  have ex: "absd s4 = exec_flash g c (F_from_ram k a) (absd s)"
    unfolding absd_chip [OF s4(1) pc len] using cmd
    by (intro flash_data.equality) (simp_all add: s4 img_def ch_def absd_def decode_address_cycles_5_def set2_def fun_eq_iff Let_def)
  have ncs: "new_cmd chn = new_cmd ?chn" "cmd_waiting_room chn = cmd_waiting_room ?chn" by (simp_all add: chn_def)
  have dv: "dma_ev e ev" by (simp add: ev)
  have e4: "events s4 = remove1 ev (events s) @ (if True then [Op_done c k t] else [])" by (simp add: s4)
  have nw: "\<not> wait_dma_completion chn" by (simp add: chn_def)
  have bf: "busy (chips chn ! j) = (busy (chips ?chn ! j) \<or> j = k \<and> True)" for j using len by (simp add: chn_def nth_list_update ch_def)
  obtain s' where "(run_dma e s4 \<bind> process_waiting_room_cmd g p c) = Some s'" "event_done g c s s'"
    using transfer_over [OF inv cur(2) one dv s4(1,2) e4 wfn nw tdn ncs ex k(3,4) bf] b by (metis order_refl)
  with fire show thesis by (intro that [of s']) simp_all
qed

lemma dma_write_ok:
  assumes inv: "nc_inv g s" and cur: "current_chn (engines s e) = Some c" "c div 2 = e" and ev: "ev = Dma_done e False c k a"
    and one: "filter (dma_ev e) (events s) = [ev]" and w: "wait_dma_completion (channels s c)" "\<not> read_dma (channels s c)"
    and k: "dma_chip (channels s c) = Some k" "a = unat (dma_ram_ptr (channels s c))" "k < PLANES_PER_CHANNEL g" "\<not> busy (chips (channels s c) ! k)"
  obtains s' where "fire_event g p ev (s\<lparr>events := remove1 ev (events s)\<rparr>) = Some s'" "event_done g c s s'"
proof -
  let ?chn = "channels s c"
  have wf: "chn_wf g ?chn" using inv by (simp add: nc_inv_def core_def)
  have td: "todo ?chn = F_to_ram k a # map cmd_of (room (cmd_waiting_room ?chn))" using w k by (simp add: todo_def dma_cmd_def)
  have fl: "write_dma ?chn" using wf w k by (simp add: chn_wf_def)
  define chn where "chn = ?chn\<lparr>active_nand_ops := active_nand_ops ?chn - 1, write_dma := False, dma_chip := None, dma_ram_ptr := 0, wait_dma_completion := False\<rparr>"
  let ?s1 = "dma_transfer_page g False c k a (s\<lparr>events := remove1 ev (events s)\<rparr>)"
  define s2 where "s2 = upd_chn c (\<lambda>chn. chn\<lparr>write_dma := False\<rparr>) (upd_chn c (add_active (- 1)) ?s1)"
  have fin: "dma_finish g p c (upd_chn c (add_active (- 1)) ?s1) = Some s2"
    using w fl by (simp add: dma_finish_def s2_def dma_transfer_page_def upd_chn_def add_active_def)
  define s4 where "s4 = upd_chn c end_dma (s2\<lparr>engines := (engines s2)(e := (engines s2 e)\<lparr>current_chn := None\<rparr>)\<rparr>)"
  have fire: "fire_event g p ev (s\<lparr>events := remove1 ev (events s)\<rparr>) = (run_dma e s4 \<bind> process_waiting_room_cmd g p c)"
    using call_back_eq [OF _ fin, of e] cur by (simp add: ev s4_def dma_transfer_page_def upd_chn_def)
  have s4: "channels s4 = (channels s)(c := chn)" "engines s4 = (engines s)(e := (engines s e)\<lparr>current_chn := None\<rparr>)"
    "events s4 = remove1 ev (events s) @ (if False then [Op_done c k 0] else [])" "image s4 = image s"
    "sys_ram s4 = put_bytes (NAND_PAGE_SIZE g) a (nand_page_reg (chips ?chn ! k)) (sys_ram s)"
    by (simp_all add: s4_def s2_def upd_chn_def add_active_def end_dma_def dma_transfer_page_def chn_def)
  have tdn: "todo ?chn = F_to_ram k a # todo chn" using td by (simp add: todo_def chn_def)
  have bc: "busy_chips chn = busy_chips ?chn" "pend_set chn = pend_set ?chn" by (simp_all add: chn_def busy_chips_def pend_set_def)
  have wfn: "chn_wf g chn"
    using wf w td tdn bc unfolding chn_wf_def by (auto simp: chn_def)
  have nw: "\<not> wait_dma_completion chn" by (simp add: chn_def)
  have bf: "busy (chips chn ! j) = (busy (chips ?chn ! j) \<or> j = k \<and> False)" for j by (simp add: chn_def)
  have ex: "absd s4 = exec_flash g c (F_to_ram k a) (absd s)"
    by (intro flash_data.equality) (simp_all add: absd_def s4 chn_def fun_eq_iff)
  have ncs: "new_cmd chn = new_cmd ?chn" "cmd_waiting_room chn = cmd_waiting_room ?chn" by (simp_all add: chn_def)
  have dv: "dma_ev e ev" by (simp add: ev)
  obtain s' where "(run_dma e s4 \<bind> process_waiting_room_cmd g p c) = Some s'" "event_done g c s s'"
    using transfer_over [OF inv cur(2) one dv s4(1,2,3) wfn nw tdn ncs ex k(3,4) bf] bc by (metis le_SucI order_refl)
  with fire show thesis by (intro that [of s']) simp_all
qed

text \<open>Every event of the queue can be processed; it advances one channel.\<close>

lemma event_ok:
  assumes inv: "nc_inv g s" and ev: "ev \<in> set (events s)"
  obtains c s' where "fire_event g p ev (s\<lparr>events := remove1 ev (events s)\<rparr>) = Some s'" "event_done g c s s'"
proof (cases ev)
  case (Op_done c k t)
  with op_complete_ok [OF inv, of c k t p] ev that show thesis by metis
next
  case (Dma_done e d c' k' a')
  have ok: "dma_ok s e" using inv by (simp add: nc_inv_def core_def)
  define fl where "fl = filter (dma_ev e) (events s)"
  have mem: "ev \<in> set fl" using ev Dma_done by (simp add: fl_def)
  with ok obtain c where c: "current_chn (engines s e) = Some c" "c div 2 = e" "wait_dma_completion (channels s c)"
    "fl = [Dma_done e (read_dma (channels s c)) c (the (dma_chip (channels s c))) (unat (dma_ram_ptr (channels s c)))]"
    by (cases "current_chn (engines s e)") (auto simp: dma_ok_def fl_def [symmetric])
  have "chn_wf g (channels s c)" using inv by (simp add: nc_inv_def core_def)
  with c(3) obtain k where k: "dma_chip (channels s c) = Some k" "k < PLANES_PER_CHANNEL g" "\<not> busy (chips (channels s c) ! k)"
    by (auto simp: chn_wf_def)
  have e: "ev = Dma_done e (read_dma (channels s c)) c k (unat (dma_ram_ptr (channels s c)))" using mem unfolding c(4) by (simp add: k)
  then have one: "filter (dma_ev e) (events s) = [ev]" unfolding fl_def [symmetric] c(4) by (simp add: k)
  show thesis
  proof (cases "read_dma (channels s c)")
    case True
    with e have "ev = Dma_done e True c k (unat (dma_ram_ptr (channels s c)))" by simp
    from dma_read_ok [OF inv c(1,2) this one c(3) True k(1) refl k(2,3)] that show thesis by metis
  next
    case False
    with e have "ev = Dma_done e False c k (unat (dma_ram_ptr (channels s c)))" by simp
    from dma_write_ok [OF inv c(1,2) this one c(3) False k(1) refl k(2,3)] that show thesis by metis
  qed
qed

lemma event_step_done:
  assumes "nc_inv g s" "nc_event_step g p s s'" obtains c where "event_done g c s s'"
  using assms(2)
proof cases
  case (fires ev)
  from event_ok [OF assms(1) fires(1), of p] fires(2) that show thesis by (metis option.inject)
qed

end
