(* ===== verification/Nand_Ctrl_Run.thy ===== *)
theory Nand_Ctrl_Run
  imports Nand_Ctrl_Step
begin

text \<open>
  Runs of the NAND controller under a sequence of register writes: the writes compose and queue commands, and every
  interleaving of them with events executes these commands atomically, those of one channel in their order.
\<close>

section \<open>Register writes\<close>

text \<open>The command a channel is composing after a write, and the command the write queues.\<close>

definition compose_cmd :: "nat \<Rightarrow> u32 \<Rightarrow> nc_command \<Rightarrow> nc_command \<times> nc_command list" where
  "compose_cmd off data cmd =
     (if off = CHIP_SELECT_REG then (cmd\<lparr>chip_enabled := Some (unat data)\<rparr>, [])
      else if off = ADDRESS_CYCLE_REG_1 then (cmd\<lparr>addr_1 := data\<rparr>, [])
      else if off = ADDRESS_CYCLE_REG_2 then (cmd\<lparr>addr_2 := data\<rparr>, [])
      else if off = DMA_RAM_PTR then (cmd\<lparr>ram_ptr := data\<rparr>, [])
      else if off = CMD_PHASE_CMD_REG then
        (let op = 0xFFFF AND data OR 0x80000000 in
         (new_NC_Command, [cmd\<lparr>nc_data := data, nc_op := op, data_phase_required := (data_phase_required cmd \<or> op = PROGRAM_NAND)\<rparr>]))
      else if off = DMA_PHASE_CMD_REG then (new_NC_Command, [cmd\<lparr>nc_data := data, nc_op := data\<rparr>])
      else (cmd, []))"

definition set_new_cmd :: "nat \<Rightarrow> nc_command \<Rightarrow> nc_st \<Rightarrow> nc_st" where
  "set_new_cmd c n s = upd_chn c (\<lambda>chn. chn\<lparr>new_cmd := n\<rparr>) s"

lemma set_new_cmd_inv:
  shows "nc_inv g (set_new_cmd c n s) = nc_inv g s" "absd (set_new_cmd c n s) = absd s"
    "todo (channels (set_new_cmd c n s) x) = todo (channels s x)" "work (channels (set_new_cmd c n s) x) = work (channels s x)"
    "new_cmd (channels (set_new_cmd c n s) x) = (if x = c then n else new_cmd (channels s x))"
    "x \<noteq> c \<Longrightarrow> channels (set_new_cmd c n s) x = channels s x"
    "room (cmd_waiting_room (channels (set_new_cmd c n s) x)) = room (cmd_waiting_room (channels s x))"
    "pend_set (channels (set_new_cmd c n s) x) = pend_set (channels s x)"
proof -
  let ?s = "set_new_cmd c n s"
  have f: "chips (channels ?s x) = chips (channels s x)" "chip_count (channels ?s x) = chip_count (channels s x)"
    "cmd_waiting_room (channels ?s x) = cmd_waiting_room (channels s x)" "active_nand_ops (channels ?s x) = active_nand_ops (channels s x)"
    "dma_key (channels ?s x) = dma_key (channels s x)" "write_dma (channels ?s x) = write_dma (channels s x)" for x
    by (simp_all add: set_new_cmd_def upd_chn_def dma_key_def)
  have d: "wait_dma_completion (channels ?s x) = wait_dma_completion (channels s x)" "read_dma (channels ?s x) = read_dma (channels s x)"
    "dma_chip (channels ?s x) = dma_chip (channels s x)" "dma_ram_ptr (channels ?s x) = dma_ram_ptr (channels s x)" for x
    using f(5) [of x] by (simp_all add: dma_key_def)
  have e: "engines ?s = engines s" "events ?s = events s" "sys_ram ?s = sys_ram s" "image ?s = image s" by (simp_all add: set_new_cmd_def upd_chn_def)
  show td: "todo (channels ?s x) = todo (channels s x)" for x by (simp add: todo_def f d dma_cmd_def)
  show ps: "pend_set (channels ?s x) = pend_set (channels s x)" for x by (simp add: pend_set_def f)
  have b: "busy_chips (channels ?s x) = busy_chips (channels s x)" for x by (simp add: busy_chips_def f)
  have "chn_wf g (channels ?s x) = chn_wf g (channels s x)" for x by (simp add: chn_wf_def f d td ps b)
  moreover have "op_ok g ?s x k = op_ok g s x k" for x k by (intro op_ok_cong) (simp_all add: e f)
  moreover have "dma_ok ?s y = dma_ok s y" for y by (intro dma_ok_cong) (simp_all add: e f)
  moreover have "blocked (channels ?s x) = blocked (channels s x)" for x by (simp add: blocked_def f d split: list.split)
  ultimately show "nc_inv g ?s = nc_inv g s" by (simp add: nc_inv_def core_def)
  show "absd ?s = absd s" by (intro absd_same) (simp_all add: e f)
  show "work (channels ?s x) = work (channels s x)" by (simp add: work_def td b)
  show "new_cmd (channels ?s x) = (if x = c then n else new_cmd (channels s x))" "x \<noteq> c \<Longrightarrow> channels ?s x = channels s x"
    by (simp_all add: set_new_cmd_def upd_chn_def)
  show "room (cmd_waiting_room (channels ?s x)) = room (cmd_waiting_room (channels s x))" by (simp add: f)
qed

text \<open>A command enters the waiting room.\<close>

lemma prog_ok_append: "prog_ok S (xs @ ys) \<Longrightarrow> prog_ok S xs"
  by (induction S xs rule: prog_ok.induct) simp_all

lemma push_core:
  assumes inv: "core g s" and x: "cmd_ok g x" and prog: "prog_ok (pend_set (channels s c)) (todo (channels s c) @ [cmd_of x])"
    and len: "length (room (cmd_waiting_room (channels s c))) < en_size - 1" and s1: "s1 = upd_room (\<lambda>f. snd (fifo_push x f)) c s"
  shows "core g s1" "todo (channels s1 c) = todo (channels s c) @ [cmd_of x]" "absd s1 = absd s" "busy_chips (channels s1 c) = busy_chips (channels s c)"
    "\<And>y. y \<noteq> c \<Longrightarrow> channels s1 y = channels s y" "new_cmd (channels s1 c) = new_cmd (channels s c)"
    "room (cmd_waiting_room (channels s1 c)) = room (cmd_waiting_room (channels s c)) @ [x]" "chips (channels s1 c) = chips (channels s c)"
proof -
  have wf: "chn_wf g (channels s c)" using inv by (simp add: core_def)
  note push = fifo_push_room [OF chn_wf_chips(3) [OF wf] len, of x]
  have f: "chips (channels s1 y) = chips (channels s y)" "chip_count (channels s1 y) = chip_count (channels s y)"
    "active_nand_ops (channels s1 y) = active_nand_ops (channels s y)" "write_dma (channels s1 y) = write_dma (channels s y)"
    "wait_dma_completion (channels s1 y) = wait_dma_completion (channels s y)" "read_dma (channels s1 y) = read_dma (channels s y)"
    "dma_chip (channels s1 y) = dma_chip (channels s y)" "dma_ram_ptr (channels s1 y) = dma_ram_ptr (channels s y)" "new_cmd (channels s1 y) = new_cmd (channels s y)" for y
    by (simp_all add: s1 upd_room_def upd_chn_def)
  have r: "cmd_waiting_room (channels s1 c) = snd (fifo_push x (cmd_waiting_room (channels s c)))" by (simp add: s1 upd_room_def upd_chn_def)
  have e: "engines s1 = engines s" "events s1 = events s" "sys_ram s1 = sys_ram s" "image s1 = image s" by (simp_all add: s1 upd_room_def upd_chn_def)
  show oth: "channels s1 y = channels s y" if "y \<noteq> c" for y using that by (simp add: s1 upd_room_def upd_chn_def)
  show td: "todo (channels s1 c) = todo (channels s c) @ [cmd_of x]" using push by (simp add: todo_def f r dma_cmd_def)
  show b: "busy_chips (channels s1 c) = busy_chips (channels s c)" by (simp add: busy_chips_def f)
  show "absd s1 = absd s" by (intro absd_same) (simp_all add: e f)
  show "room (cmd_waiting_room (channels s1 c)) = room (cmd_waiting_room (channels s c)) @ [x]" using push by (simp add: r)
  show "new_cmd (channels s1 c) = new_cmd (channels s c)" "chips (channels s1 c) = chips (channels s c)" by (simp_all add: f)
  have ps: "pend_set (channels s1 c) = pend_set (channels s c)" by (simp add: pend_set_def f)
  have "chn_wf g (channels s1 c)" using wf push x prog unfolding chn_wf_def by (auto simp: f r td ps b)
  then have "chn_wf g (channels s1 y)" for y using inv oth [of y] by (cases "y = c") (simp_all add: core_def)
  moreover have "op_ok g s1 y k = op_ok g s y k" for y k by (intro op_ok_cong) (simp_all add: e f)
  moreover have "dma_ok s1 y = dma_ok s y" for y by (intro dma_ok_cong) (simp_all add: e f dma_key_def)
  ultimately show "core g s1" using inv by (simp add: core_def)
qed

text \<open>What a write does on its channel.\<close>

definition write_done :: "geo \<Rightarrow> nat \<Rightarrow> nc_command \<Rightarrow> nc_command list \<Rightarrow> nc_st \<Rightarrow> nc_st \<Rightarrow> bool" where
  "write_done g c n qs s s' \<longleftrightarrow> nc_inv g s' \<and> new_cmd (channels s' c) = n \<and> (\<forall>y. y \<noteq> c \<longrightarrow> channels s' y = channels s y) \<and>
     (\<exists>pre. todo (channels s c) @ map cmd_of qs = pre @ todo (channels s' c) \<and> absd s' = fold (exec_flash g c) pre (absd s)) \<and>
     length (room (cmd_waiting_room (channels s' c))) \<le> length (room (cmd_waiting_room (channels s c))) + length qs"

lemma queue_ok:
  assumes inv: "nc_inv g s" and x: "cmd_ok g x" and prog: "prog_ok (pend_set (channels s c)) (todo (channels s c) @ [cmd_of x])"
    and len: "length (room (cmd_waiting_room (channels s c))) < en_size - 1"
  obtains s2 where "(if ff_isEmpty (cmd_waiting_room (channels s c)) then process_waiting_room_cmd g p c (upd_room (\<lambda>f. snd (fifo_push x f)) c s)
     else Some (upd_room (\<lambda>f. snd (fifo_push x f)) c s)) = Some s2" "write_done g c n [x] s (set_new_cmd c n s2)"
proof -
  define s1 where "s1 = upd_room (\<lambda>f. snd (fifo_push x f)) c s"
  have core: "core g s" and wf: "chn_wf g (channels s c)" and bl: "blocked (channels s y)" for y using inv by (simp_all add: nc_inv_def core_def)
  note p1 = push_core [OF core x prog len s1_def]
  note em = fifo_empty [OF chn_wf_chips(3) [OF wf]]
  have fin: "write_done g c n [x] s (set_new_cmd c n s2)" if "part_done g c s1 s2" "blocked (channels s2 c)" for s2
  proof -
    have "nc_inv g s2" using that bl p1(5) by (auto simp: nc_inv_def part_done_def) metis
    moreover have "adv g c s1 s2" using that by (simp add: part_done_def)
    ultimately show ?thesis using that p1(2,3,5,7) by (auto simp: write_done_def set_new_cmd_inv part_done_def adv_def)
  qed
  show thesis
  proof (cases "ff_isEmpty (cmd_waiting_room (channels s c))")
    case True
    from process_ok [OF p1(1), of p c] obtain s2 where
      s2: "process_waiting_room_cmd g p c s1 = Some s2" "part_done g c s1 s2" "blocked (channels s2 c)" by blast
    with fin [OF s2(2,3)] s2(1) True show thesis by (intro that [of s2]) (simp_all add: s1_def)
  next
    case False
    then obtain cmd rest where r: "room (cmd_waiting_room (channels s c)) = cmd # rest" using em by (cases "room (cmd_waiting_room (channels s c))") auto
    have w: "wait_dma_completion (channels s1 c) = wait_dma_completion (channels s c)" by (simp add: s1_def)
    have "blocked (channels s1 c)" using bl [of c] r p1(7,8) w by (simp add: blocked_def)
    with fin [OF part_done_refl [OF p1(1)]] False show thesis by (intro that [of s1]) (simp_all add: s1_def)
  qed
qed

text \<open>Every write of a register succeeds when the command it queues is well formed and there is room for it.\<close>

lemma chn_write_ok:
  assumes inv: "nc_inv g s" and co: "compose_cmd off data (new_cmd (channels s c)) = (n, qs)"
    and sel: "off = CHIP_SELECT_REG \<Longrightarrow> unat data \<le> PLANES_PER_CHANNEL g" and ok: "\<And>x. x \<in> set qs \<Longrightarrow> cmd_ok g x"
    and prog: "prog_ok (pend_set (channels s c)) (todo (channels s c) @ map cmd_of qs)"
    and len: "length (room (cmd_waiting_room (channels s c))) + length qs < en_size"
  obtains s' where "chn_write g p c off data s = Some s'" "write_done g c n qs s s'"
proof -
  have wf: "chn_wf g (channels s c)" using inv by (simp add: nc_inv_def core_def)
  have plain: "write_done g c n [] s (set_new_cmd c n s)" for n
    using inv by (auto simp: write_done_def set_new_cmd_inv intro: exI [of _ "[]"])
  have same: "set_new_cmd c (new_cmd (channels s c)) s = s" by (simp add: set_new_cmd_def upd_chn_def)
  show thesis
  proof (cases "off \<in> {CMD_PHASE_CMD_REG, DMA_PHASE_CMD_REG}")
    case False
    then have "chn_write g p c off data s = Some (set_new_cmd c n s) \<and> qs = []"
      using co sel wf same unfolding chn_write_def compose_cmd_def chn_wf_def
      by (auto simp: Let_def set_new_cmd_def nand_reg_defs split: if_splits)
    with plain [of n] show thesis by (intro that [of "set_new_cmd c n s"]) simp_all
  next
    case True
    then obtain x where x: "qs = [x]" "n = new_NC_Command" "x = (if off = CMD_PHASE_CMD_REG then
        (new_cmd (channels s c))\<lparr>nc_data := data, nc_op := 0xFFFF AND data OR 0x80000000,
          data_phase_required := (data_phase_required (new_cmd (channels s c)) \<or> 0xFFFF AND data OR 0x80000000 = PROGRAM_NAND)\<rparr>
      else (new_cmd (channels s c))\<lparr>nc_data := data, nc_op := data\<rparr>)"
      using co by (auto simp: compose_cmd_def Let_def nand_reg_defs)
    have add: "upd_chn c ((if off = CMD_PHASE_CMD_REG then add_cmd_phase else add_data_phase) ((new_cmd (channels s c))\<lparr>nc_data := data\<rparr>)) s
        = upd_room (\<lambda>f. snd (fifo_push x f)) c s"
      by (auto simp: upd_room_def upd_chn_def x(3) add_cmd_phase_def add_data_phase_def Let_def)
    have w: "chn_write g p c off data s = (if ff_isEmpty (cmd_waiting_room (channels s c)) then process_waiting_room_cmd g p c (upd_room (\<lambda>f. snd (fifo_push x f)) c s)
      else Some (upd_room (\<lambda>f. snd (fifo_push x f)) c s)) \<bind> (\<lambda>s2. Some (set_new_cmd c n s2))"
    proof (cases "off = CMD_PHASE_CMD_REG")
      case True
      with add show ?thesis unfolding chn_write_def Let_def set_new_cmd_def x(2) by (simp add: nand_reg_defs)
    next
      case False
      with True have "off = DMA_PHASE_CMD_REG" by simp
      with add show ?thesis unfolding chn_write_def Let_def set_new_cmd_def x(2) by (simp add: nand_reg_defs)
    qed
    have "cmd_ok g x" "prog_ok (pend_set (channels s c)) (todo (channels s c) @ [cmd_of x])" "length (room (cmd_waiting_room (channels s c))) < en_size - 1"
      using ok prog len x(1) by simp_all
    from queue_ok [OF inv this, of p n] obtain s2 where
      s2: "(if ff_isEmpty (cmd_waiting_room (channels s c)) then process_waiting_room_cmd g p c (upd_room (\<lambda>f. snd (fifo_push x f)) c s)
        else Some (upd_room (\<lambda>f. snd (fifo_push x f)) c s)) = Some s2" "write_done g c n [x] s (set_new_cmd c n s2)" by blast
    show thesis by (rule that [of "set_new_cmd c n s2"]) (simp_all only: w s2 x(1) Option.bind.simps)
  qed
qed

section \<open>Interleavings of atomic commands\<close>

text \<open>Each channel executes its list of commands in order, the channels in any interleaving.\<close>

inductive flash_steps :: "geo \<Rightarrow> flash_data \<Rightarrow> (nat \<Rightarrow> flash_cmd list) \<Rightarrow> flash_data \<Rightarrow> (nat \<Rightarrow> flash_cmd list) \<Rightarrow> bool" for g where
  no_step: "flash_steps g d q d q"
| one_step: "q c = x # xs \<Longrightarrow> flash_steps g (exec_flash g c x d) (q(c := xs)) d' q' \<Longrightarrow> flash_steps g d q d' q'"

lemma flash_steps_trans: "flash_steps g d q d1 q1 \<Longrightarrow> flash_steps g d1 q1 d2 q2 \<Longrightarrow> flash_steps g d q d2 q2"
  by (induction rule: flash_steps.induct) (auto intro: one_step)

lemma flash_steps_prefix: "q c = pre @ r \<Longrightarrow> flash_steps g d q (fold (exec_flash g c) pre d) (q(c := r))"
proof (induction pre arbitrary: d q)
  case Nil
  then have "q(c := r) = q" by auto
  then show ?case by (simp add: no_step)
next
  case (Cons x pre)
  from Cons.IH [of "q(c := pre @ r)" "exec_flash g c x d"]
  have "flash_steps g (exec_flash g c x d) (q(c := pre @ r)) (fold (exec_flash g c) pre (exec_flash g c x d)) (q(c := r))"
    by (simp only: fun_upd_same fun_upd_upd)
  moreover have "q c = x # (pre @ r)" using Cons.prems by simp
  ultimately show ?case by (simp only: one_step fold_Cons comp_apply)
qed

lemma flash_steps_suffix: "flash_steps g d q d' q' \<Longrightarrow> \<exists>pre. q c = pre @ q' c"
proof (induction rule: flash_steps.induct)
  case (one_step q c' x xs d d' q')
  then obtain pre where "(q(c' := xs)) c = pre @ q' c" by blast
  with one_step(1) show ?case by (cases "c' = c") (auto intro: exI [of _ "x # pre"])
qed simp

text \<open>The register writes of a program, decoded to channels, and the commands they queue.\<close>

definition bus_target :: "nat \<Rightarrow> (nat \<times> nat) option" where
  "bus_target addr =
     (let a = addr - get_dev_address DEV_NAND_CTRL; e = a div 0x1000; offset = a mod 0x1000 in
      if offset \<ge> CHANNEL_1_BASE_ADDR then Some (2 * e + 1, offset - CHANNEL_1_BASE_ADDR)
      else if offset \<ge> CHANNEL_0_BASE_ADDR then Some (2 * e, offset - CHANNEL_0_BASE_ADDR)
      else None)"

lemma bus_target_write: "bus_target a = Some (c, off) \<Longrightarrow> nc_bus_write g p a d s = chn_write g p c off d s"
  by (auto simp: bus_target_def nc_bus_write_def nc_write_def Let_def split: if_splits)

fun queued :: "(nat \<times> u32) list \<Rightarrow> (nat \<Rightarrow> nc_command) \<Rightarrow> nat \<Rightarrow> nc_command list" where
  "queued [] N c = []"
| "queued ((a, d) # ws) N c =
     (case bus_target a of
        None \<Rightarrow> queued ws N c
      | Some (c', off) \<Rightarrow> (case compose_cmd off d (N c') of (n, qs) \<Rightarrow> (if c' = c then qs else []) @ queued ws (N(c' := n)) c))"

definition new_cmds :: "nc_st \<Rightarrow> nat \<Rightarrow> nc_command" where "new_cmds s = (\<lambda>c. new_cmd (channels s c))"

text \<open>All commands that have not taken effect, the ones to come included.\<close>

definition rest_cmds :: "(nat \<times> u32) list \<Rightarrow> nc_st \<Rightarrow> nat \<Rightarrow> flash_cmd list" where
  "rest_cmds ws s c = todo (channels s c) @ map cmd_of (queued ws (new_cmds s) c)"

definition run_ok :: "geo \<Rightarrow> (nat \<times> u32) list \<Rightarrow> nc_st \<Rightarrow> bool" where
  "run_ok g ws s \<longleftrightarrow> nc_inv g s \<and>
     (\<forall>(a, d) \<in> set ws. \<exists>c off. bus_target a = Some (c, off) \<and> (off = CHIP_SELECT_REG \<longrightarrow> unat d \<le> PLANES_PER_CHANNEL g)) \<and>
     (\<forall>c. (\<forall>x \<in> set (queued ws (new_cmds s) c). cmd_ok g x) \<and> prog_ok (pend_set (channels s c)) (rest_cmds ws s c) \<and>
        length (room (cmd_waiting_room (channels s c))) + length (queued ws (new_cmds s) c) < en_size)"

fun cmd_chip :: "flash_cmd \<Rightarrow> nat set" where
  "cmd_chip (F_program k row) = {k}"
| "cmd_chip _ = {}"

lemma prog_ok_exec:
  "prog_ok {k. k < n \<and> fd_pend d c k} (x # r) \<Longrightarrow> cmd_chip x \<subseteq> {..<n} \<Longrightarrow> prog_ok {k. k < n \<and> fd_pend (exec_flash g c x d) c k} r"
proof -
  assume a: "prog_ok {k. k < n \<and> fd_pend d c k} (x # r)" "cmd_chip x \<subseteq> {..<n}"
  let ?S = "{k. k < n \<and> fd_pend d c k}" and ?T = "{k. k < n \<and> fd_pend (exec_flash g c x d) c k}"
  show ?thesis
  proof (cases x)
    case (F_program k row)
    then have "?T = insert k ?S" using a(2) by auto
    with a(1) F_program show ?thesis by (simp only: prog_ok.simps)
  next
    case (F_from_ram k ad)
    then have "?T = ?S - {k}" by (auto simp: Let_def)
    with a(1) F_from_ram show ?thesis by (simp only: prog_ok.simps)
  qed (use a(1) in simp_all)
qed

lemma prog_ok_fold:
  "prog_ok {k. k < n \<and> fd_pend d c k} (pre @ r) \<Longrightarrow> (\<And>x. x \<in> set pre \<Longrightarrow> cmd_chip x \<subseteq> {..<n}) \<Longrightarrow>
   prog_ok {k. k < n \<and> fd_pend (fold (exec_flash g c) pre d) c k} r"
proof (induction pre arbitrary: d)
  case (Cons x pre)
  from Cons.prems prog_ok_exec [of n d c x "pre @ r" g] have "prog_ok {k. k < n \<and> fd_pend (exec_flash g c x d) c k} (pre @ r)" by simp
  from Cons.IH [OF this] Cons.prems(2) show ?case by simp
qed simp

lemma pend_set_absd: "chn_wf g (channels s c) \<Longrightarrow> pend_set (channels s c) = {k. k < PLANES_PER_CHANNEL g \<and> fd_pend (absd s) c k}"
  by (simp add: pend_set_def absd_def chn_wf_def)

lemma todo_chips:
  assumes "chn_wf g chn" "x \<in> set (todo chn)" shows "cmd_chip x \<subseteq> {..<PLANES_PER_CHANNEL g}"
proof -
  have "cmd_chip (cmd_of cmd) \<subseteq> {..<PLANES_PER_CHANNEL g}" if "cmd_ok g cmd" for cmd
    using that by (auto simp: cmd_ok_def cmd_of_def Let_def split: if_splits)
  then show ?thesis using assms by (auto simp: todo_def chn_wf_def dma_cmd_def Let_def split: if_splits)
qed

lemma cmd_ok_chip: "cmd_ok g cmd \<Longrightarrow> cmd_chip (cmd_of cmd) \<subseteq> {..<PLANES_PER_CHANNEL g}"
  by (auto simp: cmd_ok_def cmd_of_def Let_def split: if_splits)

text \<open>A part of the work of one channel keeps a run sound and is an interleaving of its commands.\<close>

lemma advance:
  assumes ok: "run_ok g ws0 s" and inv: "nc_inv g s'" and oth: "\<And>y. y \<noteq> c \<Longrightarrow> channels s' y = channels s y"
    and pre: "rest_cmds ws0 s c = pre @ rest_cmds ws s' c" "absd s' = fold (exec_flash g c) pre (absd s)"
    and q: "\<And>y. y \<noteq> c \<Longrightarrow> queued ws (new_cmds s') y = queued ws0 (new_cmds s) y"
    and qc: "set (queued ws (new_cmds s') c) \<subseteq> set (queued ws0 (new_cmds s) c)"
      "length (room (cmd_waiting_room (channels s' c))) + length (queued ws (new_cmds s') c)
        \<le> length (room (cmd_waiting_room (channels s c))) + length (queued ws0 (new_cmds s) c)"
    and ws: "set ws \<subseteq> set ws0"
  shows "run_ok g ws s'" "flash_steps g (absd s) (rest_cmds ws0 s) (absd s') (rest_cmds ws s')"
proof -
  have wf: "chn_wf g (channels s y)" "chn_wf g (channels s' y)" for y using ok inv by (simp_all add: run_ok_def nc_inv_def core_def)
  have ry: "rest_cmds ws s' y = rest_cmds ws0 s y" if "y \<noteq> c" for y using that oth q by (simp add: rest_cmds_def)
  have chp: "cmd_chip x \<subseteq> {..<PLANES_PER_CHANNEL g}" if "x \<in> set (rest_cmds ws0 s c)" for x
  proof -
    have "\<forall>x \<in> set (queued ws0 (new_cmds s) c). cmd_ok g x" using ok by (simp add: run_ok_def)
    then show ?thesis using that todo_chips [OF wf(1) [of c]] cmd_ok_chip by (fastforce simp: rest_cmds_def)
  qed
  have pc: "prog_ok (pend_set (channels s' c)) (rest_cmds ws s' c)"
  proof -
    have "prog_ok {k. k < PLANES_PER_CHANNEL g \<and> fd_pend (absd s) c k} (pre @ rest_cmds ws s' c)"
      using ok by (simp add: run_ok_def pre(1) [symmetric] pend_set_absd [OF wf(1)])
    then show ?thesis unfolding pend_set_absd [OF wf(2)] pre(2) by (rule prog_ok_fold) (use chp pre(1) in auto)
  qed
  have "(\<forall>x \<in> set (queued ws (new_cmds s') y). cmd_ok g x) \<and> prog_ok (pend_set (channels s' y)) (rest_cmds ws s' y) \<and>
      length (room (cmd_waiting_room (channels s' y))) + length (queued ws (new_cmds s') y) < en_size" for y
  proof (cases "y = c")
    case True
    have "(\<forall>x \<in> set (queued ws0 (new_cmds s) c). cmd_ok g x) \<and>
      length (room (cmd_waiting_room (channels s c))) + length (queued ws0 (new_cmds s) c) < en_size" using ok by (simp add: run_ok_def)
    with True pc qc show ?thesis by auto
  next
    case False
    with ok oth [OF False] q [OF False] ry [OF False] show ?thesis by (simp add: run_ok_def)
  qed
  with ok inv ws show "run_ok g ws s'" unfolding run_ok_def by blast
  have "(rest_cmds ws0 s)(c := rest_cmds ws s' c) = rest_cmds ws s'" using ry by (auto simp: fun_eq_iff)
  then show "flash_steps g (absd s) (rest_cmds ws0 s) (absd s') (rest_cmds ws s')"
    using flash_steps_prefix [of "rest_cmds ws0 s" c pre "rest_cmds ws s' c" g "absd s", OF pre(1)] pre(2) by simp
qed

lemma run_event:
  assumes ok: "run_ok g ws s" and ev: "nc_event_step g p s s'"
  shows "run_ok g ws s'" "flash_steps g (absd s) (rest_cmds ws s) (absd s') (rest_cmds ws s')"
proof -
  have "nc_inv g s" using ok by (simp add: run_ok_def)
  from event_step_done [OF this ev] obtain c where d: "event_done g c s s'" .
  then obtain pre where pre: "todo (channels s c) = pre @ todo (channels s' c)" "absd s' = fold (exec_flash g c) pre (absd s)"
    by (auto simp: event_done_def adv_def)
  have n: "new_cmds s' = new_cmds s"
  proof
    show "new_cmds s' y = new_cmds s y" for y using d by (cases "y = c") (simp_all add: event_done_def new_cmds_def)
  qed
  have "rest_cmds ws s c = pre @ rest_cmds ws s' c" using pre(1) by (simp add: rest_cmds_def n)
  note a = advance [OF ok _ _ this pre(2)]
  show "run_ok g ws s'" "flash_steps g (absd s) (rest_cmds ws s) (absd s') (rest_cmds ws s')"
    using a d by (simp_all add: event_done_def n)
qed

lemma run_write:
  assumes ok: "run_ok g ((a, d) # ws) s"
  obtains s1 where "nc_bus_write g p a d s = Some s1" "run_ok g ws s1"
    "flash_steps g (absd s) (rest_cmds ((a, d) # ws) s) (absd s1) (rest_cmds ws s1)"
    "\<exists>c off. bus_target a = Some (c, off) \<and> (\<forall>y. y \<noteq> c \<longrightarrow> channels s1 y = channels s y)"
proof -
  have inv: "nc_inv g s" using ok by (simp add: run_ok_def)
  from ok obtain c off where t: "bus_target a = Some (c, off)" "off = CHIP_SELECT_REG \<Longrightarrow> unat d \<le> PLANES_PER_CHANNEL g"
    by (auto simp: run_ok_def)
  obtain n qs where co: "compose_cmd off d (new_cmd (channels s c)) = (n, qs)" by fastforce
  have qd: "queued ((a, d) # ws) (new_cmds s) y = (if c = y then qs else []) @ queued ws ((new_cmds s)(c := n)) y" for y
    using t co by (simp add: new_cmds_def)
  have c: "\<forall>x \<in> set (queued ((a, d) # ws) (new_cmds s) c). cmd_ok g x" "prog_ok (pend_set (channels s c)) (rest_cmds ((a, d) # ws) s c)"
    "length (room (cmd_waiting_room (channels s c))) + length (queued ((a, d) # ws) (new_cmds s) c) < en_size"
    using ok unfolding run_ok_def by blast+
  have prog: "prog_ok (pend_set (channels s c)) (todo (channels s c) @ map cmd_of qs)"
    using c(2) prog_ok_append [of _ "todo (channels s c) @ map cmd_of qs" "map cmd_of (queued ws ((new_cmds s)(c := n)) c)"]
    unfolding rest_cmds_def qd by simp
  have okq: "cmd_ok g x" if "x \<in> set qs" for x using c(1) that unfolding qd by simp
  have len: "length (room (cmd_waiting_room (channels s c))) + length qs < en_size" using c(3) unfolding qd by simp
  from chn_write_ok [OF inv co t(2) okq prog len, of p] obtain s1 where
    s1: "chn_write g p c off d s = Some s1" "write_done g c n qs s s1" by blast
  then obtain pre where pre: "todo (channels s c) @ map cmd_of qs = pre @ todo (channels s1 c)" "absd s1 = fold (exec_flash g c) pre (absd s)"
    by (auto simp: write_done_def)
  have nn: "new_cmds s1 = (new_cmds s)(c := n)"
  proof
    show "new_cmds s1 y = ((new_cmds s)(c := n)) y" for y using s1(2) by (cases "y = c") (simp_all add: write_done_def new_cmds_def)
  qed
  have r: "rest_cmds ((a, d) # ws) s c = pre @ rest_cmds ws s1 c"
    unfolding rest_cmds_def qd nn using pre(1) by simp
  note adv = advance [OF ok _ _ r pre(2)]
  have inv1: "nc_inv g s1" and oth: "\<And>y. y \<noteq> c \<Longrightarrow> channels s1 y = channels s y" and rl:
    "length (room (cmd_waiting_room (channels s1 c))) \<le> length (room (cmd_waiting_room (channels s c))) + length qs"
    using s1(2) by (simp_all add: write_done_def)
  have q: "queued ws (new_cmds s1) y = queued ((a, d) # ws) (new_cmds s) y" if "y \<noteq> c" for y using that unfolding qd nn by simp
  have qc: "set (queued ws (new_cmds s1) c) \<subseteq> set (queued ((a, d) # ws) (new_cmds s) c)"
    "length (room (cmd_waiting_room (channels s1 c))) + length (queued ws (new_cmds s1) c)
        \<le> length (room (cmd_waiting_room (channels s c))) + length (queued ((a, d) # ws) (new_cmds s) c)"
    unfolding qd nn using rl by simp_all
  show thesis
    by (rule that [OF _ adv [OF inv1 oth q qc]]) (use s1(1) bus_target_write [OF t(1)] t(1) oth in auto)
qed

text \<open>A run of the first writes, with those that are still to come.\<close>

lemma run_sim:
  "nc_run g p ws s s' \<Longrightarrow> run_ok g (ws @ vs) s \<Longrightarrow>
   run_ok g vs s' \<and> flash_steps g (absd s) (rest_cmds (ws @ vs) s) (absd s') (rest_cmds vs s')"
proof (induction rule: nc_run.induct)
  case (finished s)
  then show ?case by (simp add: no_step)
next
  case (bus_write a d s s1 ws s2)
  then have ok: "run_ok g ((a, d) # (ws @ vs)) s" by simp
  from run_write [OF ok, of p] bus_write.hyps(1) have "run_ok g (ws @ vs) s1"
    "flash_steps g (absd s) (rest_cmds ((a, d) # (ws @ vs)) s) (absd s1) (rest_cmds (ws @ vs) s1)" by auto
  with bus_write.IH flash_steps_trans show ?case by fastforce
next
  case (by_event s s1 ws s2)
  from run_event [OF by_event.prems by_event.hyps(1)] by_event.IH flash_steps_trans show ?case by blast
qed

lemma run_append: "nc_run g p ws s s1 \<Longrightarrow> nc_run g p [] s1 s2 \<Longrightarrow> nc_run g p ws s s2"
  by (induction rule: nc_run.induct) (auto intro: bus_write by_event)

text \<open>All writes can be made, whatever the order of the events so far.\<close>

lemma run_complete: "run_ok g ws s \<Longrightarrow> \<exists>s'. nc_run g p ws s s'"
proof (induction ws arbitrary: s)
  case Nil
  show ?case by (blast intro: finished)
next
  case (Cons w ws)
  obtain a d where w: "w = (a, d)" by fastforce
  from run_write [OF Cons.prems [unfolded w], of p] obtain s1 where "nc_bus_write g p a d s = Some s1" "run_ok g ws s1" by blast
  with Cons.IH w show ?case by (blast intro: bus_write)
qed

end
