(* ===== verification/Nand_Ctrl_Claims.thy ===== *)
theory Nand_Ctrl_Claims
  imports Nand_Ctrl_Run Ftl_Io
begin

text \<open>
  The NAND driver on the event-driven controller: idle channels and the counter the driver polls, the end of waiting,
  the commands that the driver's register writes queue, and the result of any interleaving of them.
\<close>

section \<open>Idle channels\<close>

definition idle :: "nc_channel \<Rightarrow> bool" where "idle chn \<longleftrightarrow> todo chn = [] \<and> busy_chips chn = 0"

text \<open>The limit the array of chips of a channel imposes.\<close>

definition chips_ok :: "geo \<Rightarrow> bool" where "chips_ok g \<longleftrightarrow> PLANES_PER_CHANNEL g \<le> 128"

lemma busy_chips_bound: "chn_wf g chn \<Longrightarrow> chips_ok g \<Longrightarrow> busy_chips chn \<le> 128"
  using length_filter_le [of busy "chips chn"] by (simp add: busy_chips_def chn_wf_def chips_ok_def)

text \<open>The 8-bit counter does not wrap.\<close>

lemma active_ops_exact:
  assumes "chn_wf g chn" "chips_ok g"
  shows "unat (active_nand_ops chn) = busy_chips chn + (if wait_dma_completion chn then 1 else 0)"
  unfolding chn_wf_chips(5) [OF assms(1)] using busy_chips_bound [OF assms] by (subst unat_of_nat) simp

lemma room_less: "chn_wf g chn \<Longrightarrow> length (room (cmd_waiting_room chn)) < en_size"
  using chn_wf_chips(3) ring_len_less [of en_size] by (fastforce simp: room_def en_size_def)

lemma active_count:
  assumes "nc_inv g s" "chips_ok g"
  shows "\<exists>v. chn_read c ACTIVE_OPERATION_COUNT s = Some v \<and> unat v = busy_chips (channels s c) + length (todo (channels s c)) \<and> unat v < 2 ^ 16"
proof -
  let ?chn = "channels s c"
  have wf: "chn_wf g ?chn" using assms(1) by (simp add: nc_inv_def core_def)
  note b = busy_chips_bound [OF wf assms(2)]
  let ?w = "if wait_dma_completion ?chn then 1 else 0 :: nat"
  note a = active_ops_exact [OF wf assms(2)]
  have r: "length (room (cmd_waiting_room ?chn)) < 1024" using room_less [OF wf] by (simp add: en_size_def)
  let ?n = "busy_chips ?chn + ?w + length (room (cmd_waiting_room ?chn))"
  have "unat (ucast (active_nand_ops ?chn) + of_nat (length (room (cmd_waiting_room ?chn))) :: u32) = ?n"
  proof -
    have "(ucast (active_nand_ops ?chn) :: u32) = of_nat (unat (active_nand_ops ?chn))" by simp
    then have "(ucast (active_nand_ops ?chn) :: u32) = of_nat (busy_chips ?chn + ?w)" by (simp only: a)
    then have "(ucast (active_nand_ops ?chn) + of_nat (length (room (cmd_waiting_room ?chn))) :: u32) = of_nat ?n" by simp
    moreover have "?n < 2 ^ 32" using b r by simp
    ultimately show ?thesis using unat_u32 [of ?n] by simp
  qed
  moreover have "length (todo ?chn) = ?w + length (room (cmd_waiting_room ?chn))" by (simp add: todo_def)
  ultimately show ?thesis using b r fifo_items [OF chn_wf_chips(3) [OF wf]]
    by (simp add: chn_read_def Let_def CHIP_STATUS_def WAITING_ROOM_CMD_COUNT_def ACTIVE_OPERATION_COUNT_def cmd_waiting_room_size_def)
qed

lemma sum_u32_zero:
  "(\<And>x. x \<in> set xs \<Longrightarrow> unat (f x :: u32) < 2 ^ 16) \<Longrightarrow> length xs < 2 ^ 16 \<Longrightarrow>
   unat (sum_list (map f xs)) = sum_list (map (\<lambda>x. unat (f x)) xs) \<and> sum_list (map (\<lambda>x. unat (f x)) xs) \<le> length xs * 2 ^ 16"
proof (induction xs)
  case (Cons x xs)
  then have IH: "unat (sum_list (map f xs)) = sum_list (map (\<lambda>x. unat (f x)) xs)" "sum_list (map (\<lambda>x. unat (f x)) xs) \<le> length xs * 2 ^ 16" by simp_all
  have "unat (f x) < 2 ^ 16" using Cons.prems by simp
  moreover have "(length xs + 1) * 2 ^ 16 \<le> (2 ^ 16 :: nat) * 2 ^ 16" using Cons.prems(2) by (intro mult_le_mono1) simp
  ultimately have "unat (f x) + unat (sum_list (map f xs)) < 2 ^ 32" using IH by simp
  then have "unat (f x + sum_list (map f xs)) = unat (f x) + unat (sum_list (map f xs))" by (simp add: unat_word_ariths(1))
  with IH \<open>unat (f x) < 2 ^ 16\<close> show ?case by simp
qed simp

text \<open>The sum the driver polls is zero exactly when all channels are idle.\<close>

lemma poll_idle:
  assumes "nc_inv g s" "chips_ok g" "geo_ok g"
  shows "poll_status g s = 0 \<longleftrightarrow> (\<forall>c < NUM_CHANNELS g. idle (channels s c))"
proof -
  define f where "f = (\<lambda>c. case chn_read c ACTIVE_OPERATION_COUNT s of Some v \<Rightarrow> v | None \<Rightarrow> 0)"
  have f: "unat (f c) = busy_chips (channels s c) + length (todo (channels s c))" "unat (f c) < 2 ^ 16" for c
    using active_count [OF assms(1,2), of c] by (auto simp: f_def)
  have l: "length [0..<NUM_CHANNELS g] < 2 ^ 16" using assms(3) by (simp add: geo_ok_def)
  from sum_u32_zero [of "[0..<NUM_CHANNELS g]" f, OF f(2) l]
  have "unat (poll_status g s) = sum_list (map (\<lambda>c. unat (f c)) [0..<NUM_CHANNELS g])" by (simp add: poll_status_def f_def)
  then have "poll_status g s = 0 \<longleftrightarrow> (\<forall>c \<in> set [0..<NUM_CHANNELS g]. unat (f c) = 0)"
    by (subst unat_eq_zero [symmetric]) (simp add: sum_list_eq_0_iff)
  then show ?thesis by (auto simp: f(1) idle_def)
qed

section \<open>Waiting ends\<close>

lemma event_enabled:
  assumes inv: "nc_inv g s" and c: "\<not> idle (channels s c)"
  shows "events s \<noteq> []"
proof -
  let ?chn = "channels s c"
  have wf: "chn_wf g ?chn" and bl: "blocked ?chn" and op: "op_ok g s c k" and dm: "dma_ok s e" for k e
    using inv by (simp_all add: nc_inv_def core_def)
  have busy: "events s \<noteq> []" if "k < PLANES_PER_CHANNEL g" "busy (chips ?chn ! k)" for k
    using op [of k] that by (auto simp: op_ok_def)
  have wait: "events s \<noteq> []" if "wait_dma_completion ?chn"
  proof
    assume "events s = []"
    then have "current_chn (engines s (c div 2)) = None" using dm [of "c div 2"] by (auto simp: dma_ok_def split: option.splits)
    then have "\<not> wait_dma_completion (channels s (2 * (c div 2)))" "\<not> wait_dma_completion (channels s (2 * (c div 2) + 1))"
      using dm [of "c div 2"] by (auto simp: dma_ok_def)
    with that show False by (cases "even c") (auto elim!: evenE oddE)
  qed
  consider "busy_chips ?chn \<noteq> 0" | "wait_dma_completion ?chn" | "\<not> wait_dma_completion ?chn" "room (cmd_waiting_room ?chn) \<noteq> []"
    using c by (auto simp: idle_def todo_def split: if_splits)
  then show ?thesis
  proof cases
    case 1
    then obtain ch where "ch \<in> set (chips ?chn)" "busy ch" by (auto simp: busy_chips_def filter_empty_conv)
    then obtain k where "k < length (chips ?chn)" "busy (chips ?chn ! k)" by (metis in_set_conv_nth)
    with busy wf show ?thesis by (simp add: chn_wf_def)
  next
    case 2
    then show ?thesis by (rule wait)
  next
    case 3
    then obtain cmd rest where r: "room (cmd_waiting_room ?chn) = cmd # rest" by (cases "room (cmd_waiting_room ?chn)") auto
    then obtain k where "k < PLANES_PER_CHANNEL g" "chip_enabled cmd = Some k" using wf by (auto simp: chn_wf_def cmd_ok_def)
    with bl 3(1) r busy show ?thesis by (auto simp: blocked_def)
  qed
qed

text \<open>The channels the device has; the others never get work.\<close>

definition others_idle :: "geo \<Rightarrow> nc_st \<Rightarrow> bool" where "others_idle g s \<longleftrightarrow> (\<forall>c \<ge> NUM_CHANNELS g. idle (channels s c))"

definition total_work :: "geo \<Rightarrow> nc_st \<Rightarrow> nat" where "total_work g s = (\<Sum>c < NUM_CHANNELS g. work (channels s c))"

lemma event_decreases:
  assumes inv: "nc_inv g s" and oi: "others_idle g s" and ev: "nc_event_step g p s s'"
  shows "nc_inv g s' \<and> others_idle g s' \<and> total_work g s' < total_work g s"
proof -
  from event_step_done [OF inv ev] obtain c where d: "event_done g c s s'" .
  then have oth: "\<And>x. x \<noteq> c \<Longrightarrow> channels s' x = channels s x" and w: "work (channels s' c) < work (channels s c)" by (auto simp: event_done_def)
  have c: "c < NUM_CHANNELS g" using oi w by (auto simp: others_idle_def idle_def work_def not_less [symmetric])
  have "total_work g s' < total_work g s" unfolding total_work_def
  proof (rule sum_strict_mono_ex1)
    show "\<forall>x \<in> {..<NUM_CHANNELS g}. work (channels s' x) \<le> work (channels s x)" using oth w by (metis less_imp_le order_refl)
    show "\<exists>x \<in> {..<NUM_CHANNELS g}. work (channels s' x) < work (channels s x)" using c w by auto
  qed simp
  moreover have "others_idle g s'" using oi oth c by (auto simp: others_idle_def)
  ultimately show ?thesis using d by (simp add: event_done_def)
qed

lemma event_exists: "nc_inv g s \<Longrightarrow> \<not> idle (channels s c) \<Longrightarrow> \<exists>s'. nc_event_step g p s s'"
  by (metis event_enabled event_ok fires list.set_intros(1) neq_Nil_conv)

lemma drain:
  assumes "nc_inv g s" "others_idle g s" "chips_ok g" "geo_ok g"
  shows "\<exists>s'. nc_run g p [] s s' \<and> poll_status g s' = 0"
  using assms(1,2)
proof (induction "total_work g s" arbitrary: s rule: less_induct)
  case less
  show ?case
  proof (cases "poll_status g s = 0")
    case True
    then show ?thesis by (blast intro: finished)
  next
    case False
    then obtain c where "\<not> idle (channels s c)" using poll_idle [OF less.prems(1) assms(3,4)] by blast
    from event_exists [OF less.prems(1) this] obtain s1 where s1: "nc_event_step g p s s1" by blast
    from event_decreases [OF less.prems s1] less.hyps [of s1] obtain s' where "nc_run g p [] s1 s'" "poll_status g s' = 0" by blast
    with s1 show ?thesis by (blast intro: by_event)
  qed
qed

text \<open>Every event lowers the work left, so there is no infinite sequence of them.\<close>

lemma no_infinite_events:
  assumes "nc_inv g s" "others_idle g s" shows "\<not> (f 0 = s \<and> (\<forall>i. nc_event_step g p (f i) (f (Suc i))))"
proof
  assume f: "f 0 = s \<and> (\<forall>i. nc_event_step g p (f i) (f (Suc i)))"
  have inv: "nc_inv g (f i) \<and> others_idle g (f i)" for i
    by (induction i) (use f assms event_decreases in blast)+
  have "total_work g (f i) + i \<le> total_work g s" for i
  proof (induction i)
    case (Suc i)
    from event_decreases [of g "f i" p "f (Suc i)"] inv f have "total_work g (f (Suc i)) < total_work g (f i)" by blast
    with Suc show ?case by simp
  qed (use f in simp)
  from this [of "Suc (total_work g s)"] show False by simp
qed

text \<open>An idle channel stays idle, so the round of reads need not be atomic.\<close>

lemma event_idle:
  assumes "nc_inv g s" "nc_event_step g p s s'" "idle (channels s c)" shows "idle (channels s' c)"
proof -
  from event_step_done [OF assms(1,2)] obtain c' where d: "event_done g c' s s'" .
  have "work (channels s c) = 0" using assms(3) by (simp add: work_def idle_def)
  then have "c \<noteq> c'" using d by (auto simp: event_done_def)
  with d assms(3) show ?thesis by (simp add: event_done_def)
qed

lemma poll_round_run: "poll_round g p cs s w s' \<Longrightarrow> nc_run g p [] s s'"
  by (induction rule: poll_round.induct) (auto intro: finished by_event)

lemma run_inv: "nc_run g p ws s s' \<Longrightarrow> ws = [] \<Longrightarrow> nc_inv g s \<Longrightarrow> nc_inv g s' \<and> (idle (channels s c) \<longrightarrow> idle (channels s' c))"
proof (induction rule: nc_run.induct)
  case (by_event s s1 ws s')
  from event_step_done [OF by_event.prems(2) by_event.hyps(1)] have "nc_inv g s1" by (auto simp: event_done_def)
  with by_event event_idle show ?case by blast
qed simp_all

lemma poll_round_idle:
  "poll_round g p cs s w s' \<Longrightarrow> nc_inv g s \<Longrightarrow> chips_ok g \<Longrightarrow> length cs < 2 ^ 16 \<Longrightarrow>
   unat w \<le> length cs * 2 ^ 16 \<and> (w = 0 \<longrightarrow> (\<forall>c \<in> set cs. idle (channels s' c)))"
proof (induction rule: poll_round.induct)
  case (poll_read c s v cs w s')
  from active_count [OF poll_read.prems(1,2), of c] poll_read.hyps(1) have
    v: "unat v = busy_chips (channels s c) + length (todo (channels s c))" "unat v < 2 ^ 16" by simp_all
  have w: "unat w \<le> length cs * 2 ^ 16" "w = 0 \<Longrightarrow> \<forall>c \<in> set cs. idle (channels s' c)" using poll_read by simp_all
  have "(length cs + 1) * 2 ^ 16 \<le> (2 ^ 16 :: nat) * 2 ^ 16" using poll_read.prems(3) by (intro mult_le_mono1) simp
  then have "unat v + unat w < 2 ^ 32" using v(2) w(1) by simp
  then have sum: "unat (v + w) = unat v + unat w" by (simp add: unat_word_ariths(1))
  have "idle (channels s' c)" if "v + w = 0"
  proof -
    have "unat v = 0" using sum that by simp
    then have "idle (channels s c)" using v(1) by (simp add: idle_def)
    with run_inv [OF poll_round_run [OF poll_read.hyps(2)] refl poll_read.prems(1)] show ?thesis by blast
  qed
  moreover have "w = 0" if "v + w = 0" using sum that by (simp add: unat_eq_zero)
  ultimately show ?case using sum v(2) w by auto
next
  case (poll_event s s1 cs w s')
  from event_step_done [OF poll_event.prems(1) poll_event.hyps(1)] have "nc_inv g s1" by (auto simp: event_done_def)
  with poll_event show ?case by blast
qed simp

lemma poll_now: "nc_inv g s \<Longrightarrow> chips_ok g \<Longrightarrow>
    poll_round g p cs s (sum_list (map (\<lambda>c. case chn_read c ACTIVE_OPERATION_COUNT s of Some v \<Rightarrow> v | None \<Rightarrow> 0) cs)) s"
proof (induction cs)
  case (Cons c cs)
  from active_count [OF Cons.prems, of c] obtain v where "chn_read c ACTIVE_OPERATION_COUNT s = Some v" by blast
  with Cons poll_read show ?case by fastforce
qed (simp add: poll_end)

section \<open>The writes of the driver\<close>

lemma page_off_img:
  "page_off g c k block page = (c * (PKG_PER_CHANNEL g * DIES_PER_PKG g * PLANES_PER_DIE g * (BLOCKS_PER_PLANE g * PAGES_PER_BLOCK g))
     + k * (BLOCKS_PER_PLANE g * PAGES_PER_BLOCK g) + block * PAGES_PER_BLOCK g + page) * NAND_PAGE_SIZE g mod 2 ^ 32"
proof -
  have "page_off g c k block page = unat (of_nat ((c * (PKG_PER_CHANNEL g * DIES_PER_PKG g * PLANES_PER_DIE g * (BLOCKS_PER_PLANE g * PAGES_PER_BLOCK g))
     + k * (BLOCKS_PER_PLANE g * PAGES_PER_BLOCK g) + block * PAGES_PER_BLOCK g + page) * NAND_PAGE_SIZE g) :: u32)"
    by (simp add: page_off_def Let_def)
  then show ?thesis by (simp only: unat_of_nat) simp
qed

lemma row_off_ppa:
  assumes "geo_ok g" "ppa_ok g p"
  shows "row_off g (p_chn p) (chip_index g p) (p_page p, p_block p) = ppa_index g p * NAND_PAGE_SIZE g"
proof -
  have "img_off g (p_chn p) (chip_index g p) (addr_cycle_1 p) = row_off g (p_chn p) (chip_index g p) (p_page p, p_block p)"
    by (simp add: img_off_def chip_page_def Let_def addr_cycle_1_split [OF assms, simplified] row_off_def page_off_img)
  with img_off_ppa [OF assms] show ?thesis by simp
qed

definition driver_writes :: "geo \<Rightarrow> bool \<Rightarrow> (u64 \<times> nat) list \<Rightarrow> (nat \<times> u32) list" where
  "driver_writes g prog pgs = concat (map (\<lambda>(d, a).
     (if prog then program_page_cmds else read_page_cmds) g (chn_bass_addr g ! p_chn (ppa_of d)) (ppa_of d) a) pgs)"

text \<open>The commands these writes queue on a channel.\<close>

definition page_flash :: "geo \<Rightarrow> bool \<Rightarrow> u64 \<times> nat \<Rightarrow> flash_cmd list" where
  "page_flash g prog x = (let p = ppa_of (fst x); k = chip_index g p; row = (p_page p, p_block p) in
     if prog then [F_program k row, F_from_ram k (snd x)] else [F_read k row, F_to_ram k (snd x)])"

definition chn_pages :: "nat \<Rightarrow> (u64 \<times> nat) list \<Rightarrow> (u64 \<times> nat) list" where
  "chn_pages c pgs = filter (\<lambda>x. p_chn (ppa_of (fst x)) = c) pgs"

definition driver_cmds :: "geo \<Rightarrow> bool \<Rightarrow> (u64 \<times> nat) list \<Rightarrow> nat \<Rightarrow> flash_cmd list" where
  "driver_cmds g prog pgs c = concat (map (page_flash g prog) (chn_pages c pgs))"

lemma bus_target_chn:
  assumes "c < 2 * NUM_NAND_CTRLS g" "off < 1024"
  shows "bus_target (chn_bass_addr g ! c + off) = Some (c, off)"
proof -
  let ?b = "get_dev_address DEV_NAND_CTRL"
  define k where "k = (if even c then CHANNEL_0_BASE_ADDR else CHANNEL_1_BASE_ADDR)"
  have a: "chn_bass_addr g ! c + off - ?b = c div 2 * 0x1000 + (k + off)"
    using chn_bass_addr_nth [OF assms(1)] by (simp add: k_def)
  have k: "k + off < 0x1000" using assms(2) by (simp add: k_def nand_reg_defs)
  have "(c div 2 * 0x1000 + (k + off)) div 0x1000 = c div 2" "(c div 2 * 0x1000 + (k + off)) mod 0x1000 = k + off"
    using k by (simp_all add: add.commute [of "_ * _"])
  then show ?thesis
    using assms(2) unfolding bus_target_def Let_def a
    by (cases "even c") (auto simp: k_def nand_reg_defs)
qed

lemma op_code_masks:
  "0xFFFF AND READ_NAND OR 0x80000000 = READ_NAND" "0xFFFF AND PROGRAM_NAND OR 0x80000000 = PROGRAM_NAND"
  by (simp_all add: READ_NAND_def PROGRAM_NAND_def)

text \<open>One page: the first command latches or reads its row, the second moves its data.\<close>

lemma queued_page:
  assumes g: "geo_ok g" and x: "ppa_ok g (ppa_of d)" "a < 2 ^ 32"
  obtains x1 x2 where "\<And>ws N c. N = N0 \<Longrightarrow> queued ((if prog then program_page_cmds else read_page_cmds) g (chn_bass_addr g ! p_chn (ppa_of d)) (ppa_of d) a @ ws) N c
      = (if p_chn (ppa_of d) = c then [x1, x2] else []) @ queued ws (N(p_chn (ppa_of d) := new_NC_Command)) c"
    "[cmd_of x1, cmd_of x2] = page_flash g prog (d, a)" "cmd_ok g x1" "cmd_ok g x2"
proof -
  let ?p = "ppa_of d"
  let ?c = "p_chn ?p" and ?k = "chip_index g ?p"
  have c: "?c < 2 * NUM_NAND_CTRLS g" using g x(1) channels_ctrls by (simp add: ppa_ok_def)
  note t = bus_target_chn [OF c] bus_target_chn [OF c, of 0, simplified]
  have k: "unat (of_nat ?k :: u32) = ?k" by (rule chip_reg [OF g x(1)])
  define op where "op = (if prog then PROGRAM_NAND else READ_NAND)"
  define dm where "dm = (if prog then READ_DMA else WRITE_DMA)"
  define x1 where "x1 = (N0 ?c)\<lparr>chip_enabled := Some ?k, addr_1 := addr_cycle_1 ?p, addr_2 := 0, nc_data := op, nc_op := op,
    data_phase_required := (data_phase_required (N0 ?c) \<or> op = PROGRAM_NAND)\<rparr>"
  define x2 where "x2 = new_NC_Command\<lparr>chip_enabled := Some ?k, ram_ptr := of_nat a, nc_data := dm, nc_op := dm\<rparr>"
  have w: "(if prog then program_page_cmds else read_page_cmds) g base ppa ad =
     [(base + CHIP_SELECT_REG, of_nat (chip_index g ppa)), (base + ADDRESS_CYCLE_REG_1, addr_cycle_1 ppa), (base + ADDRESS_CYCLE_REG_2, 0),
      (base + CMD_PHASE_CMD_REG, op), (base + CHIP_SELECT_REG, of_nat (chip_index g ppa)), (base + DMA_RAM_PTR, of_nat ad), (base + DMA_PHASE_CMD_REG, dm)]"
    for base ppa ad by (simp add: program_page_cmds_def read_page_cmds_def op_def dm_def)
  have m: "0xFFFF AND op OR 0x80000000 = op" by (simp add: op_def op_code_masks)
  have q: "queued ((if prog then program_page_cmds else read_page_cmds) g (chn_bass_addr g ! ?c) ?p a @ ws) N0 c
      = (if ?c = c then [x1, x2] else []) @ queued ws (N0(?c := new_NC_Command)) c" for ws c
    unfolding w by (simp add: t nand_reg_defs compose_cmd_def Let_def m k x1_def x2_def)
  have r: "row_of x1 = (p_page ?p, p_block ?p)" unfolding row_of_def by (simp add: x1_def addr_cycle_1_split [OF g x(1), simplified])
  have "[cmd_of x1, cmd_of x2] = page_flash g prog (d, a)"
  proof (cases prog)
    case True
    then show ?thesis using r x(2) by (simp add: cmd_of_def page_flash_def Let_def x1_def x2_def op_def dm_def unat_u32)
  next
    case False
    then show ?thesis using r x(2) by (simp add: cmd_of_def page_flash_def Let_def x1_def x2_def op_def dm_def unat_u32)
  qed
  moreover have "cmd_ok g x1" "cmd_ok g x2"
    using chip_index_less [OF x(1)] by (simp_all add: cmd_ok_def x1_def x2_def nand_start_cmd_def nand_end_cmd_def)
  ultimately show thesis using that [of x1 x2] q by blast
qed

lemma driver_writes_Cons: "driver_writes g prog ((d, a) # pgs) =
   (if prog then program_page_cmds else read_page_cmds) g (chn_bass_addr g ! p_chn (ppa_of d)) (ppa_of d) a @ driver_writes g prog pgs"
  by (simp add: driver_writes_def)

lemma driver_cmds_Cons: "driver_cmds g prog (x # pgs) c = (if p_chn (ppa_of (fst x)) = c then page_flash g prog x else []) @ driver_cmds g prog pgs c"
  by (simp add: driver_cmds_def chn_pages_def)

lemma queued_driver:
  assumes g: "geo_ok g"
  shows "pages_ok g pgs \<Longrightarrow> map cmd_of (queued (driver_writes g prog pgs) N c) = driver_cmds g prog pgs c \<and>
    (\<forall>x \<in> set (queued (driver_writes g prog pgs) N c). cmd_ok g x)"
proof (induction pgs arbitrary: N)
  case Nil
  show ?case by (simp add: driver_writes_def driver_cmds_def chn_pages_def)
next
  case (Cons x pgs)
  obtain d a where x: "x = (d, a)" by fastforce
  with Cons.prems have p: "ppa_ok g (ppa_of d)" "a < 2 ^ 32" "pages_ok g pgs" by simp_all
  obtain x1 x2 where q: "\<And>ws c. queued ((if prog then program_page_cmds else read_page_cmds) g (chn_bass_addr g ! p_chn (ppa_of d)) (ppa_of d) a @ ws) N c
      = (if p_chn (ppa_of d) = c then [x1, x2] else []) @ queued ws (N(p_chn (ppa_of d) := new_NC_Command)) c"
    "[cmd_of x1, cmd_of x2] = page_flash g prog (d, a)" "cmd_ok g x1" "cmd_ok g x2"
    using queued_page [OF g p(1,2), of N prog] by metis
  define N1 where "N1 = N(p_chn (ppa_of d) := new_NC_Command)"
  from Cons.IH [OF p(3), of N1] q(2-4) show ?case
    unfolding x driver_writes_Cons q(1) driver_cmds_Cons N1_def [symmetric] by auto
qed

lemma driver_prog_ok: "prog_ok S (driver_cmds g prog pgs c)"
proof (induction pgs arbitrary: S)
  case (Cons x pgs)
  then show ?case by (cases prog) (simp_all add: driver_cmds_Cons page_flash_def Let_def)
qed (simp add: driver_cmds_def chn_pages_def)

lemma driver_cmds_length: "length (driver_cmds g prog pgs c) \<le> 2 * length pgs"
proof (induction pgs)
  case (Cons x pgs)
  have "length (page_flash g prog x) = 2" by (simp add: page_flash_def Let_def)
  with Cons show ?case by (simp add: driver_cmds_Cons)
qed (simp add: driver_cmds_def chn_pages_def)

lemma driver_targets:
  assumes g: "geo_ok g"
  shows "pages_ok g pgs \<Longrightarrow> \<forall>(a, d) \<in> set (driver_writes g prog pgs). \<exists>c off. bus_target a = Some (c, off) \<and> (off = CHIP_SELECT_REG \<longrightarrow> unat d \<le> PLANES_PER_CHANNEL g)"
proof (induction pgs)
  case (Cons x pgs)
  obtain d a where x: "x = (d, a)" by fastforce
  with Cons.prems have p: "ppa_ok g (ppa_of d)" "pages_ok g pgs" by simp_all
  have c: "p_chn (ppa_of d) < 2 * NUM_NAND_CTRLS g" using g p(1) channels_ctrls by (simp add: ppa_ok_def)
  have k: "unat (of_nat (chip_index g (ppa_of d)) :: u32) \<le> PLANES_PER_CHANNEL g"
    using chip_reg [OF g p(1)] chip_index_less [OF p(1)] by simp
  note t = bus_target_chn [OF c] bus_target_chn [OF c, of 0, simplified]
  have "\<forall>(ad, v) \<in> set ((if prog then program_page_cmds else read_page_cmds) g (chn_bass_addr g ! p_chn (ppa_of d)) (ppa_of d) a).
      \<exists>c off. bus_target ad = Some (c, off) \<and> (off = CHIP_SELECT_REG \<longrightarrow> unat v \<le> PLANES_PER_CHANNEL g)"
    using k by (cases prog) (simp_all add: program_page_cmds_def read_page_cmds_def t nand_reg_defs)
  with Cons.IH [OF p(2)] show ?case unfolding x driver_writes_Cons by auto
qed (simp add: driver_writes_def)

text \<open>A quiet controller is ready for an operation of up to 128 pages.\<close>

definition quiet :: "geo \<Rightarrow> nc_st \<Rightarrow> bool" where "quiet g s \<longleftrightarrow> nc_inv g s \<and> (\<forall>c. idle (channels s c))"

lemma quiet_run_ok:
  assumes g: "geo_ok g" and q: "quiet g s" and p: "pages_ok g pgs" "length pgs \<le> 128"
  shows "run_ok g (driver_writes g prog pgs) s" "rest_cmds (driver_writes g prog pgs) s = driver_cmds g prog pgs"
proof -
  have t: "todo (channels s c) = []" for c using q by (simp add: quiet_def idle_def)
  then have r: "room (cmd_waiting_room (channels s c)) = []" for c by (metis (no_types) append_is_Nil_conv map_is_Nil_conv todo_def)
  note qd = queued_driver [OF g p(1), of prog "new_cmds s"]
  show rest: "rest_cmds (driver_writes g prog pgs) s = driver_cmds g prog pgs" using qd by (simp add: fun_eq_iff rest_cmds_def t)
  have len: "length (queued (driver_writes g prog pgs) (new_cmds s) c) < en_size" for c
    using arg_cong [OF conjunct1 [OF qd [of c]], of length] driver_cmds_length [of g prog pgs c] p(2) by (simp add: en_size_def)
  show "run_ok g (driver_writes g prog pgs) s"
    unfolding run_ok_def rest using driver_targets [OF g p(1), of prog] qd len driver_prog_ok q by (simp add: quiet_def r)
qed

section \<open>The result of any interleaving\<close>

text \<open>Reads: the remaining commands of a channel are whole pages, or the second half of the page in its register. \<open>F\<close> is
  the memory at the end.\<close>

fun read_pairs :: "geo \<Rightarrow> nat \<Rightarrow> mem \<Rightarrow> mem \<Rightarrow> flash_cmd list \<Rightarrow> bool" where
  "read_pairs g c F I [] \<longleftrightarrow> True"
| "read_pairs g c F I (F_read k row # F_to_ram k' a # r) \<longleftrightarrow> k' = k \<and> (\<forall>i < NAND_PAGE_SIZE g. I (row_off g c k row + i) = F (a + i)) \<and> read_pairs g c F I r"
| "read_pairs g c F I _ \<longleftrightarrow> False"

definition reads_left :: "geo \<Rightarrow> mem \<Rightarrow> flash_data \<Rightarrow> nat \<Rightarrow> flash_cmd list \<Rightarrow> bool" where
  "reads_left g F d c l \<longleftrightarrow> read_pairs g c F (fd_img d) l \<or>
     (\<exists>k a r. l = F_to_ram k a # r \<and> (\<forall>i < NAND_PAGE_SIZE g. fd_reg d c k i = F (a + i)) \<and> read_pairs g c F (fd_img d) r)"

definition buffers :: "geo \<Rightarrow> flash_cmd list \<Rightarrow> nat set" where
  "buffers g l = {x. \<exists>k a. F_to_ram k a \<in> set l \<and> a \<le> x \<and> x < a + NAND_PAGE_SIZE g}"

definition read_state :: "geo \<Rightarrow> mem \<Rightarrow> mem \<Rightarrow> flash_data \<Rightarrow> (nat \<Rightarrow> flash_cmd list) \<Rightarrow> bool" where
  "read_state g F I d q \<longleftrightarrow> fd_img d = I \<and> (\<forall>c. reads_left g F d c (q c)) \<and> (\<forall>x. fd_ram d x = F x \<or> (\<exists>c. x \<in> buffers g (q c)))"

lemma read_pairs_cases:
  assumes "read_pairs g c F I (x # xs)"
  obtains k row a r where "x = F_read k row" "xs = F_to_ram k a # r" "\<forall>i < NAND_PAGE_SIZE g. I (row_off g c k row + i) = F (a + i)" "read_pairs g c F I r"
proof (cases "(g, c, F, I, x # xs)" rule: read_pairs.cases)
  case (2 g' c' F' I' k row k' a r)
  with assms show ?thesis by (intro that [of k row a r]) simp_all
qed (use assms in simp_all)

lemma read_state_step:
  assumes st: "read_state g F I d q" and q: "q c = x # xs"
  shows "read_state g F I (exec_flash g c x d) (q(c := xs))"
proof -
  let ?n = "NAND_PAGE_SIZE g"
  have img: "fd_img d = I" and left: "reads_left g F d y (q y)" and ram: "fd_ram d z = F z \<or> (\<exists>c. z \<in> buffers g (q c))" for y z
    using st by (auto simp: read_state_def)
  consider (pair) "read_pairs g c F I (x # xs)"
    | (half) k a where "x = F_to_ram k a" "\<forall>i < ?n. fd_reg d c k i = F (a + i)" "read_pairs g c F I xs"
    using left [of c] q img by (auto simp: reads_left_def)
  then show ?thesis
  proof cases
    case pair
    then obtain k row a r where p: "x = F_read k row" "xs = F_to_ram k a # r" "\<forall>i < ?n. I (row_off g c k row + i) = F (a + i)" "read_pairs g c F I r"
      by (rule read_pairs_cases)
    have b: "buffers g xs = buffers g (q c)" unfolding q p(1) by (auto simp: buffers_def)
    have mono: "\<exists>y. z \<in> buffers g ((q(c := xs)) y)" if "\<exists>y. z \<in> buffers g (q y)" for z using that b by (metis fun_upd_apply)
    have fr: "fd_ram (exec_flash g c x d) = fd_ram d" by (simp add: p(1))
    have "fd_ram (exec_flash g c x d) z = F z \<or> (\<exists>y. z \<in> buffers g ((q(c := xs)) y))" for z unfolding fr using ram [of z] mono by blast
    moreover have "reads_left g F (exec_flash g c x d) y ((q(c := xs)) y)" for y
    proof (cases "y = c")
      case True
      then show ?thesis using p img by (simp add: reads_left_def)
    next
      case False
      then show ?thesis using left [of y] by (auto simp: p(1) reads_left_def)
    qed
    ultimately show ?thesis using img by (simp add: read_state_def p(1))
  next
    case half
    have "fd_ram (exec_flash g c x d) z = F z \<or> (\<exists>y. z \<in> buffers g ((q(c := xs)) y))" for z
    proof (cases "a \<le> z \<and> z < a + ?n")
      case True
      then have "z - a < ?n" "a + (z - a) = z" by auto
      moreover have "fd_ram (exec_flash g c x d) z = fd_reg d c k (z - a)" using True by (simp add: half(1) put_bytes_apply)
      ultimately show ?thesis using half(2) by metis
    next
      case False
      have "z \<in> buffers g (q c) \<Longrightarrow> z \<in> buffers g xs" using False unfolding q half(1) by (auto simp: buffers_def)
      then have mono: "\<exists>y. z \<in> buffers g ((q(c := xs)) y)" if "\<exists>y. z \<in> buffers g (q y)" using that by (metis fun_upd_apply)
      have fr: "fd_ram (exec_flash g c x d) z = fd_ram d z" using False by (auto simp: half(1) put_bytes_apply)
      show ?thesis unfolding fr using ram [of z] mono by blast
    qed
    moreover have "reads_left g F (exec_flash g c x d) y ((q(c := xs)) y)" for y
      using left [of y] half(1,3) img by (cases "y = c") (auto simp: reads_left_def)
    ultimately show ?thesis using img by (simp add: read_state_def half(1))
  qed
qed

lemma read_state_end:
  "flash_steps g d q d' q' \<Longrightarrow> read_state g F I d q \<Longrightarrow> (\<And>c. q' c = []) \<Longrightarrow> fd_ram d' = F \<and> fd_img d' = I"
proof (induction rule: flash_steps.induct)
  case (no_step d q)
  then show ?case by (auto simp: read_state_def buffers_def)
next
  case (one_step q c x xs d d' q')
  then show ?case using read_state_step by blast
qed

text \<open>Programs: the same for the image, \<open>G\<close> its content at the end; a page between its two commands is latched.\<close>

fun program_pairs :: "geo \<Rightarrow> nat \<Rightarrow> mem \<Rightarrow> mem \<Rightarrow> flash_cmd list \<Rightarrow> bool" where
  "program_pairs g c G R [] \<longleftrightarrow> True"
| "program_pairs g c G R (F_program k row # F_from_ram k' a # r) \<longleftrightarrow> k' = k \<and> (\<forall>i < NAND_PAGE_SIZE g. R (a + i) = G (row_off g c k row + i)) \<and> program_pairs g c G R r"
| "program_pairs g c G R _ \<longleftrightarrow> False"

definition programs_left :: "geo \<Rightarrow> mem \<Rightarrow> flash_data \<Rightarrow> nat \<Rightarrow> flash_cmd list \<Rightarrow> bool" where
  "programs_left g G d c l \<longleftrightarrow> program_pairs g c G (fd_ram d) l \<or>
     (\<exists>k a r. l = F_from_ram k a # r \<and> fd_pend d c k \<and> (\<forall>i < NAND_PAGE_SIZE g. fd_ram d (a + i) = G (row_off g c k (fd_row d c k) + i)) \<and>
        program_pairs g c G (fd_ram d) r)"

definition page_at :: "geo \<Rightarrow> nat \<Rightarrow> nat \<Rightarrow> nat \<times> nat \<Rightarrow> nat set" where
  "page_at g c k row = {x. row_off g c k row \<le> x \<and> x < row_off g c k row + NAND_PAGE_SIZE g}"

definition targets :: "geo \<Rightarrow> flash_data \<Rightarrow> nat \<Rightarrow> flash_cmd list \<Rightarrow> nat set" where
  "targets g d c l = {x. \<exists>k row. F_program k row \<in> set l \<and> x \<in> page_at g c k row} \<union>
     (case l of F_from_ram k a # _ \<Rightarrow> page_at g c k (fd_row d c k) | _ \<Rightarrow> {})"

definition program_state :: "geo \<Rightarrow> mem \<Rightarrow> mem \<Rightarrow> flash_data \<Rightarrow> (nat \<Rightarrow> flash_cmd list) \<Rightarrow> bool" where
  "program_state g G R d q \<longleftrightarrow> fd_ram d = R \<and> (\<forall>c. programs_left g G d c (q c)) \<and> (\<forall>x. fd_img d x = G x \<or> (\<exists>c. x \<in> targets g d c (q c)))"

lemma program_pairs_cases:
  assumes "program_pairs g c G R (x # xs)"
  obtains k row a r where "x = F_program k row" "xs = F_from_ram k a # r" "\<forall>i < NAND_PAGE_SIZE g. R (a + i) = G (row_off g c k row + i)" "program_pairs g c G R r"
proof (cases "(g, c, G, R, x # xs)" rule: program_pairs.cases)
  case (2 g' c' G' R' k row k' a r)
  with assms show ?thesis by (intro that [of k row a r]) simp_all
qed (use assms in simp_all)

lemma targets_other:
  "(\<And>k. fd_row d' c k = fd_row d c k) \<Longrightarrow> targets g d' c l = targets g d c l"
  by (simp add: targets_def split: list.split flash_cmd.split)

lemma targets_pairs: "program_pairs g c G R l \<Longrightarrow> targets g d c l = {x. \<exists>k row. F_program k row \<in> set l \<and> x \<in> page_at g c k row}"
proof (cases l)
  case (Cons x xs)
  assume "program_pairs g c G R l"
  then obtain k row where "x = F_program k row" unfolding Cons by (rule program_pairs_cases)
  then show ?thesis by (simp add: Cons targets_def)
qed (simp add: targets_def)

lemma program_state_step:
  assumes st: "program_state g G R d q" and q: "q c = x # xs"
  shows "program_state g G R (exec_flash g c x d) (q(c := xs))"
proof -
  let ?n = "NAND_PAGE_SIZE g" and ?d = "exec_flash g c x d"
  have ram: "fd_ram d = R" and left: "programs_left g G d y (q y)" and img: "fd_img d z = G z \<or> (\<exists>c. z \<in> targets g d c (q c))" for y z
    using st by (auto simp: program_state_def)
  consider (pair) "program_pairs g c G R (x # xs)"
    | (half) k a where "x = F_from_ram k a" "fd_pend d c k" "\<forall>i < ?n. R (a + i) = G (row_off g c k (fd_row d c k) + i)" "program_pairs g c G R xs"
    using left [of c] q ram by (auto simp: programs_left_def)
  then show ?thesis
  proof cases
    case pair
    then obtain k row a r where p: "x = F_program k row" "xs = F_from_ram k a # r" "\<forall>i < ?n. R (a + i) = G (row_off g c k row + i)" "program_pairs g c G R r"
      by (rule program_pairs_cases)
    have t: "targets g ?d c xs = targets g d c (q c)" unfolding q p(1,2) by (auto simp: targets_def simp del: split_paired_Ex)
    have to: "targets g ?d y (q y) = targets g d y (q y)" if "y \<noteq> c" for y by (rule targets_other) (use that in \<open>simp add: p(1)\<close>)
    have mono: "\<exists>y. z \<in> targets g ?d y ((q(c := xs)) y)" if "\<exists>y. z \<in> targets g d y (q y)" for z using that t to by (metis fun_upd_apply)
    have fr: "fd_img ?d = fd_img d" "fd_ram ?d = fd_ram d" by (simp_all add: p(1))
    have "fd_img ?d z = G z \<or> (\<exists>y. z \<in> targets g ?d y ((q(c := xs)) y))" for z unfolding fr using img [of z] mono by blast
    moreover have "programs_left g G ?d y ((q(c := xs)) y)" for y
    proof (cases "y = c")
      case True
      then show ?thesis using p ram by (simp add: programs_left_def)
    next
      case False
      then show ?thesis using left [of y] by (auto simp: p(1) programs_left_def)
    qed
    ultimately show ?thesis using ram fr by (simp add: program_state_def)
  next
    case half
    let ?o = "row_off g c k (fd_row d c k)"
    have e: "fd_img ?d = put_bytes ?n ?o (\<lambda>i. R (a + i)) (fd_img d)" "fd_ram ?d = R" "fd_row ?d = fd_row d" "fd_pend ?d = set2 (fd_pend d) c k False"
      using half(2) ram by (simp_all add: half(1) Let_def)
    have "fd_img ?d z = G z \<or> (\<exists>y. z \<in> targets g ?d y ((q(c := xs)) y))" for z
    proof (cases "?o \<le> z \<and> z < ?o + ?n")
      case True
      then have "z - ?o < ?n" "?o + (z - ?o) = z" by auto
      moreover have "fd_img ?d z = R (a + (z - ?o))" using True by (simp add: e put_bytes_apply)
      ultimately show ?thesis using half(3) by metis
    next
      case False
      have "z \<in> targets g d c (q c) \<Longrightarrow> z \<in> targets g ?d c xs"
        using False unfolding q half(1) targets_pairs [OF half(4)] by (auto simp: targets_def page_at_def)
      moreover have "targets g ?d y (q y) = targets g d y (q y)" for y by (rule targets_other) (simp add: e)
      ultimately have mono: "\<exists>y. z \<in> targets g ?d y ((q(c := xs)) y)" if "\<exists>y. z \<in> targets g d y (q y)" using that by (metis fun_upd_apply)
      have fr: "fd_img ?d z = fd_img d z" using False by (auto simp: e put_bytes_apply)
      show ?thesis unfolding fr using img [of z] mono by blast
    qed
    moreover have "programs_left g G ?d y ((q(c := xs)) y)" for y
      using left [of y] half(4) ram by (cases "y = c") (auto simp: programs_left_def e)
    ultimately show ?thesis by (simp add: program_state_def e)
  qed
qed

lemma program_state_end:
  "flash_steps g d q d' q' \<Longrightarrow> program_state g G R d q \<Longrightarrow> (\<And>c. q' c = []) \<Longrightarrow> fd_img d' = G \<and> fd_ram d' = R"
proof (induction rule: flash_steps.induct)
  case (no_step d q)
  then show ?case by (auto simp: program_state_def targets_def)
next
  case (one_step q c x xs d d' q')
  then show ?case using program_state_step by blast
qed

end
