(* ===== verification/Nand_Ctrl_Sync.thy ===== *)
theory Nand_Ctrl_Sync
  imports Nand_Ctrl_Claims
begin

text \<open>
  The synchronous operations of the NAND driver on the event-driven controller: they end, whatever the order of the
  events, with the RAM and the flash image that the atomic model of the driver (\<open>Nand_Io\<close>) gives.
\<close>

section \<open>States of the controller between operations\<close>

definition inside :: "geo \<Rightarrow> (nat \<times> u32) list \<Rightarrow> bool" where
  "inside g ws \<longleftrightarrow> (\<forall>(a, d) \<in> set ws. \<exists>c < NUM_CHANNELS g. \<exists>off. bus_target a = Some (c, off))"

lemma run_others:
  "nc_run g p ws s s' \<Longrightarrow> run_ok g (ws @ vs) s \<Longrightarrow> inside g ws \<Longrightarrow> others_idle g s \<Longrightarrow> others_idle g s'"
proof (induction rule: nc_run.induct)
  case (bus_write a d s s1 ws s2)
  then have ok: "run_ok g ((a, d) # (ws @ vs)) s" by simp
  obtain c off where t: "c < NUM_CHANNELS g" "bus_target a = Some (c, off)" using bus_write.prems(2) by (auto simp: inside_def)
  from run_write [OF ok, of p] bus_write.hyps(1) t(2) have r: "run_ok g (ws @ vs) s1" "\<forall>y. y \<noteq> c \<longrightarrow> channels s1 y = channels s y" by auto
  have "others_idle g s1" using r(2) t(1) bus_write.prems(3) unfolding others_idle_def by (metis not_less)
  moreover have "inside g ws" using bus_write.prems(2) by (simp add: inside_def)
  ultimately show ?case using bus_write.IH r(1) by blast
next
  case (by_event s s1 ws s2)
  have "nc_inv g s" using by_event.prems(1) by (simp add: run_ok_def)
  then have "others_idle g s1" using event_idle by_event.hyps(1) by_event.prems(3) unfolding others_idle_def by blast
  with by_event run_event [OF by_event.prems(1) by_event.hyps(1)] show ?case by blast
qed simp

lemma driver_inside:
  assumes g: "geo_ok g" shows "pages_ok g pgs \<Longrightarrow> inside g (driver_writes g prog pgs)"
proof (induction pgs)
  case (Cons x pgs)
  obtain d a where x: "x = (d, a)" by fastforce
  with Cons.prems have p: "ppa_ok g (ppa_of d)" "pages_ok g pgs" by simp_all
  have n: "p_chn (ppa_of d) < NUM_CHANNELS g" using p(1) by (simp add: ppa_ok_def)
  then have c: "p_chn (ppa_of d) < 2 * NUM_NAND_CTRLS g" using g channels_ctrls by simp
  note t = bus_target_chn [OF c] bus_target_chn [OF c, of 0, simplified]
  have "inside g ((if prog then program_page_cmds else read_page_cmds) g (chn_bass_addr g ! p_chn (ppa_of d)) (ppa_of d) a)"
    using n by (cases prog) (simp_all add: inside_def program_page_cmds_def read_page_cmds_def t nand_reg_defs)
  with Cons.IH [OF p(2)] show ?case unfolding x driver_writes_Cons by (auto simp: inside_def)
qed (simp add: inside_def driver_writes_def)

lemma quiet_others: "quiet g s \<Longrightarrow> others_idle g s" by (simp add: quiet_def others_idle_def)

lemma quiet_init:
  assumes "length memory = en_size" shows "quiet g (init_nand_ctrls g tg page_reg memory r img)"
proof -
  let ?chn = "NC_Channel (PKG_PER_CHANNEL g * DIES_PER_PKG g * PLANES_PER_DIE g) page_reg memory"
  have n: "PKG_PER_CHANNEL g * DIES_PER_PKG g * PLANES_PER_DIE g = PLANES_PER_CHANNEL g" by (simp add: geom_defs)
  have t: "todo ?chn = []" "busy_chips ?chn = 0" using fifo_new [OF assms]
    by (simp_all add: todo_def NC_Channel_def busy_chips_def filter_empty_conv NC_Chip_def)
  have "chn_wf g ?chn" using fifo_new [OF assms] t
    by (auto simp: chn_wf_def n) (auto simp: NC_Channel_def NC_Chip_def)
  moreover have "blocked ?chn" using fifo_new [OF assms] by (simp add: blocked_def NC_Channel_def)
  ultimately show ?thesis using t
    by (simp add: quiet_def idle_def nc_inv_def core_def init_nand_ctrls_def op_ok_def dma_ok_def) (simp add: NC_Channel_def NC_Chip_def n)
qed

text \<open>The handshakes end, and leave the controller quiet.\<close>

lemma quiet_cmd_status: "quiet g (s\<lparr>cmd_status := x\<rparr>) = quiet g s"
proof -
  have "dma_ok (s\<lparr>cmd_status := x\<rparr>) e = dma_ok s e" for e by (simp add: dma_ok_def split: option.split)
  then show ?thesis by (simp add: quiet_def nc_inv_def core_def op_ok_def)
qed

lemma ctrl_write:
  "d \<in> {INIT_NAND_CTRL, NAND_CTRL_SHUTDOWN} \<Longrightarrow>
   nc_bus_write g p (get_dev_address DEV_NAND_CTRL + e * 0x1000) d s = Some (s\<lparr>cmd_status := (cmd_status s)(e := NC_COMPLETE)\<rparr>)"
  by (simp add: nc_bus_write_def nc_write_def Let_def CHANNEL_0_BASE_ADDR_def CHANNEL_1_BASE_ADDR_def)

lemma ctrl_wait: "cmd_status s e = NC_COMPLETE \<Longrightarrow> wait_complete (get_dev_address DEV_NAND_CTRL + e * 0x1000) s = Some s"
  by (simp add: wait_complete_def nc_bus_read_def nc_read_def Let_def CHANNEL_0_BASE_ADDR_def CHANNEL_1_BASE_ADDR_def)

lemma initialize_nand_ctrl_quiet:
  "quiet g s \<Longrightarrow> \<exists>x. initialize_nand_ctrl g p (map (\<lambda>e. get_dev_address DEV_NAND_CTRL + e * 0x1000) es) s = Some (s\<lparr>cmd_status := x\<rparr>)"
proof (induction es arbitrary: s)
  case Nil
  show ?case by (simp add: exI [of _ "cmd_status s"])
next
  case (Cons e es)
  let ?s = "s\<lparr>cmd_status := (cmd_status s)(e := NC_COMPLETE)\<rparr>"
  from Cons.IH [of ?s] Cons.prems quiet_cmd_status obtain x where
    "initialize_nand_ctrl g p (map (\<lambda>e. get_dev_address DEV_NAND_CTRL + e * 0x1000) es) ?s = Some (?s\<lparr>cmd_status := x\<rparr>)" by blast
  then show ?case by (simp add: ctrl_write ctrl_wait exI [of _ x])
qed

lemma handshakes:
  assumes "quiet g s"
  shows "(\<exists>s1. initialize_nand_ctrl g p (ctrl_base_addrs g) s = Some s1 \<and> quiet g s1) \<and>
    (\<exists>s2. shutdown_nand_io_driver g p s = Some (0, s2) \<and> quiet g s2)"
  using initialize_nand_ctrl_quiet [OF assms, of p "[0..<NUM_NAND_CTRLS g]"] ctrl_write [of NAND_CTRL_SHUTDOWN g p 0 s]
    ctrl_wait [of "s\<lparr>cmd_status := (cmd_status s)(0 := NC_COMPLETE)\<rparr>" 0] assms
  by (auto simp: ctrl_base_addrs_def shutdown_nand_io_driver_def quiet_cmd_status)

section \<open>What a wait establishes\<close>

lemma waited_quiet:
  assumes g: "geo_ok g" "chips_ok g" and q: "quiet g s" and p: "pages_ok g pgs" "length pgs \<le> 128"
    and w: "nc_waited g p (driver_writes g prog pgs) s s'"
  shows "quiet g s'" "flash_steps g (absd s) (driver_cmds g prog pgs) (absd s') (\<lambda>c. [])"
proof -
  note r = quiet_run_ok [OF g(1) q p, of prog]
  from w obtain s1 where s1: "nc_run g p (driver_writes g prog pgs) s s1" "poll_round g p [0..<NUM_CHANNELS g] s1 0 s'"
    by (auto simp: nc_waited_def)
  from run_sim [OF s1(1), of "[]"] r have a: "run_ok g [] s1" "flash_steps g (absd s) (driver_cmds g prog pgs) (absd s1) (rest_cmds [] s1)" by simp_all
  from run_sim [OF poll_round_run [OF s1(2)], of "[]"] a(1) have b: "run_ok g [] s'" "flash_steps g (absd s1) (rest_cmds [] s1) (absd s') (rest_cmds [] s')" by simp_all
  have inv: "nc_inv g s1" "nc_inv g s'" using a(1) b(1) by (simp_all add: run_ok_def)
  have "length [0..<NUM_CHANNELS g] < 2 ^ 16" using g(1) by (simp add: geo_ok_def)
  from poll_round_idle [OF s1(2) inv(1) g(2) this] have i: "idle (channels s' c)" if "c < NUM_CHANNELS g" for c using that by simp
  have "others_idle g s1" using run_others [OF s1(1), of "[]"] r(1) driver_inside [OF g(1) p(1)] quiet_others [OF q] by simp
  then have "others_idle g s'" using run_others [OF poll_round_run [OF s1(2)], of "[]"] a(1) by (simp add: inside_def)
  then have i: "idle (channels s' c)" for c using i by (cases "c < NUM_CHANNELS g") (simp_all add: others_idle_def)
  with inv(2) show "quiet g s'" by (simp add: quiet_def)
  have "rest_cmds [] s' = (\<lambda>c. [])" using i by (simp add: rest_cmds_def idle_def fun_eq_iff)
  with flash_steps_trans [OF a(2) b(2)] show "flash_steps g (absd s) (driver_cmds g prog pgs) (absd s') (\<lambda>c. [])" by simp
qed

lemma wait_possible:
  assumes g: "geo_ok g" "chips_ok g" and q: "quiet g s" and p: "pages_ok g pgs" "length pgs \<le> 128"
    and ws: "driver_writes g prog pgs = ws @ vs" "nc_run g p ws s s1"
  shows "nc_inv g s1" "others_idle g s1" "\<exists>s'. nc_waited g p vs s1 s'"
proof -
  have r: "run_ok g (ws @ vs) s" and i: "inside g (ws @ vs)"
    using quiet_run_ok(1) [OF g(1) q p, of prog] driver_inside [OF g(1) p(1), of prog] by (simp_all add: ws(1))
  have s1: "run_ok g vs s1" using run_sim [OF ws(2) r] by simp
  show o1: "others_idle g s1" using run_others [OF ws(2) r _ quiet_others [OF q]] i by (simp add: inside_def)
  show "nc_inv g s1" using s1 by (simp add: run_ok_def)
  obtain s2 where s2: "nc_run g p vs s1 s2" using run_complete [OF s1] by blast
  have inv2: "nc_inv g s2" using run_sim [OF s2, of "[]"] s1 by (simp add: run_ok_def)
  have "others_idle g s2" using run_others [OF s2, of "[]"] s1 i o1 by (simp add: inside_def)
  from drain [OF inv2 this g(2,1), of p] obtain s3 where s3: "nc_run g p [] s2 s3" "poll_status g s3 = 0" by blast
  have "poll_round g p [0..<NUM_CHANNELS g] s3 0 s3"
    using poll_now [OF _ g(2), of s3 p "[0..<NUM_CHANNELS g]"] run_inv [OF s3(1) refl inv2] s3(2) by (simp add: poll_status_def)
  moreover have "nc_run g p vs s1 s3" using s2 s3(1) by (rule run_append)
  ultimately show "\<exists>s'. nc_waited g p vs s1 s'" unfolding nc_waited_def by blast
qed

section \<open>The data\<close>

text \<open>Two entries of a list do not meet: in RAM for reads, in the flash for programs.\<close>

definition pages_apart :: "geo \<Rightarrow> bool \<Rightarrow> (u64 \<times> nat) list \<Rightarrow> bool" where
  "pages_apart g prog pgs \<longleftrightarrow> (\<forall>(d, a) \<in> set pgs. \<forall>(d', a') \<in> set pgs. (d, a) = (d', a') \<or>
     (if prog then ppa_index g (ppa_of d) \<noteq> ppa_index g (ppa_of d')
      else a + NAND_PAGE_SIZE g \<le> a' \<or> a' + NAND_PAGE_SIZE g \<le> a))"

lemma read_pairs_driver:
  "\<forall>(d, a) \<in> set pgs. p_chn (ppa_of d) = c \<longrightarrow> (\<forall>i < NAND_PAGE_SIZE g.
     I (row_off g c (chip_index g (ppa_of d)) (p_page (ppa_of d), p_block (ppa_of d)) + i) = F (a + i)) \<Longrightarrow>
   read_pairs g c F I (driver_cmds g False pgs c)"
proof (induction pgs)
  case (Cons x pgs)
  then show ?case by (cases x) (simp add: driver_cmds_Cons page_flash_def Let_def)
qed (simp add: driver_cmds_def chn_pages_def)

lemma program_pairs_driver:
  "\<forall>(d, a) \<in> set pgs. p_chn (ppa_of d) = c \<longrightarrow> (\<forall>i < NAND_PAGE_SIZE g.
     R (a + i) = G (row_off g c (chip_index g (ppa_of d)) (p_page (ppa_of d), p_block (ppa_of d)) + i)) \<Longrightarrow>
   program_pairs g c G R (driver_cmds g True pgs c)"
proof (induction pgs)
  case (Cons x pgs)
  then show ?case by (cases x) (simp add: driver_cmds_Cons page_flash_def Let_def)
qed (simp add: driver_cmds_def chn_pages_def)

lemma driver_cmds_mem:
  "(d, a) \<in> set pgs \<Longrightarrow> set (page_flash g prog (d, a)) \<subseteq> set (driver_cmds g prog pgs (p_chn (ppa_of d)))"
  by (auto simp: driver_cmds_def chn_pages_def)

lemma read_state_init:
  assumes g: "geo_ok g" and p: "pages_ok g pgs" "pages_apart g False pgs"
  shows "read_state g (copy_in g pgs (fd_img d) (fd_ram d)) (fd_img d) d (driver_cmds g False pgs)"
proof -
  let ?F = "copy_in g pgs (fd_img d) (fd_ram d)" and ?n = "NAND_PAGE_SIZE g"
  have hit: "?F (a + i) = fd_img d (row_off g (p_chn (ppa_of e)) (chip_index g (ppa_of e)) (p_page (ppa_of e), p_block (ppa_of e)) + i)"
    if m: "(e, a) \<in> set pgs" "i < ?n" for e a i
  proof -
    have ok: "ppa_ok g (ppa_of e)" using p(1) m(1) by (auto simp: pages_ok_def)
    have "\<forall>(d', a') \<in> set pgs. a' \<le> a + i \<and> a + i < a' + ?n \<longrightarrow> (d', a') = (e, a)"
      using p(2) m unfolding pages_apart_def by fastforce
    from copy_in_hit [OF m(1) _ _ this, of "fd_img d" "fd_ram d"] m(2) show ?thesis by (simp add: row_off_ppa [OF g ok])
  qed
  have "reads_left g ?F d c (driver_cmds g False pgs c)" for c
    using hit by (simp add: reads_left_def) (intro disjI1 read_pairs_driver, auto)
  moreover have "fd_ram d x = ?F x \<or> (\<exists>c. x \<in> buffers g (driver_cmds g False pgs c))" for x
  proof (cases "\<exists>e a. (e, a) \<in> set pgs \<and> a \<le> x \<and> x < a + ?n")
    case True
    then obtain e a where m: "(e, a) \<in> set pgs" "a \<le> x" "x < a + ?n" by blast
    have "F_to_ram (chip_index g (ppa_of e)) a \<in> set (driver_cmds g False pgs (p_chn (ppa_of e)))"
      using driver_cmds_mem [OF m(1), of g False] by (simp add: page_flash_def Let_def)
    with m show ?thesis by (auto simp: buffers_def)
  next
    case False
    then have "?F x = fd_ram d x" by (intro copy_in_miss) auto
    then show ?thesis by simp
  qed
  ultimately show ?thesis by (simp add: read_state_def)
qed

lemma program_state_init:
  assumes g: "geo_ok g" and p: "pages_ok g pgs" "pages_apart g True pgs"
  shows "program_state g (copy_out g pgs (fd_ram d) (fd_img d)) (fd_ram d) d (driver_cmds g True pgs)"
proof -
  let ?G = "copy_out g pgs (fd_ram d) (fd_img d)" and ?n = "NAND_PAGE_SIZE g"
  let ?off = "\<lambda>e. row_off g (p_chn (ppa_of e)) (chip_index g (ppa_of e)) (p_page (ppa_of e), p_block (ppa_of e))"
  have off: "?off e = ppa_index g (ppa_of e) * ?n" if "(e, a) \<in> set pgs" for e a
    by (rule row_off_ppa [OF g]) (use p(1) that in \<open>auto simp: pages_ok_def\<close>)
  have hit: "fd_ram d (a + i) = ?G (?off e + i)" if m: "(e, a) \<in> set pgs" "i < ?n" for e a i
  proof -
    have "\<forall>(d', a') \<in> set pgs. ppa_index g (ppa_of d') = ppa_index g (ppa_of e) \<longrightarrow> (d', a') = (e, a)"
      using p(2) m unfolding pages_apart_def by fastforce
    from copy_out_hit [OF m this] show ?thesis by (simp add: off [OF m(1)])
  qed
  have "programs_left g ?G d c (driver_cmds g True pgs c)" for c
    using hit by (simp add: programs_left_def) (intro disjI1 program_pairs_driver, auto)
  moreover have "fd_img d x = ?G x \<or> (\<exists>c. x \<in> targets g d c (driver_cmds g True pgs c))" for x
  proof (cases "\<exists>e a. (e, a) \<in> set pgs \<and> ppa_index g (ppa_of e) = x div ?n")
    case True
    then obtain e a where m: "(e, a) \<in> set pgs" "ppa_index g (ppa_of e) = x div ?n" by blast
    have "x mod ?n < ?n" by (rule mod_less_divisor) (rule page_size_pos)
    then have "x div ?n * ?n \<le> x" "x < x div ?n * ?n + ?n" using div_mult_mod_eq [of x ?n] by linarith+
    then have "x \<in> page_at g (p_chn (ppa_of e)) (chip_index g (ppa_of e)) (p_page (ppa_of e), p_block (ppa_of e))"
      by (simp add: page_at_def off [OF m(1)] m(2))
    moreover have "F_program (chip_index g (ppa_of e)) (p_page (ppa_of e), p_block (ppa_of e)) \<in> set (driver_cmds g True pgs (p_chn (ppa_of e)))"
      using driver_cmds_mem [OF m(1), of g True] by (simp add: page_flash_def Let_def)
    ultimately show ?thesis unfolding targets_def by blast
  next
    case False
    then have "?G (x div ?n * ?n + x mod ?n) = fd_img d (x div ?n * ?n + x mod ?n)" by (intro copy_out_miss) (auto intro: mod_less_divisor page_size_pos)
    then show ?thesis by simp
  qed
  ultimately show ?thesis by (simp add: program_state_def)
qed

lemma waited_data:
  assumes g: "geo_ok g" "chips_ok g" and q: "quiet g s" and p: "pages_ok g pgs" "length pgs \<le> 128" "pages_apart g prog pgs"
    and w: "nc_waited g p (driver_writes g prog pgs) s s'"
  shows "sys_ram s' = (if prog then sys_ram s else copy_in g pgs (image s) (sys_ram s))"
    and "image s' = (if prog then copy_out g pgs (sys_ram s) (image s) else image s)"
proof -
  have f: "fd_ram (absd x) = sys_ram x" "fd_img (absd x) = image x" for x by (simp_all add: absd_def)
  note st = waited_quiet(2) [OF g q p(1,2) w]
  have "sys_ram s' = (if prog then sys_ram s else copy_in g pgs (image s) (sys_ram s)) \<and>
    image s' = (if prog then copy_out g pgs (sys_ram s) (image s) else image s)"
  proof (cases prog)
    case True
    with st p(3) have a: "flash_steps g (absd s) (driver_cmds g True pgs) (absd s') (\<lambda>c. [])" "pages_apart g True pgs" by simp_all
    from program_state_end [OF a(1) program_state_init [OF g(1) p(1) a(2)] refl] True f show ?thesis by simp
  next
    case False
    with st p(3) have a: "flash_steps g (absd s) (driver_cmds g False pgs) (absd s') (\<lambda>c. [])" "pages_apart g False pgs" by simp_all
    from read_state_end [OF a(1) read_state_init [OF g(1) p(1) a(2)] refl] False f show ?thesis by simp
  qed
  then show "sys_ram s' = (if prog then sys_ram s else copy_in g pgs (image s) (sys_ram s))"
    "image s' = (if prog then copy_out g pgs (sys_ram s) (image s) else image s)" by simp_all
qed

text \<open>The writes of an operation are those of its pages in the driver model.\<close>

definition op_of_pages :: "(u64 \<times> nat) list \<Rightarrow> flash_op_t" where
  "op_of_pages pgs = \<lparr>fo_type = FLASH_READ_OPERATION, fo_index = 0, fo_nop = length pgs, fo_pages = pgs\<rparr>"

text \<open>A controller after power on, and two pages on two channels, for evaluation.\<close>

definition slc_params :: nc_params where
  "slc_params = \<lparr>media_type = ''slc'', ltcy_read_page = 25, ltcy_program_page = 300, ltcy_erase_block = 2000,
     nand_ltcy_read_msb_page = 0, nand_ltcy_read_lsb_page = 0, nand_ltcy_program_msb_page = 0, nand_ltcy_program_lsb_page = 0,
     nand_ltcy_read_csb_page = 0, nand_ltcy_program_csb_page = 0, nand_ltcy_read_chsb_page = 0, nand_ltcy_read_clsb_page = 0,
     nand_ltcy_program_chsb_page = 0, nand_ltcy_program_clsb_page = 0\<rparr>"

definition demo_ctrl :: nc_st where
  "demo_ctrl = init_nand_ctrls tiny_geo (\<lambda>_. True) (\<lambda>_. 0) (replicate en_size new_NC_Command) (\<lambda>_. 5) (\<lambda>_. 7)"

definition demo_pages :: "(u64 \<times> nat) list" where "demo_pages = [(0, 64), (2 ^ 48, 8256)]"

lemma demo_ok: "geo_ok tiny_geo" "chips_ok tiny_geo" "quiet tiny_geo demo_ctrl" "pages_ok tiny_geo demo_pages" "length demo_pages \<le> 128"
    "pages_apart tiny_geo prog demo_pages"
proof -
  have p: "ppa_of 0 = zero_ppa" "ppa_of (2 ^ 48) = zero_ppa\<lparr>p_chn := 1\<rparr>" by (simp_all add: ppa_of_def zero_ppa_def Let_def)
  show "geo_ok tiny_geo" by (rule geo_ok_default)
  show "chips_ok tiny_geo" by (simp add: chips_ok_def tiny_geo_def geom_defs)
  show "quiet tiny_geo demo_ctrl" unfolding demo_ctrl_def by (rule quiet_init) simp
  show "pages_ok tiny_geo demo_pages"
    unfolding demo_pages_def pages_ok_simps fst_conv p by (simp add: ppa_ok_def zero_ppa_def tiny_geo_def geom_defs)
  show "length demo_pages \<le> 128" by (simp add: demo_pages_def)
  show "pages_apart tiny_geo prog demo_pages"
    unfolding demo_pages_def pages_apart_def list.set ball_simps case_prod_conv p
    by (simp add: zero_ppa_def ppa_index_def block_index_def plane_index_def tiny_geo_def geom_defs)
qed

lemma demo_waits: obtains s' where "nc_waited tiny_geo slc_params (driver_writes tiny_geo prog demo_pages) demo_ctrl s'"
  using wait_possible(3) [OF demo_ok(1-5), of prog "[]" "driver_writes tiny_geo prog demo_pages" slc_params demo_ctrl]
    finished [of tiny_geo slc_params demo_ctrl] by auto

section \<open>The properties\<close>

text \<open>
  C5. Reading pages on the event-driven controller: whatever the order in which operations of the chips and transfers
  complete, when the wait of \<open>__do_sync_flash_read\<close> for up to 128 existing pages with separate buffers ends, RAM and
  flash are those the driver model gives, and all channels are idle again.
\<close>

theorem read_on_controller:
  assumes "geo_ok g" "chips_ok g" "quiet g s" "pages_ok g pgs" "length pgs \<le> 128" "pages_apart g False pgs"
    and "nc_waited g p (driver_writes g False pgs) s s'" "ram u = sys_ram s" "nand_img u = image s"
  shows "quiet g s' \<and> (\<exists>u'. do_sync_flash_read g (op_of_pages pgs) u = Some u' \<and> sys_ram s' = ram u' \<and> image s' = nand_img u')"
proof -
  obtain hw where "flash_read_pages g pgs u = Some (u\<lparr>nand_regs := hw, ram := copy_in g pgs (nand_img u) (ram u)\<rparr>)"
    using flash_read_pages_copy [OF assms(1,4)] by blast
  then have "do_sync_flash_read g (op_of_pages pgs) u = Some (u\<lparr>nand_regs := hw, ram := copy_in g pgs (nand_img u) (ram u)\<rparr>)"
    by (cases pgs) (simp_all add: do_sync_flash_read_def op_of_pages_def)
  with waited_data [OF assms(1-7)] waited_quiet(1) [OF assms(1-5,7)] assms(8,9) show ?thesis by simp
qed

theorem read_on_controller_witness:
  "\<exists>s'. nc_waited tiny_geo slc_params (driver_writes tiny_geo False demo_pages) demo_ctrl s' \<and> quiet tiny_geo s' \<and>
     (\<exists>u'. do_sync_flash_read tiny_geo (op_of_pages demo_pages) (nand_image\<lparr>ram := \<lambda>_. 5, nand_img := \<lambda>_. 7\<rparr>) = Some u' \<and>
        sys_ram s' = ram u' \<and> image s' = nand_img u')"
proof -
  obtain s' where w: "nc_waited tiny_geo slc_params (driver_writes tiny_geo False demo_pages) demo_ctrl s'" by (rule demo_waits)
  have "ram (nand_image\<lparr>ram := \<lambda>_. 5, nand_img := \<lambda>_. 7\<rparr>) = sys_ram demo_ctrl" "nand_img (nand_image\<lparr>ram := \<lambda>_. 5, nand_img := \<lambda>_. 7\<rparr>) = image demo_ctrl"
    by (simp_all add: demo_ctrl_def init_nand_ctrls_def)
  from read_on_controller [OF demo_ok w this] w show ?thesis by blast
qed

text \<open>
  C6. Programming pages on the event-driven controller: whatever the order of the events, when the wait of
  \<open>__do_sync_flash_program\<close> for up to 128 different existing pages ends, the flash image holds what the driver model
  stores, RAM is unchanged, and all channels are idle again.
\<close>

theorem program_on_controller:
  assumes "geo_ok g" "chips_ok g" "quiet g s" "pages_ok g pgs" "length pgs \<le> 128" "pages_apart g True pgs"
    and "nc_waited g p (driver_writes g True pgs) s s'" "ram u = sys_ram s" "nand_img u = image s"
  shows "quiet g s' \<and> (\<exists>u'. do_sync_flash_program g (op_of_pages pgs) u = Some u' \<and> sys_ram s' = ram u' \<and> image s' = nand_img u')"
proof -
  obtain hw where "flash_program_pages g pgs u = Some (u\<lparr>nand_regs := hw, nand_img := copy_out g pgs (ram u) (nand_img u)\<rparr>)"
    using flash_program_pages_copy [OF assms(1,4)] by blast
  then have "do_sync_flash_program g (op_of_pages pgs) u = Some (u\<lparr>nand_regs := hw, nand_img := copy_out g pgs (ram u) (nand_img u)\<rparr>)"
    by (cases pgs) (simp_all add: do_sync_flash_program_def op_of_pages_def)
  with waited_data [OF assms(1-7)] waited_quiet(1) [OF assms(1-5,7)] assms(8,9) show ?thesis by simp
qed

theorem program_on_controller_witness:
  "\<exists>s'. nc_waited tiny_geo slc_params (driver_writes tiny_geo True demo_pages) demo_ctrl s' \<and> quiet tiny_geo s' \<and>
     (\<exists>u'. do_sync_flash_program tiny_geo (op_of_pages demo_pages) (nand_image\<lparr>ram := \<lambda>_. 5, nand_img := \<lambda>_. 7\<rparr>) = Some u' \<and>
        sys_ram s' = ram u' \<and> image s' = nand_img u')"
proof -
  obtain s' where w: "nc_waited tiny_geo slc_params (driver_writes tiny_geo True demo_pages) demo_ctrl s'" by (rule demo_waits)
  have "ram (nand_image\<lparr>ram := \<lambda>_. 5, nand_img := \<lambda>_. 7\<rparr>) = sys_ram demo_ctrl" "nand_img (nand_image\<lparr>ram := \<lambda>_. 5, nand_img := \<lambda>_. 7\<rparr>) = image demo_ctrl"
    by (simp_all add: demo_ctrl_def init_nand_ctrls_def)
  from program_on_controller [OF demo_ok w this] w show ?thesis by blast
qed

text \<open>
  C25. The wait of a synchronous operation ends: after any part of its register writes and any events, the rest of
  the writes succeeds and a round of polls that reads zero can be reached; there is no infinite sequence of events,
  and when no event is left the polled sum is zero.
\<close>

theorem controller_wait_ends:
  assumes "geo_ok g" "chips_ok g" "quiet g s" "pages_ok g pgs" "length pgs \<le> 128"
    and "driver_writes g prog pgs = ws @ vs" "nc_run g p ws s s1"
  shows "(\<exists>s'. nc_waited g p vs s1 s') \<and> \<not> (\<exists>f. f 0 = s1 \<and> (\<forall>i. nc_event_step g p (f i) (f (Suc i)))) \<and>
    (events s1 = [] \<longrightarrow> poll_status g s1 = 0)"
proof -
  note wp = wait_possible [OF assms]
  have "\<not> (f 0 = s1 \<and> (\<forall>i. nc_event_step g p (f i) (f (Suc i))))" for f
    using no_infinite_events [OF wp(1,2)] by blast
  moreover have "poll_status g s1 = 0" if "events s1 = []"
    using event_enabled [OF wp(1)] that poll_idle [OF wp(1) assms(2,1)] by blast
  ultimately show ?thesis using wp(3) by blast
qed

theorem controller_wait_ends_witness:
  "(\<exists>s'. nc_waited tiny_geo slc_params (driver_writes tiny_geo True demo_pages) demo_ctrl s') \<and>
   \<not> (\<exists>f. f 0 = demo_ctrl \<and> (\<forall>i. nc_event_step tiny_geo slc_params (f i) (f (Suc i))))"
  using controller_wait_ends [OF demo_ok(1-5), of True "[]" "driver_writes tiny_geo True demo_pages" slc_params demo_ctrl]
    finished [of tiny_geo slc_params demo_ctrl] by simp

text \<open>
  C26. The controller keeps its structure: at any point of a synchronous operation every channel has all its chips
  and room for a further command, a waiting channel has an existing chip that is not busy and exactly one direction,
  the 8-bit counter of a channel is the number of its busy chips and its transfer, and the call-back of every
  scheduled event finds the chips and channels it needs.
\<close>

theorem controller_keeps_structure:
  assumes "geo_ok g" "chips_ok g" "quiet g s" "pages_ok g pgs" "length pgs \<le> 128"
    and "driver_writes g prog pgs = ws @ vs" "nc_run g p ws s s1"
  shows "length (chips (channels s1 c)) = PLANES_PER_CHANNEL g \<and> ff_items (cmd_waiting_room (channels s1 c)) < en_size \<and>
    (wait_dma_completion (channels s1 c) \<longrightarrow> (\<exists>k < PLANES_PER_CHANNEL g. dma_chip (channels s1 c) = Some k \<and>
       \<not> busy (chips (channels s1 c) ! k) \<and> read_dma (channels s1 c) \<noteq> write_dma (channels s1 c))) \<and>
    unat (active_nand_ops (channels s1 c)) = length (filter busy (chips (channels s1 c))) + (if wait_dma_completion (channels s1 c) then 1 else 0) \<and>
    (\<forall>ev \<in> set (events s1). fire_event g p ev (s1\<lparr>events := remove1 ev (events s1)\<rparr>) \<noteq> None)"
proof -
  have inv: "nc_inv g s1" by (rule wait_possible(1) [OF assms])
  then have wf: "chn_wf g (channels s1 c)" by (simp add: nc_inv_def core_def)
  have "ff_items (cmd_waiting_room (channels s1 c)) < en_size"
    using room_less [OF wf] by (simp add: fifo_items [OF chn_wf_chips(3) [OF wf]])
  moreover have "fire_event g p ev (s1\<lparr>events := remove1 ev (events s1)\<rparr>) \<noteq> None" if "ev \<in> set (events s1)" for ev
    using event_ok [OF inv that, of p] by (metis option.distinct(1))
  moreover have "length (chips (channels s1 c)) = PLANES_PER_CHANNEL g" "wait_dma_completion (channels s1 c) \<Longrightarrow>
      \<exists>k < PLANES_PER_CHANNEL g. dma_chip (channels s1 c) = Some k \<and> \<not> busy (chips (channels s1 c) ! k) \<and> read_dma (channels s1 c) \<noteq> write_dma (channels s1 c)"
    using wf by (auto simp: chn_wf_def)
  ultimately show ?thesis using active_ops_exact [OF wf assms(2)] by (simp add: busy_chips_def)
qed

theorem controller_keeps_structure_witness:
  "length (chips (channels demo_ctrl 0)) = PLANES_PER_CHANNEL tiny_geo \<and> unat (active_nand_ops (channels demo_ctrl 0)) = length (filter busy (chips (channels demo_ctrl 0)))"
  using controller_keeps_structure [OF demo_ok(1-5), of True "[]" "driver_writes tiny_geo True demo_pages" slc_params demo_ctrl 0]
    finished [of tiny_geo slc_params demo_ctrl] by (auto simp: demo_ctrl_def init_nand_ctrls_def NC_Channel_def)

end
