(* ===== verification/Event_Log.thy ===== *)
theory Event_Log
  imports Containers
begin

text \<open>
  The event log of the simulator (\<^verbatim>\<open>iSSDStats.cc\<close>): the device takes log writes of the firmware and queues events,
  a second thread takes them from the queue and writes them to a file. The two threads share the queue without a
  lock, so the model has one step for every access to it, and a run is any interleaving of the steps.
\<close>

unbundle bit_operations_syntax

section \<open>Events and their queue\<close>

record event_t =
  event_code :: u32
  event_cycle :: u64
  longs_0 :: u64
  longs_1 :: u64

definition Event_Queue_Size :: nat where "Event_Queue_Size = 2 ^ 17"
definition sizeof_event_t :: nat where "sizeof_event_t = 28"

record event_queue_t =
  eq_head :: nat
  eq_tail :: nat
  eq_list :: "event_t list"

text \<open>The assignments of one event to another, field by field.\<close>

fun copy_field :: "nat \<Rightarrow> event_t \<Rightarrow> event_t \<Rightarrow> event_t" where
  "copy_field 0 src dst = dst\<lparr>event_code := event_code src\<rparr>"
| "copy_field (Suc 0) src dst = dst\<lparr>event_cycle := event_cycle src\<rparr>"
| "copy_field (Suc (Suc 0)) src dst = dst\<lparr>longs_0 := longs_0 src\<rparr>"
| "copy_field (Suc (Suc (Suc k))) src dst = dst\<lparr>longs_1 := longs_1 src\<rparr>"

definition copy_event :: "event_t \<Rightarrow> event_t \<Rightarrow> event_t" where
  "copy_event src dst = copy_field 3 src (copy_field 2 src (copy_field 1 src (copy_field 0 src dst)))"

text \<open>The two operations as they are when nothing interferes; a result is the index of a slot.\<close>

definition enQueueEvt :: "event_queue_t \<Rightarrow> event_t \<Rightarrow> nat option \<times> event_queue_t" where
  "enQueueEvt q e =
     (if eq_head q = (eq_tail q + 1) mod Event_Queue_Size then (None, q)
      else (Some (eq_tail q), q\<lparr>eq_list := (eq_list q)[eq_tail q := copy_event e (eq_list q ! eq_tail q)],
                                eq_tail := (eq_tail q + 1) mod Event_Queue_Size\<rparr>))"

definition deQueueEvt :: "event_queue_t \<Rightarrow> nat option \<times> event_queue_t" where
  "deQueueEvt q =
     (if eq_head q = eq_tail q then (None, q)
      else (Some (eq_head q), q\<lparr>eq_head := (eq_head q + 1) mod Event_Queue_Size\<rparr>))"

lemma copy_event_eq [simp]: "copy_event src dst = src"
  by (simp add: copy_event_def numeral_3_eq_3 numeral_2_eq_2)

definition enq_evt :: "event_queue_t \<Rightarrow> event_t \<Rightarrow> bool \<times> event_queue_t" where
  "enq_evt q e = (case enQueueEvt q e of (r, q') \<Rightarrow> (r \<noteq> None, q'))"

definition deq_evt :: "event_queue_t \<Rightarrow> event_t option \<times> event_queue_t" where
  "deq_evt q = (case deQueueEvt q of (r, q') \<Rightarrow> (map_option (nth (eq_list q')) r, q'))"

interpretation evq: ring_queue eq_head eq_tail eq_list "\<lambda>_. Event_Queue_Size" enq_evt deq_evt
  by unfold_locales (auto simp: enq_evt_def deq_evt_def enQueueEvt_def deQueueEvt_def)

section \<open>The two threads\<close>

text \<open>
  The device is ready, or in \<open>enQueueEvt\<close> with the event of core \<open>c\<close>: before the check, before field \<open>k\<close>, before
  the tail moves. The writer looks for an event, takes it, copies field \<open>k\<close> of its slot, or counts it.
\<close>

datatype producer = P_ready | P_check nat | P_store nat nat | P_advance nat
datatype consumer = C_look | C_take | C_copy nat nat | C_count

record log_st =
  event :: "event_t list"
  event_queue :: event_queue_t
  prod_at :: producer
  cons_at :: consumer
  wait_buffer :: "event_t list"
  writes :: nat
  idle_cycles :: nat
  log_file :: "event_t list"

definition put_low :: "nat \<Rightarrow> u32 \<Rightarrow> u32 \<Rightarrow> u32" where
  "put_low sz v old = v AND mask (8 * sz) OR old AND NOT (mask (8 * sz))"

text \<open>
  A write of the firmware to the device. \<open>use_event + offset\<close> counts in events, not bytes, so the data goes to
  element \<open>core_id + offset\<close> of the array of eight; behind it lies the pointer to the queue (\<open>None\<close>).
\<close>

definition pkt_value :: "nat \<Rightarrow> u32 \<Rightarrow> u32" where
  "pkt_value sz data = (if sz = 1 then data AND 0xFF else if sz = 2 then data AND 0xFFFF else if sz = 4 then data else 0)"

definition core_of :: "nat \<Rightarrow> nat" where
  "core_of daddr = (let core_id = daddr div sizeof_event_t in if core_id > 8 then 0 else core_id)"

definition put_code :: "nat \<Rightarrow> nat \<Rightarrow> u32 \<Rightarrow> event_t list \<Rightarrow> event_t list" where
  "put_code i sz v ev = ev[i := (ev ! i)\<lparr>event_code := put_low sz v (event_code (ev ! i))\<rparr>]"

definition stats_write :: "nat \<Rightarrow> u32 \<Rightarrow> nat \<Rightarrow> u64 \<Rightarrow> log_st \<Rightarrow> log_st option" where
  "stats_write daddr data sz tick s =
     (let offset = daddr mod sizeof_event_t; core_id = core_of daddr;
          ev1 = put_code (core_id + offset) sz (pkt_value sz data) (event s) in
      if core_id + offset < 8 \<and> sz \<le> 4 then
        (if offset = 0 then Some (s\<lparr>event := ev1[core_id := (ev1 ! core_id)\<lparr>event_cycle := tick\<rparr>], prod_at := P_check core_id\<rparr>)
         else Some (s\<lparr>event := ev1\<rparr>))
      else None)"

text \<open>\<open>LOG_EVENT\<close> of the firmware: the pointer is one to 32-bit words, so the source is scaled once more by four.\<close>

definition LOG_EVENT_addr :: "nat \<Rightarrow> nat" where "LOG_EVENT_addr src = 4 * (src * sizeof_event_t)"

definition upd_queue :: "(event_queue_t \<Rightarrow> event_queue_t) \<Rightarrow> log_st \<Rightarrow> log_st" where
  "upd_queue f s = s\<lparr>event_queue := f (event_queue s)\<rparr>"

definition producer_step :: "log_st \<Rightarrow> log_st" where
  "producer_step s =
     (let q = event_queue s in
      case prod_at s of
        P_ready \<Rightarrow> s
      | P_check c \<Rightarrow> s\<lparr>prod_at := if eq_head q = (eq_tail q + 1) mod Event_Queue_Size then P_ready else P_store c 0\<rparr>
      | P_store c k \<Rightarrow> (upd_queue (\<lambda>q. q\<lparr>eq_list := (eq_list q)[eq_tail q := copy_field k (event s ! c) (eq_list q ! eq_tail q)]\<rparr>) s)
          \<lparr>prod_at := if k = 3 then P_advance c else P_store c (k + 1)\<rparr>
      | P_advance c \<Rightarrow> (upd_queue (\<lambda>q. q\<lparr>eq_tail := (eq_tail q + 1) mod Event_Queue_Size\<rparr>) s)\<lparr>prod_at := P_ready\<rparr>)"

text \<open>The event a step of the device adds to the queue.\<close>

definition published :: "log_st \<Rightarrow> event_t list" where
  "published s = (case prod_at s of P_advance c \<Rightarrow> [event s ! c] | _ \<Rightarrow> [])"

definition flushtofile :: "log_st \<Rightarrow> log_st" where
  "flushtofile s = s\<lparr>log_file := log_file s @ take (writes s) (wait_buffer s), writes := 0\<rparr>"

definition consumer_step :: "log_st \<Rightarrow> log_st option" where
  "consumer_step s =
     (let q = event_queue s in
      case cons_at s of
        C_look \<Rightarrow>
          (if eq_head q = eq_tail q then
             let s1 = s\<lparr>idle_cycles := idle_cycles s + 1\<rparr> in
             Some (if idle_cycles s1 > 200 \<and> writes s1 \<noteq> 0 then (flushtofile s1)\<lparr>idle_cycles := 0\<rparr> else s1)
           else Some (s\<lparr>cons_at := C_take\<rparr>))
      | C_take \<Rightarrow> Some ((upd_queue (\<lambda>q. q\<lparr>eq_head := (eq_head q + 1) mod Event_Queue_Size\<rparr>) s)\<lparr>cons_at := C_copy (eq_head q) 0\<rparr>)
      | C_copy slot k \<Rightarrow>
          (if writes s < 100 then
             Some (s\<lparr>wait_buffer := (wait_buffer s)[writes s := copy_field k (eq_list q ! slot) (wait_buffer s ! writes s)],
                     cons_at := if k = 3 then C_count else C_copy slot (k + 1)\<rparr>)
           else None)
      | C_count \<Rightarrow>
          (let s1 = s\<lparr>writes := writes s + 1\<rparr> in
           Some ((if writes s1 \<ge> 10 then flushtofile s1 else s1)\<lparr>idle_cycles := 0, cons_at := C_look\<rparr>)))"

text \<open>All runs, with the events the device has queued so far.\<close>

inductive log_run :: "log_st \<Rightarrow> event_t list \<Rightarrow> log_st \<Rightarrow> bool" for s0 where
  log_start: "log_run s0 [] s0"
| log_write: "log_run s0 es s \<Longrightarrow> prod_at s = P_ready \<Longrightarrow> stats_write daddr data sz tick s = Some s' \<Longrightarrow> log_run s0 es s'"
| log_device: "log_run s0 es s \<Longrightarrow> log_run s0 (es @ published s) (producer_step s)"
| log_writer: "log_run s0 es s \<Longrightarrow> consumer_step s = Some s' \<Longrightarrow> log_run s0 es s'"

text \<open>The shared memory is new and zero, the other arrays are what they are.\<close>

definition log_init :: "event_t list \<Rightarrow> event_t list \<Rightarrow> event_t list \<Rightarrow> log_st" where
  "log_init ev lst wb = \<lparr>event = ev, event_queue = \<lparr>eq_head = 0, eq_tail = 0, eq_list = lst\<rparr>, prod_at = P_ready, cons_at = C_look,
     wait_buffer = wb, writes = 0, idle_cycles = 0, log_file = []\<rparr>"

section \<open>The invariant\<close>

definition fields_eq :: "nat \<Rightarrow> event_t \<Rightarrow> event_t \<Rightarrow> bool" where
  "fields_eq k a b \<longleftrightarrow> (0 < k \<longrightarrow> event_code a = event_code b) \<and> (1 < k \<longrightarrow> event_cycle a = event_cycle b) \<and>
     (2 < k \<longrightarrow> longs_0 a = longs_0 b) \<and> (3 < k \<longrightarrow> longs_1 a = longs_1 b)"

lemma fields_eq_step: "k < 4 \<Longrightarrow> fields_eq k a b \<Longrightarrow> fields_eq (Suc k) (copy_field k b a) b"
  by (auto simp: fields_eq_def less_Suc_eq numeral_eq_Suc)

lemma fields_eq_all: "fields_eq 4 a b \<Longrightarrow> a = b"
  by (simp add: fields_eq_def)

definition in_flight :: "log_st \<Rightarrow> event_t list" where
  "in_flight s = (case cons_at s of C_copy slot k \<Rightarrow> [eq_list (event_queue s) ! slot] | C_count \<Rightarrow> [wait_buffer s ! writes s] | _ \<Rightarrow> [])"

definition queued_events :: "log_st \<Rightarrow> event_t list" where
  "queued_events s = ring_list (eq_list (event_queue s)) Event_Queue_Size (eq_head (event_queue s)) (eq_tail (event_queue s))"

definition sizes_ok :: "log_st \<Rightarrow> bool" where
  "sizes_ok s \<longleftrightarrow> eq_head (event_queue s) < Event_Queue_Size \<and> eq_tail (event_queue s) < Event_Queue_Size \<and>
     length (eq_list (event_queue s)) = Event_Queue_Size \<and> length (event s) = 8 \<and> length (wait_buffer s) = 100 \<and>
     writes s < 10 \<and> (writes s \<noteq> 0 \<longrightarrow> idle_cycles s \<le> 200)"

definition prod_ok :: "log_st \<Rightarrow> bool" where
  "prod_ok s \<longleftrightarrow> (let q = event_queue s; room = (eq_head q \<noteq> (eq_tail q + 1) mod Event_Queue_Size) in
     case prod_at s of
       P_ready \<Rightarrow> True
     | P_check c \<Rightarrow> c < 8
     | P_store c k \<Rightarrow> c < 8 \<and> k < 4 \<and> room \<and> fields_eq k (eq_list q ! eq_tail q) (event s ! c)
     | P_advance c \<Rightarrow> c < 8 \<and> room \<and> eq_list q ! eq_tail q = event s ! c)"

definition cons_ok :: "log_st \<Rightarrow> bool" where
  "cons_ok s \<longleftrightarrow> (let q = event_queue s in
     case cons_at s of
       C_take \<Rightarrow> eq_head q \<noteq> eq_tail q
     | C_copy slot k \<Rightarrow> k < 4 \<and> slot < Event_Queue_Size \<and> eq_head q = (slot + 1) mod Event_Queue_Size \<and>
         fields_eq k (wait_buffer s ! writes s) (eq_list q ! slot)
     | _ \<Rightarrow> True)"

definition log_ok :: "event_t list \<Rightarrow> log_st \<Rightarrow> bool" where
  "log_ok es s \<longleftrightarrow> sizes_ok s \<and> prod_ok s \<and> cons_ok s \<and>
     es = log_file s @ take (writes s) (wait_buffer s) @ in_flight s @ queued_events s"

lemma ring_list_tail_free:
  assumes "h < n" "t < n" shows "ring_list (xs[t := x]) n h t = ring_list xs n h t"
proof -
  have "xs[t := x] ! ((h + i) mod n) = xs ! ((h + i) mod n)" if "i < ring_len n h t" for i
    using ring_slot_neq [OF assms that] by simp
  then show ?thesis unfolding ring_list_def by (intro map_cong [OF refl]) simp
qed

lemma ring_list_advance:
  assumes "h < n" "t < n" "length xs = n" "h \<noteq> (t + 1) mod n"
  shows "ring_list xs n h ((t + 1) mod n) = ring_list xs n h t @ [xs ! t]"
  using ring_list_enq [OF assms, of "xs ! t"] by (simp add: list_update_id)

section \<open>Every step keeps it\<close>

lemma event_upd_ok:
  assumes "log_ok es s" "length ev = length (event s)" "pc = P_ready \<or> (\<exists>c < 8. pc = P_check c)"
  shows "log_ok es (s\<lparr>event := ev, prod_at := pc\<rparr>)"
proof -
  let ?s = "s\<lparr>event := ev, prod_at := pc\<rparr>"
  have "sizes_ok ?s" using assms(1,2) by (simp add: log_ok_def sizes_ok_def)
  moreover have "cons_ok ?s = cons_ok s" "in_flight ?s = in_flight s" "queued_events ?s = queued_events s"
    by (simp_all add: cons_ok_def in_flight_def queued_events_def Let_def split: consumer.split)
  moreover have "prod_ok ?s" using assms(3) by (auto simp: prod_ok_def Let_def)
  ultimately show ?thesis using assms(1) by (simp add: log_ok_def)
qed

lemma write_ok:
  assumes "log_ok es s" "prod_at s = P_ready" "stats_write daddr data sz tick s = Some s'"
  shows "log_ok es s'"
proof -
  let ?ev1 = "put_code (core_of daddr + daddr mod sizeof_event_t) sz (pkt_value sz data) (event s)"
  have len: "length ?ev1 = length (event s)" by (simp add: put_code_def)
  have same: "s\<lparr>event := ?ev1\<rparr> = s\<lparr>event := ?ev1, prod_at := P_ready\<rparr>" using assms(2) by (cases s) simp
  show ?thesis
  proof (cases "daddr mod sizeof_event_t = 0")
    case True
    then have "core_of daddr < 8" "s' = s\<lparr>event := ?ev1[core_of daddr := (?ev1 ! core_of daddr)\<lparr>event_cycle := tick\<rparr>], prod_at := P_check (core_of daddr)\<rparr>"
      using assms(3) by (simp_all add: stats_write_def Let_def split: if_split_asm)
    then show ?thesis using event_upd_ok [OF assms(1)] len by simp
  next
    case False
    then have "s' = s\<lparr>event := ?ev1\<rparr>" using assms(3) by (simp add: stats_write_def Let_def split: if_split_asm)
    from trans [OF this same] event_upd_ok [OF assms(1) len, of P_ready] show ?thesis by (simp only: simp_thms)
  qed
qed

lemma store_ok:
  assumes ok: "log_ok es s" and p: "prod_at s = P_store c k"
  shows "log_ok es (producer_step s)"
proof -
  let ?q = "event_queue s" and ?s = "producer_step s" and ?N = Event_Queue_Size
  define x where "x = copy_field k (event s ! c) (eq_list ?q ! eq_tail ?q)"
  have sz: "eq_head ?q < ?N" "eq_tail ?q < ?N" "length (eq_list ?q) = ?N" "sizes_ok s" using ok by (simp_all add: log_ok_def sizes_ok_def)
  have pk: "c < 8" "k < 4" "eq_head ?q \<noteq> (eq_tail ?q + 1) mod ?N" "fields_eq k (eq_list ?q ! eq_tail ?q) (event s ! c)"
    using ok p by (simp_all add: log_ok_def prod_ok_def Let_def)
  have s: "?s = s\<lparr>event_queue := ?q\<lparr>eq_list := (eq_list ?q)[eq_tail ?q := x]\<rparr>, prod_at := if k = 3 then P_advance c else P_store c (k + 1)\<rparr>"
    using p by (simp add: producer_step_def upd_queue_def Let_def x_def)
  have q: "queued_events ?s = queued_events s" by (simp add: s queued_events_def ring_list_tail_free [OF sz(1,2)])
  have slot: "(eq_list ?q)[eq_tail ?q := x] ! slot = eq_list ?q ! slot" if "cons_at s = C_copy slot j" for slot j
  proof -
    have "eq_head ?q = (slot + 1) mod ?N" using ok that by (simp add: log_ok_def cons_ok_def Let_def)
    with pk(3) show ?thesis by (metis nth_list_update_neq)
  qed
  then have "in_flight ?s = in_flight s" by (cases "cons_at s") (simp_all add: s in_flight_def)
  moreover have "cons_ok ?s" using ok slot by (cases "cons_at s") (simp_all add: s log_ok_def cons_ok_def Let_def)
  moreover have "fields_eq (Suc k) x (event s ! c)" unfolding x_def by (rule fields_eq_step [OF pk(2,4)])
  then have "prod_ok ?s" using pk(1-3) sz(2,3) fields_eq_all [of x "event s ! c"]
    by (auto simp: s prod_ok_def Let_def less_Suc_eq numeral_eq_Suc)
  moreover have "sizes_ok ?s" using sz(4) by (simp add: s sizes_ok_def)
  ultimately show ?thesis using ok q by (simp add: log_ok_def) (simp add: s)
qed

lemma advance_ok:
  assumes ok: "log_ok es s" and p: "prod_at s = P_advance c"
  shows "log_ok (es @ published s) (producer_step s)"
proof -
  let ?q = "event_queue s" and ?s = "producer_step s" and ?N = Event_Queue_Size
  have sz: "eq_head ?q < ?N" "eq_tail ?q < ?N" "length (eq_list ?q) = ?N" "sizes_ok s" using ok by (simp_all add: log_ok_def sizes_ok_def)
  have pk: "eq_head ?q \<noteq> (eq_tail ?q + 1) mod ?N" "eq_list ?q ! eq_tail ?q = event s ! c"
    using ok p by (simp_all add: log_ok_def prod_ok_def Let_def)
  have s: "?s = s\<lparr>event_queue := ?q\<lparr>eq_tail := (eq_tail ?q + 1) mod ?N\<rparr>, prod_at := P_ready\<rparr>"
    using p by (simp add: producer_step_def upd_queue_def Let_def)
  have "queued_events ?s = queued_events s @ published s"
    using ring_list_advance [OF sz(1-3) pk(1)] pk(2) by (simp add: s queued_events_def published_def p)
  moreover have "in_flight ?s = in_flight s" by (simp add: s in_flight_def split: consumer.split)
  moreover have "eq_head ?q \<noteq> eq_tail ?q \<Longrightarrow> eq_head ?q \<noteq> (eq_tail ?q + 1) mod ?N" using pk(1) by simp
  then have "cons_ok ?s" using ok pk(1) by (auto simp: s log_ok_def cons_ok_def Let_def split: consumer.splits)
  moreover have "prod_ok ?s" by (simp add: s prod_ok_def)
  moreover have "sizes_ok ?s" using sz(4) mod_less_divisor [of ?N "eq_tail ?q + 1"] sz(1) by (simp add: s sizes_ok_def)
  ultimately show ?thesis using ok by (simp add: log_ok_def) (simp add: s)
qed

lemma producer_ok:
  assumes ok: "log_ok es s" shows "log_ok (es @ published s) (producer_step s)"
proof (cases "prod_at s")
  case P_ready
  then show ?thesis using ok by (simp add: producer_step_def published_def Let_def)
next
  case (P_check c)
  let ?pc = "if eq_head (event_queue s) = (eq_tail (event_queue s) + 1) mod Event_Queue_Size then P_ready else P_store c 0"
  have "producer_step s = s\<lparr>prod_at := ?pc\<rparr>" using P_check by (simp add: producer_step_def Let_def)
  moreover have "log_ok es (s\<lparr>prod_at := ?pc\<rparr>)"
    using ok P_check by (auto simp: log_ok_def sizes_ok_def prod_ok_def cons_ok_def in_flight_def queued_events_def Let_def fields_eq_def split: consumer.split)
  ultimately show ?thesis using P_check by (simp add: published_def)
next
  case (P_store c k)
  then show ?thesis using store_ok [OF ok P_store] by (simp add: published_def)
next
  case (P_advance c)
  then show ?thesis by (rule advance_ok [OF ok])
qed

lemma look_idle_ok:
  assumes ok: "log_ok es s" and c: "cons_at s = C_look" "eq_head (event_queue s) = eq_tail (event_queue s)" and st: "consumer_step s = Some s'"
  shows "log_ok es s'"
proof -
  let ?flush = "200 < Suc (idle_cycles s) \<and> writes s \<noteq> 0"
  have s': "s' = (if ?flush then s\<lparr>log_file := log_file s @ take (writes s) (wait_buffer s), writes := 0, idle_cycles := 0\<rparr>
      else s\<lparr>idle_cycles := Suc (idle_cycles s)\<rparr>)"
    using st c by (auto simp: consumer_step_def flushtofile_def Let_def split: if_split_asm)
  then have "event_queue s' = event_queue s" "prod_at s' = prod_at s" "event s' = event s" "cons_at s' = C_look" using c(1) by simp_all
  then have p: "prod_ok s' = prod_ok s" "queued_events s' = queued_events s" "cons_ok s'" "in_flight s' = []"
    by (simp_all add: prod_ok_def queued_events_def cons_ok_def in_flight_def Let_def split: producer.split)
  have "sizes_ok s'" using ok by (auto simp: s' log_ok_def sizes_ok_def)
  moreover have "in_flight s = []" using c(1) by (simp add: in_flight_def)
  ultimately show ?thesis using ok p unfolding log_ok_def by (simp add: s')
qed

lemma take_ok:
  assumes ok: "log_ok es s" and c: "cons_at s = C_take" and st: "consumer_step s = Some s'"
  shows "log_ok es s'"
proof -
  let ?q = "event_queue s" and ?N = Event_Queue_Size
  have s': "s' = s\<lparr>event_queue := ?q\<lparr>eq_head := (eq_head ?q + 1) mod ?N\<rparr>, cons_at := C_copy (eq_head ?q) 0\<rparr>"
    using st c by (simp add: consumer_step_def upd_queue_def Let_def)
  have sz: "eq_head ?q < ?N" "eq_tail ?q < ?N" "length (eq_list ?q) = ?N" "sizes_ok s" and ne: "eq_head ?q \<noteq> eq_tail ?q"
    using ok c by (simp_all add: log_ok_def sizes_ok_def cons_ok_def Let_def)
  have "in_flight s' @ queued_events s' = in_flight s @ queued_events s"
    using ring_list_deq [OF sz(1,2) ne, of "eq_list ?q"] c by (simp add: s' in_flight_def queued_events_def)
  moreover have "(eq_head ?q + 1) mod ?N \<noteq> (eq_tail ?q + 1) mod ?N" using ne sz(1,2) by (auto simp: ring_succ split: if_splits)
  then have "prod_ok s'" using ok by (cases "prod_at s") (simp_all add: s' log_ok_def prod_ok_def Let_def)
  moreover have "sizes_ok s'" using sz(4) mod_less_divisor [of ?N "eq_head ?q + 1"] sz(1) by (simp add: s' sizes_ok_def)
  moreover have "cons_ok s'" using sz(1) by (simp add: s' cons_ok_def fields_eq_def)
  ultimately show ?thesis using ok unfolding log_ok_def by (simp add: s')
qed

lemma copy_ok:
  assumes ok: "log_ok es s" and c: "cons_at s = C_copy slot k" and st: "consumer_step s = Some s'"
  shows "log_ok es s'"
proof -
  let ?q = "event_queue s"
  define x where "x = copy_field k (eq_list ?q ! slot) (wait_buffer s ! writes s)"
  have sz: "writes s < 10" "length (wait_buffer s) = 100" "sizes_ok s" using ok by (simp_all add: log_ok_def sizes_ok_def)
  have ck: "k < 4" "fields_eq k (wait_buffer s ! writes s) (eq_list ?q ! slot)" using ok c by (simp_all add: log_ok_def cons_ok_def Let_def)
  have s': "s' = s\<lparr>wait_buffer := (wait_buffer s)[writes s := x], cons_at := if k = 3 then C_count else C_copy slot (k + 1)\<rparr>"
    using st c sz(1) by (simp add: consumer_step_def Let_def x_def)
  have f: "fields_eq (Suc k) x (eq_list ?q ! slot)" unfolding x_def by (rule fields_eq_step [OF ck])
  have "in_flight s' = in_flight s"
  proof (cases "k = 3")
    case True
    with f have "x = eq_list ?q ! slot" by (intro fields_eq_all) simp
    with True show ?thesis using c sz by (simp add: s' in_flight_def)
  qed (simp add: s' in_flight_def c)
  moreover have "cons_ok s'" using ok c f sz ck(1) by (simp add: s' log_ok_def cons_ok_def Let_def)
  moreover have "prod_ok s' = prod_ok s" "queued_events s' = queued_events s" "take (writes s') (wait_buffer s') = take (writes s) (wait_buffer s)"
    by (simp_all add: s' prod_ok_def queued_events_def Let_def split: producer.split)
  moreover have "sizes_ok s'" using sz(3) by (simp add: s' sizes_ok_def)
  ultimately show ?thesis using ok unfolding log_ok_def by (simp add: s')
qed

lemma count_ok:
  assumes ok: "log_ok es s" and c: "cons_at s = C_count" and st: "consumer_step s = Some s'"
  shows "log_ok es s'"
proof -
  have sz: "writes s < 10" "length (wait_buffer s) = 100" using ok by (simp_all add: log_ok_def sizes_ok_def)
  have s': "s' = (if 9 \<le> writes s then s\<lparr>log_file := log_file s @ take (Suc (writes s)) (wait_buffer s), writes := 0, idle_cycles := 0, cons_at := C_look\<rparr>
      else s\<lparr>writes := Suc (writes s), idle_cycles := 0, cons_at := C_look\<rparr>)"
    using st c by (simp add: consumer_step_def flushtofile_def Let_def split: if_split_asm)
  have t: "take (Suc (writes s)) (wait_buffer s) = take (writes s) (wait_buffer s) @ [wait_buffer s ! writes s]"
    by (rule take_Suc_conv_app_nth) (use sz in simp)
  have p: "prod_ok s' = prod_ok s" "queued_events s' = queued_events s"
    by (simp_all add: s' prod_ok_def queued_events_def Let_def split: producer.split)
  have "sizes_ok s'" using ok by (simp add: s' log_ok_def sizes_ok_def)
  with p show ?thesis using ok c t unfolding log_ok_def by (simp add: s' in_flight_def cons_ok_def)
qed

lemma consumer_ok:
  assumes ok: "log_ok es s" obtains s' where "consumer_step s = Some s'" "log_ok es s'"
proof -
  have "writes s < 100" using ok by (simp add: log_ok_def sizes_ok_def)
  then have "consumer_step s \<noteq> None" by (simp add: consumer_step_def Let_def split: consumer.split)
  then obtain s' where s': "consumer_step s = Some s'" by blast
  have "log_ok es s'"
  proof (cases "cons_at s")
    case C_look
    show ?thesis
    proof (cases "eq_head (event_queue s) = eq_tail (event_queue s)")
      case False
      with s' C_look have e: "s' = s\<lparr>cons_at := C_take\<rparr>" by (simp add: consumer_step_def Let_def)
      have "sizes_ok s' = sizes_ok s" "prod_ok s' = prod_ok s" "queued_events s' = queued_events s" "in_flight s' = in_flight s" "cons_ok s'"
        using False C_look by (simp_all add: e sizes_ok_def prod_ok_def queued_events_def in_flight_def cons_ok_def Let_def split: producer.split)
      then show ?thesis using ok unfolding log_ok_def by (simp add: e)
    qed (use look_idle_ok [OF ok C_look _ s'] in simp)
  next
    case C_take
    then show ?thesis using take_ok [OF ok _ s'] by simp
  next
    case (C_copy slot k)
    then show ?thesis using copy_ok [OF ok _ s'] by simp
  next
    case C_count
    then show ?thesis using count_ok [OF ok _ s'] by simp
  qed
  with s' show thesis by (rule that)
qed

lemma run_log_ok: "log_run s0 es s \<Longrightarrow> log_ok [] s0 \<Longrightarrow> log_ok es s"
proof (induction rule: log_run.induct)
  case (log_write es s daddr data sz tick s')
  then show ?case using write_ok by blast
next
  case (log_device es s)
  then show ?case using producer_ok by blast
next
  case (log_writer es s s')
  then show ?case by (metis consumer_ok option.inject)
qed simp

section \<open>The writer catches up\<close>

text \<open>The steps left for the writer alone: those of the events, then the wait before the last flush.\<close>

definition events_left :: "log_st \<Rightarrow> nat" where
  "events_left s = 7 * length (queued_events s) +
     (case cons_at s of C_look \<Rightarrow> 1 | C_take \<Rightarrow> 0 | C_copy slot k \<Rightarrow> 6 - k | C_count \<Rightarrow> 2)"

definition log_left :: "log_st \<Rightarrow> nat" where
  "log_left s = 300 * events_left s + (if writes s = 0 then 0 else 250 - idle_cycles s)"

definition log_done :: "log_st \<Rightarrow> bool" where
  "log_done s \<longleftrightarrow> cons_at s = C_look \<and> queued_events s = [] \<and> writes s = 0"

lemma queued_empty: "log_ok es s \<Longrightarrow> queued_events s = [] \<longleftrightarrow> eq_head (event_queue s) = eq_tail (event_queue s)"
  unfolding queued_events_def by (rule ring_list_empty) (simp_all add: log_ok_def sizes_ok_def)

lemma writer_progress:
  assumes ok: "log_ok es s" and nd: "\<not> log_done s" and st: "consumer_step s = Some s'"
  shows "log_left s' < log_left s \<and> prod_at s' = prod_at s"
proof (cases "cons_at s")
  case C_look
  show ?thesis
  proof (cases "eq_head (event_queue s) = eq_tail (event_queue s)")
    case True
    then have w: "writes s \<noteq> 0" using nd C_look queued_empty [OF ok] by (simp add: log_done_def)
    then have i: "idle_cycles s \<le> 200" using ok by (simp add: log_ok_def sizes_ok_def)
    let ?flush = "200 < Suc (idle_cycles s) \<and> writes s \<noteq> 0"
    have s': "s' = (if ?flush then s\<lparr>log_file := log_file s @ take (writes s) (wait_buffer s), writes := 0, idle_cycles := 0\<rparr>
        else s\<lparr>idle_cycles := Suc (idle_cycles s)\<rparr>)"
      using st C_look True by (auto simp: consumer_step_def flushtofile_def Let_def split: if_split_asm)
    then have "events_left s' = events_left s" using C_look by (simp add: events_left_def queued_events_def)
    then show ?thesis using w i by (simp add: log_left_def s') arith
  next
    case False
    then have s': "s' = s\<lparr>cons_at := C_take\<rparr>" using st C_look by (simp add: consumer_step_def Let_def)
    have "events_left s' < events_left s" using C_look by (simp add: s' events_left_def queued_events_def)
    then show ?thesis by (simp add: log_left_def s')
  qed
next
  case C_take
  let ?q = "event_queue s"
  have s': "s' = s\<lparr>event_queue := ?q\<lparr>eq_head := (eq_head ?q + 1) mod Event_Queue_Size\<rparr>, cons_at := C_copy (eq_head ?q) 0\<rparr>"
    using st C_take by (simp add: consumer_step_def upd_queue_def Let_def)
  have "eq_head ?q < Event_Queue_Size" "eq_tail ?q < Event_Queue_Size" "eq_head ?q \<noteq> eq_tail ?q"
    using ok C_take by (simp_all add: log_ok_def sizes_ok_def cons_ok_def Let_def)
  from ring_list_deq [OF this, of "eq_list ?q"] have "length (queued_events s) = Suc (length (queued_events s'))"
    by (simp add: s' queued_events_def)
  then have "events_left s' < events_left s" using C_take by (simp add: s' events_left_def)
  then show ?thesis by (simp add: log_left_def s')
next
  case (C_copy slot k)
  have k: "k < 4" using ok C_copy by (simp add: log_ok_def cons_ok_def Let_def)
  have "writes s < 100" using ok by (simp add: log_ok_def sizes_ok_def)
  then obtain wb where s': "s' = s\<lparr>wait_buffer := wb, cons_at := if k = 3 then C_count else C_copy slot (k + 1)\<rparr>"
    using st C_copy by (auto simp: consumer_step_def Let_def)
  have "events_left s' < events_left s" using C_copy k by (simp add: s' events_left_def queued_events_def) arith
  then show ?thesis by (simp add: log_left_def s')
next
  case C_count
  then have s': "s' = (if 9 \<le> writes s then s\<lparr>log_file := log_file s @ take (Suc (writes s)) (wait_buffer s), writes := 0, idle_cycles := 0, cons_at := C_look\<rparr>
      else s\<lparr>writes := Suc (writes s), idle_cycles := 0, cons_at := C_look\<rparr>)"
    using st by (simp add: consumer_step_def flushtofile_def Let_def split: if_split_asm)
  then have "events_left s = Suc (events_left s')" using C_count by (simp add: events_left_def queued_events_def)
  then show ?thesis by (simp add: log_left_def s')
qed

text \<open>\<open>n\<close> steps of the writer.\<close>

fun writer_steps :: "nat \<Rightarrow> log_st \<Rightarrow> log_st option" where
  "writer_steps 0 s = Some s"
| "writer_steps (Suc n) s = consumer_step s \<bind> writer_steps n"

lemma writer_finishes:
  "log_ok es s \<Longrightarrow> \<exists>n s'. n \<le> log_left s \<and> writer_steps n s = Some s' \<and> log_ok es s' \<and> log_done s'"
proof (induction "log_left s" arbitrary: s rule: less_induct)
  case less
  show ?case
  proof (cases "log_done s")
    case True
    then show ?thesis using less.prems by (intro exI [of _ 0] exI [of _ s]) simp
  next
    case False
    obtain s1 where s1: "consumer_step s = Some s1" "log_ok es s1" by (rule consumer_ok [OF less.prems])
    from writer_progress [OF less.prems False s1(1)] have l: "log_left s1 < log_left s" by simp
    from less.hyps [OF this s1(2)] obtain n s' where "n \<le> log_left s1" "writer_steps n s1 = Some s'" "log_ok es s'" "log_done s'" by blast
    with s1(1) l show ?thesis by (intro exI [of _ "Suc n"] exI [of _ s']) simp
  qed
qed

lemma log_ok_init:
  assumes "length ev = 8" "length lst = Event_Queue_Size" "length wb = 100" shows "log_ok [] (log_init ev lst wb)"
proof -
  have n: "0 < Event_Queue_Size" by (simp add: Event_Queue_Size_def)
  then have "ring_list lst Event_Queue_Size 0 0 = []" by (simp add: ring_list_empty)
  with assms n show ?thesis
    by (simp add: log_ok_def sizes_ok_def prod_ok_def cons_ok_def in_flight_def queued_events_def log_init_def)
qed

text \<open>What becomes of the log writes of the firmware: only source 0 (the one in use) and source 1 have an event of their own.\<close>

lemma log_event_cores:
  "core_of (LOG_EVENT_addr 0) = 0" "core_of (LOG_EVENT_addr 1) = 4" "core_of (LOG_EVENT_addr 2) = 8" "2 < src \<Longrightarrow> core_of (LOG_EVENT_addr src) = 0"
  by (simp_all add: core_of_def LOG_EVENT_addr_def sizeof_event_t_def Let_def)

lemma log_event_overflow: "stats_write (LOG_EVENT_addr 2) data 4 tick s = None"
  using log_event_cores(3) by (simp add: stats_write_def Let_def)

text \<open>A write to another field of an event changes the code of another event, or leaves the array.\<close>

lemma log_field_astray:
  "stats_write 4 data 4 tick s = Some (s\<lparr>event := put_code 4 4 data (event s)\<rparr>)" "stats_write 12 data 4 tick s = None"
  by (simp_all add: stats_write_def core_of_def sizeof_event_t_def pkt_value_def Let_def)

section \<open>The properties\<close>

definition log_demo :: log_st where
  "log_demo = (let z = \<lparr>event_code = 0, event_cycle = 0, longs_0 = 0, longs_1 = 0\<rparr> in
     log_init (replicate 8 z) (replicate Event_Queue_Size z) (replicate 100 z))"

lemma put_low_word: "put_low 4 v old = v"
  by (rule bit_word_eqI) (auto simp: put_low_def bit_simps)

lemma device_step:
  assumes "log_run s0 es s" "prod_at s = pc" "\<nexists>c. pc = P_advance c"
  shows "log_run s0 es (producer_step s)"
  using log_device [OF assms(1)] assms(2,3) by (cases pc) (simp_all add: published_def)

lemma device_enqueues:
  assumes r: "log_run s0 es s" and p: "prod_at s = P_check c" and room: "eq_head (event_queue s) \<noteq> (eq_tail (event_queue s) + 1) mod Event_Queue_Size"
  shows "\<exists>s'. log_run s0 (es @ [event s ! c]) s'"
proof -
  let ?s1 = "producer_step s"
  have s1: "log_run s0 es ?s1" "prod_at ?s1 = P_store c 0" "event ?s1 = event s"
    using device_step [OF r p] p room by (simp_all add: producer_step_def Let_def)
  have st: "log_run s0 es (producer_step t) \<and> prod_at (producer_step t) = (if k = 3 then P_advance c else P_store c (k + 1)) \<and> event (producer_step t) = event t"
    if "log_run s0 es t" "prod_at t = P_store c k" for t k
    using device_step [OF that] that(2) by (simp add: producer_step_def upd_queue_def Let_def)
  let ?s5 = "producer_step (producer_step (producer_step (producer_step ?s1)))"
  have "log_run s0 es ?s5 \<and> prod_at ?s5 = P_advance c \<and> event ?s5 = event s"
    using s1 st [of ?s1 0] st [of "producer_step ?s1" 1] st [of "producer_step (producer_step ?s1)" 2]
      st [of "producer_step (producer_step (producer_step ?s1))" 3] by simp
  with log_device [of s0 es ?s5] show ?thesis by (auto simp: published_def)
qed

lemma log_demo_run: "\<exists>s. log_run log_demo [\<lparr>event_code = 100, event_cycle = 77, longs_0 = 0, longs_1 = 0\<rparr>] s"
proof -
  let ?e = "\<lparr>event_code = 100, event_cycle = 77, longs_0 = 0, longs_1 = 0\<rparr>"
  have ev: "event log_demo = replicate 8 \<lparr>event_code = 0, event_cycle = 0, longs_0 = 0, longs_1 = 0\<rparr>" by (simp add: log_demo_def Let_def log_init_def)
  obtain s where s: "stats_write (LOG_EVENT_addr 0) 100 4 77 log_demo = Some s" "prod_at s = P_check 0" "event s ! 0 = ?e"
      "event_queue s = event_queue log_demo"
    by (simp add: stats_write_def Let_def core_of_def LOG_EVENT_addr_def sizeof_event_t_def pkt_value_def put_code_def put_low_word ev)
  have "eq_head (event_queue s) \<noteq> (eq_tail (event_queue s) + 1) mod Event_Queue_Size"
    by (simp add: s(4) log_demo_def Let_def log_init_def Event_Queue_Size_def)
  from device_enqueues [OF log_write [OF log_start _ s(1)] s(2) this] s(3) show ?thesis by (simp add: log_demo_def Let_def log_init_def)
qed

text \<open>
  C27. The unlocked queue between the device and the writer thread is safe: whatever the interleaving of their
  accesses, the events in the file, then those buffered, the one the writer is copying (read from a slot it has
  already given back) and those in the queue are exactly the events the device has queued, in their order and whole.
\<close>

theorem event_log_in_order:
  assumes "log_run (log_init ev lst wb) es s" "length ev = 8" "length lst = Event_Queue_Size" "length wb = 100"
  shows "es = log_file s @ take (writes s) (wait_buffer s) @ in_flight s @ queued_events s \<and> writes s < 10 \<and> consumer_step s \<noteq> None"
proof -
  have "log_ok es s" using run_log_ok [OF assms(1) log_ok_init [OF assms(2-4)]] .
  then show ?thesis using consumer_ok [of es s] by (auto simp: log_ok_def sizes_ok_def)
qed

theorem event_log_in_order_witness:
  "\<exists>s. log_run log_demo [\<lparr>event_code = 100, event_cycle = 77, longs_0 = 0, longs_1 = 0\<rparr>] s \<and>
     [\<lparr>event_code = 100, event_cycle = 77, longs_0 = 0, longs_1 = 0\<rparr>] = log_file s @ take (writes s) (wait_buffer s) @ in_flight s @ queued_events s"
proof -
  obtain s where s: "log_run log_demo [\<lparr>event_code = 100, event_cycle = 77, longs_0 = 0, longs_1 = 0\<rparr>] s" using log_demo_run by blast
  from event_log_in_order [OF s [unfolded log_demo_def Let_def]] s show ?thesis by auto
qed

text \<open>
  C28. No queued event is held back: from any state of any run the writer alone, in a bounded number of steps,
  has written every event queued so far to the file; the buffer is flushed although it is not full.
\<close>

theorem event_log_drains:
  assumes "log_run (log_init ev lst wb) es s" "length ev = 8" "length lst = Event_Queue_Size" "length wb = 100"
  shows "\<exists>n \<le> log_left s. \<exists>s'. writer_steps n s = Some s' \<and> log_file s' = es"
proof -
  have "log_ok es s" using run_log_ok [OF assms(1) log_ok_init [OF assms(2-4)]] .
  from writer_finishes [OF this] obtain n s' where n: "n \<le> log_left s" "writer_steps n s = Some s'" "log_ok es s'" "log_done s'" by blast
  have "log_file s' = es" using n(3,4) by (simp add: log_ok_def log_done_def in_flight_def)
  with n show ?thesis by blast
qed

theorem event_log_drains_witness:
  "\<exists>s n s'. log_run log_demo [\<lparr>event_code = 100, event_cycle = 77, longs_0 = 0, longs_1 = 0\<rparr>] s \<and> writer_steps n s = Some s' \<and>
     log_file s' = [\<lparr>event_code = 100, event_cycle = 77, longs_0 = 0, longs_1 = 0\<rparr>]"
proof -
  obtain s where s: "log_run log_demo [\<lparr>event_code = 100, event_cycle = 77, longs_0 = 0, longs_1 = 0\<rparr>] s" using log_demo_run by blast
  from event_log_drains [OF s [unfolded log_demo_def Let_def]] s show ?thesis by auto
qed

end
