(* ===== verification/Prp_Chain.thy ===== *)
theory Prp_Chain
  imports Nvme_Prp
begin

text \<open>
  PRP lists of any length: the last entry of a list page links to the next list page when more than one page of data
  is left. The scatter list of a DMA object may have any size here; the requests of the driver have \<open>MDTS_PAGES\<close>
  entries, for which one list page is enough.
\<close>

section \<open>The pages of a command in the standard\<close>

text \<open>
  \<open>a\<close> is the host address of the next entry and \<open>r\<close> the number of bytes left. An entry at the end of its page is a link
  when more than one page is left; the data page is then the first entry of the page it names.
\<close>

definition is_link :: "nat \<Rightarrow> nat \<Rightarrow> nat \<Rightarrow> bool" where
  "is_link pg a r \<longleftrightarrow> a mod pg + 8 = pg \<and> pg < r"

definition data_entry :: "nat \<Rightarrow> mem \<Rightarrow> nat \<Rightarrow> nat \<Rightarrow> nat" where
  "data_entry pg hm a r = (if is_link pg a r then unat (load64 hm a) else a)"

function list_pieces :: "nat \<Rightarrow> mem \<Rightarrow> nat \<Rightarrow> nat \<Rightarrow> (nat \<times> nat) list" where
  "list_pieces pg hm a r =
     (if pg = 0 \<or> r = 0 then []
      else (unat (load64 hm (data_entry pg hm a r)), min pg r) # list_pieces pg hm (data_entry pg hm a r + 8) (r - min pg r))"
  by pat_completeness auto
termination by (relation "measure (\<lambda>(pg, hm, a, r). r)") auto

declare list_pieces.simps [simp del]

text \<open>All entries that are followed name a page: they are not null and aligned.\<close>

function list_valid :: "u32 \<Rightarrow> mem \<Rightarrow> nat \<Rightarrow> nat \<Rightarrow> bool" where
  "list_valid pgsz hm a r \<longleftrightarrow>
     (if unat pgsz = 0 \<or> r = 0 then True
      else (is_link (unat pgsz) a r \<longrightarrow> \<not> bad_prp pgsz (load64 hm a)) \<and>
        \<not> bad_prp pgsz (load64 hm (data_entry (unat pgsz) hm a r)) \<and>
        list_valid pgsz hm (data_entry (unat pgsz) hm a r + 8) (r - min (unat pgsz) r))"
  by pat_completeness auto
termination by (relation "measure (\<lambda>(pgsz, hm, a, r). r)") auto

declare list_valid.simps [simp del]

definition std_pieces :: "nat \<Rightarrow> u64 \<Rightarrow> u64 \<Rightarrow> mem \<Rightarrow> nat \<Rightarrow> (nat \<times> nat) list" where
  "std_pieces pg p1 p2 hm n =
     (let first = prp_first pg (unat p1) n; rest = n - first in
      (unat p1, first) # (if rest = 0 then [] else if rest \<le> pg then [(unat p2, rest)] else list_pieces pg hm (unat p2) rest))"

text \<open>
  PRP fields for \<open>n\<close> bytes and a scatter list of \<open>cap\<close> entries. The first list page may start at an offset only when it
  does not reach the end of its page: \<open>decode_prp\<close> counts the entries of every list page from its start.
\<close>

definition std_valid :: "u32 \<Rightarrow> u64 \<Rightarrow> u64 \<Rightarrow> mem \<Rightarrow> nat \<Rightarrow> nat \<Rightarrow> bool" where
  "std_valid pgsz p1 p2 hm n cap \<longleftrightarrow>
     (let pg = unat pgsz; rest = n - prp_first pg (unat p1) n in
      p1 \<noteq> 0 \<and> (0 < rest \<longrightarrow> p2 \<noteq> 0) \<and> (0 < rest \<and> rest \<le> pg \<longrightarrow> p2 AND ucast (pgsz - 1) = 0) \<and>
      (pg < rest \<longrightarrow> list_valid pgsz hm (unat p2) rest \<and> (unat p2 mod pg = 0 \<or> unat p2 mod pg + 8 * npages pg rest \<le> pg)) \<and>
      1 + npages pg rest \<le> cap)"

lemma list_pieces_rec:
  "0 < pg \<Longrightarrow> 0 < r \<Longrightarrow> list_pieces pg hm a r =
     (unat (load64 hm (data_entry pg hm a r)), min pg r) # list_pieces pg hm (data_entry pg hm a r + 8) (r - min pg r)"
  by (subst list_pieces.simps) simp

lemma list_pieces_0 [simp]: "list_pieces pg hm a 0 = []"
  by (simp add: list_pieces.simps)

lemma list_valid_rec:
  "list_valid pgsz hm a r \<Longrightarrow> 0 < unat pgsz \<Longrightarrow> 0 < r \<Longrightarrow>
     (is_link (unat pgsz) a r \<longrightarrow> \<not> bad_prp pgsz (load64 hm a)) \<and> \<not> bad_prp pgsz (load64 hm (data_entry (unat pgsz) hm a r)) \<and>
     list_valid pgsz hm (data_entry (unat pgsz) hm a r + 8) (r - min (unat pgsz) r)"
  by (subst (asm) list_valid.simps) simp

lemma nbytes_list_pieces: "0 < pg \<Longrightarrow> nbytes (list_pieces pg hm a r) = r"
proof (induction pg hm a r rule: list_pieces.induct)
  case (1 pg hm a r)
  then show ?case by (subst list_pieces.simps) simp
qed

lemma nbytes_std: "0 < pg \<Longrightarrow> nbytes (std_pieces pg p1 p2 hm n) = n"
  by (simp add: std_pieces_def Let_def prp_first_def nbytes_list_pieces)

lemma list_pieces_in_page: "(e, n) \<in> set (list_pieces pg hm a r) \<Longrightarrow> 0 < n \<and> n \<le> pg"
  by (induction pg hm a r rule: list_pieces.induct) (subst (asm) (2) list_pieces.simps, auto split: if_splits)

section \<open>The loop\<close>

text \<open>Alignment of an address to a page whose size is a power of two.\<close>

lemma aligned_mod:
  assumes "b \<le> 16" "pgsz = 2 ^ b" "(e :: u64) AND ucast (pgsz - 1 :: u32) = 0"
  shows "unat e mod 2 ^ b = 0"
proof -
  have "ucast (2 ^ b - 1 :: u32) = (mask b :: u64)"
    using assms(1) by (intro bit_word_eqI) (auto simp: bit_simps mask_eq_exp_minus_1 [symmetric])
  then have "take_bit b e = 0" using assms(2,3) by (simp add: take_bit_eq_mask)
  then have "take_bit b (unat e) = 0" by (metis unsigned_take_bit_eq unat_0)
  then show ?thesis by (simp add: take_bit_eq_mod)
qed

lemma prp_list_bytes_min:
  assumes "12 \<le> b" "b \<le> 16" "hostPageBits s = of_nat b" "hostMemPageSize s = 2 ^ b" "maxPrpEntries s = 2 ^ (b - 3)"
    and "npages (2 ^ b) (unat len) \<le> 2 ^ 15"
  shows "unat (prp_list_bytes s len) = 8 * min (2 ^ (b - 3)) (npages (2 ^ b) (unat len))"
proof -
  have b16: "2 ^ b \<le> (2 ^ 16 :: nat)" using assms(2) by (rule power_increasing) simp
  have b1: "(1 :: nat) \<le> 2 ^ b" by simp
  have "unat len \<le> 2 ^ 15 * 2 ^ b" using assms(6) npages_le_iff [of "2 ^ b" "unat len" "2 ^ 15"] by simp
  also have "\<dots> \<le> 2 ^ 15 * 2 ^ 16" using b16 by (rule mult_le_mono2)
  finally have len: "unat len \<le> 2 ^ 31" by simp
  have pg: "unat (2 ^ b :: u32) = 2 ^ b" using assms(2) by (rule page_size_nat)
  have add: "unat (len + 2 ^ b) = unat len + 2 ^ b" using len b16 pg by (simp add: unat_word_ariths)
  moreover have "len + 2 ^ b \<noteq> 0" using add b1 by (metis add_is_0 not_one_le_zero unat_0)
  ultimately have sub: "unat (len + 2 ^ b - 1) = unat len + 2 ^ b - 1" by (simp add: unat_minus_one)
  have bb: "unat (of_nat b :: u32) = b" using assms(2) by (simp add: unat_of_nat)
  have drop: "unat (drop_bit b (len + 2 ^ b - 1)) = npages (2 ^ b) (unat len)"
    using sub pg by (simp add: drop_bit_eq_div unat_div npages_def)
  have mx: "unat (2 ^ (b - 3) :: u32) = 2 ^ (b - 3)" using assms(2) by (intro page_size_nat) simp
  have "unat (min (maxPrpEntries s) (drop_bit b (len + 2 ^ b - 1))) = min (2 ^ (b - 3)) (npages (2 ^ b) (unat len))"
    using assms(5) drop mx by (simp add: min_unat)
  moreover have "2 ^ (b - 3) \<le> (2 ^ 13 :: nat)" using assms(2) by (intro power_increasing) auto
  ultimately show ?thesis using assms(3,4) bb by (simp add: prp_list_bytes_def unat_word_ariths)
qed

text \<open>
  The state of the loop: \<open>base\<close> is the host address of the list page in the buffer, whose entries from \<open>i\<close> on are there;
  either it is a whole page, or all entries that are left fit behind its offset.
\<close>

definition list_loaded :: "nat \<Rightarrow> nat \<Rightarrow> nat \<Rightarrow> nat \<Rightarrow> mem \<Rightarrow> 'a nvme_st_scheme \<Rightarrow> bool" where
  "list_loaded pg base i r hm s \<longleftrightarrow> (r \<noteq> 0 \<longrightarrow> i < pg div 8) \<and>
     (base mod pg = 0 \<or> base mod pg + 8 * (i + npages pg r) \<le> pg) \<and>
     (\<forall>k. i \<le> k \<and> k < min (pg div 8) (i + npages pg r) \<longrightarrow> prp_entry s k = load64 hm (base + 8 * k))"

lemma page_div_8: "12 \<le> b \<Longrightarrow> 2 ^ b div 8 = (2 ^ (b - 3) :: nat) \<and> 8 * 2 ^ (b - 3) = (2 ^ b :: nat)"
proof -
  assume "12 \<le> b"
  then have "2 ^ b = 2 ^ (b - 3) * (2 ^ 3 :: nat)" by (subst power_add [symmetric]) simp
  then show ?thesis by simp
qed

text \<open>The test of the code for the last entry is the one of the standard.\<close>

lemma link_index:
  assumes "list_loaded pg base i r hm s" "0 < r" "8 dvd pg" "8 < pg"
  shows "is_link pg (base + 8 * i) r \<longleftrightarrow> i = pg div 8 - 1 \<and> pg < r"
proof -
  obtain m where m: "pg = 8 * m" using assms(3) by (elim dvdE)
  have i: "i < m" using assms(1,2) m by (simp add: list_loaded_def)
  have np: "0 < npages pg r" using npages_rec [of pg r] assms(2,4) by simp
  show ?thesis
  proof (cases "base mod pg = 0")
    case True
    have "(base + 8 * i) mod pg = (base mod pg + 8 * i) mod pg" by (rule mod_add_left_eq [symmetric])
    also have "\<dots> = 8 * i" using True i m by simp
    finally show ?thesis using i m by (auto simp: is_link_def)
  next
    case False
    define x n where "x = base mod pg" and "n = npages pg r"
    have fit: "x + 8 * (i + n) \<le> pg" using False assms(1) by (simp add: list_loaded_def x_def n_def)
    have n1: "0 < n" using np by (simp add: n_def)
    have "x + 8 * i < pg" using fit n1 by simp
    then have e: "(base + 8 * i) mod pg = x + 8 * i" unfolding x_def by (metis mod_add_left_eq mod_less)
    have one: "n = 1" if "x + 8 * i + 8 = pg" using fit n1 that by simp
    have "r \<le> pg" if "x + 8 * i + 8 = pg" using npages_le_iff [of pg r 1] one [OF that] assms(4) by (simp add: n_def)
    then have "\<not> is_link pg (base + 8 * i) r" by (auto simp: is_link_def e)
    moreover have "\<not> (i = pg div 8 - 1 \<and> pg < r)"
    proof
      assume "i = pg div 8 - 1 \<and> pg < r"
      then have "8 * (i + 1) = pg" using m i by simp
      then show False using fit n1 False by (simp add: x_def)
    qed
    ultimately show ?thesis by simp
  qed
qed

lemma list_loaded_next:
  assumes "list_loaded pg base i r hm s" "pg < r \<longrightarrow> i + 1 < pg div 8" "0 < pg" "0 < r"
  shows "list_loaded pg base (i + 1) (r - min pg r) hm s"
  using assms npages_rec [of pg r] by (auto simp: list_loaded_def)

lemma drv_frame_refl: "drv_ok s \<Longrightarrow> drv_frame s (ram s) (host s) (queues s) (prp_dma s)"
  by (simp add: drv_frame_def drv_ok_def qs_step_def link_frame_def)

lemma drv_frame_trans:
  assumes "drv_frame s m h qs x" "drv_frame (s\<lparr>ram := m, host := h, queues := qs, prp_dma := x\<rparr>) m' h' qs' x'"
  shows "drv_frame s m' h' qs' x'"
  using assms by (auto simp: drv_frame_def intro: qs_step_trans link_frame_trans)

text \<open>The host page of a driver, as a power of two.\<close>

definition host_page :: "'a nvme_st_scheme \<Rightarrow> nat \<Rightarrow> bool" where
  "host_page s b \<longleftrightarrow> 12 \<le> b \<and> b \<le> 16 \<and> hostPageBits s = of_nat b \<and> hostMemPageSize s = 2 ^ b \<and> maxPrpEntries s = 2 ^ (b - 3)"

lemma drv_ok_page: "drv_ok s \<Longrightarrow> \<exists>b. host_page s b"
  by (auto simp: drv_ok_def host_page_def)

lemma host_page_nat: "host_page s b \<Longrightarrow> unat (hostMemPageSize s) = 2 ^ b"
  by (simp add: host_page_def page_size_nat)

lemma fetch_list:
  fixes s :: "'a nvme_st_scheme"
  assumes "drv_ok s" "host_page s b" "0 < unat len" "npages (2 ^ b) (unat len) \<le> 2 ^ 15"
    and "8 * min (2 ^ (b - 3)) (npages (2 ^ b) (unat len)) \<le> PrpListSize"
    and "unat e mod 2 ^ b = 0 \<or> unat e mod 2 ^ b + 8 * npages (2 ^ b) (unat len) \<le> 2 ^ b"
  shows "\<exists>m h qs x. get_prp_page e (prp_list s) (prp_list_bytes s len) s = Some (s\<lparr>ram := m, host := h, queues := qs, prp_dma := x\<rparr>) \<and>
      drv_frame s m h qs x \<and>
      list_loaded (2 ^ b) (unat e) 0 (unat len) (host_mem (host s)) (s\<lparr>ram := m, host := h, queues := qs, prp_dma := x\<rparr>)"
proof -
  have hp: "12 \<le> b" "b \<le> 16" "hostPageBits s = of_nat b" "hostMemPageSize s = 2 ^ b" "maxPrpEntries s = 2 ^ (b - 3)"
    using assms(2) by (simp_all add: host_page_def)
  define n where "n = min (2 ^ (b - 3)) (npages (2 ^ b) (unat len))"
  note bytes = prp_list_bytes_min [OF hp assms(4), folded n_def]
  have pg8: "2 ^ b div 8 = (2 ^ (b - 3) :: nat)" using page_div_8 hp(1) by blast
  have "0 < npages (2 ^ b) (unat len)" using npages_rec [of "2 ^ b" "unat len"] assms(3) by simp
  then have "0 < n" by (simp add: n_def)
  with get_prp_page_ok [OF assms(1), of "prp_list_bytes s len" e] assms(5) bytes obtain qs h x where
    g: "get_prp_page e (prp_list s) (prp_list_bytes s len) s = Some (s\<lparr>ram := put_bytes (8 * n) (prp_list s)
          (\<lambda>j. host_mem (host s) (unat e + j)) (ram s), host := h, queues := qs, prp_dma := x\<rparr>)"
      "qs_step (queues s) qs" "link_frame (host s) h" "host_mem h = host_mem (host s)" "host_irqs h = host_irqs (host s)" "prp_dma_ok x"
    by (auto simp: n_def)
  define m where "m = put_bytes (8 * n) (prp_list s) (\<lambda>j. host_mem (host s) (unat e + j)) (ram s)"
  have "drv_frame s m h qs x" using g(2-6) assms(5) by (auto simp: drv_frame_def m_def put_bytes_def n_def)
  moreover have "load64 m (prp_list s + 8 * k) = load64 (host_mem (host s)) (unat e + 8 * k)" if "k < n" for k
    unfolding m_def using that by (intro load64_put) simp
  ultimately show ?thesis using g(1) assms(6) pg8
    by (intro exI [of _ m] exI [of _ h] exI [of _ qs] exI [of _ x]) (simp add: m_def list_loaded_def prp_entry_def n_def)
qed

text \<open>One round: the entry is the data entry of the standard, read from the list page it is on.\<close>

lemma prp_next_ok:
  fixes s :: "'a nvme_st_scheme"
  defines "hm \<equiv> host_mem (host s)"
  assumes "drv_ok s" "host_page s b" "0 < unat len" "npages (2 ^ b) (unat len) \<le> 2 ^ 15"
    and "8 * min (2 ^ (b - 3)) (npages (2 ^ b) (unat len)) \<le> PrpListSize"
    and "list_loaded (2 ^ b) base i (unat len) hm s" "list_valid (hostMemPageSize s) hm (base + 8 * i) (unat len)"
  shows "\<exists>base' j m h qs x. prp_next i len s = Some (Some (j, load64 hm (base' + 8 * j), s\<lparr>ram := m, host := h, queues := qs, prp_dma := x\<rparr>)) \<and>
      drv_frame s m h qs x \<and> data_entry (2 ^ b) hm (base + 8 * i) (unat len) = base' + 8 * j \<and>
      list_loaded (2 ^ b) base' (j + 1) (unat len - min (2 ^ b) (unat len)) hm (s\<lparr>ram := m, host := h, queues := qs, prp_dma := x\<rparr>)"
proof -
  have hp: "12 \<le> b" "b \<le> 16" "hostMemPageSize s = 2 ^ b" "maxPrpEntries s = 2 ^ (b - 3)" using assms(3) by (simp_all add: host_page_def)
  note pgn = host_page_nat [OF assms(3)] and pg8 = page_div_8 [OF hp(1)]
  have big: "(2 :: nat) ^ 9 \<le> 2 ^ (b - 3)" using hp(1) by (intro power_increasing) auto
  have "b - 3 \<le> 16" using hp(2) by simp
  from page_size_nat [OF this] have mx: "unat (2 ^ (b - 3) :: u32) = 2 ^ (b - 3)" .
  have il: "i < 2 ^ (b - 3)" using assms(4,7) pg8 by (simp add: list_loaded_def)
  have "2 ^ (b - 3) \<le> (2 ^ 13 :: nat)" using hp(2) by (intro power_increasing) auto
  with il have iu: "unat (of_nat i :: u32) = i" by (simp add: unat_of_nat)
  have "(2 :: u32) ^ (b - 3) \<noteq> 0" using mx big by (metis le_zero_eq power_eq_0_iff unat_0 zero_neq_numeral)
  then have "unat (2 ^ (b - 3) - 1 :: u32) = 2 ^ (b - 3) - 1" using mx by (simp add: unat_minus_one)
  then have last: "of_nat i = maxPrpEntries s - 1 \<longleftrightarrow> i = 2 ^ (b - 3) - 1" using iu hp(4) by (metis word_unat_eq_iff)
  have d8: "(8 :: nat) dvd 2 ^ b" using pg8 by (metis dvd_triv_left)
  have "(8 :: nat) < 2 ^ b" using power_strict_increasing [of 3 b "2 :: nat"] hp(1) by simp
  from link_index [OF assms(7,4) d8 this] have link: "is_link (2 ^ b) (base + 8 * i) (unat len) \<longleftrightarrow> i = 2 ^ (b - 3) - 1 \<and> 2 ^ b < unat len"
    using pg8 by simp
  have lt: "hostMemPageSize s < len \<longleftrightarrow> 2 ^ b < unat len" using pgn by (simp add: word_less_nat_alt)
  have guard: "(of_nat i = maxPrpEntries s - 1 \<and> hostMemPageSize s < len) = is_link (2 ^ b) (base + 8 * i) (unat len)"
    unfolding link last lt by (rule refl)
  have "0 < unat (hostMemPageSize s)" using pgn by simp
  note lv = list_valid_rec [OF assms(8) this assms(4), unfolded pgn]
  have np: "0 < npages (2 ^ b) (unat len)" using npages_rec [of "2 ^ b" "unat len"] assms(4) by simp
  then have ent: "prp_entry s i = load64 hm (base + 8 * i)" using assms(7) il pg8 by (simp add: list_loaded_def)
  show ?thesis
  proof (cases "is_link (2 ^ b) (base + 8 * i) (unat len)")
    case False
    then have nx: "prp_next i len s = Some (Some (i, load64 hm (base + 8 * i), s))"
      unfolding prp_next_def Let_def guard using ent by simp
    have "2 ^ b < unat len \<longrightarrow> i + 1 < 2 ^ b div 8" using False link il pg8 by auto
    then have "list_loaded (2 ^ b) base (i + 1) (unat len - min (2 ^ b) (unat len)) hm s"
      using assms(4,7) by (intro list_loaded_next) simp_all
    with nx False drv_frame_refl [OF assms(2)] show ?thesis
      by (intro exI [of _ base] exI [of _ i] exI [of _ "ram s"] exI [of _ "host s"] exI [of _ "queues s"] exI [of _ "prp_dma s"])
        (simp add: data_entry_def)
  next
    case True
    define e where "e = load64 hm (base + 8 * i)"
    have good: "\<not> bad_prp (hostMemPageSize s) e" using lv True by (simp add: e_def)
    then have al: "unat e mod 2 ^ b = 0" using aligned_mod [OF hp(2,3)] by (simp add: bad_prp_def)
    from fetch_list [OF assms(2-6), of e] al obtain m h qs x where
      g: "get_prp_page e (prp_list s) (prp_list_bytes s len) s = Some (s\<lparr>ram := m, host := h, queues := qs, prp_dma := x\<rparr>)"
        "drv_frame s m h qs x"
        "list_loaded (2 ^ b) (unat e) 0 (unat len) hm (s\<lparr>ram := m, host := h, queues := qs, prp_dma := x\<rparr>)"
      unfolding hm_def by blast
    let ?s1 = "s\<lparr>ram := m, host := h, queues := qs, prp_dma := x\<rparr>"
    have e0: "prp_entry ?s1 0 = load64 hm (unat e)" using g(3) np pg8 by (simp add: list_loaded_def)
    have "prp_next i len s = Some (Some (0, load64 hm (unat e), ?s1))"
      unfolding prp_next_def Let_def guard using True ent good g(1) e0 by (simp add: e_def)
    moreover have "list_loaded (2 ^ b) (unat e) (0 + 1) (unat len - min (2 ^ b) (unat len)) hm ?s1"
      using g(3) assms(4) pg8 big by (intro list_loaded_next) simp_all
    ultimately show ?thesis using True g(2)
      by (intro exI [of _ "unat e"] exI [of _ "0 :: nat"] exI [of _ m] exI [of _ h] exI [of _ qs] exI [of _ x])
        (simp add: data_entry_def e_def)
  qed
qed

lemma add_entry_ok:
  assumes "unat (n_ops d) < length (dma_list d)" "length (dma_list d) \<le> 2 ^ 15"
  shows "\<exists>l. add_dma_entry h len d = Some (d\<lparr>dma_list := l, n_ops := n_ops d + 1\<rparr>) \<and> length l = length (dma_list d) \<and>
     unat (n_ops d + 1) = unat (n_ops d) + 1 \<and>
     map piece (take (unat (n_ops d) + 1) l) = map piece (take (unat (n_ops d)) (dma_list d)) @ [(unat h, unat len)]"
proof -
  let ?l = "(dma_list d)[unat (n_ops d) := (dma_list d ! unat (n_ops d))\<lparr>host_p_addr := h, op_len := len\<rparr>]"
  have "unat (n_ops d + 1) = unat (n_ops d) + 1" using assms by (simp add: unat_word_ariths)
  moreover have "map piece (take (unat (n_ops d) + 1) ?l) = map piece (take (unat (n_ops d)) (dma_list d)) @ [(unat h, unat len)]"
    using assms(1) by (simp add: take_Suc_conv_app_nth piece_def)
  ultimately show ?thesis using assms(1) by (intro exI [of _ ?l]) (simp add: add_dma_entry_def Let_def)
qed

text \<open>The bound on the bytes of a list page: the buffer of the driver holds \<open>PrpListSize\<close> bytes.\<close>

definition lists_fit :: "nat \<Rightarrow> nat \<Rightarrow> bool" where
  "lists_fit b r \<longleftrightarrow> npages (2 ^ b) r \<le> 2 ^ 15 \<and> 8 * min (2 ^ (b - 3)) (npages (2 ^ b) r) \<le> PrpListSize"

lemma lists_fit_next: "lists_fit b r \<Longrightarrow> 0 < r \<Longrightarrow> lists_fit b (r - min (2 ^ b) r)"
  using npages_rec [of "2 ^ b" r] by (auto simp: lists_fit_def min_def split: if_splits)

lemma chain_loop_ok:
  fixes s :: "'a nvme_st_scheme"
  assumes "drv_ok s" "host_page s b" "lists_fit b (unat len)" "hm = host_mem (host s)"
    and "list_loaded (2 ^ b) base i (unat len) hm s" "list_valid (hostMemPageSize s) hm (base + 8 * i) (unat len)"
    and "unat (n_ops d) + npages (2 ^ b) (unat len) \<le> length (dma_list d)" "length (dma_list d) \<le> 2 ^ 15"
  shows "\<exists>l n m h qs x. prp_loop i len d s =
       Some (0, d\<lparr>dma_list := l, n_ops := n\<rparr>, s\<lparr>ram := m, host := h, queues := qs, prp_dma := x\<rparr>) \<and>
     drv_frame s m h qs x \<and> length l = length (dma_list d) \<and> unat n = unat (n_ops d) + npages (2 ^ b) (unat len) \<and>
     map piece (take (unat n) l) = map piece (take (unat (n_ops d)) (dma_list d)) @ list_pieces (2 ^ b) hm (base + 8 * i) (unat len)"
  using assms
proof (induction "unat len" arbitrary: i base len d s rule: less_induct)
  case less
  show ?case
  proof (cases "len = 0")
    case True
    with drv_frame_refl [OF less.prems(1)] show ?thesis
      by (intro exI [of _ "dma_list d"] exI [of _ "n_ops d"] exI [of _ "ram s"] exI [of _ "host s"] exI [of _ "queues s"]
          exI [of _ "prp_dma s"]) (subst prp_loop.simps, simp)
  next
    case False
    then have pos: "0 < unat len" by (simp add: unat_gt_0)
    let ?n = "min len (hostMemPageSize s)"
    note pgn = host_page_nat [OF less.prems(2)]
    have n: "unat ?n = min (2 ^ b) (unat len)" by (simp add: min_unat pgn min.commute)
    have sub: "unat (len - ?n) = unat len - min (2 ^ b) (unat len)" using unat_sub [of ?n len] n by simp
    have np: "npages (2 ^ b) (unat len) = Suc (npages (2 ^ b) (unat (len - ?n)))" using npages_rec [of "2 ^ b" "unat len"] pos by (simp add: sub)
    have "npages (2 ^ b) (unat len) \<le> 2 ^ 15" "8 * min (2 ^ (b - 3)) (npages (2 ^ b) (unat len)) \<le> PrpListSize"
      using less.prems(3) by (simp_all add: lists_fit_def)
    from prp_next_ok [OF less.prems(1,2) pos this less.prems(5,6) [unfolded less.prems(4)], folded less.prems(4)]
    obtain base' j m h qs x where
      nx: "prp_next i len s = Some (Some (j, load64 hm (base' + 8 * j), s\<lparr>ram := m, host := h, queues := qs, prp_dma := x\<rparr>))"
        "drv_frame s m h qs x" "data_entry (2 ^ b) hm (base + 8 * i) (unat len) = base' + 8 * j"
        "list_loaded (2 ^ b) base' (j + 1) (unat (len - ?n)) hm (s\<lparr>ram := m, host := h, queues := qs, prp_dma := x\<rparr>)"
      unfolding sub by blast
    define s1 e where "s1 = s\<lparr>ram := m, host := h, queues := qs, prp_dma := x\<rparr>" and "e = load64 hm (base' + 8 * j)"
    have "0 < unat (hostMemPageSize s)" using pgn by simp
    from list_valid_rec [OF less.prems(6) this pos] have "\<not> bad_prp (hostMemPageSize s) e"
      "list_valid (hostMemPageSize s) hm (base' + 8 * j + 8) (unat (len - ?n))"
      by (simp_all add: pgn nx(3) sub e_def)
    then have lv: "\<not> bad_prp (hostMemPageSize s) e" "list_valid (hostMemPageSize s) hm (base' + 8 * (j + 1)) (unat (len - ?n))"
      by (simp_all add: ac_simps)
    have "unat (n_ops d) < length (dma_list d)" using less.prems(7) np by simp
    from add_entry_ok [OF this less.prems(8), of e ?n] obtain l1 where
      l1: "add_dma_entry e ?n d = Some (d\<lparr>dma_list := l1, n_ops := n_ops d + 1\<rparr>)" "length l1 = length (dma_list d)"
        "unat (n_ops d + 1) = unat (n_ops d) + 1"
        "map piece (take (unat (n_ops d) + 1) l1) = map piece (take (unat (n_ops d)) (dma_list d)) @ [(unat e, unat ?n)]" by blast
    define d1 where "d1 = d\<lparr>dma_list := l1, n_ops := n_ops d + 1\<rparr>"
    have d1: "dma_list d1 = l1" "n_ops d1 = n_ops d + 1" by (simp_all add: d1_def)
    have s1: "host_page s1 b" "hm = host_mem (host s1)" "hostMemPageSize s1 = hostMemPageSize s"
      using less.prems(2,4) nx(2) by (simp_all add: s1_def host_page_def drv_frame_def)
    have "drv_ok s1" unfolding s1_def by (rule drv_ok_step [OF less.prems(1) nx(2)])
    moreover have "lists_fit b (unat (len - ?n))" unfolding sub using less.prems(3) pos by (rule lists_fit_next)
    moreover have "unat (len - ?n) < unat len" using pos by (simp add: sub)
    ultimately obtain l k m' h' qs' x' where
      ih: "prp_loop (j + 1) (len - ?n) d1 s1 = Some (0, d1\<lparr>dma_list := l, n_ops := k\<rparr>, s1\<lparr>ram := m', host := h', queues := qs', prp_dma := x'\<rparr>)"
        "drv_frame s1 m' h' qs' x'" "length l = length l1" "unat k = unat (n_ops d) + 1 + npages (2 ^ b) (unat (len - ?n))"
        "map piece (take (unat k) l) = map piece (take (unat (n_ops d) + 1) l1) @ list_pieces (2 ^ b) hm (base' + 8 * (j + 1)) (unat (len - ?n))"
      using less.hyps [of "len - ?n" s1 base' "j + 1" d1] s1 lv(2) nx(4) [folded s1_def] less.prems(7,8) np l1(2,3) d1 by auto
    have step: "base' + 8 * (j + 1) = base' + 8 * j + 8" by simp
    have "prp_loop i len d s = Some (0, d1\<lparr>dma_list := l, n_ops := k\<rparr>, s1\<lparr>ram := m', host := h', queues := qs', prp_dma := x'\<rparr>)"
      using False nx(1) [folded s1_def e_def] lv(1) l1(1) [folded d1_def] ih(1) by (subst prp_loop.simps) (simp add: s1(3))
    moreover have "drv_frame s m' h' qs' x'" using drv_frame_trans [OF nx(2)] ih(2) by (simp add: s1_def)
    moreover have "list_pieces (2 ^ b) hm (base + 8 * i) (unat len)
        = (unat e, unat ?n) # list_pieces (2 ^ b) hm (base' + 8 * (j + 1)) (unat (len - ?n))"
      unfolding step using list_pieces_rec [of "2 ^ b" "unat len" hm "base + 8 * i"] pos by (simp add: nx(3) sub e_def n)
    ultimately show ?thesis using l1 ih(3-5) np
      by (intro exI [of _ l] exI [of _ k] exI [of _ m'] exI [of _ h'] exI [of _ qs'] exI [of _ x']) (simp add: d1_def s1_def)
  qed
qed

section \<open>Decoding\<close>

lemma decode_val_std:
  fixes s :: "'a nvme_st_scheme"
  assumes "drv_ok s" "length (dma_list d) \<le> 2 ^ 15" "min (unat (hostMemPageSize s)) (8 * length (dma_list d)) \<le> PrpListSize"
    and "std_valid (hostMemPageSize s) p1 p2 (host_mem (host s)) (unat (data_size d)) (length (dma_list d))"
  shows "\<exists>l k m h qs x. decode_prp_val p1 p2 d s = Some (0, d\<lparr>dma_list := l, n_ops := k\<rparr>, s\<lparr>ram := m, host := h, queues := qs, prp_dma := x\<rparr>) \<and>
      drv_frame s m h qs x \<and> length l = length (dma_list d) \<and> unat k \<le> length (dma_list d) \<and>
      map piece (take (unat k) l) = std_pieces (unat (hostMemPageSize s)) p1 p2 (host_mem (host s)) (unat (data_size d))"
proof -
  obtain b where b: "host_page s b" using drv_ok_page [OF assms(1)] by blast
  then have b16: "b \<le> 16" "hostMemPageSize s = 2 ^ b" by (simp_all add: host_page_def)
  note pg = host_page_nat [OF b]
  have pgs: "hostMemPageSize s \<noteq> 0" using pg by auto
  let ?pg = "2 ^ b :: nat" and ?len = "data_size d" and ?hm = "host_mem (host s)"
  define f where "f = min ?len (hostMemPageSize s - ucast (p1 mod ucast (hostMemPageSize s)))"
  define r where "r = ?len - f"
  have first: "unat f = prp_first ?pg (unat p1) (unat ?len)" unfolding f_def using b16 by (rule prp_first_unat)
  have "f \<le> ?len" by (simp add: f_def)
  then have rest: "unat r = unat ?len - prp_first ?pg (unat p1) (unat ?len)" by (simp add: r_def unat_sub first word_le_nat_alt)
  have v: "0 < unat r \<longrightarrow> p2 \<noteq> 0" "0 < unat r \<and> unat r \<le> ?pg \<longrightarrow> p2 AND ucast (hostMemPageSize s - 1) = 0"
    "?pg < unat r \<longrightarrow> list_valid (hostMemPageSize s) ?hm (unat p2) (unat r) \<and> (unat p2 mod ?pg = 0 \<or> unat p2 mod ?pg + 8 * npages ?pg (unat r) \<le> ?pg)"
    "1 + npages ?pg (unat r) \<le> length (dma_list d)"
    using assms(4) [unfolded std_valid_def Let_def pg rest [symmetric]] by blast+
  have lt: "hostMemPageSize s < r \<longleftrightarrow> ?pg < unat r" using pg by (simp add: word_less_nat_alt)
  have r0: "r = 0 \<longleftrightarrow> unat r = 0" by (simp add: unat_eq_0)
  have "unat (n_ops (d\<lparr>n_ops := 0\<rparr>)) < length (dma_list (d\<lparr>n_ops := 0\<rparr>))" "length (dma_list (d\<lparr>n_ops := 0\<rparr>)) \<le> 2 ^ 15"
    using v(4) assms(2) by (auto simp: Suc_le_eq)
  from add_entry_ok [OF this, of p1 f] obtain l1 where
    l1: "add_dma_entry p1 f (d\<lparr>n_ops := 0\<rparr>) = Some (d\<lparr>dma_list := l1, n_ops := 1\<rparr>)" "length l1 = length (dma_list d)"
      "map piece (take 1 l1) = [(unat p1, unat f)]" by auto
  define d1 where "d1 = d\<lparr>dma_list := l1, n_ops := 1\<rparr>"
  have d1: "dma_list d1 = l1" "n_ops d1 = 1" by (simp_all add: d1_def)
  have val: "decode_prp_val p1 p2 d s =
      (if r = 0 then Some (0, d1, s) else if p2 = 0 then Some (-1, d1, s)
       else if hostMemPageSize s < r then get_prp_page p2 (prp_list s) (prp_list_bytes s r) s \<bind> prp_loop 0 r d1
       else if p2 AND ucast (hostMemPageSize s - 1) \<noteq> 0 then Some (-1, d1, s)
       else add_dma_entry p2 r d1 \<bind> (\<lambda>d2. Some (0, d2, s)))"
    unfolding decode_prp_val_def Let_def f_def [symmetric] r_def [symmetric] using pgs l1(1) by (simp add: d1_def)
  have pieces: "std_pieces ?pg p1 p2 ?hm (unat ?len) = (unat p1, unat f) #
      (if unat r = 0 then [] else if unat r \<le> ?pg then [(unat p2, unat r)] else list_pieces ?pg ?hm (unat p2) (unat r))"
    by (simp add: std_pieces_def Let_def first rest)
  have same: "s\<lparr>ram := ram s, host := host s, queues := queues s, prp_dma := prp_dma s\<rparr> = s" by simp
  note refl_frame = drv_frame_refl [OF assms(1)]
  consider "unat r = 0" | "0 < unat r" "unat r \<le> ?pg" | "?pg < unat r" by linarith
  then show ?thesis
  proof cases
    case 1
    then have "decode_prp_val p1 p2 d s = Some (0, d1, s)" using val r0 by simp
    then show ?thesis unfolding pg pieces using 1 l1(2,3) refl_frame v(4) same
      by (intro exI [of _ l1] exI [of _ "1 :: u32"] exI [of _ "ram s"] exI [of _ "host s"] exI [of _ "queues s"] exI [of _ "prp_dma s"])
        (simp add: d1_def)
  next
    case 2
    then have np: "npages ?pg (unat r) = 1" by (simp add: npages_one)
    with v(4) have "unat (n_ops d1) < length (dma_list d1)" "length (dma_list d1) \<le> 2 ^ 15" using l1(2) assms(2) d1 by simp_all
    from add_entry_ok [OF this, of p2 r] obtain l2 where
      l2: "add_dma_entry p2 r d1 = Some (d1\<lparr>dma_list := l2, n_ops := 2\<rparr>)" "length l2 = length (dma_list d)"
        "map piece (take 2 l2) = [(unat p1, unat f), (unat p2, unat r)]"
      using l1(2,3) d1 by (auto simp: numeral_2_eq_2)
    have "decode_prp_val p1 p2 d s = Some (0, d1\<lparr>dma_list := l2, n_ops := 2\<rparr>, s)"
      using val r0 2 lt v(1,2) l2(1) by simp
    then show ?thesis unfolding pg pieces using 2 l2(2,3) refl_frame v(4) np same
      by (intro exI [of _ l2] exI [of _ "2 :: u32"] exI [of _ "ram s"] exI [of _ "host s"] exI [of _ "queues s"] exI [of _ "prp_dma s"])
        (simp add: d1_def)
  next
    case 3
    have fit: "lists_fit b (unat r)"
    proof -
      have "8 * min (2 ^ (b - 3)) (npages ?pg (unat r)) \<le> min ?pg (8 * length (dma_list d))"
        using v(4) page_div_8 [of b] b by (simp add: host_page_def min_mult_distrib_left [symmetric]) linarith
      then have "8 * min (2 ^ (b - 3)) (npages ?pg (unat r)) \<le> PrpListSize" using assms(3) unfolding pg by (rule le_trans)
      then show ?thesis using v(4) assms(2) by (simp add: lists_fit_def)
    qed
    have "0 < unat r" using 3 by simp
    with fetch_list [OF assms(1) b, of r p2] fit v(3) 3 obtain m h qs x where
      g: "get_prp_page p2 (prp_list s) (prp_list_bytes s r) s = Some (s\<lparr>ram := m, host := h, queues := qs, prp_dma := x\<rparr>)"
        "drv_frame s m h qs x"
        "list_loaded ?pg (unat p2) 0 (unat r) ?hm (s\<lparr>ram := m, host := h, queues := qs, prp_dma := x\<rparr>)"
      unfolding lists_fit_def by blast
    define s1 where "s1 = s\<lparr>ram := m, host := h, queues := qs, prp_dma := x\<rparr>"
    have s1: "drv_ok s1" "host_page s1 b" "?hm = host_mem (host s1)" "hostMemPageSize s1 = hostMemPageSize s"
      using drv_ok_step [OF assms(1) g(2)] b g(2) by (simp_all add: s1_def host_page_def drv_frame_def)
    have lv: "list_valid (hostMemPageSize s1) ?hm (unat p2 + 8 * 0) (unat r)" using v(3) 3 s1(4) by simp
    have len: "unat (n_ops d1) + npages ?pg (unat r) \<le> length (dma_list d1)" "length (dma_list d1) \<le> 2 ^ 15"
      using v(4) l1(2) assms(2) d1 by simp_all
    from chain_loop_ok [OF s1(1,2) fit s1(3) g(3) [folded s1_def] lv len] obtain l k m' h' qs' x' where
      lp: "prp_loop 0 r d1 s1 = Some (0, d1\<lparr>dma_list := l, n_ops := k\<rparr>, s1\<lparr>ram := m', host := h', queues := qs', prp_dma := x'\<rparr>)"
        "drv_frame s1 m' h' qs' x'" "length l = length l1" "unat k = 1 + npages ?pg (unat r)"
        "map piece (take (unat k) l) = map piece (take 1 l1) @ list_pieces ?pg ?hm (unat p2) (unat r)"
      using d1 by auto
    have "decode_prp_val p1 p2 d s = Some (0, d1\<lparr>dma_list := l, n_ops := k\<rparr>, s1\<lparr>ram := m', host := h', queues := qs', prp_dma := x'\<rparr>)"
      using val 3 r0 lt v(1) g(1) [folded s1_def] lp(1) by simp
    moreover have "drv_frame s m' h' qs' x'" using drv_frame_trans [OF g(2)] lp(2) by (simp add: s1_def)
    ultimately show ?thesis unfolding pg pieces using 3 l1(2,3) lp(3-5) v(4)
      by (intro exI [of _ l] exI [of _ k] exI [of _ m'] exI [of _ h'] exI [of _ qs'] exI [of _ x']) (simp add: d1_def s1_def)
  qed
qed

section \<open>Properties\<close>

text \<open>
  C11. For PRP fields the NVMe standard allows, \<open>decode_prp\<close> returns success with a scatter list whose pieces are the ones
  the standard assigns to the command (\<open>std_pieces\<close>): the entries of the PRP list in order, with the last entry of a full
  list page followed to the next list page as long as more than one page of data is left, through any number of list
  pages. The pieces cover exactly the data size and no piece crosses a page. Neither host memory nor SSD memory outside
  the driver's PRP buffer changes, and without a first PRP the result is an error. The theorem is for a first list page
  that is aligned or is not read to its end, for an object with room for all pieces, and for as many bytes of one list
  page as the PRP buffer holds.
\<close>

theorem decode_prp_follows_lists:
  fixes s :: "'a nvme_st_scheme"
  assumes "drv_ok s" "get_dma (DMA_OF q) s = Some d" "length (dma_list d) \<le> 2 ^ 15"
    and "min (unat (hostMemPageSize s)) (8 * length (dma_list d)) \<le> PrpListSize"
    and "std_valid (hostMemPageSize s) p1 p2 (host_mem (host s)) (unat (data_size d)) (length (dma_list d))"
  defines "pg \<equiv> unat (hostMemPageSize s)"
  shows "\<exists>s' d'. decode_prp p1 p2 (DMA_OF q) s = Some (0, s') \<and> drv_ok s' \<and> get_dma (DMA_OF q) s' = Some d' \<and>
      io_pieces d' = std_pieces pg p1 p2 (host_mem (host s)) (unat (data_size d)) \<and>
      nbytes (io_pieces d') = unat (data_size d) \<and> (\<forall>(a, n) \<in> set (io_pieces d'). n \<le> pg) \<and>
      unat (n_ops d') \<le> length (dma_list d) \<and> host_mem (host s') = host_mem (host s) \<and>
      (\<forall>x. x < prp_list s \<or> prp_list s + PrpListSize \<le> x \<longrightarrow> ram s' x = ram s x) \<and>
      decode_prp 0 p2 (DMA_OF q) s = Some (-1, s)"
proof -
  from decode_val_std [OF assms(1,3-5)] obtain l k m h qs x where
    v: "decode_prp_val p1 p2 d s = Some (0, d\<lparr>dma_list := l, n_ops := k\<rparr>, s\<lparr>ram := m, host := h, queues := qs, prp_dma := x\<rparr>)"
      "drv_frame s m h qs x" "unat k \<le> length (dma_list d)"
      "map piece (take (unat k) l) = std_pieces pg p1 p2 (host_mem (host s)) (unat (data_size d))"
    unfolding pg_def by blast
  let ?s1 = "s\<lparr>ram := m, host := h, queues := qs, prp_dma := x\<rparr>"
  let ?d' = "d\<lparr>dma_list := l, n_ops := k\<rparr>" and ?s' = "upd_dma (DMA_OF q) (\<lambda>_. d\<lparr>dma_list := l, n_ops := k\<rparr>) ?s1"
  have "p1 \<noteq> 0" using assms(5) by (simp add: std_valid_def Let_def)
  with v(1) assms(2) have r: "decode_prp p1 p2 (DMA_OF q) s = Some (0, ?s')" by (simp add: decode_prp_def)
  have pg: "0 < pg" using assms(1) by (auto simp: drv_ok_def pg_def page_size_nat)
  have get: "get_dma (DMA_OF q) ?s1 = Some d" using assms(2) by (simp add: get_dma_def)
  have "pools_len ?s1" using drv_ok_step [OF assms(1) v(2)] by (simp add: drv_ok_def)
  from get_upd_dma [OF this get] have d': "get_dma (DMA_OF q) ?s' = Some ?d'" .
  have ps: "io_pieces ?d' = std_pieces pg p1 p2 (host_mem (host s)) (unat (data_size d))" using v(4) by (simp add: io_pieces_def)
  have bd: "\<forall>(a, n) \<in> set (std_pieces pg p1 p2 (host_mem (host s)) (unat (data_size d))). n \<le> pg"
    using mod_less_divisor [OF pg, of "unat p1"]
    by (fastforce simp: std_pieces_def Let_def prp_first_def dest: list_pieces_in_page split: if_splits)
  have "drv_ok ?s'" using drv_ok_step [OF assms(1) v(2)] by (simp add: upd_dma_def drv_ok_upd_req)
  with r v(2,3) d' ps bd nbytes_std [OF pg] show ?thesis
    by (intro exI [of _ ?s'] exI [of _ ?d']) (simp add: drv_frame_def decode_prp_def)
qed

text \<open>Memory in which every entry is \<open>0x1000\<close>: 600 pages of 4 KB through a list page that links to another one.\<close>

definition entries_1000 :: mem where
  "entries_1000 x = (if x mod 8 = 1 then 0x10 else 0)"

lemma load_entries_1000: "8 dvd a \<Longrightarrow> load64 entries_1000 a = 0x1000"
  by (elim dvdE) (simp add: load64_def load32_def entries_1000_def mod_Suc)

lemma data_entry_1000: "8 dvd a \<Longrightarrow> 8 dvd data_entry 4096 entries_1000 a r"
  by (simp add: data_entry_def load_entries_1000)

lemma list_valid_1000: "8 dvd a \<Longrightarrow> list_valid 4096 entries_1000 a r"
proof (induction r arbitrary: a rule: less_induct)
  case (less r)
  show ?case
  proof (cases "r = 0")
    case False
    then have "list_valid 4096 entries_1000 (data_entry 4096 entries_1000 a r + 8) (r - min 4096 r)"
      using less.prems by (intro less.IH) (simp_all add: data_entry_1000)
    then show ?thesis using less.prems
      by (subst list_valid.simps) (simp add: bad_prp_def load_entries_1000 data_entry_1000)
  qed (simp add: list_valid.simps)
qed

lemma list_pieces_1000: "8 dvd a \<Longrightarrow> list_pieces 4096 entries_1000 a (n * 4096) = replicate n (0x1000, 4096)"
proof (induction n arbitrary: a)
  case (Suc n)
  then show ?case by (subst list_pieces_rec) (simp_all add: load_entries_1000 data_entry_1000)
qed simp

theorem decode_prp_follows_lists_witness:
  "\<exists>(s :: nvme_st) s' d'. decode_prp 0x1000 0x1000 (DMA_OF (R_REQ 0)) s = Some (0, s') \<and> get_dma (DMA_OF (R_REQ 0)) s' = Some d' \<and>
     io_pieces d' = replicate 600 (0x1000, 4096)"
proof -
  let ?d = "zero_dma\<lparr>data_size := 2457600, dma_list := replicate 1024 zero_dma_op\<rparr>"
  let ?i = "nvme_image (\<lambda>_. 0)"
  define s where "s = upd_req (R_REQ 0) (\<lambda>r. r\<lparr>dma := ?d\<rparr>) (?i\<lparr>host := (host ?i)\<lparr>host_mem := entries_1000\<rparr>\<rparr>)"
  have "drv_ok (?i\<lparr>host := (host ?i)\<lparr>host_mem := entries_1000\<rparr>\<rparr>)"
    using nvme_image_ok [of "\<lambda>_. 0"] by (simp add: drv_ok_def link_ok_def pools_len_def)
  then have ok: "drv_ok s" by (simp add: s_def drv_ok_upd_req)
  have pg: "hostMemPageSize s = 4096" and hm: "host_mem (host s) = entries_1000" by (simp_all add: s_def upd_req_def)
  have d: "get_dma (DMA_OF (R_REQ 0)) s = Some ?d" by (simp add: s_def get_dma_def get_req_def upd_req_def)
  have p: "std_pieces 4096 0x1000 0x1000 entries_1000 2457600 = replicate 600 (0x1000, 4096)"
    using list_pieces_1000 [of "0x1000" 599] replicate_Suc [of 599 "(0x1000 :: nat, 4096 :: nat)"]
    by (simp add: std_pieces_def prp_first_def Let_def del: replicate_Suc)
  have v: "std_valid 4096 0x1000 0x1000 entries_1000 2457600 1024"
    by (simp add: std_valid_def prp_first_def npages_def Let_def list_valid_1000)
  from decode_prp_follows_lists [OF ok d, where ?p1.0 = "0x1000" and ?p2.0 = "0x1000"] show ?thesis
    using v p by (auto simp: pg hm PrpListSize_def simp del: replicate_Suc)
qed

end
