(* ===== verification/Spec2Isabelle.thy ===== *)
theory Spec2Isabelle
  imports Kernel_Reach Uneq_Claims Nvme_Post Admin_Claims Cmd_Live Ftl_Restore Print_Lock Nand_Ctrl_Sync Event_Log Prp_Chain
begin

text \<open>
  S4Sim: a verification of the SSD firmware of the full-system storage simulator.

  \<^bold>\<open>The program.\<close> The firmware (\<^verbatim>\<open>src/firmware\<close>) runs on a simulated ARM machine with several cores. A small
  kernel schedules one thread per module; modules exchange request objects over message queues and
  wake each other by callbacks. The NVMe driver polls the doorbells of the host interface, fetches
  submission commands, allocates a request object, decodes its PRP fields to a scatter list and takes
  a page buffer. A read goes to the translation layer, which queues flash reads with the NAND driver
  and sends the request back; the driver then transfers the buffer to the host and posts a
  completion. A write is transferred from the host to the write-back cache, completed, and flushed to flash
  by the translation layer, which maps every logical page to a fresh physical page. Host memory is
  reached over queues and page registers in shared memory (\<^verbatim>\<open>src/include\<close>), served by a patched QEMU.

  \<^bold>\<open>State.\<close> Each module extends the record of the module below it, so one record is the state of the
  whole firmware and operations of a module apply to any state that contains its own:
  \<open>kernel_st\<close> (tables, message queues, callback queues), \<open>req_st\<close> (request objects), \<open>nand_st\<close>
  (operation objects, memory of the device, flash image), \<open>ftl_st\<close> (mapping tables), \<open>buf_st\<close> (page
  buffer and write-back cache), \<open>host_st\<close> (host interface, shared memory, host memory), \<open>nvme_st\<close>
  (queues, registers) and \<open>isp_st\<close> (applet thread). A pointer to an object is an index or a
  constructor (\<open>obj_ptr\<close>, \<open>op_ptr\<close>), a pointer into memory an address, a 32-bit or 64-bit field a word of
  its width. \<open>None\<close> is a call that does not return normally: an access out of bounds, a remainder
  modulo zero, a panic, or a wait that nothing ends.

  \<^bold>\<open>Theories\<close>, from the bottom up.
  \<^item> \<open>S4_Prelude\<close>: integer types, fact collections, ring-buffer arithmetic.
  \<^item> \<open>Containers\<close>: \<^verbatim>\<open>util.containers.c\<close>, \<^verbatim>\<open>util.memcp.c\<close>; the locale \<open>bounded_fifo\<close> is the contract of every
    queue of the firmware and is interpreted on each of them.
  \<^item> \<open>Kernel\<close>, \<open>Kernel_Reach\<close>: \<^verbatim>\<open>issd_kernel.c\<close>; invariant of the reachable states, queues as
    channels, scheduler, memory map, allocator, start of the cores.
  \<^item> \<open>Req_Alloc\<close>, \<open>Pool_View\<close>: \<^verbatim>\<open>issd_kernel_mem_alloc.c\<close>, \<^verbatim>\<open>global.h\<close>; pools of request objects.
  \<^item> \<open>Geometry\<close>, \<open>Nand_Io\<close>: geometry macros, \<open>ppa_t\<close>, \<^verbatim>\<open>low_level_nand_io.c\<close> and the controller's part of a
    command (\<^verbatim>\<open>iSSDNandCtrl.cc\<close>).
  \<^item> \<open>Nand_Ctrl\<close>, \<open>Nand_Ctrl_Inv\<close>, \<open>Nand_Ctrl_Step\<close>, \<open>Nand_Ctrl_Run\<close>, \<open>Nand_Ctrl_Claims\<close>, \<open>Nand_Ctrl_Sync\<close>: the whole controller
    (\<^verbatim>\<open>iSSDNandCtrl.hh\<close>, \<^verbatim>\<open>iSSDNandCtrl.cc\<close>) with its waiting rooms, chips, DMA engine and completion events. \<open>nc_run\<close>
    is the relation of all interleavings of register writes with events, \<open>nc_inv\<close> its invariant; \<open>flash_steps\<close> is the
    abstract flash, where each channel executes whole commands in order. The theorems of \<open>Nand_Ctrl_Sync\<close> justify the
    atomic model of \<open>Nand_Io\<close>, on which the translation layer rests.
  \<^item> \<open>Ftl_Map\<close>, \<open>Ftl_Inv\<close>: \<^verbatim>\<open>ftl.c\<close>, \<^verbatim>\<open>ftl.h\<close>; page allocation, the mapping and its invariant \<open>map_ok\<close>; the
    abstract mapping \<open>ftl_abs\<close> is a finite map from logical to physical pages.
  \<^item> \<open>Buffer_Mgt\<close>, \<open>Ftl_Io\<close>: \<^verbatim>\<open>buffer_mgt_1wbc-r.c\<close>, \<^verbatim>\<open>equal.pages.c\<close>; the abstract device \<open>lview\<close> gives the
    bytes of each logical page, zeros where nothing was written.
  \<^item> \<open>Ftl_Unequal\<close>, \<open>Ftl_Merge\<close>, \<open>Ftl_Extract\<close>, \<open>Uneq_Claims\<close>: \<^verbatim>\<open>unequal.pages.c\<close>, flash pages of several host
    pages; the state \<open>uneq_st\<close> extends \<open>buf_st\<close> beside \<open>host_st\<close>, and \<open>host_view\<close> gives the bytes of each host page.
  \<^item> \<open>Ftl_Save\<close>: saving and loading the tables, start of the module (\<^verbatim>\<open>ftl.c\<close>).
  \<^item> \<open>Host_Link\<close>, \<open>Host_Dma\<close>, \<open>Dma_Scatter\<close>: \<^verbatim>\<open>host_ssd_interface.h\<close>, \<^verbatim>\<open>iSSDHostInterface.cc\<close>, the message thread of
    the QEMU patch and \<^verbatim>\<open>host_dma.c\<close>; doorbells, register commands and transfers of scatter lists.
  \<^item> \<open>Nvme_Types\<close>, \<open>Nvme_Queues\<close>, \<open>Nvme_Prp\<close>, \<open>Nvme_Admin\<close>, \<open>Nvme_Io\<close>, \<open>Nvme_Post\<close>: \<^verbatim>\<open>nvmeDataStructures.h\<close>, \<^verbatim>\<open>nvme_driver.c\<close>.
    \<open>Prp_Chain\<close> takes \<open>decode_prp\<close> through PRP lists of any number of pages; the commands of the driver, with at most
    16 pages, use the part of \<open>Nvme_Prp\<close> for one list page.
  \<^item> \<open>Isp_Driver\<close>: \<^verbatim>\<open>isp.c\<close>, in-storage processing.
  \<^item> \<open>Uart_Print\<close>, \<open>Print_Lock\<close>: \<^verbatim>\<open>util.uart_print.c\<close>, formatting of numbers and texts, the lock of the print device.
  \<^item> \<open>Event_Log\<close>: \<^verbatim>\<open>iSSDStats.cc\<close>, the log of events, a device and a writer thread on an unlocked queue.
  \<^item> \<open>Io_Flow\<close>, \<open>Nvme_Cmds\<close>, \<open>Cmd_Props\<close>, \<open>Cmd_Claims\<close>, \<open>Cmd_Errors\<close>, \<open>Admin_Claims\<close>, \<open>Cmd_Live\<close>: the components together. A command is
    followed from its doorbell through all handlers that work on it to its completion entry in host
    memory; \<open>ftl_stage\<close> and \<open>complete_stage\<close> run the handlers of the messages in flight.

  \<^bold>\<open>Lemmas.\<close> Kernel: an inductive invariant over all operations, a simulation of bounded channels.
  The scheduler: the thread it picks and every skip count, slot by slot.
  Allocation and mapping: pool and table invariants, which pool serves which request type, refinement to a finite injective map, termination
  on new media up to the last page. Input and output: equality of the register-level driver with a copy
  of pages, the same result on the event-driven controller for every order of its events, read-your-writes on \<open>lview\<close>. Host side: exact contents of host memory after a transfer, PRP
  decoding against a specification of the standard with linked list pages, completions in order with alternating phase, whose
  requests go back to their pools.
  Commands: a write changes exactly its logical pages to the bytes of host memory, a read delivers
  them, a read after a write returns what was written; a rejected, a flush and an unknown command. Admin: a queue is created, an unknown command refused.
  Concurrency: the controller's events, the event log of two threads, the print lock and the start of the cores are
  relations with one step per shared access, and the theorems hold for every interleaving.
  Liveness: an endless run of a host that submits and acknowledges reads is served command by command.

  \<^bold>\<open>Bounds and waiting.\<close> Loops over tables carry the number of remaining iterations, which is the size
  of the table the C loop runs over, so no fuel is chosen freely. Loops whose end depends on data or on other modules (the search for a
  free page, PRP lists, the posting of completions, the queues for the page buffer) are
  \<open>partial_function\<close>, and the theorems on them state that they return. A synchronous transfer pushes to
  the queue of the DMA thread and runs the handler of that thread, which is what the waiting loop of
  the caller lets the kernel do. Theorems on commands take one command at a time on a quiet firmware
  (\<open>io_ready\<close>): the write path can program only once (finding on \<open>init_op_obj\<close>), so runs
  with several flushes do not exist in this program.

  \<^bold>\<open>Not modelled.\<close> The calls that print; boot code in assembly
  and the context switch (the scheduler is modelled up to it); the code of applets, an argument of the
  operations that call it; the time of events (the controller's latencies are computed and attached to its
  events, which the relation takes in any order), the loading of the flash image from a file, and the simulator's
  terminal, page buffer device (no longer built) and configuration; variants of the sources that the build does not select or that
  do not compile (\<^verbatim>\<open>buffer_mgt_Nwbc-r.c\<close>, \<^verbatim>\<open>low_level_nand_io_debug.c\<close>).
\<close>

end
